(* ===== verification/Guider_Prelude.thy ===== *)
theory Guider_Prelude
  imports Complex_Main "HOL-Library.Word" "HOL-Library.Multiset"
begin

text \<open>
  Shared vocabulary of the development: the macros and inline helpers of \<open>src/phd.h\<close> and
  \<open>src/image_math.h\<close> that several components use, the C conversions they rely on, the
  generic interface of a component that reacts to events, and lemmas on lists and reals.

  Conventions.  A C++ \<open>double\<close> is a \<^typ>\<open>real\<close>: rounding is not modelled.  Where the
  code can produce a NaN (a quotient whose divisor may be zero) the value is a
  \<open>real option\<close> with \<^term>\<open>None\<close> for the NaN, and the comparisons that involve it are
  written out.  A C++ \<open>int\<close> is an \<^typ>\<open>int\<close> where overflow plays no role, and a word of
  its width where it does.
\<close>

named_theorems clip_simps \<open>range facts about clipping and rounding\<close>
named_theorems preserves \<open>operations that keep the invariant of their component\<close>

section \<open>Macros and inline helpers of the code base\<close>

definition ROUND :: "real \<Rightarrow> int" where
  "ROUND x = \<lfloor>x + 1 / 2\<rfloor>"

definition wxClip :: "'a::linorder \<Rightarrow> 'a \<Rightarrow> 'a \<Rightarrow> 'a" where
  "wxClip x a b = (if x < a then a else if x > b then b else x)"

definition norm_range :: "real \<Rightarrow> real \<Rightarrow> real \<Rightarrow> real" where
  "norm_range val start fin =
     (let range = fin - start; ofs = val - start
      in val - of_int \<lfloor>ofs / range\<rfloor> * range)"

definition norm_angle :: "real \<Rightarrow> real" where
  "norm_angle val = norm_range val (- pi) pi"

definition degrees :: "real \<Rightarrow> real" where
  "degrees rad = rad * 180 / pi"

definition radians :: "real \<Rightarrow> real" where
  "radians deg = deg * pi / 180"

text \<open>Conversion of a floating-point value to an integer type: truncation towards zero.\<close>

definition c_trunc :: "real \<Rightarrow> int" where
  "c_trunc x = (if 0 \<le> x then \<lfloor>x\<rfloor> else \<lceil>x\<rceil>)"

text \<open>Integer division of C: truncation towards zero.\<close>

definition c_quot :: "int \<Rightarrow> int \<Rightarrow> int" where
  "c_quot a b = sgn a * sgn b * (\<bar>a\<bar> div \<bar>b\<bar>)"

definition DIV_ROUND_UP :: "int \<Rightarrow> int \<Rightarrow> int" where
  "DIV_ROUND_UP x y = c_quot (x + y - 1) y"

text \<open>\<open>std::lround\<close>: halves away from zero.\<close>

definition lround :: "real \<Rightarrow> int" where
  "lround x = (if 0 \<le> x then \<lfloor>x + 1 / 2\<rfloor> else - \<lfloor>1 / 2 - x\<rfloor>)"

text \<open>\<open>std::hypot\<close> and \<open>std::atan2\<close> of the C library.\<close>

definition hypot :: "real \<Rightarrow> real \<Rightarrow> real" where
  "hypot x y = sqrt (x * x + y * y)"

definition atan2 :: "real \<Rightarrow> real \<Rightarrow> real" where
  "atan2 y x =
     (if x > 0 then arctan (y / x)
      else if x < 0 then (if y \<ge> 0 then arctan (y / x) + pi else arctan (y / x) - pi)
      else if y > 0 then pi / 2
      else if y < 0 then - pi / 2
      else 0)"

text \<open>
  Conversion of a floating-point quotient to \<open>int\<close>.  The result is not determined by the
  language when the divisor is zero or the quotient is not representable: it is then the value
  \<open>bad\<close>, which every definition that converts takes as an argument.
\<close>

definition c_int :: "int \<Rightarrow> real \<Rightarrow> int" where
  "c_int bad x = (if - (2 ^ 31) \<le> c_trunc x \<and> c_trunc x < 2 ^ 31 then c_trunc x else bad)"

definition c_int_quot :: "int \<Rightarrow> real \<Rightarrow> real \<Rightarrow> int" where
  "c_int_quot bad a b = (if b = 0 then bad else c_int bad \<lfloor>a / b\<rfloor>)"

section \<open>Lemmas on the helpers\<close>

lemma wxClip_range [clip_simps]: "a \<le> b \<Longrightarrow> a \<le> wxClip x a b \<and> wxClip x a b \<le> b"
  by (auto simp: wxClip_def)

lemma wxClip_id [clip_simps]: "a \<le> x \<Longrightarrow> x \<le> b \<Longrightarrow> wxClip x a b = x"
  by (auto simp: wxClip_def)

lemma ROUND_of_int [simp]: "ROUND (of_int n) = n"
  unfolding ROUND_def by linarith

lemma ROUND_mono [clip_simps]: "x \<le> y \<Longrightarrow> ROUND x \<le> ROUND y"
  unfolding ROUND_def by (intro floor_mono) simp

lemma ROUND_nonneg [clip_simps]: "0 \<le> x \<Longrightarrow> 0 \<le> ROUND x"
  unfolding ROUND_def by simp

lemma ROUND_error: "\<bar>of_int (ROUND x) - x\<bar> \<le> 1 / 2"
  unfolding ROUND_def by linarith

lemma hypot_nonneg [simp]: "0 \<le> hypot x y"
  by (simp add: hypot_def)

lemma hypot_eq_0 [simp]: "hypot x y = 0 \<longleftrightarrow> x = 0 \<and> y = 0"
  by (simp add: hypot_def sum_squares_eq_zero_iff)

lemma hypot_sq: "hypot x y * hypot x y = x * x + y * y"
  unfolding hypot_def by (metis real_sqrt_mult_self abs_of_nonneg sum_squares_ge_zero)

lemma norm_range_bounds:
  assumes "start < fin"
  shows "start \<le> norm_range val start fin \<and> norm_range val start fin < fin"
proof -
  let ?q = "(val - start) / (fin - start)"
  have pos: "0 < fin - start" using assms by simp
  have q: "?q * (fin - start) = val - start" using pos by simp
  have "of_int \<lfloor>?q\<rfloor> * (fin - start) \<le> ?q * (fin - start)"
    using pos by (intro mult_right_mono) auto
  moreover have "?q * (fin - start) < (of_int \<lfloor>?q\<rfloor> + 1) * (fin - start)"
    using pos by (intro mult_strict_right_mono) linarith+
  ultimately show ?thesis
    using q by (simp add: norm_range_def Let_def algebra_simps)
qed

lemma norm_angle_bounds: "- pi \<le> norm_angle a \<and> norm_angle a < pi"
  unfolding norm_angle_def by (rule norm_range_bounds) (simp add: pi_gt_zero)

lemma norm_angle_shift: "\<exists>k::int. norm_angle a = a - of_int k * (2 * pi)"
  by (auto simp: norm_angle_def norm_range_def Let_def intro!: exI)

lemma sin_periodic_int: "sin (x - of_int k * (2 * pi)) = sin x"
  using sin_diff[of x "of_int k * (2 * pi)"] cos_int_2pin[of k] sin_int_2pin[of k]
  by (simp add: ac_simps)

lemma cos_periodic_int: "cos (x - of_int k * (2 * pi)) = cos x"
  using cos_diff[of x "of_int k * (2 * pi)"] cos_int_2pin[of k] sin_int_2pin[of k]
  by (simp add: ac_simps)

lemma sin_norm_angle [simp]: "sin (norm_angle a) = sin a"
  using norm_angle_shift[of a] sin_periodic_int by metis

lemma cos_norm_angle [simp]: "cos (norm_angle a) = cos a"
  using norm_angle_shift[of a] cos_periodic_int by metis

lemma norm_angle_unique:
  assumes "- pi \<le> b" and "b < pi" and "a = b + of_int k * (2 * pi)"
  shows "norm_angle a = b"
proof -
  have "(a - - pi) / (pi - - pi) = (b + pi) / (2 * pi) + of_int k"
    using pi_gt_zero by (simp add: assms(3) field_simps)
  moreover have "\<lfloor>(b + pi) / (2 * pi) + of_int k\<rfloor> = k"
    using assms(1,2) pi_gt_zero by (simp add: floor_eq_iff field_simps)
  ultimately show ?thesis
    by (simp add: norm_angle_def norm_range_def Let_def assms(3))
qed

lemma norm_angle_id: "- pi \<le> a \<Longrightarrow> a < pi \<Longrightarrow> norm_angle a = a"
  using norm_angle_unique[of a a 0] by simp

lemma cos_arctan_div:
  assumes "x > 0"
  shows "hypot x y * cos (arctan (y / x)) = x" and "hypot x y * sin (arctan (y / x)) = y"
proof -
  have "1 + (y / x)\<^sup>2 = (x * x + y * y) / (x * x)"
    using assms by (simp add: field_simps power2_eq_square)
  then have s: "sqrt (1 + (y / x)\<^sup>2) = hypot x y / x"
    using assms by (simp add: hypot_def real_sqrt_divide real_sqrt_mult)
  have h: "hypot x y > 0" using assms by (simp add: less_le)
  show "hypot x y * cos (arctan (y / x)) = x"
    using h assms by (simp add: cos_arctan s)
  show "hypot x y * sin (arctan (y / x)) = y"
    using h assms by (simp add: sin_arctan s)
qed

lemma hypot_minus [simp]: "hypot (- x) y = hypot x y" "hypot x (- y) = hypot x y"
  by (simp_all add: hypot_def)

lemma atan2_polar: "hypot x y * cos (atan2 y x) = x \<and> hypot x y * sin (atan2 y x) = y"
proof -
  consider "x > 0" | "x < 0" | "x = 0" by linarith
  then show ?thesis
  proof cases
    case 1
    then show ?thesis using cos_arctan_div[of x y] by (simp add: atan2_def)
  next
    case 2
    then have "hypot x y * cos (arctan (y / x)) = - x" "hypot x y * sin (arctan (y / x)) = - y"
      using cos_arctan_div[of "- x" "- y"] by simp_all
    with 2 show ?thesis
      by (simp add: atan2_def cos_diff sin_diff)
  next
    case 3
    then show ?thesis by (auto simp: atan2_def hypot_def)
  qed
qed

lemma atan2_scale: "0 < k \<Longrightarrow> atan2 (k * y) (k * x) = atan2 y x"
  by (simp add: atan2_def zero_less_mult_iff mult_less_0_iff zero_le_mult_iff)

section \<open>Components that react to events\<close>

text \<open>
  The interface shared by the stateful components: an operation that takes the state and an
  event to the next state, and an invariant that it keeps.  The client lemma lifts the
  invariant to a whole run.
\<close>

fun run_events :: "('s \<Rightarrow> 'e \<Rightarrow> 's) \<Rightarrow> 's \<Rightarrow> 'e list \<Rightarrow> 's" where
  "run_events f s [] = s"
| "run_events f s (e # es) = run_events f (f s e) es"

lemma run_events_append: "run_events f s (xs @ ys) = run_events f (run_events f s xs) ys"
  by (induction xs arbitrary: s) auto

locale event_machine =
  fixes step :: "'s \<Rightarrow> 'e \<Rightarrow> 's"
    and invar :: "'s \<Rightarrow> bool"
  assumes invar_step: "invar s \<Longrightarrow> invar (step s e)"
begin

lemma invar_run: "invar s \<Longrightarrow> invar (run_events step s es)"
  by (induction es arbitrary: s) (auto intro: invar_step)

lemma invar_run_prefix: "invar s \<Longrightarrow> invar (run_events step s (take n es))"
  by (rule invar_run)

end

text \<open>The same for operations that can fail, with \<^term>\<open>None\<close> for a failed assertion or an access
  out of range: the client lemma says that no run from a good state fails.\<close>

fun run_partial :: "('s \<Rightarrow> 'e \<Rightarrow> 's option) \<Rightarrow> 's \<Rightarrow> 'e list \<Rightarrow> 's option" where
  "run_partial f s [] = Some s"
| "run_partial f s (e # es) = (case f s e of None \<Rightarrow> None | Some s' \<Rightarrow> run_partial f s' es)"

lemma run_partial_append:
  "run_partial f s (xs @ ys) = (case run_partial f s xs of None \<Rightarrow> None | Some s' \<Rightarrow> run_partial f s' ys)"
  by (induction xs arbitrary: s) (auto split: option.splits)

locale partial_machine =
  fixes step :: "'s \<Rightarrow> 'e \<Rightarrow> 's option"
    and invar :: "'s \<Rightarrow> bool"
  assumes step_ok: "invar s \<Longrightarrow> \<exists>s'. step s e = Some s' \<and> invar s'"
begin

lemma run_ok: "invar s \<Longrightarrow> \<exists>s'. run_partial step s es = Some s' \<and> invar s'"
proof (induction es arbitrary: s)
  case (Cons e es)
  obtain s' where "step s e = Some s'" "invar s'" using step_ok[OF Cons.prems] by blast
  then show ?case using Cons.IH[of s'] by simp
qed simp

lemma run_never_fails: "invar s \<Longrightarrow> run_partial step s es \<noteq> None"
  using run_ok by fastforce

end

section \<open>Lists\<close>

lemma sorted_last_max: "sorted xs \<Longrightarrow> x \<in> set xs \<Longrightarrow> x \<le> last xs"
  by (metis last_conv_nth in_set_conv_nth sorted_iff_nth_mono length_greater_0_conv
      list.size(3) not_less_zero One_nat_def Suc_pred less_Suc_eq_le diff_Suc_less)

lemma sum_list_map_snoc: "sum_list (map f (xs @ [x])) = sum_list (map f xs) + (f x :: real)"
  by simp

lemma length_filter_ge_0: "length (filter P xs) = 0 \<longleftrightarrow> (\<forall>x\<in>set xs. \<not> P x)"
  by (simp add: filter_empty_conv)

end
