(* ===== verification/Phd_Point.thy ===== *)
theory Phd_Point
  imports Guider_Prelude
begin

text \<open>
  The points of \<open>src/point.h\<close>: coordinates with a validity flag.  An operation that asserts
  the validity of its operands is \<^term>\<open>None\<close> when the assertion fails.  An invalidated point
  keeps its coordinates.  A \<open>ShiftPoint\<close> moves with a constant rate from the position and time
  at which the shift began; \<open>now\<close> is the UTC time in milliseconds.
\<close>

record PHD_Point =
  p_valid :: bool
  pX :: real
  pY :: real

definition PHD_Point_new :: "real \<Rightarrow> real \<Rightarrow> PHD_Point" where
  "PHD_Point_new x y = \<lparr>p_valid = True, pX = x, pY = y\<rparr>"

definition PHD_Point_invalid :: PHD_Point where
  "PHD_Point_invalid = \<lparr>p_valid = False, pX = 0, pY = 0\<rparr>"

definition p_Invalidate :: "PHD_Point \<Rightarrow> PHD_Point" where
  "p_Invalidate p = p\<lparr>p_valid := False\<rparr>"

definition p_SetXY :: "PHD_Point \<Rightarrow> real \<Rightarrow> real \<Rightarrow> PHD_Point" where
  "p_SetXY p x y = p\<lparr>pX := x, pY := y, p_valid := True\<rparr>"

definition p_dX :: "PHD_Point \<Rightarrow> PHD_Point \<Rightarrow> real option" where
  "p_dX a b = (if p_valid a \<and> p_valid b then Some (pX a - pX b) else None)"

definition p_dY :: "PHD_Point \<Rightarrow> PHD_Point \<Rightarrow> real option" where
  "p_dY a b = (if p_valid a \<and> p_valid b then Some (pY a - pY b) else None)"

definition p_DistanceTo :: "PHD_Point \<Rightarrow> PHD_Point \<Rightarrow> real option" where
  "p_DistanceTo a b = (case (p_dX a b, p_dY a b) of (Some dx, Some dy) \<Rightarrow> Some (hypot dx dy) | _ \<Rightarrow> None)"

definition p_Distance :: "PHD_Point \<Rightarrow> real" where
  "p_Distance p = hypot (pX p) (pY p)"

definition p_AngleTo :: "PHD_Point \<Rightarrow> PHD_Point \<Rightarrow> real option" where
  "p_AngleTo a b = (case (p_dX a b, p_dY a b) of
     (Some dx, Some dy) \<Rightarrow> Some (if dx \<noteq> 0 \<or> dy \<noteq> 0 then atan2 dy dx else 0) | _ \<Rightarrow> None)"

definition p_Angle :: "PHD_Point \<Rightarrow> real option" where
  "p_Angle p = p_AngleTo p (PHD_Point_new 0 0)"

definition p_add :: "PHD_Point \<Rightarrow> PHD_Point \<Rightarrow> PHD_Point option" where
  "p_add a b = (if p_valid a \<and> p_valid b then Some (PHD_Point_new (pX a + pX b) (pY a + pY b)) else None)"

definition p_sub :: "PHD_Point \<Rightarrow> PHD_Point \<Rightarrow> PHD_Point option" where
  "p_sub a b = (if p_valid a \<and> p_valid b then Some (PHD_Point_new (pX a - pX b) (pY a - pY b)) else None)"

definition p_scale :: "PHD_Point \<Rightarrow> real \<Rightarrow> PHD_Point option" where
  "p_scale a k = (if p_valid a then Some (PHD_Point_new (pX a * k) (pY a * k)) else None)"

text \<open>The base class part of a \<open>ShiftPoint\<close> is the field \<open>sp_pos\<close>.\<close>

record ShiftPoint =
  sp_pos :: PHD_Point
  m_rate :: PHD_Point
  m_x0 :: real
  m_y0 :: real
  m_t0 :: int

definition BeginShift :: "int \<Rightarrow> ShiftPoint \<Rightarrow> ShiftPoint" where
  "BeginShift now s =
     (if p_valid (sp_pos s) then s\<lparr>m_x0 := pX (sp_pos s), m_y0 := pY (sp_pos s), m_t0 := now\<rparr> else s)"

definition SetShiftRate :: "int \<Rightarrow> real \<Rightarrow> real \<Rightarrow> ShiftPoint \<Rightarrow> ShiftPoint" where
  "SetShiftRate now xrate yrate s = BeginShift now (s\<lparr>m_rate := p_SetXY (m_rate s) xrate yrate\<rparr>)"

definition DisableShift :: "ShiftPoint \<Rightarrow> ShiftPoint" where
  "DisableShift s = s\<lparr>m_rate := p_Invalidate (m_rate s)\<rparr>"

definition UpdateShift :: "int \<Rightarrow> ShiftPoint \<Rightarrow> ShiftPoint" where
  "UpdateShift now s =
     (if p_valid (sp_pos s) \<and> p_valid (m_rate s)
      then let dt = real_of_int (now - m_t0 s) / 1000
           in s\<lparr>sp_pos := (sp_pos s)\<lparr>pX := m_x0 s + pX (m_rate s) * dt, pY := m_y0 s + pY (m_rate s) * dt\<rparr>\<rparr>
      else s)"

definition sp_SetXY :: "int \<Rightarrow> real \<Rightarrow> real \<Rightarrow> ShiftPoint \<Rightarrow> ShiftPoint" where
  "sp_SetXY now x y s = BeginShift now (s\<lparr>sp_pos := p_SetXY (sp_pos s) x y\<rparr>)"

definition sp_Invalidate :: "ShiftPoint \<Rightarrow> ShiftPoint" where
  "sp_Invalidate s = s\<lparr>sp_pos := p_Invalidate (sp_pos s)\<rparr>"

lemmas point_ops = p_SetXY_def p_Invalidate_def PHD_Point_new_def PHD_Point_invalid_def
  BeginShift_def sp_SetXY_def sp_Invalidate_def

lemma PHD_Point_new_simps [simp]:
  "p_valid (PHD_Point_new x y)" "pX (PHD_Point_new x y) = x" "pY (PHD_Point_new x y) = y"
  by (simp_all add: PHD_Point_new_def)

lemma p_Invalidate_simps [simp]:
  "\<not> p_valid (p_Invalidate p)" "pX (p_Invalidate p) = pX p" "pY (p_Invalidate p) = pY p"
  by (simp_all add: p_Invalidate_def)

lemma sp_SetXY_simps [simp]:
  "sp_pos (sp_SetXY now x y s) = PHD_Point_new x y" "m_rate (sp_SetXY now x y s) = m_rate s"
  by (simp_all add: point_ops)

lemma sp_Invalidate_simps [simp]:
  "sp_pos (sp_Invalidate s) = p_Invalidate (sp_pos s)" "m_rate (sp_Invalidate s) = m_rate s"
  by (simp_all add: sp_Invalidate_def)

lemma UpdateShift_valid [simp]: "p_valid (sp_pos (UpdateShift now s)) = p_valid (sp_pos s)"
  by (simp add: UpdateShift_def Let_def)

text \<open>A shift depends only on the elapsed time: updating twice is updating at the later time.\<close>

lemma UpdateShift_twice: "UpdateShift t2 (UpdateShift t1 s) = UpdateShift t2 s"
  by (auto simp: UpdateShift_def Let_def)

lemma UpdateShift_linear:
  assumes "p_valid (m_rate s)"
  shows "sp_pos (UpdateShift now (sp_SetXY t0 x y s)) =
    PHD_Point_new (x + pX (m_rate s) * (real_of_int (now - t0) / 1000))
                  (y + pY (m_rate s) * (real_of_int (now - t0) / 1000))"
  using assms by (simp add: UpdateShift_def point_ops Let_def)

end
