(* ===== verification/Static_Polar.thy ===== *)
theory Static_Polar
  imports Phd_Point "HOL-Library.Word" "HOL-Library.Monad_Syntax"
begin

text \<open>
  The geometry of static polar alignment, \<open>src/staticpa_geometry.cpp\<close>: the centre about which the stars turn on
  the sensor, from three points or from two and the rotation between them; the corrections of the mount; the projection of
  a reference star; precession.  Where a quotient is not finite the result is the circle that is not valid.
\<close>

section \<open>The code\<close>

record Px =
  px_x :: real
  px_y :: real

record Circle =
  c_x :: real
  c_y :: real
  c_r :: real
  c_valid :: bool

definition no_circle :: Circle where
  "no_circle = \<lparr>c_x = 0, c_y = 0, c_r = 0, c_valid = False\<rparr>"

definition CircleFrom3Points :: "Px \<Rightarrow> Px \<Rightarrow> Px \<Rightarrow> Circle" where
  "CircleFrom3Points p1 p2 p3 =
     (let x1 = px_x p1; y1 = px_y p1; x2 = px_x p2; y2 = px_y p2; x3 = px_x p3; y3 = px_y p3;
          a = x1 * x1 + y1 * y1; b = x1; c = y1;
          e = x2 * x2 + y2 * y2; f = x2; g = y2;
          i = x3 * x3 + y3 * y3; j = x3; k = y3;
          m11 = b * g + c * j + f * k - g * j - c * f - b * k;
          m12 = a * g + c * i + e * k - g * i - c * e - a * k;
          m13 = a * f + b * i + e * j - f * i - b * e - a * j;
          m14 = a * f * k + b * g * i + c * e * j - c * f * i - b * e * k - a * g * j
      in if m11 = 0 then no_circle
         else let x = (1 / 2) * m12 / m11; y = (- 1 / 2) * m13 / m11; rsq = x * x + y * y + m14 / m11
              in if rsq < 0 then no_circle else \<lparr>c_x = x, c_y = y, c_r = sqrt rsq, c_valid = True\<rparr>)"

text \<open>The circle, and the slope from the chord to the centre.\<close>

definition CircleFrom2PointsAndAngle :: "Px \<Rightarrow> Px \<Rightarrow> real \<Rightarrow> int \<Rightarrow> Circle \<times> real" where
  "CircleFrom2PointsAndAngle p1 p2 radiff hemi =
     (let x1 = px_x p1; y1 = px_y p1; x2 = px_x p2; y2 = px_y p2;
          theta2 = radiff / 2; sintheta2 = sin theta2; lenchord = hypot (x1 - x2) (y1 - y2)
      in if sintheta2 = 0 then (no_circle, 0)
         else let cr = \<bar>lenchord / 2 / sintheta2\<bar>;
                  slopebase = atan2 (y1 - y2) (x2 - x1) - of_int hemi * pi / 2;
                  lenbase = \<bar>cr * cos theta2\<bar>
              in (\<lparr>c_x = (x1 + x2) / 2 + lenbase * cos slopebase, c_y = (y1 + y2) / 2 - lenbase * sin slopebase,
                   c_r = cr, c_valid = True\<rparr>, slopebase))"

record CorrVectors =
  cv_a :: Px
  cv_b :: Px

definition DecomposeCoR :: "Circle \<Rightarrow> int \<Rightarrow> int \<Rightarrow> real \<Rightarrow> CorrVectors" where
  "DecomposeCoR cor widthPx heightPx camAngleDeg =
     (let dx = of_int (c_quot widthPx 2) - c_x cor; dy = of_int (c_quot heightPx 2) - c_y cor;
          cor_r = hypot dx dy; cor_a = degrees (atan2 dy dx); rarot = - camAngleDeg;
          dec_r = cor_r * sin (radians (cor_a - rarot)); cone_r = cor_r * cos (radians (cor_a - rarot))
      in \<lparr>cv_a = \<lparr>px_x = - dec_r * sin (radians rarot), px_y = dec_r * cos (radians rarot)\<rparr>,
          cv_b = \<lparr>px_x = cone_r * cos (radians rarot), px_y = cone_r * sin (radians rarot)\<rparr>\<rparr>)"

definition Radec2Px :: "real \<Rightarrow> real \<Rightarrow> real \<Rightarrow> real \<Rightarrow> real \<Rightarrow> bool \<Rightarrow> int \<Rightarrow> Px" where
  "Radec2Px starRaDeg starDecDeg pxScale ra_deg camAngleDeg flip hemi =
     (let r = (90 - \<bar>starDecDeg\<bar>) * 3600 / pxScale;
          a1 = norm_range (starRaDeg - (ra_deg - 90)) 0 360;
          l_camAngle = norm_range (if flip then camAngleDeg + 180 else camAngleDeg) 0 360;
          a = l_camAngle - a1 * of_int hemi
      in \<lparr>px_x = r * cos (radians a), px_y = - r * sin (radians a)\<rparr>)"

record AltAzResult =
  aa_vec :: CorrVectors
  altErrPx :: real
  azErrPx :: real
  totErrPx :: real
  aa_rarot :: real
  aa_harot :: real
  hcorAngle :: real

definition DecomposeAltAz :: "Px \<Rightarrow> Px \<Rightarrow> real \<Rightarrow> real \<Rightarrow> AltAzResult" where
  "DecomposeAltAz target measured camAngleDeg ha_deg =
     (let dx = px_x target - px_x measured; dy = px_y target - px_y measured;
          hcor_r = hypot dx dy; hcor_a = degrees (atan2 dy dx); rarot = - camAngleDeg;
          harot = norm_range (rarot - (90 + ha_deg)) 0 360;
          hrot = norm_range (hcor_a - harot) 0 360;
          az_r = hcor_r * sin (radians hrot); alt_r = hcor_r * cos (radians hrot)
      in \<lparr>aa_vec = \<lparr>cv_a = \<lparr>px_x = - az_r * sin (radians harot), px_y = az_r * cos (radians harot)\<rparr>,
                      cv_b = \<lparr>px_x = alt_r * cos (radians harot), px_y = alt_r * sin (radians harot)\<rparr>\<rparr>,
          altErrPx = alt_r, azErrPx = az_r, totErrPx = hcor_r, aa_rarot = rarot, aa_harot = harot, hcorAngle = hcor_a\<rparr>)"

text \<open>The three angles of precession, in radians, the rotation they make, and the coordinates it gives.\<close>

definition precession_angles :: "real \<Rightarrow> real \<times> real \<times> real" where
  "precession_angles days =
     (let tnow = days / 36525; t2 = tnow ^ 2; t3 = tnow ^ 3;
          zeta = 2.5976176 + 2306.0809506 * tnow + 0.3019015 * t2 + 0.0179663 * t3;
          zed = - 2.5976176 + 2306.0803226 * tnow + 1.0947790 * t2 + 0.0182273 * t3;
          theta = 2004.1917476 * tnow - 0.4269353 * t2 - 0.0418251 * t3
      in (radians (zeta / 3600), radians (zed / 3600), radians (theta / 3600)))"

definition precess_rotate :: "real \<Rightarrow> real \<Rightarrow> real \<Rightarrow> real \<times> real \<times> real \<Rightarrow> real \<times> real \<times> real" where
  "precess_rotate zeta zed theta v =
     (let (x0, y0, z0) = v;
          Xx = cos zed * cos theta * cos zeta - sin zed * sin zeta;
          Yx = - cos zed * cos theta * sin zeta - sin zed * cos zeta;
          Zx = - cos zed * sin theta;
          Xy = sin zed * cos theta * cos zeta + cos zed * sin zeta;
          Yy = - sin zed * cos theta * sin zeta + cos zed * cos zeta;
          Zy = - sin zed * sin theta;
          Xz = sin theta * cos zeta;
          Yz = - sin theta * sin zeta;
          Zz = cos theta
      in (Xx * x0 + Yx * y0 + Zx * z0, Xy * x0 + Yy * y0 + Zy * z0, Xz * x0 + Yz * y0 + Zz * z0))"

definition sky_vector :: "real \<Rightarrow> real \<Rightarrow> real \<times> real \<times> real" where
  "sky_vector raDeg decDeg =
     (cos (radians decDeg) * cos (radians raDeg), cos (radians decDeg) * sin (radians raDeg), sin (radians decDeg))"

definition sky_coordinates :: "real \<times> real \<times> real \<Rightarrow> Px" where
  "sky_coordinates v =
     (let (x, y, z0) = v; z = max (- 1) (min 1 z0)
      in \<lparr>px_x = norm_range (degrees (atan2 y x)) 0 360, px_y = degrees (atan2 z (sqrt (1 - z * z)))\<rparr>)"

definition PrecessJ2000 :: "real \<Rightarrow> real \<Rightarrow> real \<Rightarrow> Px" where
  "PrecessJ2000 days raDeg decDeg =
     (let (zeta, zed, theta) = precession_angles days in sky_coordinates (precess_rotate zeta zed theta (sky_vector raDeg decDeg)))"

section \<open>Circles\<close>

definition on_circle :: "Circle \<Rightarrow> Px \<Rightarrow> bool" where
  "on_circle c p \<longleftrightarrow> (px_x p - c_x c)\<^sup>2 + (px_y p - c_y c)\<^sup>2 = (c_r c)\<^sup>2"

definition signed_area :: "Px \<Rightarrow> Px \<Rightarrow> Px \<Rightarrow> real" where
  "signed_area p q r = (px_x q - px_x p) * (px_y r - px_y p) - (px_y q - px_y p) * (px_x r - px_x p)"

text \<open>The determinant construction solves the equations of the circle.\<close>

lemma three_point_equation:
  fixes x1 y1 x2 y2 x3 y3 :: real
  defines "m11 \<equiv> x1 * y2 + y1 * x3 + x2 * y3 - y2 * x3 - y1 * x2 - x1 * y3"
    and "a \<equiv> x1 * x1 + y1 * y1" and "e \<equiv> x2 * x2 + y2 * y2" and "i \<equiv> x3 * x3 + y3 * y3"
  defines "m12 \<equiv> a * y2 + y1 * i + e * y3 - y2 * i - y1 * e - a * y3"
    and "m13 \<equiv> a * x2 + x1 * i + e * x3 - x2 * i - x1 * e - a * x3"
    and "m14 \<equiv> a * x2 * y3 + x1 * y2 * i + y1 * e * x3 - y1 * x2 * i - x1 * e * y3 - a * y2 * x3"
  shows "a * m11 - x1 * m12 + y1 * m13 = m14" "e * m11 - x2 * m12 + y2 * m13 = m14" "i * m11 - x3 * m12 + y3 * m13 = m14"
  unfolding m11_def m12_def m13_def m14_def a_def e_def i_def by algebra+

lemma point_on_circle:
  fixes x y m m12 m13 m14 a p q :: real
  assumes "a * m - p * m12 + q * m13 = m14" "m \<noteq> 0" "x = (1 / 2) * m12 / m" "y = (- 1 / 2) * m13 / m" "a = p * p + q * q"
  shows "(p - x)\<^sup>2 + (q - y)\<^sup>2 = x * x + y * y + m14 / m"
proof -
  have "m14 / m = a - p * (m12 / m) + q * (m13 / m)" using assms(1,2) by (simp add: field_simps)
  moreover have "m12 / m = 2 * x" "m13 / m = - 2 * y" using assms(3,4) by simp_all
  ultimately show ?thesis using assms(5) by (simp add: power2_eq_square algebra_simps)
qed

text \<open>C31: circle_through_three_points.  Three measured positions that do not lie on a line give a valid circle, and
all three lie on it; for positions on a line there is none.\<close>

theorem circle_through_three_points:
  "let c = CircleFrom3Points p1 p2 p3
   in if signed_area p1 p2 p3 = 0 then \<not> c_valid c
      else c_valid c \<and> 0 \<le> c_r c \<and> on_circle c p1 \<and> on_circle c p2 \<and> on_circle c p3"
proof -
  define x1 y1 x2 y2 x3 y3 where xy: "x1 = px_x p1" "y1 = px_y p1" "x2 = px_x p2" "y2 = px_y p2" "x3 = px_x p3" "y3 = px_y p3"
  define a e i where sq: "a = x1 * x1 + y1 * y1" "e = x2 * x2 + y2 * y2" "i = x3 * x3 + y3 * y3"
  define m11 where "m11 = x1 * y2 + y1 * x3 + x2 * y3 - y2 * x3 - y1 * x2 - x1 * y3"
  define m12 where "m12 = a * y2 + y1 * i + e * y3 - y2 * i - y1 * e - a * y3"
  define m13 where "m13 = a * x2 + x1 * i + e * x3 - x2 * i - x1 * e - a * x3"
  define m14 where "m14 = a * x2 * y3 + x1 * y2 * i + y1 * e * x3 - y1 * x2 * i - x1 * e * y3 - a * y2 * x3"
  define x y where c: "x = (1 / 2) * m12 / m11" "y = (- 1 / 2) * m13 / m11"
  define rsq where "rsq = x * x + y * y + m14 / m11"
  have area: "signed_area p1 p2 p3 = m11" by (simp add: signed_area_def m11_def xy algebra_simps)
  have res: "CircleFrom3Points p1 p2 p3 = (if m11 = 0 then no_circle else if rsq < 0 then no_circle
      else \<lparr>c_x = x, c_y = y, c_r = sqrt rsq, c_valid = True\<rparr>)"
    unfolding CircleFrom3Points_def Let_def xy[symmetric] sq[symmetric] m11_def[symmetric] m12_def[symmetric] m13_def[symmetric]
      m14_def[symmetric] c[symmetric] rsq_def[symmetric] by (rule refl)
  show ?thesis
  proof (cases "m11 = 0")
    case True
    then show ?thesis by (simp add: res area no_circle_def)
  next
    case False
    note eqs = three_point_equation[where ?x1.0 = x1 and ?y1.0 = y1 and ?x2.0 = x2 and ?y2.0 = y2 and ?x3.0 = x3 and ?y3.0 = y3, folded sq m11_def, folded m12_def m13_def m14_def]
    have p: "(x1 - x)\<^sup>2 + (y1 - y)\<^sup>2 = rsq" "(x2 - x)\<^sup>2 + (y2 - y)\<^sup>2 = rsq" "(x3 - x)\<^sup>2 + (y3 - y)\<^sup>2 = rsq"
      unfolding rsq_def using point_on_circle[OF eqs(1) False c sq(1)] point_on_circle[OF eqs(2) False c sq(2)]
        point_on_circle[OF eqs(3) False c sq(3)] by simp_all
    have "0 \<le> rsq" unfolding p(1)[symmetric] by simp
    then show ?thesis using False p by (simp add: res area Let_def on_circle_def xy)
  qed
qed

lemma chord_half_square:
  fixes L s c cr :: real
  assumes "cr = \<bar>L / 2 / s\<bar>" "s \<noteq> 0" "s\<^sup>2 + c\<^sup>2 = 1"
  shows "L\<^sup>2 / 4 + \<bar>cr * c\<bar>\<^sup>2 = cr\<^sup>2"
proof -
  have "cr\<^sup>2 = (L / 2 / s)\<^sup>2" unfolding assms(1) by (rule power2_abs)
  then have "cr\<^sup>2 * s\<^sup>2 = L\<^sup>2 / 4" using assms(2) by (simp add: power_divide)
  moreover have "\<bar>cr * c\<bar>\<^sup>2 = cr\<^sup>2 * (1 - s\<^sup>2)" using assms(3) by (simp add: power_mult_distrib eq_diff_eq add.commute)
  ultimately show ?thesis by (simp add: algebra_simps)
qed

lemma perpendicular_foot:
  fixes u v B cs sn L :: real
  assumes "u * cs + v * sn = 0" "cs\<^sup>2 + sn\<^sup>2 = 1" "u\<^sup>2 + v\<^sup>2 = L\<^sup>2"
  shows "(u / 2 + B * cs)\<^sup>2 + (v / 2 + B * sn)\<^sup>2 = L\<^sup>2 / 4 + B\<^sup>2"
proof -
  have "(u / 2 + B * cs)\<^sup>2 + (v / 2 + B * sn)\<^sup>2 = (u\<^sup>2 + v\<^sup>2) / 4 + B * (u * cs + v * sn) + B\<^sup>2 * (cs\<^sup>2 + sn\<^sup>2)"
    by (simp add: power2_eq_square algebra_simps)
  then show ?thesis using assms by simp
qed

text \<open>Two positions and the rotation between them give a circle on which both lie, such that
the rotation is the angle under which the chord between them is seen from the centre; only without a rotation there is none.\<close>

theorem circle_through_two_points:
  assumes "hemi \<in> {1, - 1}"
  shows "let c = fst (CircleFrom2PointsAndAngle p1 p2 radiff hemi)
    in if sin (radiff / 2) = 0 then \<not> c_valid c
       else c_valid c \<and> on_circle c p1 \<and> on_circle c p2 \<and> hypot (px_x p1 - px_x p2) (px_y p1 - px_y p2) = 2 * c_r c * \<bar>sin (radiff / 2)\<bar>"
proof (cases "sin (radiff / 2) = 0")
  case True
  then show ?thesis by (simp add: CircleFrom2PointsAndAngle_def Let_def no_circle_def)
next
  case False
  define u v where uv: "u = px_x p2 - px_x p1" "v = px_y p1 - px_y p2"
  define L where "L = hypot u v"
  define s where "s = atan2 v u - of_int hemi * pi / 2"
  define cr where "cr = \<bar>L / 2 / sin (radiff / 2)\<bar>"
  define B where "B = \<bar>cr * cos (radiff / 2)\<bar>"
  have L: "hypot (px_x p1 - px_x p2) (px_y p1 - px_y p2) = L" "0 \<le> L" "u\<^sup>2 + v\<^sup>2 = L\<^sup>2"
    using hypot_minus(1)[of u v] by (simp_all add: L_def uv hypot_def power2_eq_square)
  have "L * cos (atan2 v u) = u" "L * sin (atan2 v u) = v" using atan2_polar[of u v] by (simp_all add: L_def)
  moreover have "cos s = of_int hemi * sin (atan2 v u)" "sin s = - of_int hemi * cos (atan2 v u)"
    using assms by (auto simp: s_def cos_diff sin_diff cos_add sin_add)
  ultimately have perp: "u * cos s + v * sin s = 0" by (metis (no_types, lifting) add.right_inverse mult.commute mult.left_commute mult_minus_left)
  have R: "L\<^sup>2 / 4 + B\<^sup>2 = cr\<^sup>2" unfolding B_def by (rule chord_half_square[OF cr_def False]) simp
  have c: "fst (CircleFrom2PointsAndAngle p1 p2 radiff hemi) =
      \<lparr>c_x = (px_x p1 + px_x p2) / 2 + B * cos s, c_y = (px_y p1 + px_y p2) / 2 - B * sin s, c_r = cr, c_valid = True\<rparr>"
    using False unfolding CircleFrom2PointsAndAngle_def Let_def L(1) s_def B_def cr_def uv by simp
  have d: "px_x p1 - ((px_x p1 + px_x p2) / 2 + B * cos s) = - (u / 2 + B * cos s)"
      "px_y p1 - ((px_y p1 + px_y p2) / 2 - B * sin s) = v / 2 + B * sin s"
      "px_x p2 - ((px_x p1 + px_x p2) / 2 + B * cos s) = u / 2 + (- B) * cos s"
      "px_y p2 - ((px_y p1 + px_y p2) / 2 - B * sin s) = - (v / 2 + (- B) * sin s)"
    by (simp_all add: uv field_simps)
  have "on_circle (fst (CircleFrom2PointsAndAngle p1 p2 radiff hemi)) p1" "on_circle (fst (CircleFrom2PointsAndAngle p1 p2 radiff hemi)) p2"
    using perpendicular_foot[OF perp _ L(3), of B] perpendicular_foot[OF perp _ L(3), of "- B"] R
    unfolding on_circle_def c Circle.select_convs d power2_minus by simp_all
  moreover have "L = 2 * cr * \<bar>sin (radiff / 2)\<bar>" using False L(2) by (simp add: cr_def abs_divide abs_mult)
  ultimately show ?thesis using False unfolding Let_def L(1) c by simp
qed

theorem circle_through_two_points_witness:
  "on_circle (fst (CircleFrom2PointsAndAngle \<lparr>px_x = 0, px_y = 0\<rparr> \<lparr>px_x = 3, px_y = 4\<rparr> pi 1)) \<lparr>px_x = 3, px_y = 4\<rparr>"
  using circle_through_two_points[of 1 "\<lparr>px_x = 0, px_y = 0\<rparr>" "\<lparr>px_x = 3, px_y = 4\<rparr>" pi] by (simp add: Let_def)

section \<open>Decompositions\<close>

lemma radians_degrees [simp]: "radians (degrees x) = x"
  by (simp add: radians_def degrees_def)

lemma radians_diff: "radians (x - y) = radians x - radians y"
  by (simp add: radians_def diff_divide_distrib algebra_simps)

lemma norm_range_circle:
  "cos (radians (norm_range x 0 360)) = cos (radians x)" "sin (radians (norm_range x 0 360)) = sin (radians x)"
proof -
  have e: "radians (norm_range x 0 360) = radians x - 2 * pi * of_int \<lfloor>x / 360\<rfloor>"
    by (simp add: norm_range_def radians_def field_simps)
  show "cos (radians (norm_range x 0 360)) = cos (radians x)" "sin (radians (norm_range x 0 360)) = sin (radians x)"
    unfolding e by (simp_all add: cos_diff sin_diff cos_int_2pin sin_int_2pin)
qed

lemma decompose_sum:
  fixes h a r :: real
  shows "- (h * sin (a - r)) * sin r + h * cos (a - r) * cos r = h * cos a"
    "h * sin (a - r) * cos r + h * cos (a - r) * sin r = h * sin a"
proof -
  have c: "cos a = cos (a - r) * cos r - sin (a - r) * sin r" and s: "sin a = sin (a - r) * cos r + cos (a - r) * sin r"
    by (metis cos_add diff_add_cancel, metis sin_add diff_add_cancel)
  show "- (h * sin (a - r)) * sin r + h * cos (a - r) * cos r = h * cos a"
    "h * sin (a - r) * cos r + h * cos (a - r) * sin r = h * sin a" unfolding c s by (simp_all add: algebra_simps)
qed

definition vec_sum :: "CorrVectors \<Rightarrow> Px" where
  "vec_sum v = \<lparr>px_x = px_x (cv_a v) + px_x (cv_b v), px_y = px_y (cv_a v) + px_y (cv_b v)\<rparr>"

definition orthogonal :: "CorrVectors \<Rightarrow> bool" where
  "orthogonal v \<longleftrightarrow> px_x (cv_a v) * px_x (cv_b v) + px_y (cv_a v) * px_y (cv_b v) = 0"

text \<open>The corrections in declination and cone add up to the way from the centre of
rotation to the centre of the sensor, those in azimuth and altitude to the way from the measured to the predicted
position of the star; each pair is at right angles, and the errors are the sides of a right triangle.\<close>

theorem corrections_decompose_offset:
  "let v = DecomposeCoR cor w h cam; r = DecomposeAltAz target measured cam ha
   in vec_sum v = \<lparr>px_x = of_int (c_quot w 2) - c_x cor, px_y = of_int (c_quot h 2) - c_y cor\<rparr> \<and> orthogonal v \<and>
      vec_sum (aa_vec r) = \<lparr>px_x = px_x target - px_x measured, px_y = px_y target - px_y measured\<rparr> \<and> orthogonal (aa_vec r) \<and>
      (altErrPx r)\<^sup>2 + (azErrPx r)\<^sup>2 = (totErrPx r)\<^sup>2"
proof -
  let ?dx = "of_int (c_quot w 2) - c_x cor" and ?dy = "of_int (c_quot h 2) - c_y cor"
  let ?ex = "px_x target - px_x measured" and ?ey = "px_y target - px_y measured"
  have 1: "vec_sum (DecomposeCoR cor w h cam) = \<lparr>px_x = ?dx, px_y = ?dy\<rparr>" "orthogonal (DecomposeCoR cor w h cam)"
    using atan2_polar[of ?dx ?dy] decompose_sum[of "hypot ?dx ?dy" "atan2 ?dy ?dx" "radians (- cam)"]
    by (simp_all add: DecomposeCoR_def Let_def vec_sum_def orthogonal_def radians_diff)
  let ?k = "radians (norm_range (- cam - (90 + ha)) 0 360)"
  have 2: "vec_sum (aa_vec (DecomposeAltAz target measured cam ha)) = \<lparr>px_x = ?ex, px_y = ?ey\<rparr>"
      "orthogonal (aa_vec (DecomposeAltAz target measured cam ha))"
    using atan2_polar[of ?ex ?ey] decompose_sum[of "hypot ?ex ?ey" "atan2 ?ey ?ex" ?k]
    by (simp_all add: DecomposeAltAz_def Let_def vec_sum_def orthogonal_def norm_range_circle(1,2)[of "_ - _"] radians_diff)
  have 3: "(h' * cos a)\<^sup>2 + (h' * sin a)\<^sup>2 = h'\<^sup>2" for h' a :: real
    by (simp add: power_mult_distrib flip: distrib_left)
  then have "(altErrPx (DecomposeAltAz target measured cam ha))\<^sup>2 + (azErrPx (DecomposeAltAz target measured cam ha))\<^sup>2 =
      (totErrPx (DecomposeAltAz target measured cam ha))\<^sup>2" unfolding DecomposeAltAz_def Let_def AltAzResult.select_convs by blast
  then show ?thesis using 1 2 unfolding Let_def by blast
qed

section \<open>Precession\<close>

definition dot :: "real \<times> real \<times> real \<Rightarrow> real \<times> real \<times> real \<Rightarrow> real" where
  "dot u v = fst u * fst v + fst (snd u) * fst (snd v) + snd (snd u) * snd (snd v)"

text \<open>A turn about the third axis, and one about the second.\<close>

definition turn_z :: "real \<Rightarrow> real \<times> real \<times> real \<Rightarrow> real \<times> real \<times> real" where
  "turn_z t v = (case v of (x, y, z) \<Rightarrow> (cos t * x - sin t * y, sin t * x + cos t * y, z))"

definition turn_y :: "real \<Rightarrow> real \<times> real \<times> real \<Rightarrow> real \<times> real \<times> real" where
  "turn_y t v = (case v of (x, y, z) \<Rightarrow> (cos t * x - sin t * z, y, sin t * x + cos t * z))"

lemma precess_turns: "precess_rotate zeta zed theta v = turn_z zed (turn_y theta (turn_z zeta v))"
  by (cases v) (simp add: precess_rotate_def turn_z_def turn_y_def Let_def algebra_simps)

lemma unit_scale:
  fixes c s :: real
  assumes "s * s + c * c = 1"
  shows "(c * x - s * y) * (c * u - s * v) + (s * x + c * y) * (s * u + c * v) = x * u + y * v"
    "c * (c * x - s * y) + s * (s * x + c * y) = x" "c * (s * x + c * y) - s * (c * x - s * y) = y" "c * x * (c * u) + s * x * (s * u) = x * u"
proof -
  have "(c * x - s * y) * (c * u - s * v) + (s * x + c * y) * (s * u + c * v) = (s * s + c * c) * (x * u + y * v)"
    "c * (c * x - s * y) + s * (s * x + c * y) = (s * s + c * c) * x" "c * (s * x + c * y) - s * (c * x - s * y) = (s * s + c * c) * y"
    "c * x * (c * u) + s * x * (s * u) = (s * s + c * c) * (x * u)" by (simp_all add: algebra_simps)
  then show "(c * x - s * y) * (c * u - s * v) + (s * x + c * y) * (s * u + c * v) = x * u + y * v"
    "c * (c * x - s * y) + s * (s * x + c * y) = x" "c * (s * x + c * y) - s * (c * x - s * y) = y" "c * x * (c * u) + s * x * (s * u) = x * u"
    unfolding assms by simp_all
qed

lemma unit_trig: "sin t * sin t + cos t * cos t = (1 :: real)"
  using sin_cos_squared_add[of t] by (simp add: power2_eq_square)

lemmas plane_turn = unit_scale(1)[OF unit_trig]

lemma dot_turns: "dot (turn_z t u) (turn_z t v) = dot u v" "dot (turn_y t u) (turn_y t v) = dot u v"
proof -
  obtain x y z a b c where uv: "u = (x, y, z)" "v = (a, b, c)" by (cases u; cases v)
  show "dot (turn_z t u) (turn_z t v) = dot u v"
    unfolding uv dot_def turn_z_def prod.case fst_conv snd_conv plane_turn by (rule refl)
  have swap: "p + r = p' + r' \<Longrightarrow> p + q + r = p' + q + r'" for p q r p' r' :: real by simp
  show "dot (turn_y t u) (turn_y t v) = dot u v"
    unfolding uv dot_def turn_y_def prod.case fst_conv snd_conv by (rule swap[OF plane_turn])
qed

lemma dot_precess: "dot (precess_rotate zeta zed theta u) (precess_rotate zeta zed theta v) = dot u v"
  by (simp add: precess_turns dot_turns)

lemma sky_vector_unit: "dot (sky_vector ra dec) (sky_vector ra dec) = 1"
proof -
  have swap: "c * a * (c * a) + c * b * (c * b) + z = c * c * (b * b + a * a) + z" for a b c z :: real by (simp add: algebra_simps)
  show ?thesis unfolding sky_vector_def dot_def fst_conv snd_conv swap unit_trig using unit_trig by simp
qed

lemma sky_coordinates_vector:
  assumes "dot v v = 1"
  shows "sky_vector (px_x (sky_coordinates v)) (px_y (sky_coordinates v)) = v"
proof -
  obtain x y z where v: "v = (x, y, z)" by (cases v)
  have n: "x * x + y * y + z * z = 1" using assms by (simp add: v dot_def)
  have "0 \<le> x * x" "0 \<le> y * y" by simp_all
  then have "z * z \<le> 1" using n by linarith
  then have "\<bar>z\<bar> \<le> 1" using abs_square_le_1[of z] by (simp add: power2_eq_square)
  then have z: "max (- 1) (min 1 z) = z" by (simp add: abs_le_iff)
  have h: "hypot (sqrt (1 - z * z)) z = 1" using \<open>z * z \<le> 1\<close> by (simp add: hypot_def)
  have r: "sqrt (1 - z * z) = hypot x y" using n by (simp add: hypot_def)
  have "cos (atan2 z (sqrt (1 - z * z))) = sqrt (1 - z * z)" "sin (atan2 z (sqrt (1 - z * z))) = z"
    using atan2_polar[of "sqrt (1 - z * z)" z] h by simp_all
  moreover have "hypot x y * cos (atan2 y x) = x" "hypot x y * sin (atan2 y x) = y" using atan2_polar[of x y] by simp_all
  ultimately show ?thesis unfolding v sky_coordinates_def sky_vector_def Let_def z
    by (simp add: z norm_range_circle r)
qed

lemma right_ascension_range: "norm_range x 0 360 \<in> {0..<360}"
proof -
  have "of_int \<lfloor>x / 360\<rfloor> \<le> x / 360" "x / 360 < of_int \<lfloor>x / 360\<rfloor> + 1" by linarith+
  then show ?thesis by (simp add: norm_range_def Let_def algebra_simps)
qed

text \<open>C39: precession_is_rotation.  The coordinates of the date are in range, and the angle between two stars (the
  product of their directions) stays as it is at the epoch.  At the epoch itself the directions do not change at all: the
  constant terms of the series for \<open>zeta\<close> and \<open>zed\<close> are opposite there and \<open>theta\<close> is zero, so that the two turns
  cancel (and the bias of the frame that a comment of the tests speaks of is not applied).\<close>

theorem precession_is_rotation:
  "let p = PrecessJ2000 d ra1 dec1; q = PrecessJ2000 d ra2 dec2; o1 = PrecessJ2000 0 ra1 dec1
   in px_x p \<in> {0..<360} \<and>
      dot (sky_vector (px_x p) (px_y p)) (sky_vector (px_x q) (px_y q)) = dot (sky_vector ra1 dec1) (sky_vector ra2 dec2) \<and>
      sky_vector (px_x o1) (px_y o1) = sky_vector ra1 dec1"
proof -
  obtain zeta zed theta where a: "precession_angles d = (zeta, zed, theta)" by (metis prod_cases3)
  have v: "sky_vector (px_x (PrecessJ2000 t r e)) (px_y (PrecessJ2000 t r e)) =
      (case precession_angles t of (zeta, zed, theta) \<Rightarrow> precess_rotate zeta zed theta (sky_vector r e))" for t r e
    by (cases "precession_angles t") (simp add: PrecessJ2000_def sky_coordinates_vector dot_precess sky_vector_unit)
  have r: "px_x (PrecessJ2000 d ra1 dec1) \<in> {0..<360}"
    by (simp add: PrecessJ2000_def a sky_coordinates_def Let_def right_ascension_range del: atLeastLessThan_iff split: prod.splits)
  have z: "precession_angles 0 = (- (- radians (2.5976176 / 3600)), - radians (2.5976176 / 3600), 0)"
    by (simp add: precession_angles_def radians_def Let_def)
  have i: "turn_z (- t) (turn_y 0 (turn_z t w)) = w" for t w
  proof (cases w)
    case (fields x y z)
    show ?thesis using unit_scale(2,3)[OF unit_trig, of t x y] by (simp add: fields turn_z_def turn_y_def)
  qed
  show ?thesis using r unfolding Let_def v a z prod.case precess_turns minus_minus i by (simp add: dot_turns)
qed

section \<open>The rotation of the mount\<close>

text \<open>
  \<open>src/staticpa_toolwin.cpp\<close>: with every frame the tool waits, turns the mount a step to the west, or reads the position of
  the star.  An angle that is not a number is \<^term>\<open>None\<close>, and so is a step of undetermined size.
\<close>

record PaInput =
  pi_coords :: "(real \<times> real) option"
  pi_slewing :: bool
  pi_slewFails :: bool
  pi_star :: PHD_Point
  pi_relockFails :: bool
  pi_region :: int
  pi_frame :: "int \<times> int"
  pi_bad :: int

record PolarTool =
  pt_pxScale :: real
  pt_camAngle :: real
  pt_devpx :: real
  pt_auto :: bool
  pt_hemi :: int
  pt_aligning :: bool
  pt_state :: "32 word"
  pt_numPos :: int
  pt_reqRot :: "real option"
  pt_reqStep :: int
  pt_totRot :: real
  pt_nStep :: int
  pt_raPos :: "real list"
  pt_pxPos :: "PHD_Point list"
  pt_pxCentre :: Px
  pt_radius :: real
  pt_corr :: CorrVectors
  pt_slews :: "(real \<times> real) list"

unbundle bit_operations_syntax

definition pa_HasState :: "nat \<Rightarrow> PolarTool \<Rightarrow> bool" where
  "pa_HasState i t \<longleftrightarrow> pt_state t AND push_bit i 1 \<noteq> 0"

definition pa_SetState :: "nat \<Rightarrow> PolarTool \<Rightarrow> PolarTool" where
  "pa_SetState i t = t\<lparr>pt_state := pt_state t OR push_bit i 1\<rparr>"

definition pa_UnsetState :: "nat \<Rightarrow> PolarTool \<Rightarrow> PolarTool" where
  "pa_UnsetState i t = t\<lparr>pt_state := pt_state t AND NOT (push_bit i 1) AND 15\<rparr>"

definition pa_ClearState :: "PolarTool \<Rightarrow> PolarTool" where
  "pa_ClearState t = t\<lparr>pt_state := 0\<rparr>"

definition pa_IsAligned :: "PolarTool \<Rightarrow> bool" where
  "pa_IsAligned t \<longleftrightarrow> (if pt_auto t then drop_bit 1 (pt_state t) AND 3 = 3 else drop_bit 1 (pt_state t) AND 7 = 7)"

definition point_px :: "PHD_Point \<Rightarrow> Px" where
  "point_px p = \<lparr>px_x = pX p, px_y = pY p\<rparr>"

definition CalcRotationCentre :: "PaInput \<Rightarrow> PolarTool \<Rightarrow> PolarTool" where
  "CalcRotationCentre pi0 t0 =
     (let t = pa_UnsetState 0 t0; p = \<lambda>k. point_px (pt_pxPos t ! k);
          cor = (if \<not> pt_auto t then CircleFrom3Points (p 0) (p 1) (p 2)
                 else fst (CircleFrom2PointsAndAngle (p 0) (p 1)
                   (norm_angle (radians ((pt_raPos t ! 0 - pt_raPos t ! 1) * 15 * of_int (pt_hemi t)))) (pt_hemi t)))
      in if \<not> c_valid cor then t
         else pa_SetState 0 (t\<lparr>pt_pxCentre := \<lparr>px_x = c_x cor, px_y = c_y cor\<rparr>, pt_radius := c_r cor,
                pt_corr := DecomposeCoR cor (fst (pi_frame pi0)) (snd (pi_frame pi0)) (pt_camAngle t)\<rparr>))"

definition RotateFail :: "PolarTool \<Rightarrow> PolarTool" where
  "RotateFail t = (let t1 = t\<lparr>pt_aligning := False\<rparr> in if pt_auto t then pa_ClearState (t1\<lparr>pt_numPos := 0\<rparr>) else t1)"

definition SetStar :: "PaInput \<Rightarrow> nat \<Rightarrow> PolarTool \<Rightarrow> bool \<times> PolarTool" where
  "SetStar pi0 npos t0 =
     (let idx = npos - 1; t = pa_UnsetState npos t0
      in if pt_auto t \<and> pi_coords pi0 = None then (False, t)
         else let t1 = (if pt_auto t then t\<lparr>pt_raPos := (pt_raPos t)[idx := fst (the (pi_coords pi0))]\<rparr> else t);
                  t2 = t1\<lparr>pt_pxPos := (pt_pxPos t1)[idx := (pt_pxPos t1 ! idx)\<lparr>pX := - 1, pY := - 1\<rparr>]\<rparr>
              in if \<not> p_valid (pi_star pi0) then (False, t2)
                 else (True, pa_SetState npos (t2\<lparr>pt_pxPos := (pt_pxPos t2)[idx := pi_star pi0]\<rparr>)))"

text \<open>The rotation that moves a star at the given offset from the pole by \<open>m_devpx\<close> off the tangent, and its steps.\<close>

definition SetParams :: "PaInput \<Rightarrow> real option \<Rightarrow> PolarTool \<Rightarrow> bool \<times> PolarTool" where
  "SetParams pi0 newoffset t = (case newoffset of
     None \<Rightarrow> (True, t\<lparr>pt_reqRot := None, pt_reqStep := 1\<rparr>)
   | Some offsetdeg \<Rightarrow>
       (let offsetpx = offsetdeg * 3600 / pt_pxScale t
        in if offsetpx < pt_devpx t then (False, t)
           else let req = degrees (arccos (1 - pt_devpx t / offsetpx));
                    rotpx = req * 3600 / pt_pxScale t * sin (radians offsetdeg)
                in (True, t\<lparr>pt_reqRot := Some req,
                     pt_reqStep := (if rotpx > of_int (pi_region pi0)
                                    then c_int (pi_bad pi0) (of_int \<lceil>rotpx / of_int (pi_region pi0)\<rceil>) else 1)\<rparr>)))"

definition MoveWestBy :: "PaInput \<Rightarrow> real \<Rightarrow> PolarTool \<Rightarrow> bool \<times> PolarTool" where
  "MoveWestBy pi0 thetadeg t = (case pi_coords pi0 of
     None \<Rightarrow> (False, t)
   | Some (ra, dec) \<Rightarrow>
       if pi_slewFails pi0 then (False, t)
       else (\<not> pi_relockFails pi0, t\<lparr>pt_nStep := pt_nStep t + 1, pt_slews := pt_slews t @ [(thetadeg, norm_range (ra - thetadeg * 24 / 360) 0 24)]\<rparr>))"

text \<open>The offset from the pole that the movement of the star shows; \<open>acos\<close> of a number above one is not a number.\<close>

definition act_offset :: "PolarTool \<Rightarrow> real option" where
  "act_offset t = (case pt_reqRot t of
     None \<Rightarrow> None
   | Some req \<Rightarrow>
       (let p = \<lambda>k. pt_pxPos t ! k; actsec = hypot (pX (p 1) - pX (p 0)) (pY (p 1) - pY (p 0)) * pt_pxScale t; q = actsec / 3600 / req
        in if req = 0 \<or> \<bar>q\<bar> > 1 then None else Some (90 - degrees (arccos q))))"

definition read_star :: "PaInput \<Rightarrow> nat \<Rightarrow> PolarTool \<Rightarrow> bool \<times> PolarTool" where
  "read_star pi0 npos t =
     (let (ok, t1) = SetStar pi0 npos t
      in if \<not> ok then (False, RotateFail t1)
         else let t2 = t1\<lparr>pt_numPos := pt_numPos t1 + 1, pt_aligning := False\<rparr>
              in (True, if pa_IsAligned t2 then CalcRotationCentre pi0 t2 else t2))"

definition first_position :: "PaInput \<Rightarrow> PolarTool \<Rightarrow> bool \<times> PolarTool" where
  "first_position pi0 t =
     (let (ok, t1) = SetParams pi0 (Some 5) t
      in if \<not> ok then (False, RotateFail t1)
         else let (ok2, t2) = SetStar pi0 1 t1
              in if \<not> ok2 then (False, RotateFail t2)
                 else let t3 = t2\<lparr>pt_numPos := pt_numPos t2 + 1\<rparr>;
                          t4 = (if \<not> pt_auto t3 then (let u = t3\<lparr>pt_aligning := False\<rparr> in if pa_IsAligned u then CalcRotationCentre pi0 u else u) else t3)
                      in (True, t4\<lparr>pt_totRot := 0, pt_nStep := 0\<rparr>))"

definition less_rot :: "real \<Rightarrow> real option \<Rightarrow> bool" where
  "less_rot x y = (case y of None \<Rightarrow> False | Some v \<Rightarrow> x < v)"

text \<open>The second position: a step of the rotation, or the star at its end and whether it moved far enough.\<close>

definition judge_rotation :: "PaInput \<Rightarrow> PolarTool \<Rightarrow> bool \<times> PolarTool" where
  "judge_rotation pi0 t =
     (let act = act_offset t
      in if act = Some 0 then (False, RotateFail t)
         else let prev = pt_reqRot t; (ok, t1) = SetParams pi0 act t
              in if \<not> ok then (False, RotateFail t1)
                 else case (pt_reqRot t1, prev) of
                   (Some req, Some pr) \<Rightarrow>
                     if req \<le> pr then (True, CalcRotationCentre pi0 (t1\<lparr>pt_numPos := pt_numPos t1 + 1, pt_nStep := 0, pt_totRot := 0, pt_aligning := False\<rparr>))
                     else if req > 45 then (False, RotateFail t1)
                     else (True, t1\<lparr>pt_nStep := c_int (pi_bad pi0) (of_int (pt_reqStep t1) * pt_totRot t1 / req)\<rparr>)
                 | (Some req, None) \<Rightarrow>
                     if req > 45 then (False, RotateFail t1)
                     else (True, t1\<lparr>pt_nStep := c_int (pi_bad pi0) (of_int (pt_reqStep t1) * pt_totRot t1 / req)\<rparr>)
                 | _ \<Rightarrow> (True, t1\<lparr>pt_nStep := pi_bad pi0\<rparr>))"

definition second_position :: "PaInput \<Rightarrow> PolarTool \<Rightarrow> (bool \<times> PolarTool) option" where
  "second_position pi0 t =
     (if pi_slewing pi0 then Some (True, t)
      else if less_rot (pt_totRot t) (pt_reqRot t)
      then (if pt_reqStep t - pt_nStep t = 0 then None
            else let newtheta = (the (pt_reqRot t) - pt_totRot t) / of_int (pt_reqStep t - pt_nStep t);
                     (ok, t1) = MoveWestBy pi0 newtheta t
                 in Some (if \<not> ok then (False, RotateFail t1) else (True, t1\<lparr>pt_totRot := pt_totRot t1 + newtheta\<rparr>)))
      else let (ok, t1) = SetStar pi0 2 t
           in Some (if \<not> ok then (False, RotateFail t1) else judge_rotation pi0 t1))"

definition RotateMount :: "PaInput \<Rightarrow> PolarTool \<Rightarrow> (bool \<times> PolarTool) option" where
  "RotateMount pi0 t =
     (if pt_numPos t = 1 then Some (first_position pi0 t)
      else if pt_numPos t = 2 then (if \<not> pt_auto t then Some (read_star pi0 2 t) else second_position pi0 t)
      else if pt_numPos t = 3 then (if \<not> pt_auto t then Some (read_star pi0 3 t) else Some (True, t\<lparr>pt_numPos := pt_numPos t + 1\<rparr>))
      else Some (True, t))"

definition pa_UpdateState :: "PaInput \<Rightarrow> PolarTool \<Rightarrow> (bool \<times> PolarTool) option" where
  "pa_UpdateState pi0 t = (if pt_aligning t then RotateMount pi0 t else Some (True, t))"

text \<open>The button that starts or stops the alignment.\<close>

definition OnRotate :: "bool \<Rightarrow> bool \<Rightarrow> PolarTool \<Rightarrow> PolarTool" where
  "OnRotate calibratingOrGuiding locked t =
     (if pt_aligning t \<and> pt_auto t then pa_ClearState (t\<lparr>pt_aligning := False, pt_numPos := 0\<rparr>)
      else if calibratingOrGuiding \<or> \<not> locked then t
      else let t1 = t\<lparr>pt_numPos := 1\<rparr> in (if pt_auto t1 then pa_ClearState t1 else t1)\<lparr>pt_aligning := True\<rparr>)"

definition OnStar2 :: "PolarTool \<Rightarrow> PolarTool" where
  "OnStar2 t = t\<lparr>pt_numPos := 2, pt_aligning := True\<rparr>"

definition OnStar3 :: "PolarTool \<Rightarrow> PolarTool" where
  "OnStar3 t = t\<lparr>pt_numPos := 3, pt_aligning := True\<rparr>"

definition pa_OnClear :: "PolarTool \<Rightarrow> PolarTool" where
  "pa_OnClear t = (if pa_HasState 0 t then pa_ClearState (t\<lparr>pt_aligning := False, pt_numPos := 0\<rparr>) else t)"

definition pa_NotifyStarLost :: "PolarTool \<Rightarrow> PolarTool" where
  "pa_NotifyStarLost t = (if pt_aligning t then RotateFail t else t)"

fun pa_run :: "PaInput list \<Rightarrow> PolarTool \<Rightarrow> PolarTool option" where
  "pa_run [] t = Some t"
| "pa_run (f # fs) t = do { (ok, t1) \<leftarrow> pa_UpdateState f t; pa_run fs t1 }"

definition turned :: "PolarTool \<Rightarrow> real" where "turned t = sum_list (map fst (pt_slews t))"

text \<open>The states of an automatic alignment: before the first position, turning, and with an angle that is not a number.\<close>

definition turning :: "PolarTool \<Rightarrow> bool" where
  "turning t \<longleftrightarrow> pt_numPos t = 2 \<and> (\<exists>req. pt_reqRot t = Some req \<and> 0 \<le> req \<and> req \<le> 90 \<and> 0 \<le> pt_totRot t \<and> pt_totRot t \<le> req \<and>
     turned t = pt_totRot t \<and> (pt_totRot t < req \<longrightarrow> pt_nStep t < pt_reqStep t))"

definition pa_ok :: "PolarTool \<Rightarrow> bool" where
  "pa_ok t \<longleftrightarrow> pt_auto t \<and> 1 / 1000 \<le> pt_pxScale t \<and> 0 < pt_devpx t \<and> (\<forall>s\<in>set (pt_slews t). 0 \<le> fst s) \<and> turned t \<le> 90 \<and>
     (pt_aligning t \<longrightarrow> (pt_numPos t = 1 \<and> pt_slews t = []) \<or> turning t \<or> (pt_numPos t = 2 \<and> pt_reqRot t = None) \<or> pt_numPos t \<ge> 3)"

definition same_slews :: "PolarTool \<Rightarrow> PolarTool \<Rightarrow> bool" where
  "same_slews t t1 \<longleftrightarrow> pt_auto t1 = pt_auto t \<and> pt_pxScale t1 = pt_pxScale t \<and> pt_devpx t1 = pt_devpx t \<and> pt_slews t1 = pt_slews t"

definition same_rotation :: "PolarTool \<Rightarrow> PolarTool \<Rightarrow> bool" where
  "same_rotation t t1 \<longleftrightarrow> same_slews t t1 \<and> pt_numPos t1 = pt_numPos t \<and> pt_reqRot t1 = pt_reqRot t \<and> pt_reqStep t1 = pt_reqStep t \<and>
     pt_totRot t1 = pt_totRot t \<and> pt_nStep t1 = pt_nStep t \<and> pt_aligning t1 = pt_aligning t"

lemma SetStar_same: "SetStar f n t = (ok, t1) \<Longrightarrow> same_rotation t t1"
  by (auto simp: SetStar_def same_rotation_def same_slews_def Let_def pa_UnsetState_def pa_SetState_def split: if_splits)

lemma CalcRotationCentre_same: "same_slews t (CalcRotationCentre f t)" "pt_aligning (CalcRotationCentre f t) = pt_aligning t"
  by (auto simp: CalcRotationCentre_def same_slews_def Let_def pa_UnsetState_def pa_SetState_def)

lemma RotateFail_same: "same_slews t (RotateFail t)" "\<not> pt_aligning (RotateFail t)"
  by (auto simp: RotateFail_def same_slews_def pa_ClearState_def Let_def)

lemma same_slews_trans: "same_slews a b \<Longrightarrow> same_slews b c \<Longrightarrow> same_slews a c"
  by (simp add: same_slews_def)

text \<open>A tool that has stopped aligning keeps the invariant of the slews that it has made.\<close>

lemma pa_ok_stopped: "pa_ok t \<Longrightarrow> same_slews t t1 \<Longrightarrow> \<not> pt_aligning t1 \<Longrightarrow> pa_ok t1"
  by (simp add: pa_ok_def same_slews_def turned_def)

lemma quotient_range:
  fixes x y z :: real
  assumes "y < x" "1 \<le> y" "x \<le> z"
  shows "1 < x / y \<and> x / y \<le> z"
proof -
  have "x / y \<le> x / 1" using assms by (intro divide_left_mono) simp_all
  then show ?thesis using assms by (simp add: less_divide_eq)
qed

lemma SetParams_ok:
  assumes "SetParams f (Some off) t = (True, t1)" "1 / 1000 \<le> pt_pxScale t" "0 < pt_devpx t" "1 \<le> pi_region f"
  shows "\<exists>req. t1 = t\<lparr>pt_reqRot := Some req, pt_reqStep := pt_reqStep t1\<rparr> \<and> 0 \<le> req \<and> req \<le> 90 \<and> 1 \<le> pt_reqStep t1 \<and> pt_reqStep t1 \<le> 324000001"
proof -
  let ?o = "off * 3600 / pt_pxScale t"
  let ?y = "1 - pt_devpx t / ?o"
  let ?req = "degrees (arccos ?y)"
  let ?rot = "?req * 3600 / pt_pxScale t * sin (radians off)"
  let ?reg = "of_int (pi_region f) :: real"
  have ge: "pt_devpx t \<le> ?o" and t1: "t1 = t\<lparr>pt_reqRot := Some ?req,
      pt_reqStep := (if ?rot > ?reg then c_int (pi_bad f) (of_int \<lceil>?rot / ?reg\<rceil>) else 1)\<rparr>"
    using assms(1) by (auto simp: SetParams_def Let_def split: if_splits)
  have o: "0 < ?o" using ge assms(3) by linarith
  have "pt_devpx t / ?o \<le> 1" "0 \<le> pt_devpx t / ?o" using ge o assms(3) by (simp_all only: divide_le_eq_1_pos divide_nonneg_pos order_less_imp_le)
  then have y: "0 \<le> ?y" "?y \<le> 1" by linarith+
  have "0 \<le> arccos ?y" by (rule arccos_lbound) (use y in linarith)+
  moreover have "arccos ?y \<le> pi / 2" by (rule arccos_le_pi2) (use y in linarith)+
  ultimately have req: "0 \<le> ?req" "?req \<le> 90" unfolding degrees_def by (simp_all add: divide_le_eq del: divide_const_simps)
  have st: "1 \<le> pt_reqStep t1 \<and> pt_reqStep t1 \<le> 324000001"
  proof (cases "?rot > ?reg")
    case True
    have reg: "1 \<le> ?reg" using assms(4) by simp
    have X: "?req * 3600 / pt_pxScale t \<le> 90 * 3600 / (1 / 1000)"
      using req assms(2) by (intro frac_le mult_right_mono) simp_all
    have "0 \<le> ?req * 3600 / pt_pxScale t" using req assms(2) by simp
    then have "?rot \<le> ?req * 3600 / pt_pxScale t" by (intro mult_left_le) simp_all
    then have "?rot \<le> 324000000" using order_trans[OF _ X] by simp
    then have q: "1 < ?rot / ?reg" "?rot / ?reg \<le> 324000000" using quotient_range[OF True reg] by blast+
    have "1 \<le> \<lceil>?rot / ?reg\<rceil>" "\<lceil>?rot / ?reg\<rceil> \<le> 324000000" using q by (simp_all add: ceiling_le_iff le_ceiling_iff del: divide_less_eq_1_pos)
    then have "c_int (pi_bad f) (of_int \<lceil>?rot / ?reg\<rceil>) = \<lceil>?rot / ?reg\<rceil>" by (simp add: c_int_def c_trunc_def)
    then show ?thesis using True \<open>1 \<le> \<lceil>?rot / ?reg\<rceil>\<close> \<open>\<lceil>?rot / ?reg\<rceil> \<le> 324000000\<close> by (simp add: t1)
  next
    case False
    then show ?thesis by (simp add: t1)
  qed
  then show ?thesis using req by (intro exI[of _ ?req]) (simp add: t1)
qed

lemma MoveWestBy_effect:
  assumes "MoveWestBy f th t = (ok, t1)"
  shows "t1 = t \<and> \<not> ok \<or> (\<exists>ra. t1 = t\<lparr>pt_nStep := pt_nStep t + 1, pt_slews := pt_slews t @ [(th, ra)]\<rparr>)"
  using assms by (auto simp: MoveWestBy_def split: option.splits if_splits)

lemma pa_ok_first:
  assumes "pa_ok t" "pt_slews t = []" "pt_numPos t = 1" "1 \<le> pi_region f"
  shows "pa_ok (snd (first_position f t))"
proof -
  obtain ok1 t1 where 1: "SetParams f (Some 5) t = (ok1, t1)" by fastforce
  obtain ok2 t2 where 2: "SetStar f 1 t1 = (ok2, t2)" by fastforce
  have sl1: "same_slews t t1" using 1 by (auto simp: SetParams_def same_slews_def Let_def split: if_splits)
  have sl2: "same_slews t t2" using same_slews_trans[OF sl1] SetStar_same[OF 2] by (simp add: same_rotation_def)
  note k = assms(1)[unfolded pa_ok_def]
  consider "\<not> ok1" | "ok1" "\<not> ok2" | "ok1" "ok2" by blast
  then show ?thesis
  proof cases
    case 1
    then have "snd (first_position f t) = RotateFail t1" using \<open>SetParams f (Some 5) t = (ok1, t1)\<close> by (simp add: first_position_def)
    then show ?thesis using pa_ok_stopped[OF assms(1) same_slews_trans[OF sl1 RotateFail_same(1)] RotateFail_same(2)] by simp
  next
    case 2
    then have "snd (first_position f t) = RotateFail t2" using 1 \<open>SetStar f 1 t1 = (ok2, t2)\<close> by (simp add: first_position_def)
    then show ?thesis using pa_ok_stopped[OF assms(1) same_slews_trans[OF sl2 RotateFail_same(1)] RotateFail_same(2)] by simp
  next
    case 3
    have e: "snd (first_position f t) = t2\<lparr>pt_numPos := pt_numPos t2 + 1, pt_totRot := 0, pt_nStep := 0\<rparr>"
      using 3 1 2 k sl2 by (simp add: first_position_def same_slews_def Let_def)
    obtain req where r: "t1 = t\<lparr>pt_reqRot := Some req, pt_reqStep := pt_reqStep t1\<rparr>" "0 \<le> req" "req \<le> 90" "1 \<le> pt_reqStep t1"
      using SetParams_ok[of f 5 t t1] 1 3(1) k assms(4) by auto
    have "pt_numPos t1 = 1" "pt_reqRot t1 = Some req" "pt_slews t1 = []" by (subst r(1), simp add: assms(2,3))+
    then have "turning (snd (first_position f t))" using r SetStar_same[OF 2]
      by (simp add: e turning_def turned_def same_rotation_def same_slews_def)
    then show ?thesis using k sl2 by (simp add: pa_ok_def e same_slews_def turned_def)
  qed
qed

lemma pa_ok_step:
  assumes "pa_ok t" "turning t" "pt_reqRot t = Some req" "pt_totRot t < req"
    and "MoveWestBy f ((req - pt_totRot t) / of_int (pt_reqStep t - pt_nStep t)) t = (ok, t1)"
  shows "pa_ok (RotateFail t1)" "ok \<Longrightarrow> pa_ok (t1\<lparr>pt_totRot := pt_totRot t1 + (req - pt_totRot t) / of_int (pt_reqStep t - pt_nStep t)\<rparr>)"
proof -
  let ?k = "pt_reqStep t - pt_nStep t"
  let ?th = "(req - pt_totRot t) / of_int ?k"
  have k: "1 \<le> ?k" and tr: "0 \<le> pt_totRot t" "req \<le> 90" "turned t = pt_totRot t" "pt_numPos t = 2"
    using assms(2-4) by (auto simp: turning_def)
  have th: "0 \<le> ?th" "?th \<le> req - pt_totRot t" "?k = 1 \<Longrightarrow> ?th = req - pt_totRot t"
    using k assms(4) by (simp_all add: divide_le_eq mult_left_le[of "1 :: real"] mult_le_cancel_left1)
  note ok = assms(1)[unfolded pa_ok_def]
  consider "t1 = t" "\<not> ok" | ra where "t1 = t\<lparr>pt_nStep := pt_nStep t + 1, pt_slews := pt_slews t @ [(?th, ra)]\<rparr>"
    using MoveWestBy_effect[OF assms(5)] by blast
  then have "pa_ok (RotateFail t1) \<and> (ok \<longrightarrow> pa_ok (t1\<lparr>pt_totRot := pt_totRot t1 + ?th\<rparr>))"
  proof cases
    case 1
    then show ?thesis using pa_ok_stopped[OF assms(1) RotateFail_same] by simp
  next
    case 2
    have sl: "\<forall>s\<in>set (pt_slews t1). 0 \<le> fst s" using ok th(1) unfolding 2 by simp
    have tu: "turned t1 = pt_totRot t + ?th" using tr(3) unfolding 2 turned_def by simp
    have le: "pt_totRot t + ?th \<le> req" using th(2) by linarith
    have "turning (t1\<lparr>pt_totRot := pt_totRot t1 + ?th\<rparr>)"
    proof -
      have "pt_totRot t + ?th < req \<longrightarrow> pt_nStep t + 1 < pt_reqStep t" using th(3) k by linarith
      then show ?thesis using assms(3) tr(1,2,4) th(1) le tu by (simp add: turning_def turned_def 2)
    qed
    then have "pa_ok (t1\<lparr>pt_totRot := pt_totRot t1 + ?th\<rparr>)" using ok sl tu le tr(2) by (simp add: pa_ok_def turned_def 2)
    moreover have "pa_ok (RotateFail t1)"
      using ok sl tu le tr(2) RotateFail_same[of t1] by (simp add: pa_ok_def same_slews_def turned_def 2)
    ultimately show ?thesis by blast
  qed
  then show "pa_ok (RotateFail t1)" "ok \<Longrightarrow> pa_ok (t1\<lparr>pt_totRot := pt_totRot t1 + ?th\<rparr>)" by blast+
qed

lemma pa_ok_judge:
  assumes "pa_ok t" "pt_aligning t" "pt_numPos t = 2" "1 \<le> pi_region f"
    and "pt_reqRot t = None \<or> turning t \<and> pt_reqRot t = Some pr \<and> pt_totRot t = pr"
  shows "pa_ok (snd (judge_rotation f t))"
proof (cases "act_offset t")
  case None
  have "pt_reqRot t = None \<or> pt_reqRot t = Some pr" using assms(5) by blast
  then have "snd (judge_rotation f t) = t\<lparr>pt_reqRot := None, pt_reqStep := 1, pt_nStep := pi_bad f\<rparr>"
    by (auto simp: judge_rotation_def SetParams_def None Let_def)
  then show ?thesis using assms(1,3) by (simp add: pa_ok_def turned_def)
next
  case (Some off)
  then have tu: "turning t" "pt_reqRot t = Some pr" "pt_totRot t = pr" using assms(5) by (auto simp: act_offset_def)
  obtain ok t1 where p: "SetParams f (Some off) t = (ok, t1)" by fastforce
  have sl: "same_slews t t1" using p by (auto simp: SetParams_def same_slews_def Let_def split: if_splits)
  note stop = pa_ok_stopped[OF assms(1)]
  consider "off = 0" | "off \<noteq> 0" "\<not> ok" | "off \<noteq> 0" "ok" by blast
  then show ?thesis
  proof cases
    case 1
    then show ?thesis using stop[OF RotateFail_same] by (simp add: judge_rotation_def Some)
  next
    case 2
    then show ?thesis using stop[OF same_slews_trans[OF sl RotateFail_same(1)] RotateFail_same(2)]
      by (simp add: judge_rotation_def Some p Let_def)
  next
    case 3
    obtain req where r: "t1 = t\<lparr>pt_reqRot := Some req, pt_reqStep := pt_reqStep t1\<rparr>" "0 \<le> req" "req \<le> 90"
        "1 \<le> pt_reqStep t1" "pt_reqStep t1 \<le> 324000001"
      using SetParams_ok[of f off t t1] p 3(2) assms(1,4) by (auto simp: pa_ok_def)
    have t1: "pt_reqRot t1 = Some req" "pt_totRot t1 = pr" "pt_numPos t1 = 2" by (subst r(1), simp add: tu assms(3))+
    have pr: "0 \<le> pr" "turned t1 = pr" using tu sl by (auto simp: turning_def turned_def same_slews_def)
    let ?n = "c_int (pi_bad f) (of_int (pt_reqStep t1) * pr / req)"
    have e: "snd (judge_rotation f t) = (if req \<le> pr
        then CalcRotationCentre f (t1\<lparr>pt_numPos := pt_numPos t1 + 1, pt_nStep := 0, pt_totRot := 0, pt_aligning := False\<rparr>)
        else if req > 45 then RotateFail t1 else t1\<lparr>pt_nStep := ?n\<rparr>)"
      using 3 by (simp add: judge_rotation_def Some p Let_def t1 tu(2))
    have dir: "same_slews t (t1\<lparr>pt_numPos := n, pt_nStep := 0, pt_totRot := 0, pt_aligning := False\<rparr>)" for n
      using sl by (simp add: same_slews_def)
    show ?thesis
    proof (cases "req \<le> pr")
      case True
      then show ?thesis using stop[OF same_slews_trans[OF dir CalcRotationCentre_same(1)]] CalcRotationCentre_same(2) by (simp add: e)
    next
      case False
      have q: "0 \<le> of_int (pt_reqStep t1) * pr / req" "of_int (pt_reqStep t1) * pr / req < of_int (pt_reqStep t1)"
        using False pr(1) r(2,4) by (simp_all add: divide_less_eq)
      then have "?n = \<lfloor>of_int (pt_reqStep t1) * pr / req\<rfloor>" using r(5) by (simp add: c_int_def c_trunc_def floor_less_iff le_floor_iff)
      then have "?n < pt_reqStep t1" using q(2) by (simp add: floor_less_iff)
      then have "turning (t1\<lparr>pt_nStep := ?n\<rparr>)" using t1 pr False r(2,3) by (simp add: turning_def turned_def)
      then have "pa_ok (t1\<lparr>pt_nStep := ?n\<rparr>)" using assms(1) sl by (simp add: pa_ok_def same_slews_def turned_def)
      then show ?thesis using False stop[OF same_slews_trans[OF sl RotateFail_same(1)] RotateFail_same(2)] by (simp add: e)
    qed
  qed
qed

lemma same_rotation_ok: "same_rotation t t1 \<Longrightarrow> pa_ok t \<Longrightarrow> pa_ok t1" "same_rotation t t1 \<Longrightarrow> turning t \<Longrightarrow> turning t1"
  by (simp_all add: pa_ok_def turning_def turned_def same_rotation_def same_slews_def)

lemma pa_ok_second:
  assumes "pa_ok t" "pt_aligning t" "turning t \<or> pt_reqRot t = None" "pt_numPos t = 2" "1 \<le> pi_region f"
  shows "\<exists>r. second_position f t = Some r \<and> pa_ok (snd r)"
proof -
  consider "pi_slewing f" | req where "\<not> pi_slewing f" "pt_reqRot t = Some req" "pt_totRot t < req" "turning t"
    | "\<not> pi_slewing f" "\<not> less_rot (pt_totRot t) (pt_reqRot t)"
    using assms(3) by (cases "pt_reqRot t") (auto simp: less_rot_def)
  then show ?thesis
  proof cases
    case 1
    then show ?thesis using assms(1) by (simp add: second_position_def)
  next
    case 2
    have "pt_reqStep t - pt_nStep t \<noteq> 0" using 2 by (auto simp: turning_def)
    then show ?thesis using 2 pa_ok_step[OF assms(1) 2(4,2,3)]
      by (cases "MoveWestBy f ((req - pt_totRot t) / of_int (pt_reqStep t - pt_nStep t)) t")
        (auto simp: second_position_def less_rot_def Let_def)
  next
    case 3
    obtain ok t1 where s: "SetStar f 2 t = (ok, t1)" by fastforce
    note same = SetStar_same[OF s]
    have "pa_ok (snd (judge_rotation f t1))"
    proof (rule pa_ok_judge[where pr = "the (pt_reqRot t)"])
      show "pa_ok t1" using same_rotation_ok(1)[OF same assms(1)] .
      show "pt_aligning t1" "pt_numPos t1 = 2" using same assms(2,4) by (simp_all add: same_rotation_def)
      show "pt_reqRot t1 = None \<or> turning t1 \<and> pt_reqRot t1 = Some (the (pt_reqRot t)) \<and> pt_totRot t1 = the (pt_reqRot t)"
        using assms(3) 3(2) same same_rotation_ok(2)[OF same] by (auto simp: same_rotation_def turning_def less_rot_def)
    qed (rule assms(5))
    moreover have "pa_ok (RotateFail t1)" using pa_ok_stopped[OF same_rotation_ok(1)[OF same assms(1)] RotateFail_same] .
    ultimately show ?thesis using 3 s by (simp add: second_position_def)
  qed
qed

lemma pa_ok_UpdateState:
  assumes "pa_ok t" "1 \<le> pi_region f"
  shows "\<exists>r. pa_UpdateState f t = Some r \<and> pa_ok (snd r)"
proof (cases "pt_aligning t")
  case False
  then show ?thesis using assms(1) by (simp add: pa_UpdateState_def)
next
  case True
  then consider "pt_numPos t = 1" "pt_slews t = []" | "pt_numPos t = 2" "turning t \<or> pt_reqRot t = None" | "pt_numPos t \<ge> 3"
    using assms(1) by (auto simp: pa_ok_def turning_def)
  then show ?thesis
  proof cases
    case 1
    then show ?thesis using pa_ok_first[OF assms(1) 1(2,1) assms(2)] True by (simp add: pa_UpdateState_def RotateMount_def)
  next
    case 2
    then show ?thesis using pa_ok_second[OF assms(1) True 2(2,1) assms(2)] True assms(1)
      by (simp add: pa_UpdateState_def RotateMount_def pa_ok_def)
  next
    case 3
    have "pa_ok (t\<lparr>pt_numPos := pt_numPos t + 1\<rparr>)" using assms(1) 3 True by (simp add: pa_ok_def turning_def turned_def)
    moreover have "pa_UpdateState f t = Some (True, t\<lparr>pt_numPos := pt_numPos t + 1\<rparr>) \<or> pa_UpdateState f t = Some (True, t)"
      using assms(1) 3 by (simp add: pa_UpdateState_def RotateMount_def pa_ok_def)
    ultimately show ?thesis using assms(1) by auto
  qed
qed

lemma pa_ok_run:
  assumes "pa_ok t" "\<forall>f\<in>set fs. 1 \<le> pi_region f"
  shows "\<exists>t1. pa_run fs t = Some t1 \<and> pa_ok t1"
  using assms
proof (induction fs arbitrary: t)
  case (Cons f fs)
  then obtain ok t1 where "pa_UpdateState f t = Some (ok, t1)" "pa_ok t1" using pa_ok_UpdateState[of t f] by force
  then show ?case using Cons by simp
qed simp

text \<open>C23: alignment_turns_at_most_90.  An automatic alignment never divides by zero, whatever the frames, the mount and the
star do: it turns the mount only to the west, and by not more than 90 degrees in all.\<close>

theorem alignment_turns_at_most_90:
  assumes "pt_auto t" "pt_numPos t = 1" "pt_slews t = []" "1 / 1000 \<le> pt_pxScale t" "0 < pt_devpx t" "\<forall>f\<in>set fs. 1 \<le> pi_region f"
  shows "\<exists>t1. pa_run fs t = Some t1 \<and> (\<forall>s\<in>set (pt_slews t1). 0 \<le> fst s) \<and> sum_list (map fst (pt_slews t1)) \<le> 90"
proof -
  have "pa_ok t" using assms by (simp add: pa_ok_def turned_def)
  then show ?thesis using pa_ok_run[OF _ assms(6)] unfolding pa_ok_def turned_def by blast
qed

definition example_tool :: PolarTool where
  "example_tool = \<lparr>pt_pxScale = 1, pt_camAngle = 0, pt_devpx = 5, pt_auto = True, pt_hemi = 1, pt_aligning = True, pt_state = 0,
     pt_numPos = 1, pt_reqRot = None, pt_reqStep = 1, pt_totRot = 0, pt_nStep = 0, pt_raPos = [0, 0, 0],
     pt_pxPos = replicate 3 (\<lparr>p_valid = False, pX = 0, pY = 0\<rparr>), pt_pxCentre = \<lparr>px_x = 0, px_y = 0\<rparr>, pt_radius = 0,
     pt_corr = \<lparr>cv_a = \<lparr>px_x = 0, px_y = 0\<rparr>, cv_b = \<lparr>px_x = 0, px_y = 0\<rparr>\<rparr>, pt_slews = []\<rparr>"

definition example_pa_frame :: PaInput where
  "example_pa_frame = \<lparr>pi_coords = Some (2, 80), pi_slewing = False, pi_slewFails = False,
     pi_star = \<lparr>p_valid = True, pX = 300, pY = 400\<rparr>, pi_relockFails = False, pi_region = 15, pi_frame = (1280, 960), pi_bad = 0\<rparr>"

theorem alignment_turns_at_most_90_witness:
  "\<exists>t1. pa_run [example_pa_frame, example_pa_frame] example_tool = Some t1 \<and> (\<forall>s\<in>set (pt_slews t1). 0 \<le> fst s) \<and>
     sum_list (map fst (pt_slews t1)) \<le> 90"
  by (rule alignment_turns_at_most_90) (simp_all add: example_tool_def example_pa_frame_def)

text \<open>With a required rotation that is not a number, every frame reads the star again.\<close>

lemma SetStar_success:
  assumes "pi_coords f \<noteq> None" "p_valid (pi_star f)"
  shows "\<exists>t1. SetStar f n t = (True, t1) \<and> pt_pxPos t1 = (pt_pxPos t)[n - 1 := pi_star f]"
  using assms by (auto simp: SetStar_def Let_def pa_UnsetState_def pa_SetState_def)

definition rereads :: "PolarTool \<Rightarrow> bool" where
  "rereads t \<longleftrightarrow> pt_auto t \<and> pt_aligning t \<and> pt_numPos t = 2 \<and> pt_reqRot t = None"

definition good_frame :: "PaInput \<Rightarrow> bool" where
  "good_frame f \<longleftrightarrow> \<not> pi_slewing f \<and> pi_coords f \<noteq> None \<and> p_valid (pi_star f)"

lemma judge_nan:
  assumes "act_offset t = None"
  shows "judge_rotation f t = (True, t\<lparr>pt_reqRot := None, pt_reqStep := 1, pt_nStep := pi_bad f\<rparr>)"
  by (cases "pt_reqRot t") (simp_all add: judge_rotation_def SetParams_def assms Let_def)

lemma rereads_run:
  assumes "rereads t" "\<forall>f\<in>set fs. good_frame f"
  shows "\<exists>t1. pa_run fs t = Some t1 \<and> rereads t1 \<and> pt_slews t1 = pt_slews t"
  using assms
proof (induction fs arbitrary: t)
  case (Cons f fs)
  then have g: "\<not> pi_slewing f" "pi_coords f \<noteq> None" "p_valid (pi_star f)" by (simp_all add: good_frame_def)
  obtain t2 where s: "SetStar f 2 t = (True, t2)" using SetStar_success[OF g(2,3), of 2 t] by blast
  have "act_offset t2 = None" using SetStar_same[OF s] Cons.prems(1) by (simp add: act_offset_def rereads_def same_rotation_def)
  then have u: "pa_UpdateState f t = Some (True, t2\<lparr>pt_reqRot := None, pt_reqStep := 1, pt_nStep := pi_bad f\<rparr>)"
    using Cons.prems(1) s g(1)
    by (simp add: pa_UpdateState_def RotateMount_def second_position_def rereads_def less_rot_def judge_nan)
  have "rereads (t2\<lparr>pt_reqRot := None, pt_reqStep := 1, pt_nStep := pi_bad f\<rparr>)" "pt_slews t2 = pt_slews t"
    using SetStar_same[OF s] Cons.prems(1) by (simp_all add: rereads_def same_rotation_def same_slews_def)
  then show ?case using Cons.IH[of "t2\<lparr>pt_reqRot := None, pt_reqStep := 1, pt_nStep := pi_bad f\<rparr>"] Cons.prems(2) u by simp
qed simp

text \<open>C24: alignment_stuck_after_jump.  When the star is found farther from its first position than the required angle
allows, the cosine has no angle: from then on the tool neither turns the mount nor ends, whatever good frames come.\<close>

theorem alignment_stuck_after_jump:
  assumes "pt_auto t" "pt_aligning t" "pt_numPos t = 2" "pt_reqRot t = Some req" "0 < req" "req \<le> pt_totRot t" "2 \<le> length (pt_pxPos t)"
    and "req < hypot (pX (pi_star f) - pX (pt_pxPos t ! 0)) (pY (pi_star f) - pY (pt_pxPos t ! 0)) * pt_pxScale t / 3600"
    and "good_frame f" "\<forall>g\<in>set fs. good_frame g"
  shows "\<exists>t1. pa_run (f # fs) t = Some t1 \<and> pt_aligning t1 \<and> pt_numPos t1 = 2 \<and> pt_slews t1 = pt_slews t"
proof -
  have g: "\<not> pi_slewing f" "pi_coords f \<noteq> None" "p_valid (pi_star f)" using assms(9) by (simp_all add: good_frame_def)
  obtain t2 where s: "SetStar f 2 t = (True, t2)" "pt_pxPos t2 = (pt_pxPos t)[1 := pi_star f]"
    using SetStar_success[OF g(2,3), of 2 t] by auto
  note same = SetStar_same[OF s(1)]
  have "1 < hypot (pX (pi_star f) - pX (pt_pxPos t ! 0)) (pY (pi_star f) - pY (pt_pxPos t ! 0)) * pt_pxScale t / 3600 / req"
    using assms(5,8) by (simp add: less_divide_eq)
  then have "\<bar>hypot (pX (pi_star f) - pX (pt_pxPos t ! 0)) (pY (pi_star f) - pY (pt_pxPos t ! 0)) * pt_pxScale t / 3600 / req\<bar> > 1" by linarith
  then have "act_offset t2 = None"
    using same s(2) assms(4,7) by (simp add: act_offset_def same_rotation_def same_slews_def Let_def del: abs_divide abs_mult divide_divide_eq_left)
  then have u: "pa_UpdateState f t = Some (True, t2\<lparr>pt_reqRot := None, pt_reqStep := 1, pt_nStep := pi_bad f\<rparr>)"
    using assms(1-6) s(1) g(1) by (simp add: pa_UpdateState_def RotateMount_def second_position_def less_rot_def judge_nan)
  have "rereads (t2\<lparr>pt_reqRot := None, pt_reqStep := 1, pt_nStep := pi_bad f\<rparr>)" "pt_slews t2 = pt_slews t"
    using same assms(1-3) by (simp_all add: rereads_def same_rotation_def same_slews_def)
  then show ?thesis using rereads_run[OF _ assms(10), of "t2\<lparr>pt_reqRot := None, pt_reqStep := 1, pt_nStep := pi_bad f\<rparr>"] u
    by (auto simp: rereads_def)
qed

definition example_turned :: PolarTool where
  "example_turned = example_tool\<lparr>pt_numPos := 2, pt_reqRot := Some (1 / 10), pt_totRot := 1 / 10\<rparr>"

theorem alignment_stuck_after_jump_witness:
  "\<exists>t1. pa_run [example_pa_frame, example_pa_frame] example_turned = Some t1 \<and> pt_aligning t1 \<and> pt_numPos t1 = 2 \<and> pt_slews t1 = []"
proof -
  have h: "hypot 300 400 = 500" unfolding hypot_def by (rule real_sqrt_unique) simp_all
  show ?thesis using alignment_stuck_after_jump[of example_turned "1 / 10" example_pa_frame "[example_pa_frame]"] h
    by (simp add: example_turned_def example_tool_def example_pa_frame_def good_frame_def)
qed

end
