(* ===== verification/Guiding_Stats.thy ===== *)
theory Guiding_Stats
  imports Guider_Prelude
begin

text \<open>
  The statistics classes of \<open>src/guiding_stats.cpp\<close>: \<open>DescriptiveStats\<close> (running statistics
  without a history), the high-pass and low-pass filters, \<open>AxisStats\<close> (a history of star
  displacements with running sums) and \<open>WindowedAxisStats\<close>, which trims that history.

  Reals stand for doubles.  \<open>numeric_limits<double>::max()\<close> and \<open>min()\<close> are the constants
  \<open>DBL_MAX\<close> and \<open>DBL_MIN\<close>; note that the latter is the smallest positive normal number.
  The quotients of the linear fit may be \<open>0/0\<close>; their value is then \<^term>\<open>None\<close>, the NaN
  (in exact arithmetic the numerator vanishes with the denominator).
\<close>

section \<open>Limits of the floating-point type\<close>

definition DBL_MAX :: real where
  "DBL_MAX = (2 - 1 / 2 ^ 52) * 2 ^ 1023"

definition DBL_MIN :: real where
  "DBL_MIN = 1 / 2 ^ 1022"

lemma DBL_MIN_pos [simp]: "0 < DBL_MIN"
  by (simp add: DBL_MIN_def)

section \<open>DescriptiveStats\<close>

record DescriptiveStats =
  ds_count :: nat
  runningS :: real
  newS :: real
  runningMean :: real
  newMean :: real
  minValue :: real
  maxValue :: real
  lastValue :: real
  ds_maxDelta :: real

definition ds_ClearAll :: "DescriptiveStats" where
  "ds_ClearAll = \<lparr>ds_count = 0, runningS = 0, newS = 0, runningMean = 0, newMean = 0,
     minValue = DBL_MAX, maxValue = DBL_MIN, lastValue = 0, ds_maxDelta = 0\<rparr>"

definition ds_AddValue :: "DescriptiveStats \<Rightarrow> real \<Rightarrow> DescriptiveStats" where
  "ds_AddValue d Val =
     (let d1 = d\<lparr>ds_count := ds_count d + 1\<rparr>;
          d2 = (if ds_count d1 = 1
                then d1\<lparr>runningMean := Val, newMean := Val, minValue := Val, maxValue := Val,
                        ds_maxDelta := 0\<rparr>
                else let nm = runningMean d1 + (Val - runningMean d1) / real (ds_count d1);
                         ns = runningS d1 + (Val - runningMean d1) * (Val - nm)
                     in d1\<lparr>newMean := nm, newS := ns, runningMean := nm, runningS := ns,
                           minValue := min (minValue d1) Val, maxValue := max (maxValue d1) Val,
                           ds_maxDelta := max (ds_maxDelta d1) \<bar>Val - lastValue d1\<bar>\<rparr>)
      in d2\<lparr>lastValue := Val\<rparr>)"

text \<open>\<open>GetLastValue\<close> asserts a non-empty data set.\<close>

definition ds_GetLastValue :: "DescriptiveStats \<Rightarrow> real option" where
  "ds_GetLastValue d = (if ds_count d > 0 then Some (lastValue d) else None)"

definition ds_GetCount :: "DescriptiveStats \<Rightarrow> nat" where
  "ds_GetCount d = ds_count d"

definition ds_GetVariance :: "DescriptiveStats \<Rightarrow> real" where
  "ds_GetVariance d = (if ds_count d > 1 then runningS d / real (ds_count d - 1) else 0)"

definition ds_GetSigma :: "DescriptiveStats \<Rightarrow> real" where
  "ds_GetSigma d = (if ds_count d > 1 then sqrt (runningS d / real (ds_count d - 1)) else 0)"

definition ds_GetPopulationSigma :: "DescriptiveStats \<Rightarrow> real" where
  "ds_GetPopulationSigma d = (if ds_count d > 0 then sqrt (runningS d / real (ds_count d)) else 0)"

definition ds_GetMean :: "DescriptiveStats \<Rightarrow> real" where
  "ds_GetMean d = (if ds_count d > 0 then runningMean d else 0)"

definition ds_GetSum :: "DescriptiveStats \<Rightarrow> real" where
  "ds_GetSum d = (if ds_count d > 0 then runningMean d * real (ds_count d) else 0)"

definition ds_GetMinimum :: "DescriptiveStats \<Rightarrow> real" where
  "ds_GetMinimum d = (if ds_count d > 0 then minValue d else 0)"

definition ds_GetMaximum :: "DescriptiveStats \<Rightarrow> real" where
  "ds_GetMaximum d = (if ds_count d > 0 then maxValue d else 0)"

definition ds_GetMaxDelta :: "DescriptiveStats \<Rightarrow> real" where
  "ds_GetMaxDelta d = (if ds_count d > 1 then ds_maxDelta d else 0)"

section \<open>The filters\<close>

record HighPassFilter =
  hpf_alphaCutoff :: real
  hpf_count :: nat
  prevVal :: real
  hpfResult :: real

definition hpf_Reset :: "HighPassFilter \<Rightarrow> HighPassFilter" where
  "hpf_Reset f = f\<lparr>hpf_count := 0, prevVal := 0, hpfResult := 0\<rparr>"

definition hpf_new :: "real \<Rightarrow> real \<Rightarrow> HighPassFilter" where
  "hpf_new CutoffPeriod SamplePeriod =
     hpf_Reset \<lparr>hpf_alphaCutoff = CutoffPeriod / (CutoffPeriod + max 1 SamplePeriod),
       hpf_count = 0, prevVal = 0, hpfResult = 0\<rparr>"

definition hpf_AddValue :: "HighPassFilter \<Rightarrow> real \<Rightarrow> HighPassFilter" where
  "hpf_AddValue f NewVal =
     f\<lparr>hpfResult := (if hpf_count f = 0 then NewVal
                     else hpf_alphaCutoff f * (hpfResult f + NewVal - prevVal f)),
       prevVal := NewVal, hpf_count := hpf_count f + 1\<rparr>"

record LowPassFilter =
  lpf_alphaCutoff :: real
  lpf_count :: nat
  lpfResult :: real

definition lpf_Reset :: "LowPassFilter \<Rightarrow> LowPassFilter" where
  "lpf_Reset f = f\<lparr>lpf_count := 0, lpfResult := 0\<rparr>"

definition lpf_new :: "real \<Rightarrow> real \<Rightarrow> LowPassFilter" where
  "lpf_new CutoffPeriod SamplePeriod =
     lpf_Reset \<lparr>lpf_alphaCutoff = 1 - CutoffPeriod / (CutoffPeriod + max 1 SamplePeriod),
       lpf_count = 0, lpfResult = 0\<rparr>"

definition lpf_AddValue :: "LowPassFilter \<Rightarrow> real \<Rightarrow> LowPassFilter" where
  "lpf_AddValue f NewVal =
     f\<lparr>lpfResult := (if lpf_count f = 0 then NewVal
                     else lpfResult f + lpf_alphaCutoff f * (NewVal - lpfResult f)),
       lpf_count := lpf_count f + 1\<rparr>"

section \<open>AxisStats\<close>

record StarDisplacement =
  DeltaTime :: real
  StarPos :: real
  Guided :: bool
  Reversal :: bool

definition StarDisplacement_new :: "real \<Rightarrow> real \<Rightarrow> StarDisplacement" where
  "StarDisplacement_new When Where = \<lparr>DeltaTime = When, StarPos = Where, Guided = False, Reversal = False\<rparr>"

record AxisStats =
  guidingEntries :: "StarDisplacement list"
  axisMoves :: "32 word"
  axisReversals :: "32 word"
  prevMove :: real
  prevPosition :: real
  sumX :: real
  sumY :: real
  sumXY :: real
  sumXSq :: real
  sumYSq :: real
  maxDisplacement :: real
  minDisplacement :: real
  maxDelta :: real
  maxDeltaInx :: int

definition InitializeScalars :: "'a AxisStats_scheme \<Rightarrow> 'a AxisStats_scheme" where
  "InitializeScalars a =
     a\<lparr>axisMoves := 0, axisReversals := 0, sumY := 0, sumYSq := 0, sumX := 0, sumXY := 0,
       sumXSq := 0, prevPosition := 0, prevMove := 0, minDisplacement := DBL_MAX,
       maxDisplacement := DBL_MIN, maxDelta := 0, maxDeltaInx := 0\<rparr>"

definition AxisStats_new :: AxisStats where
  "AxisStats_new = InitializeScalars
     \<lparr>guidingEntries = [], axisMoves = 0, axisReversals = 0, prevMove = 0, prevPosition = 0,
       sumX = 0, sumY = 0, sumXY = 0, sumXSq = 0, sumYSq = 0, maxDisplacement = 0,
       minDisplacement = 0, maxDelta = 0, maxDeltaInx = 0\<rparr>"

definition as_ClearAll :: "'a AxisStats_scheme \<Rightarrow> 'a AxisStats_scheme" where
  "as_ClearAll a = (InitializeScalars a)\<lparr>guidingEntries := []\<rparr>"

definition GetEntry :: "'a AxisStats_scheme \<Rightarrow> nat \<Rightarrow> StarDisplacement" where
  "GetEntry a inx = (if inx < length (guidingEntries a) then guidingEntries a ! inx
                     else StarDisplacement_new 0 0)"

definition AddGuideInfo :: "'a AxisStats_scheme \<Rightarrow> real \<Rightarrow> real \<Rightarrow> real \<Rightarrow> 'a AxisStats_scheme" where
  "AddGuideInfo a DeltaT Pos GuideAmt =
     (let reversal = (GuideAmt \<noteq> 0 \<and> GuideAmt * prevMove a < 0);
          starInfo = (StarDisplacement_new DeltaT Pos)\<lparr>Guided := (GuideAmt \<noteq> 0), Reversal := reversal\<rparr>;
          newDelta = \<bar>StarPos starInfo - prevPosition a\<bar>;
          larger = (length (guidingEntries a) > 1 \<and> newDelta \<ge> maxDelta a)
      in a\<lparr>minDisplacement := min Pos (minDisplacement a),
           maxDisplacement := max Pos (maxDisplacement a),
           sumX := sumX a + DeltaT, sumXY := sumXY a + DeltaT * Pos,
           sumXSq := sumXSq a + DeltaT * DeltaT, sumYSq := sumYSq a + Pos * Pos,
           sumY := sumY a + Pos,
           axisMoves := (if GuideAmt \<noteq> 0 then axisMoves a + 1 else axisMoves a),
           axisReversals := (if reversal then axisReversals a + 1 else axisReversals a),
           prevMove := (if GuideAmt \<noteq> 0 then GuideAmt else prevMove a),
           maxDelta := (if larger then newDelta else maxDelta a),
           maxDeltaInx := (if larger then int (length (guidingEntries a)) else maxDeltaInx a),
           guidingEntries := guidingEntries a @ [starInfo], prevPosition := Pos\<rparr>)"

definition GetLastEntry :: "'a AxisStats_scheme \<Rightarrow> StarDisplacement" where
  "GetLastEntry a = (let sz = length (guidingEntries a)
     in if sz > 0 then guidingEntries a ! (sz - 1) else StarDisplacement_new 0 0)"

definition GetMaxDelta :: "'a AxisStats_scheme \<Rightarrow> real" where
  "GetMaxDelta a = (if length (guidingEntries a) > 1 then maxDelta a else 0)"

definition GetCount :: "'a AxisStats_scheme \<Rightarrow> 32 word" where
  "GetCount a = of_nat (length (guidingEntries a))"

definition GetMean :: "'a AxisStats_scheme \<Rightarrow> real" where
  "GetMean a = (let sz = length (guidingEntries a) in if sz > 0 then sumY a / real sz else 0)"

definition GetVariance :: "'a AxisStats_scheme \<Rightarrow> real" where
  "GetVariance a = (let sz = real (length (guidingEntries a))
     in if length (guidingEntries a) > 1
        then (sz * sumYSq a - sumY a * sumY a) / (sz * (sz - 1)) else 0)"

definition GetSigma :: "'a AxisStats_scheme \<Rightarrow> real" where
  "GetSigma a = (let sz = real (length (guidingEntries a))
     in if length (guidingEntries a) > 1
        then (let variance = (sz * sumYSq a - sumY a * sumY a) / (sz * (sz - 1))
              in if variance \<ge> 0 then sqrt variance else 0)
        else 0)"

definition GetPopulationSigma :: "'a AxisStats_scheme \<Rightarrow> real" where
  "GetPopulationSigma a = (let sz = real (length (guidingEntries a))
     in if length (guidingEntries a) > 1
        then (let variance = (sz * sumYSq a - sumY a * sumY a) / (sz * sz)
              in if variance \<ge> 0 then sqrt variance else 0)
        else 0)"

definition GetMedian :: "'a AxisStats_scheme \<Rightarrow> real" where
  "GetMedian a =
     (let sz = length (guidingEntries a)
      in if sz > 1
         then (let sortedEntries = sort (map StarPos (guidingEntries a));
                   ctr = length sortedEntries div 2
               in if length sortedEntries mod 2 = 1 then sortedEntries ! ctr
                  else (sortedEntries ! ctr + sortedEntries ! (ctr - 1)) / 2)
         else if sz = 1 then StarPos (guidingEntries a ! 0)
         else 0)"

definition GetMinDisplacement :: "'a AxisStats_scheme \<Rightarrow> real" where
  "GetMinDisplacement a = (if length (guidingEntries a) > 0 then minDisplacement a else 0)"

definition GetMaxDisplacement :: "'a AxisStats_scheme \<Rightarrow> real" where
  "GetMaxDisplacement a = (if length (guidingEntries a) > 0 then maxDisplacement a else 0)"

section \<open>Linear fit\<close>

text \<open>A quotient of doubles whose divisor is zero has no useful value here: \<^term>\<open>None\<close>.\<close>

definition qdiv :: "real \<Rightarrow> real \<Rightarrow> real option" where
  "qdiv x y = (if y = 0 then None else Some (x / y))"

text \<open>The loop of the optional \<open>Sigma\<close> result: running mean and accumulated squares.\<close>

fun fit_sigma_loop :: "real \<Rightarrow> real \<Rightarrow> real \<Rightarrow> StarDisplacement list \<Rightarrow> bool \<Rightarrow> real \<times> real \<Rightarrow> real \<times> real" where
  "fit_sigma_loop numVals slope intcpt [] first acc = acc"
| "fit_sigma_loop numVals slope intcpt (e # es) first (currentMean, currentVariance) =
     (let newVal = StarPos e - (DeltaTime e * slope + intcpt)
      in if first then fit_sigma_loop numVals slope intcpt es False (newVal, currentVariance)
         else let delta = newVal - currentMean;
                  newMean = currentMean + delta / numVals
              in fit_sigma_loop numVals slope intcpt es False
                   (newMean, currentVariance + delta * delta))"

record LinearFit =
  lf_Slope :: "real option"
  lf_Intercept :: "real option"
  lf_Sigma :: "real option"
  lf_RSquared :: "real option"

definition GetLinearFitResults :: "'a AxisStats_scheme \<Rightarrow> LinearFit" where
  "GetLinearFitResults a =
     (let es = guidingEntries a; numVals = real (length es)
      in if length es \<le> 1
         then \<lparr>lf_Slope = Some 0, lf_Intercept = Some 0, lf_Sigma = Some 0, lf_RSquared = Some 0\<rparr>
         else
           let slope = qdiv (numVals * sumXY a - sumX a * sumY a)
                            (numVals * sumXSq a - sumX a * sumX a);
               intcpt = (case slope of None \<Rightarrow> None
                         | Some m \<Rightarrow> Some ((sumY a - m * sumX a) / numVals));
               sigma = (case (slope, intcpt) of
                          (Some m, Some b) \<Rightarrow>
                            Some (sqrt (snd (fit_sigma_loop numVals m b es True (0, 0)) / (numVals - 1)))
                        | _ \<Rightarrow> None);
               Syy = sumYSq a - sumY a * sumY a / numVals;
               Sxy = sumXY a - sumX a * sumY a / numVals;
               Sxx = sumXSq a - sumX a * sumX a / numVals;
               rSquared = (case qdiv (Sxy * Sxy) Sxx of None \<Rightarrow> None
                           | Some q \<Rightarrow> let SSE = Syy - q in qdiv (Syy - SSE) Syy)
           in \<lparr>lf_Slope = slope, lf_Intercept = intcpt, lf_Sigma = sigma, lf_RSquared = rSquared\<rparr>)"

section \<open>WindowedAxisStats\<close>

record WindowedAxisStats = AxisStats +
  autoWindowing :: bool
  windowSize :: int

definition WindowedAxisStats_new :: "int \<Rightarrow> WindowedAxisStats" where
  "WindowedAxisStats_new AutoWindowSize =
     AxisStats.extend AxisStats_new \<lparr>autoWindowing = (AutoWindowSize > 0), windowSize = AutoWindowSize\<rparr>"

text \<open>
  The recalculation loop of \<open>AdjustMinMaxValues\<close>: \<open>i\<close> is the distance of the iterator from
  the front of the queue, \<open>prev\<close> the position of the previous entry (initially that of the
  entry to be removed).
\<close>

fun adjust_loop :: "nat \<Rightarrow> real \<Rightarrow> StarDisplacement list \<Rightarrow> WindowedAxisStats \<Rightarrow> WindowedAxisStats" where
  "adjust_loop i prev [] w = w"
| "adjust_loop i prev (e # es) w =
     (let w1 = w\<lparr>minDisplacement := min (minDisplacement w) (StarPos e),
                 maxDisplacement := max (maxDisplacement w) (StarPos e)\<rparr>;
          w2 = (if i > 1 \<and> \<bar>StarPos e - prev\<bar> > maxDelta w1
                then w1\<lparr>maxDelta := \<bar>StarPos e - prev\<bar>, maxDeltaInx := int i\<rparr> else w1)
      in adjust_loop (i + 1) (StarPos e) es w2)"

definition AdjustMinMaxValues :: "WindowedAxisStats \<Rightarrow> WindowedAxisStats" where
  "AdjustMinMaxValues w =
     (let target = hd (guidingEntries w);
          recalNeeded = (length (guidingEntries w) > 1 \<and>
             (StarPos target = maxDisplacement w \<or> StarPos target = minDisplacement w \<or>
              maxDeltaInx w = 0))
      in if recalNeeded
         then adjust_loop 1 (StarPos target) (tl (guidingEntries w))
                (w\<lparr>minDisplacement := DBL_MAX, maxDisplacement := DBL_MIN, maxDelta := 0\<rparr>)
         else w)"

definition RemoveOldestEntry :: "WindowedAxisStats \<Rightarrow> WindowedAxisStats" where
  "RemoveOldestEntry w =
     (if length (guidingEntries w) > 0
      then let target = hd (guidingEntries w);
               val = StarPos target; deltaT = DeltaTime target;
               w1 = w\<lparr>sumY := sumY w - val, sumYSq := sumYSq w - val * val,
                      sumX := sumX w - deltaT, sumXSq := sumXSq w - deltaT * deltaT,
                      sumXY := sumXY w - deltaT * val,
                      axisReversals := (if Reversal target then axisReversals w - 1 else axisReversals w),
                      axisMoves := (if Guided target then axisMoves w - 1 else axisMoves w)\<rparr>;
               w2 = AdjustMinMaxValues w1
           in w2\<lparr>guidingEntries := tl (guidingEntries w2), maxDeltaInx := maxDeltaInx w2 - 1\<rparr>
      else w)"

text \<open>
  \<open>ChangeWindowSize\<close>: the number of deletions is an \<open>int\<close> computed from two \<open>unsigned\<close>
  values.  The result is the pair of the returned flag and the new state.
\<close>

definition ChangeWindowSize :: "WindowedAxisStats \<Rightarrow> 32 word \<Rightarrow> bool \<times> WindowedAxisStats" where
  "ChangeWindowSize w NewSize =
     (if NewSize > 0
      then let numDeletes = sint (GetCount w - NewSize);
               w1 = (RemoveOldestEntry ^^ nat numDeletes) w
           in (True, w1\<lparr>windowSize := sint NewSize, autoWindowing := True\<rparr>)
      else (True, w\<lparr>autoWindowing := False, windowSize := 0\<rparr>))"

text \<open>The comparison of \<open>size()\<close> with the signed window size converts the latter to \<open>size_t\<close>.\<close>

definition w_AddGuideInfo :: "WindowedAxisStats \<Rightarrow> real \<Rightarrow> real \<Rightarrow> real \<Rightarrow> WindowedAxisStats" where
  "w_AddGuideInfo w DeltaT Pos GuideAmt =
     (let w1 = AddGuideInfo w DeltaT Pos GuideAmt
      in if autoWindowing w1 \<and> int (length (guidingEntries w1)) > windowSize w1 mod 2 ^ 64
         then RemoveOldestEntry w1 else w1)"

section \<open>Running statistics and their batch definitions\<close>

definition list_mean :: "real list \<Rightarrow> real" where
  "list_mean xs = sum_list xs / real (length xs)"

definition sq_dev :: "real list \<Rightarrow> real" where
  "sq_dev xs = (\<Sum>x\<leftarrow>xs. (x - list_mean xs)\<^sup>2)"

fun max_diff :: "real list \<Rightarrow> real" where
  "max_diff [] = 0"
| "max_diff [x] = 0"
| "max_diff (x # y # xs) = max \<bar>y - x\<bar> (max_diff (y # xs))"

lemma max_diff_nonneg [simp]: "0 \<le> max_diff xs"
  by (induction xs rule: max_diff.induct) auto

lemma max_diff_snoc:
  "xs \<noteq> [] \<Longrightarrow> max_diff (xs @ [v]) = max (max_diff xs) \<bar>v - last xs\<bar>"
  by (induction xs rule: max_diff.induct) (auto simp: max.assoc)

lemma sum_list_sq_shift:
  fixes xs :: "real list"
  shows "(\<Sum>x\<leftarrow>xs. (x - m)\<^sup>2) = (\<Sum>x\<leftarrow>xs. x\<^sup>2) - 2 * m * sum_list xs + real (length xs) * m\<^sup>2"
  by (induction xs) (auto simp: algebra_simps power2_eq_square)

lemma sq_dev_sums:
  assumes "xs \<noteq> []"
  shows "sq_dev xs = (\<Sum>x\<leftarrow>xs. x\<^sup>2) - (sum_list xs)\<^sup>2 / real (length xs)"
proof -
  define n where "n = real (length xs)"
  have "n > 0" using assms by (simp add: n_def)
  then show ?thesis
    unfolding sq_dev_def sum_list_sq_shift list_mean_def n_def[symmetric]
    by (simp add: field_simps power2_eq_square)
qed

lemma sq_dev_nonneg [simp]: "0 \<le> sq_dev xs"
  unfolding sq_dev_def by (intro sum_list_nonneg) auto

lemma list_mean_times: "xs \<noteq> [] \<Longrightarrow> list_mean xs * real (length xs) = sum_list xs"
  by (simp add: list_mean_def)

definition ds_run :: "real list \<Rightarrow> DescriptiveStats" where
  "ds_run xs = foldl ds_AddValue ds_ClearAll xs"

lemma ds_run_snoc [simp]: "ds_run (xs @ [v]) = ds_AddValue (ds_run xs) v"
  by (simp add: ds_run_def)

lemma ds_run_Nil [simp]: "ds_run [] = ds_ClearAll"
  by (simp add: ds_run_def)

lemma sq_dev_snoc:
  assumes "xs \<noteq> []"
  shows "sq_dev (xs @ [v]) = sq_dev xs + (v - list_mean xs) * (v - list_mean (xs @ [v]))"
proof -
  let ?n = "real (length xs)"
  have n: "?n > 0" "?n + 1 > 0" using assms by auto
  have "list_mean xs = sum_list xs / ?n" "list_mean (xs @ [v]) = (sum_list xs + v) / (?n + 1)"
    by (simp_all add: list_mean_def add.commute)
  moreover have "sq_dev (xs @ [v]) = (\<Sum>x\<leftarrow>xs. x\<^sup>2) + v\<^sup>2 - (sum_list xs + v)\<^sup>2 / (?n + 1)"
    by (simp add: sq_dev_sums add.commute)
  ultimately show ?thesis
    using n by (simp add: sq_dev_sums assms field_simps power2_eq_square)
qed

lemma list_mean_snoc:
  assumes "xs \<noteq> []"
  shows "list_mean (xs @ [v]) = list_mean xs + (v - list_mean xs) / real (length xs + 1)"
proof -
  define n where "n = real (length xs)"
  have "n > 0" using assms by (simp add: n_def)
  then have "sum_list xs / n * (n + 1) + (v - sum_list xs / n) = sum_list xs + v"
    by (simp add: field_simps)
  then have "(sum_list xs + v) / (n + 1) = (sum_list xs / n * (n + 1) + (v - sum_list xs / n)) / (n + 1)"
    by simp
  also have "\<dots> = sum_list xs / n + (v - sum_list xs / n) / (n + 1)"
    using \<open>n > 0\<close> by (simp add: add_divide_distrib)
  finally show ?thesis
    by (simp add: list_mean_def n_def[symmetric] add.commute)
qed

lemma ds_run_stats:
  "ds_count (ds_run xs) = length xs \<and>
   (xs \<noteq> [] \<longrightarrow> runningMean (ds_run xs) = list_mean xs \<and> runningS (ds_run xs) = sq_dev xs \<and>
     minValue (ds_run xs) = Min (set xs) \<and> maxValue (ds_run xs) = Max (set xs) \<and>
     lastValue (ds_run xs) = last xs \<and> ds_maxDelta (ds_run xs) = max_diff xs)"
proof (induction xs rule: rev_induct)
  case Nil
  then show ?case by (simp add: ds_ClearAll_def)
next
  case (snoc v xs)
  show ?case
  proof (cases "xs = []")
    case True
    then have "ds_run (xs @ [v]) = ds_AddValue ds_ClearAll v" by (simp add: ds_run_def)
    with True show ?thesis
      by (simp add: ds_AddValue_def ds_ClearAll_def list_mean_def sq_dev_def Let_def)
  next
    case False
    with snoc have IH: "ds_count (ds_run xs) = length xs" "runningMean (ds_run xs) = list_mean xs"
      "runningS (ds_run xs) = sq_dev xs" "minValue (ds_run xs) = Min (set xs)"
      "maxValue (ds_run xs) = Max (set xs)" "lastValue (ds_run xs) = last xs"
      "ds_maxDelta (ds_run xs) = max_diff xs" by auto
    have "Min (insert v (set xs)) = min v (Min (set xs))" "Max (insert v (set xs)) = max v (Max (set xs))"
      using False by simp_all
    then show ?thesis
      using False IH list_mean_snoc[OF False, of v] sq_dev_snoc[OF False, of v]
      by (simp add: ds_AddValue_def Let_def max_diff_snoc min.commute max.commute)
  qed
qed

section \<open>Filters\<close>

lemma lpf_alpha_range:
  "0 \<le> c \<Longrightarrow> 0 \<le> lpf_alphaCutoff (lpf_new c s) \<and> lpf_alphaCutoff (lpf_new c s) \<le> 1"
  by (simp add: lpf_new_def lpf_Reset_def field_simps)

lemma convex_between:
  fixes a b l u t :: real
  assumes "0 \<le> t" "t \<le> 1" "l \<le> a" "a \<le> u" "l \<le> b" "b \<le> u"
  shows "l \<le> a + t * (b - a) \<and> a + t * (b - a) \<le> u"
proof -
  have "(1 - t) * l + t * l \<le> (1 - t) * a + t * b"
    using assms by (intro add_mono mult_left_mono) auto
  moreover have "(1 - t) * a + t * b \<le> (1 - t) * u + t * u"
    using assms by (intro add_mono mult_left_mono) auto
  ultimately show ?thesis by (simp add: algebra_simps)
qed

lemma lpf_AddValue_simps [simp]:
  "lpf_count (lpf_AddValue f v) = Suc (lpf_count f)"
  "lpf_alphaCutoff (lpf_AddValue f v) = lpf_alphaCutoff f"
  by (simp_all add: lpf_AddValue_def)

lemma lpf_alpha_foldl [simp]:
  "lpf_alphaCutoff (foldl lpf_AddValue f xs) = lpf_alphaCutoff f"
  "lpf_count (foldl lpf_AddValue f xs) = lpf_count f + length xs"
  by (induction xs arbitrary: f) auto

lemma lpf_run_between:
  assumes "0 \<le> c" and "xs \<noteq> []" and "\<forall>x\<in>set xs. l \<le> x \<and> x \<le> u"
  shows "l \<le> lpfResult (foldl lpf_AddValue (lpf_new c s) xs) \<and>
         lpfResult (foldl lpf_AddValue (lpf_new c s) xs) \<le> u"
  using assms(2,3)
proof (induction xs rule: rev_induct)
  case Nil
  then show ?case by simp
next
  case (snoc x xs)
  show ?case
  proof (cases "xs = []")
    case True
    with snoc.prems show ?thesis by (simp add: lpf_AddValue_def lpf_new_def lpf_Reset_def)
  next
    case False
    define f where "f = foldl lpf_AddValue (lpf_new c s) xs"
    have "l \<le> lpfResult f" "lpfResult f \<le> u" "l \<le> x" "x \<le> u"
      using snoc False by (auto simp: f_def)
    moreover have "lpf_alphaCutoff f = lpf_alphaCutoff (lpf_new c s)"
      by (simp add: f_def)
    ultimately have "l \<le> lpfResult f + lpf_alphaCutoff f * (x - lpfResult f) \<and>
        lpfResult f + lpf_alphaCutoff f * (x - lpfResult f) \<le> u"
      using lpf_alpha_range[OF assms(1), of s] by (intro convex_between) auto
    moreover have "lpf_count f \<noteq> 0" using False by (simp add: f_def)
    ultimately show ?thesis
      by (simp add: f_def[symmetric]) (simp add: lpf_AddValue_def)
  qed
qed

text \<open>The high-pass filter of a constant signal decays geometrically.\<close>

lemma hpf_AddValue_simps [simp]:
  "hpf_count (hpf_AddValue f v) = Suc (hpf_count f)"
  "hpf_alphaCutoff (hpf_AddValue f v) = hpf_alphaCutoff f"
  "prevVal (hpf_AddValue f v) = v"
  by (simp_all add: hpf_AddValue_def)

lemma hpf_run_constant:
  "let f = foldl hpf_AddValue (hpf_new c s) (replicate (Suc n) v)
   in hpfResult f = hpf_alphaCutoff (hpf_new c s) ^ n * v \<and> prevVal f = v \<and>
      hpf_count f = Suc n \<and> hpf_alphaCutoff f = hpf_alphaCutoff (hpf_new c s)"
proof (induction n)
  case 0
  then show ?case by (simp add: Let_def hpf_AddValue_def hpf_new_def hpf_Reset_def)
next
  case (Suc n)
  have *: "replicate (Suc (Suc n)) v = replicate (Suc n) v @ [v]"
    using replicate_append_same[of "Suc n" v] by simp
  show ?case
    unfolding * foldl_append using Suc
    by (simp add: Let_def) (simp add: hpf_AddValue_def)
qed

section \<open>AxisStats: the sums describe the entries\<close>

definition sums_ok :: "'a AxisStats_scheme \<Rightarrow> bool" where
  "sums_ok a \<longleftrightarrow>
     sumX a = (\<Sum>e\<leftarrow>guidingEntries a. DeltaTime e) \<and>
     sumY a = (\<Sum>e\<leftarrow>guidingEntries a. StarPos e) \<and>
     sumXY a = (\<Sum>e\<leftarrow>guidingEntries a. DeltaTime e * StarPos e) \<and>
     sumXSq a = (\<Sum>e\<leftarrow>guidingEntries a. DeltaTime e * DeltaTime e) \<and>
     sumYSq a = (\<Sum>e\<leftarrow>guidingEntries a. StarPos e * StarPos e) \<and>
     axisMoves a = of_nat (length (filter Guided (guidingEntries a))) \<and>
     axisReversals a = of_nat (length (filter Reversal (guidingEntries a))) \<and>
     (\<forall>e\<in>set (guidingEntries a). Reversal e \<longrightarrow> Guided e)"

text \<open>What the accessors are meant to return, on the list of positions.\<close>

definition positions :: "'a AxisStats_scheme \<Rightarrow> real list" where
  "positions a = map StarPos (guidingEntries a)"

definition times :: "'a AxisStats_scheme \<Rightarrow> real list" where
  "times a = map DeltaTime (guidingEntries a)"

lemma length_positions [simp]: "length (positions a) = length (guidingEntries a)"
  by (simp add: positions_def)

definition new_entry :: "'a AxisStats_scheme \<Rightarrow> real \<Rightarrow> real \<Rightarrow> real \<Rightarrow> StarDisplacement" where
  "new_entry a t p g = \<lparr>DeltaTime = t, StarPos = p, Guided = (g \<noteq> 0),
     Reversal = (g \<noteq> 0 \<and> g * prevMove a < 0)\<rparr>"

lemma new_entry_simps [simp]:
  "DeltaTime (new_entry a t p g) = t" "StarPos (new_entry a t p g) = p"
  "Guided (new_entry a t p g) = (g \<noteq> 0)"
  "Reversal (new_entry a t p g) = (g \<noteq> 0 \<and> g * prevMove a < 0)"
  by (simp_all add: new_entry_def)

lemma AddGuideInfo_fields [simp]:
  "guidingEntries (AddGuideInfo a t p g) = guidingEntries a @ [new_entry a t p g]"
  "sumX (AddGuideInfo a t p g) = sumX a + t" "sumY (AddGuideInfo a t p g) = sumY a + p"
  "sumXY (AddGuideInfo a t p g) = sumXY a + t * p" "sumXSq (AddGuideInfo a t p g) = sumXSq a + t * t"
  "sumYSq (AddGuideInfo a t p g) = sumYSq a + p * p"
  "axisMoves (AddGuideInfo a t p g) = (if g \<noteq> 0 then axisMoves a + 1 else axisMoves a)"
  "axisReversals (AddGuideInfo a t p g) =
     (if g \<noteq> 0 \<and> g * prevMove a < 0 then axisReversals a + 1 else axisReversals a)"
  "minDisplacement (AddGuideInfo a t p g) = min p (minDisplacement a)"
  "maxDisplacement (AddGuideInfo a t p g) = max p (maxDisplacement a)"
  by (simp_all add: AddGuideInfo_def Let_def StarDisplacement_new_def new_entry_def)

lemma AddGuideInfo_sums [preserves]: "sums_ok a \<Longrightarrow> sums_ok (AddGuideInfo a t p g)"
  unfolding sums_ok_def AddGuideInfo_fields by simp

lemma ClearAll_sums [preserves]: "sums_ok (as_ClearAll a)"
  by (simp add: sums_ok_def as_ClearAll_def InitializeScalars_def)

lemma adjust_loop_frame [simp]:
  "guidingEntries (adjust_loop i prev es w) = guidingEntries w"
  "sumX (adjust_loop i prev es w) = sumX w" "sumY (adjust_loop i prev es w) = sumY w"
  "sumXY (adjust_loop i prev es w) = sumXY w" "sumXSq (adjust_loop i prev es w) = sumXSq w"
  "sumYSq (adjust_loop i prev es w) = sumYSq w"
  "axisMoves (adjust_loop i prev es w) = axisMoves w"
  "axisReversals (adjust_loop i prev es w) = axisReversals w"
  "prevMove (adjust_loop i prev es w) = prevMove w"
  "prevPosition (adjust_loop i prev es w) = prevPosition w"
  "autoWindowing (adjust_loop i prev es w) = autoWindowing w"
  "windowSize (adjust_loop i prev es w) = windowSize w"
  by (induction es arbitrary: i prev w; simp add: Let_def)+

lemma AdjustMinMaxValues_frame [simp]:
  "guidingEntries (AdjustMinMaxValues w) = guidingEntries w"
  "sumX (AdjustMinMaxValues w) = sumX w" "sumY (AdjustMinMaxValues w) = sumY w"
  "sumXY (AdjustMinMaxValues w) = sumXY w" "sumXSq (AdjustMinMaxValues w) = sumXSq w"
  "sumYSq (AdjustMinMaxValues w) = sumYSq w"
  "axisMoves (AdjustMinMaxValues w) = axisMoves w"
  "axisReversals (AdjustMinMaxValues w) = axisReversals w"
  "autoWindowing (AdjustMinMaxValues w) = autoWindowing w"
  "windowSize (AdjustMinMaxValues w) = windowSize w"
  by (simp_all add: AdjustMinMaxValues_def Let_def)

lemma RemoveOldestEntry_entries [simp]:
  "guidingEntries (RemoveOldestEntry w) = tl (guidingEntries w)"
  "autoWindowing (RemoveOldestEntry w) = autoWindowing w"
  "windowSize (RemoveOldestEntry w) = windowSize w"
  by (simp_all add: RemoveOldestEntry_def Let_def)

lemma RemoveOldestEntry_sums [preserves]:
  assumes "sums_ok w"
  shows "sums_ok (RemoveOldestEntry w)"
proof (cases "guidingEntries w")
  case Nil
  with assms show ?thesis by (simp add: RemoveOldestEntry_def)
next
  case (Cons e es)
  with assms show ?thesis by (auto simp: sums_ok_def RemoveOldestEntry_def Let_def)
qed

lemma RemoveOldestEntry_pow:
  "guidingEntries ((RemoveOldestEntry ^^ n) w) = drop n (guidingEntries w)"
  "autoWindowing ((RemoveOldestEntry ^^ n) w) = autoWindowing w"
  "windowSize ((RemoveOldestEntry ^^ n) w) = windowSize w"
  by (induction n) (auto simp: tl_drop drop_Suc)

lemma RemoveOldestEntry_pow_sums: "sums_ok w \<Longrightarrow> sums_ok ((RemoveOldestEntry ^^ n) w)"
  by (induction n) (auto intro: preserves)

lemma ChangeWindowSize_sums [preserves]:
  assumes "sums_ok w"
  shows "sums_ok (snd (ChangeWindowSize w n))"
  using assms RemoveOldestEntry_pow_sums[OF assms]
  by (auto simp: ChangeWindowSize_def Let_def sums_ok_def)

lemma w_AddGuideInfo_sums [preserves]: "sums_ok w \<Longrightarrow> sums_ok (w_AddGuideInfo w t p g)"
  by (auto simp: w_AddGuideInfo_def Let_def intro: preserves)

datatype StatsEvent = EvAdd real real real | EvRemoveOldest | EvResize "32 word" | EvClearAll

fun stats_step :: "WindowedAxisStats \<Rightarrow> StatsEvent \<Rightarrow> WindowedAxisStats" where
  "stats_step w (EvAdd t p g) = w_AddGuideInfo w t p g"
| "stats_step w EvRemoveOldest = RemoveOldestEntry w"
| "stats_step w (EvResize n) = snd (ChangeWindowSize w n)"
| "stats_step w EvClearAll = as_ClearAll w"

interpretation axis_sums: event_machine stats_step "sums_ok :: WindowedAxisStats \<Rightarrow> bool"
proof unfold_locales
  show "sums_ok (stats_step w e)" if "sums_ok w" for w :: WindowedAxisStats and e
    using that by (cases e) (auto intro: preserves)
qed

lemma sums_ok_new: "sums_ok (WindowedAxisStats_new n)"
  by (simp add: sums_ok_def WindowedAxisStats_new_def AxisStats.extend_def AxisStats_new_def
      InitializeScalars_def)

lemma GetMean_ok: "sums_ok a \<Longrightarrow> guidingEntries a \<noteq> [] \<Longrightarrow> GetMean a = list_mean (positions a)"
  by (simp add: GetMean_def sums_ok_def list_mean_def positions_def Let_def)

lemma GetVariance_ok:
  assumes "sums_ok a" and "length (guidingEntries a) > 1"
  shows "GetVariance a = sq_dev (positions a) / real (length (guidingEntries a) - 1)"
proof -
  define n where "n = real (length (guidingEntries a))"
  have n: "n > 1" using assms(2) by (simp add: n_def)
  have ne: "positions a \<noteq> []" using assms(2) by (auto simp: positions_def)
  have "sq_dev (positions a) = sumYSq a - (sumY a)\<^sup>2 / n"
    using assms(1) sq_dev_sums[OF ne]
    by (simp add: sums_ok_def positions_def n_def o_def power2_eq_square)
  moreover have "real (length (guidingEntries a) - 1) = n - 1" using assms(2) by (simp add: n_def)
  moreover have "(n * sumYSq a - sumY a * sumY a) / (n * (n - 1)) = (sumYSq a - (sumY a)\<^sup>2 / n) / (n - 1)"
    using n by (simp add: divide_simps power2_eq_square)
  ultimately show ?thesis
    using assms(2) by (simp add: GetVariance_def n_def Let_def)
qed

lemma GetSigma_ok:
  assumes "sums_ok a" and "length (guidingEntries a) > 1"
  shows "GetSigma a = sqrt (sq_dev (positions a) / real (length (guidingEntries a) - 1))"
proof -
  have "GetVariance a \<ge> 0" using GetVariance_ok[OF assms] by simp
  moreover have "GetSigma a = (if GetVariance a \<ge> 0 then sqrt (GetVariance a) else 0)"
    using assms(2) by (simp add: GetSigma_def GetVariance_def Let_def)
  ultimately show ?thesis using GetVariance_ok[OF assms] by simp
qed

section \<open>The extreme values\<close>

definition minmax_ok :: "'a AxisStats_scheme \<Rightarrow> bool" where
  "minmax_ok a \<longleftrightarrow>
     minDisplacement a = Min (insert DBL_MAX (set (positions a))) \<and>
     maxDisplacement a = Max (insert DBL_MIN (set (positions a)))"

lemma adjust_loop_minmax:
  "minDisplacement (adjust_loop i prev es w) = Min (insert (minDisplacement w) (StarPos ` set es)) \<and>
   maxDisplacement (adjust_loop i prev es w) = Max (insert (maxDisplacement w) (StarPos ` set es))"
proof (induction es arbitrary: i prev w)
  case Nil
  then show ?case by simp
next
  case (Cons e es)
  have "Min (insert (min a b) S) = Min (insert a (insert b S))"
       "Max (insert (max a b) S) = Max (insert a (insert b S))" if "finite S" for a b :: real and S
    using that by (cases "S = {}"; simp add: min.assoc max.assoc)+
  with Cons show ?case by (simp add: Let_def insert_commute)
qed

lemma Min_insert_drop:
  fixes p :: real
  assumes "finite S" and "D \<in> S" and "Min (insert p S) \<noteq> p"
  shows "Min (insert p S) = Min S"
proof -
  have "S \<noteq> {}" using assms(2) by auto
  with assms show ?thesis by (simp add: min_def split: if_splits)
qed

lemma Max_insert_drop:
  fixes p :: real
  assumes "finite S" and "D \<in> S" and "Max (insert p S) \<noteq> p"
  shows "Max (insert p S) = Max S"
proof -
  have "S \<noteq> {}" using assms(2) by auto
  with assms show ?thesis by (simp add: max_def split: if_splits)
qed

lemma AddGuideInfo_minmax [preserves]:
  assumes "minmax_ok a" shows "minmax_ok (AddGuideInfo a t p g)"
proof -
  have "set (positions (AddGuideInfo a t p g)) = insert p (set (positions a))"
    by (simp add: positions_def)
  then show ?thesis
    using assms by (simp add: minmax_ok_def insert_commute[of _ p])
qed

lemma RemoveOldestEntry_minmax:
  assumes ok: "minmax_ok w" and len: "length (guidingEntries w) > 1"
  shows "minmax_ok (RemoveOldestEntry w)"
proof -
  obtain e es where es: "guidingEntries w = e # es" "es \<noteq> []"
    using len by (cases "guidingEntries w") auto
  let ?P = "set (map StarPos es)"
  have pos: "set (positions (RemoveOldestEntry w)) = ?P"
    using es by (simp add: positions_def)
  obtain w1 where w1: "minDisplacement (RemoveOldestEntry w) = minDisplacement (AdjustMinMaxValues w1)"
    "maxDisplacement (RemoveOldestEntry w) = maxDisplacement (AdjustMinMaxValues w1)"
    "guidingEntries w1 = e # es" "minDisplacement w1 = minDisplacement w"
    "maxDisplacement w1 = maxDisplacement w"
    using es by (simp add: RemoveOldestEntry_def Let_def)
  show ?thesis
  proof (cases "StarPos e = maxDisplacement w \<or> StarPos e = minDisplacement w \<or> maxDeltaInx w1 = 0")
    case True
    then show ?thesis
      using w1 es unfolding minmax_ok_def pos
      by (simp add: AdjustMinMaxValues_def Let_def adjust_loop_minmax)
  next
    case False
    then have "minDisplacement (RemoveOldestEntry w) = minDisplacement w"
      "maxDisplacement (RemoveOldestEntry w) = maxDisplacement w"
      using w1 by (auto simp: AdjustMinMaxValues_def Let_def)
    moreover have "minDisplacement w = Min (insert (StarPos e) (insert DBL_MAX ?P))"
      "maxDisplacement w = Max (insert (StarPos e) (insert DBL_MIN ?P))"
      using ok es by (simp_all add: minmax_ok_def positions_def insert_commute)
    ultimately show ?thesis
      using False Min_insert_drop[of "insert DBL_MAX ?P" DBL_MAX "StarPos e"]
        Max_insert_drop[of "insert DBL_MIN ?P" DBL_MIN "StarPos e"]
      unfolding minmax_ok_def pos by simp
  qed
qed

lemma minmax_ok_new: "minmax_ok (WindowedAxisStats_new n)"
  by (simp add: minmax_ok_def positions_def WindowedAxisStats_new_def AxisStats.extend_def
      AxisStats_new_def InitializeScalars_def)

section \<open>The window\<close>

definition w_add :: "WindowedAxisStats \<Rightarrow> real \<times> real \<times> real \<Rightarrow> WindowedAxisStats" where
  "w_add w s = (case s of (t, p, g) \<Rightarrow> w_AddGuideInfo w t p g)"

lemma AddGuideInfo_window_fields [simp]:
  "autoWindowing (AddGuideInfo w t p g) = autoWindowing w"
  "windowSize (AddGuideInfo w t p g) = windowSize w"
  by (simp_all add: AddGuideInfo_def Let_def)

definition stamp :: "StarDisplacement \<Rightarrow> real \<times> real" where
  "stamp e = (DeltaTime e, StarPos e)"

lemma map_StarPos_stamp: "map StarPos es = map snd (map stamp es)"
  by (simp add: stamp_def)

lemma w_run_window:
  assumes "0 < n" and "n < 2 ^ 31"
  defines "w \<equiv> \<lambda>xs. foldl w_add (WindowedAxisStats_new (int n)) xs"
  shows "map stamp (guidingEntries (w xs)) = drop (length xs - n) (map (\<lambda>(t, p, g). (t, p)) xs) \<and>
    autoWindowing (w xs) \<and> windowSize (w xs) = int n \<and> minmax_ok (w xs) \<and> sums_ok (w xs)"
proof (induction xs rule: rev_induct)
  case Nil
  have "minmax_ok (WindowedAxisStats_new (int n))" "sums_ok (WindowedAxisStats_new (int n))"
    by (rule minmax_ok_new, rule sums_ok_new)
  with assms(1) show ?case
    by (simp add: w_def) (simp add: WindowedAxisStats_new_def AxisStats.extend_def AxisStats_new_def
        InitializeScalars_def)
next
  case (snoc x xs)
  obtain t p g where x: "x = (t, p, g)" by (cases x)
  define v where "v = AddGuideInfo (w xs) t p g"
  have wv: "w (xs @ [x]) = (if length (guidingEntries v) > n then RemoveOldestEntry v else v)"
    using snoc.IH assms(1,2)
    by (simp add: w_def x w_add_def w_AddGuideInfo_def v_def[unfolded w_def] Let_def)
  have sv: "map stamp (guidingEntries v) = map stamp (guidingEntries (w xs)) @ [(t, p)]"
    by (simp add: v_def stamp_def)
  have lw: "length (guidingEntries (w xs)) = min n (length xs)"
    using arg_cong[OF conjunct1[OF snoc.IH], of length] by (simp add: min_def)
  have lv: "length (guidingEntries v) = Suc (min n (length xs))"
    using arg_cong[OF sv, of length] lw by simp
  have ok: "minmax_ok v" "sums_ok v" "autoWindowing v" "windowSize v = int n"
    using snoc.IH by (auto simp: v_def intro: preserves)
  show ?case
  proof (cases "n \<le> length xs")
    case True
    then have "w (xs @ [x]) = RemoveOldestEntry v" and l1: "length (guidingEntries v) > 1"
      using wv lv assms(1) by auto
    moreover have "map stamp (tl (guidingEntries v)) =
        drop (Suc (length xs) - n) (map (\<lambda>(t, p, g). (t, p)) (xs @ [x]))"
    proof -
      have "map stamp (guidingEntries (w xs)) \<noteq> []"
        using lw True assms(1) by auto
      then have "map stamp (tl (guidingEntries v)) = tl (map stamp (guidingEntries (w xs))) @ [(t, p)]"
        using sv by (simp add: map_tl tl_append2)
      also have "tl (map stamp (guidingEntries (w xs))) =
          drop (Suc (length xs - n)) (map (\<lambda>(t, p, g). (t, p)) xs)"
        using snoc.IH by (simp add: drop_Suc tl_drop)
      finally show ?thesis using True assms(1) by (simp add: x Suc_diff_le)
    qed
    ultimately show ?thesis
      using ok RemoveOldestEntry_minmax[OF ok(1) l1] by (auto intro: preserves)
  next
    case False
    then have "w (xs @ [x]) = v" using wv lv by simp
    with ok sv snoc.IH False show ?thesis by (simp add: x)
  qed
qed

section \<open>The linear fit\<close>

definition fit_sse :: "StarDisplacement list \<Rightarrow> real \<Rightarrow> real \<Rightarrow> real" where
  "fit_sse es m b = (\<Sum>e\<leftarrow>es. (StarPos e - (m * DeltaTime e + b))\<^sup>2)"

lemma fit_sse_expand:
  "fit_sse es m' b' = fit_sse es m b +
     2 * (m - m') * (\<Sum>e\<leftarrow>es. (StarPos e - (m * DeltaTime e + b)) * DeltaTime e) +
     2 * (b - b') * (\<Sum>e\<leftarrow>es. StarPos e - (m * DeltaTime e + b)) +
     (\<Sum>e\<leftarrow>es. ((m - m') * DeltaTime e + (b - b'))\<^sup>2)"
  unfolding fit_sse_def by (induction es) (auto simp: algebra_simps power2_eq_square)

lemma fit_residual_sums:
  "(\<Sum>e\<leftarrow>es. StarPos e - (m * DeltaTime e + b)) =
     (\<Sum>e\<leftarrow>es. StarPos e) - m * (\<Sum>e\<leftarrow>es. DeltaTime e) - real (length es) * b"
  "(\<Sum>e\<leftarrow>es. (StarPos e - (m * DeltaTime e + b)) * DeltaTime e) =
     (\<Sum>e\<leftarrow>es. DeltaTime e * StarPos e) - m * (\<Sum>e\<leftarrow>es. DeltaTime e * DeltaTime e)
       - b * (\<Sum>e\<leftarrow>es. DeltaTime e)"
  by (induction es) (auto simp: algebra_simps)

lemma fit_sse_min:
  assumes "(\<Sum>e\<leftarrow>es. StarPos e - (m * DeltaTime e + b)) = 0"
    and "(\<Sum>e\<leftarrow>es. (StarPos e - (m * DeltaTime e + b)) * DeltaTime e) = 0"
  shows "fit_sse es m b \<le> fit_sse es m' b'"
proof -
  have "0 \<le> (\<Sum>e\<leftarrow>es. ((m - m') * DeltaTime e + (b - b'))\<^sup>2)"
    by (intro sum_list_nonneg) auto
  then show ?thesis unfolding fit_sse_expand[of es m' b' m b] by (simp add: assms)
qed

lemma sum_list_eq_0_sq:
  fixes xs :: "real list"
  shows "(\<Sum>x\<leftarrow>xs. (x - m)\<^sup>2) = 0 \<longleftrightarrow> (\<forall>x\<in>set xs. x = m)"
  by (subst sum_list_nonneg_eq_0_iff) auto

lemma sq_dev_0_iff: "sq_dev xs = 0 \<longleftrightarrow> (\<forall>x\<in>set xs. x = list_mean xs)"
  by (simp add: sq_dev_def sum_list_eq_0_sq)

lemma sum_list_sq_alt: "(\<Sum>e\<leftarrow>es. f e * f e) = (\<Sum>x\<leftarrow>map f es. x\<^sup>2)" for f :: "'a \<Rightarrow> real"
  by (simp add: o_def power2_eq_square)

lemma fit_divisors:
  assumes "sums_ok a" and "guidingEntries a \<noteq> []"
  defines "n \<equiv> real (length (guidingEntries a))"
  shows "n * sumXSq a - sumX a * sumX a = n * sq_dev (times a)"
    and "sumXSq a - sumX a * sumX a / n = sq_dev (times a)"
    and "sumYSq a - sumY a * sumY a / n = sq_dev (positions a)"
proof -
  have n: "n > 0" using assms(2) by (simp add: n_def)
  have "sq_dev (times a) = sumXSq a - (sumX a)\<^sup>2 / n"
    "sq_dev (positions a) = sumYSq a - (sumY a)\<^sup>2 / n"
    using assms(1,2) sq_dev_sums[of "times a"] sq_dev_sums[of "positions a"]
    by (simp_all add: sums_ok_def times_def positions_def n_def sum_list_sq_alt del: map_map)
  with n show "n * sumXSq a - sumX a * sumX a = n * sq_dev (times a)"
    "sumXSq a - sumX a * sumX a / n = sq_dev (times a)"
    "sumYSq a - sumY a * sumY a / n = sq_dev (positions a)"
    by (simp_all add: field_simps power2_eq_square)
qed

lemma fit_slope_defined:
  assumes "sums_ok a" and "length (guidingEntries a) > 1"
  shows "lf_Slope (GetLinearFitResults a) = None \<longleftrightarrow> sq_dev (times a) = 0"
proof -
  have "guidingEntries a \<noteq> []" using assms(2) by auto
  then show ?thesis
    using assms fit_divisors(1)[OF assms(1)]
    by (simp add: GetLinearFitResults_def qdiv_def Let_def)
qed

lemma fit_normal_equations:
  assumes ok: "sums_ok a" and len: "length (guidingEntries a) > 1"
    and m: "lf_Slope (GetLinearFitResults a) = Some m"
    and b: "lf_Intercept (GetLinearFitResults a) = Some b"
  shows "sumY a - m * sumX a - real (length (guidingEntries a)) * b = 0"
    and "sumXY a - m * sumXSq a - b * sumX a = 0"
proof -
  define n where "n = real (length (guidingEntries a))"
  have n: "n > 0" using len by (auto simp: n_def)
  let ?D = "n * sumXSq a - sumX a * sumX a"
  have D: "?D \<noteq> 0" and m': "m = (n * sumXY a - sumX a * sumY a) / ?D"
    and b': "b = (sumY a - m * sumX a) / n"
    using len m b by (auto simp: GetLinearFitResults_def qdiv_def Let_def n_def split: if_splits)
  from n b' show e1: "sumY a - m * sumX a - real (length (guidingEntries a)) * b = 0"
    by (simp add: n_def[symmetric])
  have "m * ?D = n * sumXY a - sumX a * sumY a" using D m' by simp
  then have "n * (sumXY a - m * sumXSq a) = sumX a * (sumY a - m * sumX a)"
    by (simp add: algebra_simps)
  also have "\<dots> = n * (b * sumX a)" using n b' by simp
  finally show "sumXY a - m * sumXSq a - b * sumX a = 0" using n by simp
qed

lemma fit_optimal:
  assumes ok: "sums_ok a" and len: "length (guidingEntries a) > 1"
    and m: "lf_Slope (GetLinearFitResults a) = Some m"
    and b: "lf_Intercept (GetLinearFitResults a) = Some b"
  shows "fit_sse (guidingEntries a) m b \<le> fit_sse (guidingEntries a) m' b'"
  using fit_normal_equations[OF assms] ok
  by (intro fit_sse_min) (simp_all add: fit_residual_sums sums_ok_def)

lemma ratio_complement: "(y :: real) \<noteq> 0 \<Longrightarrow> (y - x) / y = 1 - x / y"
  by (simp add: diff_divide_distrib)

lemma fit_rsquared:
  assumes ok: "sums_ok a" and len: "length (guidingEntries a) > 1"
    and m: "lf_Slope (GetLinearFitResults a) = Some m"
    and b: "lf_Intercept (GetLinearFitResults a) = Some b"
    and r: "lf_RSquared (GetLinearFitResults a) = Some r"
  shows "r = 1 - fit_sse (guidingEntries a) m b / sq_dev (positions a)"
proof -
  define n where "n = real (length (guidingEntries a))"
  let ?es = "guidingEntries a"
  let ?Sxx = "sumXSq a - sumX a * sumX a / n" and ?Syy = "sumYSq a - sumY a * sumY a / n"
    and ?Sxy = "sumXY a - sumX a * sumY a / n"
  have n: "n > 0" and ne: "?es \<noteq> []" using len by (auto simp: n_def)
  have Sxx: "?Sxx \<noteq> 0" and Syy: "?Syy \<noteq> 0" and r': "r = (?Syy - (?Syy - ?Sxy * ?Sxy / ?Sxx)) / ?Syy"
    using len r by (auto simp: GetLinearFitResults_def qdiv_def Let_def n_def split: if_splits)
  have "m = (n * sumXY a - sumX a * sumY a) / (n * sumXSq a - sumX a * sumX a)"
    and b': "b = (sumY a - m * sumX a) / n"
    using len m b by (auto simp: GetLinearFitResults_def qdiv_def Let_def n_def split: if_splits)
  moreover have "n * sumXSq a - sumX a * sumX a = n * ?Sxx" "n * sumXY a - sumX a * sumY a = n * ?Sxy"
    using n by (simp_all add: field_simps)
  ultimately have m': "m = ?Sxy / ?Sxx" using n by simp
  have "fit_sse ?es m b = sumYSq a - m * sumXY a - b * sumY a"
  proof -
    have "(\<Sum>e\<leftarrow>es. (StarPos e - (m * DeltaTime e + b))\<^sup>2) =
        (\<Sum>e\<leftarrow>es. StarPos e * StarPos e) - m * (\<Sum>e\<leftarrow>es. DeltaTime e * StarPos e) - b * (\<Sum>e\<leftarrow>es. StarPos e)
        - m * (\<Sum>e\<leftarrow>es. (StarPos e - (m * DeltaTime e + b)) * DeltaTime e)
        - b * (\<Sum>e\<leftarrow>es. StarPos e - (m * DeltaTime e + b))" for es
      by (induction es) (auto simp: algebra_simps power2_eq_square)
    then have "fit_sse ?es m b = sumYSq a - m * sumXY a - b * sumY a
        - m * (sumXY a - m * sumXSq a - b * sumX a) - b * (sumY a - m * sumX a - n * b)"
      using ok unfolding fit_sse_def fit_residual_sums sums_ok_def n_def by simp
    then show ?thesis using fit_normal_equations[OF ok len m b] by (simp add: n_def)
  qed
  also have "\<dots> = ?Syy - m * ?Sxy"
    using n unfolding b' by (simp add: field_simps)
  also have "\<dots> = ?Syy - ?Sxy * ?Sxy / ?Sxx" unfolding m' by simp
  finally have "fit_sse ?es m b = ?Syy - ?Sxy * ?Sxy / ?Sxx" .
  with r' have "r = (?Syy - fit_sse ?es m b) / ?Syy" by simp
  also have "\<dots> = 1 - fit_sse ?es m b / ?Syy" using Syy by (rule ratio_complement)
  finally have "r = 1 - fit_sse ?es m b / ?Syy" .
  then show ?thesis using fit_divisors(3)[OF ok ne] by (simp add: n_def)
qed

section \<open>Median and largest step\<close>

lemma sorted_count_le:
  fixes xs :: "real list"
  assumes "sorted xs" and "k < length xs"
  shows "Suc k \<le> length (filter (\<lambda>x. x \<le> xs ! k) xs)"
    and "length xs - k \<le> length (filter (\<lambda>x. xs ! k \<le> x) xs)"
proof -
  have all: "\<forall>x\<in>set (take (Suc k) xs). x \<le> xs ! k" "\<forall>x\<in>set (drop k xs). xs ! k \<le> x"
    using assms by (auto simp: in_set_conv_nth sorted_nth_mono)
  have "filter (\<lambda>x. x \<le> xs ! k) (take (Suc k) xs) = take (Suc k) xs"
    "filter (\<lambda>x. xs ! k \<le> x) (drop k xs) = drop k xs"
    using all by (auto intro: filter_True)
  moreover have "length (filter P xs) = length (filter P (take j xs)) + length (filter P (drop j xs))"
    for P j
    by (metis append_take_drop_id filter_append length_append)
  ultimately show "Suc k \<le> length (filter (\<lambda>x. x \<le> xs ! k) xs)"
    "length xs - k \<le> length (filter (\<lambda>x. xs ! k \<le> x) xs)"
    using assms(2)
    by (metis length_take min.absorb2 Suc_leI le_add1, metis length_drop le_add2)
qed

lemma length_filter_sort: "length (filter P (sort xs)) = length (filter P xs)" for xs :: "real list"
  by (metis mset_filter mset_sort size_mset)

lemma length_filter_mono:
  "(\<And>x. P x \<Longrightarrow> Q x) \<Longrightarrow> length (filter P xs) \<le> length (filter Q xs)"
  by (induction xs) auto

lemma GetMedian_halves:
  assumes "guidingEntries a \<noteq> []"
  shows "length (positions a) \<le> 2 * length (filter (\<lambda>x. x \<le> GetMedian a) (positions a)) \<and>
         length (positions a) \<le> 2 * length (filter (\<lambda>x. GetMedian a \<le> x) (positions a))"
proof (cases "length (guidingEntries a) > 1")
  case False
  then obtain e where "guidingEntries a = [e]"
    using assms by (cases "guidingEntries a") auto
  then show ?thesis by (simp add: GetMedian_def positions_def)
next
  case True
  define ys where "ys = sort (positions a)"
  define c where "c = length ys div 2"
  have s: "sorted ys" and l: "length ys = length (guidingEntries a)" by (simp_all add: ys_def)
  have f: "length (filter P (positions a)) = length (filter P ys)" for P
    by (simp add: ys_def length_filter_sort)
  have c: "c < length ys" "c - 1 < length ys" "1 \<le> c" using True l by (auto simp: c_def)
  have med: "GetMedian a = (if length ys mod 2 = 1 then ys ! c else (ys ! c + ys ! (c - 1)) / 2)"
    using True by (simp add: GetMedian_def Let_def ys_def c_def positions_def)
  show ?thesis
  proof (cases "length ys mod 2 = 1")
    case odd: True
    then have "length ys = 2 * c + 1" unfolding c_def by presburger
    with odd show ?thesis
      using sorted_count_le[OF s c(1)] by (simp add: med f l[symmetric])
  next
    case even: False
    then have n: "length ys = 2 * c" unfolding c_def by presburger
    have le: "ys ! (c - 1) \<le> ys ! c" using s c by (simp add: sorted_nth_mono)
    have "length (filter (\<lambda>x. x \<le> ys ! (c - 1)) ys) \<le> length (filter (\<lambda>x. x \<le> GetMedian a) ys)"
      "length (filter (\<lambda>x. ys ! c \<le> x) ys) \<le> length (filter (\<lambda>x. GetMedian a \<le> x) ys)"
      using le even by (auto simp: med intro!: length_filter_mono)
    then show ?thesis
      using sorted_count_le(1)[OF s c(2)] sorted_count_le(2)[OF s c(1)] c n
      by (simp add: f l[symmetric])
  qed
qed

section \<open>Largest step between entries\<close>

lemma AddGuideInfo_maxDelta:
  "maxDelta (AddGuideInfo a t p g) =
     (if length (guidingEntries a) > 1 then max (maxDelta a) \<bar>p - prevPosition a\<bar> else maxDelta a)"
  "prevPosition (AddGuideInfo a t p g) = p"
  by (simp_all add: AddGuideInfo_def Let_def max_def StarDisplacement_new_def)

lemma maxDelta_run:
  defines "a \<equiv> \<lambda>xs. foldl (\<lambda>a (t, p, g). AddGuideInfo a t p g) AxisStats_new xs"
  shows "positions (a xs) = map (\<lambda>(t, p, g). p) xs \<and> maxDelta (a xs) = max_diff (tl (positions (a xs))) \<and>
     (xs \<noteq> [] \<longrightarrow> prevPosition (a xs) = last (positions (a xs)))"
proof (induction xs rule: rev_induct)
  case Nil
  then show ?case by (simp add: a_def AxisStats_new_def InitializeScalars_def positions_def)
next
  case (snoc x xs)
  obtain t p g where x: "x = (t, p, g)" by (cases x)
  have step: "a (xs @ [x]) = AddGuideInfo (a xs) t p g" by (simp add: a_def x)
  have pos: "positions (a (xs @ [x])) = positions (a xs) @ [p]"
    by (simp add: step positions_def)
  have len: "length (guidingEntries (a xs)) = length xs"
    using arg_cong[OF conjunct1[OF snoc.IH], of length] by simp
  show ?case
  proof (cases "length xs > 1")
    case True
    then obtain q r where pr: "positions (a xs) = q # r" "r \<noteq> []"
      using len by (cases "positions (a xs)"; cases "tl (positions (a xs))")
        (auto simp: positions_def)
    moreover have "prevPosition (a xs) = last r" using snoc.IH True pr by auto
    moreover have "maxDelta (a (xs @ [x])) = max (maxDelta (a xs)) \<bar>p - prevPosition (a xs)\<bar>"
      using True len by (simp add: step AddGuideInfo_maxDelta)
    moreover have "prevPosition (a (xs @ [x])) = p" by (simp add: step AddGuideInfo_maxDelta)
    ultimately show ?thesis
      using snoc.IH by (simp add: pos[unfolded x] max_diff_snoc x)
  next
    case False
    then have md: "maxDelta (a (xs @ [x])) = maxDelta (a xs)" "prevPosition (a (xs @ [x])) = p"
      using len by (simp_all add: step AddGuideInfo_maxDelta)
    have "length (positions (a xs)) \<le> 1" using False len by simp
    then have "positions (a xs) = [] \<or> (\<exists>q. positions (a xs) = [q])"
      by (cases "positions (a xs)") auto
    then show ?thesis
      using snoc.IH md pos by (auto simp: x)
  qed
qed

section \<open>Properties\<close>

text \<open>The running statistics of \<open>DescriptiveStats\<close> agree with the batch definitions on
  the values added since the last \<open>ClearAll\<close>: count, mean, sample variance, standard deviations,
  sum, minimum, maximum, last value and largest absolute step.\<close>

theorem descriptive_stats_batch:
  assumes "xs \<noteq> []"
  shows "let d = foldl ds_AddValue ds_ClearAll xs; n = length xs
    in ds_GetCount d = n \<and> ds_GetMean d = list_mean xs \<and> ds_GetSum d = sum_list xs \<and>
       ds_GetVariance d = (if n > 1 then sq_dev xs / real (n - 1) else 0) \<and>
       ds_GetSigma d = sqrt (ds_GetVariance d) \<and>
       ds_GetPopulationSigma d = sqrt (sq_dev xs / real n) \<and>
       ds_GetMinimum d = Min (set xs) \<and> ds_GetMaximum d = Max (set xs) \<and>
       ds_GetLastValue d = Some (last xs) \<and> ds_GetMaxDelta d = max_diff xs"
proof -
  have "length xs = 1 \<Longrightarrow> max_diff xs = 0" by (cases xs) auto
  then show ?thesis
    using ds_run_stats[of xs] assms list_mean_times[OF assms]
    by (auto simp: Let_def ds_run_def[symmetric] ds_GetCount_def ds_GetMean_def ds_GetSum_def
        ds_GetVariance_def ds_GetSigma_def ds_GetPopulationSigma_def ds_GetMinimum_def
        ds_GetMaximum_def ds_GetLastValue_def ds_GetMaxDelta_def not_less le_Suc_eq)
qed

theorem descriptive_stats_batch_witness:
  "ds_GetMean (foldl ds_AddValue ds_ClearAll [1, 2, 6]) = 3 \<and>
   ds_GetVariance (foldl ds_AddValue ds_ClearAll [1, 2, 6]) = 7 \<and>
   ds_GetMaxDelta (foldl ds_AddValue ds_ClearAll [1, 2, 6]) = 4"
  using descriptive_stats_batch[of "[1, 2, 6]"]
  by (simp add: Let_def list_mean_def sq_dev_def)

text \<open>C14: whatever sequence of additions, removals, resizes and clears a windowed data set sees,
  its move and reversal counters count the entries it holds, and its mean, variance and sigma are
  those of these entries.\<close>

theorem windowed_stats_describe_entries:
  fixes es :: "StatsEvent list" and size0 :: int
  defines "w \<equiv> run_events stats_step (WindowedAxisStats_new size0) es"
  shows "axisMoves w = of_nat (length (filter Guided (guidingEntries w))) \<and>
    axisReversals w = of_nat (length (filter Reversal (guidingEntries w))) \<and>
    GetMean w = (if guidingEntries w = [] then 0 else list_mean (positions w)) \<and>
    (length (guidingEntries w) > 1 \<longrightarrow>
       GetVariance w = sq_dev (positions w) / real (length (guidingEntries w) - 1) \<and>
       GetSigma w = sqrt (GetVariance w))"
proof -
  have ok: "sums_ok w" unfolding w_def by (rule axis_sums.invar_run[OF sums_ok_new])
  moreover have "GetMean w = 0" if "guidingEntries w = []"
    using that by (simp add: GetMean_def Let_def)
  ultimately show ?thesis
    using GetMean_ok[OF ok] GetVariance_ok[OF ok] GetSigma_ok[OF ok] by (auto simp: sums_ok_def)
qed

theorem windowed_stats_describe_entries_witness:
  "let w = run_events stats_step (WindowedAxisStats_new 2) [EvAdd 0 1 5, EvAdd 1 3 (-2), EvAdd 2 7 0]
   in length (guidingEntries w) = 2 \<and> GetVariance w = 8 \<and> axisMoves w = 1"
proof -
  define w where "w = run_events stats_step (WindowedAxisStats_new 2)
    [EvAdd 0 1 5, EvAdd 1 3 (-2), EvAdd 2 7 0]"
  have es: "map StarPos (guidingEntries w) = [3, 7]" "length (filter Guided (guidingEntries w)) = 1"
    by (simp_all add: w_def w_AddGuideInfo_def WindowedAxisStats_new_def AxisStats.extend_def
        AxisStats_new_def InitializeScalars_def)
  then have l: "length (guidingEntries w) = 2" by (metis length_map length_Cons list.size(3) numeral_2_eq_2)
  then show ?thesis
    using windowed_stats_describe_entries[of 2 "[EvAdd 0 1 5, EvAdd 1 3 (-2), EvAdd 2 7 0]"] es
    unfolding Let_def w_def[symmetric]
    by (simp add: sq_dev_def list_mean_def positions_def)
qed

text \<open>A data set with an automatic window of \<open>n\<close> entries always holds the last \<open>n\<close> of the
  samples added to it, in order, and its minimum and maximum are those of these samples, capped
  by the initial values: the maximum is never reported below \<open>numeric_limits<double>::min()\<close>, the
  smallest positive number.\<close>

theorem auto_window_keeps_last:
  assumes "0 < n" and "n < 2 ^ 31" and "xs \<noteq> []"
  shows "let w = foldl w_add (WindowedAxisStats_new (int n)) xs;
             lastn = drop (length xs - n) (map (\<lambda>(t, p, g). (t, p)) xs)
    in map stamp (guidingEntries w) = lastn \<and>
       GetMinDisplacement w = Min (insert DBL_MAX (snd ` set lastn)) \<and>
       GetMaxDisplacement w = Max (insert DBL_MIN (snd ` set lastn))"
proof -
  define w where "w = foldl w_add (WindowedAxisStats_new (int n)) xs"
  define lastn where "lastn = drop (length xs - n) (map (\<lambda>(t, p, g). (t :: real, p :: real)) xs)"
  have w: "map stamp (guidingEntries w) = lastn" "minmax_ok w"
    using w_run_window[OF assms(1,2), of xs] by (auto simp: w_def lastn_def)
  have "length (guidingEntries w) = length lastn"
    using arg_cong[OF w(1), of length] by simp
  moreover have "length lastn > 0" using assms by (auto simp: lastn_def)
  moreover have "set (positions w) = snd ` set lastn"
    unfolding positions_def map_StarPos_stamp w(1) by simp
  ultimately show ?thesis
    unfolding Let_def w_def[symmetric] lastn_def[symmetric]
    using w by (simp add: GetMinDisplacement_def GetMaxDisplacement_def minmax_ok_def)
qed

theorem auto_window_keeps_last_witness:
  "GetMaxDisplacement (foldl w_add (WindowedAxisStats_new 2) [(0, 9, 0), (1, -4, 0), (2, -3, 1)]) = DBL_MIN"
  using auto_window_keeps_last[of 2 "[(0, 9, 0), (1, -4, 0), (2, -3, 1)]"] DBL_MIN_pos
  by (simp add: Let_def max_def)

text \<open>C18: the slope and intercept of the linear fit are those of least squares: no other line has
  a smaller sum of squared residuals over the entries of the data set; and the value returned is
  the coefficient of determination of that line.  This holds for every reachable data set.\<close>

theorem linear_fit_least_squares:
  fixes es :: "StatsEvent list" and size0 :: int
  defines "w \<equiv> run_events stats_step (WindowedAxisStats_new size0) es"
  assumes "length (guidingEntries w) > 1"
    and "lf_Slope (GetLinearFitResults w) = Some m" and "lf_Intercept (GetLinearFitResults w) = Some b"
  shows "fit_sse (guidingEntries w) m b \<le> fit_sse (guidingEntries w) m' b' \<and>
    (\<forall>r. lf_RSquared (GetLinearFitResults w) = Some r \<longrightarrow>
       r = 1 - fit_sse (guidingEntries w) m b / sq_dev (positions w))"
proof -
  have "sums_ok w" unfolding w_def by (rule axis_sums.invar_run[OF sums_ok_new])
  then show ?thesis using fit_optimal fit_rsquared assms(2-4) by blast
qed

theorem linear_fit_least_squares_witness:
  "let w = run_events stats_step (WindowedAxisStats_new 0) [EvAdd 0 1 0, EvAdd 1 3 0, EvAdd 2 5 0]
   in fit_sse (guidingEntries w) 2 1 \<le> fit_sse (guidingEntries w) 7 (-3)"
proof -
  define w where "w = run_events stats_step (WindowedAxisStats_new 0)
    [EvAdd 0 1 0, EvAdd 1 3 0, EvAdd 2 5 0]"
  have "length (guidingEntries w) > 1 \<and> lf_Slope (GetLinearFitResults w) = Some 2 \<and>
      lf_Intercept (GetLinearFitResults w) = Some 1"
    by (simp add: w_def w_AddGuideInfo_def WindowedAxisStats_new_def AxisStats.extend_def Let_def
        AxisStats_new_def InitializeScalars_def GetLinearFitResults_def qdiv_def)
  then show ?thesis
    using linear_fit_least_squares[of 0 "[EvAdd 0 1 0, EvAdd 1 3 0, EvAdd 2 5 0]" 2 1 7 "-3"]
    unfolding Let_def w_def[symmetric] by blast
qed

text \<open>\<open>GetMedian\<close> splits the data: at least half of the positions lie at or below it and at
  least half at or above it.\<close>

theorem median_splits_positions:
  assumes "guidingEntries a \<noteq> []"
  shows "length (positions a) \<le> 2 * length (filter (\<lambda>x. x \<le> GetMedian a) (positions a)) \<and>
         length (positions a) \<le> 2 * length (filter (\<lambda>x. GetMedian a \<le> x) (positions a))"
  using assms by (rule GetMedian_halves)

theorem median_splits_positions_witness:
  "let a = foldl (\<lambda>a p. AddGuideInfo a 0 p 0) AxisStats_new [4, 1, 2]
   in 2 \<le> length (filter (\<lambda>x. x \<le> GetMedian a) (positions a))"
proof -
  define a where "a = foldl (\<lambda>a p. AddGuideInfo a 0 p 0) AxisStats_new [4, 1, 2]"
  have "length (guidingEntries a) = 3"
    by (simp add: a_def AxisStats_new_def InitializeScalars_def)
  then show ?thesis
    using median_splits_positions[of a] unfolding Let_def a_def[symmetric] by force
qed

text \<open>\<open>GetMaxDelta\<close> of a data set without removals is the largest absolute step between
  consecutive positions, the first step excepted: the comparison starts with the third entry.\<close>

theorem max_delta_omits_first_step:
  "GetMaxDelta (foldl (\<lambda>a (t, p, g). AddGuideInfo a t p g) AxisStats_new xs) =
     max_diff (tl (map (\<lambda>(t, p, g). p) xs))"
proof -
  let ?a = "foldl (\<lambda>a (t, p, g). AddGuideInfo a t p g) AxisStats_new xs"
  have r: "positions ?a = map (\<lambda>(t, p, g). p) xs" "maxDelta ?a = max_diff (tl (positions ?a))"
    using maxDelta_run[of xs] by auto
  have "max_diff (tl (positions ?a)) = 0" if "length (guidingEntries ?a) \<le> 1"
  proof -
    have "length (positions ?a) \<le> 1" using that by simp
    then have "tl (positions ?a) = []" by (cases "positions ?a") auto
    then show ?thesis by simp
  qed
  with r show ?thesis by (auto simp: GetMaxDelta_def)
qed

text \<open>In a window the recorded largest step can outlive the entries it was measured between.\<close>

lemma window_max_delta_stale:
  "let w = (RemoveOldestEntry ^^ 2)
      (foldl (\<lambda>w p. w_AddGuideInfo w 0 p 0) (WindowedAxisStats_new 0) [5, 4, 8, 9, 10, 7, 4, 2, 0])
   in positions w = [8, 9, 10, 7, 4, 2, 0] \<and> GetMaxDelta w = 4 \<and> max_diff (positions w) = 3"
  by (simp add: numeral_2_eq_2 w_AddGuideInfo_def AddGuideInfo_def StarDisplacement_new_def Let_def
      WindowedAxisStats_new_def AxisStats.extend_def AxisStats_new_def InitializeScalars_def DBL_MAX_def
      DBL_MIN_def RemoveOldestEntry_def AdjustMinMaxValues_def GetMaxDelta_def positions_def)

end
