(* ===== verification/Json_Parser.thy ===== *)
theory Json_Parser
  imports Guider_Prelude "HOL-Library.Monad_Syntax"
begin

unbundle bit_operations_syntax

text \<open>
  The JSON parser of \<open>src/json_parser.cpp\<close>, which reads the requests of the event server and
  the answers of Alpaca devices, and the formatter \<open>json_format\<close> of \<open>src/event_server.cpp\<close>.

  The parser works in place: it decodes the escapes of a string into the buffer it reads, and
  a value points into that buffer.  The buffer is a list of characters with its terminating NUL;
  a pointer into it is an index.  A read or a write outside of the buffer, and the overflow of a
  signed integer, have no defined result: the definition is then \<^term>\<open>None\<close>.  The nodes of the
  document are a list in the order of allocation, a node pointer is an index into it, and the
  links (parent, siblings, children) are those of the code.

  The arithmetic on \<open>float\<close> is a record of functions, so that the parser does not depend on how
  it rounds.
\<close>

section \<open>Scanning the buffer\<close>

abbreviation NUL :: char where "NUL \<equiv> CHR 0x00"
abbreviation QUOTE :: char where "QUOTE \<equiv> CHR 0x22"
abbreviation BACKSLASH :: char where "BACKSLASH \<equiv> CHR 0x5C"
abbreviation NEWLINE :: char where "NEWLINE \<equiv> CHR 0x0A"

definition rd :: "string \<Rightarrow> nat \<Rightarrow> char option" where
  "rd buf i = (if i < length buf then Some (buf ! i) else None)"

definition wr :: "string \<Rightarrow> nat \<Rightarrow> char \<Rightarrow> string option" where
  "wr buf i c = (if i < length buf then Some (buf[i := c]) else None)"

fun wr_list :: "string \<Rightarrow> nat \<Rightarrow> char list \<Rightarrow> string option" where
  "wr_list buf i [] = Some buf"
| "wr_list buf i (c # cs) = do { b \<leftarrow> wr buf i c; wr_list b (Suc i) cs }"

definition IS_DIGIT :: "char \<Rightarrow> bool" where
  "IS_DIGIT c = (48 \<le> (of_char c :: nat) \<and> (of_char c :: nat) \<le> 57)"

definition digit :: "char \<Rightarrow> int" where
  "digit c = of_char c - 48"

definition is_ws :: "char \<Rightarrow> bool" where
  "is_ws c = (c = CHR 0x20 \<or> c = CHR 0x09 \<or> c = CHR 0x0D \<or> c = CHR 0x0A)"

lemma rd_bound: "rd buf i = Some c \<Longrightarrow> i < length buf"
  by (simp add: rd_def split: if_splits)

lemma wr_length: "wr buf i c = Some b \<Longrightarrow> length b = length buf"
  by (auto simp: wr_def split: if_splits)

lemma wr_list_length: "wr_list buf i cs = Some b \<Longrightarrow> length b = length buf"
  by (induction cs arbitrary: buf i) (auto simp: bind_eq_Some_conv wr_length)

function skip_ws :: "string \<Rightarrow> nat \<Rightarrow> nat option" where
  "skip_ws buf it = (case rd buf it of
     None \<Rightarrow> None
   | Some c \<Rightarrow> if is_ws c then skip_ws buf (Suc it) else Some it)"
  by pat_completeness auto
termination
  by (relation "measure (\<lambda>(buf, it). length buf - it)") (auto dest: rd_bound)

text \<open>The loop of \<open>atoi\<close>: \<open>result = 10 * result + digit\<close> in a 32-bit \<open>int\<close>.\<close>

function atoi_loop :: "string \<Rightarrow> nat \<Rightarrow> nat \<Rightarrow> int \<Rightarrow> (nat \<times> int) option" where
  "atoi_loop buf first lst result =
     (if first = lst then Some (first, result)
      else case rd buf first of
        None \<Rightarrow> None
      | Some c \<Rightarrow>
          if \<not> IS_DIGIT c then Some (first, result)
          else if 10 * result + digit c \<ge> 2 ^ 31 then None
          else atoi_loop buf (Suc first) lst (10 * result + digit c))"
  by pat_completeness auto
termination
  by (relation "measure (\<lambda>(buf, first, lst, result). length buf - first)") (auto dest: rd_bound)

text \<open>An optional sign: the factor and the position behind it.\<close>

definition scan_sign :: "string \<Rightarrow> nat \<Rightarrow> nat \<Rightarrow> (int \<times> nat) option" where
  "scan_sign buf first lst =
     (if first = lst then Some (1, first)
      else do { c \<leftarrow> rd buf first;
                Some (if c = CHR ''-'' then (- 1, Suc first)
                      else if c = CHR ''+'' then (1, Suc first) else (1, first)) })"

definition atoi :: "string \<Rightarrow> nat \<Rightarrow> nat \<Rightarrow> (nat \<times> int) option" where
  "atoi buf first lst =
     do { (sign, p) \<leftarrow> scan_sign buf first lst;
          (q, result) \<leftarrow> atoi_loop buf p lst 0;
          Some (q, result * sign) }"

definition hex_digit :: "char \<Rightarrow> nat option" where
  "hex_digit c =
     (let n = of_char c
      in if IS_DIGIT c then Some (n - 48)
         else if 97 \<le> n \<and> n \<le> 102 then Some (n - 97 + 10)
         else if 65 \<le> n \<and> n \<le> 70 then Some (n - 65 + 10)
         else None)"

function hatoui :: "string \<Rightarrow> nat \<Rightarrow> nat \<Rightarrow> 32 word \<Rightarrow> (nat \<times> 32 word) option" where
  "hatoui buf first lst result =
     (if first = lst then Some (first, result)
      else case rd buf first of
        None \<Rightarrow> None
      | Some c \<Rightarrow>
          (case hex_digit c of
             None \<Rightarrow> Some (first, result)
           | Some d \<Rightarrow> hatoui buf (Suc first) lst (16 * result + of_nat d)))"
  by pat_completeness auto
termination
  by (relation "measure (\<lambda>(buf, first, lst, result). length buf - first)") (auto dest: rd_bound)

declare skip_ws.simps [simp del] atoi_loop.simps [simp del] hatoui.simps [simp del]

section \<open>Floating-point numbers\<close>

record 'f FloatOps =
  f_of_int :: "int \<Rightarrow> 'f"
  f_add :: "'f \<Rightarrow> 'f \<Rightarrow> 'f"
  f_mul :: "'f \<Rightarrow> 'f \<Rightarrow> 'f"
  f_div :: "'f \<Rightarrow> 'f \<Rightarrow> 'f"
  f_tenth :: 'f

function atof_int :: "'f FloatOps \<Rightarrow> string \<Rightarrow> nat \<Rightarrow> nat \<Rightarrow> 'f \<Rightarrow> (nat \<times> 'f) option" where
  "atof_int F buf first lst result =
     (if first = lst then Some (first, result)
      else case rd buf first of
        None \<Rightarrow> None
      | Some c \<Rightarrow>
          if \<not> IS_DIGIT c then Some (first, result)
          else atof_int F buf (Suc first) lst (f_add F (f_mul F (f_of_int F 10) result) (f_of_int F (digit c))))"
  by pat_completeness auto
termination
  by (relation "measure (\<lambda>(F, buf, first, lst, result). length buf - first)") (auto dest: rd_bound)

function atof_frac :: "'f FloatOps \<Rightarrow> string \<Rightarrow> nat \<Rightarrow> nat \<Rightarrow> 'f \<Rightarrow> 'f \<Rightarrow> (nat \<times> 'f) option" where
  "atof_frac F buf first lst inv_base result =
     (if first = lst then Some (first, result)
      else case rd buf first of
        None \<Rightarrow> None
      | Some c \<Rightarrow>
          if \<not> IS_DIGIT c then Some (first, result)
          else atof_frac F buf (Suc first) lst (f_mul F inv_base (f_tenth F))
                 (f_add F result (f_mul F (f_of_int F (digit c)) inv_base)))"
  by pat_completeness auto
termination
  by (relation "measure (\<lambda>(F, buf, first, lst, inv_base, result). length buf - first)") (auto dest: rd_bound)

function atof_exp :: "string \<Rightarrow> nat \<Rightarrow> nat \<Rightarrow> int \<Rightarrow> (nat \<times> int) option" where
  "atof_exp buf first lst ex =
     (if first = lst then Some (first, ex)
      else case rd buf first of
        None \<Rightarrow> None
      | Some c \<Rightarrow>
          if \<not> IS_DIGIT c then Some (first, ex)
          else atof_exp buf (Suc first) lst (if ex < 1000 then 10 * ex + digit c else ex))"
  by pat_completeness auto
termination
  by (relation "measure (\<lambda>(buf, first, lst, ex). length buf - first)") (auto dest: rd_bound)

declare atof_int.simps [simp del] atof_frac.simps [simp del] atof_exp.simps [simp del]

text \<open>\<open>power_of_ten\<close>: ten, multiplied by ten once for every exponent above one.\<close>

definition power_of_ten :: "'f FloatOps \<Rightarrow> int \<Rightarrow> 'f" where
  "power_of_ten F ex = ((\<lambda>p. f_mul F p (f_of_int F 10)) ^^ nat (ex - 1)) (f_of_int F 10)"

definition atof :: "'f FloatOps \<Rightarrow> string \<Rightarrow> nat \<Rightarrow> nat \<Rightarrow> (nat \<times> 'f) option" where
  "atof F buf first lst =
     do { (sign, p) \<leftarrow> scan_sign buf first lst;
          (q, whole) \<leftarrow> atof_int F buf p lst (f_of_int F 0);
          dot \<leftarrow> (if q = lst then Some False else map_option (\<lambda>c. c = CHR ''.'') (rd buf q));
          (r, frac) \<leftarrow> (if dot then atof_frac F buf (Suc q) lst (f_tenth F) whole else Some (q, whole));
          let signed = f_mul F frac (f_of_int F sign);
          e \<leftarrow> (if r = lst then Some False
                else map_option (\<lambda>c. c = CHR ''e'' \<or> c = CHR ''E'') (rd buf r));
          if e
          then do { c \<leftarrow> rd buf (Suc r);
                    (t, ex) \<leftarrow> atof_exp buf (if c = CHR ''-'' \<or> c = CHR ''+'' then Suc (Suc r) else Suc r) lst 0;
                    Some (t, if ex = 0 then signed
                             else if c = CHR ''-'' then f_div F signed (power_of_ten F ex)
                             else f_mul F signed (power_of_ten F ex)) }
          else Some (r, signed) }"

section \<open>Strings, decoded in place\<close>

definition simple_escape :: "char \<Rightarrow> char option" where
  "simple_escape c =
     (if c = QUOTE then Some QUOTE else if c = BACKSLASH then Some BACKSLASH
      else if c = CHR ''/'' then Some (CHR ''/'') else if c = CHR ''b'' then Some (CHR 0x08)
      else if c = CHR ''f'' then Some (CHR 0x0C) else if c = CHR ''n'' then Some NEWLINE
      else if c = CHR ''r'' then Some (CHR 0x0D) else if c = CHR ''t'' then Some (CHR 0x09)
      else None)"

definition to_char :: "32 word \<Rightarrow> char" where
  "to_char w = char_of (unat w)"

definition utf8_bytes :: "32 word \<Rightarrow> char list" where
  "utf8_bytes cp =
     (if cp \<le> 0x7F then [to_char cp]
      else if cp \<le> 0x7FF then [to_char (0xC0 OR drop_bit 6 cp), to_char (0x80 OR (cp AND 0x3F))]
      else if cp \<le> 0xFFFF
      then [to_char (0xE0 OR drop_bit 12 cp), to_char (0x80 OR (drop_bit 6 cp AND 0x3F)),
            to_char (0x80 OR (cp AND 0x3F))]
      else [])"

text \<open>
  What a failing parse reports: position, description, and the buffer and the number of escaped
  newlines at that point, from which the line is computed.
\<close>

type_synonym ParseError = "nat \<times> string \<times> string \<times> int"

definition str_escape :: "nat \<Rightarrow> string \<Rightarrow> nat \<Rightarrow> nat \<Rightarrow> int \<Rightarrow>
    (ParseError + string \<times> nat \<times> nat \<times> int) option" where
  "str_escape first buf it lst esc =
     do { c \<leftarrow> rd buf (it + 1);
          case simple_escape c of
            Some d \<Rightarrow> do { b \<leftarrow> wr buf lst d;
                           Some (Inr (b, it + 2, lst + 1, if c = CHR ''n'' then esc + 1 else esc)) }
          | None \<Rightarrow>
              if c = CHR ''u''
              then do { (p, cp) \<leftarrow> hatoui buf (it + 2) (it + 6) 0;
                        if p \<noteq> it + 6 then Some (Inl (it, ''Bad unicode codepoint'', buf, esc))
                        else do { b \<leftarrow> wr_list buf lst (utf8_bytes cp);
                                  Some (Inr (b, it + 6, lst + max 1 (length (utf8_bytes cp)), esc)) } }
              else Some (Inl (first, ''Unrecognized escape sequence'', buf, esc)) }"

lemma str_escape_advances:
  "str_escape first buf it lst esc = Some (Inr (b, it', lst', esc')) \<Longrightarrow> length b = length buf \<and> it + 1 < it'"
  by (auto simp: str_escape_def bind_eq_Some_conv dest: wr_length wr_list_length split: option.splits if_splits)

function str_loop :: "nat \<Rightarrow> string \<Rightarrow> nat \<Rightarrow> nat \<Rightarrow> int \<Rightarrow> (ParseError + string \<times> nat \<times> int) option" where
  "str_loop first buf it lst esc = (case rd buf it of
     None \<Rightarrow> None
   | Some c \<Rightarrow>
       if c = NUL then Some (Inr (buf, it, esc))
       else if of_char c < (32 :: nat)
       then Some (Inl (first, ''Control characters not allowed in strings'', buf, esc))
       else if c = BACKSLASH
       then (case str_escape first buf it lst esc of
               None \<Rightarrow> None
             | Some (Inl e) \<Rightarrow> Some (Inl e)
             | Some (Inr (b, it', lst', esc')) \<Rightarrow> str_loop first b it' lst' esc')
       else if c = QUOTE then map_option (\<lambda>b. Inr (b, it + 1, esc)) (wr buf lst NUL)
       else (case wr buf lst c of
               None \<Rightarrow> None
             | Some b \<Rightarrow> str_loop first b (it + 1) (lst + 1) esc))"
  by pat_completeness auto
termination
  by (relation "measure (\<lambda>(first, buf, it, lst, esc). length buf - it)")
     (auto dest!: rd_bound str_escape_advances wr_length)

declare str_loop.simps [simp del]

section \<open>The nodes of a document\<close>

datatype json_type = JSON_NULL | JSON_OBJECT | JSON_ARRAY | JSON_STRING | JSON_INT | JSON_FLOAT | JSON_BOOL

datatype 'f json_union = U_unset | U_string nat | U_int int | U_float 'f

record 'f json_value =
  j_parent :: "nat option"
  j_next_sibling :: "nat option"
  j_first_child :: "nat option"
  j_last_child :: "nat option"
  j_name :: "nat option"
  j_value :: "'f json_union"
  j_type :: json_type

definition json_append :: "nat \<Rightarrow> nat \<Rightarrow> 'f json_value list \<Rightarrow> 'f json_value list option" where
  "json_append lhs rhs nodes =
     (if \<not> (lhs < length nodes \<and> rhs < length nodes) then None
      else let n1 = nodes[rhs := (nodes ! rhs)\<lparr>j_parent := Some lhs\<rparr>]
           in case j_last_child (n1 ! lhs) of
                Some l \<Rightarrow>
                  if \<not> l < length n1 then None
                  else let n2 = n1[l := (n1 ! l)\<lparr>j_next_sibling := Some rhs\<rparr>]
                       in Some (n2[lhs := (n2 ! lhs)\<lparr>j_last_child := Some rhs\<rparr>])
              | None \<Rightarrow> Some (n1[lhs := (n1 ! lhs)\<lparr>j_first_child := Some rhs, j_last_child := Some rhs\<rparr>]))"

section \<open>The parser\<close>

record 'f ParseState =
  ps_buf :: string
  ps_it :: nat
  ps_root :: "nat option"
  ps_top :: "nat option"
  ps_name :: "nat option"
  ps_escaped :: int
  ps_nodes :: "'f json_value list"

definition fail_at :: "nat \<Rightarrow> string \<Rightarrow> 'f ParseState \<Rightarrow> (ParseError + 'f ParseState) option" where
  "fail_at pos desc st = Some (Inl (pos, desc, ps_buf st, ps_escaped st))"

text \<open>\<open>json_alloc\<close> and the assignments to the new node; the pending name goes to the node.\<close>

definition new_value :: "json_type \<Rightarrow> 'f json_union \<Rightarrow> 'f ParseState \<Rightarrow> nat \<times> 'f ParseState" where
  "new_value ty v st =
     (length (ps_nodes st),
      st\<lparr>ps_nodes := ps_nodes st @
           [\<lparr>j_parent = None, j_next_sibling = None, j_first_child = None, j_last_child = None,
             j_name = ps_name st, j_value = v, j_type = ty\<rparr>],
         ps_name := None\<rparr>)"

definition append_top :: "nat \<Rightarrow> nat \<Rightarrow> 'f ParseState \<Rightarrow> 'f ParseState option" where
  "append_top tp obj st = map_option (\<lambda>ns. st\<lparr>ps_nodes := ns\<rparr>) (json_append tp obj (ps_nodes st))"

definition top_type :: "'f ParseState \<Rightarrow> nat \<Rightarrow> json_type option" where
  "top_type st t = (if t < length (ps_nodes st) then Some (j_type (ps_nodes st ! t)) else None)"

definition parse_open :: "json_type \<Rightarrow> 'f ParseState \<Rightarrow> (ParseError + 'f ParseState) option" where
  "parse_open ty st =
     (let (obj, st1) = new_value ty U_unset st;
          st2 = st1\<lparr>ps_it := ps_it st1 + 1\<rparr>
      in case ps_top st2 of
           Some tp \<Rightarrow> map_option (\<lambda>s. Inr (s\<lparr>ps_top := Some obj\<rparr>)) (append_top tp obj st2)
         | None \<Rightarrow> (case ps_root st2 of
                      None \<Rightarrow> Some (Inr (st2\<lparr>ps_root := Some obj, ps_top := Some obj\<rparr>))
                    | Some _ \<Rightarrow> fail_at (ps_it st2) ''Second root. Only one root allowed'' st2))"

definition parse_close :: "json_type \<Rightarrow> 'f ParseState \<Rightarrow> (ParseError + 'f ParseState) option" where
  "parse_close ty st = (case ps_top st of
     None \<Rightarrow> fail_at (ps_it st) ''Mismatch closing brace/bracket'' st
   | Some tp \<Rightarrow>
       do { t \<leftarrow> top_type st tp;
            if t \<noteq> ty then fail_at (ps_it st) ''Mismatch closing brace/bracket'' st
            else Some (Inr (st\<lparr>ps_it := ps_it st + 1, ps_top := j_parent (ps_nodes st ! tp)\<rparr>)) })"

definition parse_colon :: "'f ParseState \<Rightarrow> (ParseError + 'f ParseState) option" where
  "parse_colon st = (case ps_top st of
     None \<Rightarrow> fail_at (ps_it st) ''Unexpected character'' st
   | Some tp \<Rightarrow>
       do { t \<leftarrow> top_type st tp;
            if t \<noteq> JSON_OBJECT \<or> ps_name st = None then fail_at (ps_it st) ''Unexpected character'' st
            else Some (Inr (st\<lparr>ps_it := ps_it st + 1\<rparr>)) })"

definition parse_comma :: "'f ParseState \<Rightarrow> (ParseError + 'f ParseState) option" where
  "parse_comma st =
     (if ps_top st = None then fail_at (ps_it st) ''Unexpected character'' st
      else Some (Inr (st\<lparr>ps_it := ps_it st + 1\<rparr>)))"

definition add_value :: "nat \<Rightarrow> json_type \<Rightarrow> 'f json_union \<Rightarrow> 'f ParseState \<Rightarrow> (ParseError + 'f ParseState) option" where
  "add_value tp ty v st = (let (obj, st1) = new_value ty v st in map_option Inr (append_top tp obj st1))"

text \<open>The end of a string: a field name when an object waits for one, else a new value.\<close>

definition end_string :: "nat \<Rightarrow> nat \<Rightarrow> 'f ParseState \<Rightarrow> (ParseError + 'f ParseState) option" where
  "end_string tp first st =
     do { t \<leftarrow> top_type st tp;
          if ps_name st = None \<and> t = JSON_OBJECT then Some (Inr (st\<lparr>ps_name := Some first\<rparr>))
          else add_value tp JSON_STRING (U_string first) st }"

definition parse_string :: "'f ParseState \<Rightarrow> (ParseError + 'f ParseState) option" where
  "parse_string st = (case ps_top st of
     None \<Rightarrow> fail_at (ps_it st) ''Unexpected character'' st
   | Some tp \<Rightarrow>
       let first = ps_it st + 1
       in (case str_loop first (ps_buf st) first first (ps_escaped st) of
             None \<Rightarrow> None
           | Some (Inl e) \<Rightarrow> Some (Inl e)
           | Some (Inr (b, it, esc)) \<Rightarrow> end_string tp first (st\<lparr>ps_buf := b, ps_it := it, ps_escaped := esc\<rparr>)))"

text \<open>\<open>null\<close>, \<open>true\<close> and \<open>false\<close>: the characters are compared one by one, up to the first difference.\<close>

fun has_prefix :: "string \<Rightarrow> nat \<Rightarrow> string \<Rightarrow> bool option" where
  "has_prefix buf i [] = Some True"
| "has_prefix buf i (c # cs) = do { d \<leftarrow> rd buf i; if d = c then has_prefix buf (Suc i) cs else Some False }"

definition parse_literal :: "'f ParseState \<Rightarrow> (ParseError + 'f ParseState) option" where
  "parse_literal st = (case ps_top st of
     None \<Rightarrow> fail_at (ps_it st) ''Unexpected character'' st
   | Some tp \<Rightarrow>
       do { t \<leftarrow> top_type st tp;
            if t = JSON_OBJECT \<and> ps_name st = None then fail_at (ps_it st) ''Missing name'' st
            else do { isnull \<leftarrow> has_prefix (ps_buf st) (ps_it st) ''null'';
                      istrue \<leftarrow> has_prefix (ps_buf st) (ps_it st) ''true'';
                      isfalse \<leftarrow> has_prefix (ps_buf st) (ps_it st) ''false'';
                      let lit = (\<lambda>ty v len. add_value tp ty v (st\<lparr>ps_it := ps_it st + len\<rparr>));
                      if isnull then lit JSON_NULL U_unset 4
                      else if istrue then lit JSON_BOOL (U_int 1) 4
                      else if isfalse then lit JSON_BOOL (U_int 0) 5
                      else fail_at (ps_it st) ''Unknown identifier'' st } })"

text \<open>A number extends to the next delimiter; a point or an \<open>e\<close> in it makes it a float.\<close>

definition ends_number :: "char \<Rightarrow> bool" where
  "ends_number c = (c = NUL \<or> is_ws c \<or> c = CHR '','' \<or> c = CHR '']'' \<or> c = CHR ''}'')"

function num_scan :: "string \<Rightarrow> nat \<Rightarrow> bool \<Rightarrow> (nat \<times> bool) option" where
  "num_scan buf it isfloat = (case rd buf it of
     None \<Rightarrow> None
   | Some c \<Rightarrow>
       if ends_number c then Some (it, isfloat)
       else num_scan buf (Suc it) (isfloat \<or> c = CHR ''.'' \<or> c = CHR ''e'' \<or> c = CHR ''E''))"
  by pat_completeness auto
termination
  by (relation "measure (\<lambda>(buf, it, isfloat). length buf - it)") (auto dest: rd_bound)

declare num_scan.simps [simp del]

definition parse_number :: "'f FloatOps \<Rightarrow> 'f ParseState \<Rightarrow> (ParseError + 'f ParseState) option" where
  "parse_number F st = (case ps_top st of
     None \<Rightarrow> fail_at (ps_it st) ''Unexpected character'' st
   | Some tp \<Rightarrow>
       do { t \<leftarrow> top_type st tp;
            if t = JSON_OBJECT \<and> ps_name st = None then fail_at (ps_it st) ''Missing name'' st
            else do { (it, isfloat) \<leftarrow> num_scan (ps_buf st) (ps_it st) False;
                      let add = (\<lambda>ty v. add_value tp ty v (st\<lparr>ps_it := it\<rparr>));
                      if isfloat
                      then do { (q, x) \<leftarrow> atof F (ps_buf st) (ps_it st) it;
                                if q \<noteq> it then fail_at (ps_it st) ''Bad float number'' st
                                else add JSON_FLOAT (U_float x) }
                      else do { (q, i) \<leftarrow> atoi (ps_buf st) (ps_it st) it;
                                if q \<noteq> it then fail_at (ps_it st) ''Bad integer number'' st
                                else add JSON_INT (U_int i) } } })"

definition parse_char :: "'f FloatOps \<Rightarrow> char \<Rightarrow> 'f ParseState \<Rightarrow> (ParseError + 'f ParseState) option" where
  "parse_char F c st =
     (if c = CHR ''{'' then parse_open JSON_OBJECT st
      else if c = CHR ''['' then parse_open JSON_ARRAY st
      else if c = CHR ''}'' then parse_close JSON_OBJECT st
      else if c = CHR '']'' then parse_close JSON_ARRAY st
      else if c = CHR '':'' then parse_colon st
      else if c = CHR '','' then parse_comma st
      else if c = QUOTE then parse_string st
      else if c = CHR ''n'' \<or> c = CHR ''t'' \<or> c = CHR ''f'' then parse_literal st
      else if c = CHR ''-'' \<or> IS_DIGIT c then parse_number F st
      else fail_at (ps_it st) ''Unexpected character'' st)"

text \<open>\<open>JSON_ERROR\<close>: the line counts the newlines from the position back to the second character.\<close>

definition error_line :: "string \<Rightarrow> nat \<Rightarrow> int \<Rightarrow> int" where
  "error_line buf pos esc = 1 - esc + int (length (filter (\<lambda>i. buf ! i = NEWLINE) [1..<Suc pos]))"

datatype 'f ParseOutcome =
  Parse_Undefined
| Parse_Error nat string int
| Parse_Root nat "'f json_value list" string

definition json_error :: "ParseError \<Rightarrow> 'f ParseOutcome" where
  "json_error e = (case e of (pos, desc, buf, esc) \<Rightarrow> Parse_Error pos desc (error_line buf pos esc))"

definition json_finish :: "'f ParseState \<Rightarrow> 'f ParseOutcome" where
  "json_finish st =
     (if ps_top st \<noteq> None
      then json_error (ps_it st, ''Not all objects/arrays have been properly closed'', ps_buf st, ps_escaped st)
      else case ps_root st of
        None \<Rightarrow> json_error (ps_it st, ''empty string'', ps_buf st, ps_escaped st)
      | Some r \<Rightarrow> Parse_Root r (ps_nodes st) (ps_buf st))"

text \<open>Every case moves on in the buffer, whose length never changes: the parser terminates.\<close>

lemma has_prefix_bound: "has_prefix buf i (c # cs) = Some b \<Longrightarrow> i < length buf"
  by (auto simp: bind_eq_Some_conv dest: rd_bound)

lemma skip_ws_ge: "skip_ws buf i = Some j \<Longrightarrow> i \<le> j \<and> j < length buf"
proof (induction buf i rule: skip_ws.induct)
  case (1 buf i)
  then show ?case
    by (auto simp: skip_ws.simps[of buf i] dest: rd_bound split: option.splits if_splits)
qed

lemma num_scan_ge: "num_scan buf i fl = Some (j, fl') \<Longrightarrow> i \<le> j \<and> j < length buf"
proof (induction buf i fl rule: num_scan.induct)
  case (1 buf i fl)
  then show ?case
    by (auto simp: num_scan.simps[of buf i] dest: rd_bound split: option.splits if_splits)
qed

lemma str_loop_ge:
  "str_loop first buf i d esc = Some (Inr (b, j, e)) \<Longrightarrow> i \<le> j \<and> length b = length buf"
proof (induction first buf i d esc rule: str_loop.induct)
  case (1 first buf i d esc)
  then show ?case
    by (fastforce simp: str_loop.simps[of first buf i] dest: wr_length str_escape_advances
        split: option.splits if_splits sum.splits prod.splits)
qed

lemma num_scan_gt:
  "num_scan buf i fl = Some (j, fl') \<Longrightarrow> rd buf i = Some c \<Longrightarrow> \<not> ends_number c \<Longrightarrow> i < j"
  by (auto simp: num_scan.simps[of buf i] dest: num_scan_ge split: if_splits)

lemma append_top_sel:
  "append_top t obj st = Some st' \<Longrightarrow> ps_it st' = ps_it st \<and> ps_buf st' = ps_buf st"
  by (auto simp: append_top_def)

lemma add_value_sel:
  "add_value t ty v st = Some r \<Longrightarrow> \<exists>st'. r = Inr st' \<and> ps_it st' = ps_it st \<and> ps_buf st' = ps_buf st"
  by (auto simp: add_value_def new_value_def dest!: append_top_sel)

lemma end_string_sel:
  "end_string t f st = Some r \<Longrightarrow> \<exists>st'. r = Inr st' \<and> ps_it st' = ps_it st \<and> ps_buf st' = ps_buf st"
  by (auto simp: end_string_def bind_eq_Some_conv dest: add_value_sel split: if_splits)

lemma parse_char_advances:
  assumes "parse_char F c st = Some (Inr st')" and "rd (ps_buf st) (ps_it st) = Some c"
  shows "ps_it st < ps_it st' \<and> length (ps_buf st') = length (ps_buf st)"
proof -
  have op: "?thesis" if "parse_open ty st = Some (Inr st')" for ty
    using that by (auto simp: parse_open_def new_value_def fail_at_def Let_def split: option.splits dest!: append_top_sel)
  have cl: "?thesis" if "parse_close ty st = Some (Inr st')" for ty
    using that by (auto simp: parse_close_def fail_at_def bind_eq_Some_conv split: option.splits if_splits)
  have co: "?thesis" if "parse_colon st = Some (Inr st')"
    using that by (auto simp: parse_colon_def fail_at_def bind_eq_Some_conv split: option.splits if_splits)
  have cm: "?thesis" if "parse_comma st = Some (Inr st')"
    using that by (auto simp: parse_comma_def fail_at_def split: if_splits)
  have str: "?thesis" if "parse_string st = Some (Inr st')"
    using that by (auto simp: parse_string_def fail_at_def Let_def
        split: option.split_asm sum.split_asm prod.split_asm dest!: end_string_sel str_loop_ge)
  have lit: "?thesis" if "parse_literal st = Some (Inr st')"
    using that by (auto simp: parse_literal_def fail_at_def bind_eq_Some_conv Let_def
        split: option.split_asm if_split_asm dest!: add_value_sel)
  have num: "?thesis" if "parse_number F st = Some (Inr st')" "\<not> ends_number c"
    using that assms(2) by (auto simp: parse_number_def fail_at_def bind_eq_Some_conv Let_def
        split: option.split_asm if_split_asm dest!: add_value_sel dest: num_scan_gt)
  have "\<not> ends_number c" if "c = CHR ''-'' \<or> IS_DIGIT c"
    using that by (auto simp: IS_DIGIT_def ends_number_def is_ws_def)
  then show ?thesis
    using assms(1) op cl co cm str lit num
    by (auto simp: parse_char_def fail_at_def split: if_splits)
qed

function json_loop :: "'f FloatOps \<Rightarrow> 'f ParseState \<Rightarrow> 'f ParseOutcome" where
  "json_loop F st = (case rd (ps_buf st) (ps_it st) of
     None \<Rightarrow> Parse_Undefined
   | Some c \<Rightarrow>
       if c = NUL then json_finish st
       else (case parse_char F c st of
               None \<Rightarrow> Parse_Undefined
             | Some (Inl e) \<Rightarrow> json_error e
             | Some (Inr st1) \<Rightarrow>
                 (case skip_ws (ps_buf st1) (ps_it st1) of
                    None \<Rightarrow> Parse_Undefined
                  | Some i \<Rightarrow> json_loop F (st1\<lparr>ps_it := i\<rparr>))))"
  by pat_completeness auto
termination
proof (relation "measure (\<lambda>(F, st). length (ps_buf st) - ps_it st)", goal_cases)
  case (2 F st c r st1 i)
  then show ?case
    using parse_char_advances[of F c st st1] rd_bound[of "ps_buf st" "ps_it st"] skip_ws_ge[of "ps_buf st1" "ps_it st1" i]
    by auto
qed simp

declare json_loop.simps [simp del]

definition parse_start :: "string \<Rightarrow> nat \<Rightarrow> 'f ParseState" where
  "parse_start buf it = \<lparr>ps_buf = buf, ps_it = it, ps_root = None, ps_top = None, ps_name = None,
     ps_escaped = 0, ps_nodes = []\<rparr>"

definition json_parse :: "'f FloatOps \<Rightarrow> string \<Rightarrow> 'f ParseOutcome" where
  "json_parse F source = (case skip_ws source 0 of
     None \<Rightarrow> Parse_Undefined
   | Some i \<Rightarrow> json_loop F (parse_start source i))"

text \<open>\<open>JsonParser::Parse(const std::string&)\<close> parses a copy of the string and its terminator.\<close>

definition JsonParser_Parse :: "'f FloatOps \<Rightarrow> string \<Rightarrow> 'f ParseOutcome" where
  "JsonParser_Parse F str = json_parse F (str @ [NUL])"

text \<open>Exact arithmetic, for examples.\<close>

definition exact_ops :: "real FloatOps" where
  "exact_ops = \<lparr>f_of_int = of_int, f_add = (+), f_mul = (*), f_div = (/), f_tenth = 1 / 10\<rparr>"

end
