(* ===== verification/Json_Format.thy ===== *)
theory Json_Format
  imports Json_Document
begin

text \<open>
  The JSON text the event server writes: \<open>json_escape\<close> and \<open>json_format\<close> of
  \<open>src/event_server.cpp\<close>, and that \<open>JsonParser\<close> reads it back.  A value is a \<open>JTree\<close> whose
  children are those that \<open>json_for_each\<close> visits.  How a null name and a \<open>float\<close> print (\<open>%g\<close>)
  are parameters.
\<close>

section \<open>Formatting\<close>

definition digit_char :: "nat \<Rightarrow> char" where
  "digit_char n = char_of (48 + n)"

definition hex_char :: "nat \<Rightarrow> char" where
  "hex_char n = (if n < 10 then char_of (48 + n) else char_of (87 + n))"

fun nat_digits :: "nat \<Rightarrow> string" where
  "nat_digits n = (if n < 10 then [digit_char n] else nat_digits (n div 10) @ [digit_char (n mod 10)])"

declare nat_digits.simps [simp del]

text \<open>The formats \<open>%d\<close> and \<open>%04x\<close>.\<close>

definition fmt_d :: "int \<Rightarrow> string" where
  "fmt_d i = (if i < 0 then CHR ''-'' # nat_digits (nat (- i)) else nat_digits (nat i))"

definition fmt_04x :: "nat \<Rightarrow> string" where
  "fmt_04x n = [hex_char (n div 4096 mod 16), hex_char (n div 256 mod 16), hex_char (n div 16 mod 16), hex_char (n mod 16)]"

definition esc_char :: "char \<Rightarrow> string" where
  "esc_char c =
     (if c = BACKSLASH then [BACKSLASH, BACKSLASH]
      else if c = QUOTE then [BACKSLASH, QUOTE]
      else if c = CHR 0x08 then [BACKSLASH, CHR ''b'']
      else if c = CHR 0x09 then [BACKSLASH, CHR ''t'']
      else if c = NEWLINE then [BACKSLASH, CHR ''n'']
      else if c = CHR 0x0C then [BACKSLASH, CHR ''f'']
      else if c = CHR 0x0D then [BACKSLASH, CHR ''r'']
      else if of_char c < (32 :: nat) then BACKSLASH # CHR ''u'' # fmt_04x (of_char c)
      else [c])"

definition json_escape :: "string \<Rightarrow> string" where
  "json_escape s = concat (map esc_char s)"

fun join :: "string list \<Rightarrow> string" where
  "join [] = []"
| "join (x # xs) = x @ concat (map (\<lambda>y. CHR '','' # y) xs)"

definition member_name :: "string \<Rightarrow> string option \<Rightarrow> string" where
  "member_name nullname n = QUOTE # (case n of None \<Rightarrow> nullname | Some s \<Rightarrow> s) @ [QUOTE, CHR '':'']"

fun json_format :: "string \<Rightarrow> ('f \<Rightarrow> string) \<Rightarrow> (string, 'f) JTree \<Rightarrow> string" where
  "json_format nullname g (JT n k ts) = (case k of
     KNull \<Rightarrow> ''null''
   | KObject \<Rightarrow> CHR ''{'' # join (map (\<lambda>t. member_name nullname (jt_name t) @ json_format nullname g t) ts) @ [CHR ''}'']
   | KArray \<Rightarrow> CHR ''['' # join (map (json_format nullname g) ts) @ [CHR '']'']
   | KString s \<Rightarrow> QUOTE # json_escape s @ [QUOTE]
   | KInt i \<Rightarrow> fmt_d i
   | KFloat x \<Rightarrow> g x
   | KBool b \<Rightarrow> if b \<noteq> 0 then ''true'' else ''false'')"

text \<open>What can be read back: no floats (they print with six digits), the names free of quotes,
  backslashes and control characters, which \<open>json_format\<close> does not escape in a name.\<close>

definition ascii :: "char \<Rightarrow> bool" where
  "ascii c = (c \<noteq> NUL \<and> of_char c < (128 :: nat))"

definition plain_char :: "char \<Rightarrow> bool" where
  "plain_char c = (ascii c \<and> 32 \<le> (of_char c :: nat) \<and> c \<noteq> QUOTE \<and> c \<noteq> BACKSLASH)"

fun jv_ok :: "(string, 'f) JTree \<Rightarrow> bool" where
  "jv_ok (JT n k ts) =
     ((case k of
         KObject \<Rightarrow> list_all (\<lambda>t. \<exists>s. jt_name t = Some s \<and> list_all plain_char s) ts
       | KArray \<Rightarrow> list_all (\<lambda>t. jt_name t = None) ts
       | KString s \<Rightarrow> ts = [] \<and> list_all ascii s
       | KInt i \<Rightarrow> ts = [] \<and> \<bar>i\<bar> < 2 ^ 31
       | KFloat x \<Rightarrow> False
       | KBool b \<Rightarrow> ts = [] \<and> (b = 0 \<or> b = 1)
       | KNull \<Rightarrow> ts = []) \<and> (\<forall>t\<in>set ts. jv_ok t))"

section \<open>Reading back numbers\<close>

lemma drop_nth:
  assumes "drop i xs = c # ys"
  shows "i < length xs \<and> xs ! i = c \<and> drop (Suc i) xs = ys"
proof -
  have "i < length xs" using assms by (cases "i < length xs") auto
  then show ?thesis using assms Cons_nth_drop_Suc[of i xs] by simp
qed

lemma drop_app: "drop i xs = ys @ zs \<Longrightarrow> drop (i + length ys) xs = zs"
  by (metis append_eq_conv_conj drop_drop add.commute)

lemma of_char_small: "n < (256 :: nat) \<Longrightarrow> of_char (char_of n) = n"
  by simp

lemma digit_char [simp]:
  assumes "n < 10"
  shows "IS_DIGIT (digit_char n)" "digit (digit_char n) = int n"
    "digit_char n \<noteq> CHR ''-''" "digit_char n \<noteq> CHR ''+''"
proof -
  have n: "of_char (digit_char n) = 48 + n" using assms by (simp add: digit_char_def)
  show "IS_DIGIT (digit_char n)" using n assms by (simp add: IS_DIGIT_def)
  show "digit (digit_char n) = int n"
    using n of_nat_of_char[where 'a = int, of "digit_char n"] by (simp add: digit_def)
  show "digit_char n \<noteq> CHR ''-''" "digit_char n \<noteq> CHR ''+''" using n by auto
qed

lemma foldl_digits_mono:
  "list_all IS_DIGIT ds \<Longrightarrow> 0 \<le> r \<Longrightarrow> r \<le> foldl (\<lambda>r c. 10 * r + digit c) r ds"
proof (induction ds arbitrary: r)
  case (Cons c ds)
  then have "r \<le> 10 * r + digit c" "0 \<le> 10 * r + digit c" using digit_range[of c] by auto
  then show ?case using Cons.IH[of "10 * r + digit c"] Cons.prems by simp
qed simp

lemma atoi_loop_digits:
  "drop p buf = ds @ rest \<Longrightarrow> list_all IS_DIGIT ds \<Longrightarrow> 0 \<le> r \<Longrightarrow>
   foldl (\<lambda>r c. 10 * r + digit c) r ds < 2 ^ 31 \<Longrightarrow>
   atoi_loop buf p (p + length ds) r = Some (p + length ds, foldl (\<lambda>r c. 10 * r + digit c) r ds)"
proof (induction ds arbitrary: p r)
  case Nil
  then show ?case by (simp add: atoi_loop.simps[of buf p])
next
  case (Cons c ds)
  note d = drop_nth[of p buf c "ds @ rest"]
  have "10 * r + digit c < 2 ^ 31"
    using foldl_digits_mono[of ds "10 * r + digit c"] Cons.prems digit_range[of c] by auto
  then show ?case
    using Cons.IH[of "Suc p" "10 * r + digit c"] Cons.prems d digit_range[of c]
    by (simp add: atoi_loop.simps[of buf p])
qed

lemma num_scan_digits:
  "drop p buf = ds @ c # rest \<Longrightarrow> list_all (\<lambda>d. IS_DIGIT d \<or> d = CHR ''-'') ds \<Longrightarrow> ends_number c \<Longrightarrow>
   num_scan buf p False = Some (p + length ds, False)"
proof (induction ds arbitrary: p)
  case Nil
  then show ?case using drop_nth[of p buf c rest] by (simp add: num_scan.simps[of buf p])
next
  case (Cons d ds)
  have "\<not> ends_number d" "d \<noteq> CHR ''.''" "d \<noteq> CHR ''e''" "d \<noteq> CHR ''E''"
    using Cons.prems(2) by (auto simp: IS_DIGIT_def ends_number_def is_ws_def)
  then show ?case
    using Cons.IH[of "Suc p"] Cons.prems drop_nth[of p buf d "ds @ c # rest"] by (simp add: num_scan.simps[of buf p])
qed

lemma nat_digits_all: "list_all IS_DIGIT (nat_digits n)"
  by (induction n rule: nat_digits.induct) (subst nat_digits.simps, simp)

lemma nat_digits_value: "foldl (\<lambda>r c. 10 * r + digit c) 0 (nat_digits n) = int n"
proof (induction n rule: nat_digits.induct)
  case (1 n)
  have "10 * int (n div 10) + int (n mod 10) = int n" by (metis mult_div_mod_eq of_nat_add of_nat_mult of_nat_numeral)
  then show ?case using 1 by (cases "n < 10") (simp_all add: nat_digits.simps[of n])
qed

lemma nat_digits_hd: "\<exists>d ds. nat_digits n = d # ds \<and> IS_DIGIT d \<and> d \<noteq> CHR ''-'' \<and> d \<noteq> CHR ''+''"
proof (induction n rule: nat_digits.induct)
  case (1 n)
  then show ?case by (cases "n < 10") (auto simp: nat_digits.simps[of n])
qed

lemma atoi_fmt_d:
  assumes d: "drop p buf = fmt_d i @ rest" and i: "\<bar>i\<bar> < 2 ^ 31"
  shows "atoi buf p (p + length (fmt_d i)) = Some (p + length (fmt_d i), i)"
proof (cases "i < 0")
  case True
  let ?ds = "nat_digits (nat (- i))"
  have f: "fmt_d i = CHR ''-'' # ?ds" using True by (simp add: fmt_d_def)
  note n = drop_nth[OF d[unfolded f append_Cons]]
  have "atoi_loop buf (Suc p) (Suc p + length ?ds) 0 = Some (Suc p + length ?ds, - i)"
    using atoi_loop_digits[of "Suc p" buf ?ds rest 0] n nat_digits_all[of "nat (- i)"] nat_digits_value[of "nat (- i)"] i True
    by simp
  then show ?thesis using n by (simp add: atoi_def scan_sign_def f)
next
  case False
  let ?ds = "nat_digits (nat i)"
  have f: "fmt_d i = ?ds" using False by (simp add: fmt_d_def)
  obtain c cs where c: "?ds = c # cs" "IS_DIGIT c" "c \<noteq> CHR ''-''" "c \<noteq> CHR ''+''" using nat_digits_hd by blast
  have n: "p < length buf" "buf ! p = c" using drop_nth[of p buf c "cs @ rest"] d by (auto simp: f c(1))
  have "atoi_loop buf p (p + length ?ds) 0 = Some (p + length ?ds, i)"
    using atoi_loop_digits[OF d[unfolded f], of 0] nat_digits_all[of "nat i"] nat_digits_value[of "nat i"] i False by simp
  then show ?thesis using n c by (auto simp: atoi_def scan_sign_def f)
qed

lemma fmt_d_chars: "list_all (\<lambda>d. IS_DIGIT d \<or> d = CHR ''-'') (fmt_d i)"
  using nat_digits_all by (auto simp: fmt_d_def list_all_iff)

lemma fmt_d_hd: "\<exists>d ds. fmt_d i = d # ds \<and> (d = CHR ''-'' \<or> IS_DIGIT d)"
  using nat_digits_hd[of "nat i"] by (auto simp: fmt_d_def)

section \<open>Reading back strings\<close>

lemma hex_char [simp]:
  assumes "n < 16"
  shows "hex_digit (hex_char n) = Some n"
proof (cases "n < 10")
  case True
  then have "of_char (hex_char n) = 48 + n" by (simp add: hex_char_def)
  then show ?thesis using True by (simp add: hex_digit_def IS_DIGIT_def)
next
  case False
  then have "of_char (hex_char n) = 87 + n" using assms by (simp add: hex_char_def)
  then show ?thesis using False assms by (simp add: hex_digit_def IS_DIGIT_def)
qed

lemma hatoui_hex:
  "drop p buf = hex_char a # rest \<Longrightarrow> a < 16 \<Longrightarrow> p \<noteq> e \<Longrightarrow>
   hatoui buf p e w = hatoui buf (Suc p) e (16 * w + of_nat a) \<and> drop (Suc p) buf = rest"
  using drop_nth[of p buf "hex_char a" rest] by (simp add: hatoui.simps[of buf p])

lemma hex_value:
  assumes "n < 2 ^ 16"
  shows "16 * (16 * (16 * (n div 4096 mod 16) + n div 256 mod 16) + n div 16 mod 16) + n mod 16 = (n :: nat)"
proof -
  have d: "n div 256 = n div 16 div 16" "n div 4096 = n div 16 div 16 div 16"
    by (simp_all add: div_mult2_eq[symmetric])
  have "n div 16 div 16 div 16 < 16" using assms by (simp add: div_mult2_eq[symmetric] less_mult_imp_div_less)
  then show ?thesis
    using div_mult_mod_eq[of n 16] div_mult_mod_eq[of "n div 16" 16] div_mult_mod_eq[of "n div 16 div 16" 16]
    unfolding d by simp
qed

lemma hatoui_04x:
  assumes d: "drop p buf = fmt_04x n @ rest" and "n < 2 ^ 16"
  shows "hatoui buf p (p + 4) 0 = Some (p + 4, of_nat n)"
proof -
  let ?a = "n div 4096 mod 16" and ?b = "n div 256 mod 16" and ?c = "n div 16 mod 16" and ?d = "n mod 16"
  have lt: "?a < 16" "?b < 16" "?c < 16" "?d < 16" by simp_all
  have ne: "p \<noteq> p + 4" "Suc p \<noteq> p + 4" "Suc (Suc p) \<noteq> p + 4" "Suc (Suc (Suc p)) \<noteq> p + 4" by simp_all
  note h0 = hatoui_hex[OF d[unfolded fmt_04x_def append_Cons append_Nil] lt(1) ne(1), of 0]
  note h1 = hatoui_hex[OF h0[THEN conjunct2] lt(2) ne(2)]
  note h2 = hatoui_hex[OF h1[THEN conjunct2] lt(3) ne(3)]
  note h3 = hatoui_hex[OF h2[THEN conjunct2] lt(4) ne(4)]
  have "hatoui buf (Suc (Suc (Suc (Suc p)))) (p + 4) w = Some (p + 4, w)" for w
    by (simp add: hatoui.simps[of buf "Suc (Suc (Suc (Suc p)))"])
  moreover have "(16 * (16 * (16 * (16 * 0 + of_nat ?a) + of_nat ?b) + of_nat ?c) + of_nat ?d :: 32 word) = of_nat n"
    using arg_cong[OF hex_value[OF assms(2)], of "of_nat :: nat \<Rightarrow> 32 word"]
    by (simp only: of_nat_add of_nat_mult of_nat_numeral mult_zero_right add_0)
  ultimately show ?thesis
    using h0 h1 h2 h3 by metis
qed

lemma esc_char_cases:
  assumes "c \<noteq> NUL"
  obtains x where "esc_char c = [BACKSLASH, x]" "simple_escape x = Some c"
  | "esc_char c = BACKSLASH # CHR ''u'' # fmt_04x (of_char c)" "of_char c < (32 :: nat)"
  | "esc_char c = [c]" "\<not> of_char c < (32 :: nat)" "c \<noteq> BACKSLASH" "c \<noteq> QUOTE"
proof -
  consider "c \<in> {BACKSLASH, QUOTE, CHR 0x08, CHR 0x09, NEWLINE, CHR 0x0C, CHR 0x0D}"
    | "c \<notin> {BACKSLASH, QUOTE, CHR 0x08, CHR 0x09, NEWLINE, CHR 0x0C, CHR 0x0D}" by blast
  then show ?thesis
  proof cases
    case 1
    then have "\<exists>x. esc_char c = [BACKSLASH, x] \<and> simple_escape x = Some c"
      by (auto simp: esc_char_def simple_escape_def)
    then show ?thesis using that(1) by blast
  next
    case 2
    then show ?thesis by (cases "of_char c < (32 :: nat)") (auto intro: that simp: esc_char_def)
  qed
qed

lemma utf8_ascii: "(of_char c :: nat) < 128 \<Longrightarrow> utf8_bytes (of_nat (of_char c)) = [c]"
proof -
  assume c: "(of_char c :: nat) < 128"
  then have "unat (of_nat (of_char c) :: 32 word) = of_char c" by (simp add: unat_of_nat)
  then show ?thesis using c by (simp add: utf8_bytes_def to_char_def word_le_nat_alt)
qed

lemma str_loop_backslash:
  "i < length buf \<Longrightarrow> buf ! i = BACKSLASH \<Longrightarrow> str_escape first buf i d e = Some (Inr (b, i', d', e')) \<Longrightarrow>
   str_loop first buf i d e = str_loop first b i' d' e'"
  by (simp add: str_loop.simps[of first buf i])

lemma esc_step:
  assumes c: "ascii c" and d: "drop i buf = esc_char c @ rest" and "d \<le> i"
  shows "\<exists>e'. str_loop first buf i d e = str_loop first (buf[d := c]) (i + length (esc_char c)) (d + 1) e'"
proof -
  have "c \<noteq> NUL" using c by (simp add: ascii_def)
  then show ?thesis
  proof (cases c rule: esc_char_cases)
    case (1 x)
    note n0 = drop_nth[OF d[unfolded 1 append_Cons append_Nil]]
    note n1 = drop_nth[OF n0[THEN conjunct2, THEN conjunct2]]
    have "str_escape first buf i d e = Some (Inr (buf[d := c], i + 2, d + 1, if x = CHR ''n'' then e + 1 else e))"
      using n0 n1 1(2) assms(3) by (simp add: str_escape_def wr_def)
    then show ?thesis using str_loop_backslash n0 by (fastforce simp: 1(1))
  next
    case 2
    note n0 = drop_nth[OF d[unfolded 2 append_Cons append_Nil]]
    note n1 = drop_nth[OF n0[THEN conjunct2, THEN conjunct2]]
    have s2: "drop (i + 2) buf = fmt_04x (of_char c) @ rest" using n1 by simp
    have "hatoui buf (i + 2) (i + 2 + 4) 0 = Some (i + 2 + 4, of_nat (of_char c))"
      by (rule hatoui_04x[OF s2]) (use 2(2) in simp)
    then have "hatoui buf (Suc (Suc i)) (i + 6) 0 = Some (i + 6, of_nat (of_char c))" by (simp add: eval_nat_numeral)
    then have "str_escape first buf i d e = Some (Inr (buf[d := c], i + 6, d + 1, e))"
      using n0 n1 2(2) utf8_ascii[of c] assms(3) by (simp add: str_escape_def wr_def simple_escape_def numeral_2_eq_2)
    moreover have "i + length (esc_char c) = i + 6" by (simp add: 2(1) fmt_04x_def)
    ultimately show ?thesis using str_loop_backslash n0 by metis
  next
    case 3
    note n0 = drop_nth[OF d[unfolded 3 append_Cons append_Nil]]
    then show ?thesis
      using 3 \<open>c \<noteq> NUL\<close> assms(3) by (auto simp: str_loop.simps[of first buf i] wr_def)
  qed
qed

lemma take_Suc_upd: "d < length xs \<Longrightarrow> take (Suc d) b = take (Suc d) (xs[d := c]) \<Longrightarrow> take d b = take d xs"
  by (drule arg_cong[of _ _ "take d"]) simp

text \<open>A string is decoded to its end, terminated, and leaves the rest of the buffer alone.\<close>

lemma str_loop_escape:
  assumes "list_all ascii s" and "drop i buf = json_escape s @ QUOTE # rest" and "d \<le> i"
  shows "\<exists>b e'. str_loop first buf i d e = Some (Inr (b, i + length (json_escape s) + 1, e')) \<and>
    length b = length buf \<and> take d b = take d buf \<and> take (length s + 1) (drop d b) = s @ [NUL] \<and>
    drop (i + length (json_escape s) + 1) b = rest \<and> d + length s \<le> i + length (json_escape s)"
  using assms
proof (induction s arbitrary: i buf d e)
  case Nil
  have n: "i < length buf" "buf ! i = QUOTE" "drop (Suc i) buf = rest"
    using drop_nth[of i buf QUOTE rest] Nil by (auto simp: json_escape_def)
  have "take (Suc 0) (drop d (buf[d := NUL])) = [NUL]"
    using n(1) Nil(3) by (simp add: take_Suc_conv_app_nth)
  then show ?case using n Nil(3) by (auto simp: str_loop.simps[of first buf i] wr_def json_escape_def)
next
  case (Cons c s)
  have d: "drop i buf = esc_char c @ json_escape s @ QUOTE # rest" using Cons.prems(2) by (simp add: json_escape_def)
  have l: "0 < length (esc_char c)" by (simp add: esc_char_def)
  have il: "i < length buf" using d l by (cases "i < length buf") auto
  obtain e1 where e1: "str_loop first buf i d e = str_loop first (buf[d := c]) (i + length (esc_char c)) (d + 1) e1"
    using esc_step[OF _ d Cons.prems(3)] Cons.prems(1) by auto
  have d': "drop (i + length (esc_char c)) (buf[d := c]) = json_escape s @ QUOTE # rest"
  proof -
    have "d < i + length (esc_char c)" using Cons.prems(3) l by linarith
    then show ?thesis using drop_app[OF d] by simp
  qed
  obtain b e' where b: "str_loop first (buf[d := c]) (i + length (esc_char c)) (d + 1) e1 =
      Some (Inr (b, i + length (esc_char c) + length (json_escape s) + 1, e'))"
    "length b = length buf" "take (d + 1) b = take (d + 1) (buf[d := c])"
    "take (length s + 1) (drop (d + 1) b) = s @ [NUL]"
    "drop (i + length (esc_char c) + length (json_escape s) + 1) b = rest"
    "d + 1 + length s \<le> i + length (esc_char c) + length (json_escape s)"
    using Cons.IH[OF _ d', of "d + 1" e1] Cons.prems(1,3) l by auto
  have dl: "d < length buf" using il Cons.prems(3) by simp
  have "b ! d = c" using arg_cong[OF b(3), of "\<lambda>xs. xs ! d"] dl by simp
  then have "drop d b = c # drop (d + 1) b" using dl b(2) by (metis Cons_nth_drop_Suc Suc_eq_plus1)
  then have "take (length (c # s) + 1) (drop d b) = (c # s) @ [NUL]" using b(4) by simp
  moreover have "take d b = take d buf" using take_Suc_upd[OF dl] b(3) by simp
  ultimately show ?case using e1 b by (auto simp: json_escape_def add.assoc)
qed

lemma json_escape_plain: "list_all plain_char s \<Longrightarrow> json_escape s = s"
  by (induction s) (auto simp: json_escape_def esc_char_def plain_char_def ascii_def)

lemma plain_ascii: "list_all plain_char s \<Longrightarrow> list_all ascii s"
  by (auto simp: list_all_iff plain_char_def)

section \<open>Reading back values\<close>

text \<open>The C string at an offset; it no longer changes once its terminator is behind the parser.\<close>

definition cstr :: "string \<Rightarrow> nat \<Rightarrow> string" where
  "cstr buf off = takeWhile (\<lambda>c. c \<noteq> NUL) (drop off buf)"

definition settled :: "string \<Rightarrow> nat \<Rightarrow> nat \<Rightarrow> bool" where
  "settled buf it off = (\<exists>j. off \<le> j \<and> j < it \<and> it \<le> length buf \<and> buf ! j = NUL)"

lemma takeWhile_stop: "j < length xs \<Longrightarrow> \<not> P (xs ! j) \<Longrightarrow> takeWhile P xs = takeWhile P (take (Suc j) xs)"
proof -
  assume j: "j < length xs" "\<not> P (xs ! j)"
  have "takeWhile P (take (Suc j) xs @ drop (Suc j) xs) = takeWhile P (take (Suc j) xs)"
    using j by (intro takeWhile_append1[of "xs ! j"]) (auto simp: take_Suc_conv_app_nth)
  then show ?thesis by simp
qed

lemma settled_stable:
  assumes "settled buf it off" and "take it b = take it buf" and "it \<le> it'" and "it' \<le> length b"
  shows "cstr b off = cstr buf off \<and> settled b it' off"
proof -
  obtain j where j: "off \<le> j" "j < it" "it \<le> length buf" "buf ! j = NUL" using assms(1) by (auto simp: settled_def)
  have bj: "b ! j = NUL" using j assms(2) by (metis nth_take)
  have len: "j < length b" using j(2) assms(3,4) by simp
  have eq: "take (Suc (j - off)) (drop off b) = take (Suc (j - off)) (drop off buf)"
  proof -
    have "take (Suc j) b = take (Suc j) buf"
      using arg_cong[OF assms(2), of "take (Suc j)"] j(2) by (simp add: min_def)
    then show ?thesis using j(1) by (simp add: take_drop)
  qed
  have "cstr xs off = takeWhile (\<lambda>c. c \<noteq> NUL) (take (Suc (j - off)) (drop off xs))"
    if "j < length xs" "xs ! j = NUL" for xs
    unfolding cstr_def using that j(1) by (intro takeWhile_stop) auto
  from this[of b] this[of buf] show ?thesis
    using eq bj len j assms(3,4) by (auto simp: settled_def)
qed

lemma cstr_decoded:
  assumes "take (length s + 1) (drop d b) = s @ [NUL]" and "list_all ascii s"
  shows "cstr b d = s"
proof -
  have "drop d b = (s @ [NUL]) @ drop (length s + 1) (drop d b)" by (metis append_take_drop_id assms(1))
  then have "cstr b d = takeWhile (\<lambda>c. c \<noteq> NUL) (s @ NUL # drop (length s + 1) (drop d b))" by (simp add: cstr_def)
  moreover have "takeWhile (\<lambda>c. c \<noteq> NUL) (s @ NUL # r) = s" for r
    using assms(2) by (induction s) (auto simp: ascii_def)
  ultimately show ?thesis by simp
qed

lemma settled_decoded:
  assumes "take (length s + 1) (drop d b) = s @ [NUL]" and "d + length s < it" and "it \<le> length b"
  shows "settled b it d"
proof -
  have "b ! (d + length s) = NUL"
    using arg_cong[OF assms(1), of "\<lambda>xs. xs ! length s"] assms(2,3) by simp
  then show ?thesis using assms(2,3) by (auto simp: settled_def intro!: exI[of _ "d + length s"])
qed

text \<open>The tree with offsets \<open>x\<close> stands for the value \<open>t\<close>.\<close>

definition stands_for :: "'f ParseState \<Rightarrow> (nat, 'f) JTree \<Rightarrow> (string, 'f) JTree \<Rightarrow> bool" where
  "stands_for st x t = (map_JTree (cstr (ps_buf st)) id x = t \<and> (\<forall>off\<in>set1_JTree x. settled (ps_buf st) (ps_it st) off))"

definition name_is :: "'f ParseState \<Rightarrow> string option \<Rightarrow> bool" where
  "name_is st n = (map_option (cstr (ps_buf st)) (ps_name st) = n \<and> (\<forall>off. ps_name st = Some off \<longrightarrow> settled (ps_buf st) (ps_it st) off))"

text \<open>The parser has moved on and left what is behind it unchanged.\<close>

definition moved_on :: "'f ParseState \<Rightarrow> 'f ParseState \<Rightarrow> bool" where
  "moved_on st st' = (ps_it st \<le> ps_it st' \<and> ps_it st' \<le> length (ps_buf st) \<and> length (ps_buf st') = length (ps_buf st) \<and>
     take (ps_it st) (ps_buf st') = take (ps_it st) (ps_buf st))"

lemma moved_on_trans: "moved_on a b \<Longrightarrow> moved_on b c \<Longrightarrow> moved_on a c"
  unfolding moved_on_def by (metis le_trans min.absorb1 take_take)

lemma stands_for_moved:
  assumes "stands_for st x t" and "moved_on st st'"
  shows "stands_for st' x t"
proof -
  have "cstr (ps_buf st') off = cstr (ps_buf st) off \<and> settled (ps_buf st') (ps_it st') off" if "off \<in> set1_JTree x" for off
    using assms that settled_stable[of "ps_buf st" "ps_it st" off "ps_buf st'" "ps_it st'"]
    by (auto simp: stands_for_def moved_on_def)
  then show ?thesis
    using assms(1) by (auto simp: stands_for_def intro!: JTree.map_cong0)
qed

lemma name_settled:
  "name_is st n \<Longrightarrow> moved_on st st' \<Longrightarrow> map_option (cstr (ps_buf st')) (ps_name st) = n \<and>
     (\<forall>off. ps_name st = Some off \<longrightarrow> settled (ps_buf st') (ps_it st') off)"
  using settled_stable[of "ps_buf st" "ps_it st" "the (ps_name st)" "ps_buf st'" "ps_it st'"]
  by (cases "ps_name st") (auto simp: name_is_def moved_on_def)

lemma name_is_moved: "name_is st n \<Longrightarrow> moved_on st st' \<Longrightarrow> ps_name st' = ps_name st \<Longrightarrow> name_is st' n"
  using name_settled[of st n st'] by (simp add: name_is_def)

text \<open>One round of the main loop, when no white space follows.\<close>

lemma loop_step:
  assumes "drop (ps_it st) (ps_buf st) = c # r" and "c \<noteq> NUL" and "parse_char F c st = Some (Inr st1)"
    and "drop (ps_it st1) (ps_buf st1) = d # r1" and "\<not> is_ws d"
  shows "json_loop F st = json_loop F st1"
proof -
  have "skip_ws (ps_buf st1) (ps_it st1) = Some (ps_it st1)"
    using drop_nth[OF assms(4)] assms(5) by (simp add: skip_ws.simps[of "ps_buf st1" "ps_it st1"])
  then show ?thesis
    using drop_nth[OF assms(1)] assms(2,3) by (simp add: json_loop.simps[of F st])
qed

definition delim :: "string \<Rightarrow> bool" where
  "delim rest = (\<exists>c r. rest = c # r \<and> ends_number c \<and> \<not> is_ws c)"

text \<open>From \<open>st\<close> the loop gets to \<open>st'\<close>, in front of \<open>rest\<close>, with \<open>x\<close> added to the innermost container.\<close>

definition value_read :: "'f FloatOps \<Rightarrow> 'f ParseState \<Rightarrow> (nat, 'f) JTree \<Rightarrow> nat \<Rightarrow> (string, 'f) JTree \<Rightarrow> string \<Rightarrow> bool" where
  "value_read F st T d t rest = (\<exists>st' x. json_loop F st = json_loop F st' \<and> doc_state st' (Some (snoc_at d x T, Some d)) \<and>
     ps_name st' = None \<and> drop (ps_it st') (ps_buf st') = rest \<and> moved_on st st' \<and> stands_for st' x t)"

definition reads :: "'f FloatOps \<Rightarrow> string \<Rightarrow> (string, 'f) JTree \<Rightarrow> bool" where
  "reads F txt t = (\<forall>st T d rest. doc_state st (Some (T, Some d)) \<longrightarrow>
     (kind_type (spine_kind d T) = JSON_OBJECT \<longrightarrow> ps_name st \<noteq> None) \<longrightarrow> name_is st (jt_name t) \<longrightarrow>
     drop (ps_it st) (ps_buf st) = txt @ rest \<longrightarrow> delim rest \<longrightarrow> value_read F st T d t rest)"

lemma leaf_read:
  assumes "doc_state st (Some (T, Some d))" and n: "name_is st n" and "drop (ps_it st) (ps_buf st) = c # r" "c \<noteq> NUL"
    and p: "parse_char F c st = add_value (spine_addr d 0 T) (kind_type k) (kind_value k) sn"
    and d1: "doc_state sn (Some (T, Some d))" and "ps_name sn = ps_name st"
    and r: "drop (ps_it sn) (ps_buf sn) = rest" "delim rest" and m: "moved_on st sn"
    and s: "stands_for sn (JT None k []) (JT None k' [])"
  shows "value_read F st T d (JT n k' []) rest"
proof -
  let ?x = "JT (ps_name st) k []"
  let ?st = "sn\<lparr>ps_nodes := lay None 0 None (snoc_at d ?x T), ps_name := None\<rparr>"
  obtain c' r' where c': "rest = c' # r'" "\<not> is_ws c'" using r(2) by (auto simp: delim_def)
  have "parse_char F c st = Some (Inr ?st)" using p add_value_doc[OF d1, of k] assms(7) by simp
  then have "json_loop F st = json_loop F ?st"
    using loop_step[OF assms(3,4), of F ?st c' r'] r(1) c' by simp
  moreover have "doc_state ?st (Some (snoc_at d ?x T, Some d))" by (rule doc_snoc[OF d1]) simp_all
  moreover have "stands_for ?st ?x (JT n k' [])"
    using s name_is_moved[OF n m assms(7)] assms(7) by (auto simp: stands_for_def name_is_def)
  moreover have "moved_on st ?st" using m by (simp add: moved_on_def)
  ultimately show ?thesis using r(1) unfolding value_read_def by (intro exI[of _ ?st] exI[of _ ?x]) simp
qed

lemma moved_it:
  assumes "drop (ps_it st) (ps_buf st) = txt @ rest" and "txt \<noteq> []"
  shows "moved_on st (st\<lparr>ps_it := ps_it st + length txt\<rparr>)" "drop (ps_it st + length txt) (ps_buf st) = rest"
proof -
  have "ps_it st < length (ps_buf st)" using assms by (cases "ps_it st < length (ps_buf st)") auto
  then have "ps_it st + length txt \<le> length (ps_buf st)" using arg_cong[OF assms(1), of length] by simp
  then show "moved_on st (st\<lparr>ps_it := ps_it st + length txt\<rparr>)" by (simp add: moved_on_def)
  show "drop (ps_it st + length txt) (ps_buf st) = rest" using drop_app[OF assms(1)] .
qed

lemma delim_hd: "delim rest \<Longrightarrow> \<exists>c r. rest = c # r \<and> ends_number c"
  by (auto simp: delim_def)

lemma stands_leaf [simp]:
  "stands_for st (JT None KNull []) (JT None KNull [])" "stands_for st (JT None (KInt i) []) (JT None (KInt i) [])"
  "stands_for st (JT None (KBool i) []) (JT None (KBool i) [])"
  by (simp_all add: stands_for_def)

lemma doc_topD: "doc_state st (Some (T, Some d)) \<Longrightarrow> ps_top st = Some (spine_addr d 0 T)"
  by (simp add: doc_state_def)

lemma has_prefix_app: "drop i buf = cs @ r \<Longrightarrow> has_prefix buf i cs = Some True"
proof (induction cs arbitrary: i)
  case (Cons c cs)
  then show ?case using drop_nth[of i buf c "cs @ r"] by simp
qed simp

lemma has_prefix_ne: "drop i buf = c # r \<Longrightarrow> c \<noteq> c' \<Longrightarrow> has_prefix buf i (c' # cs) = Some False"
  using drop_nth[of i buf c r] by simp

lemma parse_char_literal:
  assumes "doc_state st (Some (T, Some d))" and "kind_type (spine_kind d T) = JSON_OBJECT \<longrightarrow> ps_name st \<noteq> None"
  shows "drop (ps_it st) (ps_buf st) = ''null'' @ rest \<Longrightarrow>
      parse_char F (CHR ''n'') st = add_value (spine_addr d 0 T) JSON_NULL U_unset (st\<lparr>ps_it := ps_it st + 4\<rparr>)"
    "drop (ps_it st) (ps_buf st) = ''true'' @ rest \<Longrightarrow>
      parse_char F (CHR ''t'') st = add_value (spine_addr d 0 T) JSON_BOOL (U_int 1) (st\<lparr>ps_it := ps_it st + 4\<rparr>)"
    "drop (ps_it st) (ps_buf st) = ''false'' @ rest \<Longrightarrow>
      parse_char F (CHR ''f'') st = add_value (spine_addr d 0 T) JSON_BOOL (U_int 0) (st\<lparr>ps_it := ps_it st + 5\<rparr>)"
proof -
  have nm: "(kind_type (spine_kind d T) = JSON_OBJECT \<and> ps_name st = None) = False" using assms(2) by auto
  note simps = nm doc_topD[OF assms(1)] doc_top_type[OF assms(1)] parse_char_def parse_literal_def Let_def IS_DIGIT_def
  show "parse_char F (CHR ''n'') st = add_value (spine_addr d 0 T) JSON_NULL U_unset (st\<lparr>ps_it := ps_it st + 4\<rparr>)"
    if "drop (ps_it st) (ps_buf st) = ''null'' @ rest"
    using has_prefix_app[OF that] has_prefix_ne[OF that[unfolded append_Cons]]
    by (simp add: simps del: has_prefix.simps)
  show "parse_char F (CHR ''t'') st = add_value (spine_addr d 0 T) JSON_BOOL (U_int 1) (st\<lparr>ps_it := ps_it st + 4\<rparr>)"
    if "drop (ps_it st) (ps_buf st) = ''true'' @ rest"
    using has_prefix_app[OF that] has_prefix_ne[OF that[unfolded append_Cons]]
    by (simp add: simps del: has_prefix.simps)
  show "parse_char F (CHR ''f'') st = add_value (spine_addr d 0 T) JSON_BOOL (U_int 0) (st\<lparr>ps_it := ps_it st + 5\<rparr>)"
    if "drop (ps_it st) (ps_buf st) = ''false'' @ rest"
    using has_prefix_app[OF that] has_prefix_ne[OF that[unfolded append_Cons]]
    by (simp add: simps del: has_prefix.simps)
qed

lemma reads_literal:
  fixes F :: "'f FloatOps"
  shows "reads F ''null'' (JT n KNull [])" "reads F ''true'' (JT n (KBool 1) [])" "reads F ''false'' (JT n (KBool 0) [])"
proof -
  have gen: "reads F lit (JT n k2 [])"
    if "length lit = m" "lit = c # cs" "c \<noteq> NUL"
      "\<And>st T d rest. doc_state st (Some (T, Some d)) \<Longrightarrow> (kind_type (spine_kind d T) = JSON_OBJECT \<longrightarrow> ps_name st \<noteq> None) \<Longrightarrow>
        drop (ps_it st) (ps_buf st) = lit @ rest \<Longrightarrow>
        parse_char F c st = add_value (spine_addr d 0 T) (kind_type k) (kind_value k) (st\<lparr>ps_it := ps_it st + m\<rparr>)"
      "\<And>st. stands_for (st :: 'f ParseState) (JT None k []) (JT None k2 [])" for lit c cs m and k :: "(nat, 'f) JKind" and k2
    unfolding reads_def
  proof (intro allI impI)
    fix st :: "'f ParseState" and T d rest
    assume a: "doc_state st (Some (T, Some d))" "kind_type (spine_kind d T) = JSON_OBJECT \<longrightarrow> ps_name st \<noteq> None"
      "name_is st (jt_name (JT n k2 []))" "drop (ps_it st) (ps_buf st) = lit @ rest" "delim rest"
    note mv = moved_it[OF a(4)]
    show "value_read F st T d (JT n k2 []) rest"
      using that a mv by (intro leaf_read[where sn = "st\<lparr>ps_it := ps_it st + length lit\<rparr>" and k = k and c = c and r = "cs @ rest"]) auto
  qed
  show "reads F ''null'' (JT n KNull [])"
    by (rule gen[where k = KNull and m = 4 and c = "CHR ''n''"]) (simp_all, rule parse_char_literal(1)[simplified])
  show "reads F ''true'' (JT n (KBool 1) [])"
    by (rule gen[where k = "KBool 1" and m = 4 and c = "CHR ''t''"]) (simp_all, rule parse_char_literal(2)[simplified])
  show "reads F ''false'' (JT n (KBool 0) [])"
    by (rule gen[where k = "KBool 0" and m = 5 and c = "CHR ''f''"]) (simp_all, rule parse_char_literal(3)[simplified])
qed

lemma parse_char_number: "c = CHR ''-'' \<or> IS_DIGIT c \<Longrightarrow> parse_char F c st = parse_number F st"
proof -
  assume c: "c = CHR ''-'' \<or> IS_DIGIT c"
  have "c \<notin> {CHR ''{'', CHR ''['', CHR ''}'', CHR '']'', CHR '':'', CHR '','', QUOTE, CHR ''n'', CHR ''t'', CHR ''f''}"
    using c by (auto simp: IS_DIGIT_def)
  with c show ?thesis by (simp add: parse_char_def)
qed

lemma reads_int:
  fixes F :: "'f FloatOps"
  assumes "\<bar>i\<bar> < 2 ^ 31"
  shows "reads F (fmt_d i) (JT n (KInt i) [])"
  unfolding reads_def
proof (intro allI impI)
  fix st :: "'f ParseState" and T d rest
  assume a: "doc_state st (Some (T, Some d))" "kind_type (spine_kind d T) = JSON_OBJECT \<longrightarrow> ps_name st \<noteq> None"
    "name_is st (jt_name (JT n (KInt i) []))" "drop (ps_it st) (ps_buf st) = fmt_d i @ rest" "delim rest"
  let ?st = "st\<lparr>ps_it := ps_it st + length (fmt_d i)\<rparr>"
  obtain c cs where c: "fmt_d i = c # cs" "c = CHR ''-'' \<or> IS_DIGIT c" using fmt_d_hd by blast
  note mv = moved_it[OF a(4)]
  obtain c' r where r: "rest = c' # r" "ends_number c'" using delim_hd[OF a(5)] by blast
  have "num_scan (ps_buf st) (ps_it st) False = Some (ps_it st + length (fmt_d i), False)"
    using num_scan_digits[of "ps_it st" "ps_buf st" "fmt_d i" c' r] a(4) r fmt_d_chars[of i] by simp
  then have "parse_char F c st = add_value (spine_addr d 0 T) JSON_INT (U_int i) ?st"
    using doc_topD[OF a(1)] doc_top_type[OF a(1)] a(2) atoi_fmt_d[OF a(4) assms] c(2)
    by (auto simp: parse_char_number parse_number_def Let_def)
  moreover have "c \<noteq> NUL" using c(2) by auto
  ultimately show "value_read F st T d (JT n (KInt i) []) rest"
    using a mv c by (intro leaf_read[where sn = ?st and k = "KInt i" and c = c and r = "cs @ rest"]) auto
qed

text \<open>Scanning a quoted string, as a name or as a value.\<close>

lemma string_scanned:
  assumes "drop (ps_it st) (ps_buf st) = QUOTE # json_escape s @ QUOTE # rest" and "list_all ascii s"
  obtains st1 where "ps_nodes st1 = ps_nodes st" "ps_root st1 = ps_root st" "ps_top st1 = ps_top st" "ps_name st1 = ps_name st"
    "drop (ps_it st1) (ps_buf st1) = rest" "moved_on st st1"
    "cstr (ps_buf st1) (Suc (ps_it st)) = s" "settled (ps_buf st1) (ps_it st1) (Suc (ps_it st))"
    "\<And>tp. ps_top st = Some tp \<Longrightarrow> parse_char F QUOTE st = end_string tp (Suc (ps_it st)) st1"
proof -
  note n = drop_nth[OF assms(1)]
  obtain b e where b: "str_loop (Suc (ps_it st)) (ps_buf st) (Suc (ps_it st)) (Suc (ps_it st)) (ps_escaped st) =
      Some (Inr (b, Suc (ps_it st) + length (json_escape s) + 1, e))" "length b = length (ps_buf st)"
    "take (Suc (ps_it st)) b = take (Suc (ps_it st)) (ps_buf st)" "take (length s + 1) (drop (Suc (ps_it st)) b) = s @ [NUL]"
    "drop (Suc (ps_it st) + length (json_escape s) + 1) b = rest" "Suc (ps_it st) + length s \<le> Suc (ps_it st) + length (json_escape s)"
    using str_loop_escape[OF assms(2) n[THEN conjunct2, THEN conjunct2] order_refl] by blast
  have "length (json_escape s) + 2 \<le> length (ps_buf st) - ps_it st" using arg_cong[OF assms(1), of length] by simp
  then have len: "Suc (ps_it st) + length (json_escape s) + 1 \<le> length (ps_buf st)" using n by simp
  let ?st = "st\<lparr>ps_buf := b, ps_it := Suc (ps_it st) + length (json_escape s) + 1, ps_escaped := e\<rparr>"
  have mv: "moved_on st ?st"
    using b(2) len take_take[of "ps_it st" "Suc (ps_it st)" b] take_take[of "ps_it st" "Suc (ps_it st)" "ps_buf st"] b(3)
    by (simp add: moved_on_def)
  show ?thesis
    by (rule that[of ?st])
      (use b mv len cstr_decoded[OF b(4) assms(2)] settled_decoded[OF b(4), of "Suc (ps_it st) + length (json_escape s) + 1"]
       in \<open>simp_all add: parse_char_def parse_string_def\<close>)
qed

lemma reads_string:
  fixes F :: "'f FloatOps"
  assumes "list_all ascii s"
  shows "reads F (QUOTE # json_escape s @ [QUOTE]) (JT n (KString s) [])"
  unfolding reads_def
proof (intro allI impI)
  fix st :: "'f ParseState" and T d rest
  assume a: "doc_state st (Some (T, Some d))" "kind_type (spine_kind d T) = JSON_OBJECT \<longrightarrow> ps_name st \<noteq> None"
    "name_is st (jt_name (JT n (KString s) []))" "drop (ps_it st) (ps_buf st) = (QUOTE # json_escape s @ [QUOTE]) @ rest" "delim rest"
  have "drop (ps_it st) (ps_buf st) = QUOTE # json_escape s @ QUOTE # rest" using a(4) by simp
  then obtain st1 where s: "ps_nodes st1 = ps_nodes st" "ps_root st1 = ps_root st" "ps_top st1 = ps_top st" "ps_name st1 = ps_name st"
    "drop (ps_it st1) (ps_buf st1) = rest" "moved_on st st1"
    "cstr (ps_buf st1) (Suc (ps_it st)) = s" "settled (ps_buf st1) (ps_it st1) (Suc (ps_it st))"
    "\<And>tp. ps_top st = Some tp \<Longrightarrow> parse_char F QUOTE st = end_string tp (Suc (ps_it st)) st1"
    using string_scanned[OF _ assms, of st rest F] by blast
  have d1: "doc_state st1 (Some (T, Some d))" using a(1) s(1-3) by (simp add: doc_state_def)
  have "parse_char F QUOTE st = add_value (spine_addr d 0 T) JSON_STRING (U_string (Suc (ps_it st))) st1"
    using s(9)[OF doc_topD[OF a(1)]] doc_top_type[OF d1] a(2) s(4) by (auto simp: end_string_def)
  then show "value_read F st T d (JT n (KString s) []) rest"
    using a s d1 by (intro leaf_read[where sn = st1 and k = "KString (Suc (ps_it st))" and c = QUOTE and r = "json_escape s @ QUOTE # rest"])
      (auto simp: stands_for_def)
qed

section \<open>Reading back objects and arrays\<close>

lemma fmt_hd: "jv_ok t \<Longrightarrow> \<exists>c r. json_format nullname g t = c # r \<and> \<not> is_ws c \<and> c \<noteq> NUL"
proof (cases t)
  case (JT n k ts)
  assume ok: "jv_ok t"
  show ?thesis
  proof (cases k)
    case (KInt i)
    obtain d ds where "fmt_d i = d # ds" "d = CHR ''-'' \<or> IS_DIGIT d" using fmt_d_hd by blast
    then show ?thesis by (auto simp: JT KInt is_ws_def IS_DIGIT_def)
  qed (use ok in \<open>auto simp: JT is_ws_def\<close>)
qed

definition member_text :: "string \<Rightarrow> ('f \<Rightarrow> string) \<Rightarrow> json_type \<Rightarrow> (string, 'f) JTree \<Rightarrow> string" where
  "member_text nullname g ty t =
     (if ty = JSON_OBJECT then member_name nullname (jt_name t) else []) @ json_format nullname g t"

definition member_ok :: "json_type \<Rightarrow> (string, 'f) JTree \<Rightarrow> bool" where
  "member_ok ty t = (jv_ok t \<and> (if ty = JSON_OBJECT then \<exists>s. jt_name t = Some s \<and> list_all plain_char s else jt_name t = None))"

lemma member_hd: "member_ok ty t \<Longrightarrow> \<exists>c r. member_text nullname g ty t = c # r \<and> \<not> is_ws c \<and> c \<noteq> NUL"
  using fmt_hd[of t nullname g] by (auto simp: member_ok_def member_text_def member_name_def is_ws_def)

lemma value_read_after:
  assumes "json_loop F st = json_loop F st'" and "moved_on st st'" and "value_read F st' T d t rest"
  shows "value_read F st T d t rest"
  using assms(3) unfolding value_read_def by (metis assms(1,2) moved_on_trans)

lemma name_read:
  assumes d: "doc_state st (Some (T, Some d))" and o: "kind_type (spine_kind d T) = JSON_OBJECT" and n: "ps_name st = None"
    and tx: "drop (ps_it st) (ps_buf st) = member_name nullname (Some s) @ c # r" and s: "list_all plain_char s" and c: "\<not> is_ws c"
  shows "\<exists>st'. json_loop F st = json_loop F st' \<and> doc_state st' (Some (T, Some d)) \<and> ps_name st' \<noteq> None \<and>
    name_is st' (Some s) \<and> drop (ps_it st') (ps_buf st') = c # r \<and> moved_on st st'"
proof -
  have tx': "drop (ps_it st) (ps_buf st) = QUOTE # json_escape s @ QUOTE # CHR '':'' # c # r"
    using tx json_escape_plain[OF s] by (simp add: member_name_def)
  obtain st1 where s1: "ps_nodes st1 = ps_nodes st" "ps_root st1 = ps_root st" "ps_top st1 = ps_top st" "ps_name st1 = ps_name st"
    "drop (ps_it st1) (ps_buf st1) = CHR '':'' # c # r" "moved_on st st1"
    "cstr (ps_buf st1) (Suc (ps_it st)) = s" "settled (ps_buf st1) (ps_it st1) (Suc (ps_it st))"
    "\<And>tp. ps_top st = Some tp \<Longrightarrow> parse_char F QUOTE st = end_string tp (Suc (ps_it st)) st1"
    using string_scanned[OF tx' plain_ascii[OF s], of F] by blast
  have d1: "doc_state st1 (Some (T, Some d))" using d s1(1-3) by (simp add: doc_state_def)
  let ?s2 = "st1\<lparr>ps_name := Some (Suc (ps_it st))\<rparr>" and ?s3 = "st1\<lparr>ps_name := Some (Suc (ps_it st)), ps_it := ps_it st1 + 1\<rparr>"
  have "parse_char F QUOTE st = Some (Inr ?s2)"
    using s1(9)[OF doc_topD[OF d]] doc_top_type[OF d1] o n s1(4) by (simp add: end_string_def)
  then have 1: "json_loop F st = json_loop F ?s2"
    using loop_step[OF tx', of F ?s2 "CHR '':''" "c # r"] s1(5) by (simp add: is_ws_def)
  have d2: "doc_state ?s2 (Some (T, Some d))" using d1 by simp
  have "parse_char F (CHR '':'') ?s2 = Some (Inr ?s3)"
    using doc_topD[OF d2] doc_top_type[OF d2] o by (simp add: parse_char_def parse_colon_def)
  moreover have r3: "drop (ps_it ?s3) (ps_buf ?s3) = c # r" using drop_nth[OF s1(5)] by simp
  ultimately have 2: "json_loop F ?s2 = json_loop F ?s3"
    using loop_step[of ?s2 "CHR '':''" "c # r" F ?s3 c r] s1(5) c by simp
  have m3: "moved_on st1 ?s3" using drop_nth[OF s1(5)] by (simp add: moved_on_def)
  have "name_is ?s3 (Some s)"
    using s1(7,8) settled_stable[OF s1(8), of "ps_buf st1" "ps_it st1 + 1"] drop_nth[OF s1(5)] by (simp add: name_is_def)
  then show ?thesis
    using 1 2 d2 r3 moved_on_trans[OF s1(6) m3] by (intro exI[of _ ?s3]) simp
qed

lemma member_read:
  assumes rd: "reads F (json_format nullname g t) t" and ok: "member_ok (kind_type (spine_kind d T)) t"
    and d: "doc_state st (Some (T, Some d))" and n: "ps_name st = None" and rest: "delim rest"
    and tx: "drop (ps_it st) (ps_buf st) = member_text nullname g (kind_type (spine_kind d T)) t @ rest"
  shows "value_read F st T d t rest"
proof (cases "kind_type (spine_kind d T) = JSON_OBJECT")
  case True
  obtain s where s: "jt_name t = Some s" "list_all plain_char s" using ok True by (auto simp: member_ok_def)
  obtain c r where c: "json_format nullname g t = c # r" "\<not> is_ws c" using fmt_hd[of t nullname g] ok by (auto simp: member_ok_def)
  have "drop (ps_it st) (ps_buf st) = member_name nullname (Some s) @ c # (r @ rest)"
    using tx True s c by (simp add: member_text_def)
  from name_read[OF d True n this s(2) c(2), of F] obtain st' where st': "json_loop F st = json_loop F st'"
    "doc_state st' (Some (T, Some d))" "ps_name st' \<noteq> None" "name_is st' (Some s)"
    "drop (ps_it st') (ps_buf st') = json_format nullname g t @ rest" "moved_on st st'"
    using c(1) by auto
  have "value_read F st' T d t rest" using rd st' s(1) rest unfolding reads_def by simp
  then show ?thesis using value_read_after st'(1,6) by blast
next
  case False
  then have "jt_name t = None" "drop (ps_it st) (ps_buf st) = json_format nullname g t @ rest"
    using ok tx by (simp_all add: member_ok_def member_text_def)
  moreover have "name_is st None" using n by (simp add: name_is_def)
  ultimately show ?thesis using rd d False rest unfolding reads_def by simp
qed

text \<open>A container at the end of the spine, below a context or as the root.\<close>

fun plug :: "(('s, 'f) JTree \<times> nat) option \<Rightarrow> ('s, 'f) JTree \<Rightarrow> ('s, 'f) JTree" where
  "plug None x = x" | "plug (Some (T, d)) x = snoc_at d x T"

fun pdepth :: "(('s, 'f) JTree \<times> nat) option \<Rightarrow> nat" where
  "pdepth None = 0" | "pdepth (Some (T, d)) = Suc d"

fun ctx_ok :: "(('s, 'f) JTree \<times> nat) option \<Rightarrow> bool" where
  "ctx_ok None = True" | "ctx_ok (Some (T, d)) = spine_ok d T"

lemma plug_snoc: "ctx_ok c \<Longrightarrow> snoc_at (pdepth c) y (plug c (JT n k xs)) = plug c (JT n k (xs @ [y]))"
  by (cases c rule: pdepth.cases) (auto simp: snoc_snoc simp del: snoc_at.simps(2))

lemma plug_kind: "ctx_ok c \<Longrightarrow> spine_kind (pdepth c) (plug c (JT n k xs)) = k"
  by (cases c rule: pdepth.cases) (auto simp del: spine_kind.simps(2))

definition members_read :: "'f FloatOps \<Rightarrow> 'f ParseState \<Rightarrow> ((nat, 'f) JTree \<times> nat) option \<Rightarrow> nat option \<Rightarrow> (nat, 'f) JKind \<Rightarrow>
    (nat, 'f) JTree list \<Rightarrow> (string, 'f) JTree list \<Rightarrow> string \<Rightarrow> bool" where
  "members_read F st c n k xs ts rest = (\<exists>st' ys. json_loop F st = json_loop F st' \<and>
     doc_state st' (Some (plug c (JT n k (xs @ ys)), Some (pdepth c))) \<and> ps_name st' = None \<and>
     drop (ps_it st') (ps_buf st') = rest \<and> moved_on st st' \<and> list_all2 (stands_for st') ys ts)"

text \<open>The members after the first, each behind its comma.\<close>

lemma more_members:
  assumes "\<forall>t\<in>set ts. reads F (json_format nullname g t) t \<and> member_ok (kind_type k) t"
    and "doc_state st (Some (plug c (JT n k xs), Some (pdepth c)))" and "ctx_ok c" and "ps_name st = None" and "delim rest"
    and "drop (ps_it st) (ps_buf st) = concat (map (\<lambda>t. CHR '','' # member_text nullname g (kind_type k) t) ts) @ rest"
  shows "members_read F st c n k xs ts rest"
  using assms
proof (induction ts arbitrary: st xs)
  case Nil
  have "ps_it st \<le> length (ps_buf st)"
    using Nil.prems(5,6) by (cases "ps_it st \<le> length (ps_buf st)") (auto simp: delim_def)
  then show ?case
    using Nil.prems unfolding members_read_def by (intro exI[of _ st] exI[of _ "[]"]) (auto simp: moved_on_def)
next
  case (Cons t ts)
  let ?more = "concat (map (\<lambda>t. CHR '','' # member_text nullname g (kind_type k) t) ts) @ rest"
  let ?st = "st\<lparr>ps_it := ps_it st + 1\<rparr>"
  have tx: "drop (ps_it st) (ps_buf st) = CHR '','' # member_text nullname g (kind_type k) t @ ?more"
    using Cons.prems(6) by simp
  note n = drop_nth[OF tx]
  obtain ch r where ch: "member_text nullname g (kind_type k) t = ch # r" "\<not> is_ws ch" using member_hd[of "kind_type k" t nullname g] Cons.prems(1) by auto
  have "parse_char F (CHR '','') st = Some (Inr ?st)"
    using doc_topD[OF Cons.prems(2)] by (simp add: parse_char_def parse_comma_def)
  then have 1: "json_loop F st = json_loop F ?st"
    using loop_step[OF tx, of F ?st ch "r @ ?more"] n ch by simp
  have d': "delim ?more" using Cons.prems(5) by (cases ts) (auto simp: delim_def ends_number_def is_ws_def)
  have ds: "doc_state ?st (Some (plug c (JT n k xs), Some (pdepth c)))" using Cons.prems(2) by simp
  have "value_read F ?st (plug c (JT n k xs)) (pdepth c) t ?more"
    by (rule member_read[OF _ _ ds]) (use Cons.prems n d' plug_kind[OF Cons.prems(3), of n k xs] in simp_all)
  then obtain s2 y where s2: "json_loop F ?st = json_loop F s2" "doc_state s2 (Some (plug c (JT n k (xs @ [y])), Some (pdepth c)))"
    "ps_name s2 = None" "drop (ps_it s2) (ps_buf s2) = ?more" "moved_on ?st s2" "stands_for s2 y t"
    unfolding value_read_def plug_snoc[OF Cons.prems(3)] by blast
  have "members_read F s2 c n k (xs @ [y]) ts rest"
    by (rule Cons.IH) (use Cons.prems s2 in simp_all)
  then obtain s3 ys where s3: "json_loop F s2 = json_loop F s3" "doc_state s3 (Some (plug c (JT n k ((xs @ [y]) @ ys)), Some (pdepth c)))"
    "ps_name s3 = None" "drop (ps_it s3) (ps_buf s3) = rest" "moved_on s2 s3" "list_all2 (stands_for s3) ys ts"
    unfolding members_read_def by blast
  have "moved_on st ?st" using n by (simp add: moved_on_def)
  then have "moved_on st s3" using moved_on_trans s2(5) s3(5) by blast
  then show ?case
    using 1 s2(1) s3 stands_for_moved[OF s2(6) s3(5)] unfolding members_read_def
    by (intro exI[of _ s3] exI[of _ "y # ys"]) simp
qed

lemma all_members:
  assumes m: "\<forall>t\<in>set ts. reads F (json_format nullname g t) t \<and> member_ok (kind_type k) t"
    and d: "doc_state st (Some (plug c (JT n k []), Some (pdepth c)))" and c: "ctx_ok c" and nm: "ps_name st = None" and r: "delim rest"
    and tx: "drop (ps_it st) (ps_buf st) = join (map (member_text nullname g (kind_type k)) ts) @ rest"
  shows "members_read F st c n k [] ts rest"
proof (cases ts)
  case Nil
  then show ?thesis using more_members[of "[]" F nullname g k st c n "[]" rest] assms by simp
next
  case (Cons t us)
  let ?more = "concat (map (\<lambda>t. CHR '','' # member_text nullname g (kind_type k) t) us) @ rest"
  have d': "delim ?more" using r by (cases us) (auto simp: delim_def ends_number_def is_ws_def)
  have "value_read F st (plug c (JT n k [])) (pdepth c) t ?more"
    by (rule member_read[OF _ _ d]) (use m nm d' tx Cons plug_kind[OF c, of n k "[]"] in \<open>simp_all add: comp_def\<close>)
  then obtain s2 y where s2: "json_loop F st = json_loop F s2" "doc_state s2 (Some (plug c (JT n k ([] @ [y])), Some (pdepth c)))"
    "ps_name s2 = None" "drop (ps_it s2) (ps_buf s2) = ?more" "moved_on st s2" "stands_for s2 y t"
    unfolding value_read_def plug_snoc[OF c] by blast
  have "members_read F s2 c n k ([] @ [y]) us rest"
    by (rule more_members[of _ _ nullname g]) (use m Cons c r s2 in simp_all)
  then obtain s3 ys where s3: "json_loop F s2 = json_loop F s3" "doc_state s3 (Some (plug c (JT n k (([] @ [y]) @ ys)), Some (pdepth c)))"
    "ps_name s3 = None" "drop (ps_it s3) (ps_buf s3) = rest" "moved_on s2 s3" "list_all2 (stands_for s3) ys us"
    unfolding members_read_def by blast
  then show ?thesis
    using s2(1) moved_on_trans[OF s2(5) s3(5)] stands_for_moved[OF s2(6) s3(5)] Cons unfolding members_read_def
    by (intro exI[of _ s3] exI[of _ "y # ys"]) simp
qed

definition open_char :: "json_type \<Rightarrow> char" where
  "open_char ty = (if ty = JSON_OBJECT then CHR ''{'' else CHR ''['')"

definition close_char :: "json_type \<Rightarrow> char" where
  "close_char ty = (if ty = JSON_OBJECT then CHR ''}'' else CHR '']'')"

lemma brackets [simp]:
  "close_char ty \<noteq> NUL" "open_char ty \<noteq> NUL" "\<not> is_ws (close_char ty)" "\<not> is_ws (open_char ty)" "delim (close_char ty # r)"
  "ty = JSON_OBJECT \<or> ty = JSON_ARRAY \<Longrightarrow> parse_char F (close_char ty) st = parse_close ty st"
  "ty = JSON_OBJECT \<or> ty = JSON_ARRAY \<Longrightarrow> parse_char F (open_char ty) st = parse_open ty st"
  by (auto simp: close_char_def open_char_def is_ws_def delim_def ends_number_def parse_char_def)

lemma container_format:
  assumes "container k" and "jv_ok (JT n k ts)"
  shows "json_format nullname g (JT n k ts) =
      open_char (kind_type k) # join (map (member_text nullname g (kind_type k)) ts) @ [close_char (kind_type k)]"
    "\<forall>t\<in>set ts. member_ok (kind_type k) t"
proof -
  have "k = KObject \<or> k = KArray" using assms(1) by (cases k) (auto simp: container_def)
  moreover have "member_text nullname g JSON_OBJECT = (\<lambda>t. member_name nullname (jt_name t) @ json_format nullname g t)"
    "member_text nullname g JSON_ARRAY = json_format nullname g"
    by (auto simp: member_text_def)
  ultimately show "json_format nullname g (JT n k ts) =
      open_char (kind_type k) # join (map (member_text nullname g (kind_type k)) ts) @ [close_char (kind_type k)]"
    "\<forall>t\<in>set ts. member_ok (kind_type k) t"
    using assms(2) by (auto simp: open_char_def close_char_def member_ok_def list_all_iff)
qed

lemma container_body:
  assumes m: "\<forall>t\<in>set ts. reads F (json_format nullname g t) t \<and> member_ok (kind_type k) t" and k: "container k"
    and d: "doc_state st (Some (plug c (JT n k []), Some (pdepth c)))" and c: "ctx_ok c" and nm: "ps_name st = None"
    and tx: "drop (ps_it st) (ps_buf st) =
      join (map (member_text nullname g (kind_type k)) ts) @ close_char (kind_type k) # ch # r" and ch: "\<not> is_ws ch"
  shows "\<exists>st' ys. json_loop F st = json_loop F st' \<and>
    doc_state st' (Some (plug c (JT n k ys), case pdepth c of 0 \<Rightarrow> None | Suc d' \<Rightarrow> Some d')) \<and> ps_name st' = None \<and>
    drop (ps_it st') (ps_buf st') = ch # r \<and> moved_on st st' \<and> list_all2 (stands_for st') ys ts"
proof -
  have "members_read F st c n k [] ts (close_char (kind_type k) # ch # r)"
    by (rule all_members[OF m d c nm]) (use tx in simp_all)
  then obtain s2 ys where s2: "json_loop F st = json_loop F s2" "doc_state s2 (Some (plug c (JT n k ([] @ ys)), Some (pdepth c)))"
    "ps_name s2 = None" "drop (ps_it s2) (ps_buf s2) = close_char (kind_type k) # ch # r" "moved_on st s2" "list_all2 (stands_for s2) ys ts"
    unfolding members_read_def by blast
  let ?T = "plug c (JT n k ([] @ ys))"
  let ?s3 = "s2\<lparr>ps_it := ps_it s2 + 1, ps_top := (case pdepth c of 0 \<Rightarrow> None | Suc d' \<Rightarrow> Some (spine_addr d' 0 ?T))\<rparr>"
  note n2 = drop_nth[OF s2(4)]
  have kt: "kind_type k = JSON_OBJECT \<or> kind_type k = JSON_ARRAY" using k by (simp add: container_def)
  have "parse_char F (close_char (kind_type k)) s2 = Some (Inr ?s3)"
    using parse_close_doc[OF s2(2)] plug_kind[OF c, of n k "[] @ ys"] kt by simp
  then have "json_loop F s2 = json_loop F ?s3"
    using loop_step[OF s2(4), of F ?s3 ch r] n2 ch by simp
  moreover have "doc_state ?s3 (Some (?T, case pdepth c of 0 \<Rightarrow> None | Suc d' \<Rightarrow> Some d'))"
    by (rule doc_close[OF s2(2)]) simp_all
  moreover have mv: "moved_on s2 ?s3" using n2 by (simp add: moved_on_def)
  moreover have "list_all2 (stands_for ?s3) ys ts"
    using s2(6) stands_for_moved[OF _ mv] by (auto elim: list_all2_mono)
  ultimately show ?thesis
    using s2(1,3) n2 moved_on_trans[OF s2(5) mv] by (intro exI[of _ ?s3] exI[of _ ys]) simp
qed

lemma stands_for_node:
  assumes "list_all2 (stands_for st) ys ts" and "map_option (cstr (ps_buf st)) no = n"
    and "\<forall>off. no = Some off \<longrightarrow> settled (ps_buf st) (ps_it st) off"
    and "map_JKind (cstr (ps_buf st)) id k = k'" and "set1_JKind k = {}"
  shows "stands_for st (JT no k ys) (JT n k' ts)"
proof -
  have "map (map_JTree (cstr (ps_buf st)) id) ys = ts" "\<forall>y\<in>set ys. \<forall>off\<in>set1_JTree y. settled (ps_buf st) (ps_it st) off"
    using assms(1) by (induction ys ts rule: list_all2_induct) (auto simp: stands_for_def)
  then show ?thesis using assms(2-5) by (auto simp: stands_for_def)
qed

lemma join_close_hd:
  "\<forall>t\<in>set ts. member_ok ty t \<Longrightarrow>
   \<exists>c r. join (map (member_text nullname g ty) ts) @ close_char ty # rest = c # r \<and> \<not> is_ws c"
  using member_hd[of ty "hd ts" nullname g] by (cases ts) fastforce+

lemma reads_container:
  fixes F :: "'f FloatOps" and k :: "(nat, 'f) JKind"
  assumes m: "\<forall>t\<in>set ts. reads F (json_format nullname g t) t" and kk: "(k, k') \<in> {(KObject, KObject), (KArray, KArray)}"
    and ok: "jv_ok (JT n k' ts)"
  shows "reads F (json_format nullname g (JT n k' ts)) (JT n k' ts)"
  unfolding reads_def
proof (intro allI impI)
  fix st :: "'f ParseState" and T d rest
  assume a: "doc_state st (Some (T, Some d))" "kind_type (spine_kind d T) = JSON_OBJECT \<longrightarrow> ps_name st \<noteq> None"
    "name_is st (jt_name (JT n k' ts))" "drop (ps_it st) (ps_buf st) = json_format nullname g (JT n k' ts) @ rest" "delim rest"
  have k: "container k" "container k'" "kind_type k = kind_type k'" "map_JKind (cstr b) id k = k'" "set1_JKind k = {}" for b
    using kk by (auto simp: container_def)
  note f = container_format[OF k(2) ok]
  obtain ch r where ch: "rest = ch # r" "\<not> is_ws ch" using a(5) by (auto simp: delim_def)
  let ?body = "join (map (member_text nullname g (kind_type k)) ts) @ close_char (kind_type k) # ch # r"
  have tx: "drop (ps_it st) (ps_buf st) = open_char (kind_type k) # ?body" using a(4) f(1) k(3) ch(1) by simp
  note n1 = drop_nth[OF tx]
  let ?T = "plug (Some (T, d)) (JT (ps_name st) k [])"
  let ?s1 = "st\<lparr>ps_nodes := lay None 0 None ?T, ps_name := None, ps_it := ps_it st + 1, ps_top := Some (spine_addr (Suc d) 0 ?T)\<rparr>"
  have "parse_char F (open_char (kind_type k)) st = Some (Inr ?s1)"
    using parse_open_doc[OF a(1) k(1)] k(1) by (simp add: container_def del: spine_addr.simps)
  moreover obtain c2 r2 where "?body = c2 # r2" "\<not> is_ws c2"
    using join_close_hd[of ts "kind_type k" nullname g "ch # r"] f(2) k(3) by auto
  ultimately have 1: "json_loop F st = json_loop F ?s1"
    using loop_step[OF tx, of F ?s1 c2 r2] n1 by simp
  have d1: "doc_state ?s1 (Some (?T, Some (pdepth (Some (T, d)))))"
    unfolding plug.simps pdepth.simps by (rule doc_open[OF a(1) k(1)]) simp_all
  have c: "ctx_ok (Some (T, d))" using a(1) by (simp add: doc_state_def)
  obtain s2 ys where s2: "json_loop F ?s1 = json_loop F s2"
    "doc_state s2 (Some (plug (Some (T, d)) (JT (ps_name st) k ys), case pdepth (Some (T, d)) of 0 \<Rightarrow> None | Suc d' \<Rightarrow> Some d'))"
    "ps_name s2 = None" "drop (ps_it s2) (ps_buf s2) = ch # r" "moved_on ?s1 s2" "list_all2 (stands_for s2) ys ts"
    using container_body[OF _ k(1) d1 c, where ts = ts and F = F and nullname = nullname and g = g and ch = ch and r = r]
      m f(2) k(3) n1 ch(2) by auto
  have "moved_on st ?s1" using n1 by (simp add: moved_on_def)
  then have mv: "moved_on st s2" using moved_on_trans s2(5) by blast
  have "stands_for s2 (JT (ps_name st) k ys) (JT n k' ts)"
    using name_settled[OF a(3) mv] by (intro stands_for_node[OF s2(6)]) (simp_all add: k(4,5))
  then show "value_read F st T d (JT n k' ts) rest"
    using 1 s2(1-4) mv ch(1) unfolding value_read_def by (intro exI[of _ s2] exI[of _ "JT (ps_name st) k ys"]) simp
qed

lemma reads_value: "jv_ok t \<Longrightarrow> reads F (json_format nullname g t) t"
proof (induction t)
  case (JT n k ts)
  have m: "\<forall>t\<in>set ts. reads F (json_format nullname g t) t" using JT by auto
  show ?case
  proof (cases k)
    case (KBool b)
    then show ?thesis using JT.prems reads_literal(2,3)[of F n] by auto
  qed (use JT.prems m reads_literal(1)[of F n] reads_int[of _ F n] reads_string[of _ F n]
      reads_container[OF m, of KObject KObject n] reads_container[OF m, of KArray KArray n] in auto)
qed

text \<open>C33: json_round_trip. A JSON value that the event server formats is read back by the parser as the same value:
  for every object or array without floats, whose integers are in the range of an \<open>int\<close> (its
  smallest value excepted), whose strings and names are ASCII text without NUL characters, and whose
  member names need no escape (no quote, backslash or control character), the parser returns the nodes
  of a tree that is the value itself once the offsets into the buffer are read as C strings.\<close>

theorem json_round_trip:
  assumes "jv_ok t" and "container (jt_kind t)" and "jt_name t = None"
  shows "\<exists>x buf. JsonParser_Parse F (json_format nullname g t) = Parse_Root 0 (lay None 0 None x) buf \<and>
    map_JTree (cstr buf) id x = t"
proof -
  obtain k' ts where t: "t = JT None k' ts" using assms(3) by (cases t) auto
  have "k' = KObject \<or> k' = KArray" using assms(2) by (cases k') (auto simp: t container_def)
  then obtain k :: "(nat, 'a) JKind" where k: "container k" "kind_type k = kind_type k'" "map_JKind (cstr b) id k = k'" "set1_JKind k = {}" for b
    by (auto simp: container_def that[of KObject] that[of KArray])
  note f = container_format[OF assms(2)[unfolded t JTree.sel] assms(1)[unfolded t]]
  let ?src = "json_format nullname g t @ [NUL]"
  let ?body = "join (map (member_text nullname g (kind_type k)) ts) @ close_char (kind_type k) # NUL # []"
  have src: "?src = open_char (kind_type k) # ?body" using f(1) k(2) by (simp add: t)
  obtain c2 r2 where b: "?body = c2 # r2" "\<not> is_ws c2"
    using join_close_hd[of ts "kind_type k" nullname g "[NUL]"] f(2) k(2) by auto
  let ?s0 = "parse_start ?src 0 :: 'a ParseState"
  let ?s1 = "?s0\<lparr>ps_nodes := lay None 0 None (JT None k []), ps_name := None, ps_it := 1, ps_root := Some 0, ps_top := Some 0\<rparr>"
  have tx: "drop (ps_it ?s0) (ps_buf ?s0) = open_char (kind_type k) # ?body" using src by (simp add: parse_start_def)
  note n1 = drop_nth[OF tx]
  have d0: "doc_state ?s0 None" by (simp add: doc_state_def parse_start_def)
  have "parse_char F (open_char (kind_type k)) ?s0 = Some (Inr ?s1)"
    using parse_open_root[OF d0 k(1)] k(1) by (simp add: container_def parse_start_def)
  then have 1: "json_loop F ?s0 = json_loop F ?s1"
    using loop_step[OF tx, of F ?s1 c2 r2] n1 b by (simp add: parse_start_def)
  have d1: "doc_state ?s1 (Some (plug None (JT None k []), Some (pdepth None)))"
    unfolding plug.simps pdepth.simps by (rule doc_root[OF k(1)]) simp_all
  have "\<forall>t\<in>set ts. reads F (json_format nullname g t) t \<and> member_ok (kind_type k) t"
    using f(2) k(2) assms(1) by (auto simp: t intro: reads_value)
  from container_body[OF this k(1) d1, of NUL "[]"] obtain s2 ys where s2: "json_loop F ?s1 = json_loop F s2"
    "doc_state s2 (Some (JT None k ys, None))" "drop (ps_it s2) (ps_buf s2) = [NUL]" "list_all2 (stands_for s2) ys ts"
    using n1 by (auto simp: parse_start_def)
  have "json_loop F s2 = Parse_Root 0 (lay None 0 None (JT None k ys)) (ps_buf s2)"
    using drop_nth[OF s2(3)] s2(2) by (simp add: json_loop.simps[of F s2] json_finish_def doc_state_def)
  moreover have "stands_for s2 (JT None k ys) t"
    unfolding t by (rule stands_for_node[OF s2(4)]) (simp_all add: k(3,4))
  moreover have "skip_ws ?src 0 = Some 0"
    by (simp add: src skip_ws.simps[of _ 0])
  ultimately have "JsonParser_Parse F (json_format nullname g t) = Parse_Root 0 (lay None 0 None (JT None k ys)) (ps_buf s2)"
    and "map_JTree (cstr (ps_buf s2)) id (JT None k ys) = t"
    using 1 s2(1) by (simp_all add: JsonParser_Parse_def json_parse_def stands_for_def del: lay.simps json_format.simps JTree.map)
  then show ?thesis by blast
qed

definition example_value :: "(string, real) JTree" where
  "example_value = JT None KObject
     [JT (Some ''id'') (KInt (- 42)) [], JT (Some ''msg'') (KString [QUOTE, NEWLINE, CHR ''x'', CHR 0x01]) [],
      JT (Some ''list'') KArray [JT None (KBool 1) [], JT None KNull []]]"

theorem json_round_trip_witness:
  "\<exists>x buf. JsonParser_Parse exact_ops (json_format [] (\<lambda>x. ''0'') example_value) = Parse_Root 0 (lay None 0 None x) buf \<and>
    map_JTree (cstr buf) id x = example_value"
proof (rule json_round_trip)
  show "jv_ok example_value"
    by (simp add: example_value_def plain_char_def ascii_def)
  show "container (jt_kind example_value)" "jt_name example_value = None"
    by (simp_all add: example_value_def container_def)
qed

text \<open>
  Outside of these bounds the round trip fails: a name with a quote is printed as it is and is read
  as the end of the name; the smallest integer overflows while it is read; and a name without a
  value is kept for the next value, whichever container that is in.
\<close>

definition no_floats :: "unit FloatOps" where
  "no_floats = \<lparr>f_of_int = (\<lambda>_. ()), f_add = (\<lambda>_ _. ()), f_mul = (\<lambda>_ _. ()), f_div = (\<lambda>_ _. ()), f_tenth = ()\<rparr>"

lemma quote_in_name_not_escaped:
  "json_format [] g (JT None KObject [JT (Some [CHR ''a'', QUOTE]) KNull []]) =
     ''{'' @ [QUOTE, CHR ''a'', QUOTE, QUOTE] @ '':null}''"
  "JsonParser_Parse no_floats (''{'' @ [QUOTE, CHR ''a'', QUOTE, QUOTE] @ '':null}'') =
     Parse_Error 11 ''Not all objects/arrays have been properly closed'' 1"
  by (simp add: member_name_def) code_simp

lemma smallest_int_overflows: "JsonParser_Parse no_floats ''[-2147483648]'' = Parse_Undefined"
  by code_simp

lemma name_kept_for_next_value:
  "case JsonParser_Parse no_floats (''[{'' @ [QUOTE, CHR ''a'', QUOTE] @ ''},1]'') of
     Parse_Root r nodes buf \<Rightarrow> j_type (nodes ! 2) = JSON_INT \<and> j_parent (nodes ! 2) = Some 0 \<and> j_name (nodes ! 2) = Some 3
   | _ \<Rightarrow> False"
  by code_simp

lemma first_newline_not_counted:
  "JsonParser_Parse no_floats [NEWLINE, CHR ''x''] = Parse_Error 1 ''Unexpected character'' 1"
  "JsonParser_Parse no_floats [CHR '' '', NEWLINE, CHR ''x''] = Parse_Error 2 ''Unexpected character'' 2"
  by code_simp+
end
