(* ===== verification/Assistant_Math.thy ===== *)
theory Assistant_Math
  imports Guiding_Stats Json_Format
begin

text \<open>
  The measurements and recommendations of the guiding assistant, \<open>src/guiding_assistant_math.cpp\<close>: the running
  statistics over unguided samples, the smallest move from the quietest window of a long run, the ranges of
  exposures, binning and backlash, and the plan by which a client applies them.  The scan of the windows is a loop
  that need not end; not returning is \<^term>\<open>None\<close>.
\<close>

section \<open>The samples\<close>

record Sample =
  s_ra :: real
  s_dec :: real
  s_time :: real
  wallSecs :: int
  s_snr :: real
  s_mass :: real

record Accumulator =
  m_hpfRAStats :: DescriptiveStats
  m_lpfRAStats :: DescriptiveStats
  m_hpfDecStats :: DescriptiveStats
  m_decAxisStats :: AxisStats
  m_raAxisStats :: AxisStats
  m_raHPF :: HighPassFilter
  m_raLPF :: LowPassFilter
  m_decHPF :: HighPassFilter
  m_axisTimebase :: int
  m_startRa :: real
  m_lastRa :: real
  m_lastTime :: real
  m_maxRateRA :: real
  m_sumSNR :: real
  m_sumMass :: real

definition acc_Reset :: "real \<Rightarrow> Accumulator \<Rightarrow> Accumulator" where
  "acc_Reset exposureSecs a =
     (let lp_cutoff = max 6 (3 * exposureSecs); hp_cutoff = 1
      in a\<lparr>m_hpfRAStats := ds_ClearAll, m_lpfRAStats := ds_ClearAll, m_hpfDecStats := ds_ClearAll,
           m_decAxisStats := as_ClearAll (m_decAxisStats a), m_raAxisStats := as_ClearAll (m_raAxisStats a),
           m_raHPF := hpf_new hp_cutoff exposureSecs, m_raLPF := lpf_new lp_cutoff exposureSecs,
           m_decHPF := hpf_new hp_cutoff exposureSecs, m_axisTimebase := 0, m_startRa := 0, m_lastRa := 0, m_lastTime := 0,
           m_maxRateRA := 0, m_sumSNR := 0, m_sumMass := 0\<rparr>)"

definition AddSample :: "Sample \<Rightarrow> Accumulator \<Rightarrow> Accumulator" where
  "AddSample s a =
     (let raHPF = hpf_AddValue (m_raHPF a) (s_ra s);
          raLPF = lpf_AddValue (m_raLPF a) (s_ra s);
          newRAlpf = lpfResult raLPF;
          prevRAlpf = (if ds_GetCount (m_lpfRAStats a) = 0 then newRAlpf else lpfResult (m_raLPF a));
          lpfRAStats = ds_AddValue (m_lpfRAStats a) newRAlpf;
          decHPF = hpf_AddValue (m_decHPF a) (s_dec s);
          base = (if GetCount (m_decAxisStats a) = 0 then wallSecs s else m_axisTimebase a);
          first = (ds_GetCount lpfRAStats = 1);
          dt = s_time s - m_lastTime a;
          raRate = \<bar>newRAlpf - prevRAlpf\<bar> / dt
      in a\<lparr>m_hpfRAStats := ds_AddValue (m_hpfRAStats a) (hpfResult raHPF), m_raHPF := raHPF, m_raLPF := raLPF,
           m_lpfRAStats := lpfRAStats, m_decHPF := decHPF,
           m_hpfDecStats := ds_AddValue (m_hpfDecStats a) (hpfResult decHPF), m_axisTimebase := base,
           m_decAxisStats := AddGuideInfo (m_decAxisStats a) (of_int (wallSecs s - base)) (s_dec s) 0,
           m_raAxisStats := AddGuideInfo (m_raAxisStats a) (of_int (wallSecs s - base)) (s_ra s) 0,
           m_startRa := (if first then s_ra s else m_startRa a),
           m_maxRateRA := (if first then 0 else if dt > 0.0001 \<and> raRate > m_maxRateRA a then raRate else m_maxRateRA a),
           m_lastTime := s_time s, m_lastRa := s_ra s, m_sumSNR := m_sumSNR a + s_snr s, m_sumMass := m_sumMass a + s_mass s\<rparr>)"

definition acc_Count :: "Accumulator \<Rightarrow> nat" where "acc_Count a = ds_GetCount (m_lpfRAStats a)"

definition RaHighFreqRms :: "Accumulator \<Rightarrow> real" where "RaHighFreqRms a = ds_GetSigma (m_hpfRAStats a)"

definition DecHighFreqRms :: "Accumulator \<Rightarrow> real" where "DecHighFreqRms a = ds_GetSigma (m_hpfDecStats a)"

definition TotalHighFreqRms :: "Accumulator \<Rightarrow> real" where "TotalHighFreqRms a = hypot (RaHighFreqRms a) (DecHighFreqRms a)"

definition RaPeak :: "Accumulator \<Rightarrow> real" where "RaPeak a = GetMaxDelta (m_raAxisStats a)"

definition DecPeak :: "Accumulator \<Rightarrow> real" where "DecPeak a = GetMaxDelta (m_decAxisStats a)"

definition RaPeakToPeak :: "Accumulator \<Rightarrow> real" where
  "RaPeakToPeak a = (if acc_Count a = 0 then 0 else ds_GetMaximum (m_lpfRAStats a) - ds_GetMinimum (m_lpfRAStats a))"

definition RaDriftPxPerMin :: "real \<Rightarrow> Accumulator \<Rightarrow> real" where
  "RaDriftPxPerMin elapsedSecs a =
     (if acc_Count a = 0 \<or> elapsedSecs \<le> 0 then 0 else (m_lastRa a - m_startRa a) / elapsedSecs * 60)"

definition MaxRaRatePxPerSec :: "Accumulator \<Rightarrow> real" where "MaxRaRatePxPerSec a = m_maxRateRA a"

text \<open>A slope that is not finite counts as zero.\<close>

definition FiniteOrZero :: "real option \<Rightarrow> real" where
  "FiniteOrZero v = (case v of None \<Rightarrow> 0 | Some x \<Rightarrow> x)"

definition DecDriftPxPerMin :: "Accumulator \<Rightarrow> real" where
  "DecDriftPxPerMin a =
     (if GetCount (m_decAxisStats a) < 2 then 0
      else FiniteOrZero (map_option (\<lambda>slope. 60 * slope) (lf_Slope (GetLinearFitResults (m_decAxisStats a)))))"

definition AvgSnr :: "Accumulator \<Rightarrow> real" where
  "AvgSnr a = (let n = acc_Count a in if n \<noteq> 0 then m_sumSNR a / real n else 0)"

definition AvgMass :: "Accumulator \<Rightarrow> real" where
  "AvgMass a = (let n = acc_Count a in if n \<noteq> 0 then m_sumMass a / real n else 0)"

definition PolarAlignErrorArcmin :: "real \<Rightarrow> real \<Rightarrow> bool \<Rightarrow> real \<Rightarrow> real" where
  "PolarAlignErrorArcmin decDrift pxScale decKnown decRadians =
     (let cosdec = (if decKnown then cos decRadians else 1)
      in FiniteOrZero (qdiv (3.8197 * \<bar>decDrift\<bar> * pxScale) cosdec))"

section \<open>The smallest moves\<close>

record MinMoveInputs =
  mi_pxScale :: real
  mi_multiStar :: bool
  mi_hpEncoders :: bool
  mi_smartDefaultDecMinMove :: real

record MinMoveRecs =
  mr_ra :: real
  mr_dec :: real
  seeingBased :: bool
  seeingEstimatePx :: real

text \<open>\<open>GetEntry\<close> takes an unsigned index; a negative one is out of range.\<close>

definition entry_at :: "AxisStats \<Rightarrow> int \<Rightarrow> StarDisplacement" where
  "entry_at a inx = (if inx < 0 then StarDisplacement_new 0 0 else GetEntry a (nat inx))"

text \<open>The estimate of one window: the scatter, corrected for drift where that makes it smaller.\<close>

definition window_sigma :: "AxisStats \<Rightarrow> real" where
  "window_sigma a =
     (let simpleSigma = GetSigma a
      in case lf_Sigma (GetLinearFitResults a) of
           Some correctedRMS \<Rightarrow> (if correctedRMS < simpleSigma then correctedRMS else simpleSigma)
         | None \<Rightarrow> simpleSigma)"

text \<open>The way back to the start of the next window.\<close>

partial_function (option) step_back :: "AxisStats \<Rightarrow> real \<Rightarrow> int \<Rightarrow> int option" where
  "step_back a targetTime inx =
     (if DeltaTime (entry_at a inx) > targetTime then step_back a targetTime (inx - 1) else Some inx)"

definition window_ends :: "int \<Rightarrow> real \<Rightarrow> int \<Rightarrow> real \<Rightarrow> bool" where
  "window_ends lastInx tStart inx t \<longleftrightarrow> t - tStart \<ge> 120 \<or> (inx = lastInx \<and> t - tStart \<ge> 0.8 * 120)"

partial_function (option) window_scan :: "AxisStats \<Rightarrow> int \<Rightarrow> real \<Rightarrow> int \<Rightarrow> AxisStats \<Rightarrow> real \<Rightarrow> real option" where
  "window_scan a lastInx tStart inx decVals best =
     (let val = entry_at a inx; vals = AddGuideInfo decVals (DeltaTime val) (StarPos val) 0
      in if window_ends lastInx tStart inx (DeltaTime val)
         then let best1 = (if GetCount vals > 1 then min best (window_sigma vals) else best)
              in do { inx1 \<leftarrow> step_back a (DeltaTime val - 60) inx;
                      if inx1 > lastInx then Some best1
                      else window_scan a lastInx (DeltaTime (entry_at a inx1)) inx1 (as_ClearAll vals) best1 }
         else if inx + 1 > lastInx then Some best
         else window_scan a lastInx tStart (inx + 1) vals best)"

definition seeing_estimate :: "AxisStats \<Rightarrow> real option" where
  "seeing_estimate a =
     (let lastInx = sint (GetCount a) - 1; tStart = DeltaTime (GetEntry a 0)
      in if DeltaTime (GetLastEntry a) - tStart > 1.2 * 120 then window_scan a lastInx tStart 0 AxisStats_new 1000
         else Some (if GetCount a > 1 then window_sigma a else 1000))"

definition c_round :: "real \<Rightarrow> int" where
  "c_round x = (if x \<ge> 0 then \<lfloor>x + 1 / 2\<rfloor> else - \<lfloor>- x + 1 / 2\<rfloor>)"

definition min_move_recs :: "MinMoveInputs \<Rightarrow> real \<Rightarrow> MinMoveRecs" where
  "min_move_recs mi estimate =
     (let multiplier_dec = (if mi_pxScale mi < 1.5 then 1.28 else 1.65);
          bestEstimate = (if mi_multiStar mi then estimate * 0.9 else estimate);
          minMoveFloor = (if mi_multiStar mi then 0.05 else 0.1);
          multiplier_ra = (if mi_hpEncoders mi then 1 else 0.65);
          roundUpEst = max (of_int (c_round (bestEstimate * multiplier_dec / 0.05 + 0.5)) * 0.05) 0.05;
          (decm, based) = (if mi_pxScale mi * roundUpEst \<le> 1.25 then (roundUpEst, True) else (mi_smartDefaultDecMinMove mi, False))
      in \<lparr>mr_ra = max minMoveFloor (decm * multiplier_ra), mr_dec = decm, seeingBased = based, seeingEstimatePx = bestEstimate\<rparr>)"

definition ComputeMinMoveRecs :: "AxisStats \<Rightarrow> MinMoveInputs \<Rightarrow> MinMoveRecs option" where
  "ComputeMinMoveRecs decAxis mi = map_option (min_move_recs mi) (seeing_estimate decAxis)"

section \<open>The other recommendations\<close>

record ExposureRange =
  exp_min :: real
  exp_max :: real

definition RecommendExposure :: "real \<Rightarrow> real \<Rightarrow> bool \<Rightarrow> ExposureRange" where
  "RecommendExposure raHighFreqRms maxRate hpEncoders =
     (let ideal_min = (if hpEncoders then 4 else 2); ideal_max = (if hpEncoders then 8 else 4)
      in if hpEncoders then \<lparr>exp_min = ideal_min, exp_max = ideal_max\<rparr>
         else let drift_exp = (if maxRate > 0 then of_int \<lceil>(1 * raHighFreqRms / maxRate) / 0.5\<rceil> * 0.5 else ideal_min);
                  lo = max 1 (min drift_exp ideal_min)
              in \<lparr>exp_min = lo,
                  exp_max = (if drift_exp > lo then (if drift_exp < ideal_max then max drift_exp (lo + 2) else ideal_max) else lo + 2)\<rparr>)"

definition DriftLimitingExposure :: "real \<Rightarrow> real \<Rightarrow> real" where
  "DriftLimitingExposure raMinMove maxRate = (if maxRate > 0 then raMinMove / maxRate else 0)"

datatype BacklashAdvice = BA_Encoders | BA_Small | BA_Compensate | BA_TooLarge

record BacklashRec =
  br_advice :: BacklashAdvice
  recommendedMs :: int
  applicable :: bool

definition MAX_BACKLASH_COMP_MS :: int where "MAX_BACKLASH_COMP_MS = 3000"

definition RecommendBacklash :: "int \<Rightarrow> bool \<Rightarrow> BacklashRec" where
  "RecommendBacklash backlashMs hpEncoders =
     (let ms = (if backlashMs > 0 then max (c_quot backlashMs 10 * 10) 10 else 0);
          largeBL = (backlashMs > MAX_BACKLASH_COMP_MS);
          advice = (if hpEncoders then BA_Encoders else if backlashMs < 100 then BA_Small
                    else if \<not> largeBL then BA_Compensate else BA_TooLarge)
      in \<lparr>br_advice = advice, recommendedMs = ms, applicable = (advice = BA_Compensate \<and> ms > 100)\<rparr>)"

datatype DecDirection = DD_North | DD_South

definition SingleDirectionDecGuideMode :: "real \<Rightarrow> DecDirection" where
  "SingleDirectionDecGuideMode drift = (if drift \<ge> 0 then DD_South else DD_North)"

record LikelyBacklashInputs =
  lb_bltCompleted :: bool
  lb_bltMs :: int
  lb_compPulseMs :: int
  lb_decModeAutoOrNone :: bool
  lb_calHasDecSteps :: bool
  lb_calNorthDist :: real
  lb_calSouthDist :: real

definition LikelyBacklash :: "LikelyBacklashInputs \<Rightarrow> bool" where
  "LikelyBacklash i \<longleftrightarrow>
     (if lb_bltCompleted i \<and> lb_bltMs i > MAX_BACKLASH_COMP_MS then True
      else if lb_compPulseMs i > MAX_BACKLASH_COMP_MS then True
      else if \<not> lb_decModeAutoOrNone i then True
      else if lb_calHasDecSteps i then lb_calSouthDist i \<le> 0.1 * lb_calNorthDist i else False)"

datatype PaAdvice = PA_None | PA_Improve | PA_UseDriftAlign

definition RecommendPolarAlignment :: "real \<Rightarrow> bool \<Rightarrow> PaAdvice" where
  "RecommendPolarAlignment errorArcmin likelyBacklash =
     (if errorArcmin \<le> 5 then PA_None
      else if likelyBacklash then (if errorArcmin > 10 then PA_UseDriftAlign else PA_None)
      else if errorArcmin < 10 then PA_Improve else PA_UseDriftAlign)"

definition RecommendLowpass2ForDec :: "bool \<Rightarrow> bool \<Rightarrow> string \<Rightarrow> bool" where
  "RecommendLowpass2ForDec hpEncoders smallBacklash decAlgoClass \<longleftrightarrow> (hpEncoders \<or> smallBacklash) \<and> decAlgoClass = ''ResistSwitch''"

fun first_binning :: "real \<Rightarrow> real \<Rightarrow> int list \<Rightarrow> int \<Rightarrow> int" where
  "first_binning scale target [] maxBinning = maxBinning"
| "first_binning scale target (b # bs) maxBinning = (if scale * of_int b \<ge> target then b else first_binning scale target bs maxBinning)"

definition RecommendedBinning :: "real \<Rightarrow> int \<Rightarrow> real \<Rightarrow> int list \<Rightarrow> int \<Rightarrow> int" where
  "RecommendedBinning currScale currBinning target choices maxBinning = first_binning (currScale / of_int currBinning) target choices maxBinning"

record RecommendationInputs =
  ri_pxScale :: real
  ri_hpEncoders :: bool
  ri_multiStar :: bool
  ri_smartDefaultDecMinMove :: real
  ri_raHighFreqRms :: real
  ri_maxRaRate :: real
  ri_decDrift :: real
  ri_polarAlignErrorArcmin :: real
  ri_avgSnr :: real
  ri_starHfd :: real
  ri_currBinning :: int
  ri_maxBinning :: int
  ri_binningChoices :: "int list"
  ri_suspectCalibration :: bool
  ri_raAlgoHasMinMove :: bool
  ri_decAlgoHasMinMove :: bool
  ri_decAlgoClass :: string
  ri_bltCompleted :: bool
  ri_backlashMs :: int
  ri_likely :: LikelyBacklashInputs

record Recommendations =
  rc_minMove :: MinMoveRecs
  rc_exposure :: ExposureRange
  rc_driftLimitingExposure :: real
  rc_recommendBinning :: bool
  rc_binning :: int
  rc_recalibrate :: bool
  rc_brighterStar :: bool
  rc_pa :: PaAdvice
  rc_improveFocus :: bool
  rc_raMinMove :: bool
  rc_decMinMove :: bool
  rc_hasBacklash :: bool
  rc_backlash :: BacklashRec
  rc_singleDirection :: DecDirection
  rc_decAlgoLowpass2 :: bool

definition Recommend :: "AxisStats \<Rightarrow> RecommendationInputs \<Rightarrow> Recommendations option" where
  "Recommend decAxis i =
     do { mm \<leftarrow> ComputeMinMoveRecs decAxis \<lparr>mi_pxScale = ri_pxScale i, mi_multiStar = ri_multiStar i, mi_hpEncoders = ri_hpEncoders i,
                  mi_smartDefaultDecMinMove = ri_smartDefaultDecMinMove i\<rparr>;
          let bin = (ri_pxScale i < 0.5 \<and> ri_currBinning i < ri_maxBinning i);
          let likely = (ri_likely i)\<lparr>lb_bltCompleted := ri_bltCompleted i, lb_bltMs := ri_backlashMs i\<rparr>;
          let bl = RecommendBacklash (if ri_bltCompleted i then ri_backlashMs i else 0) (ri_hpEncoders i);
          let small = (ri_bltCompleted i \<and> (br_advice bl = BA_Small \<or> br_advice bl = BA_Encoders));
          Some \<lparr>rc_minMove = mm, rc_exposure = RecommendExposure (ri_raHighFreqRms i) (ri_maxRaRate i) (ri_hpEncoders i),
            rc_driftLimitingExposure = DriftLimitingExposure (mr_ra mm) (ri_maxRaRate i), rc_recommendBinning = bin,
            rc_binning = (if bin then RecommendedBinning (ri_pxScale i) (ri_currBinning i) 0.5 (ri_binningChoices i) (ri_maxBinning i)
                          else ri_currBinning i),
            rc_recalibrate = ri_suspectCalibration i, rc_brighterStar = (ri_avgSnr i < 10),
            rc_pa = RecommendPolarAlignment (ri_polarAlignErrorArcmin i) (LikelyBacklash likely),
            rc_improveFocus = (ri_pxScale i > 1 \<and> ri_starHfd i > 4.5), rc_raMinMove = ri_raAlgoHasMinMove i,
            rc_decMinMove = ri_decAlgoHasMinMove i, rc_hasBacklash = ri_bltCompleted i, rc_backlash = bl,
            rc_singleDirection = SingleDirectionDecGuideMode (ri_decDrift i),
            rc_decAlgoLowpass2 = RecommendLowpass2ForDec (ri_hpEncoders i) small (ri_decAlgoClass i)\<rparr> }"

section \<open>Results of the backlash test, and the plan\<close>

datatype BacklashOutcome = BO_NotRun | BO_Valid | BO_Impaired | BO_Aborted

fun BacklashOutcomeName :: "BacklashOutcome \<Rightarrow> string" where
  "BacklashOutcomeName BO_Valid = ''valid''"
| "BacklashOutcomeName BO_Impaired = ''impaired''"
| "BacklashOutcomeName BO_Aborted = ''aborted''"
| "BacklashOutcomeName BO_NotRun = ''''"

definition BacklashOutcomeUsable :: "BacklashOutcome \<Rightarrow> bool" where
  "BacklashOutcomeUsable o1 \<longleftrightarrow> o1 = BO_Valid \<or> o1 = BO_Impaired"

definition BacklashIsLowerBound :: "BacklashOutcome \<Rightarrow> int \<Rightarrow> bool" where
  "BacklashIsLowerBound o1 ms \<longleftrightarrow> o1 = BO_Impaired \<or> (o1 = BO_Valid \<and> ms \<ge> 5000)"

text \<open>The text for the logs; \<open>fmt\<close> prints a double with a number of decimals, as \<open>snprintf\<close> does.\<close>

definition BacklashLogText :: "(nat \<Rightarrow> real \<Rightarrow> string) \<Rightarrow> BacklashOutcome \<Rightarrow> int \<Rightarrow> real \<Rightarrow> real \<Rightarrow> real \<Rightarrow> string" where
  "BacklashLogText fmt outcome ms sigmaMs gearAngle gearAngleSigma =
     (if \<not> BacklashOutcomeUsable outcome then ''''
      else let preamble = (if BacklashIsLowerBound outcome ms then ''>='' else '''')
           in take 159 (if outcome = BO_Valid
                then preamble @ '' '' @ fmt_d (max 0 ms) @ ''  +/-  '' @ fmt 0 sigmaMs @ '' ms ('' @ fmt 1 (max 0 gearAngle) @
                     ''  +/-  '' @ fmt 1 gearAngleSigma @ '' arc-sec)''
                else preamble @ '' '' @ fmt_d (max 0 ms) @ ''  +/-  ms (test impaired)''))"

datatype ApplyItem = AI_Exposure | AI_MinMoveRa | AI_DecAlgorithm | AI_MinMoveDec | AI_DecBacklash | AI_DecGuideMode

definition APPLY_ORDER :: "ApplyItem list" where
  "APPLY_ORDER = [AI_Exposure, AI_MinMoveRa, AI_DecAlgorithm, AI_MinMoveDec, AI_DecBacklash, AI_DecGuideMode]"

fun ApplyItemName :: "ApplyItem \<Rightarrow> string" where
  "ApplyItemName AI_Exposure = ''exposure''"
| "ApplyItemName AI_MinMoveRa = ''min_move_ra''"
| "ApplyItemName AI_DecAlgorithm = ''dec_algorithm''"
| "ApplyItemName AI_MinMoveDec = ''min_move_dec''"
| "ApplyItemName AI_DecBacklash = ''dec_backlash''"
| "ApplyItemName AI_DecGuideMode = ''dec_guide_mode''"

text \<open>The index of a name in the order, its length when it is not there.\<close>

fun name_index :: "string \<Rightarrow> ApplyItem list \<Rightarrow> nat" where
  "name_index name [] = 0"
| "name_index name (x # xs) = (if name \<noteq> ApplyItemName x then Suc (name_index name xs) else 0)"

fun mark_wanted :: "string list \<Rightarrow> bool list \<Rightarrow> string + bool list" where
  "mark_wanted [] wanted = Inr wanted"
| "mark_wanted (name # names) wanted =
     (let i = name_index name APPLY_ORDER
      in if i = length APPLY_ORDER then Inl name else mark_wanted names (wanted[i := True]))"

text \<open>The result, the plan, and the unknown name (unchanged when there is none).\<close>

definition PlanApply :: "string list \<Rightarrow> string \<Rightarrow> bool \<times> ApplyItem list \<times> string" where
  "PlanApply which badName =
     (case mark_wanted which (replicate (length APPLY_ORDER) False) of
        Inl name \<Rightarrow> (False, [], name)
      | Inr wanted \<Rightarrow> let plan = map fst (filter snd (zip APPLY_ORDER wanted)) in (plan \<noteq> [], plan, badName))"

fun join_names :: "bool \<Rightarrow> ApplyItem list \<Rightarrow> string" where
  "join_names first [] = ''''"
| "join_names first (x # xs) = (if first then '''' else '', '') @ ApplyItemName x @ join_names False xs"

definition ApplyFailureMessage :: "ApplyItem \<Rightarrow> string \<Rightarrow> ApplyItem list \<Rightarrow> string" where
  "ApplyFailureMessage failed reason applied =
     (let msg = ApplyItemName failed @ '': '' @ reason
      in if applied = [] then msg @ ''; nothing was applied'' else msg @ ''; already applied and saved: '' @ join_names True applied)"

record SessionStamp =
  profileId :: int
  gearConnects :: "32 word"
  mountId :: int
  cameraId :: int
  ss_mountConnected :: bool
  ss_cameraConnected :: bool

definition SameSession :: "SessionStamp \<Rightarrow> SessionStamp \<Rightarrow> string option" where
  "SameSession run now =
     (if profileId now \<noteq> profileId run then Some ''the profile has changed''
      else if \<not> ss_mountConnected now \<or> \<not> ss_cameraConnected now then Some ''the camera or mount is disconnected''
      else if mountId now \<noteq> mountId run \<or> cameraId now \<noteq> cameraId run \<or> gearConnects now \<noteq> gearConnects run
      then Some ''the camera or mount was reconnected'' else None)"

section \<open>The scan of the windows\<close>

abbreviation entry_time :: "AxisStats \<Rightarrow> int \<Rightarrow> real" where
  "entry_time a i \<equiv> DeltaTime (entry_at a i)"

definition times_sorted :: "AxisStats \<Rightarrow> int \<Rightarrow> bool" where
  "times_sorted a lastInx \<longleftrightarrow> (\<forall>i j. 0 \<le> i \<longrightarrow> i \<le> j \<longrightarrow> j \<le> lastInx \<longrightarrow> entry_time a i \<le> entry_time a j)"

lemma times_sortedD: "times_sorted a l \<Longrightarrow> 0 \<le> i \<Longrightarrow> i \<le> j \<Longrightarrow> j \<le> l \<Longrightarrow> entry_time a i \<le> entry_time a j"
  by (simp add: times_sorted_def)

text \<open>Going back ends at the last entry that is early enough, when there is one.\<close>

lemma step_back_finds:
  assumes "j \<le> i" "entry_time a j \<le> target"
  shows "\<exists>k. step_back a target i = Some k \<and> j \<le> k \<and> k \<le> i \<and> entry_time a k \<le> target \<and>
    (\<forall>m. k < m \<longrightarrow> m \<le> i \<longrightarrow> entry_time a m > target)"
  using assms(1)
proof (induction "nat (i - j)" arbitrary: i)
  case 0
  then have "i = j" by simp
  then show ?case using assms(2) by (intro exI[of _ j]) (simp add: step_back.simps)
next
  case (Suc n)
  show ?case
  proof (cases "entry_time a i > target")
    case True
    then have "j \<le> i - 1" "n = nat (i - 1 - j)" using Suc.hyps(2) by simp_all
    then obtain k where k: "step_back a target (i - 1) = Some k" "j \<le> k" "k \<le> i - 1" "entry_time a k \<le> target"
      "\<forall>m. k < m \<longrightarrow> m \<le> i - 1 \<longrightarrow> entry_time a m > target" using Suc.hyps(1)[of "i - 1"] by auto
    have "\<forall>m. k < m \<longrightarrow> m \<le> i \<longrightarrow> entry_time a m > target"
    proof (intro allI impI)
      fix m assume "k < m" "m \<le> i"
      then show "entry_time a m > target" using True k(5) by (cases "m = i") auto
    qed
    then show ?thesis using True k by (intro exI[of _ k]) (subst step_back.simps, simp)
  next
    case False
    then show ?thesis using Suc.prems by (intro exI[of _ i]) (simp add: step_back.simps)
  qed
qed

lemma window_sigma_nonneg: "0 \<le> GetSigma a" "0 \<le> window_sigma a"
proof -
  show s: "0 \<le> GetSigma a" by (simp add: GetSigma_def Let_def)
  have "0 \<le> snd (fit_sigma_loop n m b es f (u, v))" if "0 \<le> v" for n m b es f u v
    using that by (induction n m b es f "(u, v)" arbitrary: u v rule: fit_sigma_loop.induct) (simp_all add: Let_def)
  then have "lf_Sigma (GetLinearFitResults a) = Some c \<Longrightarrow> 0 \<le> c" for c
    by (auto simp: GetLinearFitResults_def Let_def split: if_splits option.splits)
  then show "0 \<le> window_sigma a" using s by (auto simp: window_sigma_def Let_def split: option.splits)
qed

text \<open>Between samples less than 36 seconds apart every window ends at a later sample than the one before it.\<close>

lemma window_scan_returns:
  assumes "times_sorted a l" "\<And>i. 0 \<le> i \<Longrightarrow> i < l \<Longrightarrow> entry_time a (i + 1) - entry_time a i < 36"
    and "0 \<le> s" "s \<le> inx" "inx \<le> l" "0 \<le> K" "K \<le> l" "entry_time a K - entry_time a s < 96"
  shows "\<exists>b. window_scan a l (entry_time a s) inx dv best = Some b \<and> b \<le> best \<and> (0 \<le> best \<longrightarrow> 0 \<le> b)"
  using assms(3-8)
proof (induction "nat ((l - K) * (l + 2) + (l - inx))" arbitrary: s inx K dv best rule: less_induct)
  case less
  let ?val = "entry_at a inx"
  let ?vals = "AddGuideInfo dv (DeltaTime ?val) (StarPos ?val) 0"
  show ?case
  proof (cases "window_ends l (entry_time a s) inx (entry_time a inx)")
    case True
    then have far: "entry_time a inx - entry_time a s \<ge> 96" by (auto simp: window_ends_def)
    then have kin: "K < inx" using less.prems times_sortedD[OF assms(1), of inx K] by (cases "inx \<le> K") auto
    let ?best = "if GetCount ?vals > 1 then min best (window_sigma ?vals) else best"
    obtain k where k: "step_back a (entry_time a inx - 60) inx = Some k" "s \<le> k" "k \<le> inx" "entry_time a k \<le> entry_time a inx - 60"
      "\<forall>m. k < m \<longrightarrow> m \<le> inx \<longrightarrow> entry_time a m > entry_time a inx - 60"
      using step_back_finds[of s inx a "entry_time a inx - 60"] less.prems(2) far by auto
    have "k \<noteq> inx" using k(4) by auto
    then have kl: "k < inx" using k(3) by simp
    then have "entry_time a (k + 1) > entry_time a inx - 60" using k(5) by simp
    moreover have "entry_time a (k + 1) - entry_time a k < 36" using assms(2)[of k] less.prems k(2) kl by simp
    ultimately have near: "entry_time a inx - entry_time a k < 96" by linarith
    have "(l - inx) * (l + 2) + (l + 2) \<le> (l - K) * (l + 2)"
      using mult_right_mono[of "l - inx + 1" "l - K" "l + 2"] kin less.prems by (simp add: algebra_simps)
    then have m: "(l - inx) * (l + 2) + (l - k) < (l - K) * (l + 2) + (l - inx)" using less.prems k(2) kl by linarith
    have "0 \<le> (l - inx) * (l + 2)" using less.prems by simp
    then have "nat ((l - inx) * (l + 2) + (l - k)) < nat ((l - K) * (l + 2) + (l - inx))" using m less.prems kl by linarith
    from less.hyps[OF this, of k "as_ClearAll ?vals" ?best]
    obtain b where "window_scan a l (entry_time a k) k (as_ClearAll ?vals) ?best = Some b" "b \<le> ?best" "0 \<le> ?best \<longrightarrow> 0 \<le> b"
      using less.prems k(2) kl near by auto
    moreover have "?best \<le> best" "0 \<le> best \<longrightarrow> 0 \<le> ?best" using window_sigma_nonneg(2) by auto
    ultimately show ?thesis using True k(1) kl less.prems by (subst window_scan.simps) (auto simp: Let_def)
  next
    case False
    show ?thesis
    proof (cases "inx + 1 > l")
      case True
      then show ?thesis using False by (subst window_scan.simps) (simp add: Let_def)
    next
      case more: False
      have "0 \<le> (l - K) * (l + 2)" using less.prems by simp
      then have "0 < (l - K) * (l + 2) + (l - inx)" using more less.prems by linarith
      then have "nat ((l - K) * (l + 2) + (l - (inx + 1))) < nat ((l - K) * (l + 2) + (l - inx))" using more less.prems by simp
      from less.hyps[OF this, of s ?vals best] show ?thesis using False more less.prems by (subst window_scan.simps) (simp add: Let_def)
    qed
  qed
qed

text \<open>Before a gap of two minutes the scan goes round for ever.\<close>

lemma window_scan_hangs:
  assumes "times_sorted a l" "0 < j" "j \<le> l" "entry_time a j - entry_time a (j - 1) \<ge> 120"
    and "0 \<le> s" "s < j" "s \<le> inx" "inx \<le> j"
  shows "window_scan a l (entry_time a s) inx dv best = None"
proof (rule ccontr)
  let ?Q = "\<lambda>tS i. \<exists>s. tS = entry_time a s \<and> 0 \<le> s \<and> s < j \<and> s \<le> i \<and> i \<le> j"
  assume "window_scan a l (entry_time a s) inx dv best \<noteq> None"
  then obtain r where ret: "window_scan a l (entry_time a s) inx dv best = Some r" by auto
  have "a = a \<and> l = l \<longrightarrow> \<not> ?Q (entry_time a s) inx"
  proof (rule window_scan.raw_induct[where P = "\<lambda>a' l' tS i dv b r. a' = a \<and> l' = l \<longrightarrow> \<not> ?Q tS i", OF _ ret])
    fix f a' l' tS i dv b r
    assume IH: "\<And>a' l' tS i dv b r. f a' l' tS i dv b = Some r \<Longrightarrow> a' = a \<and> l' = l \<longrightarrow> \<not> ?Q tS i"
      and eq: "(let val = entry_at a' i; vals = AddGuideInfo dv (DeltaTime val) (StarPos val) 0
      in if window_ends l' tS i (DeltaTime val)
         then let best1 = (if GetCount vals > 1 then min b (window_sigma vals) else b)
              in do { inx1 \<leftarrow> step_back a' (DeltaTime val - 60) i;
                      if inx1 > l' then Some best1 else f a' l' (DeltaTime (entry_at a' inx1)) inx1 (as_ClearAll vals) best1 }
         else if i + 1 > l' then Some b else f a' l' tS (i + 1) vals b) = Some r"
    show "a' = a \<and> l' = l \<longrightarrow> \<not> ?Q tS i"
    proof (intro impI notI, elim conjE)
      assume al: "a' = a" "l' = l" and "?Q tS i"
      then obtain s where s: "tS = entry_time a s" "0 \<le> s" "s < j" "s \<le> i" "i \<le> j" by blast
      show False
      proof (cases "window_ends l tS i (entry_time a i)")
        case True
        then have far: "entry_time a s \<le> entry_time a i - 60" using s(1) by (auto simp: window_ends_def)
        obtain k where k: "step_back a (entry_time a i - 60) i = Some k" "s \<le> k" "k \<le> i" "entry_time a k \<le> entry_time a i - 60"
          using step_back_finds[OF s(4) far] by blast
        have "k \<noteq> i" using k(4) by auto
        then have "k < j" "k \<le> l" using k(3) s(5) assms(3) by simp_all
        moreover obtain vs b1 where "f a l (entry_time a k) k vs b1 = Some r" using eq al True k(1) calculation(2) by (auto simp: Let_def)
        then have "\<not> ?Q (entry_time a k) k" using IH by blast
        ultimately show False using s(2) k(2) by auto
      next
        case False
        have "i < j"
        proof (rule ccontr)
          assume "\<not> i < j"
          then have "i = j" using s(5) by simp
          moreover have "entry_time a s \<le> entry_time a (j - 1)" using times_sortedD[OF assms(1)] s(2,3) assms(3) by simp
          ultimately show False using False assms(4) s(1) by (auto simp: window_ends_def)
        qed
        moreover obtain vs where "f a l tS (i + 1) vs b = Some r" using eq al False calculation assms(3) by (auto simp: Let_def)
        then have "\<not> ?Q tS (i + 1)" using IH by blast
        moreover have "?Q tS (i + 1)" using s \<open>i < j\<close> by (intro exI[of _ s]) simp
        ultimately show False by blast
      qed
    qed
  qed
  then show False using assms by blast
qed

definition sample_times :: "AxisStats \<Rightarrow> real list" where
  "sample_times a = map DeltaTime (guidingEntries a)"

lemma entry_time_nth: "0 \<le> i \<Longrightarrow> i < int (length (sample_times a)) \<Longrightarrow> entry_time a i = sample_times a ! nat i"
  by (simp add: entry_at_def GetEntry_def sample_times_def nat_less_iff)

lemma sint_of_nat_small: "n < 2 ^ 31 \<Longrightarrow> sint (of_nat n :: 32 word) = int n"
  by (simp add: signed_of_nat signed_take_bit_int_eq_self)

lemma GetCount_last: "length (sample_times a) < 2 ^ 31 \<Longrightarrow> sint (GetCount a) - 1 = int (length (sample_times a)) - 1"
  by (simp add: GetCount_def sample_times_def sint_of_nat_small)

lemma sorted_times: "sorted (sample_times a) \<Longrightarrow> times_sorted a (int (length (sample_times a)) - 1)"
  unfolding times_sorted_def by (auto simp: entry_time_nth sorted_iff_nth_mono nat_mono)

lemma first_last_times:
  assumes "sample_times a \<noteq> []"
  shows "DeltaTime (GetEntry a 0) = entry_time a 0" "DeltaTime (GetLastEntry a) = last (sample_times a)"
  using assms by (simp_all add: entry_at_def GetLastEntry_def sample_times_def last_conv_nth Let_def)

lemma c_round_up:
  assumes "0 \<le> x"
  shows "x < of_int (c_round (x / 0.05 + 0.5)) * 0.05" "of_int (c_round (x / 0.05 + 0.5)) * 0.05 \<le> x + 0.05"
proof -
  have "c_round (x / 0.05 + 0.5) = \<lfloor>x / 0.05 + 1\<rfloor>" using assms by (simp add: c_round_def)
  moreover have "of_int \<lfloor>x / 0.05 + 1\<rfloor> \<le> x / 0.05 + 1" "x / 0.05 < of_int \<lfloor>x / 0.05 + 1\<rfloor>" by linarith+
  ultimately show "x < of_int (c_round (x / 0.05 + 0.5)) * 0.05" "of_int (c_round (x / 0.05 + 0.5)) * 0.05 \<le> x + 0.05" by simp_all
qed

definition dec_multiplier :: "MinMoveInputs \<Rightarrow> real" where "dec_multiplier mi = (if mi_pxScale mi < 1.5 then 1.28 else 1.65)"

lemma min_move_cases:
  fixes mi :: MinMoveInputs
  assumes "0 \<le> e"
  defines "r \<equiv> min_move_recs mi e"
  shows "seeingBased r \<Longrightarrow> seeingEstimatePx r * dec_multiplier mi < mr_dec r \<and> mr_dec r \<le> seeingEstimatePx r * dec_multiplier mi + 0.05 \<and>
      mi_pxScale mi * mr_dec r \<le> 1.25"
    and "\<not> seeingBased r \<Longrightarrow> mr_dec r = mi_smartDefaultDecMinMove mi"
    and "0 \<le> seeingEstimatePx r" "(if mi_multiStar mi then 0.05 else 0.1) \<le> mr_ra r"
proof -
  let ?x = "(if mi_multiStar mi then e * 0.9 else e) * dec_multiplier mi"
  let ?d = "of_int (c_round (?x / 0.05 + 0.5)) * 0.05 :: real"
  have x: "0 \<le> ?x" using assms by (simp add: dec_multiplier_def)
  have "0.05 \<le> ?d"
  proof -
    have "c_round (?x / 0.05 + 0.5) = \<lfloor>?x / 0.05 + 1\<rfloor>" using x by (simp add: c_round_def)
    moreover have "1 \<le> \<lfloor>?x / 0.05 + 1\<rfloor>" using x by simp
    ultimately have "(1 :: real) \<le> of_int (c_round (?x / 0.05 + 0.5))" by simp
    then show ?thesis by simp
  qed
  then have d: "max ?d 0.05 = ?d" by simp
  note defs = r_def min_move_recs_def dec_multiplier_def[symmetric] Let_def
  show "seeingBased r \<Longrightarrow> seeingEstimatePx r * dec_multiplier mi < mr_dec r \<and> mr_dec r \<le> seeingEstimatePx r * dec_multiplier mi + 0.05 \<and>
      mi_pxScale mi * mr_dec r \<le> 1.25"
    using c_round_up[OF x] unfolding defs d by (simp split: if_splits)
  show "\<not> seeingBased r \<Longrightarrow> mr_dec r = mi_smartDefaultDecMinMove mi" unfolding defs by (simp split: if_splits)
  show "0 \<le> seeingEstimatePx r" using assms by (simp add: defs split: prod.splits)
  show "(if mi_multiStar mi then 0.05 else 0.1) \<le> mr_ra r" unfolding defs
    by (simp only: prod.case_eq_if MinMoveRecs.select_convs max.cobounded1)
qed

lemma seeing_estimate_returns:
  assumes "length (sample_times a) < 2 ^ 31" "sorted (sample_times a)"
    and "\<forall>i. Suc i < length (sample_times a) \<longrightarrow> sample_times a ! Suc i - sample_times a ! i < 36"
  shows "\<exists>e. seeing_estimate a = Some e \<and> 0 \<le> e"
proof (cases "DeltaTime (GetLastEntry a) - DeltaTime (GetEntry a 0) > 1.2 * 120")
  case True
  let ?l = "int (length (sample_times a)) - 1"
  have ne: "sample_times a \<noteq> []" using True by (auto simp: GetEntry_def GetLastEntry_def sample_times_def)
  have "entry_time a (i + 1) - entry_time a i < 36" if "0 \<le> i" "i < ?l" for i
    using that assms(3)[rule_format, of "nat i"] by (simp add: entry_time_nth nat_add_distrib)
  then obtain e where "window_scan a ?l (entry_time a 0) 0 AxisStats_new 1000 = Some e" "0 \<le> e"
    using window_scan_returns[OF sorted_times[OF assms(2)], of 0 0 0 AxisStats_new 1000] ne by (auto simp: Suc_le_eq)
  then show ?thesis using True GetCount_last[OF assms(1)] first_last_times(1)[OF ne] by (simp add: seeing_estimate_def Let_def)
next
  case False
  then show ?thesis using window_sigma_nonneg(2)[of a] by (simp add: seeing_estimate_def Let_def)
qed

text \<open>C16: assistant_recommends_min_moves.  When no two samples of a run are 36 seconds apart, the recommendation
of the smallest moves is found.  It is the seeing estimate times its factor, rounded up by at most a twentieth of a
pixel, and credible in seconds of arc, or else the default; the right ascension is not below its floor.\<close>

theorem assistant_recommends_min_moves:
  assumes "length (sample_times a) < 2 ^ 31" "sorted (sample_times a)"
    and "\<forall>i. Suc i < length (sample_times a) \<longrightarrow> sample_times a ! Suc i - sample_times a ! i < 36"
  shows "\<exists>r. ComputeMinMoveRecs a mi = Some r \<and> 0 \<le> seeingEstimatePx r \<and> (if mi_multiStar mi then 0.05 else 0.1) \<le> mr_ra r \<and>
    (if seeingBased r then seeingEstimatePx r * dec_multiplier mi < mr_dec r \<and> mr_dec r \<le> seeingEstimatePx r * dec_multiplier mi + 0.05 \<and>
       mi_pxScale mi * mr_dec r \<le> 1.25 else mr_dec r = mi_smartDefaultDecMinMove mi)"
proof -
  obtain e where e: "seeing_estimate a = Some e" "0 \<le> e" using seeing_estimate_returns[OF assms] by blast
  then have "ComputeMinMoveRecs a mi = Some (min_move_recs mi e)" by (simp add: ComputeMinMoveRecs_def)
  then show ?thesis using min_move_cases[OF e(2), of mi] by auto
qed

definition example_axis :: "real list \<Rightarrow> AxisStats" where
  "example_axis ts = foldl (\<lambda>a t. AddGuideInfo a t 1 0) AxisStats_new ts"

definition example_min_move :: MinMoveInputs where
  "example_min_move = \<lparr>mi_pxScale = 1, mi_multiStar = False, mi_hpEncoders = False, mi_smartDefaultDecMinMove = 0.2\<rparr>"

theorem assistant_recommends_min_moves_witness:
  "\<exists>r. ComputeMinMoveRecs (example_axis [0, 30, 60, 90, 120, 150]) example_min_move = Some r \<and> 0.1 \<le> mr_ra r"
proof -
  let ?a = "example_axis [0, 30, 60, 90, 120, 150]"
  have t: "sample_times ?a = [0, 30, 60, 90, 120, 150]"
    by (simp add: example_axis_def sample_times_def AddGuideInfo_def AxisStats_new_def InitializeScalars_def StarDisplacement_new_def Let_def)
  have "\<forall>i. Suc i < length (sample_times ?a) \<longrightarrow> sample_times ?a ! Suc i - sample_times ?a ! i < 36"
    unfolding t by (auto simp: less_Suc_eq numeral_eq_Suc)
  then show ?thesis using assistant_recommends_min_moves[of ?a example_min_move] by (auto simp: t example_min_move_def)
qed

text \<open>C15: assistant_hangs_on_gap.  After a run of more than 144 seconds in which two minutes passed without a sample, the
scan of the windows comes back to the sample before the gap again and again: no recommendation is ever returned.\<close>

theorem assistant_hangs_on_gap:
  assumes "length (sample_times a) < 2 ^ 31" "sorted (sample_times a)" "last (sample_times a) - sample_times a ! 0 > 144"
    and "Suc i < length (sample_times a)" "sample_times a ! Suc i - sample_times a ! i \<ge> 120"
  shows "ComputeMinMoveRecs a mi = None"
proof -
  let ?l = "int (length (sample_times a)) - 1"
  have ne: "sample_times a \<noteq> []" using assms(4) by auto
  have "entry_time a (int (Suc i)) - entry_time a (int (Suc i) - 1) \<ge> 120" using assms(4,5) by (simp add: entry_time_nth nat_add_distrib)
  then have "window_scan a ?l (entry_time a 0) 0 AxisStats_new 1000 = None"
    using window_scan_hangs[OF sorted_times[OF assms(2)], of "int (Suc i)" 0 0] assms(4) by auto
  moreover have "DeltaTime (GetLastEntry a) - DeltaTime (GetEntry a 0) > 1.2 * 120"
    using assms(3) ne by (simp add: first_last_times(2) GetEntry_def sample_times_def)
  ultimately show ?thesis
    using GetCount_last[OF assms(1)] first_last_times(1)[OF ne] by (simp add: ComputeMinMoveRecs_def seeing_estimate_def Let_def)
qed

theorem assistant_hangs_on_gap_witness: "ComputeMinMoveRecs (example_axis [0, 10, 150]) example_min_move = None"
proof -
  have t: "sample_times (example_axis [0, 10, 150]) = [0, 10, 150]"
    by (simp add: example_axis_def sample_times_def AddGuideInfo_def AxisStats_new_def InitializeScalars_def StarDisplacement_new_def Let_def)
  show ?thesis by (rule assistant_hangs_on_gap[where i = 1]) (simp_all add: t)
qed

section \<open>Exposure and plan\<close>

text \<open>Without encoders the range is always two seconds wide and starts between one and two seconds.\<close>

lemma range_two_wide:
  fixes d :: real
  shows "(if d > max 1 (min d 2) then (if d < 4 then max d (max 1 (min d 2) + 2) else 4) else max 1 (min d 2) + 2) = max 1 (min d 2) + 2"
  by (cases "d \<le> 1"; cases "d \<le> 2") simp_all

lemma exposure_range:
  "\<exists>lo\<in>{1..2}. RecommendExposure rms rate False = \<lparr>exp_min = lo, exp_max = lo + 2\<rparr>"
proof -
  let ?d = "if rate > 0 then of_int \<lceil>(1 * rms / rate) / 0.5\<rceil> * 0.5 else 2 :: real"
  let ?lo = "max 1 (min ?d 2)"
  have "RecommendExposure rms rate False = \<lparr>exp_min = ?lo, exp_max = ?lo + 2\<rparr>"
    unfolding RecommendExposure_def Let_def if_False range_two_wide by (rule refl)
  moreover have "?lo \<in> {1..2}" by simp
  ultimately show ?thesis by blast
qed

definition known_name :: "string \<Rightarrow> bool" where
  "known_name n \<longleftrightarrow> n \<in> ApplyItemName ` set APPLY_ORDER"

lemma ApplyItemName_inj: "ApplyItemName x = ApplyItemName y \<Longrightarrow> x = y"
  by (cases x; cases y) simp_all

lemma name_index_unknown: "name_index n xs = length xs \<longleftrightarrow> n \<notin> ApplyItemName ` set xs"
  by (induction xs) auto

lemma name_index_known: "n \<in> ApplyItemName ` set xs \<Longrightarrow> name_index n xs < length xs \<and> n = ApplyItemName (xs ! name_index n xs)"
  by (induction xs) auto

lemma mark_wanted_spec:
  assumes "length wanted = length APPLY_ORDER"
  shows "case mark_wanted names wanted of
      Inl n \<Rightarrow> find (\<lambda>n. \<not> known_name n) names = Some n
    | Inr w \<Rightarrow> find (\<lambda>n. \<not> known_name n) names = None \<and> length w = length APPLY_ORDER \<and>
        (\<forall>i < length APPLY_ORDER. w ! i \<longleftrightarrow> wanted ! i \<or> ApplyItemName (APPLY_ORDER ! i) \<in> set names)"
  using assms
proof (induction names arbitrary: wanted)
  case (Cons n ns)
  let ?i = "name_index n APPLY_ORDER"
  show ?case
  proof (cases "known_name n")
    case False
    then show ?thesis using name_index_unknown[of n APPLY_ORDER] by (simp add: known_name_def)
  next
    case True
    then have i: "?i < length APPLY_ORDER" "n = ApplyItemName (APPLY_ORDER ! ?i)" "?i \<noteq> length APPLY_ORDER"
      using name_index_known[of n APPLY_ORDER] by (simp_all add: known_name_def)
    have d: "distinct APPLY_ORDER" by (simp add: APPLY_ORDER_def)
    have e: "ApplyItemName (APPLY_ORDER ! k) = n \<longleftrightarrow> k = ?i" if "k < length APPLY_ORDER" for k
    proof
      assume "ApplyItemName (APPLY_ORDER ! k) = n"
      then have "APPLY_ORDER ! k = APPLY_ORDER ! ?i" using i(2) ApplyItemName_inj by metis
      then show "k = ?i" using d i(1) that nth_eq_iff_index_eq by blast
    qed (use i(2) in simp)
    have IH: "case mark_wanted ns (wanted[?i := True]) of
      Inl n \<Rightarrow> find (\<lambda>n. \<not> known_name n) ns = Some n
    | Inr w \<Rightarrow> find (\<lambda>n. \<not> known_name n) ns = None \<and> length w = length APPLY_ORDER \<and>
        (\<forall>i < length APPLY_ORDER. w ! i \<longleftrightarrow> wanted[?i := True] ! i \<or> ApplyItemName (APPLY_ORDER ! i) \<in> set ns)"
      using Cons.IH[of "wanted[?i := True]"] Cons.prems by simp
    have u: "wanted[?i := True] ! k \<longleftrightarrow> wanted ! k \<or> k = ?i" if "k < length APPLY_ORDER" for k
      using that i(1) Cons.prems by (simp add: nth_list_update)
    show ?thesis using True i(3) e u IH by (auto simp: Let_def split: sum.splits)
  qed
qed simp

lemma filter_zip_nth:
  "length w = length xs \<Longrightarrow> (\<And>i. i < length xs \<Longrightarrow> w ! i \<longleftrightarrow> P (xs ! i)) \<Longrightarrow> map fst (filter snd (zip xs w)) = filter P xs"
proof (induction xs w rule: list_induct2')
  case (4 x xs b bs)
  have "b \<longleftrightarrow> P x" using 4(3)[of 0] by simp
  moreover have "map fst (filter snd (zip xs bs)) = filter P xs"
    using 4(1)[OF _ ] 4(2) 4(3)[of "Suc _"] by simp
  ultimately show ?case by simp
qed simp_all

text \<open>C34: plan_apply_contract.  A request of a client is refused with its first unknown name; otherwise the plan
consists of the items that are named, each once, in the order in which they must be applied, and it is accepted
when something is named.\<close>

theorem plan_apply_contract:
  "PlanApply which badName =
     (case find (\<lambda>n. \<not> known_name n) which of
        Some n \<Rightarrow> (False, [], n)
      | None \<Rightarrow> (which \<noteq> [], filter (\<lambda>i. ApplyItemName i \<in> set which) APPLY_ORDER, badName))"
proof -
  let ?w0 = "replicate (length APPLY_ORDER) False"
  note sp = mark_wanted_spec[of ?w0 which]
  show ?thesis
  proof (cases "mark_wanted which ?w0")
    case (Inl n)
    then show ?thesis using sp by (simp add: PlanApply_def)
  next
    case (Inr w)
    let ?P = "\<lambda>i. ApplyItemName i \<in> set which"
    have f: "find (\<lambda>n. \<not> known_name n) which = None" using sp Inr by simp
    have m: "map fst (filter snd (zip APPLY_ORDER w)) = filter ?P APPLY_ORDER"
      by (rule filter_zip_nth) (use sp Inr in simp_all)
    have "filter ?P APPLY_ORDER \<noteq> [] \<longleftrightarrow> which \<noteq> []"
    proof
      assume "which \<noteq> []"
      then obtain n where n: "n \<in> set which" by (cases which) auto
      then have "known_name n" using f by (simp add: find_None_iff)
      then show "filter ?P APPLY_ORDER \<noteq> []" using n by (auto simp: known_name_def filter_empty_conv)
    qed (auto simp: filter_empty_conv)
    then show ?thesis using Inr f m by (simp add: PlanApply_def Let_def)
  qed
qed

section \<open>The accumulator\<close>

text \<open>After the samples \<open>ss\<close>; the values of the low-pass filter stay between bounds of the samples.\<close>

definition acc_ok :: "real \<Rightarrow> real \<Rightarrow> Sample list \<Rightarrow> Accumulator \<Rightarrow> bool" where
  "acc_ok lo hi ss a \<longleftrightarrow>
     (\<exists>lps. m_lpfRAStats a = ds_run lps \<and> length lps = length ss \<and> set lps \<subseteq> {lo..hi}) \<and>
     lpf_count (m_raLPF a) = length ss \<and> lpf_alphaCutoff (m_raLPF a) \<in> {0..1} \<and> (ss \<noteq> [] \<longrightarrow> lpfResult (m_raLPF a) \<in> {lo..hi}) \<and>
     m_sumSNR a = sum_list (map s_snr ss) \<and> m_sumMass a = sum_list (map s_mass ss) \<and>
     (ss \<noteq> [] \<longrightarrow> m_startRa a = s_ra (hd ss) \<and> m_lastRa a = s_ra (last ss) \<and> m_axisTimebase a = wallSecs (hd ss)) \<and>
     map (\<lambda>e. (DeltaTime e, StarPos e)) (guidingEntries (m_decAxisStats a)) =
       map (\<lambda>s. (of_int (wallSecs s - wallSecs (hd ss)), s_dec s)) ss"

lemma acc_ok_Reset: "acc_ok lo hi [] (acc_Reset e a)"
proof -
  have "max 6 (3 * e) / (max 6 (3 * e) + max 1 e) \<in> {0..1}" by (auto simp: divide_le_eq le_max_iff_disj)
  then show ?thesis
    by (auto simp: acc_ok_def acc_Reset_def Let_def lpf_new_def lpf_Reset_def as_ClearAll_def intro: exI[of _ "[]"])
qed

lemma between_weighted:
  fixes x y t :: real
  assumes "x \<in> {lo..hi}" "y \<in> {lo..hi}" "t \<in> {0..1}"
  shows "x + t * (y - x) \<in> {lo..hi}"
proof -
  have e: "x + t * (y - x) = (1 - t) * x + t * y" by (simp add: algebra_simps)
  have "(1 - t) * lo + t * lo \<le> (1 - t) * x + t * y" "(1 - t) * x + t * y \<le> (1 - t) * hi + t * hi"
    using assms by (intro add_mono mult_left_mono; simp)+
  then show ?thesis unfolding e by (simp add: algebra_simps)
qed

lemma word_count_zero: "n < 2 ^ 32 \<Longrightarrow> (of_nat n :: 32 word) = 0 \<longleftrightarrow> n = 0"
  using dvd_imp_le[of "2 ^ 32" n] by (auto simp: word_of_nat_eq_0_iff)

lemma acc_ok_AddSample:
  assumes "acc_ok lo hi ss a" "s_ra s \<in> {lo..hi}" "length ss + 1 < 2 ^ 32"
  shows "acc_ok lo hi (ss @ [s]) (AddSample s a)"
proof -
  obtain lps where l: "m_lpfRAStats a = ds_run lps" "length lps = length ss" "set lps \<subseteq> {lo..hi}" using assms(1) by (auto simp: acc_ok_def)
  have cnt: "lpf_count (m_raLPF a) = length ss" and al: "lpf_alphaCutoff (m_raLPF a) \<in> {0..1}"
    and res: "ss \<noteq> [] \<longrightarrow> lpfResult (m_raLPF a) \<in> {lo..hi}" using assms(1) by (auto simp: acc_ok_def)
  let ?v = "lpfResult (lpf_AddValue (m_raLPF a) (s_ra s))"
  have v: "?v \<in> {lo..hi}" using between_weighted[OF _ assms(2) al, of "lpfResult (m_raLPF a)"] res assms(2) cnt
    by (cases "ss = []") (simp_all add: lpf_AddValue_def)
  have es: "length (guidingEntries (m_decAxisStats a)) = length ss" using assms(1) by (auto simp: acc_ok_def dest: map_eq_imp_length_eq)
  have z: "GetCount (m_decAxisStats a) = 0 \<longleftrightarrow> ss = []"
    using word_count_zero[of "length ss"] assms(3) es by (simp add: GetCount_def)
  have n: "ds_GetCount (ds_AddValue (m_lpfRAStats a) ?v) = 1 \<longleftrightarrow> ss = []"
    using l ds_run_stats[of lps] by (simp add: ds_GetCount_def ds_AddValue_def Let_def)
  have base: "(if GetCount (m_decAxisStats a) = 0 then wallSecs s else m_axisTimebase a) = wallSecs (hd (ss @ [s]))"
    using z assms(1) by (auto simp: acc_ok_def hd_append)
  have "m_lpfRAStats (AddSample s a) = ds_run (lps @ [?v])" by (simp add: AddSample_def Let_def l(1))
  moreover have "lpf_count (m_raLPF (AddSample s a)) = length (ss @ [s])" "lpf_alphaCutoff (m_raLPF (AddSample s a)) \<in> {0..1}"
    "lpfResult (m_raLPF (AddSample s a)) = ?v" using cnt al by (simp_all add: AddSample_def Let_def lpf_AddValue_def)
  moreover have "m_sumSNR (AddSample s a) = sum_list (map s_snr (ss @ [s]))" "m_sumMass (AddSample s a) = sum_list (map s_mass (ss @ [s]))"
    "m_lastRa (AddSample s a) = s_ra s" using assms(1) by (simp_all add: AddSample_def Let_def acc_ok_def)
  moreover have "m_startRa (AddSample s a) = s_ra (hd (ss @ [s]))" "m_axisTimebase (AddSample s a) = wallSecs (hd (ss @ [s]))"
    using n base assms(1) by (auto simp: AddSample_def Let_def acc_ok_def hd_append)
  moreover have "map (\<lambda>e. (DeltaTime e, StarPos e)) (guidingEntries (m_decAxisStats (AddSample s a))) =
       map (\<lambda>s'. (of_int (wallSecs s' - wallSecs (hd (ss @ [s]))), s_dec s')) (ss @ [s])"
    using assms(1) base by (cases ss) (auto simp: AddSample_def Let_def acc_ok_def AddGuideInfo_def StarDisplacement_new_def)
  ultimately show ?thesis using v l(2,3) unfolding acc_ok_def by (intro conjI exI[of _ "lps @ [?v]"]) auto
qed

lemma acc_ok_run:
  assumes "\<forall>s\<in>set ss. s_ra s \<in> {lo..hi}" "length ss < 2 ^ 32"
  shows "acc_ok lo hi ss (fold AddSample ss (acc_Reset e a))"
  using assms
proof (induction ss rule: rev_induct)
  case (snoc s ss)
  then show ?case using acc_ok_AddSample[of lo hi ss _ s] by simp
qed (simp add: acc_ok_Reset)

text \<open>After a run of samples the assistant reports their number, the averages of their
signal-to-noise ratio and mass, and the displacement in right ascension over the time; the data of the drift fit are the
declinations over the seconds since the first sample, and the peak to peak of the smoothed right ascension is not larger than
the range of the samples.\<close>

theorem assistant_measures_samples:
  assumes "ss \<noteq> []" "length ss < 2 ^ 32" "\<forall>s\<in>set ss. s_ra s \<in> {lo..hi}" "0 < elapsed"
  shows "let a = fold AddSample ss (acc_Reset e a0) in
    acc_Count a = length ss \<and> AvgSnr a = sum_list (map s_snr ss) / real (length ss) \<and> AvgMass a = sum_list (map s_mass ss) / real (length ss) \<and>
    RaDriftPxPerMin elapsed a = (s_ra (last ss) - s_ra (hd ss)) / elapsed * 60 \<and> RaPeakToPeak a \<in> {0..hi - lo} \<and>
    map (\<lambda>x. (DeltaTime x, StarPos x)) (guidingEntries (m_decAxisStats a)) =
      map (\<lambda>s. (of_int (wallSecs s - wallSecs (hd ss)), s_dec s)) ss"
proof -
  define a where "a = fold AddSample ss (acc_Reset e a0)"
  have ok: "acc_ok lo hi ss a" unfolding a_def by (rule acc_ok_run[OF assms(3,2)])
  then obtain lps where l: "m_lpfRAStats a = ds_run lps" "length lps = length ss" "set lps \<subseteq> {lo..hi}" by (auto simp: acc_ok_def)
  have ne: "lps \<noteq> []" using l(2) assms(1) by auto
  have c: "acc_Count a = length ss" using ds_run_stats[of lps] l by (simp add: acc_Count_def ds_GetCount_def)
  have m: "minValue (ds_run lps) = Min (set lps)" "maxValue (ds_run lps) = Max (set lps)" "ds_count (ds_run lps) = length lps"
    using ds_run_stats[of lps] ne by simp_all
  have "lo \<le> Min (set lps)" "Max (set lps) \<le> hi" "Min (set lps) \<le> Max (set lps)"
    using l(3) ne by (auto simp: subset_iff)
  then have "Max (set lps) - Min (set lps) \<le> hi - lo" "0 \<le> Max (set lps) - Min (set lps)" by linarith+
  then have "RaPeakToPeak a \<in> {0..hi - lo}"
    using c assms(1) m ne by (auto simp: RaPeakToPeak_def l(1) ds_GetMaximum_def ds_GetMinimum_def)
  then show ?thesis using c ok assms(1,4) unfolding Let_def a_def[symmetric]
    by (auto simp: acc_ok_def AvgSnr_def AvgMass_def RaDriftPxPerMin_def Let_def)
qed

definition example_sample :: "real \<Rightarrow> int \<Rightarrow> Sample" where
  "example_sample x t = \<lparr>s_ra = x, s_dec = x / 2, s_time = of_int t, wallSecs = t, s_snr = 20, s_mass = 1000\<rparr>"

definition example_accumulator :: Accumulator where
  "example_accumulator = \<lparr>m_hpfRAStats = ds_ClearAll, m_lpfRAStats = ds_ClearAll, m_hpfDecStats = ds_ClearAll, m_decAxisStats = AxisStats_new,
     m_raAxisStats = AxisStats_new, m_raHPF = hpf_new 1 1, m_raLPF = lpf_new 6 1, m_decHPF = hpf_new 1 1, m_axisTimebase = 0, m_startRa = 0,
     m_lastRa = 0, m_lastTime = 0, m_maxRateRA = 0, m_sumSNR = 0, m_sumMass = 0\<rparr>"

theorem assistant_measures_samples_witness:
  "AvgSnr (fold AddSample [example_sample 1 100, example_sample 3 102] (acc_Reset 2 example_accumulator)) = 20 \<and>
   RaPeakToPeak (fold AddSample [example_sample 1 100, example_sample 3 102] (acc_Reset 2 example_accumulator)) \<in> {0..2}"
  using assistant_measures_samples[of "[example_sample 1 100, example_sample 3 102]" 1 3 2 2 example_accumulator]
  by (simp add: Let_def example_sample_def)

end
