(* ===== verification/Mount_Calibration.thy ===== *)
theory Mount_Calibration
  imports Phd_Point
begin

text \<open>
  The calibration of a mount: \<open>src/calibration_transform.cpp\<close> (camera to mount coordinates and
  back) and the part of \<open>src/mount.cpp\<close> that keeps the calibration, the transforms built on it
  and its adjustment to where the telescope points.  \<open>GUIDE_DIRECTION\<close> names each direction
  once: \<open>UP\<close> is \<open>NORTH\<close>, \<open>DOWN\<close> is \<open>SOUTH\<close>, \<open>RIGHT\<close> is \<open>EAST\<close>, \<open>LEFT\<close> is \<open>WEST\<close>.
\<close>

section \<open>Data\<close>

datatype GUIDE_DIRECTION = NONE | NORTH | SOUTH | EAST | WEST

abbreviation (input) "UP \<equiv> NORTH"
abbreviation (input) "DOWN \<equiv> SOUTH"
abbreviation (input) "RIGHT \<equiv> EAST"
abbreviation (input) "LEFT \<equiv> WEST"

datatype PierSide = PIER_SIDE_UNKNOWN | PIER_SIDE_EAST | PIER_SIDE_WEST

datatype GuideParity = GUIDE_PARITY_EVEN | GUIDE_PARITY_ODD | GUIDE_PARITY_UNKNOWN | GUIDE_PARITY_UNCHANGED

definition UNKNOWN_DECLINATION :: real where "UNKNOWN_DECLINATION = 997"

definition POSITION_UNKNOWN :: real where "POSITION_UNKNOWN = - 888"

record Calibration =
  xRate :: real
  yRate :: real
  xAngle :: real
  yAngle :: real
  declination :: real
  rotatorAngle :: real
  binning :: int
  pierSide :: PierSide
  raGuideParity :: GuideParity
  decGuideParity :: GuideParity
  isValid :: bool

definition Calibration_default :: Calibration where
  "Calibration_default = \<lparr>xRate = 0, yRate = 0, xAngle = 0, yAngle = 0, declination = UNKNOWN_DECLINATION,
     rotatorAngle = 0, binning = 1, pierSide = PIER_SIDE_UNKNOWN, raGuideParity = GUIDE_PARITY_UNKNOWN,
     decGuideParity = GUIDE_PARITY_UNKNOWN, isValid = False\<rparr>"

fun OppositeSide :: "PierSide \<Rightarrow> PierSide" where
  "OppositeSide PIER_SIDE_EAST = PIER_SIDE_WEST"
| "OppositeSide PIER_SIDE_WEST = PIER_SIDE_EAST"
| "OppositeSide PIER_SIDE_UNKNOWN = PIER_SIDE_UNKNOWN"

definition IsOppositeSide :: "PierSide \<Rightarrow> PierSide \<Rightarrow> bool" where
  "IsOppositeSide a b \<longleftrightarrow> a = PIER_SIDE_EAST \<and> b = PIER_SIDE_WEST \<or> a = PIER_SIDE_WEST \<and> b = PIER_SIDE_EAST"

fun OppositeParity :: "GuideParity \<Rightarrow> GuideParity" where
  "OppositeParity GUIDE_PARITY_EVEN = GUIDE_PARITY_ODD"
| "OppositeParity GUIDE_PARITY_ODD = GUIDE_PARITY_EVEN"
| "OppositeParity p = p"

fun guide_parity :: "GuideParity \<Rightarrow> GuideParity" where
  "guide_parity GUIDE_PARITY_EVEN = GUIDE_PARITY_EVEN"
| "guide_parity GUIDE_PARITY_ODD = GUIDE_PARITY_ODD"
| "guide_parity _ = GUIDE_PARITY_UNKNOWN"

lemma OppositeSide_twice [simp]: "OppositeSide (OppositeSide p) = p"
  by (cases p) auto

lemma OppositeParity_twice [simp]: "OppositeParity (OppositeParity p) = p"
  by (cases p) auto

lemma IsOppositeSide_irrefl [simp]: "\<not> IsOppositeSide p p"
  by (auto simp: IsOppositeSide_def)

lemma IsOppositeSide_flip: "IsOppositeSide a b \<Longrightarrow> OppositeSide b = a"
  by (auto simp: IsOppositeSide_def)

section \<open>The transforms\<close>

definition vectorAngle :: "real \<Rightarrow> real \<Rightarrow> real" where
  "vectorAngle x y = (if x \<noteq> 0 \<or> y \<noteq> 0 then atan2 y x else 0)"

record CamToMount =
  cm_mount :: "real \<times> real"
  cm_hyp :: real
  cm_cameraTheta :: real
  cm_xAngle :: real
  cm_yAngle :: real

record MountToCam =
  mc_camera :: "real \<times> real"
  mc_hyp :: real
  mc_mountTheta :: real
  mc_xAngle :: real

definition CameraToMount :: "real \<Rightarrow> real \<Rightarrow> real \<Rightarrow> real \<Rightarrow> CamToMount" where
  "CameraToMount camX camY calXAngle yAngleError =
     (let hyp = hypot camX camY;
          cameraTheta = vectorAngle camX camY;
          xAngle = cameraTheta - calXAngle;
          yAngle = cameraTheta - (calXAngle + yAngleError)
      in \<lparr>cm_mount = (cos xAngle * hyp, sin yAngle * hyp), cm_hyp = hyp, cm_cameraTheta = cameraTheta,
          cm_xAngle = xAngle, cm_yAngle = yAngle\<rparr>)"

definition MountToCamera :: "real \<Rightarrow> real \<Rightarrow> real \<Rightarrow> real \<Rightarrow> MountToCam" where
  "MountToCamera mountX mountY calXAngle yAngleError =
     (let hyp = hypot mountX mountY;
          mountTheta = (if \<bar>yAngleError\<bar> > pi / 2 then - vectorAngle mountX mountY
                        else vectorAngle mountX mountY);
          xAngle = mountTheta + calXAngle
      in \<lparr>mc_camera = (cos xAngle * hyp, sin xAngle * hyp), mc_hyp = hyp, mc_mountTheta = mountTheta,
          mc_xAngle = xAngle\<rparr>)"

text \<open>Both are linear: a rotation by the angle of the right ascension axis, whose second
  coordinate takes the error of the declination axis.\<close>

lemma vectorAngle_polar:
  "hypot x y * cos (vectorAngle x y) = x" "hypot x y * sin (vectorAngle x y) = y"
  using atan2_polar[of x y] by (auto simp: vectorAngle_def)

lemma vectorAngle_polar':
  "cos (vectorAngle x y) * hypot x y = x" "sin (vectorAngle x y) * hypot x y = y"
  using vectorAngle_polar[of x y] by (simp_all add: mult.commute)

lemma rot_cos: "cos (vectorAngle x y - a) * hypot x y = x * cos a + y * sin a"
proof -
  have "cos (vectorAngle x y - a) * hypot x y =
      (cos (vectorAngle x y) * hypot x y) * cos a + (sin (vectorAngle x y) * hypot x y) * sin a"
    by (simp add: cos_diff algebra_simps)
  then show ?thesis by (simp add: vectorAngle_polar')
qed

lemma rot_sin: "sin (vectorAngle x y - a) * hypot x y = y * cos a - x * sin a"
proof -
  have "sin (vectorAngle x y - a) * hypot x y =
      (sin (vectorAngle x y) * hypot x y) * cos a - (cos (vectorAngle x y) * hypot x y) * sin a"
    by (simp add: sin_diff algebra_simps)
  then show ?thesis by (simp add: vectorAngle_polar')
qed

lemma CameraToMount_linear:
  "cm_mount (CameraToMount x y a e) =
     (x * cos a + y * sin a, y * cos (a + e) - x * sin (a + e))"
  by (simp add: CameraToMount_def Let_def rot_cos rot_sin)

lemma MountToCamera_linear:
  "mc_camera (MountToCamera x y a e) =
     (if \<bar>e\<bar> > pi / 2 then (x * cos a + y * sin a, x * sin a - y * cos a)
      else (x * cos a - y * sin a, x * sin a + y * cos a))"
proof -
  let ?t = "vectorAngle x y"
  have pos: "cos (?t + a) * hypot x y = x * cos a - y * sin a" "sin (?t + a) * hypot x y = x * sin a + y * cos a"
    using rot_cos[of x y "- a"] rot_sin[of x y "- a"] by (simp_all add: add.commute)
  have "cos (- ?t + a) = cos (?t - a)" "sin (- ?t + a) = - sin (?t - a)"
    using cos_minus[of "?t - a"] sin_minus[of "?t - a"] by (simp_all add: algebra_simps)
  then have neg: "cos (- ?t + a) * hypot x y = x * cos a + y * sin a"
    "sin (- ?t + a) * hypot x y = x * sin a - y * cos a"
    by (simp_all add: rot_cos rot_sin flip: minus_mult_left)
  show ?thesis using pos neg by (simp add: MountToCamera_def Let_def)
qed

lemma cos_sin_square: "cos a * cos a + sin a * sin a = (1 :: real)"
  using sin_cos_squared_add2[of a] by (simp add: power2_eq_square add.commute)

lemma hypot_rot: "hypot (u * cos a - v * sin a) (u * sin a + v * cos a) = hypot u v"
proof -
  have "(u * cos a - v * sin a) * (u * cos a - v * sin a) + (u * sin a + v * cos a) * (u * sin a + v * cos a)
      = (u * u + v * v) * (cos a * cos a + sin a * sin a)"
    by algebra
  then show ?thesis by (simp only: hypot_def cos_sin_square mult_1_right)
qed

lemma hypot_rot': "hypot (u * cos a + v * sin a) (u * sin a - v * cos a) = hypot u v"
  using hypot_rot[of u a "- v"] by (simp add: hypot_def)

lemma hypot_0_left [simp]: "hypot 0 y = \<bar>y\<bar>"
  by (simp add: hypot_def)

text \<open>In the frame of the right ascension axis the two transforms compose to an error in the
  second coordinate only.\<close>

lemma abs_cos_combination: "\<bar>p * cos t + q * sin t\<bar> \<le> hypot p q"
proof -
  have "p * cos t + q * sin t = cos (vectorAngle p q - t) * hypot p q" by (simp add: rot_cos)
  also have "\<bar>\<dots>\<bar> \<le> 1 * hypot p q"
    unfolding abs_mult by (intro mult_mono) (auto simp: abs_le_iff)
  finally show ?thesis by simp
qed

lemma hypot_frame: "hypot (x * cos a + y * sin a) (y * cos a - x * sin a) = hypot x y"
  using hypot_rot[of x "- a" y] by (simp add: algebra_simps)

lemma sin_error: "\<bar>(p * cos e - q * sin e) - p\<bar> \<le> 2 * \<bar>sin (e / 2)\<bar> * hypot q p" for p q e :: real
proof -
  have c: "cos e = 1 - 2 * (sin (e / 2) * sin (e / 2))"
    using cos_double_sin[of "e / 2"] by (simp add: power2_eq_square)
  have s: "sin e = 2 * sin (e / 2) * cos (e / 2)" using sin_double[of "e / 2"] by simp
  have "(p * cos e - q * sin e) - p = - (2 * sin (e / 2) * (q * cos (e / 2) + p * sin (e / 2)))"
    unfolding c s by (simp add: algebra_simps)
  then have "\<bar>(p * cos e - q * sin e) - p\<bar> = 2 * \<bar>sin (e / 2)\<bar> * \<bar>q * cos (e / 2) + p * sin (e / 2)\<bar>"
    by (simp add: abs_mult)
  also have "\<dots> \<le> 2 * \<bar>sin (e / 2)\<bar> * hypot q p"
    by (intro mult_left_mono abs_cos_combination) simp
  finally show ?thesis .
qed

lemma sin_error': "\<bar>- (p * cos e - q * sin e) - p\<bar> \<le> 2 * \<bar>cos (e / 2)\<bar> * hypot q p" for p q e :: real
proof -
  have s: "sin ((e + pi) / 2) = cos (e / 2)" by (simp add: add_divide_distrib sin_add)
  show ?thesis using sin_error[of p "e + pi" q] unfolding s by simp
qed

lemma roundtrip_error:
  assumes "cm_mount (CameraToMount x y a e) = (mx, my)" and "mc_camera (MountToCamera mx my a e) = (cx, cy)"
  shows "hypot (cx - x) (cy - y) \<le> 2 * (if \<bar>e\<bar> > pi / 2 then \<bar>cos (e / 2)\<bar> else \<bar>sin (e / 2)\<bar>) * hypot x y"
proof -
  define u where "u = x * cos a + y * sin a"
  define v where "v = y * cos a - x * sin a"
  have "my = y * cos (a + e) - x * sin (a + e)" and mx: "mx = u"
    using assms(1) by (simp_all add: CameraToMount_linear u_def)
  then have my: "my = v * cos e - u * sin e"
    unfolding u_def v_def cos_add sin_add by algebra
  note my = mx my and cc = cos_sin_square[of a]
  have xy: "x = u * cos a - v * sin a" "y = u * sin a + v * cos a"
    unfolding u_def v_def using cc by algebra+
  define w where "w = (if \<bar>e\<bar> > pi / 2 then - my else my) - v"
  have "cx - x = 0 * cos a - w * sin a" "cy - y = 0 * sin a + w * cos a"
    using assms(2) xy by (auto simp: MountToCamera_linear w_def my algebra_simps split: if_splits)
  then have "hypot (cx - x) (cy - y) = hypot (0 * cos a - w * sin a) (0 * sin a + w * cos a)" by presburger
  then have "hypot (cx - x) (cy - y) = \<bar>w\<bar>" unfolding hypot_rot by simp
  moreover have "hypot u v = hypot x y" by (simp add: u_def v_def hypot_frame)
  moreover have "\<bar>w\<bar> \<le> 2 * (if \<bar>e\<bar> > pi / 2 then \<bar>cos (e / 2)\<bar> else \<bar>sin (e / 2)\<bar>) * hypot u v"
    using sin_error[of v e u] sin_error'[of v e u] by (simp add: w_def my)
  ultimately show ?thesis by simp
qed

section \<open>The mount\<close>

text \<open>
  The state of the class \<open>Mount\<close> that guiding depends on; \<open>calProfile\<close> are the calibration
  entries of the profile, \<^term>\<open>None\<close> before a first calibration is stored.  Connection state,
  the count of queued requests and the calibration are as in the source; the guide algorithms are
  components of their own.
\<close>

record Mount =
  m_connected :: bool
  m_requestCount :: int
  m_errorCount :: int
  m_calibrated :: bool
  m_cal :: Calibration
  m_xRate :: real
  m_yAngleError :: real
  m_guidingEnabled :: bool
  calProfile :: "Calibration option"

definition Mount_new :: Mount where
  "Mount_new = \<lparr>m_connected = False, m_requestCount = 0, m_errorCount = 0, m_calibrated = False,
     m_cal = Calibration_default, m_xRate = 0, m_yAngleError = 0, m_guidingEnabled = True, calProfile = None\<rparr>"

definition Mount_yAngle :: "Mount \<Rightarrow> real" where
  "Mount_yAngle m = norm_angle (xAngle (m_cal m) - m_yAngleError m + pi / 2)"

definition Mount_IsConnected :: "Mount \<Rightarrow> bool" where "Mount_IsConnected m = m_connected m"

definition Mount_IsCalibrated :: "Mount \<Rightarrow> bool" where
  "Mount_IsCalibrated m = (if Mount_IsConnected m then m_calibrated m else False)"

definition Mount_IsBusy :: "Mount \<Rightarrow> bool" where "Mount_IsBusy m \<longleftrightarrow> m_requestCount m > 0"

definition ResetErrorCount :: "Mount \<Rightarrow> Mount" where "ResetErrorCount m = m\<lparr>m_errorCount := 0\<rparr>"

definition IncrementErrorCount :: "Mount \<Rightarrow> Mount" where
  "IncrementErrorCount m = m\<lparr>m_errorCount := m_errorCount m + 1\<rparr>"

definition Mount_Connect :: "Mount \<Rightarrow> bool \<times> Mount" where
  "Mount_Connect m = (False, ResetErrorCount (m\<lparr>m_connected := True\<rparr>))"

definition Mount_Disconnect :: "Mount \<Rightarrow> bool \<times> Mount" where
  "Mount_Disconnect m = (False, m\<lparr>m_connected := False\<rparr>)"

definition Mount_ClearCalibration :: "Mount \<Rightarrow> Mount" where
  "Mount_ClearCalibration m = m\<lparr>m_calibrated := False\<rparr>"

definition RAParity :: "Mount \<Rightarrow> GuideParity" where
  "RAParity m = (if m_calibrated m then raGuideParity (m_cal m) else GUIDE_PARITY_UNKNOWN)"

definition DecParity :: "Mount \<Rightarrow> GuideParity" where
  "DecParity m = (if m_calibrated m then decGuideParity (m_cal m) else GUIDE_PARITY_UNKNOWN)"

definition GetCalibrationDeclination :: "Mount \<Rightarrow> real" where
  "GetCalibrationDeclination m = (if m_calibrated m then declination (m_cal m) else UNKNOWN_DECLINATION)"

text \<open>The assertions on the number of queued requests fail with \<^term>\<open>None\<close>.\<close>

definition IncrementRequestCount :: "Mount \<Rightarrow> Mount option" where
  "IncrementRequestCount m =
     (if m_requestCount m + 1 \<le> 2 then Some (m\<lparr>m_requestCount := m_requestCount m + 1\<rparr>) else None)"

definition DecrementRequestCount :: "Mount \<Rightarrow> Mount option" where
  "DecrementRequestCount m =
     (if m_requestCount m > 0 then Some (m\<lparr>m_requestCount := m_requestCount m - 1\<rparr>) else None)"

definition kept_parity :: "GuideParity \<Rightarrow> GuideParity \<Rightarrow> GuideParity" where
  "kept_parity new old = (if new \<noteq> GUIDE_PARITY_UNCHANGED then new else old)"

definition stored_calibration :: "Calibration \<Rightarrow> Mount \<Rightarrow> Calibration" where
  "stored_calibration cal m = (m_cal m)\<lparr>xRate := xRate cal, yRate := yRate cal, xAngle := xAngle cal,
     yAngle := yAngle cal, declination := declination cal, rotatorAngle := rotatorAngle cal,
     binning := binning cal, pierSide := pierSide cal,
     raGuideParity := kept_parity (raGuideParity cal) (raGuideParity (m_cal m)),
     decGuideParity := kept_parity (decGuideParity cal) (decGuideParity (m_cal m)), isValid := True\<rparr>"

definition Mount_SetCalibration :: "Calibration \<Rightarrow> Mount \<Rightarrow> Mount" where
  "Mount_SetCalibration cal m =
     m\<lparr>m_cal := stored_calibration cal m, m_xRate := xRate cal,
       m_yAngleError := norm_angle (xAngle cal - yAngle cal + pi / 2), m_calibrated := True,
       calProfile := Some (stored_calibration cal m)\<rparr>"

definition GetLastCalibration :: "Mount \<Rightarrow> Calibration \<Rightarrow> Calibration" where
  "GetLastCalibration m cal =
     (case calProfile m of
        None \<Rightarrow> cal\<lparr>isValid := False\<rparr>
      | Some p \<Rightarrow> p\<lparr>raGuideParity := guide_parity (raGuideParity p),
                    decGuideParity := guide_parity (decGuideParity p), isValid := True\<rparr>)"

definition TransformCameraCoordinatesToMountCoordinates :: "Mount \<Rightarrow> PHD_Point \<Rightarrow> PHD_Point \<Rightarrow> bool \<times> PHD_Point" where
  "TransformCameraCoordinatesToMountCoordinates m cameraVectorEndpoint mountVectorEndpoint =
     (if \<not> p_valid cameraVectorEndpoint then (True, p_Invalidate mountVectorEndpoint)
      else let r = CameraToMount (pX cameraVectorEndpoint) (pY cameraVectorEndpoint) (xAngle (m_cal m)) (m_yAngleError m)
           in (False, p_SetXY mountVectorEndpoint (fst (cm_mount r)) (snd (cm_mount r))))"

definition TransformMountCoordinatesToCameraCoordinates :: "Mount \<Rightarrow> PHD_Point \<Rightarrow> PHD_Point \<Rightarrow> bool \<times> PHD_Point" where
  "TransformMountCoordinatesToCameraCoordinates m mountVectorEndpoint cameraVectorEndpoint =
     (if \<not> p_valid mountVectorEndpoint then (True, p_Invalidate cameraVectorEndpoint)
      else let r = MountToCamera (pX mountVectorEndpoint) (pY mountVectorEndpoint) (xAngle (m_cal m)) (m_yAngleError m)
           in (False, p_SetXY cameraVectorEndpoint (fst (mc_camera r)) (snd (mc_camera r))))"

text \<open>The calibration on the other side of the pier.\<close>

definition flipped_calibration :: "bool \<Rightarrow> Mount \<Rightarrow> Calibration" where
  "flipped_calibration decFlipRequired m =
     (let origX = xAngle (m_cal m);
          origY = Mount_yAngle m;
          newX = norm_angle (origX + pi);
          newY = norm_angle (if decFlipRequired then origY + pi else origY)
      in (m_cal m)\<lparr>xAngle := newX, yAngle := newY, pierSide := OppositeSide (pierSide (m_cal m)),
           decGuideParity := (if decFlipRequired then decGuideParity (m_cal m)
                              else OppositeParity (decGuideParity (m_cal m)))\<rparr>)"

section \<open>Lemmas on the mount\<close>

lemma norm_angle_cong:
  assumes "a = b + of_int k * (2 * pi)"
  shows "norm_angle a = norm_angle b"
proof -
  obtain j :: int where "norm_angle b = b - of_int j * (2 * pi)" using norm_angle_shift by blast
  then have "a = norm_angle b + of_int (j + k) * (2 * pi)" using assms by (simp add: algebra_simps)
  then show ?thesis using norm_angle_bounds[of b] by (intro norm_angle_unique[where k = "j + k"]) auto
qed

lemma norm_angle_inside: "norm_angle (x + norm_angle y) = norm_angle (x + y)"
proof -
  obtain k :: int where "norm_angle y = y - of_int k * (2 * pi)" using norm_angle_shift by blast
  then have "x + norm_angle y = (x + y) + of_int (- k) * (2 * pi)" by simp
  then show ?thesis by (rule norm_angle_cong)
qed

lemma norm_angle_inside_minus: "norm_angle (x - norm_angle y) = norm_angle (x - y)"
proof -
  obtain k :: int where "norm_angle y = y - of_int k * (2 * pi)" using norm_angle_shift by blast
  then have "x - norm_angle y = (x - y) + of_int k * (2 * pi)" by simp
  then show ?thesis by (rule norm_angle_cong)
qed

lemma norm_angle_idem [simp]: "norm_angle (norm_angle x) = norm_angle x"
  using norm_angle_inside[of 0 x] by simp

lemma SetCalibration_angles:
  "xAngle (m_cal (Mount_SetCalibration cal m)) = xAngle cal"
  "Mount_yAngle (Mount_SetCalibration cal m) = norm_angle (yAngle cal)"
proof -
  show "xAngle (m_cal (Mount_SetCalibration cal m)) = xAngle cal"
    by (simp add: Mount_SetCalibration_def stored_calibration_def)
  have "Mount_yAngle (Mount_SetCalibration cal m)
      = norm_angle ((xAngle cal + pi / 2) - norm_angle (xAngle cal - yAngle cal + pi / 2))"
    by (simp add: Mount_yAngle_def Mount_SetCalibration_def stored_calibration_def algebra_simps)
  also have "\<dots> = norm_angle (yAngle cal)"
    unfolding norm_angle_inside_minus by simp
  finally show "Mount_yAngle (Mount_SetCalibration cal m) = norm_angle (yAngle cal)" .
qed

lemma transform_valid:
  "p_valid p \<Longrightarrow> TransformCameraCoordinatesToMountCoordinates m p q =
     (False, PHD_Point_new (pX p * cos (xAngle (m_cal m)) + pY p * sin (xAngle (m_cal m)))
        (pY p * cos (xAngle (m_cal m) + m_yAngleError m) - pX p * sin (xAngle (m_cal m) + m_yAngleError m)))"
  by (simp add: TransformCameraCoordinatesToMountCoordinates_def Let_def CameraToMount_linear
      p_SetXY_def PHD_Point_new_def)

lemma guide_parity_id [simp]:
  "guide_parity (OppositeParity p) = OppositeParity (guide_parity p)"
  by (cases p) auto

section \<open>Meridian flip\<close>

definition flip_mount :: "bool \<Rightarrow> Mount \<Rightarrow> Mount" where
  "flip_mount decFlip m = Mount_SetCalibration (flipped_calibration decFlip m) m"

lemma norm_angle_plus_2pi: "norm_angle (a + 2 * pi) = norm_angle a"
  by (rule norm_angle_cong[where k = 1]) simp

lemma flip_angles:
  "xAngle (m_cal (flip_mount d m)) = norm_angle (xAngle (m_cal m) + pi)"
  "Mount_yAngle (flip_mount d m) = norm_angle (if d then Mount_yAngle m + pi else Mount_yAngle m)"
  "m_yAngleError (flip_mount d m) = norm_angle (if d then m_yAngleError m else m_yAngleError m + pi)"
proof -
  show "xAngle (m_cal (flip_mount d m)) = norm_angle (xAngle (m_cal m) + pi)"
    "Mount_yAngle (flip_mount d m) = norm_angle (if d then Mount_yAngle m + pi else Mount_yAngle m)"
    by (simp_all add: flip_mount_def SetCalibration_angles) (simp_all add: flipped_calibration_def Let_def)
  let ?x = "xAngle (m_cal m)" and ?e = "m_yAngleError m"
  let ?y = "norm_angle (?x - ?e + pi / 2)"
  have "m_yAngleError (flip_mount d m) = norm_angle ((pi / 2 - norm_angle (if d then ?y + pi else ?y)) + norm_angle (?x + pi))"
    by (simp add: flip_mount_def Mount_SetCalibration_def flipped_calibration_def Let_def Mount_yAngle_def algebra_simps)
  also have "\<dots> = norm_angle ((?x + pi / 2 + pi) - norm_angle (if d then ?y + pi else ?y))"
    unfolding norm_angle_inside by (simp add: algebra_simps)
  also have "\<dots> = norm_angle ((?x + pi / 2 + pi) - (if d then ?y + pi else ?y))"
    unfolding norm_angle_inside_minus ..
  also have "\<dots> = norm_angle ((?x + pi / 2 + (if d then 0 else pi)) - ?y)"
    by (simp add: algebra_simps)
  also have "\<dots> = norm_angle (if d then ?e else ?e + pi)"
    unfolding norm_angle_inside_minus by (simp add: algebra_simps)
  finally show "m_yAngleError (flip_mount d m) = norm_angle (if d then ?e else ?e + pi)" .
qed

lemma flip_trig:
  "cos (xAngle (m_cal (flip_mount d m))) = - cos (xAngle (m_cal m))"
  "sin (xAngle (m_cal (flip_mount d m))) = - sin (xAngle (m_cal m))"
  by (simp_all add: flip_angles)

lemma flip_trig_y:
  "cos (xAngle (m_cal (flip_mount d m)) + m_yAngleError (flip_mount d m)) =
     (if d then - 1 else 1) * cos (xAngle (m_cal m) + m_yAngleError m)"
  "sin (xAngle (m_cal (flip_mount d m)) + m_yAngleError (flip_mount d m)) =
     (if d then - 1 else 1) * sin (xAngle (m_cal m) + m_yAngleError m)"
  by (simp_all add: flip_angles cos_add sin_add)

lemma flip_other_fields:
  "pierSide (m_cal (flip_mount d m)) = OppositeSide (pierSide (m_cal m))"
  "xRate (m_cal (flip_mount d m)) = xRate (m_cal m)" "yRate (m_cal (flip_mount d m)) = yRate (m_cal m)"
  "binning (m_cal (flip_mount d m)) = binning (m_cal m)" "rotatorAngle (m_cal (flip_mount d m)) = rotatorAngle (m_cal m)"
  "declination (m_cal (flip_mount d m)) = declination (m_cal m)"
  "raGuideParity (m_cal (flip_mount d m)) = raGuideParity (m_cal m)"
  "decGuideParity (m_cal (flip_mount d m)) =
     (if d then decGuideParity (m_cal m) else OppositeParity (decGuideParity (m_cal m)))"
  "m_calibrated (flip_mount d m)" "m_xRate (flip_mount d m) = xRate (m_cal m)"
  "m_connected (flip_mount d m) = m_connected m"
  by (cases "decGuideParity (m_cal m)";
      simp add: flip_mount_def Mount_SetCalibration_def flipped_calibration_def stored_calibration_def
        kept_parity_def Let_def)+

section \<open>Properties\<close>

text \<open>C35: camera_mount_roundtrip.  Transforming a camera vector to mount coordinates and back misses
  the vector by at most \<open>2 |sin (e / 2)|\<close> of its length, where \<open>e\<close> is the orthogonality error of
  the calibration (\<open>2 |cos (e / 2)|\<close> when the declination axis is reversed, where \<open>e\<close> is near
  180 degrees).  With perpendicular axes, either way round, the round trip is exact.\<close>

theorem camera_mount_roundtrip:
  assumes "p_valid p"
    and "TransformCameraCoordinatesToMountCoordinates m p q0 = (err1, q)"
    and "TransformMountCoordinatesToCameraCoordinates m q r0 = (err2, r)"
    and "e = m_yAngleError m"
  shows "\<not> err1 \<and> \<not> err2 \<and> p_valid r \<and>
    hypot (pX r - pX p) (pY r - pY p) \<le>
      2 * (if \<bar>e\<bar> > pi / 2 then \<bar>cos (e / 2)\<bar> else \<bar>sin (e / 2)\<bar>) * hypot (pX p) (pY p) \<and>
    (e = 0 \<or> \<bar>e\<bar> = pi \<longrightarrow> r = PHD_Point_new (pX p) (pY p))"
proof -
  let ?a = "xAngle (m_cal m)"
  have q: "\<not> err1" "p_valid q" "cm_mount (CameraToMount (pX p) (pY p) ?a e) = (pX q, pY q)"
    using assms by (auto simp: TransformCameraCoordinatesToMountCoordinates_def Let_def p_SetXY_def)
  have r: "\<not> err2" "r = PHD_Point_new (pX r) (pY r)" "mc_camera (MountToCamera (pX q) (pY q) ?a e) = (pX r, pY r)"
    using assms(3,4) q(2) by (auto simp: TransformMountCoordinatesToCameraCoordinates_def Let_def p_SetXY_def
        PHD_Point_new_def)
  note b = roundtrip_error[OF q(3) r(3)]
  have v: "p_valid r" using r(2) by (metis PHD_Point_new_simps(1))
  have z: "e = 0 \<or> \<bar>e\<bar> = pi \<Longrightarrow> (if \<bar>e\<bar> > pi / 2 then \<bar>cos (e / 2)\<bar> else \<bar>sin (e / 2)\<bar>) = 0"
    by (auto simp: abs_if minus_equation_iff[of e] cos_minus[of "pi / 2", simplified] split: if_splits)
  have "r = PHD_Point_new (pX p) (pY p)" if e: "e = 0 \<or> \<bar>e\<bar> = pi"
  proof -
    have "hypot (pX r - pX p) (pY r - pY p) \<le> 0" using b unfolding z[OF e] by simp
    then have "hypot (pX r - pX p) (pY r - pY p) = 0"
      using hypot_nonneg[of "pX r - pX p" "pY r - pY p"] by linarith
    then show ?thesis using r(2) by simp
  qed
  with q r v b show ?thesis by simp
qed

theorem camera_mount_roundtrip_witness:
  "let m = Mount_SetCalibration (Calibration_default\<lparr>yAngle := pi / 2\<rparr>) Mount_new;
       q = snd (TransformCameraCoordinatesToMountCoordinates m (PHD_Point_new 3 4) PHD_Point_invalid)
   in snd (TransformMountCoordinatesToCameraCoordinates m q PHD_Point_invalid) = PHD_Point_new 3 4"
proof -
  let ?m = "Mount_SetCalibration (Calibration_default\<lparr>yAngle := pi / 2\<rparr>) Mount_new"
  have e: "m_yAngleError ?m = 0"
    by (simp add: Mount_SetCalibration_def Calibration_default_def norm_angle_id)
  obtain e1 q where q: "TransformCameraCoordinatesToMountCoordinates ?m (PHD_Point_new 3 4) PHD_Point_invalid = (e1, q)"
    by fastforce
  obtain e2 r where r: "TransformMountCoordinatesToCameraCoordinates ?m q PHD_Point_invalid = (e2, r)"
    by fastforce
  show ?thesis using camera_mount_roundtrip[OF _ q r e[symmetric]] q r by (simp add: Let_def)
qed

text \<open>Flipping the calibration for the other side of the pier reverses what a
  camera vector means in right ascension, and reverses it in declination exactly when the mount
  is configured to need it; flipping twice gives back the angles (normalised), the side of pier,
  the parities and the rates.\<close>

theorem flip_mirrors_axes:
  assumes "TransformCameraCoordinatesToMountCoordinates m p q0 = (False, q)"
  shows "TransformCameraCoordinatesToMountCoordinates (flip_mount d m) p q0 =
      (False, PHD_Point_new (- pX q) (if d then - pY q else pY q)) \<and>
    xAngle (m_cal (flip_mount d (flip_mount d m))) = norm_angle (xAngle (m_cal m)) \<and>
    Mount_yAngle (flip_mount d (flip_mount d m)) = Mount_yAngle m \<and>
    pierSide (m_cal (flip_mount d (flip_mount d m))) = pierSide (m_cal m) \<and>
    decGuideParity (m_cal (flip_mount d (flip_mount d m))) = decGuideParity (m_cal m) \<and>
    xRate (m_cal (flip_mount d (flip_mount d m))) = xRate (m_cal m) \<and>
    yRate (m_cal (flip_mount d (flip_mount d m))) = yRate (m_cal m)"
proof -
  have v: "p_valid p"
    using assms by (simp add: TransformCameraCoordinatesToMountCoordinates_def split: if_splits)
  have y: "norm_angle (Mount_yAngle m) = Mount_yAngle m" by (simp add: Mount_yAngle_def)
  have x2: "norm_angle (norm_angle a + pi) = norm_angle (a + pi)" for a
    using norm_angle_inside[of pi a] by (simp add: add.commute)
  have pp: "norm_angle (norm_angle (a + pi) + pi) = norm_angle a" for a
    using norm_angle_plus_2pi[of a] unfolding x2 by (simp add: algebra_simps)
  have "TransformCameraCoordinatesToMountCoordinates (flip_mount d m) p q0 =
      (False, PHD_Point_new (- pX q) (if d then - pY q else pY q))"
    using assms v by (auto simp: transform_valid flip_trig flip_trig_y)
  then show ?thesis by (simp add: flip_angles flip_other_fields pp y)
qed

theorem flip_mirrors_axes_witness:
  "let m = Mount_SetCalibration (Calibration_default\<lparr>yAngle := pi / 2\<rparr>) Mount_new
   in TransformCameraCoordinatesToMountCoordinates (flip_mount True m) (PHD_Point_new 3 4) PHD_Point_invalid =
        (False, PHD_Point_new (- 3) (- 4))"
proof -
  let ?m = "Mount_SetCalibration (Calibration_default\<lparr>yAngle := pi / 2\<rparr>) Mount_new"
  have "TransformCameraCoordinatesToMountCoordinates ?m (PHD_Point_new 3 4) PHD_Point_invalid
      = (False, PHD_Point_new 3 4)"
    by (simp add: transform_valid Mount_SetCalibration_def stored_calibration_def Calibration_default_def norm_angle_id)
  from flip_mirrors_axes[OF this, of True] show ?thesis by (simp add: Let_def)
qed

end
