(* ===== verification/Backlash_Tool.thy ===== *)
theory Backlash_Tool
  imports Mount_Calibration Guiding_Stats "HOL-Library.Monad_Syntax"
begin

text \<open>
  The measurement of declination backlash, class \<open>BacklashTool\<close> of \<open>src/backlash_comp.cpp\<close>: a state machine that the frames drive.
  The backlash is cleared by pulses to the north, the mount is moved north and back south by the same number of
  pulses, and the backlash is computed from the steps.  What a step asks of the frame and of the mount is listed in
  \<open>blt_acts\<close>; the texts of its status are left out.
\<close>

section \<open>The state\<close>

datatype BLT_STATE = BLT_INITIALIZE | BLT_CLEAR_NORTH | BLT_STEP_NORTH | BLT_STEP_SOUTH | BLT_ABORTED | BLT_TEST_CORRECTION
  | BLT_RESTORE | BLT_WRAPUP | BLT_COMPLETED

datatype MeasurementResults = MEASUREMENT_TOO_FEW_NORTH | MEASUREMENT_TOO_FEW_SOUTH | MEASUREMENT_BL_NOT_CLEARED
  | MEASUREMENT_SANITY | MEASUREMENT_VALID

definition BACKLASH_MIN_COUNT :: int where "BACKLASH_MIN_COUNT = 3"
definition BACKLASH_EXPECTED_DISTANCE :: real where "BACKLASH_EXPECTED_DISTANCE = 4"
definition BACKLASH_EXEMPTION_DISTANCE :: real where "BACKLASH_EXEMPTION_DISTANCE = 40"
definition MAX_CLEARING_STEPS :: int where "MAX_CLEARING_STEPS = 100"
definition NORTH_PULSE_SIZE :: int where "NORTH_PULSE_SIZE = 500"
definition MAX_NORTH_PULSES :: int where "MAX_NORTH_PULSES = 8000"

text \<open>What the tool calls: moves of an axis, and switches of the mount and the guider.\<close>

datatype BltAct = ScheduleAxisMove GUIDE_DIRECTION int | GuidingEnabled bool | MeasurementMode bool | ResetBLCState

text \<open>What the tool reads with a frame; \<open>be_bad\<close> is the result of a conversion that the language leaves undetermined.\<close>

record BltEnv =
  be_mount :: Mount
  be_lastCalibration :: Calibration
  be_frameSize :: "int \<times> int"
  be_maxMove :: int
  be_calDuration :: int
  be_now :: int
  be_bad :: int

record BacklashTool =
  blt_pulseWidth :: int
  blt_stepCount :: int
  blt_northPulseCount :: int
  blt_restoreCount :: int
  blt_acceptedMoves :: int
  blt_lastClearRslt :: real
  blt_lastDecGuideRate :: real
  blt_backlashResultPx :: real
  blt_cumClearingDistance :: real
  blt_backlashExemption :: bool
  blt_backlashResultMs :: int
  blt_northRate :: real
  blt_startingPoint :: PHD_Point
  blt_markerPoint :: PHD_Point
  blt_endSouth :: PHD_Point
  blt_northBLSteps :: "real list"
  blt_southBLSteps :: "real list"
  blt_driftPerSec :: real
  blt_northStats :: AxisStats
  blt_msmtStartTime :: int
  blt_msmtEndTime :: int
  blt_state :: BLT_STATE
  blt_Rslt :: MeasurementResults
  blt_acts :: "BltAct list"

definition blt_GetLastDecGuideRate :: "BltEnv \<Rightarrow> real" where
  "blt_GetLastDecGuideRate e = (if isValid (be_lastCalibration e) then yRate (be_lastCalibration e) else - 1)"

definition BacklashTool_new :: "BltEnv \<Rightarrow> BacklashTool" where
  "BacklashTool_new e =
     \<lparr>blt_pulseWidth = 0, blt_stepCount = 0, blt_northPulseCount = 0, blt_restoreCount = 0, blt_acceptedMoves = 0, blt_lastClearRslt = 0,
      blt_lastDecGuideRate = blt_GetLastDecGuideRate e, blt_backlashResultPx = 0, blt_cumClearingDistance = 0, blt_backlashExemption = False,
      blt_backlashResultMs = 0, blt_northRate = 0, blt_startingPoint = PHD_Point_invalid, blt_markerPoint = PHD_Point_invalid,
      blt_endSouth = PHD_Point_invalid, blt_northBLSteps = [], blt_southBLSteps = [], blt_driftPerSec = 0, blt_northStats = AxisStats_new,
      blt_msmtStartTime = 0, blt_msmtEndTime = 0,
      blt_state = (if blt_GetLastDecGuideRate e > 0 then BLT_INITIALIZE else BLT_ABORTED),
      blt_Rslt = MEASUREMENT_TOO_FEW_NORTH, blt_acts = []\<rparr>"

definition IsGraphable :: "BacklashTool \<Rightarrow> bool" where
  "IsGraphable t \<longleftrightarrow> length (blt_southBLSteps t) > 0"

definition blt_do :: "BltAct list \<Rightarrow> BacklashTool \<Rightarrow> BacklashTool" where
  "blt_do as t = t\<lparr>blt_acts := blt_acts t @ as\<rparr>"

definition OutOfRoom :: "int \<times> int \<Rightarrow> real \<Rightarrow> real \<Rightarrow> int \<Rightarrow> bool" where
  "OutOfRoom frameSize camX camY margin \<longleftrightarrow>
     camX < of_int margin \<or> camY < of_int margin \<or> camX \<ge> of_int (fst frameSize - margin) \<or> camY \<ge> of_int (snd frameSize - margin)"

definition no_room :: "BltEnv \<Rightarrow> PHD_Point \<Rightarrow> bool" where
  "no_room e p \<longleftrightarrow> OutOfRoom (be_frameSize e) (pX p) (pY p) (be_maxMove e)"

definition blt_CleanUp :: "BacklashTool \<Rightarrow> BacklashTool" where
  "blt_CleanUp t = blt_do [ResetBLCState, MeasurementMode False] t"

text \<open>An exception ends the measurement.\<close>

definition blt_abort :: "BacklashTool \<Rightarrow> BacklashTool" where
  "blt_abort t = blt_CleanUp (t\<lparr>blt_state := BLT_ABORTED\<rparr>)"

section \<open>The backlash from the steps\<close>

definition as_GetSum :: "'a AxisStats_scheme \<Rightarrow> real" where "as_GetSum a = sumY a"

text \<open>The judgement of the amount at the second of two consecutive good moves.\<close>

definition judge_backlash :: "real \<Rightarrow> real \<Rightarrow> real \<Rightarrow> MeasurementResults \<times> real" where
  "judge_backlash nRate northDelta blPx =
     (if blPx * nRate < - 200 then MEASUREMENT_SANITY
      else if blPx \<ge> 0.7 * northDelta then MEASUREMENT_TOO_FEW_NORTH
      else MEASUREMENT_VALID, if blPx < 0 then 0 else blPx)"

fun south_scan :: "real \<Rightarrow> real \<Rightarrow> real \<Rightarrow> real \<Rightarrow> real list \<Rightarrow> int \<Rightarrow> real \<Rightarrow> int \<Rightarrow> real \<Rightarrow> MeasurementResults \<times> real" where
  "south_scan expectedMagnitude driftPxPerFrame nRate northDelta (s0 # s1 # ss) step earlySouthMoves goodSouthMoves lastSouthMove =
     (let southMove = s1 - s0; early = earlySouthMoves + southMove
      in if southMove < 0 \<and> (\<bar>southMove\<bar> \<ge> expectedMagnitude \<or> \<bar>southMove + lastSouthMove / 2\<bar> > expectedMagnitude)
         then if goodSouthMoves + 1 = 2
              then judge_backlash nRate northDelta (of_int step * expectedMagnitude - \<bar>early - of_int step * driftPxPerFrame\<bar>)
              else south_scan expectedMagnitude driftPxPerFrame nRate northDelta (s1 # ss) (step + 1) early (goodSouthMoves + 1) southMove
         else south_scan expectedMagnitude driftPxPerFrame nRate northDelta (s1 # ss) (step + 1) early
                (if goodSouthMoves > 0 then goodSouthMoves - 1 else goodSouthMoves) southMove)"
| "south_scan expectedMagnitude driftPxPerFrame nRate northDelta ss step earlySouthMoves goodSouthMoves lastSouthMove =
     (MEASUREMENT_TOO_FEW_SOUTH, 0)"

text \<open>The quotient of a division by zero has no integer.\<close>

definition int_quotient :: "int \<Rightarrow> real \<Rightarrow> real \<Rightarrow> int" where
  "int_quotient bad a b = (if b = 0 then bad else c_int bad (a / b))"

text \<open>The result, the amount in pixels and in milliseconds, and the rate to the north.\<close>

definition ComputeBacklashPx :: "int \<Rightarrow> BacklashTool \<Rightarrow> MeasurementResults \<times> real \<times> int \<times> real" where
  "ComputeBacklashPx bad t =
     (if length (blt_northBLSteps t) > 3
      then let driftAmtPx = blt_driftPerSec t * of_int (blt_msmtEndTime t - blt_msmtStartTime t) / 1000;
               stepCount = of_int (sint (GetCount (blt_northStats t))) :: real; northDelta = as_GetSum (blt_northStats t);
               nRate = \<bar>(northDelta - driftAmtPx) / (stepCount * of_int (blt_pulseWidth t))\<bar>;
               driftPxPerFrame = driftAmtPx / stepCount;
               expectedMagnitude = \<bar>0.9 * GetMedian (blt_northStats t)\<bar>;
               (rslt, blPx) = south_scan expectedMagnitude driftPxPerFrame nRate northDelta (blt_southBLSteps t) 1 0 0 0
           in (rslt, blPx, int_quotient bad blPx nRate, nRate)
      else (MEASUREMENT_TOO_FEW_NORTH, 0, int_quotient bad 0 0, 0))"

text \<open>Without a rate the scatter in milliseconds is not a finite number.\<close>

definition blt_GetBacklashSigma :: "BacklashTool \<Rightarrow> real \<times> real option" where
  "blt_GetBacklashSigma t =
     (if (blt_Rslt t = MEASUREMENT_VALID \<or> blt_Rslt t = MEASUREMENT_TOO_FEW_NORTH) \<and> GetCount (blt_northStats t) > 1
      then let variance = GetVariance (blt_northStats t); count = of_int (sint (GetCount (blt_northStats t)));
               SigmaPx = sqrt (variance / count + 2 * variance / (count - 1))
           in (SigmaPx, if blt_northRate t = 0 then None else Some (SigmaPx / blt_northRate t))
      else (0, Some 0))"

section \<open>The steps\<close>

text \<open>The cases of the switch from the last to the first: each falls through to the next one.\<close>

definition blt_wrapup :: "BacklashTool \<Rightarrow> BacklashTool" where
  "blt_wrapup t = (blt_CleanUp t)\<lparr>blt_state := BLT_COMPLETED\<rparr>"

definition blt_restore :: "BltEnv \<Rightarrow> PHD_Point \<Rightarrow> BacklashTool \<Rightarrow> BacklashTool" where
  "blt_restore e loc t =
     (let amt = \<bar>pY loc - pY (blt_startingPoint t)\<bar>;
          t1 = (if blt_stepCount t = 0
                then if amt > of_int (be_maxMove e)
                     then t\<lparr>blt_restoreCount :=
                              min (if blt_northRate t = 0 \<or> blt_pulseWidth t = 0 then be_bad e
                                   else c_int (be_bad e) (of_int \<lfloor>amt / blt_northRate t / of_int (blt_pulseWidth t)\<rfloor>)) 10,
                            blt_stepCount := 0\<rparr>
                     else t\<lparr>blt_state := BLT_WRAPUP\<rparr>
                else t)
      in if blt_stepCount t1 < blt_restoreCount t1
         then blt_do [ScheduleAxisMove SOUTH (blt_pulseWidth t1)] (t1\<lparr>blt_stepCount := blt_stepCount t1 + 1\<rparr>)
         else blt_wrapup (t1\<lparr>blt_state := BLT_WRAPUP\<rparr>))"

definition blt_test_correction :: "BltEnv \<Rightarrow> PHD_Point \<Rightarrow> BacklashTool \<Rightarrow> BacklashTool" where
  "blt_test_correction e loc t =
     (let done = \<lambda>t. blt_restore e loc (t\<lparr>blt_state := BLT_RESTORE, blt_stepCount := 0\<rparr>)
      in if blt_stepCount t = 0
         then let (rslt, px, ms, rate) = ComputeBacklashPx (be_bad e) t;
                  t1 = t\<lparr>blt_Rslt := rslt, blt_backlashResultPx := px, blt_backlashResultMs := ms, blt_northRate := rate\<rparr>
              in if rslt = MEASUREMENT_SANITY \<or> rslt = MEASUREMENT_TOO_FEW_SOUTH then blt_abort t1
                 else if ms > 0
                      then if px < of_int (be_maxMove e)
                           then blt_do [ScheduleAxisMove SOUTH ms] (t1\<lparr>blt_stepCount := blt_stepCount t1 + 1\<rparr>)
                           else blt_do [ScheduleAxisMove SOUTH (if rate = 0 then be_bad e else c_int (be_bad e) (of_int \<lfloor>0.8 * of_int (be_maxMove e) / rate\<rfloor>))]
                                  (t1\<lparr>blt_stepCount := 0, blt_state := BLT_RESTORE\<rparr>)
                      else done t1
         else done t)"

definition blt_step_south :: "BltEnv \<Rightarrow> PHD_Point \<Rightarrow> BacklashTool \<Rightarrow> BacklashTool" where
  "blt_step_south e loc t =
     (let t1 = t\<lparr>blt_southBLSteps := blt_southBLSteps t @ [pY loc]\<rparr>
      in if blt_stepCount t < blt_northPulseCount t
         then blt_do [ScheduleAxisMove SOUTH (blt_pulseWidth t1)] (t1\<lparr>blt_stepCount := blt_stepCount t1 + 1\<rparr>)
         else blt_test_correction e loc (t1\<lparr>blt_endSouth := loc, blt_state := BLT_TEST_CORRECTION, blt_stepCount := 0\<rparr>))"

text \<open>The position that a step north has reached, with its difference from the one before.\<close>

definition north_reached :: "PHD_Point \<Rightarrow> BacklashTool \<Rightarrow> BacklashTool option" where
  "north_reached loc t =
     (if blt_stepCount t \<ge> 1
      then if blt_northBLSteps t = [] then None
           else Some (t\<lparr>blt_northStats := AddGuideInfo (blt_northStats t) (of_int (blt_stepCount t)) (pY loc - last (blt_northBLSteps t)) 0,
                        blt_northBLSteps := blt_northBLSteps t @ [pY loc]\<rparr>)
      else Some (t\<lparr>blt_northBLSteps := blt_northBLSteps t @ [pY loc]\<rparr>))"

definition blt_step_north :: "BltEnv \<Rightarrow> PHD_Point \<Rightarrow> PHD_Point \<Rightarrow> BacklashTool \<Rightarrow> BacklashTool option" where
  "blt_step_north e p loc t =
     (case north_reached loc t of
        None \<Rightarrow> None
      | Some t1 \<Rightarrow>
          Some (if blt_stepCount t < blt_northPulseCount t \<and> \<not> no_room e p
           then blt_do [ScheduleAxisMove NORTH (blt_pulseWidth t1)]
                  (t1\<lparr>blt_markerPoint := (if blt_stepCount t \<ge> 1 then blt_markerPoint t1 else loc), blt_stepCount := blt_stepCount t1 + 1\<rparr>)
           else let t2 = t1\<lparr>blt_msmtEndTime := be_now e\<rparr>
                in if blt_stepCount t < blt_northPulseCount t \<and> of_int (blt_stepCount t) < (0.5 :: real) * of_int (blt_northPulseCount t)
                   then blt_abort (t2\<lparr>blt_Rslt := MEASUREMENT_TOO_FEW_NORTH\<rparr>)
                   else blt_step_south e loc (t2\<lparr>blt_northPulseCount := blt_stepCount t2, blt_stepCount := 0, blt_state := BLT_STEP_SOUTH\<rparr>)))"

text \<open>The pulses of the measurement; a product that overflows and a division by a pulse of no width have no result.\<close>

definition blt_start_north :: "BltEnv \<Rightarrow> BacklashTool \<Rightarrow> BacklashTool option" where
  "blt_start_north e t =
     (let total = blt_stepCount t * blt_pulseWidth t;
          pw0 = max NORTH_PULSE_SIZE (be_calDuration e);
          maxPulse = c_int (be_bad e) (of_int \<lfloor>0.7 * of_int (be_maxMove e) / blt_lastDecGuideRate t\<rfloor>);
          pw = min pw0 maxPulse
      in if \<bar>total\<bar> \<ge> 2 ^ 31 \<or> pw = 0 then None
         else Some (t\<lparr>blt_state := BLT_STEP_NORTH, blt_pulseWidth := pw, blt_stepCount := 0,
                blt_northPulseCount := c_int (be_bad e) (max (of_int (c_quot (MAX_NORTH_PULSES + pw - 1) pw)) (of_int total * 1.5 / of_int pw)),
                blt_msmtStartTime := be_now e\<rparr>))"

text \<open>The moves that clear the backlash count while they are large enough and in one direction.\<close>

definition count_clearing :: "real \<Rightarrow> BacklashTool \<Rightarrow> BacklashTool" where
  "count_clearing decDelta t =
     (if \<bar>decDelta\<bar> \<ge> BACKLASH_EXPECTED_DISTANCE
      then if blt_acceptedMoves t = 0 \<or> blt_lastClearRslt t * decDelta > 0 then t\<lparr>blt_acceptedMoves := blt_acceptedMoves t + 1\<rparr>
           else t\<lparr>blt_acceptedMoves := 0\<rparr>
      else t)"

definition blt_clear_north :: "BltEnv \<Rightarrow> PHD_Point \<Rightarrow> PHD_Point \<Rightarrow> real \<Rightarrow> BacklashTool \<Rightarrow> BacklashTool option" where
  "blt_clear_north e p loc decDelta t0 =
     (if blt_stepCount t0 = 0 then Some (blt_do [ScheduleAxisMove NORTH (blt_pulseWidth t0)] (t0\<lparr>blt_stepCount := 1\<rparr>))
      else let t = count_clearing decDelta t0;
               more = blt_acceptedMoves t < BACKLASH_MIN_COUNT;
               exempt = \<bar>blt_cumClearingDistance t\<bar> > BACKLASH_EXEMPTION_DISTANCE
           in if more \<and> \<not> blt_stepCount t < MAX_CLEARING_STEPS then Some (blt_abort (t\<lparr>blt_Rslt := MEASUREMENT_BL_NOT_CLEARED\<rparr>))
              else if more \<and> \<not> exempt \<and> \<not> no_room e p
              then Some (blt_do [ScheduleAxisMove NORTH (blt_pulseWidth t)]
                     (t\<lparr>blt_stepCount := blt_stepCount t + 1, blt_markerPoint := loc, blt_lastClearRslt := decDelta\<rparr>))
              else let t1 = (if more \<and> exempt then t\<lparr>blt_backlashExemption := True\<rparr> else t)
                   in if blt_acceptedMoves t1 \<ge> BACKLASH_MIN_COUNT \<or> blt_backlashExemption t1 \<or> no_room e p
                      then do { t2 \<leftarrow> blt_start_north e t1; blt_step_north e p loc t2 }
                      else blt_step_north e p loc t1)"

definition blt_initialize :: "BltEnv \<Rightarrow> PHD_Point \<Rightarrow> BacklashTool \<Rightarrow> BacklashTool" where
  "blt_initialize e loc t0 =
     (let t = t0\<lparr>blt_stepCount := 0, blt_markerPoint := loc, blt_startingPoint := loc,
            blt_lastDecGuideRate := (if blt_lastDecGuideRate t0 \<le> 0 then blt_GetLastDecGuideRate e else blt_lastDecGuideRate t0)\<rparr>
      in if blt_lastDecGuideRate t > 0
         then blt_do [GuidingEnabled True, MeasurementMode True]
                (t\<lparr>blt_pulseWidth := c_int (be_bad e) (BACKLASH_EXPECTED_DISTANCE * 1.25 / blt_lastDecGuideRate t), blt_acceptedMoves := 0,
                   blt_lastClearRslt := 0, blt_cumClearingDistance := 0, blt_backlashExemption := False, blt_Rslt := MEASUREMENT_VALID,
                   blt_state := BLT_CLEAR_NORTH\<rparr>)
         else t\<lparr>blt_state := BLT_ABORTED\<rparr>)"

definition DecMeasurementStep :: "BltEnv \<Rightarrow> PHD_Point \<Rightarrow> BacklashTool \<Rightarrow> BacklashTool option" where
  "DecMeasurementStep e p t0 =
     (let (err, loc) = TransformCameraCoordinatesToMountCoordinates (be_mount e) p PHD_Point_invalid
      in if err then Some (blt_abort t0)
         else let decDelta = (if blt_state t0 \<noteq> BLT_INITIALIZE then pY loc - pY (blt_markerPoint t0) else 0);
                  t = (if blt_state t0 \<noteq> BLT_INITIALIZE then t0\<lparr>blt_cumClearingDistance := blt_cumClearingDistance t0 + decDelta\<rparr> else t0)
              in case blt_state t of
                   BLT_INITIALIZE \<Rightarrow> Some (blt_initialize e loc t)
                 | BLT_CLEAR_NORTH \<Rightarrow> blt_clear_north e p loc decDelta t
                 | BLT_STEP_NORTH \<Rightarrow> blt_step_north e p loc t
                 | BLT_STEP_SOUTH \<Rightarrow> Some (blt_step_south e loc t)
                 | BLT_TEST_CORRECTION \<Rightarrow> Some (blt_test_correction e loc t)
                 | BLT_RESTORE \<Rightarrow> Some (blt_restore e loc t)
                 | BLT_WRAPUP \<Rightarrow> Some (blt_wrapup t)
                 | BLT_COMPLETED \<Rightarrow> Some t
                 | BLT_ABORTED \<Rightarrow> Some (blt_CleanUp t))"

definition StartMeasurement :: "BltEnv \<Rightarrow> PHD_Point \<Rightarrow> real \<Rightarrow> BacklashTool \<Rightarrow> BacklashTool option" where
  "StartMeasurement e p DriftPerMin t =
     DecMeasurementStep e p (t\<lparr>blt_state := BLT_INITIALIZE, blt_driftPerSec := DriftPerMin / 60, blt_northBLSteps := [],
       blt_southBLSteps := [], blt_northStats := as_ClearAll (blt_northStats t)\<rparr>)"

definition StopMeasurement :: "BltEnv \<Rightarrow> PHD_Point \<Rightarrow> BacklashTool \<Rightarrow> BacklashTool option" where
  "StopMeasurement e p t = DecMeasurementStep e p (t\<lparr>blt_state := BLT_ABORTED\<rparr>)"

section \<open>A measurement ends\<close>

text \<open>
  The interface of a measurement that frames drive: every good frame keeps the invariant, brings a state that has not
  ended closer to its end, and an end stays one.
\<close>

locale measured_machine =
  fixes step :: "'s \<Rightarrow> 'e \<Rightarrow> 's option" and good :: "'e \<Rightarrow> bool" and invar :: "'s \<Rightarrow> bool" and left :: "'s \<Rightarrow> nat" and ended :: "'s \<Rightarrow> bool"
  assumes step_ok: "invar s \<Longrightarrow> good e \<Longrightarrow> \<exists>s'. step s e = Some s' \<and> invar s' \<and> (ended s \<longrightarrow> ended s') \<and> (ended s' \<or> left s' < left s)"
begin

lemma run_ends:
  assumes "invar s" "\<forall>e\<in>set es. good e" "ended s \<or> left s < length es"
  shows "\<exists>s'. run_partial step s es = Some s' \<and> invar s' \<and> ended s'"
  using assms
proof (induction es arbitrary: s)
  case (Cons e es)
  obtain s1 where s1: "step s e = Some s1" "invar s1" "ended s \<longrightarrow> ended s1" "ended s1 \<or> left s1 < left s"
    using step_ok[OF Cons.prems(1), of e] Cons.prems(2) by auto
  then have "ended s1 \<or> left s1 < length es" using Cons.prems(3) by auto
  then show ?case using Cons.IH[OF s1(2)] Cons.prems(2) s1(1) by auto
qed auto

end

fun axis_moves :: "BltAct list \<Rightarrow> (GUIDE_DIRECTION \<times> int) list" where
  "axis_moves [] = []"
| "axis_moves (a # as) = (case a of ScheduleAxisMove d n \<Rightarrow> (d, n) # axis_moves as | _ \<Rightarrow> axis_moves as)"

lemma axis_moves_append [simp]: "axis_moves (as @ bs) = axis_moves as @ axis_moves bs"
  by (induction as) (auto split: BltAct.splits)

text \<open>
  The parameters of a measurement: the rate in declination, the largest move of the star and the duration of the pulses of the
  calibration; from them the width of the clearing pulses and of the others, and the bound on their number.
\<close>

definition blt_params :: "real \<Rightarrow> int \<Rightarrow> bool" where
  "blt_params r mm \<longleftrightarrow> 1 / 10 ^ 6 \<le> r \<and> r \<le> 0.7 * of_int mm \<and> mm \<le> 1000"

definition clear_width :: "real \<Rightarrow> int" where "clear_width r = \<lfloor>5 / r\<rfloor>"

definition step_width :: "real \<Rightarrow> int \<Rightarrow> int \<Rightarrow> int" where
  "step_width r mm cal = min (max 500 cal) \<lfloor>0.7 * of_int mm / r\<rfloor>"

definition max_steps :: "real \<Rightarrow> int \<Rightarrow> int \<Rightarrow> nat" where
  "max_steps r mm cal = nat (max ((7999 + step_width r mm cal) div step_width r mm cal) (150 * clear_width r div step_width r mm cal))"

definition blt_good :: "int \<Rightarrow> int \<Rightarrow> BltEnv \<times> PHD_Point \<Rightarrow> bool" where
  "blt_good mm cal f \<longleftrightarrow> be_maxMove (fst f) = mm \<and> be_calDuration (fst f) = cal"

definition blt_ended :: "BacklashTool \<Rightarrow> bool" where
  "blt_ended t \<longleftrightarrow> blt_state t = BLT_COMPLETED \<or> blt_state t = BLT_ABORTED"

text \<open>The moves so far: clearing pulses, steps north, steps south, the test pulse, and pulses that restore the star.\<close>

definition blt_shape :: "int \<Rightarrow> int \<Rightarrow> BacklashTool \<Rightarrow> nat \<Rightarrow> nat \<Rightarrow> nat \<Rightarrow> int list \<Rightarrow> nat \<Rightarrow> bool" where
  "blt_shape w0 pw t c n m us k \<longleftrightarrow> axis_moves (blt_acts t) =
     replicate c (NORTH, w0) @ replicate n (NORTH, pw) @ replicate m (SOUTH, pw) @ map (Pair SOUTH) us @ replicate k (SOUTH, pw)"

text \<open>The last calls of the tool reset the compensation and end the measurement mode of the guider.\<close>

definition switched_off :: "BacklashTool \<Rightarrow> bool" where
  "switched_off t \<longleftrightarrow> drop (length (blt_acts t) - 2) (blt_acts t) = [ResetBLCState, MeasurementMode False]"

definition blt_phase :: "int \<Rightarrow> int \<Rightarrow> nat \<Rightarrow> BacklashTool \<Rightarrow> nat \<Rightarrow> nat \<Rightarrow> nat \<Rightarrow> int list \<Rightarrow> nat \<Rightarrow> bool" where
  "blt_phase w0 pw N t c n m us k = (case blt_state t of
     BLT_INITIALIZE \<Rightarrow> False
   | BLT_CLEAR_NORTH \<Rightarrow> blt_stepCount t = int c \<and> n = 0 \<and> m = 0 \<and> us = [] \<and> k = 0 \<and> blt_pulseWidth t = w0
   | BLT_STEP_NORTH \<Rightarrow> blt_stepCount t = int n \<and> m = 0 \<and> us = [] \<and> k = 0 \<and> blt_pulseWidth t = pw \<and> blt_northPulseCount t \<le> int N \<and>
       (n > 0 \<longrightarrow> blt_northBLSteps t \<noteq> [])
   | BLT_STEP_SOUTH \<Rightarrow> blt_stepCount t = int m \<and> blt_northPulseCount t = int n \<and> us = [] \<and> k = 0 \<and> blt_pulseWidth t = pw
   | BLT_TEST_CORRECTION \<Rightarrow> blt_stepCount t = 1 \<and> m = n \<and> k = 0 \<and> blt_pulseWidth t = pw
   | BLT_RESTORE \<Rightarrow> blt_stepCount t = int k \<and> m = n \<and> blt_pulseWidth t = pw
   | BLT_WRAPUP \<Rightarrow> m = n
   | BLT_COMPLETED \<Rightarrow> m = n \<and> switched_off t
   | BLT_ABORTED \<Rightarrow> switched_off t)"

definition blt_bounds :: "real \<Rightarrow> nat \<Rightarrow> BacklashTool \<Rightarrow> nat \<Rightarrow> nat \<Rightarrow> nat \<Rightarrow> int list \<Rightarrow> nat \<Rightarrow> bool" where
  "blt_bounds r N t c n m us k \<longleftrightarrow>
     c \<le> 100 \<and> n \<le> N \<and> m \<le> n \<and> length us \<le> 1 \<and> k \<le> 10 \<and> blt_restoreCount t \<le> 10 \<and> blt_lastDecGuideRate t = r"

definition blt_invar :: "real \<Rightarrow> int \<Rightarrow> int \<Rightarrow> nat \<Rightarrow> BacklashTool \<Rightarrow> bool" where
  "blt_invar r w0 pw N t \<longleftrightarrow> (\<exists>c n m us k. blt_shape w0 pw t c n m us k \<and> blt_bounds r N t c n m us k \<and> blt_phase w0 pw N t c n m us k)"

definition blt_left :: "nat \<Rightarrow> BacklashTool \<Rightarrow> nat" where
  "blt_left N t = (case blt_state t of
     BLT_INITIALIZE \<Rightarrow> 2 * N + 117
   | BLT_CLEAR_NORTH \<Rightarrow> nat (100 - blt_stepCount t) + 2 * N + 16
   | BLT_STEP_NORTH \<Rightarrow> nat (blt_northPulseCount t - blt_stepCount t) + N + 14
   | BLT_STEP_SOUTH \<Rightarrow> nat (blt_northPulseCount t - blt_stepCount t) + 13
   | BLT_TEST_CORRECTION \<Rightarrow> 12
   | BLT_RESTORE \<Rightarrow> (if blt_stepCount t = 0 then 11 else nat (blt_restoreCount t - blt_stepCount t) + 1)
   | BLT_WRAPUP \<Rightarrow> 1
   | BLT_COMPLETED \<Rightarrow> 0 | BLT_ABORTED \<Rightarrow> 0)"

lemma blt_do_fields [simp]:
  "blt_state (blt_do as t) = blt_state t" "blt_stepCount (blt_do as t) = blt_stepCount t" "blt_pulseWidth (blt_do as t) = blt_pulseWidth t"
  "blt_northPulseCount (blt_do as t) = blt_northPulseCount t" "blt_restoreCount (blt_do as t) = blt_restoreCount t"
  "blt_lastDecGuideRate (blt_do as t) = blt_lastDecGuideRate t" "blt_northBLSteps (blt_do as t) = blt_northBLSteps t"
  "blt_acts (blt_do as t) = blt_acts t @ as"
  by (simp_all add: blt_do_def)

lemma blt_abort_ok:
  assumes "blt_shape w0 pw t c n m us k" "blt_bounds r N t c n m us k"
  shows "blt_invar r w0 pw N (blt_abort t)" "blt_ended (blt_abort t)"
proof -
  have "blt_shape w0 pw (blt_abort t) c n m us k" "blt_bounds r N (blt_abort t) c n m us k" "blt_state (blt_abort t) = BLT_ABORTED" "switched_off (blt_abort t)"
    using assms by (simp_all add: switched_off_def blt_shape_def blt_bounds_def blt_abort_def blt_CleanUp_def)
  then show "blt_invar r w0 pw N (blt_abort t)" "blt_ended (blt_abort t)"
    unfolding blt_invar_def blt_phase_def blt_ended_def by (simp_all del: not_gr_zero, blast)
qed

lemma blt_wrapup_ok:
  assumes "blt_shape w0 pw t c n n us k" "blt_bounds r N t c n n us k"
  shows "blt_invar r w0 pw N (blt_wrapup t)" "blt_ended (blt_wrapup t)"
proof -
  have "blt_shape w0 pw (blt_wrapup t) c n n us k" "blt_bounds r N (blt_wrapup t) c n n us k" "blt_state (blt_wrapup t) = BLT_COMPLETED" "switched_off (blt_wrapup t)"
    using assms by (simp_all add: switched_off_def blt_shape_def blt_bounds_def blt_wrapup_def blt_CleanUp_def)
  then show "blt_invar r w0 pw N (blt_wrapup t)" "blt_ended (blt_wrapup t)"
    unfolding blt_invar_def blt_phase_def blt_ended_def by (simp_all del: not_gr_zero, blast)
qed

text \<open>The same for the steps: kept invariant, and ended or less left than before.\<close>

definition blt_next :: "real \<Rightarrow> int \<Rightarrow> int \<Rightarrow> nat \<Rightarrow> nat \<Rightarrow> BacklashTool \<Rightarrow> bool" where
  "blt_next r w0 pw N l t \<longleftrightarrow> blt_invar r w0 pw N t \<and> (blt_ended t \<or> blt_left N t < l)"

lemma blt_next_abort: "blt_shape w0 pw t c n m us k \<Longrightarrow> blt_bounds r N t c n m us k \<Longrightarrow> blt_next r w0 pw N l (blt_abort t)"
  using blt_abort_ok by (simp add: blt_next_def)

lemma blt_next_wrapup: "blt_shape w0 pw t c n n us k \<Longrightarrow> blt_bounds r N t c n n us k \<Longrightarrow> blt_next r w0 pw N l (blt_wrapup t)"
  using blt_wrapup_ok by (simp add: blt_next_def)

lemma blt_nextI:
  "blt_shape w0 pw t c n m us k \<Longrightarrow> blt_bounds r N t c n m us k \<Longrightarrow> blt_phase w0 pw N t c n m us k \<Longrightarrow> blt_left N t < l \<Longrightarrow> blt_next r w0 pw N l t"
  unfolding blt_next_def blt_invar_def by blast

lemma blt_restore_ok:
  assumes "blt_shape w0 pw t c n n us k" "blt_bounds r N t c n n us k" "blt_state t = BLT_RESTORE" "blt_stepCount t = int k" "blt_pulseWidth t = pw"
  shows "blt_next r w0 pw N (blt_left N t) (blt_restore e loc t)"
proof -
  define t1 where "t1 = (if blt_stepCount t = 0
                then if \<bar>pY loc - pY (blt_startingPoint t)\<bar> > of_int (be_maxMove e)
                     then t\<lparr>blt_restoreCount :=
                              min (if blt_northRate t = 0 \<or> blt_pulseWidth t = 0 then be_bad e
                                   else c_int (be_bad e) (of_int \<lfloor>\<bar>pY loc - pY (blt_startingPoint t)\<bar> / blt_northRate t / of_int (blt_pulseWidth t)\<rfloor>)) 10,
                            blt_stepCount := 0\<rparr>
                     else t\<lparr>blt_state := BLT_WRAPUP\<rparr>
                else t)"
  have r: "blt_restore e loc t = (if blt_stepCount t1 < blt_restoreCount t1
         then blt_do [ScheduleAxisMove SOUTH (blt_pulseWidth t1)] (t1\<lparr>blt_stepCount := blt_stepCount t1 + 1\<rparr>)
         else blt_wrapup (t1\<lparr>blt_state := BLT_WRAPUP\<rparr>))"
    by (simp only: blt_restore_def Let_def t1_def)
  have 1: "blt_acts t1 = blt_acts t" "blt_restoreCount t1 \<le> 10" "blt_lastDecGuideRate t1 = r" "blt_stepCount t1 = int k" "blt_pulseWidth t1 = pw"
      "blt_state t1 = BLT_RESTORE \<or> blt_state t1 = BLT_WRAPUP \<and> k = 0" "k > 0 \<Longrightarrow> t1 = t"
    using assms by (auto simp: t1_def blt_bounds_def)
  show ?thesis
  proof (cases "blt_stepCount t1 < blt_restoreCount t1")
    case True
    let ?t = "blt_do [ScheduleAxisMove SOUTH (blt_pulseWidth t1)] (t1\<lparr>blt_stepCount := blt_stepCount t1 + 1\<rparr>)"
    have k: "k < 10" using True 1(2,4) by linarith
    have "blt_shape w0 pw ?t c n n us (Suc k)"
      using assms(1) 1 by (simp add: blt_shape_def replicate_append_same)
    moreover have "blt_bounds r N ?t c n n us (Suc k)" using assms(2) 1 k by (simp add: blt_bounds_def)
    moreover have "blt_phase w0 pw N ?t c n n us (Suc k)" using 1(4-6) by (auto simp: blt_phase_def)
    moreover have "blt_left N ?t < blt_left N t"
      using 1(2,4,6,7) True assms(3,4) by (cases "k = 0") (auto simp: blt_left_def)
    ultimately have "blt_next r w0 pw N (blt_left N t) ?t" by (rule blt_nextI)
    then show ?thesis using True by (simp add: r)
  next
    case False
    have "blt_shape w0 pw (t1\<lparr>blt_state := BLT_WRAPUP\<rparr>) c n n us k" "blt_bounds r N (t1\<lparr>blt_state := BLT_WRAPUP\<rparr>) c n n us k"
      using assms(1,2) 1 by (simp_all add: blt_shape_def blt_bounds_def)
    then show ?thesis using False by (simp add: r blt_next_wrapup)
  qed
qed

lemma blt_next_less: "blt_next r w0 pw N l t \<Longrightarrow> l \<le> l' \<Longrightarrow> blt_next r w0 pw N l' t"
  unfolding blt_next_def by linarith

lemma blt_test_ok:
  assumes "blt_shape w0 pw t c n n us 0" "blt_bounds r N t c n n us 0" "blt_state t = BLT_TEST_CORRECTION" "blt_pulseWidth t = pw"
    and "blt_stepCount t = 0 \<and> us = [] \<and> l = 13 \<or> blt_stepCount t = 1 \<and> l = 12"
  shows "blt_next r w0 pw N l (blt_test_correction e loc t)"
proof -
  have fin: "blt_next r w0 pw N l (blt_restore e loc (t1\<lparr>blt_state := BLT_RESTORE, blt_stepCount := 0\<rparr>))"
    if "blt_acts t1 = blt_acts t" "blt_restoreCount t1 = blt_restoreCount t" "blt_lastDecGuideRate t1 = blt_lastDecGuideRate t"
      "blt_pulseWidth t1 = blt_pulseWidth t" for t1
  proof -
    let ?t = "t1\<lparr>blt_state := BLT_RESTORE, blt_stepCount := 0\<rparr>"
    have "blt_shape w0 pw ?t c n n us 0" "blt_bounds r N ?t c n n us 0" using assms(1,2) that by (simp_all add: blt_shape_def blt_bounds_def)
    then have "blt_next r w0 pw N (blt_left N ?t) (blt_restore e loc ?t)" by (rule blt_restore_ok) (simp_all add: that assms(4))
    then show ?thesis by (rule blt_next_less) (use assms(5) in \<open>auto simp: blt_left_def\<close>)
  qed
  show ?thesis
  proof (cases "blt_stepCount t = 0")
    case False
    then show ?thesis using fin[of t] by (simp add: blt_test_correction_def)
  next
    case True
    obtain rslt px ms rate where cb: "ComputeBacklashPx (be_bad e) t = (rslt, px, ms, rate)" by (metis prod_cases4)
    define t1 where "t1 = t\<lparr>blt_Rslt := rslt, blt_backlashResultPx := px, blt_backlashResultMs := ms, blt_northRate := rate\<rparr>"
    have us: "us = []" "l = 13" using assms(5) True by auto
    have 1: "blt_acts t1 = blt_acts t" "blt_restoreCount t1 = blt_restoreCount t" "blt_lastDecGuideRate t1 = blt_lastDecGuideRate t"
        "blt_pulseWidth t1 = blt_pulseWidth t" "blt_stepCount t1 = 0" "blt_state t1 = BLT_TEST_CORRECTION"
      using True assms(3) by (simp_all add: t1_def)
    have e: "blt_test_correction e loc t =
        (if rslt = MEASUREMENT_SANITY \<or> rslt = MEASUREMENT_TOO_FEW_SOUTH then blt_abort t1
         else if ms > 0
              then if px < of_int (be_maxMove e)
                   then blt_do [ScheduleAxisMove SOUTH ms] (t1\<lparr>blt_stepCount := blt_stepCount t1 + 1\<rparr>)
                   else blt_do [ScheduleAxisMove SOUTH (if rate = 0 then be_bad e else c_int (be_bad e) (of_int \<lfloor>0.8 * of_int (be_maxMove e) / rate\<rfloor>))]
                          (t1\<lparr>blt_stepCount := 0, blt_state := BLT_RESTORE\<rparr>)
              else blt_restore e loc (t1\<lparr>blt_state := BLT_RESTORE, blt_stepCount := 0\<rparr>))"
      unfolding blt_test_correction_def Let_def if_P[OF True] cb prod.case t1_def[symmetric] by (rule refl)
    have sh: "blt_shape w0 pw t1 c n n [] 0" "blt_bounds r N t1 c n n [] 0"
      using assms(1,2) 1 us by (simp_all add: blt_shape_def blt_bounds_def)
    have test: "blt_next r w0 pw N l (blt_do [ScheduleAxisMove SOUTH x] (t1\<lparr>blt_stepCount := 1\<rparr>))" for x
      by (rule blt_nextI[of w0 pw _ c n n "[x]" 0])
        (use sh 1 us assms(4) in \<open>simp_all add: blt_shape_def blt_bounds_def blt_phase_def blt_left_def\<close>)
    have large: "blt_next r w0 pw N l (blt_do [ScheduleAxisMove SOUTH x] (t1\<lparr>blt_stepCount := 0, blt_state := BLT_RESTORE\<rparr>))" for x
      by (rule blt_nextI[of w0 pw _ c n n "[x]" 0])
        (use sh 1 us assms(4) in \<open>simp_all add: blt_shape_def blt_bounds_def blt_phase_def blt_left_def\<close>)
    show ?thesis unfolding e using blt_next_abort[OF sh] test large fin[OF 1(1-4)] 1(5) by simp
  qed
qed

lemma blt_south_ok:
  assumes "blt_shape w0 pw t c n m [] 0" "blt_bounds r N t c n m [] 0" "blt_stepCount t = int m" "blt_northPulseCount t = int n"
    and "blt_pulseWidth t = pw" "blt_state t = BLT_STEP_SOUTH" "l = n - m + 13"
  shows "blt_next r w0 pw N l (blt_step_south e loc t)"
proof (cases "m < n")
  case True
  let ?t = "blt_do [ScheduleAxisMove SOUTH (blt_pulseWidth t)] (t\<lparr>blt_southBLSteps := blt_southBLSteps t @ [pY loc], blt_stepCount := blt_stepCount t + 1\<rparr>)"
  have "blt_next r w0 pw N l ?t"
    by (rule blt_nextI[of w0 pw _ c n "Suc m" "[]" 0])
      (use assms True in \<open>simp_all add: blt_shape_def blt_bounds_def blt_phase_def blt_left_def replicate_append_same\<close>)
  then show ?thesis using assms(3,4) True by (simp add: blt_step_south_def)
next
  case False
  let ?t = "t\<lparr>blt_southBLSteps := blt_southBLSteps t @ [pY loc], blt_endSouth := loc, blt_state := BLT_TEST_CORRECTION, blt_stepCount := 0\<rparr>"
  have mn: "m = n" using False assms(2) by (simp add: blt_bounds_def)
  have "blt_shape w0 pw ?t c n n [] 0" "blt_bounds r N ?t c n n [] 0" using assms(1,2) mn by (simp_all add: blt_shape_def blt_bounds_def)
  then have "blt_next r w0 pw N 13 (blt_test_correction e loc ?t)" by (rule blt_test_ok) (simp_all add: assms(5))
  then show ?thesis using assms(3,4,7) mn by (simp add: blt_step_south_def)
qed

lemma blt_north_ok:
  assumes "blt_shape w0 pw t c n 0 [] 0" "blt_bounds r N t c n 0 [] 0" "blt_stepCount t = int n" "blt_northPulseCount t \<le> int N"
    and "blt_pulseWidth t = pw" "n > 0 \<longrightarrow> blt_northBLSteps t \<noteq> []" "blt_state t = BLT_STEP_NORTH"
    and "l = nat (blt_northPulseCount t - int n) + N + 14"
  shows "\<exists>t'. blt_step_north e p loc t = Some t' \<and> blt_next r w0 pw N l t'"
proof -
  obtain t1 where t1: "north_reached loc t = Some t1" "blt_acts t1 = blt_acts t" "blt_restoreCount t1 = blt_restoreCount t"
      "blt_lastDecGuideRate t1 = blt_lastDecGuideRate t" "blt_pulseWidth t1 = pw" "blt_stepCount t1 = int n" "blt_state t1 = BLT_STEP_NORTH"
      "blt_northPulseCount t1 = blt_northPulseCount t" "blt_northBLSteps t1 \<noteq> []"
    using assms by (cases "n > 0") (auto simp: north_reached_def)
  let ?go = "blt_do [ScheduleAxisMove NORTH (blt_pulseWidth t1)]
                  (t1\<lparr>blt_markerPoint := (if blt_stepCount t \<ge> 1 then blt_markerPoint t1 else loc), blt_stepCount := blt_stepCount t1 + 1\<rparr>)"
  let ?t2 = "t1\<lparr>blt_msmtEndTime := be_now e\<rparr>"
  let ?stop = "blt_abort (?t2\<lparr>blt_Rslt := MEASUREMENT_TOO_FEW_NORTH\<rparr>)"
  let ?t3 = "?t2\<lparr>blt_northPulseCount := blt_stepCount ?t2, blt_stepCount := 0, blt_state := BLT_STEP_SOUTH\<rparr>"
  have e: "blt_step_north e p loc t = Some (if blt_stepCount t < blt_northPulseCount t \<and> \<not> no_room e p then ?go
      else if blt_stepCount t < blt_northPulseCount t \<and> of_int (blt_stepCount t) < (0.5 :: real) * of_int (blt_northPulseCount t) then ?stop
      else blt_step_south e loc ?t3)"
    unfolding blt_step_north_def t1(1) Let_def option.case by (rule refl)
  have "blt_next r w0 pw N l ?go" if "blt_stepCount t < blt_northPulseCount t"
    by (rule blt_nextI[of w0 pw _ c "Suc n" 0 "[]" 0])
      (use assms t1 that in \<open>simp_all add: blt_shape_def blt_bounds_def blt_phase_def blt_left_def replicate_append_same\<close>)
  moreover have "blt_next r w0 pw N l ?stop"
    by (rule blt_next_abort[of w0 pw _ c n 0 "[]" 0]) (use assms t1 in \<open>simp_all add: blt_shape_def blt_bounds_def\<close>)
  moreover have "blt_next r w0 pw N l (blt_step_south e loc ?t3)"
  proof (rule blt_next_less)
    show "blt_next r w0 pw N (n + 13) (blt_step_south e loc ?t3)"
      by (rule blt_south_ok[where m = 0 and n = n and c = c]) (use assms t1 in \<open>simp_all add: blt_shape_def blt_bounds_def\<close>)
    show "n + 13 \<le> l" using assms(2,8) by (simp add: blt_bounds_def)
  qed
  ultimately show ?thesis unfolding e by simp
qed

text \<open>The widths of the pulses and their number are in range.\<close>

lemma blt_params_range:
  assumes "blt_params r mm"
  shows "0 < r" "1 \<le> step_width r mm cal" "0 \<le> clear_width r" "clear_width r \<le> 5 * 10 ^ 6"
    "c_int bad (BACKLASH_EXPECTED_DISTANCE * 1.25 / r) = clear_width r" "c_int bad (of_int \<lfloor>0.7 * of_int mm / r\<rfloor>) = \<lfloor>0.7 * of_int mm / r\<rfloor>"
proof -
  have r: "1 / 10 ^ 6 \<le> r" "r \<le> 0.7 * of_int mm" "mm \<le> 1000" using assms by (simp_all add: blt_params_def)
  then show "0 < r" by (meson less_le_trans zero_less_divide_1_iff zero_less_power zero_less_numeral)
  have q: "x / r \<le> x * 10 ^ 6" "0 \<le> x / r" if "0 \<le> x" for x :: real
  proof -
    have "x * 1 \<le> x * (10 ^ 6 * r)" using r(1) that by (intro mult_left_mono) simp_all
    then show "x / r \<le> x * 10 ^ 6" using \<open>0 < r\<close> by (simp add: divide_le_eq)
    show "0 \<le> x / r" using that \<open>0 < r\<close> by simp
  qed
  have "1 \<le> 0.7 * of_int mm / r" using r(2) \<open>0 < r\<close> by (simp add: le_divide_eq)
  then have m1: "1 \<le> \<lfloor>0.7 * of_int mm / r\<rfloor>" by (simp add: le_floor_iff)
  then show "1 \<le> step_width r mm cal" by (simp add: step_width_def)
  have "5 / r \<le> 5 * 10 ^ 6" "0 \<le> 5 / r" using q[of 5] by simp_all
  then show w: "0 \<le> clear_width r" "clear_width r \<le> 5 * 10 ^ 6" by (simp_all add: clear_width_def floor_le_iff)
  have "BACKLASH_EXPECTED_DISTANCE * 1.25 / r = 5 / r" by (simp add: BACKLASH_EXPECTED_DISTANCE_def)
  then have trunc: "c_trunc (BACKLASH_EXPECTED_DISTANCE * 1.25 / r) = clear_width r"
    using \<open>0 \<le> 5 / r\<close> unfolding c_trunc_def clear_width_def by simp
  show "c_int bad (BACKLASH_EXPECTED_DISTANCE * 1.25 / r) = clear_width r"
    using w trunc unfolding c_int_def by simp
  have "0 \<le> 0.7 * real_of_int mm" "0.7 * real_of_int mm \<le> 700" using r \<open>0 < r\<close> by simp_all
  then have "0.7 * of_int mm / r \<le> 700 * 10 ^ 6" using order_trans[OF q(1), of "0.7 * of_int mm" "700 * 10 ^ 6"] by simp
  then have "\<lfloor>0.7 * of_int mm / r\<rfloor> \<le> 700 * 10 ^ 6" by (simp add: floor_le_iff)
  then show "c_int bad (of_int \<lfloor>0.7 * of_int mm / r\<rfloor>) = \<lfloor>0.7 * of_int mm / r\<rfloor>" using m1 by (simp add: c_int_def c_trunc_def)
qed

lemma blt_start_ok:
  assumes "blt_params r mm" "be_maxMove e = mm" "be_calDuration e = cal" "blt_lastDecGuideRate t = r" "blt_stepCount t = int c" "c \<le> 100"
    and "blt_pulseWidth t = clear_width r"
  shows "\<exists>t2. blt_start_north e t = Some t2 \<and> blt_pulseWidth t2 = step_width r mm cal \<and> blt_stepCount t2 = 0 \<and> blt_state t2 = BLT_STEP_NORTH \<and>
    blt_northPulseCount t2 \<le> int (max_steps r mm cal) \<and> blt_acts t2 = blt_acts t \<and> blt_restoreCount t2 = blt_restoreCount t \<and>
    blt_lastDecGuideRate t2 = r"
proof -
  note R = blt_params_range[OF assms(1)]
  let ?w = "clear_width r" and ?p = "step_width r mm cal"
  let ?q = "max (of_int (c_quot (MAX_NORTH_PULSES + ?p - 1) ?p)) (of_int (int c * ?w) * 1.5 / of_int ?p) :: real"
  have p: "1 \<le> ?p" by (rule R(2))
  have pw: "min (max NORTH_PULSE_SIZE (be_calDuration e)) (c_int (be_bad e) (of_int \<lfloor>0.7 * of_int (be_maxMove e) / blt_lastDecGuideRate t\<rfloor>)) = ?p"
    unfolding assms(2-4) R(6) by (simp add: step_width_def NORTH_PULSE_SIZE_def)
  have le: "int c * ?w \<le> 100 * ?w" using assms(6) R(3) by (intro mult_right_mono) simp_all
  have nn: "0 \<le> int c * ?w" using R(3) by simp
  have tot: "\<bar>int c * ?w\<bar> < 2 ^ 31" using le nn R(4) by simp
  have "c_quot (MAX_NORTH_PULSES + ?p - 1) ?p = (7999 + ?p) div ?p" using p by (simp add: c_quot_def MAX_NORTH_PULSES_def)
  moreover have "of_int (int c * ?w) * 1.5 / of_int ?p \<le> of_int (150 * ?w) / (of_int ?p :: real)"
    using le p by (intro divide_right_mono) (simp_all flip: of_int_mult)
  moreover have "0 \<le> of_int (int c * ?w) * 1.5 / (of_int ?p :: real)" using R(3) p by (intro divide_nonneg_nonneg mult_nonneg_nonneg) simp_all
  moreover have "\<lfloor>of_int (150 * ?w) / (of_int ?p :: real)\<rfloor> = 150 * ?w div ?p" by (rule floor_divide_of_int_eq)
  ultimately have q: "0 \<le> \<lfloor>?q\<rfloor>" "\<lfloor>?q\<rfloor> \<le> max ((7999 + ?p) div ?p) (150 * ?w div ?p)" "0 \<le> ?q"
    using floor_mono[of "of_int (int c * ?w) * 1.5 / (of_int ?p :: real)" "of_int (150 * ?w) / (of_int ?p :: real)"]
    by (auto simp: max_def le_floor_iff)
  have "(7999 + ?p) div ?p \<le> 8000" using p zdiv_mono2[of "7999" 1 ?p] by (simp add: div_add_self2)
  moreover have "150 * ?w div ?p \<le> 150 * ?w" using zdiv_mono2[of "150 * ?w" 1 ?p] p R(3) by simp
  ultimately have "max ((7999 + ?p) div ?p) (150 * ?w div ?p) < 2 ^ 31" using R(4) by simp
  then have "\<lfloor>?q\<rfloor> < 2 ^ 31" using q(2) by (rule le_less_trans[rotated])
  then have "c_int (be_bad e) ?q = \<lfloor>?q\<rfloor>" using q(1,3) unfolding c_int_def c_trunc_def by simp
  moreover have "\<lfloor>?q\<rfloor> \<le> int (max_steps r mm cal)" using order_trans[OF q(1,2)] q(2) unfolding max_steps_def by simp
  ultimately have "c_int (be_bad e) ?q \<le> int (max_steps r mm cal)" by simp
  moreover have "blt_start_north e t = Some (t\<lparr>blt_state := BLT_STEP_NORTH, blt_pulseWidth := ?p, blt_stepCount := 0,
      blt_northPulseCount := c_int (be_bad e) ?q, blt_msmtStartTime := be_now e\<rparr>)"
    unfolding blt_start_north_def Let_def pw assms(5,7) using tot p by simp
  ultimately show ?thesis by (simp add: assms(4))
qed

lemma blt_clear_ok:
  assumes "blt_params r mm" "be_maxMove e = mm" "be_calDuration e = cal" "w0 = clear_width r" "pw = step_width r mm cal" "N = max_steps r mm cal"
    and "blt_shape w0 pw t0 c 0 0 [] 0" "blt_bounds r N t0 c 0 0 [] 0" "blt_stepCount t0 = int c" "blt_pulseWidth t0 = w0" "blt_state t0 = BLT_CLEAR_NORTH"
  shows "\<exists>t'. blt_clear_north e p loc d t0 = Some t' \<and> blt_next r w0 pw N (blt_left N t0) t'"
proof (cases "c = 0")
  case True
  let ?t = "blt_do [ScheduleAxisMove NORTH (blt_pulseWidth t0)] (t0\<lparr>blt_stepCount := 1\<rparr>)"
  have "blt_next r w0 pw N (blt_left N t0) ?t"
    by (rule blt_nextI[of w0 pw _ 1 0 0 "[]" 0])
      (use assms True in \<open>simp_all add: blt_shape_def blt_bounds_def blt_phase_def blt_left_def\<close>)
  then show ?thesis using True assms(9) by (simp add: blt_clear_north_def)
next
  case False
  define t where "t = count_clearing d t0"
  have t: "blt_acts t = blt_acts t0" "blt_restoreCount t = blt_restoreCount t0" "blt_lastDecGuideRate t = r" "blt_pulseWidth t = w0"
      "blt_stepCount t = int c" "blt_state t = BLT_CLEAR_NORTH"
    using assms(8-11) by (simp_all add: t_def count_clearing_def blt_bounds_def)
  have sh: "blt_shape w0 pw t c 0 0 [] 0" "blt_bounds r N t c 0 0 [] 0" using assms(7,8) t by (simp_all add: blt_shape_def blt_bounds_def)
  define more where "more = (blt_acceptedMoves t < BACKLASH_MIN_COUNT)"
  define exempt where "exempt = (\<bar>blt_cumClearingDistance t\<bar> > BACKLASH_EXEMPTION_DISTANCE)"
  define t1 where "t1 = (if more \<and> exempt then t\<lparr>blt_backlashExemption := True\<rparr> else t)"
  have t1: "blt_acts t1 = blt_acts t0" "blt_restoreCount t1 = blt_restoreCount t0" "blt_lastDecGuideRate t1 = r" "blt_pulseWidth t1 = w0" "blt_stepCount t1 = int c"
    "more \<and> exempt \<Longrightarrow> blt_backlashExemption t1" "blt_acceptedMoves t1 = blt_acceptedMoves t" using t by (simp_all add: t1_def)
  have c: "c \<le> 100" using assms(8) by (simp add: blt_bounds_def)
  have e: "blt_clear_north e p loc d t0 =
      (if more \<and> \<not> blt_stepCount t < MAX_CLEARING_STEPS then Some (blt_abort (t\<lparr>blt_Rslt := MEASUREMENT_BL_NOT_CLEARED\<rparr>))
       else if more \<and> \<not> exempt \<and> \<not> no_room e p
       then Some (blt_do [ScheduleAxisMove NORTH (blt_pulseWidth t)]
              (t\<lparr>blt_stepCount := blt_stepCount t + 1, blt_markerPoint := loc, blt_lastClearRslt := d\<rparr>))
       else if blt_acceptedMoves t1 \<ge> BACKLASH_MIN_COUNT \<or> blt_backlashExemption t1 \<or> no_room e p
            then do { t2 \<leftarrow> blt_start_north e t1; blt_step_north e p loc t2 }
            else blt_step_north e p loc t1)"
    using False assms(9) by (simp add: blt_clear_north_def Let_def t_def more_def exempt_def t1_def)
  have 1: "blt_next r w0 pw N (blt_left N t0) (blt_abort (t\<lparr>blt_Rslt := MEASUREMENT_BL_NOT_CLEARED\<rparr>))"
    by (rule blt_next_abort[of w0 pw _ c 0 0 "[]" 0]) (use sh in \<open>simp_all add: blt_shape_def blt_bounds_def\<close>)
  have 2: "blt_next r w0 pw N (blt_left N t0) (blt_do [ScheduleAxisMove NORTH (blt_pulseWidth t)]
              (t\<lparr>blt_stepCount := blt_stepCount t + 1, blt_markerPoint := loc, blt_lastClearRslt := d\<rparr>))"
    if "blt_stepCount t < MAX_CLEARING_STEPS"
    by (rule blt_nextI[of w0 pw _ "Suc c" 0 0 "[]" 0])
      (use sh t that assms(9,11) in \<open>simp_all add: blt_shape_def blt_bounds_def blt_phase_def blt_left_def MAX_CLEARING_STEPS_def replicate_append_same\<close>)
  obtain t2 where t2: "blt_start_north e t1 = Some t2" "blt_pulseWidth t2 = pw" "blt_stepCount t2 = 0" "blt_state t2 = BLT_STEP_NORTH"
      "blt_northPulseCount t2 \<le> int N" "blt_acts t2 = blt_acts t0" "blt_restoreCount t2 = blt_restoreCount t0" "blt_lastDecGuideRate t2 = r"
    using blt_start_ok[OF assms(1-3) t1(3,5) c] t1 assms(4-6) by auto
  obtain t3 where t3: "blt_step_north e p loc t2 = Some t3" "blt_next r w0 pw N (nat (blt_northPulseCount t2) + N + 14) t3"
    using blt_north_ok[of w0 pw t2 c 0 r N "nat (blt_northPulseCount t2) + N + 14" e p loc] assms(7,8) t2
    by (auto simp: blt_shape_def blt_bounds_def)
  have 3: "blt_next r w0 pw N (blt_left N t0) t3"
    by (rule blt_next_less[OF t3(2)]) (use t2(5) assms(11) in \<open>simp add: blt_left_def\<close>)
  have 4: "blt_acceptedMoves t1 \<ge> BACKLASH_MIN_COUNT \<or> blt_backlashExemption t1 \<or> no_room e p" if "\<not> (more \<and> \<not> exempt \<and> \<not> no_room e p)"
    using that t1(6,7) by (auto simp: more_def)
  show ?thesis unfolding e using 1 2 3 4 t2(1) t3(1) by auto
qed

abbreviation blt_frame :: "BacklashTool \<Rightarrow> BltEnv \<times> PHD_Point \<Rightarrow> BacklashTool option" where
  "blt_frame t f \<equiv> DecMeasurementStep (fst f) (snd f) t"

lemma blt_frame_ok:
  assumes "blt_params r mm" "blt_invar r (clear_width r) (step_width r mm cal) (max_steps r mm cal) t" "blt_good mm cal f"
  shows "\<exists>t'. blt_frame t f = Some t' \<and> blt_invar r (clear_width r) (step_width r mm cal) (max_steps r mm cal) t' \<and> (blt_ended t \<longrightarrow> blt_ended t') \<and>
    (blt_ended t' \<or> blt_left (max_steps r mm cal) t' < blt_left (max_steps r mm cal) t)"
proof -
  define w0 pw N where p: "w0 = clear_width r" "pw = step_width r mm cal" "N = max_steps r mm cal"
  obtain c n m us k where i: "blt_shape w0 pw t c n m us k" "blt_bounds r N t c n m us k" "blt_phase w0 pw N t c n m us k"
    using assms(2) unfolding blt_invar_def p by blast
  obtain err loc where l: "TransformCameraCoordinatesToMountCoordinates (be_mount (fst f)) (snd f) PHD_Point_invalid = (err, loc)" by fastforce
  have *: "\<exists>t'. blt_frame t f = Some t' \<and> blt_next r w0 pw N (blt_left N t) t' \<and> (blt_ended t \<longrightarrow> blt_ended t')"
  proof (cases err)
    case True
    then show ?thesis using l blt_next_abort[OF i(1,2)] blt_abort_ok(2)[OF i(1,2)] by (simp add: DecMeasurementStep_def)
  next
    case False
    define d where "d = pY loc - pY (blt_markerPoint t)"
    define u where "u = t\<lparr>blt_cumClearingDistance := blt_cumClearingDistance t + d\<rparr>"
    have lf: "blt_left N u = blt_left N t" by (cases "blt_state t") (simp_all add: u_def blt_left_def)
    have u: "blt_state u = blt_state t" "blt_shape w0 pw u c n m us k" "blt_bounds r N u c n m us k"
      using i by (simp_all add: u_def blt_shape_def blt_bounds_def)
    have ph: "blt_phase w0 pw N u c n m us k"
      using i(3) by (cases "blt_state t") (simp_all add: u_def blt_phase_def switched_off_def)
    note u = u(1) lf u(2,3) ph
    have ni: "blt_state t \<noteq> BLT_INITIALIZE" using i(3) by (auto simp: blt_phase_def)
    have e: "blt_frame t f = (case blt_state u of
                   BLT_INITIALIZE \<Rightarrow> Some (blt_initialize (fst f) loc u)
                 | BLT_CLEAR_NORTH \<Rightarrow> blt_clear_north (fst f) (snd f) loc d u
                 | BLT_STEP_NORTH \<Rightarrow> blt_step_north (fst f) (snd f) loc u
                 | BLT_STEP_SOUTH \<Rightarrow> Some (blt_step_south (fst f) loc u)
                 | BLT_TEST_CORRECTION \<Rightarrow> Some (blt_test_correction (fst f) loc u)
                 | BLT_RESTORE \<Rightarrow> Some (blt_restore (fst f) loc u)
                 | BLT_WRAPUP \<Rightarrow> Some (blt_wrapup u)
                 | BLT_COMPLETED \<Rightarrow> Some u
                 | BLT_ABORTED \<Rightarrow> Some (blt_CleanUp u))"
      by (simp only: DecMeasurementStep_def l prod.case Let_def if_P[OF ni] if_not_P[OF False] d_def u_def)
    note g = assms(3)[unfolded blt_good_def]
    show ?thesis
    proof (cases "blt_state u")
      case BLT_INITIALIZE
      then show ?thesis using u(5) by (simp add: blt_phase_def)
    next
      case BLT_CLEAR_NORTH
      then show ?thesis using blt_clear_ok[OF assms(1) _ _ p, of "fst f" u c "snd f" loc d] u g
        by (auto simp: e blt_phase_def blt_ended_def)
    next
      case BLT_STEP_NORTH
      then show ?thesis using blt_north_ok[of w0 pw u c n r N "blt_left N u" "fst f" "snd f" loc] u
        by (auto simp: e blt_phase_def blt_ended_def blt_left_def)
    next
      case BLT_STEP_SOUTH
      then have s: "blt_stepCount u = int m" "blt_northPulseCount u = int n" "us = []" "k = 0" "blt_pulseWidth u = pw"
        using u(5) by (simp_all add: blt_phase_def)
      then have "blt_left N t = n - m + 13" unfolding u(2)[symmetric] using BLT_STEP_SOUTH by (simp add: blt_left_def)
      then have "blt_next r w0 pw N (blt_left N t) (blt_step_south (fst f) loc u)"
        using blt_south_ok[of w0 pw u c n m r N "blt_left N t" "fst f" loc] u(3,4) s BLT_STEP_SOUTH by simp
      then show ?thesis using BLT_STEP_SOUTH u(1) by (simp add: e blt_ended_def)
    next
      case BLT_TEST_CORRECTION
      then show ?thesis using blt_test_ok[of w0 pw u c n us r N "blt_left N u" "fst f" loc] u
        by (auto simp: e blt_phase_def blt_ended_def blt_left_def)
    next
      case BLT_RESTORE
      then show ?thesis using blt_restore_ok[of w0 pw u c n us k r N "fst f" loc] u
        by (auto simp: e blt_phase_def blt_ended_def)
    next
      case BLT_WRAPUP
      then show ?thesis using blt_next_wrapup[of w0 pw u c n us k r N] u by (auto simp: e blt_phase_def blt_ended_def)
    next
      case BLT_COMPLETED
      moreover have "blt_invar r w0 pw N u" unfolding blt_invar_def using u(3-5) by blast
      ultimately show ?thesis using u(1) unfolding e blt_next_def blt_ended_def by simp
    next
      case BLT_ABORTED
      have "blt_shape w0 pw (blt_CleanUp u) c n m us k" "blt_bounds r N (blt_CleanUp u) c n m us k" "blt_phase w0 pw N (blt_CleanUp u) c n m us k"
        using u(3-5) BLT_ABORTED by (simp_all add: blt_CleanUp_def blt_shape_def blt_bounds_def blt_phase_def switched_off_def)
      then have "blt_invar r w0 pw N (blt_CleanUp u)" unfolding blt_invar_def by blast
      then have "blt_next r w0 pw N (blt_left N t) (blt_CleanUp u)"
        using BLT_ABORTED unfolding blt_next_def blt_ended_def by (simp add: blt_CleanUp_def)
      then show ?thesis using BLT_ABORTED u(1) by (simp add: e blt_ended_def blt_CleanUp_def)
    qed
  qed
  then show ?thesis unfolding blt_next_def p[symmetric] by blast
qed

interpretation blt: measured_machine blt_frame "blt_good mm cal"
    "\<lambda>t. blt_params r mm \<and> blt_invar r (clear_width r) (step_width r mm cal) (max_steps r mm cal) t" "blt_left (max_steps r mm cal)" blt_ended
  for r :: real and mm cal :: int
proof
  show "\<exists>s'. blt_frame s e = Some s' \<and> (blt_params r mm \<and> blt_invar r (clear_width r) (step_width r mm cal) (max_steps r mm cal) s') \<and>
      (blt_ended s \<longrightarrow> blt_ended s') \<and> (blt_ended s' \<or> blt_left (max_steps r mm cal) s' < blt_left (max_steps r mm cal) s)"
    if "blt_params r mm \<and> blt_invar r (clear_width r) (step_width r mm cal) (max_steps r mm cal) s" "blt_good mm cal e" for s e
    using blt_frame_ok[of r mm cal s e] that by blast
qed

lemma blt_started:
  assumes "blt_params r mm" "blt_lastDecGuideRate t0 = r" "blt_restoreCount t0 \<le> 10" "blt_acts t0 = []"
  shows "\<exists>t. StartMeasurement e p drift t0 = Some t \<and> blt_invar r (clear_width r) pw N t \<and> (blt_ended t \<or> blt_left N t = 2 * N + 116)"
proof -
  define t1 where "t1 = t0\<lparr>blt_state := BLT_INITIALIZE, blt_driftPerSec := drift / 60, blt_northBLSteps := [],
       blt_southBLSteps := [], blt_northStats := as_ClearAll (blt_northStats t0)\<rparr>"
  have t1: "blt_state t1 = BLT_INITIALIZE" "blt_lastDecGuideRate t1 = r" "blt_restoreCount t1 \<le> 10" "blt_acts t1 = []"
    using assms by (simp_all add: t1_def)
  have s: "StartMeasurement e p drift t0 = DecMeasurementStep e p t1" by (simp add: StartMeasurement_def t1_def)
  obtain err loc where l: "TransformCameraCoordinatesToMountCoordinates (be_mount e) p PHD_Point_invalid = (err, loc)" by fastforce
  have sh: "blt_shape (clear_width r) pw t1 0 0 0 [] 0" "blt_bounds r N t1 0 0 0 [] 0" using t1 by (simp_all add: blt_shape_def blt_bounds_def)
  show ?thesis
  proof (cases err)
    case True
    then show ?thesis using s l blt_abort_ok[OF sh] by (simp add: DecMeasurementStep_def)
  next
    case False
    note R = blt_params_range[OF assms(1)]
    have e: "DecMeasurementStep e p t1 = Some (blt_initialize e loc t1)" using False l t1(1) by (simp add: DecMeasurementStep_def)
    let ?t = "blt_initialize e loc t1"
    have f: "blt_state ?t = BLT_CLEAR_NORTH" "blt_stepCount ?t = 0" "blt_pulseWidth ?t = clear_width r" "blt_restoreCount ?t \<le> 10"
        "blt_lastDecGuideRate ?t = r" "axis_moves (blt_acts ?t) = []"
      using t1 R(1) R(5) by (simp_all add: blt_initialize_def Let_def)
    have "blt_shape (clear_width r) pw ?t 0 0 0 [] 0" "blt_bounds r N ?t 0 0 0 [] 0" "blt_phase (clear_width r) pw N ?t 0 0 0 [] 0"
      using f by (simp_all add: blt_shape_def blt_bounds_def blt_phase_def)
    then have "blt_invar r (clear_width r) pw N ?t" unfolding blt_invar_def by blast
    moreover have "blt_left N ?t = 2 * N + 116" using f by (simp add: blt_left_def)
    ultimately show ?thesis using s e by simp
  qed
qed

text \<open>C17: backlash_measurement_ends.  However the star moves, a measurement ends within the number of frames that its pulses
give, without an undefined operation: at most a hundred clearing pulses, steps north, not more steps south (as many when
it completes), at most one test pulse and at most ten pulses that restore the star; in the end the compensation is
reset and the measurement mode of the guider is off.\<close>

theorem backlash_measurement_ends:
  assumes "blt_params r mm" "blt_lastDecGuideRate t0 = r" "blt_restoreCount t0 \<le> 10" "blt_acts t0 = []"
    and "\<forall>f\<in>set fs. blt_good mm cal f" "2 * max_steps r mm cal + 117 \<le> length fs"
  shows "\<exists>t t'. StartMeasurement e p drift t0 = Some t \<and> run_partial blt_frame t fs = Some t' \<and> blt_ended t' \<and> switched_off t' \<and>
    (\<exists>c n m us k. c \<le> 100 \<and> n \<le> max_steps r mm cal \<and> m \<le> n \<and> length us \<le> 1 \<and> k \<le> 10 \<and> (blt_state t' = BLT_COMPLETED \<longrightarrow> m = n) \<and>
       axis_moves (blt_acts t') = replicate c (NORTH, clear_width r) @ replicate n (NORTH, step_width r mm cal) @
         replicate m (SOUTH, step_width r mm cal) @ map (Pair SOUTH) us @ replicate k (SOUTH, step_width r mm cal))"
proof -
  let ?w = "clear_width r" and ?p = "step_width r mm cal" and ?N = "max_steps r mm cal"
  obtain t where t: "StartMeasurement e p drift t0 = Some t" "blt_invar r ?w ?p ?N t" "blt_ended t \<or> blt_left ?N t < length fs"
    using blt_started[OF assms(1-4), of e p drift ?p ?N] assms(6) by force
  obtain t' where t': "run_partial blt_frame t fs = Some t'" "blt_invar r ?w ?p ?N t'" "blt_ended t'"
    using blt.run_ends[of r mm cal t fs] t(2,3) assms(1,5) by blast
  then show ?thesis using t(1) unfolding blt_invar_def blt_shape_def blt_bounds_def blt_phase_def blt_ended_def by fastforce
qed

definition example_blt_env :: BltEnv where
  "example_blt_env = \<lparr>be_mount = Mount_new, be_lastCalibration = Calibration_default\<lparr>yRate := 1 / 100, isValid := True\<rparr>,
     be_frameSize = (640, 480), be_maxMove = 15, be_calDuration = 750, be_now = 0, be_bad = 0\<rparr>"

lemma example_widths: "clear_width (1 / 100) = 500" "step_width (1 / 100) 15 750 = 750" "max_steps (1 / 100) 15 750 = 100"
proof -
  have f: "\<lfloor>0.7 * of_int 15 / (1 / 100 :: real)\<rfloor> = 1050" "\<lfloor>5 / (1 / 100) :: real\<rfloor> = 500" by simp_all
  show w: "clear_width (1 / 100) = 500" "step_width (1 / 100) 15 750 = 750" unfolding clear_width_def step_width_def f by simp_all
  show "max_steps (1 / 100) 15 750 = 100" unfolding max_steps_def w by simp
qed

theorem backlash_measurement_ends_witness:
  "\<exists>t t'. StartMeasurement example_blt_env (PHD_Point_new 100 100) 0 (BacklashTool_new example_blt_env) = Some t \<and>
     run_partial blt_frame t (replicate 320 (example_blt_env, PHD_Point_new 100 103)) = Some t' \<and> blt_ended t'"
proof -
  have "blt_params (1 / 100) 15" by (simp add: blt_params_def)
  then show ?thesis
    using backlash_measurement_ends[of "1 / 100" 15 "BacklashTool_new example_blt_env" "replicate 320 (example_blt_env, PHD_Point_new 100 103)" 750
        example_blt_env "PHD_Point_new 100 100" 0]
    by (simp add: BacklashTool_new_def blt_GetLastDecGuideRate_def example_blt_env_def blt_good_def example_widths) blast
qed

section \<open>What is measured\<close>

text \<open>
  An ideal mount moves the star by \<open>d\<close> with each pulse; going south it first takes up the backlash of \<open>b\<close> pixels.  These are the
  positions after \<open>j\<close> pulses to the south.
\<close>

definition south_position :: "real \<Rightarrow> real \<Rightarrow> real \<Rightarrow> nat \<Rightarrow> real" where
  "south_position b d y j = y - max 0 (real j * d - b)"

definition ideal_stats :: "real \<Rightarrow> nat \<Rightarrow> AxisStats" where
  "ideal_stats d c = fold (\<lambda>i a. AddGuideInfo a (real i) d 0) [1..<Suc c] AxisStats_new"

lemma ideal_stats_positions: "map StarPos (guidingEntries (ideal_stats d c)) = replicate c d" "sumY (ideal_stats d c) = real c * d"
proof -
  have "map StarPos (guidingEntries (fold (\<lambda>i a. AddGuideInfo a (real i) d 0) is a)) = map StarPos (guidingEntries a) @ replicate (length is) d"
    "sumY (fold (\<lambda>i a. AddGuideInfo a (real i) d 0) is a) = sumY a + real (length is) * d" for "is" and a :: AxisStats
    by (induction "is" arbitrary: a) (simp_all add: algebra_simps)
  from this[of "[1..<Suc c]" AxisStats_new]
  show "map StarPos (guidingEntries (ideal_stats d c)) = replicate c d" "sumY (ideal_stats d c) = real c * d"
    by (simp_all add: ideal_stats_def AxisStats_new_def InitializeScalars_def del: upt_Suc)
qed

lemma ideal_stats_summary:
  assumes "2 \<le> c"
  shows "GetMedian (ideal_stats d c) = d" "as_GetSum (ideal_stats d c) = real c * d" "GetCount (ideal_stats d c) = of_nat c"
proof -
  have "length (guidingEntries (ideal_stats d c)) = c" using arg_cong[OF ideal_stats_positions(1), of length] by simp
  moreover have "sort (replicate c d) = replicate c d" by (simp add: sorted_sort_id)
  ultimately show "GetMedian (ideal_stats d c) = d" "as_GetSum (ideal_stats d c) = real c * d" "GetCount (ideal_stats d c) = of_nat c"
    using assms ideal_stats_positions by (simp_all add: GetMedian_def as_GetSum_def GetCount_def Let_def)
qed

lemma south_scan_step:
  assumes "Suc j < M"
  shows "south_scan E dr nR nD (map p [j..<M]) step early good prev =
     (let mv = p (Suc j) - p j; e = early + mv
      in if mv < 0 \<and> (\<bar>mv\<bar> \<ge> E \<or> \<bar>mv + prev / 2\<bar> > E)
         then if good + 1 = 2 then judge_backlash nR nD (of_int step * E - \<bar>e - of_int step * dr\<bar>)
              else south_scan E dr nR nD (map p [Suc j..<M]) (step + 1) e (good + 1) mv
         else south_scan E dr nR nD (map p [Suc j..<M]) (step + 1) e (if good > 0 then good - 1 else good) mv)"
proof -
  have "[j..<M] = j # Suc j # [Suc (Suc j)..<M]" "[Suc j..<M] = Suc j # [Suc (Suc j)..<M]" using assms by (simp_all add: upt_conv_Cons)
  then show ?thesis by (simp only: list.map south_scan.simps)
qed

text \<open>While the backlash is taken up nothing moves.\<close>

lemma south_scan_quiet:
  assumes "0 < d" "0 < E" "real q * d \<le> b" "q < M" "j \<le> q"
  shows "south_scan E dr nR nD (map (south_position b d y) [0..<M]) 1 0 0 0 = south_scan E dr nR nD (map (south_position b d y) [j..<M]) (int j + 1) 0 0 0"
  using assms(5)
proof (induction j)
  case (Suc j)
  have "real j * d \<le> real q * d" "real (Suc j) * d \<le> real q * d" using Suc.prems assms(1) by (simp_all add: mult_right_mono)
  then have "south_position b d y (Suc j) = y" "south_position b d y j = y" using assms(3) by (simp_all add: south_position_def max_def)
  moreover have "Suc j < M" using Suc.prems assms(4) by simp
  ultimately show ?case using Suc assms(2) by (simp add: south_scan_step add.commute)
qed simp

lemma south_position_moved: "b \<le> real j * d \<Longrightarrow> south_position b d y j = y - (real j * d - b)"
  by (simp add: south_position_def max_def)

lemma south_scan_ideal:
  assumes d: "0 < d" and q: "real q * d \<le> b" "b < (real q + 1) * d" and M: "q + 3 < M"
  shows "\<exists>s. (s = q + 2 \<or> s = q + 3) \<and> south_scan (0.9 * d) 0 nR nD (map (south_position b d y) [0..<M]) 1 0 0 0 =
    judge_backlash nR nD (b - 0.1 * real s * d)"
proof -
  define p where "p = south_position b d y"
  have b0: "0 \<le> b" using q(1) d by (meson less_imp_le mult_nonneg_nonneg of_nat_0_le_iff order_trans)
  have p: "p q = y" using q(1) by (simp add: p_def south_position_def max_def)
  have p1: "p (Suc q) = y - ((real q + 1) * d - b)" using q(2) by (simp add: p_def south_position_moved add.commute)
  have p2: "p (Suc (Suc q)) = y - ((real q + 2) * d - b)" and p3: "p (Suc (Suc (Suc q))) = y - ((real q + 3) * d - b)"
    unfolding p_def by (subst south_position_moved; use q(2) d in \<open>simp add: algebra_simps\<close>)+
  let ?f = "(real q + 1) * d - b"
  have f: "0 < ?f" "?f \<le> d" using q by (simp_all add: algebra_simps)
  have quiet: "south_scan (0.9 * d) 0 nR nD (map p [0..<M]) 1 0 0 0 = south_scan (0.9 * d) 0 nR nD (map p [q..<M]) (int q + 1) 0 0 0"
    unfolding p_def by (rule south_scan_quiet[OF d _ q(1)]) (use d M in simp_all)
  have step1: "south_scan (0.9 * d) 0 nR nD (map p [q..<M]) (int q + 1) 0 0 0 =
      (if 0.9 * d \<le> ?f then south_scan (0.9 * d) 0 nR nD (map p [Suc q..<M]) (2 + int q) (- ?f) 1 (- ?f)
       else south_scan (0.9 * d) 0 nR nD (map p [Suc q..<M]) (2 + int q) (- ?f) 0 (- ?f))"
    using M f by (subst south_scan_step) (simp_all add: p p1 Let_def)
  have m2: "p (Suc (Suc q)) - p (Suc q) = - d" "p (Suc (Suc (Suc q))) - p (Suc (Suc q)) = - d" unfolding p1 p2 p3 by (simp_all add: algebra_simps)
  have big: "- d < 0 \<and> (0.9 * d \<le> \<bar>- d\<bar> \<or> X)" for X using d by simp
  show ?thesis
  proof (cases "0.9 * d \<le> ?f")
    case True
    have "south_scan (0.9 * d) 0 nR nD (map p [Suc q..<M]) (2 + int q) (- ?f) 1 (- ?f) =
        judge_backlash nR nD (of_int (2 + int q) * (0.9 * d) - \<bar>- ?f + - d - of_int (2 + int q) * 0\<bar>)"
      by (subst south_scan_step) (use M in \<open>simp_all only: m2 big Let_def if_True one_add_one, simp\<close>)
    also have "of_int (2 + int q) * (0.9 * d) - \<bar>- ?f + - d - of_int (2 + int q) * 0\<bar> = b - 0.1 * real (q + 2) * d"
      using f d by (simp add: abs_of_neg field_simps)
    finally show ?thesis using quiet step1 True unfolding p_def by (intro exI[of _ "q + 2"]) simp
  next
    case False
    have "south_scan (0.9 * d) 0 nR nD (map p [Suc q..<M]) (2 + int q) (- ?f) 0 (- ?f) =
        south_scan (0.9 * d) 0 nR nD (map p [Suc (Suc q)..<M]) (2 + int q + 1) (- ?f + - d) (0 + 1) (- d)"
      by (subst south_scan_step) (use M in \<open>simp_all only: m2 big Let_def if_True, simp_all\<close>)
    also have "\<dots> = judge_backlash nR nD (of_int (2 + int q + 1) * (0.9 * d) - \<bar>- ?f + - d + - d - of_int (2 + int q + 1) * 0\<bar>)"
      by (subst south_scan_step) (use M in \<open>simp_all only: m2 big Let_def if_True add_0 one_add_one, simp_all\<close>)
    also have "of_int (2 + int q + 1) * (0.9 * d) - \<bar>- ?f + - d + - d - of_int (2 + int q + 1) * 0\<bar> = b - 0.1 * real (q + 3) * d"
      using f d by (simp add: abs_of_neg field_simps)
    finally show ?thesis using quiet step1 False unfolding p_def by (intro exI[of _ "q + 3"]) simp
  qed
qed

text \<open>C20: backlash_of_ideal_mount.  For a mount without drift and noise that moves by d with each pulse, the
measured backlash is that of the mount less a tenth of the pulses south up to the second full move: between 0.9 b - 0.3 d
and 0.9 b (none when negative).  The rate is exact, and the result is valid unless it is large for the moves north.\<close>

theorem backlash_of_ideal_mount:
  assumes "0 < d" "0 \<le> b" "0 < blt_pulseWidth t" "3 \<le> c" "c < 2 ^ 31" "length (blt_northBLSteps t) = c + 1" "blt_driftPerSec t = 0"
    and "blt_northStats t = ideal_stats d c" "blt_southBLSteps t = map (south_position b d y) [0..<M]" "b / d + 3 < real M"
    and "d * d < 600 * of_int (blt_pulseWidth t)"
  shows "\<exists>px. 0.9 * b - 0.3 * d \<le> px \<and> px \<le> 0.9 * b \<and>
    ComputeBacklashPx bad t = (if px \<ge> 0.7 * (real c * d) then MEASUREMENT_TOO_FEW_NORTH else MEASUREMENT_VALID, max 0 px,
      c_int bad (max 0 px / (d / of_int (blt_pulseWidth t))), d / of_int (blt_pulseWidth t))"
proof -
  let ?pw = "of_int (blt_pulseWidth t) :: real"
  define q where "q = nat \<lfloor>b / d\<rfloor>"
  have bd: "0 \<le> b / d" using assms(1,2) by simp
  then have qr: "real q \<le> b / d" "b / d < real q + 1" by (simp_all add: q_def)
  have "real (q + 3) < real M" using qr(1) assms(10) by simp
  then have q: "real q * d \<le> b" "b < (real q + 1) * d" "q + 3 < M"
    using qr assms(1) unfolding of_nat_less_iff by (simp_all add: le_divide_eq divide_less_eq)
  obtain s where s: "s = q + 2 \<or> s = q + 3" "south_scan (0.9 * d) 0 (d / ?pw) (real c * d) (map (south_position b d y) [0..<M]) 1 0 0 0 =
      judge_backlash (d / ?pw) (real c * d) (b - 0.1 * real s * d)"
    using south_scan_ideal[OF assms(1) q] by blast
  define px where "px = b - 0.1 * real s * d"
  have "(real q + 1) * d \<le> real s * d" "real s * d \<le> (real q + 3) * d" using s(1) assms(1) by (auto intro: mult_right_mono)
  then have px: "0.9 * b - 0.3 * d \<le> px" "px \<le> 0.9 * b" using q(1,2) by (simp_all add: px_def algebra_simps)
  have pw: "0 < ?pw" using assms(3) by simp
  have "- 0.3 * d \<le> px" using px(1) assms(2) by simp
  then have "- 0.3 * d * (d / ?pw) \<le> px * (d / ?pw)" using assms(1) pw by (intro mult_right_mono) simp_all
  moreover have "d * d / ?pw < 600" using assms(11) pw by (simp add: divide_less_eq)
  ultimately have sane: "\<not> px * (d / ?pw) < - 200" by simp
  note st = ideal_stats_summary[of c d]
  have cnt: "of_int (sint (GetCount (blt_northStats t))) = real c"
    using assms(4,5) st(3) unfolding assms(8) by (simp add: signed_of_nat signed_take_bit_int_eq_self)
  have "ComputeBacklashPx bad t = (let (rslt, blPx) = judge_backlash (d / ?pw) (real c * d) px in (rslt, blPx, int_quotient bad blPx (d / ?pw), d / ?pw))"
    using assms(1,4,6,7,9) st pw s(2) unfolding ComputeBacklashPx_def Let_def cnt px_def[symmetric] by (simp add: assms(8))
  then have "ComputeBacklashPx bad t = (if px \<ge> 0.7 * (real c * d) then MEASUREMENT_TOO_FEW_NORTH else MEASUREMENT_VALID, max 0 px,
      c_int bad (max 0 px / (d / ?pw)), d / ?pw)"
    using sane assms(1) pw by (simp add: judge_backlash_def int_quotient_def max_def)
  then show ?thesis using px by blast
qed

definition example_measured :: BacklashTool where
  "example_measured = (BacklashTool_new example_blt_env)\<lparr>blt_pulseWidth := 500, blt_northBLSteps := [0, 5, 10, 15, 20, 25, 30, 35, 40],
     blt_northStats := ideal_stats 5 8, blt_southBLSteps := map (south_position 10 5 40) [0..<9]\<rparr>"

theorem backlash_of_ideal_mount_witness:
  "\<exists>px. 7.5 \<le> px \<and> px \<le> 9 \<and> ComputeBacklashPx 0 example_measured = (MEASUREMENT_VALID, px, c_int 0 (px / (1 / 100)), 1 / 100)"
proof -
  have "\<exists>px. 0.9 * 10 - 0.3 * 5 \<le> px \<and> px \<le> 0.9 * 10 \<and> ComputeBacklashPx 0 example_measured =
      (if px \<ge> 0.7 * (real 8 * 5) then MEASUREMENT_TOO_FEW_NORTH else MEASUREMENT_VALID, max 0 px,
       c_int 0 (max 0 px / (5 / of_int (blt_pulseWidth example_measured))), 5 / of_int (blt_pulseWidth example_measured))"
    by (rule backlash_of_ideal_mount[where y = 40 and M = 9]) (simp_all add: example_measured_def BacklashTool_new_def)
  then obtain px where px: "7.5 \<le> px" "px \<le> 9" "ComputeBacklashPx 0 example_measured =
      (if px \<ge> 28 then MEASUREMENT_TOO_FEW_NORTH else MEASUREMENT_VALID, max 0 px, c_int 0 (max 0 px / (5 / 500)), 5 / 500)"
    by (auto simp: example_measured_def BacklashTool_new_def)
  have "\<not> px \<ge> 28" "max 0 px = px" using px(1,2) by simp_all
  then show ?thesis using px by (intro exI[of _ px]) simp
qed

text \<open>With at most three positions to the north the rate to the north, which starts as that of the calibration, ends as
zero, and the amount in milliseconds is undetermined.\<close>

lemma north_rate_lost: "length (blt_northBLSteps t) \<le> 3 \<Longrightarrow> ComputeBacklashPx bad t = (MEASUREMENT_TOO_FEW_NORTH, 0, bad, 0)"
  by (simp add: ComputeBacklashPx_def int_quotient_def)

text \<open>The count of the pulses that restore the star is not reset: after a measurement that needed some, the next one sends a
pulse even when the star has come back exactly.\<close>

lemma stale_restore_count:
  assumes "blt_stepCount t = 0" "0 < blt_restoreCount t" "pY loc = pY (blt_startingPoint t)" "0 \<le> be_maxMove e"
  shows "blt_restore e loc t = blt_do [ScheduleAxisMove SOUTH (blt_pulseWidth t)] (t\<lparr>blt_state := BLT_WRAPUP, blt_stepCount := 1\<rparr>)"
  using assms by (simp add: blt_restore_def Let_def blt_do_def)

end
