(* ===== verification/Circ_Buf.thy ===== *)
theory Circ_Buf
  imports Guider_Prelude
begin

text \<open>
  The ring buffer template of \<open>src/circbuf.h\<close>, which holds the history of the guide graph.
  The array is a list of length \<open>m_capacity\<close>; the four \<open>unsigned int\<close> fields are natural
  numbers (with a capacity below \<open>2 ^ 31\<close> no sum of two of them wraps).  An operation whose
  assertion fails, or that would divide by a zero capacity, is \<^term>\<open>None\<close>.

  The abstraction \<open>contents\<close> lists the stored elements, oldest first.  The buffer refines a
  list that keeps its last \<open>m_capacity\<close> elements.
\<close>

section \<open>The buffer\<close>

record 'a circular_buffer =
  m_ary :: "'a list"
  m_head :: nat
  m_tail :: nat
  m_size :: nat
  m_capacity :: nat

definition cb_empty :: "'a circular_buffer" where
  "cb_empty = \<lparr>m_ary = [], m_head = 0, m_tail = 0, m_size = 0, m_capacity = 0\<rparr>"

text \<open>\<open>new T[capacity]\<close>: the elements are those of the default constructor, \<open>d\<close>.\<close>

definition cb_new :: "'a \<Rightarrow> nat \<Rightarrow> 'a circular_buffer option" where
  "cb_new d capacity =
     (if capacity > 0
      then Some \<lparr>m_ary = replicate capacity d, m_head = 0, m_tail = 0, m_size = 0,
                  m_capacity = capacity\<rparr>
      else None)"

definition cb_resize :: "'a \<Rightarrow> nat \<Rightarrow> 'a circular_buffer \<Rightarrow> 'a circular_buffer option" where
  "cb_resize d capacity cb =
     (if capacity > 0 \<and> m_ary cb = []
      then Some (cb\<lparr>m_ary := replicate capacity d, m_capacity := capacity\<rparr>)
      else None)"

definition cb_clear :: "'a circular_buffer \<Rightarrow> 'a circular_buffer" where
  "cb_clear cb = cb\<lparr>m_head := 0, m_tail := 0, m_size := 0\<rparr>"

definition push_front :: "'a \<Rightarrow> 'a circular_buffer \<Rightarrow> 'a circular_buffer option" where
  "push_front t cb =
     (if m_capacity cb = 0 then None
      else let cb1 = cb\<lparr>m_ary := (m_ary cb)[m_head cb := t],
                        m_head := (m_head cb + 1) mod m_capacity cb\<rparr>
           in if m_size cb1 = m_capacity cb1
              then Some (cb1\<lparr>m_tail := (m_tail cb1 + 1) mod m_capacity cb1\<rparr>)
              else Some (cb1\<lparr>m_size := m_size cb1 + 1\<rparr>))"

definition pop_back :: "nat \<Rightarrow> 'a circular_buffer \<Rightarrow> 'a circular_buffer option" where
  "pop_back n cb =
     (if m_size cb \<ge> n \<and> m_capacity cb > 0
      then Some (cb\<lparr>m_tail := (m_tail cb + n) mod m_capacity cb, m_size := m_size cb - n\<rparr>)
      else None)"

definition cb_at :: "'a circular_buffer \<Rightarrow> nat \<Rightarrow> 'a option" where
  "cb_at cb n =
     (if n < m_size cb then Some (m_ary cb ! ((m_tail cb + n) mod m_capacity cb)) else None)"

text \<open>
  The iterator holds a position; \<open>begin\<close> is \<open>m_tail\<close>, \<open>end\<close> is \<open>m_tail + m_size\<close>, \<open>++\<close>
  adds one and \<open>*\<close> reads \<open>m_pos % m_capacity\<close>.  \<open>cb_iterate\<close> is the list of the elements
  that a loop from \<open>begin\<close> to \<open>end\<close> visits.
\<close>

definition cb_begin :: "'a circular_buffer \<Rightarrow> nat" where
  "cb_begin cb = m_tail cb"

definition cb_end :: "'a circular_buffer \<Rightarrow> nat" where
  "cb_end cb = m_tail cb + m_size cb"

definition cb_deref :: "'a circular_buffer \<Rightarrow> nat \<Rightarrow> 'a" where
  "cb_deref cb pos = m_ary cb ! (pos mod m_capacity cb)"

function cb_iterate :: "'a circular_buffer \<Rightarrow> nat \<Rightarrow> nat \<Rightarrow> 'a list" where
  "cb_iterate cb pos stop =
     (if pos < stop then cb_deref cb pos # cb_iterate cb (pos + 1) stop else [])"
  by pat_completeness auto
termination
  by (relation "measure (\<lambda>(cb, pos, stop). stop - pos)") auto

declare cb_iterate.simps [simp del]

section \<open>Invariant and abstraction\<close>

definition cb_invar :: "'a circular_buffer \<Rightarrow> bool" where
  "cb_invar cb \<longleftrightarrow>
     m_capacity cb > 0 \<and> length (m_ary cb) = m_capacity cb \<and> m_tail cb < m_capacity cb \<and>
     m_size cb \<le> m_capacity cb \<and> m_head cb = (m_tail cb + m_size cb) mod m_capacity cb"

definition contents :: "'a circular_buffer \<Rightarrow> 'a list" where
  "contents cb = map (\<lambda>n. m_ary cb ! ((m_tail cb + n) mod m_capacity cb)) [0..<m_size cb]"

lemma length_contents [simp]: "length (contents cb) = m_size cb"
  by (simp add: contents_def)

lemma nth_contents: "n < m_size cb \<Longrightarrow> contents cb ! n = m_ary cb ! ((m_tail cb + n) mod m_capacity cb)"
  by (simp add: contents_def)

lemma cb_new_invar: "cb_new d c = Some cb \<Longrightarrow> cb_invar cb \<and> contents cb = [] \<and> m_capacity cb = c"
  by (auto simp: cb_new_def cb_invar_def contents_def split: if_splits)

lemma cb_resize_invar: "cb_resize d c cb_empty = Some cb \<Longrightarrow> cb_invar cb \<and> contents cb = []"
  by (auto simp: cb_resize_def cb_empty_def cb_invar_def contents_def split: if_splits)

lemma cb_clear_invar [preserves]: "cb_invar cb \<Longrightarrow> cb_invar (cb_clear cb)"
  by (auto simp: cb_clear_def cb_invar_def)

lemma mod_add_neq:
  fixes i j c :: nat
  assumes "i < j" and "j < i + c"
  shows "i mod c \<noteq> j mod c"
proof
  assume "i mod c = j mod c"
  then have "c dvd j - i"
    using assms(1) by (metis less_imp_le mod_eq_dvd_iff_nat)
  moreover have "0 < j - i" "j - i < c" using assms by auto
  ultimately show False by (simp add: nat_dvd_not_less)
qed

lemma push_front_Some: "cb_invar cb \<Longrightarrow> \<exists>cb'. push_front t cb = Some cb'"
  by (auto simp: push_front_def cb_invar_def Let_def)

lemma push_front_capacity: "push_front t cb = Some cb' \<Longrightarrow> m_capacity cb' = m_capacity cb"
  by (auto simp: push_front_def Let_def split: if_splits)

lemma Suc_add_mod_self [simp]: "Suc (a + c) mod c = Suc a mod (c :: nat)"
  using mod_add_self2[of "Suc a" c] by simp

lemma push_front_invar [preserves]: "cb_invar cb \<Longrightarrow> push_front t cb = Some cb' \<Longrightarrow> cb_invar cb'"
  by (auto simp: push_front_def cb_invar_def Let_def mod_simps split: if_splits)

lemma push_front_contents:
  assumes inv: "cb_invar cb" and push: "push_front t cb = Some cb'"
  shows "contents cb' =
    (if m_size cb = m_capacity cb then drop 1 (contents cb) else contents cb) @ [t]"
    (is "_ = ?old @ [t]")
proof (rule nth_equalityI)
  let ?c = "m_capacity cb"
  have c: "?c > 0" and len: "length (m_ary cb) = ?c" and sz: "m_size cb \<le> ?c"
    and hd: "m_head cb = (m_tail cb + m_size cb) mod ?c"
    using inv by (auto simp: cb_invar_def)
  have ary: "m_ary cb' = (m_ary cb)[m_head cb := t]" and cap: "m_capacity cb' = ?c"
    using push by (auto simp: push_front_def Let_def split: if_splits)
  show "length (contents cb') = length (?old @ [t])"
    using push c sz by (auto simp: push_front_def Let_def split: if_splits)
  have hdlt: "m_head cb < ?c" using hd c by simp
  fix n assume "n < length (contents cb')"
  then have n: "n < m_size cb'" by simp
  show "contents cb' ! n = (?old @ [t]) ! n"
  proof (cases "m_size cb = ?c")
    case True
    then have tl: "m_tail cb' = (m_tail cb + 1) mod ?c" and sz': "m_size cb' = ?c"
      using push by (auto simp: push_front_def Let_def split: if_splits)
    have rd: "contents cb' ! n = (m_ary cb)[m_head cb := t] ! ((m_tail cb + Suc n) mod ?c)"
      using n by (simp add: nth_contents ary cap tl mod_simps)
    show ?thesis
    proof (cases "Suc n = ?c")
      case True
      then have "n = ?c - 1" by simp
      with True show ?thesis
        using \<open>m_size cb = ?c\<close> rd hd hdlt len by (simp add: nth_append)
    next
      case False
      then have "Suc n < ?c" using n sz' by simp
      then have "(m_tail cb + Suc n) mod ?c \<noteq> m_head cb"
        using mod_add_neq[of "m_tail cb + Suc n" "m_tail cb + ?c" ?c] \<open>m_size cb = ?c\<close> hd by simp
      moreover have "n < ?c - 1" using \<open>Suc n < ?c\<close> by simp
      ultimately show ?thesis using rd \<open>Suc n < ?c\<close> \<open>m_size cb = ?c\<close>
        by (simp add: nth_append nth_contents)
    qed
  next
    case False
    then have tl: "m_tail cb' = m_tail cb" and sz': "m_size cb' = m_size cb + 1"
      using push by (auto simp: push_front_def Let_def split: if_splits)
    have rd: "contents cb' ! n = (m_ary cb)[m_head cb := t] ! ((m_tail cb + n) mod ?c)"
      using n by (simp add: nth_contents ary cap tl)
    show ?thesis
    proof (cases "n = m_size cb")
      case True
      then show ?thesis using False rd hd hdlt len by (simp add: nth_append)
    next
      case neq: False
      then have "n < m_size cb" using n sz' by simp
      then have "(m_tail cb + n) mod ?c \<noteq> m_head cb"
        using mod_add_neq[of "m_tail cb + n" "m_tail cb + m_size cb" ?c] sz hd False by simp
      with rd \<open>n < m_size cb\<close> False show ?thesis
        by (simp add: nth_append nth_contents)
    qed
  qed
qed

lemma pop_back_invar [preserves]:
  assumes "cb_invar cb" and "pop_back n cb = Some cb'"
  shows "cb_invar cb'"
proof -
  have "n \<le> m_size cb" using assms(2) by (simp add: pop_back_def split: if_splits)
  then have "((m_tail cb + n) mod m_capacity cb + (m_size cb - n)) mod m_capacity cb
      = (m_tail cb + m_size cb) mod m_capacity cb"
    using mod_add_left_eq[of "m_tail cb + n" "m_capacity cb" "m_size cb - n"] by simp
  moreover have "(m_tail cb + n) mod m_capacity cb + (m_size cb - n)
      = (m_tail cb + n) mod m_capacity cb + m_size cb - n"
    using \<open>n \<le> m_size cb\<close> by simp
  ultimately have "((m_tail cb + n) mod m_capacity cb + m_size cb - n) mod m_capacity cb
      = (m_tail cb + m_size cb) mod m_capacity cb"
    by simp
  with assms show ?thesis
    by (auto simp: pop_back_def cb_invar_def split: if_splits)
qed

lemma pop_back_contents:
  "cb_invar cb \<Longrightarrow> pop_back n cb = Some cb' \<Longrightarrow> contents cb' = drop n (contents cb)"
  by (rule nth_equalityI)
    (auto simp: pop_back_def nth_contents mod_simps add.assoc split: if_splits)

lemma cb_at_contents: "cb_at cb n = (if n < length (contents cb) then Some (contents cb ! n) else None)"
  by (simp add: cb_at_def nth_contents)

lemma cb_iterate_contents: "cb_iterate cb (cb_begin cb) (cb_end cb) = contents cb"
proof -
  have "k \<le> m_size cb \<Longrightarrow> cb_iterate cb (m_tail cb + k) (m_tail cb + m_size cb) = drop k (contents cb)"
    for k
  proof (induction "m_size cb - k" arbitrary: k)
    case 0
    then show ?case by (subst cb_iterate.simps) simp
  next
    case (Suc d)
    then have k: "k < m_size cb" by simp
    have "cb_iterate cb (m_tail cb + Suc k) (m_tail cb + m_size cb) = drop (Suc k) (contents cb)"
      using Suc by (intro Suc.hyps(1)) auto
    with k show ?case
      by (subst cb_iterate.simps)
        (simp add: cb_deref_def nth_contents[symmetric] Cons_nth_drop_Suc)
  qed
  from this[of 0] show ?thesis by (simp add: cb_begin_def cb_end_def)
qed

section \<open>The interface: a list that keeps its last elements\<close>

locale bounded_history =
  fixes push :: "'a \<Rightarrow> 'b \<Rightarrow> 'b option"
    and elems :: "'b \<Rightarrow> 'a list"
    and cap :: "'b \<Rightarrow> nat"
    and invar :: "'b \<Rightarrow> bool"
  assumes push_defined: "invar b \<Longrightarrow> \<exists>b'. push x b = Some b'"
    and push_invar: "invar b \<Longrightarrow> push x b = Some b' \<Longrightarrow> invar b'"
    and push_cap: "push x b = Some b' \<Longrightarrow> cap b' = cap b"
    and push_elems: "invar b \<Longrightarrow> push x b = Some b' \<Longrightarrow>
        elems b' = (if length (elems b) = cap b then drop 1 (elems b) else elems b) @ [x]"
    and elems_cap: "invar b \<Longrightarrow> length (elems b) \<le> cap b \<and> 0 < cap b"
begin

fun push_all :: "'b \<Rightarrow> 'a list \<Rightarrow> 'b option" where
  "push_all b [] = Some b"
| "push_all b (x # xs) = (case push x b of None \<Rightarrow> None | Some b' \<Rightarrow> push_all b' xs)"

lemma push_one:
  assumes "invar b"
  obtains b' where "push x b = Some b'" "invar b'" "cap b' = cap b"
    "elems b' = drop (Suc (length (elems b)) - cap b) (elems b @ [x])"
proof -
  obtain b' where p: "push x b = Some b'" using push_defined[OF assms] by blast
  have "elems b' = drop (Suc (length (elems b)) - cap b) (elems b @ [x])"
    using push_elems[OF assms p] elems_cap[OF assms] by (cases "length (elems b) = cap b") auto
  with that p push_invar[OF assms p] push_cap[OF p] show ?thesis by blast
qed

lemma push_all_keeps_last:
  "invar b \<Longrightarrow> \<exists>b'. push_all b xs = Some b' \<and> invar b' \<and> cap b' = cap b \<and>
     elems b' = drop (length (elems b) + length xs - cap b) (elems b @ xs)"
proof (induction xs arbitrary: b)
  case Nil
  then show ?case using elems_cap[of b] by simp
next
  case (Cons x xs)
  obtain b1 where b1: "push x b = Some b1" "invar b1" "cap b1 = cap b"
    "elems b1 = drop (Suc (length (elems b)) - cap b) (elems b @ [x])"
    using push_one[OF Cons.prems] .
  obtain b2 where b2: "push_all b1 xs = Some b2" "invar b2" "cap b2 = cap b1"
    "elems b2 = drop (length (elems b1) + length xs - cap b1) (elems b1 @ xs)"
    using Cons.IH[OF b1(2)] by blast
  have "length (elems b1) = length (elems b) + 1 - (Suc (length (elems b)) - cap b)"
    by (simp add: b1(4))
  then have "length (elems b1) + length xs - cap b + (Suc (length (elems b)) - cap b)
      = length (elems b) + length (x # xs) - cap b"
    using elems_cap[OF Cons.prems] by auto
  moreover have "elems b1 @ xs = drop (Suc (length (elems b)) - cap b) (elems b @ x # xs)"
    using elems_cap[OF Cons.prems] by (simp add: b1(4))
  ultimately have "elems b2 = drop (length (elems b) + length (x # xs) - cap b) (elems b @ x # xs)"
    by (simp only: b2(4) b1(3) drop_drop)
  with b1 b2 show ?case by auto
qed

end

interpretation graph_history: bounded_history push_front contents m_capacity cb_invar
proof unfold_locales
  show "\<exists>b'. push_front x b = Some b'" if "cb_invar b" for b :: "'a circular_buffer" and x
    using that by (rule push_front_Some)
  show "cb_invar b'" if "cb_invar b" "push_front x b = Some b'" for b b' :: "'a circular_buffer" and x
    using that by (rule push_front_invar)
  show "m_capacity b' = m_capacity b" if "push_front x b = Some b'" for b b' :: "'a circular_buffer" and x
    using that by (rule push_front_capacity)
  show "contents b' = (if length (contents b) = m_capacity b then drop 1 (contents b) else contents b) @ [x]"
    if "cb_invar b" "push_front x b = Some b'" for b b' :: "'a circular_buffer" and x
    using push_front_contents[OF that] by simp
  show "length (contents b) \<le> m_capacity b \<and> 0 < m_capacity b" if "cb_invar b"
    for b :: "'a circular_buffer"
    using that by (simp add: cb_invar_def)
qed

fun push_each :: "'a circular_buffer \<Rightarrow> 'a list \<Rightarrow> 'a circular_buffer option" where
  "push_each cb [] = Some cb"
| "push_each cb (x # xs) = (case push_front x cb of None \<Rightarrow> None | Some cb' \<Rightarrow> push_each cb' xs)"

lemma push_each_eq: "push_each cb xs = graph_history.push_all cb xs"
  by (induction xs arbitrary: cb) (auto split: option.splits)

section \<open>Properties\<close>

text \<open>Pushing any list into a new ring buffer of capacity \<open>c\<close> never fails, and both the
  iterator and \<open>operator[]\<close> then deliver the last \<open>c\<close> elements of the list, oldest first.\<close>

theorem ring_buffer_keeps_last:
  assumes "0 < c" and "cb_new d c = Some cb"
  shows "\<exists>cb'. push_each cb xs = Some cb' \<and>
     cb_iterate cb' (cb_begin cb') (cb_end cb') = drop (length xs - c) xs \<and>
     (\<forall>n. cb_at cb' n = (if n < min c (length xs) then Some (drop (length xs - c) xs ! n) else None))"
proof -
  have cb: "cb_invar cb" "contents cb = []" "m_capacity cb = c"
    using cb_new_invar[OF assms(2)] by auto
  obtain cb' where cb': "push_each cb xs = Some cb'" "contents cb' = drop (length xs - c) xs"
    using graph_history.push_all_keeps_last[OF cb(1), of xs] cb(2,3) by (auto simp: push_each_eq)
  have "(n < length (drop (length xs - c) xs)) = (n < min c (length xs))" for n by auto
  then have "cb_at cb' n = (if n < min c (length xs) then Some (drop (length xs - c) xs ! n) else None)" for n
    unfolding cb_at_contents cb'(2) by presburger
  with cb' show ?thesis by (simp add: cb_iterate_contents)
qed

theorem ring_buffer_keeps_last_witness:
  "\<exists>cb cb'. cb_new (0::int) 2 = Some cb \<and> push_each cb [7, 8, 9] = Some cb' \<and>
     cb_iterate cb' (cb_begin cb') (cb_end cb') = [8, 9]"
proof -
  obtain cb where cb: "cb_new (0::int) 2 = Some cb" by (simp add: cb_new_def)
  show ?thesis
    using ring_buffer_keeps_last[of 2 "0::int" cb "[7, 8, 9]"] cb by auto
qed

end
