(* ===== verification/Guide_Algorithms.thy ===== *)
theory Guide_Algorithms
  imports Guider_Prelude
begin

text \<open>
  The guide algorithms of \<open>src/guide_algorithm.cpp\<close> and the classes derived from it that keep
  their state themselves: identity, hysteresis, resist switch and Z filter.  An algorithm is a
  state with an operation \<open>result\<close>, which takes the measured offset of the star on one axis to
  the correction to issue, and \<open>reset\<close>.  The parts of the profile under \<open>GetConfigPath()\<close> that
  the setters write are the fields \<open>cfg\<close> and \<open>cfg_bool\<close> of the state, keyed by the last path
  component; the constructors read them.  A setter returns \<open>bError\<close> with the new state.

  The locale \<open>guide_algorithm\<close> is the contract the mount relies on: no correction for an offset
  below the minimum move.  \<open>bounded_guide_algorithm\<close> adds that a correction never exceeds the
  offset it answers.
\<close>

section \<open>The interface\<close>

datatype GuideNotification =
  GuidingStarted | GuidingStopped | GuidingPaused | GuidingResumed | GuidingDithered real
| GuidingDitherSettleDone bool

text \<open>The default handlers of the base class.\<close>

fun ga_notify :: "('s \<Rightarrow> 's) \<Rightarrow> GuideNotification \<Rightarrow> 's \<Rightarrow> 's" where
  "ga_notify reset GuidingStarted s = s"
| "ga_notify reset GuidingStopped s = reset s"
| "ga_notify reset GuidingPaused s = s"
| "ga_notify reset GuidingResumed s = reset s"
| "ga_notify reset (GuidingDithered amt) s = reset s"
| "ga_notify reset (GuidingDitherSettleDone success) s = s"

datatype AlgEvent = AlgNotify GuideNotification | AlgInput real

definition alg_step :: "('s \<Rightarrow> 's) \<Rightarrow> ('s \<Rightarrow> real \<Rightarrow> real \<times> 's) \<Rightarrow> 's \<Rightarrow> AlgEvent \<Rightarrow> 's" where
  "alg_step reset result s e =
     (case e of AlgNotify n \<Rightarrow> ga_notify reset n s | AlgInput x \<Rightarrow> snd (result s x))"

text \<open>The corrections issued for a list of offsets.\<close>

fun alg_outputs :: "('s \<Rightarrow> real \<Rightarrow> real \<times> 's) \<Rightarrow> 's \<Rightarrow> real list \<Rightarrow> real list" where
  "alg_outputs result s [] = []"
| "alg_outputs result s (x # xs) = fst (result s x) # alg_outputs result (snd (result s x)) xs"

lemma length_alg_outputs [simp]: "length (alg_outputs result s xs) = length xs"
  by (induction xs arbitrary: s) auto

locale guide_algorithm =
  fixes reset :: "'s \<Rightarrow> 's"
    and result :: "'s \<Rightarrow> real \<Rightarrow> real \<times> 's"
    and minMove :: "'s \<Rightarrow> real"
    and invar :: "'s \<Rightarrow> bool"
  assumes reset_invar: "invar s \<Longrightarrow> invar (reset s)"
    and result_invar: "invar s \<Longrightarrow> invar (snd (result s x))"
    and reset_minMove: "invar s \<Longrightarrow> minMove (reset s) = minMove s"
    and result_minMove: "invar s \<Longrightarrow> minMove (snd (result s x)) = minMove s"
    and deadband: "invar s \<Longrightarrow> \<bar>x\<bar> < minMove s \<Longrightarrow> fst (result s x) = 0"
begin

abbreviation "outputs \<equiv> alg_outputs result"

lemma notify_invar: "invar s \<Longrightarrow> invar (ga_notify reset n s)"
  by (cases n) (auto intro: reset_invar)

lemma alg_step_invar: "invar s \<Longrightarrow> invar (alg_step reset result s e)"
  by (auto simp: alg_step_def intro: notify_invar result_invar split: AlgEvent.splits)

lemma outputs_deadband:
  "invar s \<Longrightarrow> \<forall>x\<in>set xs. \<bar>x\<bar> < minMove s \<Longrightarrow> \<forall>y\<in>set (outputs s xs). y = 0"
proof (induction xs arbitrary: s)
  case (Cons x xs)
  have "\<forall>y\<in>set (outputs (snd (result s x)) xs). y = 0"
    using Cons.prems by (intro Cons.IH) (auto simp: result_invar result_minMove)
  with Cons.prems show ?case by (simp add: deadband)
qed simp

end

sublocale guide_algorithm \<subseteq> machine: event_machine "alg_step reset result" invar
  by unfold_locales (rule alg_step_invar)

locale bounded_guide_algorithm = guide_algorithm +
  assumes bounded: "invar s \<Longrightarrow> \<bar>fst (result s x)\<bar> \<le> \<bar>x\<bar>"
begin

lemma outputs_bounded:
  "invar s \<Longrightarrow> i < length xs \<Longrightarrow> \<bar>outputs s xs ! i\<bar> \<le> \<bar>xs ! i\<bar>"
  by (induction xs arbitrary: s i) (auto simp: nth_Cons bounded result_invar split: nat.splits)

lemma outputs_bounded_any_state:
  "invar s \<Longrightarrow> i < length xs \<Longrightarrow> \<bar>outputs (run_events (alg_step reset result) s es) xs ! i\<bar> \<le> \<bar>xs ! i\<bar>"
  by (rule outputs_bounded) (auto intro: machine.invar_run)

end

section \<open>Smart default of the minimum move\<close>

definition GetPixelScale :: "real \<Rightarrow> int \<Rightarrow> int \<Rightarrow> real" where
  "GetPixelScale pixelSizeMicrons focalLengthMm binning =
     206.265 * pixelSizeMicrons * real_of_int binning / real_of_int focalLengthMm"

definition SmartDefaultMinMove :: "int \<Rightarrow> real \<Rightarrow> int \<Rightarrow> real" where
  "SmartDefaultMinMove focalLength pixelSize binning =
     (let imageScale = GetPixelScale pixelSize focalLength binning
      in max (0.1515 + 0.1548 / imageScale) 0.15)"

section \<open>Identity\<close>

definition identity_reset :: "unit \<Rightarrow> unit" where
  "identity_reset s = s"

definition identity_result :: "unit \<Rightarrow> real \<Rightarrow> real \<times> unit" where
  "identity_result s input = (input, s)"

section \<open>Hysteresis\<close>

definition hyst_DefaultMinMove :: real where "hyst_DefaultMinMove = 0.2"
definition DefaultHysteresis :: real where "DefaultHysteresis = 0.1"
definition hyst_DefaultAggression :: real where "hyst_DefaultAggression = 0.7"
definition MaxAggression :: real where "MaxAggression = 2"
definition MaxHysteresis :: real where "MaxHysteresis = 0.99"

lemmas hyst_constants = hyst_DefaultMinMove_def DefaultHysteresis_def hyst_DefaultAggression_def
  MaxAggression_def MaxHysteresis_def

record GuideAlgorithmHysteresis =
  h_minMove :: real
  m_hysteresis :: real
  h_aggression :: real
  m_lastMove :: real
  h_cfg :: "string \<rightharpoonup> real"

definition hyst_reset :: "GuideAlgorithmHysteresis \<Rightarrow> GuideAlgorithmHysteresis" where
  "hyst_reset s = s\<lparr>m_lastMove := 0\<rparr>"

definition hyst_result :: "GuideAlgorithmHysteresis \<Rightarrow> real \<Rightarrow> real \<times> GuideAlgorithmHysteresis" where
  "hyst_result s input =
     (let dReturn = (1 - m_hysteresis s) * input + m_hysteresis s * m_lastMove s;
          dReturn = dReturn * h_aggression s;
          dReturn = (if \<bar>input\<bar> < h_minMove s then 0 else dReturn)
      in (dReturn, s\<lparr>m_lastMove := dReturn\<rparr>))"

definition hyst_SetMinMove :: "GuideAlgorithmHysteresis \<Rightarrow> real \<Rightarrow> bool \<times> GuideAlgorithmHysteresis" where
  "hyst_SetMinMove s v =
     (let bError = v < 0; m = (if bError then hyst_DefaultMinMove else v)
      in (bError, s\<lparr>h_minMove := m, h_cfg := (h_cfg s)(''minMove'' \<mapsto> m)\<rparr>))"

definition SetHysteresis :: "GuideAlgorithmHysteresis \<Rightarrow> real \<Rightarrow> bool \<times> GuideAlgorithmHysteresis" where
  "SetHysteresis s v =
     (let bError = v < 0 \<or> v > MaxHysteresis; m = (if bError then wxClip v 0 MaxHysteresis else v)
      in (bError, s\<lparr>m_hysteresis := m, h_cfg := (h_cfg s)(''hysteresis'' \<mapsto> m)\<rparr>))"

definition hyst_SetAggression :: "GuideAlgorithmHysteresis \<Rightarrow> real \<Rightarrow> bool \<times> GuideAlgorithmHysteresis" where
  "hyst_SetAggression s v =
     (let bError = v < 0 \<or> v > MaxAggression; m = (if bError then hyst_DefaultAggression else v)
      in (bError, s\<lparr>h_aggression := m, m_lastMove := 0, h_cfg := (h_cfg s)(''aggression'' \<mapsto> m)\<rparr>))"

definition GetDouble :: "(string \<rightharpoonup> real) \<Rightarrow> string \<Rightarrow> real \<Rightarrow> real" where
  "GetDouble cfg name dflt = (case cfg name of None \<Rightarrow> dflt | Some v \<Rightarrow> v)"

text \<open>The constructor; the members have no value before the setters assign them.\<close>

definition hyst_new :: "(string \<rightharpoonup> real) \<Rightarrow> GuideAlgorithmHysteresis" where
  "hyst_new cfg =
     (let s0 = \<lparr>h_minMove = 0, m_hysteresis = 0, h_aggression = 0, m_lastMove = 0, h_cfg = cfg\<rparr>;
          s1 = snd (hyst_SetMinMove s0 (GetDouble (h_cfg s0) ''minMove'' hyst_DefaultMinMove));
          s2 = snd (SetHysteresis s1 (GetDouble (h_cfg s1) ''hysteresis'' DefaultHysteresis));
          s3 = snd (hyst_SetAggression s2 (GetDouble (h_cfg s2) ''aggression'' hyst_DefaultAggression))
      in hyst_reset s3)"

definition hyst_GetParamNames :: "string list" where
  "hyst_GetParamNames = [''minMove'', ''hysteresis'', ''aggression'']"

definition hyst_GetParam :: "GuideAlgorithmHysteresis \<Rightarrow> string \<Rightarrow> real option" where
  "hyst_GetParam s name =
     (if name = ''minMove'' then Some (h_minMove s)
      else if name = ''hysteresis'' then Some (m_hysteresis s)
      else if name = ''aggression'' then Some (h_aggression s)
      else None)"

definition hyst_SetParam :: "GuideAlgorithmHysteresis \<Rightarrow> string \<Rightarrow> real \<Rightarrow> bool \<times> GuideAlgorithmHysteresis" where
  "hyst_SetParam s name val =
     (let (err, s') = (if name = ''minMove'' then hyst_SetMinMove s val
                       else if name = ''hysteresis'' then SetHysteresis s val
                       else if name = ''aggression'' then hyst_SetAggression s val
                       else (True, s))
      in (\<not> err, s'))"

definition hyst_invar :: "GuideAlgorithmHysteresis \<Rightarrow> bool" where
  "hyst_invar s \<longleftrightarrow> 0 \<le> h_minMove s \<and> 0 \<le> m_hysteresis s \<and> m_hysteresis s \<le> MaxHysteresis \<and>
     0 \<le> h_aggression s \<and> h_aggression s \<le> MaxAggression"

lemma hyst_SetMinMove_invar [preserves]: "hyst_invar s \<Longrightarrow> hyst_invar (snd (hyst_SetMinMove s v))"
  by (auto simp: hyst_invar_def hyst_SetMinMove_def Let_def hyst_constants)

lemma SetHysteresis_invar [preserves]: "hyst_invar s \<Longrightarrow> hyst_invar (snd (SetHysteresis s v))"
  by (auto simp: hyst_invar_def SetHysteresis_def Let_def hyst_constants wxClip_def)

lemma hyst_SetAggression_invar [preserves]: "hyst_invar s \<Longrightarrow> hyst_invar (snd (hyst_SetAggression s v))"
  by (auto simp: hyst_invar_def hyst_SetAggression_def Let_def hyst_constants)

lemma hyst_reset_invar [preserves]: "hyst_invar s \<Longrightarrow> hyst_invar (hyst_reset s)"
  by (simp add: hyst_invar_def hyst_reset_def)

lemma hyst_SetParam_invar [preserves]: "hyst_invar s \<Longrightarrow> hyst_invar (snd (hyst_SetParam s n v))"
  by (simp add: hyst_SetParam_def split_beta preserves)

lemma hyst_new_invar: "hyst_invar (hyst_new cfg)"
  unfolding hyst_new_def Let_def
  by (intro preserves) (simp add: hyst_invar_def hyst_constants)

interpretation hysteresis: guide_algorithm hyst_reset hyst_result h_minMove hyst_invar
  by unfold_locales (auto simp: hyst_reset_def hyst_result_def hyst_invar_def Let_def)

text \<open>
  Stability: with aggression \<open>a\<close> and hysteresis \<open>h\<close> such that \<open>a * h < 1\<close>, offsets bounded by
  \<open>M\<close> give corrections bounded by \<open>a * (1 - h) / (1 - a * h) * M\<close>.
\<close>

lemma hyst_result_bound:
  assumes inv: "hyst_invar s" and st: "h_aggression s * m_hysteresis s < 1"
    and x: "\<bar>x\<bar> \<le> M"
    and last: "\<bar>m_lastMove s\<bar> \<le> h_aggression s * (1 - m_hysteresis s) / (1 - h_aggression s * m_hysteresis s) * M"
  shows "\<bar>fst (hyst_result s x)\<bar> \<le>
    h_aggression s * (1 - m_hysteresis s) / (1 - h_aggression s * m_hysteresis s) * M"
proof -
  define a where "a = h_aggression s"
  define h where "h = m_hysteresis s"
  define B where "B = a * (1 - h) / (1 - a * h) * M"
  have a: "0 \<le> a" and h: "0 \<le> h" "h \<le> 1" "0 < 1 - a * h" and M: "0 \<le> M"
    using inv st x by (auto simp: hyst_invar_def a_def h_def MaxHysteresis_def)
  have "B * (1 - a * h) = a * (1 - h) * M" using h(3) by (simp add: B_def)
  then have fp: "a * ((1 - h) * M + h * B) = B" by (simp add: algebra_simps)
  have "0 \<le> B" using a h M by (simp add: B_def)
  have "\<bar>(1 - h) * x + h * m_lastMove s\<bar> \<le> \<bar>(1 - h) * x\<bar> + \<bar>h * m_lastMove s\<bar>" by (rule abs_triangle_ineq)
  also have "\<dots> = (1 - h) * \<bar>x\<bar> + h * \<bar>m_lastMove s\<bar>" using h by (simp add: abs_mult)
  also have "\<dots> \<le> (1 - h) * M + h * B"
    using h x last by (intro add_mono mult_left_mono) (auto simp: B_def a_def h_def)
  finally have "\<bar>(1 - h) * x + h * m_lastMove s\<bar> * a \<le> B"
    using a fp by (metis mult.commute mult_left_mono)
  moreover have "fst (hyst_result s x) = (if \<bar>x\<bar> < h_minMove s then 0 else ((1 - h) * x + h * m_lastMove s) * a)"
    by (simp add: hyst_result_def Let_def a_def h_def)
  ultimately have "\<bar>fst (hyst_result s x)\<bar> \<le> B"
    using a \<open>0 \<le> B\<close> by (simp add: abs_mult)
  then show ?thesis by (simp add: B_def a_def h_def)
qed

lemma hyst_result_fields [simp]:
  "h_minMove (snd (hyst_result s x)) = h_minMove s" "m_hysteresis (snd (hyst_result s x)) = m_hysteresis s"
  "h_aggression (snd (hyst_result s x)) = h_aggression s"
  "m_lastMove (snd (hyst_result s x)) = fst (hyst_result s x)"
  by (simp_all add: hyst_result_def Let_def)

lemma hyst_outputs_bound:
  assumes "hyst_invar s" and "h_aggression s * m_hysteresis s < 1" and "\<forall>x\<in>set xs. \<bar>x\<bar> \<le> M"
    and "\<bar>m_lastMove s\<bar> \<le> h_aggression s * (1 - m_hysteresis s) / (1 - h_aggression s * m_hysteresis s) * M"
  shows "\<forall>y\<in>set (alg_outputs hyst_result s xs).
    \<bar>y\<bar> \<le> h_aggression s * (1 - m_hysteresis s) / (1 - h_aggression s * m_hysteresis s) * M"
  using assms
proof (induction xs arbitrary: s)
  case (Cons x xs)
  let ?s = "snd (hyst_result s x)"
  have "\<bar>fst (hyst_result s x)\<bar> \<le>
      h_aggression s * (1 - m_hysteresis s) / (1 - h_aggression s * m_hysteresis s) * M"
    using Cons.prems by (intro hyst_result_bound) auto
  moreover have "\<forall>y\<in>set (alg_outputs hyst_result ?s xs).
      \<bar>y\<bar> \<le> h_aggression ?s * (1 - m_hysteresis ?s) / (1 - h_aggression ?s * m_hysteresis ?s) * M"
    using Cons.prems calculation hysteresis.result_invar[of s x] by (intro Cons.IH) auto
  ultimately show ?case by simp
qed simp

section \<open>Resist switch\<close>

definition rs_HISTORY_SIZE :: nat where "rs_HISTORY_SIZE = 10"
definition rs_DefaultMinMove :: real where "rs_DefaultMinMove = 0.2"
definition rs_DefaultAggression :: real where "rs_DefaultAggression = 1"

lemmas rs_constants = rs_HISTORY_SIZE_def rs_DefaultMinMove_def rs_DefaultAggression_def

record GuideAlgorithmResistSwitch =
  m_history :: "real list"
  rs_minMove :: real
  rs_aggression :: real
  m_fastSwitchEnabled :: bool
  m_currentSide :: int
  rs_cfg :: "string \<rightharpoonup> real"
  rs_cfg_bool :: "string \<rightharpoonup> bool"

definition rs_reset :: "GuideAlgorithmResistSwitch \<Rightarrow> GuideAlgorithmResistSwitch" where
  "rs_reset s = s\<lparr>m_history := replicate rs_HISTORY_SIZE 0, m_currentSide := 0\<rparr>"

definition sign :: "real \<Rightarrow> int" where
  "sign x = (if x > 0 then 1 else if x < 0 then - 1 else 0)"

text \<open>The forced switch on a large excursion.\<close>

definition rs_fast_switch :: "GuideAlgorithmResistSwitch \<Rightarrow> real \<Rightarrow> GuideAlgorithmResistSwitch" where
  "rs_fast_switch s input =
     (if m_fastSwitchEnabled s \<and> sign input \<noteq> m_currentSide s \<and> \<bar>input\<bar> > 3 * rs_minMove s
      then s\<lparr>m_currentSide := 0,
             m_history := replicate (rs_HISTORY_SIZE - 3) 0 @ replicate 3 input\<rparr>
      else s)"

text \<open>The vote of the history: the entries beyond the minimum move, by direction.\<close>

definition decHistory :: "GuideAlgorithmResistSwitch \<Rightarrow> int" where
  "decHistory s = (\<Sum>x\<leftarrow>m_history s. if \<bar>x\<bar> > rs_minMove s then sign x else 0)"

text \<open>
  The sums of the three oldest and the three newest entries, and the decision to change sides:
  \<^term>\<open>None\<close> is the exception of the code (no correction).
\<close>

definition rs_oldest :: "real list \<Rightarrow> real" where
  "rs_oldest h = (\<Sum>i\<leftarrow>[0..<3]. h ! i)"

definition rs_newest :: "real list \<Rightarrow> real" where
  "rs_newest h = (\<Sum>i\<leftarrow>[0..<3]. h ! (length h - (i + 1)))"

definition rs_switch :: "GuideAlgorithmResistSwitch \<Rightarrow> GuideAlgorithmResistSwitch option" where
  "rs_switch s =
     (let d = decHistory s
      in if m_currentSide s = 0 \<or> sgn (m_currentSide s) = - sgn d
         then if \<bar>d\<bar> < 3 then None
              else if \<bar>rs_newest (m_history s)\<bar> \<le> \<bar>rs_oldest (m_history s)\<bar> then None
              else Some (s\<lparr>m_currentSide := sgn d\<rparr>)
         else Some s)"

definition rs_result :: "GuideAlgorithmResistSwitch \<Rightarrow> real \<Rightarrow> real \<times> GuideAlgorithmResistSwitch" where
  "rs_result s input =
     (let s1 = s\<lparr>m_history := tl (m_history s @ [input])\<rparr>
      in if \<bar>input\<bar> < rs_minMove s1 then (0 * rs_aggression s1, s1)
         else let s2 = rs_fast_switch s1 input
              in case rs_switch s2 of
                   None \<Rightarrow> (0 * rs_aggression s2, s2)
                 | Some s3 \<Rightarrow> if m_currentSide s3 \<noteq> sign input then (0 * rs_aggression s3, s3)
                             else (input * rs_aggression s3, s3))"

definition rs_SetMinMove :: "GuideAlgorithmResistSwitch \<Rightarrow> real \<Rightarrow> bool \<times> GuideAlgorithmResistSwitch" where
  "rs_SetMinMove s v =
     (if v \<le> 0
      then (True, s\<lparr>rs_minMove := rs_DefaultMinMove, rs_cfg := (rs_cfg s)(''minMove'' \<mapsto> rs_DefaultMinMove)\<rparr>)
      else (False, s\<lparr>rs_minMove := v, m_currentSide := 0, rs_cfg := (rs_cfg s)(''minMove'' \<mapsto> v)\<rparr>))"

definition rs_SetAggression :: "GuideAlgorithmResistSwitch \<Rightarrow> real \<Rightarrow> bool \<times> GuideAlgorithmResistSwitch" where
  "rs_SetAggression s v =
     (let bError = v < 0 \<or> v > 1; a = (if bError then rs_DefaultAggression else v)
      in (bError, s\<lparr>rs_aggression := a, rs_cfg := (rs_cfg s)(''aggression'' \<mapsto> a)\<rparr>))"

definition SetFastSwitchEnabled :: "GuideAlgorithmResistSwitch \<Rightarrow> bool \<Rightarrow> GuideAlgorithmResistSwitch" where
  "SetFastSwitchEnabled s enable =
     s\<lparr>m_fastSwitchEnabled := enable, rs_cfg_bool := (rs_cfg_bool s)(''fastSwitch'' \<mapsto> enable)\<rparr>"

definition rs_new :: "(string \<rightharpoonup> real) \<Rightarrow> (string \<rightharpoonup> bool) \<Rightarrow> GuideAlgorithmResistSwitch" where
  "rs_new cfg cfgb =
     (let s0 = \<lparr>m_history = [], rs_minMove = 0, rs_aggression = 0, m_fastSwitchEnabled = False,
                m_currentSide = 0, rs_cfg = cfg, rs_cfg_bool = cfgb\<rparr>;
          s1 = snd (rs_SetMinMove s0 (GetDouble (rs_cfg s0) ''minMove'' rs_DefaultMinMove));
          s2 = snd (rs_SetAggression s1 (GetDouble (rs_cfg s1) ''aggression'' rs_DefaultAggression));
          s3 = SetFastSwitchEnabled s2 (case rs_cfg_bool s2 ''fastSwitch'' of None \<Rightarrow> True | Some b \<Rightarrow> b)
      in rs_reset s3)"

definition rs_GetParamNames :: "string list" where
  "rs_GetParamNames = [''minMove'', ''fastSwitch'', ''aggression'']"

definition rs_GetParam :: "GuideAlgorithmResistSwitch \<Rightarrow> string \<Rightarrow> real option" where
  "rs_GetParam s name =
     (if name = ''minMove'' then Some (rs_minMove s)
      else if name = ''fastSwitch'' then Some (if m_fastSwitchEnabled s then 1 else 0)
      else if name = ''aggression'' then Some (rs_aggression s)
      else None)"

definition rs_SetParam :: "GuideAlgorithmResistSwitch \<Rightarrow> string \<Rightarrow> real \<Rightarrow> bool \<times> GuideAlgorithmResistSwitch" where
  "rs_SetParam s name val =
     (let (err, s') = (if name = ''minMove'' then rs_SetMinMove s val
                       else if name = ''fastSwitch'' then (False, SetFastSwitchEnabled s (val \<noteq> 0))
                       else if name = ''aggression'' then rs_SetAggression s val
                       else (True, s))
      in (\<not> err, s'))"

definition rs_invar :: "GuideAlgorithmResistSwitch \<Rightarrow> bool" where
  "rs_invar s \<longleftrightarrow> length (m_history s) = rs_HISTORY_SIZE \<and> 0 < rs_minMove s \<and>
     0 \<le> rs_aggression s \<and> rs_aggression s \<le> 1 \<and> m_currentSide s \<in> {- 1, 0, 1}"

lemma sgn_int_cases: "sgn (d :: int) \<in> {- 1, 0, 1}"
  by (simp add: sgn_if)

lemma rs_fast_switch_fields [simp]:
  "rs_minMove (rs_fast_switch s x) = rs_minMove s" "rs_aggression (rs_fast_switch s x) = rs_aggression s"
  by (simp_all add: rs_fast_switch_def)

lemma rs_fast_switch_invar [preserves]: "rs_invar s \<Longrightarrow> rs_invar (rs_fast_switch s x)"
  by (auto simp: rs_invar_def rs_fast_switch_def rs_constants)

lemma rs_switch_Some:
  "rs_switch s = Some s' \<Longrightarrow> s' = s \<or>
     (s' = s\<lparr>m_currentSide := sgn (decHistory s)\<rparr> \<and> 3 \<le> \<bar>decHistory s\<bar> \<and>
      \<bar>rs_oldest (m_history s)\<bar> < \<bar>rs_newest (m_history s)\<bar>)"
  by (auto simp: rs_switch_def Let_def split: if_splits)

lemma rs_switch_invar [preserves]: "rs_invar s \<Longrightarrow> rs_switch s = Some s' \<Longrightarrow> rs_invar s'"
  using sgn_int_cases[of "decHistory s"] by (auto dest!: rs_switch_Some simp: rs_invar_def)

lemma rs_switch_fields:
  "rs_switch s = Some s' \<Longrightarrow> rs_minMove s' = rs_minMove s \<and> rs_aggression s' = rs_aggression s"
  by (drule rs_switch_Some) auto

lemma rs_result_invar [preserves]:
  assumes "rs_invar s" shows "rs_invar (snd (rs_result s x))"
proof -
  have "rs_invar (s\<lparr>m_history := tl (m_history s @ [x])\<rparr>)"
    using assms by (simp add: rs_invar_def rs_constants)
  then show ?thesis
    by (auto simp: rs_result_def Let_def intro: preserves split: option.splits)
qed

lemma rs_result_value:
  "fst (rs_result s x) = 0 \<or>
   fst (rs_result s x) = rs_aggression s * x \<and> m_currentSide (snd (rs_result s x)) = sign x \<and>
   rs_minMove s \<le> \<bar>x\<bar>"
  by (auto simp: rs_result_def Let_def dest: rs_switch_fields split: option.splits)

lemma rs_result_minMove: "rs_minMove (snd (rs_result s x)) = rs_minMove s"
  by (auto simp: rs_result_def Let_def dest: rs_switch_fields split: option.splits)

interpretation resist_switch: bounded_guide_algorithm rs_reset rs_result rs_minMove rs_invar
proof unfold_locales
  fix s x assume inv: "rs_invar s"
  show "rs_invar (rs_reset s)" using inv by (simp add: rs_invar_def rs_reset_def)
  show "rs_invar (snd (rs_result s x))" using inv by (rule rs_result_invar)
  show "\<bar>fst (rs_result s x)\<bar> \<le> \<bar>x\<bar>"
    using rs_result_value[of s x] inv
    by (auto simp: rs_invar_def abs_mult mult_left_le_one_le)
  show "fst (rs_result s x) = 0" if "\<bar>x\<bar> < rs_minMove s"
    using that by (simp add: rs_result_def Let_def)
next
  show "rs_minMove (rs_reset s) = rs_minMove s" for s by (simp add: rs_reset_def)
  show "rs_minMove (snd (rs_result s x)) = rs_minMove s" for s x by (rule rs_result_minMove)
qed

lemma rs_SetMinMove_invar [preserves]: "rs_invar s \<Longrightarrow> rs_invar (snd (rs_SetMinMove s v))"
  by (simp add: rs_invar_def rs_SetMinMove_def rs_constants)

lemma rs_SetAggression_invar [preserves]: "rs_invar s \<Longrightarrow> rs_invar (snd (rs_SetAggression s v))"
  by (simp add: rs_invar_def rs_SetAggression_def Let_def rs_constants)

lemma SetFastSwitchEnabled_invar [preserves]: "rs_invar s \<Longrightarrow> rs_invar (SetFastSwitchEnabled s b)"
  by (simp add: rs_invar_def SetFastSwitchEnabled_def)

lemma rs_SetParam_invar [preserves]: "rs_invar s \<Longrightarrow> rs_invar (snd (rs_SetParam s n v))"
  by (simp add: rs_SetParam_def split_beta preserves)

lemma rs_new_invar: "rs_invar (rs_new cfg cfgb)"
proof -
  have "0 < rs_minMove (snd (rs_SetMinMove s v))" for s v
    by (simp add: rs_SetMinMove_def rs_constants)
  moreover have "rs_minMove (snd (rs_SetAggression s v)) = rs_minMove s \<and>
      0 \<le> rs_aggression (snd (rs_SetAggression s v)) \<and> rs_aggression (snd (rs_SetAggression s v)) \<le> 1" for s v
    by (simp add: rs_SetAggression_def Let_def rs_constants)
  ultimately show ?thesis
    by (simp add: rs_new_def Let_def rs_invar_def rs_reset_def SetFastSwitchEnabled_def rs_constants)
qed

section \<open>Z filter\<close>

text \<open>
  The digital filter keeps the last inputs and outputs of the uncorrected waveform.  The
  coefficients and the gain are those that \<open>BuildFilter\<close> obtained from the filter factory; an
  access beyond the end of a vector (\<open>at\<close>) does not occur when the lengths agree.
\<close>

record GuideAlgorithmZFilter =
  m_xv :: "real list"
  m_yv :: "real list"
  m_xcoeff :: "real list"
  m_ycoeff :: "real list"
  m_gain :: real
  z_minMove :: real
  m_sumCorr :: real

definition z_reset :: "GuideAlgorithmZFilter \<Rightarrow> GuideAlgorithmZFilter" where
  "z_reset s = s\<lparr>m_xv := replicate (length (m_xcoeff s)) 0, m_yv := replicate (length (m_ycoeff s)) 0,
                 m_sumCorr := 0\<rparr>"

definition z_result :: "GuideAlgorithmZFilter \<Rightarrow> real \<Rightarrow> real \<times> GuideAlgorithmZFilter" where
  "z_result s input =
     (let xv = butlast ((input + m_sumCorr s) / m_gain s # m_xv s);
          yv = butlast (0 # m_yv s);
          y0 = (\<Sum>i\<leftarrow>[0..<length (m_xcoeff s)]. xv ! i * m_xcoeff s ! i)
             + (\<Sum>i\<leftarrow>[1..<length (m_ycoeff s)]. yv ! i * m_ycoeff s ! i);
          dReturn = y0 - m_sumCorr s;
          dReturn = (if \<bar>dReturn\<bar> < z_minMove s then 0 else dReturn)
      in (dReturn, s\<lparr>m_xv := xv, m_yv := yv[0 := y0], m_sumCorr := m_sumCorr s + dReturn\<rparr>))"

text \<open>The corrections that a drift \<open>ds\<close> of the sky draws on a mount at \<open>pos\<close> that follows them exactly.\<close>

fun z_guided :: "GuideAlgorithmZFilter \<Rightarrow> real \<Rightarrow> real list \<Rightarrow> real list \<times> GuideAlgorithmZFilter" where
  "z_guided s pos [] = ([], s)"
| "z_guided s pos (d # ds) =
     (let (y, s') = z_result s (d - pos); (ys, s'') = z_guided s' (pos + y) ds in (y # ys, s''))"

lemma z_result_small: "fst (z_result s x) = 0 \<or> z_minMove s \<le> \<bar>fst (z_result s x)\<bar>"
  by (simp add: z_result_def Let_def)

lemma z_result_sumCorr: "m_sumCorr (snd (z_result s x)) = m_sumCorr s + fst (z_result s x)"
  "z_minMove (snd (z_result s x)) = z_minMove s"
  by (simp_all add: z_result_def Let_def)

lemma z_result_other:
  "m_xcoeff (snd (z_result s x)) = m_xcoeff s" "m_gain (snd (z_result s x)) = m_gain s"
  "m_xv (snd (z_result s x)) = butlast ((x + m_sumCorr s) / m_gain s # m_xv s)"
  by (simp_all add: z_result_def Let_def)

lemma z_guided_sum: "m_sumCorr (snd (z_guided s pos ds)) = m_sumCorr s + sum_list (fst (z_guided s pos ds))"
proof (induction ds arbitrary: s pos)
  case (Cons d ds)
  obtain y s' where ys: "z_result s (d - pos) = (y, s')" by (cases "z_result s (d - pos)")
  then have "m_sumCorr s' = m_sumCorr s + y" using z_result_sumCorr(1)[of s "d - pos"] by simp
  with Cons.IH[of s' "pos + y"] ys show ?case by (simp add: split_beta Let_def)
qed simp

lemma z_guided_small: "y \<in> set (fst (z_guided s pos ds)) \<Longrightarrow> y = 0 \<or> z_minMove s \<le> \<bar>y\<bar>"
proof (induction ds arbitrary: s pos)
  case (Cons d ds)
  obtain y' s' where ys: "z_result s (d - pos) = (y', s')" by (cases "z_result s (d - pos)")
  then have "z_minMove s' = z_minMove s" "y' = 0 \<or> z_minMove s \<le> \<bar>y'\<bar>"
    using z_result_sumCorr(2)[of s "d - pos"] z_result_small[of s "d - pos"] by simp_all
  with Cons.IH[of s' "pos + y'"] Cons.prems ys show ?case by (auto simp: split_beta Let_def)
qed simp

lemma z_guided_line:
  "m_sumCorr s = pos \<Longrightarrow>
   m_xv (snd (z_guided s pos ds)) = take (length (m_xv s)) (map (\<lambda>d. d / m_gain s) (rev ds) @ m_xv s)"
proof (induction ds arbitrary: s pos)
  case (Cons d ds)
  obtain y s' where ys: "z_result s (d - pos) = (y, s')" by (cases "z_result s (d - pos)")
  then have "m_sumCorr s' = pos + y" "m_gain s' = m_gain s" "m_xv s' = butlast (d / m_gain s # m_xv s)"
    using z_result_sumCorr(1)[of s "d - pos"] z_result_other[of s "d - pos"] Cons.prems by simp_all
  with Cons.IH[of s' "pos + y"] ys show ?case
    by (simp add: split_beta Let_def butlast_conv_take take_map min_def take_Cons' split: nat_diff_split)
qed simp

definition z_invar :: "GuideAlgorithmZFilter \<Rightarrow> bool" where
  "z_invar s \<longleftrightarrow> length (m_xv s) = length (m_xcoeff s) \<and> length (m_yv s) = length (m_ycoeff s)"

interpretation zfilter: event_machine "alg_step z_reset z_result" z_invar
proof unfold_locales
  fix s e assume inv: "z_invar s"
  have "z_invar (z_reset s)" "z_invar (snd (z_result s x))" for x
    using inv by (simp_all add: z_invar_def z_reset_def z_result_def Let_def del: butlast.simps)
  with inv show "z_invar (alg_step z_reset z_result s e)"
    unfolding alg_step_def
    by (cases e; cases "case e of AlgNotify n \<Rightarrow> n | _ \<Rightarrow> GuidingPaused") auto
qed

section \<open>Properties\<close>

text \<open>The hysteresis algorithm is stable whenever aggression times hysteresis is below one:
  after a reset, offsets of at most \<open>M\<close> are answered by corrections of at most
  \<open>a * (1 - h) / (1 - a * h) * M\<close>, for any settings the setters can store and any number of frames;
  and an offset below the minimum move gets no correction.\<close>

theorem hysteresis_stable:
  assumes "hyst_invar s" and "h_aggression s * m_hysteresis s < 1" and "0 \<le> M" and "\<forall>x\<in>set xs. \<bar>x\<bar> \<le> M"
    and "i < length xs"
  shows "\<bar>alg_outputs hyst_result (hyst_reset s) xs ! i\<bar> \<le>
           h_aggression s * (1 - m_hysteresis s) / (1 - h_aggression s * m_hysteresis s) * M \<and>
         (\<bar>xs ! i\<bar> < h_minMove s \<longrightarrow> alg_outputs hyst_result (hyst_reset s) xs ! i = 0)"
proof -
  have inv: "hyst_invar (hyst_reset s)" using assms(1) by (rule preserves)
  have "0 \<le> 1 - m_hysteresis s" "0 \<le> h_aggression s"
    using assms(1) by (auto simp: hyst_invar_def MaxHysteresis_def)
  then have "0 \<le> h_aggression s * (1 - m_hysteresis s) / (1 - h_aggression s * m_hysteresis s) * M"
    using assms(2,3) by simp
  then have "\<forall>y\<in>set (alg_outputs hyst_result (hyst_reset s) xs).
      \<bar>y\<bar> \<le> h_aggression s * (1 - m_hysteresis s) / (1 - h_aggression s * m_hysteresis s) * M"
    using hyst_outputs_bound[OF inv, of xs M] assms by (simp add: hyst_reset_def)
  moreover have "hyst_invar t \<Longrightarrow> j < length ys \<Longrightarrow> \<bar>ys ! j\<bar> < h_minMove t \<Longrightarrow>
      alg_outputs hyst_result t ys ! j = 0" for t j ys
    by (induction ys arbitrary: t j)
      (auto simp: nth_Cons hysteresis.deadband hysteresis.result_invar split: nat.splits)
  ultimately show ?thesis using assms(5) inv by (simp add: hyst_reset_def)
qed

theorem hysteresis_stable_witness:
  "\<bar>alg_outputs hyst_result (hyst_reset (hyst_new Map.empty)) [1, -2, 0.1] ! 1\<bar> \<le> 63 / 93 * 2"
proof -
  have s: "h_aggression (hyst_new Map.empty) = 0.7" "m_hysteresis (hyst_new Map.empty) = 0.1"
    by (simp_all add: hyst_new_def Let_def hyst_SetMinMove_def SetHysteresis_def hyst_SetAggression_def
        hyst_reset_def hyst_constants GetDouble_def)
  show ?thesis
    using hysteresis_stable[OF hyst_new_invar, of Map.empty 2 "[1, -2, 0.1]" 1] unfolding s by simp
qed

text \<open>C27: at any time after construction, and whatever settings the profile holds, the resist
  switch algorithm corrects only towards its current side, never by more than the offset and only
  beyond the minimum move; and it adopts a new side only when at least three more entries of its
  history lie on that side than on the other and the newest three deviate more than the oldest
  three.\<close>

theorem resist_switch_direction:
  fixes es :: "AlgEvent list" and cfg :: "string \<rightharpoonup> real" and cfgb :: "string \<rightharpoonup> bool"
  defines "s \<equiv> run_events (alg_step rs_reset rs_result) (rs_new cfg cfgb) es"
  shows "let (y, s') = rs_result s x
    in (y \<noteq> 0 \<longrightarrow> sign y = m_currentSide s' \<and> sign y = sign x \<and> \<bar>y\<bar> \<le> \<bar>x\<bar> \<and> rs_minMove s \<le> \<bar>x\<bar>) \<and>
       (m_currentSide s' \<noteq> m_currentSide s \<and> m_currentSide s' \<noteq> 0 \<longrightarrow>
          3 \<le> \<bar>decHistory s'\<bar> \<and> sgn (decHistory s') = m_currentSide s' \<and>
          \<bar>rs_oldest (m_history s')\<bar> < \<bar>rs_newest (m_history s')\<bar>)"
proof -
  have inv: "rs_invar s" unfolding s_def by (rule resist_switch.machine.invar_run[OF rs_new_invar])
  obtain y s' where r: "rs_result s x = (y, s')" by (cases "rs_result s x")
  have "\<bar>y\<bar> \<le> \<bar>x\<bar>" using resist_switch.bounded[OF inv, of x] r by simp
  moreover have "y \<noteq> 0 \<Longrightarrow> sign y = sign x"
    using rs_result_value[of s x] r inv by (auto simp: rs_invar_def sign_def zero_less_mult_iff mult_less_0_iff)
  moreover have "y \<noteq> 0 \<Longrightarrow> m_currentSide s' = sign x \<and> rs_minMove s \<le> \<bar>x\<bar>"
    using rs_result_value[of s x] r by simp
  moreover have "3 \<le> \<bar>decHistory s'\<bar> \<and> sgn (decHistory s') = m_currentSide s' \<and>
      \<bar>rs_oldest (m_history s')\<bar> < \<bar>rs_newest (m_history s')\<bar>"
    if "m_currentSide s' \<noteq> m_currentSide s" "m_currentSide s' \<noteq> 0"
  proof -
    let ?s2 = "rs_fast_switch (s\<lparr>m_history := tl (m_history s @ [x])\<rparr>) x"
    have s2: "m_currentSide ?s2 = m_currentSide s \<or> m_currentSide ?s2 = 0"
      by (simp add: rs_fast_switch_def)
    with that r have "rs_switch ?s2 = Some s'"
      by (auto simp: rs_result_def Let_def split: if_splits option.splits)
    then have "s' = ?s2\<lparr>m_currentSide := sgn (decHistory ?s2)\<rparr> \<and> 3 \<le> \<bar>decHistory ?s2\<bar> \<and>
        \<bar>rs_oldest (m_history ?s2)\<bar> < \<bar>rs_newest (m_history ?s2)\<bar>"
      using rs_switch_Some[of ?s2 s'] s2 that by auto
    then show ?thesis by (simp add: decHistory_def)
  qed
  ultimately show ?thesis by (simp add: r)
qed

theorem resist_switch_direction_witness:
  "fst (rs_result (run_events (alg_step rs_reset rs_result) (rs_new Map.empty Map.empty) []) 2) = 2 \<and>
   sign 2 = m_currentSide (snd (rs_result (run_events (alg_step rs_reset rs_result)
     (rs_new Map.empty Map.empty) []) 2))"
proof -
  have "fst (rs_result (rs_new Map.empty Map.empty) 2) = 2"
    by (simp add: rs_new_def Let_def rs_SetMinMove_def rs_SetAggression_def SetFastSwitchEnabled_def
        rs_reset_def rs_constants GetDouble_def rs_result_def rs_fast_switch_def rs_switch_def
        decHistory_def sign_def rs_newest_def rs_oldest_def numeral_3_eq_3 eval_nat_numeral)
  then show ?thesis
    using resist_switch_direction[of Map.empty Map.empty "[]" 2] by (simp add: split_beta Let_def)
qed

text \<open>Guiding a mount that carries out the corrections it is
  given, the Z filter sees through them: after any drift \<open>ds\<close> of the sky its input line holds the
  last displacements themselves, scaled by the gain, \<open>m_sumCorr\<close> is where the mount has been moved
  to, and every correction is zero or at least the minimum move.\<close>

theorem zfilter_accounts_for_corrections:
  "let (ys, s') = z_guided (z_reset s) 0 ds
   in m_xv s' = take (length (m_xcoeff s)) (map (\<lambda>d. d / m_gain s) (rev ds) @ replicate (length (m_xcoeff s)) 0) \<and>
      m_sumCorr s' = sum_list ys \<and> (\<forall>y\<in>set ys. y = 0 \<or> z_minMove s \<le> \<bar>y\<bar>)"
  using z_guided_sum[of "z_reset s" 0 ds] z_guided_small[of _ "z_reset s" 0 ds] z_guided_line[of "z_reset s" 0 ds]
  by (auto simp: z_reset_def Let_def split_beta)

definition example_zfilter :: GuideAlgorithmZFilter where
  "example_zfilter = \<lparr>m_xv = [], m_yv = [], m_xcoeff = [1, 1], m_ycoeff = [1], m_gain = 2, z_minMove = 0.2, m_sumCorr = 0\<rparr>"

theorem zfilter_accounts_for_corrections_witness:
  "let (ys, s') = z_guided (z_reset example_zfilter) 0 [1, 1.1, 1.9]
   in m_xv s' = [0.95, 0.55] \<and> m_sumCorr s' = sum_list ys \<and> (\<forall>y\<in>set ys. y = 0 \<or> 0.2 \<le> \<bar>y\<bar>)"
  using zfilter_accounts_for_corrections[of example_zfilter "[1, 1.1, 1.9]"]
  by (simp add: split_beta Let_def example_zfilter_def numeral_2_eq_2 One_nat_def)

end
