(* ===== verification/Lowpass_Algorithms.thy ===== *)
theory Lowpass_Algorithms
  imports Guide_Algorithms Guiding_Stats
begin

text \<open>
  The low-pass guide algorithms: the decision math of \<open>src/guide_algorithm_lowpass_math.cpp\<close>
  (namespaces \<open>guide_lowpass\<close> and \<open>guide_lowpass2\<close>) over the windowed statistics of
  \<open>Guiding_Stats\<close>, and the classes of \<open>src/guide_algorithm_lowpass.cpp\<close> and
  \<open>src/guide_algorithm_lowpass2.cpp\<close> that call it.

  The slope of the linear fit may be a NaN (\<^term>\<open>None\<close>); a comparison with a NaN is false.
  The invariants below show that no correction is ever a NaN, because the time base makes the
  times of the window distinct.
\<close>

section \<open>guide_lowpass\<close>

record LowpassResult =
  lp_value :: "real option"
  lp_computed :: "real option"
  lp_clampedToInput :: bool

partial_function (option) lowpass_fill ::
  "int \<Rightarrow> WindowedAxisStats \<Rightarrow> int \<Rightarrow> (WindowedAxisStats \<times> int) option" where
  "lowpass_fill historySize stats timeBase =
     (if sint (GetCount stats) < historySize
      then lowpass_fill historySize (w_AddGuideInfo stats (real_of_int timeBase) 0 0) (timeBase + 1)
      else Some (stats, timeBase))"

definition lowpass_Reset :: "WindowedAxisStats \<Rightarrow> int \<Rightarrow> (WindowedAxisStats \<times> int) option" where
  "lowpass_Reset stats historySize = lowpass_fill historySize (as_ClearAll stats) 0"

text \<open>\<open>fabs(a) > fabs(b)\<close> where \<open>a\<close> may be a NaN.\<close>

definition abs_gt :: "real option \<Rightarrow> real \<Rightarrow> bool" where
  "abs_gt a b = (case a of None \<Rightarrow> False | Some v \<Rightarrow> \<bar>v\<bar> > \<bar>b\<bar>)"

definition lowpass_Compute ::
  "WindowedAxisStats \<Rightarrow> int \<Rightarrow> real \<Rightarrow> real \<Rightarrow> real \<Rightarrow> LowpassResult \<times> WindowedAxisStats \<times> int" where
  "lowpass_Compute stats timeBase slopeWeight minMove input =
     (let stats1 = w_AddGuideInfo stats (real_of_int timeBase) input 0;
          median = GetMedian stats1;
          stats2 = RemoveOldestEntry stats1;
          slope = lf_Slope (GetLinearFitResults stats2);
          dReturn = map_option (\<lambda>m. median + slopeWeight * m) slope;
          clamped = abs_gt dReturn input;
          v = (if clamped then Some input else dReturn);
          v = (if \<bar>input\<bar> < minMove then Some 0 else v)
      in (\<lparr>lp_value = v, lp_computed = dReturn, lp_clampedToInput = clamped\<rparr>, stats2, timeBase + 1))"

section \<open>guide_lowpass2\<close>

record Lowpass2Result =
  lp2_value :: "real option"
  lp2_computed :: "real option"
  lp2_slope :: "real option"
  lp2_clampedToInput :: bool
  lp2_outlierDumped :: bool
  lp2_threeRejectReset :: bool

definition lowpass2_Reset :: "WindowedAxisStats \<Rightarrow> WindowedAxisStats \<times> int \<times> int" where
  "lowpass2_Reset stats = (as_ClearAll stats, 0, 0)"

text \<open>
  The first half of \<open>Compute\<close>: the tentative correction, the slope, whether the history was
  dumped, and the new filter state (window, time base, rejects).
\<close>

definition lowpass2_tentative ::
  "WindowedAxisStats \<Rightarrow> int \<Rightarrow> int \<Rightarrow> real \<Rightarrow> real \<Rightarrow> real \<Rightarrow>
   real option \<times> real option \<times> bool \<times> WindowedAxisStats \<times> int \<times> int" where
  "lowpass2_tentative stats timeBase rejects aggressiveness minMove input =
     (let stats1 = w_AddGuideInfo stats (real_of_int timeBase) input 0;
          numpts = GetCount stats1;
          attenuation = aggressiveness / 100
      in if numpts < 4
         then (Some (input * attenuation), Some 0, False, stats1, timeBase + 1, rejects)
         else if \<bar>input\<bar> > 4 * minMove
         then (let (st, tb, rj) = lowpass2_Reset stats1
               in (Some (input * attenuation), Some 0, True, st, tb, rj))
         else (let newSlope = lf_Slope (GetLinearFitResults stats1);
                   dReturn = map_option (\<lambda>m. m * real (unat numpts) * attenuation) newSlope;
                   dReturn = (case dReturn of None \<Rightarrow> None
                              | Some d \<Rightarrow> if input * d < 0 then Some 0 else Some d)
               in (dReturn, newSlope, False, stats1, timeBase + 1, rejects)))"

definition lowpass2_Compute ::
  "WindowedAxisStats \<Rightarrow> int \<Rightarrow> int \<Rightarrow> real \<Rightarrow> real \<Rightarrow> real \<Rightarrow>
   Lowpass2Result \<times> WindowedAxisStats \<times> int \<times> int" where
  "lowpass2_Compute stats timeBase rejects aggressiveness minMove input =
     (let (dReturn, newSlope, dumped, st, tb, rj) =
            lowpass2_tentative stats timeBase rejects aggressiveness minMove input;
          clamped = abs_gt dReturn input;
          v = (if clamped then Some (input * (aggressiveness / 100)) else dReturn);
          rj1 = (if clamped then rj + 1 else 0);
          three = (clamped \<and> rj1 > 3);
          (st', tb', rj') = (if three then lowpass2_Reset st else (st, tb, rj1));
          v = (if \<bar>input\<bar> < minMove then Some 0 else v)
      in (\<lparr>lp2_value = v, lp2_computed = dReturn, lp2_slope = newSlope, lp2_clampedToInput = clamped,
           lp2_outlierDumped = dumped, lp2_threeRejectReset = three\<rparr>, st', tb', rj'))"

section \<open>The classes\<close>

definition lp_HISTORY_SIZE :: int where "lp_HISTORY_SIZE = 10"
definition lp_DefaultMinMove :: real where "lp_DefaultMinMove = 0.2"
definition DefaultSlopeWeight :: real where "DefaultSlopeWeight = 5"
definition DefaultAggressiveness :: real where "DefaultAggressiveness = 80"

lemmas lp_constants = lp_HISTORY_SIZE_def lp_DefaultMinMove_def DefaultSlopeWeight_def
  DefaultAggressiveness_def

record GuideAlgorithmLowpass =
  lp_axisStats :: WindowedAxisStats
  lp_timeBase :: int
  lp_minMove :: real
  m_slopeWeight :: real
  lp_cfg :: "string \<rightharpoonup> real"

definition lp_reset :: "GuideAlgorithmLowpass \<Rightarrow> GuideAlgorithmLowpass option" where
  "lp_reset s = map_option (\<lambda>(st, tb). s\<lparr>lp_axisStats := st, lp_timeBase := tb\<rparr>)
     (lowpass_Reset (lp_axisStats s) lp_HISTORY_SIZE)"

definition lp_result :: "GuideAlgorithmLowpass \<Rightarrow> real \<Rightarrow> real option \<times> GuideAlgorithmLowpass" where
  "lp_result s input =
     (let (r, st, tb) = lowpass_Compute (lp_axisStats s) (lp_timeBase s) (m_slopeWeight s) (lp_minMove s) input
      in (lp_value r, s\<lparr>lp_axisStats := st, lp_timeBase := tb\<rparr>))"

definition lp_SetMinMove :: "GuideAlgorithmLowpass \<Rightarrow> real \<Rightarrow> bool \<times> GuideAlgorithmLowpass" where
  "lp_SetMinMove s v =
     (let bError = v < 0; m = (if bError then lp_DefaultMinMove else v)
      in (bError, s\<lparr>lp_minMove := m, lp_cfg := (lp_cfg s)(''minMove'' \<mapsto> m)\<rparr>))"

definition SetSlopeWeight :: "GuideAlgorithmLowpass \<Rightarrow> real \<Rightarrow> bool \<times> GuideAlgorithmLowpass" where
  "SetSlopeWeight s v =
     (let bError = v < 0; m = (if bError then DefaultSlopeWeight else v)
      in (bError, s\<lparr>m_slopeWeight := m, lp_cfg := (lp_cfg s)(''SlopeWeight'' \<mapsto> m)\<rparr>))"

definition lp_new :: "(string \<rightharpoonup> real) \<Rightarrow> GuideAlgorithmLowpass option" where
  "lp_new cfg =
     (let s0 = \<lparr>lp_axisStats = WindowedAxisStats_new 0, lp_timeBase = 0, lp_minMove = 0,
                m_slopeWeight = 0, lp_cfg = cfg\<rparr>;
          s1 = snd (lp_SetMinMove s0 (GetDouble (lp_cfg s0) ''minMove'' lp_DefaultMinMove));
          s2 = snd (SetSlopeWeight s1 (GetDouble (lp_cfg s1) ''SlopeWeight'' DefaultSlopeWeight))
      in lp_reset (s2\<lparr>lp_axisStats := WindowedAxisStats_new 0, lp_timeBase := 0\<rparr>))"

definition lp_GetParam :: "GuideAlgorithmLowpass \<Rightarrow> string \<Rightarrow> real option" where
  "lp_GetParam s name =
     (if name = ''minMove'' then Some (lp_minMove s)
      else if name = ''slopeWeight'' then Some (m_slopeWeight s) else None)"

definition lp_SetParam :: "GuideAlgorithmLowpass \<Rightarrow> string \<Rightarrow> real \<Rightarrow> bool \<times> GuideAlgorithmLowpass" where
  "lp_SetParam s name val =
     (let (err, s') = (if name = ''minMove'' then lp_SetMinMove s val
                       else if name = ''slopeWeight'' then SetSlopeWeight s val
                       else (True, s))
      in (\<not> err, s'))"

record GuideAlgorithmLowpass2 =
  lp2_axisStats :: WindowedAxisStats
  lp2_timeBase :: int
  m_rejects :: int
  lp2_minMove :: real
  m_aggressiveness :: real
  lp2_cfg :: "string \<rightharpoonup> real"

definition lp2_reset :: "GuideAlgorithmLowpass2 \<Rightarrow> GuideAlgorithmLowpass2" where
  "lp2_reset s = (let (st, tb, rj) = lowpass2_Reset (lp2_axisStats s)
                  in s\<lparr>lp2_axisStats := st, lp2_timeBase := tb, m_rejects := rj\<rparr>)"

definition lp2_result :: "GuideAlgorithmLowpass2 \<Rightarrow> real \<Rightarrow> real option \<times> GuideAlgorithmLowpass2" where
  "lp2_result s input =
     (let (r, st, tb, rj) = lowpass2_Compute (lp2_axisStats s) (lp2_timeBase s) (m_rejects s)
                              (m_aggressiveness s) (lp2_minMove s) input
      in (lp2_value r, s\<lparr>lp2_axisStats := st, lp2_timeBase := tb, m_rejects := rj\<rparr>))"

definition lp2_SetMinMove :: "GuideAlgorithmLowpass2 \<Rightarrow> real \<Rightarrow> bool \<times> GuideAlgorithmLowpass2" where
  "lp2_SetMinMove s v =
     (let bError = v < 0; m = (if bError then lp_DefaultMinMove else v)
      in (bError, s\<lparr>lp2_minMove := m, lp2_cfg := (lp2_cfg s)(''minMove'' \<mapsto> m)\<rparr>))"

text \<open>
  On an invalid value the handler assigns the default to its own parameter, which is what the
  profile then receives; the member \<open>m_aggressiveness\<close> keeps its value.
\<close>

definition SetAggressiveness :: "GuideAlgorithmLowpass2 \<Rightarrow> real \<Rightarrow> bool \<times> GuideAlgorithmLowpass2" where
  "SetAggressiveness s aggressiveness =
     (if aggressiveness < 0
      then (True, s\<lparr>lp2_cfg := (lp2_cfg s)(''Aggressiveness'' \<mapsto> DefaultAggressiveness)\<rparr>)
      else (False, s\<lparr>m_aggressiveness := aggressiveness,
                     lp2_cfg := (lp2_cfg s)(''Aggressiveness'' \<mapsto> aggressiveness)\<rparr>))"

text \<open>\<open>junk\<close> is the indeterminate value of the member \<open>m_aggressiveness\<close> before the setter.\<close>

definition lp2_new :: "real \<Rightarrow> (string \<rightharpoonup> real) \<Rightarrow> GuideAlgorithmLowpass2" where
  "lp2_new junk cfg =
     (let s0 = \<lparr>lp2_axisStats = WindowedAxisStats_new 0, lp2_timeBase = 0, m_rejects = 0,
                lp2_minMove = 0, m_aggressiveness = junk, lp2_cfg = cfg\<rparr>;
          s1 = snd (lp2_SetMinMove s0 (GetDouble (lp2_cfg s0) ''minMove'' lp_DefaultMinMove));
          s2 = snd (SetAggressiveness s1 (GetDouble (lp2_cfg s1) ''Aggressiveness'' DefaultAggressiveness))
      in lp2_reset (s2\<lparr>lp2_axisStats := WindowedAxisStats_new lp_HISTORY_SIZE, lp2_timeBase := 0\<rparr>))"

definition lp2_GetParam :: "GuideAlgorithmLowpass2 \<Rightarrow> string \<Rightarrow> real option" where
  "lp2_GetParam s name =
     (if name = ''minMove'' then Some (lp2_minMove s)
      else if name = ''aggressiveness'' then Some (m_aggressiveness s) else None)"

definition lp2_SetParam :: "GuideAlgorithmLowpass2 \<Rightarrow> string \<Rightarrow> real \<Rightarrow> bool \<times> GuideAlgorithmLowpass2" where
  "lp2_SetParam s name val =
     (let (err, s') = (if name = ''minMove'' then lp2_SetMinMove s val
                       else if name = ''aggressiveness'' then SetAggressiveness s val
                       else (True, s))
      in (\<not> err, s'))"

section \<open>The clock of the window\<close>

definition clock_ok :: "'a AxisStats_scheme \<Rightarrow> int \<Rightarrow> bool" where
  "clock_ok a tb \<longleftrightarrow> sums_ok a \<and> sorted_wrt (<) (times a) \<and> (\<forall>t\<in>set (times a). t < real_of_int tb)"

lemma AddGuideInfo_clock: "clock_ok a tb \<Longrightarrow> clock_ok (AddGuideInfo a (real_of_int tb) x g) (tb + 1)"
  by (fastforce simp: clock_ok_def times_def sorted_wrt_append intro: preserves)

lemma RemoveOldestEntry_clock: "clock_ok w tb \<Longrightarrow> clock_ok (RemoveOldestEntry w) tb"
  by (cases "guidingEntries w") (auto simp: clock_ok_def times_def intro: preserves)

lemma w_AddGuideInfo_clock: "clock_ok w tb \<Longrightarrow> clock_ok (w_AddGuideInfo w (real_of_int tb) x g) (tb + 1)"
  by (simp add: w_AddGuideInfo_def Let_def AddGuideInfo_clock RemoveOldestEntry_clock)

lemma as_ClearAll_clock: "clock_ok (as_ClearAll a) tb"
  using ClearAll_sums[of a] by (simp add: clock_ok_def times_def) (simp add: as_ClearAll_def)

lemma strictly_sorted_sq_dev:
  assumes "sorted_wrt (<) xs" and "length xs > 1" shows "sq_dev xs \<noteq> 0"
proof
  assume "sq_dev xs = 0"
  then have eq: "\<forall>x\<in>set xs. x = list_mean xs" by (simp add: sq_dev_0_iff)
  have "xs ! 0 < xs ! 1" using assms by (simp add: sorted_wrt_nth_less)
  moreover have "0 < length xs" "1 < length xs" using assms(2) by linarith+
  then have "xs ! 0 \<in> set xs" "xs ! 1 \<in> set xs" using nth_mem by blast+
  ultimately show False using eq by (metis less_irrefl)
qed

lemma clock_slope:
  assumes "clock_ok a tb" and "length (guidingEntries a) > 1"
  shows "\<exists>m. lf_Slope (GetLinearFitResults a) = Some m"
proof -
  have "sq_dev (times a) \<noteq> 0"
    using assms strictly_sorted_sq_dev[of "times a"] by (simp add: clock_ok_def times_def)
  then show ?thesis using fit_slope_defined[of a] assms by (auto simp: clock_ok_def)
qed

section \<open>Lowpass: no NaN, and bounded\<close>

lemma sint_count: "length (guidingEntries a) < 2 ^ 31 \<Longrightarrow> sint (GetCount a) = int (length (guidingEntries a))"
  by (simp add: GetCount_def signed_of_nat signed_take_bit_int_eq_self)

lemma unat_count: "length (guidingEntries a) < 2 ^ 32 \<Longrightarrow> unat (GetCount a) = length (guidingEntries a)"
  by (simp add: GetCount_def unat_of_nat)

lemma w_Add_manual: "\<not> autoWindowing w \<Longrightarrow> w_AddGuideInfo w t x g = AddGuideInfo w t x g"
  by (simp add: w_AddGuideInfo_def Let_def)

lemma lowpass_fill_total:
  assumes "clock_ok st tb" and "\<not> autoWindowing st" and "length (guidingEntries st) \<le> n" and "n < 2 ^ 31"
  shows "\<exists>st' tb'. lowpass_fill (int n) st tb = Some (st', tb') \<and> clock_ok st' tb' \<and>
    \<not> autoWindowing st' \<and> length (guidingEntries st') = n"
  using assms
proof (induction "n - length (guidingEntries st)" arbitrary: st tb)
  case 0
  then have "lowpass_fill (int n) st tb = Some (st, tb)"
    by (subst lowpass_fill.simps) (simp add: sint_count)
  with 0 show ?case by auto
next
  case (Suc d)
  then have "sint (GetCount st) < int n" by (simp add: sint_count)
  then have step: "lowpass_fill (int n) st tb =
      lowpass_fill (int n) (AddGuideInfo st (real_of_int tb) 0 0) (tb + 1)"
    using Suc.prems by (subst lowpass_fill.simps) (simp add: w_Add_manual)
  show ?case unfolding step
    using Suc.prems Suc.hyps(2) by (intro Suc.hyps(1)) (auto simp: AddGuideInfo_clock)
qed

definition lp_invar :: "GuideAlgorithmLowpass \<Rightarrow> bool" where
  "lp_invar s \<longleftrightarrow> clock_ok (lp_axisStats s) (lp_timeBase s) \<and> \<not> autoWindowing (lp_axisStats s) \<and>
     length (guidingEntries (lp_axisStats s)) = 10 \<and> 0 \<le> lp_minMove s \<and> 0 \<le> m_slopeWeight s"

lemma as_ClearAll_simps [simp]:
  "guidingEntries (as_ClearAll a) = []" "autoWindowing (as_ClearAll w) = autoWindowing w"
  "windowSize (as_ClearAll w) = windowSize w"
  by (simp_all add: as_ClearAll_def InitializeScalars_def)

lemma lp_reset_ok:
  assumes "\<not> autoWindowing (lp_axisStats s)" and "0 \<le> lp_minMove s" and "0 \<le> m_slopeWeight s"
  shows "\<exists>s'. lp_reset s = Some s' \<and> lp_invar s' \<and> lp_minMove s' = lp_minMove s"
proof -
  obtain st tb where "lowpass_fill 10 (as_ClearAll (lp_axisStats s)) 0 = Some (st, tb)"
    "clock_ok st tb" "\<not> autoWindowing st" "length (guidingEntries st) = 10"
    using lowpass_fill_total[OF as_ClearAll_clock[of "lp_axisStats s" 0], of 10] assms(1) by auto
  with assms show ?thesis
    by (auto simp: lp_reset_def lowpass_Reset_def lp_constants lp_invar_def)
qed

lemma lp_result_ok:
  assumes "lp_invar s"
  shows "\<exists>v s'. lp_result s x = (Some v, s') \<and> lp_invar s' \<and> lp_minMove s' = lp_minMove s \<and>
    \<bar>v\<bar> \<le> \<bar>x\<bar> \<and> (\<bar>x\<bar> < lp_minMove s \<longrightarrow> v = 0)"
proof -
  let ?st1 = "AddGuideInfo (lp_axisStats s) (real_of_int (lp_timeBase s)) x 0"
  let ?st2 = "RemoveOldestEntry ?st1"
  have cl: "clock_ok ?st2 (lp_timeBase s + 1)"
    using assms by (auto simp: lp_invar_def intro: RemoveOldestEntry_clock AddGuideInfo_clock)
  have len: "length (guidingEntries ?st2) = 10" using assms by (simp add: lp_invar_def)
  obtain m where m: "lf_Slope (GetLinearFitResults ?st2) = Some m"
    using clock_slope[OF cl] len by auto
  have man: "w_AddGuideInfo (lp_axisStats s) (real_of_int (lp_timeBase s)) x 0 = ?st1"
    using assms by (intro w_Add_manual) (simp add: lp_invar_def)
  define v where "v = GetMedian ?st1 + m_slopeWeight s * m"
  have "lp_result s x = (Some (if \<bar>x\<bar> < lp_minMove s then 0 else if \<bar>v\<bar> > \<bar>x\<bar> then x else v),
      s\<lparr>lp_axisStats := ?st2, lp_timeBase := lp_timeBase s + 1\<rparr>)"
    by (simp add: lp_result_def lowpass_Compute_def Let_def man m abs_gt_def v_def)
  moreover have "lp_invar (s\<lparr>lp_axisStats := ?st2, lp_timeBase := lp_timeBase s + 1\<rparr>)"
    using assms cl len by (simp add: lp_invar_def)
  ultimately show ?thesis by auto
qed

text \<open>The total views of the class, equal to its operations under the invariant.\<close>

definition lp_reset_total :: "GuideAlgorithmLowpass \<Rightarrow> GuideAlgorithmLowpass" where
  "lp_reset_total s = the (lp_reset s)"

definition lp_result_real :: "GuideAlgorithmLowpass \<Rightarrow> real \<Rightarrow> real \<times> GuideAlgorithmLowpass" where
  "lp_result_real s x = (the (fst (lp_result s x)), snd (lp_result s x))"

interpretation lowpass: bounded_guide_algorithm lp_reset_total lp_result_real lp_minMove lp_invar
proof unfold_locales
  fix s x assume inv: "lp_invar s"
  obtain s1 where s1: "lp_reset s = Some s1" "lp_invar s1" "lp_minMove s1 = lp_minMove s"
    using lp_reset_ok[of s] inv by (auto simp: lp_invar_def)
  obtain v s2 where s2: "lp_result s x = (Some v, s2)" "lp_invar s2" "lp_minMove s2 = lp_minMove s"
    "\<bar>v\<bar> \<le> \<bar>x\<bar>" "\<bar>x\<bar> < lp_minMove s \<longrightarrow> v = 0"
    using lp_result_ok[OF inv] by blast
  show "lp_invar (lp_reset_total s)" "lp_minMove (lp_reset_total s) = lp_minMove s"
    using s1 by (simp_all add: lp_reset_total_def)
  show "lp_invar (snd (lp_result_real s x))" "lp_minMove (snd (lp_result_real s x)) = lp_minMove s"
    "\<bar>fst (lp_result_real s x)\<bar> \<le> \<bar>x\<bar>" "\<bar>x\<bar> < lp_minMove s \<Longrightarrow> fst (lp_result_real s x) = 0"
    using s2 by (simp_all add: lp_result_real_def)
qed

lemma lp_new_ok: "\<exists>s. lp_new cfg = Some s \<and> lp_invar s"
proof -
  define t where "t = snd (SetSlopeWeight (snd (lp_SetMinMove
      \<lparr>lp_axisStats = WindowedAxisStats_new 0, lp_timeBase = 0, lp_minMove = 0, m_slopeWeight = 0, lp_cfg = cfg\<rparr>
      (GetDouble cfg ''minMove'' lp_DefaultMinMove)))
      (GetDouble (cfg(''minMove'' \<mapsto> if GetDouble cfg ''minMove'' lp_DefaultMinMove < 0
         then lp_DefaultMinMove else GetDouble cfg ''minMove'' lp_DefaultMinMove)) ''SlopeWeight'' DefaultSlopeWeight))"
  have "lp_new cfg = lp_reset (t\<lparr>lp_axisStats := WindowedAxisStats_new 0, lp_timeBase := 0\<rparr>)"
    by (simp add: lp_new_def t_def Let_def lp_SetMinMove_def)
  moreover have "0 \<le> lp_minMove t" "0 \<le> m_slopeWeight t"
    by (simp_all add: t_def lp_SetMinMove_def SetSlopeWeight_def Let_def lp_constants)
  moreover have "\<not> autoWindowing (WindowedAxisStats_new 0)"
    by (simp add: WindowedAxisStats_new_def AxisStats.extend_def)
  ultimately show ?thesis
    using lp_reset_ok[of "t\<lparr>lp_axisStats := WindowedAxisStats_new 0, lp_timeBase := 0\<rparr>"] by auto
qed

section \<open>Lowpass2: no NaN, and bounded\<close>

definition lp2_invar :: "GuideAlgorithmLowpass2 \<Rightarrow> bool" where
  "lp2_invar s \<longleftrightarrow> clock_ok (lp2_axisStats s) (lp2_timeBase s) \<and> autoWindowing (lp2_axisStats s) \<and>
     windowSize (lp2_axisStats s) = 10 \<and> length (guidingEntries (lp2_axisStats s)) \<le> 10 \<and>
     0 \<le> lp2_minMove s \<and> 0 \<le> m_aggressiveness s \<and> m_aggressiveness s \<le> 100 \<and>
     0 \<le> m_rejects s \<and> m_rejects s \<le> 3"

definition win_ok :: "WindowedAxisStats \<Rightarrow> int \<Rightarrow> bool" where
  "win_ok st tb \<longleftrightarrow> clock_ok st tb \<and> autoWindowing st \<and> windowSize st = 10 \<and>
     length (guidingEntries st) \<le> 10"

lemma w_Add_win: "win_ok st tb \<Longrightarrow> win_ok (w_AddGuideInfo st (real_of_int tb) x g) (tb + 1)"
  using w_AddGuideInfo_clock[of st tb x g]
  by (auto simp: win_ok_def) (auto simp: w_AddGuideInfo_def Let_def)

lemma as_ClearAll_win: "win_ok st tb \<Longrightarrow> win_ok (as_ClearAll st) tb'"
  using as_ClearAll_clock[of st tb'] by (simp add: win_ok_def)

lemma scaled_le: "0 \<le> k \<Longrightarrow> k \<le> 1 \<Longrightarrow> \<bar>x * k\<bar> \<le> \<bar>x :: real\<bar>"
  by (simp add: abs_mult mult_left_le)

lemma lowpass2_tentative_ok:
  assumes "win_ok st tb" and "0 \<le> rj" and "rj \<le> 3"
  shows "\<exists>d sl dumped st' tb' rj'. lowpass2_tentative st tb rj ag mm x = (Some d, sl, dumped, st', tb', rj') \<and>
    win_ok st' tb' \<and> 0 \<le> rj' \<and> rj' \<le> 3"
proof -
  let ?st1 = "w_AddGuideInfo st (real_of_int tb) x 0"
  have w: "win_ok ?st1 (tb + 1)" using assms(1) by (rule w_Add_win)
  show ?thesis
  proof (cases "GetCount ?st1 < 4 \<or> \<bar>x\<bar> > 4 * mm")
    case True
    then show ?thesis
      using w assms as_ClearAll_win[OF w, of 0]
      by (auto simp: lowpass2_tentative_def Let_def lowpass2_Reset_def
          simp del: times_divide_eq_right divide_eq_eq_numeral1)
  next
    case False
    have "unat (GetCount ?st1) = length (guidingEntries ?st1)"
      using w by (intro unat_count) (simp add: win_ok_def)
    moreover have "\<not> unat (GetCount ?st1) < 4" using False by (simp add: word_less_nat_alt)
    ultimately have "length (guidingEntries ?st1) > 1" by simp
    then obtain m where m: "lf_Slope (GetLinearFitResults ?st1) = Some m"
      using clock_slope[of ?st1 "tb + 1"] w by (auto simp: win_ok_def)
    define d where "d = m * real (unat (GetCount ?st1)) * (ag / 100)"
    have "lowpass2_tentative st tb rj ag mm x =
        (Some (if x * d < 0 then 0 else d), Some m, False, ?st1, tb + 1, rj)"
      using False m by (simp add: lowpass2_tentative_def Let_def d_def)
    with w assms show ?thesis by blast
  qed
qed

lemma lp2_result_ok:
  assumes "lp2_invar s"
  shows "\<exists>v s'. lp2_result s x = (Some v, s') \<and> lp2_invar s' \<and> lp2_minMove s' = lp2_minMove s \<and>
    m_aggressiveness s' = m_aggressiveness s \<and> \<bar>v\<bar> \<le> \<bar>x\<bar> \<and> (\<bar>x\<bar> < lp2_minMove s \<longrightarrow> v = 0)"
proof -
  have win: "win_ok (lp2_axisStats s) (lp2_timeBase s)" and rj: "0 \<le> m_rejects s" "m_rejects s \<le> 3"
    using assms by (auto simp: lp2_invar_def win_ok_def)
  obtain d sl dumped st tb r where t: "lowpass2_tentative (lp2_axisStats s) (lp2_timeBase s) (m_rejects s)
      (m_aggressiveness s) (lp2_minMove s) x = (Some d, sl, dumped, st, tb, r)"
    and w: "win_ok st tb" "0 \<le> r" "r \<le> 3"
    using lowpass2_tentative_ok[OF win rj] by blast
  define c where "c = (\<bar>d\<bar> > \<bar>x\<bar>)"
  define s' where "s' = (if c \<and> r + 1 > 3
      then s\<lparr>lp2_axisStats := as_ClearAll st, lp2_timeBase := 0, m_rejects := 0\<rparr>
      else s\<lparr>lp2_axisStats := st, lp2_timeBase := tb, m_rejects := if c then r + 1 else 0\<rparr>)"
  define v where "v = (if \<bar>x\<bar> < lp2_minMove s then 0 else if c then x * (m_aggressiveness s / 100) else d)"
  have eq: "lp2_result s x = (Some v, s')"
    by (simp add: lp2_result_def lowpass2_Compute_def t Let_def abs_gt_def c_def s'_def v_def
        lowpass2_Reset_def)
  have "\<bar>x * (m_aggressiveness s / 100)\<bar> \<le> \<bar>x\<bar>"
    using assms by (intro scaled_le) (auto simp: lp2_invar_def)
  then have "\<bar>v\<bar> \<le> \<bar>x\<bar>" by (auto simp: v_def c_def)
  moreover have "lp2_invar s'"
    using assms w as_ClearAll_win[OF w(1), of 0] by (auto simp: s'_def lp2_invar_def win_ok_def)
  moreover have "lp2_minMove s' = lp2_minMove s" "m_aggressiveness s' = m_aggressiveness s"
    by (simp_all add: s'_def)
  ultimately show ?thesis using eq by (auto simp: v_def)
qed

definition lp2_result_real :: "GuideAlgorithmLowpass2 \<Rightarrow> real \<Rightarrow> real \<times> GuideAlgorithmLowpass2" where
  "lp2_result_real s x = (the (fst (lp2_result s x)), snd (lp2_result s x))"

interpretation lowpass2: bounded_guide_algorithm lp2_reset lp2_result_real lp2_minMove lp2_invar
proof unfold_locales
  fix s x assume inv: "lp2_invar s"
  obtain v s2 where s2: "lp2_result s x = (Some v, s2)" "lp2_invar s2" "lp2_minMove s2 = lp2_minMove s"
    "\<bar>v\<bar> \<le> \<bar>x\<bar>" "\<bar>x\<bar> < lp2_minMove s \<longrightarrow> v = 0"
    using lp2_result_ok[OF inv] by blast
  show "lp2_invar (lp2_reset s)" "lp2_minMove (lp2_reset s) = lp2_minMove s"
    using inv as_ClearAll_clock[of "lp2_axisStats s" 0]
    by (simp_all add: lp2_invar_def lp2_reset_def lowpass2_Reset_def)
  show "lp2_invar (snd (lp2_result_real s x))" "lp2_minMove (snd (lp2_result_real s x)) = lp2_minMove s"
    "\<bar>fst (lp2_result_real s x)\<bar> \<le> \<bar>x\<bar>" "\<bar>x\<bar> < lp2_minMove s \<Longrightarrow> fst (lp2_result_real s x) = 0"
    using s2 by (simp_all add: lp2_result_real_def)
qed

section \<open>Properties\<close>

text \<open>C21: the low-pass algorithm always returns.  Constructing it from any profile fills the
  window and terminates; from then on, through any sequence of notifications and offsets, every
  correction is a number (the slope of the window never becomes a NaN), is no larger than the offset
  it answers, and is zero below the minimum move.\<close>

theorem lowpass_total_and_bounded:
  "\<exists>s0. lp_new cfg = Some s0 \<and>
     (\<forall>es x. let s = run_events (alg_step lp_reset_total lp_result_real) s0 es
       in \<exists>v. fst (lp_result s x) = Some v \<and> \<bar>v\<bar> \<le> \<bar>x\<bar> \<and> (\<bar>x\<bar> < lp_minMove s \<longrightarrow> v = 0) \<and>
          (\<exists>s'. lp_reset s = Some s'))"
proof -
  obtain s0 where s0: "lp_new cfg = Some s0" "lp_invar s0" using lp_new_ok by blast
  have "lp_invar (run_events (alg_step lp_reset_total lp_result_real) s0 es)" for es
    using s0(2) by (rule lowpass.machine.invar_run)
  moreover have "\<exists>v. fst (lp_result s x) = Some v \<and> \<bar>v\<bar> \<le> \<bar>x\<bar> \<and> (\<bar>x\<bar> < lp_minMove s \<longrightarrow> v = 0) \<and>
      (\<exists>s'. lp_reset s = Some s')" if "lp_invar s" for s x
    using lp_result_ok[OF that, of x] lp_reset_ok[of s] that by (fastforce simp: lp_invar_def)
  ultimately show ?thesis using s0(1) by (auto simp: Let_def)
qed

theorem lowpass_total_and_bounded_witness:
  "\<exists>s0 v. lp_new Map.empty = Some s0 \<and> fst (lp_result s0 1) = Some v \<and> \<bar>v\<bar> \<le> 1"
proof -
  obtain s0 where s0: "lp_new Map.empty = Some s0" and
    "\<forall>es x. let s = run_events (alg_step lp_reset_total lp_result_real) s0 es
       in \<exists>v. fst (lp_result s x) = Some v \<and> \<bar>v\<bar> \<le> \<bar>x\<bar> \<and> (\<bar>x\<bar> < lp_minMove s \<longrightarrow> v = 0) \<and>
          (\<exists>s'. lp_reset s = Some s')"
    using lowpass_total_and_bounded[of Map.empty] by blast
  then have "\<exists>v. fst (lp_result (run_events (alg_step lp_reset_total lp_result_real) s0 []) 1) = Some v \<and> \<bar>v\<bar> \<le> \<bar>1\<bar>"
    by (metis (no_types, lifting))
  with s0 show ?thesis by simp
qed

text \<open>From any state reachable from its construction, and for an aggressiveness setting of at
  most 100 percent, a correction of the second low-pass algorithm is a number, no larger than the
  offset, zero below the minimum move, and the count of successive rejected corrections never
  exceeds three.\<close>

theorem lowpass2_total_and_bounded:
  assumes "case cfg ''Aggressiveness'' of None \<Rightarrow> True | Some a \<Rightarrow> 0 \<le> a \<and> a \<le> 100"
  shows "let s = run_events (alg_step lp2_reset lp2_result_real) (lp2_new junk cfg) es
    in \<exists>v. fst (lp2_result s x) = Some v \<and> \<bar>v\<bar> \<le> \<bar>x\<bar> \<and> (\<bar>x\<bar> < lp2_minMove s \<longrightarrow> v = 0) \<and>
       m_rejects s \<le> 3"
proof -
  have "clock_ok (as_ClearAll (WindowedAxisStats_new 10)) 0" by (rule as_ClearAll_clock)
  moreover have "autoWindowing (WindowedAxisStats_new 10)" "windowSize (WindowedAxisStats_new 10) = 10"
    by (simp_all add: WindowedAxisStats_new_def AxisStats.extend_def)
  ultimately have "lp2_invar (lp2_new junk cfg)"
    using assms by (auto simp: lp2_new_def Let_def lp2_SetMinMove_def SetAggressiveness_def lp2_reset_def
        lowpass2_Reset_def GetDouble_def lp_constants lp2_invar_def split: option.splits)
  then have "lp2_invar (run_events (alg_step lp2_reset lp2_result_real) (lp2_new junk cfg) es)" (is "lp2_invar ?s")
    by (rule lowpass2.machine.invar_run)
  moreover from this have "m_rejects ?s \<le> 3" by (simp add: lp2_invar_def)
  ultimately show ?thesis using lp2_result_ok[of ?s x] by (auto simp: Let_def)
qed

theorem lowpass2_total_and_bounded_witness:
  "\<exists>v. fst (lp2_result (lp2_new 0 Map.empty) 3) = Some v \<and> \<bar>v\<bar> \<le> 3"
  using lowpass2_total_and_bounded[of Map.empty 0 "[]" 3] by (auto simp: Let_def)

text \<open>\<open>SetAggressiveness\<close> with a negative value reports an error and stores the default in the
  profile, but the algorithm goes on with the previous setting: the handler assigns its own
  parameter.\<close>

theorem set_aggressiveness_error_not_applied:
  assumes "v < 0"
  shows "let (err, s') = SetAggressiveness s v
    in err \<and> m_aggressiveness s' = m_aggressiveness s \<and> lp2_cfg s' ''Aggressiveness'' = Some 80 \<and>
       (\<forall>x. fst (lp2_result s' x) = fst (lp2_result s x))"
  using assms by (simp add: SetAggressiveness_def lp2_result_def split_beta DefaultAggressiveness_def)

theorem set_aggressiveness_error_not_applied_witness:
  "m_aggressiveness (snd (SetAggressiveness (lp2_new 0 [''Aggressiveness'' \<mapsto> 150]) (- 1))) = 150"
  using set_aggressiveness_error_not_applied[of "- 1" "lp2_new 0 [''Aggressiveness'' \<mapsto> 150]"]
  by (simp add: lp2_new_def Let_def lp2_SetMinMove_def SetAggressiveness_def lp2_reset_def
      lowpass2_Reset_def GetDouble_def lp_constants split_beta)

end
