(* ===== verification/Guider_State.thy ===== *)
theory Guider_State
  imports Phd_Point "HOL-Library.Monad_Syntax"
begin

text \<open>
  The guider state machine of \<open>src/guider.cpp\<close>: \<open>SetState\<close>, the lock position, dithering
  (\<open>MoveLockPosition\<close>), the distance averages, and \<open>UpdateGuideState\<close>, which reacts to one
  camera frame.

  A mount is an object of an abstract class; its virtual functions are a record of functions
  (\<open>MountOps\<close>) over an arbitrary type of mount states, so that one model covers a telescope mount
  and an adaptive-optics unit in either role.  What \<open>UpdateCurrentPosition\<close> (star finding) found
  in the frame is part of the input.  Notifications and scheduled moves are recorded in the field
  \<open>g_log\<close>, newest last.  An assertion that fails and a null dereference are \<^term>\<open>None\<close>; the
  exceptions of the code are results.
\<close>

section \<open>States\<close>

datatype GUIDER_STATE =
  STATE_UNINITIALIZED | STATE_SELECTING | STATE_SELECTED | STATE_CALIBRATING_PRIMARY
| STATE_CALIBRATING_SECONDARY | STATE_CALIBRATED | STATE_GUIDING | STATE_STOP

text \<open>The enumeration values; the code compares states by them.\<close>

fun gs_num :: "GUIDER_STATE \<Rightarrow> nat" where
  "gs_num STATE_UNINITIALIZED = 0"
| "gs_num STATE_SELECTING = 1"
| "gs_num STATE_SELECTED = 2"
| "gs_num STATE_CALIBRATING_PRIMARY = 3"
| "gs_num STATE_CALIBRATING_SECONDARY = 4"
| "gs_num STATE_CALIBRATED = 5"
| "gs_num STATE_GUIDING = 6"
| "gs_num STATE_STOP = 7"

lemma gs_num_inj: "gs_num a = gs_num b \<longleftrightarrow> a = b"
  by (cases a; cases b) simp_all

instantiation GUIDER_STATE :: linorder
begin

definition less_eq_GUIDER_STATE :: "GUIDER_STATE \<Rightarrow> GUIDER_STATE \<Rightarrow> bool" where
  "less_eq_GUIDER_STATE a b = (gs_num a \<le> gs_num b)"

definition less_GUIDER_STATE :: "GUIDER_STATE \<Rightarrow> GUIDER_STATE \<Rightarrow> bool" where
  "less_GUIDER_STATE a b = (gs_num a < gs_num b)"

instance
  by standard (auto simp: less_eq_GUIDER_STATE_def less_GUIDER_STATE_def gs_num_inj)

end

lemmas gs_order = less_eq_GUIDER_STATE_def less_GUIDER_STATE_def

datatype EXPOSED_STATE =
  EXPOSED_STATE_NONE | EXPOSED_STATE_SELECTED | EXPOSED_STATE_CALIBRATING
| EXPOSED_STATE_GUIDING_LOCKED | EXPOSED_STATE_GUIDING_LOST | EXPOSED_STATE_PAUSED
| EXPOSED_STATE_LOOPING

datatype PauseType = PAUSE_NONE | PAUSE_GUIDING | PAUSE_FULL

section \<open>Mounts and the guider\<close>

text \<open>
  A calibration operation returns the error flag and the new mount; \<^term>\<open>None\<close> when an
  assertion inside it fails.  \<open>mo_ToCamera\<close> is \<^term>\<open>None\<close> when the transform reports an error.
\<close>

record 'm MountOps =
  mo_IsCalibrated :: "'m \<Rightarrow> bool"
  mo_IsConnected :: "'m \<Rightarrow> bool"
  mo_IsBusy :: "'m \<Rightarrow> bool"
  mo_ResetErrorCount :: "'m \<Rightarrow> 'm"
  mo_BeginCalibration :: "'m \<Rightarrow> PHD_Point \<Rightarrow> bool \<times> 'm"
  mo_UpdateCalibrationState :: "'m \<Rightarrow> PHD_Point \<Rightarrow> (bool \<times> 'm) option"
  mo_AdjustCalibrationForScopePointing :: "'m \<Rightarrow> 'm"
  mo_ToCamera :: "'m \<Rightarrow> PHD_Point \<Rightarrow> PHD_Point option"

datatype MoveOptions = MOVEOPTS_GUIDE_STEP | MOVEOPTS_DEDUCED_MOVE | MOVEOPTS_RECOVERY_MOVE

record GuiderOffset =
  cameraOfs :: PHD_Point
  mountOfs :: PHD_Point

definition ZERO_OFS :: GuiderOffset where
  "ZERO_OFS = \<lparr>cameraOfs = PHD_Point_invalid, mountOfs = PHD_Point_invalid\<rparr>"

datatype GuiderLog =
  LogLockPositionLost | LogSetLockPosition PHD_Point | LogDithered real real
| LogStartCalibration bool | LogCalibrationFailed bool | LogGuidingStopped | LogGuidingStarted
| LogLooping bool | LogStarLost | LogStarSelected PHD_Point | LogLockShiftLimit
| LogMove GuiderOffset MoveOptions | LogDirectMove PHD_Point
| LogBacklashStep PHD_Point | LogBacklashError

record 'm Guider =
  m_state :: GUIDER_STATE
  m_lockPosition :: ShiftPoint
  m_lockPosIsSticky :: bool
  currentPosition :: PHD_Point
  starWasFound :: bool
  pMount :: "'m option"
  pSecondaryMount :: "'m option"
  imageSize :: "int \<times> int"
  m_searchRegion :: int
  m_fastRecenterEnabled :: bool
  m_ditherRecenterRemaining :: PHD_Point
  m_ditherRecenterStep :: PHD_Point
  m_ditherRecenterDir :: "int \<times> int"
  m_avgDistance :: real
  m_avgDistanceRA :: real
  m_avgDistanceLong :: real
  m_avgDistanceLongRA :: real
  m_avgDistanceCnt :: int
  m_avgDistanceNeedReset :: bool
  m_starFoundTimestamp :: int
  m_paused :: PauseType
  shiftEnabled :: bool
  m_ignoreLostStarLooping :: bool
  m_forceFullFrame :: bool
  m_measurementMode :: bool
  utc_millis :: int
  g_log :: "GuiderLog list"

definition notify :: "GuiderLog \<Rightarrow> 'm Guider \<Rightarrow> 'm Guider" where
  "notify e g = g\<lparr>g_log := g_log g @ [e]\<rparr>"

definition IsPaused :: "'m Guider \<Rightarrow> bool" where
  "IsPaused g \<longleftrightarrow> m_paused g \<noteq> PAUSE_NONE"

definition IsGuiding :: "'m Guider \<Rightarrow> bool" where
  "IsGuiding g \<longleftrightarrow> m_state g = STATE_GUIDING"

definition IsCalibratingOrGuiding :: "'m Guider \<Rightarrow> bool" where
  "IsCalibratingOrGuiding g \<longleftrightarrow> STATE_CALIBRATING_PRIMARY \<le> m_state g \<and> m_state g \<le> STATE_GUIDING"

definition IsLocked :: "'m Guider \<Rightarrow> bool" where
  "IsLocked g = starWasFound g"

definition SetPaused :: "PauseType \<Rightarrow> 'm Guider \<Rightarrow> PauseType \<times> 'm Guider" where
  "SetPaused pause g =
     (let prev = m_paused g; g1 = g\<lparr>m_paused := pause\<rparr>
      in (prev, if prev = PAUSE_FULL \<and> pause \<noteq> prev then g1\<lparr>m_avgDistanceNeedReset := True\<rparr> else g1))"

section \<open>The lock position\<close>

definition InvalidateLockPosition :: "'m Guider \<Rightarrow> 'm Guider" where
  "InvalidateLockPosition g =
     (let g1 = (if p_valid (sp_pos (m_lockPosition g)) then notify LogLockPositionLost g else g)
      in g1\<lparr>m_lockPosition := sp_Invalidate (m_lockPosition g1)\<rparr>)"

definition InvalidateCurrentPosition :: "bool \<Rightarrow> 'm Guider \<Rightarrow> 'm Guider" where
  "InvalidateCurrentPosition fullReset g =
     g\<lparr>currentPosition :=
        (if fullReset then (p_Invalidate (currentPosition g))\<lparr>pX := 0, pY := 0\<rparr>
         else p_Invalidate (currentPosition g)), starWasFound := False\<rparr>"

text \<open>The error flag and the new state; \<^term>\<open>None\<close> for the dereference of a missing mount.\<close>

definition SetLockPosition :: "PHD_Point \<Rightarrow> 'm Guider \<Rightarrow> (bool \<times> 'm Guider) option" where
  "SetLockPosition position g =
     (if \<not> p_valid position then Some (True, g)
      else let x = pX position; y = pY position; lock = sp_pos (m_lockPosition g)
        in if x < 0 \<or> x \<ge> real_of_int (fst (imageSize g)) then Some (True, g)
           else if y < 0 \<or> y \<ge> real_of_int (snd (imageSize g)) then Some (True, g)
           else
             (let changed = (\<not> p_valid lock \<or> x \<noteq> pX lock \<or> y \<noteq> pY lock);
                  guiding = (m_state g = STATE_GUIDING)
              in if changed \<and> guiding \<and> pMount g = None then None
                 else
                   let g1 = (if changed then notify (LogSetLockPosition position) g else g);
                       g2 = (if changed \<and> guiding then notify (LogDithered (x - pX lock) (y - pY lock)) g1
                             else g1)
                   in Some (False, g2\<lparr>m_lockPosition := sp_SetXY (utc_millis g2) x y (m_lockPosition g2)\<rparr>)))"

definition IsValidLockPosition :: "'m Guider \<Rightarrow> PHD_Point \<Rightarrow> bool" where
  "IsValidLockPosition g pt \<longleftrightarrow>
     pX pt \<ge> 1 + real_of_int (m_searchRegion g) \<and>
     pX pt + 1 + real_of_int (m_searchRegion g) < real_of_int (fst (imageSize g)) \<and>
     pY pt \<ge> 1 + real_of_int (m_searchRegion g) \<and>
     pY pt + 1 + real_of_int (m_searchRegion g) < real_of_int (snd (imageSize g))"

definition edgeDist :: "PHD_Point \<Rightarrow> int \<times> int \<Rightarrow> real" where
  "edgeDist pt sz =
     min (pX pt) (min (real_of_int (fst sz) - pX pt) (min (pY pt) (real_of_int (snd sz) - pY pt)))"

text \<open>
  The loop over the four reflections of the requested move.  \<open>best\<close> is the best candidate so
  far: camera vector, mount vector, edge distance; \<^term>\<open>Inl\<close> is the exception of a failed
  transform, and \<^term>\<open>None\<close> the failed assertion when the lock position is invalid.
\<close>

definition dither_sign :: "nat \<Rightarrow> real \<times> real" where
  "dither_sign q = (if q mod 2 = 1 then - 1 else 1, if q div 2 mod 2 = 1 then - 1 else 1)"

fun dither_loop :: "'m MountOps \<Rightarrow> 'm Guider \<Rightarrow> 'm \<Rightarrow> PHD_Point \<Rightarrow> nat list \<Rightarrow>
    (PHD_Point \<times> PHD_Point \<times> real) option \<Rightarrow> (unit + PHD_Point \<times> PHD_Point) option" where
  "dither_loop ops g mnt arg [] best =
     (case best of None \<Rightarrow> None | Some (cam, mv, d) \<Rightarrow> Some (Inr (cam, mv)))"
| "dither_loop ops g mnt arg (q # qs) best =
     (let (sx, sy) = dither_sign q;
          tmpMount = PHD_Point_new (pX arg * sx) (pY arg * sy)
      in case mo_ToCamera ops mnt tmpMount of
           None \<Rightarrow> Some (Inl ())
         | Some tmpCamera \<Rightarrow>
             (case p_add (sp_pos (m_lockPosition g)) tmpCamera of
                None \<Rightarrow> None
              | Some tmpLock \<Rightarrow>
                  if IsValidLockPosition g tmpLock then Some (Inr (tmpCamera, tmpMount))
                  else let d = edgeDist tmpLock (imageSize g)
                       in case best of
                            None \<Rightarrow> dither_loop ops g mnt arg qs (Some (tmpCamera, tmpMount, d))
                          | Some (bc, bm, dbest) \<Rightarrow>
                              dither_loop ops g mnt arg qs
                                (if d > dbest then Some (tmpCamera, tmpMount, d) else best)))"

definition MaxMovePixels :: "'m Guider \<Rightarrow> real" where
  "MaxMovePixels g = real_of_int (m_searchRegion g)"

text \<open>The bookkeeping after the lock position has moved.\<close>

definition dither_account :: "PHD_Point \<Rightarrow> PHD_Point \<Rightarrow> 'm Guider \<Rightarrow> 'm Guider" where
  "dither_account cameraDelta mountDelta g =
     (let dist = p_Distance cameraDelta; distRA = \<bar>pX mountDelta\<bar>;
          g1 = g\<lparr>m_avgDistance := m_avgDistance g + dist, m_avgDistanceLong := m_avgDistanceLong g + dist,
                 m_avgDistanceRA := m_avgDistanceRA g + distRA,
                 m_avgDistanceLongRA := m_avgDistanceLongRA g + distRA\<rparr>
      in if m_fastRecenterEnabled g1 \<and> dist \<noteq> 0
         then let remaining = PHD_Point_new \<bar>pX mountDelta\<bar> \<bar>pY mountDelta\<bar>;
                  f = MaxMovePixels g1 * 0.7 / p_Distance remaining
              in g1\<lparr>m_ditherRecenterRemaining := remaining,
                    m_ditherRecenterDir := (if pX mountDelta < 0 then 1 else - 1,
                                            if pY mountDelta < 0 then 1 else - 1),
                    m_ditherRecenterStep := PHD_Point_new (f * pX remaining) (f * pY remaining)\<rparr>
         else g1)"

definition MoveLockPosition :: "'m MountOps \<Rightarrow> PHD_Point \<Rightarrow> 'm Guider \<Rightarrow> (bool \<times> 'm Guider) option" where
  "MoveLockPosition ops mountDeltaArg g =
     (if \<not> p_valid mountDeltaArg then Some (True, g)
      else case pMount g of
        None \<Rightarrow> Some (True, g)
      | Some mnt \<Rightarrow>
          if \<not> mo_IsCalibrated ops mnt then Some (True, g)
          else case dither_loop ops g mnt mountDeltaArg [0, 1, 2, 3] None of
            None \<Rightarrow> None
          | Some (Inl _) \<Rightarrow> Some (True, g)
          | Some (Inr (cameraDelta, mountDelta)) \<Rightarrow>
              (case p_add (sp_pos (m_lockPosition g)) cameraDelta of
                 None \<Rightarrow> None
               | Some newLock \<Rightarrow>
                   (case SetLockPosition newLock g of
                      None \<Rightarrow> None
                    | Some (err, g1) \<Rightarrow>
                        if err then Some (True, g1)
                        else Some (False, dither_account cameraDelta mountDelta g1))))"

section \<open>State changes\<close>

text \<open>The state that a request to stop looping stands for.\<close>

definition stop_target :: "GUIDER_STATE \<Rightarrow> GUIDER_STATE \<Rightarrow> GUIDER_STATE" where
  "stop_target newState cur =
     (if newState = STATE_STOP
      then (case cur of
              STATE_UNINITIALIZED \<Rightarrow> cur | STATE_SELECTING \<Rightarrow> cur | STATE_SELECTED \<Rightarrow> cur
            | STATE_CALIBRATING_PRIMARY \<Rightarrow> STATE_UNINITIALIZED
            | STATE_CALIBRATING_SECONDARY \<Rightarrow> STATE_UNINITIALIZED
            | STATE_CALIBRATED \<Rightarrow> STATE_SELECTED | STATE_GUIDING \<Rightarrow> STATE_SELECTED
            | STATE_STOP \<Rightarrow> STATE_STOP)
      else newState)"

text \<open>
  The actions on entering a state: the state to be in afterwards, and the guider.  The first
  definition is the case that starting the primary calibration falls through to.
\<close>

definition enter_secondary :: "'m MountOps \<Rightarrow> GUIDER_STATE \<Rightarrow> 'm Guider \<Rightarrow> GUIDER_STATE \<times> 'm Guider" where
  "enter_secondary ops newState g =
     (case pSecondaryMount g of
        None \<Rightarrow> (STATE_CALIBRATED, g)
      | Some m \<Rightarrow>
          if \<not> mo_IsConnected ops m then (STATE_CALIBRATED, g)
          else if \<not> mo_IsCalibrated ops m
          then (let (err, m') = mo_BeginCalibration ops (mo_ResetErrorCount ops m) (currentPosition g);
                    g1 = g\<lparr>pSecondaryMount := Some m'\<rparr>
                in if err then (STATE_UNINITIALIZED, g1) else (newState, notify (LogStartCalibration False) g1))
          else (newState, g))"

definition enter_primary :: "'m MountOps \<Rightarrow> GUIDER_STATE \<Rightarrow> 'm Guider \<Rightarrow> (GUIDER_STATE \<times> 'm Guider) option" where
  "enter_primary ops newState g =
     (case pMount g of
        None \<Rightarrow> None
      | Some m \<Rightarrow>
          if \<not> mo_IsCalibrated ops m
          then (let (err, m') = mo_BeginCalibration ops (mo_ResetErrorCount ops m) (currentPosition g);
                    g1 = g\<lparr>pMount := Some m'\<rparr>
                in Some (if err then (STATE_UNINITIALIZED, g1)
                         else (newState, notify (LogStartCalibration True) g1)))
          else Some (enter_secondary ops newState g))"

definition enter_guiding :: "'m MountOps \<Rightarrow> 'm Guider \<Rightarrow> 'm Guider option" where
  "enter_guiding ops g =
     (case pMount g of
        None \<Rightarrow> None
      | Some m \<Rightarrow>
          let g1 = g\<lparr>m_ditherRecenterRemaining := p_Invalidate (m_ditherRecenterRemaining g),
                     pMount := Some (mo_AdjustCalibrationForScopePointing ops m),
                     pSecondaryMount := map_option (mo_AdjustCalibrationForScopePointing ops) (pSecondaryMount g)\<rparr>
          in if p_valid (sp_pos (m_lockPosition g1)) \<and> m_lockPosIsSticky g1 then Some g1
             else map_option snd (SetLockPosition (currentPosition g1) g1))"

fun enter_state :: "'m MountOps \<Rightarrow> GUIDER_STATE \<Rightarrow> 'm Guider \<Rightarrow> (GUIDER_STATE \<times> 'm Guider) option" where
  "enter_state ops STATE_UNINITIALIZED g =
     Some (STATE_SELECTING, InvalidateCurrentPosition False (InvalidateLockPosition g))"
| "enter_state ops STATE_CALIBRATING_PRIMARY g = enter_primary ops STATE_CALIBRATING_PRIMARY g"
| "enter_state ops STATE_CALIBRATING_SECONDARY g = Some (enter_secondary ops STATE_CALIBRATING_SECONDARY g)"
| "enter_state ops STATE_GUIDING g = map_option (\<lambda>g'. (STATE_GUIDING, g')) (enter_guiding ops g)"
| "enter_state ops s g = Some (s, g)"

lemma stop_target_le: "stop_target s c \<le> s"
  by (auto simp: stop_target_def gs_order split: GUIDER_STATE.splits)

function SetState :: "'m MountOps \<Rightarrow> GUIDER_STATE \<Rightarrow> 'm Guider \<Rightarrow> 'm Guider option" where
  "SetState ops newState g =
     (let requested = stop_target newState (m_state g)
      in if requested = STATE_STOP then None
         else if gs_num requested > gs_num (m_state g) + 1 then Some g
         else case enter_state ops requested g of
                None \<Rightarrow> None
              | Some (final, g1) \<Rightarrow>
                  if final \<ge> requested then Some (g1\<lparr>m_state := final\<rparr>)
                  else SetState ops final g1)"
  by pat_completeness auto
termination
proof (relation "measure (\<lambda>(ops, s, g). gs_num s)", goal_cases)
  case (2 ops newState g requested y final g1)
  then show ?case
    using stop_target_le[of newState "m_state g"] by (auto simp: gs_order)
qed simp

declare SetState.simps [simp del]

definition StartGuiding :: "'m MountOps \<Rightarrow> 'm Guider \<Rightarrow> 'm Guider option" where
  "StartGuiding ops g = SetState ops STATE_CALIBRATING_PRIMARY g"

definition opt_busy :: "'m MountOps \<Rightarrow> 'm option \<Rightarrow> bool" where
  "opt_busy ops m = (case m of None \<Rightarrow> False | Some m \<Rightarrow> mo_IsBusy ops m)"

definition StopGuiding :: "'m MountOps \<Rightarrow> 'm Guider \<Rightarrow> 'm Guider option" where
  "StopGuiding ops g =
     (let idle = (\<not> opt_busy ops (pMount g) \<and> \<not> opt_busy ops (pSecondaryMount g));
          g1 = (if m_state g \<in> {STATE_CALIBRATING_PRIMARY, STATE_CALIBRATING_SECONDARY, STATE_CALIBRATED}
                then notify (LogCalibrationFailed (m_state g = STATE_CALIBRATING_SECONDARY)) g else g);
          g2 = (if m_state g \<in> {STATE_CALIBRATING_PRIMARY, STATE_CALIBRATING_SECONDARY, STATE_CALIBRATED,
                                STATE_GUIDING} \<and> idle
                then notify LogGuidingStopped g1 else g1)
      in SetState ops STATE_STOP g2)"

definition Guider_Reset :: "'m MountOps \<Rightarrow> bool \<Rightarrow> 'm Guider \<Rightarrow> 'm Guider option" where
  "Guider_Reset ops fullReset g =
     do { g1 \<leftarrow> SetState ops STATE_UNINITIALIZED g;
          Some (if fullReset then InvalidateCurrentPosition True g1 else g1) }"

section \<open>Distance averages\<close>

definition UpdateCurrentDistance :: "int \<Rightarrow> real \<Rightarrow> real \<Rightarrow> 'm Guider \<Rightarrow> 'm Guider" where
  "UpdateCurrentDistance now distance distanceRA g =
     (let g1 = g\<lparr>m_starFoundTimestamp := now\<rparr>;
          restart = (\<lambda>g. g\<lparr>m_avgDistance := distance, m_avgDistanceLong := distance,
                           m_avgDistanceRA := distanceRA, m_avgDistanceLongRA := distanceRA,
                           m_avgDistanceCnt := 1\<rparr>);
          g2 = (if IsGuiding g1
                then let cnt = m_avgDistanceCnt g1 + 1;
                         w = (if cnt < 10 then 1 / real_of_int cnt else 0.045)
                     in g1\<lparr>m_avgDistance := m_avgDistance g1 + 0.3 * (distance - m_avgDistance g1),
                           m_avgDistanceRA := m_avgDistanceRA g1 + 0.3 * (distanceRA - m_avgDistanceRA g1),
                           m_avgDistanceCnt := cnt,
                           m_avgDistanceLong := m_avgDistanceLong g1 + w * (distance - m_avgDistanceLong g1),
                           m_avgDistanceLongRA :=
                             m_avgDistanceLongRA g1 + w * (distanceRA - m_avgDistanceLongRA g1)\<rparr>
                else restart g1)
      in if m_avgDistanceNeedReset g2 then (restart g2)\<lparr>m_avgDistanceNeedReset := False\<rparr> else g2)"

definition CurrentError_of :: "int \<Rightarrow> int \<Rightarrow> real \<Rightarrow> real" where
  "CurrentError_of now starFoundTimestamp avgDist =
     (if starFoundTimestamp = 0 then 100 else if now - starFoundTimestamp > 20 then 100 else avgDist)"

definition CurrentError :: "int \<Rightarrow> bool \<Rightarrow> 'm Guider \<Rightarrow> real" where
  "CurrentError now raOnly g =
     CurrentError_of now (m_starFoundTimestamp g) (if raOnly then m_avgDistanceRA g else m_avgDistance g)"

definition CurrentErrorSmoothed :: "int \<Rightarrow> bool \<Rightarrow> 'm Guider \<Rightarrow> real" where
  "CurrentErrorSmoothed now raOnly g =
     CurrentError_of now (m_starFoundTimestamp g) (if raOnly then m_avgDistanceLongRA g else m_avgDistanceLong g)"

section \<open>A frame\<close>

text \<open>
  What a frame brings: the size of a new image, whether the user is stopping, the clock (UTC
  milliseconds and seconds), what \<open>UpdateCurrentPosition\<close> found (the position, the offset from
  the lock position, the reported distances), the answers of the static and drift polar
  alignment tools, and the lock shift rate in camera coordinates that
  \<open>UpdateLockPosShiftCameraCoords\<close> derives from the settings (invalid when none is set).
\<close>

record FrameInput =
  fi_newImage :: "(int \<times> int) option"
  fi_stopping :: bool
  fi_utc :: int
  fi_now :: int
  fi_found :: bool
  fi_x :: real
  fi_y :: real
  fi_ofs :: GuiderOffset
  fi_distance :: real
  fi_distanceRA :: real
  fi_staticPa :: bool
  fi_polarDrift :: bool
  fi_shiftRate :: PHD_Point

definition IsLoopingState :: "GUIDER_STATE \<Rightarrow> bool" where
  "IsLoopingState s = (case s of
     STATE_UNINITIALIZED \<Rightarrow> True | STATE_SELECTING \<Rightarrow> True | STATE_SELECTED \<Rightarrow> True
   | STATE_CALIBRATING_PRIMARY \<Rightarrow> False | STATE_CALIBRATING_SECONDARY \<Rightarrow> False
   | STATE_CALIBRATED \<Rightarrow> False | STATE_GUIDING \<Rightarrow> False | STATE_STOP \<Rightarrow> False)"

text \<open>\<open>UpdateCurrentPosition\<close>: the effect of what was found on the guider.\<close>

definition star_found :: "FrameInput \<Rightarrow> 'm Guider \<Rightarrow> 'm Guider" where
  "star_found fi g =
     (let g1 = g\<lparr>currentPosition := PHD_Point_new (fi_x fi) (fi_y fi), starWasFound := True\<rparr>
      in if p_valid (sp_pos (m_lockPosition g1))
         then UpdateCurrentDistance (fi_now fi) (fi_distance fi) (fi_distanceRA fi) g1 else g1)"

definition ShiftLockPosition :: "'m Guider \<Rightarrow> bool \<times> 'm Guider" where
  "ShiftLockPosition g =
     (let g1 = g\<lparr>m_lockPosition := UpdateShift (utc_millis g) (m_lockPosition g)\<rparr>
      in (\<not> IsValidLockPosition g1 (sp_pos (m_lockPosition g1)), g1))"

definition frame_shift :: "'m Guider \<Rightarrow> 'm Guider" where
  "frame_shift g =
     (if shiftEnabled g \<and> IsGuiding g
      then let (bad, g1) = ShiftLockPosition g
           in if bad then (notify LogLockShiftLimit g1)\<lparr>shiftEnabled := False\<rparr> else g1
      else g)"

text \<open>The star was not found.\<close>

definition frame_lost :: "'m MountOps \<Rightarrow> 'm Guider \<Rightarrow> 'm Guider option" where
  "frame_lost ops g = (case m_state g of
     STATE_UNINITIALIZED \<Rightarrow> Some (notify (LogLooping False) g)
   | STATE_SELECTING \<Rightarrow> Some (notify (LogLooping False) g)
   | STATE_SELECTED \<Rightarrow>
       (let g1 = notify (LogLooping False) g
        in if m_ignoreLostStarLooping g1 then Some g1
           else do { g2 \<leftarrow> SetState ops STATE_UNINITIALIZED g1; Some (notify LogStarLost g2) })
   | STATE_CALIBRATING_PRIMARY \<Rightarrow> Some (notify LogStarLost g)
   | STATE_CALIBRATING_SECONDARY \<Rightarrow> Some (notify LogStarLost g)
   | STATE_GUIDING \<Rightarrow> Some (notify (LogMove ZERO_OFS MOVEOPTS_DEDUCED_MOVE) (notify LogStarLost g))
   | STATE_CALIBRATED \<Rightarrow> Some g
   | STATE_STOP \<Rightarrow> Some g)"

text \<open>The case \<open>STATE_CALIBRATED\<close>, which the calibration cases fall through to.\<close>

definition frame_calibrated :: "'m MountOps \<Rightarrow> FrameInput \<Rightarrow> 'm Guider \<Rightarrow> 'm Guider option" where
  "frame_calibrated ops fi g =
     (if m_state g \<noteq> STATE_CALIBRATED then None
      else do { g1 \<leftarrow> SetState ops STATE_GUIDING g;
                let g2 = notify LogGuidingStarted g1;
                Some (g2\<lparr>m_lockPosition :=
                  (if p_valid (fi_shiftRate fi)
                   then SetShiftRate (utc_millis g2) (pX (fi_shiftRate fi)) (pY (fi_shiftRate fi)) (m_lockPosition g2)
                   else DisableShift (m_lockPosition g2))\<rparr>) })"

definition frame_secondary :: "'m MountOps \<Rightarrow> FrameInput \<Rightarrow> 'm Guider \<Rightarrow> 'm Guider option" where
  "frame_secondary ops fi g =
     (let continue = (\<lambda>g. do { g1 \<leftarrow> SetState ops STATE_CALIBRATED g; frame_calibrated ops fi g1 })
      in case pSecondaryMount g of
           None \<Rightarrow> continue g
         | Some m \<Rightarrow>
             if \<not> mo_IsConnected ops m then continue g
             else if mo_IsCalibrated ops m then continue g
             else do { (err, m') \<leftarrow> mo_UpdateCalibrationState ops m (currentPosition g);
                       let g1 = g\<lparr>pSecondaryMount := Some m'\<rparr>;
                       if err then SetState ops STATE_UNINITIALIZED g1
                       else if \<not> mo_IsCalibrated ops m' then Some g1
                       else continue g1 })"

definition frame_primary :: "'m MountOps \<Rightarrow> FrameInput \<Rightarrow> 'm Guider \<Rightarrow> 'm Guider option" where
  "frame_primary ops fi g =
     (let continue = (\<lambda>g. do { g1 \<leftarrow> SetState ops STATE_CALIBRATING_SECONDARY g;
                               if m_state g1 = STATE_CALIBRATING_SECONDARY then Some g1
                               else frame_secondary ops fi g1 })
      in do { m \<leftarrow> pMount g;
              if mo_IsCalibrated ops m then continue g
              else do { (err, m') \<leftarrow> mo_UpdateCalibrationState ops m (currentPosition g);
                        let g1 = g\<lparr>pMount := Some m'\<rparr>;
                        if err then SetState ops STATE_UNINITIALIZED g1
                        else if \<not> mo_IsCalibrated ops m' then Some g1
                        else continue g1 } })"

text \<open>A frame while guiding: a recentering step after a dither, a measurement, or a guide step.\<close>

definition frame_recenter :: "'m MountOps \<Rightarrow> 'm \<Rightarrow> FrameInput \<Rightarrow> 'm Guider \<Rightarrow> 'm Guider" where
  "frame_recenter ops m fi g =
     (let rem = m_ditherRecenterRemaining g;
          sx = min (pX rem) (pX (m_ditherRecenterStep g));
          sy = min (pY rem) (pY (m_ditherRecenterStep g));
          rem1 = PHD_Point_new (pX rem - sx) (pY rem - sy);
          finished = (pX rem1 < 0.5 \<and> pY rem1 < 0.5);
          g1 = g\<lparr>m_ditherRecenterRemaining := (if finished then p_Invalidate rem1 else rem1),
                 m_avgDistanceNeedReset := (m_avgDistanceNeedReset g \<or> finished)\<rparr>;
          mofs = PHD_Point_new (sx * real_of_int (fst (m_ditherRecenterDir g)))
                               (sy * real_of_int (snd (m_ditherRecenterDir g)));
          cofs = (case mo_ToCamera ops m mofs of None \<Rightarrow> cameraOfs (fi_ofs fi) | Some c \<Rightarrow> c);
          g2 = notify (LogMove \<lparr>cameraOfs = cofs, mountOfs = mofs\<rparr> MOVEOPTS_RECOVERY_MOVE) g1
      in notify (LogDirectMove mofs) g2)"

definition frame_guiding :: "'m MountOps \<Rightarrow> FrameInput \<Rightarrow> 'm Guider \<Rightarrow> 'm Guider option" where
  "frame_guiding ops fi g =
     (if p_valid (m_ditherRecenterRemaining g)
      then do { m \<leftarrow> pMount g; Some (frame_recenter ops m fi g) }
      else if m_measurementMode g then Some (notify (LogBacklashStep (currentPosition g)) g)
      else Some (notify (LogMove (fi_ofs fi) MOVEOPTS_GUIDE_STEP) g))"

definition frame_switch :: "'m MountOps \<Rightarrow> FrameInput \<Rightarrow> 'm Guider \<Rightarrow> 'm Guider option" where
  "frame_switch ops fi g = (case m_state g of
     STATE_SELECTING \<Rightarrow>
       (if \<not> p_valid (currentPosition g) then None
        else do { (err, g1) \<leftarrow> SetLockPosition (currentPosition g) g;
                  SetState ops STATE_SELECTED (notify (LogStarSelected (currentPosition g1)) g1) })
   | STATE_SELECTED \<Rightarrow>
       (if \<not> fi_staticPa fi then SetState ops STATE_UNINITIALIZED g
        else if \<not> fi_polarDrift fi then SetState ops STATE_UNINITIALIZED g
        else Some g)
   | STATE_CALIBRATING_PRIMARY \<Rightarrow> frame_primary ops fi g
   | STATE_CALIBRATING_SECONDARY \<Rightarrow> frame_secondary ops fi g
   | STATE_CALIBRATED \<Rightarrow> frame_calibrated ops fi g
   | STATE_GUIDING \<Rightarrow> frame_guiding ops fi g
   | STATE_UNINITIALIZED \<Rightarrow> Some g
   | STATE_STOP \<Rightarrow> Some g)"

text \<open>The star was found: skip the frame when paused, else act on the state.\<close>

definition frame_found :: "'m MountOps \<Rightarrow> FrameInput \<Rightarrow> 'm Guider \<Rightarrow> 'm Guider option" where
  "frame_found ops fi g =
     (let g1 = (if IsLoopingState (m_state g) then notify (LogLooping True) g else g);
          g2 = g1\<lparr>m_forceFullFrame := False\<rparr>
      in if IsPaused g2
         then Some (if m_state g2 = STATE_GUIDING
                    then notify (LogMove ZERO_OFS MOVEOPTS_DEDUCED_MOVE) g2 else g2)
         else frame_switch ops fi g2)"

text \<open>The \<open>try\<close> block of \<open>UpdateGuideState\<close>; each exception ends it with the state reached.\<close>

definition frame_body :: "'m MountOps \<Rightarrow> FrameInput \<Rightarrow> 'm Guider \<Rightarrow> 'm Guider option" where
  "frame_body ops fi g =
     (let g0 = g\<lparr>imageSize := (case fi_newImage fi of None \<Rightarrow> imageSize g | Some sz \<Rightarrow> sz),
                 utc_millis := fi_utc fi\<rparr>
      in if fi_stopping fi then StopGuiding ops g0
         else if opt_busy ops (pMount g0) then None
         else let g1 = frame_shift g0
              in if \<not> fi_found fi then frame_lost ops (g1\<lparr>starWasFound := False\<rparr>)
                 else frame_found ops fi (star_found fi g1))"

definition UpdateGuideState :: "'m MountOps \<Rightarrow> FrameInput \<Rightarrow> 'm Guider \<Rightarrow> 'm Guider option" where
  "UpdateGuideState ops fi g =
     do { g1 \<leftarrow> frame_body ops fi g;
          Some (if m_measurementMode g1 \<and> m_state g1 \<noteq> STATE_GUIDING
                then (notify LogBacklashError g1)\<lparr>m_measurementMode := False\<rparr> else g1) }"

definition GetExposedState :: "bool \<Rightarrow> 'm Guider option \<Rightarrow> EXPOSED_STATE" where
  "GetExposedState CaptureActive guider = (case guider of
     None \<Rightarrow> EXPOSED_STATE_NONE
   | Some g \<Rightarrow>
       if IsPaused g then EXPOSED_STATE_PAUSED
       else if \<not> CaptureActive then EXPOSED_STATE_NONE
       else (case m_state g of
               STATE_UNINITIALIZED \<Rightarrow> EXPOSED_STATE_NONE
             | STATE_STOP \<Rightarrow> EXPOSED_STATE_NONE
             | STATE_SELECTING \<Rightarrow> if p_valid (currentPosition g) then EXPOSED_STATE_SELECTED
                                 else EXPOSED_STATE_LOOPING
             | STATE_SELECTED \<Rightarrow> EXPOSED_STATE_SELECTED
             | STATE_CALIBRATED \<Rightarrow> EXPOSED_STATE_SELECTED
             | STATE_CALIBRATING_PRIMARY \<Rightarrow> EXPOSED_STATE_CALIBRATING
             | STATE_CALIBRATING_SECONDARY \<Rightarrow> EXPOSED_STATE_CALIBRATING
             | STATE_GUIDING \<Rightarrow> if IsLocked g then EXPOSED_STATE_GUIDING_LOCKED
                               else EXPOSED_STATE_GUIDING_LOST))"

section \<open>State changes: totality and legality\<close>

fun_cases enter_state_SomeE: "enter_state ops s g = Some r"

lemma notify_fields [simp]:
  "m_state (notify e g) = m_state g" "pMount (notify e g) = pMount g"
  "pSecondaryMount (notify e g) = pSecondaryMount g" "m_lockPosition (notify e g) = m_lockPosition g"
  "currentPosition (notify e g) = currentPosition g" "imageSize (notify e g) = imageSize g"
  "g_log (notify e g) = g_log g @ [e]" "m_searchRegion (notify e g) = m_searchRegion g"
  "m_measurementMode (notify e g) = m_measurementMode g" "m_paused (notify e g) = m_paused g"
  by (simp_all add: notify_def)

lemma SetLockPosition_cases:
  assumes "SetLockPosition p g = Some (err, g')"
  shows "m_state g' = m_state g" "pMount g' = pMount g" "pSecondaryMount g' = pSecondaryMount g"
    "currentPosition g' = currentPosition g" "imageSize g' = imageSize g"
    "m_searchRegion g' = m_searchRegion g" "m_paused g' = m_paused g"
    "err \<Longrightarrow> g' = g"
    "\<not> err \<Longrightarrow> p_valid p \<and> sp_pos (m_lockPosition g') = PHD_Point_new (pX p) (pY p)"
  using assms by (auto simp: SetLockPosition_def Let_def split: if_splits)

lemma SetLockPosition_total: "pMount g \<noteq> None \<or> m_state g \<noteq> STATE_GUIDING \<Longrightarrow> \<exists>r. SetLockPosition p g = Some r"
  by (auto simp: SetLockPosition_def Let_def)

lemma Invalidate_fields [simp]:
  "m_state (InvalidateLockPosition g) = m_state g" "pMount (InvalidateLockPosition g) = pMount g"
  "pSecondaryMount (InvalidateLockPosition g) = pSecondaryMount g"
  "m_state (InvalidateCurrentPosition b g) = m_state g" "pMount (InvalidateCurrentPosition b g) = pMount g"
  "pSecondaryMount (InvalidateCurrentPosition b g) = pSecondaryMount g"
  "g_log (InvalidateCurrentPosition b g) = g_log g"
  by (simp_all add: InvalidateLockPosition_def InvalidateCurrentPosition_def Let_def)

lemma enter_secondary_props:
  "enter_secondary ops s g = (f, g') \<Longrightarrow> m_state g' = m_state g \<and> pMount g' = pMount g \<and>
     currentPosition g' = currentPosition g \<and> m_lockPosition g' = m_lockPosition g \<and>
     (f = s \<or> f = STATE_CALIBRATED \<or> f = STATE_UNINITIALIZED)"
  by (auto simp: enter_secondary_def split_beta Let_def split: option.splits if_splits)

lemma enter_primary_props:
  "enter_primary ops s g = Some (f, g') \<Longrightarrow> m_state g' = m_state g \<and> pMount g' \<noteq> None \<and>
     currentPosition g' = currentPosition g \<and> m_lockPosition g' = m_lockPosition g \<and>
     (f = s \<or> f = STATE_CALIBRATED \<or> f = STATE_UNINITIALIZED)"
  by (auto simp: enter_primary_def split_beta Let_def split: option.splits if_splits
      dest!: enter_secondary_props)

lemma enter_guiding_props:
  assumes "enter_guiding ops g = Some g'"
  shows "m_state g' = m_state g" and "pMount g' \<noteq> None"
proof -
  have "m_state g' = m_state g \<and> pMount g' \<noteq> None"
    using assms SetLockPosition_cases(1,2)
    by (fastforce simp: enter_guiding_def Let_def split: option.splits if_splits)
  then show "m_state g' = m_state g" and "pMount g' \<noteq> None" by auto
qed

lemma enter_guiding_total: "pMount g \<noteq> None \<Longrightarrow> \<exists>g'. enter_guiding ops g = Some g'"
proof -
  assume "pMount g \<noteq> None"
  then obtain m where m: "pMount g = Some m" by auto
  have "\<exists>r. SetLockPosition p (g\<lparr>m_ditherRecenterRemaining := x, pMount := Some y, pSecondaryMount := z\<rparr>) = Some r"
    for p x y z
    by (rule SetLockPosition_total) simp
  then show ?thesis using m by (fastforce simp: enter_guiding_def Let_def)
qed

lemma enter_state_props:
  assumes "enter_state ops s g = Some (f, g')" and "s \<noteq> STATE_STOP"
  shows "m_state g' = m_state g \<and> (pMount g \<noteq> None \<longrightarrow> pMount g' \<noteq> None) \<and>
    (f = s \<or> f < s \<and> f = STATE_UNINITIALIZED \<or> f = STATE_SELECTING \<and> s = STATE_UNINITIALIZED \<or>
     f = STATE_CALIBRATED \<and> s \<in> {STATE_CALIBRATING_PRIMARY, STATE_CALIBRATING_SECONDARY})"
  using assms enter_primary_props[of ops s g f g'] enter_secondary_props[of ops s g f g']
    enter_guiding_props[of ops g g']
  by (cases s) (auto simp: gs_order)

lemma enter_state_total: "pMount g \<noteq> None \<Longrightarrow> \<exists>r. enter_state ops s g = Some r"
  using enter_guiding_total[of g ops]
  by (cases s) (auto simp: enter_primary_def split_beta Let_def)

lemma SetState_UNINITIALIZED [simp]:
  "SetState ops STATE_UNINITIALIZED g =
     Some ((InvalidateCurrentPosition False (InvalidateLockPosition g))\<lparr>m_state := STATE_SELECTING\<rparr>)"
  by (subst SetState.simps) (simp add: stop_target_def gs_order)

text \<open>One unfolding of \<open>SetState\<close>: it either refuses, enters the state, or resets to selecting.\<close>

lemma SetState_step:
  assumes "SetState ops s g = Some g'" and "stop_target s (m_state g) = r"
  shows "r \<noteq> STATE_STOP \<and>
    (gs_num r > gs_num (m_state g) + 1 \<and> g' = g \<or>
     gs_num r \<le> gs_num (m_state g) + 1 \<and> (\<exists>f g1. enter_state ops r g = Some (f, g1) \<and>
       (f \<ge> r \<and> g' = g1\<lparr>m_state := f\<rparr> \<or> f < r \<and> f = STATE_UNINITIALIZED \<and> SetState ops f g1 = Some g')))"
proof -
  have r: "r \<noteq> STATE_STOP" using assms by (subst (asm) SetState.simps) (auto simp: Let_def)
  have "f < r \<Longrightarrow> f = STATE_UNINITIALIZED" if "enter_state ops r g = Some (f, g1)" for f g1
    using enter_state_props[OF that r] by (auto simp: gs_order)
  with r assms show ?thesis
    by (subst (asm) SetState.simps) (auto simp: Let_def not_le split: option.splits if_splits)
qed

lemma SetState_total:
  assumes "pMount g \<noteq> None" and "m_state g \<noteq> STATE_STOP"
  shows "\<exists>g'. SetState ops s g = Some g'"
proof -
  let ?r = "stop_target s (m_state g)"
  have r: "?r \<noteq> STATE_STOP" using assms(2) by (auto simp: stop_target_def split: GUIDER_STATE.splits)
  obtain f g1 where e: "enter_state ops ?r g = Some (f, g1)" using enter_state_total[OF assms(1)] by fastforce
  have "f < ?r \<Longrightarrow> f = STATE_UNINITIALIZED"
    using enter_state_props[OF e r] by (auto simp: gs_order)
  with r e show ?thesis
    by (subst SetState.simps) (auto simp: Let_def not_le)
qed

lemma SetState_UNINIT_state:
  "SetState ops STATE_UNINITIALIZED g = Some g' \<Longrightarrow> m_state g' = STATE_SELECTING \<and> pMount g' = pMount g"
  by auto

lemma SetState_legal:
  assumes "SetState ops s g = Some g'" and "m_state g \<noteq> STATE_STOP"
  shows "m_state g' \<noteq> STATE_STOP \<and> (pMount g \<noteq> None \<longrightarrow> pMount g' \<noteq> None) \<and>
    (m_state g' = m_state g \<or> m_state g' = STATE_SELECTING \<or> m_state g' = stop_target s (m_state g) \<or>
     m_state g' = STATE_CALIBRATED \<and> stop_target s (m_state g) \<in> {STATE_CALIBRATING_PRIMARY, STATE_CALIBRATING_SECONDARY}) \<and>
    (m_state g' = m_state g \<or> gs_num (stop_target s (m_state g)) \<le> gs_num (m_state g) + 1)"
proof -
  obtain r where r: "stop_target s (m_state g) = r" by blast
  from SetState_step[OF assms(1) r] have rs: "r \<noteq> STATE_STOP" and
    "gs_num r > gs_num (m_state g) + 1 \<and> g' = g \<or>
     gs_num r \<le> gs_num (m_state g) + 1 \<and> (\<exists>f g1. enter_state ops r g = Some (f, g1) \<and>
       (f \<ge> r \<and> g' = g1\<lparr>m_state := f\<rparr> \<or> f < r \<and> f = STATE_UNINITIALIZED \<and> SetState ops f g1 = Some g'))"
    by auto
  then consider "g' = g" | f g1 where "gs_num r \<le> gs_num (m_state g) + 1" "enter_state ops r g = Some (f, g1)"
      "f \<ge> r" "g' = g1\<lparr>m_state := f\<rparr>"
    | g1 where "gs_num r \<le> gs_num (m_state g) + 1" "enter_state ops r g = Some (STATE_UNINITIALIZED, g1)"
      "SetState ops STATE_UNINITIALIZED g1 = Some g'"
    by blast
  then show ?thesis
  proof cases
    case 1
    with assms(2) show ?thesis by simp
  next
    case 2
    with enter_state_props[OF 2(2) rs] rs r show ?thesis by (auto simp: gs_order)
  next
    case 3
    with enter_state_props[OF 3(2) rs] SetState_UNINIT_state[OF 3(3)] r show ?thesis by auto
  qed
qed

section \<open>Moves scheduled by a frame\<close>

fun guide_moves :: "GuiderLog list \<Rightarrow> (GuiderOffset \<times> MoveOptions) list" where
  "guide_moves [] = []"
| "guide_moves (LogMove ofs opt # l) = (ofs, opt) # guide_moves l"
| "guide_moves (e # l) = guide_moves l"

lemma guide_moves_append [simp]: "guide_moves (l @ l') = guide_moves l @ guide_moves l'"
  by (induction l rule: guide_moves.induct) auto

abbreviation moves_of :: "'m Guider \<Rightarrow> (GuiderOffset \<times> MoveOptions) list" where
  "moves_of g \<equiv> guide_moves (g_log g)"

lemma SetLockPosition_moves: "SetLockPosition p g = Some (err, g') \<Longrightarrow> moves_of g' = moves_of g"
  by (auto simp: SetLockPosition_def Let_def split: if_splits)

lemma InvalidateLockPosition_moves [simp]: "moves_of (InvalidateLockPosition g) = moves_of g"
  by (simp add: InvalidateLockPosition_def Let_def)

lemma enter_secondary_moves: "enter_secondary ops s g = (f, g') \<Longrightarrow> moves_of g' = moves_of g"
  by (auto simp: enter_secondary_def split_beta Let_def split: option.splits if_splits)

lemma enter_guiding_moves: "enter_guiding ops g = Some g' \<Longrightarrow> moves_of g' = moves_of g"
  by (auto simp: enter_guiding_def Let_def split: option.splits if_splits dest!: SetLockPosition_moves)

lemma enter_state_moves: "enter_state ops s g = Some (f, g') \<Longrightarrow> moves_of g' = moves_of g"
  by (cases s) (auto simp: enter_primary_def split_beta Let_def split: option.splits if_splits
      dest!: enter_secondary_moves enter_guiding_moves)

lemma SetState_moves:
  assumes "SetState ops s g = Some g'" shows "moves_of g' = moves_of g"
proof -
  have "moves_of g' = moves_of g1" if "SetState ops STATE_UNINITIALIZED g1 = Some g'" for g1
    using that by auto
  with SetState_step[OF assms refl] enter_state_moves show ?thesis by fastforce
qed

lemma frame_calibrated_moves: "frame_calibrated ops fi g = Some g' \<Longrightarrow> moves_of g' = moves_of g"
  by (auto simp: frame_calibrated_def Let_def bind_eq_Some_conv dest!: SetState_moves split: if_splits)

lemma frame_secondary_moves: "frame_secondary ops fi g = Some g' \<Longrightarrow> moves_of g' = moves_of g"
  by (auto simp: frame_secondary_def Let_def bind_eq_Some_conv split_beta simp del: SetState_UNINITIALIZED
      dest!: SetState_moves frame_calibrated_moves split: option.splits if_splits)

lemma frame_primary_moves: "frame_primary ops fi g = Some g' \<Longrightarrow> moves_of g' = moves_of g"
  by (auto simp: frame_primary_def Let_def bind_eq_Some_conv split_beta simp del: SetState_UNINITIALIZED
      dest!: SetState_moves frame_secondary_moves split: option.splits if_splits)

lemma StopGuiding_moves: "StopGuiding ops g = Some g' \<Longrightarrow> moves_of g' = moves_of g"
  by (auto simp: StopGuiding_def Let_def dest!: SetState_moves split: if_splits)

lemma frame_lost_moves:
  "frame_lost ops g = Some g' \<Longrightarrow>
     moves_of g' = moves_of g @ (if m_state g = STATE_GUIDING then [(ZERO_OFS, MOVEOPTS_DEDUCED_MOVE)] else [])"
  by (auto simp: frame_lost_def Let_def bind_eq_Some_conv simp del: SetState_UNINITIALIZED
      dest!: SetState_moves split: GUIDER_STATE.splits if_splits)

lemma frame_recenter_moves:
  "\<exists>ofs. moves_of (frame_recenter ops m fi g) = moves_of g @ [(ofs, MOVEOPTS_RECOVERY_MOVE)]"
  by (simp add: frame_recenter_def Let_def)

text \<open>The moves that a frame schedules when the star was found and the guider is not paused.\<close>

definition found_moves :: "FrameInput \<Rightarrow> 'm Guider \<Rightarrow> (GuiderOffset \<times> MoveOptions) list \<Rightarrow> bool" where
  "found_moves fi g ms \<longleftrightarrow>
     (if m_state g \<noteq> STATE_GUIDING then ms = []
      else if p_valid (m_ditherRecenterRemaining g) then \<exists>ofs. ms = [(ofs, MOVEOPTS_RECOVERY_MOVE)]
      else if m_measurementMode g then ms = []
      else ms = [(fi_ofs fi, MOVEOPTS_GUIDE_STEP)])"

lemma frame_switch_moves:
  assumes "frame_switch ops fi g = Some g'"
  shows "\<exists>ms. moves_of g' = moves_of g @ ms \<and> found_moves fi g ms"
proof (cases "m_state g")
  case STATE_GUIDING
  with assms frame_recenter_moves show ?thesis
    by (fastforce simp: frame_switch_def frame_guiding_def found_moves_def bind_eq_Some_conv split: if_splits)
next
  case STATE_SELECTING
  with assms show ?thesis
    by (auto simp: frame_switch_def found_moves_def bind_eq_Some_conv dest!: SetState_moves SetLockPosition_moves split: if_splits)
next
  case STATE_SELECTED
  with assms show ?thesis by (auto simp: frame_switch_def found_moves_def split: if_splits)
qed (use assms frame_primary_moves frame_secondary_moves frame_calibrated_moves in
     \<open>fastforce simp: frame_switch_def found_moves_def\<close>)+

lemma UpdateCurrentDistance_fields [simp]:
  "m_state (UpdateCurrentDistance t d r g) = m_state g" "g_log (UpdateCurrentDistance t d r g) = g_log g"
  "pMount (UpdateCurrentDistance t d r g) = pMount g"
  "pSecondaryMount (UpdateCurrentDistance t d r g) = pSecondaryMount g"
  "m_lockPosition (UpdateCurrentDistance t d r g) = m_lockPosition g"
  "currentPosition (UpdateCurrentDistance t d r g) = currentPosition g"
  "imageSize (UpdateCurrentDistance t d r g) = imageSize g"
  "m_paused (UpdateCurrentDistance t d r g) = m_paused g"
  "m_ditherRecenterRemaining (UpdateCurrentDistance t d r g) = m_ditherRecenterRemaining g"
  "m_measurementMode (UpdateCurrentDistance t d r g) = m_measurementMode g"
  by (simp_all add: UpdateCurrentDistance_def Let_def)

lemma star_found_fields [simp]:
  "m_state (star_found fi g) = m_state g" "g_log (star_found fi g) = g_log g"
  "pMount (star_found fi g) = pMount g" "pSecondaryMount (star_found fi g) = pSecondaryMount g"
  "m_lockPosition (star_found fi g) = m_lockPosition g"
  "currentPosition (star_found fi g) = PHD_Point_new (fi_x fi) (fi_y fi)"
  "imageSize (star_found fi g) = imageSize g" "m_paused (star_found fi g) = m_paused g"
  "m_ditherRecenterRemaining (star_found fi g) = m_ditherRecenterRemaining g"
  "m_measurementMode (star_found fi g) = m_measurementMode g"
  by (simp_all add: star_found_def Let_def)

lemma frame_shift_fields [simp]:
  "m_state (frame_shift g) = m_state g" "moves_of (frame_shift g) = moves_of g"
  "pMount (frame_shift g) = pMount g" "pSecondaryMount (frame_shift g) = pSecondaryMount g"
  "p_valid (sp_pos (m_lockPosition (frame_shift g))) = p_valid (sp_pos (m_lockPosition g))"
  "currentPosition (frame_shift g) = currentPosition g"
  "imageSize (frame_shift g) = imageSize g" "m_paused (frame_shift g) = m_paused g"
  "m_ditherRecenterRemaining (frame_shift g) = m_ditherRecenterRemaining g"
  "m_measurementMode (frame_shift g) = m_measurementMode g"
  by (simp_all add: frame_shift_def ShiftLockPosition_def Let_def notify_def)

lemma frame_found_moves:
  assumes "frame_found ops fi g = Some g'"
  shows "\<exists>ms. moves_of g' = moves_of g @ ms \<and>
    (if m_state g = STATE_GUIDING \<and> IsPaused g then ms = [(ZERO_OFS, MOVEOPTS_DEDUCED_MOVE)] else found_moves fi g ms)"
proof -
  define g2 where "g2 = (if IsLoopingState (m_state g) then notify (LogLooping True) g else g)\<lparr>m_forceFullFrame := False\<rparr>"
  have g2: "m_state g2 = m_state g" "moves_of g2 = moves_of g" "m_paused g2 = m_paused g"
    "m_ditherRecenterRemaining g2 = m_ditherRecenterRemaining g" "m_measurementMode g2 = m_measurementMode g"
    by (simp_all add: g2_def notify_def)
  have p: "IsPaused g2 = IsPaused g" by (simp add: IsPaused_def g2)
  have fm: "found_moves fi g2 ms = found_moves fi g ms" for ms by (simp add: found_moves_def g2)
  have eq: "(if IsPaused g2
      then Some (if m_state g2 = STATE_GUIDING then notify (LogMove ZERO_OFS MOVEOPTS_DEDUCED_MOVE) g2 else g2)
      else frame_switch ops fi g2) = Some g'"
    using assms unfolding frame_found_def Let_def g2_def .
  show ?thesis
  proof (cases "IsPaused g")
    case True
    then show ?thesis using eq p g2 by (cases "m_state g = STATE_GUIDING") (auto simp: found_moves_def)
  next
    case False
    then show ?thesis using eq p fm g2(2) frame_switch_moves[of ops fi g2 g'] by auto
  qed
qed

lemma frame_body_moves:
  assumes "frame_body ops fi g = Some g'"
  shows "\<exists>ms. moves_of g' = moves_of g @ ms \<and>
    (if fi_stopping fi \<or> m_state g \<noteq> STATE_GUIDING then ms = []
     else if \<not> fi_found fi \<or> IsPaused g then ms = [(ZERO_OFS, MOVEOPTS_DEDUCED_MOVE)] else found_moves fi g ms)"
proof -
  define g0 where "g0 = g\<lparr>imageSize := (case fi_newImage fi of None \<Rightarrow> imageSize g | Some sz \<Rightarrow> sz),
    utc_millis := fi_utc fi\<rparr>"
  have g0: "m_state g0 = m_state g" "moves_of g0 = moves_of g" "m_paused g0 = m_paused g"
    "m_ditherRecenterRemaining g0 = m_ditherRecenterRemaining g" "m_measurementMode g0 = m_measurementMode g"
    by (simp_all add: g0_def)
  have p: "IsPaused (star_found fi (frame_shift g0)) = IsPaused g" by (simp add: IsPaused_def g0)
  have fm: "found_moves fi (star_found fi (frame_shift g0)) ms = found_moves fi g ms" for ms by (simp add: found_moves_def g0)
  have not: "found_moves fi g ms \<longleftrightarrow> ms = []" if "m_state g \<noteq> STATE_GUIDING" for ms using that by (simp add: found_moves_def)
  have "(if fi_stopping fi then StopGuiding ops g0
         else if opt_busy ops (pMount g0) then None
         else if \<not> fi_found fi then frame_lost ops ((frame_shift g0)\<lparr>starWasFound := False\<rparr>)
         else frame_found ops fi (star_found fi (frame_shift g0))) = Some g'"
    using assms unfolding frame_body_def Let_def g0_def .
  then consider "fi_stopping fi" "StopGuiding ops g0 = Some g'"
    | "\<not> fi_stopping fi" "\<not> fi_found fi" "frame_lost ops ((frame_shift g0)\<lparr>starWasFound := False\<rparr>) = Some g'"
    | "\<not> fi_stopping fi" "fi_found fi" "frame_found ops fi (star_found fi (frame_shift g0)) = Some g'"
    by (auto split: if_splits)
  then show ?thesis
  proof cases
    case 1
    then show ?thesis using StopGuiding_moves[OF 1(2)] g0 by auto
  next
    case 2
    then show ?thesis using frame_lost_moves[OF 2(3)] g0 by auto
  next
    case 3
    then show ?thesis using frame_found_moves[OF 3(3)] g0(1,2) p fm not by (auto split: if_splits)
  qed
qed

section \<open>Dithering\<close>

definition reflect :: "PHD_Point \<Rightarrow> nat \<Rightarrow> PHD_Point" where
  "reflect arg q = (let (sx, sy) = dither_sign q in PHD_Point_new (pX arg * sx) (pY arg * sy))"

text \<open>The candidate of reflection \<open>q\<close>: camera vector, mount vector and lock position.\<close>

definition dither_cand :: "'m MountOps \<Rightarrow> 'm Guider \<Rightarrow> 'm \<Rightarrow> PHD_Point \<Rightarrow> nat \<Rightarrow>
    (PHD_Point \<times> PHD_Point \<times> PHD_Point) option" where
  "dither_cand ops g mnt arg q =
     do { c \<leftarrow> mo_ToCamera ops mnt (reflect arg q);
          l \<leftarrow> p_add (sp_pos (m_lockPosition g)) c;
          Some (c, reflect arg q, l) }"

lemma dither_loop_Cons:
  "dither_loop ops g mnt arg (q # qs) best = Some (Inr r) \<longleftrightarrow>
     (\<exists>c mv l. dither_cand ops g mnt arg q = Some (c, mv, l) \<and>
        (if IsValidLockPosition g l then r = (c, mv)
         else dither_loop ops g mnt arg qs
           (case best of None \<Rightarrow> Some (c, mv, edgeDist l (imageSize g))
            | Some (bc, bm, d) \<Rightarrow> if edgeDist l (imageSize g) > d then Some (c, mv, edgeDist l (imageSize g)) else best)
           = Some (Inr r)))"
  by (cases "dither_sign q")
    (auto simp: dither_cand_def reflect_def Let_def bind_eq_Some_conv split: option.splits prod.splits)

declare dither_loop.simps(2) [simp del]

definition best_ge :: "(PHD_Point \<times> PHD_Point \<times> real) option \<Rightarrow> real \<Rightarrow> bool" where
  "best_ge best d \<longleftrightarrow> (\<forall>c m d'. best = Some (c, m, d') \<longrightarrow> d' \<le> d)"

lemma dither_loop_choice:
  assumes "dither_loop ops g mnt arg qs best = Some (Inr (cam, mv))"
  shows "(\<exists>q\<in>set qs. \<exists>l. dither_cand ops g mnt arg q = Some (cam, mv, l) \<and> IsValidLockPosition g l) \<or>
    (\<forall>q\<in>set qs. \<exists>c m l. dither_cand ops g mnt arg q = Some (c, m, l) \<and> \<not> IsValidLockPosition g l) \<and>
    (\<exists>d. (best = Some (cam, mv, d) \<or>
          (\<exists>q\<in>set qs. \<exists>l. dither_cand ops g mnt arg q = Some (cam, mv, l) \<and> d = edgeDist l (imageSize g))) \<and>
       (\<forall>q\<in>set qs. \<forall>c m l. dither_cand ops g mnt arg q = Some (c, m, l) \<longrightarrow> edgeDist l (imageSize g) \<le> d) \<and>
       best_ge best d)"
  using assms
proof (induction qs arbitrary: best)
  case Nil
  then show ?case by (auto simp: best_ge_def split: option.splits)
next
  case (Cons q qs)
  then obtain c m l where c: "dither_cand ops g mnt arg q = Some (c, m, l)" by (auto simp: dither_loop_Cons)
  show ?case
  proof (cases "IsValidLockPosition g l")
    case True
    with Cons.prems c have "(cam, mv) = (c, m)" by (auto simp: dither_loop_Cons)
    with True c show ?thesis by auto
  next
    case False
    let ?e = "edgeDist l (imageSize g)"
    define best' where "best' = (case best of None \<Rightarrow> Some (c, m, ?e)
        | Some (bc, bm, d) \<Rightarrow> if ?e > d then Some (c, m, ?e) else best)"
    have "dither_loop ops g mnt arg qs best' = Some (Inr (cam, mv))"
      using Cons.prems False c by (auto simp: dither_loop_Cons best'_def)
    note IH = Cons.IH[OF this]
    have b: "best_ge best' d \<Longrightarrow> ?e \<le> d \<and> best_ge best d" for d
      by (auto simp: best'_def best_ge_def split: option.splits if_splits)
    have b2: "best' = best \<or> best' = Some (c, m, ?e)"
      by (auto simp: best'_def split: option.splits)
    show ?thesis using IH
    proof (elim disjE conjE exE, goal_cases)
      case 1
      then show ?case by auto
    next
      case (2 d)
      then show ?case using b[of d] b2 False c by (auto 4 4)
    next
      case (3 d)
      then show ?case using b[of d] False c by (auto 4 4)
    qed
  qed
qed

text \<open>The order of the scan: the first valid candidate, or the first of those farthest from the edge.\<close>

definition not_valid :: "'m MountOps \<Rightarrow> 'm Guider \<Rightarrow> 'm \<Rightarrow> PHD_Point \<Rightarrow> nat \<Rightarrow> bool" where
  "not_valid ops g mnt arg q \<longleftrightarrow>
     (\<exists>c m l. dither_cand ops g mnt arg q = Some (c, m, l) \<and> \<not> IsValidLockPosition g l)"

definition edge_of :: "'m MountOps \<Rightarrow> 'm Guider \<Rightarrow> 'm \<Rightarrow> PHD_Point \<Rightarrow> nat \<Rightarrow> real" where
  "edge_of ops g mnt arg q = (case dither_cand ops g mnt arg q of None \<Rightarrow> 0 | Some (c, m, l) \<Rightarrow> edgeDist l (imageSize g))"

lemma dither_loop_first:
  assumes "dither_loop ops g mnt arg qs best = Some (Inr (cam, mv))"
  shows "(\<exists>pre q post l. qs = pre @ q # post \<and> dither_cand ops g mnt arg q = Some (cam, mv, l) \<and>
      IsValidLockPosition g l \<and> (\<forall>q'\<in>set pre. not_valid ops g mnt arg q')) \<or>
    (\<forall>q'\<in>set qs. not_valid ops g mnt arg q') \<and>
    ((\<exists>d. best = Some (cam, mv, d) \<and> (\<forall>q'\<in>set qs. edge_of ops g mnt arg q' \<le> d)) \<or>
     (\<exists>pre q post l. qs = pre @ q # post \<and> dither_cand ops g mnt arg q = Some (cam, mv, l) \<and>
        (\<forall>q'\<in>set pre. edge_of ops g mnt arg q' < edgeDist l (imageSize g)) \<and>
        (\<forall>q'\<in>set post. edge_of ops g mnt arg q' \<le> edgeDist l (imageSize g)) \<and>
        (\<forall>c m d. best = Some (c, m, d) \<longrightarrow> d < edgeDist l (imageSize g))))"
  (is "?A qs \<or> ?N qs \<and> (?B qs best \<or> ?C qs best)")
  using assms
proof (induction qs arbitrary: best)
  case Nil
  then show ?case by (auto split: option.splits)
next
  case (Cons q qs)
  then obtain c m l where c: "dither_cand ops g mnt arg q = Some (c, m, l)" by (auto simp: dither_loop_Cons)
  let ?e = "edgeDist l (imageSize g)"
  show ?case
  proof (cases "IsValidLockPosition g l")
    case True
    with Cons.prems c have "(cam, mv) = (c, m)" by (auto simp: dither_loop_Cons)
    with True c have "?A (q # qs)" by (intro exI[of _ "[]"]) auto
    then show ?thesis ..
  next
    case False
    have n: "not_valid ops g mnt arg q" and e: "edge_of ops g mnt arg q = ?e"
      using False c by (auto simp: not_valid_def edge_of_def)
    define best' where "best' = (case best of None \<Rightarrow> Some (c, m, ?e)
        | Some (bc, bm, d) \<Rightarrow> if ?e > d then Some (c, m, ?e) else best)"
    have "dither_loop ops g mnt arg qs best' = Some (Inr (cam, mv))"
      using Cons.prems False c by (auto simp: dither_loop_Cons best'_def)
    from Cons.IH[OF this] show ?thesis
    proof (elim disjE conjE)
      assume "?A qs"
      then obtain pre q1 post l1 where "qs = pre @ q1 # post" "dither_cand ops g mnt arg q1 = Some (cam, mv, l1)"
        "IsValidLockPosition g l1" "\<forall>q'\<in>set pre. not_valid ops g mnt arg q'" by blast
      then have "?A (q # qs)" using n by (intro exI[of _ "q # pre"]) auto
      then show ?thesis ..
    next
      assume N: "?N qs" and "?B qs best'"
      then obtain d where d: "best' = Some (cam, mv, d)" "\<forall>q'\<in>set qs. edge_of ops g mnt arg q' \<le> d" by blast
      have "?B (q # qs) best \<or> ?C (q # qs) best"
      proof (cases "best' = best")
        case True
        then have "?e \<le> d" using d(1) by (auto simp: best'_def split: option.splits if_splits prod.splits)
        then show ?thesis using d True e by auto
      next
        case False
        then have "cam = c" "mv = m" "d = ?e" "\<forall>bc bm bd. best = Some (bc, bm, bd) \<longrightarrow> bd < ?e"
          using d(1) by (auto simp: best'_def split: option.splits if_splits)
        then have "?C (q # qs) best" using c d(2) by (intro exI[of _ "[]"]) auto
        then show ?thesis ..
      qed
      then show ?thesis using N n by auto
    next
      assume N: "?N qs" and "?C qs best'"
      then obtain pre q1 post l1 where q1: "qs = pre @ q1 # post" "dither_cand ops g mnt arg q1 = Some (cam, mv, l1)"
        "\<forall>q'\<in>set pre. edge_of ops g mnt arg q' < edgeDist l1 (imageSize g)"
        "\<forall>q'\<in>set post. edge_of ops g mnt arg q' \<le> edgeDist l1 (imageSize g)"
        and b: "\<forall>c m d. best' = Some (c, m, d) \<longrightarrow> d < edgeDist l1 (imageSize g)" by blast
      have "?e < edgeDist l1 (imageSize g)" "\<forall>c m d. best = Some (c, m, d) \<longrightarrow> d < edgeDist l1 (imageSize g)"
        using b by (auto simp: best'_def split: option.splits if_splits prod.splits)
      then have "?C (q # qs) best" using q1 e by (intro exI[of _ "q # pre"]) auto
      then show ?thesis using N n by auto
    qed
  qed
qed

lemma four_split:
  assumes "[0, 1, 2, 3] = pre @ q # post"
  shows "q < (4 :: nat)" "q' \<in> set pre \<longleftrightarrow> q' < q" "q' \<in> set post \<longleftrightarrow> q < q' \<and> q' < 4"
proof -
  have "pre = [] \<and> q = 0 \<and> post = [1, 2, 3] \<or> pre = [0] \<and> q = 1 \<and> post = [2, 3] \<or>
      pre = [0, 1] \<and> q = 2 \<and> post = [3] \<or> pre = [0, 1, 2] \<and> q = 3 \<and> post = []"
    using assms by (auto simp: Cons_eq_append_conv)
  then show "q < 4" "q' \<in> set pre \<longleftrightarrow> q' < q" "q' \<in> set post \<longleftrightarrow> q < q' \<and> q' < 4" by auto
qed

lemma MoveLockPosition_ok:
  assumes "MoveLockPosition ops arg g = Some (False, g')"
  shows "\<exists>mnt cam mv. pMount g = Some mnt \<and> mo_IsCalibrated ops mnt \<and>
    dither_loop ops g mnt arg [0, 1, 2, 3] None = Some (Inr (cam, mv)) \<and>
    (\<exists>l g1. p_add (sp_pos (m_lockPosition g)) cam = Some l \<and> SetLockPosition l g = Some (False, g1) \<and>
      g' = dither_account cam mv g1)"
  using assms by (auto simp: MoveLockPosition_def split: if_splits option.splits sum.splits prod.splits)

lemma dither_account_lock [simp]: "m_lockPosition (dither_account c mv g) = m_lockPosition g"
  by (simp add: dither_account_def Let_def)

section \<open>Operations from outside and the mount contract\<close>

text \<open>
  The operations that reach the guider between frames, with the guards of their callers
  (\<open>MyFrame::StartGuiding\<close> and \<open>MyFrame::Dither\<close> in \<open>src/myframe.cpp\<close>).
\<close>

datatype GuiderOp =
  OpFrame FrameInput | OpStartGuiding | OpReset bool | OpSetPaused PauseType
| OpDither PHD_Point | OpSetSticky bool

fun guider_op :: "'m MountOps \<Rightarrow> GuiderOp \<Rightarrow> 'm Guider \<Rightarrow> 'm Guider option" where
  "guider_op ops (OpFrame fi) g = UpdateGuideState ops fi g"
| "guider_op ops OpStartGuiding g =
     (if (case pMount g of None \<Rightarrow> False | Some m \<Rightarrow> mo_IsConnected ops m) \<and> m_state g \<ge> STATE_SELECTED
      then StartGuiding ops g else Some g)"
| "guider_op ops (OpReset b) g = Guider_Reset ops b g"
| "guider_op ops (OpSetPaused p) g = Some (snd (SetPaused p g))"
| "guider_op ops (OpDither p) g =
     (if IsGuiding g then map_option snd (MoveLockPosition ops p g) else Some g)"
| "guider_op ops (OpSetSticky b) g = Some (g\<lparr>m_lockPosIsSticky := b\<rparr>)"

text \<open>A found star lies inside the image.\<close>

fun op_ok :: "GuiderOp \<Rightarrow> 'm Guider \<Rightarrow> bool" where
  "op_ok (OpFrame fi) g = (let sz = (case fi_newImage fi of None \<Rightarrow> imageSize g | Some sz \<Rightarrow> sz)
     in fi_found fi \<longrightarrow> 0 \<le> fi_x fi \<and> fi_x fi < real_of_int (fst sz) \<and> 0 \<le> fi_y fi \<and> fi_y fi < real_of_int (snd sz))"
| "op_ok _ g = True"

fun guider_run :: "'m MountOps \<Rightarrow> GuiderOp list \<Rightarrow> 'm Guider \<Rightarrow> 'm Guider option" where
  "guider_run ops [] g = Some g"
| "guider_run ops (e # es) g = (case guider_op ops e g of None \<Rightarrow> None | Some g' \<Rightarrow> guider_run ops es g')"

fun run_ok :: "'m MountOps \<Rightarrow> GuiderOp list \<Rightarrow> 'm Guider \<Rightarrow> bool" where
  "run_ok ops [] g = True"
| "run_ok ops (e # es) g = (op_ok e g \<and> (\<forall>g'. guider_op ops e g = Some g' \<longrightarrow> run_ok ops es g'))"

lemma SetState_SELECTED:
  "m_state g = STATE_SELECTING \<Longrightarrow> SetState ops STATE_SELECTED g = Some (g\<lparr>m_state := STATE_SELECTED\<rparr>)"
  by (subst SetState.simps) (simp add: stop_target_def gs_order)

lemma SetState_CALIBRATED:
  "gs_num (m_state g) \<ge> 4 \<Longrightarrow> SetState ops STATE_CALIBRATED g = Some (g\<lparr>m_state := STATE_CALIBRATED\<rparr>)"
  by (subst SetState.simps) (simp add: stop_target_def gs_order)

lemma SetState_GUIDING:
  "m_state g = STATE_CALIBRATED \<Longrightarrow>
     SetState ops STATE_GUIDING g = map_option (\<lambda>g'. g'\<lparr>m_state := STATE_GUIDING\<rparr>) (enter_guiding ops g)"
  by (subst SetState.simps) (auto simp: stop_target_def gs_order split: option.splits)

lemma enter_guiding_lock:
  "enter_guiding ops g = Some g' \<Longrightarrow> p_valid (sp_pos (m_lockPosition g)) \<Longrightarrow>
     p_valid (sp_pos (m_lockPosition g')) \<and> currentPosition g' = currentPosition g"
  by (auto simp: enter_guiding_def SetLockPosition_def Let_def split: option.splits if_splits)

lemma enter_guiding_mounts:
  "enter_guiding ops g = Some g' \<Longrightarrow>
     pMount g' = map_option (mo_AdjustCalibrationForScopePointing ops) (pMount g) \<and>
     pSecondaryMount g' = map_option (mo_AdjustCalibrationForScopePointing ops) (pSecondaryMount g)"
  by (auto simp: enter_guiding_def SetLockPosition_def Let_def split: option.splits if_splits)

locale calibratable_mount =
  fixes ops :: "'m MountOps"
    and good :: "'m \<Rightarrow> bool"
    and begun :: "'m \<Rightarrow> bool"
  assumes good_idle: "good m \<Longrightarrow> \<not> mo_IsBusy ops m"
    and begin_ok: "good m \<Longrightarrow> p_valid p \<Longrightarrow> mo_BeginCalibration ops (mo_ResetErrorCount ops m) p = (err, m') \<Longrightarrow>
        good m' \<and> (\<not> err \<longrightarrow> begun m') \<and> (mo_IsConnected ops m \<longrightarrow> \<not> err)"
    and update_ok: "good m \<Longrightarrow> begun m \<Longrightarrow> \<not> mo_IsCalibrated ops m \<Longrightarrow> p_valid p \<Longrightarrow>
        \<exists>err m'. mo_UpdateCalibrationState ops m p = Some (err, m') \<and> good m' \<and> (\<not> err \<longrightarrow> begun m')"
    and adjust_good: "good m \<Longrightarrow> good (mo_AdjustCalibrationForScopePointing ops m)"
    and camera_valid: "mo_ToCamera ops m p = Some c \<Longrightarrow> p_valid c"
begin

definition g_ok :: "'m Guider \<Rightarrow> bool" where
  "g_ok g \<longleftrightarrow> m_state g \<noteq> STATE_STOP \<and> (\<exists>m. pMount g = Some m \<and> good m) \<and>
     (\<forall>m. pSecondaryMount g = Some m \<longrightarrow> good m) \<and>
     (gs_num (m_state g) \<ge> 2 \<longrightarrow> p_valid (sp_pos (m_lockPosition g)) \<and> p_valid (currentPosition g)) \<and>
     (m_state g = STATE_CALIBRATING_PRIMARY \<longrightarrow> (\<forall>m. pMount g = Some m \<longrightarrow> mo_IsCalibrated ops m \<or> begun m)) \<and>
     (m_state g = STATE_CALIBRATING_SECONDARY \<longrightarrow>
        (\<forall>m. pSecondaryMount g = Some m \<longrightarrow> \<not> mo_IsConnected ops m \<or> mo_IsCalibrated ops m \<or> begun m))"

text \<open>\<open>g_core\<close> is what holds in every state that has the star; the mounts are in order.\<close>

definition mounts_ok :: "'m Guider \<Rightarrow> bool" where
  "mounts_ok g \<longleftrightarrow> (\<exists>m. pMount g = Some m \<and> good m) \<and> (\<forall>m. pSecondaryMount g = Some m \<longrightarrow> good m)"

definition star_ok :: "'m Guider \<Rightarrow> bool" where
  "star_ok g \<longleftrightarrow> p_valid (sp_pos (m_lockPosition g)) \<and> p_valid (currentPosition g)"

lemma g_okI_low: "mounts_ok g \<Longrightarrow> m_state g \<in> {STATE_UNINITIALIZED, STATE_SELECTING} \<Longrightarrow> g_ok g"
  by (auto simp: g_ok_def mounts_ok_def)

lemma g_okI_high:
  "mounts_ok g \<Longrightarrow> star_ok g \<Longrightarrow> m_state g \<in> {STATE_SELECTED, STATE_CALIBRATED, STATE_GUIDING} \<Longrightarrow> g_ok g"
  by (auto simp: g_ok_def mounts_ok_def star_ok_def)

lemma g_ok_mounts: "g_ok g \<Longrightarrow> mounts_ok g"
  by (simp add: g_ok_def mounts_ok_def)

lemma g_ok_star: "g_ok g \<Longrightarrow> gs_num (m_state g) \<ge> 2 \<Longrightarrow> star_ok g"
  by (simp add: g_ok_def star_ok_def)

lemma reset_ok: "mounts_ok g \<Longrightarrow> \<exists>g'. SetState ops STATE_UNINITIALIZED g = Some g' \<and> g_ok g'"
  by (auto intro!: g_okI_low simp: mounts_ok_def)

lemma set_guiding_ok:
  assumes "mounts_ok g" and "star_ok g" and "m_state g = STATE_CALIBRATED"
  shows "\<exists>g'. SetState ops STATE_GUIDING g = Some g' \<and> mounts_ok g' \<and> star_ok g' \<and> m_state g' = STATE_GUIDING"
proof -
  obtain g' where g': "enter_guiding ops g = Some g'"
    using enter_guiding_total[of g ops] assms(1) by (auto simp: mounts_ok_def)
  have "star_ok (g'\<lparr>m_state := STATE_GUIDING\<rparr>)"
    using enter_guiding_lock[OF g'] assms(2) by (simp add: star_ok_def)
  moreover have "mounts_ok (g'\<lparr>m_state := STATE_GUIDING\<rparr>)"
    using enter_guiding_mounts[OF g'] assms(1) by (auto simp: mounts_ok_def adjust_good)
  ultimately show ?thesis using SetState_GUIDING[OF assms(3)] g' by simp
qed

lemma frame_calibrated_ok:
  assumes "mounts_ok g" and "star_ok g" and "m_state g = STATE_CALIBRATED"
  shows "\<exists>g'. frame_calibrated ops fi g = Some g' \<and> g_ok g'"
proof -
  obtain g1 where g1: "SetState ops STATE_GUIDING g = Some g1" "mounts_ok g1" "star_ok g1"
    "m_state g1 = STATE_GUIDING"
    using set_guiding_ok[OF assms] by blast
  have "p_valid (sp_pos (SetShiftRate t a b l)) = p_valid (sp_pos l)"
    "p_valid (sp_pos (DisableShift l)) = p_valid (sp_pos l)" for t a b l
    by (simp_all add: SetShiftRate_def DisableShift_def point_ops)
  then show ?thesis
    using g1 assms(3) by (auto simp: frame_calibrated_def Let_def mounts_ok_def star_ok_def intro!: g_okI_high)
qed

lemma continue_calibrated_ok:
  assumes "mounts_ok g" and "star_ok g" and "gs_num (m_state g) \<ge> 4"
  shows "\<exists>g'. do { g1 \<leftarrow> SetState ops STATE_CALIBRATED g; frame_calibrated ops fi g1 } = Some g' \<and> g_ok g'"
  using frame_calibrated_ok[of "g\<lparr>m_state := STATE_CALIBRATED\<rparr>" fi] assms
  by (simp add: SetState_CALIBRATED mounts_ok_def star_ok_def)

lemma frame_secondary_ok:
  assumes g: "mounts_ok g" "star_ok g" "gs_num (m_state g) \<ge> 4"
    and sec: "\<And>m. pSecondaryMount g = Some m \<Longrightarrow> \<not> mo_IsConnected ops m \<or> mo_IsCalibrated ops m \<or>
      begun m \<and> m_state g = STATE_CALIBRATING_SECONDARY"
  shows "\<exists>g'. frame_secondary ops fi g = Some g' \<and> g_ok g'"
proof (cases "\<exists>m. pSecondaryMount g = Some m \<and> mo_IsConnected ops m \<and> \<not> mo_IsCalibrated ops m")
  case False
  then show ?thesis using continue_calibrated_ok[OF g]
    by (auto simp: frame_secondary_def Let_def split: option.splits)
next
  case True
  then obtain m where m: "pSecondaryMount g = Some m" "mo_IsConnected ops m" "\<not> mo_IsCalibrated ops m" by blast
  with sec have b: "begun m" "m_state g = STATE_CALIBRATING_SECONDARY" by auto
  have gm: "good m" using g(1) m by (simp add: mounts_ok_def)
  obtain err m' where u: "mo_UpdateCalibrationState ops m (currentPosition g) = Some (err, m')" "good m'"
    "\<not> err \<longrightarrow> begun m'"
    using update_ok[OF gm b(1) m(3), of "currentPosition g"] g(2) by (auto simp: star_ok_def)
  define g1 where "g1 = g\<lparr>pSecondaryMount := Some m'\<rparr>"
  have g1: "mounts_ok g1" "star_ok g1" "gs_num (m_state g1) \<ge> 4" "m_state g1 = STATE_CALIBRATING_SECONDARY"
    using g u b by (auto simp: g1_def mounts_ok_def star_ok_def)
  have "\<not> err \<Longrightarrow> \<not> mo_IsCalibrated ops m' \<Longrightarrow> g_ok g1"
    using g1 u by (auto simp: g_ok_def mounts_ok_def star_ok_def g1_def)
  then show ?thesis
    using m u reset_ok[OF g1(1)] continue_calibrated_ok[OF g1(1-3)]
    by (cases err; cases "mo_IsCalibrated ops m'") (simp_all add: frame_secondary_def Let_def g1_def del: SetState_UNINITIALIZED)
qed

lemma set_secondary_ok:
  assumes g: "mounts_ok g" "star_ok g" and st: "m_state g = STATE_CALIBRATING_PRIMARY"
  shows "\<exists>g'. SetState ops STATE_CALIBRATING_SECONDARY g = Some g' \<and>
    (m_state g' = STATE_CALIBRATING_SECONDARY \<and> g_ok g' \<or>
     m_state g' = STATE_CALIBRATED \<and> mounts_ok g' \<and> star_ok g' \<and>
       (\<forall>m. pSecondaryMount g' = Some m \<longrightarrow> \<not> mo_IsConnected ops m))"
proof (cases "\<exists>m. pSecondaryMount g = Some m \<and> mo_IsConnected ops m")
  case False
  then have "enter_secondary ops STATE_CALIBRATING_SECONDARY g = (STATE_CALIBRATED, g)"
    by (auto simp: enter_secondary_def split: option.splits)
  then have "SetState ops STATE_CALIBRATING_SECONDARY g = Some (g\<lparr>m_state := STATE_CALIBRATED\<rparr>)"
    using st by (subst SetState.simps) (simp add: stop_target_def gs_order)
  with g False show ?thesis by (auto simp: mounts_ok_def star_ok_def)
next
  case True
  then obtain m where m: "pSecondaryMount g = Some m" "mo_IsConnected ops m" by blast
  have gm: "good m" using g(1) m by (simp add: mounts_ok_def)
  define g1 where "g1 = (if mo_IsCalibrated ops m then g
    else notify (LogStartCalibration False) (g\<lparr>pSecondaryMount := Some
      (snd (mo_BeginCalibration ops (mo_ResetErrorCount ops m) (currentPosition g)))\<rparr>))"
  obtain err m' where b: "mo_BeginCalibration ops (mo_ResetErrorCount ops m) (currentPosition g) = (err, m')"
    by fastforce
  have bo: "good m' \<and> (\<not> err \<longrightarrow> begun m') \<and> \<not> err"
    using begin_ok[OF gm _ b] g(2) m(2) by (auto simp: star_ok_def)
  have "enter_secondary ops STATE_CALIBRATING_SECONDARY g = (STATE_CALIBRATING_SECONDARY, g1)"
    using m b bo by (simp add: enter_secondary_def g1_def Let_def)
  then have "SetState ops STATE_CALIBRATING_SECONDARY g = Some (g1\<lparr>m_state := STATE_CALIBRATING_SECONDARY\<rparr>)"
    using st by (subst SetState.simps) (simp add: stop_target_def gs_order)
  moreover have "g_ok (g1\<lparr>m_state := STATE_CALIBRATING_SECONDARY\<rparr>)"
    using g m b bo by (auto simp: g_ok_def mounts_ok_def star_ok_def g1_def)
  ultimately show ?thesis by simp
qed

lemma frame_primary_ok:
  assumes g: "mounts_ok g" "star_ok g" and st: "m_state g = STATE_CALIBRATING_PRIMARY"
    and pri: "\<And>m. pMount g = Some m \<Longrightarrow> mo_IsCalibrated ops m \<or> begun m"
  shows "\<exists>g'. frame_primary ops fi g = Some g' \<and> g_ok g'"
proof -
  have cont: "\<exists>g'. do { g1 \<leftarrow> SetState ops STATE_CALIBRATING_SECONDARY h;
        if m_state g1 = STATE_CALIBRATING_SECONDARY then Some g1 else frame_secondary ops fi g1 } = Some g' \<and> g_ok g'"
    if h: "mounts_ok h" "star_ok h" "m_state h = STATE_CALIBRATING_PRIMARY" for h
  proof -
    obtain g1 where g1: "SetState ops STATE_CALIBRATING_SECONDARY h = Some g1" and
      c: "m_state g1 = STATE_CALIBRATING_SECONDARY \<and> g_ok g1 \<or> m_state g1 = STATE_CALIBRATED \<and> mounts_ok g1 \<and>
        star_ok g1 \<and> (\<forall>m. pSecondaryMount g1 = Some m \<longrightarrow> \<not> mo_IsConnected ops m)"
      using set_secondary_ok[OF h] by blast
    from c show ?thesis
    proof
      assume "m_state g1 = STATE_CALIBRATING_SECONDARY \<and> g_ok g1"
      with g1 show ?thesis by simp
    next
      assume d: "m_state g1 = STATE_CALIBRATED \<and> mounts_ok g1 \<and> star_ok g1 \<and>
        (\<forall>m. pSecondaryMount g1 = Some m \<longrightarrow> \<not> mo_IsConnected ops m)"
      then have "\<exists>g'. frame_secondary ops fi g1 = Some g' \<and> g_ok g'"
        by (intro frame_secondary_ok) auto
      with g1 d show ?thesis by simp
    qed
  qed
  obtain m where m: "pMount g = Some m" "good m" using g(1) by (auto simp: mounts_ok_def)
  show ?thesis
  proof (cases "mo_IsCalibrated ops m")
    case True
    with m cont[OF g st] show ?thesis by (simp add: frame_primary_def Let_def)
  next
    case False
    then have "begun m" using pri m by auto
    then obtain err m' where u: "mo_UpdateCalibrationState ops m (currentPosition g) = Some (err, m')" "good m'"
      "\<not> err \<longrightarrow> begun m'"
      using update_ok[OF m(2) _ False, of "currentPosition g"] g(2) by (auto simp: star_ok_def)
    define g1 where "g1 = g\<lparr>pMount := Some m'\<rparr>"
    have g1: "mounts_ok g1" "star_ok g1" "m_state g1 = STATE_CALIBRATING_PRIMARY"
      using g u st by (auto simp: g1_def mounts_ok_def star_ok_def)
    have "\<not> err \<Longrightarrow> \<not> mo_IsCalibrated ops m' \<Longrightarrow> g_ok g1"
      using g1 u by (auto simp: g_ok_def mounts_ok_def star_ok_def g1_def)
    then show ?thesis
      using m u False reset_ok[OF g1(1)] cont[OF g1]
      by (cases err; cases "mo_IsCalibrated ops m'")
        (simp_all add: frame_primary_def Let_def g1_def del: SetState_UNINITIALIZED)
  qed
qed

lemma frame_guiding_ok:
  assumes "g_ok g" and "m_state g = STATE_GUIDING"
  shows "\<exists>g'. frame_guiding ops fi g = Some g' \<and> g_ok g'"
proof -
  obtain m where m: "pMount g = Some m" using assms(1) by (auto simp: g_ok_def)
  have "g_ok (notify e g)" for e using assms(1) by (simp add: g_ok_def)
  moreover have "g_ok (frame_recenter ops m fi g)"
    using assms by (simp add: g_ok_def frame_recenter_def Let_def notify_def)
  ultimately show ?thesis using m by (simp add: frame_guiding_def)
qed

lemma frame_switch_ok:
  assumes g: "g_ok g" and cur: "p_valid (currentPosition g)"
    and inside: "0 \<le> pX (currentPosition g)" "pX (currentPosition g) < real_of_int (fst (imageSize g))"
      "0 \<le> pY (currentPosition g)" "pY (currentPosition g) < real_of_int (snd (imageSize g))"
  shows "\<exists>g'. frame_switch ops fi g = Some g' \<and> g_ok g'"
proof (cases "m_state g")
  case STATE_SELECTING
  obtain g1 where g1: "SetLockPosition (currentPosition g) g = Some (False, g1)"
    using cur inside STATE_SELECTING by (auto simp: SetLockPosition_def Let_def not_le not_less)
  have "mounts_ok g1" "star_ok g1" "m_state g1 = STATE_SELECTING"
    using SetLockPosition_cases[OF g1] g_ok_mounts[OF g] cur STATE_SELECTING
    by (auto simp: mounts_ok_def star_ok_def)
  then have "g_ok ((notify (LogStarSelected (currentPosition g1)) g1)\<lparr>m_state := STATE_SELECTED\<rparr>)"
    "SetState ops STATE_SELECTED (notify (LogStarSelected (currentPosition g1)) g1) =
       Some ((notify (LogStarSelected (currentPosition g1)) g1)\<lparr>m_state := STATE_SELECTED\<rparr>)"
    by (auto simp: mounts_ok_def star_ok_def SetState_SELECTED intro!: g_okI_high)
  then show ?thesis using cur g1 STATE_SELECTING by (simp add: frame_switch_def)
next
  case STATE_SELECTED
  with g reset_ok[OF g_ok_mounts[OF g]] show ?thesis by (simp add: frame_switch_def)
next
  case STATE_CALIBRATING_PRIMARY
  with g show ?thesis
    using frame_primary_ok[OF g_ok_mounts[OF g] g_ok_star[OF g]] by (simp add: frame_switch_def g_ok_def)
next
  case STATE_CALIBRATING_SECONDARY
  with g have "\<exists>g'. frame_secondary ops fi g = Some g' \<and> g_ok g'"
    by (intro frame_secondary_ok[OF g_ok_mounts[OF g] g_ok_star[OF g]]) (auto simp: g_ok_def)
  with STATE_CALIBRATING_SECONDARY show ?thesis by (simp add: frame_switch_def)
next
  case STATE_CALIBRATED
  with g show ?thesis
    using frame_calibrated_ok[OF g_ok_mounts[OF g] g_ok_star[OF g]] by (simp add: frame_switch_def)
next
  case STATE_GUIDING
  with frame_guiding_ok[OF g] show ?thesis by (simp add: frame_switch_def)
qed (use g in \<open>auto simp: frame_switch_def g_ok_def\<close>)

lemma frame_lost_ok: "g_ok g \<Longrightarrow> \<exists>g'. frame_lost ops g = Some g' \<and> g_ok g'"
proof (cases "m_state g")
  case STATE_SELECTED
  assume g: "g_ok g"
  then have "g_ok (notify e g)" for e by (simp add: g_ok_def)
  then have "\<exists>g'. SetState ops STATE_UNINITIALIZED (notify (LogLooping False) g) = Some g' \<and> g_ok g'"
    by (intro reset_ok g_ok_mounts)
  moreover have "g_ok h \<Longrightarrow> g_ok (notify e h)" for h e by (simp add: g_ok_def)
  ultimately show ?thesis
    using STATE_SELECTED g
    by (auto simp: frame_lost_def Let_def bind_eq_Some_conv simp del: SetState_UNINITIALIZED)
qed (auto simp: frame_lost_def g_ok_def)

lemma StopGuiding_ok:
  assumes "g_ok g"
  shows "\<exists>g'. StopGuiding ops g = Some g' \<and> g_ok g' \<and>
    m_state g' \<in> {STATE_UNINITIALIZED, STATE_SELECTING, STATE_SELECTED}"
proof -
  have stop: "\<exists>g'. SetState ops STATE_STOP h = Some g' \<and> g_ok g' \<and>
      m_state g' \<in> {STATE_UNINITIALIZED, STATE_SELECTING, STATE_SELECTED}" if h: "g_ok h" for h
  proof -
    consider "m_state h \<in> {STATE_UNINITIALIZED, STATE_CALIBRATING_PRIMARY, STATE_CALIBRATING_SECONDARY}"
      | "m_state h \<in> {STATE_SELECTING, STATE_SELECTED}" | "m_state h \<in> {STATE_CALIBRATED, STATE_GUIDING}"
      using h by (cases "m_state h") (auto simp: g_ok_def)
    then show ?thesis
    proof cases
      case 1
      then have "SetState ops STATE_STOP h = SetState ops STATE_UNINITIALIZED h"
        by (subst SetState.simps, subst (2) SetState.simps) (auto simp: stop_target_def)
      with reset_ok[OF g_ok_mounts[OF h]] show ?thesis by auto
    next
      case 2
      then have "SetState ops STATE_STOP h = Some (h\<lparr>m_state := m_state h\<rparr>)"
        by (subst SetState.simps) (auto simp: stop_target_def)
      with 2 h show ?thesis by (auto simp: g_ok_def)
    next
      case 3
      then have "SetState ops STATE_STOP h = Some (h\<lparr>m_state := STATE_SELECTED\<rparr>)"
        by (subst SetState.simps) (auto simp: stop_target_def gs_order)
      moreover have "star_ok h" using 3 by (intro g_ok_star[OF h]) auto
      ultimately show ?thesis
        using g_ok_mounts[OF h] by (auto simp: mounts_ok_def star_ok_def intro!: g_okI_high)
    qed
  qed
  have "g_ok (notify e h)" if "g_ok h" for e h using that by (simp add: g_ok_def)
  then show ?thesis unfolding StopGuiding_def Let_def by (intro stop) (auto simp: assms)
qed

lemma frame_body_ok:
  assumes g: "g_ok g" and op: "op_ok (OpFrame fi) g"
  shows "\<exists>g'. frame_body ops fi g = Some g' \<and> g_ok g'"
proof -
  define g0 where "g0 = g\<lparr>imageSize := (case fi_newImage fi of None \<Rightarrow> imageSize g | Some sz \<Rightarrow> sz),
    utc_millis := fi_utc fi\<rparr>"
  have g0: "g_ok g0" using g by (simp add: g_ok_def g0_def)
  have busy: "\<not> opt_busy ops (pMount g0)" using g0 good_idle by (auto simp: g_ok_def opt_busy_def)
  define g1 where "g1 = frame_shift g0"
  have g1: "g_ok g1" using g0 by (simp add: g_ok_def g1_def)
  show ?thesis
  proof (cases "fi_stopping fi")
    case True
    with StopGuiding_ok[OF g0] show ?thesis by (auto simp: frame_body_def g0_def[symmetric])
  next
    case ns: False
    show ?thesis
    proof (cases "fi_found fi")
      case False
      have "g_ok (g1\<lparr>starWasFound := False\<rparr>)" using g1 by (simp add: g_ok_def)
      from frame_lost_ok[OF this] ns False busy show ?thesis
        by (simp add: frame_body_def g0_def[symmetric] g1_def Let_def)
    next
      case True
      define g2 where "g2 = (let h = star_found fi g1
        in if IsLoopingState (m_state h) then notify (LogLooping True) h else h)\<lparr>m_forceFullFrame := False\<rparr>"
      have g2: "g_ok g2" "currentPosition g2 = PHD_Point_new (fi_x fi) (fi_y fi)" "imageSize g2 = imageSize g0"
        using g1 by (simp_all add: g2_def g_ok_def notify_def g1_def Let_def)
      have "\<exists>g'. frame_switch ops fi g2 = Some g' \<and> g_ok g'"
        using op True g2(2,3) by (intro frame_switch_ok[OF g2(1)]) (auto simp: g0_def Let_def)
      moreover have "g_ok (notify e g2)" for e using g2(1) by (simp add: g_ok_def)
      moreover have "frame_body ops fi g =
          (if IsPaused g2 then Some (if m_state g2 = STATE_GUIDING
             then notify (LogMove ZERO_OFS MOVEOPTS_DEDUCED_MOVE) g2 else g2) else frame_switch ops fi g2)"
        using ns True busy
        unfolding frame_body_def frame_found_def Let_def g0_def[symmetric] g1_def[symmetric] g2_def by simp
      ultimately show ?thesis using g2(1) by auto
    qed
  qed
qed

lemma UpdateGuideState_ok:
  assumes "g_ok g" and "op_ok (OpFrame fi) g"
  shows "\<exists>g'. UpdateGuideState ops fi g = Some g' \<and> g_ok g'"
  using frame_body_ok[OF assms] by (auto simp: UpdateGuideState_def g_ok_def notify_def)

lemma StartGuiding_ok:
  assumes g: "g_ok g" and st: "gs_num (m_state g) \<ge> 2"
  shows "\<exists>g'. StartGuiding ops g = Some g' \<and> g_ok g'"
proof -
  have star: "star_ok g" by (rule g_ok_star[OF g st])
  obtain m where m: "pMount g = Some m" "good m" using g by (auto simp: g_ok_def)
  obtain f g1 where e: "enter_primary ops STATE_CALIBRATING_PRIMARY g = Some (f, g1)"
    using enter_state_total[of g ops STATE_CALIBRATING_PRIMARY] m by fastforce
  have set: "SetState ops STATE_CALIBRATING_PRIMARY g =
      (if f \<ge> STATE_CALIBRATING_PRIMARY then Some (g1\<lparr>m_state := f\<rparr>) else SetState ops f g1)"
    using st e by (subst SetState.simps) (simp add: stop_target_def)
  have p: "currentPosition g1 = currentPosition g" "m_lockPosition g1 = m_lockPosition g"
    "f = STATE_CALIBRATING_PRIMARY \<or> f = STATE_CALIBRATED \<or> f = STATE_UNINITIALIZED"
    using enter_primary_props[OF e] by auto
  have mo: "mounts_ok g1 \<and> (f = STATE_CALIBRATING_PRIMARY \<longrightarrow> (\<forall>m. pMount g1 = Some m \<longrightarrow> mo_IsCalibrated ops m \<or> begun m))"
  proof (cases "mo_IsCalibrated ops m")
    case False
    obtain err m' where b: "mo_BeginCalibration ops (mo_ResetErrorCount ops m) (currentPosition g) = (err, m')"
      by fastforce
    have "good m' \<and> (\<not> err \<longrightarrow> begun m')" using begin_ok[OF m(2) _ b] star by (auto simp: star_ok_def)
    then show ?thesis using e m b False g_ok_mounts[OF g]
      by (auto simp: enter_primary_def mounts_ok_def Let_def split: if_splits)
  next
    case True
    then have s: "enter_secondary ops STATE_CALIBRATING_PRIMARY g = (f, g1)" using e m by (simp add: enter_primary_def)
    have "good m2" if "pSecondaryMount g1 = Some m2" for m2
    proof (cases "pSecondaryMount g")
      case None
      with s that show ?thesis by (auto simp: enter_secondary_def)
    next
      case (Some m1)
      obtain err m' where b: "mo_BeginCalibration ops (mo_ResetErrorCount ops m1) (currentPosition g) = (err, m')"
        by fastforce
      have "good m1" using g Some by (simp add: g_ok_def)
      then have "good m'" using begin_ok[OF _ _ b] star by (auto simp: star_ok_def)
      with s that Some b \<open>good m1\<close> show ?thesis by (auto simp: enter_secondary_def Let_def split: if_splits)
    qed
    then show ?thesis using enter_secondary_props[OF s] m True by (auto simp: mounts_ok_def)
  qed
  show ?thesis
  proof (cases "f = STATE_UNINITIALIZED")
    case True
    then show ?thesis using set reset_ok[of g1] mo by (auto simp: StartGuiding_def gs_order)
  next
    case False
    with p set have "StartGuiding ops g = Some (g1\<lparr>m_state := f\<rparr>)" by (auto simp: StartGuiding_def gs_order)
    moreover have "g_ok (g1\<lparr>m_state := f\<rparr>)"
      using False p mo star by (auto simp: g_ok_def mounts_ok_def star_ok_def)
    ultimately show ?thesis by simp
  qed
qed

lemma SetLockPosition_g_ok: "g_ok g \<Longrightarrow> SetLockPosition p g = Some (err, g') \<Longrightarrow> g_ok g'"
  using SetLockPosition_cases[of p g err g'] by (cases err) (auto simp: g_ok_def)

lemma dither_loop_total:
  assumes "p_valid (sp_pos (m_lockPosition g))" and "qs \<noteq> [] \<or> best \<noteq> None"
  shows "\<exists>r. dither_loop ops g mnt arg qs best = Some r"
  using assms(2)
proof (induction qs arbitrary: best)
  case (Cons q qs)
  have "\<exists>l. p_add (sp_pos (m_lockPosition g)) c = Some l" if "mo_ToCamera ops mnt p = Some c" for p c
    using camera_valid[OF that] assms(1) by (simp add: p_add_def)
  then show ?case
    using Cons.IH by (cases "dither_sign q") (fastforce simp: dither_loop.simps Let_def split: option.splits prod.splits)
qed auto

lemma MoveLockPosition_g_ok:
  assumes g: "g_ok g" and st: "m_state g = STATE_GUIDING"
  shows "\<exists>err g'. MoveLockPosition ops p g = Some (err, g') \<and> g_ok g'"
proof -
  obtain m where m: "pMount g = Some m" using g by (auto simp: g_ok_def)
  have v: "p_valid (sp_pos (m_lockPosition g))" using g st by (simp add: g_ok_def)
  obtain r where r: "dither_loop ops g m p [0, 1, 2, 3] None = Some r" using dither_loop_total[OF v] by blast
  show ?thesis
  proof (cases "p_valid p \<and> mo_IsCalibrated ops m")
    case False
    then show ?thesis using g m by (auto simp: MoveLockPosition_def)
  next
    case True
    show ?thesis
    proof (cases r)
      case (Inl u)
      then have "MoveLockPosition ops p g = Some (True, g)" using True m r by (simp add: MoveLockPosition_def)
      with g show ?thesis by blast
    next
      case (Inr cm)
      obtain cam mv where cm: "cm = (cam, mv)" by (cases cm)
      have "p_valid cam"
        using dither_loop_choice[of ops g m p "[0, 1, 2, 3]" None cam mv] r Inr cm camera_valid
        by (auto simp: dither_cand_def bind_eq_Some_conv)
      then obtain l where l: "p_add (sp_pos (m_lockPosition g)) cam = Some l" using v by (simp add: p_add_def)
      obtain err g1 where g1: "SetLockPosition l g = Some (err, g1)"
        using SetLockPosition_total[of g l] m by (metis option.distinct(1) surj_pair)
      have "g_ok (dither_account cam mv g1)"
        using SetLockPosition_g_ok[OF g g1] by (simp add: g_ok_def dither_account_def Let_def)
      with SetLockPosition_g_ok[OF g g1] show ?thesis
        using True m r Inr cm l g1 by (cases err) (auto simp: MoveLockPosition_def)
    qed
  qed
qed

lemma guider_op_ok:
  assumes g: "g_ok g" and op: "op_ok e g"
  shows "\<exists>g'. guider_op ops e g = Some g' \<and> g_ok g'"
proof (cases e)
  case (OpFrame fi)
  with UpdateGuideState_ok[OF g] op show ?thesis by simp
next
  case OpStartGuiding
  with StartGuiding_ok[OF g] g show ?thesis by (auto simp: gs_order)
next
  case (OpReset b)
  have "g_ok (InvalidateCurrentPosition True h)" if "g_ok h" "m_state h = STATE_SELECTING" for h
    using that by (simp add: g_ok_def)
  with OpReset reset_ok[OF g_ok_mounts[OF g]] show ?thesis by (auto simp: Guider_Reset_def)
next
  case (OpSetPaused p)
  with g show ?thesis by (simp add: SetPaused_def g_ok_def Let_def)
next
  case (OpDither p)
  with MoveLockPosition_g_ok[OF g, of p] g show ?thesis by (auto simp: IsGuiding_def)
next
  case (OpSetSticky b)
  with g show ?thesis by (simp add: g_ok_def)
qed

lemma guider_run_ok: "g_ok g \<Longrightarrow> run_ok ops es g \<Longrightarrow> \<exists>g'. guider_run ops es g = Some g' \<and> g_ok g'"
proof (induction es arbitrary: g)
  case (Cons e es)
  then obtain g1 where g1: "guider_op ops e g = Some g1" "g_ok g1" using guider_op_ok[of g e] by auto
  with Cons show ?case by auto
qed simp

end

section \<open>Example objects\<close>

text \<open>
  A mount that is a pair of flags (connected, calibrated) and a guider, for the examples below:
  calibration fails to begin on a mount that is not connected or without a valid position.
\<close>

definition flag_mount :: "(bool \<times> bool) MountOps" where
  "flag_mount = \<lparr>mo_IsCalibrated = snd, mo_IsConnected = fst, mo_IsBusy = (\<lambda>m. False),
     mo_ResetErrorCount = id, mo_BeginCalibration = (\<lambda>m p. (\<not> fst m \<or> \<not> p_valid p \<or> pX p > 90, m)),
     mo_UpdateCalibrationState = (\<lambda>m p. if p_valid p then Some (False, (fst m, True)) else None),
     mo_AdjustCalibrationForScopePointing = id, mo_ToCamera = (\<lambda>m p. Some (PHD_Point_new (pX p) (pY p)))\<rparr>"

definition example_guider :: "GUIDER_STATE \<Rightarrow> 'm option \<Rightarrow> 'm option \<Rightarrow> 'm Guider" where
  "example_guider st m1 m2 = \<lparr>m_state = st,
     m_lockPosition = \<lparr>sp_pos = PHD_Point_new 50 50, m_rate = PHD_Point_invalid, m_x0 = 0, m_y0 = 0, m_t0 = 0\<rparr>,
     m_lockPosIsSticky = False, currentPosition = PHD_Point_new 51 50, starWasFound = True,
     pMount = m1, pSecondaryMount = m2, imageSize = (100, 100), m_searchRegion = 15,
     m_fastRecenterEnabled = False, m_ditherRecenterRemaining = PHD_Point_invalid,
     m_ditherRecenterStep = PHD_Point_invalid, m_ditherRecenterDir = (1, 1), m_avgDistance = 0,
     m_avgDistanceRA = 0, m_avgDistanceLong = 0, m_avgDistanceLongRA = 0, m_avgDistanceCnt = 0,
     m_avgDistanceNeedReset = False, m_starFoundTimestamp = 0, m_paused = PAUSE_NONE,
     shiftEnabled = False, m_ignoreLostStarLooping = False, m_forceFullFrame = False,
     m_measurementMode = False, utc_millis = 0, g_log = []\<rparr>"

definition example_frame :: "real \<Rightarrow> real \<Rightarrow> FrameInput" where
  "example_frame x y = \<lparr>fi_newImage = None, fi_stopping = False, fi_utc = 0, fi_now = 1, fi_found = True,
     fi_x = x, fi_y = y, fi_ofs = \<lparr>cameraOfs = PHD_Point_new 1 0, mountOfs = PHD_Point_new 0 1\<rparr>,
     fi_distance = 1, fi_distanceRA = 1, fi_staticPa = True, fi_polarDrift = True,
     fi_shiftRate = PHD_Point_invalid\<rparr>"

section \<open>Properties\<close>

lemma guide_state_moves_exact:
  assumes "UpdateGuideState ops fi g = Some g'"
  shows "\<exists>ms. guide_moves (g_log g') = guide_moves (g_log g) @ ms \<and>
    (if fi_stopping fi \<or> m_state g \<noteq> STATE_GUIDING then ms = []
     else if \<not> fi_found fi \<or> IsPaused g then ms = [(ZERO_OFS, MOVEOPTS_DEDUCED_MOVE)]
     else if p_valid (m_ditherRecenterRemaining g) then \<exists>ofs. ms = [(ofs, MOVEOPTS_RECOVERY_MOVE)]
     else if m_measurementMode g then ms = []
     else ms = [(fi_ofs fi, MOVEOPTS_GUIDE_STEP)])"
proof -
  obtain g1 where "frame_body ops fi g = Some g1" "moves_of g' = moves_of g1"
    using assms by (auto simp: UpdateGuideState_def bind_eq_Some_conv split: if_splits)
  with frame_body_moves[of ops fi g g1] show ?thesis by (auto simp: found_moves_def split: if_splits)
qed

lemma guide_state_moves:
  assumes "UpdateGuideState ops fi g = Some g'"
  shows "\<exists>ms. guide_moves (g_log g') = guide_moves (g_log g) @ ms \<and> length ms \<le> 1 \<and>
    (\<forall>mv\<in>set ms. m_state g = STATE_GUIDING \<and> \<not> fi_stopping fi \<and>
       (if \<not> fi_found fi \<or> IsPaused g then mv = (ZERO_OFS, MOVEOPTS_DEDUCED_MOVE)
        else if p_valid (m_ditherRecenterRemaining g) then snd mv = MOVEOPTS_RECOVERY_MOVE
        else mv = (fi_ofs fi, MOVEOPTS_GUIDE_STEP)))"
  using guide_state_moves_exact[OF assms] by (auto split: if_splits)



text \<open>C6: a request to change state never leaves the guider in the pseudo state STOP, and with a
  primary mount it always completes.  The guider stays where it is, returns to selecting a star, or
  reaches the requested state, which is refused when it lies more than one step ahead; only starting
  a calibration can reach CALIBRATED directly.  In particular guiding is entered only from
  CALIBRATED, and stopping ends guiding and calibration.\<close>

theorem set_state_total_and_legal:
  assumes "pMount g \<noteq> None" and "m_state g \<noteq> STATE_STOP"
  shows "\<exists>g'. SetState ops s g = Some g' \<and> m_state g' \<noteq> STATE_STOP \<and>
    (m_state g' \<in> {m_state g, STATE_SELECTING, s} \<or> s = STATE_STOP \<or>
     m_state g' = STATE_CALIBRATED \<and> s \<in> {STATE_CALIBRATING_PRIMARY, STATE_CALIBRATING_SECONDARY}) \<and>
    (m_state g' = STATE_GUIDING \<longrightarrow> m_state g \<in> {STATE_CALIBRATED, STATE_GUIDING}) \<and>
    (s = STATE_STOP \<longrightarrow> m_state g' \<in> {STATE_UNINITIALIZED, STATE_SELECTING, STATE_SELECTED})"
proof -
  obtain g' where g': "SetState ops s g = Some g'" using SetState_total[OF assms] by blast
  note L = SetState_legal[OF g' assms(2)]
  have stop: "stop_target STATE_STOP (m_state g) \<in> {STATE_UNINITIALIZED, STATE_SELECTING, STATE_SELECTED}"
    using assms(2) by (cases "m_state g") (auto simp: stop_target_def)
  have other: "s \<noteq> STATE_STOP \<Longrightarrow> stop_target s (m_state g) = s" by (simp add: stop_target_def)
  have G: "m_state g \<in> {STATE_CALIBRATED, STATE_GUIDING}" if "m_state g' = STATE_GUIDING"
  proof (cases "m_state g = STATE_GUIDING")
    case False
    then have t: "stop_target s (m_state g) = STATE_GUIDING" and "6 \<le> gs_num (m_state g) + 1"
      using L that by auto
    then show ?thesis using assms(2) by (cases "m_state g") auto
  qed auto
  have S: "m_state g' \<in> {STATE_UNINITIALIZED, STATE_SELECTING, STATE_SELECTED}" if "s = STATE_STOP"
  proof -
    have st: "m_state g' \<in> {STATE_SELECTING, stop_target STATE_STOP (m_state g)} \<or> m_state g' = m_state g"
      using L stop that by auto
    moreover have "m_state g \<in> {STATE_UNINITIALIZED, STATE_SELECTING, STATE_SELECTED}" if "m_state g' = m_state g"
    proof (rule ccontr)
      assume "m_state g \<notin> {STATE_UNINITIALIZED, STATE_SELECTING, STATE_SELECTED}"
      then have c: "stop_target STATE_STOP (m_state g) < m_state g" "gs_num (stop_target STATE_STOP (m_state g)) \<le> 2"
        using assms(2) by (cases "m_state g"; simp add: stop_target_def gs_order)+
      have "gs_num (m_state g') \<le> 2"
        using SetState_step[OF g' refl] c stop \<open>s = STATE_STOP\<close>
        by (cases "m_state g") (auto simp: stop_target_def gs_order)
      then show False using \<open>m_state g' = m_state g\<close> \<open>m_state g \<notin> _\<close> assms(2) by (cases "m_state g") auto
    qed
    ultimately show ?thesis using stop by auto
  qed
  show ?thesis using g' L G S other by (cases "s = STATE_STOP") auto
qed

theorem set_state_total_and_legal_witness:
  "\<exists>g'. SetState flag_mount STATE_STOP (example_guider STATE_GUIDING (Some (True, True)) None) = Some g' \<and>
     m_state g' \<in> {STATE_UNINITIALIZED, STATE_SELECTING, STATE_SELECTED}"
  using set_state_total_and_legal[of "example_guider STATE_GUIDING (Some (True, True)) None" flag_mount STATE_STOP]
  by (fastforce simp: example_guider_def)

text \<open>C32: a dither that succeeds moves the lock position by one of the four reflections of the
  requested mount offset, to a point inside the image.  It is the first reflection of the scan that
  keeps the search region inside the image: every reflection before it does not.  If none does, it is
  the reflection whose lock position is farthest from the edge, the first of those.\<close>

theorem dither_chooses_valid_reflection:
  assumes "MoveLockPosition ops arg g = Some (False, g')"
  shows "\<exists>mnt q cam l. pMount g = Some mnt \<and> q < 4 \<and> dither_cand ops g mnt arg q = Some (cam, reflect arg q, l) \<and>
    sp_pos (m_lockPosition g') = l \<and>
    0 \<le> pX l \<and> pX l < real_of_int (fst (imageSize g)) \<and> 0 \<le> pY l \<and> pY l < real_of_int (snd (imageSize g)) \<and>
    (if IsValidLockPosition g l
     then \<forall>q'<q. \<exists>c m l'. dither_cand ops g mnt arg q' = Some (c, m, l') \<and> \<not> IsValidLockPosition g l'
     else \<forall>q'<4. \<exists>c m l'. dither_cand ops g mnt arg q' = Some (c, m, l') \<and> \<not> IsValidLockPosition g l' \<and>
        edgeDist l' (imageSize g) \<le> edgeDist l (imageSize g) \<and>
        (q' < q \<longrightarrow> edgeDist l' (imageSize g) < edgeDist l (imageSize g)))"
proof -
  obtain mnt cam mv l g1 where m: "pMount g = Some mnt"
    and loop: "dither_loop ops g mnt arg [0, 1, 2, 3] None = Some (Inr (cam, mv))"
    and l: "p_add (sp_pos (m_lockPosition g)) cam = Some l"
    and set: "SetLockPosition l g = Some (False, g1)" and g': "g' = dither_account cam mv g1"
    using MoveLockPosition_ok[OF assms] by blast
  have lock: "sp_pos (m_lockPosition g') = l" "0 \<le> pX l" "pX l < real_of_int (fst (imageSize g))"
    "0 \<le> pY l" "pY l < real_of_int (snd (imageSize g))"
    using set g' l by (auto simp: SetLockPosition_def Let_def p_add_def PHD_Point_new_def split: if_splits)
  have cand: "l' = l \<and> m' = reflect arg q" if "dither_cand ops g mnt arg q = Some (cam, m', l')" for q m' l'
    using that l by (auto simp: dither_cand_def bind_eq_Some_conv)
  have four: "q \<in> set [0, 1, 2, 3] \<longleftrightarrow> q < (4 :: nat)" for q by auto
  from dither_loop_first[OF loop] consider
      pre q post l' where "[0, 1, 2, 3] = pre @ q # post" "dither_cand ops g mnt arg q = Some (cam, mv, l')"
        "IsValidLockPosition g l'" "\<forall>q'\<in>set pre. not_valid ops g mnt arg q'"
    | pre q post l' where "[0, 1, 2, 3] = pre @ q # post" "dither_cand ops g mnt arg q = Some (cam, mv, l')"
        "\<forall>q'<4. not_valid ops g mnt arg q'"
        "\<forall>q'\<in>set pre. edge_of ops g mnt arg q' < edgeDist l' (imageSize g)"
        "\<forall>q'\<in>set post. edge_of ops g mnt arg q' \<le> edgeDist l' (imageSize g)"
    unfolding Ball_def four by blast
  then show ?thesis
  proof cases
    case 1
    with cand[OF 1(2)] four_split[OF 1(1)] m lock show ?thesis
      by (intro exI[of _ mnt] exI[of _ q] exI[of _ cam] exI[of _ l]) (simp add: not_valid_def)
  next
    case 2
    have "\<not> IsValidLockPosition g l" using 2(2,3) cand[OF 2(2)] four_split[OF 2(1)] by (fastforce simp: not_valid_def)
    moreover have "\<exists>c m l''. dither_cand ops g mnt arg q' = Some (c, m, l'') \<and> \<not> IsValidLockPosition g l'' \<and>
        edgeDist l'' (imageSize g) \<le> edgeDist l (imageSize g) \<and> (q' < q \<longrightarrow> edgeDist l'' (imageSize g) < edgeDist l (imageSize g))"
      if q': "q' < 4" for q'
    proof -
      obtain c m l'' where c: "dither_cand ops g mnt arg q' = Some (c, m, l'')" "\<not> IsValidLockPosition g l''"
        using 2(3) q' by (auto simp: not_valid_def)
      have "edge_of ops g mnt arg q' < edgeDist l (imageSize g)" if "q' < q"
        using 2(4) that four_split[OF 2(1)] cand[OF 2(2)] by simp
      moreover have "edge_of ops g mnt arg q' \<le> edgeDist l (imageSize g)"
        using 2(2,4,5) q' four_split[OF 2(1)] cand[OF 2(2)]
        by (cases q' q rule: linorder_cases) (auto simp: edge_of_def less_imp_le)
      ultimately show ?thesis using c by (simp add: edge_of_def)
    qed
    ultimately show ?thesis using 2(2) cand[OF 2(2)] four_split[OF 2(1)] m lock
      by (intro exI[of _ mnt] exI[of _ q] exI[of _ cam] exI[of _ l]) simp
  qed
qed

theorem dither_chooses_valid_reflection_witness:
  "\<exists>g' q l. MoveLockPosition flag_mount (PHD_Point_new 34 5) (example_guider STATE_GUIDING (Some (True, True)) None)
     = Some (False, g') \<and> sp_pos (m_lockPosition g') = l \<and> pX l = 16 \<and> q = (1 :: nat) \<and>
     (\<forall>q'<q. \<exists>c m l'. dither_cand flag_mount (example_guider STATE_GUIDING (Some (True, True)) None) (True, True)
        (PHD_Point_new 34 5) q' = Some (c, m, l') \<and> \<not> IsValidLockPosition (example_guider STATE_GUIDING (Some (True, True)) None) l')"
proof -
  let ?g = "example_guider STATE_GUIDING (Some (True, True)) None" and ?arg = "PHD_Point_new 34 5"
  obtain g' where g': "MoveLockPosition flag_mount ?arg ?g = Some (False, g')" "pX (sp_pos (m_lockPosition g')) = 16"
      "pY (sp_pos (m_lockPosition g')) = 55" "IsValidLockPosition ?g (sp_pos (m_lockPosition g'))"
    by (simp add: MoveLockPosition_def dither_loop.simps dither_sign_def example_guider_def flag_mount_def
        IsValidLockPosition_def edgeDist_def p_add_def SetLockPosition_def Let_def)
  obtain mnt q cam where q: "pMount ?g = Some mnt" "q < 4"
      "dither_cand flag_mount ?g mnt ?arg q = Some (cam, reflect ?arg q, sp_pos (m_lockPosition g'))"
      "\<forall>q'<q. \<exists>c m l'. dither_cand flag_mount ?g mnt ?arg q' = Some (c, m, l') \<and> \<not> IsValidLockPosition ?g l'"
    using dither_chooses_valid_reflection[OF g'(1)] g'(4) by auto
  have "q \<in> {0, 1, 2, 3}" using q(2) by auto
  then have "q = 1" using q(3) g'(2,3)
    by (auto simp: dither_cand_def reflect_def dither_sign_def flag_mount_def example_guider_def p_add_def
        dest!: sym[of "PHD_Point_new _ _"])
  with q g' show ?thesis by (auto simp: example_guider_def)
qed

text \<open>When guiding starts, the smoothed average distance is the arithmetic mean of the distances
  seen so far, for the first nine of them.\<close>

theorem avg_distance_long_is_mean:
  assumes "\<not> IsGuiding g" and "length ds \<le> 8"
  shows "let g1 = (UpdateCurrentDistance t d0 r0 g)\<lparr>m_state := STATE_GUIDING\<rparr>;
             g2 = foldl (\<lambda>g d. UpdateCurrentDistance t d d g) g1 ds
    in m_avgDistanceLong g2 = (\<Sum>d\<leftarrow>d0 # ds. d) / real (length (d0 # ds))"
proof -
  define g1 where "g1 = (UpdateCurrentDistance t d0 r0 g)\<lparr>m_state := STATE_GUIDING\<rparr>"
  have "length ds \<le> 8 \<Longrightarrow> (let g2 = foldl (\<lambda>g d. UpdateCurrentDistance t d d g) g1 ds
    in m_avgDistanceLong g2 = (d0 + sum_list ds) / (1 + real (length ds)) \<and>
       m_avgDistanceCnt g2 = 1 + int (length ds) \<and> \<not> m_avgDistanceNeedReset g2 \<and> m_state g2 = STATE_GUIDING)"
  proof (induction ds rule: rev_induct)
    case Nil
    then show ?case
      using assms(1) by (simp add: g1_def UpdateCurrentDistance_def Let_def IsGuiding_def)
  next
    case (snoc d ds)
    define h where "h = foldl (\<lambda>g d. UpdateCurrentDistance t d d g) g1 ds"
    define n where "n = 1 + real (length ds)"
    have h: "m_avgDistanceLong h = (d0 + sum_list ds) / n" "m_avgDistanceCnt h = 1 + int (length ds)"
      "\<not> m_avgDistanceNeedReset h" "m_state h = STATE_GUIDING"
      using snoc by (simp_all add: h_def Let_def n_def)
    have "m_avgDistanceLong (UpdateCurrentDistance t d d h) =
        m_avgDistanceLong h + 1 / (n + 1) * (d - m_avgDistanceLong h)"
      using h snoc.prems by (simp add: UpdateCurrentDistance_def Let_def IsGuiding_def n_def add.commute)
    also have "\<dots> = (d0 + (sum_list ds + d)) / (n + 1)"
    proof -
      have "n > 0" by (simp add: n_def)
      then have "(d0 + sum_list ds) / n * (n + 1) + (d - (d0 + sum_list ds) / n) = d0 + (sum_list ds + d)"
        by (simp add: field_simps)
      then show ?thesis using \<open>n > 0\<close> h(1) by (simp add: divide_simps) (simp add: algebra_simps)
    qed
    finally have "m_avgDistanceLong (UpdateCurrentDistance t d d h) = (d0 + (sum_list ds + d)) / (n + 1)" .
    moreover have "m_avgDistanceCnt (UpdateCurrentDistance t d d h) = 2 + int (length ds)"
      "\<not> m_avgDistanceNeedReset (UpdateCurrentDistance t d d h)"
      using h by (simp_all add: UpdateCurrentDistance_def Let_def IsGuiding_def)
    ultimately show ?case using h by (simp add: h_def[symmetric] Let_def n_def add.commute)
  qed
  with assms(2) show ?thesis by (simp add: g1_def Let_def)
qed

theorem avg_distance_long_is_mean_witness:
  "let g1 = (UpdateCurrentDistance 1 3 3 (example_guider STATE_SELECTED (None :: unit option) None))\<lparr>m_state := STATE_GUIDING\<rparr>
   in m_avgDistanceLong (foldl (\<lambda>g d. UpdateCurrentDistance 1 d d g) g1 [5, 1]) = 3"
  using avg_distance_long_is_mean[of "example_guider STATE_SELECTED (None :: unit option) None" "[5, 1]" 1 3 3]
  by (simp add: Let_def) (simp add: IsGuiding_def example_guider_def)

text \<open>When the secondary mount refuses to begin its calibration, the frame handler does not stop:
  it falls through to the update of that calibration, with the position it has just invalidated.
  A mount that asserts a valid position then stops the program.\<close>

theorem failed_secondary_begin_falls_through:
  assumes "m_state g = STATE_CALIBRATING_PRIMARY"
    and "pMount g = Some m1" and "mo_IsCalibrated ops m1"
    and "pSecondaryMount g = Some m2" and "mo_IsConnected ops m2" and "\<not> mo_IsCalibrated ops m2"
    and "mo_BeginCalibration ops (mo_ResetErrorCount ops m2) (currentPosition g) = (True, m3)"
    and "mo_IsConnected ops m3" and "\<not> mo_IsCalibrated ops m3"
  shows "frame_switch ops fi g = None \<longleftrightarrow>
    (let p = p_Invalidate (currentPosition g)
     in mo_UpdateCalibrationState ops m3 p = None \<or>
        (\<exists>m4. mo_UpdateCalibrationState ops m3 p = Some (False, m4) \<and> mo_IsCalibrated ops m4))"
proof -
  define g1 where "g1 = (InvalidateCurrentPosition False (InvalidateLockPosition
    (g\<lparr>pSecondaryMount := Some m3\<rparr>)))\<lparr>m_state := STATE_SELECTING\<rparr>"
  have "enter_secondary ops STATE_CALIBRATING_SECONDARY g = (STATE_UNINITIALIZED, g\<lparr>pSecondaryMount := Some m3\<rparr>)"
    using assms by (simp add: enter_secondary_def)
  then have s: "SetState ops STATE_CALIBRATING_SECONDARY g = Some g1"
    using assms(1) by (subst SetState.simps) (simp add: stop_target_def gs_order g1_def)
  have g1: "m_state g1 = STATE_SELECTING" "pSecondaryMount g1 = Some m3"
    "currentPosition g1 = p_Invalidate (currentPosition g)"
    by (simp_all add: g1_def InvalidateCurrentPosition_def InvalidateLockPosition_def Let_def notify_def)
  have "SetState ops STATE_CALIBRATED h = Some h" if "m_state h = STATE_SELECTING" for h
    using that by (subst SetState.simps) (simp add: stop_target_def)
  then have c: "do { h1 \<leftarrow> SetState ops STATE_CALIBRATED h; frame_calibrated ops fi h1 } = None"
    if "m_state h = STATE_SELECTING" for h
    using that by (simp add: frame_calibrated_def)
  have "frame_switch ops fi g = frame_secondary ops fi g1"
    using assms(1-3) s g1(1) by (simp add: frame_switch_def frame_primary_def)
  also have "\<dots> = (case mo_UpdateCalibrationState ops m3 (p_Invalidate (currentPosition g)) of None \<Rightarrow> None
    | Some (err, m4) \<Rightarrow> if err then SetState ops STATE_UNINITIALIZED (g1\<lparr>pSecondaryMount := Some m4\<rparr>)
        else if \<not> mo_IsCalibrated ops m4 then Some (g1\<lparr>pSecondaryMount := Some m4\<rparr>) else None)"
  proof (cases "mo_UpdateCalibrationState ops m3 (p_Invalidate (currentPosition g))")
    case (Some r)
    obtain err m4 where "r = (err, m4)" by (cases r)
    with Some show ?thesis
      using g1 assms(8,9) c[of "g1\<lparr>pSecondaryMount := Some m4\<rparr>"]
      by (simp add: frame_secondary_def Let_def del: SetState_UNINITIALIZED)
  qed (use g1 assms(8,9) in \<open>simp add: frame_secondary_def Let_def\<close>)
  finally show ?thesis by (auto simp: Let_def split: option.splits if_splits)
qed

theorem failed_secondary_begin_falls_through_witness:
  "UpdateGuideState flag_mount (example_frame 95 50)
     (example_guider STATE_CALIBRATING_PRIMARY (Some (True, True)) (Some (True, False))) = None"
proof -
  let ?g = "(star_found (example_frame 95 50) (frame_shift
    (example_guider STATE_CALIBRATING_PRIMARY (Some (True, True)) (Some (True, False)))))\<lparr>m_forceFullFrame := False\<rparr>"
  have "frame_switch flag_mount (example_frame 95 50) ?g = None"
    by (subst failed_secondary_begin_falls_through[of ?g "(True, True)" flag_mount "(True, False)" "(True, False)"])
      (simp_all add: flag_mount_def example_guider_def example_frame_def)
  then show ?thesis
    by (simp add: UpdateGuideState_def frame_body_def frame_found_def example_frame_def example_guider_def
        flag_mount_def opt_busy_def IsLoopingState_def IsPaused_def frame_shift_def IsGuiding_def)
qed

end
