(* ===== verification/Phd_Controller.thy ===== *)
theory Phd_Controller
  imports Guider_State
begin

text \<open>
  The controller of \<open>src/phdcontrol.cpp\<close>: the operations \<open>Guide\<close>, \<open>Dither\<close> and
  \<open>AbortController\<close>, and \<open>UpdateControllerState\<close>, the state machine that takes a request
  through star selection, calibration and settling, together with the functions of
  \<open>src/myframe.cpp\<close> it calls (\<open>StartGuiding\<close>, \<open>Dither\<close>, \<open>StartCapturing\<close>,
  \<open>ResetAutoExposure\<close>, \<open>CurrentGuideError\<close>).

  The state is the \<open>ControllerState\<close> of the source, the guider of \<open>Guider_State\<close> and the few
  variables of the frame that the controller reads or writes.  A stop watch is the time at which
  it was started.  The clock, the answer of the virtual function \<open>AutoSelect\<close> and the dither
  offsets drawn by the frame come with each call as \<open>CtrlInput\<close>.  Notifications to the event
  server and to the mount are recorded in \<open>c_log\<close>.
\<close>

section \<open>Data\<close>

datatype State =
  STATE_IDLE | STATE_SETUP | STATE_ATTEMPT_START | STATE_SELECT_STAR | STATE_WAIT_SELECTED
| STATE_CALIBRATE | STATE_CALIBRATION_WAIT | STATE_GUIDE | STATE_SETTLE_BEGIN | STATE_SETTLE_WAIT
| STATE_FINISH

datatype SettleOp = OP_DITHER | OP_GUIDE

datatype DEC_GUIDE_MODE = DEC_NONE | DEC_AUTO | DEC_NORTH | DEC_SOUTH

definition SETTLING_TIME_DISABLED :: int where "SETTLING_TIME_DISABLED = 9999"

record SettleParams =
  tolerancePx :: real
  settleTimeSec :: int
  timeoutSec :: int
  frames :: int

datatype ControllerLog =
  NotifySettleBegin
| NotifySettling real real int bool
| NotifySettleDone string int int
| NotifyMountDitherSettleDone bool

text \<open>The further virtual functions of a mount that the controller calls.\<close>

record 'm CtrlMountOps =
  co_base :: "'m MountOps"
  co_ClearCalibration :: "'m \<Rightarrow> 'm"
  co_IsStepGuider :: "'m \<Rightarrow> bool"
  co_IsBumpInProgress :: "'m \<Rightarrow> bool"
  co_GetBumpOnDither :: "'m \<Rightarrow> bool"
  co_ForceStartBump :: "'m \<Rightarrow> 'm"
  co_GetDecGuideMode :: "'m \<Rightarrow> DEC_GUIDE_MODE"
  co_SetDecGuideMode :: "DEC_GUIDE_MODE \<Rightarrow> 'm \<Rightarrow> 'm"

record 'm CtrlInput =
  ci_millis :: int
  ci_secs :: int
  ci_AutoSelect :: "int \<times> int \<times> int \<times> int \<Rightarrow> 'm Guider \<Rightarrow> bool \<times> 'm Guider"
  ci_dither :: "real \<times> real"

record 'm Controller =
  c_state :: State
  forceCalibration :: bool
  haveSaveSticky :: bool
  saveSticky :: bool
  autoFindAttemptsRemaining :: int
  waitSelectedRemaining :: int
  useStickyLock :: bool
  settleOp :: SettleOp
  settle :: SettleParams
  roi :: "int \<times> int \<times> int \<times> int"
  settlePriorFrameInRange :: bool
  settleTimeout :: int
  settleInRange :: int
  saveDecGuideMode :: DEC_GUIDE_MODE
  overrideDecGuideMode :: bool
  settleFrameCount :: int
  droppedFrameCount :: int
  succeeded :: bool
  errorMsg :: string
  guider :: "'m Guider"
  cameraConnected :: "bool option"
  CaptureActive :: bool
  autoExpEnabled :: bool
  autoExpMax :: int
  exposureDuration :: int
  refineDefMapShown :: bool
  ditherRaOnly :: bool
  ditherScaleFactor :: real
  c_log :: "ControllerLog list"

definition IsSettling :: "'m Controller \<Rightarrow> bool" where
  "IsSettling c \<longleftrightarrow> c_state c = STATE_SETTLE_BEGIN \<or> c_state c = STATE_SETTLE_WAIT"

definition IsIdle :: "'m Controller \<Rightarrow> bool" where
  "IsIdle c \<longleftrightarrow> c_state c = STATE_IDLE"

definition c_notify :: "ControllerLog \<Rightarrow> 'm Controller \<Rightarrow> 'm Controller" where
  "c_notify e c = c\<lparr>c_log := c_log c @ [e]\<rparr>"

section \<open>Helpers\<close>

definition ReentrancyError :: "string \<Rightarrow> 'm Controller \<Rightarrow> string" where
  "ReentrancyError opname c = ''Cannot initiate '' @ opname @ '' while '' @
     (if settleOp c = OP_DITHER then ''dither'' else ''guide'') @ '' is in progress''"

definition do_fail :: "string \<Rightarrow> 'm Controller \<Rightarrow> 'm Controller" where
  "do_fail msg c = c\<lparr>succeeded := False, errorMsg := msg, c_state := STATE_FINISH\<rparr>"

definition opt_connected :: "'m CtrlMountOps \<Rightarrow> 'm option \<Rightarrow> bool" where
  "opt_connected ops m = (case m of None \<Rightarrow> True | Some m \<Rightarrow> mo_IsConnected (co_base ops) m)"

definition opt_calibrated :: "'m CtrlMountOps \<Rightarrow> 'm option \<Rightarrow> bool" where
  "opt_calibrated ops m = (case m of None \<Rightarrow> True | Some m \<Rightarrow> mo_IsCalibrated (co_base ops) m)"

definition all_gear_connected :: "'m CtrlMountOps \<Rightarrow> 'm Controller \<Rightarrow> bool" where
  "all_gear_connected ops c \<longleftrightarrow> cameraConnected c = Some True \<and>
     opt_connected ops (pMount (guider c)) \<and> opt_connected ops (pSecondaryMount (guider c))"

definition CanGuide :: "'m CtrlMountOps \<Rightarrow> 'm Controller \<Rightarrow> string option" where
  "CanGuide ops c =
     (if \<not> all_gear_connected ops c then Some ''all equipment must be connected first'' else None)"

text \<open>\<open>TheScope()\<close>: the telescope mount among the two, and an update of it.\<close>

definition scope_is_secondary :: "'m CtrlMountOps \<Rightarrow> 'm Guider \<Rightarrow> bool" where
  "scope_is_secondary ops g = (case pMount g of None \<Rightarrow> False | Some m \<Rightarrow> co_IsStepGuider ops m)"

definition TheScope :: "'m CtrlMountOps \<Rightarrow> 'm Guider \<Rightarrow> 'm option" where
  "TheScope ops g = (if scope_is_secondary ops g then pSecondaryMount g else pMount g)"

definition set_scope :: "'m CtrlMountOps \<Rightarrow> 'm \<Rightarrow> 'm Guider \<Rightarrow> 'm Guider" where
  "set_scope ops m g = (if scope_is_secondary ops g then g\<lparr>pSecondaryMount := Some m\<rparr> else g\<lparr>pMount := Some m\<rparr>)"

definition scope_SetDecGuideMode :: "'m CtrlMountOps \<Rightarrow> DEC_GUIDE_MODE \<Rightarrow> 'm Controller \<Rightarrow> 'm Controller option" where
  "scope_SetDecGuideMode ops md c =
     (case TheScope ops (guider c) of
        None \<Rightarrow> None
      | Some m \<Rightarrow> Some (c\<lparr>guider := set_scope ops (co_SetDecGuideMode ops md m) (guider c)\<rparr>))"

definition GuidingRAOnly :: "'m CtrlMountOps \<Rightarrow> 'm Guider \<Rightarrow> bool" where
  "GuidingRAOnly ops g = (case TheScope ops g of None \<Rightarrow> False | Some m \<Rightarrow> co_GetDecGuideMode ops m = DEC_NONE)"

definition CurrentGuideError :: "'m CtrlMountOps \<Rightarrow> int \<Rightarrow> 'm Guider \<Rightarrow> real" where
  "CurrentGuideError ops now g = CurrentError now (GuidingRAOnly ops g) g"

definition IsAoBumpInProgress :: "'m CtrlMountOps \<Rightarrow> 'm Guider \<Rightarrow> bool" where
  "IsAoBumpInProgress ops g =
     (case pMount g of None \<Rightarrow> False | Some m \<Rightarrow> co_IsStepGuider ops m \<and> co_IsBumpInProgress ops m)"

definition ResetAutoExposure :: "'m Controller \<Rightarrow> 'm Controller" where
  "ResetAutoExposure c = (if autoExpEnabled c then c\<lparr>exposureDuration := autoExpMax c\<rparr> else c)"

definition ForceFullFrame :: "'m Guider \<Rightarrow> 'm Guider" where
  "ForceFullFrame g = (if \<not> m_forceFullFrame g then g\<lparr>m_forceFullFrame := True\<rparr> else g)"

text \<open>The bookkeeping of \<open>StartCapturing\<close> that the controller can see.\<close>

definition StartCapturing :: "'m Controller \<Rightarrow> 'm Controller" where
  "StartCapturing c = (if \<not> CaptureActive c then c\<lparr>CaptureActive := True\<rparr> else c)"

definition start_capturing :: "'m CtrlMountOps \<Rightarrow> 'm Controller \<Rightarrow> (bool \<times> 'm Controller) option" where
  "start_capturing ops c =
     (if cameraConnected c \<noteq> Some True then Some (False, c)
      else do { g \<leftarrow> Guider_Reset (co_base ops) True (guider c);
                Some (True, StartCapturing (ResetAutoExposure (c\<lparr>guider := ForceFullFrame g\<rparr>))) })"

text \<open>\<open>MyFrame::StartGuiding\<close> returns the error flag.\<close>

definition frame_StartGuiding :: "'m CtrlMountOps \<Rightarrow> 'm Controller \<Rightarrow> (bool \<times> 'm Controller) option" where
  "frame_StartGuiding ops c =
     (if refineDefMapShown c then Some (True, c)
      else if (case pMount (guider c) of None \<Rightarrow> False | Some m \<Rightarrow> mo_IsConnected (co_base ops) m) \<and>
              cameraConnected c = Some True \<and> m_state (guider c) \<ge> STATE_SELECTED
      then do { g \<leftarrow> StartGuiding (co_base ops) (guider c);
                Some (False, StartCapturing (c\<lparr>guider := g\<rparr>)) }
      else Some (True, c))"

definition start_guiding :: "'m CtrlMountOps \<Rightarrow> 'm Controller \<Rightarrow> (bool \<times> 'm Controller) option" where
  "start_guiding ops c = map_option (\<lambda>(err, c'). (\<not> err, c')) (frame_StartGuiding ops c)"

definition frame_AutoSelectStar :: "'m CtrlInput \<Rightarrow> 'm Controller \<Rightarrow> bool \<times> 'm Controller" where
  "frame_AutoSelectStar ci c =
     (if IsCalibratingOrGuiding (guider c) then (True, c)
      else let (err, g) = ci_AutoSelect ci (roi c) (guider c) in (err, c\<lparr>guider := g\<rparr>))"

text \<open>
  \<open>MyFrame::Dither\<close>: \<open>ci_dither\<close> are the offsets, for the unit amount, that the spiral or the
  random generator yields; the declination offset is dropped for a dither in right ascension.
\<close>

definition frame_Dither :: "'m CtrlMountOps \<Rightarrow> 'm CtrlInput \<Rightarrow> real \<Rightarrow> bool \<Rightarrow> 'm Controller \<Rightarrow> (bool \<times> 'm Controller) option" where
  "frame_Dither ops ci amount raOnly c =
     (if \<not> IsGuiding (guider c) then Some (True, c)
      else let amount = amount * ditherScaleFactor c;
               dRa = amount * fst (ci_dither ci);
               dDec = (if raOnly then 0 else amount * snd (ci_dither ci))
        in do { (err, g) \<leftarrow> MoveLockPosition (co_base ops) (PHD_Point_new dRa dDec) (guider c);
                if err then Some (True, c\<lparr>guider := g\<rparr>)
                else (case pMount g of
                        None \<Rightarrow> None
                      | Some m \<Rightarrow>
                          Some (False, c\<lparr>guider :=
                            (if co_IsStepGuider ops m \<and> co_GetBumpOnDither ops m
                             then g\<lparr>pMount := Some (co_ForceStartBump ops m)\<rparr> else g)\<rparr>)) })"

definition do_notify :: "'m Controller \<Rightarrow> 'm Controller" where
  "do_notify c =
     (let c1 = c_notify (NotifySettleDone (if succeeded c then [] else errorMsg c)
                          (settleFrameCount c) (droppedFrameCount c)) c
      in if pMount (guider c1) = None then c1
         else c_notify (NotifyMountDitherSettleDone (succeeded c1)) c1)"

section \<open>The state machine\<close>

text \<open>
  One turn of the loop in \<open>UpdateControllerState\<close>, case by case.  The result is the flag
  \<open>done\<close> and the new state; \<^term>\<open>None\<close> is a failed assertion or null dereference in a callee.
\<close>

definition step_setup :: "'m Controller \<Rightarrow> bool \<times> 'm Controller" where
  "step_setup c = (False, c\<lparr>haveSaveSticky := False, autoFindAttemptsRemaining := 3,
                           overrideDecGuideMode := False, c_state := STATE_ATTEMPT_START\<rparr>)"

definition step_attempt_start :: "'m CtrlMountOps \<Rightarrow> 'm Controller \<Rightarrow> (bool \<times> 'm Controller) option" where
  "step_attempt_start ops c =
     (case CanGuide ops c of
        Some err \<Rightarrow> Some (False, do_fail err c)
      | None \<Rightarrow>
          if IsCalibratingOrGuiding (guider c)
          then (if forceCalibration c then Some (False, c\<lparr>c_state := STATE_CALIBRATE\<rparr>)
                else if m_state (guider c) = STATE_CALIBRATED \<or> m_state (guider c) = STATE_GUIDING
                then Some (False, c\<lparr>c_state := STATE_SETTLE_BEGIN\<rparr>)
                else Some (True, c\<lparr>c_state := STATE_CALIBRATION_WAIT\<rparr>))
          else if \<not> CaptureActive c
          then do { (ok, c1) \<leftarrow> start_capturing ops c;
                    if \<not> ok then Some (False, do_fail ''unable to start capturing'' c1)
                    else Some (True, c1\<lparr>c_state := STATE_SELECT_STAR\<rparr>) }
          else if m_state (guider c) = STATE_SELECTED then Some (False, c\<lparr>c_state := STATE_CALIBRATE\<rparr>)
          else let c1 = c\<lparr>c_state := STATE_SELECT_STAR\<rparr>
               in if autoExpEnabled c1 then Some (True, ResetAutoExposure c1) else Some (False, c1))"

definition step_select_star :: "'m CtrlMountOps \<Rightarrow> 'm CtrlInput \<Rightarrow> 'm Controller \<Rightarrow> (bool \<times> 'm Controller) option" where
  "step_select_star ops ci c =
     (let (err, c1) = frame_AutoSelectStar ci c
      in if err
         then let c2 = c1\<lparr>autoFindAttemptsRemaining := autoFindAttemptsRemaining c1 - 1\<rparr>
              in if autoFindAttemptsRemaining c2 = 0
                 then Some (False, do_fail ''failed to find a suitable guide star'' c2)
                 else do { g \<leftarrow> Guider_Reset (co_base ops) True (guider c2);
                           Some (True, c2\<lparr>guider := g, c_state := STATE_ATTEMPT_START\<rparr>) }
         else Some (True, c1\<lparr>c_state := STATE_WAIT_SELECTED, waitSelectedRemaining := 3\<rparr>))"

definition step_wait_selected :: "'m Controller \<Rightarrow> bool \<times> 'm Controller" where
  "step_wait_selected c =
     (if m_state (guider c) = STATE_SELECTED then (False, c\<lparr>c_state := STATE_CALIBRATE\<rparr>)
      else let c1 = c\<lparr>waitSelectedRemaining := waitSelectedRemaining c - 1\<rparr>
           in (True, if waitSelectedRemaining c1 = 0 then c1\<lparr>c_state := STATE_ATTEMPT_START\<rparr> else c1))"

definition set_sticky :: "bool \<Rightarrow> 'm Controller \<Rightarrow> 'm Controller" where
  "set_sticky b c = c\<lparr>guider := (guider c)\<lparr>m_lockPosIsSticky := b\<rparr>\<rparr>"

definition step_calibrate :: "'m CtrlMountOps \<Rightarrow> 'm Controller \<Rightarrow> (bool \<times> 'm Controller) option" where
  "step_calibrate ops c =
     (let c1 = (if forceCalibration c
                then c\<lparr>guider := (guider c)\<lparr>pMount := map_option (co_ClearCalibration ops) (pMount (guider c)),
                         pSecondaryMount := map_option (co_ClearCalibration ops) (pSecondaryMount (guider c))\<rparr>\<rparr>
                else c)
      in if \<not> opt_calibrated ops (pMount (guider c1)) \<or> \<not> opt_calibrated ops (pSecondaryMount (guider c1))
         then
           let c2 = (if useStickyLock c1
                     then set_sticky True (c1\<lparr>saveSticky := m_lockPosIsSticky (guider c1), haveSaveSticky := True\<rparr>)
                     else c1)
           in do { (ok, c3) \<leftarrow> start_guiding ops c2;
                   if \<not> ok
                   then Some (False, do_fail ''could not start calibration''
                     (if useStickyLock c3 \<and> haveSaveSticky c3 then set_sticky (saveSticky c3) c3 else c3))
                   else Some (True, c3\<lparr>c_state := STATE_CALIBRATION_WAIT\<rparr>) }
         else Some (False, c1\<lparr>c_state := STATE_GUIDE\<rparr>))"

definition step_calibration_wait :: "'m CtrlMountOps \<Rightarrow> 'm Controller \<Rightarrow> bool \<times> 'm Controller" where
  "step_calibration_wait ops c =
     (if opt_calibrated ops (pMount (guider c)) \<and> opt_calibrated ops (pSecondaryMount (guider c))
      then (False, (if useStickyLock c \<and> haveSaveSticky c then set_sticky (saveSticky c) c else c)
                     \<lparr>c_state := STATE_SETTLE_BEGIN\<rparr>)
      else (True, c))"

definition step_guide :: "'m CtrlMountOps \<Rightarrow> 'm Controller \<Rightarrow> (bool \<times> 'm Controller) option" where
  "step_guide ops c =
     do { (ok, c1) \<leftarrow> start_guiding ops c;
          Some (if \<not> ok then (False, do_fail ''could not start guiding'' c1)
                else (True, c1\<lparr>c_state := STATE_SETTLE_BEGIN\<rparr>)) }"

definition step_settle_begin :: "'m CtrlMountOps \<Rightarrow> 'm CtrlInput \<Rightarrow> 'm Controller \<Rightarrow> (bool \<times> 'm Controller) option" where
  "step_settle_begin ops ci c =
     do { let c1 = c_notify NotifySettleBegin c;
          c2 \<leftarrow> (if overrideDecGuideMode c1 then scope_SetDecGuideMode ops DEC_AUTO c1 else Some c1);
          Some (True, c2\<lparr>settlePriorFrameInRange := False, settleFrameCount := 0, droppedFrameCount := 0,
                         settleTimeout := ci_millis ci, c_state := STATE_SETTLE_WAIT\<rparr>) }"

definition settle_done :: "'m Controller \<Rightarrow> bool \<times> 'm Controller" where
  "settle_done c = (False, c\<lparr>succeeded := True, c_state := STATE_FINISH\<rparr>)"

text \<open>The end of the settling case: the timeout, and the wait for the next frame.\<close>

definition settle_continue :: "'m CtrlMountOps \<Rightarrow> 'm CtrlInput \<Rightarrow> bool \<Rightarrow> int \<Rightarrow> 'm Controller \<Rightarrow> bool \<times> 'm Controller" where
  "settle_continue ops ci inRange timeInRange c =
     (if c_quot (ci_millis ci - settleTimeout c) 1000 \<ge> timeoutSec (settle c)
      then (False, do_fail ''timed-out waiting for guider to settle'' c)
      else (True, (c_notify (NotifySettling (CurrentGuideError ops (ci_secs ci) (guider c))
                               (real_of_int timeInRange / 1000) (settleTimeSec (settle c)) (IsLocked (guider c))) c)
                    \<lparr>settlePriorFrameInRange := inRange\<rparr>))"

definition step_settle_wait :: "'m CtrlMountOps \<Rightarrow> 'm CtrlInput \<Rightarrow> 'm Controller \<Rightarrow> bool \<times> 'm Controller" where
  "step_settle_wait ops ci c =
     (let lockedOnStar = IsLocked (guider c);
          currentError = CurrentGuideError ops (ci_secs ci) (guider c);
          inRange = (lockedOnStar \<and> currentError \<le> tolerancePx (settle c));
          c1 = c\<lparr>settleFrameCount := settleFrameCount c + 1,
                 droppedFrameCount := (if \<not> lockedOnStar then droppedFrameCount c + 1 else droppedFrameCount c)\<rparr>
      in if settleFrameCount c1 \<ge> frames (settle c1) then settle_done c1
         else if inRange \<and> \<not> settlePriorFrameInRange c1
         then (if settleTimeSec (settle c1) \<le> 0 then settle_done c1
               else settle_continue ops ci inRange 0 (c1\<lparr>settleInRange := ci_millis ci\<rparr>))
         else if inRange
         then (let timeInRange = ci_millis ci - settleInRange c1
               in if c_quot timeInRange 1000 \<ge> settleTimeSec (settle c1) \<and> \<not> IsAoBumpInProgress ops (guider c1)
                  then settle_done c1 else settle_continue ops ci inRange timeInRange c1)
         else settle_continue ops ci inRange 0 c1)"

definition step_finish :: "'m CtrlMountOps \<Rightarrow> 'm Controller \<Rightarrow> (bool \<times> 'm Controller) option" where
  "step_finish ops c =
     do { c1 \<leftarrow> (if overrideDecGuideMode c
                  then map_option (\<lambda>c. c\<lparr>overrideDecGuideMode := False\<rparr>)
                         (scope_SetDecGuideMode ops (saveDecGuideMode c) c)
                  else Some c);
          Some (True, (do_notify c1)\<lparr>c_state := STATE_IDLE\<rparr>) }"

definition ctl_step :: "'m CtrlMountOps \<Rightarrow> 'm CtrlInput \<Rightarrow> 'm Controller \<Rightarrow> (bool \<times> 'm Controller) option" where
  "ctl_step ops ci c = (case c_state c of
     STATE_IDLE \<Rightarrow> Some (True, c)
   | STATE_SETUP \<Rightarrow> Some (step_setup c)
   | STATE_ATTEMPT_START \<Rightarrow> step_attempt_start ops c
   | STATE_SELECT_STAR \<Rightarrow> step_select_star ops ci c
   | STATE_WAIT_SELECTED \<Rightarrow> Some (step_wait_selected c)
   | STATE_CALIBRATE \<Rightarrow> step_calibrate ops c
   | STATE_CALIBRATION_WAIT \<Rightarrow> Some (step_calibration_wait ops c)
   | STATE_GUIDE \<Rightarrow> step_guide ops c
   | STATE_SETTLE_BEGIN \<Rightarrow> step_settle_begin ops ci c
   | STATE_SETTLE_WAIT \<Rightarrow> Some (step_settle_wait ops ci c)
   | STATE_FINISH \<Rightarrow> step_finish ops c)"

text \<open>The turns of the loop that do not end it go down in this order.\<close>

fun turn_rank :: "State \<Rightarrow> nat" where
  "turn_rank STATE_SETUP = 6"
| "turn_rank STATE_ATTEMPT_START = 5"
| "turn_rank STATE_SELECT_STAR = 4"
| "turn_rank STATE_WAIT_SELECTED = 4"
| "turn_rank STATE_CALIBRATE = 3"
| "turn_rank STATE_CALIBRATION_WAIT = 3"
| "turn_rank STATE_GUIDE = 2"
| "turn_rank STATE_SETTLE_BEGIN = 2"
| "turn_rank STATE_SETTLE_WAIT = 2"
| "turn_rank STATE_FINISH = 1"
| "turn_rank STATE_IDLE = 0"

lemmas step_defs = step_setup_def step_attempt_start_def step_select_star_def step_wait_selected_def
  step_calibrate_def step_calibration_wait_def step_guide_def step_settle_begin_def
  step_settle_wait_def step_finish_def

lemma do_fail_state [simp]: "c_state (do_fail msg c) = STATE_FINISH"
  by (simp add: do_fail_def)

lemma settle_continue_state:
  "settle_continue ops ci r t c = (False, c') \<Longrightarrow> c_state c' = STATE_FINISH"
  by (auto simp: settle_continue_def split: if_splits)

lemma step_settle_wait_state: "step_settle_wait ops ci c = (False, c') \<Longrightarrow> c_state c' = STATE_FINISH"
  by (auto simp: step_settle_wait_def settle_done_def Let_def split: if_splits dest!: settle_continue_state)

lemma ctl_step_rank:
  assumes "ctl_step ops ci c = Some (False, c')"
  shows "turn_rank (c_state c') < turn_rank (c_state c)"
proof (cases "c_state c")
  case STATE_ATTEMPT_START
  with assms show ?thesis
    by (auto simp: ctl_step_def step_attempt_start_def bind_eq_Some_conv Let_def split: option.splits if_splits)
next
  case STATE_SELECT_STAR
  with assms show ?thesis
    by (auto simp: ctl_step_def step_select_star_def bind_eq_Some_conv Let_def split: prod.splits if_splits)
next
  case STATE_CALIBRATE
  with assms show ?thesis
    by (auto simp: ctl_step_def step_calibrate_def bind_eq_Some_conv Let_def split: prod.splits if_splits)
next
  case STATE_SETTLE_WAIT
  with assms step_settle_wait_state[of ops ci c c'] show ?thesis by (simp add: ctl_step_def)
qed (use assms in \<open>auto simp: ctl_step_def step_setup_def step_wait_selected_def step_calibration_wait_def
      step_guide_def step_settle_begin_def step_finish_def bind_eq_Some_conv Let_def
      split: if_splits prod.splits\<close>)

function UpdateControllerState :: "'m CtrlMountOps \<Rightarrow> 'm CtrlInput \<Rightarrow> 'm Controller \<Rightarrow> 'm Controller option" where
  "UpdateControllerState ops ci c =
     (case ctl_step ops ci c of
        None \<Rightarrow> None
      | Some (finished, c') \<Rightarrow> if finished then Some c' else UpdateControllerState ops ci c')"
  by pat_completeness auto
termination
  by (relation "measure (\<lambda>(ops, ci, c). turn_rank (c_state c))") (auto dest: ctl_step_rank)

declare UpdateControllerState.simps [simp del]

section \<open>Requests\<close>

text \<open>
  A request returns the success flag and the error message with the new state.  The option bits
  of \<open>Guide\<close> are the two flags.
\<close>

definition Guide :: "'m CtrlMountOps \<Rightarrow> 'm CtrlInput \<Rightarrow> bool \<Rightarrow> bool \<Rightarrow> SettleParams \<Rightarrow> int \<times> int \<times> int \<times> int \<Rightarrow>
    'm Controller \<Rightarrow> (bool \<times> string \<times> 'm Controller) option" where
  "Guide ops ci forceRecal stickyLock settl rect c =
     (if c_state c \<noteq> STATE_IDLE then Some (False, ReentrancyError ''guide'' c, c)
      else do { c1 \<leftarrow> UpdateControllerState ops ci
                  (c\<lparr>forceCalibration := forceRecal, useStickyLock := stickyLock, settleOp := OP_GUIDE,
                     settle := settl, roi := rect, c_state := STATE_SETUP\<rparr>);
                Some (True, [], c1) })"

text \<open>Whether a dither must be in right ascension only, and whether it overrides the declination mode.\<close>

definition dither_dec_mode :: "'m CtrlMountOps \<Rightarrow> bool \<Rightarrow> SettleParams \<Rightarrow> 'm Controller \<Rightarrow> bool \<times> bool \<times> DEC_GUIDE_MODE" where
  "dither_dec_mode ops raOnly settl c =
     (case pMount (guider c) of
        None \<Rightarrow> (raOnly, False, DEC_NONE)
      | Some m \<Rightarrow>
          if co_IsStepGuider ops m \<or> raOnly then (raOnly, False, DEC_NONE)
          else let dgm = co_GetDecGuideMode ops m
               in if dgm = DEC_AUTO then (raOnly, False, dgm)
                  else if (dgm = DEC_NORTH \<or> dgm = DEC_SOUTH) \<and> settleTimeSec settl \<noteq> SETTLING_TIME_DISABLED
                  then (raOnly, True, dgm)
                  else (True, False, dgm))"

definition Dither :: "'m CtrlMountOps \<Rightarrow> 'm CtrlInput \<Rightarrow> real \<Rightarrow> bool \<Rightarrow> SettleParams \<Rightarrow>
    'm Controller \<Rightarrow> (bool \<times> string \<times> 'm Controller) option" where
  "Dither ops ci pixels forceRaOnly settl c =
     (if c_state c \<noteq> STATE_IDLE then Some (False, ReentrancyError ''dither'' c, c)
      else let (raOnly, override, dgm) = dither_dec_mode ops (ditherRaOnly c \<or> forceRaOnly) settl c
           in do { (err, c1) \<leftarrow> frame_Dither ops ci pixels raOnly c;
                   if err then Some (False, ''Dither error'', c1)
                   else do { c2 \<leftarrow> UpdateControllerState ops ci
                               (c1\<lparr>settleOp := OP_DITHER, settle := settl, overrideDecGuideMode := override,
                                   saveDecGuideMode := dgm, c_state := STATE_SETTLE_BEGIN\<rparr>);
                             Some (True, [], c2) } })"

definition DitherFrames :: "'m CtrlMountOps \<Rightarrow> 'm CtrlInput \<Rightarrow> real \<Rightarrow> int \<Rightarrow>
    'm Controller \<Rightarrow> (bool \<times> string \<times> 'm Controller) option" where
  "DitherFrames ops ci pixels settleFrames c =
     Dither ops ci pixels False
       \<lparr>tolerancePx = 99, settleTimeSec = SETTLING_TIME_DISABLED, timeoutSec = SETTLING_TIME_DISABLED,
        frames = settleFrames\<rparr> c"

definition AbortController :: "'m CtrlMountOps \<Rightarrow> 'm CtrlInput \<Rightarrow> string \<Rightarrow> 'm Controller \<Rightarrow> 'm Controller option" where
  "AbortController ops ci reason c =
     (if c_state c \<noteq> STATE_IDLE then UpdateControllerState ops ci (do_fail reason c) else Some c)"

definition DitherCompat :: "'m CtrlMountOps \<Rightarrow> 'm CtrlInput \<Rightarrow> real \<Rightarrow> 'm Controller \<Rightarrow> (bool \<times> string \<times> 'm Controller) option" where
  "DitherCompat ops ci pixels c =
     do { c1 \<leftarrow> AbortController ops ci ''manual or phd1-style dither'' c;
          DitherFrames ops ci pixels 10 c1 }"

section \<open>Termination in turns\<close>

text \<open>The loop with a bound on its turns; \<^term>\<open>None\<close> when the bound is exhausted.\<close>

fun ctl_fuel :: "nat \<Rightarrow> 'm CtrlMountOps \<Rightarrow> 'm CtrlInput \<Rightarrow> 'm Controller \<Rightarrow> 'm Controller option option" where
  "ctl_fuel 0 ops ci c = None"
| "ctl_fuel (Suc n) ops ci c =
     (case ctl_step ops ci c of
        None \<Rightarrow> Some None
      | Some (finished, c') \<Rightarrow> if finished then Some (Some c') else ctl_fuel n ops ci c')"

lemma ctl_fuel_enough: "turn_rank (c_state c) < n \<Longrightarrow> ctl_fuel n ops ci c = Some (UpdateControllerState ops ci c)"
proof (induction n arbitrary: c)
  case (Suc n)
  show ?case
  proof (cases "ctl_step ops ci c")
    case None
    then show ?thesis by (simp add: UpdateControllerState.simps)
  next
    case (Some r)
    then obtain f c' where r: "ctl_step ops ci c = Some (f, c')" by (cases r) auto
    have "\<not> f \<Longrightarrow> turn_rank (c_state c') < n"
      using ctl_step_rank[of ops ci c c'] r Suc.prems by simp
    with r show ?thesis by (subst UpdateControllerState.simps) (auto simp: Suc.IH)
  qed
qed simp

lemma turn_rank_le: "turn_rank s \<le> 6"
  by (cases s) auto

section \<open>Settling\<close>

text \<open>
  The mount in the role of the telescope remembers the declination mode it is given and does not
  change its kind.
\<close>

locale dec_mode_mount =
  fixes ops :: "'m CtrlMountOps"
  assumes get_set: "co_GetDecGuideMode ops (co_SetDecGuideMode ops md m) = md"
    and step_set: "co_IsStepGuider ops (co_SetDecGuideMode ops md m) = co_IsStepGuider ops m"
begin

lemma TheScope_set:
  assumes "TheScope ops g = Some m"
  shows "TheScope ops (set_scope ops (co_SetDecGuideMode ops md m) g) = Some (co_SetDecGuideMode ops md m)"
  using assms by (auto simp: TheScope_def set_scope_def scope_is_secondary_def step_set split: option.splits if_splits)

lemma set_mode:
  "scope_SetDecGuideMode ops md c = Some c' \<Longrightarrow>
     \<exists>m. TheScope ops (guider c') = Some m \<and> co_GetDecGuideMode ops m = md"
  by (auto simp: scope_SetDecGuideMode_def TheScope_set get_set split: option.splits)

lemma step_finish_mode:
  assumes "step_finish ops c = Some (f, c')"
  shows "f \<and> c_state c' = STATE_IDLE \<and> \<not> overrideDecGuideMode c' \<and>
    (if overrideDecGuideMode c
     then \<exists>m. TheScope ops (guider c') = Some m \<and> co_GetDecGuideMode ops m = saveDecGuideMode c
     else guider c' = guider c)"
proof -
  have n: "guider (do_notify d) = guider d" "overrideDecGuideMode (do_notify d) = overrideDecGuideMode d" for d
    by (simp_all add: do_notify_def c_notify_def Let_def)
  show ?thesis
    using assms set_mode[of "saveDecGuideMode c" c]
    by (auto simp: step_finish_def bind_eq_Some_conv n split: if_splits)
qed

lemma finish_update:
  assumes "c_state c = STATE_FINISH" and "UpdateControllerState ops ci c = Some c'"
  shows "c_state c' = STATE_IDLE \<and> \<not> overrideDecGuideMode c' \<and>
    (overrideDecGuideMode c \<longrightarrow> (\<exists>m. TheScope ops (guider c') = Some m \<and> co_GetDecGuideMode ops m = saveDecGuideMode c))"
proof -
  have st: "ctl_step ops ci c = step_finish ops c" using assms(1) by (simp add: ctl_step_def)
  obtain f d where fd: "step_finish ops c = Some (f, d)"
    using assms(2) st by (cases "step_finish ops c") (auto simp: UpdateControllerState.simps)
  from step_finish_mode[OF fd] have "f" by simp
  then have "UpdateControllerState ops ci c = Some d" by (simp add: UpdateControllerState.simps st fd)
  with assms(2) step_finish_mode[OF fd] show ?thesis by (simp split: if_splits)
qed

end

text \<open>
  An abort while the controller waits for a calibration with a sticky lock position leaves the
  lock position sticky: only the regular end of that state restores the saved flag.
\<close>

lemma abort_leaves_sticky:
  assumes "c_state c = STATE_CALIBRATION_WAIT" and "AbortController ops ci reason c = Some c'"
  shows "m_lockPosIsSticky (guider c') = m_lockPosIsSticky (guider c)"
proof -
  let ?f = "do_fail reason c"
  have st: "ctl_step ops ci ?f = step_finish ops ?f" by (simp add: ctl_step_def)
  obtain d where d: "step_finish ops ?f = Some (True, d)"
    using assms st by (cases "step_finish ops ?f")
      (auto simp: AbortController_def UpdateControllerState.simps step_finish_def bind_eq_Some_conv split: option.splits)
  have "c' = d" using assms st d by (simp add: AbortController_def UpdateControllerState.simps)
  moreover have "guider (do_notify e) = guider e" for e :: "'a Controller" by (simp add: do_notify_def c_notify_def Let_def)
  ultimately show ?thesis
    using d by (auto simp: step_finish_def do_fail_def scope_SetDecGuideMode_def set_scope_def bind_eq_Some_conv
        split: option.splits if_splits)
qed

text \<open>The frames of a settling period: at each frame the guider has some new state.\<close>

fun settle_run :: "'m CtrlMountOps \<Rightarrow> ('m CtrlInput \<times> 'm Guider) list \<Rightarrow> 'm Controller \<Rightarrow> 'm Controller option" where
  "settle_run ops [] c = Some c"
| "settle_run ops ((ci, g) # es) c =
     (case UpdateControllerState ops ci (c\<lparr>guider := g\<rparr>) of None \<Rightarrow> None | Some c' \<Rightarrow> settle_run ops es c')"

definition settle_dones :: "'m Controller \<Rightarrow> nat" where
  "settle_dones c = length (filter (\<lambda>e. case e of NotifySettleDone _ _ _ \<Rightarrow> True | _ \<Rightarrow> False) (c_log c))"

definition in_range :: "'m CtrlMountOps \<Rightarrow> SettleParams \<Rightarrow> 'm CtrlInput \<times> 'm Guider \<Rightarrow> bool" where
  "in_range ops st e \<longleftrightarrow> IsLocked (snd e) \<and> CurrentGuideError ops (ci_secs (fst e)) (snd e) \<le> tolerancePx st"

lemma settle_dones_notify [simp]:
  "settle_dones (do_notify c) = Suc (settle_dones c)"
  by (simp add: settle_dones_def do_notify_def c_notify_def Let_def)

lemma step_finish_done:
  assumes "overrideDecGuideMode c \<longrightarrow> TheScope ops (guider c) \<noteq> None"
  shows "\<exists>c'. step_finish ops c = Some (True, c') \<and> c_state c' = STATE_IDLE \<and>
    settle_dones c' = Suc (settle_dones c) \<and> succeeded c' = succeeded c \<and>
    settleFrameCount c' = settleFrameCount c"
proof -
  have n: "succeeded (do_notify d) = succeeded d" "settleFrameCount (do_notify d) = settleFrameCount d" for d
    by (simp_all add: do_notify_def c_notify_def Let_def)
  have sd: "settle_dones (c\<lparr>guider := g, overrideDecGuideMode := False\<rparr>) = settle_dones c"
    "settle_dones (d\<lparr>c_state := s\<rparr>) = settle_dones d" for g d s
    by (simp_all add: settle_dones_def)
  show ?thesis
    using assms
    by (cases "TheScope ops (guider c)") (auto simp: step_finish_def scope_SetDecGuideMode_def n sd)
qed

text \<open>What a settling turn can do; \<open>t0\<close> is the start of the streak of frames in range.\<close>

lemma settle_wait_turn:
  assumes "step_settle_wait ops ci c = (f, c')"
  shows "settleFrameCount c' = settleFrameCount c + 1 \<and> settle c' = settle c \<and>
    overrideDecGuideMode c' = overrideDecGuideMode c \<and> guider c' = guider c \<and>
    saveDecGuideMode c' = saveDecGuideMode c \<and> settle_dones c' = settle_dones c \<and>
    (\<not> f \<and> c_state c' = STATE_FINISH \<and>
       (succeeded c' \<longrightarrow> settleFrameCount c' \<ge> frames (settle c) \<or>
          in_range ops (settle c) (ci, guider c) \<and>
          (\<not> settlePriorFrameInRange c \<and> settleTimeSec (settle c) \<le> 0 \<or>
           settlePriorFrameInRange c \<and> c_quot (ci_millis ci - settleInRange c) 1000 \<ge> settleTimeSec (settle c))) \<or>
     f \<and> c_state c' = c_state c \<and> settleFrameCount c' < frames (settle c) \<and>
       settlePriorFrameInRange c' = in_range ops (settle c) (ci, guider c) \<and>
       (settlePriorFrameInRange c' \<longrightarrow>
          settleInRange c' = (if settlePriorFrameInRange c then settleInRange c else ci_millis ci)))"
proof -
  have sd: "settle_dones (c\<lparr>settleFrameCount := a, droppedFrameCount := b\<rparr>) = settle_dones c"
    "settle_dones (d\<lparr>succeeded := x, c_state := y\<rparr>) = settle_dones d"
    "settle_dones (d\<lparr>succeeded := x, errorMsg := e, c_state := y\<rparr>) = settle_dones d"
    "settle_dones (d\<lparr>settleInRange := z\<rparr>) = settle_dones d"
    "settle_dones ((c_notify (NotifySettling p q r t) d)\<lparr>settlePriorFrameInRange := u\<rparr>) = settle_dones d"
    for a b d x y e z p q r t u
    by (simp_all add: settle_dones_def c_notify_def)
  define c1 where "c1 = c\<lparr>settleFrameCount := settleFrameCount c + 1,
    droppedFrameCount := (if \<not> IsLocked (guider c) then droppedFrameCount c + 1 else droppedFrameCount c)\<rparr>"
  have c1: "settleFrameCount c1 = settleFrameCount c + 1" "settle c1 = settle c" "guider c1 = guider c"
    "overrideDecGuideMode c1 = overrideDecGuideMode c" "saveDecGuideMode c1 = saveDecGuideMode c"
    "settle_dones c1 = settle_dones c" "c_state c1 = c_state c"
    "settlePriorFrameInRange c1 = settlePriorFrameInRange c" "settleInRange c1 = settleInRange c"
    by (simp_all add: c1_def sd)
  have cont: "settleFrameCount d' = settleFrameCount d \<and> settle d' = settle d \<and> guider d' = guider d \<and>
      overrideDecGuideMode d' = overrideDecGuideMode d \<and> saveDecGuideMode d' = saveDecGuideMode d \<and>
      settle_dones d' = settle_dones d \<and>
      (\<not> f' \<and> c_state d' = STATE_FINISH \<and> \<not> succeeded d' \<or>
       f' \<and> c_state d' = c_state d \<and> settlePriorFrameInRange d' = r \<and> settleInRange d' = settleInRange d)"
    if "settle_continue ops ci r t d = (f', d')" for d d' r t f'
    using that by (auto simp: settle_continue_def do_fail_def sd c_notify_def split: if_splits)
      (simp_all add: settle_dones_def)
  have r: "in_range ops (settle c) (ci, guider c) \<longleftrightarrow>
      IsLocked (guider c) \<and> CurrentGuideError ops (ci_secs ci) (guider c) \<le> tolerancePx (settle c)"
    by (simp add: in_range_def)
  define R where "R = in_range ops (settle c) (ci, guider c)"
  have eq: "step_settle_wait ops ci c =
     (if settleFrameCount c1 \<ge> frames (settle c1) then settle_done c1
      else if R \<and> \<not> settlePriorFrameInRange c1
      then (if settleTimeSec (settle c1) \<le> 0 then settle_done c1
            else settle_continue ops ci R 0 (c1\<lparr>settleInRange := ci_millis ci\<rparr>))
      else if R
      then (if c_quot (ci_millis ci - settleInRange c1) 1000 \<ge> settleTimeSec (settle c1) \<and> \<not> IsAoBumpInProgress ops (guider c1)
            then settle_done c1 else settle_continue ops ci R (ci_millis ci - settleInRange c1) c1)
      else settle_continue ops ci R 0 c1)"
    by (simp add: step_settle_wait_def Let_def c1_def R_def r)
  have dn: "settleFrameCount d' = settleFrameCount c1 \<and> settle d' = settle c1 \<and> guider d' = guider c1 \<and>
      overrideDecGuideMode d' = overrideDecGuideMode c1 \<and> saveDecGuideMode d' = saveDecGuideMode c1 \<and>
      settle_dones d' = settle_dones c1 \<and> \<not> f' \<and> c_state d' = STATE_FINISH"
    if "settle_done c1 = (f', d')" for d' f'
    using that by (auto simp: settle_done_def sd)
  have i: "settle_dones (c1\<lparr>settleInRange := z\<rparr>) = settle_dones c1" for z by (simp add: settle_dones_def)
  show ?thesis
  proof (cases "settleFrameCount c1 \<ge> frames (settle c1)")
    case True
    with assms eq have "settle_done c1 = (f, c')" by simp
    from dn[OF this] True c1 show ?thesis by simp
  next
    case nf: False
    show ?thesis
    proof (cases R)
      case False
      with nf assms eq have "settle_continue ops ci R 0 c1 = (f, c')" by simp
      from cont[OF this] c1 nf False show ?thesis unfolding R_def[symmetric] by auto
    next
      case R: True
      show ?thesis
      proof (cases "settlePriorFrameInRange c")
        case True
        show ?thesis
        proof (cases "c_quot (ci_millis ci - settleInRange c1) 1000 \<ge> settleTimeSec (settle c1) \<and> \<not> IsAoBumpInProgress ops (guider c1)")
          case d: True
          with nf R True assms eq c1 have "settle_done c1 = (f, c')" by simp
          from dn[OF this] d True R c1 show ?thesis unfolding R_def[symmetric] by simp
        next
          case d: False
          with nf R True assms eq c1 have "settle_continue ops ci R (ci_millis ci - settleInRange c1) c1 = (f, c')"
            by auto
          from cont[OF this] c1 nf R True show ?thesis unfolding R_def[symmetric] by auto
        qed
      next
        case np: False
        show ?thesis
        proof (cases "settleTimeSec (settle c1) \<le> 0")
          case d: True
          with nf R np assms eq c1 have "settle_done c1 = (f, c')" by simp
          from dn[OF this] d np R c1 show ?thesis unfolding R_def[symmetric] by simp
        next
          case d: False
          with nf R np assms eq c1 have
            "settle_continue ops ci R 0 (c1\<lparr>settleInRange := ci_millis ci\<rparr>) = (f, c')" by simp
          from cont[OF this] c1 i nf R np show ?thesis unfolding R_def[symmetric] by auto
        qed
      qed
    qed
  qed
qed

lemma step_finish_total:
  assumes "overrideDecGuideMode c \<longrightarrow> TheScope ops (guider c) \<noteq> None"
  obtains c' where "step_finish ops c = Some (True, c')" "c_state c' = STATE_IDLE"
    "settle_dones c' = Suc (settle_dones c)" "succeeded c' = succeeded c"
  using step_finish_done[OF assms] by blast

text \<open>What a frame does to a controller that is settling.\<close>

lemma settle_frame:
  assumes st: "c_state c = STATE_SETTLE_WAIT"
    and sc: "overrideDecGuideMode c \<longrightarrow> TheScope ops (guider c) \<noteq> None"
  obtains (waits) c' where "UpdateControllerState ops ci c = Some c'" "c_state c' = STATE_SETTLE_WAIT"
      "settle c' = settle c" "settleFrameCount c' = settleFrameCount c + 1"
      "overrideDecGuideMode c' = overrideDecGuideMode c" "settle_dones c' = settle_dones c"
      "settleFrameCount c' < frames (settle c)"
      "settlePriorFrameInRange c' = in_range ops (settle c) (ci, guider c)"
      "settlePriorFrameInRange c' \<longrightarrow>
         settleInRange c' = (if settlePriorFrameInRange c then settleInRange c else ci_millis ci)"
  | (ends) c' where "UpdateControllerState ops ci c = Some c'" "c_state c' = STATE_IDLE"
      "settle_dones c' = Suc (settle_dones c)"
      "succeeded c' \<Longrightarrow> frames (settle c) \<le> settleFrameCount c + 1 \<or>
         in_range ops (settle c) (ci, guider c) \<and>
         (\<not> settlePriorFrameInRange c \<and> settleTimeSec (settle c) \<le> 0 \<or>
          settlePriorFrameInRange c \<and> settleTimeSec (settle c) \<le> c_quot (ci_millis ci - settleInRange c) 1000)"
proof -
  obtain f d where fd: "step_settle_wait ops ci c = (f, d)" by fastforce
  note t = settle_wait_turn[OF fd]
  have u: "UpdateControllerState ops ci c = (if f then Some d else UpdateControllerState ops ci d)"
    by (subst UpdateControllerState.simps) (simp add: ctl_step_def st fd)
  show thesis
  proof (cases f)
    case True
    with t u st show ?thesis by (intro waits[of d]) simp_all
  next
    case False
    with t have d: "c_state d = STATE_FINISH" "overrideDecGuideMode d = overrideDecGuideMode c"
      "guider d = guider c" "settle_dones d = settle_dones c" by simp_all
    with sc have "overrideDecGuideMode d \<longrightarrow> TheScope ops (guider d) \<noteq> None" by simp
    then obtain c' where c': "step_finish ops d = Some (True, c')" "c_state c' = STATE_IDLE"
      "settle_dones c' = Suc (settle_dones d)" "succeeded c' = succeeded d"
      by (rule step_finish_total)
    have "UpdateControllerState ops ci d = Some c'"
      by (subst UpdateControllerState.simps) (simp add: ctl_step_def d(1) c'(1))
    with u False have u': "UpdateControllerState ops ci c = Some c'" by simp
    show ?thesis
    proof (rule ends[OF u' c'(2)])
      show "settle_dones c' = Suc (settle_dones c)" using c' d by simp
    qed (use t False c' in auto)
  qed
qed

lemma idle_frame: "c_state c = STATE_IDLE \<Longrightarrow> UpdateControllerState ops ci c = Some c"
  by (subst UpdateControllerState.simps) (simp add: ctl_step_def)

lemma settle_dones_guider [simp]: "settle_dones (c\<lparr>guider := g\<rparr>) = settle_dones c"
  by (simp add: settle_dones_def)

lemma settle_run_idle:
  "c_state c = STATE_IDLE \<Longrightarrow> \<exists>c'. settle_run ops es c = Some c' \<and> c_state c' = STATE_IDLE \<and>
     settle_dones c' = settle_dones c \<and> succeeded c' = succeeded c"
proof (induction es arbitrary: c)
  case (Cons e es)
  obtain ci g where e: "e = (ci, g)" by fastforce
  have i: "c_state (c\<lparr>guider := g\<rparr>) = STATE_IDLE" using Cons.prems by simp
  show ?case using Cons.IH[OF i] by (simp add: e idle_frame[OF i])
qed simp

section \<open>Properties\<close>

text \<open>A controller on the mount of two flags, guiding, for the examples below.\<close>

definition flag_ctrl :: "(bool \<times> bool) CtrlMountOps" where
  "flag_ctrl = \<lparr>co_base = flag_mount, co_ClearCalibration = (\<lambda>m. (fst m, False)), co_IsStepGuider = (\<lambda>m. False),
     co_IsBumpInProgress = (\<lambda>m. False), co_GetBumpOnDither = (\<lambda>m. False), co_ForceStartBump = id,
     co_GetDecGuideMode = (\<lambda>m. DEC_AUTO), co_SetDecGuideMode = (\<lambda>md m. m)\<rparr>"

definition example_input :: "int \<Rightarrow> (bool \<times> bool) CtrlInput" where
  "example_input ms = \<lparr>ci_millis = ms, ci_secs = 2, ci_AutoSelect = (\<lambda>r g. (False, g)), ci_dither = (1, 0)\<rparr>"

definition guiding_flag :: "(bool \<times> bool) Guider" where
  "guiding_flag = (example_guider STATE_GUIDING (Some (True, True)) None)\<lparr>m_starFoundTimestamp := 1\<rparr>"

definition example_controller :: "State \<Rightarrow> (bool \<times> bool) Controller" where
  "example_controller st = \<lparr>c_state = st, forceCalibration = False, haveSaveSticky = False, saveSticky = False,
     autoFindAttemptsRemaining = 3, waitSelectedRemaining = 3, useStickyLock = False, settleOp = OP_DITHER,
     settle = \<lparr>tolerancePx = 2, settleTimeSec = 2, timeoutSec = 30, frames = 10\<rparr>, roi = (0, 0, 0, 0),
     settlePriorFrameInRange = False, settleTimeout = 0, settleInRange = 0, saveDecGuideMode = DEC_NONE,
     overrideDecGuideMode = False, settleFrameCount = 0, droppedFrameCount = 0, succeeded = False,
     errorMsg = [], guider = guiding_flag, cameraConnected = Some True, CaptureActive = True,
     autoExpEnabled = False, autoExpMax = 1000, exposureDuration = 1000, refineDefMapShown = False,
     ditherRaOnly = False, ditherScaleFactor = 1, c_log = []\<rparr>"

text \<open>C9: settling_ends_with_one_notification.  Once the controller is settling, after guiding has
  started or a dither, it does not wait for ever: when as many frames have arrived as the frame
  limit of the request still allows, the controller is idle again and has sent exactly one
  \<open>NotifySettleDone\<close>, whatever the star, the clock and the mount do in between.\<close>

theorem settling_ends_with_one_notification:
  fixes c :: "'m Controller"
  assumes "c_state c = STATE_SETTLE_WAIT" and "es \<noteq> []"
    and "frames (settle c) \<le> settleFrameCount c + int (length es)"
    and "overrideDecGuideMode c \<longrightarrow> (\<forall>e\<in>set es. TheScope ops (snd e) \<noteq> None)"
  shows "\<exists>c'. settle_run ops es c = Some c' \<and> c_state c' = STATE_IDLE \<and>
    settle_dones c' = Suc (settle_dones c)"
  using assms
proof (induction es arbitrary: c)
  case (Cons e es)
  obtain ci g where e: "e = (ci, g)" by fastforce
  define d where "d = c\<lparr>guider := g\<rparr>"
  have d: "c_state d = STATE_SETTLE_WAIT" "settle d = settle c" "settleFrameCount d = settleFrameCount c"
    "overrideDecGuideMode d = overrideDecGuideMode c" "settle_dones d = settle_dones c" "guider d = g"
    using Cons.prems(1) by (simp_all add: d_def)
  have sc: "overrideDecGuideMode d \<longrightarrow> TheScope ops (guider d) \<noteq> None"
    using Cons.prems(4) e d by simp
  show ?case
  proof (cases rule: settle_frame[OF d(1) sc, where ci = ci, case_names waits ends])
    case (waits c')
    have "es \<noteq> []" using waits(4,7) d Cons.prems(3) by auto
    moreover have "frames (settle c') \<le> settleFrameCount c' + int (length es)"
      using waits(3,4) d Cons.prems(3) by simp
    moreover have "overrideDecGuideMode c' \<longrightarrow> (\<forall>e\<in>set es. TheScope ops (snd e) \<noteq> None)"
      using waits(5) d Cons.prems(4) by simp
    ultimately show ?thesis
      using Cons.IH[OF waits(2)] waits(1,6) d e by (simp add: d_def)
  next
    case (ends c')
    obtain c'' where "settle_run ops es c' = Some c''" "c_state c'' = STATE_IDLE"
      "settle_dones c'' = settle_dones c'"
      using settle_run_idle[OF ends(2), of ops es] by blast
    then show ?thesis using ends(1,3) d e by (simp add: d_def)
  qed
qed simp

theorem settling_ends_with_one_notification_witness:
  "\<exists>c'. settle_run flag_ctrl (replicate 10 (example_input 0, guiding_flag)) (example_controller STATE_SETTLE_WAIT) = Some c' \<and>
     c_state c' = STATE_IDLE \<and> settle_dones c' = 1"
  using settling_ends_with_one_notification[of "example_controller STATE_SETTLE_WAIT"
      "replicate 10 (example_input 0, guiding_flag)" flag_ctrl]
  by (simp add: example_controller_def settle_dones_def)

text \<open>The last frames of \<open>pre\<close> are in range and the first of them came at time \<open>t0\<close>.\<close>

definition streak :: "'m CtrlMountOps \<Rightarrow> SettleParams \<Rightarrow> ('m CtrlInput \<times> 'm Guider) list \<Rightarrow> int \<Rightarrow> bool" where
  "streak ops st pre t0 \<longleftrightarrow>
     (\<exists>i < length pre. (\<forall>e\<in>set (drop i pre). in_range ops st e) \<and> ci_millis (fst (pre ! i)) = t0)"

lemma streak_snoc:
  "in_range ops st e \<Longrightarrow> streak ops st pre t0 \<Longrightarrow> streak ops st (pre @ [e]) t0"
  by (force simp: streak_def nth_append)

lemma streak_new: "in_range ops st (ci, g) \<Longrightarrow> streak ops st (pre @ [(ci, g)]) (ci_millis ci)"
  unfolding streak_def by (intro exI[of _ "length pre"]) simp

text \<open>The frames settled for the time asked: a stretch of frames in range, from the one at \<open>i\<close> to the
  one at \<open>j\<close>, spans the settling time.\<close>

definition settled_for :: "'m CtrlMountOps \<Rightarrow> SettleParams \<Rightarrow> ('m CtrlInput \<times> 'm Guider) list \<Rightarrow> bool" where
  "settled_for ops st es \<longleftrightarrow>
     (\<exists>i j. i \<le> j \<and> j < length es \<and> (\<forall>e\<in>set (drop i (take (Suc j) es)). in_range ops st e) \<and>
       (settleTimeSec st \<le> 0 \<or>
        settleTimeSec st \<le> c_quot (ci_millis (fst (es ! j)) - ci_millis (fst (es ! i))) 1000))"

lemma settled_for_append: "settled_for ops st es \<Longrightarrow> settled_for ops st (es @ es')"
  unfolding settled_for_def by (elim exE conjE, rule exI, rule exI) (auto simp: nth_append)

lemma streak_settled:
  assumes "streak ops st pre t0" "in_range ops st (ci, g)"
    "settleTimeSec st \<le> c_quot (ci_millis ci - t0) 1000"
  shows "settled_for ops st (pre @ [(ci, g)])"
proof -
  obtain i where i: "i < length pre" "\<forall>e\<in>set (drop i pre). in_range ops st e" "ci_millis (fst (pre ! i)) = t0"
    using assms(1) by (auto simp: streak_def)
  show ?thesis unfolding settled_for_def
    by (rule exI[of _ i], rule exI[of _ "length pre"]) (use i assms in \<open>auto simp: nth_append\<close>)
qed

lemma in_range_settled:
  "in_range ops st (ci, g) \<Longrightarrow> settleTimeSec st \<le> 0 \<Longrightarrow> settled_for ops st (pre @ [(ci, g)])"
  unfolding settled_for_def
  by (rule exI[of _ "length pre"], rule exI[of _ "length pre"]) simp

lemma settle_run_streak:
  assumes "c_state c = STATE_SETTLE_WAIT"
    and "settleFrameCount c + int (length es) < frames (settle c)"
    and "overrideDecGuideMode c \<longrightarrow> (\<forall>e\<in>set es. TheScope ops (snd e) \<noteq> None)"
    and "settlePriorFrameInRange c \<longrightarrow> streak ops (settle c) pre (settleInRange c)"
    and "settle_run ops es c = Some c'" and "c_state c' = STATE_IDLE" and "succeeded c'"
  shows "settled_for ops (settle c) (pre @ es)"
  using assms
proof (induction es arbitrary: c pre)
  case (Cons e es)
  obtain ci g where e: "e = (ci, g)" by fastforce
  define d where "d = c\<lparr>guider := g\<rparr>"
  have d: "c_state d = STATE_SETTLE_WAIT" "settle d = settle c" "settleFrameCount d = settleFrameCount c"
    "overrideDecGuideMode d = overrideDecGuideMode c" "guider d = g"
    "settlePriorFrameInRange d = settlePriorFrameInRange c" "settleInRange d = settleInRange c"
    using Cons.prems(1) by (simp_all add: d_def)
  have sc: "overrideDecGuideMode d \<longrightarrow> TheScope ops (guider d) \<noteq> None"
    using Cons.prems(3) e d by simp
  show ?case
  proof (cases rule: settle_frame[OF d(1) sc, where ci = ci, case_names waits ends])
    case (waits c1)
    have st: "settlePriorFrameInRange c1 \<longrightarrow> streak ops (settle c1) (pre @ [e]) (settleInRange c1)"
      using waits(3,8,9) d e Cons.prems(4) by (auto intro: streak_snoc streak_new)
    have "settled_for ops (settle c1) ((pre @ [e]) @ es)"
      by (rule Cons.IH[OF waits(2) _ _ st]) (use waits d e Cons.prems in \<open>auto simp: d_def\<close>)
    then show ?thesis using waits(3) d by simp
  next
    case (ends c1)
    obtain c2 where "settle_run ops es c1 = Some c2" "succeeded c2 = succeeded c1"
      using settle_run_idle[OF ends(2), of ops es] by blast
    with Cons.prems(5,7) ends(1) e have ok: "succeeded c1" by (simp add: d_def)
    have nf: "\<not> frames (settle d) \<le> settleFrameCount d + 1" using Cons.prems(2) d by simp
    have "settled_for ops (settle c) (pre @ [(ci, g)])"
      using ends(4)[OF ok] nf d Cons.prems(4) by (auto intro: in_range_settled streak_settled)
    from settled_for_append[OF this, of es] show ?thesis by (simp add: e)
  qed
qed simp

text \<open>C11: settle_success_is_earned.  Success is not reported by luck: when settling, started with no
  frame in range yet, ends in success before the frame limit is reached, there was an unbroken
  stretch of frames, the star locked and the error within the tolerance at every one of them,
  that lasted the settling time of the request (in whole seconds of the stop watch).\<close>

theorem settle_success_is_earned:
  fixes c :: "'m Controller"
  assumes "c_state c = STATE_SETTLE_WAIT" and "\<not> settlePriorFrameInRange c"
    and "settleFrameCount c + int (length es) < frames (settle c)"
    and "overrideDecGuideMode c \<longrightarrow> (\<forall>e\<in>set es. TheScope ops (snd e) \<noteq> None)"
    and "settle_run ops es c = Some c'" and "c_state c' = STATE_IDLE" and "succeeded c'"
  shows "\<exists>i j. i \<le> j \<and> j < length es \<and> (\<forall>e\<in>set (drop i (take (Suc j) es)). in_range ops (settle c) e) \<and>
    (settleTimeSec (settle c) \<le> 0 \<or>
     settleTimeSec (settle c) \<le> c_quot (ci_millis (fst (es ! j)) - ci_millis (fst (es ! i))) 1000)"
proof -
  have "settled_for ops (settle c) ([] @ es)"
    by (rule settle_run_streak[OF assms(1,3,4) _ assms(5,6,7)]) (simp add: assms(2))
  then show ?thesis by (simp add: settled_for_def)
qed

lemma settle_run_example:
  "\<exists>c'. settle_run flag_ctrl (map (\<lambda>t. (example_input t, guiding_flag)) [0, 1000, 2500])
       (example_controller STATE_SETTLE_WAIT) = Some c' \<and> c_state c' = STATE_IDLE \<and> succeeded c'"
  by (simp add: UpdateControllerState.simps ctl_step_def step_settle_wait_def settle_continue_def settle_done_def
      step_finish_def do_notify_def c_notify_def example_controller_def example_input_def guiding_flag_def
      example_guider_def IsLocked_def CurrentGuideError_def CurrentError_def CurrentError_of_def GuidingRAOnly_def
      TheScope_def scope_is_secondary_def flag_ctrl_def IsAoBumpInProgress_def c_quot_def Let_def)

theorem settle_success_is_earned_witness:
  "\<exists>i j. i \<le> j \<and> j < 3 \<and>
    (\<forall>e\<in>set (drop i (take (Suc j) (map (\<lambda>t. (example_input t, guiding_flag)) [0, 1000, 2500]))).
       in_range flag_ctrl (settle (example_controller STATE_SETTLE_WAIT)) e)"
proof -
  let ?es = "map (\<lambda>t. (example_input t, guiding_flag)) [0, 1000, 2500]"
  obtain c' where c': "settle_run flag_ctrl ?es (example_controller STATE_SETTLE_WAIT) = Some c'"
    "c_state c' = STATE_IDLE" "succeeded c'" using settle_run_example by blast
  obtain i j where "i \<le> j" "j < length ?es"
    "\<forall>e\<in>set (drop i (take (Suc j) ?es)). in_range flag_ctrl (settle (example_controller STATE_SETTLE_WAIT)) e"
    using settle_success_is_earned[OF _ _ _ _ c'] by (auto simp: example_controller_def simp del: list.map)
  then show ?thesis by (intro exI[of _ i] exI[of _ j]) simp
qed

text \<open>\<open>UpdateControllerState\<close> returns: no call takes more than seven
  turns of its loop, from any state and with any behaviour of the mount, the camera and the
  star finder.\<close>

theorem controller_step_terminates:
  "ctl_fuel 7 ops ci c = Some (UpdateControllerState ops ci c)"
  by (rule ctl_fuel_enough) (use turn_rank_le[of "c_state c"] in simp)

end
