(* ===== verification/Backlash_Comp.thy ===== *)
theory Backlash_Comp
  imports Mount_Calibration "HOL-Library.Monad_Syntax"
begin

unbundle bit_operations_syntax

text \<open>
  The compensation of declination backlash, \<open>src/backlash_comp.cpp\<close>: the history of compensation
  pulses with the deflections that follow them (\<open>BLCHistory\<close>), and the class \<open>BacklashComp\<close> that
  adds a pulse when the declination direction reverses and adjusts its size from the history.
  An access outside a vector is \<^term>\<open>None\<close>.  The maximum declination pulse of the telescope,
  which \<open>SetCompValues\<close> may raise, is passed in and out.  The clock \<open>now\<close> is in seconds.
\<close>

section \<open>Move options\<close>

definition MOVEOPT_ALGO_RESULT :: "32 word" where "MOVEOPT_ALGO_RESULT = push_bit 0 1"
definition MOVEOPT_ALGO_DEDUCE :: "32 word" where "MOVEOPT_ALGO_DEDUCE = push_bit 1 1"
definition MOVEOPT_USE_BLC :: "32 word" where "MOVEOPT_USE_BLC = push_bit 2 1"
definition MOVEOPT_GRAPH :: "32 word" where "MOVEOPT_GRAPH = push_bit 3 1"
definition MOVEOPT_MANUAL :: "32 word" where "MOVEOPT_MANUAL = push_bit 4 1"

definition opt_set :: "32 word \<Rightarrow> 32 word \<Rightarrow> bool" where "opt_set moveOptions opt \<longleftrightarrow> moveOptions AND opt \<noteq> 0"

section \<open>The history\<close>

definition MIN_COMP_AMOUNT :: int where "MIN_COMP_AMOUNT = 20"
definition MAX_COMP_AMOUNT :: int where "MAX_COMP_AMOUNT = 8000"
definition ENTRY_CAPACITY :: nat where "ENTRY_CAPACITY = 3"
definition HISTORY_DEPTH :: nat where "HISTORY_DEPTH = 10"

record CorrectionTuple =
  timeSeconds :: int
  miss :: real

record BLCEvent =
  corrections :: "CorrectionTuple list"
  initialOvershoot :: bool
  initialUndershoot :: bool
  stictionSeen :: bool

definition BLCEvent_new :: "int \<Rightarrow> real \<Rightarrow> BLCEvent" where
  "BLCEvent_new timeSecs amount = \<lparr>corrections = [\<lparr>timeSeconds = timeSecs, miss = amount\<rparr>],
     initialOvershoot = False, initialUndershoot = False, stictionSeen = False\<rparr>"

definition InfoCount :: "BLCEvent \<Rightarrow> nat" where "InfoCount ev = length (corrections ev)"

definition AddEventInfo :: "int \<Rightarrow> real \<Rightarrow> real \<Rightarrow> BLCEvent \<Rightarrow> BLCEvent" where
  "AddEventInfo timeSecs amount minMove ev =
     (if InfoCount ev < 3
      then let ev = ev\<lparr>corrections := corrections ev @ [\<lparr>timeSeconds = timeSecs, miss = amount\<rparr>]\<rparr>
           in if \<bar>amount\<bar> > minMove
              then (if InfoCount ev = 2
                    then (if amount > 0 then ev\<lparr>initialUndershoot := True\<rparr> else ev\<lparr>initialOvershoot := True\<rparr>)
                    else if InfoCount ev = 3
                    then ev\<lparr>stictionSeen := amount < 0 \<and> miss (corrections ev ! 1) > 0\<rparr>
                    else ev)
              else ev
      else ev)"

record BLCHistory =
  blcEvents :: "BLCEvent list"
  blcIndex :: int
  windowOpen :: bool
  timeBase :: int
  lastIncrease :: int

definition BLCHistory_new :: "int \<Rightarrow> BLCHistory" where
  "BLCHistory_new now = \<lparr>blcEvents = [], blcIndex = 0, windowOpen = False, timeBase = now, lastIncrease = 0\<rparr>"

definition CloseWindow :: "BLCHistory \<Rightarrow> BLCHistory" where
  "CloseWindow h = h\<lparr>windowOpen := False\<rparr>"

definition ClearHistory :: "BLCHistory \<Rightarrow> BLCHistory" where
  "ClearHistory h = CloseWindow (h\<lparr>blcEvents := []\<rparr>)"

definition RecordNewBLCPulse :: "int \<Rightarrow> real \<Rightarrow> BLCHistory \<Rightarrow> BLCHistory" where
  "RecordNewBLCPulse now triggerDeflection h =
     (let old = (if length (blcEvents h) \<ge> HISTORY_DEPTH then tl (blcEvents h) else blcEvents h);
          new = old @ [BLCEvent_new (now - timeBase h) triggerDeflection]
      in h\<lparr>blcEvents := new, blcIndex := int (length new) - 1, windowOpen := True\<rparr>)"

definition AddDeflection :: "int \<Rightarrow> real \<Rightarrow> real \<Rightarrow> BLCHistory \<Rightarrow> (bool \<times> BLCHistory) option" where
  "AddDeflection now amt minMove h =
     (if blcIndex h \<ge> 0
      then (if nat (blcIndex h) < length (blcEvents h)
            then let ev = blcEvents h ! nat (blcIndex h)
                 in Some (if InfoCount ev < ENTRY_CAPACITY
                          then (True, h\<lparr>blcEvents := (blcEvents h)[nat (blcIndex h) := AddEventInfo (now - timeBase h) amt minMove ev]\<rparr>)
                          else (False, CloseWindow h))
            else None)
      else Some (False, CloseWindow h))"

text \<open>One turn of the loops \<open>RemoveOldestOvershoots\<close> and \<open>RemoveOldestStictions\<close>: the first event
  with the property is removed, the newest event excepted.\<close>

fun erase_oldest :: "(BLCEvent \<Rightarrow> bool) \<Rightarrow> BLCEvent list \<Rightarrow> BLCEvent list option" where
  "erase_oldest P [] = None"
| "erase_oldest P [x] = None"
| "erase_oldest P (x # y # ys) = (if P x then Some (y # ys) else map_option ((#) x) (erase_oldest P (y # ys)))"

fun remove_oldest :: "(BLCEvent \<Rightarrow> bool) \<Rightarrow> nat \<Rightarrow> BLCHistory \<Rightarrow> BLCHistory" where
  "remove_oldest P 0 h = h"
| "remove_oldest P (Suc n) h =
     (case erase_oldest P (blcEvents h) of
        None \<Rightarrow> remove_oldest P n h
      | Some es \<Rightarrow> remove_oldest P n (h\<lparr>blcEvents := es, blcIndex := int (length es) - 1\<rparr>))"

definition RemoveOldestOvershoots :: "nat \<Rightarrow> BLCHistory \<Rightarrow> BLCHistory" where
  "RemoveOldestOvershoots howMany h = remove_oldest initialOvershoot howMany h"

definition RemoveOldestStictions :: "nat \<Rightarrow> BLCHistory \<Rightarrow> BLCHistory" where
  "RemoveOldestStictions howMany h = remove_oldest stictionSeen howMany h"

record RecentStats =
  shortCount :: nat
  longCount :: nat
  stictionCount :: nat
  avgInitialMiss :: real
  avgStictionAmount :: real

definition avg_or_0 :: "real list \<Rightarrow> real" where
  "avg_or_0 xs = (if length xs > 0 then sum_list xs / real (length xs) else 0)"

definition stats_events :: "nat \<Rightarrow> BLCHistory \<Rightarrow> BLCEvent list option" where
  "stats_events numEvents h =
     (let bottom = max 0 (blcIndex h - (int numEvents - 1))
      in if blcIndex h < int (length (blcEvents h))
         then Some (rev (drop (nat bottom) (take (nat (blcIndex h + 1)) (blcEvents h)))) else None)"

definition GetStats :: "nat \<Rightarrow> BLCHistory \<Rightarrow> RecentStats option" where
  "GetStats numEvents h =
     (case stats_events numEvents h of
        None \<Rightarrow> None
      | Some evts \<Rightarrow>
          let sticky = filter stictionSeen evts;
              followed = filter (\<lambda>e. InfoCount e > 1) evts
          in if \<forall>e\<in>set sticky. 2 < InfoCount e
             then Some \<lparr>shortCount = length (filter (\<lambda>e. \<not> initialOvershoot e) evts),
                        longCount = length (filter initialOvershoot evts),
                        stictionCount = length sticky,
                        avgInitialMiss = avg_or_0 (map (\<lambda>e. miss (corrections e ! 1)) followed),
                        avgStictionAmount = avg_or_0 (map (\<lambda>e. miss (corrections e ! 2)) sticky)\<rparr>
             else None)"

text \<open>
  \<open>AdjustmentNeeded\<close> returns whether to adjust and by how much.  \<open>bad\<close> is the value of an
  integer conversion out of range.
\<close>

definition undershoot_adjust :: "real \<Rightarrow> int \<Rightarrow> BLCEvent \<Rightarrow> RecentStats \<Rightarrow> BLCHistory \<Rightarrow> bool \<times> real \<times> BLCHistory" where
  "undershoot_adjust avgInitMiss corr currEvent stats h =
     (if avgInitMiss > 0
      then (if InfoCount currEvent = ENTRY_CAPACITY \<and> \<not> stictionCount stats > 2 \<and> \<not> longCount stats \<ge> 2
            then (True, of_int corr, h\<lparr>lastIncrease := corr\<rparr>)
            else (False, 0, h))
      else (False, 0, CloseWindow h))"

definition overshoot_adjust :: "int \<Rightarrow> real \<Rightarrow> real \<Rightarrow> int \<Rightarrow> BLCEvent \<Rightarrow> RecentStats \<Rightarrow> BLCHistory \<Rightarrow> bool \<times> real \<times> BLCHistory" where
  "overshoot_adjust bad rate avgInitMiss corr currEvent stats h =
     (if stictionSeen currEvent
      then (if stictionCount stats > 1
            then (True, - of_int (c_int_quot bad \<bar>avgStictionAmount stats\<bar> rate), RemoveOldestStictions 1 h)
            else (False, 0, h))
      else if longCount stats > shortCount stats \<and> blcIndex h \<ge> 4
      then (True, - of_int corr, RemoveOldestOvershoots 2 h)
      else if avgInitMiss \<le> - 0.1 then (True, - of_int corr, h)
      else (False, 0, CloseWindow h))"

definition AdjustmentNeeded :: "int \<Rightarrow> real \<Rightarrow> real \<Rightarrow> real \<Rightarrow> BLCHistory \<Rightarrow> (bool \<times> real \<times> BLCHistory) option" where
  "AdjustmentNeeded bad curMiss minMove rate h =
     (if blcIndex h \<ge> 0
      then do { stats \<leftarrow> GetStats HISTORY_DEPTH h;
                let currEvent = blcEvents h ! nat (blcIndex h);
                if InfoCount currEvent < 2 then None
                else let avgInitMiss = avgInitialMiss stats;
                         corr = c_int_quot bad \<bar>avgInitMiss\<bar> rate;
                         (adjust, correction, h1) =
                           (if \<bar>curMiss\<bar> \<ge> minMove
                            then (if curMiss > 0 then undershoot_adjust avgInitMiss corr currEvent stats h
                                  else overshoot_adjust bad rate avgInitMiss corr currEvent stats h)
                            else (False, 0, h))
                     in Some (adjust, correction, if adjust then CloseWindow h1 else h1) }
      else Some (False, 0, h))"

section \<open>The compensation\<close>

record BacklashComp =
  m_compActive :: bool
  m_lastDirection :: GUIDE_DIRECTION
  m_adjustmentFloor :: int
  m_adjustmentCeiling :: int
  m_pulseWidth :: int
  m_fixedSize :: bool
  m_pHistory :: BLCHistory

text \<open>
  The comparison of the floor with the unsigned constant \<open>MIN_COMP_AMOUNT\<close> converts the floor, so
  a negative floor counts as large.  The new maximum declination pulse comes with the result.
\<close>

definition SetCompValues :: "int \<Rightarrow> int \<Rightarrow> int \<Rightarrow> int \<Rightarrow> BacklashComp \<Rightarrow> int \<times> BacklashComp" where
  "SetCompValues requestedSize flr ceil maxDec b =
     (let pulse = wxClip requestedSize 0 MAX_COMP_AMOUNT;
          flr' = (if flr > pulse \<or> uint (word_of_int flr :: 32 word) < MIN_COMP_AMOUNT then MIN_COMP_AMOUNT else flr);
          ceil' = (if ceil < pulse then c_trunc (min (1.5 * real_of_int pulse) (real_of_int MAX_COMP_AMOUNT))
                   else min ceil MAX_COMP_AMOUNT)
      in (if pulse > maxDec \<and> m_compActive b then pulse else maxDec,
          b\<lparr>m_pulseWidth := pulse, m_adjustmentFloor := flr', m_adjustmentCeiling := ceil',
            m_fixedSize := \<bar>ceil' - flr'\<bar> < MIN_COMP_AMOUNT\<rparr>))"

definition BacklashComp_new :: "int \<Rightarrow> int \<Rightarrow> int \<Rightarrow> int \<Rightarrow> bool \<Rightarrow> int \<Rightarrow> int \<times> BacklashComp" where
  "BacklashComp_new now lastAmt lastFloor lastCeiling enabled maxDec =
     SetCompValues lastAmt lastFloor lastCeiling maxDec
       \<lparr>m_compActive = (if lastAmt > 0 then enabled else False), m_lastDirection = NONE, m_adjustmentFloor = 0,
        m_adjustmentCeiling = 0, m_pulseWidth = 0, m_fixedSize = False, m_pHistory = BLCHistory_new now\<rparr>"

definition SetBacklashPulseWidth :: "int \<Rightarrow> int \<Rightarrow> int \<Rightarrow> int \<Rightarrow> BacklashComp \<Rightarrow> int \<times> BacklashComp" where
  "SetBacklashPulseWidth ms flr ceil maxDec b =
     (if m_pulseWidth b \<noteq> ms \<or> m_adjustmentFloor b \<noteq> flr \<or> m_adjustmentCeiling b \<noteq> ceil
      then let (maxDec', b1) = SetCompValues ms flr ceil maxDec b
           in (maxDec', if \<bar>m_pulseWidth b1 - m_pulseWidth b\<bar> > 100
                        then b1\<lparr>m_pHistory := CloseWindow (ClearHistory (m_pHistory b1))\<rparr> else b1)
      else (maxDec, b))"

definition ResetBLCState :: "BacklashComp \<Rightarrow> BacklashComp" where
  "ResetBLCState b =
     (if m_compActive b then b\<lparr>m_lastDirection := NONE, m_pHistory := CloseWindow (m_pHistory b)\<rparr> else b)"

definition EnableBacklashComp :: "bool \<Rightarrow> BacklashComp \<Rightarrow> BacklashComp" where
  "EnableBacklashComp enable b =
     (if m_compActive b \<noteq> enable \<and> enable then ResetBLCState b else b)\<lparr>m_compActive := enable\<rparr>"

text \<open>The size of the pulse after an adjustment.\<close>

definition adjusted_pulse :: "real \<Rightarrow> BacklashComp \<Rightarrow> int" where
  "adjusted_pulse adjustment b =
     (let pw = real_of_int (m_pulseWidth b);
          nominalBLC = pw + adjustment
      in if nominalBLC > pw
         then (let newBLC = ROUND (min (pw * 1.1) nominalBLC)
               in if newBLC > m_adjustmentCeiling b then m_adjustmentCeiling b else newBLC)
         else (let newBLC = ROUND (max (0.8 * pw) nominalBLC)
               in if newBLC < m_adjustmentFloor b then m_adjustmentFloor b else newBLC))"

record TrackInput =
  ti_now :: int
  ti_GetMinMove :: real
  ti_yRate :: real
  ti_bad :: int

definition TrackBLCResults :: "TrackInput \<Rightarrow> 32 word \<Rightarrow> real \<Rightarrow> int \<Rightarrow> BacklashComp \<Rightarrow> (int \<times> BacklashComp) option" where
  "TrackBLCResults ti moveOptions yRawOffset maxDec b =
     (if \<not> m_compActive b then Some (maxDec, b)
      else if \<not> opt_set moveOptions MOVEOPT_USE_BLC then Some (maxDec, ResetBLCState b)
      else if \<not> opt_set moveOptions MOVEOPT_ALGO_RESULT
      then Some (maxDec, b\<lparr>m_pHistory := CloseWindow (m_pHistory b)\<rparr>)
      else if \<not> windowOpen (m_pHistory b) \<or> m_fixedSize b then Some (maxDec, b)
      else let dir = (if yRawOffset > 0 then DOWN else UP);
               curMiss = (if dir = m_lastDirection b then \<bar>yRawOffset\<bar> else - \<bar>yRawOffset\<bar>);
               minMove = max (ti_GetMinMove ti) 0
           in do { (added, h1) \<leftarrow> AddDeflection (ti_now ti) curMiss minMove (m_pHistory b);
                   (adjust, adjustment, h2) \<leftarrow> AdjustmentNeeded (ti_bad ti) curMiss minMove (ti_yRate ti) h1;
                   let b2 = b\<lparr>m_pHistory := h2\<rparr>;
                   Some (if adjust
                         then SetCompValues (adjusted_pulse adjustment b2) (m_adjustmentFloor b2)
                                (m_adjustmentCeiling b2) maxDec b2
                         else (maxDec, b2)) })"

definition ApplyBacklashComp :: "int \<Rightarrow> 32 word \<Rightarrow> real \<Rightarrow> int \<Rightarrow> BacklashComp \<Rightarrow> int \<times> BacklashComp" where
  "ApplyBacklashComp now moveOptions yGuideDistance yAmount b =
     (if \<not> opt_set moveOptions MOVEOPT_USE_BLC then (yAmount, b)
      else if \<not> m_compActive b \<or> m_pulseWidth b \<le> 0 \<or> yGuideDistance = 0 then (yAmount, b)
      else let dir = (if yGuideDistance > 0 then DOWN else UP)
           in if m_lastDirection b \<noteq> NONE \<and> dir \<noteq> m_lastDirection b
              then (yAmount + m_pulseWidth b,
                    b\<lparr>m_pHistory := (if opt_set moveOptions MOVEOPT_ALGO_RESULT
                                      then RecordNewBLCPulse now yGuideDistance (m_pHistory b)
                                      else CloseWindow (m_pHistory b)),
                      m_lastDirection := dir\<rparr>)
              else (yAmount, b\<lparr>m_lastDirection := dir\<rparr>))"

section \<open>The history stays in range\<close>

definition event_ok :: "BLCEvent \<Rightarrow> bool" where
  "event_ok ev \<longleftrightarrow> 1 \<le> InfoCount ev \<and> InfoCount ev \<le> 3 \<and> (stictionSeen ev \<longrightarrow> InfoCount ev = 3) \<and>
     (initialOvershoot ev \<or> initialUndershoot ev \<longrightarrow> 2 \<le> InfoCount ev)"

definition at_newest :: "BLCHistory \<Rightarrow> bool" where
  "at_newest h \<longleftrightarrow> blcEvents h \<noteq> [] \<and> blcIndex h = int (length (blcEvents h)) - 1"

definition hist_ok :: "BLCHistory \<Rightarrow> bool" where
  "hist_ok h \<longleftrightarrow> (\<forall>ev\<in>set (blcEvents h). event_ok ev) \<and> length (blcEvents h) \<le> HISTORY_DEPTH \<and>
     (windowOpen h \<longrightarrow> at_newest h)"

lemma event_ok_new [preserves]: "event_ok (BLCEvent_new t a)"
  by (simp add: event_ok_def BLCEvent_new_def InfoCount_def)

lemma AddEventInfo_ok [preserves]: "event_ok ev \<Longrightarrow> event_ok (AddEventInfo t a mm ev)"
  by (auto simp: event_ok_def AddEventInfo_def InfoCount_def Let_def)

lemma AddEventInfo_count: "event_ok ev \<Longrightarrow> 2 \<le> InfoCount (AddEventInfo t a mm ev)"
  by (auto simp: event_ok_def AddEventInfo_def InfoCount_def Let_def)

lemma CloseWindow_simps [simp]:
  "blcEvents (CloseWindow h) = blcEvents h" "blcIndex (CloseWindow h) = blcIndex h" "\<not> windowOpen (CloseWindow h)"
  by (simp_all add: CloseWindow_def)

lemma CloseWindow_ok [preserves]: "hist_ok h \<Longrightarrow> hist_ok (CloseWindow h)"
  by (simp add: hist_ok_def)

lemma ClearHistory_ok [preserves]: "hist_ok (ClearHistory h)"
  by (simp add: hist_ok_def ClearHistory_def)

lemma Record_ok [preserves]: "hist_ok h \<Longrightarrow> hist_ok (RecordNewBLCPulse t a h)"
  by (cases "blcEvents h") (auto simp: hist_ok_def at_newest_def RecordNewBLCPulse_def Let_def HISTORY_DEPTH_def event_ok_new)

lemma AddDeflection_ok:
  assumes "hist_ok h" and "windowOpen h"
  obtains added h1 where "AddDeflection t a mm h = Some (added, h1)" "hist_ok h1" "at_newest h1"
    "2 \<le> InfoCount (blcEvents h1 ! nat (blcIndex h1))"
proof -
  let ?i = "nat (blcIndex h)"
  have n: "at_newest h" using assms by (simp add: hist_ok_def)
  then have i: "?i < length (blcEvents h)" "blcIndex h \<ge> 0"
    by (cases "blcEvents h"; simp add: at_newest_def nat_less_iff)+
  then have ev: "event_ok (blcEvents h ! ?i)" using assms(1) by (simp add: hist_ok_def)
  show thesis
  proof (cases "InfoCount (blcEvents h ! ?i) < ENTRY_CAPACITY")
    case True
    show ?thesis
    proof (rule that)
      show "AddDeflection t a mm h = Some (True, h\<lparr>blcEvents := (blcEvents h)[?i :=
          AddEventInfo (t - timeBase h) a mm (blcEvents h ! ?i)]\<rparr>)"
        using i True by (simp add: AddDeflection_def)
    qed (use assms n i ev in \<open>auto simp: hist_ok_def at_newest_def AddEventInfo_count AddEventInfo_ok
          dest!: set_update_subset_insert[THEN subsetD]\<close>)
  next
    case False
    show ?thesis
    proof (rule that)
      show "AddDeflection t a mm h = Some (False, CloseWindow h)" using i False by (simp add: AddDeflection_def)
    qed (use assms n False in \<open>auto simp: at_newest_def ENTRY_CAPACITY_def intro: CloseWindow_ok\<close>)
  qed
qed

lemma erase_oldest_sub:
  "erase_oldest P xs = Some ys \<Longrightarrow> set ys \<subseteq> set xs \<and> length ys \<le> length xs \<and> ys \<noteq> []"
  by (induction P xs arbitrary: ys rule: erase_oldest.induct) (auto split: if_splits)

lemma remove_oldest_ok:
  "(\<forall>ev\<in>set (blcEvents h). event_ok ev) \<Longrightarrow> length (blcEvents h) \<le> HISTORY_DEPTH \<Longrightarrow> at_newest h \<Longrightarrow>
     hist_ok (remove_oldest P n h)"
proof (induction P n h rule: remove_oldest.induct)
  case (2 P n h)
  show ?case
  proof (cases "erase_oldest P (blcEvents h)")
    case None
    then show ?thesis using 2 by simp
  next
    case (Some es)
    note e = erase_oldest_sub[OF Some]
    have "hist_ok (remove_oldest P n (h\<lparr>blcEvents := es, blcIndex := int (length es) - 1\<rparr>))"
      using Some e 2(3-5) by (intro 2(2)) (auto simp: at_newest_def)
    then show ?thesis using Some by simp
  qed
qed (simp add: hist_ok_def)

lemma hist_ok_remove [preserves]: "hist_ok h \<Longrightarrow> at_newest h \<Longrightarrow> hist_ok (remove_oldest P n h)"
  by (rule remove_oldest_ok) (simp_all add: hist_ok_def)

lemma GetStats_total:
  assumes "hist_ok h" and "at_newest h"
  shows "\<exists>stats. GetStats n h = Some stats"
proof -
  obtain evts where e: "stats_events n h = Some evts" and sub: "set evts \<subseteq> set (blcEvents h)"
    using assms(2) by (auto simp: stats_events_def Let_def at_newest_def dest!: in_set_dropD in_set_takeD)
  have "\<forall>e\<in>set (filter stictionSeen evts). 2 < InfoCount e"
    using sub assms(1) by (auto simp: hist_ok_def event_ok_def subset_iff)
  then show ?thesis using e by (simp add: GetStats_def Let_def)
qed

lemma hist_ok_lastIncrease: "hist_ok h \<Longrightarrow> hist_ok (h\<lparr>lastIncrease := c\<rparr>)"
  by (simp add: hist_ok_def at_newest_def)

lemma undershoot_adjust_ok:
  "hist_ok h \<Longrightarrow> undershoot_adjust a c ev st h = (adj, x, h') \<Longrightarrow> hist_ok h'"
  by (auto simp: undershoot_adjust_def CloseWindow_ok hist_ok_lastIncrease split: if_splits)

lemma overshoot_adjust_ok:
  "hist_ok h \<Longrightarrow> at_newest h \<Longrightarrow> overshoot_adjust bad r a c ev st h = (adj, x, h') \<Longrightarrow> hist_ok h'"
  by (auto simp: overshoot_adjust_def RemoveOldestOvershoots_def RemoveOldestStictions_def CloseWindow_ok
      simp del: remove_oldest.simps split: if_splits intro: hist_ok_remove)

lemma AdjustmentNeeded_ok:
  assumes "hist_ok h" and "at_newest h" and "2 \<le> InfoCount (blcEvents h ! nat (blcIndex h))"
  obtains adj x h' where "AdjustmentNeeded bad m mm r h = Some (adj, x, h')" "hist_ok h'"
proof -
  obtain stats where st: "GetStats HISTORY_DEPTH h = Some stats" using GetStats_total[OF assms(1,2)] by blast
  have i: "blcIndex h \<ge> 0" using assms(2) by (auto simp: at_newest_def Suc_le_eq)
  let ?ev = "blcEvents h ! nat (blcIndex h)" and ?a = "avgInitialMiss stats"
  let ?c = "c_int_quot bad \<bar>?a\<bar> r"
  obtain adj x h1 where h1: "(if \<bar>m\<bar> \<ge> mm then (if m > 0 then undershoot_adjust ?a ?c ?ev stats h
      else overshoot_adjust bad r ?a ?c ?ev stats h) else (False, 0, h)) = (adj, x, h1)"
    by (rule prod_cases3)
  have ok: "hist_ok h1"
  proof -
    note u = undershoot_adjust_ok[OF assms(1)] and o = overshoot_adjust_ok[OF assms(1,2)]
    consider "\<bar>m\<bar> < mm" | "\<not> \<bar>m\<bar> < mm" "m > 0" | "\<not> \<bar>m\<bar> < mm" "\<not> m > 0" by linarith
    then show ?thesis
    proof cases
      case 1
      with h1 assms(1) show ?thesis by simp
    next
      case 2
      with h1 show ?thesis by (intro u) simp
    next
      case 3
      with h1 show ?thesis by (intro o) simp
    qed
  qed
  show thesis
  proof (rule that)
    show "AdjustmentNeeded bad m mm r h = Some (adj, x, if adj then CloseWindow h1 else h1)"
      using st i assms(3) h1 by (simp add: AdjustmentNeeded_def Let_def)
    show "hist_ok (if adj then CloseWindow h1 else h1)" using ok by (simp add: CloseWindow_ok)
  qed
qed

section \<open>The limits of the pulse\<close>

definition blc_ok :: "BacklashComp \<Rightarrow> bool" where
  "blc_ok b \<longleftrightarrow> hist_ok (m_pHistory b) \<and> 0 \<le> m_pulseWidth b \<and> m_pulseWidth b \<le> m_adjustmentCeiling b \<and>
     m_adjustmentCeiling b \<le> MAX_COMP_AMOUNT \<and> m_adjustmentFloor b \<le> max (m_pulseWidth b) MIN_COMP_AMOUNT"

lemma ceiling_ok:
  assumes "0 \<le> p" and "p \<le> (8000 :: int)"
  shows "p \<le> c_trunc (min (1.5 * real_of_int p) 8000)" and "c_trunc (min (1.5 * real_of_int p) 8000) \<le> 8000"
proof -
  have "0 \<le> min (1.5 * real_of_int p) 8000" "real_of_int p \<le> min (1.5 * real_of_int p) 8000"
    using assms by auto
  then show "p \<le> c_trunc (min (1.5 * real_of_int p) 8000)" "c_trunc (min (1.5 * real_of_int p) 8000) \<le> 8000"
    by (simp_all add: c_trunc_def le_floor_iff floor_le_iff)
qed

lemma SetCompValues_ok:
  assumes "hist_ok (m_pHistory b)" and "SetCompValues r f c md b = (md', b')"
  shows "blc_ok b'" and "m_pHistory b' = m_pHistory b" and "m_compActive b' = m_compActive b"
    and "m_lastDirection b' = m_lastDirection b"
proof -
  define p where "p = wxClip r 0 MAX_COMP_AMOUNT"
  have p: "0 \<le> p" "p \<le> 8000" using wxClip_range[of 0 MAX_COMP_AMOUNT r] by (simp_all add: p_def MAX_COMP_AMOUNT_def)
  have b': "b' = b\<lparr>m_pulseWidth := p,
      m_adjustmentFloor := (if f > p \<or> uint (word_of_int f :: 32 word) < MIN_COMP_AMOUNT then MIN_COMP_AMOUNT else f),
      m_adjustmentCeiling := (if c < p then c_trunc (min (1.5 * real_of_int p) (real_of_int MAX_COMP_AMOUNT)) else min c MAX_COMP_AMOUNT),
      m_fixedSize := m_fixedSize b'\<rparr>"
    using assms(2) unfolding SetCompValues_def Let_def p_def[symmetric] by auto
  show "blc_ok b'"
    using assms(1) p ceiling_ok[OF p] by (subst b') (auto simp: blc_ok_def MAX_COMP_AMOUNT_def MIN_COMP_AMOUNT_def)
  show "m_pHistory b' = m_pHistory b" "m_compActive b' = m_compActive b" "m_lastDirection b' = m_lastDirection b"
    by (subst b', simp)+
qed

lemma negative_floor_kept:
  assumes "- (2 ^ 31) \<le> f" and "f < 0" and "SetCompValues r f c md b = (md', b')"
  shows "m_adjustmentFloor b' = f"
proof -
  have "uint (word_of_int f :: 32 word) = f + 2 ^ 32"
  proof -
    have "f mod 2 ^ 32 = (f + 2 ^ 32) mod 2 ^ 32" by simp
    also have "\<dots> = f + 2 ^ 32" using assms(1,2) by (intro mod_pos_pos_trivial) simp_all
    finally show ?thesis by (simp add: uint_word_of_int)
  qed
  moreover have "\<not> f > wxClip r 0 MAX_COMP_AMOUNT"
    using wxClip_range[of 0 MAX_COMP_AMOUNT r] assms(2) by (simp add: MAX_COMP_AMOUNT_def)
  ultimately show ?thesis using assms by (auto simp: SetCompValues_def Let_def MIN_COMP_AMOUNT_def)
qed

lemma Track_ok:
  assumes "blc_ok b"
  shows "\<exists>md' b'. TrackBLCResults ti opts y md b = Some (md', b') \<and> blc_ok b'"
proof (cases "m_compActive b \<and> opt_set opts MOVEOPT_USE_BLC \<and> opt_set opts MOVEOPT_ALGO_RESULT \<and>
    windowOpen (m_pHistory b) \<and> \<not> m_fixedSize b")
  case False
  then show ?thesis
    using assms by (auto simp: TrackBLCResults_def ResetBLCState_def blc_ok_def CloseWindow_ok)
next
  case True
  define m where "m = (if (if y > 0 then DOWN else UP) = m_lastDirection b then \<bar>y\<bar> else - \<bar>y\<bar>)"
  define mm where "mm = max (ti_GetMinMove ti) 0"
  obtain added h1 where h1: "AddDeflection (ti_now ti) m mm (m_pHistory b) = Some (added, h1)" "hist_ok h1"
    "at_newest h1" "2 \<le> InfoCount (blcEvents h1 ! nat (blcIndex h1))"
    using AddDeflection_ok[of "m_pHistory b" "ti_now ti" m mm] assms True unfolding blc_ok_def by blast
  obtain adj x h2 where h2: "AdjustmentNeeded (ti_bad ti) m mm (ti_yRate ti) h1 = Some (adj, x, h2)" "hist_ok h2"
    using AdjustmentNeeded_ok[OF h1(2-4)] by blast
  let ?b = "b\<lparr>m_pHistory := h2\<rparr>"
  have "TrackBLCResults ti opts y md b =
      Some (if adj then SetCompValues (adjusted_pulse x ?b) (m_adjustmentFloor ?b) (m_adjustmentCeiling ?b) md ?b
            else (md, ?b))"
    using True h1(1) h2(1) by (simp add: TrackBLCResults_def Let_def m_def[symmetric] mm_def[symmetric])
  moreover have "blc_ok ?b" using assms h2(2) by (simp add: blc_ok_def)
  moreover obtain md' b' where
    "SetCompValues (adjusted_pulse x ?b) (m_adjustmentFloor ?b) (m_adjustmentCeiling ?b) md ?b = (md', b')"
    by fastforce
  moreover have "blc_ok b'" using SetCompValues_ok(1)[OF _ calculation(3)] h2(2) by simp
  ultimately show ?thesis by (cases adj) auto
qed

section \<open>Runs\<close>

text \<open>The operations other components call, on the compensation and the maximum declination pulse.\<close>

datatype BlcOp =
  OpSetPulse int int int
| OpEnable bool
| OpReset
| OpTrack TrackInput "32 word" real
| OpApply int "32 word" real int

fun blc_step :: "int \<times> BacklashComp \<Rightarrow> BlcOp \<Rightarrow> (int \<times> BacklashComp) option" where
  "blc_step (md, b) (OpSetPulse ms flr ceil) = Some (SetBacklashPulseWidth ms flr ceil md b)"
| "blc_step (md, b) (OpEnable e) = Some (md, EnableBacklashComp e b)"
| "blc_step (md, b) OpReset = Some (md, ResetBLCState b)"
| "blc_step (md, b) (OpTrack ti opts y) = TrackBLCResults ti opts y md b"
| "blc_step (md, b) (OpApply now opts y amount) = Some (md, snd (ApplyBacklashComp now opts y amount b))"

lemma SetPulse_ok: "blc_ok b \<Longrightarrow> blc_ok (snd (SetBacklashPulseWidth ms f c md b))"
proof -
  assume ok: "blc_ok b"
  obtain md' b' where s: "SetCompValues ms f c md b = (md', b')" by fastforce
  have "blc_ok b'" using SetCompValues_ok(1)[OF _ s] ok by (simp add: blc_ok_def)
  then have "blc_ok (if \<bar>m_pulseWidth b' - m_pulseWidth b\<bar> > 100
      then b'\<lparr>m_pHistory := CloseWindow (ClearHistory (m_pHistory b'))\<rparr> else b')"
    by (auto simp: blc_ok_def CloseWindow_ok ClearHistory_ok)
  with ok show ?thesis by (simp add: SetBacklashPulseWidth_def s)
qed

lemma Apply_ok: "blc_ok b \<Longrightarrow> blc_ok (snd (ApplyBacklashComp now opts y a b))"
  by (auto simp: ApplyBacklashComp_def Let_def blc_ok_def Record_ok CloseWindow_ok)

lemma Reset_ok: "blc_ok b \<Longrightarrow> blc_ok (ResetBLCState b)"
  by (auto simp: ResetBLCState_def blc_ok_def CloseWindow_ok)

lemma Enable_ok: "blc_ok b \<Longrightarrow> blc_ok (EnableBacklashComp e b)"
  using Reset_ok[of b] by (auto simp: EnableBacklashComp_def blc_ok_def)

interpretation blc: partial_machine blc_step "\<lambda>s. blc_ok (snd s)"
proof (unfold_locales, goal_cases)
  case (1 s e)
  then show ?case
    by (cases "(s, e)" rule: blc_step.cases) (auto simp: SetPulse_ok Apply_ok Reset_ok Enable_ok intro: Track_ok)
qed

lemma BacklashComp_new_ok: "blc_ok (snd (BacklashComp_new now amt f c en md))"
proof -
  obtain md' b' where s: "BacklashComp_new now amt f c en md = (md', b')" by fastforce
  have "blc_ok b'"
    by (rule SetCompValues_ok(1)[OF _ s[unfolded BacklashComp_new_def]]) (simp add: hist_ok_def BLCHistory_new_def)
  with s show ?thesis by simp
qed

section \<open>Properties\<close>

text \<open>C38: backlash_pulse_stays_in_limits.  Whatever sequence of settings, resets, guide offsets and
  moves the compensation sees, from any stored settings: it never reads outside its history, the
  pulse stays between zero and the ceiling, the ceiling within 8000 ms, and the history keeps at
  most ten events of at most three deflections.\<close>

theorem backlash_pulse_stays_in_limits:
  "\<exists>md' b'. run_partial blc_step (BacklashComp_new now amt f c en md) ops = Some (md', b') \<and>
     0 \<le> m_pulseWidth b' \<and> m_pulseWidth b' \<le> m_adjustmentCeiling b' \<and> m_adjustmentCeiling b' \<le> 8000 \<and>
     length (blcEvents (m_pHistory b')) \<le> 10 \<and> (\<forall>ev\<in>set (blcEvents (m_pHistory b')). length (corrections ev) \<le> 3)"
proof -
  obtain s' where s': "run_partial blc_step (BacklashComp_new now amt f c en md) ops = Some s'" "blc_ok (snd s')"
    using blc.run_ok[of "BacklashComp_new now amt f c en md" ops] BacklashComp_new_ok by blast
  then show ?thesis
    by (intro exI[of _ "fst s'"] exI[of _ "snd s'"])
       (auto simp: blc_ok_def hist_ok_def event_ok_def InfoCount_def MAX_COMP_AMOUNT_def HISTORY_DEPTH_def)
qed

theorem backlash_pulse_stays_in_limits_witness:
  "\<exists>md' b'. run_partial blc_step (BacklashComp_new 0 9000 0 0 True 2500)
       [OpApply 1 1 1 100, OpApply 2 5 (- 1) 100, OpTrack \<lparr>ti_now = 3, ti_GetMinMove = 0, ti_yRate = 1, ti_bad = 0\<rparr> 5 2] =
     Some (md', b') \<and> m_pulseWidth b' \<le> 8000"
proof -
  obtain md' b' where "run_partial blc_step (BacklashComp_new 0 9000 0 0 True 2500)
       [OpApply 1 1 1 100, OpApply 2 5 (- 1) 100, OpTrack \<lparr>ti_now = 3, ti_GetMinMove = 0, ti_yRate = 1, ti_bad = 0\<rparr> 5 2] =
     Some (md', b')" "m_pulseWidth b' \<le> m_adjustmentCeiling b'" "m_adjustmentCeiling b' \<le> 8000"
    using backlash_pulse_stays_in_limits[of 0 9000 0 0 True 2500
        "[OpApply 1 1 1 100, OpApply 2 5 (- 1) 100, OpTrack \<lparr>ti_now = 3, ti_GetMinMove = 0, ti_yRate = 1, ti_bad = 0\<rparr> 5 2]"]
    by blast
  then show ?thesis by (intro exI[of _ md'] exI[of _ b']) simp
qed

lemma adjusted_pulse_bounds:
  assumes "0 \<le> m_pulseWidth b" and "m_pulseWidth b \<le> m_adjustmentCeiling b" and "m_adjustmentFloor b \<le> m_pulseWidth b"
  shows "m_adjustmentFloor b \<le> adjusted_pulse x b" and "adjusted_pulse x b \<le> m_adjustmentCeiling b"
    and "ROUND (0.8 * real_of_int (m_pulseWidth b)) \<le> adjusted_pulse x b"
    and "adjusted_pulse x b \<le> ROUND (1.1 * real_of_int (m_pulseWidth b))"
proof -
  let ?pw = "real_of_int (m_pulseWidth b)"
  have up: "m_pulseWidth b \<le> ROUND (min (?pw * 1.1) (?pw + x))" if "x > 0"
    using ROUND_mono[of ?pw "min (?pw * 1.1) (?pw + x)"] that assms(1) by simp
  have up': "ROUND (min (?pw * 1.1) (?pw + x)) \<le> ROUND (1.1 * ?pw)"
    by (rule ROUND_mono) (rule min.coboundedI1, simp)
  have dn: "ROUND (max (0.8 * ?pw) (?pw + x)) \<le> m_pulseWidth b" if "\<not> x > 0"
    using ROUND_mono[of "max (0.8 * ?pw) (?pw + x)" ?pw] that assms(1) by simp
  have dn': "ROUND (0.8 * ?pw) \<le> ROUND (max (0.8 * ?pw) (?pw + x))" by (rule ROUND_mono) simp
  have lo: "ROUND (0.8 * ?pw) \<le> m_pulseWidth b" "m_pulseWidth b \<le> ROUND (1.1 * ?pw)"
    using ROUND_mono[of "0.8 * ?pw" ?pw] ROUND_mono[of ?pw "1.1 * ?pw"] assms(1) by simp_all
  show "m_adjustmentFloor b \<le> adjusted_pulse x b" "adjusted_pulse x b \<le> m_adjustmentCeiling b"
    "ROUND (0.8 * ?pw) \<le> adjusted_pulse x b" "adjusted_pulse x b \<le> ROUND (1.1 * ?pw)"
    using up up' dn dn' lo assms by (auto simp: adjusted_pulse_def Let_def)
qed

lemma SetCompValues_adjusted:
  assumes "20 \<le> m_adjustmentFloor b" "m_adjustmentFloor b \<le> p" "p \<le> m_adjustmentCeiling b"
    "m_adjustmentCeiling b \<le> 8000" "SetCompValues p (m_adjustmentFloor b) (m_adjustmentCeiling b) md b = (md', b')"
  shows "m_pulseWidth b' = p \<and> m_adjustmentFloor b' = m_adjustmentFloor b \<and> m_adjustmentCeiling b' = m_adjustmentCeiling b"
proof -
  have "wxClip p 0 MAX_COMP_AMOUNT = p" using assms by (intro wxClip_id) (auto simp: MAX_COMP_AMOUNT_def)
  moreover have "uint (word_of_int (m_adjustmentFloor b) :: 32 word) = m_adjustmentFloor b"
    using assms(1-4) by (simp add: uint_word_of_int)
  ultimately show ?thesis using assms by (auto simp: SetCompValues_def Let_def MAX_COMP_AMOUNT_def MIN_COMP_AMOUNT_def)
qed

text \<open>A guide offset never changes the pulse by more than ten
  percent upwards or twenty percent downwards (rounded to milliseconds), and the new pulse stays
  between the configured floor and ceiling, which it leaves alone.\<close>

theorem backlash_adjustment_is_gradual:
  assumes "blc_ok b" and "20 \<le> m_adjustmentFloor b" and "m_adjustmentFloor b \<le> m_pulseWidth b"
    and "TrackBLCResults ti opts y md b = Some (md', b')"
  shows "m_adjustmentFloor b' = m_adjustmentFloor b \<and> m_adjustmentCeiling b' = m_adjustmentCeiling b \<and>
    m_adjustmentFloor b \<le> m_pulseWidth b' \<and> m_pulseWidth b' \<le> m_adjustmentCeiling b \<and>
    ROUND (0.8 * real_of_int (m_pulseWidth b)) \<le> m_pulseWidth b' \<and>
    m_pulseWidth b' \<le> ROUND (1.1 * real_of_int (m_pulseWidth b))"
proof -
  have ok: "0 \<le> m_pulseWidth b" "m_pulseWidth b \<le> m_adjustmentCeiling b" "m_adjustmentCeiling b \<le> 8000"
    using assms(1) by (simp_all add: blc_ok_def MAX_COMP_AMOUNT_def)
  have lo: "ROUND (0.8 * real_of_int (m_pulseWidth b)) \<le> m_pulseWidth b"
    "m_pulseWidth b \<le> ROUND (1.1 * real_of_int (m_pulseWidth b))"
    using ROUND_mono[of "0.8 * real_of_int (m_pulseWidth b)" "real_of_int (m_pulseWidth b)"]
      ROUND_mono[of "real_of_int (m_pulseWidth b)" "1.1 * real_of_int (m_pulseWidth b)"] ok(1) by simp_all
  consider (same) "m_pulseWidth b' = m_pulseWidth b" "m_adjustmentFloor b' = m_adjustmentFloor b"
      "m_adjustmentCeiling b' = m_adjustmentCeiling b"
    | (adjusted) x h where "SetCompValues (adjusted_pulse x (b\<lparr>m_pHistory := h\<rparr>)) (m_adjustmentFloor (b\<lparr>m_pHistory := h\<rparr>))
        (m_adjustmentCeiling (b\<lparr>m_pHistory := h\<rparr>)) md (b\<lparr>m_pHistory := h\<rparr>) = (md', b')"
    using assms(4) by (auto simp: TrackBLCResults_def Let_def bind_eq_Some_conv ResetBLCState_def split: if_splits)
  then show ?thesis
  proof cases
    case same
    then show ?thesis using lo ok assms(3) by simp
  next
    case adjusted
    let ?b = "b\<lparr>m_pHistory := h\<rparr>"
    have p: "0 \<le> m_pulseWidth ?b" "m_pulseWidth ?b \<le> m_adjustmentCeiling ?b" "m_adjustmentFloor ?b \<le> m_pulseWidth ?b"
      using ok assms(3) by simp_all
    note ab = adjusted_pulse_bounds[OF p, of x]
    have "m_pulseWidth b' = adjusted_pulse x ?b \<and> m_adjustmentFloor b' = m_adjustmentFloor ?b \<and>
        m_adjustmentCeiling b' = m_adjustmentCeiling ?b"
      using adjusted ab(1,2) assms(2) ok(3) by (intro SetCompValues_adjusted[of ?b _ md md']) simp_all
    then show ?thesis using ab by simp
  qed
qed

text \<open>An active compensation of 100 ms that last moved north and has just added a pulse.\<close>

definition example_blc :: BacklashComp where
  "example_blc = \<lparr>m_compActive = True, m_lastDirection = NORTH, m_adjustmentFloor = 20, m_adjustmentCeiling = 8000,
     m_pulseWidth = 100, m_fixedSize = False, m_pHistory = RecordNewBLCPulse 0 1 (BLCHistory_new 0)\<rparr>"

theorem backlash_adjustment_is_gradual_witness:
  "\<exists>md' b'. TrackBLCResults \<lparr>ti_now = 1, ti_GetMinMove = 0, ti_yRate = 1 / 100, ti_bad = 0\<rparr> 5 2 2500 example_blc = Some (md', b') \<and>
     80 \<le> m_pulseWidth b' \<and> m_pulseWidth b' \<le> 110"
proof -
  have ok: "blc_ok example_blc"
  proof -
    have "hist_ok (BLCHistory_new 0)" by (simp add: BLCHistory_new_def hist_ok_def)
    then show ?thesis by (simp add: example_blc_def blc_ok_def MAX_COMP_AMOUNT_def Record_ok)
  qed
  obtain md' b' where t: "TrackBLCResults \<lparr>ti_now = 1, ti_GetMinMove = 0, ti_yRate = 1 / 100, ti_bad = 0\<rparr> 5 2 2500 example_blc
      = Some (md', b')" using Track_ok[OF ok] by blast
  have "ROUND (4 / 5 * 100) = 80" "ROUND (11 / 10 * 100) = 110"
    using ROUND_of_int[of 80] ROUND_of_int[of 110] by simp_all
  with backlash_adjustment_is_gradual[OF ok _ _ t] t show ?thesis by (simp add: example_blc_def)
qed

text \<open>The amounts added by a sequence of moves with the same options.\<close>

fun added_pulses :: "32 word \<Rightarrow> (int \<times> real) list \<Rightarrow> BacklashComp \<Rightarrow> int list" where
  "added_pulses opts [] b = []"
| "added_pulses opts ((now, y) # ms) b =
     (let (a, b') = ApplyBacklashComp now opts y 0 b in a # added_pulses opts ms b')"

fun dir_of :: "real \<Rightarrow> GUIDE_DIRECTION" where
  "dir_of y = (if y > 0 then SOUTH else NORTH)"

fun reversals :: "GUIDE_DIRECTION \<Rightarrow> real list \<Rightarrow> bool list" where
  "reversals d [] = []"
| "reversals d (y # ys) = (d \<noteq> NONE \<and> d \<noteq> dir_of y) # reversals (dir_of y) ys"

text \<open>While the compensation is active, a sequence of declination moves
  gets the compensation pulse exactly at the moves that reverse the direction of the move before;
  the first move after a reset gets none.\<close>

theorem backlash_added_on_reversal:
  assumes "opt_set opts MOVEOPT_USE_BLC" and "m_compActive b" and "0 < m_pulseWidth b"
    and "\<forall>m\<in>set ms. snd m \<noteq> 0"
  shows "added_pulses opts ms b =
    map (\<lambda>r. if r then m_pulseWidth b else 0) (reversals (m_lastDirection b) (map snd ms))"
  using assms
proof (induction opts ms b rule: added_pulses.induct)
  case (2 opts now y ms b)
  obtain a b' where ab: "ApplyBacklashComp now opts y 0 b = (a, b')" by fastforce
  then have "a = (if m_lastDirection b \<noteq> NONE \<and> m_lastDirection b \<noteq> dir_of y then m_pulseWidth b else 0)"
    "m_lastDirection b' = dir_of y" "m_pulseWidth b' = m_pulseWidth b" "m_compActive b' = m_compActive b"
    using "2.prems" by (auto simp: ApplyBacklashComp_def Let_def split: if_splits)
  with "2.IH"[OF ab[symmetric] refl] "2.prems" ab show ?case by auto
qed simp

theorem backlash_added_on_reversal_witness:
  "added_pulses 4 [(0, 1), (1, 2), (2, - 1), (3, - 2), (4, 3)] (example_blc\<lparr>m_lastDirection := NONE\<rparr>) = [0, 0, 100, 0, 100]"
  by (subst backlash_added_on_reversal) (simp_all add: example_blc_def opt_set_def MOVEOPT_USE_BLC_def)

end
