(* ===== verification/Scope_Calibration.thy ===== *)
theory Scope_Calibration
  imports Backlash_Comp Guide_Algorithms Phd_Controller
begin

text \<open>
  The telescope mount of \<open>src/scope.cpp\<close>: its settings, the pulses it issues (\<open>MoveAxis\<close>), the
  calibration state machine (\<open>BeginCalibration\<close>, \<open>UpdateCalibrationState\<close>), the sanity check of
  a calibration, and the adjustment of a calibration to where the telescope points
  (\<open>Mount::AdjustCalibrationForScopePointing\<close> with the virtual functions of a scope).

  \<open>Scope\<close> holds the base class \<open>Mount\<close> in \<open>sc_mount\<close> and the calibration variables of the header
  in \<open>sc_cal\<close>; \<open>sc_moves\<close> records the axis moves it schedules, \<open>sc_alerts\<close> what it tells the user.
  What it asks of the pointing source, the camera, the rotator and the frame during a call comes
  as \<open>CalEnv\<close>; the pointing source is the scope itself.  A coordinate or a direction cosine that
  the code may compute as NaN is a \<open>real option\<close>.
\<close>

section \<open>Data\<close>

definition CALIBRATION_RATE_UNCALIBRATED :: real where "CALIBRATION_RATE_UNCALIBRATED = 1230000"
definition DefaultCalibrationDuration :: int where "DefaultCalibrationDuration = 750"
definition DefaultMaxDecDuration :: int where "DefaultMaxDecDuration = 2500"
definition DefaultMaxRaDuration :: int where "DefaultMaxRaDuration = 2500"
definition MAX_CALIBRATION_STEPS :: int where "MAX_CALIBRATION_STEPS = 60"
definition CAL_ALERT_MINSTEPS :: int where "CAL_ALERT_MINSTEPS = 4"
definition CAL_ALERT_ORTHOGONALITY_TOLERANCE :: real where "CAL_ALERT_ORTHOGONALITY_TOLERANCE = 12.5"
definition CAL_ALERT_DECRATE_DIFFERENCE :: real where "CAL_ALERT_DECRATE_DIFFERENCE = 0.2"
definition CAL_ALERT_AXISRATES_TOLERANCE :: real where "CAL_ALERT_AXISRATES_TOLERANCE = 0.2"
definition LIMIT_REACHED_WARN_COUNT :: int where "LIMIT_REACHED_WARN_COUNT = 5"
definition MAX_NUDGES :: int where "MAX_NUDGES = 3"
definition NUDGE_TOLERANCE :: real where "NUDGE_TOLERANCE = 2"
definition DEC_COMP_LIMIT :: real where "DEC_COMP_LIMIT = pi / 2 * 2 / 3"
definition DEFAULT_DISTANCE :: int where "DEFAULT_DISTANCE = 25"
definition DEFAULT_STEPS :: int where "DEFAULT_STEPS = 12"
definition MIN_STEPS :: int where "MIN_STEPS = 6"
definition BL_BACKLASH_MIN_COUNT :: int where "BL_BACKLASH_MIN_COUNT = 3"
definition BL_MAX_CLEARING_TIME :: int where "BL_MAX_CLEARING_TIME = 60000"
definition BL_MIN_CLEARING_DISTANCE :: int where "BL_MIN_CLEARING_DISTANCE = 3"

datatype CALIBRATION_STATE =
  CALIBRATION_STATE_CLEARED | CALIBRATION_STATE_GO_WEST | CALIBRATION_STATE_GO_EAST
| CALIBRATION_STATE_CLEAR_BACKLASH | CALIBRATION_STATE_GO_NORTH | CALIBRATION_STATE_GO_SOUTH
| CALIBRATION_STATE_NUDGE_SOUTH | CALIBRATION_STATE_COMPLETE

datatype CalibrationIssueType = CI_None | CI_Steps | CI_Angle | CI_Rates | CI_Different

text \<open>The lists of steps of \<open>CalibrationDetails\<close>, kept for display, are left out.\<close>

record CalibrationDetails =
  cd_focalLength :: int
  imageScale :: real
  raGuideSpeed :: real
  decGuideSpeed :: real
  orthoError :: real
  origBinning :: int
  raStepCount :: int
  decStepCount :: int
  lastIssue :: CalibrationIssueType
  origPierSide :: PierSide

definition CalibrationDetails_default :: CalibrationDetails where
  "CalibrationDetails_default = \<lparr>cd_focalLength = 0, imageScale = 0, raGuideSpeed = 0, decGuideSpeed = 0,
     orthoError = 0, origBinning = 1, raStepCount = 0, decStepCount = 0, lastIssue = CI_None,
     origPierSide = PIER_SIDE_UNKNOWN\<rparr>"

record CalVars =
  m_calibrationState :: CALIBRATION_STATE
  m_calibrationSteps :: int
  m_recenterRemaining :: int
  m_recenterDuration :: int
  m_calibrationInitialLocation :: PHD_Point
  m_calibrationStartingLocation :: PHD_Point
  m_calibrationStartingCoords :: PHD_Point
  m_southStartingLocation :: PHD_Point
  m_eastStartingLocation :: PHD_Point
  m_totalSouthAmt :: real
  m_northDirCosX :: "real option"
  m_northDirCosY :: "real option"
  m_eastAlertShown :: bool
  m_blMarkerPoint :: PHD_Point
  m_blExpectedBacklashStep :: real
  m_blLastCumDistance :: real
  m_blAcceptedMoves :: int
  m_blDistanceMoved :: real
  m_blMaxClearingPulses :: int
  m_raSteps :: int
  m_decSteps :: int

record CalEnv =
  ce_coords :: PHD_Point
  ce_guideRates :: "(real \<times> real) option"
  ce_declination :: real
  ce_pierSide :: PierSide
  ce_rotatorAngle :: real
  ce_binning :: int
  ce_canPulseGuide :: bool
  ce_fastRecenter :: bool
  ce_maxMovePixels :: int
  ce_focalLength :: int
  ce_pixelSize :: real
  ce_profilePixelSize :: real
  ce_guideSpeedX :: real
  ce_canReportPosition :: bool
  ce_bad :: int

datatype ScopeAlert =
  AlertCalibrationFailed string
| AlertNoEastMovement
| AlertCalibrationIssue CalibrationIssueType
| AlertLimitReached GUIDE_DIRECTION int
| AlertGuideSpeedsDiffer
| AlertNoPierSide
| AlertPixelSizeMismatch
| AlertImageScaleChange
| AlertRotatorUnknown
| AlertTooFarFromEquator
| CalibrationComplete

record Scope =
  sc_mount :: Mount
  m_calibrationDuration :: int
  m_calibrationDistance :: int
  m_maxDecDuration :: int
  m_maxRaDuration :: int
  m_decGuideMode :: DEC_GUIDE_MODE
  m_saveDecGuideMode :: DEC_GUIDE_MODE
  m_raLimitReachedDirection :: GUIDE_DIRECTION
  m_raLimitReachedCount :: int
  m_decLimitReachedDirection :: GUIDE_DIRECTION
  m_decLimitReachedCount :: int
  m_assumeOrthogonal :: bool
  m_calibrationFlipRequiresDecFlip :: bool
  m_useDecCompensation :: bool
  sc_blc :: BacklashComp
  sc_cal :: CalVars
  m_calibration :: Calibration
  m_calibrationDetails :: CalibrationDetails
  detProfile :: "CalibrationDetails option"
  m_CalDetailsValidated :: bool
  m_prevCalibration :: Calibration
  m_prevCalibrationDetails :: CalibrationDetails
  m_lastCalibrationIssue :: CalibrationIssueType
  sc_moves :: "(GUIDE_DIRECTION \<times> int) list"
  sc_alerts :: "ScopeAlert list"

definition sc_alert :: "ScopeAlert \<Rightarrow> Scope \<Rightarrow> Scope" where
  "sc_alert a s = s\<lparr>sc_alerts := sc_alerts s @ [a]\<rparr>"

definition ScheduleAxisMove :: "GUIDE_DIRECTION \<Rightarrow> int \<Rightarrow> Scope \<Rightarrow> Scope" where
  "ScheduleAxisMove direction duration s = s\<lparr>sc_moves := sc_moves s @ [(direction, duration)]\<rparr>"

definition with_cal :: "(CalVars \<Rightarrow> CalVars) \<Rightarrow> Scope \<Rightarrow> Scope" where
  "with_cal f s = s\<lparr>sc_cal := f (sc_cal s)\<rparr>"

section \<open>Settings\<close>

definition SetCalibrationDuration :: "int \<Rightarrow> Scope \<Rightarrow> bool \<times> Scope" where
  "SetCalibrationDuration calibrationDuration s =
     (if calibrationDuration \<le> 0 then (True, s\<lparr>m_calibrationDuration := DefaultCalibrationDuration\<rparr>)
      else (False, s\<lparr>m_calibrationDuration := calibrationDuration\<rparr>))"

definition SetCalibrationDistance :: "int \<Rightarrow> Scope \<Rightarrow> bool \<times> Scope" where
  "SetCalibrationDistance calibrationDistance s =
     (if calibrationDistance \<le> 0 then (True, s\<lparr>m_calibrationDistance := DEFAULT_DISTANCE\<rparr>)
      else (False, s\<lparr>m_calibrationDistance := calibrationDistance\<rparr>))"

definition SetMaxDecDuration :: "int \<Rightarrow> Scope \<Rightarrow> bool \<times> Scope" where
  "SetMaxDecDuration maxDecDuration s =
     (if maxDecDuration < 0 then (True, s\<lparr>m_maxDecDuration := DefaultMaxDecDuration\<rparr>)
      else (False, s\<lparr>m_maxDecDuration := maxDecDuration\<rparr>))"

definition SetMaxRaDuration :: "int \<Rightarrow> Scope \<Rightarrow> bool \<times> Scope" where
  "SetMaxRaDuration maxRaDuration s =
     (if maxRaDuration < 0 then (True, s\<lparr>m_maxRaDuration := DefaultMaxRaDuration\<rparr>)
      else (False, s\<lparr>m_maxRaDuration := maxRaDuration\<rparr>))"

fun dec_mode_num :: "DEC_GUIDE_MODE \<Rightarrow> int" where
  "dec_mode_num DEC_NONE = 0"
| "dec_mode_num DEC_AUTO = 1"
| "dec_mode_num DEC_NORTH = 2"
| "dec_mode_num DEC_SOUTH = 3"

definition dec_mode_of :: "int \<Rightarrow> DEC_GUIDE_MODE option" where
  "dec_mode_of n = (if n = 0 then Some DEC_NONE else if n = 1 then Some DEC_AUTO
                    else if n = 2 then Some DEC_NORTH else if n = 3 then Some DEC_SOUTH else None)"

lemma dec_mode_of_num [simp]: "dec_mode_of (dec_mode_num md) = Some md"
  by (cases md) (simp_all add: dec_mode_of_def)

definition SetDecGuideMode :: "int \<Rightarrow> Scope \<Rightarrow> bool \<times> Scope" where
  "SetDecGuideMode decGuideMode s =
     (case dec_mode_of decGuideMode of
        None \<Rightarrow> (True, s)
      | Some md \<Rightarrow>
          (False, if m_decGuideMode s \<noteq> md
                  then s\<lparr>m_decGuideMode := md,
                         sc_blc := (if md \<noteq> DEC_AUTO then EnableBacklashComp False (sc_blc s)
                                    else ResetBLCState (sc_blc s))\<rparr>
                  else s))"

definition StartDecDrift :: "Scope \<Rightarrow> Scope" where
  "StartDecDrift s = s\<lparr>m_saveDecGuideMode := m_decGuideMode s, m_decGuideMode := DEC_NONE\<rparr>"

definition EndDecDrift :: "Scope \<Rightarrow> Scope" where
  "EndDecDrift s = s\<lparr>m_decGuideMode := m_saveDecGuideMode s\<rparr>"

definition IsDecDrifting :: "Scope \<Rightarrow> bool" where
  "IsDecDrifting s \<longleftrightarrow> m_decGuideMode s = DEC_NONE"

section \<open>Guide pulses\<close>

datatype MOVE_RESULT = MOVE_OK | MOVE_ERROR | MOVE_ERROR_SLEWING | MOVE_ERROR_AO_LIMIT_REACHED

record MoveResultInfo =
  amountMoved :: int
  limited :: bool

text \<open>
  \<open>guide\<close> is the pure virtual function \<open>Guide\<close> of the driver; a pulse it is asked for is recorded
  with its result.  \<open>alert\<close> tells whether \<open>AlertLimitReached\<close> gets past its rate limit.
\<close>

definition limit_tracking :: "bool \<Rightarrow> GUIDE_DIRECTION \<Rightarrow> GUIDE_DIRECTION \<Rightarrow> int \<Rightarrow> int \<times> GUIDE_DIRECTION \<times> bool" where
  "limit_tracking limitReached direction lastDir cnt =
     (if limitReached \<and> direction = lastDir
      then (cnt + 1, direction, cnt + 1 \<ge> LIMIT_REACHED_WARN_COUNT)
      else (0, if limitReached then direction else NONE, False))"

definition mode_blocks :: "DEC_GUIDE_MODE \<Rightarrow> GUIDE_DIRECTION \<Rightarrow> bool" where
  "mode_blocks md direction \<longleftrightarrow>
     md = DEC_NONE \<or> direction = SOUTH \<and> md = DEC_NORTH \<or> direction = NORTH \<and> md = DEC_SOUTH"

definition limit_duration :: "bool \<Rightarrow> GUIDE_DIRECTION \<Rightarrow> int \<Rightarrow> 32 word \<Rightarrow> Scope \<Rightarrow> int \<times> bool \<times> Scope" where
  "limit_duration alert direction duration moveOptions s =
     (if \<not> opt_set moveOptions (MOVEOPT_ALGO_RESULT OR MOVEOPT_ALGO_DEDUCE) \<or> direction = NONE
      then (duration, False, s)
      else if direction = NORTH \<or> direction = SOUTH
      then (let dur = (if mode_blocks (m_decGuideMode s) direction then 0 else duration);
                lim = (dur > m_maxDecDuration s);
                dur' = (if lim then m_maxDecDuration s else dur);
                (cnt, d, warn) = limit_tracking lim direction (m_decLimitReachedDirection s) (m_decLimitReachedCount s);
                s1 = s\<lparr>m_decLimitReachedCount := cnt, m_decLimitReachedDirection := d\<rparr>
            in (dur', lim, if warn \<and> alert then sc_alert (AlertLimitReached direction dur') s1 else s1))
      else (let lim = (duration > m_maxRaDuration s);
                dur' = (if lim then m_maxRaDuration s else duration);
                (cnt, d, warn) = limit_tracking lim direction (m_raLimitReachedDirection s) (m_raLimitReachedCount s);
                s1 = s\<lparr>m_raLimitReachedCount := cnt, m_raLimitReachedDirection := d\<rparr>
            in (dur', lim, if warn \<and> alert then sc_alert (AlertLimitReached direction dur') s1 else s1)))"

definition MoveAxis :: "(GUIDE_DIRECTION \<Rightarrow> int \<Rightarrow> MOVE_RESULT) \<Rightarrow> bool \<Rightarrow> GUIDE_DIRECTION \<Rightarrow> int \<Rightarrow> 32 word \<Rightarrow> Scope \<Rightarrow>
    MOVE_RESULT \<times> MoveResultInfo \<times> Scope" where
  "MoveAxis guide alert direction duration moveOptions s =
     (if \<not> m_guidingEnabled (sc_mount s) \<and> \<not> opt_set moveOptions MOVEOPT_MANUAL
      then (MOVE_ERROR, \<lparr>amountMoved = 0, limited = False\<rparr>, s)
      else let (dur, lim, s1) = limit_duration alert direction duration moveOptions s
           in if dur > 0
              then (let result = guide direction dur;
                        s2 = s1\<lparr>sc_moves := sc_moves s1 @ [(direction, dur)]\<rparr>
                    in if result \<noteq> MOVE_OK then (result, \<lparr>amountMoved = 0, limited = lim\<rparr>, s2)
                       else (MOVE_OK, \<lparr>amountMoved = dur, limited = lim\<rparr>, s2))
              else (MOVE_OK, \<lparr>amountMoved = dur, limited = lim\<rparr>, s1))"

section \<open>Calibration data\<close>

text \<open>
  An unknown focal length makes the image scale infinite; a quotient by zero that reaches a
  conversion to an integer gives the undetermined value \<open>bad\<close>, and one that only goes through the
  minimum is bounded by the other argument.
\<close>

definition GetCalibrationDistance :: "int \<Rightarrow> int \<Rightarrow> real \<Rightarrow> int \<Rightarrow> int" where
  "GetCalibrationDistance bad focalLength pixelSize bin =
     (let pixelScale = GetPixelScale pixelSize focalLength bin
      in if focalLength = 0 then DEFAULT_DISTANCE
         else if pixelScale = 0 then bad
         else c_int bad (of_int \<lceil>max (of_int DEFAULT_DISTANCE) (20 / pixelScale)\<rceil>))"

definition GetCalibrationStepSize :: "int \<Rightarrow> int \<Rightarrow> real \<Rightarrow> int \<Rightarrow> real \<Rightarrow> int \<Rightarrow> real \<Rightarrow> int \<Rightarrow> int" where
  "GetCalibrationStepSize bad focalLength pixelSize bin guideSpeed desiredSteps dec distance =
     (let scale = GetPixelScale pixelSize focalLength bin;
          totalDuration = real_of_int distance * scale / (15 * guideSpeed);
          pulse = totalDuration / real_of_int desiredSteps * 1000;
          maxPulse = totalDuration / real_of_int MIN_STEPS * 1000;
          unbounded = (desiredSteps = 0 \<or> cos (radians dec) = 0);
          pulse' = (if unbounded then maxPulse else min maxPulse (pulse / cos (radians dec)))
      in if focalLength = 0 \<or> guideSpeed = 0 \<or> unbounded \<and> totalDuration \<le> 0 then bad
         else c_int bad (of_int \<lceil>pulse' / 50\<rceil>) * 50)"

definition ValidGuideRates :: "real \<Rightarrow> real \<Rightarrow> bool" where
  "ValidGuideRates raRate decRate =
     (let spd = raRate * 3600 / (15 * 0.9973)
      in if spd > 0.1 \<and> spd < 1.2
         then (let spd = decRate * 3600 / (15 * 0.9973)
               in if spd \<noteq> - 1 then \<not> (spd < 0.1 \<or> spd > 1.2) else True)
         else False)"

text \<open>Saving and loading the details: bogus guide rates are stored, and read once, as unknown.\<close>

definition rates_known :: "CalibrationDetails \<Rightarrow> bool" where
  "rates_known d \<longleftrightarrow> \<not> (raGuideSpeed d = - 1 \<or> decGuideSpeed d = - 1)"

definition SaveCalibrationDetails :: "CalibrationDetails \<Rightarrow> Scope \<Rightarrow> Scope" where
  "SaveCalibrationDetails d s =
     (let check = \<not> (raGuideSpeed d = - 1 \<and> decGuideSpeed d = - 1);
          ok = (check \<longrightarrow> ValidGuideRates (raGuideSpeed d) (decGuideSpeed d))
      in s\<lparr>detProfile := Some (if ok then d else d\<lparr>raGuideSpeed := - 1, decGuideSpeed := - 1\<rparr>),
           m_CalDetailsValidated := m_CalDetailsValidated s \<or> check\<rparr>)"

definition stored_details :: "Scope \<Rightarrow> CalibrationDetails" where
  "stored_details s = (case detProfile s of
     Some d \<Rightarrow> d
   | None \<Rightarrow> CalibrationDetails_default\<lparr>imageScale := 1, raGuideSpeed := - 1, decGuideSpeed := - 1\<rparr>)"

definition LoadCalibrationDetails :: "Scope \<Rightarrow> CalibrationDetails \<times> Scope" where
  "LoadCalibrationDetails s =
     (let d = stored_details s
      in if \<not> m_CalDetailsValidated s \<and> rates_known d
         then (if ValidGuideRates (raGuideSpeed d) (decGuideSpeed d) then (d, s\<lparr>m_CalDetailsValidated := True\<rparr>)
               else let d' = d\<lparr>raGuideSpeed := - 1, decGuideSpeed := - 1\<rparr>
                    in (d', s\<lparr>detProfile := Some d', m_CalDetailsValidated := True\<rparr>))
         else (d, s))"

definition scope_IsCalibrated :: "Scope \<Rightarrow> bool" where
  "scope_IsCalibrated s =
     (if \<not> Mount_IsCalibrated (sc_mount s) then False
      else if m_decGuideMode s = DEC_NONE then True
      else yRate (m_calibration s) \<noteq> CALIBRATION_RATE_UNCALIBRATED)"

definition scope_ClearCalibration :: "Scope \<Rightarrow> Scope" where
  "scope_ClearCalibration s =
     s\<lparr>sc_mount := Mount_ClearCalibration (sc_mount s),
       sc_cal := (sc_cal s)\<lparr>m_calibrationState := CALIBRATION_STATE_CLEARED\<rparr>\<rparr>"

definition scope_SetCalibration :: "Calibration \<Rightarrow> Scope \<Rightarrow> Scope" where
  "scope_SetCalibration cal s = s\<lparr>m_calibration := cal, sc_mount := Mount_SetCalibration cal (sc_mount s)\<rparr>"

definition GetCameraPixelScale :: "CalEnv \<Rightarrow> real" where
  "GetCameraPixelScale env =
     (if ce_pixelSize env = 0 \<or> ce_focalLength env = 0 then 1
      else GetPixelScale (ce_pixelSize env) (ce_focalLength env) (ce_binning env))"

definition SetCalibrationDetails :: "CalEnv \<Rightarrow> CalibrationDetails \<Rightarrow> real \<Rightarrow> real \<Rightarrow> int \<Rightarrow> Scope \<Rightarrow> Scope" where
  "SetCalibrationDetails env calDetails xAng yAng bin s =
     (let (raRate, decRate) = (case ce_guideRates env of None \<Rightarrow> (- 1, - 1) | Some r \<Rightarrow> r);
          d = calDetails\<lparr>raGuideSpeed := raRate, decGuideSpeed := decRate, cd_focalLength := ce_focalLength env,
                imageScale := GetCameraPixelScale env,
                orthoError := degrees \<bar>\<bar>norm_angle (xAng - yAng)\<bar> - pi / 2\<bar>,
                origBinning := bin, origPierSide := ce_pierSide env\<rparr>
      in SaveCalibrationDetails d (s\<lparr>m_calibrationDetails := d\<rparr>))"

definition FlagCalibrationIssue :: "CalibrationDetails \<Rightarrow> CalibrationIssueType \<Rightarrow> Scope \<Rightarrow> Scope" where
  "FlagCalibrationIssue calDetails issue s =
     (let d = calDetails\<lparr>lastIssue := issue\<rparr> in SaveCalibrationDetails d (s\<lparr>m_calibrationDetails := d\<rparr>))"

text \<open>The issue that \<open>SanityCheckCalibration\<close> raises.\<close>

definition sanity_rates :: "bool \<Rightarrow> Calibration \<Rightarrow> CalibrationDetails \<Rightarrow> bool" where
  "sanity_rates decComp newCal newDetails \<longleftrightarrow>
     declination newCal \<noteq> UNKNOWN_DECLINATION \<and> yRate newCal \<noteq> CALIBRATION_RATE_UNCALIBRATED \<and>
     \<bar>declination newCal\<bar> \<le> DEC_COMP_LIMIT \<and> decComp \<and>
     \<bar>cos (declination newCal) -
       xRate newCal * (if raGuideSpeed newDetails > 0 then decGuideSpeed newDetails / raGuideSpeed newDetails else 1)
         / yRate newCal\<bar> > CAL_ALERT_AXISRATES_TOLERANCE"

definition sanity_different :: "Calibration \<Rightarrow> CalibrationDetails \<Rightarrow> Calibration \<Rightarrow> CalibrationDetails \<Rightarrow> bool" where
  "sanity_different oldCal oldDetails newCal newDetails \<longleftrightarrow>
     isValid oldCal \<and> \<bar>imageScale oldDetails - imageScale newDetails\<bar> < 0.1 \<and>
     \<bar>degrees (xAngle oldCal - xAngle newCal)\<bar> < 5 \<and>
     yRate newCal \<noteq> CALIBRATION_RATE_UNCALIBRATED \<and> yRate oldCal \<noteq> CALIBRATION_RATE_UNCALIBRATED \<and>
     yRate newCal \<noteq> 0 \<and> \<bar>1 - yRate oldCal / yRate newCal\<bar> > CAL_ALERT_DECRATE_DIFFERENCE"

definition calibration_issue :: "bool \<Rightarrow> Calibration \<Rightarrow> CalibrationDetails \<Rightarrow> Calibration \<Rightarrow> CalibrationDetails \<Rightarrow> CalibrationIssueType" where
  "calibration_issue decComp oldCal oldDetails newCal newDetails =
     (let xSteps = raStepCount newDetails; ySteps = decStepCount newDetails
      in if xSteps < CAL_ALERT_MINSTEPS \<or> ySteps < CAL_ALERT_MINSTEPS \<and> ySteps > 0 then CI_Steps
         else if degrees \<bar>\<bar>norm_angle (xAngle newCal - yAngle newCal)\<bar> - pi / 2\<bar> > CAL_ALERT_ORTHOGONALITY_TOLERANCE
         then CI_Angle
         else if sanity_rates decComp newCal newDetails then CI_Rates
         else if sanity_different oldCal oldDetails newCal newDetails then CI_Different
         else CI_None)"

definition SanityCheckCalibration :: "Calibration \<Rightarrow> CalibrationDetails \<Rightarrow> Scope \<Rightarrow> Scope" where
  "SanityCheckCalibration oldCal oldDetails s =
     (let newCal = GetLastCalibration (sc_mount s) Calibration_default;
          (newDetails, s1) = LoadCalibrationDetails s;
          issue = calibration_issue (m_useDecCompensation s) oldCal oldDetails newCal newDetails;
          s2 = s1\<lparr>m_lastCalibrationIssue := issue\<rparr>
      in if issue \<noteq> CI_None
         then sc_alert (AlertCalibrationIssue issue) (FlagCalibrationIssue newDetails issue s2) else s2)"

section \<open>Beginning a calibration\<close>

definition CheckCalibrationDuration :: "CalEnv \<Rightarrow> Scope \<Rightarrow> Scope" where
  "CheckCalibrationDuration env s0 =
     (let (calDetails, s) = LoadCalibrationDetails s0;
          binningChange = (ce_binning env \<noteq> origBinning calDetails);
          newDistance = GetCalibrationDistance (ce_bad env) (ce_focalLength env) (ce_pixelSize env) (ce_binning env);
          s1 = (if binningChange \<and> newDistance \<noteq> m_calibrationDistance s
                then snd (SetCalibrationDistance newDistance s) else s)
      in case ce_guideRates env of
           None \<Rightarrow> s1
         | Some (raSpd, decSpd) \<Rightarrow>
             if raGuideSpeed calDetails \<le> 0 then s1
             else if binningChange \<or> \<bar>1 - raSpd / raGuideSpeed calDetails\<bar> > 0.05
             then snd (SetCalibrationDuration
                    (GetCalibrationStepSize (ce_bad env) (ce_focalLength env) (ce_pixelSize env) (ce_binning env)
                       (raSpd * 3600 / (15 * 0.9973)) DEFAULT_STEPS 0 (m_calibrationDistance s1)) s1)
             else s1)"

definition BeginCalibration :: "CalEnv \<Rightarrow> PHD_Point \<Rightarrow> Scope \<Rightarrow> bool \<times> Scope" where
  "BeginCalibration env currentLocation s =
     (if \<not> Mount_IsConnected (sc_mount s) then (True, s)
      else if \<not> p_valid currentLocation then (True, s)
      else let s1 = scope_ClearCalibration (CheckCalibrationDuration env s)
           in (False, s1\<lparr>sc_cal := (sc_cal s1)\<lparr>m_calibrationSteps := 0, m_calibrationInitialLocation := currentLocation,
                  m_calibrationStartingLocation := p_Invalidate (m_calibrationStartingLocation (sc_cal s1)),
                  m_calibrationStartingCoords := p_Invalidate (m_calibrationStartingCoords (sc_cal s1)),
                  m_calibrationState := CALIBRATION_STATE_GO_WEST, m_raSteps := 0, m_decSteps := 0,
                  m_eastAlertShown := False\<rparr>,
                m_calibrationDetails := (m_calibrationDetails s1)\<lparr>lastIssue := CI_None\<rparr>\<rparr>))"

section \<open>The calibration state machine\<close>

text \<open>
  How a case of the switch ends: \<open>break\<close>, an exception, or falling through to the next case with
  the local variables \<open>dX\<close>, \<open>dY\<close>, \<open>dist\<close>.
\<close>

datatype CalTurn = Break Scope | Throw Scope | Fall "real \<times> real \<times> real" Scope

definition MountCoords :: "PHD_Point \<Rightarrow> real \<Rightarrow> real \<Rightarrow> PHD_Point option" where
  "MountCoords cameraVector xCalibAngle yCalibAngle =
     do { cameraTheta \<leftarrow> p_Angle cameraVector;
          let hyp = p_Distance cameraVector;
          let yAngleError = norm_angle (xCalibAngle - yCalibAngle + pi / 2);
          Some (PHD_Point_new (hyp * cos (cameraTheta - xCalibAngle))
                  (hyp * sin (cameraTheta - (xCalibAngle + yAngleError)))) }"

definition recenter_duration :: "CalEnv \<Rightarrow> real \<Rightarrow> real \<Rightarrow> int \<Rightarrow> int \<Rightarrow> int" where
  "recenter_duration env factor rate maxDuration calDuration =
     (if ce_fastRecenter env
      then let d = c_int_quot (ce_bad env) (factor * real_of_int (ce_maxMovePixels env)) rate;
               d1 = (if d > maxDuration then maxDuration else d)
           in if d1 < calDuration then calDuration else d1
      else calDuration)"

definition parity_of :: "PHD_Point \<Rightarrow> PHD_Point \<Rightarrow> (PHD_Point \<Rightarrow> real) \<Rightarrow> real \<Rightarrow> GuideParity \<Rightarrow> GuideParity \<Rightarrow> GuideParity" where
  "parity_of starting ending coord eps increasing decreasing =
     (if p_valid starting \<and> p_valid ending
      then let d = coord ending - coord starting
           in if d > eps then increasing else if d < - eps then decreasing else GUIDE_PARITY_UNKNOWN
      else GUIDE_PARITY_UNKNOWN)"

definition go_west :: "CalEnv \<Rightarrow> PHD_Point \<Rightarrow> real \<times> real \<times> real \<Rightarrow> Scope \<Rightarrow> CalTurn option" where
  "go_west env loc l s =
     (let (dX, dY, dist) = l; c = sc_cal s; steps = m_calibrationSteps c
      in if dist < real_of_int (m_calibrationDistance s)
         then let s1 = with_cal (\<lambda>c. c\<lparr>m_calibrationSteps := steps + 1\<rparr>) s
              in if steps > MAX_CALIBRATION_STEPS
                 then Some (Throw (sc_alert (AlertCalibrationFailed ''RA Calibration Failed: star did not move enough'') s1))
                 else Some (Break (ScheduleAxisMove WEST (m_calibrationDuration s) s1))
         else do { ang \<leftarrow> p_AngleTo (m_calibrationStartingLocation c) loc;
                   let rate = dist / real_of_int (steps * m_calibrationDuration s);
                   let par = parity_of (m_calibrationStartingCoords c) (ce_coords env) pX (24 / (360 * 60 * 60))
                               GUIDE_PARITY_ODD GUIDE_PARITY_EVEN;
                   let remaining = steps * m_calibrationDuration s;
                   let rdur = recenter_duration env 1 rate (m_maxRaDuration s) (m_calibrationDuration s);
                   Some (Fall l (s\<lparr>m_calibration := (m_calibration s)\<lparr>xAngle := ang, xRate := rate, raGuideParity := par\<rparr>,
                     sc_cal := c\<lparr>m_raSteps := steps, m_recenterRemaining := remaining, m_recenterDuration := rdur,
                       m_calibrationSteps := DIV_ROUND_UP remaining rdur, m_calibrationState := CALIBRATION_STATE_GO_EAST,
                       m_eastStartingLocation := loc\<rparr>\<rparr>)) })"

text \<open>The check for a guide cable problem after the east moves.\<close>

definition east_ok :: "CalVars \<Rightarrow> Calibration \<Rightarrow> PHD_Point \<Rightarrow> bool option" where
  "east_ok c cal loc =
     do { eastDistMoved \<leftarrow> p_DistanceTo (m_eastStartingLocation c) loc;
          westDistMoved \<leftarrow> p_DistanceTo (m_calibrationStartingLocation c) (m_eastStartingLocation c);
          eastAngle \<leftarrow> p_AngleTo (m_eastStartingLocation c) loc;
          Some (\<not> (\<bar>eastDistMoved\<bar> < 0.25 * westDistMoved \<or>
                   \<bar>norm_angle (eastAngle - (xAngle cal + pi))\<bar> > radians 30)) }"

definition expected_backlash_step :: "CalEnv \<Rightarrow> Scope \<Rightarrow> real" where
  "expected_backlash_step env s =
     xRate (m_calibration s) * real_of_int (m_calibrationDuration s) * 0.6 *
     (case ce_guideRates env of
        None \<Rightarrow> 1
      | Some (ra, dec) \<Rightarrow> if ra \<noteq> 0 \<and> ra \<noteq> dec then dec / ra else 1)"

definition go_east :: "CalEnv \<Rightarrow> PHD_Point \<Rightarrow> real \<times> real \<times> real \<Rightarrow> Scope \<Rightarrow> CalTurn option" where
  "go_east env loc l s =
     (let c = sc_cal s
      in if m_recenterRemaining c > 0
         then let duration = min (m_recenterDuration c) (m_recenterRemaining c)
              in Some (Break (ScheduleAxisMove EAST duration
                   (s\<lparr>sc_cal := c\<lparr>m_recenterRemaining := m_recenterRemaining c - duration,
                        m_calibrationSteps := m_calibrationSteps c - 1\<rparr>\<rparr>)))
         else do { ok \<leftarrow> (if \<not> ce_canPulseGuide env then east_ok c (m_calibration s) loc else Some True);
                   let s1 = (if ok then s else sc_alert AlertNoEastMovement s);
                   let c1 = (if ok then c else c\<lparr>m_eastAlertShown := True\<rparr>);
                   if m_decGuideMode s = DEC_NONE
                   then Some (Break (s1\<lparr>m_calibration := (m_calibration s)\<lparr>
                            yAngle := norm_angle (xAngle (m_calibration s) + pi / 2),
                            yRate := CALIBRATION_RATE_UNCALIBRATED, decGuideParity := GUIDE_PARITY_UNKNOWN\<rparr>,
                          sc_cal := c1\<lparr>m_calibrationSteps := 0, m_calibrationStartingLocation := loc,
                            m_calibrationState := CALIBRATION_STATE_COMPLETE\<rparr>\<rparr>))
                   else Some (Fall (0, 0, 0) (s1\<lparr>sc_cal := c1\<lparr>m_calibrationSteps := 0,
                          m_calibrationStartingLocation := loc, m_calibrationState := CALIBRATION_STATE_CLEAR_BACKLASH,
                          m_blMarkerPoint := loc, m_calibrationStartingCoords := ce_coords env,
                          m_blExpectedBacklashStep := expected_backlash_step env s,
                          m_blMaxClearingPulses := max 8 (c_quot BL_MAX_CLEARING_TIME (m_calibrationDuration s)),
                          m_blLastCumDistance := 0, m_blAcceptedMoves := 0\<rparr>\<rparr>)) })"

text \<open>The count of accepted clearing moves, and the end of clearing with its fall into the north moves.\<close>

definition bl_accepted :: "CalVars \<Rightarrow> real \<Rightarrow> real \<Rightarrow> int" where
  "bl_accepted c blDelta blCumDelta =
     (if blDelta \<ge> m_blExpectedBacklashStep c
      then (if m_blAcceptedMoves c = 0 \<or> blCumDelta > m_blLastCumDistance c then m_blAcceptedMoves c + 1 else 0)
      else if blCumDelta < m_blLastCumDistance c then 0 else m_blAcceptedMoves c)"

definition bl_finish :: "real \<times> real \<times> real \<Rightarrow> CalVars \<Rightarrow> Scope \<Rightarrow> CalTurn option" where
  "bl_finish l c s =
     do { moved \<leftarrow> p_DistanceTo (m_blMarkerPoint c) (m_calibrationInitialLocation c);
          Some (Fall l (s\<lparr>sc_cal := c\<lparr>m_blDistanceMoved := moved,
                            m_calibrationState := CALIBRATION_STATE_GO_NORTH\<rparr>\<rparr>)) }"

definition clear_backlash :: "CalEnv \<Rightarrow> PHD_Point \<Rightarrow> real \<times> real \<times> real \<Rightarrow> Scope \<Rightarrow> CalTurn option" where
  "clear_backlash env loc l s =
     (let c = sc_cal s; (dX, dY, blCumDelta) = l; steps = m_calibrationSteps c
      in do { blDelta \<leftarrow> p_DistanceTo (m_blMarkerPoint c) loc;
              if steps = 0
              then Some (Break (ScheduleAxisMove NORTH (m_calibrationDuration s) (s\<lparr>sc_cal := c\<lparr>m_calibrationSteps := 1\<rparr>\<rparr>)))
              else let acc = bl_accepted c blDelta blCumDelta; c1 = c\<lparr>m_blAcceptedMoves := acc\<rparr>
                   in if acc < BL_BACKLASH_MIN_COUNT
                      then (if steps < m_blMaxClearingPulses c \<and> blCumDelta < real_of_int (m_calibrationDistance s)
                            then Some (Break (ScheduleAxisMove NORTH (m_calibrationDuration s)
                                   (s\<lparr>sc_cal := c1\<lparr>m_calibrationSteps := steps + 1, m_blMarkerPoint := loc,
                                      m_calibrationStartingCoords := ce_coords env, m_blLastCumDistance := blCumDelta\<rparr>\<rparr>)))
                            else if blCumDelta \<ge> real_of_int BL_MIN_CLEARING_DISTANCE
                            then bl_finish (0, 0, 0) (c1\<lparr>m_calibrationSteps := 0, m_calibrationStartingLocation := loc\<rparr>) s
                            else Some (Throw (sc_alert (AlertCalibrationFailed ''Backlash Clearing Failed: star did not move enough'')
                                   (s\<lparr>sc_cal := c1\<rparr>))))
                      else do { dx \<leftarrow> p_dX (m_blMarkerPoint c) loc;
                                dy \<leftarrow> p_dY (m_blMarkerPoint c) loc;
                                bl_finish (dx, dy, blDelta)
                                  (c1\<lparr>m_calibrationSteps := 1, m_calibrationStartingLocation := m_blMarkerPoint c\<rparr>) s } })"

text \<open>The angle and the rate of the declination axis.\<close>

definition measured_y :: "Scope \<Rightarrow> real \<Rightarrow> real \<Rightarrow> real \<times> real" where
  "measured_y s yAng dst =
     (let steps = real_of_int (m_calibrationSteps (sc_cal s) * m_calibrationDuration s); x = xAngle (m_calibration s)
      in if m_assumeOrthogonal s
         then (let a1 = norm_angle (x + pi / 2); a2 = norm_angle (x - pi / 2);
                   best = (if \<bar>norm_angle (a1 - yAng)\<bar> < \<bar>norm_angle (a2 - yAng)\<bar> then a1 else a2)
               in (best, dst * cos (yAng - best) / steps))
         else (yAng, dst / steps))"

definition go_north :: "CalEnv \<Rightarrow> PHD_Point \<Rightarrow> real \<times> real \<times> real \<Rightarrow> Scope \<Rightarrow> CalTurn option" where
  "go_north env loc l s =
     (let (dX, dY, dist) = l; c = sc_cal s; steps = m_calibrationSteps c
      in if dist < real_of_int (m_calibrationDistance s)
         then let s1 = with_cal (\<lambda>c. c\<lparr>m_calibrationSteps := steps + 1\<rparr>) s
              in if steps > MAX_CALIBRATION_STEPS
                 then Some (Throw (sc_alert (AlertCalibrationFailed ''DEC Calibration Failed: star did not move enough'') s1))
                 else Some (Break (ScheduleAxisMove NORTH (m_calibrationDuration s) s1))
         else do { ang \<leftarrow> p_AngleTo loc (m_calibrationStartingLocation c);
                   let (yAng, rate) = measured_y s ang dist;
                   let par = parity_of (m_calibrationStartingCoords c) (ce_coords env) pY (1 / (60 * 60))
                               GUIDE_PARITY_EVEN GUIDE_PARITY_ODD;
                   let remaining = steps * m_calibrationDuration s;
                   let rdur = recenter_duration env 0.8 rate (m_maxDecDuration s) (m_calibrationDuration s);
                   Some (Fall l (s\<lparr>m_calibration := (m_calibration s)\<lparr>yAngle := yAng, yRate := rate, decGuideParity := par\<rparr>,
                     sc_cal := c\<lparr>m_decSteps := steps, m_recenterRemaining := remaining, m_recenterDuration := rdur,
                       m_calibrationSteps := DIV_ROUND_UP remaining rdur, m_calibrationState := CALIBRATION_STATE_GO_SOUTH,
                       m_southStartingLocation := loc\<rparr>\<rparr>)) })"

text \<open>A direction cosine is NaN when the distance is zero.\<close>

definition dir_cos :: "real \<Rightarrow> real \<Rightarrow> real option" where
  "dir_cos d len = (if len = 0 then None else Some (d / len))"

definition go_south :: "CalEnv \<Rightarrow> PHD_Point \<Rightarrow> real \<times> real \<times> real \<Rightarrow> Scope \<Rightarrow> CalTurn option" where
  "go_south env loc l s =
     (let c = sc_cal s; south = m_southStartingLocation c
      in if m_recenterRemaining c > 0
         then let duration = min (m_recenterDuration c) (m_recenterRemaining c)
              in Some (Break (ScheduleAxisMove SOUTH duration
                   (s\<lparr>sc_cal := c\<lparr>m_recenterRemaining := m_recenterRemaining c - duration,
                        m_calibrationSteps := m_calibrationSteps c - 1\<rparr>\<rparr>)))
         else do { dx \<leftarrow> p_dX (m_calibrationInitialLocation c) south;
                   dy \<leftarrow> p_dY (m_calibrationInitialLocation c) south;
                   d \<leftarrow> p_DistanceTo (m_calibrationInitialLocation c) south;
                   v \<leftarrow> p_sub south loc;
                   mc \<leftarrow> MountCoords v (xAngle (m_calibration s)) (yAngle (m_calibration s));
                   Some (Fall l (s\<lparr>sc_cal := c\<lparr>m_northDirCosX := dir_cos dx d, m_northDirCosY := dir_cos dy d,
                          m_totalSouthAmt := pY mc, m_calibrationState := CALIBRATION_STATE_NUDGE_SOUTH,
                          m_calibrationSteps := 0\<rparr>\<rparr>)) })"

text \<open>Whether the way back to the starting point is roughly opposite to the north moves.\<close>

definition nudge_direction_ok :: "real option \<Rightarrow> real option \<Rightarrow> real option \<Rightarrow> real option \<Rightarrow> bool" where
  "nudge_direction_ok nx ny cx cy =
     (case (nx, ny, cx, cy) of
        (Some nx, Some ny, Some cx, Some cy) \<Rightarrow> \<bar>\<bar>arccos (nx * cx + ny * cy)\<bar> * 180 / pi - 180\<bar> < 40
      | _ \<Rightarrow> False)"

definition nudge_south :: "CalEnv \<Rightarrow> PHD_Point \<Rightarrow> real \<times> real \<times> real \<Rightarrow> Scope \<Rightarrow> CalTurn option" where
  "nudge_south env loc l s =
     (let c = sc_cal s; init = m_calibrationInitialLocation c;
          finished = Some (Fall l (s\<lparr>sc_cal := c\<lparr>m_calibrationState := CALIBRATION_STATE_COMPLETE\<rparr>\<rparr>))
      in do { nudge_amt \<leftarrow> p_DistanceTo loc init;
              dx \<leftarrow> p_dX loc init;
              dy \<leftarrow> p_dY loc init;
              v \<leftarrow> p_sub loc init;
              mc \<leftarrow> MountCoords v (xAngle (m_calibration s)) (yAngle (m_calibration s));
              if nudge_direction_ok (dir_cos dx nudge_amt) (dir_cos dy nudge_amt) (m_northDirCosX c) (m_northDirCosY c) \<and>
                 m_calibrationSteps c \<le> MAX_NUDGES \<and> nudge_amt > NUDGE_TOLERANCE \<and>
                 nudge_amt < real_of_int (m_calibrationDistance s) + m_blDistanceMoved c \<and>
                 pY mc * m_totalSouthAmt c > 0
              then let decAmt = min \<bar>pY mc\<bar> (real_of_int (ce_maxMovePixels env));
                       pulseAmt = min (c_int_quot (ce_bad env) decAmt (yRate (m_calibration s))) (m_calibrationDuration s)
                   in Some (Break (ScheduleAxisMove SOUTH pulseAmt
                        (s\<lparr>sc_cal := c\<lparr>m_calibrationSteps := m_calibrationSteps c + 1\<rparr>\<rparr>)))
              else finished })"

definition cal_complete :: "CalEnv \<Rightarrow> PHD_Point \<Rightarrow> real \<times> real \<times> real \<Rightarrow> Scope \<Rightarrow> CalTurn option" where
  "cal_complete env loc l s =
     (let prev = GetLastCalibration (sc_mount s) (m_prevCalibration s);
          (prevDetails, s1) = LoadCalibrationDetails s;
          cal = (m_calibration s)\<lparr>declination := ce_declination env, pierSide := ce_pierSide env,
                  rotatorAngle := ce_rotatorAngle env, binning := ce_binning env\<rparr>;
          s2 = scope_SetCalibration cal (s1\<lparr>m_prevCalibration := prev, m_prevCalibrationDetails := prevDetails\<rparr>);
          d = (m_calibrationDetails s2)\<lparr>raStepCount := m_raSteps (sc_cal s), decStepCount := m_decSteps (sc_cal s)\<rparr>;
          s3 = SetCalibrationDetails env d (xAngle cal) (yAngle cal) (binning cal) s2;
          s4 = SanityCheckCalibration prev prevDetails s3
      in Some (Break (sc_alert CalibrationComplete s4)))"

type_synonym cal_case = "CalEnv \<Rightarrow> PHD_Point \<Rightarrow> real \<times> real \<times> real \<Rightarrow> Scope \<Rightarrow> CalTurn option"

text \<open>The cases of the switch from that of the current state on; \<open>CALIBRATION_STATE_CLEARED\<close> asserts.\<close>

fun cases_from :: "CALIBRATION_STATE \<Rightarrow> cal_case list" where
  "cases_from CALIBRATION_STATE_CLEARED = [\<lambda>env loc l s. None]"
| "cases_from CALIBRATION_STATE_GO_WEST = [go_west, go_east, clear_backlash, go_north, go_south, nudge_south, cal_complete]"
| "cases_from CALIBRATION_STATE_GO_EAST = [go_east, clear_backlash, go_north, go_south, nudge_south, cal_complete]"
| "cases_from CALIBRATION_STATE_CLEAR_BACKLASH = [clear_backlash, go_north, go_south, nudge_south, cal_complete]"
| "cases_from CALIBRATION_STATE_GO_NORTH = [go_north, go_south, nudge_south, cal_complete]"
| "cases_from CALIBRATION_STATE_GO_SOUTH = [go_south, nudge_south, cal_complete]"
| "cases_from CALIBRATION_STATE_NUDGE_SOUTH = [nudge_south, cal_complete]"
| "cases_from CALIBRATION_STATE_COMPLETE = [cal_complete]"

fun run_cases :: "cal_case list \<Rightarrow> CalEnv \<Rightarrow> PHD_Point \<Rightarrow> real \<times> real \<times> real \<Rightarrow> Scope \<Rightarrow> (bool \<times> Scope) option" where
  "run_cases [] env loc l s = Some (False, s)"
| "run_cases (f # fs) env loc l s =
     (case f env loc l s of
        None \<Rightarrow> None
      | Some (Break s') \<Rightarrow> Some (False, s')
      | Some (Throw s') \<Rightarrow> Some (True, scope_ClearCalibration s')
      | Some (Fall l' s') \<Rightarrow> run_cases fs env loc l' s')"

definition UpdateCalibrationState :: "CalEnv \<Rightarrow> PHD_Point \<Rightarrow> Scope \<Rightarrow> (bool \<times> Scope) option" where
  "UpdateCalibrationState env currentLocation s =
     (let s1 = (if \<not> p_valid (m_calibrationStartingLocation (sc_cal s))
                then with_cal (\<lambda>c. c\<lparr>m_calibrationStartingLocation := currentLocation,
                                     m_calibrationStartingCoords := ce_coords env\<rparr>) s
                else s);
          start = m_calibrationStartingLocation (sc_cal s1)
      in do { dX \<leftarrow> p_dX start currentLocation;
              dY \<leftarrow> p_dY start currentLocation;
              dist \<leftarrow> p_DistanceTo start currentLocation;
              run_cases (cases_from (m_calibrationState (sc_cal s1))) env currentLocation (dX, dY, dist) s1 })"

section \<open>A calibration always ends\<close>

text \<open>
  What holds between two frames of a calibration, and how many more frames it can take: sixty-two
  in each direction of travel, as many to come back, the clearing pulses, and the nudges.
\<close>

definition scope_good :: "Scope \<Rightarrow> bool" where
  "scope_good s \<longleftrightarrow> 0 < m_calibrationDuration s \<and> 0 < m_calibrationDistance s \<and> m_requestCount (sc_mount s) = 0"

definition max_clearing :: "Scope \<Rightarrow> int" where
  "max_clearing s = max 8 (c_quot BL_MAX_CLEARING_TIME (m_calibrationDuration s))"

definition recenter_moves :: "CalVars \<Rightarrow> int" where
  "recenter_moves c = (if m_recenterRemaining c \<le> 0 then 0
     else (m_recenterRemaining c + m_recenterDuration c - 1) div m_recenterDuration c)"

fun state_inv :: "CALIBRATION_STATE \<Rightarrow> Scope \<Rightarrow> bool" where
  "state_inv CALIBRATION_STATE_CLEARED s = False"
| "state_inv CALIBRATION_STATE_GO_WEST s = (0 \<le> m_calibrationSteps (sc_cal s) \<and> m_calibrationSteps (sc_cal s) \<le> 61)"
| "state_inv CALIBRATION_STATE_GO_EAST s = (p_valid (m_eastStartingLocation (sc_cal s)) \<and> 0 < m_recenterDuration (sc_cal s))"
| "state_inv CALIBRATION_STATE_CLEAR_BACKLASH s =
     (p_valid (m_blMarkerPoint (sc_cal s)) \<and> 0 \<le> m_calibrationSteps (sc_cal s) \<and>
      m_calibrationSteps (sc_cal s) \<le> m_blMaxClearingPulses (sc_cal s) \<and> 8 \<le> m_blMaxClearingPulses (sc_cal s))"
| "state_inv CALIBRATION_STATE_GO_NORTH s = (0 \<le> m_calibrationSteps (sc_cal s) \<and> m_calibrationSteps (sc_cal s) \<le> 61)"
| "state_inv CALIBRATION_STATE_GO_SOUTH s = (p_valid (m_southStartingLocation (sc_cal s)) \<and> 0 < m_recenterDuration (sc_cal s))"
| "state_inv CALIBRATION_STATE_NUDGE_SOUTH s = (0 \<le> m_calibrationSteps (sc_cal s) \<and> m_calibrationSteps (sc_cal s) \<le> 4)"
| "state_inv CALIBRATION_STATE_COMPLETE s = True"

definition cal_inv :: "Scope \<Rightarrow> bool" where
  "cal_inv s \<longleftrightarrow> scope_good s \<and> p_valid (m_calibrationInitialLocation (sc_cal s)) \<and>
     state_inv (m_calibrationState (sc_cal s)) s"

fun state_budget :: "CALIBRATION_STATE \<Rightarrow> Scope \<Rightarrow> int" where
  "state_budget CALIBRATION_STATE_CLEARED s = 0"
| "state_budget CALIBRATION_STATE_GO_WEST s = (61 - m_calibrationSteps (sc_cal s)) + 61 + max_clearing s + 127"
| "state_budget CALIBRATION_STATE_GO_EAST s = recenter_moves (sc_cal s) + max_clearing s + 127"
| "state_budget CALIBRATION_STATE_CLEAR_BACKLASH s = (m_blMaxClearingPulses (sc_cal s) - m_calibrationSteps (sc_cal s)) + 127"
| "state_budget CALIBRATION_STATE_GO_NORTH s = (61 - m_calibrationSteps (sc_cal s)) + 66"
| "state_budget CALIBRATION_STATE_GO_SOUTH s = recenter_moves (sc_cal s) + 5"
| "state_budget CALIBRATION_STATE_NUDGE_SOUTH s = 5 - m_calibrationSteps (sc_cal s)"
| "state_budget CALIBRATION_STATE_COMPLETE s = 1"

definition cal_budget :: "Scope \<Rightarrow> int" where
  "cal_budget s = state_budget (m_calibrationState (sc_cal s)) s"

definition turn_ok :: "int \<Rightarrow> CALIBRATION_STATE \<Rightarrow> CalTurn \<Rightarrow> bool" where
  "turn_ok b st t \<longleftrightarrow> (case t of
     Break s' \<Rightarrow> cal_inv s' \<and> (m_calibrated (sc_mount s') \<or> cal_budget s' < b)
   | Throw s' \<Rightarrow> scope_good s'
   | Fall l s' \<Rightarrow> cal_inv s' \<and> m_calibrationState (sc_cal s') = st \<and> cal_budget s' \<le> b \<and>
       p_valid (m_calibrationStartingLocation (sc_cal s')))"

lemma sc_alert_simps [simp]:
  "sc_cal (sc_alert a s) = sc_cal s" "sc_mount (sc_alert a s) = sc_mount s"
  "m_calibrationDuration (sc_alert a s) = m_calibrationDuration s"
  "m_calibrationDistance (sc_alert a s) = m_calibrationDistance s"
  "m_calibration (sc_alert a s) = m_calibration s"
  by (simp_all add: sc_alert_def)

lemma ScheduleAxisMove_simps [simp]:
  "sc_cal (ScheduleAxisMove d t s) = sc_cal s" "sc_mount (ScheduleAxisMove d t s) = sc_mount s"
  "m_calibrationDuration (ScheduleAxisMove d t s) = m_calibrationDuration s"
  "m_calibrationDistance (ScheduleAxisMove d t s) = m_calibrationDistance s"
  by (simp_all add: ScheduleAxisMove_def)

lemma with_cal_simps [simp]:
  "sc_cal (with_cal f s) = f (sc_cal s)" "sc_mount (with_cal f s) = sc_mount s"
  "m_calibrationDuration (with_cal f s) = m_calibrationDuration s"
  "m_calibrationDistance (with_cal f s) = m_calibrationDistance s"
  by (simp_all add: with_cal_def)

lemma scope_good_simps [simp]:
  "scope_good (sc_alert a s) = scope_good s" "scope_good (ScheduleAxisMove d t s) = scope_good s"
  "scope_good (with_cal f s) = scope_good s" "scope_good (s\<lparr>sc_cal := c\<rparr>) = scope_good s"
  "scope_good (s\<lparr>m_calibration := cal\<rparr>) = scope_good s"
  by (simp_all add: scope_good_def)

lemma max_clearing_simps [simp]:
  "max_clearing (sc_alert a s) = max_clearing s" "max_clearing (ScheduleAxisMove d t s) = max_clearing s"
  "max_clearing (with_cal f s) = max_clearing s" "max_clearing (s\<lparr>sc_cal := c\<rparr>) = max_clearing s"
  "max_clearing (s\<lparr>m_calibration := cal\<rparr>) = max_clearing s"
  by (simp_all add: max_clearing_def)

lemma max_clearing_ge: "8 \<le> max_clearing s"
  by (simp add: max_clearing_def)

lemma recenter_duration_pos: "0 < dur \<Longrightarrow> dur \<le> recenter_duration env k r mx dur"
  by (simp add: recenter_duration_def Let_def)

lemma recenter_moves_le:
  fixes dur rdur steps :: int
  assumes "0 < dur" "dur \<le> rdur" "0 \<le> steps"
  shows "(steps * dur + rdur - 1) div rdur \<le> steps"
proof -
  have "steps * dur \<le> steps * rdur" using assms(2,3) by (rule mult_left_mono)
  then have "(steps * dur + rdur - 1) div rdur \<le> (steps * rdur + rdur - 1) div rdur"
    using assms by (intro zdiv_mono1) auto
  also have "\<dots> = steps + (rdur - 1) div rdur"
    using div_mult_self1[of rdur "rdur - 1" steps] assms by (simp add: algebra_simps)
  also have "(rdur - 1) div rdur = 0" using assms by (intro div_pos_pos_trivial) auto
  finally show ?thesis by simp
qed

lemma recenter_moves_step:
  assumes "0 < rem" "0 < (rdur :: int)"
  shows "recenter_moves (c\<lparr>m_recenterRemaining := rem - min rdur rem, m_recenterDuration := rdur, m_calibrationSteps := n\<rparr>)
    < (rem + rdur - 1) div rdur"
proof (cases "rem \<le> rdur")
  case True
  then show ?thesis using assms by (simp add: recenter_moves_def pos_imp_zdiv_pos_iff)
next
  case False
  have "(rem + rdur - 1) div rdur = (rem - 1) div rdur + 1"
    using div_add_self2[of rdur "rem - 1"] assms by (simp add: algebra_simps)
  then show ?thesis using False assms by (simp add: recenter_moves_def)
qed

lemma angle_total: "p_valid a \<Longrightarrow> p_valid b \<Longrightarrow> \<exists>r. p_AngleTo a b = Some r"
  by (simp add: p_AngleTo_def p_dX_def p_dY_def)

lemma distance_total: "p_valid a \<Longrightarrow> p_valid b \<Longrightarrow> \<exists>r. p_DistanceTo a b = Some r"
  by (simp add: p_DistanceTo_def p_dX_def p_dY_def)

lemma go_west_turn:
  assumes "cal_inv s" "m_calibrationState (sc_cal s) = CALIBRATION_STATE_GO_WEST"
    "p_valid (m_calibrationStartingLocation (sc_cal s))" "p_valid loc"
  shows "\<exists>t. go_west env loc l s = Some t \<and> turn_ok (cal_budget s) CALIBRATION_STATE_GO_EAST t"
proof -
  obtain dX dY d where l: "l = (dX, dY, d)" by (rule prod_cases3)
  let ?c = "sc_cal s"
  have b: "cal_budget s = (61 - m_calibrationSteps ?c) + 61 + max_clearing s + 127"
    "0 \<le> m_calibrationSteps ?c" "m_calibrationSteps ?c \<le> 61" "scope_good s"
    "p_valid (m_calibrationInitialLocation ?c)"
    using assms by (simp_all add: cal_inv_def cal_budget_def)
  show ?thesis
  proof (cases "d < real_of_int (m_calibrationDistance s)")
    case True
    show ?thesis
    proof (cases "m_calibrationSteps ?c > MAX_CALIBRATION_STEPS")
      case t: True
      with True b show ?thesis by (simp add: go_west_def l Let_def turn_ok_def)
    next
      case f: False
      with True b assms(2) show ?thesis
        by (simp add: go_west_def l Let_def turn_ok_def cal_inv_def cal_budget_def MAX_CALIBRATION_STEPS_def)
    qed
  next
    case False
    obtain ang where ang: "p_AngleTo (m_calibrationStartingLocation ?c) loc = Some ang"
      using angle_total assms(3,4) by blast
    let ?rem = "m_calibrationSteps ?c * m_calibrationDuration s"
    define rdur where "rdur = recenter_duration env 1
      (d / (real_of_int (m_calibrationSteps ?c) * real_of_int (m_calibrationDuration s))) (m_maxRaDuration s) (m_calibrationDuration s)"
    have dur: "0 < m_calibrationDuration s" using b(4) by (simp add: scope_good_def)
    have rd: "m_calibrationDuration s \<le> rdur" using recenter_duration_pos[OF dur] by (simp add: rdur_def)
    have "(?rem + rdur - 1) div rdur \<le> m_calibrationSteps ?c" by (rule recenter_moves_le[OF dur rd b(2)])
    then have m: "recenter_moves (?c\<lparr>m_raSteps := m_calibrationSteps ?c, m_recenterRemaining := ?rem,
        m_recenterDuration := rdur, m_calibrationSteps := k, m_calibrationState := q, m_eastStartingLocation := loc\<rparr>) \<le> 61" for k q
      using b(3) by (simp add: recenter_moves_def)
    show ?thesis
      using False ang b dur rd m[of CALIBRATION_STATE_GO_EAST "DIV_ROUND_UP ?rem rdur"] assms(3,4)
      by (simp add: go_west_def l Let_def turn_ok_def cal_inv_def cal_budget_def rdur_def[symmetric])
  qed
qed

lemma c_mod_budget: "m_calibrationState (sc_cal s) = st \<Longrightarrow> cal_budget s = state_budget st s"
  by (simp add: cal_budget_def)

lemma east_ok_total:
  assumes "p_valid (m_eastStartingLocation c)" "p_valid (m_calibrationStartingLocation c)" "p_valid loc"
  shows "\<exists>b. east_ok c cal loc = Some b"
  using assms by (simp add: east_ok_def p_DistanceTo_def p_AngleTo_def p_dX_def p_dY_def)

lemma go_east_turn:
  assumes "cal_inv s" "m_calibrationState (sc_cal s) = CALIBRATION_STATE_GO_EAST"
    "p_valid (m_calibrationStartingLocation (sc_cal s))" "p_valid loc"
  shows "\<exists>t. go_east env loc l s = Some t \<and> turn_ok (cal_budget s) CALIBRATION_STATE_CLEAR_BACKLASH t"
proof -
  let ?c = "sc_cal s"
  have b: "cal_budget s = recenter_moves ?c + max_clearing s + 127" "scope_good s"
    "p_valid (m_calibrationInitialLocation ?c)" "p_valid (m_eastStartingLocation ?c)" "0 < m_recenterDuration ?c"
    using assms by (simp_all add: cal_inv_def cal_budget_def)
  show ?thesis
  proof (cases "m_recenterRemaining ?c > 0")
    case True
    let ?c' = "?c\<lparr>m_recenterRemaining := m_recenterRemaining ?c - min (m_recenterDuration ?c) (m_recenterRemaining ?c),
        m_calibrationSteps := m_calibrationSteps ?c - 1\<rparr>"
    have "recenter_moves ?c' < recenter_moves ?c"
      using recenter_moves_step[OF True b(5), where c = ?c and n = "m_calibrationSteps ?c - 1"] True by (simp add: recenter_moves_def)
    with True b assms(2) show ?thesis
      by (simp add: go_east_def Let_def turn_ok_def cal_inv_def cal_budget_def)
  next
    case False
    obtain ok where ok: "(if \<not> ce_canPulseGuide env then east_ok ?c (m_calibration s) loc else Some True) = Some ok"
      using east_ok_total[OF b(4) assms(3,4), of "m_calibration s"] by (cases "ce_canPulseGuide env") auto
    let ?s1 = "if ok then s else sc_alert AlertNoEastMovement s"
    have s1: "scope_good ?s1" "max_clearing ?s1 = max_clearing s" by (simp_all add: b(2))
    have bud: "cal_budget s = max_clearing s + 127" using False b(1) by (simp add: recenter_moves_def)
    note mc = max_clearing_ge[of s]
    show ?thesis
    proof (cases "m_decGuideMode s = DEC_NONE")
      case True
      with False ok b s1 bud mc assms show ?thesis
        by (cases ok) (simp_all add: go_east_def Let_def turn_ok_def cal_inv_def cal_budget_def)
    next
      case n: False
      with False ok b s1 bud mc assms show ?thesis
        by (cases ok) (simp_all add: go_east_def Let_def turn_ok_def cal_inv_def cal_budget_def max_clearing_def)
    qed
  qed
qed

lemma bl_finish_turn:
  assumes "scope_good s" "p_valid (m_calibrationInitialLocation c)" "p_valid (m_blMarkerPoint c)"
    "p_valid (m_calibrationStartingLocation c)" "0 \<le> m_calibrationSteps c" "m_calibrationSteps c \<le> 1" "127 \<le> b"
  shows "\<exists>t. bl_finish l c s = Some t \<and> turn_ok b CALIBRATION_STATE_GO_NORTH t"
proof -
  obtain r where "p_DistanceTo (m_blMarkerPoint c) (m_calibrationInitialLocation c) = Some r"
    using distance_total assms(2,3) by blast
  with assms show ?thesis by (simp add: bl_finish_def turn_ok_def cal_inv_def cal_budget_def)
qed

lemma clear_backlash_turn:
  assumes "cal_inv s" "m_calibrationState (sc_cal s) = CALIBRATION_STATE_CLEAR_BACKLASH"
    "p_valid (m_calibrationStartingLocation (sc_cal s))" "p_valid loc"
  shows "\<exists>t. clear_backlash env loc l s = Some t \<and> turn_ok (cal_budget s) CALIBRATION_STATE_GO_NORTH t"
proof -
  obtain dX dY d where l: "l = (dX, dY, d)" by (rule prod_cases3)
  let ?c = "sc_cal s"
  have b: "cal_budget s = (m_blMaxClearingPulses ?c - m_calibrationSteps ?c) + 127" "scope_good s"
    "p_valid (m_calibrationInitialLocation ?c)" "p_valid (m_blMarkerPoint ?c)" "0 \<le> m_calibrationSteps ?c"
    "m_calibrationSteps ?c \<le> m_blMaxClearingPulses ?c" and c8: "8 \<le> m_blMaxClearingPulses ?c"
    using assms by (simp_all add: cal_inv_def cal_budget_def)
  obtain bd where bd: "p_DistanceTo (m_blMarkerPoint ?c) loc = Some bd" using distance_total b(4) assms(4) by blast
  obtain dx dy where dxy: "p_dX (m_blMarkerPoint ?c) loc = Some dx" "p_dY (m_blMarkerPoint ?c) loc = Some dy"
    using b(4) assms(4) by (simp add: p_dX_def p_dY_def)
  define acc where "acc = bl_accepted ?c bd d"
  define c1 where "c1 = ?c\<lparr>m_blAcceptedMoves := acc\<rparr>"
  have c1: "p_valid (m_calibrationInitialLocation c1)" "p_valid (m_blMarkerPoint c1)" "127 \<le> cal_budget s"
    using b by (simp_all add: c1_def)
  have f0: "\<exists>t. bl_finish l' (c1\<lparr>m_calibrationSteps := 0, m_calibrationStartingLocation := loc\<rparr>) s = Some t \<and>
      turn_ok (cal_budget s) CALIBRATION_STATE_GO_NORTH t" for l'
    using c1 b(2) assms(4) by (intro bl_finish_turn) simp_all
  have f1: "\<exists>t. bl_finish l' (c1\<lparr>m_calibrationSteps := 1, m_calibrationStartingLocation := m_blMarkerPoint ?c\<rparr>) s = Some t \<and>
      turn_ok (cal_budget s) CALIBRATION_STATE_GO_NORTH t" for l'
    using c1 b(2,4) by (intro bl_finish_turn) simp_all
  show ?thesis
  proof (cases "m_calibrationSteps ?c = 0")
    case True
    with bd b assms c8 show ?thesis
      by (simp add: clear_backlash_def l Let_def turn_ok_def cal_inv_def cal_budget_def)
  next
    case n0: False
    show ?thesis
    proof (cases "acc < BL_BACKLASH_MIN_COUNT")
      case False
      with n0 bd dxy f1[of "(dx, dy, bd)"] show ?thesis
        by (simp add: clear_backlash_def l Let_def acc_def[symmetric] c1_def[symmetric])
    next
      case t: True
      consider "m_calibrationSteps ?c < m_blMaxClearingPulses ?c \<and> d < real_of_int (m_calibrationDistance s)"
        | "\<not> (m_calibrationSteps ?c < m_blMaxClearingPulses ?c \<and> d < real_of_int (m_calibrationDistance s))"
          "d \<ge> real_of_int BL_MIN_CLEARING_DISTANCE"
        | "\<not> (m_calibrationSteps ?c < m_blMaxClearingPulses ?c \<and> d < real_of_int (m_calibrationDistance s))"
          "\<not> d \<ge> real_of_int BL_MIN_CLEARING_DISTANCE" by blast
      then show ?thesis
      proof cases
        case 1
        with n0 t bd b assms show ?thesis
          by (simp add: clear_backlash_def l Let_def acc_def[symmetric] turn_ok_def cal_inv_def cal_budget_def)
      next
        case 2
        with n0 t bd f0[of "(0, 0, 0)"] show ?thesis
          by (auto simp: clear_backlash_def l Let_def acc_def[symmetric] c1_def[symmetric])
      next
        case 3
        with n0 t bd b(2) show ?thesis
          by (auto simp: clear_backlash_def l Let_def acc_def[symmetric] turn_ok_def)
      qed
    qed
  qed
qed

lemma go_north_turn:
  assumes "cal_inv s" "m_calibrationState (sc_cal s) = CALIBRATION_STATE_GO_NORTH"
    "p_valid (m_calibrationStartingLocation (sc_cal s))" "p_valid loc"
  shows "\<exists>t. go_north env loc l s = Some t \<and> turn_ok (cal_budget s) CALIBRATION_STATE_GO_SOUTH t"
proof -
  obtain dX dY d where l: "l = (dX, dY, d)" by (rule prod_cases3)
  let ?c = "sc_cal s"
  have b: "cal_budget s = (61 - m_calibrationSteps ?c) + 66"
    "0 \<le> m_calibrationSteps ?c" "m_calibrationSteps ?c \<le> 61" "scope_good s"
    "p_valid (m_calibrationInitialLocation ?c)"
    using assms by (simp_all add: cal_inv_def cal_budget_def)
  show ?thesis
  proof (cases "d < real_of_int (m_calibrationDistance s)")
    case True
    show ?thesis
    proof (cases "m_calibrationSteps ?c > MAX_CALIBRATION_STEPS")
      case t: True
      with True b show ?thesis by (simp add: go_north_def l Let_def turn_ok_def)
    next
      case f: False
      with True b assms(2) show ?thesis
        by (simp add: go_north_def l Let_def turn_ok_def cal_inv_def cal_budget_def MAX_CALIBRATION_STEPS_def)
    qed
  next
    case False
    obtain ang where ang: "p_AngleTo loc (m_calibrationStartingLocation ?c) = Some ang"
      using angle_total assms(3,4) by blast
    obtain ya r where y: "measured_y s ang d = (ya, r)" by fastforce
    let ?rem = "m_calibrationSteps ?c * m_calibrationDuration s"
    define rdur where "rdur = recenter_duration env (4 / 5) r (m_maxDecDuration s) (m_calibrationDuration s)"
    have dur: "0 < m_calibrationDuration s" using b(4) by (simp add: scope_good_def)
    have rd: "m_calibrationDuration s \<le> rdur" using recenter_duration_pos[OF dur] by (simp add: rdur_def)
    have "(?rem + rdur - 1) div rdur \<le> m_calibrationSteps ?c" by (rule recenter_moves_le[OF dur rd b(2)])
    then have m: "recenter_moves (?c\<lparr>m_decSteps := m_calibrationSteps ?c, m_recenterRemaining := ?rem,
        m_recenterDuration := rdur, m_calibrationSteps := k, m_calibrationState := q, m_southStartingLocation := loc\<rparr>)
        \<le> m_calibrationSteps ?c" for k q
      using b(2) by (simp add: recenter_moves_def)
    show ?thesis
      using False ang y b dur rd m[of CALIBRATION_STATE_GO_SOUTH "DIV_ROUND_UP ?rem rdur"] assms(3,4)
      by (simp add: go_north_def l Let_def turn_ok_def cal_inv_def cal_budget_def rdur_def[symmetric])
  qed
qed

lemma MountCoords_total: "p_valid v \<Longrightarrow> \<exists>mc. MountCoords v x y = Some mc"
  by (simp add: MountCoords_def p_Angle_def p_AngleTo_def p_dX_def p_dY_def Let_def)

lemma p_sub_total: "p_valid a \<Longrightarrow> p_valid b \<Longrightarrow> \<exists>v. p_sub a b = Some v \<and> p_valid v"
  by (simp add: p_sub_def)

lemma dX_total: "p_valid a \<Longrightarrow> p_valid b \<Longrightarrow> \<exists>d. p_dX a b = Some d"
  "p_valid a \<Longrightarrow> p_valid b \<Longrightarrow> \<exists>d. p_dY a b = Some d"
  by (simp_all add: p_dX_def p_dY_def)

lemma go_south_turn:
  assumes "cal_inv s" "m_calibrationState (sc_cal s) = CALIBRATION_STATE_GO_SOUTH"
    "p_valid (m_calibrationStartingLocation (sc_cal s))" "p_valid loc"
  shows "\<exists>t. go_south env loc l s = Some t \<and> turn_ok (cal_budget s) CALIBRATION_STATE_NUDGE_SOUTH t"
proof -
  let ?c = "sc_cal s"
  have b: "cal_budget s = recenter_moves ?c + 5" "scope_good s"
    "p_valid (m_calibrationInitialLocation ?c)" "p_valid (m_southStartingLocation ?c)" "0 < m_recenterDuration ?c"
    using assms by (simp_all add: cal_inv_def cal_budget_def)
  show ?thesis
  proof (cases "m_recenterRemaining ?c > 0")
    case True
    let ?c' = "?c\<lparr>m_recenterRemaining := m_recenterRemaining ?c - min (m_recenterDuration ?c) (m_recenterRemaining ?c),
        m_calibrationSteps := m_calibrationSteps ?c - 1\<rparr>"
    have "recenter_moves ?c' < recenter_moves ?c"
      using recenter_moves_step[OF True b(5), where c = ?c and n = "m_calibrationSteps ?c - 1"] True
      by (simp add: recenter_moves_def)
    with True b assms(2) show ?thesis
      by (simp add: go_south_def Let_def turn_ok_def cal_inv_def cal_budget_def)
  next
    case False
    obtain dx dy d where d: "p_dX (m_calibrationInitialLocation ?c) (m_southStartingLocation ?c) = Some dx"
      "p_dY (m_calibrationInitialLocation ?c) (m_southStartingLocation ?c) = Some dy"
      "p_DistanceTo (m_calibrationInitialLocation ?c) (m_southStartingLocation ?c) = Some d"
      using dX_total[OF b(3,4)] distance_total[OF b(3,4)] by blast
    obtain v mc where v: "p_sub (m_southStartingLocation ?c) loc = Some v"
      "MountCoords v (xAngle (m_calibration s)) (yAngle (m_calibration s)) = Some mc"
      using p_sub_total[OF b(4) assms(4)] MountCoords_total by blast
    have "0 \<le> recenter_moves ?c" using False by (simp add: recenter_moves_def)
    with False b d v assms(3) show ?thesis
      by (simp add: go_south_def Let_def turn_ok_def cal_inv_def cal_budget_def)
  qed
qed

lemma nudge_south_turn:
  assumes "cal_inv s" "m_calibrationState (sc_cal s) = CALIBRATION_STATE_NUDGE_SOUTH"
    "p_valid (m_calibrationStartingLocation (sc_cal s))" "p_valid loc"
  shows "\<exists>t. nudge_south env loc l s = Some t \<and> turn_ok (cal_budget s) CALIBRATION_STATE_COMPLETE t"
proof -
  let ?c = "sc_cal s"
  have b: "cal_budget s = 5 - m_calibrationSteps ?c" "scope_good s"
    "p_valid (m_calibrationInitialLocation ?c)" "0 \<le> m_calibrationSteps ?c" "m_calibrationSteps ?c \<le> 4"
    using assms by (simp_all add: cal_inv_def cal_budget_def)
  obtain dx dy d where d: "p_dX loc (m_calibrationInitialLocation ?c) = Some dx"
    "p_dY loc (m_calibrationInitialLocation ?c) = Some dy" "p_DistanceTo loc (m_calibrationInitialLocation ?c) = Some d"
    using dX_total[OF assms(4) b(3)] distance_total[OF assms(4) b(3)] by blast
  obtain v mc where v: "p_sub loc (m_calibrationInitialLocation ?c) = Some v"
    "MountCoords v (xAngle (m_calibration s)) (yAngle (m_calibration s)) = Some mc"
    using p_sub_total[OF assms(4) b(3)] MountCoords_total by blast
  define go where "go \<longleftrightarrow> nudge_direction_ok (dir_cos dx d) (dir_cos dy d) (m_northDirCosX ?c) (m_northDirCosY ?c) \<and>
     m_calibrationSteps ?c \<le> MAX_NUDGES \<and> d > NUDGE_TOLERANCE \<and>
     d < real_of_int (m_calibrationDistance s) + m_blDistanceMoved ?c \<and> pY mc * m_totalSouthAmt ?c > 0"
  have eq: "nudge_south env loc l s = Some (if go
      then Break (ScheduleAxisMove SOUTH (min (c_int_quot (ce_bad env) (min \<bar>pY mc\<bar> (real_of_int (ce_maxMovePixels env)))
             (yRate (m_calibration s))) (m_calibrationDuration s)) (s\<lparr>sc_cal := ?c\<lparr>m_calibrationSteps := m_calibrationSteps ?c + 1\<rparr>\<rparr>))
      else Fall l (s\<lparr>sc_cal := ?c\<lparr>m_calibrationState := CALIBRATION_STATE_COMPLETE\<rparr>\<rparr>))"
    using d v by (simp add: nudge_south_def Let_def go_def)
  show ?thesis
  proof (cases go)
    case True
    then have "m_calibrationSteps ?c \<le> 3" by (simp add: go_def MAX_NUDGES_def)
    with True b assms(2) show ?thesis by (simp add: eq turn_ok_def cal_inv_def cal_budget_def)
  next
    case False
    with b assms(3) show ?thesis by (simp add: eq turn_ok_def cal_inv_def cal_budget_def)
  qed
qed

text \<open>The bookkeeping of the details touches neither the mount nor the calibration variables.\<close>

definition same_core :: "Scope \<Rightarrow> Scope \<Rightarrow> bool" where
  "same_core s s' \<longleftrightarrow> sc_cal s' = sc_cal s \<and> sc_mount s' = sc_mount s \<and>
     m_calibrationDuration s' = m_calibrationDuration s \<and> m_calibrationDistance s' = m_calibrationDistance s \<and>
     m_calibration s' = m_calibration s \<and> m_decGuideMode s' = m_decGuideMode s \<and> sc_moves s' = sc_moves s"

lemma same_core_refl: "same_core s s"
  by (simp add: same_core_def)

lemma same_core_trans: "same_core s t \<Longrightarrow> same_core t u \<Longrightarrow> same_core s u"
  by (simp add: same_core_def)

lemma same_core_save: "same_core s (SaveCalibrationDetails d s)"
  by (simp add: same_core_def SaveCalibrationDetails_def Let_def)

lemma same_core_load: "LoadCalibrationDetails s = (d, s') \<Longrightarrow> same_core s s'"
  by (auto simp: same_core_def LoadCalibrationDetails_def Let_def split: if_splits)

lemma same_core_upd:
  "same_core s (s\<lparr>m_calibrationDetails := d\<rparr>)" "same_core s (s\<lparr>m_lastCalibrationIssue := i\<rparr>)"
  "same_core s (s\<lparr>m_prevCalibration := c, m_prevCalibrationDetails := d\<rparr>)" "same_core s (sc_alert a s)"
  by (simp_all add: same_core_def sc_alert_def)

lemma same_core_set: "same_core s (SetCalibrationDetails env d x y b s)"
  unfolding SetCalibrationDetails_def Let_def
  by (cases "case ce_guideRates env of None \<Rightarrow> (- 1, - 1) | Some r \<Rightarrow> r")
     (simp, rule same_core_trans[OF same_core_upd(1) same_core_save])

lemma same_core_flag: "same_core s (FlagCalibrationIssue d i s)"
  unfolding FlagCalibrationIssue_def Let_def by (rule same_core_trans[OF same_core_upd(1) same_core_save])

lemma same_core_sanity: "same_core s (SanityCheckCalibration c d s)"
proof -
  obtain nd s1 where l: "LoadCalibrationDetails s = (nd, s1)" by fastforce
  have 1: "same_core s (s1\<lparr>m_lastCalibrationIssue := i\<rparr>)" for i
    by (rule same_core_trans[OF same_core_load[OF l] same_core_upd(2)])
  have 2: "same_core s (sc_alert a (FlagCalibrationIssue nd i (s1\<lparr>m_lastCalibrationIssue := j\<rparr>)))" for a i j
    by (rule same_core_trans[OF same_core_trans[OF 1 same_core_flag] same_core_upd(4)])
  show ?thesis using 1 2 by (simp add: SanityCheckCalibration_def l Let_def)
qed

lemma cal_complete_result:
  "\<exists>s' cal. cal_complete env loc l s = Some (Break s') \<and>
     cal = (m_calibration s)\<lparr>declination := ce_declination env, pierSide := ce_pierSide env,
              rotatorAngle := ce_rotatorAngle env, binning := ce_binning env\<rparr> \<and>
     sc_cal s' = sc_cal s \<and> m_calibrationDuration s' = m_calibrationDuration s \<and>
     m_calibrationDistance s' = m_calibrationDistance s \<and> m_calibration s' = cal \<and>
     sc_mount s' = Mount_SetCalibration cal (sc_mount s) \<and> m_decGuideMode s' = m_decGuideMode s \<and>
     sc_moves s' = sc_moves s"
proof -
  obtain pd s1 where l: "LoadCalibrationDetails s = (pd, s1)" by fastforce
  let ?prev = "GetLastCalibration (sc_mount s) (m_prevCalibration s)"
  let ?cal = "(m_calibration s)\<lparr>declination := ce_declination env, pierSide := ce_pierSide env,
      rotatorAngle := ce_rotatorAngle env, binning := ce_binning env\<rparr>"
  define s2 where "s2 = scope_SetCalibration ?cal (s1\<lparr>m_prevCalibration := ?prev, m_prevCalibrationDetails := pd\<rparr>)"
  have s2: "sc_cal s2 = sc_cal s" "m_calibrationDuration s2 = m_calibrationDuration s"
    "m_calibrationDistance s2 = m_calibrationDistance s" "m_calibration s2 = ?cal"
    "sc_mount s2 = Mount_SetCalibration ?cal (sc_mount s)" "m_decGuideMode s2 = m_decGuideMode s" "sc_moves s2 = sc_moves s"
    using same_core_load[OF l] by (simp_all add: s2_def scope_SetCalibration_def same_core_def)
  define s4 where "s4 = SanityCheckCalibration ?prev pd (SetCalibrationDetails env
      ((m_calibrationDetails s2)\<lparr>raStepCount := m_raSteps (sc_cal s), decStepCount := m_decSteps (sc_cal s)\<rparr>)
      (xAngle ?cal) (yAngle ?cal) (binning ?cal) s2)"
  have "same_core s2 (sc_alert CalibrationComplete s4)"
    unfolding s4_def
    by (rule same_core_trans[OF same_core_trans[OF same_core_set same_core_sanity] same_core_upd(4)])
  moreover have "cal_complete env loc l s = Some (Break (sc_alert CalibrationComplete s4))"
    by (simp add: cal_complete_def Let_def l s2_def s4_def)
  ultimately show ?thesis using s2 unfolding same_core_def by metis
qed

lemma cal_complete_turn:
  assumes "cal_inv s" "m_calibrationState (sc_cal s) = CALIBRATION_STATE_COMPLETE"
  shows "\<exists>s'. cal_complete env loc l s = Some (Break s') \<and> cal_inv s' \<and> m_calibrated (sc_mount s')"
proof -
  obtain s' cal where s': "cal_complete env loc l s = Some (Break s')" "sc_cal s' = sc_cal s"
    "m_calibrationDuration s' = m_calibrationDuration s" "m_calibrationDistance s' = m_calibrationDistance s"
    "sc_mount s' = Mount_SetCalibration cal (sc_mount s)"
    using cal_complete_result by blast
  then have "cal_inv s'" using assms by (simp add: cal_inv_def scope_good_def Mount_SetCalibration_def)
  then show ?thesis using s' by (auto simp: Mount_SetCalibration_def)
qed

section \<open>Composition of the cases\<close>

text \<open>The result of a call: an error leaves the scope ready for a new calibration; otherwise the
  calibration is done or has fewer frames left.\<close>

definition call_ok :: "int \<Rightarrow> (bool \<times> Scope) option \<Rightarrow> bool" where
  "call_ok b r \<longleftrightarrow> (case r of None \<Rightarrow> False | Some (err, s') \<Rightarrow>
     scope_good s' \<and> (\<not> err \<longrightarrow> cal_inv s' \<and> (m_calibrated (sc_mount s') \<or> cal_budget s' < b)))"

lemma scope_good_clear: "scope_good s \<Longrightarrow> scope_good (scope_ClearCalibration s)"
  by (simp add: scope_good_def scope_ClearCalibration_def Mount_ClearCalibration_def)

lemma cal_inv_good: "cal_inv s \<Longrightarrow> scope_good s"
  by (simp add: cal_inv_def)

lemma run_cases_step:
  assumes "\<exists>t. f env loc l s = Some t \<and> turn_ok b st t"
    and "\<And>l' s'. cal_inv s' \<Longrightarrow> m_calibrationState (sc_cal s') = st \<Longrightarrow>
      p_valid (m_calibrationStartingLocation (sc_cal s')) \<Longrightarrow> call_ok (cal_budget s') (run_cases fs env loc l' s')"
  shows "call_ok b (run_cases (f # fs) env loc l s)"
proof -
  obtain t where t: "f env loc l s = Some t" "turn_ok b st t" using assms(1) by blast
  show ?thesis
  proof (cases t)
    case (Break s')
    with t show ?thesis by (simp add: call_ok_def turn_ok_def cal_inv_good)
  next
    case (Throw s')
    with t show ?thesis by (simp add: call_ok_def turn_ok_def scope_good_clear)
  next
    case (Fall l' s')
    with t have "cal_inv s'" "m_calibrationState (sc_cal s') = st" "cal_budget s' \<le> b"
      "p_valid (m_calibrationStartingLocation (sc_cal s'))" by (simp_all add: turn_ok_def)
    moreover from assms(2)[OF this(1,2,4)] have "call_ok (cal_budget s') (run_cases fs env loc l' s')" .
    ultimately have "call_ok b (run_cases fs env loc l' s')"
      by (auto simp: call_ok_def split: option.splits)
    with t(1) Fall show ?thesis by simp
  qed
qed

lemma run_cases_ok:
  assumes "cal_inv s" "p_valid loc" "p_valid (m_calibrationStartingLocation (sc_cal s))"
  shows "call_ok (cal_budget s) (run_cases (cases_from (m_calibrationState (sc_cal s))) env loc l s)"
proof -
  have complete: "call_ok (cal_budget s) (run_cases [cal_complete] env loc l s)"
    if "cal_inv s" "m_calibrationState (sc_cal s) = CALIBRATION_STATE_COMPLETE"
      "p_valid (m_calibrationStartingLocation (sc_cal s))" for l s
    using cal_complete_turn[OF that(1,2), of env loc l] by (auto simp: call_ok_def cal_inv_good)
  have nudge: "call_ok (cal_budget s) (run_cases [nudge_south, cal_complete] env loc l s)"
    if "cal_inv s" "m_calibrationState (sc_cal s) = CALIBRATION_STATE_NUDGE_SOUTH"
      "p_valid (m_calibrationStartingLocation (sc_cal s))" for l s
    by (rule run_cases_step, rule nudge_south_turn[OF that assms(2)], rule complete; assumption)
  have south: "call_ok (cal_budget s) (run_cases [go_south, nudge_south, cal_complete] env loc l s)"
    if "cal_inv s" "m_calibrationState (sc_cal s) = CALIBRATION_STATE_GO_SOUTH"
      "p_valid (m_calibrationStartingLocation (sc_cal s))" for l s
    by (rule run_cases_step, rule go_south_turn[OF that assms(2)], rule nudge; assumption)
  have north: "call_ok (cal_budget s) (run_cases [go_north, go_south, nudge_south, cal_complete] env loc l s)"
    if "cal_inv s" "m_calibrationState (sc_cal s) = CALIBRATION_STATE_GO_NORTH"
      "p_valid (m_calibrationStartingLocation (sc_cal s))" for l s
    by (rule run_cases_step, rule go_north_turn[OF that assms(2)], rule south; assumption)
  have backlash: "call_ok (cal_budget s) (run_cases [clear_backlash, go_north, go_south, nudge_south, cal_complete] env loc l s)"
    if "cal_inv s" "m_calibrationState (sc_cal s) = CALIBRATION_STATE_CLEAR_BACKLASH"
      "p_valid (m_calibrationStartingLocation (sc_cal s))" for l s
    by (rule run_cases_step, rule clear_backlash_turn[OF that assms(2)], rule north; assumption)
  have east: "call_ok (cal_budget s) (run_cases [go_east, clear_backlash, go_north, go_south, nudge_south, cal_complete] env loc l s)"
    if "cal_inv s" "m_calibrationState (sc_cal s) = CALIBRATION_STATE_GO_EAST"
      "p_valid (m_calibrationStartingLocation (sc_cal s))" for l s
    by (rule run_cases_step, rule go_east_turn[OF that assms(2)], rule backlash; assumption)
  have west: "call_ok (cal_budget s) (run_cases [go_west, go_east, clear_backlash, go_north, go_south, nudge_south, cal_complete] env loc l s)"
    if "cal_inv s" "m_calibrationState (sc_cal s) = CALIBRATION_STATE_GO_WEST"
      "p_valid (m_calibrationStartingLocation (sc_cal s))" for l s
    by (rule run_cases_step, rule go_west_turn[OF that assms(2)], rule east; assumption)
  have "m_calibrationState (sc_cal s) \<noteq> CALIBRATION_STATE_CLEARED" using assms(1) by (auto simp: cal_inv_def)
  then show ?thesis
    using west[OF assms(1) _ assms(3)] east[OF assms(1) _ assms(3)] backlash[OF assms(1) _ assms(3)]
      north[OF assms(1) _ assms(3)] south[OF assms(1) _ assms(3)] nudge[OF assms(1) _ assms(3)]
      complete[OF assms(1) _ assms(3)]
    by (cases "m_calibrationState (sc_cal s)") simp_all
qed

lemma UpdateCalibrationState_ok:
  assumes "cal_inv s" "p_valid loc"
  shows "call_ok (cal_budget s) (UpdateCalibrationState env loc s)"
proof -
  define s1 where "s1 = (if \<not> p_valid (m_calibrationStartingLocation (sc_cal s))
      then with_cal (\<lambda>c. c\<lparr>m_calibrationStartingLocation := loc, m_calibrationStartingCoords := ce_coords env\<rparr>) s else s)"
  have v: "p_valid (m_calibrationStartingLocation (sc_cal s1))" using assms(2) by (simp add: s1_def)
  have i: "cal_inv s1" "cal_budget s1 = cal_budget s"
    using assms(1)
    by (cases "m_calibrationState (sc_cal s)"; simp add: s1_def cal_inv_def cal_budget_def recenter_moves_def)+
  obtain dx dy d where d: "p_dX (m_calibrationStartingLocation (sc_cal s1)) loc = Some dx"
    "p_dY (m_calibrationStartingLocation (sc_cal s1)) loc = Some dy"
    "p_DistanceTo (m_calibrationStartingLocation (sc_cal s1)) loc = Some d"
    using dX_total[OF v assms(2)] distance_total[OF v assms(2)] by blast
  show ?thesis
    using run_cases_ok[OF i(1) assms(2) v, of env "(dx, dy, d)"] d i(2)
    by (simp add: UpdateCalibrationState_def Let_def s1_def[symmetric])
qed

section \<open>Runs of a calibration\<close>

text \<open>Frames until an error or until the scope is calibrated.\<close>

fun cal_run :: "(CalEnv \<times> PHD_Point) list \<Rightarrow> Scope \<Rightarrow> (bool \<times> Scope) option" where
  "cal_run [] s = Some (False, s)"
| "cal_run ((env, loc) # fs) s =
     (if m_calibrated (sc_mount s) then Some (False, s)
      else case UpdateCalibrationState env loc s of
             None \<Rightarrow> None
           | Some (err, s') \<Rightarrow> if err then Some (True, s') else cal_run fs s')"

lemma CheckCalibrationDuration_good: "scope_good s \<Longrightarrow> scope_good (CheckCalibrationDuration env s)"
proof -
  assume g: "scope_good s"
  obtain d s1 where l: "LoadCalibrationDetails s = (d, s1)" by fastforce
  have g1: "scope_good s1" using same_core_load[OF l] g by (simp add: same_core_def scope_good_def)
  have dist: "scope_good t \<Longrightarrow> scope_good (snd (SetCalibrationDistance n t))" for n t
    by (simp add: scope_good_def SetCalibrationDistance_def DEFAULT_DISTANCE_def)
  have dur: "scope_good t \<Longrightarrow> scope_good (snd (SetCalibrationDuration n t))" for n t
    by (simp add: scope_good_def SetCalibrationDuration_def DefaultCalibrationDuration_def)
  show ?thesis
    using g1 by (auto simp: CheckCalibrationDuration_def l Let_def dist dur split: option.splits prod.splits)
qed

lemma BeginCalibration_ok:
  assumes "scope_good s" "BeginCalibration env loc s = (err, s')"
  shows "scope_good s' \<and> (err \<longleftrightarrow> \<not> m_connected (sc_mount s) \<or> \<not> p_valid loc) \<and>
    (\<not> err \<longrightarrow> cal_inv s' \<and> m_calibrationState (sc_cal s') = CALIBRATION_STATE_GO_WEST \<and>
      m_calibrationSteps (sc_cal s') = 0 \<and> \<not> p_valid (m_calibrationStartingLocation (sc_cal s')) \<and>
      \<not> m_calibrated (sc_mount s') \<and> m_calibrationInitialLocation (sc_cal s') = loc)"
proof -
  have g: "scope_good (scope_ClearCalibration (CheckCalibrationDuration env s))"
    by (intro scope_good_clear CheckCalibrationDuration_good assms(1))
  show ?thesis
  proof (cases "m_connected (sc_mount s) \<and> p_valid loc")
    case False
    then have "BeginCalibration env loc s = (True, s)" by (auto simp: BeginCalibration_def Mount_IsConnected_def)
    with assms False show ?thesis by auto
  next
    case True
    with assms(2) have s': "\<not> err" "s' = snd (BeginCalibration env loc s)"
      by (auto simp: BeginCalibration_def Mount_IsConnected_def Let_def)
    show ?thesis
      using True g s' by (simp add: BeginCalibration_def Mount_IsConnected_def Let_def cal_inv_def scope_good_def
          scope_ClearCalibration_def Mount_ClearCalibration_def)
  qed
qed

lemma recenter_moves_nonneg: "0 < m_recenterDuration c \<Longrightarrow> 0 \<le> recenter_moves c"
  by (simp add: recenter_moves_def pos_imp_zdiv_nonneg_iff)

lemma cal_run_ends:
  "cal_inv s \<Longrightarrow> \<forall>f\<in>set fs. p_valid (snd f) \<Longrightarrow> cal_budget s \<le> int (length fs) \<Longrightarrow>
     \<exists>err s'. cal_run fs s = Some (err, s') \<and> scope_good s' \<and> (err \<or> m_calibrated (sc_mount s'))"
proof (induction fs arbitrary: s)
  case Nil
  then have "0 < cal_budget s"
    using max_clearing_ge[of s]
    by (cases "m_calibrationState (sc_cal s)")
       (auto simp: cal_inv_def cal_budget_def dest!: recenter_moves_nonneg)
  with Nil show ?case by simp
next
  case (Cons f fs)
  obtain env loc where f: "f = (env, loc)" by fastforce
  show ?case
  proof (cases "m_calibrated (sc_mount s)")
    case True
    then have "cal_run (f # fs) s = Some (False, s)" using f by simp
    with True Cons.prems(1) show ?thesis by (auto intro: cal_inv_good)
  next
    case False
    have "call_ok (cal_budget s) (UpdateCalibrationState env loc s)"
      using Cons.prems f by (intro UpdateCalibrationState_ok) simp_all
    then obtain err s1 where s1: "UpdateCalibrationState env loc s = Some (err, s1)" "scope_good s1"
      "\<not> err \<Longrightarrow> cal_inv s1 \<and> (m_calibrated (sc_mount s1) \<or> cal_budget s1 < cal_budget s)"
      by (auto simp: call_ok_def split: option.splits)
    show ?thesis
    proof (cases err)
      case True
      with s1 False f show ?thesis by auto
    next
      case ne: False
      show ?thesis
      proof (cases "m_calibrated (sc_mount s1)")
        case True
        then have "cal_run fs s1 = Some (False, s1)" by (cases fs) auto
        with True ne s1 False f show ?thesis by auto
      next
        case nc: False
        have "\<exists>err s'. cal_run fs s1 = Some (err, s') \<and> scope_good s' \<and> (err \<or> m_calibrated (sc_mount s'))"
          using s1(3)[OF ne] nc Cons.prems by (intro Cons.IH) auto
        with ne s1 False f show ?thesis by simp
      qed
    qed
  qed
qed

text \<open>The west leg of a mount that moves the star by \<open>u\<close> per pulse.\<close>

definition star_at :: "PHD_Point \<Rightarrow> real \<times> real \<Rightarrow> nat \<Rightarrow> PHD_Point" where
  "star_at p u k = PHD_Point_new (pX p + real k * fst u) (pY p + real k * snd u)"

fun cal_frames :: "(CalEnv \<times> PHD_Point) list \<Rightarrow> Scope \<Rightarrow> (bool \<times> Scope) option" where
  "cal_frames [] s = Some (False, s)"
| "cal_frames ((env, loc) # fs) s =
     (case UpdateCalibrationState env loc s of
        None \<Rightarrow> None | Some (err, s') \<Rightarrow> if err then Some (True, s') else cal_frames fs s')"

lemma cal_frames_append:
  "cal_frames xs s = Some (False, s1) \<Longrightarrow> cal_frames (xs @ ys) s = cal_frames ys s1"
  by (induction xs arbitrary: s) (auto split: option.splits prod.splits if_splits)

lemma hypot_scale: "hypot (k * x) (k * y) = \<bar>k\<bar> * hypot x y"
proof -
  have "(k * x) * (k * x) + (k * y) * (k * y) = (k * k) * (x * x + y * y)" by (simp add: algebra_simps)
  then show ?thesis by (simp add: hypot_def real_sqrt_mult)
qed

text \<open>The scope after \<open>k\<close> west pulses; the starting point is set by the first frame.\<close>

definition west_state :: "PHD_Point \<Rightarrow> Scope \<Rightarrow> nat \<Rightarrow> Scope \<Rightarrow> bool" where
  "west_state p s0 k s \<longleftrightarrow> m_calibrationState (sc_cal s) = CALIBRATION_STATE_GO_WEST \<and>
     m_calibrationSteps (sc_cal s) = int k \<and> m_calibrationDuration s = m_calibrationDuration s0 \<and>
     m_calibrationDistance s = m_calibrationDistance s0 \<and> m_maxRaDuration s = m_maxRaDuration s0 \<and>
     (if k = 0 then \<not> p_valid (m_calibrationStartingLocation (sc_cal s))
      else p_valid (m_calibrationStartingLocation (sc_cal s)) \<and>
           pX (m_calibrationStartingLocation (sc_cal s)) = pX p \<and> pY (m_calibrationStartingLocation (sc_cal s)) = pY p) \<and>
     sc_moves s = sc_moves s0 @ replicate k (WEST, m_calibrationDuration s0)"

lemma west_pulse:
  assumes "west_state p s0 k s" "real k * hypot (fst u) (snd u) < real_of_int (m_calibrationDistance s0)"
    "int k \<le> 60" "p_valid p"
  shows "\<exists>s'. UpdateCalibrationState env (star_at p u k) s = Some (False, s') \<and> west_state p s0 (Suc k) s'"
proof -
  have h: "hypot (pX p - (pX p + real k * fst u)) (pY p - (pY p + real k * snd u)) = real k * hypot (fst u) (snd u)"
    using hypot_scale[of "real k" "fst u" "snd u"] by simp
  show ?thesis
    using assms h
    by (cases "k = 0") (simp_all add: west_state_def UpdateCalibrationState_def Let_def p_dX_def p_dY_def p_DistanceTo_def
        star_at_def go_west_def MAX_CALIBRATION_STEPS_def ScheduleAxisMove_def with_cal_def replicate_append_same[symmetric])
qed

lemma west_pulses:
  assumes "west_state p s0 0 s0" "p_valid p" "int k \<le> 61"
    "\<And>j. j < k \<Longrightarrow> real j * hypot (fst u) (snd u) < real_of_int (m_calibrationDistance s0)"
  shows "\<exists>s. cal_frames (map (\<lambda>j. (envs j, star_at p u j)) [0..<k]) s0 = Some (False, s) \<and> west_state p s0 k s"
  using assms(3,4)
proof (induction k)
  case (Suc k)
  then obtain s where s: "cal_frames (map (\<lambda>j. (envs j, star_at p u j)) [0..<k]) s0 = Some (False, s)" "west_state p s0 k s"
    by force
  obtain s' where "UpdateCalibrationState (envs k) (star_at p u k) s = Some (False, s')" "west_state p s0 (Suc k) s'"
    using west_pulse[OF s(2), of u "envs k"] Suc.prems assms(2) by auto
  then show ?case using cal_frames_append[OF s(1), of "[(envs k, star_at p u k)]"] by simp
qed (use assms(1) in simp)

lemma west_done:
  assumes "west_state p s0 n s" "real_of_int (m_calibrationDistance s0) \<le> real n * hypot (fst u) (snd u)"
    "0 < n" "0 < m_calibrationDuration s0" "p_valid p" "hypot (fst u) (snd u) > 0"
  shows "\<exists>s' d. UpdateCalibrationState env (star_at p u n) s = Some (False, s') \<and>
    m_calibrationState (sc_cal s') = CALIBRATION_STATE_GO_EAST \<and>
    xRate (m_calibration s') = hypot (fst u) (snd u) / real_of_int (m_calibrationDuration s0) \<and>
    xAngle (m_calibration s') = atan2 (- snd u) (- fst u) \<and> 0 < d \<and>
    sc_moves s' = sc_moves s0 @ replicate n (WEST, m_calibrationDuration s0) @ [(EAST, d)]"
proof -
  let ?h = "hypot (fst u) (snd u)" and ?dur = "m_calibrationDuration s0" and ?c = "sc_cal s"
  have h: "hypot (pX p - (pX p + real n * fst u)) (pY p - (pY p + real n * snd u)) = real n * ?h"
    using hypot_scale[of "real n" "fst u" "snd u"] by simp
  have w: "m_calibrationState ?c = CALIBRATION_STATE_GO_WEST" "m_calibrationSteps ?c = int n"
    "m_calibrationDuration s = ?dur" "m_calibrationDistance s = m_calibrationDistance s0"
    "p_valid (m_calibrationStartingLocation ?c)" "pX (m_calibrationStartingLocation ?c) = pX p"
    "pY (m_calibrationStartingLocation ?c) = pY p" "sc_moves s = sc_moves s0 @ replicate n (WEST, ?dur)"
    using assms(1,3) by (simp_all add: west_state_def)
  have nz: "fst u \<noteq> 0 \<or> snd u \<noteq> 0" using assms(6) by auto
  have ang: "p_AngleTo (m_calibrationStartingLocation ?c) (star_at p u n) = Some (atan2 (- snd u) (- fst u))"
    using w(5-7) nz assms(3) atan2_scale[of "real n" "- snd u" "- fst u"]
    by (auto simp: p_AngleTo_def p_dX_def p_dY_def star_at_def)
  have rate: "real n * ?h / (real n * real_of_int ?dur) = ?h / real_of_int ?dur" using assms(3) by simp
  define rdur where "rdur = recenter_duration env 1 (?h / real_of_int ?dur) (m_maxRaDuration s) ?dur"
  have rd: "?dur \<le> rdur" using recenter_duration_pos[OF assms(4)] by (simp add: rdur_def)
  have rem: "0 < int n * ?dur" using assms(3,4) by simp
  have d: "p_dX (m_calibrationStartingLocation ?c) (star_at p u n) = Some (- (real n * fst u))"
    "p_dY (m_calibrationStartingLocation ?c) (star_at p u n) = Some (- (real n * snd u))"
    "p_DistanceTo (m_calibrationStartingLocation ?c) (star_at p u n) = Some (real n * ?h)"
    using w(5-7) h by (simp_all add: p_dX_def p_dY_def p_DistanceTo_def star_at_def)
  have nd: "\<not> real n * ?h < real_of_int (m_calibrationDistance s)" using assms(2) w(4) by simp
  show ?thesis
    using w ang d nd rem rd assms(3,4) rate
    by (simp add: UpdateCalibrationState_def Let_def go_west_def go_east_def ScheduleAxisMove_def rdur_def[symmetric])
qed

section \<open>Properties\<close>

text \<open>A connected scope with the default settings, for the examples below.\<close>

definition example_env :: CalEnv where
  "example_env = \<lparr>ce_coords = PHD_Point_invalid, ce_guideRates = None, ce_declination = 0,
     ce_pierSide = PIER_SIDE_EAST, ce_rotatorAngle = POSITION_UNKNOWN, ce_binning = 1, ce_canPulseGuide = True,
     ce_fastRecenter = False, ce_maxMovePixels = 20, ce_focalLength = 1000, ce_pixelSize = 5,
     ce_profilePixelSize = 5, ce_guideSpeedX = 1 / 2, ce_canReportPosition = True, ce_bad = 0\<rparr>"

definition CalVars_new :: CalVars where
  "CalVars_new = \<lparr>m_calibrationState = CALIBRATION_STATE_CLEARED, m_calibrationSteps = 0, m_recenterRemaining = 0,
     m_recenterDuration = 0, m_calibrationInitialLocation = PHD_Point_invalid,
     m_calibrationStartingLocation = PHD_Point_invalid, m_calibrationStartingCoords = PHD_Point_invalid,
     m_southStartingLocation = PHD_Point_invalid, m_eastStartingLocation = PHD_Point_invalid,
     m_totalSouthAmt = 0, m_northDirCosX = None, m_northDirCosY = None, m_eastAlertShown = False,
     m_blMarkerPoint = PHD_Point_invalid, m_blExpectedBacklashStep = 0, m_blLastCumDistance = 0,
     m_blAcceptedMoves = 0, m_blDistanceMoved = 0, m_blMaxClearingPulses = 0, m_raSteps = 0, m_decSteps = 0\<rparr>"

definition example_scope :: Scope where
  "example_scope = \<lparr>sc_mount = Mount_new\<lparr>m_connected := True\<rparr>, m_calibrationDuration = DefaultCalibrationDuration,
     m_calibrationDistance = DEFAULT_DISTANCE, m_maxDecDuration = DefaultMaxDecDuration,
     m_maxRaDuration = DefaultMaxRaDuration, m_decGuideMode = DEC_AUTO, m_saveDecGuideMode = DEC_AUTO,
     m_raLimitReachedDirection = NONE, m_raLimitReachedCount = 0, m_decLimitReachedDirection = NONE,
     m_decLimitReachedCount = 0, m_assumeOrthogonal = False, m_calibrationFlipRequiresDecFlip = False,
     m_useDecCompensation = True, sc_blc = snd (BacklashComp_new 0 0 0 0 False 2500), sc_cal = CalVars_new,
     m_calibration = Calibration_default, m_calibrationDetails = CalibrationDetails_default, detProfile = None,
     m_CalDetailsValidated = False, m_prevCalibration = Calibration_default,
     m_prevCalibrationDetails = CalibrationDetails_default, m_lastCalibrationIssue = CI_None, sc_moves = [],
     sc_alerts = []\<rparr>"

lemma example_scope_good: "scope_good example_scope"
  by (simp add: scope_good_def example_scope_def Mount_new_def DefaultCalibrationDuration_def DEFAULT_DISTANCE_def)

lemma example_begin:
  "\<exists>s0. BeginCalibration example_env (PHD_Point_new 50 50) example_scope = (False, s0) \<and>
     m_calibrationDuration s0 = 750 \<and> m_calibrationDistance s0 = 25"
  by (simp add: BeginCalibration_def example_scope_def Mount_IsConnected_def Mount_new_def CheckCalibrationDuration_def
      LoadCalibrationDetails_def stored_details_def example_env_def CalibrationDetails_default_def rates_known_def
      scope_ClearCalibration_def DefaultCalibrationDuration_def DEFAULT_DISTANCE_def Let_def)

text \<open>C30: calibration_ends.  Once a calibration has begun on a scope with a positive step and distance,
  it ends: within 249 frames and the number of clearing pulses (eight, or as many as fit into sixty
  seconds), whatever positions the star is found at and whatever the mount, the camera and the
  rotator report, either the scope is calibrated or the calibration has failed.  No frame fails an
  assertion on the way.\<close>

theorem calibration_ends:
  assumes "scope_good s" and "BeginCalibration env loc s = (False, s0)"
    and "\<forall>f\<in>set fs. p_valid (snd f)"
    and "249 + max 8 (c_quot 60000 (m_calibrationDuration s0)) \<le> int (length fs)"
  shows "\<exists>err s'. cal_run fs s0 = Some (err, s') \<and> (err \<or> m_calibrated (sc_mount s'))"
proof -
  note b = BeginCalibration_ok[OF assms(1,2)]
  have "cal_budget s0 = 249 + max 8 (c_quot 60000 (m_calibrationDuration s0))"
    using b by (simp add: cal_budget_def max_clearing_def BL_MAX_CLEARING_TIME_def)
  with b cal_run_ends[of s0 fs] assms(3,4) show ?thesis by auto
qed

theorem calibration_ends_witness:
  "\<exists>s0 err s'. BeginCalibration example_env (PHD_Point_new 50 50) example_scope = (False, s0) \<and>
     cal_run (replicate 400 (example_env, PHD_Point_new 60 50)) s0 = Some (err, s') \<and> (err \<or> m_calibrated (sc_mount s'))"
proof -
  obtain s0 where s0: "BeginCalibration example_env (PHD_Point_new 50 50) example_scope = (False, s0)"
    "m_calibrationDuration s0 = 750" using example_begin by blast
  have "\<exists>err s'. cal_run (replicate 400 (example_env, PHD_Point_new 60 50)) s0 = Some (err, s') \<and>
      (err \<or> m_calibrated (sc_mount s'))"
    by (rule calibration_ends[OF example_scope_good s0(1)]) (simp_all add: s0(2) c_quot_def)
  with s0(1) show ?thesis by blast
qed

text \<open>On a mount that moves the star by the same vector with every west
  pulse, calibration sends exactly the pulses needed to reach the calibration distance, then records
  as the rate of the right ascension axis the pixels moved per millisecond, as its angle the
  direction opposite to the movement, and starts to move back east.\<close>

theorem west_leg_measures_axis:
  assumes "scope_good s" and "BeginCalibration env loc s = (False, s0)"
    and "0 < hypot (fst u) (snd u)" and "0 < n" and "n \<le> 61"
    and "real (n - 1) * hypot (fst u) (snd u) < real_of_int (m_calibrationDistance s0)"
    and "real_of_int (m_calibrationDistance s0) \<le> real n * hypot (fst u) (snd u)"
  shows "\<exists>s' d. cal_frames (map (\<lambda>k. (envs k, star_at loc u k)) [0..<n + 1]) s0 = Some (False, s') \<and>
    m_calibrationState (sc_cal s') = CALIBRATION_STATE_GO_EAST \<and>
    xRate (m_calibration s') = hypot (fst u) (snd u) / real_of_int (m_calibrationDuration s0) \<and>
    xAngle (m_calibration s') = atan2 (- snd u) (- fst u) \<and> 0 < d \<and>
    sc_moves s' = sc_moves s0 @ replicate n (WEST, m_calibrationDuration s0) @ [(EAST, d)]"
proof -
  note b = BeginCalibration_ok[OF assms(1,2)]
  then have v: "p_valid loc" "0 < m_calibrationDuration s0" by (auto simp: scope_good_def)
  have w0: "west_state loc s0 0 s0" using b by (simp add: west_state_def)
  have lt: "real j * hypot (fst u) (snd u) < real_of_int (m_calibrationDistance s0)" if "j < n" for j
  proof -
    have "real j * hypot (fst u) (snd u) \<le> real (n - 1) * hypot (fst u) (snd u)"
      using that assms(3) by (intro mult_right_mono) auto
    with assms(6) show ?thesis by simp
  qed
  obtain s1 where s1: "cal_frames (map (\<lambda>j. (envs j, star_at loc u j)) [0..<n]) s0 = Some (False, s1)"
    "west_state loc s0 n s1" using west_pulses[OF w0 v(1) _ lt, of n envs] assms(5) by auto
  obtain s' d where s': "UpdateCalibrationState (envs n) (star_at loc u n) s1 = Some (False, s')"
    "m_calibrationState (sc_cal s') = CALIBRATION_STATE_GO_EAST"
    "xRate (m_calibration s') = hypot (fst u) (snd u) / real_of_int (m_calibrationDuration s0)"
    "xAngle (m_calibration s') = atan2 (- snd u) (- fst u)" "0 < d"
    "sc_moves s' = sc_moves s0 @ replicate n (WEST, m_calibrationDuration s0) @ [(EAST, d)]"
    using west_done[OF s1(2) assms(7,4) v(2,1) assms(3), of "envs n"] by blast
  have "cal_frames (map (\<lambda>k. (envs k, star_at loc u k)) [0..<n + 1]) s0 = Some (False, s')"
    using cal_frames_append[OF s1(1), of "[(envs n, star_at loc u n)]"] s'(1) by simp
  with s' show ?thesis by blast
qed

theorem west_leg_measures_axis_witness:
  "\<exists>s0 s' d. BeginCalibration example_env (PHD_Point_new 50 50) example_scope = (False, s0) \<and>
     cal_frames (map (\<lambda>k. (example_env, star_at (PHD_Point_new 50 50) (3, 4) k)) [0..<6]) s0 = Some (False, s') \<and>
     xRate (m_calibration s') = 5 / 750 \<and>
     sc_moves s' = sc_moves s0 @ replicate 5 (WEST, 750) @ [(EAST, d)]"
proof -
  obtain s0 where s0: "BeginCalibration example_env (PHD_Point_new 50 50) example_scope = (False, s0)"
    "m_calibrationDuration s0 = 750" "m_calibrationDistance s0 = 25" using example_begin by blast
  have h: "hypot 3 4 = 5" by (simp add: hypot_def)
  have c: "0 < hypot (fst (3, 4)) (snd (3, 4))" "(0 :: nat) < 5" "(5 :: nat) \<le> 61"
    "real (5 - 1) * hypot (fst (3, 4)) (snd (3, 4)) < real_of_int (m_calibrationDistance s0)"
    "real_of_int (m_calibrationDistance s0) \<le> real 5 * hypot (fst (3, 4)) (snd (3, 4))"
    by (simp_all add: h s0)
  obtain s' d where "cal_frames (map (\<lambda>k. (example_env, star_at (PHD_Point_new 50 50) (3, 4) k)) [0..<5 + 1]) s0 = Some (False, s')"
    "xRate (m_calibration s') = 5 / 750" "sc_moves s' = sc_moves s0 @ replicate 5 (WEST, 750) @ [(EAST, d)]"
    using west_leg_measures_axis[OF example_scope_good s0(1) c, of "\<lambda>k. example_env"] by (auto simp: h s0(2))
  with s0(1) show ?thesis by (intro exI[of _ s0] exI[of _ s'] exI[of _ d]) simp
qed

end
