(* ===== verification/Scope_Mount.thy ===== *)
theory Scope_Mount
  imports Scope_Calibration
begin

text \<open>
  The telescope in its role as the mount of the guider and of the controller: flipping and
  adjusting the calibration to where the telescope points, \<open>Mount::MoveOffset\<close>, which turns a guide
  offset into pulses on both axes, and the interpretations of the interfaces \<open>calibratable_mount\<close>
  (of \<open>Guider_State\<close>) and \<open>dec_mode_mount\<close> (of \<open>Phd_Controller\<close>) on the scope, with the properties
  that span the components.
\<close>

section \<open>Adjusting the calibration\<close>

definition FlipCalibration :: "Scope \<Rightarrow> bool \<times> Scope" where
  "FlipCalibration s =
     (if \<not> scope_IsCalibrated s then (True, s)
      else (False, scope_SetCalibration (flipped_calibration (m_calibrationFlipRequiresDecFlip s) (sc_mount s)) s))"

text \<open>The part of \<open>AdvancedDialog::MakeImageScaleAdjustments\<close> that acts on the scope.\<close>

definition MakeImageScaleAdjustments :: "CalEnv \<Rightarrow> Scope \<Rightarrow> Scope" where
  "MakeImageScaleAdjustments env s =
     (let recDistance = GetCalibrationDistance (ce_bad env) (ce_focalLength env) (ce_pixelSize env) (ce_binning env);
          calibrationStep = GetCalibrationStepSize (ce_bad env) (ce_focalLength env) (ce_pixelSize env) (ce_binning env)
            (ce_guideSpeedX env) DEFAULT_STEPS 0 recDistance
      in scope_ClearCalibration (snd (SetCalibrationDuration calibrationStep s)))"

definition HandleImageScaleChange :: "CalEnv \<Rightarrow> Scope \<Rightarrow> Scope" where
  "HandleImageScaleChange env s = sc_alert AlertImageScaleChange (MakeImageScaleAdjustments env s)"

text \<open>\<open>AdjustCalibrationForScopePointing\<close>, step by step: guide speeds, side of pier information, pixel
  size and binning, side of pier, rotator, declination.\<close>

definition adjust_speeds :: "CalEnv \<Rightarrow> Scope \<Rightarrow> Scope" where
  "adjust_speeds env s =
     (if ce_canReportPosition env
      then let (d, s1) = LoadCalibrationDetails s
           in if raGuideSpeed d > 0 \<and> decGuideSpeed d > 0 \<and>
                 (case ce_guideRates env of None \<Rightarrow> False
                  | Some (ra, dec) \<Rightarrow> \<bar>1 - ra / raGuideSpeed d\<bar> > 0.05 \<or> \<bar>1 - dec / decGuideSpeed d\<bar> > 0.05)
              then sc_alert AlertGuideSpeedsDiffer s1 else s1
      else s)"

definition adjust_pier_info :: "CalEnv \<Rightarrow> Scope \<Rightarrow> Scope" where
  "adjust_pier_info env s =
     (if ce_pierSide env \<noteq> PIER_SIDE_UNKNOWN \<and> pierSide (m_cal (sc_mount s)) = PIER_SIDE_UNKNOWN
      then sc_alert AlertNoPierSide s else s)"

definition pixel_size_changed :: "CalEnv \<Rightarrow> bool" where
  "pixel_size_changed env \<longleftrightarrow> \<bar>ce_pixelSize env - ce_profilePixelSize env\<bar> \<ge> 1"

definition binning_changed :: "CalEnv \<Rightarrow> Scope \<Rightarrow> bool" where
  "binning_changed env s \<longleftrightarrow> ce_binning env \<noteq> binning (m_cal (sc_mount s)) \<and> isValid (m_cal (sc_mount s))"

text \<open>The ratio of binnings is a quotient of integers.\<close>

definition scale_adjustment :: "CalEnv \<Rightarrow> Scope \<Rightarrow> real" where
  "scale_adjustment env s =
     (if pixel_size_changed env then ce_pixelSize env / ce_profilePixelSize env else 1) *
     (if binning_changed env s then real_of_int (c_quot (ce_binning env) (binning (m_cal (sc_mount s)))) else 1)"

definition adjust_binning :: "CalEnv \<Rightarrow> Scope \<Rightarrow> Scope" where
  "adjust_binning env s =
     (if binning_changed env s
      then let cal = m_cal (sc_mount s); adj = real_of_int (binning cal) / real_of_int (ce_binning env)
           in scope_SetCalibration (cal\<lparr>xRate := xRate cal * adj, yRate := yRate cal * adj, binning := ce_binning env\<rparr>) s
      else s)"

definition adjust_scale :: "CalEnv \<Rightarrow> Scope \<Rightarrow> Scope" where
  "adjust_scale env s =
     (let s1 = (if pixel_size_changed env then sc_alert AlertPixelSizeMismatch s else s);
          s2 = adjust_binning env s1
      in if \<bar>scale_adjustment env s - 1\<bar> \<ge> 0.01 then HandleImageScaleChange env s2 else s2)"

definition adjust_pier :: "CalEnv \<Rightarrow> Scope \<Rightarrow> Scope" where
  "adjust_pier env s =
     (if IsOppositeSide (ce_pierSide env) (pierSide (m_cal (sc_mount s))) then snd (FlipCalibration s) else s)"

definition adjust_rotator :: "CalEnv \<Rightarrow> Scope \<Rightarrow> Scope" where
  "adjust_rotator env s =
     (let cal = m_cal (sc_mount s); newAngle = ce_rotatorAngle env
      in if newAngle = POSITION_UNKNOWN then s
         else if rotatorAngle cal = POSITION_UNKNOWN
         then sc_alert AlertRotatorUnknown (s\<lparr>sc_mount := (sc_mount s)\<lparr>m_cal := cal\<lparr>rotatorAngle := newAngle\<rparr>\<rparr>\<rparr>)
         else let da = newAngle - rotatorAngle cal
              in if \<bar>da\<bar> > 0.05
                 then scope_SetCalibration (cal\<lparr>xAngle := norm_angle (xAngle cal - radians da),
                        yAngle := norm_angle (yAngle cal - radians da), rotatorAngle := newAngle\<rparr>) s
                 else s)"

definition adjust_dec :: "CalEnv \<Rightarrow> Scope \<Rightarrow> Scope" where
  "adjust_dec env s =
     (let m = sc_mount s; cal = m_cal m; dec = ce_declination env;
          known = (dec \<noteq> declination cal \<and> dec \<noteq> UNKNOWN_DECLINATION \<and> declination cal \<noteq> UNKNOWN_DECLINATION);
          far = (\<bar>declination cal\<bar> > DEC_COMP_LIMIT);
          rate = (if known \<and> \<not> far \<and> m_useDecCompensation s
                  then xRate cal / cos (declination cal) * cos (max (radians (- 89)) (min (radians 89) dec))
                  else xRate cal)
      in (if known \<and> far then sc_alert AlertTooFarFromEquator s else s)\<lparr>sc_mount := m\<lparr>m_xRate := rate\<rparr>\<rparr>)"

definition AdjustCalibrationForScopePointing :: "CalEnv \<Rightarrow> Scope \<Rightarrow> Scope" where
  "AdjustCalibrationForScopePointing env s =
     adjust_dec env (adjust_rotator env (adjust_pier env (adjust_scale env
       (adjust_pier_info env (adjust_speeds env s)))))"

section \<open>Lemmas on the adjustment\<close>

lemma scope_SetCalibration_simps [simp]:
  "sc_mount (scope_SetCalibration cal s) = Mount_SetCalibration cal (sc_mount s)"
  "m_calibration (scope_SetCalibration cal s) = cal" "sc_cal (scope_SetCalibration cal s) = sc_cal s"
  "m_calibrationDuration (scope_SetCalibration cal s) = m_calibrationDuration s"
  "m_calibrationDistance (scope_SetCalibration cal s) = m_calibrationDistance s"
  "sc_alerts (scope_SetCalibration cal s) = sc_alerts s"
  "m_decGuideMode (scope_SetCalibration cal s) = m_decGuideMode s"
  "m_useDecCompensation (scope_SetCalibration cal s) = m_useDecCompensation s"
  "m_calibrationFlipRequiresDecFlip (scope_SetCalibration cal s) = m_calibrationFlipRequiresDecFlip s"
  by (simp_all add: scope_SetCalibration_def)

lemma sc_alert_more [simp]:
  "sc_alerts (sc_alert a s) = sc_alerts s @ [a]" "m_decGuideMode (sc_alert a s) = m_decGuideMode s"
  "m_useDecCompensation (sc_alert a s) = m_useDecCompensation s"
  "m_calibrationFlipRequiresDecFlip (sc_alert a s) = m_calibrationFlipRequiresDecFlip s"
  by (simp_all add: sc_alert_def)

lemma Mount_SetCalibration_more [simp]:
  "m_calibrated (Mount_SetCalibration cal m)" "m_xRate (Mount_SetCalibration cal m) = xRate cal"
  "m_connected (Mount_SetCalibration cal m) = m_connected m"
  "m_requestCount (Mount_SetCalibration cal m) = m_requestCount m"
  "xRate (m_cal (Mount_SetCalibration cal m)) = xRate cal" "yRate (m_cal (Mount_SetCalibration cal m)) = yRate cal"
  "xAngle (m_cal (Mount_SetCalibration cal m)) = xAngle cal" "yAngle (m_cal (Mount_SetCalibration cal m)) = yAngle cal"
  "declination (m_cal (Mount_SetCalibration cal m)) = declination cal"
  "rotatorAngle (m_cal (Mount_SetCalibration cal m)) = rotatorAngle cal"
  "binning (m_cal (Mount_SetCalibration cal m)) = binning cal"
  "pierSide (m_cal (Mount_SetCalibration cal m)) = pierSide cal" "isValid (m_cal (Mount_SetCalibration cal m))"
  by (simp_all add: Mount_SetCalibration_def stored_calibration_def)

lemma speeds_core: "same_core s (adjust_speeds env s)"
proof -
  obtain d s1 where l: "LoadCalibrationDetails s = (d, s1)" by fastforce
  show ?thesis
    using same_core_load[OF l] same_core_trans[OF same_core_load[OF l] same_core_upd(4)]
    by (simp add: adjust_speeds_def l same_core_refl)
qed

lemma pier_info_core: "same_core s (adjust_pier_info env s)"
  by (simp add: adjust_pier_info_def same_core_refl same_core_upd(4))

lemma Handle_simps [simp]:
  "sc_mount (HandleImageScaleChange env s) = Mount_ClearCalibration (sc_mount s)"
  "sc_alerts (HandleImageScaleChange env s) = sc_alerts s @ [AlertImageScaleChange]"
  "m_decGuideMode (HandleImageScaleChange env s) = m_decGuideMode s"
  by (simp_all add: HandleImageScaleChange_def MakeImageScaleAdjustments_def scope_ClearCalibration_def
      SetCalibrationDuration_def Let_def)

lemma Clear_m_cal [simp]: "m_cal (Mount_ClearCalibration m) = m_cal m" "\<not> m_calibrated (Mount_ClearCalibration m)"
  "m_connected (Mount_ClearCalibration m) = m_connected m" "m_requestCount (Mount_ClearCalibration m) = m_requestCount m"
  by (simp_all add: Mount_ClearCalibration_def)

lemma flipped_simps [simp]:
  "rotatorAngle (flipped_calibration d m) = rotatorAngle (m_cal m)" "binning (flipped_calibration d m) = binning (m_cal m)"
  "pierSide (flipped_calibration d m) = OppositeSide (pierSide (m_cal m))"
  "declination (flipped_calibration d m) = declination (m_cal m)" "xRate (flipped_calibration d m) = xRate (m_cal m)"
  by (simp_all add: flipped_calibration_def Let_def)

lemma adjust_scale_rotator [simp]: "rotatorAngle (m_cal (sc_mount (adjust_scale env s))) = rotatorAngle (m_cal (sc_mount s))"
  by (simp add: adjust_scale_def adjust_binning_def Let_def)

lemma adjust_pier_rotator [simp]: "rotatorAngle (m_cal (sc_mount (adjust_pier env s))) = rotatorAngle (m_cal (sc_mount s))"
  by (simp add: adjust_pier_def FlipCalibration_def)

lemma adjust_dec_simps [simp]:
  "m_calibrated (sc_mount (adjust_dec env s)) = m_calibrated (sc_mount s)" "m_cal (sc_mount (adjust_dec env s)) = m_cal (sc_mount s)"
  "set (sc_alerts s) \<subseteq> set (sc_alerts (adjust_dec env s))"
  "AlertImageScaleChange \<in> set (sc_alerts (adjust_dec env s)) \<longleftrightarrow> AlertImageScaleChange \<in> set (sc_alerts s)"
  by (auto simp: adjust_dec_def Let_def)

lemma adjust_rotator_alerts [simp]:
  "AlertImageScaleChange \<in> set (sc_alerts (adjust_rotator env s)) \<longleftrightarrow> AlertImageScaleChange \<in> set (sc_alerts s)"
  by (simp add: adjust_rotator_def Let_def)

lemma adjust_pier_alerts [simp]: "sc_alerts (adjust_pier env s) = sc_alerts s"
  by (simp add: adjust_pier_def FlipCalibration_def)

lemma adjust_binning_alerts [simp]: "sc_alerts (adjust_binning env s) = sc_alerts s"
  by (simp add: adjust_binning_def Let_def)

lemma adjust_scale_alerts [simp]:
  "AlertImageScaleChange \<in> set (sc_alerts (adjust_scale env s)) \<longleftrightarrow>
     \<bar>scale_adjustment env s - 1\<bar> \<ge> 0.01 \<or> AlertImageScaleChange \<in> set (sc_alerts s)"
  by (simp add: adjust_scale_def Let_def)

lemma scale_adjustment_core: "same_core s s' \<Longrightarrow> scale_adjustment env s' = scale_adjustment env s"
  by (simp add: scale_adjustment_def same_core_def binning_changed_def)

lemma head_core: "same_core s (adjust_pier_info env (adjust_speeds env s))"
  by (rule same_core_trans[OF speeds_core pier_info_core])

section \<open>Properties of the adjustment\<close>

text \<open>A change of the image scale clears the calibration;
  yet when the rotator has turned as well, the later step for the rotator stores the old
  calibration, turned, and marks the mount calibrated again, with the rates of the old scale.\<close>

theorem rotator_revalidates_cleared_calibration:
  assumes "\<bar>scale_adjustment env s - 1\<bar> \<ge> 0.01"
    and "ce_rotatorAngle env \<noteq> POSITION_UNKNOWN" and "rotatorAngle (m_cal (sc_mount s)) \<noteq> POSITION_UNKNOWN"
    and "\<bar>ce_rotatorAngle env - rotatorAngle (m_cal (sc_mount s))\<bar> > 0.05"
  shows "AlertImageScaleChange \<in> set (sc_alerts (AdjustCalibrationForScopePointing env s)) \<and>
    \<not> m_calibrated (sc_mount (adjust_pier env (adjust_scale env (adjust_pier_info env (adjust_speeds env s))))) \<and>
    m_calibrated (sc_mount (AdjustCalibrationForScopePointing env s))"
proof -
  let ?h = "adjust_pier_info env (adjust_speeds env s)"
  note h = head_core[of s env]
  have sc: "\<bar>scale_adjustment env ?h - 1\<bar> \<ge> 0.01" using assms(1) scale_adjustment_core[OF h] by simp
  have rot: "rotatorAngle (m_cal (sc_mount ?h)) = rotatorAngle (m_cal (sc_mount s))" using h by (simp add: same_core_def)
  have "\<not> m_calibrated (sc_mount (adjust_scale env ?h))" using sc by (simp add: adjust_scale_def Let_def)
  then have "\<not> m_calibrated (sc_mount (adjust_pier env (adjust_scale env ?h)))"
    by (simp add: adjust_pier_def FlipCalibration_def scope_IsCalibrated_def Mount_IsCalibrated_def)
  then show ?thesis
    using assms sc rot by (simp add: AdjustCalibrationForScopePointing_def adjust_rotator_def Let_def)
qed

theorem rotator_revalidates_cleared_calibration_witness:
  "let s = scope_SetCalibration (Calibration_default\<lparr>xRate := 1, yRate := 1, rotatorAngle := 10\<rparr>) example_scope;
       env = example_env\<lparr>ce_binning := 2, ce_rotatorAngle := 20\<rparr>
   in m_calibrated (sc_mount (AdjustCalibrationForScopePointing env s))"
proof -
  let ?s = "scope_SetCalibration (Calibration_default\<lparr>xRate := 1, yRate := 1, rotatorAngle := 10\<rparr>) example_scope"
  let ?env = "example_env\<lparr>ce_binning := 2, ce_rotatorAngle := 20\<rparr>"
  have "\<bar>scale_adjustment ?env ?s - 1\<bar> \<ge> 0.01"
    by (simp add: scale_adjustment_def pixel_size_changed_def binning_changed_def example_env_def c_quot_def
        Calibration_default_def)
  from rotator_revalidates_cleared_calibration[OF this] show ?thesis
    by (simp add: example_env_def POSITION_UNKNOWN_def Calibration_default_def Let_def)
qed

text \<open>The scale change of a binning that grows by less than a factor
  of two, such as from 2 to 3, goes unnoticed: the integer quotient of the binnings is one, so
  neither the alert is raised nor the calibration cleared, although its rates are rescaled.\<close>

theorem small_binning_increase_missed:
  assumes "0 < binning (m_cal (sc_mount s))" and "binning (m_cal (sc_mount s)) < ce_binning env"
    and "ce_binning env < 2 * binning (m_cal (sc_mount s))" and "isValid (m_cal (sc_mount s))"
    and "\<not> pixel_size_changed env"
  shows "(AlertImageScaleChange \<in> set (sc_alerts (AdjustCalibrationForScopePointing env s)) \<longleftrightarrow>
      AlertImageScaleChange \<in> set (sc_alerts s)) \<and>
    m_calibrated (sc_mount (AdjustCalibrationForScopePointing env s)) \<and>
    binning (m_cal (sc_mount (AdjustCalibrationForScopePointing env s))) = ce_binning env"
proof -
  let ?h = "adjust_pier_info env (adjust_speeds env s)" and ?b = "binning (m_cal (sc_mount s))"
  note h = head_core[of s env]
  have "ce_binning env div ?b = 1"
    using assms(1-3) by (intro int_div_pos_eq[where r = "ce_binning env - ?b"]) auto
  then have "scale_adjustment env s = 1"
    using assms by (simp add: scale_adjustment_def c_quot_def)
  then have sc: "scale_adjustment env ?h = 1" using scale_adjustment_core[OF h] by simp
  have bc: "binning_changed env ?h" using assms(2,4) h by (simp add: binning_changed_def same_core_def)
  have al: "AlertImageScaleChange \<in> set (sc_alerts ?h) \<longleftrightarrow> AlertImageScaleChange \<in> set (sc_alerts s)"
    by (auto simp: adjust_pier_info_def adjust_speeds_def LoadCalibrationDetails_def Let_def split: prod.splits)
  have scale_eq: "adjust_scale env ?h = adjust_binning env ?h"
    using sc assms(5) bc by (simp add: adjust_scale_def Let_def)
  have bin_eq: "m_calibrated (sc_mount (adjust_binning env ?h))"
      "binning (m_cal (sc_mount (adjust_binning env ?h))) = ce_binning env"
    using bc by (simp_all add: adjust_binning_def Let_def)
  define s1 where "s1 = adjust_pier env (adjust_scale env ?h)"
  have s1: "m_calibrated (sc_mount s1)" "binning (m_cal (sc_mount s1)) = ce_binning env"
    unfolding s1_def scale_eq
    by (simp_all add: adjust_pier_def FlipCalibration_def bin_eq)
  have "m_calibrated (sc_mount (adjust_rotator env s1))" "binning (m_cal (sc_mount (adjust_rotator env s1))) = ce_binning env"
    using s1 by (simp_all add: adjust_rotator_def Let_def)
  then show ?thesis
    using sc al by (simp add: AdjustCalibrationForScopePointing_def s1_def)
qed

theorem small_binning_increase_missed_witness:
  "let s = scope_SetCalibration (Calibration_default\<lparr>xRate := 1, yRate := 1, binning := 2\<rparr>) example_scope;
       env = example_env\<lparr>ce_binning := 3\<rparr>
   in AlertImageScaleChange \<notin> set (sc_alerts (AdjustCalibrationForScopePointing env s))"
  using small_binning_increase_missed[of "scope_SetCalibration (Calibration_default\<lparr>xRate := 1, yRate := 1, binning := 2\<rparr>) example_scope"
      "example_env\<lparr>ce_binning := 3\<rparr>"]
  by (simp add: example_env_def pixel_size_changed_def Calibration_default_def example_scope_def Let_def)

end
