(* ===== verification/Mount_Moves.thy ===== *)
theory Mount_Moves
  imports Scope_Mount Guide_Algorithms
begin

text \<open>
  A guide step on the telescope: \<open>Mount::MoveOffset\<close> of \<open>src/mount.cpp\<close> turns the offset of the guide
  star into corrections by the two guide algorithms, adds the backlash compensation and sends a
  pulse on each axis.  The guide algorithms are those of \<open>Guide_Algorithms\<close> and
  \<open>Lowpass_Algorithms\<close> behind a record of their virtual functions; the driver's \<open>Guide\<close> is a
  function of the input.  The lemmas of the locale \<open>bounded_guide_algorithm\<close> carry the properties of
  a correction over to the pulse.
\<close>

section \<open>State and input\<close>

record 'a AlgoOps =
  ao_result :: "'a \<Rightarrow> real \<Rightarrow> real \<times> 'a"
  ao_deduceResult :: "'a \<Rightarrow> real \<times> 'a"
  ao_GetMinMove :: "'a \<Rightarrow> real"
  ao_notify :: "GuideNotification \<Rightarrow> 'a \<Rightarrow> 'a"

text \<open>The step that is reported after the move; the data about the star are left out.\<close>

record GuideStepInfo =
  si_moveOptions :: "32 word"
  si_frameNumber :: int
  si_time :: real
  si_cameraOffset :: PHD_Point
  si_mountOffset :: PHD_Point
  guideDistanceRA :: real
  guideDistanceDec :: real
  durationRA :: int
  durationDec :: int
  directionRA :: GUIDE_DIRECTION
  directionDec :: GUIDE_DIRECTION
  raLimited :: bool
  decLimited :: bool

record ('x, 'y) GuideMount =
  gm_scope :: Scope
  m_pXGuideAlgorithm :: "'x option"
  m_pYGuideAlgorithm :: "'y option"
  m_lastStep :: GuideStepInfo
  gm_log :: "GuideStepInfo list"

record MoveInput =
  mi_now :: int
  mi_guide :: "GUIDE_DIRECTION \<Rightarrow> int \<Rightarrow> MOVE_RESULT"
  mi_alert :: bool
  mi_frameCounter :: int
  mi_time :: real
  mi_bad :: int

section \<open>Operations\<close>

text \<open>The conversion of \<open>ROUND(fabs(distance / rate))\<close> to an integer number of milliseconds.\<close>

definition requested_amount :: "int \<Rightarrow> real \<Rightarrow> real \<Rightarrow> int" where
  "requested_amount bad d rate = (if rate = 0 then bad else c_int bad (of_int (ROUND \<bar>d / rate\<bar>)))"

text \<open>An algorithm that is not there leaves the distance as it is, and deduces nothing.\<close>

definition algo_result :: "'a AlgoOps \<Rightarrow> 'a option \<Rightarrow> real \<Rightarrow> real \<times> 'a option" where
  "algo_result ao alg x = (case alg of None \<Rightarrow> (x, None) | Some a \<Rightarrow> (let (y, a') = ao_result ao a x in (y, Some a')))"

definition algo_deduce :: "'a AlgoOps \<Rightarrow> 'a option \<Rightarrow> real \<times> 'a option" where
  "algo_deduce ao alg = (case alg of None \<Rightarrow> (0, None) | Some a \<Rightarrow> (let (y, a') = ao_deduceResult ao a in (y, Some a')))"

text \<open>
  \<open>TrackBLCResults\<close> on the scope.  When it gets to the minimum move of the declination algorithm and
  there is none, it dereferences a null pointer.
\<close>

definition tracks_results :: "32 word \<Rightarrow> BacklashComp \<Rightarrow> bool" where
  "tracks_results moveOptions b \<longleftrightarrow> m_compActive b \<and> opt_set moveOptions MOVEOPT_USE_BLC \<and>
     opt_set moveOptions MOVEOPT_ALGO_RESULT \<and> windowOpen (m_pHistory b) \<and> \<not> m_fixedSize b"

definition scope_TrackBLCResults :: "MoveInput \<Rightarrow> real option \<Rightarrow> 32 word \<Rightarrow> real \<Rightarrow> Scope \<Rightarrow> Scope option" where
  "scope_TrackBLCResults mi minMove moveOptions yRawOffset s =
     (if tracks_results moveOptions (sc_blc s) \<and> minMove = None then None
      else do { (maxDec, b) \<leftarrow> TrackBLCResults
                  \<lparr>ti_now = mi_now mi, ti_GetMinMove = (case minMove of None \<Rightarrow> 0 | Some v \<Rightarrow> v),
                   ti_yRate = yRate (m_cal (sc_mount s)), ti_bad = mi_bad mi\<rparr>
                  moveOptions yRawOffset (m_maxDecDuration s) (sc_blc s);
                Some (s\<lparr>m_maxDecDuration := maxDec, sc_blc := b\<rparr>) })"

definition scope_ApplyBacklashComp :: "MoveInput \<Rightarrow> 32 word \<Rightarrow> real \<Rightarrow> int \<Rightarrow> Scope \<Rightarrow> int \<times> Scope" where
  "scope_ApplyBacklashComp mi moveOptions yGuideDistance yAmount s =
     (let (amt, b) = ApplyBacklashComp (mi_now mi) moveOptions yGuideDistance yAmount (sc_blc s)
      in (amt, s\<lparr>sc_blc := b\<rparr>))"

text \<open>The pulses for the distances of the two axes, with the record of the step.\<close>

definition x_direction :: "real \<Rightarrow> GUIDE_DIRECTION" where
  "x_direction xDistance = (if xDistance > 0 then LEFT else RIGHT)"

definition y_direction :: "real \<Rightarrow> GUIDE_DIRECTION" where
  "y_direction yDistance = (if yDistance > 0 then DOWN else UP)"

definition move_x :: "MoveInput \<Rightarrow> 32 word \<Rightarrow> real \<Rightarrow> Scope \<Rightarrow> MOVE_RESULT \<times> MoveResultInfo \<times> Scope" where
  "move_x mi opts xDistance s =
     MoveAxis (mi_guide mi) (mi_alert mi) (x_direction xDistance)
       (requested_amount (mi_bad mi) xDistance (m_xRate (sc_mount s))) opts s"

definition move_y :: "MoveInput \<Rightarrow> 32 word \<Rightarrow> real \<Rightarrow> Scope \<Rightarrow> MOVE_RESULT \<times> MoveResultInfo \<times> Scope" where
  "move_y mi opts yDistance s =
     (let (amt, s1) = scope_ApplyBacklashComp mi opts yDistance
            (requested_amount (mi_bad mi) yDistance (yRate (m_cal (sc_mount s)))) s
      in MoveAxis (mi_guide mi) (mi_alert mi) (y_direction yDistance) amt opts s1)"

definition move_axes :: "MoveInput \<Rightarrow> GuiderOffset \<Rightarrow> 32 word \<Rightarrow> real \<Rightarrow> real \<Rightarrow> ('x, 'y) GuideMount \<Rightarrow>
    MOVE_RESULT \<times> ('x, 'y) GuideMount" where
  "move_axes mi ofs opts xd yd g =
     (let (rx, xinfo, s1) = move_x mi opts xd (gm_scope g);
          (result, yinfo, s2) = (if rx \<noteq> MOVE_ERROR_SLEWING \<and> rx \<noteq> MOVE_ERROR_AO_LIMIT_REACHED
                                 then move_y mi opts yd s1 else (rx, \<lparr>amountMoved = 0, limited = False\<rparr>, s1))
      in (result, g\<lparr>gm_scope := s2, m_lastStep :=
            \<lparr>si_moveOptions = opts, si_frameNumber = mi_frameCounter mi, si_time = mi_time mi,
             si_cameraOffset = cameraOfs ofs, si_mountOffset = mountOfs ofs, guideDistanceRA = xd,
             guideDistanceDec = yd, durationRA = amountMoved xinfo, durationDec = amountMoved yinfo,
             directionRA = x_direction xd, directionDec = y_direction yd,
             raLimited = limited xinfo, decLimited = limited yinfo\<rparr>\<rparr>))"

text \<open>A dead-reckoning move, and a move by the offset of the star.\<close>

definition deduced_move :: "'x AlgoOps \<Rightarrow> 'y AlgoOps \<Rightarrow> MoveInput \<Rightarrow> GuiderOffset \<Rightarrow> 32 word \<Rightarrow> ('x, 'y) GuideMount \<Rightarrow>
    MOVE_RESULT \<times> GuiderOffset \<times> ('x, 'y) GuideMount" where
  "deduced_move xo yo mi ofs opts g =
     (let (xd, xa) = algo_deduce xo (m_pXGuideAlgorithm g);
          (yd, ya) = algo_deduce yo (m_pYGuideAlgorithm g);
          g1 = g\<lparr>m_pXGuideAlgorithm := xa, m_pYGuideAlgorithm := ya\<rparr>
      in if xd = 0 \<and> yd = 0 then (MOVE_OK, ofs, g1)
         else let ofs1 = ofs\<lparr>mountOfs := p_SetXY (mountOfs ofs) xd yd\<rparr>;
                  (r, g2) = move_axes mi ofs1 opts xd yd g1
              in (r, ofs1, g2))"

definition offset_move :: "'x AlgoOps \<Rightarrow> 'y AlgoOps \<Rightarrow> MoveInput \<Rightarrow> GuiderOffset \<Rightarrow> 32 word \<Rightarrow> ('x, 'y) GuideMount \<Rightarrow>
    (MOVE_RESULT \<times> GuiderOffset \<times> ('x, 'y) GuideMount) option" where
  "offset_move xo yo mi ofs opts g =
     (let (err, mofs) = (if \<not> p_valid (mountOfs ofs)
                         then TransformCameraCoordinatesToMountCoordinates (sc_mount (gm_scope g)) (cameraOfs ofs) (mountOfs ofs)
                         else (False, mountOfs ofs));
          ofs1 = ofs\<lparr>mountOfs := mofs\<rparr>
      in if err then Some (MOVE_ERROR, ofs1, g)
         else do { s1 \<leftarrow> scope_TrackBLCResults mi (map_option (ao_GetMinMove yo) (m_pYGuideAlgorithm g)) opts (pY mofs)
                          (gm_scope g);
                   let (xd, xa) = (if opt_set opts MOVEOPT_ALGO_RESULT then algo_result xo (m_pXGuideAlgorithm g) (pX mofs)
                                   else (pX mofs, m_pXGuideAlgorithm g));
                   let (yd, ya) = (if opt_set opts MOVEOPT_ALGO_RESULT then algo_result yo (m_pYGuideAlgorithm g) (pY mofs)
                                   else (pY mofs, m_pYGuideAlgorithm g));
                   let (r, g2) = move_axes mi ofs1 opts xd yd
                     (g\<lparr>gm_scope := s1, m_pXGuideAlgorithm := xa, m_pYGuideAlgorithm := ya\<rparr>);
                   Some (r, ofs1, g2) })"

definition MoveOffset :: "'x AlgoOps \<Rightarrow> 'y AlgoOps \<Rightarrow> MoveInput \<Rightarrow> GuiderOffset \<Rightarrow> 32 word \<Rightarrow> ('x, 'y) GuideMount \<Rightarrow>
    (MOVE_RESULT \<times> GuiderOffset \<times> ('x, 'y) GuideMount) option" where
  "MoveOffset xo yo mi ofs opts g =
     (if opt_set opts MOVEOPT_ALGO_DEDUCE then Some (deduced_move xo yo mi ofs opts g)
      else offset_move xo yo mi ofs opts g)"

text \<open>\<open>LogGuideStepInfo\<close>: the step is reported once.\<close>

definition LogGuideStepInfo :: "('x, 'y) GuideMount \<Rightarrow> ('x, 'y) GuideMount" where
  "LogGuideStepInfo g =
     (if si_frameNumber (m_lastStep g) < 0 then g
      else g\<lparr>gm_log := gm_log g @ [m_lastStep g], m_lastStep := (m_lastStep g)\<lparr>si_frameNumber := - 1\<rparr>\<rparr>)"

text \<open>The notifications, which go to both algorithms; only the end of guiding resets the compensation.\<close>

definition notify_algos :: "'x AlgoOps \<Rightarrow> 'y AlgoOps \<Rightarrow> GuideNotification \<Rightarrow> GuideNotification \<Rightarrow>
    ('x, 'y) GuideMount \<Rightarrow> ('x, 'y) GuideMount" where
  "notify_algos xo yo nx ny g =
     g\<lparr>m_pXGuideAlgorithm := map_option (ao_notify xo nx) (m_pXGuideAlgorithm g),
       m_pYGuideAlgorithm := map_option (ao_notify yo ny) (m_pYGuideAlgorithm g)\<rparr>"

definition NotifyGuidingStopped :: "'x AlgoOps \<Rightarrow> 'y AlgoOps \<Rightarrow> ('x, 'y) GuideMount \<Rightarrow> ('x, 'y) GuideMount" where
  "NotifyGuidingStopped xo yo g =
     (let g1 = notify_algos xo yo GuidingStopped GuidingStopped g
      in g1\<lparr>gm_scope := (gm_scope g1)\<lparr>sc_blc := ResetBLCState (sc_blc (gm_scope g1))\<rparr>\<rparr>)"

definition NotifyGuidingDithered :: "'x AlgoOps \<Rightarrow> 'y AlgoOps \<Rightarrow> real \<Rightarrow> real \<Rightarrow> bool \<Rightarrow> ('x, 'y) GuideMount \<Rightarrow> ('x, 'y) GuideMount" where
  "NotifyGuidingDithered xo yo dx dy mountCoords g =
     (let (err, mnt) = TransformCameraCoordinatesToMountCoordinates (sc_mount (gm_scope g)) (PHD_Point_new dx dy) PHD_Point_invalid;
          (ex, ey) = (if \<not> mountCoords \<and> \<not> err then (pX mnt, pY mnt) else (dx, dy))
      in notify_algos xo yo (GuidingDithered ex) (GuidingDithered ey) g)"

section \<open>The pulses of a guide step\<close>

text \<open>The option bits of the moves that the guider schedules.\<close>

fun option_bits :: "MoveOptions \<Rightarrow> 32 word" where
  "option_bits MOVEOPTS_GUIDE_STEP = MOVEOPT_ALGO_RESULT OR MOVEOPT_USE_BLC OR MOVEOPT_GRAPH"
| "option_bits MOVEOPTS_DEDUCED_MOVE = MOVEOPT_ALGO_DEDUCE OR MOVEOPT_USE_BLC OR MOVEOPT_GRAPH"
| "option_bits MOVEOPTS_RECOVERY_MOVE = MOVEOPT_USE_BLC"

lemma option_bits_set [simp]:
  "opt_set (option_bits MOVEOPTS_GUIDE_STEP) MOVEOPT_ALGO_RESULT" "\<not> opt_set (option_bits MOVEOPTS_GUIDE_STEP) MOVEOPT_ALGO_DEDUCE"
  "opt_set (option_bits MOVEOPTS_GUIDE_STEP) (MOVEOPT_ALGO_RESULT OR MOVEOPT_ALGO_DEDUCE)"
  "opt_set (option_bits MOVEOPTS_DEDUCED_MOVE) MOVEOPT_ALGO_DEDUCE"
  by (simp_all add: opt_set_def MOVEOPT_ALGO_RESULT_def MOVEOPT_ALGO_DEDUCE_def MOVEOPT_USE_BLC_def MOVEOPT_GRAPH_def)

declare option_bits.simps [simp del]

text \<open>The pulse that the limits and the declination mode leave of a requested one.\<close>

definition allowed_pulse :: "Scope \<Rightarrow> GUIDE_DIRECTION \<Rightarrow> int \<Rightarrow> int" where
  "allowed_pulse s direction duration =
     (if direction = NORTH \<or> direction = SOUTH
      then (if mode_blocks (m_decGuideMode s) direction then min 0 (m_maxDecDuration s) else min duration (m_maxDecDuration s))
      else min duration (m_maxRaDuration s))"

definition pulse_list :: "GUIDE_DIRECTION \<Rightarrow> int \<Rightarrow> (GUIDE_DIRECTION \<times> int) list" where
  "pulse_list direction duration = (if duration > 0 then [(direction, duration)] else [])"

definition same_settings :: "Scope \<Rightarrow> Scope \<Rightarrow> bool" where
  "same_settings s t \<longleftrightarrow> sc_mount t = sc_mount s \<and> sc_blc t = sc_blc s \<and> m_decGuideMode t = m_decGuideMode s \<and>
     m_maxDecDuration t = m_maxDecDuration s \<and> m_maxRaDuration t = m_maxRaDuration s"

lemma limit_duration_allowed:
  assumes "opt_set opts (MOVEOPT_ALGO_RESULT OR MOVEOPT_ALGO_DEDUCE)" "direction \<noteq> NONE"
    and "limit_duration alert direction duration opts s = (d, l, s')"
  shows "d = allowed_pulse s direction duration \<and> same_settings s s' \<and> sc_moves s' = sc_moves s"
  using assms
  by (auto simp: limit_duration_def allowed_pulse_def same_settings_def sc_alert_def Let_def split: prod.splits if_splits)

lemma MoveAxis_allowed:
  assumes "m_guidingEnabled (sc_mount s)" "opt_set opts (MOVEOPT_ALGO_RESULT OR MOVEOPT_ALGO_DEDUCE)" "direction \<noteq> NONE"
    and "MoveAxis guide alert direction duration opts s = (r, info, s')"
  shows "sc_moves s' = sc_moves s @ pulse_list direction (allowed_pulse s direction duration) \<and> same_settings s s' \<and>
    r = (if allowed_pulse s direction duration > 0 then guide direction (allowed_pulse s direction duration) else MOVE_OK)"
proof -
  obtain d l s1 where l: "limit_duration alert direction duration opts s = (d, l, s1)" by (metis prod_cases3)
  note a = limit_duration_allowed[OF assms(2,3) l]
  show ?thesis
    using assms(1,4) a by (auto simp: MoveAxis_def l Let_def pulse_list_def same_settings_def split: if_splits)
qed

lemma directions_not_none [simp]: "x_direction d \<noteq> NONE" "y_direction d \<noteq> NONE"
  "x_direction d \<noteq> NORTH" "x_direction d \<noteq> SOUTH" "y_direction d = NORTH \<or> y_direction d = SOUTH"
  by (simp_all add: x_direction_def y_direction_def)

text \<open>Without backlash compensation the two pulses are those of the two distances.\<close>

lemma inactive_apply: "\<not> m_compActive (sc_blc s) \<Longrightarrow> scope_ApplyBacklashComp mi opts y amt s = (amt, s)"
  by (simp add: scope_ApplyBacklashComp_def ApplyBacklashComp_def)

lemma inactive_track: "\<not> m_compActive (sc_blc s) \<Longrightarrow> scope_TrackBLCResults mi mm opts y s = Some s"
  by (simp add: scope_TrackBLCResults_def TrackBLCResults_def tracks_results_def)

lemma move_axes_pulses:
  fixes g :: "('x, 'y) GuideMount"
  assumes "m_guidingEnabled (sc_mount (gm_scope g))" "opt_set opts (MOVEOPT_ALGO_RESULT OR MOVEOPT_ALGO_DEDUCE)"
    and "\<not> m_compActive (sc_blc (gm_scope g))"
    and "\<forall>d n. mi_guide mi d n = MOVE_OK"
    and "move_axes mi ofs opts xd yd g = (r, g')"
  shows "r = MOVE_OK \<and> sc_moves (gm_scope g') = sc_moves (gm_scope g) @
      pulse_list (x_direction xd) (allowed_pulse (gm_scope g) (x_direction xd)
        (requested_amount (mi_bad mi) xd (m_xRate (sc_mount (gm_scope g))))) @
      pulse_list (y_direction yd) (allowed_pulse (gm_scope g) (y_direction yd)
        (requested_amount (mi_bad mi) yd (yRate (m_cal (sc_mount (gm_scope g))))))"
proof -
  let ?s = "gm_scope g"
  obtain rx xi s1 where x: "move_x mi opts xd ?s = (rx, xi, s1)" by (metis prod_cases3)
  note ax = MoveAxis_allowed[OF assms(1,2) directions_not_none(1) x[unfolded move_x_def]]
  have s1: "sc_mount s1 = sc_mount ?s" "sc_blc s1 = sc_blc ?s" using ax by (simp_all add: same_settings_def)
  have rx: "rx = MOVE_OK" using ax assms(4) by simp
  obtain ry yi s2 where y: "move_y mi opts yd s1 = (ry, yi, s2)" by (metis prod_cases3)
  have "MoveAxis (mi_guide mi) (mi_alert mi) (y_direction yd)
      (requested_amount (mi_bad mi) yd (yRate (m_cal (sc_mount ?s)))) opts s1 = (ry, yi, s2)"
    using y inactive_apply[of s1] assms(3) s1 by (simp add: move_y_def)
  from MoveAxis_allowed[OF _ assms(2) directions_not_none(2) this] assms(1) s1
  have ay: "sc_moves s2 = sc_moves s1 @ pulse_list (y_direction yd) (allowed_pulse s1 (y_direction yd)
      (requested_amount (mi_bad mi) yd (yRate (m_cal (sc_mount ?s))))) \<and> ry = MOVE_OK"
    using assms(4) by simp
  have "allowed_pulse s1 = allowed_pulse ?s" using ax by (simp add: fun_eq_iff allowed_pulse_def same_settings_def)
  moreover have "r = ry" "gm_scope g' = s2" using assms(5) x y rx by (auto simp: move_axes_def)
  ultimately show ?thesis using ax ay by simp
qed

lemma requested_amount_bounds:
  assumes "0 < rate" and "\<bar>d\<bar> / rate < 2 ^ 31 - 1"
  shows "requested_amount bad d rate = ROUND (\<bar>d\<bar> / rate)"
    and "0 \<le> requested_amount bad d rate" and "\<bar>real_of_int (requested_amount bad d rate) * rate - \<bar>d\<bar>\<bar> \<le> rate / 2"
proof -
  have q: "\<bar>d / rate\<bar> = \<bar>d\<bar> / rate" using assms(1) by (simp add: abs_divide)
  have nn: "0 \<le> ROUND (\<bar>d\<bar> / rate)" using assms(1) by (intro ROUND_nonneg) simp
  have "ROUND (\<bar>d\<bar> / rate) \<le> ROUND (2 ^ 31 - 1)" using assms(2) by (intro ROUND_mono) simp
  also have "ROUND (2 ^ 31 - 1) = 2 ^ 31 - 1" using ROUND_of_int[of "2 ^ 31 - 1"] by simp
  finally have le: "ROUND (\<bar>d\<bar> / rate) < 2 ^ 31" by simp
  show eq: "requested_amount bad d rate = ROUND (\<bar>d\<bar> / rate)"
    using nn le assms(1) by (simp add: requested_amount_def c_int_def c_trunc_def q)
  show "0 \<le> requested_amount bad d rate" using eq nn by simp
  have "\<bar>real_of_int (ROUND (\<bar>d\<bar> / rate)) - \<bar>d\<bar> / rate\<bar> * rate \<le> 1 / 2 * rate"
    using ROUND_error[of "\<bar>d\<bar> / rate"] assms(1) by (intro mult_right_mono) auto
  moreover have "\<bar>real_of_int (ROUND (\<bar>d\<bar> / rate)) - \<bar>d\<bar> / rate\<bar> * rate = \<bar>real_of_int (ROUND (\<bar>d\<bar> / rate)) * rate - \<bar>d\<bar>\<bar>"
    using assms(1) by (subst abs_mult_pos) (simp_all add: left_diff_distrib)
  ultimately show "\<bar>real_of_int (requested_amount bad d rate) * rate - \<bar>d\<bar>\<bar> \<le> rate / 2" by (simp add: eq)
qed

section \<open>Properties\<close>

text \<open>A guide step is the two pulses of the corrections of the algorithms.\<close>

lemma guide_step_pulses:
  assumes "MoveOffset xo yo mi ofs (option_bits MOVEOPTS_GUIDE_STEP) g = Some (r, ofs', g')"
    and "p_valid (mountOfs ofs)" and "m_pXGuideAlgorithm g = Some xa" and "m_pYGuideAlgorithm g = Some ya"
    and "m_guidingEnabled (sc_mount (gm_scope g))" and "\<not> m_compActive (sc_blc (gm_scope g))"
    and "\<forall>d n. mi_guide mi d n = MOVE_OK"
    and "dx = fst (ao_result xo xa (pX (mountOfs ofs)))" and "dy = fst (ao_result yo ya (pY (mountOfs ofs)))"
  shows "r = MOVE_OK \<and> sc_moves (gm_scope g') = sc_moves (gm_scope g) @
      pulse_list (x_direction dx) (allowed_pulse (gm_scope g) (x_direction dx)
        (requested_amount (mi_bad mi) dx (m_xRate (sc_mount (gm_scope g))))) @
      pulse_list (y_direction dy) (allowed_pulse (gm_scope g) (y_direction dy)
        (requested_amount (mi_bad mi) dy (yRate (m_cal (sc_mount (gm_scope g))))))"
proof -
  obtain xa' ya' where xa: "ao_result xo xa (pX (mountOfs ofs)) = (dx, xa')"
    and ya: "ao_result yo ya (pY (mountOfs ofs)) = (dy, ya')"
    using assms(8,9) by (metis prod.collapse)
  define h where "h = g\<lparr>gm_scope := gm_scope g, m_pXGuideAlgorithm := Some xa', m_pYGuideAlgorithm := Some ya'\<rparr>"
  obtain r' g2 where m: "move_axes mi ofs (option_bits MOVEOPTS_GUIDE_STEP) dx dy h = (r', g2)" by fastforce
  have "r = r'" "g' = g2"
    using assms(1-4) inactive_track[OF assms(6)] m
    by (simp_all add: MoveOffset_def offset_move_def algo_result_def xa ya h_def)
  moreover have "gm_scope h = gm_scope g" by (simp add: h_def)
  ultimately show ?thesis
    using move_axes_pulses[OF _ _ _ assms(7) m] assms(5,6) by simp
qed

lemma MoveOffset_total:
  assumes "p_valid (mountOfs ofs)" "\<not> m_compActive (sc_blc (gm_scope g))"
  obtains r ofs' g' where "MoveOffset xo yo mi ofs (option_bits MOVEOPTS_GUIDE_STEP) g = Some (r, ofs', g')"
proof -
  have "\<exists>r ofs' g'. MoveOffset xo yo mi ofs (option_bits MOVEOPTS_GUIDE_STEP) g = Some (r, ofs', g')"
    using assms by (simp add: MoveOffset_def offset_move_def inactive_track split: prod.splits)
  then show thesis using that by blast
qed

text \<open>A calibrated telescope at one pixel per second with any two algorithms, for the examples below.\<close>

definition example_move :: MoveInput where
  "example_move = \<lparr>mi_now = 0, mi_guide = (\<lambda>d n. MOVE_OK), mi_alert = False, mi_frameCounter = 1, mi_time = 2, mi_bad = 0\<rparr>"

definition example_gm :: "'x \<Rightarrow> 'y \<Rightarrow> ('x, 'y) GuideMount" where
  "example_gm x y = \<lparr>gm_scope = scope_SetCalibration (Calibration_default\<lparr>xRate := 1 / 1000, yRate := 1 / 1000\<rparr>) example_scope,
     m_pXGuideAlgorithm = Some x, m_pYGuideAlgorithm = Some y,
     m_lastStep = \<lparr>si_moveOptions = 0, si_frameNumber = - 1, si_time = 0, si_cameraOffset = PHD_Point_invalid,
       si_mountOffset = PHD_Point_invalid, guideDistanceRA = 0, guideDistanceDec = 0, durationRA = 0, durationDec = 0,
       directionRA = NONE, directionDec = NONE, raLimited = False, decLimited = False\<rparr>, gm_log = []\<rparr>"

definition identity_ops :: "unit AlgoOps" where
  "identity_ops = \<lparr>ao_result = identity_result, ao_deduceResult = (\<lambda>s. (0, s)), ao_GetMinMove = (\<lambda>s. - 1),
     ao_notify = ga_notify identity_reset\<rparr>"

definition mount_offset :: "real \<Rightarrow> real \<Rightarrow> GuiderOffset" where
  "mount_offset x y = \<lparr>cameraOfs = PHD_Point_new x y, mountOfs = PHD_Point_new x y\<rparr>"

lemma example_gm_facts [simp]:
  "m_pXGuideAlgorithm (example_gm x y) = Some x" "m_pYGuideAlgorithm (example_gm x y) = Some y"
  "m_guidingEnabled (sc_mount (gm_scope (example_gm x y)))" "\<not> m_compActive (sc_blc (gm_scope (example_gm x y)))"
  "m_decGuideMode (gm_scope (example_gm x y)) = DEC_AUTO" "sc_moves (gm_scope (example_gm x y)) = []"
  "m_xRate (sc_mount (gm_scope (example_gm x y))) = 1 / 1000" "yRate (m_cal (sc_mount (gm_scope (example_gm x y)))) = 1 / 1000"
  "m_maxRaDuration (gm_scope (example_gm x y)) = 2500" "m_maxDecDuration (gm_scope (example_gm x y)) = 2500"
  "mountOfs (mount_offset a b) = PHD_Point_new a b" "mi_guide example_move d n = MOVE_OK"
  by (simp_all add: example_gm_def scope_SetCalibration_def Mount_SetCalibration_def stored_calibration_def example_scope_def
      Mount_new_def BacklashComp_new_def SetCompValues_def DefaultMaxRaDuration_def DefaultMaxDecDuration_def
      mount_offset_def example_move_def Let_def)

text \<open>C40: guide_step_pulses_fit_corrections.  Suppose that guiding is enabled, that the backlash compensation is
  not active, that the driver carries out every pulse (\<open>MOVE_OK\<close>), that the mount offset is valid and both
  algorithms are there, and that the rates are positive and the durations fit into an \<open>int\<close>.  Then a
  guide step reports success and sends at most one pulse per axis, west for a positive correction in right
  ascension and else east, south for a positive one in declination and else north, within the maximum
  duration of the axis.  Unless that maximum cuts it, the pulse moves the star by the correction to within
  half a millisecond's worth; but in a declination mode that forbids the direction (north only, south only,
  off) there is no pulse in declination.\<close>

theorem guide_step_pulses_fit_corrections:
  assumes "MoveOffset xo yo mi ofs (option_bits MOVEOPTS_GUIDE_STEP) g = Some (r, ofs', g')"
    and "p_valid (mountOfs ofs)" and "m_pXGuideAlgorithm g = Some xa" and "m_pYGuideAlgorithm g = Some ya"
    and "m_guidingEnabled (sc_mount (gm_scope g))" and "\<not> m_compActive (sc_blc (gm_scope g))"
    and "\<forall>d n. mi_guide mi d n = MOVE_OK"
    and "dx = fst (ao_result xo xa (pX (mountOfs ofs)))" and "dy = fst (ao_result yo ya (pY (mountOfs ofs)))"
    and "rx = m_xRate (sc_mount (gm_scope g))" and "ry = yRate (m_cal (sc_mount (gm_scope g)))"
    and "0 < rx" and "0 < ry" and "\<bar>dx\<bar> / rx < 2 ^ 31 - 1" and "\<bar>dy\<bar> / ry < 2 ^ 31 - 1"
  shows "\<exists>m n. sc_moves (gm_scope g') = sc_moves (gm_scope g) @
      pulse_list (if dx > 0 then WEST else EAST) m @ pulse_list (if dy > 0 then SOUTH else NORTH) n \<and> r = MOVE_OK \<and>
    m \<le> m_maxRaDuration (gm_scope g) \<and> n \<le> m_maxDecDuration (gm_scope g) \<and>
    (m < m_maxRaDuration (gm_scope g) \<longrightarrow> \<bar>real_of_int m * rx - \<bar>dx\<bar>\<bar> \<le> rx / 2) \<and>
    (if m_decGuideMode (gm_scope g) = DEC_NONE \<or> m_decGuideMode (gm_scope g) = DEC_SOUTH \<and> dy \<le> 0 \<or>
        m_decGuideMode (gm_scope g) = DEC_NORTH \<and> 0 < dy then n \<le> 0
     else n < m_maxDecDuration (gm_scope g) \<longrightarrow> \<bar>real_of_int n * ry - \<bar>dy\<bar>\<bar> \<le> ry / 2)"
proof -
  let ?s = "gm_scope g" and ?qx = "requested_amount (mi_bad mi) dx rx" and ?qy = "requested_amount (mi_bad mi) dy ry"
  define m where "m = min ?qx (m_maxRaDuration ?s)"
  define n where "n = allowed_pulse ?s (y_direction dy) ?qy"
  have mv: "r = MOVE_OK" "sc_moves (gm_scope g') = sc_moves ?s @ pulse_list (x_direction dx) m @ pulse_list (y_direction dy) n"
    using guide_step_pulses[OF assms(1-9)] assms(10,11) by (simp_all add: m_def n_def allowed_pulse_def x_direction_def)
  have q: "\<bar>real_of_int ?qx * rx - \<bar>dx\<bar>\<bar> \<le> rx / 2" "\<bar>real_of_int ?qy * ry - \<bar>dy\<bar>\<bar> \<le> ry / 2"
    using requested_amount_bounds(3)[OF assms(12,14)] requested_amount_bounds(3)[OF assms(13,15)] by simp_all
  have x: "m < m_maxRaDuration ?s \<longrightarrow> m = ?qx" by (simp add: m_def)
  have y: "if m_decGuideMode ?s = DEC_NONE \<or> m_decGuideMode ?s = DEC_SOUTH \<and> dy \<le> 0 \<or> m_decGuideMode ?s = DEC_NORTH \<and> 0 < dy
       then n \<le> 0 else n < m_maxDecDuration ?s \<longrightarrow> n = ?qy"
    by (auto simp: n_def allowed_pulse_def y_direction_def mode_blocks_def)
  have le: "m \<le> m_maxRaDuration ?s" "n \<le> m_maxDecDuration ?s"
    by (auto simp: m_def n_def allowed_pulse_def y_direction_def)
  show ?thesis
  proof (rule exI[of _ m], rule exI[of _ n], intro conjI)
    show "sc_moves (gm_scope g') = sc_moves ?s @ pulse_list (if dx > 0 then WEST else EAST) m @ pulse_list (if dy > 0 then SOUTH else NORTH) n"
      using mv(2) by (simp add: x_direction_def y_direction_def)
    show "m < m_maxRaDuration ?s \<longrightarrow> \<bar>real_of_int m * rx - \<bar>dx\<bar>\<bar> \<le> rx / 2" using x q(1) by metis
    show "if m_decGuideMode ?s = DEC_NONE \<or> m_decGuideMode ?s = DEC_SOUTH \<and> dy \<le> 0 \<or> m_decGuideMode ?s = DEC_NORTH \<and> 0 < dy
       then n \<le> 0 else n < m_maxDecDuration ?s \<longrightarrow> \<bar>real_of_int n * ry - \<bar>dy\<bar>\<bar> \<le> ry / 2"
      using y q(2) by metis
  qed (use mv(1) le in simp_all)
qed

theorem guide_step_pulses_fit_corrections_witness:
  "\<exists>r ofs' g' m n. MoveOffset identity_ops identity_ops example_move (mount_offset 1 (- 2)) (option_bits MOVEOPTS_GUIDE_STEP)
      (example_gm () ()) = Some (r, ofs', g') \<and> sc_moves (gm_scope g') = pulse_list WEST m @ pulse_list NORTH n \<and>
      m \<le> 2500 \<and> (m < 2500 \<longrightarrow> \<bar>real_of_int m * (1 / 1000) - 1\<bar> \<le> 1 / 2000) \<and>
      n \<le> 2500 \<and> (n < 2500 \<longrightarrow> \<bar>real_of_int n * (1 / 1000) - 2\<bar> \<le> 1 / 2000)"
proof -
  obtain r ofs' g' where m: "MoveOffset identity_ops identity_ops example_move (mount_offset 1 (- 2))
      (option_bits MOVEOPTS_GUIDE_STEP) (example_gm () ()) = Some (r, ofs', g')"
    by (rule MoveOffset_total[of "mount_offset 1 (- 2)" "example_gm () ()" identity_ops identity_ops example_move]) simp_all
  note guide_step_pulses_fit_corrections[OF m _ example_gm_facts(1,2) example_gm_facts(3,4) _ refl refl refl refl]
  then show ?thesis using m by (fastforce simp: identity_ops_def identity_result_def)
qed

text \<open>The default algorithms of a telescope: hysteresis in right ascension, resist switch in declination.\<close>

definition hyst_ops :: "GuideAlgorithmHysteresis AlgoOps" where
  "hyst_ops = \<lparr>ao_result = hyst_result, ao_deduceResult = (\<lambda>s. (0, s)), ao_GetMinMove = h_minMove,
     ao_notify = ga_notify hyst_reset\<rparr>"

definition rs_ops :: "GuideAlgorithmResistSwitch AlgoOps" where
  "rs_ops = \<lparr>ao_result = rs_result, ao_deduceResult = (\<lambda>s. (0, s)), ao_GetMinMove = rs_minMove,
     ao_notify = ga_notify rs_reset\<rparr>"

text \<open>With the default algorithms, in any state they can reach, a star
  within the minimum moves of its lock position draws no pulse at all, and no declination pulse
  moves the star farther than the offset it answers (to within half a millisecond's worth).\<close>

theorem default_guiding_is_calm:
  assumes "MoveOffset hyst_ops rs_ops mi ofs (option_bits MOVEOPTS_GUIDE_STEP) g = Some (r, ofs', g')"
    and "p_valid (mountOfs ofs)" and "m_pXGuideAlgorithm g = Some xa" and "m_pYGuideAlgorithm g = Some ya"
    and "hyst_invar xa" and "rs_invar ya"
    and "m_guidingEnabled (sc_mount (gm_scope g))" and "\<not> m_compActive (sc_blc (gm_scope g))"
    and "m_decGuideMode (gm_scope g) = DEC_AUTO" and "\<forall>d n. mi_guide mi d n = MOVE_OK"
    and "0 < m_xRate (sc_mount (gm_scope g))" and "ry = yRate (m_cal (sc_mount (gm_scope g)))"
    and "0 < ry" and "\<bar>pY (mountOfs ofs)\<bar> / ry < 2 ^ 31 - 1"
  shows "(\<bar>pX (mountOfs ofs)\<bar> < h_minMove xa \<and> \<bar>pY (mountOfs ofs)\<bar> < rs_minMove ya \<longrightarrow>
      sc_moves (gm_scope g') = sc_moves (gm_scope g)) \<and>
    (\<exists>m dir n. sc_moves (gm_scope g') = sc_moves (gm_scope g) @ m @ pulse_list dir n \<and>
      (\<forall>p\<in>set m. fst p \<in> {EAST, WEST}) \<and> dir \<in> {NORTH, SOUTH} \<and>
      real_of_int n * ry \<le> \<bar>pY (mountOfs ofs)\<bar> + ry / 2)"
proof -
  let ?s = "gm_scope g" and ?x = "pX (mountOfs ofs)" and ?y = "pY (mountOfs ofs)"
  define dx where "dx = fst (hyst_result xa ?x)"
  define dy where "dy = fst (rs_result ya ?y)"
  let ?qx = "requested_amount (mi_bad mi) dx (m_xRate (sc_mount ?s))" and ?qy = "requested_amount (mi_bad mi) dy ry"
  note st = guide_step_pulses[OF assms(1-4,7,8,10)]
  have moves: "sc_moves (gm_scope g') = sc_moves ?s @
      pulse_list (x_direction dx) (allowed_pulse ?s (x_direction dx) ?qx) @
      pulse_list (y_direction dy) (allowed_pulse ?s (y_direction dy) ?qy)"
    using st[of dx dy] by (simp add: dx_def dy_def hyst_ops_def rs_ops_def assms(12))
  have ap: "allowed_pulse ?s (y_direction dy) ?qy = min ?qy (m_maxDecDuration ?s)"
    by (simp add: allowed_pulse_def y_direction_def mode_blocks_def assms(9))
  have le: "\<bar>dy\<bar> \<le> \<bar>?y\<bar>" using resist_switch.bounded[OF assms(6)] by (simp add: dy_def)
  then have "\<bar>dy\<bar> / ry \<le> \<bar>?y\<bar> / ry" using assms(13) by (simp add: divide_right_mono)
  then have "\<bar>dy\<bar> / ry < 2 ^ 31 - 1" using assms(14) by linarith
  from requested_amount_bounds(3)[OF assms(13) this, of "mi_bad mi"]
  have qy: "real_of_int ?qy * ry \<le> \<bar>?y\<bar> + ry / 2" using le by linarith
  have "real_of_int (min ?qy (m_maxDecDuration ?s)) * ry \<le> real_of_int ?qy * ry"
    using assms(13) by (intro mult_right_mono) auto
  with qy have n: "real_of_int (allowed_pulse ?s (y_direction dy) ?qy) * ry \<le> \<bar>?y\<bar> + ry / 2"
    unfolding ap by linarith
  have x: "\<forall>p\<in>set (pulse_list (x_direction dx) (allowed_pulse ?s (x_direction dx) ?qx)). fst p \<in> {EAST, WEST}"
    by (simp add: pulse_list_def x_direction_def)
  have "sc_moves (gm_scope g') = sc_moves ?s" if "\<bar>?x\<bar> < h_minMove xa" "\<bar>?y\<bar> < rs_minMove ya"
  proof -
    have d: "dx = 0" "dy = 0"
      using hysteresis.deadband[OF assms(5) that(1)] resist_switch.deadband[OF assms(6) that(2)]
      by (simp_all add: dx_def dy_def)
    have "requested_amount (mi_bad mi) 0 ry = 0" "requested_amount (mi_bad mi) 0 (m_xRate (sc_mount ?s)) = 0"
      using requested_amount_bounds(1)[of ry 0] requested_amount_bounds(1)[of "m_xRate (sc_mount ?s)" 0] assms(11,13)
        ROUND_of_int[of 0] by simp_all
    with d show ?thesis using moves
      by (simp add: pulse_list_def allowed_pulse_def mode_blocks_def assms(9) y_direction_def x_direction_def min_def)
  qed
  with moves n x show ?thesis
    by (intro conjI impI, blast) (rule exI, rule exI, rule exI, intro conjI, assumption+, simp_all add: y_direction_def)
qed

theorem default_guiding_is_calm_witness:
  "\<exists>r ofs' g'. MoveOffset hyst_ops rs_ops example_move (mount_offset 0.1 (- 0.1)) (option_bits MOVEOPTS_GUIDE_STEP)
      (example_gm (hyst_new Map.empty) (rs_new Map.empty Map.empty)) = Some (r, ofs', g') \<and> sc_moves (gm_scope g') = []"
proof -
  let ?g = "example_gm (hyst_new Map.empty) (rs_new Map.empty Map.empty)"
  obtain r ofs' g' where m: "MoveOffset hyst_ops rs_ops example_move (mount_offset 0.1 (- 0.1))
      (option_bits MOVEOPTS_GUIDE_STEP) ?g = Some (r, ofs', g')"
    by (rule MoveOffset_total[of "mount_offset 0.1 (- 0.1)" ?g hyst_ops rs_ops example_move]) simp_all
  have h: "h_minMove (hyst_new Map.empty) = 0.2"
    by (simp add: hyst_new_def hyst_reset_def hyst_SetMinMove_def SetHysteresis_def hyst_SetAggression_def GetDouble_def
        hyst_constants Let_def)
  have rs: "rs_minMove (rs_new Map.empty Map.empty) = 0.2"
    by (simp add: rs_new_def rs_reset_def rs_SetMinMove_def rs_SetAggression_def SetFastSwitchEnabled_def GetDouble_def
        rs_constants Let_def)
  show ?thesis
    using default_guiding_is_calm[OF m _ example_gm_facts(1,2) hyst_new_invar rs_new_invar example_gm_facts(3,4,5) _ _ refl] m
    by (simp add: h rs)
qed

text \<open>When the driver fails the pulse in right ascension with an ordinary error
  but accepts the one in declination, the move is reported as successful.\<close>

theorem ra_move_error_hidden:
  assumes "m_guidingEnabled (sc_mount (gm_scope g))" and "opt_set opts (MOVEOPT_ALGO_RESULT OR MOVEOPT_ALGO_DEDUCE)"
    and "\<forall>n. mi_guide mi EAST n = MOVE_ERROR \<and> mi_guide mi WEST n = MOVE_ERROR"
    and "\<forall>n. mi_guide mi NORTH n = MOVE_OK \<and> mi_guide mi SOUTH n = MOVE_OK"
    and "move_axes mi ofs opts xd yd g = (r, g')"
  shows "r = MOVE_OK"
proof -
  let ?s = "gm_scope g"
  obtain rx xi s1 where x: "move_x mi opts xd ?s = (rx, xi, s1)" by (metis prod_cases3)
  note ax = MoveAxis_allowed[OF assms(1,2) directions_not_none(1) x[unfolded move_x_def]]
  have rx: "rx = MOVE_ERROR \<or> rx = MOVE_OK" using ax assms(3) by (auto simp: x_direction_def split: if_splits)
  obtain amt b where b: "scope_ApplyBacklashComp mi opts yd
      (requested_amount (mi_bad mi) yd (yRate (m_cal (sc_mount s1)))) s1 = (amt, b)" by fastforce
  have en: "m_guidingEnabled (sc_mount b)"
    using b ax assms(1) by (auto simp: scope_ApplyBacklashComp_def same_settings_def split: prod.splits)
  obtain ry yi s2 where y: "move_y mi opts yd s1 = (ry, yi, s2)" by (metis prod_cases3)
  then have "MoveAxis (mi_guide mi) (mi_alert mi) (y_direction yd) amt opts b = (ry, yi, s2)"
    by (simp add: move_y_def b)
  from MoveAxis_allowed[OF en assms(2) directions_not_none(2) this] have "ry = MOVE_OK"
    using assms(4) by (auto simp: y_direction_def split: if_splits)
  then show ?thesis using assms(5) x y rx by (auto simp: move_axes_def split: if_splits)
qed

theorem ra_move_error_hidden_witness:
  "fst (move_axes (example_move\<lparr>mi_guide := (\<lambda>d n. if d = EAST \<or> d = WEST then MOVE_ERROR else MOVE_OK)\<rparr>) (mount_offset 1 1)
     (option_bits MOVEOPTS_GUIDE_STEP) 1 1 (example_gm () ())) = MOVE_OK"
  by (rule ra_move_error_hidden[where g = "example_gm () ()", OF _ _ _ _ prod.collapse[symmetric]]) simp_all

end
