(* ===== verification/Guide_Session.thy ===== *)
theory Guide_Session
  imports Scope_Mount Phd_Controller
begin

text \<open>
  The telescope behind the guider and the controller: the operations of \<open>Scope_Mount\<close> packed into the
  records of functions that \<open>Guider_State\<close> and \<open>Phd_Controller\<close> call, and the interpretations that
  discharge the laws of the interfaces \<open>calibratable_mount\<close> and \<open>dec_mode_mount\<close> for it.  What the
  camera, the mount driver and the rotator report changes from call to call: a mount carries the
  sequence of these reports and each operation consumes the next one.
\<close>

section \<open>The telescope as a mount\<close>

type_synonym scope_mount = "(nat \<Rightarrow> CalEnv) \<times> nat \<times> Scope"

abbreviation the_scope :: "scope_mount \<Rightarrow> Scope" where
  "the_scope m \<equiv> snd (snd m)"

definition on_scope :: "(Scope \<Rightarrow> Scope) \<Rightarrow> scope_mount \<Rightarrow> scope_mount" where
  "on_scope f m = (fst m, fst (snd m), f (the_scope m))"

definition next_report :: "(CalEnv \<Rightarrow> Scope \<Rightarrow> 'r) \<Rightarrow> scope_mount \<Rightarrow> 'r" where
  "next_report f m = f (fst m (fst (snd m))) (the_scope m)"

definition advance :: "scope_mount \<Rightarrow> Scope \<Rightarrow> scope_mount" where
  "advance m s = (fst m, Suc (fst (snd m)), s)"

lemma the_scope_simps [simp]: "the_scope (on_scope f m) = f (the_scope m)" "the_scope (advance m s) = s"
  by (simp_all add: on_scope_def advance_def)

definition ToCamera :: "Scope \<Rightarrow> PHD_Point \<Rightarrow> PHD_Point option" where
  "ToCamera s p = (let (err, c) = TransformMountCoordinatesToCameraCoordinates (sc_mount s) p PHD_Point_invalid
                   in if err then None else Some c)"

definition scope_ops :: "scope_mount MountOps" where
  "scope_ops = \<lparr>
     mo_IsCalibrated = (\<lambda>m. scope_IsCalibrated (the_scope m)),
     mo_IsConnected = (\<lambda>m. Mount_IsConnected (sc_mount (the_scope m))),
     mo_IsBusy = (\<lambda>m. Mount_IsBusy (sc_mount (the_scope m))),
     mo_ResetErrorCount = on_scope (\<lambda>s. s\<lparr>sc_mount := ResetErrorCount (sc_mount s)\<rparr>),
     mo_BeginCalibration = (\<lambda>m p. apsnd (advance m) (next_report (\<lambda>env. BeginCalibration env p) m)),
     mo_UpdateCalibrationState = (\<lambda>m p. map_option (apsnd (advance m)) (next_report (\<lambda>env. UpdateCalibrationState env p) m)),
     mo_AdjustCalibrationForScopePointing = (\<lambda>m. advance m (next_report AdjustCalibrationForScopePointing m)),
     mo_ToCamera = (\<lambda>m. ToCamera (the_scope m))\<rparr>"

definition scope_ctrl :: "scope_mount CtrlMountOps" where
  "scope_ctrl = \<lparr>co_base = scope_ops, co_ClearCalibration = on_scope scope_ClearCalibration,
     co_IsStepGuider = (\<lambda>m. False), co_IsBumpInProgress = (\<lambda>m. False), co_GetBumpOnDither = (\<lambda>m. False),
     co_ForceStartBump = id, co_GetDecGuideMode = (\<lambda>m. m_decGuideMode (the_scope m)),
     co_SetDecGuideMode = (\<lambda>md. on_scope (\<lambda>s. snd (SetDecGuideMode (dec_mode_num md) s)))\<rparr>"

lemma scope_ctrl_simps [simp]:
  "co_base scope_ctrl = scope_ops" "co_IsStepGuider scope_ctrl m = False"
  "co_GetDecGuideMode scope_ctrl = (\<lambda>m. m_decGuideMode (the_scope m))" "TheScope scope_ctrl g = pMount g"
  "set_scope scope_ctrl m g = g\<lparr>pMount := Some m\<rparr>"
  by (simp_all add: scope_ctrl_def TheScope_def set_scope_def scope_is_secondary_def split: option.splits)

section \<open>The laws of the interfaces\<close>

lemma scope_good_alert [simp]: "scope_good (sc_alert a s) = scope_good s"
  by (simp add: scope_good_def sc_alert_def)

lemma scope_good_set [simp]: "scope_good (scope_SetCalibration cal s) = scope_good s"
  by (simp add: scope_good_def Mount_SetCalibration_def)

lemma scope_good_image_scale: "scope_good s \<Longrightarrow> scope_good (HandleImageScaleChange env s)"
  by (simp add: scope_good_def HandleImageScaleChange_def MakeImageScaleAdjustments_def scope_ClearCalibration_def
      SetCalibrationDuration_def DefaultCalibrationDuration_def sc_alert_def Mount_ClearCalibration_def Let_def)

lemma same_core_good: "same_core s t \<Longrightarrow> scope_good t = scope_good s"
  by (simp add: same_core_def scope_good_def)

lemma adjust_steps_good:
  "scope_good s \<Longrightarrow> scope_good (adjust_binning env s)" "scope_good s \<Longrightarrow> scope_good (adjust_scale env s)"
  "scope_good s \<Longrightarrow> scope_good (adjust_pier env s)" "scope_good s \<Longrightarrow> scope_good (adjust_rotator env s)"
  "scope_good s \<Longrightarrow> scope_good (adjust_dec env s)"
proof -
  show b: "scope_good s \<Longrightarrow> scope_good (adjust_binning env s)" for s by (simp add: adjust_binning_def Let_def)
  show "scope_good s \<Longrightarrow> scope_good (adjust_scale env s)"
    by (simp add: adjust_scale_def Let_def b scope_good_image_scale)
  show "scope_good s \<Longrightarrow> scope_good (adjust_pier env s)" by (simp add: adjust_pier_def FlipCalibration_def)
  show "scope_good s \<Longrightarrow> scope_good (adjust_rotator env s)"
    by (simp add: adjust_rotator_def Let_def scope_good_def sc_alert_def Mount_SetCalibration_def)
  show "scope_good s \<Longrightarrow> scope_good (adjust_dec env s)"
    by (simp add: adjust_dec_def Let_def scope_good_def sc_alert_def)
qed

lemma AdjustCalibration_good: "scope_good s \<Longrightarrow> scope_good (AdjustCalibrationForScopePointing env s)"
  using same_core_good[OF head_core[of s env]]
  by (simp add: AdjustCalibrationForScopePointing_def adjust_steps_good)

lemma scope_good_reset: "scope_good s \<Longrightarrow> scope_good (s\<lparr>sc_mount := ResetErrorCount (sc_mount s)\<rparr>)"
  by (simp add: scope_good_def ResetErrorCount_def)

interpretation scope_guider: calibratable_mount scope_ops "\<lambda>m. scope_good (the_scope m)" "\<lambda>m. cal_inv (the_scope m)"
proof unfold_locales
  fix m :: scope_mount and p :: PHD_Point and err :: bool and m' :: scope_mount
  assume g: "scope_good (the_scope m)" and p: "p_valid p"
    and b: "mo_BeginCalibration scope_ops (mo_ResetErrorCount scope_ops m) p = (err, m')"
  let ?s = "(the_scope m)\<lparr>sc_mount := ResetErrorCount (sc_mount (the_scope m))\<rparr>"
  obtain e s' where es: "BeginCalibration (fst m (fst (snd m))) p ?s = (e, s')" by fastforce
  have "err = e" "the_scope m' = s'"
    using b es by (auto simp: scope_ops_def next_report_def on_scope_def advance_def)
  then show "scope_good (the_scope m') \<and> (\<not> err \<longrightarrow> cal_inv (the_scope m')) \<and> (mo_IsConnected scope_ops m \<longrightarrow> \<not> err)"
    using BeginCalibration_ok[OF scope_good_reset[OF g] es] p
    by (simp add: scope_ops_def Mount_IsConnected_def ResetErrorCount_def)
next
  fix m :: scope_mount and p :: PHD_Point
  assume g: "scope_good (the_scope m)" and c: "cal_inv (the_scope m)" and p: "p_valid p"
  have "call_ok (cal_budget (the_scope m)) (UpdateCalibrationState (fst m (fst (snd m))) p (the_scope m))"
    by (rule UpdateCalibrationState_ok[OF c p])
  then obtain err s' where "UpdateCalibrationState (fst m (fst (snd m))) p (the_scope m) = Some (err, s')"
    "scope_good s'" "\<not> err \<longrightarrow> cal_inv s'"
    by (auto simp: call_ok_def split: option.splits)
  then show "\<exists>err m'. mo_UpdateCalibrationState scope_ops m p = Some (err, m') \<and> scope_good (the_scope m') \<and>
      (\<not> err \<longrightarrow> cal_inv (the_scope m'))"
    by (simp add: scope_ops_def next_report_def)
next
  fix m :: scope_mount assume "scope_good (the_scope m)"
  then show "\<not> mo_IsBusy scope_ops m" by (simp add: scope_ops_def scope_good_def Mount_IsBusy_def)
  show "scope_good (the_scope (mo_AdjustCalibrationForScopePointing scope_ops m))"
    using \<open>scope_good (the_scope m)\<close> by (simp add: scope_ops_def next_report_def AdjustCalibration_good)
next
  fix m :: scope_mount and p c assume "mo_ToCamera scope_ops m p = Some c"
  then show "p_valid c"
    by (auto simp: scope_ops_def ToCamera_def TransformMountCoordinatesToCameraCoordinates_def p_SetXY_def Let_def
        split: if_splits)
qed

interpretation scope_controller: dec_mode_mount scope_ctrl
  by unfold_locales (simp_all add: scope_ctrl_def SetDecGuideMode_def)

section \<open>The declination mode during a dither\<close>

lemma settle_wait_keeps:
  "step_settle_wait ops ci c = (f, d) \<Longrightarrow> c_state c = STATE_SETTLE_WAIT \<Longrightarrow>
     saveDecGuideMode d = saveDecGuideMode c \<and> overrideDecGuideMode d = overrideDecGuideMode c \<and>
     c_state d = (if f then STATE_SETTLE_WAIT else STATE_FINISH)"
  by (auto simp: step_settle_wait_def settle_continue_def settle_done_def do_fail_def c_notify_def Let_def split: if_splits)

context dec_mode_mount
begin

lemma frame_mode:
  assumes "c_state c = STATE_SETTLE_WAIT" and "overrideDecGuideMode c"
    and "UpdateControllerState ops ci c = Some c'"
  shows "c_state c' = STATE_SETTLE_WAIT \<and> overrideDecGuideMode c' \<and> saveDecGuideMode c' = saveDecGuideMode c \<or>
    c_state c' = STATE_IDLE \<and> (\<exists>m. TheScope ops (guider c') = Some m \<and> co_GetDecGuideMode ops m = saveDecGuideMode c)"
proof -
  obtain f d where fd: "step_settle_wait ops ci c = (f, d)" by fastforce
  note k = settle_wait_keeps[OF fd assms(1)]
  have u: "UpdateControllerState ops ci c = (if f then Some d else UpdateControllerState ops ci d)"
    by (subst UpdateControllerState.simps) (simp add: ctl_step_def assms(1) fd)
  show ?thesis
  proof (cases f)
    case True
    then show ?thesis using u k assms by simp
  next
    case False
    then have "c_state d = STATE_FINISH" "UpdateControllerState ops ci d = Some c'" using u k assms by simp_all
    from finish_update[OF this] k assms(2) show ?thesis by simp
  qed
qed

lemma settle_run_mode:
  "c_state c = STATE_IDLE \<or> c_state c = STATE_SETTLE_WAIT \<and> overrideDecGuideMode c \<and> saveDecGuideMode c = md \<Longrightarrow>
   settle_run ops es c = Some c' \<Longrightarrow>
   c_state c' = STATE_IDLE \<or> c_state c' = STATE_SETTLE_WAIT \<and> overrideDecGuideMode c' \<and> saveDecGuideMode c' = md"
proof (induction es arbitrary: c)
  case (Cons e es)
  obtain ci g where e: "e = (ci, g)" by fastforce
  obtain d where d: "UpdateControllerState ops ci (c\<lparr>guider := g\<rparr>) = Some d" "settle_run ops es d = Some c'"
    using Cons.prems(2) e by (auto split: option.splits)
  have "c_state d = STATE_IDLE \<or> c_state d = STATE_SETTLE_WAIT \<and> overrideDecGuideMode d \<and> saveDecGuideMode d = md"
  proof (cases "c_state c = STATE_IDLE")
    case True
    then show ?thesis using d(1) idle_frame[of "c\<lparr>guider := g\<rparr>"] by auto
  next
    case False
    then show ?thesis using frame_mode[OF _ _ d(1)] Cons.prems(1) by auto
  qed
  from Cons.IH[OF this d(2)] show ?case .
qed simp

lemma dither_overrides:
  assumes "Dither ops ci px raOnly st c = Some (True, msg, c1)" and "dither_dec_mode ops (ditherRaOnly c \<or> raOnly) st c = (ra, True, md)"
  shows "c_state c1 = STATE_SETTLE_WAIT \<and> overrideDecGuideMode c1 \<and> saveDecGuideMode c1 = md \<and>
    (\<exists>m. TheScope ops (guider c1) = Some m \<and> co_GetDecGuideMode ops m = DEC_AUTO)"
proof -
  obtain c0 where c0: "c_state c0 = STATE_SETTLE_BEGIN" "overrideDecGuideMode c0" "saveDecGuideMode c0 = md"
    "UpdateControllerState ops ci c0 = Some c1"
  proof -
    obtain b where "UpdateControllerState ops ci (b\<lparr>settleOp := OP_DITHER, settle := st, overrideDecGuideMode := True,
        saveDecGuideMode := md, c_state := STATE_SETTLE_BEGIN\<rparr>) = Some c1"
      using assms by (auto simp: Dither_def bind_eq_Some_conv split: if_splits)
    then show thesis by (rule that[rotated 3]) simp_all
  qed
  define c0' where "c0' = c_notify NotifySettleBegin c0"
  have n: "overrideDecGuideMode c0'" "saveDecGuideMode c0' = md" using c0 by (simp_all add: c0'_def c_notify_def)
  have st: "ctl_step ops ci c0 = step_settle_begin ops ci c0" by (simp add: ctl_step_def c0(1))
  obtain c2 where c2: "scope_SetDecGuideMode ops DEC_AUTO c0' = Some c2"
    using c0(4) st n(1) by (cases "scope_SetDecGuideMode ops DEC_AUTO c0'")
      (auto simp: UpdateControllerState.simps step_settle_begin_def c0'_def[symmetric] Let_def)
  have c1: "c1 = c2\<lparr>settlePriorFrameInRange := False, settleFrameCount := 0, droppedFrameCount := 0,
      settleTimeout := ci_millis ci, c_state := STATE_SETTLE_WAIT\<rparr>"
    using c0(4) st n(1) c2 by (simp add: UpdateControllerState.simps step_settle_begin_def c0'_def[symmetric] Let_def)
  have k: "overrideDecGuideMode c2 = overrideDecGuideMode c0'" "saveDecGuideMode c2 = saveDecGuideMode c0'"
    using c2 by (auto simp: scope_SetDecGuideMode_def split: option.splits)
  show ?thesis using set_mode[OF c2] n k by (simp add: c1)
qed

lemma dither_mode_restored:
  assumes "Dither ops ci px raOnly st c = Some (True, msg, c1)" and "dither_dec_mode ops (ditherRaOnly c \<or> raOnly) st c = (ra, True, md)"
    and "settle_run ops es c1 = Some c2" and "c_state c2 \<noteq> STATE_IDLE"
    and "AbortController ops ci' reason c2 = Some c3 \<or>
      UpdateControllerState ops ci' (c2\<lparr>guider := g\<rparr>) = Some c3 \<and> c_state c3 = STATE_IDLE"
  shows "c_state c3 = STATE_IDLE \<and> (\<exists>m. TheScope ops (guider c3) = Some m \<and> co_GetDecGuideMode ops m = md)"
proof -
  have w: "c_state c2 = STATE_SETTLE_WAIT" "overrideDecGuideMode c2" "saveDecGuideMode c2 = md"
    using settle_run_mode[OF _ assms(3), of md] dither_overrides[OF assms(1,2)] assms(4) by auto
  from assms(5) show ?thesis
  proof
    assume "AbortController ops ci' reason c2 = Some c3"
    then have "UpdateControllerState ops ci' (do_fail reason c2) = Some c3" using w by (simp add: AbortController_def)
    from finish_update[OF _ this] w show ?thesis by (auto simp: do_fail_def)
  next
    assume a: "UpdateControllerState ops ci' (c2\<lparr>guider := g\<rparr>) = Some c3 \<and> c_state c3 = STATE_IDLE"
    from frame_mode[OF _ _ conjunct1[OF a]] a w show ?thesis by auto
  qed
qed

end

section \<open>Properties\<close>


lemma run_ok_all: "\<forall>e\<in>set es. \<forall>g. op_ok e (g :: 'm Guider) \<Longrightarrow> run_ok ops es (g :: 'm Guider)"
  by (induction es arbitrary: g) (auto simp: Ball_def)

definition example_shot :: "real \<Rightarrow> real \<Rightarrow> GuiderOp" where
  "example_shot x y = OpFrame ((example_frame x y)\<lparr>fi_newImage := Some (100, 100)\<rparr>)"

definition example_telescope :: scope_mount where
  "example_telescope = (\<lambda>n. example_env, 0, example_scope)"


text \<open>A dither on a telescope whose declination guiding is restricted to
  one direction guides declination both ways while it settles, and when settling ends, by itself or
  by an abort, whatever the guider does in the meantime, the telescope is back in the user's mode.\<close>

theorem dither_restores_dec_mode:
  assumes "Dither scope_ctrl ci px False st c = Some (True, msg, c1)" and "pMount (guider c) = Some m"
    and "md = m_decGuideMode (the_scope m)" and "md = DEC_NORTH \<or> md = DEC_SOUTH"
    and "\<not> ditherRaOnly c" and "settleTimeSec st \<noteq> SETTLING_TIME_DISABLED"
    and "settle_run scope_ctrl es c1 = Some c2" and "c_state c2 \<noteq> STATE_IDLE"
    and "AbortController scope_ctrl ci' reason c2 = Some c3 \<or>
      UpdateControllerState scope_ctrl ci' (c2\<lparr>guider := g\<rparr>) = Some c3 \<and> c_state c3 = STATE_IDLE"
  shows "map_option (\<lambda>m. m_decGuideMode (the_scope m)) (pMount (guider c1)) = Some DEC_AUTO \<and>
    map_option (\<lambda>m. m_decGuideMode (the_scope m)) (pMount (guider c3)) = Some md \<and> c_state c3 = STATE_IDLE"
proof -
  have dm: "dither_dec_mode scope_ctrl (ditherRaOnly c \<or> False) st c = (False, True, md)"
    using assms(2-6) by (auto simp: dither_dec_mode_def Let_def)
  show ?thesis
    using scope_controller.dither_overrides[OF assms(1) dm]
      scope_controller.dither_mode_restored[OF assms(1) dm assms(7-9)]
    by auto
qed

text \<open>A controller on a guiding telescope that guides north only.\<close>

definition north_telescope :: scope_mount where
  "north_telescope = (\<lambda>n. example_env, 0,
     (scope_SetCalibration (Calibration_default\<lparr>xRate := 1, yRate := 1, yAngle := pi / 2\<rparr>) example_scope)
       \<lparr>m_decGuideMode := DEC_NORTH\<rparr>)"

definition example_ci :: "scope_mount CtrlInput" where
  "example_ci = \<lparr>ci_millis = 0, ci_secs = 2, ci_AutoSelect = (\<lambda>r g. (False, g)), ci_dither = (1, 0)\<rparr>"

definition example_settle :: SettleParams where
  "example_settle = \<lparr>tolerancePx = 2, settleTimeSec = 2, timeoutSec = 30, frames = 10\<rparr>"

definition north_controller :: "scope_mount Controller" where
  "north_controller = \<lparr>c_state = STATE_IDLE, forceCalibration = False, haveSaveSticky = False, saveSticky = False,
     autoFindAttemptsRemaining = 3, waitSelectedRemaining = 3, useStickyLock = False, settleOp = OP_GUIDE,
     settle = example_settle, roi = (0, 0, 0, 0),
     settlePriorFrameInRange = False, settleTimeout = 0, settleInRange = 0, saveDecGuideMode = DEC_NONE,
     overrideDecGuideMode = False, settleFrameCount = 0, droppedFrameCount = 0, succeeded = False,
     errorMsg = [], guider = example_guider STATE_GUIDING (Some north_telescope) None, cameraConnected = Some True,
     CaptureActive = True, autoExpEnabled = False, autoExpMax = 1000, exposureDuration = 1000, refineDefMapShown = False,
     ditherRaOnly = False, ditherScaleFactor = 1, c_log = []\<rparr>"

lemma north_fields [simp]:
  "pMount (guider north_controller) = Some north_telescope" "c_state north_controller = STATE_IDLE"
  "m_decGuideMode (the_scope north_telescope) = DEC_NORTH" "\<not> ditherRaOnly north_controller"
  by (simp_all add: north_controller_def north_telescope_def example_guider_def)

lemma north_camera: "mo_ToCamera scope_ops north_telescope (PHD_Point_new 1 0) = Some (PHD_Point_new 1 0)"
  by (simp add: scope_ops_def ToCamera_def north_telescope_def TransformMountCoordinatesToCameraCoordinates_def
     MountToCamera_def vectorAngle_def atan2_def hypot_def scope_SetCalibration_def Mount_SetCalibration_def stored_calibration_def
     Calibration_default_def norm_angle_id Let_def PHD_Point_new_def p_SetXY_def PHD_Point_invalid_def)

lemma north_cal: "mo_IsCalibrated scope_ops north_telescope"
  by (simp add: scope_ops_def north_telescope_def scope_IsCalibrated_def Mount_IsCalibrated_def Mount_IsConnected_def
    example_scope_def Mount_new_def CALIBRATION_RATE_UNCALIBRATED_def Calibration_default_def)

lemma north_dither: "\<exists>msg c1. Dither scope_ctrl example_ci 1 False example_settle north_controller = Some (True, msg, c1)"
proof -
  let ?g = "guider north_controller"
  have g: "IsGuiding ?g" "sp_pos (m_lockPosition ?g) = PHD_Point_new 50 50" "imageSize ?g = (100, 100)" "m_searchRegion ?g = 15"
    by (simp_all add: north_controller_def example_guider_def IsGuiding_def)
  define l where "l = PHD_Point_new 51 50"
  have l: "p_add (PHD_Point_new 50 50) (PHD_Point_new 1 0) = Some l" "pX l = 51" "pY l = 50" "p_valid l"
    by (simp_all add: p_add_def l_def)
  have v: "IsValidLockPosition ?g l" using l by (simp add: IsValidLockPosition_def g)
  have d: "dither_loop scope_ops ?g north_telescope (PHD_Point_new 1 0) [0, 1, 2, 3] None = Some (Inr (PHD_Point_new 1 0, PHD_Point_new 1 0))"
    using v l by (simp add: dither_loop.simps dither_sign_def north_camera g Let_def)
  obtain g' where m: "MoveLockPosition scope_ops (PHD_Point_new 1 0) ?g = Some (False, g')" "pMount g' = Some north_telescope"
    using v l by (simp add: MoveLockPosition_def north_cal d[simplified] g SetLockPosition_def Let_def dither_account_def
       IsGuiding_def notify_def)
  have f: "\<exists>c0. frame_Dither scope_ctrl example_ci 1 False north_controller = Some (False, c0) \<and> pMount (guider c0) = Some north_telescope"
    using m g(1) by (simp add: frame_Dither_def example_ci_def north_controller_def Let_def)
  show ?thesis
    using f by (auto simp: Dither_def dither_dec_mode_def example_settle_def SETTLING_TIME_DISABLED_def Let_def
        UpdateControllerState.simps ctl_step_def step_settle_begin_def scope_SetDecGuideMode_def c_notify_def)
qed

theorem dither_restores_dec_mode_witness:
  "\<exists>msg c1 c3. Dither scope_ctrl example_ci 1 False example_settle north_controller = Some (True, msg, c1) \<and>
     AbortController scope_ctrl example_ci ''stop'' c1 = Some c3 \<and>
     map_option (\<lambda>m. m_decGuideMode (the_scope m)) (pMount (guider c3)) = Some DEC_NORTH"
proof -
  obtain msg c1 where d: "Dither scope_ctrl example_ci 1 False example_settle north_controller = Some (True, msg, c1)"
    using north_dither by blast
  have dm: "dither_dec_mode scope_ctrl (ditherRaOnly north_controller \<or> False) example_settle north_controller = (False, True, DEC_NORTH)"
    by (simp add: dither_dec_mode_def example_settle_def SETTLING_TIME_DISABLED_def)
  note o = scope_controller.dither_overrides[OF d dm]
  let ?f = "do_fail ''stop'' c1"
  have "overrideDecGuideMode ?f \<longrightarrow> TheScope scope_ctrl (guider ?f) \<noteq> None" using o by (auto simp: do_fail_def)
  then obtain c3 where "step_finish scope_ctrl ?f = Some (True, c3)" by (rule step_finish_total)
  then have a: "AbortController scope_ctrl example_ci ''stop'' c1 = Some c3"
    using o by (simp add: AbortController_def UpdateControllerState.simps ctl_step_def)
  have "map_option (\<lambda>m. m_decGuideMode (the_scope m)) (pMount (guider c3)) = Some DEC_NORTH"
    using dither_restores_dec_mode[OF d, of north_telescope DEC_NORTH "[]" c1 example_ci "''stop''" c3] a o
    by (simp add: example_settle_def SETTLING_TIME_DISABLED_def)
  with d a show ?thesis by blast
qed

end
