(* ===== verification/Block_Allocator.thy ===== *)
theory Block_Allocator
  imports Guider_Prelude
begin

text \<open>
  The allocator of the JSON parser, \<open>block_allocator\<close> of \<open>src/json_parser.cpp\<close>: it hands out the
  free end of its newest block and takes a new block from the system when that does not suffice.
  A block is known by a number that no other block ever gets; \<open>sizeof(block)\<close> is the parameter
  \<open>hdr\<close>.  Memory handed out is never handed out again before a reset, which is why \<open>Json_Parser\<close> may
  number the nodes in the order of their allocation.
\<close>

record block =
  bk_id :: nat
  bk_size :: nat
  bk_used :: nat

record block_allocator =
  m_blocks :: "block list"
  m_blocksize :: nat
  m_next_id :: nat

definition ba_new :: "nat \<Rightarrow> block_allocator" where
  "ba_new blocksize = \<lparr>m_blocks = [], m_blocksize = blocksize, m_next_id = 0\<rparr>"

text \<open>The blocks that are left after \<open>reset\<close>: the newest, empty again.\<close>

definition ba_reset :: "nat \<Rightarrow> block_allocator \<Rightarrow> block_allocator" where
  "ba_reset hdr a = (case m_blocks a of
     [] \<Rightarrow> a
   | b # bs \<Rightarrow> a\<lparr>m_blocks := [b\<lparr>bk_used := hdr\<rparr>]\<rparr>)"

definition ba_free :: "block_allocator \<Rightarrow> block_allocator" where
  "ba_free a = (if m_blocks a = [] then a else a\<lparr>m_blocks := [], m_blocksize := 0\<rparr>)"

definition ba_grow :: "nat \<Rightarrow> nat \<Rightarrow> block_allocator \<Rightarrow> block_allocator" where
  "ba_grow hdr n a =
     a\<lparr>m_blocks := \<lparr>bk_id = m_next_id a, bk_size = max (hdr + n) (m_blocksize a), bk_used = hdr\<rparr> # m_blocks a,
       m_next_id := m_next_id a + 1\<rparr>"

text \<open>\<open>malloc\<close>: the block and the offset of the memory handed out.\<close>

definition ba_malloc :: "nat \<Rightarrow> nat \<Rightarrow> block_allocator \<Rightarrow> (nat \<times> nat) option \<times> block_allocator" where
  "ba_malloc hdr n a =
     (let full = (case m_blocks a of [] \<Rightarrow> True | b # bs \<Rightarrow> bk_used b + n > bk_size b);
          a1 = (if full then ba_grow hdr n a else a)
      in case m_blocks a1 of
           [] \<Rightarrow> (None, a1)
         | b # bs \<Rightarrow> (Some (bk_id b, bk_used b), a1\<lparr>m_blocks := b\<lparr>bk_used := bk_used b + n\<rparr> # bs\<rparr>))"

fun ba_mallocs :: "nat \<Rightarrow> nat list \<Rightarrow> block_allocator \<Rightarrow> (nat \<times> nat) option list \<times> block_allocator" where
  "ba_mallocs hdr [] a = ([], a)"
| "ba_mallocs hdr (n # ns) a =
     (let (p, a1) = ba_malloc hdr n a; (ps, a2) = ba_mallocs hdr ns a1 in (p # ps, a2))"

section \<open>Memory is handed out once\<close>

definition ba_ok :: "nat \<Rightarrow> block_allocator \<Rightarrow> bool" where
  "ba_ok hdr a = ((\<forall>b\<in>set (m_blocks a). hdr \<le> bk_used b \<and> bk_used b \<le> bk_size b \<and> bk_id b < m_next_id a) \<and>
     distinct (map bk_id (m_blocks a)))"

text \<open>The memory at \<open>p\<close> is free: above the used part of its block, or in a block yet to come.\<close>

definition ba_fresh :: "block_allocator \<Rightarrow> nat \<times> nat \<Rightarrow> bool" where
  "ba_fresh a p = (m_next_id a \<le> fst p \<or> (\<exists>b bs. m_blocks a = b # bs \<and> bk_id b = fst p \<and> bk_used b \<le> snd p))"

lemma ba_ok_new [simp]: "ba_ok hdr (ba_new n)"
  by (simp add: ba_ok_def ba_new_def)

lemma ba_ok_reset: "ba_ok hdr a \<Longrightarrow> ba_ok hdr (ba_reset hdr a)"
  by (auto simp: ba_ok_def ba_reset_def split: list.splits)

lemma ba_malloc_ok:
  assumes "ba_ok hdr a"
  shows "\<exists>i off a'. ba_malloc hdr n a = (Some (i, off), a') \<and> ba_ok hdr a' \<and> hdr \<le> off \<and>
    (\<exists>b bs. m_blocks a' = b # bs \<and> bk_id b = i \<and> bk_used b = off + n \<and> off + n \<le> bk_size b) \<and>
    ba_fresh a (i, off) \<and> (\<forall>p. ba_fresh a' p \<longrightarrow> ba_fresh a p \<and> (fst p = i \<longrightarrow> off + n \<le> snd p))"
proof (cases "m_blocks a")
  case Nil
  then show ?thesis using assms by (auto simp: ba_malloc_def ba_grow_def ba_ok_def ba_fresh_def Let_def)
next
  case (Cons b bs)
  show ?thesis
  proof (cases "bk_used b + n > bk_size b")
    case True
    then show ?thesis
      using assms Cons by (fastforce simp: ba_malloc_def ba_grow_def ba_ok_def ba_fresh_def Let_def)
  next
    case False
    then show ?thesis using assms Cons by (auto simp: ba_malloc_def ba_ok_def ba_fresh_def Let_def)
  qed
qed

text \<open>Any two pieces of memory of a sequence of allocations are disjoint.\<close>

lemma ba_mallocs_fresh:
  "ba_ok hdr a \<Longrightarrow> ba_mallocs hdr ns a = (ps, a') \<Longrightarrow>
     length ps = length ns \<and> ba_ok hdr a' \<and> (\<forall>p\<in>set ps. \<exists>q. p = Some q \<and> ba_fresh a q)"
proof (induction ns arbitrary: a ps)
  case (Cons n ns)
  obtain i off a1 where m: "ba_malloc hdr n a = (Some (i, off), a1)" "ba_ok hdr a1" "ba_fresh a (i, off)"
    "\<forall>p. ba_fresh a1 p \<longrightarrow> ba_fresh a p"
    using ba_malloc_ok[OF Cons.prems(1), of n] by blast
  obtain ps1 where p1: "ba_mallocs hdr ns a1 = (ps1, a')" "ps = Some (i, off) # ps1"
    using Cons.prems(2) m(1) by (auto split: prod.splits)
  show ?case using Cons.IH[OF m(2) p1(1)] m p1(2) by auto
qed simp

lemma block_memory_disjoint:
  assumes "ba_ok hdr a" and "ba_mallocs hdr ns a = (ps, a')" and "j < k" and "k < length ns"
    and "ps ! j = Some (i, off)" and "ps ! k = Some (i', off')"
  shows "i \<noteq> i' \<or> off + ns ! j \<le> off'"
  using assms
proof (induction ns arbitrary: a ps j k)
  case (Cons n ns)
  obtain i0 off0 a1 where m: "ba_malloc hdr n a = (Some (i0, off0), a1)" "ba_ok hdr a1"
    "\<forall>p. ba_fresh a1 p \<longrightarrow> fst p = i0 \<longrightarrow> off0 + n \<le> snd p"
    using ba_malloc_ok[OF Cons.prems(1), of n] by blast
  obtain ps1 where p1: "ba_mallocs hdr ns a1 = (ps1, a')" "ps = Some (i0, off0) # ps1"
    using Cons.prems(2) m(1) by (auto split: prod.splits)
  note f = ba_mallocs_fresh[OF m(2) p1(1)]
  obtain k' where k: "k = Suc k'" using Cons.prems(3) by (cases k) auto
  show ?case
  proof (cases j)
    case 0
    have "ps1 ! k' \<in> set ps1" using f Cons.prems(4) k by (intro nth_mem) simp
    then have "ba_fresh a1 (i', off')" using f Cons.prems(6) k p1(2) by auto
    then show ?thesis using m(3) 0 Cons.prems(5) p1(2) by auto
  next
    case (Suc j')
    then show ?thesis using Cons.IH[OF m(2) p1(1), of j' k'] Cons.prems(3-6) k p1(2) by simp
  qed
qed simp

end
