(* ===== verification/Star_Find.thy ===== *)
theory Star_Find
  imports Guider_Prelude Phd_Point "HOL-Library.Monad_Syntax"
begin

text \<open>
  Finding and measuring a star: \<open>FindStar\<close> of \<open>src/star_find_core.cpp\<close> and the class \<open>Star\<close> of
  \<open>src/star.cpp\<close> around it.  Pixels are 16-bit words; a read outside of the image is
  \<^term>\<open>None\<close>.  \<open>std::sort\<close> is not stable, so the function that sorts by radius is a parameter,
  of which the locale \<open>std_sort\<close> says what the standard promises.  The value of a conversion from
  \<open>double\<close> to \<open>unsigned short\<close> that does not fit is the parameter \<open>bad\<close>, and a signal-to-noise
  ratio that is not a finite number is \<^term>\<open>None\<close>.
\<close>

section \<open>Half flux radius\<close>

record R2M =
  r2 :: real
  rpx :: int
  rpy :: int
  rm :: real

definition R2M_new :: "int \<Rightarrow> int \<Rightarrow> real \<Rightarrow> R2M" where
  "R2M_new x y m = \<lparr>r2 = 0, rpx = x, rpy = y, rm = m\<rparr>"

definition with_radius :: "real \<Rightarrow> real \<Rightarrow> R2M \<Rightarrow> R2M" where
  "with_radius cx cy v =
     (let dx = real_of_int (rpx v) - cx; dy = real_of_int (rpy v) - cy in v\<lparr>r2 := dx * dx + dy * dy\<rparr>)"

text \<open>The loop for the radius of half the mass: \<open>r20\<close>, \<open>r21\<close>, \<open>m0\<close>, \<open>m1\<close>.\<close>

fun half_mass :: "real \<Rightarrow> real \<times> real \<times> real \<times> real \<Rightarrow> R2M list \<Rightarrow> real \<times> real \<times> real \<times> real" where
  "half_mass halfm s [] = s"
| "half_mass halfm (r20, r21, m0, m1) (v # vs) =
     (let s = (r21, r2 v, m1, m1 + rm v) in if m1 + rm v > halfm then s else half_mass halfm s vs)"

definition hfr :: "(R2M list \<Rightarrow> R2M list) \<Rightarrow> R2M list \<Rightarrow> real \<Rightarrow> real \<Rightarrow> real \<Rightarrow> real" where
  "hfr srt vec cx cy mass =
     (if length vec = 1 then 0.25
      else let halfm = 0.5 * mass;
               (r20, r21, m0, m1) = half_mass halfm (0, 0, 0, 0) (srt (map (with_radius cx cy) vec))
           in if m1 > m0
              then let r0 = sqrt r20; r1 = sqrt r21; s = (r1 - r0) / (m1 - m0) in r0 + s * (halfm - m0)
              else 0.25)"

section \<open>The image\<close>

record StarImage =
  si_data :: "16 word list"
  si_width :: int
  si_height :: int
  subframeEmpty :: bool
  subLeft :: int
  subTop :: int
  subRight :: int
  subBottom :: int
  si_pedestal :: int
  si_bitsPerPixel :: int

datatype FindMode = FIND_CENTROID | FIND_PEAK

datatype FindCoreResult = RC_Ok | RC_Saturated | RC_LowSNR | RC_LowMass | RC_LowHFD | RC_HiHFD | RC_Error

record FindOutput =
  fo_x :: real
  fo_y :: real
  fo_mass :: real
  fo_snr :: "real option"
  fo_hfd :: real
  fo_peakVal :: int
  fo_result :: FindCoreResult
  fo_found :: bool

definition px :: "StarImage \<Rightarrow> int \<Rightarrow> int \<Rightarrow> int option" where
  "px img x y =
     (let i = y * si_width img + x
      in if 0 \<le> i \<and> i < int (length (si_data img)) then Some (uint (si_data img ! nat i)) else None)"

definition bounds :: "StarImage \<Rightarrow> int \<times> int \<times> int \<times> int" where
  "bounds img = (if subframeEmpty img then (0, 0, si_width img - 1, si_height img - 1)
                 else (subLeft img, subTop img, subRight img, subBottom img))"

text \<open>The pixels of a rectangle in the order of the two nested loops.\<close>

definition region :: "int \<Rightarrow> int \<Rightarrow> int \<Rightarrow> int \<Rightarrow> (int \<times> int) list" where
  "region x0 x1 y0 y1 = concat (map (\<lambda>y. map (\<lambda>x. (x, y)) [x0..x1]) [y0..y1])"

fun fold_opt :: "('a \<Rightarrow> 's \<Rightarrow> 's option) \<Rightarrow> 'a list \<Rightarrow> 's \<Rightarrow> 's option" where
  "fold_opt f [] s = Some s"
| "fold_opt f (p # ps) s = do { s1 \<leftarrow> f p s; fold_opt f ps s1 }"

section \<open>The peak\<close>

record PeakState =
  pk_val :: int
  pk_x :: int
  pk_y :: int
  max3 :: "int \<times> int \<times> int"

definition peak_start :: PeakState where
  "peak_start = \<lparr>pk_val = 0, pk_x = 0, pk_y = 0, max3 = (0, 0, 0)\<rparr>"

definition peak_raw :: "StarImage \<Rightarrow> int \<times> int \<Rightarrow> PeakState \<Rightarrow> PeakState option" where
  "peak_raw img p s = (case p of (x, y) \<Rightarrow>
     do { val \<leftarrow> px img x y;
          Some (if val > pk_val s then s\<lparr>pk_val := val, pk_x := x, pk_y := y\<rparr> else s) })"

definition smoothed :: "StarImage \<Rightarrow> int \<Rightarrow> int \<Rightarrow> int option" where
  "smoothed img x y =
     do { p \<leftarrow> px img x y;
          a \<leftarrow> px img (x - 1) (y - 1); b \<leftarrow> px img (x + 1) (y - 1); c \<leftarrow> px img (x - 1) (y + 1); d \<leftarrow> px img (x + 1) (y + 1);
          e \<leftarrow> px img x (y - 1); f \<leftarrow> px img (x - 1) y; g \<leftarrow> px img (x + 1) y; h \<leftarrow> px img x (y + 1);
          Some (4 * p + a + b + c + d + 2 * e + 2 * f + 2 * g + 2 * h) }"

text \<open>Three conditional swaps keep the three largest pixels in descending order.\<close>

definition push_max3 :: "int \<Rightarrow> int \<times> int \<times> int \<Rightarrow> int \<times> int \<times> int" where
  "push_max3 p m = (case m of (m0, m1, m2) \<Rightarrow>
     let (p1, m0) = (if p > m0 then (m0, p) else (p, m0));
         (p2, m1) = (if p1 > m1 then (m1, p1) else (p1, m1));
         m2 = (if p2 > m2 then p2 else m2)
     in (m0, m1, m2))"

definition peak_smooth :: "StarImage \<Rightarrow> int \<times> int \<Rightarrow> PeakState \<Rightarrow> PeakState option" where
  "peak_smooth img p s = (case p of (x, y) \<Rightarrow>
     do { raw \<leftarrow> px img x y;
          val \<leftarrow> smoothed img x y;
          let s1 = (if val > pk_val s then s\<lparr>pk_val := val, pk_x := x, pk_y := y\<rparr> else s);
          Some (s1\<lparr>max3 := push_max3 raw (max3 s1)\<rparr>) })"

text \<open>The peak of the search region, and the raw peak value that is reported.\<close>

definition find_peak :: "StarImage \<Rightarrow> FindMode \<Rightarrow> int \<Rightarrow> int \<Rightarrow> int \<Rightarrow> int \<Rightarrow> (PeakState \<times> int) option" where
  "find_peak img mode x0 x1 y0 y1 = (case mode of
     FIND_PEAK \<Rightarrow> do { s \<leftarrow> fold_opt (peak_raw img) (region x0 x1 y0 y1) peak_start; Some (s, pk_val s) }
   | FIND_CENTROID \<Rightarrow>
       do { s \<leftarrow> fold_opt (peak_smooth img) (region (x0 + 1) (x1 - 1) (y0 + 1) (y1 - 1)) peak_start;
            Some (s\<lparr>pk_val := pk_val s div 16\<rparr>, fst (max3 s)) })"

section \<open>The background\<close>

definition radA :: int where "radA = 7"
definition radB :: int where "radB = 12"

record Background =
  mean_bg :: real
  sigma2_bg :: real
  sigma_bg :: real
  nbg :: int

record BgSums =
  bs_sum :: real
  bs_a :: real
  bs_q :: real
  bs_n :: int

definition bg_pixel :: "StarImage \<Rightarrow> int \<Rightarrow> int \<Rightarrow> bool \<Rightarrow> Background \<Rightarrow> int \<times> int \<Rightarrow> BgSums \<Rightarrow> BgSums option" where
  "bg_pixel img peak_x peak_y clip bg p s = (case p of (x, y) \<Rightarrow>
     let dx = x - peak_x; dy = y - peak_y; r = dx * dx + dy * dy
     in if r \<le> radA * radA \<or> r > radB * radB then Some s
        else do { v \<leftarrow> px img x y;
                  let val = real_of_int v;
                  if clip \<and> (val < mean_bg bg - 2 * sigma_bg bg \<or> val > mean_bg bg + 2 * sigma_bg bg) then Some s
                  else let k = bs_n s + 1; a0 = bs_a s; a = a0 + (val - a0) / real_of_int k
                       in Some \<lparr>bs_sum = bs_sum s + val, bs_a = a, bs_q = bs_q s + (val - a0) * (val - a), bs_n = k\<rparr> })"

text \<open>The iterations: the number of those left, whether this is not the first, the values so far.\<close>

fun bg_iterate :: "StarImage \<Rightarrow> int \<Rightarrow> int \<Rightarrow> (int \<times> int) list \<Rightarrow> nat \<Rightarrow> bool \<Rightarrow> Background \<Rightarrow> Background option" where
  "bg_iterate img peak_x peak_y win 0 clip bg = Some bg"
| "bg_iterate img peak_x peak_y win (Suc n) clip bg =
     do { s \<leftarrow> fold_opt (bg_pixel img peak_x peak_y clip bg) win \<lparr>bs_sum = 0, bs_a = 0, bs_q = 0, bs_n = 0\<rparr>;
          if bs_n s < 10 then Some (bg\<lparr>nbg := bs_n s\<rparr>)
          else let m = bs_sum s / real_of_int (bs_n s); s2 = bs_q s / real_of_int (bs_n s - 1);
                   bg1 = \<lparr>mean_bg = m, sigma2_bg = s2, sigma_bg = sqrt s2, nbg = bs_n s\<rparr>
               in if clip \<and> \<bar>m - mean_bg bg\<bar> < 0.5 then Some bg1
                  else bg_iterate img peak_x peak_y win n True bg1 }"

definition window :: "StarImage \<Rightarrow> int \<Rightarrow> int \<Rightarrow> int \<Rightarrow> (int \<times> int) list" where
  "window img peak_x peak_y r = (case bounds img of (minx, miny, maxx, maxy) \<Rightarrow>
     region (max (peak_x - r) minx) (min (peak_x + r) maxx) (max (peak_y - r) miny) (min (peak_y + r) maxy))"

definition background :: "StarImage \<Rightarrow> int \<Rightarrow> int \<Rightarrow> Background option" where
  "background img peak_x peak_y = bg_iterate img peak_x peak_y (window img peak_x peak_y radB) 9 False
     \<lparr>mean_bg = 0, sigma2_bg = 0, sigma_bg = 0, nbg = 0\<rparr>"

section \<open>Mass and centroid\<close>

definition c_ushort :: "int \<Rightarrow> real \<Rightarrow> int" where
  "c_ushort bad x = (if 0 \<le> c_trunc x \<and> c_trunc x < 2 ^ 16 then c_trunc x else bad)"

record MassSums =
  ms_cx :: real
  ms_cy :: real
  ms_mass :: real
  ms_n :: int
  ms_vec :: "R2M list"

definition mass_pixel :: "StarImage \<Rightarrow> int \<Rightarrow> int \<Rightarrow> real \<Rightarrow> int \<Rightarrow> int \<times> int \<Rightarrow> MassSums \<Rightarrow> MassSums option" where
  "mass_pixel img peak_x peak_y mean thresh p s = (case p of (x, y) \<Rightarrow>
     let dx = x - peak_x; dy = y - peak_y
     in if dx * dx + dy * dy > radA * radA then Some s
        else do { val \<leftarrow> px img x y;
                  if val < thresh then Some s
                  else let d = real_of_int val - mean
                       in Some \<lparr>ms_cx = ms_cx s + real_of_int dx * d, ms_cy = ms_cy s + real_of_int dy * d,
                                ms_mass = ms_mass s + d, ms_n = ms_n s + 1, ms_vec = ms_vec s @ [R2M_new x y d]\<rparr> })"

definition measure_mass :: "int \<Rightarrow> StarImage \<Rightarrow> FindMode \<Rightarrow> PeakState \<Rightarrow> Background \<Rightarrow> (int \<times> MassSums) option" where
  "measure_mass bad img mode pk bg = (case mode of
     FIND_PEAK \<Rightarrow> Some (0, \<lparr>ms_cx = 0, ms_cy = 0, ms_mass = real_of_int (pk_val pk), ms_n = 1, ms_vec = []\<rparr>)
   | FIND_CENTROID \<Rightarrow>
       let thresh = c_ushort bad (mean_bg bg + 3 * sigma_bg bg + 0.5)
       in do { s \<leftarrow> fold_opt (mass_pixel img (pk_x pk) (pk_y pk) (mean_bg bg) thresh)
                      (window img (pk_x pk) (pk_y pk) radA)
                      \<lparr>ms_cx = 0, ms_cy = 0, ms_mass = 0, ms_n = 0, ms_vec = []\<rparr>;
               Some (thresh, s) })"

definition snr_of :: "MassSums \<Rightarrow> Background \<Rightarrow> real option" where
  "snr_of s bg =
     (if ms_n s > 0
      then let q = ms_mass s / 0.5 + sigma2_bg bg * real_of_int (ms_n s) * (1 + 1 / real_of_int (nbg bg))
           in if q \<le> 0 then None else Some (ms_mass s / sqrt q)
      else Some 0)"

definition LOW_SNR :: real where "LOW_SNR = 3"

text \<open>Comparisons with a ratio that may not be a number are false when it is not.\<close>

definition snr_ge :: "real option \<Rightarrow> real \<Rightarrow> bool" where
  "snr_ge snr v = (case snr of None \<Rightarrow> False | Some s \<Rightarrow> s \<ge> v)"

definition snr_lt :: "real option \<Rightarrow> real \<Rightarrow> bool" where
  "snr_lt snr v = (case snr of None \<Rightarrow> False | Some s \<Rightarrow> s < v)"

text \<open>The flat-top heuristic, and the check against a known saturation level.\<close>

definition is_saturated :: "StarImage \<Rightarrow> int \<Rightarrow> int \<times> int \<times> int \<Rightarrow> bool" where
  "is_saturated img maxADU m3 = (case m3 of (m0, m1, m2) \<Rightarrow>
     let mx = (if m0 \<ge> si_pedestal img then m0 - si_pedestal img else 0); d = m0 - m2
     in if maxADU > 0 then mx \<ge> maxADU
        else if si_bitsPerPixel img < 12 then d * 191 < mx else d * 65535 < 32 * mx)"

section \<open>FindStar\<close>

definition out_start :: "int \<Rightarrow> int \<Rightarrow> FindOutput" where
  "out_start base_x base_y = \<lparr>fo_x = real_of_int base_x, fo_y = real_of_int base_y, fo_mass = 0, fo_snr = Some 0,
     fo_hfd = 0, fo_peakVal = 0, fo_result = RC_Ok, fo_found = False\<rparr>"

definition not_found :: "FindCoreResult \<Rightarrow> FindOutput \<Rightarrow> FindOutput" where
  "not_found r o1 = o1\<lparr>fo_result := r, fo_found := False\<rparr>"

text \<open>What follows the measurements: the checks of mass, signal-to-noise ratio, radius, saturation.\<close>

definition judge :: "(R2M list \<Rightarrow> R2M list) \<Rightarrow> StarImage \<Rightarrow> FindMode \<Rightarrow> real \<Rightarrow> real \<Rightarrow> int \<Rightarrow> PeakState \<Rightarrow> Background \<Rightarrow>
    int \<Rightarrow> MassSums \<Rightarrow> FindOutput \<Rightarrow> FindOutput" where
  "judge srt img mode minHFD maxHFD maxADU pk bg thresh s o0 =
     (let snr0 = snr_of s bg;
          snr = (if pk_val pk \<le> thresh \<and> snr_ge snr0 LOW_SNR then Some (LOW_SNR - 0.1) else snr0);
          o1 = o0\<lparr>fo_mass := ms_mass s, fo_snr := snr\<rparr>
      in if ms_mass s < 10 then not_found RC_LowMass (o1\<lparr>fo_hfd := 0\<rparr>)
         else if snr_lt snr LOW_SNR then not_found RC_LowSNR (o1\<lparr>fo_hfd := 0\<rparr>)
         else let x = real_of_int (pk_x pk) + ms_cx s / ms_mass s; y = real_of_int (pk_y pk) + ms_cy s / ms_mass s;
                  hfd = 2 * hfr srt (ms_vec s) x y (ms_mass s);
                  o2 = o1\<lparr>fo_x := x, fo_y := y, fo_hfd := hfd\<rparr>
              in if mode \<noteq> FIND_PEAK \<and> hfd < minHFD then not_found RC_LowHFD o2
                 else if mode \<noteq> FIND_PEAK \<and> hfd > maxHFD then not_found RC_HiHFD o2
                 else o2\<lparr>fo_result := (if is_saturated img maxADU (max3 pk) then RC_Saturated else RC_Ok),
                         fo_found := True\<rparr>)"

definition FindStar :: "(R2M list \<Rightarrow> R2M list) \<Rightarrow> int \<Rightarrow> StarImage \<Rightarrow> int \<Rightarrow> int \<Rightarrow> int \<Rightarrow> FindMode \<Rightarrow> real \<Rightarrow> real \<Rightarrow>
    int \<Rightarrow> FindOutput option" where
  "FindStar srt bad img base_x base_y searchRegion mode minHFD maxHFD maxADU =
     (case bounds img of (minx, miny, maxx, maxy) \<Rightarrow>
        let x0 = max (base_x - searchRegion) minx; x1 = min (base_x + searchRegion) maxx;
            y0 = max (base_y - searchRegion) miny; y1 = min (base_y + searchRegion) maxy;
            o0 = out_start base_x base_y
        in if x1 \<le> x0 \<or> y1 \<le> y0 then Some (not_found RC_Error o0)
           else do { (pk, peakVal) \<leftarrow> find_peak img mode x0 x1 y0 y1;
                     let o1 = o0\<lparr>fo_peakVal := peakVal\<rparr>;
                     bg \<leftarrow> background img (pk_x pk) (pk_y pk);
                     if nbg bg = 0 then Some (not_found RC_LowSNR (o1\<lparr>fo_hfd := 0\<rparr>))
                     else do { (thresh, s) \<leftarrow> measure_mass bad img mode pk bg;
                               Some (judge srt img mode minHFD maxHFD maxADU pk bg thresh s o1) } })"

section \<open>The measurements never leave the image\<close>

definition img_ok :: "StarImage \<Rightarrow> bool" where
  "img_ok img = (0 \<le> si_width img \<and> 0 \<le> si_height img \<and> int (length (si_data img)) = si_width img * si_height img \<and>
     (subframeEmpty img \<or> 0 \<le> subLeft img \<and> subRight img < si_width img \<and> 0 \<le> subTop img \<and> subBottom img < si_height img))"

definition in_image :: "StarImage \<Rightarrow> int \<times> int \<Rightarrow> bool" where
  "in_image img p = (0 \<le> fst p \<and> fst p < si_width img \<and> 0 \<le> snd p \<and> snd p < si_height img)"

lemma px_some:
  assumes "img_ok img" and "in_image img (x, y)"
  obtains v where "px img x y = Some v" "0 \<le> v" "v < 65536"
proof -
  have "y * si_width img \<le> (si_height img - 1) * si_width img"
    using assms by (intro mult_right_mono) (auto simp: img_ok_def in_image_def)
  moreover have "x < si_width img" using assms(2) by (simp add: in_image_def)
  ultimately have "y * si_width img + x < (si_height img - 1) * si_width img + si_width img" by linarith
  moreover have "(si_height img - 1) * si_width img + si_width img = si_width img * si_height img"
    by (simp add: algebra_simps)
  ultimately have "y * si_width img + x < int (length (si_data img))" using assms(1) by (simp add: img_ok_def)
  moreover have "0 \<le> y * si_width img + x" using assms(2) by (auto simp: in_image_def)
  ultimately have "px img x y = Some (uint (si_data img ! nat (y * si_width img + x)))" by (simp add: px_def Let_def)
  moreover have "uint w < 65536" for w :: "16 word" using uint_lt2p[of w] by simp
  ultimately show ?thesis using that by simp
qed

lemma in_region: "p \<in> set (region x0 x1 y0 y1) \<longleftrightarrow> x0 \<le> fst p \<and> fst p \<le> x1 \<and> y0 \<le> snd p \<and> snd p \<le> y1"
  by (cases p) (force simp: region_def)

lemma bounds_in_image:
  assumes "img_ok img" and "bounds img = (minx, miny, maxx, maxy)"
  shows "0 \<le> minx \<and> maxx < si_width img \<and> 0 \<le> miny \<and> maxy < si_height img"
  using assms by (auto simp: img_ok_def bounds_def split: if_splits)

lemma fold_opt_inv:
  assumes "\<And>p s. p \<in> set ps \<Longrightarrow> I s \<Longrightarrow> \<exists>s'. f p s = Some s' \<and> I s'" and "I s"
  shows "\<exists>s'. fold_opt f ps s = Some s' \<and> I s'"
  using assms
proof (induction ps arbitrary: s)
  case (Cons p ps)
  then obtain s1 where "f p s = Some s1" "I s1" by (meson list.set_intros(1))
  then show ?case using Cons.IH[of s1] Cons.prems(1) by auto
qed simp

text \<open>The peak found lies in the region that was searched.\<close>

definition peak_in :: "(int \<times> int) list \<Rightarrow> PeakState \<Rightarrow> bool" where
  "peak_in ps s = (0 \<le> pk_val s \<and> (0 < pk_val s \<longrightarrow> (pk_x s, pk_y s) \<in> set ps))"

lemma peak_in_start [simp]: "peak_in ps peak_start"
  by (simp add: peak_in_def peak_start_def)

lemma find_peak_total:
  assumes "img_ok img" and "0 \<le> x0" "x1 < si_width img" "0 \<le> y0" "y1 < si_height img"
  shows "\<exists>pk v. find_peak img mode x0 x1 y0 y1 = Some (pk, v) \<and> peak_in (region x0 x1 y0 y1) pk"
proof (cases mode)
  case FIND_PEAK
  have "\<exists>s'. fold_opt (peak_raw img) (region x0 x1 y0 y1) peak_start = Some s' \<and> peak_in (region x0 x1 y0 y1) s'"
  proof (rule fold_opt_inv)
    fix p s
    assume p: "p \<in> set (region x0 x1 y0 y1)" and s: "peak_in (region x0 x1 y0 y1) s"
    obtain v where "px img (fst p) (snd p) = Some v" "0 \<le> v" "v < 65536"
      using px_some[OF assms(1), of "fst p" "snd p"] p assms(2-) by (auto simp: in_region in_image_def)
    then show "\<exists>s'. peak_raw img p s = Some s' \<and> peak_in (region x0 x1 y0 y1) s'"
      using p s by (cases p) (auto simp: peak_raw_def peak_in_def)
  qed simp
  then show ?thesis by (auto simp: find_peak_def FIND_PEAK)
next
  case FIND_CENTROID
  let ?r = "region (x0 + 1) (x1 - 1) (y0 + 1) (y1 - 1)"
  have "\<exists>s'. fold_opt (peak_smooth img) ?r peak_start = Some s' \<and> peak_in ?r s'"
  proof (rule fold_opt_inv)
    fix p s
    assume p: "p \<in> set ?r" and s: "peak_in ?r s"
    obtain x y where xy: "p = (x, y)" by (cases p)
    have "\<exists>v. px img i j = Some v" if "x - 1 \<le> i" "i \<le> x + 1" "y - 1 \<le> j" "j \<le> y + 1" for i j
      using px_some[OF assms(1), of i j] that p assms(2-) by (auto simp: in_region in_image_def xy)
    then obtain f where f: "\<And>i j. x - 1 \<le> i \<Longrightarrow> i \<le> x + 1 \<Longrightarrow> y - 1 \<le> j \<Longrightarrow> j \<le> y + 1 \<Longrightarrow> px img i j = Some (f i j)" by metis
    then show "\<exists>s'. peak_smooth img p s = Some s' \<and> peak_in ?r s'"
      using p s by (auto simp: peak_smooth_def smoothed_def peak_in_def xy)
  qed simp
  then show ?thesis
    by (auto simp: find_peak_def FIND_CENTROID peak_in_def in_region)
qed

lemma window_in_image:
  assumes "img_ok img" and "(x, y) \<in> set (window img peak_x peak_y r)"
  shows "in_image img (x, y)"
proof -
  obtain minx miny maxx maxy where b: "bounds img = (minx, miny, maxx, maxy)" by (cases "bounds img") auto
  show ?thesis using bounds_in_image[OF assms(1) b] assms(2) by (auto simp: window_def b in_region in_image_def)
qed

lemma bg_pixel_total:
  assumes "img_ok img" and "p \<in> set (window img peak_x peak_y r)" and "0 \<le> bs_n s" and "0 \<le> bs_q s" and "0 \<le> bs_sum s"
  shows "\<exists>s'. bg_pixel img peak_x peak_y clip bg p s = Some s' \<and> 0 \<le> bs_n s' \<and> 0 \<le> bs_q s' \<and> 0 \<le> bs_sum s'"
proof -
  obtain x y where xy: "p = (x, y)" by (cases p)
  obtain v where v: "px img x y = Some v" "0 \<le> v"
    using px_some[OF assms(1) window_in_image[OF assms(1), of x y peak_x peak_y r]] assms(2) by (auto simp: xy)
  let ?k = "real_of_int (bs_n s + 1)" and ?d = "real_of_int v - bs_a s"
  have "d * (d - d / k) = d\<^sup>2 * (1 - 1 / k)" for d k :: real
    by (simp add: power2_eq_square right_diff_distrib)
  moreover have "real_of_int v - (bs_a s + ?d / ?k) = ?d - ?d / ?k" by simp
  ultimately have "?d * (real_of_int v - (bs_a s + ?d / ?k)) = ?d\<^sup>2 * (1 - 1 / ?k)" by (simp only:)
  moreover have "1 / ?k \<le> 1" using assms(3) by simp
  ultimately have "0 \<le> ?d * (real_of_int v - (bs_a s + ?d / ?k))" by simp
  then show ?thesis
    using v assms(3-5) by (simp add: bg_pixel_def xy Let_def)
qed

definition bg_ok :: "Background \<Rightarrow> bool" where
  "bg_ok bg = (0 \<le> nbg bg \<and> 0 \<le> mean_bg bg \<and> 0 \<le> sigma2_bg bg \<and> sigma_bg bg = sqrt (sigma2_bg bg))"

lemma bg_iterate_total:
  assumes "img_ok img"
  shows "bg_ok bg \<Longrightarrow> \<exists>bg'. bg_iterate img peak_x peak_y (window img peak_x peak_y r) n clip bg = Some bg' \<and> bg_ok bg'"
proof (induction n arbitrary: clip bg)
  case (Suc n)
  have "\<exists>s'. fold_opt (bg_pixel img peak_x peak_y clip bg) (window img peak_x peak_y r) \<lparr>bs_sum = 0, bs_a = 0, bs_q = 0, bs_n = 0\<rparr> = Some s' \<and>
      (0 \<le> bs_n s' \<and> 0 \<le> bs_q s' \<and> 0 \<le> bs_sum s')"
    by (rule fold_opt_inv) (use bg_pixel_total[OF assms] in auto)
  then obtain s where s: "fold_opt (bg_pixel img peak_x peak_y clip bg) (window img peak_x peak_y r)
      \<lparr>bs_sum = 0, bs_a = 0, bs_q = 0, bs_n = 0\<rparr> = Some s" "0 \<le> bs_n s" "0 \<le> bs_q s" "0 \<le> bs_sum s" by blast
  then show ?case
    using Suc.IH Suc.prems by (auto simp: Let_def bg_ok_def)
qed simp

lemma background_total: "img_ok img \<Longrightarrow> \<exists>bg. background img peak_x peak_y = Some bg \<and> bg_ok bg"
  unfolding background_def by (rule bg_iterate_total) (simp_all add: bg_ok_def)

lemma measure_mass_total:
  assumes "img_ok img"
  shows "\<exists>t s. measure_mass bad img mode pk bg = Some (t, s) \<and> (0 \<le> bad \<longrightarrow> 0 \<le> t)"
proof (cases mode)
  case FIND_CENTROID
  let ?t = "c_ushort bad (mean_bg bg + 3 * sigma_bg bg + 0.5)"
  have "\<exists>s. fold_opt (mass_pixel img (pk_x pk) (pk_y pk) (mean_bg bg) ?t) (window img (pk_x pk) (pk_y pk) radA)
      \<lparr>ms_cx = 0, ms_cy = 0, ms_mass = 0, ms_n = 0, ms_vec = []\<rparr> = Some s \<and> True"
  proof (rule fold_opt_inv)
    fix p s
    assume p: "p \<in> set (window img (pk_x pk) (pk_y pk) radA)"
    have "in_image img p"
      using window_in_image[OF assms, of "fst p" "snd p" "pk_x pk" "pk_y pk" radA] p by simp
    then obtain v where "px img (fst p) (snd p) = Some v"
      using px_some[OF assms, of "fst p" "snd p"] by auto
    then show "\<exists>s'. mass_pixel img (pk_x pk) (pk_y pk) (mean_bg bg) ?t p s = Some s' \<and> True"
      by (cases p) (auto simp: mass_pixel_def Let_def)
  qed simp
  then show ?thesis by (auto simp: measure_mass_def FIND_CENTROID c_ushort_def Let_def)
qed (simp add: measure_mass_def)

section \<open>A star that is found\<close>

lemma snr_pos:
  assumes "bg_ok bg" and "nbg bg \<noteq> 0" and "10 \<le> ms_mass s"
  shows "\<exists>v. snr_of s bg = Some v"
proof (cases "ms_n s > 0")
  case True
  have "0 \<le> sigma2_bg bg * real_of_int (ms_n s) * (1 + 1 / real_of_int (nbg bg))"
    using assms(1,2) True by (auto simp: bg_ok_def intro!: mult_nonneg_nonneg)
  then show ?thesis using assms(3) True by (simp add: snr_of_def Let_def)
qed (simp add: snr_of_def)

text \<open>What \<open>judge\<close> accepts.\<close>

lemma judge_cases:
  fixes srt img mode minHFD maxHFD maxADU pk bg thresh s ob
  defines "r \<equiv> judge srt img mode minHFD maxHFD maxADU pk bg thresh s ob"
  assumes "bg_ok bg" and "nbg bg \<noteq> 0"
  shows "fo_found r = (fo_result r = RC_Ok \<or> fo_result r = RC_Saturated)" "fo_peakVal r = fo_peakVal ob"
    "fo_found r \<Longrightarrow> 10 \<le> fo_mass r \<and> fo_mass r = ms_mass s \<and> (\<exists>v\<ge>3. fo_snr r = Some v) \<and> thresh < pk_val pk \<and>
       (mode = FIND_CENTROID \<longrightarrow> minHFD \<le> fo_hfd r \<and> fo_hfd r \<le> maxHFD) \<and>
       fo_x r = real_of_int (pk_x pk) + ms_cx s / ms_mass s \<and> fo_y r = real_of_int (pk_y pk) + ms_cy s / ms_mass s"
proof -
  have snr: "\<exists>v. snr_of s bg = Some v" if "10 \<le> ms_mass s" by (rule snr_pos[OF assms(2,3) that])
  show "fo_found r = (fo_result r = RC_Ok \<or> fo_result r = RC_Saturated)"
    by (simp add: r_def judge_def not_found_def Let_def)
  show "fo_peakVal r = fo_peakVal ob"
    by (simp add: r_def judge_def not_found_def Let_def)
  assume f: "fo_found r"
  have m: "10 \<le> ms_mass s" using f by (rule contrapos_pp) (simp add: r_def judge_def not_found_def Let_def)
  obtain v where v: "snr_of s bg = Some v" using snr[OF m] by blast
  let ?snr = "if pk_val pk \<le> thresh \<and> v \<ge> LOW_SNR then LOW_SNR - 0.1 else v"
  have l: "LOW_SNR \<le> ?snr" using f m v by (auto simp: r_def judge_def not_found_def Let_def snr_ge_def snr_lt_def split: if_splits)
  then have "thresh < pk_val pk" "LOW_SNR \<le> v" by (auto simp: LOW_SNR_def split: if_splits)
  then show "10 \<le> fo_mass r \<and> fo_mass r = ms_mass s \<and> (\<exists>v\<ge>3. fo_snr r = Some v) \<and> thresh < pk_val pk \<and>
       (mode = FIND_CENTROID \<longrightarrow> minHFD \<le> fo_hfd r \<and> fo_hfd r \<le> maxHFD) \<and>
       fo_x r = real_of_int (pk_x pk) + ms_cx s / ms_mass s \<and> fo_y r = real_of_int (pk_y pk) + ms_cy s / ms_mass s"
    using f m v by (auto simp: r_def judge_def not_found_def Let_def snr_ge_def snr_lt_def LOW_SNR_def split: if_splits)
qed

text \<open>The sums over an aperture whose pixels are not below the background: every direction is bounded.\<close>

definition aperture_sums :: "MassSums \<Rightarrow> bool" where
  "aperture_sums s = (0 \<le> ms_mass s \<and> (\<forall>u v. u * ms_cx s + v * ms_cy s \<le> 7 * sqrt (u\<^sup>2 + v\<^sup>2) * ms_mass s))"

lemma direction_bound: "(u * x + v * y :: real) \<le> sqrt (u\<^sup>2 + v\<^sup>2) * sqrt (x\<^sup>2 + y\<^sup>2)"
proof -
  have "(u * x + v * y)\<^sup>2 + (u * y - v * x)\<^sup>2 = (u\<^sup>2 + v\<^sup>2) * (x\<^sup>2 + y\<^sup>2)"
    by (simp add: power2_eq_square algebra_simps)
  then have "(u * x + v * y)\<^sup>2 \<le> (u\<^sup>2 + v\<^sup>2) * (x\<^sup>2 + y\<^sup>2)" by (metis le_add_same_cancel1 zero_le_power2)
  then have "\<bar>u * x + v * y\<bar> \<le> sqrt ((u\<^sup>2 + v\<^sup>2) * (x\<^sup>2 + y\<^sup>2))" using real_sqrt_le_mono by fastforce
  then show ?thesis by (simp add: real_sqrt_mult)
qed

lemma mass_pixel_sums:
  assumes "mass_pixel img peak_x peak_y mean thresh p s = Some s'" and "aperture_sums s" and "mean \<le> real_of_int thresh"
  shows "aperture_sums s'"
proof -
  obtain x y where xy: "p = (x, y)" by (cases p)
  let ?dx = "x - peak_x" and ?dy = "y - peak_y"
  show ?thesis
  proof (cases "s' = s")
    case False
    then obtain val where v: "px img x y = Some val" "\<not> val < thresh" "?dx * ?dx + ?dy * ?dy \<le> radA * radA"
      "ms_cx s' = ms_cx s + real_of_int ?dx * (real_of_int val - mean)" "ms_cy s' = ms_cy s + real_of_int ?dy * (real_of_int val - mean)"
      "ms_mass s' = ms_mass s + (real_of_int val - mean)"
      using assms(1) by (auto simp: mass_pixel_def xy Let_def bind_eq_Some_conv split: if_splits)
    let ?d = "real_of_int val - mean"
    have d: "0 \<le> ?d" using v(2) assms(3) by linarith
    have "(real_of_int ?dx)\<^sup>2 + (real_of_int ?dy)\<^sup>2 \<le> 7\<^sup>2"
      using v(3) by (metis (mono_tags) of_int_add of_int_mult of_int_le_iff of_int_numeral power2_eq_square radA_def)
    then have "sqrt ((real_of_int ?dx)\<^sup>2 + (real_of_int ?dy)\<^sup>2) \<le> 7" by (simp add: real_le_lsqrt real_sqrt_le_iff)
    then have b: "u * real_of_int ?dx + w * real_of_int ?dy \<le> 7 * sqrt (u\<^sup>2 + w\<^sup>2)" for u w
      using order_trans[OF direction_bound[of u "real_of_int ?dx" w "real_of_int ?dy"] mult_left_mono[of _ 7 "sqrt (u\<^sup>2 + w\<^sup>2)"]]
      by (simp add: mult.commute)
    have "u * ms_cx s' + w * ms_cy s' \<le> 7 * sqrt (u\<^sup>2 + w\<^sup>2) * ms_mass s'" for u w
    proof -
      have "u * ms_cx s' + w * ms_cy s' = u * ms_cx s + w * ms_cy s + (u * real_of_int ?dx + w * real_of_int ?dy) * ?d"
        unfolding v(4,5) by (simp add: algebra_simps)
      also have "\<dots> \<le> 7 * sqrt (u\<^sup>2 + w\<^sup>2) * ms_mass s + 7 * sqrt (u\<^sup>2 + w\<^sup>2) * ?d"
        using assms(2) mult_right_mono[OF b[of u w] d] unfolding aperture_sums_def by (intro add_mono) auto
      finally show ?thesis unfolding v(6) by (simp add: algebra_simps)
    qed
    then show ?thesis using assms(2) d v(6) by (simp add: aperture_sums_def)
  qed (use assms(2) in simp)
qed

lemma le_of_sq_le: "R * R \<le> M * R \<Longrightarrow> 0 \<le> R \<Longrightarrow> 0 \<le> M \<Longrightarrow> R \<le> (M :: real)"
  by (cases "R = 0") (auto simp: mult_le_cancel_right)

lemma centroid_in_aperture:
  assumes "aperture_sums s" and "0 < ms_mass s"
  shows "(ms_cx s / ms_mass s)\<^sup>2 + (ms_cy s / ms_mass s)\<^sup>2 \<le> 7\<^sup>2"
proof -
  let ?q = "(ms_cx s)\<^sup>2 + (ms_cy s)\<^sup>2"
  have "ms_cx s * ms_cx s + ms_cy s * ms_cy s \<le> 7 * sqrt ?q * ms_mass s" using assms(1) unfolding aperture_sums_def by blast
  then have "sqrt ?q * sqrt ?q \<le> 7 * ms_mass s * sqrt ?q" by (simp add: power2_eq_square ac_simps)
  moreover have "0 \<le> sqrt ?q" "0 \<le> 7 * ms_mass s" using assms(2) by simp_all
  ultimately have "sqrt ?q \<le> 7 * ms_mass s" by (rule le_of_sq_le)
  then have "?q \<le> (7 * ms_mass s)\<^sup>2" by (rule sqrt_le_D)
  then have "?q / (ms_mass s)\<^sup>2 \<le> 7\<^sup>2" using assms(2) by (simp add: power_mult_distrib divide_le_eq)
  then show ?thesis by (simp add: power_divide add_divide_distrib)
qed

lemma fold_opt_preserves:
  assumes "\<And>p s s'. p \<in> set ps \<Longrightarrow> I s \<Longrightarrow> f p s = Some s' \<Longrightarrow> I s'" and "I s" and "fold_opt f ps s = Some s'"
  shows "I s'"
  using assms
proof (induction ps arbitrary: s)
  case (Cons p ps)
  obtain s1 where s1: "f p s = Some s1" "fold_opt f ps s1 = Some s'" using Cons.prems(3) by (auto simp: bind_eq_Some_conv)
  have "I s1" using Cons.prems(1,2) s1(1) by auto
  then show ?case using Cons.IH[of s1] Cons.prems(1) s1(2) by auto
qed simp

lemma measure_mass_sums:
  assumes "measure_mass bad img FIND_CENTROID pk bg = Some (t, s)" and "0 \<le> mean_bg bg" and "1 \<le> 6 * sigma_bg bg"
    and "mean_bg bg + 3 * sigma_bg bg + 0.5 < 65536"
  shows "aperture_sums s"
proof -
  let ?x = "mean_bg bg + 3 * sigma_bg bg + 0.5"
  have "c_trunc ?x = \<lfloor>?x\<rfloor>" "0 \<le> \<lfloor>?x\<rfloor>" "\<lfloor>?x\<rfloor> < 65536" using assms(2-4) by (auto simp: c_trunc_def floor_less_iff)
  then have "c_ushort bad ?x = \<lfloor>?x\<rfloor>" by (simp add: c_ushort_def)
  moreover have "mean_bg bg \<le> real_of_int \<lfloor>?x\<rfloor>" using assms(3) by linarith
  ultimately have le: "mean_bg bg \<le> real_of_int (c_ushort bad ?x)" by simp
  have "fold_opt (mass_pixel img (pk_x pk) (pk_y pk) (mean_bg bg) (c_ushort bad ?x)) (window img (pk_x pk) (pk_y pk) radA)
      \<lparr>ms_cx = 0, ms_cy = 0, ms_mass = 0, ms_n = 0, ms_vec = []\<rparr> = Some s"
    using assms(1) by (auto simp: measure_mass_def Let_def bind_eq_Some_conv)
  then show ?thesis
    by (rule fold_opt_preserves[rotated 2]) (use mass_pixel_sums[OF _ _ le] in \<open>auto simp: aperture_sums_def\<close>)
qed

text \<open>The stages of \<open>FindStar\<close>, none of which fails.\<close>

lemma FindStar_stages:
  fixes srt bad img base_x base_y searchRegion mode minHFD maxHFD maxADU
  assumes "img_ok img" and "0 \<le> bad"
  defines "r \<equiv> FindStar srt bad img base_x base_y searchRegion mode minHFD maxHFD maxADU"
  shows "(\<exists>e \<in> {RC_Error, RC_LowSNR}. \<exists>v. r = Some (not_found e ((out_start base_x base_y)\<lparr>fo_peakVal := v, fo_hfd := 0\<rparr>))) \<or>
    (\<exists>pk v bg t s ps. (\<forall>(x, y)\<in>set ps. \<bar>x - base_x\<bar> \<le> searchRegion \<and> \<bar>y - base_y\<bar> \<le> searchRegion \<and> in_image img (x, y)) \<and>
       peak_in ps pk \<and> background img (pk_x pk) (pk_y pk) = Some bg \<and> bg_ok bg \<and> nbg bg \<noteq> 0 \<and>
       measure_mass bad img mode pk bg = Some (t, s) \<and> 0 \<le> t \<and>
       r = Some (judge srt img mode minHFD maxHFD maxADU pk bg t s ((out_start base_x base_y)\<lparr>fo_peakVal := v\<rparr>)))"
proof -
  obtain minx miny maxx maxy where b: "bounds img = (minx, miny, maxx, maxy)" by (cases "bounds img") auto
  note bi = bounds_in_image[OF assms(1) b]
  define x0 x1 y0 y1 where d: "x0 = max (base_x - searchRegion) minx" "x1 = min (base_x + searchRegion) maxx"
    "y0 = max (base_y - searchRegion) miny" "y1 = min (base_y + searchRegion) maxy"
  have in_b: "0 \<le> x0" "x1 < si_width img" "0 \<le> y0" "y1 < si_height img" using bi by (auto simp: d)
  obtain pk v where pk: "find_peak img mode x0 x1 y0 y1 = Some (pk, v)" "peak_in (region x0 x1 y0 y1) pk"
    using find_peak_total[OF assms(1) in_b, of mode] by blast
  obtain bg where bg: "background img (pk_x pk) (pk_y pk) = Some bg" "bg_ok bg" using background_total[OF assms(1)] by blast
  obtain t s where ms: "measure_mass bad img mode pk bg = Some (t, s)" "0 \<le> t"
    using measure_mass_total[OF assms(1)] assms(2) by blast
  have r: "r = (if x1 \<le> x0 \<or> y1 \<le> y0 then Some (not_found RC_Error (out_start base_x base_y))
      else if nbg bg = 0 then Some (not_found RC_LowSNR ((out_start base_x base_y)\<lparr>fo_peakVal := v, fo_hfd := 0\<rparr>))
      else Some (judge srt img mode minHFD maxHFD maxADU pk bg t s ((out_start base_x base_y)\<lparr>fo_peakVal := v\<rparr>)))"
    using pk(1) bg(1) ms by (simp add: r_def FindStar_def b Let_def d)
  have reg: "\<forall>(x, y)\<in>set (region x0 x1 y0 y1). \<bar>x - base_x\<bar> \<le> searchRegion \<and> \<bar>y - base_y\<bar> \<le> searchRegion \<and> in_image img (x, y)"
    using in_b by (auto simp: in_region in_image_def d)
  consider "x1 \<le> x0 \<or> y1 \<le> y0" | "\<not> (x1 \<le> x0 \<or> y1 \<le> y0)" "nbg bg = 0" | "\<not> (x1 \<le> x0 \<or> y1 \<le> y0)" "nbg bg \<noteq> 0" by blast
  then show ?thesis
  proof cases
    case 1
    have "(out_start base_x base_y)\<lparr>fo_peakVal := 0, fo_hfd := 0\<rparr> = out_start base_x base_y" by (simp add: out_start_def)
    then show ?thesis using 1 r by (intro disjI1 bexI[of _ RC_Error] exI[of _ 0]) simp_all
  next
    case 2
    then show ?thesis using r by (intro disjI1 bexI[of _ RC_LowSNR] exI[of _ v]) simp_all
  next
    case 3
    then show ?thesis
      using r reg pk(2) bg ms by (intro disjI2 exI[of _ pk] exI[of _ v] exI[of _ bg] exI[of _ t] exI[of _ s] exI[of _ "region x0 x1 y0 y1"]) simp
  qed
qed

lemma find_total:
  assumes "img_ok img" and "0 \<le> bad"
  shows "\<exists>out. FindStar srt bad img base_x base_y searchRegion mode minHFD maxHFD maxADU = Some out \<and>
    (fo_found out \<longleftrightarrow> fo_result out = RC_Ok \<or> fo_result out = RC_Saturated) \<and>
    (fo_found out \<longrightarrow> 10 \<le> fo_mass out \<and> (\<exists>v\<ge>3. fo_snr out = Some v) \<and>
       (mode = FIND_CENTROID \<longrightarrow> minHFD \<le> fo_hfd out \<and> fo_hfd out \<le> maxHFD))"
proof -
  let ?r = "FindStar srt bad img base_x base_y searchRegion mode minHFD maxHFD maxADU"
  from FindStar_stages[OF assms, of srt base_x base_y searchRegion mode minHFD maxHFD maxADU] show ?thesis
  proof (elim disjE)
    assume "\<exists>e \<in> {RC_Error, RC_LowSNR}. \<exists>v. ?r = Some (not_found e ((out_start base_x base_y)\<lparr>fo_peakVal := v, fo_hfd := 0\<rparr>))"
    then show ?thesis by (auto simp: not_found_def)
  next
    assume "\<exists>pk v bg t s ps. (\<forall>(x, y)\<in>set ps. \<bar>x - base_x\<bar> \<le> searchRegion \<and> \<bar>y - base_y\<bar> \<le> searchRegion \<and> in_image img (x, y)) \<and>
       peak_in ps pk \<and> background img (pk_x pk) (pk_y pk) = Some bg \<and> bg_ok bg \<and> nbg bg \<noteq> 0 \<and>
       measure_mass bad img mode pk bg = Some (t, s) \<and> 0 \<le> t \<and>
       ?r = Some (judge srt img mode minHFD maxHFD maxADU pk bg t s ((out_start base_x base_y)\<lparr>fo_peakVal := v\<rparr>))"
    then obtain pk v bg t s where b: "bg_ok bg" "nbg bg \<noteq> 0"
      and r: "?r = Some (judge srt img mode minHFD maxHFD maxADU pk bg t s ((out_start base_x base_y)\<lparr>fo_peakVal := v\<rparr>))" by blast
    show ?thesis
      unfolding r using judge_cases(1,3)[OF b, of srt img mode minHFD maxHFD maxADU pk t s "(out_start base_x base_y)\<lparr>fo_peakVal := v\<rparr>"] by auto
  qed
qed

text \<open>C10: find_star_total_and_judged. On every image whose data and subframe match its size, for every base position,
  search region and mode, \<open>FindStar\<close> reads no pixel outside of the image and returns a result; it
  reports a star exactly when the result is \<open>Ok\<close> or \<open>Saturated\<close>, and then the mass is at least 10, the
  signal-to-noise ratio is a number and at least 3, and in centroid mode the half flux diameter is in
  its limits.\<close>

theorem find_star_total_and_judged:
  assumes "img_ok img" and "0 \<le> bad"
  shows "\<exists>out. FindStar srt bad img base_x base_y searchRegion mode minHFD maxHFD maxADU = Some out \<and>
    (fo_found out \<longleftrightarrow> fo_result out = RC_Ok \<or> fo_result out = RC_Saturated) \<and>
    (fo_found out \<longrightarrow> 10 \<le> fo_mass out \<and> (\<exists>v\<ge>3. fo_snr out = Some v) \<and>
       (mode = FIND_CENTROID \<longrightarrow> minHFD \<le> fo_hfd out \<and> fo_hfd out \<le> maxHFD))"
  by (rule find_total[OF assms])

definition example_image :: StarImage where
  "example_image = \<lparr>si_data = replicate 4 0, si_width = 2, si_height = 2, subframeEmpty = True, subLeft = 0, subTop = 0,
     subRight = 0, subBottom = 0, si_pedestal = 0, si_bitsPerPixel = 16\<rparr>"

theorem find_star_total_and_judged_witness:
  "\<exists>out. FindStar (\<lambda>v. v) 0 example_image 1 1 15 FIND_CENTROID 1 10 0 = Some out \<and>
    (fo_found out \<longleftrightarrow> fo_result out = RC_Ok \<or> fo_result out = RC_Saturated) \<and>
    (fo_found out \<longrightarrow> 10 \<le> fo_mass out \<and> (\<exists>v\<ge>3. fo_snr out = Some v) \<and>
       (FIND_CENTROID = FIND_CENTROID \<longrightarrow> 1 \<le> fo_hfd out \<and> fo_hfd out \<le> 10))"
  by (rule find_star_total_and_judged) (simp_all add: img_ok_def example_image_def)

text \<open>A star that \<open>FindStar\<close> reports lies at a peak inside of the search region and of the image:
  in peak mode exactly there, in centroid mode at most seven pixels from it as long as the background
  noise is at least a sixth of an ADU (so that the threshold is above the background) and the
  threshold fits into 16 bits.\<close>

theorem star_found_near_peak:
  assumes "img_ok img" and "0 \<le> bad"
    and "FindStar srt bad img base_x base_y searchRegion mode minHFD maxHFD maxADU = Some out" and "fo_found out"
  shows "\<exists>x y bg. \<bar>x - base_x\<bar> \<le> searchRegion \<and> \<bar>y - base_y\<bar> \<le> searchRegion \<and> in_image img (x, y) \<and>
    background img x y = Some bg \<and>
    (mode = FIND_PEAK \<longrightarrow> fo_x out = real_of_int x \<and> fo_y out = real_of_int y) \<and>
    (mode = FIND_CENTROID \<longrightarrow> 1 \<le> 6 * sigma_bg bg \<longrightarrow> mean_bg bg + 3 * sigma_bg bg + 0.5 < 65536 \<longrightarrow>
       (fo_x out - real_of_int x)\<^sup>2 + (fo_y out - real_of_int y)\<^sup>2 \<le> 7\<^sup>2)"
proof -
  have "\<not> fo_found (not_found e o1)" for e o1 by (simp add: not_found_def)
  then obtain pk v bg t s ps where st:
    "\<forall>(x, y)\<in>set ps. \<bar>x - base_x\<bar> \<le> searchRegion \<and> \<bar>y - base_y\<bar> \<le> searchRegion \<and> in_image img (x, y)"
    "peak_in ps pk" "background img (pk_x pk) (pk_y pk) = Some bg" "bg_ok bg" "nbg bg \<noteq> 0"
    "measure_mass bad img mode pk bg = Some (t, s)" "0 \<le> t"
    "out = judge srt img mode minHFD maxHFD maxADU pk bg t s ((out_start base_x base_y)\<lparr>fo_peakVal := v\<rparr>)"
    using FindStar_stages[OF assms(1,2), of srt base_x base_y searchRegion mode minHFD maxHFD maxADU] assms(3,4) by auto
  note j = judge_cases(3)[OF st(4,5) assms(4)[unfolded st(8)], folded st(8)]
  have p: "(pk_x pk, pk_y pk) \<in> set ps" using j st(2,7) by (auto simp: peak_in_def)
  have "mode = FIND_PEAK \<longrightarrow> ms_cx s = 0 \<and> ms_cy s = 0" using st(6) by (auto simp: measure_mass_def)
  moreover have "(fo_x out - real_of_int (pk_x pk))\<^sup>2 + (fo_y out - real_of_int (pk_y pk))\<^sup>2 \<le> 7\<^sup>2"
    if "mode = FIND_CENTROID" "1 \<le> 6 * sigma_bg bg" "mean_bg bg + 3 * sigma_bg bg + 0.5 < 65536"
  proof -
    have "aperture_sums s" using measure_mass_sums[of bad img pk bg t s] st(4,6) that by (simp add: bg_ok_def)
    then show ?thesis using centroid_in_aperture[of s] j by simp
  qed
  ultimately show ?thesis
    using st(1,3) p j by (intro exI[of _ "pk_x pk"] exI[of _ "pk_y pk"] exI[of _ bg]) auto
qed

text \<open>A bright pixel in the corner of an image of nine by two.\<close>

definition peak_image :: StarImage where
  "peak_image = \<lparr>si_data = 1000 # replicate 17 0, si_width = 9, si_height = 2, subframeEmpty = True, subLeft = 0, subTop = 0,
     subRight = 0, subBottom = 0, si_pedestal = 0, si_bitsPerPixel = 16\<rparr>"

lemma peak_image_px: "0 \<le> y * 9 + x \<Longrightarrow> y * 9 + x < 18 \<Longrightarrow> px peak_image x y = Some (if y * 9 + x = 0 then 1000 else 0)"
  by (auto simp: px_def peak_image_def Let_def nth_Cons split: nat.split)

lemma peak_image_region: "region 0 8 0 1 = [(0,0),(1,0),(2,0),(3,0),(4,0),(5,0),(6,0),(7,0),(8,0),(0,1),(1,1),(2,1),(3,1),(4,1),(5,1),(6,1),(7,1),(8,1)]"
  by (simp add: region_def upto.simps)

lemma peak_image_peak: "find_peak peak_image FIND_PEAK 0 8 0 1 = Some (\<lparr>pk_val = 1000, pk_x = 0, pk_y = 0, max3 = (0, 0, 0)\<rparr>, 1000)"
  by (simp add: find_peak_def peak_image_region peak_raw_def peak_image_px peak_start_def)

lemma peak_image_background: "background peak_image 0 0 = Some \<lparr>mean_bg = 0, sigma2_bg = 0, sigma_bg = 0, nbg = 3\<rparr>"
proof -
  have b: "bounds peak_image = (0, 0, 8, 1)" by (simp add: bounds_def peak_image_def)
  have n: "(9 :: nat) = Suc 8" by simp
  show ?thesis
    unfolding background_def n bg_iterate.simps(2)
    by (simp add: window_def b radB_def radA_def peak_image_region bg_pixel_def peak_image_px Let_def)
qed

lemma peak_image_star: "\<exists>out. FindStar srt 0 peak_image 1 1 15 FIND_PEAK 1 10 0 = Some out \<and> fo_found out"
proof -
  have b: "bounds peak_image = (0, 0, 8, 1)" by (simp add: bounds_def peak_image_def)
  have "sqrt 2000 \<le> sqrt (50\<^sup>2)" by (rule real_sqrt_le_mono) simp
  then have "sqrt 2000 * 3 \<le> 1000" by simp
  then have "3 \<le> 1000 / sqrt 2000" by (simp add: le_divide_eq mult.commute)
  then show ?thesis
    by (simp add: FindStar_def b peak_image_peak peak_image_background measure_mass_def judge_def snr_of_def snr_lt_def snr_ge_def LOW_SNR_def not_found_def)
qed

theorem star_found_near_peak_witness:
  "\<exists>w x y bg. FindStar (\<lambda>v. v) 0 peak_image 1 1 15 FIND_PEAK 1 10 0 = Some w \<and> fo_found w \<and>
    \<bar>x - 1\<bar> \<le> 15 \<and> \<bar>y - 1\<bar> \<le> 15 \<and> in_image peak_image (x, y) \<and> background peak_image x y = Some bg \<and>
    fo_x w = real_of_int x \<and> fo_y w = real_of_int y"
proof -
  obtain w where w: "FindStar (\<lambda>v. v) 0 peak_image 1 1 15 FIND_PEAK 1 10 0 = Some w" "fo_found w"
    using peak_image_star by blast
  have "img_ok peak_image" by (simp add: img_ok_def peak_image_def)
  from star_found_near_peak[OF this _ w] w show ?thesis by auto
qed

section \<open>The half flux radius splits the mass\<close>

text \<open>What the standard promises of the sort: the same pixels, by ascending radius.\<close>

locale std_sort =
  fixes srt :: "R2M list \<Rightarrow> R2M list"
  assumes srt_mset: "mset (srt xs) = mset xs"
    and srt_sorted: "sorted (map r2 (srt xs))"
begin

lemma srt_set: "set (srt xs) = set xs"
  by (rule mset_eq_setD[OF srt_mset])

lemma srt_filter_mass: "sum_list (map rm (filter P (srt xs))) = sum_list (map rm (filter P xs))"
proof -
  have "mset (map rm (filter P (srt xs))) = mset (map rm (filter P xs))" by (simp add: mset_filter srt_mset)
  then show ?thesis by (metis sum_mset_sum_list)
qed

lemma srt_mass: "sum_list (map rm (srt xs)) = sum_list (map rm xs)"
  using srt_filter_mass[of "\<lambda>_. True"] by simp

lemma srt_split:
  assumes "srt xs = us @ w # zs"
  shows "u \<in> set us \<Longrightarrow> r2 u \<le> r2 w" "u \<in> set us \<Longrightarrow> r2 u \<le> last (0 # map r2 us)" "z \<in> set zs \<Longrightarrow> r2 w \<le> r2 z"
proof -
  have srt: "sorted (map r2 us @ r2 w # map r2 zs)" using srt_sorted[of xs] by (simp add: assms)
  then show "u \<in> set us \<Longrightarrow> r2 u \<le> r2 w" "z \<in> set zs \<Longrightarrow> r2 w \<le> r2 z" by (auto simp: sorted_append)
  have "sorted (map r2 us)" using srt by (simp add: sorted_append)
  then show "r2 u \<le> last (0 # map r2 us)" if "u \<in> set us"
    using that by (induction us rule: rev_induct) (auto simp: sorted_append)
qed

end

interpretation radius_sort: std_sort "sort_key r2"
  by unfold_locales simp_all

text \<open>The loop stops at the first pixel with which the mass exceeds the half.\<close>

lemma half_mass_split:
  "m1 \<le> halfm \<Longrightarrow> halfm < m1 + sum_list (map rm ws) \<Longrightarrow>
   \<exists>us w zs. ws = us @ w # zs \<and> m1 + sum_list (map rm us) \<le> halfm \<and> halfm < m1 + sum_list (map rm us) + rm w \<and>
     half_mass halfm (r20, r21, m0, m1) ws =
       (last (r21 # map r2 us), r2 w, m1 + sum_list (map rm us), m1 + sum_list (map rm us) + rm w)"
proof (induction ws arbitrary: r20 r21 m0 m1)
  case (Cons w ws)
  show ?case
  proof (cases "m1 + rm w > halfm")
    case True
    then show ?thesis using Cons.prems by (intro exI[of _ "[]"] exI[of _ w] exI[of _ ws]) simp
  next
    case False
    then obtain us w1 zs where IH: "ws = us @ w1 # zs" "m1 + rm w + sum_list (map rm us) \<le> halfm"
      "halfm < m1 + rm w + sum_list (map rm us) + rm w1"
      "half_mass halfm (r21, r2 w, m1, m1 + rm w) ws =
        (last (r2 w # map r2 us), r2 w1, m1 + rm w + sum_list (map rm us), m1 + rm w + sum_list (map rm us) + rm w1)"
      using Cons.IH[of "m1 + rm w" r21 "r2 w" m1] Cons.prems by (auto simp: add.assoc)
    then show ?thesis using False
      by (intro exI[of _ "w # us"] exI[of _ w1] exI[of _ zs]) (simp add: Let_def add.assoc)
  qed
qed simp

lemma interpolate_between:
  assumes "(a :: real) \<le> b" and "m0 \<le> h" and "h < m1"
  shows "a \<le> a + (b - a) / (m1 - m0) * (h - m0)" and "a + (b - a) / (m1 - m0) * (h - m0) \<le> b"
proof -
  let ?t = "(h - m0) / (m1 - m0)"
  have t: "0 \<le> ?t" "?t \<le> 1" using assms(2,3) by simp_all
  have eq: "a + (b - a) / (m1 - m0) * (h - m0) = a + (b - a) * ?t" by simp
  show "a \<le> a + (b - a) / (m1 - m0) * (h - m0)" unfolding eq using mult_nonneg_nonneg[of "b - a" ?t] assms(1) t(1) by linarith
  have "(b - a) * ?t \<le> b - a" using assms(1) t by (intro mult_left_le) simp_all
  then show "a + (b - a) / (m1 - m0) * (h - m0) \<le> b" unfolding eq by simp
qed

definition pixel_dist :: "real \<Rightarrow> real \<Rightarrow> R2M \<Rightarrow> real" where
  "pixel_dist cx cy v = sqrt ((real_of_int (rpx v) - cx)\<^sup>2 + (real_of_int (rpy v) - cy)\<^sup>2)"

lemma with_radius_fields [simp]:
  "rm (with_radius cx cy v) = rm v" "sqrt (r2 (with_radius cx cy v)) = pixel_dist cx cy v" "0 \<le> r2 (with_radius cx cy v)"
  by (simp_all add: with_radius_def Let_def pixel_dist_def power2_eq_square)

definition mass_where :: "(R2M \<Rightarrow> bool) \<Rightarrow> R2M list \<Rightarrow> real" where
  "mass_where P vec = sum_list (map rm (filter P vec))"

lemma mass_mono:
  "(\<And>v. v \<in> set vs \<Longrightarrow> 0 \<le> rm v) \<Longrightarrow> (\<And>v. v \<in> set vs \<Longrightarrow> P v \<Longrightarrow> Q v) \<Longrightarrow>
   sum_list (map rm (filter P vs)) \<le> sum_list (map rm (filter Q vs))"
  by (induction vs) (auto intro: add_increasing)

lemma with_radius_mass:
  "sum_list (map rm (filter (\<lambda>w. P (sqrt (r2 w))) (map (with_radius cx cy) vec))) = mass_where (\<lambda>v. P (pixel_dist cx cy v)) vec"
  by (simp add: mass_where_def filter_map comp_def)

context std_sort begin

lemma hfr_split:
  fixes cx cy
  assumes "length vec \<noteq> 1" and nn: "\<forall>v\<in>set vec. 0 \<le> rm v" and "sum_list (map rm vec) = mass" and "0 < mass"
  defines "R \<equiv> hfr srt vec cx cy mass" and "d \<equiv> pixel_dist cx cy"
  shows "mass_where (\<lambda>v. d v < R) vec \<le> mass / 2 \<and>
    (\<exists>u\<in>set vec. R \<le> d u \<and> mass / 2 < mass_where (\<lambda>v. d v \<le> d u) vec \<and> (\<forall>v\<in>set vec. \<not> (R < d v \<and> d v < d u)))"
proof -
  let ?vs = "map (with_radius cx cy) vec"
  let ?m = "\<lambda>us. sum_list (map rm us)"
  have "?m (srt ?vs) = mass" using assms(3) by (simp add: srt_mass comp_def)
  then obtain us w zs where sp: "srt ?vs = us @ w # zs" "?m us \<le> mass / 2" "mass / 2 < ?m us + rm w"
    "half_mass (mass / 2) (0, 0, 0, 0) (srt ?vs) = (last (0 # map r2 us), r2 w, ?m us, ?m us + rm w)"
    using half_mass_split[of 0 "mass / 2" "srt ?vs" 0 0 0] assms(4) by force
  note ord = srt_split[OF sp(1)]
  have inv: "v \<in> set us \<union> {w} \<union> set zs \<longleftrightarrow> v \<in> set ?vs" for v using srt_set[of ?vs] sp(1) by auto
  have pos: "0 \<le> r2 v \<and> 0 \<le> rm v" if "v \<in> set ?vs" for v using that nn by auto
  then have posw: "0 \<le> rm v" if "v \<in> set us \<union> set zs" for v using that inv[of v] by blast
  define l where "l = last (0 # map r2 us)"
  have w: "0 \<le> r2 w" "us \<noteq> [] \<Longrightarrow> 0 \<le> r2 (last us) \<and> r2 (last us) \<le> r2 w"
    using ord(1)[OF last_in_set] pos[THEN conjunct1] inv[of w] inv[of "last us"] last_in_set[of us] by simp_all
  then have l: "0 \<le> l" "l \<le> r2 w" by (simp_all add: l_def last_map)
  have R: "R = sqrt l + (sqrt (r2 w) - sqrt l) / (?m us + rm w - ?m us) * (mass / 2 - ?m us)"
    using assms(1) sp(2-4) by (simp add: R_def hfr_def Let_def l_def)
  have lR: "sqrt l \<le> R" and Rw: "R \<le> sqrt (r2 w)"
    unfolding R using interpolate_between[of "sqrt l" "sqrt (r2 w)" "?m us" "mass / 2" "?m us + rm w"] l sp(2,3) by simp_all
  have mw: "mass_where (\<lambda>v. P (d v)) vec = ?m (filter (\<lambda>v. P (sqrt (r2 v))) us) + (if P (sqrt (r2 w)) then rm w else 0)
      + ?m (filter (\<lambda>v. P (sqrt (r2 v))) zs)" for P
    using with_radius_mass[of P cx cy vec] srt_filter_mass[of "\<lambda>v. P (sqrt (r2 v))" ?vs]
    by (cases "P (sqrt (r2 w))") (simp_all add: sp(1) d_def)
  have zs0: "filter (\<lambda>v. sqrt (r2 v) < R) zs = []" by (auto simp: filter_empty_conv not_less intro!: order_trans[OF Rw] real_sqrt_le_mono ord(3))
  have "?m (filter (\<lambda>v. sqrt (r2 v) < R) us) \<le> ?m (filter (\<lambda>_. True) us)"
    by (rule mass_mono) (use posw in auto)
  then have "mass_where (\<lambda>v. d v < R) vec \<le> mass / 2" using mw[of "\<lambda>x. x < R"] Rw sp(2) by (simp add: zs0)
  moreover have "mass / 2 < mass_where (\<lambda>v. d v \<le> sqrt (r2 w)) vec"
  proof -
    have "filter (\<lambda>v. sqrt (r2 v) \<le> sqrt (r2 w)) us = us" using ord(1) by (simp add: filter_id_conv)
    moreover have "0 \<le> ?m (filter (\<lambda>v. sqrt (r2 v) \<le> sqrt (r2 w)) zs)"
      by (rule sum_list_nonneg) (use posw in auto)
    ultimately show ?thesis using mw[of "\<lambda>x. x \<le> sqrt (r2 w)"] sp(3) by simp
  qed
  moreover have "\<not> (R < d v \<and> d v < sqrt (r2 w))" if "v \<in> set vec" for v
  proof -
    let ?v = "with_radius cx cy v"
    have "?v \<in> set us \<union> {w} \<union> set zs" using inv[of ?v] that by simp
    then have "r2 ?v \<le> l \<or> r2 w \<le> r2 ?v" using ord(2,3) by (auto simp: l_def)
    then have "sqrt (r2 ?v) \<le> sqrt l \<or> sqrt (r2 w) \<le> sqrt (r2 ?v)" using real_sqrt_le_mono by blast
    then show ?thesis using lR by (auto simp: d_def)
  qed
  moreover obtain u where "u \<in> set vec" "w = with_radius cx cy u" using inv[of w] by auto
  ultimately show ?thesis using Rw by (intro conjI bexI[of _ u]) (simp_all add: d_def)
qed

end

text \<open>For pixels of mass not negative and a positive total, however the sort orders equal radii, the
  half flux radius is one with at most half of the mass strictly inside; the next pixel outwards has a
  distance that encloses more than half of it, and no pixel lies strictly between.\<close>

theorem hfr_splits_mass:
  fixes cx cy
  assumes "std_sort srt" and "length vec \<noteq> 1" and "\<forall>v\<in>set vec. 0 \<le> rm v" and "sum_list (map rm vec) = mass" and "0 < mass"
  defines "R \<equiv> hfr srt vec cx cy mass" and "d \<equiv> pixel_dist cx cy"
  shows "mass_where (\<lambda>v. d v < R) vec \<le> mass / 2 \<and>
    (\<exists>u\<in>set vec. R \<le> d u \<and> mass / 2 < mass_where (\<lambda>v. d v \<le> d u) vec \<and> (\<forall>v\<in>set vec. \<not> (R < d v \<and> d v < d u)))"
  unfolding R_def d_def using std_sort.hfr_split[OF assms(1-5)] .

theorem hfr_splits_mass_witness:
  "let vec = [R2M_new 0 0 2, R2M_new 1 0 1]; R = hfr (sort_key r2) vec 0 0 3 in
   mass_where (\<lambda>v. pixel_dist 0 0 v < R) vec \<le> 3 / 2 \<and>
    (\<exists>u\<in>set vec. R \<le> pixel_dist 0 0 u \<and> 3 / 2 < mass_where (\<lambda>v. pixel_dist 0 0 v \<le> pixel_dist 0 0 u) vec \<and>
      (\<forall>v\<in>set vec. \<not> (R < pixel_dist 0 0 v \<and> pixel_dist 0 0 v < pixel_dist 0 0 u)))"
  unfolding Let_def by (rule hfr_splits_mass[OF radius_sort.std_sort_axioms]) (simp_all add: R2M_new_def)

section \<open>The class Star\<close>

datatype FindResult =
  STAR_OK | STAR_SATURATED | STAR_LOWSNR | STAR_LOWMASS | STAR_LOWHFD | STAR_HIHFD
| STAR_TOO_NEAR_EDGE | STAR_MASSCHANGE | STAR_ERROR

text \<open>The base class part of a \<open>Star\<close> is the field \<open>star_pos\<close>.\<close>

record Star =
  star_pos :: PHD_Point
  Mass :: real
  SNR :: "real option"
  HFD :: real
  PeakVal :: int
  m_lastFindResult :: FindResult

definition WasFound_result :: "FindResult \<Rightarrow> bool" where
  "WasFound_result r \<longleftrightarrow> r = STAR_OK \<or> r = STAR_SATURATED"

definition WasFound :: "Star \<Rightarrow> bool" where
  "WasFound s \<longleftrightarrow> p_valid (star_pos s) \<and> WasFound_result (m_lastFindResult s)"

definition Star_Invalidate :: "Star \<Rightarrow> Star" where
  "Star_Invalidate s = s\<lparr>Mass := 0, SNR := Some 0, HFD := 0, m_lastFindResult := STAR_ERROR,
     star_pos := p_Invalidate (star_pos s)\<rparr>"

text \<open>A new star; the peak value is not initialised.\<close>

definition Star_new :: "int \<Rightarrow> Star" where
  "Star_new undef =
     (let s = Star_Invalidate \<lparr>star_pos = PHD_Point_invalid, Mass = 0, SNR = Some 0, HFD = 0, PeakVal = undef,
                m_lastFindResult = STAR_ERROR\<rparr>
      in s\<lparr>star_pos := (star_pos s)\<lparr>pX := 0, pY := 0\<rparr>\<rparr>)"

definition Star_SetError :: "FindResult \<Rightarrow> Star \<Rightarrow> Star" where
  "Star_SetError e s = s\<lparr>m_lastFindResult := e\<rparr>"

definition find_result :: "FindCoreResult \<Rightarrow> FindResult" where
  "find_result r = (case r of
     RC_Ok \<Rightarrow> STAR_OK | RC_Saturated \<Rightarrow> STAR_SATURATED | RC_LowSNR \<Rightarrow> STAR_LOWSNR | RC_LowMass \<Rightarrow> STAR_LOWMASS
   | RC_LowHFD \<Rightarrow> STAR_LOWHFD | RC_HiHFD \<Rightarrow> STAR_HIHFD | RC_Error \<Rightarrow> STAR_ERROR)"

text \<open>What every call of \<open>Find\<close> of a guider passes on, and the parameters of the model.\<close>

record FindEnv =
  fe_sort :: "R2M list \<Rightarrow> R2M list"
  fe_bad :: int
  fe_image :: StarImage
  fe_searchRegion :: int
  fe_mode :: FindMode
  fe_minHFD :: real
  fe_maxHFD :: real
  fe_maxADU :: int

definition Star_FindAt :: "FindEnv \<Rightarrow> int \<Rightarrow> int \<Rightarrow> Star \<Rightarrow> (bool \<times> Star) option" where
  "Star_FindAt e base_x base_y s =
     do { w \<leftarrow> FindStar (fe_sort e) (fe_bad e) (fe_image e) base_x base_y (fe_searchRegion e) (fe_mode e)
                 (fe_minHFD e) (fe_maxHFD e) (fe_maxADU e);
          let r = find_result (fo_result w);
          let s1 = s\<lparr>Mass := fo_mass w, SNR := fo_snr w, HFD := fo_hfd w, PeakVal := fo_peakVal w,
                     star_pos := p_SetXY (star_pos s) (fo_x w) (fo_y w), m_lastFindResult := r\<rparr>;
          Some (WasFound_result r,
                if \<not> p_valid (star_pos s1) \<or> r = STAR_ERROR then s1\<lparr>Mass := 0, SNR := Some 0, HFD := 0\<rparr> else s1) }"

text \<open>The coordinates of a point as arguments of type \<open>int\<close>.\<close>

definition Star_FindNear :: "FindEnv \<Rightarrow> real \<Rightarrow> real \<Rightarrow> Star \<Rightarrow> (bool \<times> Star) option" where
  "Star_FindNear e x y s = Star_FindAt e (c_trunc x) (c_trunc y) s"

definition Star_Find :: "FindEnv \<Rightarrow> Star \<Rightarrow> (bool \<times> Star) option" where
  "Star_Find e s = Star_FindNear e (pX (star_pos s)) (pY (star_pos s)) s"

definition env_ok :: "FindEnv \<Rightarrow> bool" where
  "env_ok e \<longleftrightarrow> img_ok (fe_image e) \<and> 0 \<le> fe_bad e"

text \<open>\<open>Find\<close> always leaves a valid position; when it reports success the star has a mass and a finite
  signal-to-noise ratio.\<close>

lemma Star_FindAt_cases:
  assumes "env_ok e"
  obtains found s' where "Star_FindAt e x y s = Some (found, s')" "p_valid (star_pos s')" "found = WasFound s'"
    "found \<Longrightarrow> 10 \<le> Mass s'" "found \<Longrightarrow> \<exists>v\<ge>3. SNR s' = Some v"
proof -
  let ?r = "FindStar (fe_sort e) (fe_bad e) (fe_image e) x y (fe_searchRegion e) (fe_mode e) (fe_minHFD e) (fe_maxHFD e) (fe_maxADU e)"
  have i: "img_ok (fe_image e)" "0 \<le> fe_bad e" using assms by (simp_all add: env_ok_def)
  obtain w where w: "?r = Some w" "fo_found w \<longleftrightarrow> fo_result w = RC_Ok \<or> fo_result w = RC_Saturated"
    "fo_found w \<Longrightarrow> 10 \<le> fo_mass w \<and> (\<exists>v\<ge>3. fo_snr w = Some v)"
    using find_total[OF i] by blast
  let ?r = "find_result (fo_result w)"
  have f: "WasFound_result ?r = fo_found w" unfolding w(2) by (cases "fo_result w") (simp_all add: find_result_def WasFound_result_def)
  have e: "WasFound_result ?r \<Longrightarrow> ?r \<noteq> STAR_ERROR" by (auto simp: WasFound_result_def)
  obtain s' where s': "Star_FindAt e x y s = Some (fo_found w, s')" by (simp add: Star_FindAt_def Let_def w(1) f)
  then have "p_valid (star_pos s')" "m_lastFindResult s' = ?r" "?r \<noteq> STAR_ERROR \<Longrightarrow> Mass s' = fo_mass w \<and> SNR s' = fo_snr w"
    by (auto simp: Star_FindAt_def Let_def w(1) p_SetXY_def)
  then show ?thesis using that[OF s'] w(3) e by (simp add: WasFound_def f)
qed

end
