(* ===== verification/Multi_Star.thy ===== *)
theory Multi_Star
  imports Guider_State Guiding_Stats Mount_Calibration Star_Find
begin

text \<open>
  The star tracking of the guider, \<open>src/guider_multistar.cpp\<close>: the check of the star mass, the check
  of the distance to the lock position, the refinement of the offset by secondary stars, and
  \<open>UpdateCurrentPosition\<close>, which composes them.  Clock readings are arguments.  A mass that is divided
  by an exposure of zero, and a weight that is not a finite number, are \<^term>\<open>None\<close>.  Logging,
  status messages and the automatic exposure are not modelled.
\<close>

section \<open>The mass checker\<close>

text \<open>Entries are pairs of time and mass, the oldest first.\<close>

record MassChecker =
  mc_data :: "(int \<times> real) list"
  m_highMass :: real
  m_lowMass :: real
  m_timeWindow :: int
  m_exposure :: int
  m_isAutoExposure :: bool

definition mc_SetTimeWindow :: "int \<Rightarrow> MassChecker \<Rightarrow> MassChecker" where
  "mc_SetTimeWindow milliseconds c = c\<lparr>m_timeWindow := milliseconds * 2 mod 2 ^ 32\<rparr>"

definition MassChecker_new :: MassChecker where
  "MassChecker_new = mc_SetTimeWindow 22500
     \<lparr>mc_data = [], m_highMass = 0, m_lowMass = 9 * 10 ^ 99, m_timeWindow = 0, m_exposure = 0, m_isAutoExposure = False\<rparr>"

definition mc_Reset :: "MassChecker \<Rightarrow> MassChecker" where
  "mc_Reset c = c\<lparr>mc_data := [], m_highMass := 0, m_lowMass := 9 * 10 ^ 99\<rparr>"

definition mc_SetExposure :: "int \<Rightarrow> bool \<Rightarrow> MassChecker \<Rightarrow> MassChecker" where
  "mc_SetExposure exposure isAutoExp c =
     (if isAutoExp \<noteq> m_isAutoExposure c then mc_Reset (c\<lparr>m_isAutoExposure := isAutoExp, m_exposure := exposure\<rparr>)
      else if exposure \<noteq> m_exposure c
           then let c1 = c\<lparr>m_exposure := exposure\<rparr> in if \<not> m_isAutoExposure c1 then mc_Reset c1 else c1
      else c)"

definition AdjustedMass :: "MassChecker \<Rightarrow> real \<Rightarrow> real option" where
  "AdjustedMass c mass =
     (if m_isAutoExposure c
      then if m_exposure c = 0 then None else Some (mass / real_of_int (m_exposure c)) else Some mass)"

definition AppendData :: "int \<Rightarrow> real \<Rightarrow> MassChecker \<Rightarrow> MassChecker option" where
  "AppendData now mass c =
     (let oldest = now - m_timeWindow c;
          d = dropWhile (\<lambda>(t, _). t < oldest) (mc_data c)
      in do { am \<leftarrow> AdjustedMass c mass; Some (c\<lparr>mc_data := d @ [(now, am)]\<rparr>) })"

text \<open>\<open>std::nth_element\<close> puts the element there that sorting would put there.\<close>

definition mass_median :: "MassChecker \<Rightarrow> real" where
  "mass_median c = sort (map snd (mc_data c)) ! (length (mc_data c) div 2)"

definition mass_marks :: "MassChecker \<Rightarrow> MassChecker" where
  "mass_marks c =
     (let med = mass_median c; high = (if med > m_highMass c then med else m_highMass c);
          low = (if med < m_lowMass c then med else m_lowMass c)
      in c\<lparr>m_highMass := high, m_lowMass := low + 0.05 * (med - low)\<rparr>)"

text \<open>Whether to reject, and the limits when there are any.\<close>

definition CheckMass :: "real \<Rightarrow> real \<Rightarrow> MassChecker \<Rightarrow> (bool \<times> (real \<times> real \<times> real \<times> real) option \<times> MassChecker) option" where
  "CheckMass mass threshold c =
     (if length (mc_data c) < 5 then Some (False, None, c)
      else let med = mass_median c; c1 = mass_marks c;
               l0 = m_lowMass c1 * (1 - threshold); l1 = med; l2 = m_highMass c1 * (1 + threshold); l3 = med * (1 + 2 * threshold)
           in do { adjmass \<leftarrow> AdjustedMass c1 mass;
                   let reject = (adjmass < l0 \<or> adjmass > l2 \<or> adjmass > l3);
                   let k = (if reject \<and> m_isAutoExposure c1 then real_of_int (m_exposure c1) else 1);
                   Some (reject, Some (l0 * k, l1 * k, l2 * k, l3 * k), c1) })"

section \<open>The distance checker\<close>

datatype DistState = ST_GUIDING | ST_WAITING | ST_RECOVERING

record DistanceChecker =
  dc_state :: DistState
  m_expires :: int
  m_forceTolerance :: real

definition WAIT_INTERVAL_MS :: int where "WAIT_INTERVAL_MS = 5000"

definition DistanceChecker_new :: DistanceChecker where
  "DistanceChecker_new = \<lparr>dc_state = ST_GUIDING, m_expires = 0, m_forceTolerance = 0\<rparr>"

definition Activate :: "int \<Rightarrow> DistanceChecker \<Rightarrow> DistanceChecker" where
  "Activate now d =
     (if dc_state d = ST_GUIDING
      then d\<lparr>dc_state := ST_WAITING, m_expires := now + WAIT_INTERVAL_MS, m_forceTolerance := 2\<rparr> else d)"

text \<open>What the check asks the guider: not guiding, paused, settling, too few frames or no; the error.\<close>

record GuiderQuery =
  gq_guiding :: bool
  gq_paused :: bool
  gq_settling :: bool
  gq_frames :: int
  gq_avgDist :: real

definition check_distance :: "GuiderQuery \<Rightarrow> real \<Rightarrow> real \<Rightarrow> bool" where
  "check_distance q distance tolerance =
     (if \<not> gq_guiding q \<or> gq_paused q \<or> gq_settling q \<or> gq_frames q < 10 then True
      else \<not> (distance > tolerance * gq_avgDist q))"

definition CheckDistance :: "GuiderQuery \<Rightarrow> int \<Rightarrow> real \<Rightarrow> real \<Rightarrow> DistanceChecker \<Rightarrow> bool \<times> DistanceChecker" where
  "CheckDistance q now distance tolerance0 d =
     (let tolerance = (if m_forceTolerance d \<noteq> 0 then m_forceTolerance d else tolerance0);
          small_offset = check_distance q distance tolerance;
          recovering = (\<lambda>d. (True, if small_offset then d\<lparr>dc_state := ST_GUIDING\<rparr> else d))
      in case dc_state d of
           ST_GUIDING \<Rightarrow>
             if small_offset then (True, d)
             else (False, d\<lparr>dc_state := ST_WAITING, m_expires := now + WAIT_INTERVAL_MS\<rparr>)
         | ST_WAITING \<Rightarrow>
             if small_offset then (True, d\<lparr>dc_state := ST_GUIDING, m_forceTolerance := 0\<rparr>)
             else if now < m_expires d then (False, d)
             else recovering (d\<lparr>dc_state := ST_RECOVERING\<rparr>)
         | ST_RECOVERING \<Rightarrow> recovering d)"

section \<open>State of the guider with several stars\<close>

text \<open>The base class part of a \<open>GuideStar\<close> is the field \<open>gs_star\<close>.\<close>

record GuideStar =
  gs_star :: Star
  referencePoint :: PHD_Point
  missCount :: nat
  zeroCount :: nat
  offsetFromPrimary :: PHD_Point
  wasLost :: bool

definition GuideStar_of :: "Star \<Rightarrow> GuideStar" where
  "GuideStar_of s = \<lparr>gs_star = s, referencePoint = star_pos s, missCount = 0, zeroCount = 0,
     offsetFromPrimary = PHD_Point_new 0 0, wasLost = False\<rparr>"

record MultiStar =
  m_primaryStar :: Star
  m_guideStars :: "GuideStar list"
  m_primaryDistStats :: DescriptiveStats
  m_massChecker :: MassChecker
  m_multiStarMode :: bool
  m_stabilizing :: bool
  m_lockPositionMoved :: bool
  m_starsUsed :: nat
  m_massChangeThresholdEnabled :: bool
  m_massChangeThreshold :: real
  m_tolerateJumpsEnabled :: bool
  m_tolerateJumpsThreshold :: real
  m_maxStars :: nat
  m_stabilitySigmaX :: real
  s_distanceChecker :: DistanceChecker

definition DefaultMassChangeThreshold :: real where "DefaultMassChangeThreshold = 0.5"

definition SetMassChangeThreshold :: "real \<Rightarrow> MultiStar \<Rightarrow> bool \<times> MultiStar" where
  "SetMassChangeThreshold t s =
     (if t < 0 then (True, s\<lparr>m_massChangeThreshold := DefaultMassChangeThreshold\<rparr>)
      else (False, s\<lparr>m_massChangeThreshold := t\<rparr>))"

definition SetMassChangeThresholdEnabled :: "bool \<Rightarrow> MultiStar \<Rightarrow> MultiStar" where
  "SetMassChangeThresholdEnabled enable s = s\<lparr>m_massChangeThresholdEnabled := enable\<rparr>"

definition SetTolerateJumps :: "bool \<Rightarrow> real \<Rightarrow> MultiStar \<Rightarrow> bool \<times> MultiStar" where
  "SetTolerateJumps enable threshold s =
     (False, s\<lparr>m_tolerateJumpsEnabled := enable, m_tolerateJumpsThreshold := threshold\<rparr>)"

definition MIN_SEARCH_REGION :: int where "MIN_SEARCH_REGION = 7"
definition MAX_SEARCH_REGION :: int where "MAX_SEARCH_REGION = 50"

definition SetSearchRegion :: "int \<Rightarrow> 'm Guider \<Rightarrow> bool \<times> 'm Guider" where
  "SetSearchRegion searchRegion g =
     (if searchRegion < MIN_SEARCH_REGION then (True, g\<lparr>m_searchRegion := MIN_SEARCH_REGION\<rparr>)
      else if searchRegion > MAX_SEARCH_REGION then (True, g\<lparr>m_searchRegion := MAX_SEARCH_REGION\<rparr>)
      else (False, g\<lparr>m_searchRegion := searchRegion\<rparr>))"

definition ClearSecondaryStars :: "MultiStar \<Rightarrow> MultiStar" where
  "ClearSecondaryStars s =
     (if length (m_guideStars s) > 1 then s\<lparr>m_guideStars := take 1 (m_guideStars s)\<rparr> else s)"

definition ms_InvalidateCurrentPosition :: "bool \<Rightarrow> MultiStar \<Rightarrow> MultiStar" where
  "ms_InvalidateCurrentPosition fullReset s =
     (let p = Star_Invalidate (m_primaryStar s)
      in s\<lparr>m_primaryStar := (if fullReset then p\<lparr>star_pos := (star_pos p)\<lparr>pX := 0, pY := 0\<rparr>\<rparr> else p)\<rparr>)"

text \<open>The override of \<open>SetLockPosition\<close> around that of the base class.\<close>

definition ms_SetLockPosition :: "PHD_Point \<Rightarrow> MultiStar \<times> 'm Guider \<Rightarrow> (bool \<times> MultiStar \<times> 'm Guider) option" where
  "ms_SetLockPosition position = (\<lambda>(s, g).
     do { (err, g1) \<leftarrow> SetLockPosition position g;
          Some (err, (if \<not> err \<and> m_multiStarMode s then s\<lparr>m_lockPositionMoved := True, m_stabilizing := True\<rparr> else s), g1) })"

text \<open>The position is that of a click; \<open>e\<close> holds the image and the settings of the search.\<close>

definition SetCurrentPosition :: "FindEnv \<Rightarrow> PHD_Point \<Rightarrow> MultiStar \<Rightarrow> (bool \<times> MultiStar) option" where
  "SetCurrentPosition e position s =
     (if \<not> p_valid position then Some (True, s)
      else let x = pX position; y = pY position
           in if x \<le> 0 \<or> x \<ge> real_of_int (si_width (fe_image e)) then Some (True, s)
              else if y \<le> 0 \<or> y \<ge> real_of_int (si_height (fe_image e)) then Some (True, s)
              else do { (found, p) \<leftarrow> Star_FindNear e x y (m_primaryStar s);
                        Some (\<not> found, s\<lparr>m_massChecker := mc_Reset (m_massChecker s), m_primaryStar := p\<rparr>) })"

section \<open>Refining the offset\<close>

text \<open>What a frame brings: the search, the guider, the settings of the camera exposure, the clock.\<close>

record UpdEnv =
  ue_find :: FindEnv
  ue_query :: GuiderQuery
  ue_guidingEnabled :: bool
  ue_lockPos :: PHD_Point
  ue_raOnly :: bool
  ue_exposure :: int
  ue_autoExp :: bool
  ue_mount :: "Mount option"
  ue_now :: int

definition IsValidSecondaryStarPosition :: "UpdEnv \<Rightarrow> PHD_Point \<Rightarrow> bool" where
  "IsValidSecondaryStarPosition e pt =
     (let im = fe_image (ue_find e)
      in pX pt \<ge> 5 \<and> pX pt + 5 < real_of_int (si_width im) \<and> pY pt \<ge> 5 \<and> pY pt + 5 < real_of_int (si_height im))"

text \<open>Where the star is expected from its offset to the primary star.\<close>

definition find_again :: "UpdEnv \<Rightarrow> GuideStar \<Rightarrow> (bool \<times> GuideStar) option" where
  "find_again e gs =
     do { (found, st) \<leftarrow> Star_Find (ue_find e) (gs_star gs); Some (found, gs\<lparr>gs_star := st\<rparr>) }"

definition find_expected :: "UpdEnv \<Rightarrow> PHD_Point \<Rightarrow> GuideStar \<Rightarrow> (bool \<times> GuideStar) option" where
  "find_expected e loc gs =
     do { (found, st) \<leftarrow> Star_FindNear (ue_find e) (pX loc) (pY loc) (gs_star gs); Some (found, gs\<lparr>gs_star := st\<rparr>) }"

definition move_reference :: "GuideStar \<Rightarrow> GuideStar" where
  "move_reference gs =
     gs\<lparr>referencePoint := (referencePoint gs)\<lparr>pX := pX (star_pos (gs_star gs)), pY := pY (star_pos (gs_star gs))\<rparr>\<rparr>"

text \<open>The update of the reference points after a change of the lock position.\<close>

definition relocate_star :: "UpdEnv \<Rightarrow> Star \<Rightarrow> GuideStar \<Rightarrow> GuideStar option" where
  "relocate_star e primary gs =
     do { loc \<leftarrow> p_add (star_pos primary) (offsetFromPrimary gs);
          (found, gs1) \<leftarrow> (if IsValidSecondaryStarPosition e loc then find_expected e loc gs else find_again e gs);
          Some (if found then (move_reference gs1)\<lparr>wasLost := False\<rparr> else gs1\<lparr>wasLost := True\<rparr>) }"

fun relocate_stars :: "UpdEnv \<Rightarrow> Star \<Rightarrow> GuideStar list \<Rightarrow> GuideStar list option" where
  "relocate_stars e primary [] = Some []"
| "relocate_stars e primary (gs # rest) =
     do { gs1 \<leftarrow> relocate_star e primary gs; rest1 \<leftarrow> relocate_stars e primary rest; Some (gs1 # rest1) }"

text \<open>The weighted sums are \<^term>\<open>None\<close> once one of them is not a finite number.\<close>

record RefineAcc =
  ra_sums :: "(real \<times> real \<times> real) option"
  ra_averaged :: bool
  ra_starsUsed :: nat

definition star_weight :: "Star \<Rightarrow> Star \<Rightarrow> real option" where
  "star_weight st primary = (case (SNR st, SNR primary) of
     (Some a, Some b) \<Rightarrow> if b = 0 then None else Some (a / b) | _ \<Rightarrow> None)"

definition add_star :: "real option \<Rightarrow> real \<Rightarrow> real \<Rightarrow> RefineAcc \<Rightarrow> RefineAcc" where
  "add_star wt dX dY acc = acc\<lparr>ra_averaged := True,
     ra_sums := (case (wt, ra_sums acc) of
        (Some w, Some (x, y, ws)) \<Rightarrow> Some (x + w * dX, y + w * dY, ws + w) | _ \<Rightarrow> None)\<rparr>"

text \<open>
  What becomes of the star: \<open>SU_Zero\<close> erases it and continues, \<open>SU_Miss\<close> advances and continues,
  \<open>SU_Hot\<close> erases it, \<open>SU_End\<close> keeps it; the last two reach the end of the loop body.
\<close>

datatype StarUse = SU_Zero | SU_Miss | SU_Hot | SU_End

definition count_zero :: "real \<Rightarrow> real \<Rightarrow> GuideStar \<Rightarrow> GuideStar" where
  "count_zero dX dY gs =
     (if dX = 0 \<or> dY = 0 then gs\<lparr>zeroCount := zeroCount gs + 1\<rparr>
      else if zeroCount gs > 0 then gs\<lparr>zeroCount := zeroCount gs - 1\<rparr> else gs)"

definition count_miss :: "GuideStar \<Rightarrow> GuideStar" where
  "count_miss gs =
     (let gs1 = gs\<lparr>missCount := missCount gs + 1\<rparr>
      in if missCount gs1 > 10 then (move_reference gs1)\<lparr>missCount := 0\<rparr> else gs1)"

definition use_star :: "Star \<Rightarrow> real \<Rightarrow> GuideStar \<Rightarrow> RefineAcc \<Rightarrow> GuideStar \<times> RefineAcc \<times> StarUse" where
  "use_star primary primarySigma gs acc0 =
     (let dX = pX (star_pos (gs_star gs)) - pX (referencePoint gs); dY = pY (star_pos (gs_star gs)) - pY (referencePoint gs);
          acc = acc0\<lparr>ra_starsUsed := ra_starsUsed acc0 + 1\<rparr>; gs1 = gs\<lparr>wasLost := False\<rparr>
      in if dX \<noteq> 0 \<or> dY \<noteq> 0
         then let gs2 = count_zero dX dY gs1
              in if zeroCount gs2 = 5 then (gs2, acc, SU_Zero)
                 else if hypot dX dY > 2.5 * primarySigma then (count_miss gs2, acc, SU_Miss)
                 else (if missCount gs2 > 0 then gs2\<lparr>missCount := missCount gs2 - 1\<rparr> else gs2,
                       add_star (star_weight (gs_star gs2) primary) dX dY acc, SU_End)
         else (gs1, acc, SU_Hot))"

definition refine_star :: "UpdEnv \<Rightarrow> Star \<Rightarrow> real \<Rightarrow> GuideStar \<Rightarrow> RefineAcc \<Rightarrow> (GuideStar \<times> RefineAcc \<times> StarUse) option" where
  "refine_star e primary primarySigma gs acc =
     do { (found, gs1) \<leftarrow> (if wasLost gs
            then do { loc \<leftarrow> p_add (star_pos primary) (offsetFromPrimary gs); find_expected e loc gs }
            else find_again e gs);
          Some (if found then use_star primary primarySigma gs1 acc else (gs1\<lparr>wasLost := True\<rparr>, acc, SU_End)) }"

text \<open>
  The loop over the secondary stars: the flag \<open>erasures\<close>, the stars before the iterator (after the
  primary) and from it on.  With the flag set the end of the body does not advance the iterator.
\<close>

function refine_loop :: "UpdEnv \<Rightarrow> Star \<Rightarrow> real \<Rightarrow> nat \<Rightarrow> RefineAcc \<Rightarrow> bool \<Rightarrow> GuideStar list \<Rightarrow> GuideStar list \<Rightarrow>
    (RefineAcc \<times> GuideStar list) option" where
  "refine_loop e primary sigma maxStars acc erasures before [] = Some (acc, before)"
| "refine_loop e primary sigma maxStars acc erasures before (gs # rest) =
     (if ra_starsUsed acc \<ge> maxStars \<or> 1 + length before + length (gs # rest) = 1 then Some (acc, before @ gs # rest)
      else case refine_star e primary sigma gs acc of
        None \<Rightarrow> None
      | Some (gs1, acc1, SU_Zero) \<Rightarrow> refine_loop e primary sigma maxStars acc1 True before rest
      | Some (gs1, acc1, SU_Miss) \<Rightarrow> refine_loop e primary sigma maxStars acc1 erasures (before @ [gs1]) rest
      | Some (gs1, acc1, SU_Hot) \<Rightarrow> refine_loop e primary sigma maxStars acc1 False before rest
      | Some (gs1, acc1, SU_End) \<Rightarrow>
          if \<not> erasures then refine_loop e primary sigma maxStars acc1 False (before @ [gs1]) rest
          else refine_loop e primary sigma maxStars acc1 False before (gs1 # rest))"
  by pat_completeness auto

termination
  by (relation "measure (\<lambda>(_, _, _, _, _, erasures, _, rest). 2 * length rest + (if erasures then 1 else 0))") auto

text \<open>Entering and leaving the stabilization period: whether the stars are to be relocated.\<close>

definition stabilize :: "real \<Rightarrow> MultiStar \<Rightarrow> bool \<times> real \<times> MultiStar" where
  "stabilize primaryDistance s =
     (if ds_GetCount (m_primaryDistStats s) > 5
      then let sigma = ds_GetSigma (m_primaryDistStats s)
           in if \<not> m_stabilizing s \<and> primaryDistance > m_stabilitySigmaX s * sigma
              then (False, sigma, s\<lparr>m_stabilizing := True\<rparr>)
              else if m_stabilizing s \<and> primaryDistance \<le> 2 * sigma
              then (m_lockPositionMoved s, sigma, s\<lparr>m_stabilizing := False, m_lockPositionMoved := False\<rparr>)
              else (False, sigma, s)
      else (False, 0, s\<lparr>m_stabilizing := True\<rparr>))"

text \<open>The average replaces the offset only when it is smaller.\<close>

definition apply_average :: "real \<Rightarrow> RefineAcc \<Rightarrow> GuiderOffset \<Rightarrow> bool \<times> GuiderOffset" where
  "apply_average primaryDistance acc ofs =
     (case (ra_averaged acc, ra_sums acc) of
        (True, Some (x, y, w)) \<Rightarrow>
          if w \<noteq> 0 \<and> hypot (x / w) (y / w) < primaryDistance
          then (True, ofs\<lparr>cameraOfs := (cameraOfs ofs)\<lparr>pX := x / w, pY := y / w\<rparr>\<rparr>) else (False, ofs)
      | _ \<Rightarrow> (False, ofs))"

definition RefineOffset :: "UpdEnv \<Rightarrow> GuiderOffset \<Rightarrow> MultiStar \<Rightarrow> (bool \<times> GuiderOffset \<times> MultiStar) option" where
  "RefineOffset e ofs s0 =
     (let s = s0\<lparr>m_starsUsed := 1\<rparr>; q = ue_query e; sumX = pX (cameraOfs ofs); sumY = pY (cameraOfs ofs); primaryDistance = hypot sumX sumY
      in if \<not> (gq_guiding q \<and> length (m_guideStars s) > 1 \<and> ue_guidingEnabled e \<and> \<not> gq_settling q) then Some (False, ofs, s)
         else let (relocate, sigma, s1) = stabilize primaryDistance (s\<lparr>m_primaryDistStats := ds_AddValue (m_primaryDistStats s) primaryDistance\<rparr>)
         in if relocate
            then do { gss \<leftarrow> relocate_stars e (m_primaryStar s1) (tl (m_guideStars s1));
                      Some (False, ofs, s1\<lparr>m_guideStars := hd (m_guideStars s1) # gss\<rparr>) }
            else if \<not> m_stabilizing s1 \<and> length (m_guideStars s1) > 1 \<and> (sumX \<noteq> 0 \<or> sumY \<noteq> 0)
            then do { (acc, gss) \<leftarrow> refine_loop e (m_primaryStar s1) sigma (m_maxStars s1)
                        \<lparr>ra_sums = Some (sumX, sumY, 1), ra_averaged = False, ra_starsUsed = m_starsUsed s1\<rparr> False [] (tl (m_guideStars s1));
                      let (refined, ofs1) = apply_average primaryDistance acc ofs;
                      Some (refined, ofs1, s1\<lparr>m_starsUsed := ra_starsUsed acc, m_guideStars := hd (m_guideStars s1) # gss\<rparr>) }
            else Some (False, ofs, s1))"

section \<open>The position in a frame\<close>

text \<open>
  The result for the frame: the error flag, the offset, what is reported to \<open>UpdateCurrentDistance\<close>,
  and the error of the star.
\<close>

record UpdResult =
  ur_error :: bool
  ur_ofs :: GuiderOffset
  ur_distance :: "(real \<times> real) option"
  ur_starError :: FindResult

text \<open>A frame that is rejected: the error is stored in the primary star.\<close>

definition reject_frame :: "FindResult \<Rightarrow> GuiderOffset \<Rightarrow> MultiStar \<Rightarrow> UpdResult \<times> MultiStar" where
  "reject_frame err ofs s =
     (\<lparr>ur_error = True, ur_ofs = ofs, ur_distance = None, ur_starError = err\<rparr>,
      s\<lparr>m_primaryStar := Star_SetError err (m_primaryStar s)\<rparr>)"

definition frame_mass :: "UpdEnv \<Rightarrow> Star \<Rightarrow> MultiStar \<Rightarrow> (bool \<times> MultiStar) option" where
  "frame_mass e newStar s =
     (if \<not> m_massChangeThresholdEnabled s then Some (False, s)
      else do { (reject, _, c) \<leftarrow> CheckMass (Mass newStar) (m_massChangeThreshold s)
                                    (mc_SetExposure (ue_exposure e) (ue_autoExp e) (m_massChecker s));
                if reject
                then do { c1 \<leftarrow> AppendData (ue_now e) (Mass newStar) c;
                          Some (True, s\<lparr>m_massChecker := c1, s_distanceChecker := Activate (ue_now e) (s_distanceChecker s)\<rparr>) }
                else Some (False, s\<lparr>m_massChecker := c\<rparr>) })"

definition lock_distance :: "UpdEnv \<Rightarrow> Star \<Rightarrow> real option" where
  "lock_distance e newStar =
     (if p_valid (ue_lockPos e)
      then if ue_raOnly e then Some \<bar>pX (star_pos newStar) - pX (ue_lockPos e)\<bar> else p_DistanceTo (star_pos newStar) (ue_lockPos e)
      else Some 0)"

text \<open>The frame is accepted.\<close>

definition accept_frame :: "UpdEnv \<Rightarrow> Star \<Rightarrow> real \<Rightarrow> GuiderOffset \<Rightarrow> MultiStar \<Rightarrow> (UpdResult \<times> MultiStar) option" where
  "accept_frame e newStar distance ofs s =
     do { c \<leftarrow> AppendData (ue_now e) (Mass newStar) (m_massChecker s);
          let s1 = s\<lparr>m_primaryStar := newStar, m_massChecker := c\<rparr>;
          let r = \<lparr>ur_error = False, ur_ofs = ofs, ur_distance = None, ur_starError = m_lastFindResult newStar\<rparr>;
          if \<not> p_valid (ue_lockPos e) then Some (r, s1)
          else do { d \<leftarrow> p_sub (star_pos newStar) (ue_lockPos e);
                    let ofs1 = ofs\<lparr>cameraOfs := d\<rparr>;
                    (refined, ofs2, s2) \<leftarrow> (if m_multiStarMode s1 \<and> length (m_guideStars s1) > 1 then RefineOffset e ofs1 s1
                                            else Some (False, ofs1, s1\<lparr>m_starsUsed := 1\<rparr>));
                    let dist = (if refined then hypot (pX (cameraOfs ofs2)) (pY (cameraOfs ofs2)) else distance);
                    let mofs = (case ue_mount e of
                          None \<Rightarrow> mountOfs ofs2
                        | Some m \<Rightarrow> if Mount_IsCalibrated m
                                    then snd (TransformCameraCoordinatesToMountCoordinates m (cameraOfs ofs2) (mountOfs ofs2))
                                    else mountOfs ofs2);
                    Some (r\<lparr>ur_ofs := ofs2\<lparr>mountOfs := mofs\<rparr>, ur_distance := Some (dist, if p_valid mofs then \<bar>pX mofs\<bar> else 0)\<rparr>, s2) } }"

definition UpdateCurrentPosition :: "UpdEnv \<Rightarrow> GuiderOffset \<Rightarrow> MultiStar \<Rightarrow> (UpdResult \<times> MultiStar) option" where
  "UpdateCurrentPosition e ofs s =
     (if \<not> p_valid (star_pos (m_primaryStar s)) \<and> pX (star_pos (m_primaryStar s)) = 0 \<and> pY (star_pos (m_primaryStar s)) = 0
      then Some (\<lparr>ur_error = True, ur_ofs = ofs, ur_distance = None, ur_starError = STAR_ERROR\<rparr>, s)
      else do { (found, newStar) \<leftarrow> Star_Find (ue_find e) (m_primaryStar s);
                if \<not> found
                then Some (reject_frame (m_lastFindResult newStar) ofs
                       (s\<lparr>s_distanceChecker := Activate (ue_now e) (s_distanceChecker s)\<rparr>))
                else do { (reject, s1) \<leftarrow> frame_mass e newStar s;
                          if reject then Some (reject_frame STAR_MASSCHANGE ofs s1)
                          else do { distance \<leftarrow> lock_distance e newStar;
                                    let tolerance = (if m_tolerateJumpsEnabled s1 then m_tolerateJumpsThreshold s1 else 9 * 10 ^ 99);
                                    let (small, dc) = CheckDistance (ue_query e) (ue_now e) distance tolerance (s_distanceChecker s1);
                                    let s2 = s1\<lparr>s_distanceChecker := dc\<rparr>;
                                    if \<not> small then Some (reject_frame STAR_ERROR ofs s2)
                                    else accept_frame e newStar distance ofs s2 } } })"

section \<open>The check of the mass\<close>

lemma mass_marks_bounds:
  "m_lowMass (mass_marks c) \<le> mass_median c" "mass_median c \<le> m_highMass (mass_marks c)"
  "m_highMass c \<le> m_highMass (mass_marks c)" "mass_median (mass_marks c) = mass_median c"
  by (auto simp: mass_marks_def mass_median_def Let_def field_simps)

lemma mass_marks_fields [simp]:
  "m_isAutoExposure (mass_marks c) = m_isAutoExposure c" "m_exposure (mass_marks c) = m_exposure c" "mc_data (mass_marks c) = mc_data c"
  "AdjustedMass (mass_marks c) = AdjustedMass c"
  by (simp_all add: mass_marks_def Let_def AdjustedMass_def fun_eq_iff)

text \<open>A frame whose star mass, adjusted for the exposure, differs from the median of the
  window by at most the threshold (a fraction up to one) is not rejected, whatever the high and low
  water marks have become.\<close>

theorem mass_near_median_accepted:
  assumes "AdjustedMass c mass = Some a" and "0 \<le> threshold" "threshold \<le> 1" and "0 \<le> mass_median c"
    and "\<bar>a - mass_median c\<bar> \<le> threshold * mass_median c"
  shows "\<exists>limits c'. CheckMass mass threshold c = Some (False, limits, c')"
proof (cases "length (mc_data c) < 5")
  case False
  let ?med = "mass_median c" and ?c1 = "mass_marks c"
  note b = mass_marks_bounds(1,2)[of c]
  have "m_lowMass ?c1 * (1 - threshold) \<le> ?med * (1 - threshold)" using b(1) assms(3) by (intro mult_right_mono) simp_all
  then have "m_lowMass ?c1 * (1 - threshold) \<le> a" using assms(5) by (simp add: algebra_simps abs_le_iff)
  moreover have "?med * (1 + threshold) \<le> m_highMass ?c1 * (1 + threshold)" using b(2) assms(2) by (intro mult_right_mono) simp_all
  then have "a \<le> m_highMass ?c1 * (1 + threshold)" using assms(5) by (simp add: algebra_simps abs_le_iff)
  moreover have "a \<le> ?med * (1 + 2 * threshold)"
    using assms(5) mult_nonneg_nonneg[OF assms(2,4)] by (simp add: algebra_simps abs_le_iff)
  ultimately show ?thesis using False assms(1) by (simp add: CheckMass_def Let_def not_less)
qed (simp add: CheckMass_def)

definition example_masses :: MassChecker where
  "example_masses = MassChecker_new\<lparr>mc_data := map (\<lambda>t. (t, 100)) [0, 1, 2, 3, 4]\<rparr>"

theorem mass_near_median_accepted_witness: "\<exists>limits c'. CheckMass 120 (1 / 2) example_masses = Some (False, limits, c')"
proof (rule mass_near_median_accepted)
  show "AdjustedMass example_masses 120 = Some 120"
    by (simp add: AdjustedMass_def example_masses_def MassChecker_new_def mc_SetTimeWindow_def)
  have "mass_median example_masses = 100" by (simp add: mass_median_def example_masses_def)
  then show "0 \<le> mass_median example_masses" "\<bar>120 - mass_median example_masses\<bar> \<le> 1 / 2 * mass_median example_masses" by simp_all
qed simp_all

section \<open>The check of the distance\<close>

text \<open>The two operations on the checker; a run collects whether each check was passed.\<close>

datatype DistOp = DActivate int | DCheck GuiderQuery int real real

fun dist_time :: "DistOp \<Rightarrow> int" where
  "dist_time (DActivate now) = now"
| "dist_time (DCheck q now distance tolerance) = now"

fun dist_op :: "DistOp \<Rightarrow> DistanceChecker \<Rightarrow> bool \<times> DistanceChecker" where
  "dist_op (DActivate now) d = (False, Activate now d)"
| "dist_op (DCheck q now distance tolerance) d = CheckDistance q now distance tolerance d"

fun dist_run :: "DistOp list \<Rightarrow> DistanceChecker \<Rightarrow> DistanceChecker" where
  "dist_run [] d = d"
| "dist_run (x # xs) d = dist_run xs (snd (dist_op x d))"

text \<open>Whether no check of the operations was passed.\<close>

fun none_passed :: "DistOp list \<Rightarrow> DistanceChecker \<Rightarrow> bool" where
  "none_passed [] d = True"
| "none_passed (x # xs) d = (\<not> fst (dist_op x d) \<and> none_passed xs (snd (dist_op x d)))"

definition waits_until :: "int \<Rightarrow> DistanceChecker \<Rightarrow> bool" where
  "waits_until t d \<longleftrightarrow> (dc_state d = ST_WAITING \<longrightarrow> m_expires d \<le> t + WAIT_INTERVAL_MS)"

lemma dist_op_waits: "waits_until t d \<Longrightarrow> t \<le> dist_time x \<Longrightarrow> waits_until (dist_time x) (snd (dist_op x d))"
  by (cases x) (auto simp: waits_until_def Activate_def CheckDistance_def Let_def split: DistState.split)

lemma dist_run_waits:
  "waits_until t d \<Longrightarrow> sorted (t # map dist_time xs) \<Longrightarrow> waits_until (last (t # map dist_time xs)) (dist_run xs d)"
proof (induction xs arbitrary: t d)
  case (Cons x xs)
  then have "waits_until (dist_time x) (snd (dist_op x d))" using dist_op_waits[of t d x] by simp
  then show ?case using Cons.IH[of "dist_time x" "snd (dist_op x d)"] Cons.prems(2) by (simp split: if_splits)
qed simp

text \<open>A checker that is waiting rejects only before the time it waits for, and keeps waiting.\<close>

lemma waiting_rejects:
  "dc_state d = ST_WAITING \<Longrightarrow> none_passed xs d \<Longrightarrow> DCheck q now distance tolerance \<in> set xs \<Longrightarrow> now < m_expires d"
proof (induction xs arbitrary: d)
  case (Cons x xs)
  have "snd (dist_op x d) = d \<and> (\<forall>q now r t. x = DCheck q now r t \<longrightarrow> now < m_expires d)"
    using Cons.prems(1,2) by (cases x) (auto simp: Activate_def CheckDistance_def Let_def split: if_splits)
  then show ?case using Cons by auto
qed simp

lemma first_rejection_waits:
  assumes "waits_until (dist_time x) (snd (dist_op x d))" and "\<not> fst (dist_op x d)" and "dc_state d \<noteq> ST_RECOVERING"
  shows "dc_state (snd (dist_op x d)) = ST_WAITING \<and> m_expires (snd (dist_op x d)) \<le> dist_time x + WAIT_INTERVAL_MS"
  using assms by (cases x; cases "dc_state d") (auto simp: waits_until_def Activate_def CheckDistance_def Let_def split: if_splits)

lemma recovering_passes: "dc_state d = ST_RECOVERING \<Longrightarrow> fst (CheckDistance q now distance tolerance d)"
  by (simp add: CheckDistance_def Let_def)

text \<open>Whatever calls the distance checker has seen, as long as the clock does not run backwards:
  frames that it rejects in a row, with lost stars in between, all lie within five seconds of the
  first one.\<close>

theorem distance_rejections_end:
  assumes "sorted (map dist_time (past @ DCheck q now distance tolerance # run))"
    and "none_passed (DCheck q now distance tolerance # run) (dist_run past DistanceChecker_new)"
    and "DCheck q1 now1 distance1 tolerance1 \<in> set run"
  shows "now1 < now + 5000"
proof -
  let ?x = "DCheck q now distance tolerance" and ?d = "dist_run past DistanceChecker_new"
  define t where "t = hd (map dist_time (past @ [?x]))"
  have "waits_until t DistanceChecker_new" by (simp add: waits_until_def DistanceChecker_new_def)
  moreover have so: "sorted (map dist_time past @ now # map dist_time run)" using assms(1) by simp
  then have "sorted (t # map dist_time past)" by (cases past) (auto simp: t_def sorted_append)
  ultimately have "waits_until (last (t # map dist_time past)) ?d" by (rule dist_run_waits)
  moreover have "last (t # map dist_time past) \<le> now"
    using so by (cases past rule: rev_cases) (auto simp: t_def sorted_append)
  ultimately have w: "waits_until now (snd (dist_op ?x ?d))" using dist_op_waits[of _ ?d ?x] by simp
  have r: "\<not> fst (dist_op ?x ?d)" "none_passed run (snd (dist_op ?x ?d))" using assms(2) by simp_all
  have "dc_state ?d \<noteq> ST_RECOVERING" using r(1) recovering_passes by auto
  then have s: "dc_state (snd (dist_op ?x ?d)) = ST_WAITING" "m_expires (snd (dist_op ?x ?d)) \<le> now + WAIT_INTERVAL_MS"
    using first_rejection_waits[of ?x ?d] w r(1) by simp_all
  show ?thesis using waiting_rejects[OF s(1) r(2) assms(3)] s(2) by (simp add: WAIT_INTERVAL_MS_def)
qed

definition far_query :: GuiderQuery where
  "far_query = \<lparr>gq_guiding = True, gq_paused = False, gq_settling = False, gq_frames = 20, gq_avgDist = 1\<rparr>"

theorem distance_rejections_end_witness: "(4000 :: int) < 1000 + 5000"
  by (rule distance_rejections_end[of "[]" far_query 1000 10 2 "[DActivate 2000, DCheck far_query 4000 10 2]" far_query 4000 10 2])
    (simp_all add: DistanceChecker_new_def CheckDistance_def check_distance_def far_query_def Activate_def WAIT_INTERVAL_MS_def)

text \<open>
  After a lost star that stays away for the waiting time, the tolerance of two remains in force when
  the checker returns to normal, even if the user has switched the tolerance of jumps off.
\<close>

lemma forced_tolerance_remains:
  fixes q
  defines "far \<equiv> \<lambda>d. fst (CheckDistance q 9000 3 (9 * 10 ^ 99) d)"
  assumes "q = far_query"
  shows "far DistanceChecker_new"
    "\<not> far (dist_run [DActivate 1000, DCheck q 7000 10 (9 * 10 ^ 99), DCheck q 8000 1 (9 * 10 ^ 99)] DistanceChecker_new)"
  using assms(2) by (simp_all add: far_def DistanceChecker_new_def CheckDistance_def check_distance_def far_query_def Activate_def WAIT_INTERVAL_MS_def Let_def)

section \<open>Refining the offset never enlarges it\<close>

definition gs_ok :: "GuideStar \<Rightarrow> bool" where
  "gs_ok gs \<longleftrightarrow> p_valid (offsetFromPrimary gs)"

lemma Star_FindNear_cases:
  assumes "env_ok e"
  obtains found st where "Star_FindNear e x y s = Some (found, st)" "p_valid (star_pos st)" "found = WasFound st"
    "found \<Longrightarrow> 10 \<le> Mass st" "found \<Longrightarrow> \<exists>v\<ge>3. SNR st = Some v"
  using Star_FindAt_cases[OF assms] unfolding Star_FindNear_def by metis

lemma find_again_total:
  assumes "env_ok (ue_find e)"
  obtains found st where "find_again e gs = Some (found, gs\<lparr>gs_star := st\<rparr>)"
proof -
  obtain found st where "Star_FindNear (ue_find e) (pX (star_pos (gs_star gs))) (pY (star_pos (gs_star gs))) (gs_star gs) = Some (found, st)"
    by (rule Star_FindNear_cases[OF assms])
  then show ?thesis using that by (simp add: find_again_def Star_Find_def)
qed

lemma find_expected_total:
  assumes "env_ok (ue_find e)"
  obtains found st where "find_expected e loc gs = Some (found, gs\<lparr>gs_star := st\<rparr>)"
proof -
  obtain found st where "Star_FindNear (ue_find e) (pX loc) (pY loc) (gs_star gs) = Some (found, st)"
    by (rule Star_FindNear_cases[OF assms])
  then show ?thesis using that by (simp add: find_expected_def)
qed

lemma gs_ok_fields [simp]:
  "gs_ok (gs\<lparr>gs_star := st\<rparr>) = gs_ok gs" "gs_ok (gs\<lparr>wasLost := b\<rparr>) = gs_ok gs" "gs_ok (gs\<lparr>referencePoint := r\<rparr>) = gs_ok gs"
  "gs_ok (gs\<lparr>missCount := n\<rparr>) = gs_ok gs" "gs_ok (gs\<lparr>zeroCount := n\<rparr>) = gs_ok gs"
  "gs_ok (move_reference gs) = gs_ok gs" "gs_ok (count_zero dX dY gs) = gs_ok gs" "gs_ok (count_miss gs) = gs_ok gs"
  by (simp_all add: gs_ok_def move_reference_def count_zero_def count_miss_def Let_def)

lemma expected_total: "p_valid (star_pos primary) \<Longrightarrow> gs_ok gs \<Longrightarrow> \<exists>loc. p_add (star_pos primary) (offsetFromPrimary gs) = Some loc"
  by (simp add: gs_ok_def p_add_def)

lemma relocate_star_total:
  assumes "env_ok (ue_find e)" and "p_valid (star_pos primary)" and "gs_ok gs"
  shows "\<exists>gs1. relocate_star e primary gs = Some gs1 \<and> gs_ok gs1"
proof -
  obtain loc where loc: "p_add (star_pos primary) (offsetFromPrimary gs) = Some loc" using expected_total[OF assms(2,3)] by blast
  obtain f1 st1 where 1: "find_expected e loc gs = Some (f1, gs\<lparr>gs_star := st1\<rparr>)" by (rule find_expected_total[OF assms(1)])
  obtain f2 st2 where 2: "find_again e gs = Some (f2, gs\<lparr>gs_star := st2\<rparr>)" by (rule find_again_total[OF assms(1)])
  show ?thesis using assms(3) by (simp add: relocate_star_def loc 1 2)
qed

lemma relocate_stars_total:
  assumes "env_ok (ue_find e)" and "p_valid (star_pos primary)"
  shows "\<forall>gs\<in>set gss. gs_ok gs \<Longrightarrow> \<exists>gss1. relocate_stars e primary gss = Some gss1 \<and> length gss1 = length gss \<and> (\<forall>gs\<in>set gss1. gs_ok gs)"
proof (induction gss)
  case (Cons gs gss)
  then show ?case using relocate_star_total[OF assms, of gs] by auto
qed simp

definition acc_step :: "RefineAcc \<Rightarrow> RefineAcc \<Rightarrow> bool" where
  "acc_step acc acc1 \<longleftrightarrow> ra_starsUsed acc \<le> ra_starsUsed acc1 \<and> ra_starsUsed acc1 \<le> Suc (ra_starsUsed acc)"

lemma use_star_cases:
  assumes "use_star primary sigma gs acc = (gs1, acc1, u)"
  shows "gs_ok gs1 = gs_ok gs \<and> acc_step acc acc1"
  using assms by (auto simp: use_star_def Let_def acc_step_def add_star_def split: if_splits)

lemma refine_star_total:
  assumes "env_ok (ue_find e)" and "p_valid (star_pos primary)" and "gs_ok gs"
  shows "\<exists>gs1 acc1 u. refine_star e primary sigma gs acc = Some (gs1, acc1, u) \<and> gs_ok gs1 \<and> acc_step acc acc1"
proof -
  obtain loc where loc: "p_add (star_pos primary) (offsetFromPrimary gs) = Some loc" using expected_total[OF assms(2,3)] by blast
  obtain f1 st1 where 1: "find_expected e loc gs = Some (f1, gs\<lparr>gs_star := st1\<rparr>)" by (rule find_expected_total[OF assms(1)])
  obtain f2 st2 where 2: "find_again e gs = Some (f2, gs\<lparr>gs_star := st2\<rparr>)" by (rule find_again_total[OF assms(1)])
  have "\<exists>f st. (if wasLost gs then do { loc \<leftarrow> p_add (star_pos primary) (offsetFromPrimary gs); find_expected e loc gs }
      else find_again e gs) = Some (f, gs\<lparr>gs_star := st\<rparr>)" by (cases "wasLost gs") (auto simp: loc 1 2)
  then obtain f st where fs: "(if wasLost gs then do { loc \<leftarrow> p_add (star_pos primary) (offsetFromPrimary gs); find_expected e loc gs }
      else find_again e gs) = Some (f, gs\<lparr>gs_star := st\<rparr>)" by blast
  have "acc_step acc acc" by (simp add: acc_step_def)
  moreover obtain gs1 acc1 u where u: "use_star primary sigma (gs\<lparr>gs_star := st\<rparr>) acc = (gs1, acc1, u)" by (cases "use_star primary sigma (gs\<lparr>gs_star := st\<rparr>) acc")
  ultimately show ?thesis
    unfolding refine_star_def fs using use_star_cases[OF u] assms(3) u by (cases f) simp_all
qed

declare refine_loop.simps(2) [simp del]

lemma refine_loop_total:
  "env_ok (ue_find e) \<Longrightarrow> p_valid (star_pos primary) \<Longrightarrow> \<forall>gs\<in>set before \<union> set rest. gs_ok gs \<Longrightarrow> ra_starsUsed acc \<le> max 1 maxStars \<Longrightarrow>
    \<exists>acc1 gss. refine_loop e primary sigma maxStars acc erasures before rest = Some (acc1, gss) \<and> (\<forall>gs\<in>set gss. gs_ok gs) \<and>
      length gss \<le> length before + length rest \<and> ra_starsUsed acc1 \<le> max 1 maxStars"
proof (induction e primary sigma maxStars acc erasures before rest rule: refine_loop.induct)
  case (2 e primary sigma maxStars acc erasures before gs rest)
  show ?case
  proof (cases "ra_starsUsed acc \<ge> maxStars \<or> 1 + length before + length (gs # rest) = 1")
    case True
    then show ?thesis using "2.prems" by (auto simp: refine_loop.simps(2))
  next
    case False
    obtain gs1 acc1 u where r: "refine_star e primary sigma gs acc = Some (gs1, acc1, u)" "gs_ok gs1" "acc_step acc acc1"
      using refine_star_total[OF "2.prems"(1,2), of gs sigma acc] "2.prems"(3) by auto
    have n: "ra_starsUsed acc1 \<le> max 1 maxStars" using r(3) False by (simp add: acc_step_def)
    have ok: "\<forall>g\<in>set before \<union> set rest. gs_ok g" "\<forall>g\<in>set (before @ [gs1]) \<union> set rest. gs_ok g" "\<forall>g\<in>set before \<union> set (gs1 # rest). gs_ok g"
      using "2.prems"(3) r(2) by auto
    note prem = "2.prems"(1,2)
    note eq = refine_loop.simps(2)[of e primary sigma maxStars acc erasures before gs rest, unfolded if_not_P[OF False] r(1)]
    show ?thesis
    proof (cases u)
      case SU_Zero
      show ?thesis unfolding eq SU_Zero
        using "2.IH"(1)[OF False r(1) refl refl SU_Zero prem ok(1) n] by auto
    next
      case SU_Miss
      show ?thesis unfolding eq SU_Miss
        using "2.IH"(2)[OF False r(1) refl refl SU_Miss prem ok(2) n] by auto
    next
      case SU_Hot
      show ?thesis unfolding eq SU_Hot
        using "2.IH"(3)[OF False r(1) refl refl SU_Hot prem ok(1) n] by auto
    next
      case SU_End
      show ?thesis unfolding eq SU_End
        using "2.IH"(4)[OF False r(1) refl refl SU_End _ prem ok(2) n] "2.IH"(5)[OF False r(1) refl refl SU_End _ prem ok(3) n]
        by (cases erasures) auto
    qed
  qed
qed simp

text \<open>What holds of the state between frames.\<close>

definition mc_ok :: "MassChecker \<Rightarrow> bool" where
  "mc_ok c \<longleftrightarrow> (m_isAutoExposure c \<longrightarrow> m_exposure c \<noteq> 0)"

definition ms_ok :: "MultiStar \<Rightarrow> bool" where
  "ms_ok s \<longleftrightarrow> (\<forall>gs\<in>set (m_guideStars s). gs_ok gs) \<and> mc_ok (m_massChecker s)"

definition ue_ok :: "UpdEnv \<Rightarrow> bool" where
  "ue_ok e \<longleftrightarrow> env_ok (ue_find e) \<and> (ue_autoExp e \<longrightarrow> ue_exposure e \<noteq> 0)"

lemma stabilize_fields:
  assumes "stabilize d s = (relocate, sigma, s1)"
  shows "m_guideStars s1 = m_guideStars s" "m_primaryStar s1 = m_primaryStar s" "m_massChecker s1 = m_massChecker s"
    "m_maxStars s1 = m_maxStars s" "m_starsUsed s1 = m_starsUsed s"
  using assms by (auto simp: stabilize_def Let_def split: if_splits)

lemma apply_average_cases:
  assumes "apply_average d acc ofs = (refined, ofs1)"
  shows "mountOfs ofs1 = mountOfs ofs" "p_valid (cameraOfs ofs1) = p_valid (cameraOfs ofs)"
    "if refined then hypot (pX (cameraOfs ofs1)) (pY (cameraOfs ofs1)) < d else ofs1 = ofs"
  using assms by (auto simp: apply_average_def split: if_splits option.splits bool.splits)

lemma refine_total:
  assumes "ue_ok e" and "ms_ok s" and "p_valid (star_pos (m_primaryStar s))"
  shows "\<exists>refined ofs1 s1. RefineOffset e ofs s = Some (refined, ofs1, s1) \<and> ms_ok s1 \<and>
    m_primaryStar s1 = m_primaryStar s \<and> length (m_guideStars s1) \<le> length (m_guideStars s) \<and>
    m_starsUsed s1 \<le> max 1 (m_maxStars s) \<and> p_valid (cameraOfs ofs1) = p_valid (cameraOfs ofs) \<and> mountOfs ofs1 = mountOfs ofs \<and>
    (if refined then hypot (pX (cameraOfs ofs1)) (pY (cameraOfs ofs1)) < hypot (pX (cameraOfs ofs)) (pY (cameraOfs ofs))
     else ofs1 = ofs)"
proof (cases "gq_guiding (ue_query e) \<and> length (m_guideStars s) > 1 \<and> ue_guidingEnabled e \<and> \<not> gq_settling (ue_query e)")
  case False
  then show ?thesis using assms(2) by (auto simp: RefineOffset_def ms_ok_def Let_def)
next
  case True
  let ?d = "hypot (pX (cameraOfs ofs)) (pY (cameraOfs ofs))"
  obtain relocate sigma s1 where st: "stabilize ?d (s\<lparr>m_starsUsed := 1, m_primaryDistStats := ds_AddValue (m_primaryDistStats s) ?d\<rparr>) = (relocate, sigma, s1)"
    by (metis prod_cases3)
  note f = stabilize_fields[OF st, simplified]
  obtain g gss where gs: "m_guideStars s = g # gss" "gss \<noteq> []" using True by (cases "m_guideStars s") auto
  have ok: "\<forall>x\<in>set gss. gs_ok x" "gs_ok g" "mc_ok (m_massChecker s)" using assms(2) gs by (auto simp: ms_ok_def)
  have e: "env_ok (ue_find e)" using assms(1) by (simp add: ue_ok_def)
  have R: "RefineOffset e ofs s = (if relocate
            then do { gss1 \<leftarrow> relocate_stars e (m_primaryStar s) gss; Some (False, ofs, s1\<lparr>m_guideStars := g # gss1\<rparr>) }
            else if \<not> m_stabilizing s1 \<and> (pX (cameraOfs ofs) \<noteq> 0 \<or> pY (cameraOfs ofs) \<noteq> 0)
            then do { (acc, gss1) \<leftarrow> refine_loop e (m_primaryStar s) sigma (m_maxStars s)
                        \<lparr>ra_sums = Some (pX (cameraOfs ofs), pY (cameraOfs ofs), 1), ra_averaged = False, ra_starsUsed = 1\<rparr> False [] gss;
                      let (refined, ofs1) = apply_average ?d acc ofs;
                      Some (refined, ofs1, s1\<lparr>m_starsUsed := ra_starsUsed acc, m_guideStars := g # gss1\<rparr>) }
            else Some (False, ofs, s1))"
    using True st f gs by (simp add: RefineOffset_def Let_def)
  consider "relocate" | "\<not> relocate" "\<not> m_stabilizing s1 \<and> (pX (cameraOfs ofs) \<noteq> 0 \<or> pY (cameraOfs ofs) \<noteq> 0)"
    | "\<not> relocate" "\<not> (\<not> m_stabilizing s1 \<and> (pX (cameraOfs ofs) \<noteq> 0 \<or> pY (cameraOfs ofs) \<noteq> 0))" by blast
  then show ?thesis
  proof cases
    case 1
    then show ?thesis using relocate_stars_total[OF e assms(3) ok(1)] R f gs ok by (auto simp: ms_ok_def)
  next
    case 2
    obtain acc gss1 where l: "refine_loop e (m_primaryStar s) sigma (m_maxStars s)
        \<lparr>ra_sums = Some (pX (cameraOfs ofs), pY (cameraOfs ofs), 1), ra_averaged = False, ra_starsUsed = 1\<rparr> False [] gss = Some (acc, gss1)"
      "\<forall>x\<in>set gss1. gs_ok x" "length gss1 \<le> length gss" "ra_starsUsed acc \<le> max 1 (m_maxStars s)"
      using refine_loop_total[OF e assms(3), of "[]" gss "\<lparr>ra_sums = Some (pX (cameraOfs ofs), pY (cameraOfs ofs), 1), ra_averaged = False, ra_starsUsed = 1\<rparr>"
        "m_maxStars s" sigma False] ok(1) by auto
    obtain refined ofs1 where a: "apply_average ?d acc ofs = (refined, ofs1)" by (cases "apply_average ?d acc ofs")
    let ?s2 = "s1\<lparr>m_starsUsed := ra_starsUsed acc, m_guideStars := g # gss1\<rparr>"
    have eq: "RefineOffset e ofs s = Some (refined, ofs1, ?s2)" using R 2 l(1) a by simp
    have s2: "ms_ok ?s2" "m_primaryStar ?s2 = m_primaryStar s" "length (m_guideStars ?s2) \<le> length (m_guideStars s)"
      "m_starsUsed ?s2 \<le> max 1 (m_maxStars s)"
      using l f gs ok by (simp_all add: ms_ok_def)
    show ?thesis by (rule exI[of _ refined], rule exI[of _ ofs1], rule exI[of _ ?s2]) (intro conjI eq s2 apply_average_cases[OF a])
  next
    case 3
    then have "RefineOffset e ofs s = Some (False, ofs, s1)" using R by auto
    then show ?thesis using f gs ok by (auto simp: ms_ok_def)
  qed
qed

text \<open>C13: refine_never_enlarges. With the primary star at a valid position, the refinement by secondary stars always
  completes: either it reports a refined offset, which is strictly shorter than that of the primary
  star alone, or it leaves the offset as it was.  No star is added, the primary star and the offsets
  to it stay, and at most the configured number of stars is used.\<close>

theorem refine_never_enlarges:
  assumes "ue_ok e" and "ms_ok s" and "p_valid (star_pos (m_primaryStar s))"
  shows "\<exists>refined ofs1 s1. RefineOffset e ofs s = Some (refined, ofs1, s1) \<and> ms_ok s1 \<and>
    m_primaryStar s1 = m_primaryStar s \<and> length (m_guideStars s1) \<le> length (m_guideStars s) \<and>
    m_starsUsed s1 \<le> max 1 (m_maxStars s) \<and> p_valid (cameraOfs ofs1) = p_valid (cameraOfs ofs) \<and> mountOfs ofs1 = mountOfs ofs \<and>
    (if refined then hypot (pX (cameraOfs ofs1)) (pY (cameraOfs ofs1)) < hypot (pX (cameraOfs ofs)) (pY (cameraOfs ofs))
     else ofs1 = ofs)"
  by (rule refine_total[OF assms])

definition example_star :: "real \<Rightarrow> real \<Rightarrow> Star" where
  "example_star x y = \<lparr>star_pos = PHD_Point_new x y, Mass = 100, SNR = Some 10, HFD = 3, PeakVal = 50, m_lastFindResult = STAR_OK\<rparr>"

definition example_multistar :: MultiStar where
  "example_multistar = \<lparr>m_primaryStar = example_star 1 1, m_guideStars = map GuideStar_of [example_star 1 1, example_star 0 0],
     m_primaryDistStats = ds_run [1, 1, 1, 1, 1, 1], m_massChecker = MassChecker_new, m_multiStarMode = True,
     m_stabilizing = False, m_lockPositionMoved = False, m_starsUsed = 1, m_massChangeThresholdEnabled = True,
     m_massChangeThreshold = 0.5, m_tolerateJumpsEnabled = False, m_tolerateJumpsThreshold = 4, m_maxStars = 9,
     m_stabilitySigmaX = 5, s_distanceChecker = DistanceChecker_new\<rparr>"

definition example_env :: UpdEnv where
  "example_env = \<lparr>ue_find = \<lparr>fe_sort = sort_key r2, fe_bad = 0, fe_image = example_image, fe_searchRegion = 15, fe_mode = FIND_CENTROID,
       fe_minHFD = 1, fe_maxHFD = 10, fe_maxADU = 0\<rparr>,
     ue_query = far_query, ue_guidingEnabled = True, ue_lockPos = PHD_Point_new 1 2, ue_raOnly = False, ue_exposure = 1000,
     ue_autoExp = False, ue_mount = None, ue_now = 0\<rparr>"

lemma example_multistar_ok:
  "ue_ok example_env" "ms_ok example_multistar" "p_valid (star_pos (m_primaryStar example_multistar))"
  by (simp_all add: ue_ok_def env_ok_def img_ok_def example_env_def example_image_def ms_ok_def mc_ok_def gs_ok_def example_multistar_def
      GuideStar_of_def PHD_Point_new_def MassChecker_new_def mc_SetTimeWindow_def example_star_def)

definition example_offset :: GuiderOffset where
  "example_offset = \<lparr>cameraOfs = PHD_Point_new 1 0, mountOfs = PHD_Point_new 0 1\<rparr>"

theorem refine_never_enlarges_witness:
  "\<exists>refined ofs1 s1. RefineOffset example_env example_offset example_multistar = Some (refined, ofs1, s1) \<and> ms_ok s1 \<and>
     (if refined then hypot (pX (cameraOfs ofs1)) (pY (cameraOfs ofs1)) < hypot (pX (cameraOfs example_offset)) (pY (cameraOfs example_offset))
      else ofs1 = example_offset)"
  using refine_never_enlarges[OF example_multistar_ok, of example_offset] by blast

text \<open>
  After a star is erased for its zero counts, \<open>erasures\<close> stays set while the next star is processed:
  that star is processed twice, and counts twice in the average.
\<close>

lemma star_after_erasure_used_twice:
  assumes "refine_star e primary sigma gs acc = Some (gs1, acc1, SU_End)" and "ra_starsUsed acc < maxStars"
  shows "refine_loop e primary sigma maxStars acc True before (gs # rest) = refine_loop e primary sigma maxStars acc1 False before (gs1 # rest)"
  using assms by (subst refine_loop.simps(2)) simp

section \<open>The position of the star in a frame\<close>

lemma mc_fields [simp]:
  "mc_ok (c\<lparr>mc_data := d\<rparr>) = mc_ok c" "mc_ok (mass_marks c) = mc_ok c" "mc_ok (mc_Reset c) = mc_ok c"
  by (simp_all add: mc_ok_def mc_Reset_def)

lemma AdjustedMass_total: "mc_ok c \<Longrightarrow> \<exists>a. AdjustedMass c mass = Some a"
  by (simp add: mc_ok_def AdjustedMass_def)

lemma AppendData_total: "mc_ok c \<Longrightarrow> \<exists>c1. AppendData now mass c = Some c1 \<and> mc_ok c1"
  using AdjustedMass_total[of c mass] by (auto simp: AppendData_def Let_def)

lemma CheckMass_total: "mc_ok c \<Longrightarrow> \<exists>r l c1. CheckMass mass t c = Some (r, l, c1) \<and> mc_ok c1"
  using AdjustedMass_total[of c mass] by (auto simp: CheckMass_def Let_def)

lemma SetExposure_ok: "(auto_exp \<longrightarrow> exposure \<noteq> 0) \<Longrightarrow> mc_ok c \<Longrightarrow> mc_ok (mc_SetExposure exposure auto_exp c)"
  by (auto simp: mc_SetExposure_def mc_ok_def mc_Reset_def Let_def)

lemma ms_ok_fields [simp]:
  "ms_ok (s\<lparr>m_primaryStar := p\<rparr>) = ms_ok s" "ms_ok (s\<lparr>s_distanceChecker := d\<rparr>) = ms_ok s" "ms_ok (s\<lparr>m_starsUsed := n\<rparr>) = ms_ok s"
  "mc_ok c \<Longrightarrow> ms_ok s \<Longrightarrow> ms_ok (s\<lparr>m_massChecker := c\<rparr>)" "ms_ok s \<Longrightarrow> mc_ok (m_massChecker s)"
  by (auto simp: ms_ok_def)

lemma frame_mass_total:
  assumes "ue_ok e" and "ms_ok s"
  shows "\<exists>reject s1. frame_mass e newStar s = Some (reject, s1) \<and> ms_ok s1 \<and> m_primaryStar s1 = m_primaryStar s"
proof (cases "m_massChangeThresholdEnabled s")
  case True
  have "mc_ok (mc_SetExposure (ue_exposure e) (ue_autoExp e) (m_massChecker s))"
    using assms by (intro SetExposure_ok) (simp_all add: ue_ok_def)
  then obtain r l c where c: "CheckMass (Mass newStar) (m_massChangeThreshold s) (mc_SetExposure (ue_exposure e) (ue_autoExp e) (m_massChecker s)) = Some (r, l, c)"
    "mc_ok c" using CheckMass_total by blast
  obtain c1 where c1: "AppendData (ue_now e) (Mass newStar) c = Some c1" "mc_ok c1" using AppendData_total[OF c(2)] by blast
  show ?thesis using True c c1 assms(2) by (cases r) (auto simp: frame_mass_def)
qed (use assms(2) in \<open>auto simp: frame_mass_def\<close>)

text \<open>The distance that is reported for the frame, when there is a lock position.\<close>

definition star_offset :: "Star \<Rightarrow> PHD_Point \<Rightarrow> real" where
  "star_offset st lock = hypot (pX (star_pos st) - pX lock) (pY (star_pos st) - pY lock)"

lemma accept_frame_total:
  assumes "ue_ok e" and "ms_ok s" and "p_valid (star_pos st)"
  shows "\<exists>r s1. accept_frame e st distance ofs s = Some (r, s1) \<and> ms_ok s1 \<and> \<not> ur_error r \<and> m_primaryStar s1 = st \<and>
    (p_valid (ue_lockPos e) \<longrightarrow> p_valid (cameraOfs (ur_ofs r)) \<and> p_Distance (cameraOfs (ur_ofs r)) \<le> star_offset st (ue_lockPos e)) \<and>
    (\<not> p_valid (ue_lockPos e) \<longrightarrow> ur_ofs r = ofs)"
proof -
  obtain c where c: "AppendData (ue_now e) (Mass st) (m_massChecker s) = Some c" "mc_ok c" using AppendData_total[OF ms_ok_fields(5)[OF assms(2)]] by blast
  let ?s1 = "s\<lparr>m_primaryStar := st, m_massChecker := c\<rparr>"
  have s1: "ms_ok ?s1" "m_primaryStar ?s1 = st" using assms(2) c(2) by (simp_all add: ms_ok_def)
  show ?thesis
  proof (cases "p_valid (ue_lockPos e)")
    case False
    then show ?thesis using c s1 by (simp add: accept_frame_def)
  next
    case True
    define d where "d = PHD_Point_new (pX (star_pos st) - pX (ue_lockPos e)) (pY (star_pos st) - pY (ue_lockPos e))"
    have sub: "p_sub (star_pos st) (ue_lockPos e) = Some d" using True assms(3) by (simp add: p_sub_def d_def)
    have d: "p_valid d" "hypot (pX d) (pY d) = star_offset st (ue_lockPos e)" by (simp_all add: d_def PHD_Point_new_def star_offset_def)
    let ?r = "if m_multiStarMode ?s1 \<and> length (m_guideStars ?s1) > 1 then RefineOffset e (ofs\<lparr>cameraOfs := d\<rparr>) ?s1
              else Some (False, ofs\<lparr>cameraOfs := d\<rparr>, ?s1\<lparr>m_starsUsed := 1\<rparr>)"
    have "\<exists>refined ofs2 s2. ?r = Some (refined, ofs2, s2) \<and> ms_ok s2 \<and> m_primaryStar s2 = st \<and> p_valid (cameraOfs ofs2) \<and>
        hypot (pX (cameraOfs ofs2)) (pY (cameraOfs ofs2)) \<le> hypot (pX d) (pY d)"
    proof (cases "m_multiStarMode ?s1 \<and> length (m_guideStars ?s1) > 1")
      case True
      have "p_valid (star_pos (m_primaryStar ?s1))" using assms(3) s1(2) by simp
      from refine_total[OF assms(1) s1(1) this, of "ofs\<lparr>cameraOfs := d\<rparr>"] obtain refined ofs2 s2 where
        "RefineOffset e (ofs\<lparr>cameraOfs := d\<rparr>) ?s1 = Some (refined, ofs2, s2)" "ms_ok s2" "m_primaryStar s2 = st"
        "p_valid (cameraOfs ofs2)" "if refined then hypot (pX (cameraOfs ofs2)) (pY (cameraOfs ofs2)) < hypot (pX d) (pY d) else ofs2 = ofs\<lparr>cameraOfs := d\<rparr>"
        using s1(2) d(1) by (elim exE conjE) (simp split: if_splits)
      then show ?thesis using True by (auto split: if_splits)
    qed (use s1 d in auto)
    then obtain refined ofs2 s2 where R: "?r = Some (refined, ofs2, s2)" "ms_ok s2" "m_primaryStar s2 = st" "p_valid (cameraOfs ofs2)"
      "hypot (pX (cameraOfs ofs2)) (pY (cameraOfs ofs2)) \<le> hypot (pX d) (pY d)" by blast
    have eq: "accept_frame e st distance ofs s = (let
        dist = (if refined then hypot (pX (cameraOfs ofs2)) (pY (cameraOfs ofs2)) else distance);
        mofs = (case ue_mount e of None \<Rightarrow> mountOfs ofs2
          | Some m \<Rightarrow> if Mount_IsCalibrated m then snd (TransformCameraCoordinatesToMountCoordinates m (cameraOfs ofs2) (mountOfs ofs2)) else mountOfs ofs2)
        in Some (\<lparr>ur_error = False, ur_ofs = ofs2\<lparr>mountOfs := mofs\<rparr>, ur_distance = Some (dist, if p_valid mofs then \<bar>pX mofs\<bar> else 0),
                  ur_starError = m_lastFindResult st\<rparr>, s2))"
      using True c(1) sub R(1) by (simp add: accept_frame_def Let_def)
    show ?thesis unfolding eq Let_def using R(2-5) d(2) True by (simp add: p_Distance_def)
  qed
qed

lemma position_update:
  assumes "ue_ok e" and "ms_ok s"
  shows "\<exists>r s1. UpdateCurrentPosition e ofs s = Some (r, s1) \<and> ms_ok s1 \<and> (ur_error r \<longleftrightarrow> \<not> WasFound (m_primaryStar s1)) \<and>
    (if ur_error r then star_pos (m_primaryStar s1) = star_pos (m_primaryStar s) \<and> ur_ofs r = ofs
     else p_valid (star_pos (m_primaryStar s1)) \<and>
       (p_valid (ue_lockPos e) \<longrightarrow> p_valid (cameraOfs (ur_ofs r)) \<and> p_Distance (cameraOfs (ur_ofs r)) \<le> star_offset (m_primaryStar s1) (ue_lockPos e)) \<and>
       (\<not> p_valid (ue_lockPos e) \<longrightarrow> ur_ofs r = ofs))"
proof (cases "\<not> p_valid (star_pos (m_primaryStar s)) \<and> pX (star_pos (m_primaryStar s)) = 0 \<and> pY (star_pos (m_primaryStar s)) = 0")
  case True
  then show ?thesis using assms(2) by (simp add: UpdateCurrentPosition_def WasFound_def)
next
  case False
  note nf = this
  have e: "env_ok (ue_find e)" using assms(1) by (simp add: ue_ok_def)
  obtain found st where st: "Star_FindNear (ue_find e) (pX (star_pos (m_primaryStar s))) (pY (star_pos (m_primaryStar s))) (m_primaryStar s) = Some (found, st)"
    "p_valid (star_pos st)" "found = WasFound st" by (rule Star_FindNear_cases[OF e])
  show ?thesis
  proof (cases found)
    case False
    then have "\<not> WasFound_result (m_lastFindResult st)" using st by (simp add: WasFound_def)
    then show ?thesis unfolding UpdateCurrentPosition_def if_not_P[OF nf] using False st(1) assms(2)
      by (simp add: Star_Find_def reject_frame_def Star_SetError_def WasFound_def)
  next
    case True
    obtain reject s1 where m: "frame_mass e st s = Some (reject, s1)" "ms_ok s1" "m_primaryStar s1 = m_primaryStar s"
      using frame_mass_total[OF assms] by blast
    obtain distance where d: "lock_distance e st = Some distance"
      using st(2) by (cases "p_valid (ue_lockPos e)"; cases "ue_raOnly e") (simp_all add: lock_distance_def p_DistanceTo_def p_dX_def p_dY_def)
    obtain small dc where c: "CheckDistance (ue_query e) (ue_now e) distance (if m_tolerateJumpsEnabled s1 then m_tolerateJumpsThreshold s1 else 9 * 10 ^ 99)
        (s_distanceChecker s1) = (small, dc)" by (meson surj_pair)
    have eq: "UpdateCurrentPosition e ofs s = (if reject then Some (reject_frame STAR_MASSCHANGE ofs s1)
        else if \<not> small then Some (reject_frame STAR_ERROR ofs (s1\<lparr>s_distanceChecker := dc\<rparr>))
        else accept_frame e st distance ofs (s1\<lparr>s_distanceChecker := dc\<rparr>))"
      unfolding UpdateCurrentPosition_def if_not_P[OF nf] using True st(1) m(1) d c by (simp add: Star_Find_def Let_def)
    have rej: "ms_ok s2 \<Longrightarrow> m_primaryStar s2 = m_primaryStar s \<Longrightarrow> \<not> WasFound_result err \<Longrightarrow> ?thesis"
      if "UpdateCurrentPosition e ofs s = Some (reject_frame err ofs s2)" for err s2
      using that by (simp add: reject_frame_def Star_SetError_def WasFound_def)
    consider "reject" | "\<not> reject" "\<not> small" | "\<not> reject" "small" by blast
    then show ?thesis
    proof cases
      case 1
      show ?thesis by (rule rej[of STAR_MASSCHANGE s1]) (use eq 1 m in \<open>simp_all add: WasFound_result_def\<close>)
    next
      case 2
      show ?thesis by (rule rej[of STAR_ERROR "s1\<lparr>s_distanceChecker := dc\<rparr>"]) (use eq 2 m in \<open>simp_all add: WasFound_result_def\<close>)
    next
      case 3
      obtain r s2 where A: "accept_frame e st distance ofs (s1\<lparr>s_distanceChecker := dc\<rparr>) = Some (r, s2)" "ms_ok s2" "\<not> ur_error r" "m_primaryStar s2 = st"
        "p_valid (ue_lockPos e) \<longrightarrow> p_valid (cameraOfs (ur_ofs r)) \<and> p_Distance (cameraOfs (ur_ofs r)) \<le> star_offset st (ue_lockPos e)"
        "\<not> p_valid (ue_lockPos e) \<longrightarrow> ur_ofs r = ofs"
        using accept_frame_total[OF assms(1), of "s1\<lparr>s_distanceChecker := dc\<rparr>" st distance ofs] m(2) st(2) by auto
      then show ?thesis using eq 3 st(2,3) True by (intro exI[of _ r] exI[of _ s2]) simp
    qed
  qed
qed

text \<open>C22: position_update_contract. For a well-formed state and image, the update of the star position completes in every frame.
  It reports an error exactly when the primary star then counts as not found, and in that case the
  position of the star is not changed.  Otherwise the camera offset is at most as long as the vector
  from the lock position to the star.\<close>

theorem position_update_contract:
  assumes "ue_ok e" and "ms_ok s"
  shows "\<exists>r s1. UpdateCurrentPosition e ofs s = Some (r, s1) \<and> ms_ok s1 \<and> (ur_error r \<longleftrightarrow> \<not> WasFound (m_primaryStar s1)) \<and>
    (if ur_error r then star_pos (m_primaryStar s1) = star_pos (m_primaryStar s) \<and> ur_ofs r = ofs
     else p_valid (star_pos (m_primaryStar s1)) \<and>
       (p_valid (ue_lockPos e) \<longrightarrow> p_valid (cameraOfs (ur_ofs r)) \<and> p_Distance (cameraOfs (ur_ofs r)) \<le> star_offset (m_primaryStar s1) (ue_lockPos e)) \<and>
       (\<not> p_valid (ue_lockPos e) \<longrightarrow> ur_ofs r = ofs))"
  by (rule position_update[OF assms])

theorem position_update_contract_witness:
  "\<exists>r s1. UpdateCurrentPosition example_env ZERO_OFS example_multistar = Some (r, s1) \<and> ms_ok s1 \<and>
    (ur_error r \<longleftrightarrow> \<not> WasFound (m_primaryStar s1))"
  using position_update_contract[OF example_multistar_ok(1,2), of ZERO_OFS] by blast

section \<open>A frame of the guider with the star tracking\<close>

text \<open>The guider as the tracking sees it: after the image has been stored and the lock position shifted.\<close>

definition frame_start :: "FrameInput \<Rightarrow> 'm Guider \<Rightarrow> 'm Guider" where
  "frame_start fi g = frame_shift
     (g\<lparr>imageSize := (case fi_newImage fi of None \<Rightarrow> imageSize g | Some sz \<Rightarrow> sz), utc_millis := fi_utc fi\<rparr>)"

definition frame_env :: "UpdEnv \<Rightarrow> FrameInput \<Rightarrow> 'm Guider \<Rightarrow> UpdEnv" where
  "frame_env e fi g =
     (let g1 = frame_start fi g
      in e\<lparr>ue_query := \<lparr>gq_guiding = IsGuiding g1, gq_paused = IsPaused g1, gq_settling = gq_settling (ue_query e),
                        gq_frames = m_avgDistanceCnt g1, gq_avgDist = CurrentErrorSmoothed (fi_now fi) (ue_raOnly e) g1\<rparr>,
           ue_lockPos := sp_pos (m_lockPosition g1)\<rparr>)"

definition track_input :: "UpdResult \<Rightarrow> Star \<Rightarrow> FrameInput \<Rightarrow> FrameInput" where
  "track_input r st fi =
     (let d = (case ur_distance r of None \<Rightarrow> (0, 0) | Some d \<Rightarrow> d)
      in fi\<lparr>fi_found := \<not> ur_error r, fi_x := pX (star_pos st), fi_y := pY (star_pos st), fi_ofs := ur_ofs r,
            fi_distance := fst d, fi_distanceRA := snd d\<rparr>)"

text \<open>
  What the virtual functions \<open>InvalidateCurrentPosition\<close> and \<open>SetLockPosition\<close> of this class add when the
  state machine calls them on the way from one guider to the next: the star is invalidated when the state
  is left for want of a star, and the lock position is set on the selection of a star and, unless it is
  sticky, on the start of guiding.
\<close>

definition lock_inside :: "PHD_Point \<Rightarrow> 'm Guider \<Rightarrow> bool" where
  "lock_inside p g \<longleftrightarrow> p_valid p \<and> 0 \<le> pX p \<and> pX p < real_of_int (fst (imageSize g)) \<and>
     0 \<le> pY p \<and> pY p < real_of_int (snd (imageSize g))"

definition ms_callbacks :: "'m Guider \<Rightarrow> 'm Guider \<Rightarrow> MultiStar \<Rightarrow> MultiStar" where
  "ms_callbacks g g1 s =
     (let lost = (p_valid (star_pos (m_primaryStar s)) \<and> \<not> p_valid (currentPosition g1));
          locks = ((m_state g = STATE_SELECTING \<and> m_state g1 = STATE_SELECTED) \<or>
                   (m_state g \<noteq> STATE_GUIDING \<and> m_state g1 = STATE_GUIDING \<and>
                    \<not> (p_valid (sp_pos (m_lockPosition g)) \<and> m_lockPosIsSticky g)));
          s1 = (if lost then ms_InvalidateCurrentPosition False s else s)
      in if locks \<and> lock_inside (currentPosition g1) g1 \<and> m_multiStarMode s1
         then s1\<lparr>m_lockPositionMoved := True, m_stabilizing := True\<rparr> else s1)"

text \<open>\<open>Guider::UpdateGuideState\<close> with the virtual functions of this class in their places.\<close>

definition multistar_frame :: "'m MountOps \<Rightarrow> UpdEnv \<Rightarrow> FrameInput \<Rightarrow> MultiStar \<times> 'm Guider \<Rightarrow> (MultiStar \<times> 'm Guider) option" where
  "multistar_frame ops e fi = (\<lambda>(s, g).
     if fi_stopping fi then do { g1 \<leftarrow> UpdateGuideState ops fi g; Some (ms_callbacks g g1 s, g1) }
     else do { (r, s1) \<leftarrow> UpdateCurrentPosition (frame_env e fi g) ZERO_OFS s;
               g1 \<leftarrow> UpdateGuideState ops (track_input r (m_primaryStar s1) fi) g;
               Some (ms_callbacks g g1 s1, g1) })"

lemma callbacks_ok: "ms_ok s \<Longrightarrow> ms_ok (ms_callbacks g g1 s)"
  by (simp add: ms_callbacks_def ms_InvalidateCurrentPosition_def ms_ok_def Let_def)

lemma callbacks_guiding: "m_state g = STATE_GUIDING \<Longrightarrow> p_valid (currentPosition g1) \<Longrightarrow> ms_callbacks g g1 s = s"
  by (simp add: ms_callbacks_def Let_def)

text \<open>While guiding, a frame with a star leaves the current position at that star.\<close>

lemma guiding_frame_has_star:
  assumes "UpdateGuideState ops fi g = Some g'" and "m_state g = STATE_GUIDING" "\<not> fi_stopping fi" "fi_found fi"
  shows "p_valid (currentPosition g')"
proof -
  obtain g1 where g1: "frame_body ops fi g = Some g1" "currentPosition g' = currentPosition g1"
    using assms(1) by (auto simp: UpdateGuideState_def notify_def bind_eq_Some_conv split: if_splits)
  define h where "h = star_found fi (frame_start fi g)"
  have h: "frame_found ops fi h = Some g1"
    using g1(1) assms(3,4) by (auto simp: frame_body_def frame_start_def h_def Let_def split: if_splits)
  have "m_state (frame_start fi g) = m_state g"
    by (auto simp: frame_start_def frame_shift_def ShiftLockPosition_def notify_def Let_def)
  then have hs: "m_state h = STATE_GUIDING" "p_valid (currentPosition h)" using assms(2)
    by (simp_all add: h_def star_found_def UpdateCurrentDistance_def PHD_Point_new_def Let_def)
  have "currentPosition g1 = currentPosition h"
    using h hs(1) by (auto simp: frame_found_def frame_switch_def frame_guiding_def frame_recenter_def IsLoopingState_def notify_def
        bind_eq_Some_conv Let_def split: if_splits)
  then show ?thesis using hs(2) g1(2) by simp
qed

lemma frame_env_ok: "ue_ok e \<Longrightarrow> ue_ok (frame_env e fi g)"
  by (simp add: ue_ok_def frame_env_def Let_def)

lemma callbacks_star: "WasFound (m_primaryStar (ms_callbacks g g1 s)) \<Longrightarrow> WasFound (m_primaryStar s)"
  by (auto simp: ms_callbacks_def ms_InvalidateCurrentPosition_def Star_Invalidate_def WasFound_def WasFound_result_def Let_def split: if_splits)


text \<open>A frame of the camera with one bright pixel, in which the star is the brightest pixel.\<close>

definition peak_env :: UpdEnv where
  "peak_env = example_env\<lparr>ue_find := (ue_find example_env)\<lparr>fe_image := peak_image, fe_mode := FIND_PEAK\<rparr>\<rparr>"

lemma peak_env_star:
  assumes "ue_find e = ue_find peak_env" and "star_pos st = PHD_Point_new 1 1"
  shows "\<exists>st1. Star_Find (ue_find e) st = Some (True, st1) \<and> p_valid (star_pos st1)"
proof -
  obtain w where w: "FindStar (sort_key r2) 0 peak_image 1 1 15 FIND_PEAK 1 10 0 = Some w" "fo_found w"
    using peak_image_star by blast
  have "img_ok peak_image" by (simp add: img_ok_def peak_image_def)
  then have "fo_result w = RC_Ok \<or> fo_result w = RC_Saturated"
    using find_total[of peak_image 0 "sort_key r2" 1 1 15 FIND_PEAK 1 10 0] w by auto
  then show ?thesis using w(1) assms
    by (auto simp: Star_Find_def Star_FindNear_def Star_FindAt_def peak_env_def example_env_def c_trunc_def p_SetXY_def
        PHD_Point_new_def find_result_def WasFound_result_def)
qed

text \<open>Without a history of masses and distances a star that is found is accepted.\<close>

lemma accepted_at_start:
  assumes "ue_ok e" and "ms_ok s" and "p_valid (star_pos (m_primaryStar s))"
    and "Star_Find (ue_find e) (m_primaryStar s) = Some (True, st)" "p_valid (star_pos st)"
    and "mc_data (m_massChecker s) = []" "dc_state (s_distanceChecker s) = ST_GUIDING" "gq_frames (ue_query e) < 10"
  shows "\<exists>r s1. UpdateCurrentPosition e ofs s = Some (r, s1) \<and> \<not> ur_error r"
proof -
  have c: "mc_data (mc_SetExposure x a (m_massChecker s)) = []" for x a using assms(6) by (simp add: mc_SetExposure_def mc_Reset_def Let_def)
  obtain s1 where m: "frame_mass e st s = Some (False, s1)" "s_distanceChecker s1 = s_distanceChecker s"
    by (cases "m_massChangeThresholdEnabled s") (simp_all add: frame_mass_def CheckMass_def c)
  have "ms_ok s1" using frame_mass_total[OF assms(1,2), of st] m(1) by simp
  moreover obtain d where d: "lock_distance e st = Some d"
    using assms(5) by (cases "p_valid (ue_lockPos e)"; cases "ue_raOnly e") (simp_all add: lock_distance_def p_DistanceTo_def p_dX_def p_dY_def)
  moreover have "CheckDistance (ue_query e) (ue_now e) d t (s_distanceChecker s1) = (True, s_distanceChecker s1)" for t
    using assms(7,8) m(2) by (simp add: CheckDistance_def check_distance_def Let_def)
  ultimately show ?thesis
    using accept_frame_total[OF assms(1) _ assms(5), of "s1\<lparr>s_distanceChecker := s_distanceChecker s\<rparr>" d ofs] assms(3,4) m by (auto simp: UpdateCurrentPosition_def Let_def)
qed


end
