(* ===== verification/Image_Medians.thy ===== *)
theory Image_Medians
  imports Guider_Prelude "HOL-Library.Multiset" "HOL-Library.Word"
begin

text \<open>
  The three ways in which the image code computes medians of pixel values: the chains of conditional
  swaps \<open>median3\<close> to \<open>median9\<close> of \<open>src/image_math.cpp\<close>, the class \<open>HistogramBuilder\<close> of
  \<open>src/usImage.cpp\<close>, whose histogram is cleared as far as it is used, and the two-level histogram
  \<open>histo_median\<close> of the median filter.  Each is shown to give the order statistic that sorting gives;
  \<open>std::nth_element\<close> puts that value at its position.
\<close>

section \<open>Order statistics\<close>

definition kth :: "nat \<Rightarrow> 'a :: linorder list \<Rightarrow> 'a" where
  "kth k xs = sort xs ! k"

lemma sorted_count_less:
  assumes "sorted xs" and "k < length xs"
  shows "length (filter (\<lambda>x. x < xs ! k) xs) \<le> k" "k < length (filter (\<lambda>x. x \<le> xs ! k) xs)"
proof -
  have sp: "xs = take k xs @ xs ! k # drop (Suc k) xs" using assms(2) by (rule id_take_nth_drop)
  have "sorted (take k xs @ xs ! k # drop (Suc k) xs)" using assms(1) sp by simp
  then have lo: "\<forall>x\<in>set (take k xs). x \<le> xs ! k" and hi: "\<forall>x\<in>set (drop (Suc k) xs). xs ! k \<le> x"
    by (auto simp: sorted_append)
  have "filter (\<lambda>x. x < xs ! k) (drop (Suc k) xs) = []" using hi by (auto simp: filter_empty_conv not_less)
  then have "filter (\<lambda>x. x < xs ! k) xs = filter (\<lambda>x. x < xs ! k) (take k xs)" by (subst sp) simp
  then show "length (filter (\<lambda>x. x < xs ! k) xs) \<le> k"
    using length_filter_le[of "\<lambda>x. x < xs ! k" "take k xs"] by simp
  have "filter (\<lambda>x. x \<le> xs ! k) (take k xs) = take k xs" using lo by (simp add: filter_id_conv)
  then have "length (filter (\<lambda>x. x \<le> xs ! k) xs) \<ge> Suc (length (take k xs))" by (subst sp) simp
  then show "k < length (filter (\<lambda>x. x \<le> xs ! k) xs)" using assms(2) by simp
qed

lemma filter_sort_length: "length (filter P (sort xs)) = length (filter P xs)"
  by (metis mset_filter mset_sort size_mset)

text \<open>The order statistic is determined by how many elements are smaller and not greater.\<close>

lemma kth_eqI:
  assumes "length (filter (\<lambda>x. x < v) xs) \<le> k" and "k < length (filter (\<lambda>x. x \<le> v) xs)"
  shows "kth k xs = v"
proof -
  have "k < length xs" using assms(2) length_filter_le order_less_le_trans by blast
  then have k: "k < length (sort xs)" by simp
  note c = sorted_count_less[OF sorted_sort k, unfolded filter_sort_length]
  let ?w = "sort xs ! k"
  have mono: "length (filter P xs) \<le> length (filter Q xs)" if "\<And>x. P x \<Longrightarrow> Q x" for P Q :: "'a \<Rightarrow> bool"
    using that by (induction xs) auto
  have "\<not> ?w < v"
  proof
    assume "?w < v"
    then have "length (filter (\<lambda>x. x \<le> ?w) xs) \<le> length (filter (\<lambda>x. x < v) xs)" by (intro mono) simp
    then show False using c(2) assms(1) by simp
  qed
  moreover have "\<not> v < ?w"
  proof
    assume "v < ?w"
    then have "length (filter (\<lambda>x. x \<le> v) xs) \<le> length (filter (\<lambda>x. x < ?w) xs)" by (intro mono) simp
    then show False using c(1) assms(2) by simp
  qed
  ultimately show ?thesis by (simp add: kth_def)
qed

section \<open>Chains of conditional swaps\<close>

text \<open>
  One new value against the kept ones: where it is smaller, it takes the place and the old value goes
  on.  What comes out at the end is dropped.
\<close>

fun sift :: "'a :: linorder \<Rightarrow> 'a list \<Rightarrow> 'a list" where
  "sift x [] = []"
| "sift x (l # ls) = (if x < l then x # sift l ls else l # sift x ls)"

definition keep_smallest :: "'a :: linorder list \<Rightarrow> 'a list \<Rightarrow> 'a list" where
  "keep_smallest ls xs = foldl (\<lambda>ls x. sift x ls) ls xs"

text \<open>The largest of the kept values, and the two largest.\<close>

definition take_largest :: "'a :: linorder \<Rightarrow> 'a list \<Rightarrow> 'a" where
  "take_largest l ls = foldl (\<lambda>m x. if x > m then x else m) l ls"

definition take_two_largest :: "'a :: linorder \<times> 'a \<Rightarrow> 'a list \<Rightarrow> 'a \<times> 'a" where
  "take_two_largest = foldl (\<lambda>(l0, l1) l.
     let (m0, x) = (if l > l0 then (l, l0) else (l0, l)) in (m0, if x > l1 then x else l1))"

definition average :: "16 word \<Rightarrow> 16 word \<Rightarrow> 16 word" where
  "average a b = word_of_int ((uint a + uint b) div 2)"

text \<open>How many values are kept depends on the number of values.\<close>

definition median_odd :: "nat \<Rightarrow> 16 word list \<Rightarrow> 16 word" where
  "median_odd n l = (let ls = keep_smallest (take n l) (drop n l) in take_largest (hd ls) (tl ls))"

definition median_even :: "nat \<Rightarrow> 16 word list \<Rightarrow> 16 word" where
  "median_even n l =
     (let ls = keep_smallest (take n l) (drop n l); (l0, l1) = take_two_largest (ls ! 0, ls ! 1) (drop 2 ls) in average l0 l1)"

definition median9 :: "16 word list \<Rightarrow> 16 word" where "median9 l = median_odd 5 l"
definition median8 :: "16 word list \<Rightarrow> 16 word" where "median8 l = median_even 5 l"
definition median6 :: "16 word list \<Rightarrow> 16 word" where "median6 l = median_even 4 l"
definition median5 :: "16 word list \<Rightarrow> 16 word" where "median5 l = median_odd 3 l"
definition median4 :: "16 word list \<Rightarrow> 16 word" where "median4 l = median_even 3 l"

text \<open>\<open>median3\<close> sifts the third value through the first two.\<close>

definition median3 :: "16 word list \<Rightarrow> 16 word" where "median3 l = median_odd 2 l"

text \<open>What the two groups of values are after sifting: the kept ones and larger ones.\<close>

definition smallest :: "'a :: linorder list \<Rightarrow> 'a list \<Rightarrow> 'a list \<Rightarrow> bool" where
  "smallest xs ls zs \<longleftrightarrow> mset xs = mset ls + mset zs \<and> (\<forall>l\<in>set ls. \<forall>z\<in>set zs. l \<le> z)"

lemma sift_length [simp]: "length (sift x ls) = length ls"
  by (induction x ls rule: sift.induct) auto

lemma sift_evicts: "\<exists>e. add_mset e (mset (sift x ls)) = add_mset x (mset ls) \<and> (\<forall>l\<in>set (sift x ls). l \<le> e) \<and> x \<le> e"
proof (induction x ls rule: sift.induct)
  case (2 x l ls)
  show ?case
  proof (cases "x < l")
    case True
    then obtain e where e: "add_mset e (mset (sift l ls)) = add_mset l (mset ls)" "\<forall>y\<in>set (sift l ls). y \<le> e" "l \<le> e" using "2.IH"(1) by blast
    have "add_mset e (mset (x # sift l ls)) = add_mset x (add_mset e (mset (sift l ls)))" by simp
    then show ?thesis using True e by (intro exI[of _ e]) (auto simp: add_mset_commute)
  next
    case False
    then obtain e where e: "add_mset e (mset (sift x ls)) = add_mset x (mset ls)" "\<forall>y\<in>set (sift x ls). y \<le> e" "x \<le> e" using "2.IH"(2) by blast
    have "add_mset e (mset (l # sift x ls)) = add_mset l (add_mset e (mset (sift x ls)))" by simp
    then show ?thesis using False e by (intro exI[of _ e]) (auto simp: add_mset_commute)
  qed
qed simp

lemma sift_smallest:
  assumes "smallest xs ls zs"
  shows "\<exists>zs'. smallest (x # xs) (sift x ls) zs'"
proof -
  obtain e where e: "add_mset e (mset (sift x ls)) = add_mset x (mset ls)" "\<forall>l\<in>set (sift x ls). l \<le> e" "x \<le> e"
    using sift_evicts by blast
  have e_in: "e = x \<or> e \<in> set ls" using e(1) by (metis insertE set_mset_add_mset_insert set_mset_mset union_single_eq_member)
  have sub: "l = x \<or> l \<in> set ls" if "l \<in> set (sift x ls)" for l
    using e(1) that by (metis insertE insertI2 set_mset_add_mset_insert set_mset_mset)
  have "l \<le> z" if "l \<in> set (sift x ls)" "z \<in> set zs" for l z
  proof (cases "e = x")
    case True
    then have "mset (sift x ls) = mset ls" using e(1) by simp
    then have "l \<in> set ls" using that(1) by (metis set_mset_mset)
    then show ?thesis using assms that(2) by (simp add: smallest_def)
  next
    case False
    then have "e \<le> z" using e_in assms that(2) by (simp add: smallest_def)
    then show ?thesis using e(2) that(1) by force
  qed
  moreover have "mset (x # xs) = mset (sift x ls) + mset (e # zs)" using assms e(1) by (simp add: smallest_def)
  ultimately show ?thesis using e(2) by (intro exI[of _ "e # zs"]) (auto simp: smallest_def)
qed

lemma smallest_perm: "mset xs = mset ys \<Longrightarrow> smallest xs ls zs = smallest ys ls zs"
  by (simp add: smallest_def)

lemma keep_smallest_correct: "\<exists>zs. smallest (ls @ xs) (keep_smallest ls xs) zs \<and> length (keep_smallest ls xs) = length ls"
proof (induction xs rule: rev_induct)
  case Nil
  show ?case by (intro exI[of _ "[]"]) (simp add: smallest_def keep_smallest_def)
next
  case (snoc x xs)
  then obtain zs where "smallest (ls @ xs) (keep_smallest ls xs) zs" "length (keep_smallest ls xs) = length ls" by blast
  then obtain zs' where "smallest (x # ls @ xs) (keep_smallest ls (xs @ [x])) zs'" "length (keep_smallest ls (xs @ [x])) = length ls"
    using sift_smallest by (fastforce simp: keep_smallest_def)
  then show ?case using smallest_perm[of "x # ls @ xs" "ls @ xs @ [x]"] by auto
qed

lemma smallest_sort:
  assumes "smallest xs ls zs"
  shows "sort xs = sort ls @ sort zs"
proof (rule properties_for_sort)
  show "mset (sort ls @ sort zs) = mset xs" using assms by (simp add: smallest_def)
  show "sorted (sort ls @ sort zs)" using assms by (simp add: sorted_append smallest_def)
qed

lemma take_largest_correct: "smallest (l # ls) ys [take_largest l ls]" if "mset (l # ls) = add_mset (take_largest l ls) (mset ys)" for ys
proof -
  have "\<forall>x\<in>set (l # ls). x \<le> take_largest l ls"
    unfolding take_largest_def by (induction ls rule: rev_induct) (auto intro: order_trans less_imp_le)
  moreover have "set ys \<subseteq> set (l # ls)" using that by (metis set_mset_add_mset_insert set_mset_mset subset_insertI)
  ultimately show ?thesis using that by (auto simp: smallest_def)
qed

lemma take_largest_in: "take_largest l ls \<in> set (l # ls)"
  unfolding take_largest_def by (induction ls rule: rev_induct) auto

lemma take_largest_kth: "take_largest l ls = kth (length ls) (l # ls)"
proof -
  obtain ys where ys: "mset (l # ls) = add_mset (take_largest l ls) (mset ys)"
    using take_largest_in[of l ls] by (metis ex_mset insert_DiffM set_mset_mset)
  from smallest_sort[OF take_largest_correct[OF ys]] have "sort (l # ls) = sort ys @ [take_largest l ls]" by simp
  moreover have "length (sort ys) = length ls" using arg_cong[OF ys, of size] by simp
  ultimately show ?thesis by (simp add: kth_def nth_append)
qed

lemma median_odd_kth:
  assumes "0 < n" and "n \<le> length l"
  shows "median_odd n l = kth (n - 1) l"
proof -
  define ls where "ls = keep_smallest (take n l) (drop n l)"
  obtain zs where zs: "smallest l ls zs" "length ls = n"
    using keep_smallest_correct[of "take n l" "drop n l"] assms(2) by (auto simp: ls_def)
  then obtain h t where ht: "ls = h # t" using assms(1) by (cases ls) auto
  have "median_odd n l = kth (length t) ls" by (simp add: median_odd_def ls_def[symmetric] ht take_largest_kth)
  also have "\<dots> = kth (n - 1) l" using zs(2) ht by (auto simp: kth_def smallest_sort[OF zs(1)] nth_append)
  finally show ?thesis .
qed

lemma two_largest_step:
  fixes a b x :: "'a :: linorder"
  shows "\<exists>e c d. (let (m0, y) = (if x > a then (x, a) else (a, x)) in (m0, if y > b then y else b)) = (c, d) \<and>
    {#c, d, e#} = {#a, b, x#} \<and> e \<le> c \<and> e \<le> d \<and> a \<le> c \<and> b \<le> d"
  by (cases "x > a"; cases "a > b"; cases "x > b") (auto intro!: exI[of _ a] exI[of _ b] exI[of _ x])

lemma take_two_largest_correct:
  "\<exists>ys c d. take_two_largest (a, b) ls = (c, d) \<and> smallest (a # b # ls) ys [c, d]"
proof (induction ls rule: rev_induct)
  case Nil
  show ?case by (intro exI[of _ "[]"]) (simp add: smallest_def take_two_largest_def)
next
  case (snoc x ls)
  then obtain ys c d where IH: "take_two_largest (a, b) ls = (c, d)" "smallest (a # b # ls) ys [c, d]" by blast
  obtain e c' d' where st: "(let (m0, y) = (if x > c then (x, c) else (c, x)) in (m0, if y > d then y else d)) = (c', d')"
    "{#c', d', e#} = {#c, d, x#}" "e \<le> c'" "e \<le> d'" "c \<le> c'" "d \<le> d'" using two_largest_step[where a = c and b = d and x = x] by blast
  have "take_two_largest (a, b) (ls @ [x]) = (c', d')" using IH(1) st(1) by (simp add: take_two_largest_def)
  moreover have "mset (a # b # ls @ [x]) = mset (e # ys) + mset [c', d']"
  proof -
    have "mset (a # b # ls @ [x]) = add_mset x (mset (a # b # ls))" by simp
    also have "\<dots> = mset ys + {#c, d, x#}" using IH(2) unfolding smallest_def by simp
    finally show ?thesis unfolding st(2)[symmetric] by simp
  qed
  moreover have "y \<le> c' \<and> y \<le> d'" if "y \<in> set ys" for y
  proof -
    have "y \<le> c" "y \<le> d" using IH(2) that by (simp_all add: smallest_def)
    then show ?thesis using st(5,6) by (blast intro: order_trans)
  qed
  ultimately show ?case using st(3,4) by (intro exI[of _ "e # ys"] exI[of _ c'] exI[of _ d']) (auto simp: smallest_def)
qed

lemma median_even_kth:
  assumes "2 \<le> n" and "n \<le> length l"
  shows "median_even n l = average (kth (n - 2) l) (kth (n - 1) l)"
proof -
  define ls where "ls = keep_smallest (take n l) (drop n l)"
  obtain zs where zs: "smallest l ls zs" "length ls = n"
    using keep_smallest_correct[of "take n l" "drop n l"] assms(2) by (auto simp: ls_def)
  obtain a b t where ht: "ls = a # b # t" using assms(1) zs(2) by (cases ls rule: remdups_adj.cases) auto
  obtain ys c d where cd: "take_two_largest (a, b) t = (c, d)" "smallest ls ys [c, d]"
    using take_two_largest_correct[of a b t] ht by blast
  have "length ys + 2 = n" using cd(2) zs(2) by (auto simp: smallest_def dest: arg_cong[of _ _ size])
  then have so: "sort l = (sort ys @ sort [c, d]) @ sort zs" "length (sort ys) = n - 2"
    using smallest_sort[OF zs(1)] smallest_sort[OF cd(2)] by auto
  then have "kth (n - 2) l = sort [c, d] ! 0" "kth (n - 1) l = sort [c, d] ! 1"
    using assms(1) by (auto simp: kth_def nth_append numeral_2_eq_2 le_iff_add)
  moreover have "average c d = average d c" by (simp add: average_def add.commute)
  ultimately have "average (kth (n - 2) l) (kth (n - 1) l) = average c d" by auto
  moreover have "median_even n l = average c d"
    by (simp add: median_even_def ls_def[symmetric] ht cd(1) Let_def numeral_2_eq_2)
  ultimately show ?thesis by simp
qed

section \<open>Searching a histogram\<close>

text \<open>
  The loop all histogram medians share: from index \<open>i\<close> on, subtract the counts while they are at
  most what is left.
\<close>

function hist_search :: "(nat \<Rightarrow> int) \<Rightarrow> nat \<Rightarrow> nat \<Rightarrow> int \<Rightarrow> nat \<times> int" where
  "hist_search h i ub left =
     (if i < ub then if h i > left then (i, left) else hist_search h (i + 1) ub (left - h i) else (i, left))"
  by pat_completeness auto

termination by (relation "measure (\<lambda>(h, i, ub, left). ub - i)") auto

declare hist_search.simps [simp del]

lemma hist_search_correct:
  "i \<le> ub \<Longrightarrow> 0 \<le> left \<Longrightarrow> hist_search h i ub left = (j, r) \<Longrightarrow>
   i \<le> j \<and> j \<le> ub \<and> r = left - (\<Sum>k = i..<j. h k) \<and> 0 \<le> r \<and> (j < ub \<longrightarrow> r < h j)"
proof (induction h i ub left rule: hist_search.induct)
  case (1 h i ub left)
  show ?case
  proof (cases "i < ub \<and> \<not> h i > left")
    case True
    then have eq: "hist_search h (i + 1) ub (left - h i) = (j, r)" using "1.prems"(3) by (subst (asm) hist_search.simps) simp
    have "i + 1 \<le> j \<and> j \<le> ub \<and> r = left - h i - (\<Sum>k = i + 1..<j. h k) \<and> 0 \<le> r \<and> (j < ub \<longrightarrow> r < h j)"
      using "1.IH"[OF _ _ _ _ eq] True by auto
    then show ?thesis using sum.atLeast_Suc_lessThan[of i j h] by auto
  next
    case False
    then have "j = i" "r = left" "j < ub \<longrightarrow> r < h j" using "1.prems"(3) by (subst (asm) hist_search.simps; auto split: if_splits)+
    then show ?thesis using "1.prems" by simp
  qed
qed

lemma count_less: "int (length (filter (\<lambda>x. x < v) xs)) = (\<Sum>k<v. int (count_list xs k))" for v :: nat
proof (induction xs)
  case (Cons x xs)
  have "(\<Sum>k<v. int (count_list (x # xs) k)) = (\<Sum>k<v. int (count_list xs k) + (if k = x then 1 else 0))"
    by (rule sum.cong) auto
  also have "\<dots> = (\<Sum>k<v. int (count_list xs k)) + (if x < v then 1 else 0)"
    by (subst sum.distrib) (simp add: sum.delta)
  finally show ?case using Cons.IH by simp
qed simp

lemma count_between:
  fixes xs :: "nat list"
  assumes "\<forall>x\<in>set xs. i \<le> x" and "i \<le> j"
  shows "(\<Sum>k = i..<j. int (count_list xs k)) = int (length (filter (\<lambda>x. x < j) xs))"
proof -
  have z: "count_list xs k = 0" if "k < i" for k using assms(1) that by (intro count_notin) (metis not_le)
  have "(\<Sum>k<j. int (count_list xs k)) = (\<Sum>k<i. int (count_list xs k)) + (\<Sum>k = i..<j. int (count_list xs k))"
    using assms(2) by (metis lessThan_atLeast0 sum.atLeastLessThan_concat zero_le)
  then show ?thesis using z by (simp add: count_less)
qed

lemma count_le_less: "length (filter (\<lambda>x. x \<le> v) xs) = length (filter (\<lambda>x. x < v) xs) + count_list xs v" for v :: nat
  by (induction xs) auto

section \<open>The histogram builder\<close>

text \<open>The memory of the histogram is not initialised: \<open>junk\<close>.\<close>

record HistogramBuilder =
  histo :: "nat \<Rightarrow> int"
  hb_MinADU :: nat
  hb_MaxADU :: nat
  pixCount :: int

definition hb_new :: "(nat \<Rightarrow> int) \<Rightarrow> HistogramBuilder" where
  "hb_new junk = \<lparr>histo = junk, hb_MinADU = 0, hb_MaxADU = 0, pixCount = 0\<rparr>"

definition hist_clear :: "nat \<Rightarrow> nat \<Rightarrow> (nat \<Rightarrow> int) \<Rightarrow> nat \<Rightarrow> int" where
  "hist_clear a b h = (\<lambda>k. if a \<le> k \<and> k < b then 0 else h k)"

definition hb_pixel :: "HistogramBuilder \<Rightarrow> nat \<Rightarrow> HistogramBuilder" where
  "hb_pixel s v =
     (let s1 = (if v < hb_MinADU s then s\<lparr>histo := hist_clear v (hb_MinADU s) (histo s), hb_MinADU := v\<rparr> else s);
          s2 = (if v > hb_MaxADU s1 then s1\<lparr>histo := hist_clear (hb_MaxADU s1 + 1) (v + 1) (histo s1), hb_MaxADU := v\<rparr> else s1)
      in s2\<lparr>histo := (histo s2)(v := histo s2 v + 1)\<rparr>)"

definition hb_scan :: "16 word list \<Rightarrow> HistogramBuilder \<Rightarrow> HistogramBuilder option" where
  "hb_scan t s =
     (let vs = map unat t;
          start = (if pixCount s = 0
                   then case vs of [] \<Rightarrow> None
                        | v # _ \<Rightarrow> Some (s\<lparr>hb_MinADU := v, hb_MaxADU := v, histo := (histo s)(v := 0)\<rparr>)
                   else Some s)
      in map_option (\<lambda>s1. let s2 = foldl hb_pixel s1 vs in s2\<lparr>pixCount := pixCount s2 + int (length vs)\<rparr>) start)"

definition hb_median :: "HistogramBuilder \<Rightarrow> nat" where
  "hb_median s = fst (hist_search (histo s) (hb_MinADU s) (hb_MaxADU s) (pixCount s div 2))"

text \<open>The part of the histogram between the extremes counts the values seen.\<close>

definition hb_holds :: "nat list \<Rightarrow> HistogramBuilder \<Rightarrow> bool" where
  "hb_holds vs s \<longleftrightarrow> hb_MinADU s \<le> hb_MaxADU s \<and> (\<forall>v\<in>set vs. hb_MinADU s \<le> v \<and> v \<le> hb_MaxADU s) \<and>
     (\<forall>k. hb_MinADU s \<le> k \<longrightarrow> k \<le> hb_MaxADU s \<longrightarrow> histo s k = int (count_list vs k))"

lemma hb_pixel_holds: "hb_holds vs s \<Longrightarrow> hb_holds (vs @ [v]) (hb_pixel s v)"
proof -
  assume h: "hb_holds vs s"
  have out: "count_list vs k = 0" if "k < hb_MinADU s \<or> hb_MaxADU s < k" for k
    using h that by (intro count_notin) (auto simp: hb_holds_def)
  show ?thesis using h out
    by (auto simp: hb_holds_def hb_pixel_def Let_def hist_clear_def)
qed

lemma hb_pixels_hold: "hb_holds vs s \<Longrightarrow> hb_holds (vs @ ws) (foldl hb_pixel s ws)"
proof (induction ws arbitrary: vs s)
  case (Cons w ws)
  show ?case using Cons.IH[OF hb_pixel_holds[OF Cons.prems, of w]] by simp
qed simp

lemma hb_pixels_count [simp]: "pixCount (foldl hb_pixel s ws) = pixCount s"
  by (induction ws arbitrary: s) (simp_all add: hb_pixel_def Let_def)

lemma hb_median_kth:
  assumes "hb_holds vs s" and "vs \<noteq> []" and "pixCount s = int (length vs)"
  shows "hb_median s = kth (length vs div 2) vs"
proof -
  obtain j r where jr: "hist_search (histo s) (hb_MinADU s) (hb_MaxADU s) (pixCount s div 2) = (j, r)" by fastforce
  have b: "hb_MinADU s \<le> hb_MaxADU s" "\<forall>v\<in>set vs. hb_MinADU s \<le> v" "\<forall>v\<in>set vs. v \<le> hb_MaxADU s"
    and c: "\<And>k. hb_MinADU s \<le> k \<Longrightarrow> k \<le> hb_MaxADU s \<Longrightarrow> histo s k = int (count_list vs k)"
    using assms(1) by (simp_all add: hb_holds_def)
  have s: "hb_MinADU s \<le> j \<and> j \<le> hb_MaxADU s \<and> r = pixCount s div 2 - (\<Sum>k = hb_MinADU s..<j. histo s k) \<and> 0 \<le> r \<and> (j < hb_MaxADU s \<longrightarrow> r < histo s j)"
    using hist_search_correct[OF b(1) _ jr] assms(3) by auto
  have "(\<Sum>k = hb_MinADU s..<j. histo s k) = (\<Sum>k = hb_MinADU s..<j. int (count_list vs k))" using s c by (intro sum.cong) auto
  then have r: "r = int (length vs) div 2 - int (length (filter (\<lambda>x. x < j) vs))" using s assms(3) count_between[OF b(2), of j] by simp
  have n: "int (length vs) div 2 = int (length vs div 2)" by (simp add: zdiv_int)
  have "kth (length vs div 2) vs = j"
  proof (rule kth_eqI)
    show "length (filter (\<lambda>x. x < j) vs) \<le> length vs div 2" using s r n by linarith
    show "length vs div 2 < length (filter (\<lambda>x. x \<le> j) vs)"
    proof (cases "j < hb_MaxADU s")
      case True
      then have "r < int (count_list vs j)" using s c[of j] by simp
      then show ?thesis using r n unfolding count_le_less by linarith
    next
      case False
      then have "filter (\<lambda>x. x \<le> j) vs = vs" using b(3) s by (intro filter_True) auto
      then show ?thesis using assms(2) by simp
    qed
  qed
  then show ?thesis by (simp add: hb_median_def jr)
qed

text \<open>Scanning pieces one after the other.\<close>

fun hb_scans :: "16 word list list \<Rightarrow> HistogramBuilder \<Rightarrow> HistogramBuilder option" where
  "hb_scans [] s = Some s"
| "hb_scans (t # ts) s = (case hb_scan t s of None \<Rightarrow> None | Some s1 \<Rightarrow> hb_scans ts s1)"

definition hb_ok :: "nat list \<Rightarrow> HistogramBuilder \<Rightarrow> bool" where
  "hb_ok vs s \<longleftrightarrow> pixCount s = int (length vs) \<and> (vs \<noteq> [] \<longrightarrow> hb_holds vs s)"

lemma hb_scan_ok:
  assumes "hb_ok vs s" and "t \<noteq> []"
  shows "\<exists>s1. hb_scan t s = Some s1 \<and> hb_ok (vs @ map unat t) s1"
proof (cases "vs = []")
  case True
  obtain v t' where t: "t = v # t'" using assms(2) by (cases t) auto
  let ?s = "s\<lparr>hb_MinADU := unat v, hb_MaxADU := unat v, histo := (histo s)(unat v := 0)\<rparr>"
  have "hb_holds [] ?s" by (simp add: hb_holds_def)
  note h = hb_pixels_hold[OF this, of "map unat t"]
  have "hb_scan t s = Some ((foldl hb_pixel ?s (map unat t))\<lparr>pixCount := pixCount s + int (length t)\<rparr>)"
    using True assms(1) t by (simp add: hb_ok_def hb_scan_def Let_def)
  moreover have "hb_ok (vs @ map unat t) ((foldl hb_pixel ?s (map unat t))\<lparr>pixCount := pixCount s + int (length t)\<rparr>)"
    using True assms(1) h by (simp add: hb_ok_def hb_holds_def)
  ultimately show ?thesis by blast
next
  case False
  then have "hb_holds vs s" "pixCount s \<noteq> 0" using assms(1) by (simp_all add: hb_ok_def)
  note h = hb_pixels_hold[OF this(1), of "map unat t"] this(2)
  have "hb_scan t s = Some ((foldl hb_pixel s (map unat t))\<lparr>pixCount := pixCount s + int (length t)\<rparr>)"
    using h(2) by (simp add: hb_scan_def Let_def)
  moreover have "hb_ok (vs @ map unat t) ((foldl hb_pixel s (map unat t))\<lparr>pixCount := pixCount s + int (length t)\<rparr>)"
    using assms(1) h(1) by (simp add: hb_ok_def hb_holds_def)
  ultimately show ?thesis by blast
qed

lemma hb_scans_ok: "hb_ok vs s \<Longrightarrow> \<forall>t\<in>set ts. t \<noteq> [] \<Longrightarrow> \<exists>s1. hb_scans ts s = Some s1 \<and> hb_ok (vs @ map unat (concat ts)) s1"
proof (induction ts arbitrary: vs s)
  case (Cons t ts)
  obtain s1 where s1: "hb_scan t s = Some s1" "hb_ok (vs @ map unat t) s1"
    using hb_scan_ok[OF Cons.prems(1), of t] Cons.prems(2) by auto
  then show ?case using Cons.IH[OF s1(2)] Cons.prems(2) by simp
qed simp

section \<open>The two-level histogram\<close>

definition histo_median :: "(nat \<Rightarrow> int) \<Rightarrow> (nat \<Rightarrow> int) \<Rightarrow> int \<Rightarrow> nat" where
  "histo_median histo1 histo2 n =
     (let (i, n1) = hist_search histo1 0 256 (n div 2) in fst (hist_search histo2 (i * 256) 65536 n1) mod 65536)"

text \<open>The fine histogram counts the values, the coarse one their upper bytes.\<close>

definition two_level :: "nat list \<Rightarrow> (nat \<Rightarrow> int) \<Rightarrow> (nat \<Rightarrow> int) \<Rightarrow> bool" where
  "two_level vs histo1 histo2 \<longleftrightarrow> (\<forall>v\<in>set vs. v < 65536) \<and>
     (\<forall>j<256. histo1 j = int (count_list (map (\<lambda>v. v div 256) vs) j)) \<and> (\<forall>k<65536. histo2 k = int (count_list vs k))"

lemma histo_median_kth:
  assumes "two_level vs histo1 histo2" and "vs \<noteq> []"
  shows "histo_median histo1 histo2 (int (length vs)) = kth (length vs div 2) vs"
proof -
  let ?n = "int (length vs) div 2" and ?lt = "\<lambda>j. int (length (filter (\<lambda>x. x < j) vs))"
  have b: "\<forall>v\<in>set vs. v < 65536" and h1: "\<And>j. j < 256 \<Longrightarrow> histo1 j = int (count_list (map (\<lambda>v. v div 256) vs) j)"
    and h2: "\<And>k. k < 65536 \<Longrightarrow> histo2 k = int (count_list vs k)" using assms(1) by (simp_all add: two_level_def)
  have n: "?n = int (length vs div 2)" "?n < int (length vs)" using assms(2) by (cases vs; simp add: zdiv_int)+
  obtain i n1 where c: "hist_search histo1 0 256 ?n = (i, n1)" by fastforce
  have ci: "i \<le> 256 \<and> n1 = ?n - (\<Sum>k = 0..<i. histo1 k) \<and> 0 \<le> n1" using hist_search_correct[OF _ _ c] by auto
  have "(\<Sum>k = 0..<i. histo1 k) = (\<Sum>k<i. int (count_list (map (\<lambda>v. v div 256) vs) k))"
    using ci h1 by (intro sum.cong) auto
  also have "\<dots> = ?lt (i * 256)"
    by (simp add: count_less[symmetric] filter_map comp_def div_less_iff_less_mult)
  finally have n1: "n1 = ?n - ?lt (i * 256)" "0 \<le> n1" "i * 256 \<le> 65536" using ci by auto
  obtain j r where f: "hist_search histo2 (i * 256) 65536 n1 = (j, r)" by fastforce
  have fj: "i * 256 \<le> j \<and> j \<le> 65536 \<and> r = n1 - (\<Sum>k = i * 256..<j. histo2 k) \<and> 0 \<le> r \<and> (j < 65536 \<longrightarrow> r < histo2 j)"
    using hist_search_correct[OF n1(3,2) f] .
  have "(\<Sum>k = i * 256..<j. histo2 k) = (\<Sum>k = i * 256..<j. int (count_list vs k))" using fj h2 by (intro sum.cong) auto
  also have "\<dots> = ?lt j - ?lt (i * 256)"
    using fj sum.atLeastLessThan_concat[of 0 "i * 256" j "\<lambda>k. int (count_list vs k)"]
    unfolding count_less lessThan_atLeast0 by simp
  finally have r: "r = ?n - ?lt j" using fj n1(1) by simp
  have all: "?lt 65536 = int (length vs)" using b by (simp add: filter_True)
  have j: "j < 65536" using fj r all n by (cases "j = 65536") auto
  have "kth (length vs div 2) vs = j"
  proof (rule kth_eqI)
    show "length (filter (\<lambda>x. x < j) vs) \<le> length vs div 2" using fj r n by linarith
    have "r < int (count_list vs j)" using fj j h2[OF j] by simp
    then show "length vs div 2 < length (filter (\<lambda>x. x \<le> j) vs)" using r n unfolding count_le_less by linarith
  qed
  then show ?thesis using j by (simp add: histo_median_def c f)
qed

section \<open>All medians are order statistics\<close>

text \<open>C36: image_medians_are_order_statistics. The swap chains for nine, five and three pixels give the middle value, those for
  eight, six and four the rounded-down mean of the two middle values; the histogram builder, whatever
  its memory held before and however the pixels are cut into pieces, and the two-level histogram give
  the value that sorting puts at half of the number of pixels.\<close>

theorem image_medians_are_order_statistics:
  "(length l = 9 \<longrightarrow> median9 l = kth 4 l) \<and> (length l = 5 \<longrightarrow> median5 l = kth 2 l) \<and> (length l = 3 \<longrightarrow> median3 l = kth 1 l) \<and>
   (length l = 8 \<longrightarrow> median8 l = average (kth 3 l) (kth 4 l)) \<and> (length l = 6 \<longrightarrow> median6 l = average (kth 2 l) (kth 3 l)) \<and>
   (length l = 4 \<longrightarrow> median4 l = average (kth 1 l) (kth 2 l)) \<and>
   (ts \<noteq> [] \<and> (\<forall>t\<in>set ts. t \<noteq> []) \<longrightarrow> (\<exists>s. hb_scans ts (hb_new junk) = Some s \<and>
      hb_median s = kth (length (concat ts) div 2) (map unat (concat ts)))) \<and>
   (two_level vs histo1 histo2 \<and> vs \<noteq> [] \<longrightarrow> histo_median histo1 histo2 (int (length vs)) = kth (length vs div 2) vs)"
proof (intro conjI impI)
  show "length l = 9 \<Longrightarrow> median9 l = kth 4 l" "length l = 5 \<Longrightarrow> median5 l = kth 2 l" "length l = 3 \<Longrightarrow> median3 l = kth 1 l"
    using median_odd_kth[of 5 l] median_odd_kth[of 3 l] median_odd_kth[of 2 l] by (simp_all add: median9_def median5_def median3_def)
  show "length l = 8 \<Longrightarrow> median8 l = average (kth 3 l) (kth 4 l)" "length l = 6 \<Longrightarrow> median6 l = average (kth 2 l) (kth 3 l)"
    "length l = 4 \<Longrightarrow> median4 l = average (kth 1 l) (kth 2 l)"
    using median_even_kth[of 5 l] median_even_kth[of 4 l] median_even_kth[of 3 l] by (simp_all add: median8_def median6_def median4_def)
  show "\<exists>s. hb_scans ts (hb_new junk) = Some s \<and> hb_median s = kth (length (concat ts) div 2) (map unat (concat ts))"
    if ts: "ts \<noteq> [] \<and> (\<forall>t\<in>set ts. t \<noteq> [])"
  proof -
    have "hb_ok [] (hb_new junk)" by (simp add: hb_ok_def hb_new_def)
    from hb_scans_ok[OF this conjunct2[OF ts]] obtain s where s: "hb_scans ts (hb_new junk) = Some s" "hb_ok (map unat (concat ts)) s" by auto
    have "concat ts \<noteq> []" using ts by (cases ts) auto
    then show ?thesis using s hb_median_kth[of "map unat (concat ts)" s] by (simp add: hb_ok_def)
  qed
qed (use histo_median_kth in blast)

theorem image_medians_are_order_statistics_witness:
  "median9 [9, 1, 8, 2, 7, 3, 6, 4, 5] = kth 4 [9, 1, 8, 2, 7, 3, 6, 4, 5 :: 16 word] \<and>
   (\<exists>s. hb_scans [[5, 3], [4]] (hb_new (\<lambda>k. 7)) = Some s \<and> hb_median s = kth 1 [5, 3, 4])"
  using image_medians_are_order_statistics[of "[9, 1, 8, 2, 7, 3, 6, 4, 5]" "[[5, 3], [4]]" "\<lambda>k. 7"] by simp

end
