(* ===== verification/Image_Filters.thy ===== *)
theory Image_Filters
  imports Image_Medians Star_Find
begin

text \<open>
  Frames of the camera, \<open>src/usImage.cpp\<close>, and the 3x3 median filter and the reconstruction of
  luminance of \<open>src/image_math.cpp\<close> on them; what the latter computes is in Image_Resample.  Pixels are
  16-bit words in a list; a read or a write outside of it is \<^term>\<open>None\<close>.  Running out of memory is
  not modelled.  Of the rectangles of the GUI toolkit the fields are used as they are.
\<close>

section \<open>Frames\<close>

record Rect =
  rx :: int
  ry :: int
  rw :: int
  rh :: int

definition rect_empty :: "Rect \<Rightarrow> bool" where
  "rect_empty r \<longleftrightarrow> rw r \<le> 0 \<or> rh r \<le> 0"

definition rect_of_size :: "int \<times> int \<Rightarrow> Rect" where
  "rect_of_size sz = \<lparr>rx = 0, ry = 0, rw = fst sz, rh = snd sz\<rparr>"

record usImage =
  ImageData :: "16 word list"
  Size :: "int \<times> int"
  Subframe :: Rect
  LimitFrame :: Rect
  MinADU :: nat
  MaxADU :: nat
  MedianADU :: nat
  FiltMin :: nat
  FiltMax :: nat
  BitsPerPixel :: nat
  Pedestal :: int

text \<open>What a new allocation holds is not determined; with the same number of pixels the old data stays.\<close>

definition us_Init :: "16 word list \<Rightarrow> int \<times> int \<Rightarrow> usImage \<Rightarrow> usImage" where
  "us_Init junk sz im =
     (let n = nat (fst sz * snd sz)
      in im\<lparr>Size := sz, Subframe := \<lparr>rx = 0, ry = 0, rw = 0, rh = 0\<rparr>, MinADU := 0, MaxADU := 0, MedianADU := 0,
            ImageData := (if n = length (ImageData im) then ImageData im else take n (junk @ replicate n 0))\<rparr>)"

definition us_Clear :: "usImage \<Rightarrow> usImage" where
  "us_Clear im = im\<lparr>ImageData := replicate (length (ImageData im)) 0\<rparr>"

definition us_SwapImageData :: "usImage \<Rightarrow> usImage \<Rightarrow> usImage \<times> usImage" where
  "us_SwapImageData a b = (a\<lparr>ImageData := ImageData b\<rparr>, b\<lparr>ImageData := ImageData a\<rparr>)"

definition rd :: "16 word list \<Rightarrow> int \<Rightarrow> 16 word option" where
  "rd d i = (if 0 \<le> i \<and> i < int (length d) then Some (d ! nat i) else None)"

definition wr :: "16 word list \<Rightarrow> int \<Rightarrow> 16 word \<Rightarrow> 16 word list option" where
  "wr d i v = (if 0 \<le> i \<and> i < int (length d) then Some (d[nat i := v]) else None)"

text \<open>The macro \<open>IX\<close>: the index of a pixel of a rectangle.\<close>

definition IX :: "int \<Rightarrow> Rect \<Rightarrow> int \<times> int \<Rightarrow> int" where
  "IX W r p = (ry r + snd p) * W + rx r + fst p"

section \<open>Filters as sequences of writes\<close>

text \<open>
  A filter writes pixel by pixel a value computed from some pixels of the source: pairs of the index
  written and the indices read, in the order of the code.
\<close>

fun rds :: "16 word list \<Rightarrow> int list \<Rightarrow> 16 word list option" where
  "rds src [] = Some []"
| "rds src (i # is) = do { v \<leftarrow> rd src i; vs \<leftarrow> rds src is; Some (v # vs) }"

definition write_px :: "(16 word list \<Rightarrow> 16 word) \<Rightarrow> 16 word list \<Rightarrow> int \<times> int list \<Rightarrow> 16 word list \<Rightarrow> 16 word list option" where
  "write_px f src w dst = do { vs \<leftarrow> rds src (snd w); wr dst (fst w) (f vs) }"

definition run_filter :: "(16 word list \<Rightarrow> 16 word) \<Rightarrow> 16 word list \<Rightarrow> (int \<times> int list) list \<Rightarrow> 16 word list \<Rightarrow> 16 word list option" where
  "run_filter f src ws dst = fold_opt (write_px f src) ws dst"

section \<open>The median filter\<close>

definition median_px :: "16 word list \<Rightarrow> 16 word" where
  "median_px a = (if length a = 9 then median9 a else if length a = 6 then median6 a else median4 a)"

text \<open>One row: the pointer starts at the left pixel and advances with every write but the last.\<close>

definition med3_row :: "int \<Rightarrow> Rect \<Rightarrow> int \<Rightarrow> int list \<Rightarrow> (int \<times> int list) list" where
  "med3_row W r y ys =
     (let ix = IX W r; d = ix (0, y);
          cols = (\<lambda>xs. concat (map (\<lambda>j. map (\<lambda>x. ix (x, j)) xs) ys)); inner = [1..rw r - 2]
      in (d, cols [0, 1]) # map (\<lambda>x. (d + x, cols [x - 1, x, x + 1])) inner
         @ [(d + 1 + int (length inner), cols [rw r - 2, rw r - 1])])"

definition med3_writes :: "int \<Rightarrow> Rect \<Rightarrow> (int \<times> int list) list" where
  "med3_writes W r =
     med3_row W r 0 [0, 1] @ concat (map (\<lambda>y. med3_row W r y [y - 1, y, y + 1]) [1..rh r - 2])
     @ med3_row W r (rh r - 1) [rh r - 2, rh r - 1]"

definition Median3_data :: "16 word list \<Rightarrow> 16 word list \<Rightarrow> int \<times> int \<Rightarrow> Rect \<Rightarrow> 16 word list option" where
  "Median3_data dst src sz r = run_filter median_px src (med3_writes (fst sz) r) dst"

definition Median3 :: "16 word list \<Rightarrow> usImage \<Rightarrow> usImage option" where
  "Median3 junk img =
     (let tmp = us_Init junk (Size img) (img\<lparr>ImageData := []\<rparr>)
      in do { d \<leftarrow> (if rect_empty (Subframe img) then Median3_data (ImageData tmp) (ImageData img) (Size img) (rect_of_size (Size img))
                    else Median3_data (ImageData (us_Clear tmp)) (ImageData img) (Size img) (Subframe img));
              Some (fst (us_SwapImageData img (tmp\<lparr>ImageData := d\<rparr>))) })"

section \<open>The reconstruction of luminance\<close>

definition mean_px :: "16 word list \<Rightarrow> 16 word" where
  "mean_px a =
     (let t = sum_list (map uint a)
      in word_of_int (if length a = 4 then t div 4 else if length a = 2 then t div 2 else t))"

definition recon_row :: "int \<Rightarrow> Rect \<Rightarrow> int \<Rightarrow> (int \<times> int list) list" where
  "recon_row W r y =
     (let ix = IX W r; d = ix (0, y); inner = [0..rw r - 2]
      in map (\<lambda>x. (d + x, map ix [(x, y), (x + 1, y), (x, y + 1), (x + 1, y + 1)])) inner
         @ [(d + int (length inner), map ix [(rw r - 1, y), (rw r - 1, y + 1)])])"

definition recon_writes :: "int \<Rightarrow> Rect \<Rightarrow> (int \<times> int list) list" where
  "recon_writes W r =
     (let ix = IX W r; d = ix (0, rh r - 1); inner = [0..rw r - 2]
      in concat (map (recon_row W r) [0..rh r - 2])
         @ map (\<lambda>x. (d + x, map ix [(x, rh r - 1), (x + 1, rh r - 1)])) inner
         @ [(d + int (length inner), [ix (rw r - 1, rh r - 1)])])"

definition QuickLRecon :: "16 word list \<Rightarrow> usImage \<Rightarrow> usImage option" where
  "QuickLRecon junk img =
     (let tmp = us_Init junk (Size img) (img\<lparr>ImageData := []\<rparr>);
          r = (if rect_empty (Subframe img) then rect_of_size (Size img) else Subframe img);
          dst = (if rect_empty (Subframe img) then ImageData tmp else ImageData (us_Clear tmp))
      in do { d \<leftarrow> run_filter mean_px (ImageData img) (recon_writes (fst (Size img)) r) dst;
              Some (fst (us_SwapImageData img (tmp\<lparr>ImageData := d\<rparr>))) })"

section \<open>Filters stay inside of the frame\<close>

definition in_list :: "16 word list \<Rightarrow> int \<Rightarrow> bool" where
  "in_list d i \<longleftrightarrow> 0 \<le> i \<and> i < int (length d)"

lemma rds_total: "\<forall>i\<in>set is. in_list src i \<Longrightarrow> rds src is = Some (map (\<lambda>i. src ! nat i) is)"
  by (induction "is") (auto simp: rd_def in_list_def)

lemma run_filter_correct:
  "\<forall>w\<in>set ws. in_list dst (fst w) \<and> (\<forall>i\<in>set (snd w). in_list src i) \<Longrightarrow> distinct (map fst ws) \<Longrightarrow>
   \<exists>out. run_filter f src ws dst = Some out \<and> length out = length dst \<and>
     (\<forall>w\<in>set ws. out ! nat (fst w) = f (map (\<lambda>i. src ! nat i) (snd w))) \<and>
     (\<forall>k<length dst. int k \<notin> fst ` set ws \<longrightarrow> out ! k = dst ! k)"
proof (induction ws arbitrary: dst)
  case (Cons w ws)
  let ?v = "f (map (\<lambda>i. src ! nat i) (snd w))" and ?dst = "dst[nat (fst w) := f (map (\<lambda>i. src ! nat i) (snd w))]"
  have w: "0 \<le> fst w" "fst w < int (length dst)" "\<forall>i\<in>set (snd w). in_list src i" using Cons.prems(1) by (auto simp: in_list_def)
  have step: "write_px f src w dst = Some ?dst"
    using w rds_total[OF w(3)] by (simp add: write_px_def wr_def)
  have "\<forall>x\<in>set ws. in_list ?dst (fst x) \<and> (\<forall>i\<in>set (snd x). in_list src i)" using Cons.prems(1) by (auto simp: in_list_def)
  then obtain out where out: "run_filter f src ws ?dst = Some out" "length out = length dst"
    "\<forall>x\<in>set ws. out ! nat (fst x) = f (map (\<lambda>i. src ! nat i) (snd x))"
    "\<forall>k<length dst. int k \<notin> fst ` set ws \<longrightarrow> out ! k = ?dst ! k"
    using Cons.IH[of ?dst] Cons.prems(2) by auto
  have "fst w \<notin> fst ` set ws" using Cons.prems(2) by simp
  then have "out ! nat (fst w) = ?v" using out(4)[rule_format, of "nat (fst w)"] w(1,2) by simp
  moreover have "out ! k = dst ! k" if "k < length dst" "int k \<notin> fst ` set (w # ws)" for k
  proof -
    have "nat (fst w) \<noteq> k" using that(2) w(1) by auto
    then show ?thesis using out(4) that by simp
  qed
  moreover have "run_filter f src (w # ws) dst = Some out" using step out(1) by (simp add: run_filter_def)
  ultimately show ?case using out(2,3) by auto
qed (simp add: run_filter_def)

text \<open>A rectangle of a frame of the given size.\<close>

definition rect_in :: "Rect \<Rightarrow> int \<times> int \<Rightarrow> bool" where
  "rect_in r sz \<longleftrightarrow> 0 \<le> rx r \<and> 0 \<le> ry r \<and> rx r + rw r \<le> fst sz \<and> ry r + rh r \<le> snd sz"

definition in_rect :: "Rect \<Rightarrow> int \<times> int \<Rightarrow> bool" where
  "in_rect r p \<longleftrightarrow> 0 \<le> fst p \<and> fst p < rw r \<and> 0 \<le> snd p \<and> snd p < rh r"

lemma IX_in:
  assumes "rect_in r sz" and "in_rect r p" and "int (length d) = fst sz * snd sz"
  shows "in_list d (IX (fst sz) r p)"
proof -
  have y: "0 \<le> ry r + snd p" "ry r + snd p \<le> snd sz - 1" and x: "0 \<le> rx r + fst p" "rx r + fst p < fst sz"
    using assms(1,2) by (auto simp: rect_in_def in_rect_def)
  then have "(ry r + snd p) * fst sz \<le> (snd sz - 1) * fst sz" by (intro mult_right_mono) auto
  then have "(ry r + snd p) * fst sz + (rx r + fst p) < snd sz * fst sz" using x by (simp add: algebra_simps)
  moreover have "0 \<le> (ry r + snd p) * fst sz" using x y by (intro mult_nonneg_nonneg) auto
  ultimately show ?thesis using x assms(3) by (simp add: in_list_def IX_def algebra_simps)
qed

lemma IX_inj:
  assumes "rect_in r sz" and "in_rect r p" "in_rect r q" and "IX (fst sz) r p = IX (fst sz) r q"
  shows "p = q"
proof -
  let ?W = "fst sz"
  have e: "(ry r + snd p) * ?W + (rx r + fst p) = (ry r + snd q) * ?W + (rx r + fst q)" using assms(4) by (simp add: IX_def algebra_simps)
  have b: "0 \<le> rx r + fst p" "rx r + fst p < ?W" "0 \<le> rx r + fst q" "rx r + fst q < ?W"
    using assms(1-3) by (auto simp: rect_in_def in_rect_def)
  have "((ry r + snd p) * ?W + (rx r + fst p)) div ?W = ry r + snd p" "((ry r + snd q) * ?W + (rx r + fst q)) div ?W = ry r + snd q"
    using b by simp_all
  then have "snd p = snd q" using e by simp
  then show ?thesis using e by (simp add: prod_eq_iff)
qed

text \<open>The neighbours of a pixel in a rectangle, itself included, row by row.\<close>

definition near :: "int \<Rightarrow> int \<Rightarrow> int list" where
  "near n x = [max 0 (x - 1)..min (n - 1) (x + 1)]"

definition neighbours :: "Rect \<Rightarrow> int \<times> int \<Rightarrow> (int \<times> int) list" where
  "neighbours r p = concat (map (\<lambda>j. map (\<lambda>i. (i, j)) (near (rw r) (fst p))) (near (rh r) (snd p)))"

lemma upto_ends: "2 \<le> n \<Longrightarrow> [0..n - 1] = 0 # [1..n - 2] @ [n - 1]" for n :: int
proof -
  assume n: "2 \<le> n"
  have "[0..n - 1] = [0..n - 2] @ [n - 1]" using n upto_rec2[of 0 "n - 1"] by simp
  moreover have "[0..n - 2] = 0 # [1..n - 2]" using n upto_rec1[of 0 "n - 2"] by simp
  ultimately show ?thesis by simp
qed

lemma near_ends: "2 \<le> n \<Longrightarrow> near n 0 = [0, 1] \<and> near n (n - 1) = [n - 2, n - 1]"
  by (simp add: near_def max_def min_def upto_rec1)

lemma near_inner: "x \<in> set [1..n - 2] \<Longrightarrow> near n x = [x - 1, x, x + 1]"
  by (simp add: near_def max_def min_def upto_rec1)

lemma near_map: "2 \<le> n \<Longrightarrow> map g [0..n - 1] = g 0 # map g [1..n - 2] @ [g (n - 1)]"
  by (simp add: upto_ends)

lemma IX_left: "IX W r (0, y) + x = IX W r (x, y)"
  by (simp add: IX_def)

lemma med3_row_eq:
  assumes "2 \<le> rw r"
  shows "med3_row W r y ys =
    map (\<lambda>x. (IX W r (x, y), map (IX W r) (concat (map (\<lambda>j. map (\<lambda>i. (i, j)) (near (rw r) x)) ys)))) [0..rw r - 1]"
proof -
  have cols: "concat (map (\<lambda>j. map (\<lambda>x. IX W r (x, j)) xs) ys) = map (IX W r) (concat (map (\<lambda>j. map (\<lambda>i. (i, j)) xs) ys))" for xs
    by (simp add: map_concat comp_def)
  have n: "int (length [1..rw r - 2]) = rw r - 2" using assms by simp
  show ?thesis
    unfolding near_map[OF assms] med3_row_def Let_def cols n
    using near_ends[OF assms] near_inner[of _ "rw r"] assms by (simp add: IX_left add.assoc) (simp add: IX_def)
qed

lemma med3_writes_eq:
  assumes "2 \<le> rw r" and "2 \<le> rh r"
  shows "med3_writes W r = map (\<lambda>p. (IX W r p, map (IX W r) (neighbours r p))) (region 0 (rw r - 1) 0 (rh r - 1))"
proof -
  have "map (\<lambda>p. (IX W r p, map (IX W r) (neighbours r p))) (region 0 (rw r - 1) 0 (rh r - 1)) =
      concat (map (\<lambda>y. med3_row W r y (near (rh r) y)) [0..rh r - 1])"
    unfolding med3_row_eq[OF assms(1)] by (simp add: region_def map_concat comp_def neighbours_def)
  moreover have m: "map (\<lambda>y. med3_row W r y (near (rh r) y)) [1..rh r - 2] = map (\<lambda>y. med3_row W r y [y - 1, y, y + 1]) [1..rh r - 2]"
    by (rule map_cong) (auto simp: near_inner)
  have "concat (map (\<lambda>y. med3_row W r y (near (rh r) y)) [0..rh r - 1]) = med3_writes W r"
    unfolding near_map[OF assms(2)] med3_writes_def m using near_ends[OF assms(2)] by simp
  ultimately show ?thesis by simp
qed

lemma region_product: "region x0 x1 y0 y1 = map prod.swap (List.product [y0..y1] [x0..x1])"
  by (simp add: region_def product_concat_map map_concat comp_def)

lemma distinct_region: "distinct (region x0 x1 y0 y1)"
  unfolding region_product by (simp add: distinct_map distinct_product)

lemma mset_same_set: "distinct xs \<Longrightarrow> distinct ys \<Longrightarrow> set xs = set ys \<Longrightarrow> mset xs = mset ys"
  by (simp add: set_eq_iff_mset_eq_distinct)

lemma in_region_rect: "p \<in> set (region 0 (rw r - 1) 0 (rh r - 1)) \<longleftrightarrow> in_rect r p"
  by (auto simp: in_region in_rect_def)

lemma neighbours_in: "in_rect r p \<Longrightarrow> q \<in> set (neighbours r p) \<Longrightarrow> in_rect r q"
  by (auto simp: neighbours_def near_def in_rect_def)

text \<open>A filter that visits every pixel of a rectangle and reads only inside of it.\<close>

lemma rect_filter_correct:
  assumes "rect_in r sz" and "int (length src) = fst sz * snd sz" "length dst = length src"
    and "\<And>p q. in_rect r p \<Longrightarrow> q \<in> set (nb p) \<Longrightarrow> in_rect r q"
  shows "\<exists>out. run_filter f src (map (\<lambda>p. (IX (fst sz) r p, map (IX (fst sz) r) (nb p))) (region 0 (rw r - 1) 0 (rh r - 1))) dst = Some out \<and>
    length out = length src \<and>
    (\<forall>p. in_rect r p \<longrightarrow> out ! nat (IX (fst sz) r p) = f (map (\<lambda>q. src ! nat (IX (fst sz) r q)) (nb p))) \<and>
    (\<forall>k<length src. (\<forall>p. in_rect r p \<longrightarrow> int k \<noteq> IX (fst sz) r p) \<longrightarrow> out ! k = dst ! k)"
proof -
  let ?ws = "map (\<lambda>p. (IX (fst sz) r p, map (IX (fst sz) r) (nb p))) (region 0 (rw r - 1) 0 (rh r - 1))"
  have ld: "int (length dst) = fst sz * snd sz" using assms(2,3) by simp
  have "\<forall>w\<in>set ?ws. in_list dst (fst w) \<and> (\<forall>i\<in>set (snd w). in_list src i)"
    using IX_in[OF assms(1) _ ld] IX_in[OF assms(1) _ assms(2)] assms(4) by (auto simp: in_region_rect)
  moreover have "distinct (map fst ?ws)"
    using distinct_region IX_inj[OF assms(1)] by (auto simp: distinct_map comp_def in_region_rect intro!: inj_onI)
  ultimately obtain out where out: "run_filter f src ?ws dst = Some out" "length out = length dst"
    "\<forall>w\<in>set ?ws. out ! nat (fst w) = f (map (\<lambda>i. src ! nat i) (snd w))"
    "\<forall>k<length dst. int k \<notin> fst ` set ?ws \<longrightarrow> out ! k = dst ! k" using run_filter_correct[of ?ws dst src f] by blast
  have "out ! nat (IX (fst sz) r p) = f (map (\<lambda>q. src ! nat (IX (fst sz) r q)) (nb p))" if "in_rect r p" for p
    using out(3) that by (auto simp: in_region_rect comp_def)
  moreover have "out ! k = dst ! k" if "k < length src" "\<forall>p. in_rect r p \<longrightarrow> int k \<noteq> IX (fst sz) r p" for k
  proof -
    have "int k \<notin> fst ` set ?ws"
    proof
      assume "int k \<in> fst ` set ?ws"
      then obtain q where "in_rect r q" "int k = IX (fst sz) r q" by (auto simp: in_region_rect)
      then show False using that(2) by blast
    qed
    then show ?thesis using out(4) that(1) assms(3) by simp
  qed
  ultimately show ?thesis using out(1,2) assms(3) by auto
qed

section \<open>What the filters compute\<close>

definition us_ok :: "usImage \<Rightarrow> bool" where
  "us_ok im \<longleftrightarrow> 0 \<le> fst (Size im) \<and> 0 \<le> snd (Size im) \<and> int (length (ImageData im)) = fst (Size im) * snd (Size im) \<and>
     (rect_empty (Subframe im) \<or> rect_in (Subframe im) (Size im))"

text \<open>The part of the frame with valid data, and a pixel of it.\<close>

definition active :: "usImage \<Rightarrow> Rect" where
  "active im = (if rect_empty (Subframe im) then rect_of_size (Size im) else Subframe im)"

definition pixel :: "usImage \<Rightarrow> Rect \<Rightarrow> int \<times> int \<Rightarrow> 16 word" where
  "pixel im r p = ImageData im ! nat (IX (fst (Size im)) r p)"

lemma active_in: "us_ok im \<Longrightarrow> rect_in (active im) (Size im)"
  by (auto simp: us_ok_def active_def rect_in_def rect_of_size_def)

lemma tmp_length:
  assumes "us_ok im"
  shows "length (ImageData (us_Init junk (Size im) (im\<lparr>ImageData := []\<rparr>))) = length (ImageData im)"
    "length (ImageData (us_Clear (us_Init junk (Size im) (im\<lparr>ImageData := []\<rparr>)))) = length (ImageData im)"
proof -
  have "nat (fst (Size im) * snd (Size im)) = length (ImageData im)" using assms by (metis nat_int us_ok_def)
  then show "length (ImageData (us_Init junk (Size im) (im\<lparr>ImageData := []\<rparr>))) = length (ImageData im)"
    by (auto simp: us_Init_def Let_def min_def)
  then show "length (ImageData (us_Clear (us_Init junk (Size im) (im\<lparr>ImageData := []\<rparr>)))) = length (ImageData im)"
    by (simp add: us_Clear_def)
qed

lemma Median3_data_correct:
  assumes "rect_in r sz" and "int (length src) = fst sz * snd sz" "length dst = length src" and "2 \<le> rw r" "2 \<le> rh r"
  shows "\<exists>out. Median3_data dst src sz r = Some out \<and> length out = length src \<and>
    (\<forall>p. in_rect r p \<longrightarrow> out ! nat (IX (fst sz) r p) = median_px (map (\<lambda>q. src ! nat (IX (fst sz) r q)) (neighbours r p))) \<and>
    (\<forall>k<length src. (\<forall>p. in_rect r p \<longrightarrow> int k \<noteq> IX (fst sz) r p) \<longrightarrow> out ! k = dst ! k)"
  unfolding Median3_data_def med3_writes_eq[OF assms(4,5)]
  by (rule rect_filter_correct[OF assms(1-3)]) (rule neighbours_in)

text \<open>The reference median: the middle value, or the mean of the two middle values rounded down.\<close>

definition median_ref :: "16 word list \<Rightarrow> 16 word" where
  "median_ref vs = (let n = length vs in if odd n then kth (n div 2) vs else average (kth (n div 2 - 1) vs) (kth (n div 2) vs))"

lemma near_length: "0 \<le> x \<Longrightarrow> x < n \<Longrightarrow> 2 \<le> n \<Longrightarrow> length (near n x) = (if 0 < x \<and> x < n - 1 then 3 else 2)"
  by (auto simp: near_def max_def min_def)

lemma neighbours_length:
  assumes "in_rect r p" and "2 \<le> rw r" "2 \<le> rh r"
  shows "length (neighbours r p) \<in> {4, 6, 9}"
proof -
  have "length (neighbours r p) = length (near (rw r) (fst p)) * length (near (rh r) (snd p))"
    by (simp add: neighbours_def length_concat comp_def sum_list_triv)
  then show ?thesis using near_length[of "fst p" "rw r"] near_length[of "snd p" "rh r"] assms by (simp add: in_rect_def split: if_splits)
qed

lemma median_px_ref:
  assumes "length vs \<in> {4, 6, 9}"
  shows "median_px vs = median_ref vs"
  using assms median_odd_kth[of 5 vs] median_even_kth[of 4 vs] median_even_kth[of 3 vs]
  by (auto simp: median_px_def median_ref_def median9_def median6_def median4_def)

lemma median_filter_correct:
  assumes "us_ok img" and "2 \<le> rw (active img)" "2 \<le> rh (active img)"
  shows "\<exists>d. Median3 junk img = Some (img\<lparr>ImageData := d\<rparr>) \<and> length d = length (ImageData img) \<and>
    (\<forall>p. in_rect (active img) p \<longrightarrow> d ! nat (IX (fst (Size img)) (active img) p) = median_ref (map (pixel img (active img)) (neighbours (active img) p))) \<and>
    (\<not> rect_empty (Subframe img) \<longrightarrow> (\<forall>k<length d. (\<forall>p. in_rect (Subframe img) p \<longrightarrow> int k \<noteq> IX (fst (Size img)) (Subframe img) p) \<longrightarrow> d ! k = 0))"
proof -
  let ?tmp = "us_Init junk (Size img) (img\<lparr>ImageData := []\<rparr>)"
  let ?dst = "if rect_empty (Subframe img) then ImageData ?tmp else ImageData (us_Clear ?tmp)"
  have l: "int (length (ImageData img)) = fst (Size img) * snd (Size img)" "length ?dst = length (ImageData img)"
    using assms(1) tmp_length[OF assms(1)] by (simp_all add: us_ok_def)
  obtain d where d: "Median3_data ?dst (ImageData img) (Size img) (active img) = Some d" "length d = length (ImageData img)"
    "\<forall>p. in_rect (active img) p \<longrightarrow> d ! nat (IX (fst (Size img)) (active img) p) = median_px (map (pixel img (active img)) (neighbours (active img) p))"
    "\<forall>k<length (ImageData img). (\<forall>p. in_rect (active img) p \<longrightarrow> int k \<noteq> IX (fst (Size img)) (active img) p) \<longrightarrow> d ! k = ?dst ! k"
    using Median3_data_correct[OF active_in[OF assms(1)] l assms(2,3)] unfolding pixel_def by blast
  have "Median3 junk img = Some (img\<lparr>ImageData := d\<rparr>)"
    using d(1) by (cases "rect_empty (Subframe img)") (simp_all add: Median3_def Let_def active_def us_SwapImageData_def)
  moreover have "median_px (map (pixel img (active img)) (neighbours (active img) p)) = median_ref (map (pixel img (active img)) (neighbours (active img) p))"
    if "in_rect (active img) p" for p
    using neighbours_length[OF that assms(2,3)] by (intro median_px_ref) simp
  moreover have "?dst ! k = 0" if "\<not> rect_empty (Subframe img)" "k < length d" for k
    using that d(2) tmp_length[OF assms(1), of junk] by (simp add: us_Clear_def)
  ultimately show ?thesis using d(2-4) by (intro exI[of _ d]) (auto simp: active_def)
qed

text \<open>C37: median_filter_is_local_median. On every frame whose data matches its size and whose valid part is at least two by
  two, the median filter reads and writes only inside of the frame; each pixel of the valid part becomes
  the median of its neighbours in that part (in the middle, on the edges and in the corners), and with
  a subframe the pixels outside of it become zero.\<close>

theorem median_filter_is_local_median:
  assumes "us_ok img" and "2 \<le> rw (active img)" "2 \<le> rh (active img)"
  shows "\<exists>d. Median3 junk img = Some (img\<lparr>ImageData := d\<rparr>) \<and> length d = length (ImageData img) \<and>
    (\<forall>p. in_rect (active img) p \<longrightarrow> d ! nat (IX (fst (Size img)) (active img) p) = median_ref (map (pixel img (active img)) (neighbours (active img) p))) \<and>
    (\<not> rect_empty (Subframe img) \<longrightarrow> (\<forall>k<length d. (\<forall>p. in_rect (Subframe img) p \<longrightarrow> int k \<noteq> IX (fst (Size img)) (Subframe img) p) \<longrightarrow> d ! k = 0))"
  by (rule median_filter_correct[OF assms])

definition example_frame_image :: usImage where
  "example_frame_image = \<lparr>ImageData = [9, 1, 8, 2, 7, 3, 6, 4, 5], Size = (3, 3), Subframe = \<lparr>rx = 0, ry = 0, rw = 0, rh = 0\<rparr>,
     LimitFrame = \<lparr>rx = 0, ry = 0, rw = 0, rh = 0\<rparr>, MinADU = 0, MaxADU = 0, MedianADU = 0, FiltMin = 0, FiltMax = 0,
     BitsPerPixel = 16, Pedestal = 0\<rparr>"

theorem median_filter_is_local_median_witness:
  "\<exists>d. Median3 [] example_frame_image = Some (example_frame_image\<lparr>ImageData := d\<rparr>) \<and> d ! 4 = median_ref [9, 1, 8, 2, 7, 3, 6, 4, 5]"
proof -
  have a: "active example_frame_image = \<lparr>rx = 0, ry = 0, rw = 3, rh = 3\<rparr>"
    by (simp add: active_def example_frame_image_def rect_empty_def rect_of_size_def)
  have ok: "us_ok example_frame_image" by (simp add: us_ok_def example_frame_image_def rect_empty_def)
  let ?r = "\<lparr>rx = 0, ry = 0, rw = 3, rh = 3\<rparr>"
  obtain d where d: "Median3 [] example_frame_image = Some (example_frame_image\<lparr>ImageData := d\<rparr>)"
    "\<forall>p. in_rect ?r p \<longrightarrow> d ! nat (IX 3 ?r p) = median_ref (map (pixel example_frame_image ?r) (neighbours ?r p))"
    using median_filter_is_local_median[OF ok, of "[]"] unfolding a by (auto simp: example_frame_image_def)
  have p: "pixel example_frame_image ?r p = [9, 1, 8, 2, 7, 3, 6, 4, 5] ! nat (snd p * 3 + fst p)" for p
    by (simp add: pixel_def IX_def example_frame_image_def)
  have "neighbours ?r (1, 1) = [(0,0),(1,0),(2,0),(0,1),(1,1),(2,1),(0,2),(1,2),(2,2)]"
    by (simp add: neighbours_def near_def upto_rec1)
  then show ?thesis using d(1) d(2)[rule_format, of "(1, 1)"] by (intro exI[of _ d]) (simp add: in_rect_def IX_def p)
qed

end
