(* ===== verification/Image_Resample.thy ===== *)
theory Image_Resample
  imports Image_Filters
begin

text \<open>
  Changing the grid of a frame: the reconstruction of luminance from a colour sensor, software binning
  (\<open>BinPixels\<close> of \<open>src/image_math.h\<close> and its caller \<open>GuideCamera::Capture\<close> of \<open>src/camera.cpp\<close>), and
  the squaring of pixels.  Binning writes outside of its result when the size of the frame is not a
  multiple of the binning, unless the binning is three.
\<close>

section \<open>The reconstruction of luminance\<close>

definition next_two :: "int \<Rightarrow> int \<Rightarrow> int list" where
  "next_two n x = [x..min (n - 1) (x + 1)]"

definition quad :: "Rect \<Rightarrow> int \<times> int \<Rightarrow> (int \<times> int) list" where
  "quad r p = concat (map (\<lambda>j. map (\<lambda>i. (i, j)) (next_two (rw r) (fst p))) (next_two (rh r) (snd p)))"

lemma next_two_cases: "0 \<le> x \<Longrightarrow> x \<le> n - 2 \<Longrightarrow> next_two n x = [x, x + 1]" "next_two n (n - 1) = [n - 1]"
  by (simp_all add: next_two_def min_def upto_rec1)

lemma upto_last: "1 \<le> n \<Longrightarrow> map g [0..n - 1] = map g [0..n - 2] @ [g (n - 1)]" for n :: int
  using upto_rec2[of 0 "n - 1"] by simp

lemma recon_row_eq:
  assumes "1 \<le> rw r" and "0 \<le> y" "y \<le> rh r - 2"
  shows "recon_row W r y = map (\<lambda>x. (IX W r (x, y), map (IX W r) (quad r (x, y)))) [0..rw r - 1]"
proof -
  have A: "map (\<lambda>x. (IX W r (x, y), map (IX W r) (quad r (x, y)))) [0..rw r - 2] =
      map (\<lambda>x. (IX W r (0, y) + x, map (IX W r) [(x, y), (x + 1, y), (x, y + 1), (x + 1, y + 1)])) [0..rw r - 2]"
    by (rule map_cong[OF refl]) (use assms(2,3) in \<open>simp add: quad_def next_two_cases IX_left\<close>)
  have B: "IX W r (0, y) + int (length [0..rw r - 2]) = IX W r (rw r - 1, y)" using assms(1) by (simp add: IX_def)
  have C: "quad r (rw r - 1, y) = [(rw r - 1, y), (rw r - 1, y + 1)]" using assms(2,3) by (simp add: quad_def next_two_cases)
  show ?thesis unfolding upto_last[OF assms(1)] recon_row_def Let_def A B C ..
qed

lemma recon_writes_eq:
  assumes "1 \<le> rw r" and "1 \<le> rh r"
  shows "recon_writes W r = map (\<lambda>p. (IX W r p, map (IX W r) (quad r p))) (region 0 (rw r - 1) 0 (rh r - 1))"
proof -
  let ?row = "\<lambda>y. map (\<lambda>x. (IX W r (x, y), map (IX W r) (quad r (x, y)))) [0..rw r - 1]"
  have "map (\<lambda>p. (IX W r p, map (IX W r) (quad r p))) (region 0 (rw r - 1) 0 (rh r - 1)) = concat (map ?row [0..rh r - 1])"
    by (simp add: region_def map_concat comp_def)
  also have "\<dots> = concat (map ?row [0..rh r - 2]) @ ?row (rh r - 1)" unfolding upto_last[OF assms(2)] by simp
  also have "map ?row [0..rh r - 2] = map (recon_row W r) [0..rh r - 2]" by (rule map_cong[OF refl]) (simp add: recon_row_eq[OF assms(1)])
  also have "?row (rh r - 1) = map (\<lambda>x. (IX W r (0, rh r - 1) + x, map (IX W r) [(x, rh r - 1), (x + 1, rh r - 1)])) [0..rw r - 2]
      @ [(IX W r (0, rh r - 1) + int (length [0..rw r - 2]), [IX W r (rw r - 1, rh r - 1)])]"
  proof -
    have A: "map (\<lambda>x. (IX W r (x, rh r - 1), map (IX W r) (quad r (x, rh r - 1)))) [0..rw r - 2] =
        map (\<lambda>x. (IX W r (0, rh r - 1) + x, map (IX W r) [(x, rh r - 1), (x + 1, rh r - 1)])) [0..rw r - 2]"
      by (rule map_cong[OF refl]) (simp add: quad_def next_two_cases IX_left)
    have B: "IX W r (0, rh r - 1) + int (length [0..rw r - 2]) = IX W r (rw r - 1, rh r - 1)" using assms(1) by (simp add: IX_def)
    have C: "quad r (rw r - 1, rh r - 1) = [(rw r - 1, rh r - 1)]" by (simp add: quad_def next_two_cases)
    show ?thesis unfolding upto_last[OF assms(1)] A B C by (simp only: list.map)
  qed
  finally show ?thesis by (simp add: recon_writes_def Let_def)
qed

lemma quad_in: "in_rect r p \<Longrightarrow> q \<in> set (quad r p) \<Longrightarrow> in_rect r q"
  by (auto simp: quad_def next_two_def in_rect_def)

text \<open>The mean rounded down.\<close>

definition mean_ref :: "16 word list \<Rightarrow> 16 word" where
  "mean_ref vs = word_of_int (sum_list (map uint vs) div int (length vs))"

lemma next_two_length: "0 \<le> x \<Longrightarrow> x < n \<Longrightarrow> length (next_two n x) = (if x < n - 1 then 2 else 1)"
  by (auto simp: next_two_def min_def)

lemma mean_px_ref: "length vs \<in> {1, 2, 4} \<Longrightarrow> mean_px vs = mean_ref vs"
  by (auto simp: mean_px_def mean_ref_def)

lemma quad_length: "in_rect r p \<Longrightarrow> length (quad r p) \<in> {1, 2, 4}"
  using next_two_length[of "fst p" "rw r"] next_two_length[of "snd p" "rh r"]
  by (simp add: quad_def length_concat comp_def sum_list_triv in_rect_def split: if_splits)

text \<open>Each pixel of the valid part becomes the mean of the square of two by two that begins at it.\<close>

lemma QuickLRecon_correct:
  assumes "us_ok img" and "1 \<le> rw (active img)" "1 \<le> rh (active img)"
  shows "\<exists>d. QuickLRecon junk img = Some (img\<lparr>ImageData := d\<rparr>) \<and> length d = length (ImageData img) \<and>
    (\<forall>p. in_rect (active img) p \<longrightarrow> d ! nat (IX (fst (Size img)) (active img) p) = mean_ref (map (pixel img (active img)) (quad (active img) p)))"
proof -
  let ?tmp = "us_Init junk (Size img) (img\<lparr>ImageData := []\<rparr>)"
  let ?dst = "if rect_empty (Subframe img) then ImageData ?tmp else ImageData (us_Clear ?tmp)"
  have l: "int (length (ImageData img)) = fst (Size img) * snd (Size img)" "length ?dst = length (ImageData img)"
    using assms(1) tmp_length[OF assms(1)] by (simp_all add: us_ok_def)
  obtain d where d: "run_filter mean_px (ImageData img) (recon_writes (fst (Size img)) (active img)) ?dst = Some d" "length d = length (ImageData img)"
    "\<forall>p. in_rect (active img) p \<longrightarrow> d ! nat (IX (fst (Size img)) (active img) p) = mean_px (map (pixel img (active img)) (quad (active img) p))"
    using rect_filter_correct[OF active_in[OF assms(1)] l, of "quad (active img)" mean_px] quad_in
    unfolding recon_writes_eq[OF assms(2,3)] pixel_def by blast
  have "QuickLRecon junk img = Some (img\<lparr>ImageData := d\<rparr>)"
    using d(1) by (cases "rect_empty (Subframe img)") (simp_all add: QuickLRecon_def Let_def active_def us_SwapImageData_def)
  moreover have "mean_px (map (pixel img (active img)) (quad (active img) p)) = mean_ref (map (pixel img (active img)) (quad (active img) p))"
    if "in_rect (active img) p" for p using quad_length[OF that] by (intro mean_px_ref) simp
  ultimately show ?thesis using d(2,3) by (intro exI[of _ d]) auto
qed

section \<open>Binning\<close>

text \<open>The loop variable of the code: multiples of the binning below the bound.\<close>

definition steps :: "int \<Rightarrow> int \<Rightarrow> int list" where
  "steps b n = map (\<lambda>k. b * k) [0..(n - 1) div b]"

definition bin_block :: "int \<Rightarrow> int \<Rightarrow> int \<Rightarrow> int \<Rightarrow> int list" where
  "bin_block b srcw srcx srcy = concat (map (\<lambda>j. map (\<lambda>i. (srcy + j) * srcw + srcx + i) [0..b - 1]) [0..b - 1])"

definition bin_blocks :: "int \<Rightarrow> int \<times> int \<Rightarrow> int list list" where
  "bin_blocks b srcsize =
     (let tw = (if b = 3 then fst srcsize div b * b else fst srcsize); th = (if b = 3 then snd srcsize div b * b else snd srcsize)
      in concat (map (\<lambda>y. map (\<lambda>x. bin_block b (fst srcsize) x y) (steps b tw)) (steps b th)))"

definition BinPixels :: "16 word list \<Rightarrow> 16 word list \<Rightarrow> int \<times> int \<Rightarrow> int \<Rightarrow> 16 word list option" where
  "BinPixels dst src srcsize binning =
     (if binning \<in> {2, 3, 4}
      then let bs = bin_blocks binning srcsize in run_filter mean_ref src (zip [0..int (length bs) - 1] bs) dst
      else Some dst)"

definition binned_size :: "int \<times> int \<Rightarrow> int \<Rightarrow> int \<times> int" where
  "binned_size sz b = (c_quot (fst sz) b, c_quot (snd sz) b)"

definition binned_rect :: "Rect \<Rightarrow> int \<Rightarrow> Rect" where
  "binned_rect r b = \<lparr>rx = c_quot (rx r) b, ry = c_quot (ry r) b, rw = c_quot (rw r) b, rh = c_quot (rh r) b\<rparr>"

definition unbinned_rect :: "Rect \<Rightarrow> int \<Rightarrow> Rect" where
  "unbinned_rect r b = \<lparr>rx = rx r * b, ry = ry r * b, rw = rw r * b, rh = rh r * b\<rparr>"

text \<open>
  The capture: the driver of the camera is a function of the frame passed to it and of the limit frame
  and subframe it is asked for, \<^term>\<open>None\<close> when it reports an error.
\<close>

definition Capture :: "(usImage \<Rightarrow> Rect \<Rightarrow> Rect \<Rightarrow> usImage option) \<Rightarrow> 16 word list \<Rightarrow> usImage \<Rightarrow> Rect \<Rightarrow> Rect \<Rightarrow> int \<Rightarrow> usImage option option" where
  "Capture camera junk img0 limitFrame subframe swBinning =
     (let unb = (\<lambda>r. if swBinning > 1 then unbinned_rect r swBinning else r)
      in case camera (img0\<lparr>LimitFrame := limitFrame\<rparr>) (unb limitFrame) (unb subframe) of
           None \<Rightarrow> Some None
         | Some img \<Rightarrow>
             if swBinning > 1
                then let sz = binned_size (Size img) swBinning; binnedImage = us_Init junk sz (img\<lparr>ImageData := []\<rparr>)
                     in do { d \<leftarrow> BinPixels (ImageData binnedImage) (ImageData img) (Size img) swBinning;
                             Some (Some (img\<lparr>ImageData := d, Size := sz, Subframe := binned_rect (Subframe img) swBinning\<rparr>)) }
                else Some (Some img))"

text \<open>A frame of odd width: two blocks for one pixel of the result, and a read outside of the source.\<close>

lemma odd_width_overruns: "length src = 6 \<Longrightarrow> BinPixels [0] src (3, 2) 2 = None"
  by (simp add: BinPixels_def bin_blocks_def steps_def bin_block_def upto_rec1 run_filter_def write_px_def rd_def wr_def)

lemma odd_width_block_count: "length (bin_blocks 2 (3, 2)) = 2" "binned_size (3, 2) 2 = (1, 1)"
  by (simp_all add: bin_blocks_def steps_def upto_rec1 binned_size_def c_quot_def)

text \<open>When the size is a multiple of the binning, the blocks are those of the pixels of the result.\<close>

lemma steps_multiple: "0 < b \<Longrightarrow> steps b (b * m) = map (\<lambda>k. b * k) [0..m - 1]"
proof -
  assume "0 < b"
  have "b * m - 1 = (b - 1) + (m - 1) * b" by (simp add: algebra_simps)
  then have "(b * m - 1) div b = m - 1" using \<open>0 < b\<close> by (simp only: div_mult_self1 div_pos_pos_trivial)
  then show ?thesis by (simp add: steps_def)
qed

lemma region_index: "0 \<le> m \<Longrightarrow> map (\<lambda>p. snd p * m + fst p) (region 0 (m - 1) 0 (int n - 1)) = [0..m * int n - 1]"
proof (induction n)
  case (Suc n)
  have "region 0 (m - 1) 0 (int (Suc n) - 1) = region 0 (m - 1) 0 (int n - 1) @ map (\<lambda>x. (x, int n)) [0..m - 1]"
    using upto_rec2[of 0 "int n"] by (simp add: region_def)
  moreover have "map (\<lambda>p. snd p * m + fst p) (map (\<lambda>x. (x, int n)) [0..m - 1]) = [m * int n..m * int (Suc n) - 1]"
  proof -
    have "map (\<lambda>x. int n * m + x) [0..m - 1] = [int n * m + 0..int n * m + (m - 1)]"
      by (rule nth_equalityI) auto
    then show ?thesis by (simp add: comp_def algebra_simps)
  qed
  moreover have "[0..m * int n - 1] @ [m * int n..m * int (Suc n) - 1] = [0..m * int (Suc n) - 1]"
    using upto_split1[of 0 "m * int n" "m * int (Suc n) - 1"] Suc.prems by (cases "m = 0") (auto simp: algebra_simps)
  ultimately show ?case using Suc by simp
qed (simp add: region_def)

lemma bin_blocks_multiple:
  assumes "0 < b" and "0 \<le> m"
  shows "bin_blocks b (b * m, b * int n) = map (\<lambda>p. bin_block b (b * m) (b * fst p) (b * snd p)) (region 0 (m - 1) 0 (int n - 1))"
proof -
  have e: "(if b = 3 then b * k div b * b else b * k) = b * k" for k using assms(1) by simp
  show ?thesis unfolding bin_blocks_def fst_conv snd_conv e Let_def steps_multiple[OF assms(1)]
    by (simp add: region_def map_concat comp_def)
qed

lemma bin_writes_multiple:
  assumes "0 < b" and "0 \<le> m"
  shows "zip [0..int (length (bin_blocks b (b * m, b * int n))) - 1] (bin_blocks b (b * m, b * int n)) =
    map (\<lambda>p. (snd p * m + fst p, bin_block b (b * m) (b * fst p) (b * snd p))) (region 0 (m - 1) 0 (int n - 1))"
proof -
  let ?R = "region 0 (m - 1) 0 (int n - 1)"
  have l: "int (length ?R) = m * int n"
    using arg_cong[OF region_index[OF assms(2), of n], of length] assms(2) by simp
  have "[0..int (length ?R) - 1] = map (\<lambda>p. snd p * m + fst p) ?R" unfolding l region_index[OF assms(2)] ..
  then show ?thesis unfolding bin_blocks_multiple[OF assms] length_map by (simp add: zip_map_map zip_same_conv_map)
qed

lemma block_inside:
  assumes "0 \<le> X" "X < m" "0 \<le> Y" "Y < int n" "0 < b" and "i \<in> set (bin_block b (b * m) (b * X) (b * Y))"
    and "int (length src) = b * m * (b * int n)"
  shows "in_list src i"
proof -
  obtain j where j: "0 \<le> j" "j \<le> b - 1" "(b * Y + j) * (b * m) + b * X \<le> i" "i \<le> b - 1 + ((b * Y + j) * (b * m) + b * X)"
    using assms(6) by (auto simp: bin_block_def)
  define k where "k = i - ((b * Y + j) * (b * m) + b * X)"
  have jk: "0 \<le> j" "j \<le> b - 1" "0 \<le> k" "k \<le> b - 1" "i = (b * Y + j) * (b * m) + b * X + k" using j by (auto simp: k_def)
  let ?r = "\<lparr>rx = 0, ry = 0, rw = b * m, rh = b * int n\<rparr>"
  have "b * X + b \<le> b * m" "b * Y + b \<le> b * int n"
    using mult_left_mono[of "X + 1" m b] mult_left_mono[of "Y + 1" "int n" b] assms(1-5) by (simp_all add: algebra_simps)
  then have "in_rect ?r (b * X + k, b * Y + j)" using assms jk by (simp add: in_rect_def)
  moreover have "rect_in ?r (b * m, b * int n)" by (simp add: rect_in_def)
  ultimately have "in_list src (IX (fst (b * m, b * int n)) ?r (b * X + k, b * Y + j))" using assms(7) by (intro IX_in) simp_all
  then show ?thesis by (simp add: IX_def jk(5) algebra_simps)
qed

lemma binning_correct:
  assumes "b \<in> {2, 3, 4}" and "0 \<le> m" and "int (length src) = b * m * (b * int n)" and "int (length dst) = m * int n"
  shows "\<exists>out. BinPixels dst src (b * m, b * int n) b = Some out \<and> length out = length dst \<and>
    (\<forall>X Y. 0 \<le> X \<and> X < m \<and> 0 \<le> Y \<and> Y < int n \<longrightarrow>
       out ! nat (Y * m + X) = mean_ref (map (\<lambda>i. src ! nat i) (bin_block b (b * m) (b * X) (b * Y))))"
proof -
  let ?R = "region 0 (m - 1) 0 (int n - 1)" and ?r = "\<lparr>rx = 0, ry = 0, rw = m, rh = int n\<rparr>"
  let ?ws = "map (\<lambda>p. (snd p * m + fst p, bin_block b (b * m) (b * fst p) (b * snd p))) ?R"
  have b: "0 < b" using assms(1) by auto
  have ix: "snd p * m + fst p = IX m ?r p" for p by (simp add: IX_def)
  have r: "rect_in ?r (m, int n)" by (simp add: rect_in_def)
  have R: "p \<in> set ?R \<longleftrightarrow> in_rect ?r p" for p by (auto simp: in_region in_rect_def)
  have "\<forall>w\<in>set ?ws. in_list dst (fst w) \<and> (\<forall>i\<in>set (snd w). in_list src i)"
  proof (safe)
    fix d ps assume "(d, ps) \<in> set ?ws"
    then obtain p where p: "in_rect ?r p" "d = IX m ?r p" "ps = bin_block b (b * m) (b * fst p) (b * snd p)" using R ix by auto
    show "in_list dst (fst (d, ps))" using IX_in[OF r p(1), of dst] assms(4) p(2) by simp
    show "in_list src i" if "i \<in> set (snd (d, ps))" for i
      using block_inside[of "fst p" m "snd p" n b i src] p(1,3) that assms(3) b by (simp add: in_rect_def)
  qed
  moreover have "distinct (map fst ?ws)"
    using distinct_region IX_inj[OF r] unfolding ix by (auto simp: distinct_map comp_def R intro!: inj_onI)
  ultimately obtain out where out: "run_filter mean_ref src ?ws dst = Some out" "length out = length dst"
    "\<forall>w\<in>set ?ws. out ! nat (fst w) = mean_ref (map (\<lambda>i. src ! nat i) (snd w))"
    using run_filter_correct[of ?ws dst src mean_ref] by blast
  have "BinPixels dst src (b * m, b * int n) b = Some out"
    using assms(1) out(1) unfolding BinPixels_def Let_def bin_writes_multiple[OF b assms(2)] by simp
  moreover have "out ! nat (Y * m + X) = mean_ref (map (\<lambda>i. src ! nat i) (bin_block b (b * m) (b * X) (b * Y)))"
    if "0 \<le> X \<and> X < m \<and> 0 \<le> Y \<and> Y < int n" for X Y
  proof -
    have "(X, Y) \<in> set ?R" using that by (simp add: in_region)
    then have "(Y * m + X, bin_block b (b * m) (b * X) (b * Y)) \<in> set ?ws" by force
    then show ?thesis using out(3) by fastforce
  qed
  ultimately show ?thesis using out(2) by blast
qed

section \<open>Square pixels\<close>

fun opt_map :: "('a \<Rightarrow> 'b option) \<Rightarrow> 'a list \<Rightarrow> 'b list option" where
  "opt_map f [] = Some []"
| "opt_map f (x # xs) = do { y \<leftarrow> f x; ys \<leftarrow> opt_map f xs; Some (y # ys) }"

lemma opt_map_total: "\<forall>x\<in>set xs. f x = Some (g x) \<Longrightarrow> opt_map f xs = Some (map g xs)"
  by (induction xs) auto

text \<open>The code weighs the left neighbour with both weights; the right one, \<open>ind2\<close>, is not used.\<close>

definition square_px :: "int \<Rightarrow> 16 word list \<Rightarrow> int \<Rightarrow> real \<Rightarrow> int \<times> int \<Rightarrow> 16 word option" where
  "square_px bad d linesize ratio p =
     (let oldposition = real_of_int (fst p) * ratio; weight = real_of_int \<lceil>oldposition\<rceil> - oldposition
      in do { v \<leftarrow> rd d (snd p * linesize + \<lfloor>oldposition\<rfloor>);
              Some (word_of_int (c_ushort bad (real_of_int (uint v) * weight + real_of_int (uint v) * (1 - weight)))) })"

text \<open>The error flag and the frame; \<^term>\<open>None\<close> also when the division gives no number.\<close>

definition SquarePixels :: "int \<Rightarrow> usImage \<Rightarrow> real \<Rightarrow> real \<Rightarrow> (bool \<times> usImage) option" where
  "SquarePixels bad img xsize ysize =
     (if ImageData img = [] then Some (True, img)
      else if xsize \<le> ysize then Some (False, img)
      else if ysize = 0 then None
      else let ratio = ysize / xsize; newsize = ROUND (real_of_int (fst (Size img)) / ratio)
           in do { d \<leftarrow> opt_map (square_px bad (ImageData img) (fst (Size img)) ratio) (region 0 (newsize - 1) 0 (snd (Size img) - 1));
                   Some (False, (us_Init [] (newsize, snd (Size img)) img)\<lparr>ImageData := d\<rparr>) })"

lemma c_ushort_of_int: "0 \<le> k \<Longrightarrow> k < 65536 \<Longrightarrow> c_ushort bad (real_of_int k) = k"
  by (simp add: c_ushort_def c_trunc_def)

text \<open>So each pixel is a copy of the pixel at the rounded-down position; nothing is interpolated.\<close>

lemma square_pixels_copies:
  assumes "us_ok img" and "ImageData img \<noteq> []" and "0 < ysize" "ysize < xsize"
  defines "ratio \<equiv> ysize / xsize"
  defines "newsize \<equiv> ROUND (real_of_int (fst (Size img)) / ratio)"
  shows "SquarePixels bad img xsize ysize = Some (False, (us_Init [] (newsize, snd (Size img)) img)\<lparr>ImageData :=
    map (\<lambda>p. ImageData img ! nat (snd p * fst (Size img) + \<lfloor>real_of_int (fst p) * ratio\<rfloor>)) (region 0 (newsize - 1) 0 (snd (Size img) - 1))\<rparr>)"
proof -
  let ?w = "fst (Size img)"
  have ratio: "0 < ratio" "ratio < 1" using assms(3,4) by (simp_all add: ratio_def)
  have "square_px bad (ImageData img) ?w ratio p = Some (ImageData img ! nat (snd p * ?w + \<lfloor>real_of_int (fst p) * ratio\<rfloor>))"
    if "p \<in> set (region 0 (newsize - 1) 0 (snd (Size img) - 1))" for p
  proof -
    have p: "0 \<le> fst p" "fst p \<le> newsize - 1" "0 \<le> snd p" "snd p < snd (Size img)" using that by (auto simp: in_region)
    have "real_of_int newsize \<le> real_of_int ?w / ratio + 1 / 2" unfolding newsize_def ROUND_def by linarith
    then have "real_of_int (fst p) \<le> real_of_int ?w / ratio - 1 / 2" using p(2) by linarith
    then have "real_of_int (fst p) * ratio \<le> (real_of_int ?w / ratio - 1 / 2) * ratio" using ratio by (intro mult_right_mono) simp_all
    then have "real_of_int (fst p) * ratio < real_of_int ?w" using ratio by (simp add: algebra_simps)
    then have x: "0 \<le> \<lfloor>real_of_int (fst p) * ratio\<rfloor>" "\<lfloor>real_of_int (fst p) * ratio\<rfloor> < ?w" using p(1) ratio by (simp_all add: floor_less_iff)
    have "in_list (ImageData img) (IX ?w (rect_of_size (Size img)) (\<lfloor>real_of_int (fst p) * ratio\<rfloor>, snd p))"
      using x p assms(1) by (intro IX_in[of _ "Size img"]) (simp_all add: rect_in_def rect_of_size_def in_rect_def us_ok_def)
    then have r: "rd (ImageData img) (snd p * ?w + \<lfloor>real_of_int (fst p) * ratio\<rfloor>) = Some (ImageData img ! nat (snd p * ?w + \<lfloor>real_of_int (fst p) * ratio\<rfloor>))"
      by (simp add: rd_def in_list_def IX_def rect_of_size_def)
    have "real_of_int (uint v) * k + real_of_int (uint v) * (1 - k) = real_of_int (uint v)" for v :: "16 word" and k by (simp add: algebra_simps)
    moreover have "c_ushort bad (real_of_int (uint v)) = uint v" for v :: "16 word"
      by (rule c_ushort_of_int) (use uint_lt2p[of v] in simp_all)
    ultimately show ?thesis using r by (simp add: square_px_def Let_def)
  qed
  then have "opt_map (square_px bad (ImageData img) ?w ratio) (region 0 (newsize - 1) 0 (snd (Size img) - 1)) =
      Some (map (\<lambda>p. ImageData img ! nat (snd p * ?w + \<lfloor>real_of_int (fst p) * ratio\<rfloor>)) (region 0 (newsize - 1) 0 (snd (Size img) - 1)))"
    by (intro opt_map_total) simp
  then show ?thesis using assms(2-4) by (simp add: SquarePixels_def Let_def ratio_def[symmetric] newsize_def[symmetric])
qed

end
