(* ===== verification/Image_Stats.thy ===== *)
theory Image_Stats
  imports Image_Resample
begin

text \<open>
  The statistics of a frame (\<open>usImage::CalcStats\<close> of \<open>src/usImage.cpp\<close>) and the subtraction of a dark
  frame (\<open>Subtract\<close> of \<open>src/image_math.cpp\<close>), shown to be exact: the extremes and the median are those
  of the valid pixels, the filtered extremes those of the local medians, and each pixel of the light
  frame becomes its value plus the pedestal minus the dark one, clamped to 16 bits.
\<close>

section \<open>Statistics\<close>

definition filt_pixel :: "nat \<times> nat \<Rightarrow> 16 word \<Rightarrow> nat \<times> nat" where
  "filt_pixel e v = (let d = unat v in (if d < fst e then d else fst e, if d > snd e then d else snd e))"

definition copy_roi :: "16 word list \<Rightarrow> int \<Rightarrow> Rect \<Rightarrow> 16 word list option" where
  "copy_roi src W r = rds src (map (IX W r) (region 0 (rw r - 1) 0 (rh r - 1)))"

text \<open>The histogram and the buffer of the filter are not initialised: \<open>hjunk\<close> and \<open>junk\<close>.\<close>

definition stats_of :: "(nat \<Rightarrow> int) \<Rightarrow> 16 word list \<Rightarrow> 16 word list \<Rightarrow> int \<times> int \<Rightarrow> usImage \<Rightarrow> usImage option" where
  "stats_of hjunk junk pixels sz im =
     do { hb \<leftarrow> hb_scan pixels (hb_new hjunk);
          d \<leftarrow> Median3_data (take (length pixels) (junk @ replicate (length pixels) 0)) pixels sz (rect_of_size sz);
          let e = foldl filt_pixel (FiltMin im, FiltMax im) d
          in Some (im\<lparr>MinADU := hb_MinADU hb, MaxADU := hb_MaxADU hb, MedianADU := hb_median hb, FiltMin := fst e, FiltMax := snd e\<rparr>) }"

definition CalcStats :: "(nat \<Rightarrow> int) \<Rightarrow> 16 word list \<Rightarrow> usImage \<Rightarrow> usImage option" where
  "CalcStats hjunk junk im =
     (if ImageData im = [] then Some im
      else let im0 = im\<lparr>MinADU := 65535, MaxADU := 0, FiltMin := 65535, FiltMax := 0\<rparr>
           in if rect_empty (Subframe im) then stats_of hjunk junk (ImageData im) (Size im) im0
              else do { t \<leftarrow> copy_roi (ImageData im) (fst (Size im)) (Subframe im);
                        stats_of hjunk junk t (rw (Subframe im), rh (Subframe im)) im0 })"

section \<open>Dark subtraction\<close>

definition rect_offset :: "Rect \<Rightarrow> Rect \<Rightarrow> Rect" where
  "rect_offset r l = r\<lparr>rx := rx r + rx l, ry := ry r + ry l\<rparr>"

text \<open>The intersection of rectangles is the toolkit's: \<open>isect\<close>.\<close>

definition IsLightFrameCompatibleWithDarkFrame :: "(Rect \<Rightarrow> Rect \<Rightarrow> Rect) \<Rightarrow> usImage \<Rightarrow> usImage \<Rightarrow> bool" where
  "IsLightFrameCompatibleWithDarkFrame isect light dark =
     (if rect_empty (LimitFrame light) then Size light = Size dark
      else isect (LimitFrame light) (rect_of_size (Size dark)) = LimitFrame light)"

text \<open>What is documented of it: the common part of two rectangles, empty when they have none.\<close>

definition rect_overlap :: "Rect \<Rightarrow> Rect \<Rightarrow> Rect" where
  "rect_overlap r s = (let x0 = max (rx r) (rx s); y0 = max (ry r) (ry s)
     in \<lparr>rx = x0, ry = y0, rw = min (rx r + rw r) (rx s + rw s) - x0, rh = min (ry r + rh r) (ry s + rh s) - y0\<rparr>)"

definition isect_law :: "(Rect \<Rightarrow> Rect \<Rightarrow> Rect) \<Rightarrow> bool" where
  "isect_law isect \<longleftrightarrow> (\<forall>r s. if rect_empty (rect_overlap r s) then rect_empty (isect r s) else isect r s = rect_overlap r s)"

definition median_value_in_roi :: "usImage \<Rightarrow> Rect \<Rightarrow> nat option" where
  "median_value_in_roi dark roi =
     do { t \<leftarrow> copy_roi (ImageData dark) (fst (Size dark)) roi;
          if t = [] then None else Some (kth (length t div 2) (map unat t)) }"

definition clamp_px :: "int \<Rightarrow> 16 word" where
  "clamp_px newval = word_of_int (if newval < 0 then 0 else if newval > 65535 then 65535 else newval)"

definition sub_px :: "16 word list \<Rightarrow> int \<Rightarrow> (int \<times> int \<Rightarrow> int) \<Rightarrow> (int \<times> int \<Rightarrow> int) \<Rightarrow> int \<times> int \<Rightarrow> 16 word list \<Rightarrow> 16 word list option" where
  "sub_px dark pedestal il ik p d =
     do { l \<leftarrow> rd d (il p); k \<leftarrow> rd dark (ik p); wr d (il p) (clamp_px (uint l + pedestal - uint k)) }"

text \<open>Which parts of the two frames correspond, and the median of the dark part.\<close>

definition sub_rois :: "usImage \<Rightarrow> usImage \<Rightarrow> (Rect \<times> Rect \<times> nat) option" where
  "sub_rois light dark =
     (if \<not> rect_empty (Subframe light)
      then let dark_roi = rect_offset (Subframe light) (LimitFrame light)
           in map_option (\<lambda>m. (Subframe light, dark_roi, m)) (median_value_in_roi dark dark_roi)
      else if \<not> rect_empty (LimitFrame light)
      then map_option (\<lambda>m. (rect_of_size (Size light), LimitFrame light, m)) (median_value_in_roi dark (LimitFrame light))
      else Some (rect_of_size (Size light), rect_of_size (Size light), MedianADU dark))"

definition Subtract :: "(Rect \<Rightarrow> Rect \<Rightarrow> Rect) \<Rightarrow> usImage \<Rightarrow> usImage \<Rightarrow> (bool \<times> usImage) option" where
  "Subtract isect light dark =
     (if ImageData light = [] \<or> ImageData dark = [] then Some (True, light)
      else if \<not> IsLightFrameCompatibleWithDarkFrame isect light dark then Some (True, light)
      else do { (light_roi, dark_roi, median_dark) \<leftarrow> sub_rois light dark;
                let ped = (if median_dark > MedianADU light then int median_dark - int (MedianADU light) else Pedestal light)
                in do { d \<leftarrow> fold_opt (sub_px (ImageData dark) ped (IX (fst (Size light)) light_roi) (IX (fst (Size dark)) dark_roi))
                                 (region 0 (rw light_roi - 1) 0 (rh light_roi - 1)) (ImageData light);
                        Some (False, light\<lparr>Pedestal := ped, ImageData := d\<rparr>) } })"

section \<open>The statistics are exact\<close>

lemma foldl_min_max:
  "foldl filt_pixel (a, b) d = (foldl min a (map unat d), foldl max b (map unat d))"
proof (induction d arbitrary: a b)
  case (Cons v d)
  have "filt_pixel (a, b) v = (min a (unat v), max b (unat v))" by (auto simp: filt_pixel_def Let_def)
  then show ?case using Cons.IH by simp
qed simp

lemma foldl_min_set: "foldl min (a :: nat) xs = Min (set (a # xs))"
  unfolding Min.set_eq_fold foldl_conv_fold by (rule arg_cong[of _ _ "\<lambda>f. fold f xs a"]) (auto simp: min.commute)

lemma foldl_max_set: "foldl max (a :: nat) xs = Max (set (a # xs))"
  unfolding Max.set_eq_fold foldl_conv_fold by (rule arg_cong[of _ _ "\<lambda>f. fold f xs a"]) (auto simp: max.commute)

text \<open>The extremes of the histogram builder are those of the values.\<close>

lemma hb_pixels_extremes:
  "hb_MinADU s \<le> hb_MaxADU s \<Longrightarrow>
   hb_MinADU (foldl hb_pixel s vs) = foldl min (hb_MinADU s) vs \<and> hb_MaxADU (foldl hb_pixel s vs) = foldl max (hb_MaxADU s) vs"
proof (induction vs arbitrary: s)
  case (Cons v vs)
  have "hb_MinADU (hb_pixel s v) = min (hb_MinADU s) v" "hb_MaxADU (hb_pixel s v) = max (hb_MaxADU s) v"
    using Cons.prems by (auto simp: hb_pixel_def Let_def)
  moreover from this have "hb_MinADU (hb_pixel s v) \<le> hb_MaxADU (hb_pixel s v)" using Cons.prems by simp
  ultimately show ?case using Cons.IH[of "hb_pixel s v"] by simp
qed simp

lemma hb_scan_exact:
  assumes "t \<noteq> []"
  shows "\<exists>s. hb_scan t (hb_new junk) = Some s \<and> hb_MinADU s = Min (set (map unat t)) \<and> hb_MaxADU s = Max (set (map unat t)) \<and>
    hb_median s = kth (length t div 2) (map unat t)"
proof -
  obtain v t' where t: "t = v # t'" using assms by (cases t) auto
  have "hb_ok [] (hb_new junk)" by (simp add: hb_ok_def hb_new_def)
  from hb_scan_ok[OF this assms] obtain s where s: "hb_scan t (hb_new junk) = Some s" "hb_ok (map unat t) s" by auto
  let ?s = "(hb_new junk)\<lparr>hb_MinADU := unat v, hb_MaxADU := unat v, histo := (histo (hb_new junk))(unat v := 0)\<rparr>"
  have p: "pixCount (hb_new junk) = 0" by (simp add: hb_new_def)
  have "s = (foldl hb_pixel ?s (map unat t))\<lparr>pixCount := int (length t)\<rparr>"
    using s(1) t p by (simp add: hb_scan_def Let_def)
  then have "hb_MinADU s = foldl min (unat v) (map unat t)" "hb_MaxADU s = foldl max (unat v) (map unat t)"
    using hb_pixels_extremes[of ?s "map unat t"] by simp_all
  then have "hb_MinADU s = Min (set (map unat t))" "hb_MaxADU s = Max (set (map unat t))"
    unfolding foldl_min_set foldl_max_set by (simp_all add: t)
  moreover have "hb_median s = kth (length t div 2) (map unat t)"
    using hb_median_kth[of "map unat t" s] s(2) assms by (simp add: hb_ok_def)
  ultimately show ?thesis using s(1) by blast
qed

text \<open>A list of pixels row by row.\<close>

lemma list_by_region:
  assumes "int (length xs) = w * h" and "0 \<le> w" "0 \<le> h"
  shows "map (\<lambda>p. xs ! nat (snd p * w + fst p)) (region 0 (w - 1) 0 (h - 1)) = xs"
proof -
  obtain n where n: "h = int n" using assms(3) nonneg_int_cases by blast
  have "map (\<lambda>p. xs ! nat (snd p * w + fst p)) (region 0 (w - 1) 0 (h - 1)) =
      map (\<lambda>i. xs ! nat i) (map (\<lambda>p. snd p * w + fst p) (region 0 (w - 1) 0 (h - 1)))" by simp
  also have "\<dots> = map (\<lambda>i. xs ! nat i) [0..int (length xs) - 1]" unfolding n region_index[OF assms(2)] using assms(1) n by simp
  also have "\<dots> = xs" by (rule nth_equalityI) simp_all
  finally show ?thesis .
qed

text \<open>The values of the valid part, and the local medians in it.\<close>

definition px_values :: "usImage \<Rightarrow> Rect \<Rightarrow> nat list" where
  "px_values im r = map (\<lambda>p. unat (pixel im r p)) (region 0 (rw r - 1) 0 (rh r - 1))"

definition local_medians :: "usImage \<Rightarrow> Rect \<Rightarrow> nat list" where
  "local_medians im r = map (\<lambda>p. unat (median_ref (map (pixel im r) (neighbours r p)))) (region 0 (rw r - 1) 0 (rh r - 1))"

lemma copy_roi_total:
  assumes "rect_in r (Size im)" and "int (length (ImageData im)) = fst (Size im) * snd (Size im)"
  shows "copy_roi (ImageData im) (fst (Size im)) r = Some (map (pixel im r) (region 0 (rw r - 1) 0 (rh r - 1)))"
proof -
  have "\<forall>i\<in>set (map (IX (fst (Size im)) r) (region 0 (rw r - 1) 0 (rh r - 1))). in_list (ImageData im) i"
    using IX_in[OF assms(1) _ assms(2)] by (auto simp: in_region_rect)
  from rds_total[OF this] show ?thesis by (simp add: copy_roi_def pixel_def comp_def)
qed

lemma region_length: "0 \<le> w \<Longrightarrow> 0 \<le> h \<Longrightarrow> int (length (region 0 (w - 1) 0 (h - 1))) = w * h"
  by (simp add: region_def length_concat comp_def sum_list_triv)

text \<open>The pixels of a rectangle, copied into a frame of its size, are those of the rectangle.\<close>

lemma copied_pixel:
  assumes "0 \<le> rw r" "0 \<le> rh r" and "in_rect r p" and "t = map f (region 0 (rw r - 1) 0 (rh r - 1))"
  shows "t ! nat (IX (rw r) (rect_of_size (rw r, rh r)) p) = f p"
proof -
  let ?R = "region 0 (rw r - 1) 0 (rh r - 1)"
  obtain n where n: "rh r = int n" using assms(2) nonneg_int_cases by blast
  obtain k where k: "k < length ?R" "?R ! k = p" using assms(3) in_region_rect[of p r] by (metis in_set_conv_nth)
  have "map (\<lambda>p. snd p * rw r + fst p) ?R ! k = [0..rw r * int n - 1] ! k" unfolding n region_index[OF assms(1)] ..
  moreover have "k < length [0..rw r * int n - 1]" using k(1) region_length[OF assms(1,2)] n by simp
  ultimately have "snd p * rw r + fst p = int k" using k by simp
  then show ?thesis using assms(4) k by (simp add: IX_def rect_of_size_def)
qed

lemma stats_of_exact:
  assumes "2 \<le> rw r" "2 \<le> rh r" and t: "t = map (pixel im r) (region 0 (rw r - 1) 0 (rh r - 1))"
    and "FiltMin im0 = 65535" "FiltMax im0 = 0"
  shows "stats_of hjunk junk t (rw r, rh r) im0 = Some (im0\<lparr>MinADU := Min (set (px_values im r)), MaxADU := Max (set (px_values im r)),
    MedianADU := kth (length (px_values im r) div 2) (px_values im r),
    FiltMin := Min (set (local_medians im r)), FiltMax := Max (set (local_medians im r))\<rparr>)"
proof -
  let ?R = "region 0 (rw r - 1) 0 (rh r - 1)" and ?r0 = "rect_of_size (rw r, rh r)" and ?dst = "take (length t) (junk @ replicate (length t) 0)"
  have lt: "int (length t) = rw r * rh r" using region_length[of "rw r" "rh r"] assms(1,2) t by simp
  have ne: "t \<noteq> []" using lt assms(1,2) by auto
  have vals: "px_values im r = map unat t" by (simp add: px_values_def t comp_def)
  obtain s where s: "hb_scan t (hb_new hjunk) = Some s" "hb_MinADU s = Min (set (px_values im r))" "hb_MaxADU s = Max (set (px_values im r))"
    "hb_median s = kth (length (px_values im r) div 2) (px_values im r)" using hb_scan_exact[OF ne] unfolding vals by auto
  have r0: "rect_in ?r0 (rw r, rh r)" "2 \<le> rw ?r0" "2 \<le> rh ?r0" "in_rect ?r0 = in_rect r" "neighbours ?r0 = neighbours r"
    using assms(1,2) by (simp_all add: rect_in_def rect_of_size_def in_rect_def neighbours_def fun_eq_iff)
  have l: "int (length t) = fst (rw r, rh r) * snd (rw r, rh r)" "length ?dst = length t" using lt by simp_all
  obtain d where d: "Median3_data ?dst t (rw r, rh r) ?r0 = Some d" "length d = length t"
    "\<forall>p. in_rect r p \<longrightarrow> d ! nat (IX (rw r) ?r0 p) = median_px (map (\<lambda>q. t ! nat (IX (rw r) ?r0 q)) (neighbours r p))"
    using Median3_data_correct[OF r0(1) l r0(2,3)] unfolding r0(4,5) fst_conv by blast
  have med: "d ! nat (snd p * rw r + fst p) = median_ref (map (pixel im r) (neighbours r p))" if "in_rect r p" for p
  proof -
    have m1: "map (\<lambda>q. t ! nat (IX (rw r) ?r0 q)) (neighbours r p) = map (pixel im r) (neighbours r p)"
      using neighbours_in[OF that] assms(1,2) by (intro map_cong refl copied_pixel[OF _ _ _ t]) auto
    have m2: "median_px (map (pixel im r) (neighbours r p)) = median_ref (map (pixel im r) (neighbours r p))"
      using neighbours_length[OF that assms(1,2)] by (intro median_px_ref) simp
    show ?thesis using d(3)[rule_format, OF that] unfolding m1 m2 by (simp add: IX_def rect_of_size_def)
  qed
  have "d = map (\<lambda>p. d ! nat (snd p * rw r + fst p)) ?R" using list_by_region[of d "rw r" "rh r"] d(2) lt assms(1,2) by simp
  also have "\<dots> = map (\<lambda>p. median_ref (map (pixel im r) (neighbours r p))) ?R"
    using med by (intro map_cong refl) (simp add: in_region_rect)
  finally have dl: "map unat d = local_medians im r" by (simp add: local_medians_def comp_def)
  have ne2: "local_medians im r \<noteq> []" using ne t by (auto simp: local_medians_def)
  have u: "unat v \<le> 65535" for v :: "16 word"
  proof -
    have "uint v < 65536" using uint_lt2p[of v] by simp
    then show ?thesis unfolding unat_eq_nat_uint by linarith
  qed
  have bnd: "\<forall>v\<in>set (local_medians im r). v \<le> 65535" using u by (auto simp: local_medians_def)
  obtain v vs where v: "local_medians im r = v # vs" using ne2 by (cases "local_medians im r") auto
  have "foldl filt_pixel (65535, 0) d = (Min (set (local_medians im r)), Max (set (local_medians im r)))"
  proof -
    have "foldl min 65535 (v # vs) = foldl min v vs" "foldl max 0 (v # vs) = foldl max v vs" using bnd v by (simp_all add: min_absorb2)
    then show ?thesis unfolding foldl_min_max dl v unfolding foldl_min_set foldl_max_set by simp
  qed
  then show ?thesis using s d(1) assms(4,5) by (simp add: stats_of_def Let_def)
qed

lemma full_frame_pixels:
  assumes "us_ok im" and "rect_empty (Subframe im)"
  shows "ImageData im = map (pixel im (active im)) (region 0 (rw (active im) - 1) 0 (rh (active im) - 1))"
    "Size im = (rw (active im), rh (active im))"
proof -
  have a: "active im = rect_of_size (Size im)" using assms(2) by (simp add: active_def)
  then show "Size im = (rw (active im), rh (active im))" by (simp add: rect_of_size_def)
  show "ImageData im = map (pixel im (active im)) (region 0 (rw (active im) - 1) 0 (rh (active im) - 1))"
    using list_by_region[of "ImageData im" "fst (Size im)" "snd (Size im)"] assms(1) a
    by (simp add: us_ok_def pixel_def[abs_def] IX_def rect_of_size_def)
qed

lemma CalcStats_exact:
  assumes "us_ok im" and "2 \<le> rw (active im)" "2 \<le> rh (active im)"
  shows "CalcStats hjunk junk im = Some (im\<lparr>MinADU := Min (set (px_values im (active im))), MaxADU := Max (set (px_values im (active im))),
    MedianADU := kth (length (px_values im (active im)) div 2) (px_values im (active im)),
    FiltMin := Min (set (local_medians im (active im))), FiltMax := Max (set (local_medians im (active im)))\<rparr>)"
proof -
  let ?a = "active im" and ?im0 = "im\<lparr>MinADU := 65535, MaxADU := 0, FiltMin := 65535, FiltMax := 0\<rparr>"
  have len: "int (length (ImageData im)) = fst (Size im) * snd (Size im)" using assms(1) by (simp add: us_ok_def)
  note st = stats_of_exact[OF assms(2,3) refl, of ?im0 hjunk junk im, simplified]
  have "rw ?a \<le> fst (Size im)" "rh ?a \<le> snd (Size im)" using active_in[OF assms(1)] by (simp_all add: rect_in_def)
  then have "0 < int (length (ImageData im))" unfolding len using assms(2,3) by simp
  then have ne: "ImageData im \<noteq> []" by auto
  show ?thesis
  proof (cases "rect_empty (Subframe im)")
    case True
    have "stats_of hjunk junk (ImageData im) (Size im) ?im0 = stats_of hjunk junk (map (pixel im ?a) (region 0 (rw ?a - 1) 0 (rh ?a - 1))) (rw ?a, rh ?a) ?im0"
      using full_frame_pixels[OF assms(1) True] by (metis (no_types, lifting))
    then show ?thesis using st ne True by (simp add: CalcStats_def Let_def)
  next
    case False
    then have a: "?a = Subframe im" by (simp add: active_def)
    show ?thesis using st ne False copy_roi_total[OF active_in[OF assms(1)] len] unfolding a by (simp add: CalcStats_def Let_def)
  qed
qed

section \<open>Dark subtraction is exact\<close>

lemma fold_px_correct:
  assumes "\<And>p s. p \<in> set ps \<Longrightarrow> in_list s (ix p) \<Longrightarrow> step p s = Some (s[nat (ix p) := g p (s ! nat (ix p))])"
  shows "\<forall>p\<in>set ps. in_list d (ix p) \<Longrightarrow> distinct (map ix ps) \<Longrightarrow>
    \<exists>out. fold_opt step ps d = Some out \<and> length out = length d \<and> (\<forall>p\<in>set ps. out ! nat (ix p) = g p (d ! nat (ix p))) \<and>
      (\<forall>k<length d. int k \<notin> ix ` set ps \<longrightarrow> out ! k = d ! k)"
  using assms
proof (induction ps arbitrary: d)
  case (Cons p ps)
  let ?d = "d[nat (ix p) := g p (d ! nat (ix p))]"
  have p: "0 \<le> ix p" "ix p < int (length d)" "ix p \<notin> ix ` set ps" using Cons.prems(1,2) by (auto simp: in_list_def)
  have other: "nat (ix q) \<noteq> nat (ix p)" "in_list d (ix q)" if "q \<in> set ps" for q
  proof -
    show "in_list d (ix q)" using Cons.prems(1) that by simp
    moreover have "ix q \<noteq> ix p" using p(3) that by (metis imageI)
    ultimately show "nat (ix q) \<noteq> nat (ix p)" using p(1) by (simp add: in_list_def eq_nat_nat_iff)
  qed
  have 1: "\<forall>q\<in>set ps. in_list ?d (ix q)" using other(2) by (simp add: in_list_def)
  have 2: "distinct (map ix ps)" using Cons.prems(2) by simp
  obtain out where out: "fold_opt step ps ?d = Some out" "length out = length d" "\<forall>q\<in>set ps. out ! nat (ix q) = g q (?d ! nat (ix q))"
    "\<forall>k<length d. int k \<notin> ix ` set ps \<longrightarrow> out ! k = ?d ! k"
    using Cons.IH[OF 1 2] Cons.prems(3) by auto
  have "step p d = Some ?d" using Cons.prems(1,3) by simp
  then have "fold_opt step (p # ps) d = Some out" using out(1) by simp
  moreover have "out ! nat (ix p) = g p (d ! nat (ix p))" using out(4)[rule_format, of "nat (ix p)"] p by simp
  moreover have "out ! nat (ix q) = g q (d ! nat (ix q))" if "q \<in> set ps" for q using out(3) that other(1)[OF that] by simp
  moreover have "out ! k = d ! k" if "k < length d" "int k \<notin> ix ` set (p # ps)" for k
  proof -
    have "nat (ix p) \<noteq> k" using that(2) p(1) by auto
    then show ?thesis using out(4) that by simp
  qed
  ultimately show ?case using out(2) by auto
qed simp

text \<open>The part of the dark frame that belongs to the valid part of the light frame.\<close>

definition dark_part :: "usImage \<Rightarrow> Rect" where
  "dark_part light = (if rect_empty (Subframe light) then (if rect_empty (LimitFrame light) then rect_of_size (Size light) else LimitFrame light)
     else rect_offset (Subframe light) (LimitFrame light))"

text \<open>
  Frames as the camera gives them: with a limit the frame has its size, without one the limit is at
  the origin.
\<close>

definition frame_ok :: "usImage \<Rightarrow> bool" where
  "frame_ok im \<longleftrightarrow> us_ok im \<and> ImageData im \<noteq> [] \<and>
     (if rect_empty (LimitFrame im) then rx (LimitFrame im) = 0 \<and> ry (LimitFrame im) = 0
      else Size im = (rw (LimitFrame im), rh (LimitFrame im)) \<and> 0 \<le> rx (LimitFrame im) \<and> 0 \<le> ry (LimitFrame im))"

definition dark_median :: "usImage \<Rightarrow> usImage \<Rightarrow> nat" where
  "dark_median light dark =
     (if rect_empty (Subframe light) \<and> rect_empty (LimitFrame light) then MedianADU dark
      else let vs = px_values dark (dark_part light) in kth (length vs div 2) vs)"

definition pedestal_of :: "usImage \<Rightarrow> usImage \<Rightarrow> int" where
  "pedestal_of light dark =
     (if dark_median light dark > MedianADU light then int (dark_median light dark) - int (MedianADU light) else Pedestal light)"

lemma overlap_law: "isect_law rect_overlap"
  by (simp add: isect_law_def)

lemma isect_contained:
  assumes "isect_law isect" and "\<not> rect_empty r"
  shows "isect r s = r \<longleftrightarrow> rx s \<le> rx r \<and> ry s \<le> ry r \<and> rx r + rw r \<le> rx s + rw s \<and> ry r + rh r \<le> ry s + rh s"
proof -
  have o: "rect_overlap r s = r \<longleftrightarrow> rx s \<le> rx r \<and> ry s \<le> ry r \<and> rx r + rw r \<le> rx s + rw s \<and> ry r + rh r \<le> ry s + rh s"
    by (cases r) (auto simp: rect_overlap_def Let_def max_def min_def)
  show ?thesis
  proof (cases "rect_empty (rect_overlap r s)")
    case True
    then have "rect_empty (isect r s)" using assms(1) unfolding isect_law_def by presburger
    then have "isect r s \<noteq> r" "rect_overlap r s \<noteq> r" using assms(2) True by metis+
    then show ?thesis using o by simp
  next
    case False
    then have "isect r s = rect_overlap r s" using assms(1) by (simp add: isect_law_def)
    then show ?thesis using o by simp
  qed
qed

lemma dark_part_in:
  assumes "frame_ok light" "isect_law isect" and "IsLightFrameCompatibleWithDarkFrame isect light dark"
  shows "rect_in (dark_part light) (Size dark)" "rw (dark_part light) = rw (active light)" "rh (dark_part light) = rh (active light)"
    "rect_in (active light) (Size light)"
proof -
  let ?l = "LimitFrame light"
  show act: "rect_in (active light) (Size light)" using assms(1) by (simp add: frame_ok_def active_in)
  have lim: "rect_in ?l (Size dark)" if "\<not> rect_empty ?l"
  proof -
    have "isect ?l (rect_of_size (Size dark)) = ?l" using assms(3) that by (simp add: IsLightFrameCompatibleWithDarkFrame_def)
    then show ?thesis using isect_contained[OF assms(2) that] by (auto simp: rect_in_def rect_of_size_def)
  qed
  have "rect_in (dark_part light) (Size dark) \<and> rw (dark_part light) = rw (active light) \<and> rh (dark_part light) = rh (active light)"
  proof (cases "rect_empty ?l")
    case True
    then have "Size dark = Size light" "rx ?l = 0" "ry ?l = 0"
      using assms(1,3) by (simp_all add: IsLightFrameCompatibleWithDarkFrame_def frame_ok_def)
    then show ?thesis using act True by (auto simp: dark_part_def active_def rect_offset_def rect_of_size_def rect_in_def)
  next
    case False
    then have "Size light = (rw ?l, rh ?l)" "0 \<le> rx ?l" "0 \<le> ry ?l" using assms(1) by (simp_all add: frame_ok_def)
    then show ?thesis using act lim[OF False] False by (auto simp: dark_part_def active_def rect_offset_def rect_of_size_def rect_in_def)
  qed
  then show "rect_in (dark_part light) (Size dark)" "rw (dark_part light) = rw (active light)" "rh (dark_part light) = rh (active light)" by simp_all
qed

lemma sub_rois_value:
  assumes "rect_in (dark_part light) (Size dark)" and "int (length (ImageData dark)) = fst (Size dark) * snd (Size dark)"
    and "0 < rw (dark_part light)" "0 < rh (dark_part light)"
  shows "sub_rois light dark = Some (active light, dark_part light, dark_median light dark)"
proof -
  let ?t = "map (pixel dark (dark_part light)) (region 0 (rw (dark_part light) - 1) 0 (rh (dark_part light) - 1))"
  have "0 < int (length ?t)" using region_length[of "rw (dark_part light)" "rh (dark_part light)"] assms(3,4) by simp
  then have ne: "?t \<noteq> []" by auto
  have "median_value_in_roi dark (dark_part light) = Some (kth (length ?t div 2) (map unat ?t))"
    unfolding median_value_in_roi_def copy_roi_total[OF assms(1,2)] using ne by simp
  then have "median_value_in_roi dark (dark_part light) = Some (kth (length (px_values dark (dark_part light)) div 2) (px_values dark (dark_part light)))"
    by (simp add: px_values_def comp_def)
  then show ?thesis
    by (cases "rect_empty (Subframe light)"; cases "rect_empty (LimitFrame light)")
      (simp_all add: sub_rois_def dark_part_def active_def dark_median_def Let_def)
qed

lemma Subtract_exact:
  assumes "frame_ok light" "us_ok dark" "isect_law isect" and compat: "IsLightFrameCompatibleWithDarkFrame isect light dark"
    and size: "0 < rw (active light)" "0 < rh (active light)"
  shows "\<exists>d. Subtract isect light dark = Some (False, light\<lparr>Pedestal := pedestal_of light dark, ImageData := d\<rparr>) \<and> length d = length (ImageData light) \<and>
    (\<forall>p. in_rect (active light) p \<longrightarrow> int (unat (d ! nat (IX (fst (Size light)) (active light) p))) =
       max 0 (min 65535 (uint (pixel light (active light) p) + pedestal_of light dark - uint (pixel dark (dark_part light) p)))) \<and>
    (\<forall>k<length d. (\<forall>p. in_rect (active light) p \<longrightarrow> int k \<noteq> IX (fst (Size light)) (active light) p) \<longrightarrow> d ! k = ImageData light ! k)"
proof -
  let ?a = "active light" and ?b = "dark_part light" and ?R = "region 0 (rw (active light) - 1) 0 (rh (active light) - 1)"
  let ?il = "IX (fst (Size light)) ?a" and ?ik = "IX (fst (Size dark)) ?b" and ?ped = "pedestal_of light dark"
  let ?g = "\<lambda>p v. clamp_px (uint v + ?ped - uint (pixel dark ?b p))"
  note dp = dark_part_in[OF assms(1,3) compat]
  have len: "int (length (ImageData light)) = fst (Size light) * snd (Size light)" "int (length (ImageData dark)) = fst (Size dark) * snd (Size dark)"
    using assms(1,2) by (simp_all add: frame_ok_def us_ok_def)
  have inb: "in_rect ?b = in_rect ?a" by (simp add: in_rect_def fun_eq_iff dp(2,3))
  have ik: "in_list (ImageData dark) (?ik p)" if "in_rect ?a p" for p using IX_in[OF dp(1) _ len(2)] that unfolding inb .
  have step: "sub_px (ImageData dark) ?ped ?il ?ik p s = Some (s[nat (?il p) := ?g p (s ! nat (?il p))])"
    if "p \<in> set ?R" "in_list s (?il p)" for p s
    using that ik[of p] by (simp add: in_region_rect sub_px_def rd_def wr_def in_list_def pixel_def)
  have all: "\<forall>p\<in>set ?R. in_list (ImageData light) (?il p)" using IX_in[OF dp(4) _ len(1)] by (auto simp: in_region_rect)
  have dist: "distinct (map ?il ?R)" using distinct_region IX_inj[OF dp(4)] by (auto simp: distinct_map in_region_rect intro!: inj_onI)
  obtain d where d: "fold_opt (sub_px (ImageData dark) ?ped ?il ?ik) ?R (ImageData light) = Some d" "length d = length (ImageData light)"
    "\<forall>p\<in>set ?R. d ! nat (?il p) = ?g p (ImageData light ! nat (?il p))"
    "\<forall>k<length (ImageData light). int k \<notin> ?il ` set ?R \<longrightarrow> d ! k = ImageData light ! k"
    using fold_px_correct[where ix = ?il and g = ?g, OF step all dist] by blast
  have ld: "ImageData light \<noteq> []" "ImageData dark \<noteq> []"
  proof -
    show "ImageData light \<noteq> []" using assms(1) by (simp add: frame_ok_def)
    have "in_rect ?a (0, 0)" using size by (simp add: in_rect_def)
    then show "ImageData dark \<noteq> []" using ik[of "(0, 0)"] by (auto simp: in_list_def)
  qed
  have rois: "sub_rois light dark = Some (?a, ?b, dark_median light dark)" using sub_rois_value[OF dp(1) len(2)] size dp(2,3) by simp
  have "Subtract isect light dark = Some (False, light\<lparr>Pedestal := ?ped, ImageData := d\<rparr>)"
    using ld compat rois d(1) by (simp add: Subtract_def pedestal_of_def)
  moreover have "int (unat (d ! nat (?il p))) = max 0 (min 65535 (uint (pixel light ?a p) + ?ped - uint (pixel dark ?b p)))" if "in_rect ?a p" for p
  proof -
    have "d ! nat (?il p) = clamp_px (uint (pixel light ?a p) + ?ped - uint (pixel dark ?b p))"
      using d(3) that by (simp add: in_region_rect pixel_def)
    moreover have "int (unat (clamp_px v)) = max 0 (min 65535 v)" for v
      by (auto simp: clamp_px_def unsigned_of_int take_bit_int_eq_self)
    ultimately show ?thesis by simp
  qed
  moreover have "d ! k = ImageData light ! k" if "k < length d" "\<forall>p. in_rect ?a p \<longrightarrow> int k \<noteq> ?il p" for k
  proof -
    have "int k \<notin> ?il ` set ?R" using that(2) in_region_rect[of _ ?a] by blast
    then show ?thesis using d(2,4) that(1) by simp
  qed
  ultimately show ?thesis using d(2) by blast
qed

text \<open>On every frame whose valid part is at least two by two the statistics are exact: the
  extremes are those of the valid pixels, the median is the value that sorting them puts at half of
  their number, and the filtered extremes are those of the local medians; nothing else changes.\<close>

theorem frame_statistics_exact:
  assumes "us_ok im" and "2 \<le> rw (active im)" "2 \<le> rh (active im)"
  shows "CalcStats hjunk junk im = Some (im\<lparr>MinADU := Min (set (px_values im (active im))), MaxADU := Max (set (px_values im (active im))),
    MedianADU := kth (length (px_values im (active im)) div 2) (px_values im (active im)),
    FiltMin := Min (set (local_medians im (active im))), FiltMax := Max (set (local_medians im (active im)))\<rparr>)"
  by (rule CalcStats_exact[OF assms])

theorem frame_statistics_exact_witness:
  "map_option MedianADU (CalcStats (\<lambda>k. 7) [] example_frame_image) = Some 5"
proof -
  have a: "active example_frame_image = \<lparr>rx = 0, ry = 0, rw = 3, rh = 3\<rparr>"
    by (simp add: active_def example_frame_image_def rect_empty_def rect_of_size_def)
  have "us_ok example_frame_image" by (simp add: us_ok_def example_frame_image_def rect_empty_def)
  then have "CalcStats (\<lambda>k. 7) [] example_frame_image \<noteq> None \<and>
      map_option MedianADU (CalcStats (\<lambda>k. 7) [] example_frame_image) = Some (kth (length (px_values example_frame_image (active example_frame_image)) div 2) (px_values example_frame_image (active example_frame_image)))"
    by (subst frame_statistics_exact, simp_all add: a)+
  moreover have "px_values example_frame_image (active example_frame_image) = [9, 1, 8, 2, 7, 3, 6, 4, 5]"
    unfolding a by (simp add: px_values_def pixel_def IX_def region_def example_frame_image_def upto_rec1)
  ultimately show ?thesis by (simp add: kth_def)
qed

text \<open>C19: dark_subtraction_exact. For a light frame compatible with the dark frame the subtraction reads and writes only
  inside of the frames: each valid pixel becomes its value plus the pedestal minus the pixel of the
  dark frame at the same position of the sensor, clamped to 0 and 65535; the other pixels stay.  The
  pedestal is what the median of the dark part exceeds that of the light frame by, when it does; when it does not, it
  is the pedestal that the frame had before, which the code does not set to zero.\<close>

theorem dark_subtraction_exact:
  assumes "frame_ok light" "us_ok dark" "isect_law isect" and "IsLightFrameCompatibleWithDarkFrame isect light dark"
    and "0 < rw (active light)" "0 < rh (active light)"
  shows "\<exists>d. Subtract isect light dark = Some (False, light\<lparr>Pedestal := pedestal_of light dark, ImageData := d\<rparr>) \<and> length d = length (ImageData light) \<and>
    (\<forall>p. in_rect (active light) p \<longrightarrow> int (unat (d ! nat (IX (fst (Size light)) (active light) p))) =
       max 0 (min 65535 (uint (pixel light (active light) p) + pedestal_of light dark - uint (pixel dark (dark_part light) p)))) \<and>
    (\<forall>k<length d. (\<forall>p. in_rect (active light) p \<longrightarrow> int k \<noteq> IX (fst (Size light)) (active light) p) \<longrightarrow> d ! k = ImageData light ! k)"
  by (rule Subtract_exact[OF assms])

definition example_light :: usImage where
  "example_light = example_frame_image\<lparr>LimitFrame := \<lparr>rx = 1, ry = 0, rw = 3, rh = 3\<rparr>, Subframe := \<lparr>rx = 1, ry = 1, rw = 1, rh = 2\<rparr>\<rparr>"

definition example_dark :: usImage where
  "example_dark = example_frame_image\<lparr>Size := (4, 3), ImageData := [9, 9, 9, 9, 9, 9, 5, 9, 9, 9, 3, 9]\<rparr>"

theorem dark_subtraction_exact_witness:
  "\<exists>d. Subtract rect_overlap example_light example_dark = Some (False, example_light\<lparr>Pedestal := 5, ImageData := d\<rparr>) \<and> uint (d ! 4) = 7"
proof -
  have ok: "frame_ok example_light" "us_ok example_dark"
    by (simp_all add: frame_ok_def us_ok_def example_light_def example_dark_def example_frame_image_def rect_empty_def rect_in_def)
  have c: "IsLightFrameCompatibleWithDarkFrame rect_overlap example_light example_dark"
    by (simp add: IsLightFrameCompatibleWithDarkFrame_def rect_overlap_def rect_of_size_def rect_empty_def example_light_def example_dark_def example_frame_image_def)
  have a: "active example_light = \<lparr>rx = 1, ry = 1, rw = 1, rh = 2\<rparr>" "dark_part example_light = \<lparr>rx = 2, ry = 1, rw = 1, rh = 2\<rparr>"
    by (simp_all add: active_def dark_part_def rect_offset_def rect_empty_def example_light_def example_frame_image_def)
  have "px_values example_dark (dark_part example_light) = [5, 3]"
    unfolding a by (simp add: px_values_def pixel_def IX_def region_def example_dark_def example_frame_image_def upto_rec1)
  then have "dark_median example_light example_dark = 5"
    by (simp add: dark_median_def Let_def kth_def rect_empty_def example_light_def example_frame_image_def)
  then have ped: "pedestal_of example_light example_dark = 5" by (simp add: pedestal_of_def example_light_def example_frame_image_def)
  have px: "uint (pixel example_light (active example_light) (0, 0)) = 7" "uint (pixel example_dark (dark_part example_light) (0, 0)) = 5"
    unfolding a by (simp_all add: pixel_def IX_def example_light_def example_dark_def example_frame_image_def)
  have r: "0 < rw (active example_light)" "0 < rh (active example_light)" "in_rect (active example_light) (0, 0)"
    "nat (IX (fst (Size example_light)) (active example_light) (0, 0)) = 4"
    unfolding a by (simp_all add: in_rect_def IX_def example_light_def example_frame_image_def)
  obtain d where d: "Subtract rect_overlap example_light example_dark = Some (False, example_light\<lparr>Pedestal := 5, ImageData := d\<rparr>)"
    "int (unat (d ! 4)) = max 0 (min 65535 (7 + 5 - 5))"
    using dark_subtraction_exact[OF ok overlap_law c r(1,2)] r(3) unfolding ped by (metis px r(4))
  then show ?thesis by (intro exI[of _ d]) simp
qed

end
