(* ===== verification/Median_Window.thy ===== *)
theory Median_Window
  imports Image_Stats
begin

text \<open>
  The sliding median filter that smooths a dark frame, \<open>MedianFilter\<close> of \<open>src/image_math.cpp\<close>: in each
  row the window moves to the right, and the two-level histogram loses a column on the left and gains
  one on the right.  Its counters have 16 bits.  Each pixel becomes the median of the window around it
  provided that the frame is wider than half of the window: the first window of a row is not cut at the
  right edge.
\<close>

section \<open>The code\<close>

type_synonym hists = "(nat \<Rightarrow> int) \<times> (nat \<Rightarrow> int)"

definition hist_add :: "int \<Rightarrow> 16 word \<Rightarrow> hists \<Rightarrow> hists" where
  "hist_add k v h =
     (let i = unat v div 256; j = unat v
      in ((fst h)(i := (fst h i + k) mod 65536), (snd h)(j := (snd h j + k) mod 65536)))"

definition hist_px :: "16 word list \<Rightarrow> int \<Rightarrow> int \<Rightarrow> int \<times> int \<Rightarrow> hists \<Rightarrow> hists option" where
  "hist_px src W k p h = map_option (\<lambda>v. hist_add k v h) (rd src (snd p * W + fst p))"

definition hist_column :: "16 word list \<Rightarrow> int \<Rightarrow> int \<Rightarrow> int \<Rightarrow> int \<Rightarrow> int \<Rightarrow> hists \<Rightarrow> hists option" where
  "hist_column src W y0 y1 k x h = fold_opt (hist_px src W k) (map (\<lambda>j. (x, j)) [y0..y1]) h"

definition window_median :: "hists \<Rightarrow> int \<Rightarrow> 16 word" where
  "window_median h n = of_nat (histo_median (fst h) (snd h) n)"

definition mf_step :: "16 word list \<Rightarrow> int \<Rightarrow> int \<Rightarrow> int \<Rightarrow> int \<Rightarrow> int \<Rightarrow> hists \<times> int \<times> 16 word list \<Rightarrow> (hists \<times> int \<times> 16 word list) option" where
  "mf_step src W halfWidth y0 y1 i s =
     (let (h, n, d) = s; left = max 0 (i - halfWidth); right = min (i + halfWidth) (W - 1)
      in do { (h1, n1) \<leftarrow> (if left > 0 then map_option (\<lambda>h1. (h1, n - (y1 - y0 + 1))) (hist_column src W y0 y1 (- 1) (left - 1) h)
                           else Some (h, n));
              (h2, n2) \<leftarrow> (if i + halfWidth \<le> W - 1 then map_option (\<lambda>h2. (h2, n1 + (y1 - y0 + 1))) (hist_column src W y0 y1 1 right h1)
                           else Some (h1, n1));
              Some (h2, n2, d @ [window_median h2 n2]) })"

definition mf_row :: "16 word list \<Rightarrow> int \<times> int \<Rightarrow> int \<Rightarrow> int \<Rightarrow> 16 word list option" where
  "mf_row src sz halfWidth y =
     (let W = fst sz; y0 = max 0 (y - halfWidth); y1 = min (y + halfWidth) (snd sz - 1)
      in do { h \<leftarrow> fold_opt (hist_px src W 1) (region 0 halfWidth y0 y1) (\<lambda>_. 0, \<lambda>_. 0);
              let n = (halfWidth + 1) * (y1 - y0 + 1)
              in map_option (\<lambda>s. snd (snd s)) (fold_opt (mf_step src W halfWidth y0 y1) [1..W - 1] (h, n, [window_median h n])) })"

text \<open>The values are written one after the other from the beginning of the result.\<close>

definition MedianFilter :: "16 word list \<Rightarrow> usImage \<Rightarrow> usImage \<Rightarrow> int \<Rightarrow> usImage option" where
  "MedianFilter junk dst src halfWidth =
     (let dst1 = us_Init junk (Size src) dst
      in do { rows \<leftarrow> opt_map (mf_row (ImageData src) (Size src) halfWidth) [0..snd (Size src) - 1];
              let d = concat rows
              in if length d \<le> length (ImageData dst1) then Some (dst1\<lparr>ImageData := d @ drop (length d) (ImageData dst1)\<rparr>) else None })"

text \<open>A frame narrower than half of the window is read outside of its data.\<close>

lemma fold_opt_fails: "p \<in> set ps \<Longrightarrow> (\<And>s. f p s = None) \<Longrightarrow> fold_opt f ps s = None"
proof (induction ps arbitrary: s)
  case (Cons q ps)
  then show ?case by (cases "f q s") auto
qed simp

lemma narrow_frame_read_outside:
  "MedianFilter [] example_frame_image (example_frame_image\<lparr>Size := (2, 2), ImageData := [1, 2, 3, 4]\<rparr>) 15 = None"
proof -
  have "fold_opt (hist_px [1, 2, 3, 4] 2 1) (region 0 15 0 1) h = None" for h
    by (rule fold_opt_fails[of "(4, 0)"]) (simp_all add: in_region hist_px_def rd_def)
  then have "mf_row [1, 2, 3, 4] (2, 2) 15 0 = None" by (simp add: mf_row_def)
  then show ?thesis by (simp add: MedianFilter_def upto_rec1)
qed

section \<open>The histogram of a window\<close>

definition hist_of :: "nat multiset \<Rightarrow> hists \<Rightarrow> bool" where
  "hist_of vs h \<longleftrightarrow> (\<forall>j. fst h j = int (count (image_mset (\<lambda>v. v div 256) vs) j) mod 65536) \<and> (\<forall>k. snd h k = int (count vs k) mod 65536)"

lemma hist_of_empty: "hist_of {#} (\<lambda>_. 0, \<lambda>_. 0)"
  by (simp add: hist_of_def)

lemma hist_of_add: "hist_of vs h \<Longrightarrow> hist_of (add_mset (unat v) vs) (hist_add 1 v h)"
  by (auto simp: hist_of_def hist_add_def Let_def mod_simps add.commute)

lemma hist_of_remove: "hist_of (add_mset (unat v) vs) h \<Longrightarrow> hist_of vs (hist_add (- 1) v h)"
  by (auto simp: hist_of_def hist_add_def Let_def mod_simps)

definition px_at :: "16 word list \<Rightarrow> int \<Rightarrow> int \<times> int \<Rightarrow> nat" where
  "px_at src W p = unat (src ! nat (snd p * W + fst p))"

lemma hist_adds:
  "\<forall>p\<in>set ps. in_list src (snd p * W + fst p) \<Longrightarrow> hist_of vs h \<Longrightarrow>
   \<exists>h'. fold_opt (hist_px src W 1) ps h = Some h' \<and> hist_of (vs + mset (map (px_at src W) ps)) h'"
proof (induction ps arbitrary: vs h)
  case (Cons p ps)
  let ?v = "src ! nat (snd p * W + fst p)"
  have "hist_px src W 1 p h = Some (hist_add 1 ?v h)" using Cons.prems(1) by (simp add: hist_px_def rd_def in_list_def)
  then show ?case using Cons.IH[OF _ hist_of_add[OF Cons.prems(2), of ?v]] Cons.prems(1) by (simp add: px_at_def)
qed simp

lemma hist_removes:
  "\<forall>p\<in>set ps. in_list src (snd p * W + fst p) \<Longrightarrow> hist_of (vs + mset (map (px_at src W) ps)) h \<Longrightarrow>
   \<exists>h'. fold_opt (hist_px src W (- 1)) ps h = Some h' \<and> hist_of vs h'"
proof (induction ps arbitrary: h)
  case (Cons p ps)
  let ?v = "src ! nat (snd p * W + fst p)"
  have e: "unat ?v = px_at src W p" by (simp add: px_at_def)
  have "hist_px src W (- 1) p h = Some (hist_add (- 1) ?v h)" using Cons.prems(1) by (simp add: hist_px_def rd_def in_list_def)
  moreover have "hist_of (vs + mset (map (px_at src W) ps)) (hist_add (- 1) ?v h)"
    using Cons.prems(2) e by (intro hist_of_remove) simp
  ultimately show ?case using Cons.IH Cons.prems(1) by simp
qed simp

text \<open>The median of a window that is counted.\<close>

lemma window_median_kth:
  assumes "hist_of (mset vs) h" and "vs \<noteq> []" "length vs < 65536" and "\<forall>v\<in>set vs. v < 65536"
  shows "window_median h (int (length vs)) = of_nat (kth (length vs div 2) vs)"
proof -
  have c: "int (count_list xs k) mod 65536 = int (count_list xs k)" if "length xs = length vs" for xs :: "nat list" and k
    by (rule mod_pos_pos_trivial) (use count_le_length[of xs k] that assms(3) in simp_all)
  have m: "image_mset (\<lambda>v. v div 256) (mset vs) = mset (map (\<lambda>v. v div 256) vs)" by simp
  have "two_level vs (fst h) (snd h)"
    using assms(1,4) unfolding hist_of_def m count_mset two_level_def by (simp add: c)
  then show ?thesis using histo_median_kth[of vs "fst h" "snd h"] assms(2) by (simp add: window_median_def)
qed

section \<open>The window moves\<close>

definition win_x :: "int \<Rightarrow> int \<Rightarrow> int \<Rightarrow> int \<times> int" where
  "win_x hw n i = (max 0 (i - hw), min (i + hw) (n - 1))"

definition win :: "16 word list \<Rightarrow> int \<Rightarrow> int \<times> int \<Rightarrow> int \<times> int \<Rightarrow> nat list" where
  "win src W xs ys = map (px_at src W) (region (fst xs) (snd xs) (fst ys) (snd ys))"

lemma region_len: "x0 \<le> x1 + 1 \<Longrightarrow> y0 \<le> y1 + 1 \<Longrightarrow> int (length (region x0 x1 y0 y1)) = (x1 - x0 + 1) * (y1 - y0 + 1)"
  by (simp add: region_def length_concat comp_def sum_list_triv)

lemma distinct_column: "distinct (map (\<lambda>j. (x, j)) [y0..y1])"
  by (simp add: distinct_map inj_on_def)

lemma win_add_right:
  assumes "x0 \<le> x1"
  shows "mset (win src W (x0, x1) (y0, y1)) = mset (win src W (x0, x1 - 1) (y0, y1)) + mset (map (px_at src W) (map (\<lambda>j. (x1, j)) [y0..y1]))"
proof -
  have "mset (region x0 x1 y0 y1) = mset (region x0 (x1 - 1) y0 y1 @ map (\<lambda>j. (x1, j)) [y0..y1])"
    using assms by (intro mset_same_set) (auto simp: distinct_region distinct_column in_region simp del: map_append)
  then show ?thesis by (simp add: win_def image_mset.compositionality)
qed

lemma win_drop_left:
  assumes "x0 \<le> x1"
  shows "mset (win src W (x0, x1) (y0, y1)) = mset (win src W (x0 + 1, x1) (y0, y1)) + mset (map (px_at src W) (map (\<lambda>j. (x0, j)) [y0..y1]))"
proof -
  have "mset (region x0 x1 y0 y1) = mset (region (x0 + 1) x1 y0 y1 @ map (\<lambda>j. (x0, j)) [y0..y1])"
    using assms by (intro mset_same_set) (auto simp: distinct_region distinct_column in_region simp del: map_append)
  then show ?thesis by (simp add: win_def image_mset.compositionality)
qed

definition win_ref :: "16 word list \<Rightarrow> int \<Rightarrow> int \<times> int \<Rightarrow> int \<times> int \<Rightarrow> 16 word" where
  "win_ref src W xs ys = (let w = win src W xs ys in of_nat (kth (length w div 2) w))"

text \<open>The rows of the window lie in the frame; the window is small enough for the counters.\<close>

definition mf_ok :: "16 word list \<Rightarrow> int \<times> int \<Rightarrow> int \<Rightarrow> int \<times> int \<Rightarrow> bool" where
  "mf_ok src sz hw ys \<longleftrightarrow> int (length src) = fst sz * snd sz \<and> 0 \<le> hw \<and> hw < fst sz \<and> hw \<le> 127 \<and>
     0 \<le> fst ys \<and> fst ys \<le> snd ys \<and> snd ys < snd sz \<and> snd ys - fst ys \<le> 2 * hw"

definition mf_inv :: "16 word list \<Rightarrow> int \<times> int \<Rightarrow> int \<Rightarrow> int \<times> int \<Rightarrow> int \<Rightarrow> hists \<times> int \<times> 16 word list \<Rightarrow> bool" where
  "mf_inv src sz hw ys i s \<longleftrightarrow> hist_of (mset (win src (fst sz) (win_x hw (fst sz) i) ys)) (fst s) \<and>
     fst (snd s) = int (length (win src (fst sz) (win_x hw (fst sz) i) ys)) \<and>
     snd (snd s) = map (\<lambda>k. win_ref src (fst sz) (win_x hw (fst sz) k) ys) [0..i]"

lemma px_in_frame:
  assumes "int (length src) = W * H" and "0 \<le> x" "x < W" "0 \<le> y" "y < H"
  shows "in_list src (y * W + x)"
proof -
  have "in_list src (IX (fst (W, H)) (rect_of_size (W, H)) (x, y))"
    using assms by (intro IX_in) (simp_all add: rect_in_def rect_of_size_def in_rect_def)
  then show ?thesis by (simp add: IX_def rect_of_size_def)
qed

lemma win_median:
  assumes "mf_ok src sz hw ys" and "0 \<le> i" "i < fst sz" and "hist_of (mset (win src (fst sz) (win_x hw (fst sz) i) ys)) h"
  shows "window_median h (int (length (win src (fst sz) (win_x hw (fst sz) i) ys))) = win_ref src (fst sz) (win_x hw (fst sz) i) ys"
proof -
  let ?w = "win src (fst sz) (win_x hw (fst sz) i) ys" and ?c = "snd (win_x hw (fst sz) i) - fst (win_x hw (fst sz) i) + 1" and ?r = "snd ys - fst ys + 1"
  have b: "1 \<le> ?c" "?c \<le> 255" "1 \<le> ?r" "?r \<le> 255" using assms(1-3) by (auto simp: mf_ok_def win_x_def)
  have "int (length ?w) = ?c * ?r" using b region_len[of "fst (win_x hw (fst sz) i)" "snd (win_x hw (fst sz) i)" "fst ys" "snd ys"] by (simp add: win_def)
  moreover have "1 * 1 \<le> ?c * ?r" "?c * ?r \<le> 255 * 255" by (intro mult_mono; use b in linarith)+
  ultimately have l: "1 \<le> int (length ?w)" "int (length ?w) \<le> 65025" by simp_all
  have "v < 65536" if "v \<in> set ?w" for v
  proof -
    obtain x :: "16 word" where "v = unat x" using \<open>v \<in> set ?w\<close> by (auto simp: win_def px_at_def)
    moreover have "uint x < 65536" using uint_lt2p[of x] by simp
    ultimately show ?thesis unfolding unat_eq_nat_uint by linarith
  qed
  moreover have "?w \<noteq> []" using l(1) by auto
  ultimately show ?thesis using window_median_kth[OF assms(4)] l(2) by (simp add: win_ref_def Let_def)
qed

lemma mf_step_inv:
  assumes ok: "mf_ok src sz hw ys" and i: "1 \<le> i" "i < fst sz" and inv: "mf_inv src sz hw ys (i - 1) s"
  shows "\<exists>s'. mf_step src (fst sz) hw (fst ys) (snd ys) i s = Some s' \<and> mf_inv src sz hw ys i s'"
proof -
  obtain h n d where s: "s = (h, n, d)" by (cases s) auto
  obtain y0 y1 where ys: "ys = (y0, y1)" by (cases ys)
  let ?W = "fst sz" let ?L = "\<lambda>k. max 0 (k - hw)" and ?R = "\<lambda>k. min (k + hw) (?W - 1)" and ?w = "\<lambda>l r. win src ?W (l, r) (y0, y1)"
  have o: "int (length src) = ?W * snd sz" "0 \<le> hw" "hw < ?W" "0 \<le> y0" "y0 \<le> y1" "y1 < snd sz" using ok by (simp_all add: mf_ok_def ys)
  have h: "hist_of (mset (?w (?L (i - 1)) (?R (i - 1)))) h" and n: "n = int (length (?w (?L (i - 1)) (?R (i - 1))))"
    and d: "d = map (\<lambda>k. win_ref src ?W (win_x hw ?W k) ys) [0..i - 1]"
    using inv by (simp_all add: mf_inv_def s ys win_x_def)
  have col: "\<forall>p\<in>set (map (\<lambda>j. (x, j)) [y0..y1]). in_list src (snd p * ?W + fst p)" if "0 \<le> x" "x < ?W" for x
    using px_in_frame[OF o(1)] o(4-6) that by auto
  obtain h1 n1 where 1: "(if ?L i > 0 then map_option (\<lambda>h1. (h1, n - (y1 - y0 + 1))) (hist_column src ?W y0 y1 (- 1) (?L i - 1) h) else Some (h, n)) = Some (h1, n1)"
    "hist_of (mset (?w (?L i) (?R (i - 1)))) h1" "n1 = int (length (?w (?L i) (?R (i - 1))))"
  proof (cases "?L i > 0")
    case True
    then have hi: "hw < i" by (simp add: less_max_iff_disj)
    then have L: "?L (i - 1) = ?L i - 1" "0 \<le> ?L i - 1" "?L i - 1 \<le> ?R (i - 1)" "?L i - 1 < ?W" using i o(2) by (simp_all add: max_def)
    obtain h' where h': "fold_opt (hist_px src ?W (- 1)) (map (\<lambda>j. (?L i - 1, j)) [y0..y1]) h = Some h'" "hist_of (mset (?w (?L i) (?R (i - 1)))) h'"
      using hist_removes[OF col[OF L(2,4)], of "mset (?w (?L i) (?R (i - 1)))" h] h win_drop_left[OF L(3), of src ?W y0 y1] unfolding L(1) by auto
    have "n - (y1 - y0 + 1) = int (length (?w (?L i) (?R (i - 1))))"
      unfolding n L(1) using arg_cong[OF win_drop_left[OF L(3), of src ?W y0 y1], of size] o(5) by simp
    then show ?thesis using hi h'(1) by (intro that[OF _ h'(2)]) (simp_all add: hist_column_def)
  next
    case False
    then have "i \<le> hw" by (simp add: less_max_iff_disj)
    then have "?L (i - 1) = ?L i" by simp
    then show ?thesis using False h n that[of h n] by simp
  qed
  obtain h2 n2 where 2: "(if i + hw \<le> ?W - 1 then map_option (\<lambda>h2. (h2, n1 + (y1 - y0 + 1))) (hist_column src ?W y0 y1 1 (?R i) h1) else Some (h1, n1)) = Some (h2, n2)"
    "hist_of (mset (?w (?L i) (?R i))) h2" "n2 = int (length (?w (?L i) (?R i)))"
  proof (cases "i + hw \<le> ?W - 1")
    case True
    then have R: "?R (i - 1) = ?R i - 1" "0 \<le> ?R i" "?R i < ?W" "?L i \<le> ?R i" using i o(2) by (simp_all add: min_def max_def)
    obtain h' where h': "fold_opt (hist_px src ?W 1) (map (\<lambda>j. (?R i, j)) [y0..y1]) h1 = Some h'" "hist_of (mset (?w (?L i) (?R i))) h'"
      using hist_adds[OF col[OF R(2,3)] 1(2)] win_add_right[OF R(4), of src ?W y0 y1] unfolding R(1) by auto
    have "n1 + (y1 - y0 + 1) = int (length (?w (?L i) (?R i)))"
      unfolding 1(3) R(1) using arg_cong[OF win_add_right[OF R(4), of src ?W y0 y1], of size] o(5) by simp
    then show ?thesis using True h'(1) by (intro that[OF _ h'(2)]) (simp_all add: hist_column_def)
  next
    case False
    then have "?R (i - 1) = ?R i" using i by (simp add: min_def)
    then show ?thesis using False 1(2,3) that[of h1 n1] by simp
  qed
  have "window_median h2 n2 = win_ref src ?W (win_x hw ?W i) ys"
    using win_median[OF ok, of i h2] i 2(2,3) by (simp add: ys win_x_def)
  moreover have "[0..i] = [0..i - 1] @ [i]" using i upto_rec2[of 0 i] by simp
  ultimately have "mf_inv src sz hw ys i (h2, n2, d @ [window_median h2 n2])" using 2(2,3) d by (simp add: mf_inv_def win_x_def ys)
  moreover have "mf_step src ?W hw (fst ys) (snd ys) i s = Some (h2, n2, d @ [window_median h2 n2])"
    unfolding s ys mf_step_def Let_def prod.case fst_conv snd_conv 1(1) bind.bind_lunit 2(1) by simp
  ultimately show ?thesis by blast
qed

lemma mf_steps:
  assumes "mf_ok src sz hw ys" and "mf_inv src sz hw ys 0 s" and "int n < fst sz"
  shows "\<exists>s'. fold_opt (mf_step src (fst sz) hw (fst ys) (snd ys)) [1..int n] s = Some s' \<and> mf_inv src sz hw ys (int n) s'"
  using assms(3)
proof (induction n)
  case 0
  then show ?case using assms(2) by simp
next
  case (Suc n)
  then obtain s1 where s1: "fold_opt (mf_step src (fst sz) hw (fst ys) (snd ys)) [1..int n] s = Some s1" "mf_inv src sz hw ys (int n) s1" by auto
  obtain s2 where s2: "mf_step src (fst sz) hw (fst ys) (snd ys) (int (Suc n)) s1 = Some s2" "mf_inv src sz hw ys (int (Suc n)) s2"
    using mf_step_inv[OF assms(1), of "int (Suc n)" s1] Suc.prems s1(2) by auto
  have app: "fold_opt f (xs @ [x]) t = fold_opt f xs t \<bind> f x" for f :: "int \<Rightarrow> 'b \<Rightarrow> 'b option" and xs x t
    by (induction xs arbitrary: t) (auto split: bind_splits)
  have "[1..int (Suc n)] = [1..int n] @ [int (Suc n)]" using upto_rec2[of 1 "int (Suc n)"] by simp
  then show ?case using s1 s2 by (simp add: app)
qed

definition mf_rows :: "int \<Rightarrow> int \<Rightarrow> int \<Rightarrow> int \<times> int" where
  "mf_rows hw n y = (max 0 (y - hw), min (y + hw) (n - 1))"

lemma mf_row_correct:
  assumes "int (length src) = fst sz * snd sz" and "0 \<le> hw" "hw < fst sz" "hw \<le> 127" and "0 \<le> y" "y < snd sz"
  shows "mf_row src sz hw y = Some (map (\<lambda>x. win_ref src (fst sz) (win_x hw (fst sz) x) (mf_rows hw (snd sz) y)) [0..fst sz - 1])"
proof -
  let ?W = "fst sz" and ?y0 = "max 0 (y - hw)" and ?y1 = "min (y + hw) (snd sz - 1)"
  let ?n = "(hw + 1) * (?y1 - ?y0 + 1)"
  have ok: "mf_ok src sz hw (?y0, ?y1)" using assms by (auto simp: mf_ok_def)
  have w0: "win_x hw ?W 0 = (0, hw)" using assms(2,3) by (simp add: win_x_def)
  have "\<forall>p\<in>set (region 0 hw ?y0 ?y1). in_list src (snd p * ?W + fst p)"
    using px_in_frame[OF assms(1)] assms(2,3,5,6) by (auto simp: in_region)
  from hist_adds[OF this hist_of_empty] obtain h where h: "fold_opt (hist_px src ?W 1) (region 0 hw ?y0 ?y1) (\<lambda>_. 0, \<lambda>_. 0) = Some h"
    "hist_of (mset (win src ?W (win_x hw ?W 0) (?y0, ?y1))) h" by (auto simp: w0 win_def)
  have n: "?n = int (length (win src ?W (win_x hw ?W 0) (?y0, ?y1)))"
    using region_len[of 0 hw ?y0 ?y1] assms(2,5,6) by (simp add: w0 win_def)
  have "mf_inv src sz hw (?y0, ?y1) 0 (h, ?n, [window_median h ?n])"
    using h(2) win_median[OF ok _ _ h(2)] assms(2,3) by (simp add: mf_inv_def n)
  from mf_steps[OF ok this, of "nat (?W - 1)"] assms(2,3) obtain s where
    s: "fold_opt (mf_step src ?W hw ?y0 ?y1) [1..?W - 1] (h, ?n, [window_median h ?n]) = Some s" "mf_inv src sz hw (?y0, ?y1) (?W - 1) s" by auto
  have "snd (snd s) = map (\<lambda>x. win_ref src ?W (win_x hw ?W x) (mf_rows hw (snd sz) y)) [0..?W - 1]"
    using s(2) by (simp add: mf_inv_def mf_rows_def)
  then show ?thesis using h(1) s(1) by (simp add: mf_row_def Let_def)
qed

text \<open>The median of the window around a pixel.\<close>

definition window_of :: "usImage \<Rightarrow> int \<Rightarrow> int \<times> int \<Rightarrow> 16 word" where
  "window_of im hw p = win_ref (ImageData im) (fst (Size im)) (win_x hw (fst (Size im)) (fst p)) (mf_rows hw (snd (Size im)) (snd p))"

lemma MedianFilter_correct:
  assumes "us_ok im" and "0 \<le> hw" "hw < fst (Size im)" "hw \<le> 127"
  shows "MedianFilter junk dst im hw =
    Some ((us_Init junk (Size im) dst)\<lparr>ImageData := map (window_of im hw) (region 0 (fst (Size im) - 1) 0 (snd (Size im) - 1))\<rparr>)"
proof -
  let ?d = "map (window_of im hw) (region 0 (fst (Size im) - 1) 0 (snd (Size im) - 1))"
  have len: "int (length (ImageData im)) = fst (Size im) * snd (Size im)" "0 \<le> fst (Size im)" "0 \<le> snd (Size im)" using assms(1) by (simp_all add: us_ok_def)
  have "opt_map (mf_row (ImageData im) (Size im) hw) [0..snd (Size im) - 1] =
      Some (map (\<lambda>y. map (\<lambda>x. window_of im hw (x, y)) [0..fst (Size im) - 1]) [0..snd (Size im) - 1])"
    using mf_row_correct[OF len(1) assms(2-4)] by (intro opt_map_total) (simp add: window_of_def)
  moreover have "concat (map (\<lambda>y. map (\<lambda>x. window_of im hw (x, y)) [0..fst (Size im) - 1]) [0..snd (Size im) - 1]) = ?d"
    by (simp add: region_def map_concat comp_def)
  moreover have "length ?d = length (ImageData (us_Init junk (Size im) dst))"
  proof -
    have "int (length ?d) = fst (Size im) * snd (Size im)" using region_length[OF len(2,3)] by simp
    then have "length ?d = nat (fst (Size im) * snd (Size im))" by simp
    then show ?thesis by (auto simp: us_Init_def Let_def)
  qed
  ultimately show ?thesis by (simp add: MedianFilter_def Let_def)
qed

text \<open>On every frame wider than half of the window, with a window of at most 255 by 255
  pixels, the sliding filter reads only inside of the frame and writes exactly its pixels: each becomes
  the median of the pixels of the window around it, cut at the edges; the counters of the histogram
  never lose a value.\<close>

theorem sliding_median_is_window_median:
  assumes "us_ok im" and "0 \<le> hw" "hw < fst (Size im)" "hw \<le> 127"
  shows "MedianFilter junk dst im hw =
    Some ((us_Init junk (Size im) dst)\<lparr>ImageData := map (window_of im hw) (region 0 (fst (Size im) - 1) 0 (snd (Size im) - 1))\<rparr>)"
  by (rule MedianFilter_correct[OF assms])

theorem sliding_median_is_window_median_witness:
  "map_option (\<lambda>im. ImageData im ! 4) (MedianFilter [] example_frame_image example_frame_image 1) = Some 5"
proof -
  have ok: "us_ok example_frame_image" "Size example_frame_image = (3, 3)" by (simp_all add: us_ok_def example_frame_image_def rect_empty_def)
  have "region 0 2 0 2 = [(0,0),(1,0),(2,0),(0,1),(1,1),(2,1),(0,2),(1,2),(2,2)]" by (simp add: region_def upto_rec1)
  moreover have "window_of example_frame_image 1 (1, 1) = 5"
    by (simp add: window_of_def win_ref_def win_def win_x_def mf_rows_def region_def upto_rec1 px_at_def example_frame_image_def kth_def)
  ultimately show ?thesis using sliding_median_is_window_median[OF ok(1), of 1 "[]" example_frame_image] ok(2) by simp
qed

end
