(* ===== verification/Ordered_Set.thy ===== *)
theory Ordered_Set
  imports Complex_Main
begin

text \<open>
  \<open>std::set\<close> with an order that compares a key only, in the ascending order of its elements: an element
  equivalent to one that is there is not inserted.  A key may be a NaN (\<^term>\<open>None\<close>), which compares
  false with everything.  The components that keep such sets interpret the locale with their
  comparison.
\<close>

fun ordset_insert :: "('a \<Rightarrow> 'a \<Rightarrow> bool) \<Rightarrow> 'a \<Rightarrow> 'a list \<Rightarrow> 'a list" where
  "ordset_insert lt p [] = [p]"
| "ordset_insert lt p (q # qs) = (if lt p q then p # q # qs else if lt q p then q # ordset_insert lt p qs else q # qs)"

text \<open>\<open>lower_bound\<close>; an iterator is the rest of the set from it on.\<close>

definition ordset_lower_bound :: "('a \<Rightarrow> 'a \<Rightarrow> bool) \<Rightarrow> 'a \<Rightarrow> 'a list \<Rightarrow> 'a list" where
  "ordset_lower_bound lt p qs = dropWhile (\<lambda>q. lt q p) qs"

locale ordset =
  fixes lt :: "'a \<Rightarrow> 'a \<Rightarrow> bool" and key :: "'a \<Rightarrow> real option"
  assumes lt_key: "lt a b \<longleftrightarrow> (\<exists>x y. key a = Some x \<and> key b = Some y \<and> x < y)"
begin

definition keyed :: "'a list \<Rightarrow> bool" where
  "keyed qs \<longleftrightarrow> (\<forall>q\<in>set qs. key q \<noteq> None)"

lemma lt_irrefl: "\<not> lt a a"
  by (simp add: lt_key)

lemma lt_trans: "lt a b \<Longrightarrow> lt b c \<Longrightarrow> lt a c"
  by (auto simp: lt_key)

lemma insert_subset: "set (ordset_insert lt p qs) \<subseteq> insert p (set qs)" "set qs \<subseteq> set (ordset_insert lt p qs)"
  by (induction qs) auto

lemma insert_length: "length (ordset_insert lt p qs) \<le> Suc (length qs)"
  by (induction qs) auto

lemma insert_not_empty: "ordset_insert lt p qs \<noteq> []"
  by (cases qs) auto

lemma insert_sorted: "sorted_wrt lt qs \<Longrightarrow> sorted_wrt lt (ordset_insert lt p qs)"
proof (induction qs)
  case (Cons q qs)
  consider "lt p q" | "\<not> lt p q" "lt q p" | "\<not> lt p q" "\<not> lt q p" by blast
  then show ?case
  proof cases
    case 1
    then show ?thesis using Cons.prems lt_trans[OF 1] by auto
  next
    case 2
    have "\<forall>x\<in>set (ordset_insert lt p qs). lt q x" using insert_subset(1)[of p qs] Cons.prems 2(2) by auto
    then show ?thesis using Cons 2 by simp
  qed (use Cons.prems in simp)
qed simp

text \<open>Keys decide what is inserted.\<close>

lemma insert_set:
  assumes "sorted_wrt lt qs" and "keyed qs" and "key p \<noteq> None"
  shows "set (ordset_insert lt p qs) = (if key p \<in> key ` set qs then set qs else insert p (set qs))"
  using assms(1,2)
proof (induction qs)
  case (Cons q qs)
  obtain x y where k: "key p = Some x" "key q = Some y" using Cons.prems(2) assms(3) by (auto simp: keyed_def)
  have q: "lt q z" if "z \<in> set qs" for z using Cons.prems(1) that by simp
  have kq: "keyed qs" using Cons.prems(2) by (simp add: keyed_def)
  consider "x < y" | "y < x" | "x = y" by linarith
  then show ?case
  proof cases
    case 1
    have "key p \<noteq> key z" if "z \<in> set (q # qs)" for z using that q[of z] 1 k by (auto simp: lt_key)
    then have "key p \<notin> key ` set (q # qs)" by blast
    then show ?thesis using 1 k by (simp add: lt_key)
  next
    case 2
    then have "set (ordset_insert lt p (q # qs)) = insert q (set (ordset_insert lt p qs))" using k by (simp add: lt_key)
    then show ?thesis using Cons.IH[OF _ kq] Cons.prems(1) k 2 by auto
  next
    case 3
    then show ?thesis using k by (simp add: lt_key)
  qed
qed simp

lemma lower_bound_filter:
  assumes "sorted_wrt lt qs" and "keyed qs" and "key p \<noteq> None"
  shows "ordset_lower_bound lt p qs = filter (\<lambda>q. \<not> lt q p) qs"
  using assms(1,2)
proof (induction qs)
  case (Cons q qs)
  have kq: "keyed qs" "sorted_wrt lt qs" using Cons.prems by (simp_all add: keyed_def)
  show ?case
  proof (cases "lt q p")
    case True
    then show ?thesis using Cons.IH[OF kq(2,1)] by (simp add: ordset_lower_bound_def)
  next
    case False
    have "\<not> lt z p" if "z \<in> set qs" for z
    proof
      assume "lt z p"
      moreover have "lt q z" using Cons.prems(1) that by simp
      ultimately show False using lt_trans[of q z p] False by blast
    qed
    then have "filter (\<lambda>z. \<not> lt z p) (q # qs) = q # qs" using False by (intro filter_True) auto
    then show ?thesis using False by (simp add: ordset_lower_bound_def)
  qed
qed (simp add: ordset_lower_bound_def)

end

end
