(* ===== verification/Defect_Map.thy ===== *)
theory Defect_Map
  imports Median_Window Guiding_Stats Ordered_Set
begin

text \<open>
  Maps of defective pixels, \<open>src/image_math.cpp\<close>: the statistics of the master dark, the class
  \<open>DefectMapBuilder\<close> that collects pixels deviating from the smoothed dark and selects those beyond a
  threshold, and \<open>RemoveDefects\<close>, which replaces each pixel of the map by the median of its
  neighbours.  The builder keeps the pixels in sets ordered by deviation only: of several pixels with
  the same deviation the first is kept.  \<open>doubles\<close> are reals.  Saving and loading of files is not
  modelled.
\<close>

section \<open>Statistics of the dark frame\<close>

record ImageStats =
  st_mean :: real
  st_stdev :: "real option"
  st_median :: nat
  st_mad :: nat

text \<open>The running mean and sum of squares, and the number of values that the last step knew.\<close>

record StatsAcc =
  sa_a :: real
  sa_q :: real
  sa_k :: real
  sa_km1 :: real

definition stats_px :: "StatsAcc \<Rightarrow> 16 word \<Rightarrow> StatsAcc" where
  "stats_px s v =
     (let x = real_of_int (uint v); a = sa_a s + (x - sa_a s) / sa_k s
      in \<lparr>sa_a = a, sa_q = sa_q s + (x - sa_a s) * (x - a), sa_k = sa_k s + 1, sa_km1 = sa_k s\<rparr>)"

text \<open>
  The work frame takes the pixels; without any the standard deviation is not a number and the median
  is read outside.  \<open>std::nth_element\<close> puts the value at its position that sorting puts there.
\<close>

definition GetImageStats :: "usImage \<Rightarrow> Rect \<Rightarrow> ImageStats option" where
  "GetImageStats img r =
     do { t \<leftarrow> copy_roi (ImageData img) (fst (Size img)) r;
          if t = [] then None
          else let s = foldl stats_px \<lparr>sa_a = 0, sa_q = 0, sa_k = 1, sa_km1 = 0\<rparr> t; m = kth (length t div 2) (map unat t);
                   ads = map (\<lambda>v. nat \<bar>int (unat v) - int m\<bar> mod 65536) t
               in Some \<lparr>st_mean = sa_a s, st_stdev = map_option sqrt (qdiv (sa_q s) (sa_km1 s)), st_median = m,
                        st_mad = kth (length t div 2) ads\<rparr> }"

section \<open>The builder\<close>

record BadPx =
  bp_x :: nat
  bp_y :: nat
  bp_v :: int

definition BadPx_of :: "int \<Rightarrow> int \<Rightarrow> int \<Rightarrow> BadPx" where
  "BadPx_of x y v = \<lparr>bp_x = nat (x mod 65536), bp_y = nat (y mod 65536), bp_v = v\<rparr>"

definition badpx_less :: "BadPx \<Rightarrow> BadPx \<Rightarrow> bool" where
  "badpx_less a b \<longleftrightarrow> bp_v a < bp_v b"

text \<open>\<open>std::set<BadPx>\<close> in its order.\<close>

definition set_insert :: "BadPx \<Rightarrow> BadPx list \<Rightarrow> BadPx list" where
  "set_insert p qs = ordset_insert badpx_less p qs"

text \<open>\<open>lower_bound\<close>; an iterator is the rest of the set from it on.\<close>

definition lower_bound :: "BadPx \<Rightarrow> BadPx list \<Rightarrow> BadPx list" where
  "lower_bound p qs = ordset_lower_bound badpx_less p qs"

interpretation badpx_set: ordset badpx_less "\<lambda>p. Some (real_of_int (bp_v p))"
  by unfold_locales (simp add: badpx_less_def)

text \<open>
  The state.  An iterator is \<^term>\<open>None\<close> before it is set and after the set was cleared, which makes it
  invalid (unless it was the end).
\<close>

record DefectMapBuilder =
  db_stats :: "ImageStats option"
  aggrCold :: int
  aggrHot :: int
  coldPx :: "BadPx list"
  hotPx :: "BadPx list"
  coldPxThresh :: "BadPx list option"
  hotPxThresh :: "BadPx list option"
  coldPxSelected :: nat
  hotPxSelected :: nat
  threshValid :: bool

definition DefectMapBuilder_new :: DefectMapBuilder where
  "DefectMapBuilder_new = \<lparr>db_stats = None, aggrCold = 100, aggrHot = 100, coldPx = [], hotPx = [], coldPxThresh = None,
     hotPxThresh = None, coldPxSelected = 0, hotPxSelected = 0, threshValid = False\<rparr>"

definition AggrToSigma :: "int \<Rightarrow> real" where
  "AggrToSigma val = 2 powr (3 - (6 / 100) * real_of_int val)"

text \<open>A threshold in pixel values; what the conversion of a value that is not a number gives is \<open>bad\<close>.\<close>

definition px_thresh :: "int \<Rightarrow> int \<Rightarrow> ImageStats \<Rightarrow> int" where
  "px_thresh bad aggr st = (case st_stdev st of None \<Rightarrow> bad | Some sd \<Rightarrow> c_int bad (AggrToSigma aggr * sd))"

definition cleared :: "BadPx list option \<Rightarrow> BadPx list option" where
  "cleared it = (if it = Some [] then Some [] else None)"

definition load_px :: "16 word list \<Rightarrow> 16 word list \<Rightarrow> int \<Rightarrow> int \<Rightarrow> int \<Rightarrow> int \<times> int \<Rightarrow> BadPx list \<times> BadPx list \<Rightarrow> (BadPx list \<times> BadPx list) option" where
  "load_px dark filtered Wd Wf thresh p s =
     do { f \<leftarrow> rd filtered (snd p * Wf + fst p); d \<leftarrow> rd dark (snd p * Wd + fst p);
          let v = uint d - uint f
          in Some (if v > thresh then (fst s, set_insert (BadPx_of (fst p) (snd p) v) (snd s))
                   else if - v > thresh then (set_insert (BadPx_of (fst p) (snd p) (- v)) (fst s), snd s) else s) }"

definition db_Init :: "int \<Rightarrow> usImage \<Rightarrow> usImage \<Rightarrow> DefectMapBuilder \<Rightarrow> DefectMapBuilder option" where
  "db_Init bad masterDark filteredDark b =
     do { st \<leftarrow> GetImageStats masterDark (rect_of_size (Size masterDark));
          (cold, hot) \<leftarrow> fold_opt (load_px (ImageData masterDark) (ImageData filteredDark) (fst (Size masterDark)) (fst (Size filteredDark)) (px_thresh bad 100 st))
             (region 0 (fst (Size masterDark) - 1) 0 (snd (Size masterDark) - 1)) ([], []);
          Some (b\<lparr>db_stats := Some st, coldPx := cold, hotPx := hot, coldPxThresh := cleared (coldPxThresh b), hotPxThresh := cleared (hotPxThresh b)\<rparr>) }"

definition db_SetAggressiveness :: "int \<Rightarrow> int \<Rightarrow> DefectMapBuilder \<Rightarrow> DefectMapBuilder" where
  "db_SetAggressiveness c h b = b\<lparr>aggrCold := max 0 (min 100 c), aggrHot := max 0 (min 100 h), threshValid := False\<rparr>"

text \<open>Statistics that were never computed are zeros.\<close>

definition stats_in :: "DefectMapBuilder \<Rightarrow> ImageStats" where
  "stats_in b = (case db_stats b of None \<Rightarrow> \<lparr>st_mean = 0, st_stdev = Some 0, st_median = 0, st_mad = 0\<rparr> | Some st \<Rightarrow> st)"

definition FindThresh :: "int \<Rightarrow> DefectMapBuilder \<Rightarrow> DefectMapBuilder" where
  "FindThresh bad b =
     (if threshValid b then b
      else let c = lower_bound (BadPx_of 0 0 (px_thresh bad (aggrCold b) (stats_in b))) (coldPx b);
               h = lower_bound (BadPx_of 0 0 (px_thresh bad (aggrHot b) (stats_in b))) (hotPx b)
           in b\<lparr>coldPxThresh := Some c, hotPxThresh := Some h, coldPxSelected := length c, hotPxSelected := length h, threshValid := True\<rparr>)"

definition GetColdPixelCnt :: "int \<Rightarrow> DefectMapBuilder \<Rightarrow> nat \<times> DefectMapBuilder" where
  "GetColdPixelCnt bad b = (let b1 = FindThresh bad b in (coldPxSelected b1, b1))"

definition GetHotPixelCnt :: "int \<Rightarrow> DefectMapBuilder \<Rightarrow> nat \<times> DefectMapBuilder" where
  "GetHotPixelCnt bad b = (let b1 = FindThresh bad b in (hotPxSelected b1, b1))"

definition emit_defects :: "BadPx list option \<Rightarrow> (nat \<times> nat) list option" where
  "emit_defects it = map_option (map (\<lambda>p. (bp_x p, bp_y p))) it"

definition BuildDefectMap :: "int \<Rightarrow> DefectMapBuilder \<Rightarrow> ((nat \<times> nat) list \<times> DefectMapBuilder) option" where
  "BuildDefectMap bad b =
     (let b1 = FindThresh bad b
      in do { c \<leftarrow> emit_defects (coldPxThresh b1); h \<leftarrow> emit_defects (hotPxThresh b1); Some (c @ h, b1) })"

text \<open>A second dark frame does not reset the thresholds: the iterators kept are then invalid.\<close>

lemma second_init_leaves_stale_iterators:
  assumes "threshValid b" and "coldPxThresh b = Some (p # ps)" and "db_Init bad dark filt b = Some b1"
  shows "BuildDefectMap bad b1 = None"
proof -
  have "threshValid b1" "coldPxThresh b1 = None" using assms by (auto simp: db_Init_def bind_eq_Some_conv cleared_def)
  then show ?thesis by (simp add: BuildDefectMap_def FindThresh_def emit_defects_def Let_def)
qed

section \<open>Replacing defects\<close>

definition bordering :: "int \<Rightarrow> int \<Rightarrow> int \<Rightarrow> int \<Rightarrow> (int \<times> int) list option" where
  "bordering xsize ysize x y =
     (if x > 0 \<and> y > 0 \<and> x < xsize - 1 \<and> y < ysize - 1
      then Some [(x - 1, y - 1), (x, y - 1), (x + 1, y - 1), (x - 1, y), (x + 1, y), (x - 1, y + 1), (x, y + 1), (x + 1, y + 1)]
      else if x = 0 \<and> y > 0 \<and> y < ysize - 1 then Some [(x, y - 1), (x, y + 1), (x + 1, y - 1), (x + 1, y), (x + 1, y + 1)]
      else if x = xsize - 1 \<and> y > 0 \<and> y < ysize - 1 then Some [(x, y - 1), (x, y + 1), (x - 1, y - 1), (x - 1, y), (x - 1, y + 1)]
      else if y = 0 \<and> x > 0 \<and> x < xsize - 1 then Some [(x - 1, y), (x - 1, y + 1), (x, y + 1), (x + 1, y), (x + 1, y + 1)]
      else if y = ysize - 1 \<and> x > 0 \<and> x < xsize - 1 then Some [(x - 1, y), (x - 1, y - 1), (x, y - 1), (x + 1, y), (x + 1, y - 1)]
      else if x = 0 \<and> y = 0 then Some [(x + 1, y), (x, y + 1), (x + 1, y + 1)]
      else if x = 0 \<and> y = ysize - 1 then Some [(x + 1, y), (x, y - 1), (x + 1, y - 1)]
      else if x = xsize - 1 \<and> y = ysize - 1 then Some [(x - 1, y), (x, y - 1), (x - 1, y - 1)]
      else if x = xsize - 1 \<and> y = 0 then Some [(x - 1, y), (x, y + 1), (x - 1, y + 1)]
      else None)"

definition MedianBorderingPixels :: "16 word list \<Rightarrow> int \<times> int \<Rightarrow> int \<Rightarrow> int \<Rightarrow> 16 word option" where
  "MedianBorderingPixels d sz x y =
     (case bordering (fst sz) (snd sz) x y of
        None \<Rightarrow> Some 0
      | Some ps \<Rightarrow> map_option (\<lambda>a. if length a = 8 then median8 a else if length a = 5 then median5 a else median3 a)
                    (rds d (map (\<lambda>p. fst p + snd p * fst sz) ps)))"

definition rect_contains :: "Rect \<Rightarrow> int \<times> int \<Rightarrow> bool" where
  "rect_contains r p \<longleftrightarrow> rx r \<le> fst p \<and> ry r \<le> snd p \<and> fst p < rx r + rw r \<and> snd p < ry r + rh r"

text \<open>One defect: its position on the sensor, moved by the limit frame, must lie in the valid part.\<close>

definition remove_px :: "usImage \<Rightarrow> int \<times> int \<Rightarrow> 16 word list \<Rightarrow> 16 word list option" where
  "remove_px light it d =
     (let x = fst it - rx (LimitFrame light); y = snd it - ry (LimitFrame light)
      in if (if rect_empty (Subframe light) then x \<ge> 0 \<and> x < fst (Size light) \<and> y \<ge> 0 \<and> y < snd (Size light)
             else rect_contains (Subframe light) (x, y))
         then do { v \<leftarrow> MedianBorderingPixels d (Size light) x y; wr d (y * fst (Size light) + x) v }
         else Some d)"

definition RemoveDefects :: "usImage \<Rightarrow> (int \<times> int) list \<Rightarrow> (bool \<times> usImage) option" where
  "RemoveDefects light defectMap =
     (if ImageData light = [] then Some (True, light)
      else map_option (\<lambda>d. (False, light\<lparr>ImageData := d\<rparr>)) (fold_opt (remove_px light) defectMap (ImageData light)))"

section \<open>The camera corrects a frame\<close>

text \<open>\<open>GuideCamera::SubtractDark\<close> of \<open>src/camera.cpp\<close>: a defect map has precedence over a dark frame.\<close>

definition SubtractDark :: "(Rect \<Rightarrow> Rect \<Rightarrow> Rect) \<Rightarrow> (int \<times> int) list option \<Rightarrow> usImage option \<Rightarrow> usImage \<Rightarrow> usImage option" where
  "SubtractDark isect currentDefectMap currentDarkFrame img =
     (case currentDefectMap of
        Some dm \<Rightarrow> map_option snd (RemoveDefects img dm)
      | None \<Rightarrow> (case currentDarkFrame of Some dark \<Rightarrow> map_option snd (Subtract isect img dark) | None \<Rightarrow> Some img))"

section \<open>The statistics are those of the pixels\<close>

lemma stats_fold:
  "foldl stats_px \<lparr>sa_a = 0, sa_q = 0, sa_k = 1, sa_km1 = 0\<rparr> t =
   (let xs = map (\<lambda>v. real_of_int (uint v)) t
    in \<lparr>sa_a = (if t = [] then 0 else list_mean xs), sa_q = (if t = [] then 0 else sq_dev xs), sa_k = real (length t) + 1, sa_km1 = real (length t)\<rparr>)"
proof (induction t rule: rev_induct)
  case (snoc v t)
  let ?xs = "map (\<lambda>v. real_of_int (uint v)) t" and ?x = "real_of_int (uint v)"
  show ?case
  proof (cases "t = []")
    case True
    then show ?thesis by (simp add: stats_px_def Let_def list_mean_def sq_dev_def)
  next
    case False
    then have ne: "?xs \<noteq> []" by simp
    have m: "list_mean (?xs @ [?x]) = list_mean ?xs + (?x - list_mean ?xs) / (real (length t) + 1)" using list_mean_snoc[OF ne, of ?x] by simp
    have q: "sq_dev (?xs @ [?x]) = sq_dev ?xs + (?x - list_mean ?xs) * (?x - (list_mean ?xs + (?x - list_mean ?xs) / (real (length t) + 1)))"
      using sq_dev_snoc[OF ne, of ?x] unfolding m .
    show ?thesis using snoc False m q by (simp add: stats_px_def Let_def del: of_int_of_nat_eq)
  qed
qed simp

lemma GetImageStats_exact:
  assumes "rect_in r (Size im)" and "int (length (ImageData im)) = fst (Size im) * snd (Size im)" and "0 < rw r" "0 < rh r"
  shows "let vs = px_values im r; xs = map real vs; m = kth (length vs div 2) vs in
    GetImageStats im r = Some \<lparr>st_mean = list_mean xs, st_stdev = Some (sqrt (sq_dev xs / real (length xs))), st_median = m,
      st_mad = kth (length vs div 2) (map (\<lambda>v. nat \<bar>int v - int m\<bar>) vs)\<rparr>"
proof -
  define t where "t = map (pixel im r) (region 0 (rw r - 1) 0 (rh r - 1))"
  define m where "m = kth (length t div 2) (map unat t)"
  have vs: "px_values im r = map unat t" by (simp add: px_values_def t_def comp_def)
  have "0 < int (length t)" using region_length[of "rw r" "rh r"] assms(3,4) by (simp add: t_def)
  then have ne: "t \<noteq> []" by auto
  have u: "unat v < 65536" for v :: "16 word"
  proof -
    have "uint v < 65536" using uint_lt2p[of v] by simp
    then show ?thesis unfolding unat_eq_nat_uint by linarith
  qed
  have "m \<in> set (map unat t)" unfolding m_def kth_def using ne nth_mem[of "length t div 2" "sort (map unat t)"] by simp
  then have m: "m < 65536" using u by auto
  have ad: "nat \<bar>int (unat v) - int m\<bar> mod 65536 = nat \<bar>int (unat v) - int m\<bar>" for v :: "16 word" using u[of v] m by (intro mod_less) linarith
  have ads: "map (\<lambda>v. nat \<bar>int (unat v) - int m\<bar> mod 65536) t = map (\<lambda>v. nat \<bar>int v - int m\<bar>) (map unat t)" unfolding ad by simp
  have xs: "map (\<lambda>v. real_of_int (uint v)) t = map real (map unat t)" by simp
  have "GetImageStats im r = Some \<lparr>st_mean = list_mean (map real (map unat t)), st_stdev = Some (sqrt (sq_dev (map real (map unat t)) / real (length t))), st_median = m,
      st_mad = kth (length t div 2) (map (\<lambda>v. nat \<bar>int v - int m\<bar>) (map unat t))\<rparr>"
    unfolding GetImageStats_def copy_roi_total[OF assms(1,2)] t_def[symmetric] bind.bind_lunit stats_fold Let_def m_def[symmetric] ads xs
    using ne by (simp add: qdiv_def)
  then show ?thesis by (simp add: vs Let_def m_def)
qed

section \<open>What the map holds\<close>

lemma badpx_keyed [simp]: "badpx_set.keyed qs"
  by (simp add: badpx_set.keyed_def)

lemma set_insert_sorted:
  "sorted_wrt badpx_less qs \<Longrightarrow> sorted_wrt badpx_less (set_insert p qs) \<and>
   set (set_insert p qs) = (if bp_v p \<in> bp_v ` set qs then set qs else insert p (set qs))"
  using badpx_set.insert_sorted[of qs p] badpx_set.insert_set[of qs p] by (auto simp: set_insert_def)

text \<open>Of the elements with the same key the first.\<close>

fun firsts :: "('a \<Rightarrow> int) \<Rightarrow> 'a list \<Rightarrow> 'a list" where
  "firsts f [] = []"
| "firsts f (x # xs) = x # filter (\<lambda>y. f y \<noteq> f x) (firsts f xs)"

lemma firsts_keys: "f ` set (firsts f xs) = f ` set xs"
proof (induction xs)
  case (Cons x xs)
  have "f ` {y \<in> set (firsts f xs). f y \<noteq> f x} = f ` set (firsts f xs) - {f x}" by auto
  then show ?case using Cons by auto
qed simp

lemma firsts_sub: "set (firsts f xs) \<subseteq> set xs"
  by (induction xs) auto

lemma firsts_snoc: "firsts f (xs @ [x]) = firsts f xs @ (if f x \<in> f ` set xs then [] else [x])"
  by (induction xs) auto

lemma lower_bound_sorted: "sorted_wrt badpx_less qs \<Longrightarrow> lower_bound p qs = filter (\<lambda>q. bp_v p \<le> bp_v q) qs"
  using badpx_set.lower_bound_filter[of qs p] by (simp add: lower_bound_def badpx_less_def not_less)

text \<open>The deviation of a pixel, and the candidates: the first pixels of each deviation.\<close>

definition deviation :: "usImage \<Rightarrow> usImage \<Rightarrow> int \<times> int \<Rightarrow> int" where
  "deviation dark filtered p = uint (pixel dark (rect_of_size (Size dark)) p) - uint (pixel filtered (rect_of_size (Size filtered)) p)"

definition frame_px :: "usImage \<Rightarrow> (int \<times> int) list" where
  "frame_px im = region 0 (fst (Size im) - 1) 0 (snd (Size im) - 1)"

definition candidates :: "(int \<times> int \<Rightarrow> int) \<Rightarrow> int \<Rightarrow> (int \<times> int) list \<Rightarrow> (int \<times> int) list" where
  "candidates dev thresh ps = firsts dev (filter (\<lambda>p. thresh < dev p) ps)"

definition as_bad :: "(int \<times> int \<Rightarrow> int) \<Rightarrow> int \<times> int \<Rightarrow> BadPx" where
  "as_bad dev p = BadPx_of (fst p) (snd p) (dev p)"

definition holds_candidates :: "(int \<times> int \<Rightarrow> int) \<Rightarrow> int \<Rightarrow> (int \<times> int) list \<Rightarrow> BadPx list \<Rightarrow> bool" where
  "holds_candidates dev thresh ps qs \<longleftrightarrow> sorted_wrt badpx_less qs \<and> set qs = as_bad dev ` set (candidates dev thresh ps)"

lemma as_bad_v [simp]: "bp_v (as_bad dev p) = dev p"
  by (simp add: as_bad_def BadPx_of_def)

lemma candidates_insert:
  assumes "holds_candidates dev thresh ps qs"
  shows "thresh < dev p \<Longrightarrow> holds_candidates dev thresh (ps @ [p]) (set_insert (as_bad dev p) qs)"
    "\<not> thresh < dev p \<Longrightarrow> holds_candidates dev thresh (ps @ [p]) qs"
proof -
  let ?f = "filter (\<lambda>p. thresh < dev p) ps"
  have q: "sorted_wrt badpx_less qs" "set qs = as_bad dev ` set (candidates dev thresh ps)" using assms by (simp_all add: holds_candidates_def)
  have k: "bp_v ` set qs = dev ` set ?f" unfolding q(2) candidates_def image_image as_bad_v firsts_keys ..
  show "holds_candidates dev thresh (ps @ [p]) (set_insert (as_bad dev p) qs)" if "thresh < dev p"
  proof -
    have "candidates dev thresh (ps @ [p]) = candidates dev thresh ps @ (if dev p \<in> dev ` set ?f then [] else [p])"
      using that by (simp add: candidates_def firsts_snoc)
    moreover have "set (set_insert (as_bad dev p) qs) = (if dev p \<in> dev ` set ?f then set qs else insert (as_bad dev p) (set qs))"
      using set_insert_sorted[OF q(1), of "as_bad dev p"] unfolding k as_bad_v by blast
    ultimately show ?thesis using set_insert_sorted[OF q(1), of "as_bad dev p"] q(2) by (simp add: holds_candidates_def)
  qed
  show "holds_candidates dev thresh (ps @ [p]) qs" if "\<not> thresh < dev p"
    using that q by (simp add: holds_candidates_def candidates_def)
qed

lemma load_px_fold:
  assumes "us_ok dark" "us_ok filtered" and "Size filtered = Size dark" and "0 \<le> thresh"
    and "set ps \<subseteq> set (frame_px dark)"
  shows "\<exists>cold hot. fold_opt (load_px (ImageData dark) (ImageData filtered) (fst (Size dark)) (fst (Size filtered)) thresh) ps ([], []) = Some (cold, hot) \<and>
    holds_candidates (\<lambda>p. - deviation dark filtered p) thresh ps cold \<and> holds_candidates (deviation dark filtered) thresh ps hot"
  using assms(5)
proof (induction ps rule: rev_induct)
  case Nil
  show ?case by (simp add: holds_candidates_def candidates_def)
next
  case (snoc p ps)
  let ?ld = "load_px (ImageData dark) (ImageData filtered) (fst (Size dark)) (fst (Size filtered)) thresh" and ?dev = "deviation dark filtered"
  obtain cold hot where IH: "fold_opt ?ld ps ([], []) = Some (cold, hot)" "holds_candidates (\<lambda>p. - ?dev p) thresh ps cold" "holds_candidates ?dev thresh ps hot"
    using snoc by auto
  have p: "0 \<le> fst p" "fst p < fst (Size dark)" "0 \<le> snd p" "snd p < snd (Size dark)" using snoc.prems by (auto simp: frame_px_def in_region)
  have "in_list (ImageData dark) (snd p * fst (Size dark) + fst p)" "in_list (ImageData filtered) (snd p * fst (Size filtered) + fst p)"
    using px_in_frame[of "ImageData dark" "fst (Size dark)" "snd (Size dark)" "fst p" "snd p"]
      px_in_frame[of "ImageData filtered" "fst (Size filtered)" "snd (Size filtered)" "fst p" "snd p"] p assms(1-3) by (simp_all add: us_ok_def)
  then have r: "rd (ImageData dark) (snd p * fst (Size dark) + fst p) = Some (pixel dark (rect_of_size (Size dark)) p)"
    "rd (ImageData filtered) (snd p * fst (Size filtered) + fst p) = Some (pixel filtered (rect_of_size (Size filtered)) p)"
    by (simp_all add: rd_def in_list_def pixel_def IX_def rect_of_size_def)
  have ld: "?ld p (cold, hot) = Some (if thresh < ?dev p then (cold, set_insert (as_bad ?dev p) hot)
      else if thresh < - ?dev p then (set_insert (as_bad (\<lambda>p. - ?dev p) p) cold, hot) else (cold, hot))"
    by (simp add: load_px_def r deviation_def as_bad_def Let_def)
  have app: "fold_opt f (xs @ [x]) t = fold_opt f xs t \<bind> f x" for f :: "int \<times> int \<Rightarrow> 'b \<Rightarrow> 'b option" and xs x t
    by (induction xs arbitrary: t) (auto split: bind_splits)
  have fold: "fold_opt ?ld (ps @ [p]) ([], []) = ?ld p (cold, hot)" by (simp add: app IH(1))
  note c = candidates_insert[OF IH(2), of p] and h = candidates_insert[OF IH(3), of p]
  consider "thresh < ?dev p" | "\<not> thresh < ?dev p" "thresh < - ?dev p" | "\<not> thresh < ?dev p" "\<not> thresh < - ?dev p" by blast
  then show ?case
  proof cases
    case 1
    then have "\<not> thresh < - ?dev p" using assms(4) by linarith
    then show ?thesis unfolding fold ld using 1 c(2) h(1) by simp
  next
    case 2
    then show ?thesis unfolding fold ld using c(1) h(2) by simp
  next
    case 3
    then show ?thesis unfolding fold ld using c(2) h(2) by simp
  qed
qed

text \<open>The thresholds: never negative, and falling with the aggressiveness.\<close>

lemma sum_list_bound: "\<forall>x\<in>set xs. f x \<le> c \<Longrightarrow> (\<Sum>x\<leftarrow>xs. f x) \<le> real (length xs) * c" for c :: real
  by (induction xs) (auto simp: algebra_simps intro: add_mono)

lemma stdev_bounds:
  assumes "GetImageStats im r = Some st" and "rect_in r (Size im)" and "int (length (ImageData im)) = fst (Size im) * snd (Size im)" and "0 < rw r" "0 < rh r"
  shows "\<exists>sd. st_stdev st = Some sd \<and> 0 \<le> sd \<and> sd \<le> 65535"
proof -
  let ?xs = "map real (px_values im r)"
  have "0 < int (length ?xs)" using region_length[of "rw r" "rh r"] assms(4,5) by (simp add: px_values_def)
  then have n: "0 < real (length ?xs)" by simp
  have b: "0 \<le> x \<and> x \<le> 65535" if xin: "x \<in> set ?xs" for x
  proof -
    obtain p where x: "x = real (unat (pixel im r p))" using xin unfolding px_values_def set_map image_image by blast
    have "uint (pixel im r p) < 65536" using uint_lt2p[of "pixel im r p"] by simp
    then have "unat (pixel im r p) \<le> 65535" unfolding unat_eq_nat_uint by linarith
    then show ?thesis unfolding x by linarith
  qed
  have "0 \<le> sum_list ?xs" using b by (intro sum_list_nonneg) auto
  moreover have "sum_list ?xs \<le> real (length ?xs) * 65535" using sum_list_bound[of ?xs "\<lambda>x. x" 65535] b by simp
  ultimately have mean: "0 \<le> list_mean ?xs" "list_mean ?xs \<le> 65535" using n by (simp_all add: list_mean_def divide_le_eq mult.commute)
  have "(x - list_mean ?xs)\<^sup>2 \<le> 65535\<^sup>2" if "x \<in> set ?xs" for x using b[OF that] mean by (intro abs_le_square_iff[THEN iffD1]) (simp add: abs_le_iff)
  then have "sq_dev ?xs \<le> real (length ?xs) * 65535\<^sup>2"
    unfolding sq_dev_def by (intro sum_list_bound) blast
  then have "sq_dev ?xs / real (length ?xs) \<le> 65535\<^sup>2" using n by (simp add: divide_le_eq mult.commute)
  then have "sqrt (sq_dev ?xs / real (length ?xs)) \<le> 65535" using real_sqrt_le_mono by fastforce
  moreover have "st_stdev st = Some (sqrt (sq_dev ?xs / real (length ?xs)))"
    using GetImageStats_exact[OF assms(2-5)] assms(1) by (simp add: Let_def)
  ultimately show ?thesis by simp
qed

lemma px_thresh_mono:
  assumes "st_stdev st = Some sd" "0 \<le> sd" "sd \<le> 65535" and "0 \<le> a" "a \<le> b"
  shows "0 \<le> px_thresh bad b st" "px_thresh bad b st \<le> px_thresh bad a st"
proof -
  have "2 powr (3 - (6 / 100) * real_of_int a) \<le> 2 powr 3" using assms(4) by (intro powr_mono) simp_all
  then have s: "0 < AggrToSigma b" "AggrToSigma b \<le> AggrToSigma a" "AggrToSigma a \<le> 8"
    using assms(5) by (simp_all add: AggrToSigma_def)
  have v: "0 \<le> AggrToSigma b * sd" "AggrToSigma b * sd \<le> AggrToSigma a * sd" using s assms(2) by (simp_all add: mult_right_mono)
  have "AggrToSigma a * sd \<le> 8 * 65535" using s(3) assms(2,3) s(1,2) by (intro mult_mono) auto
  then have w: "c_int bad x = \<lfloor>x\<rfloor>" if "0 \<le> x" "x \<le> AggrToSigma a * sd" for x
  proof -
    have "0 \<le> \<lfloor>x\<rfloor>" "\<lfloor>x\<rfloor> \<le> 524280" using that \<open>AggrToSigma a * sd \<le> 8 * 65535\<close> by (simp_all add: floor_le_iff)
    then show ?thesis using that(1) by (simp add: c_int_def c_trunc_def)
  qed
  have e: "px_thresh bad b st = \<lfloor>AggrToSigma b * sd\<rfloor>" "px_thresh bad a st = \<lfloor>AggrToSigma a * sd\<rfloor>"
    using w[of "AggrToSigma b * sd"] w[of "AggrToSigma a * sd"] v assms(1) by (simp_all add: px_thresh_def)
  show "0 \<le> px_thresh bad b st" "px_thresh bad b st \<le> px_thresh bad a st" unfolding e using v by (simp_all add: floor_mono)
qed

text \<open>The positions that a selection gives.\<close>

definition selected :: "(int \<times> int \<Rightarrow> int) \<Rightarrow> int \<Rightarrow> int \<Rightarrow> usImage \<Rightarrow> (nat \<times> nat) set" where
  "selected dev thresh0 thresh dark = (\<lambda>p. (nat (fst p), nat (snd p))) ` {p \<in> set (candidates dev thresh0 (frame_px dark)). thresh \<le> dev p}"

lemma emitted:
  assumes "holds_candidates dev t0 (frame_px dark) qs" and "fst (Size dark) \<le> 65536" "snd (Size dark) \<le> 65536"
  shows "set (map (\<lambda>p. (bp_x p, bp_y p)) (lower_bound (BadPx_of 0 0 t) qs)) = selected dev t0 t dark"
proof -
  have q: "sorted_wrt badpx_less qs" "set qs = as_bad dev ` set (candidates dev t0 (frame_px dark))" using assms(1) by (simp_all add: holds_candidates_def)
  have pos: "(bp_x (as_bad dev p), bp_y (as_bad dev p)) = (nat (fst p), nat (snd p))" if "p \<in> set (candidates dev t0 (frame_px dark))" for p
  proof -
    have "p \<in> set (frame_px dark)" using that firsts_sub[of dev "filter (\<lambda>p. t0 < dev p) (frame_px dark)"] by (auto simp: candidates_def)
    then show ?thesis using assms(2,3) by (simp add: as_bad_def BadPx_of_def frame_px_def in_region)
  qed
  have "set (lower_bound (BadPx_of 0 0 t) qs) = as_bad dev ` {p \<in> set (candidates dev t0 (frame_px dark)). t \<le> dev p}"
    unfolding lower_bound_sorted[OF q(1)] set_filter q(2) by (auto simp: BadPx_of_def)
  then have "set (map (\<lambda>p. (bp_x p, bp_y p)) (lower_bound (BadPx_of 0 0 t) qs)) =
      (\<lambda>p. (bp_x (as_bad dev p), bp_y (as_bad dev p))) ` {p \<in> set (candidates dev t0 (frame_px dark)). t \<le> dev p}" by (simp add: image_image)
  also have "\<dots> = selected dev t0 t dark" unfolding selected_def by (rule image_cong) (use pos in auto)
  finally show ?thesis .
qed

definition clamp_aggr :: "int \<Rightarrow> int" where
  "clamp_aggr a = max 0 (min 100 a)"

lemma defect_map_correct:
  assumes "us_ok dark" "us_ok filtered" "Size filtered = Size dark" and "0 < fst (Size dark)" "0 < snd (Size dark)"
    and "fst (Size dark) \<le> 65536" "snd (Size dark) \<le> 65536"
  shows "\<exists>st b1 cold hot b2. GetImageStats dark (rect_of_size (Size dark)) = Some st \<and> db_Init bad dark filtered b = Some b1 \<and>
    BuildDefectMap bad (db_SetAggressiveness c h b1) = Some (cold @ hot, b2) \<and>
    set hot = selected (deviation dark filtered) (px_thresh bad 100 st) (px_thresh bad (clamp_aggr h) st) dark \<and>
    set cold = selected (\<lambda>p. - deviation dark filtered p) (px_thresh bad 100 st) (px_thresh bad (clamp_aggr c) st) dark \<and>
    fst (GetHotPixelCnt bad (db_SetAggressiveness c h b1)) = length hot \<and> fst (GetColdPixelCnt bad (db_SetAggressiveness c h b1)) = length cold"
proof -
  let ?dev = "deviation dark filtered" and ?r = "rect_of_size (Size dark)"
  have r: "rect_in ?r (Size dark)" "0 < rw ?r" "0 < rh ?r" and len: "int (length (ImageData dark)) = fst (Size dark) * snd (Size dark)"
    using assms by (simp_all add: rect_in_def rect_of_size_def us_ok_def)
  obtain st where st: "GetImageStats dark ?r = Some st" using GetImageStats_exact[OF r(1) len r(2,3)] by (auto simp: Let_def)
  let ?t0 = "px_thresh bad 100 st" and ?tc = "px_thresh bad (clamp_aggr c) st" and ?th = "px_thresh bad (clamp_aggr h) st"
  obtain sd where "st_stdev st = Some sd" "0 \<le> sd" "sd \<le> 65535" using stdev_bounds[OF st r(1) len r(2,3)] by blast
  then have "0 \<le> ?t0" using px_thresh_mono(1)[of st sd 0 100] by simp
  then obtain cold hot where f: "fold_opt (load_px (ImageData dark) (ImageData filtered) (fst (Size dark)) (fst (Size filtered)) ?t0) (frame_px dark) ([], []) = Some (cold, hot)"
    "holds_candidates (\<lambda>p. - ?dev p) ?t0 (frame_px dark) cold" "holds_candidates ?dev ?t0 (frame_px dark) hot"
    using load_px_fold[OF assms(1-3), of ?t0 "frame_px dark"] by auto
  let ?b1 = "b\<lparr>db_stats := Some st, coldPx := cold, hotPx := hot, coldPxThresh := cleared (coldPxThresh b), hotPxThresh := cleared (hotPxThresh b)\<rparr>"
  have init: "db_Init bad dark filtered b = Some ?b1" using st f(1) by (simp add: db_Init_def frame_px_def)
  let ?c = "lower_bound (BadPx_of 0 0 ?tc) cold" and ?h = "lower_bound (BadPx_of 0 0 ?th) hot" and ?pos = "map (\<lambda>p. (bp_x p, bp_y p))"
  define b3 where "b3 = FindThresh bad (db_SetAggressiveness c h ?b1)"
  have b3: "coldPxThresh b3 = Some ?c" "hotPxThresh b3 = Some ?h" "coldPxSelected b3 = length ?c" "hotPxSelected b3 = length ?h"
    by (simp_all add: b3_def FindThresh_def db_SetAggressiveness_def stats_in_def clamp_aggr_def Let_def)
  have "BuildDefectMap bad (db_SetAggressiveness c h ?b1) = Some (?pos ?c @ ?pos ?h, b3)"
    using b3(1,2) by (simp add: BuildDefectMap_def b3_def[symmetric] emit_defects_def Let_def)
  moreover have "fst (GetHotPixelCnt bad (db_SetAggressiveness c h ?b1)) = length (?pos ?h)" "fst (GetColdPixelCnt bad (db_SetAggressiveness c h ?b1)) = length (?pos ?c)"
    using b3(3,4) by (simp_all add: GetHotPixelCnt_def GetColdPixelCnt_def b3_def[symmetric] Let_def)
  ultimately show ?thesis using st init emitted[OF f(2) assms(6,7), of ?tc] emitted[OF f(3) assms(6,7), of ?th] by blast
qed

text \<open>More aggressiveness never loses a defect.\<close>

lemma selected_mono: "t1 \<le> t2 \<Longrightarrow> selected dev t0 t2 dark \<subseteq> selected dev t0 t1 dark"
  by (auto simp: selected_def)

text \<open>C25: defect_map_selects_first_deviants. For dark frames of equal size (up to 65536 pixels wide and high) the builder
  completes, and the map holds, for each side, exactly the pixels beyond the threshold, but of all
  pixels with the same deviation only the first in row order: a second pixel as hot as one before it
  is not in the map.  The counts it reports are those of the map.\<close>

theorem defect_map_selects_first_deviants:
  assumes "us_ok dark" "us_ok filtered" "Size filtered = Size dark" and "0 < fst (Size dark)" "0 < snd (Size dark)"
    and "fst (Size dark) \<le> 65536" "snd (Size dark) \<le> 65536"
  shows "\<exists>st b1 cold hot b2. GetImageStats dark (rect_of_size (Size dark)) = Some st \<and> db_Init bad dark filtered b = Some b1 \<and>
    BuildDefectMap bad (db_SetAggressiveness c h b1) = Some (cold @ hot, b2) \<and>
    set hot = selected (deviation dark filtered) (px_thresh bad 100 st) (px_thresh bad (clamp_aggr h) st) dark \<and>
    set cold = selected (\<lambda>p. - deviation dark filtered p) (px_thresh bad 100 st) (px_thresh bad (clamp_aggr c) st) dark \<and>
    fst (GetHotPixelCnt bad (db_SetAggressiveness c h b1)) = length hot \<and> fst (GetColdPixelCnt bad (db_SetAggressiveness c h b1)) = length cold"
  by (rule defect_map_correct[OF assms])

text \<open>Two pixels of the same deviation, of which the map gets one.\<close>

definition example_hot :: usImage where
  "example_hot = example_frame_image\<lparr>Size := (4, 1), ImageData := [100, 0, 100, 0]\<rparr>"

definition example_flat :: usImage where
  "example_flat = example_frame_image\<lparr>Size := (4, 1), ImageData := [0, 0, 0, 0]\<rparr>"

theorem defect_map_selects_first_deviants_witness:
  "\<exists>b1 cold hot b2. db_Init 0 example_hot example_flat DefectMapBuilder_new = Some b1 \<and>
    BuildDefectMap 0 (db_SetAggressiveness 100 100 b1) = Some (cold @ hot, b2) \<and> set hot = {(0, 0)}"
proof -
  have ok: "us_ok example_hot" "us_ok example_flat" "Size example_flat = Size example_hot" "Size example_hot = (4, 1)"
    by (simp_all add: us_ok_def example_hot_def example_flat_def example_frame_image_def rect_empty_def)
  have fr: "frame_px example_hot = [(0, 0), (1, 0), (2, 0), (3, 0)]" by (simp add: frame_px_def ok(4) region_def upto_rec1)
  have dev: "deviation example_hot example_flat p = (if fst p \<in> {0, 2} then 100 else 0)" if "p \<in> set (frame_px example_hot)" for p
    using that unfolding fr by (auto simp: deviation_def pixel_def IX_def rect_of_size_def ok(3,4)) (simp_all add: example_hot_def example_flat_def)
  have px: "px_values example_hot (rect_of_size (4, 1)) = [100, 0, 100, 0]"
    using fr unfolding frame_px_def ok(4) by (simp add: px_values_def rect_of_size_def pixel_def IX_def ok(4)) (simp add: example_hot_def)
  have r: "rect_in (rect_of_size (4, 1)) (Size example_hot)" "int (length (ImageData example_hot)) = fst (Size example_hot) * snd (Size example_hot)"
    "0 < rw (rect_of_size (4, 1))" "0 < rh (rect_of_size (4, 1))"
    by (simp_all add: rect_in_def rect_of_size_def ok(4)) (simp add: example_hot_def)
  have "sqrt 2500 = 50" by (rule real_sqrt_unique) simp_all
  then have sd: "st_stdev st = Some 50" if "GetImageStats example_hot (rect_of_size (Size example_hot)) = Some st" for st
    using that GetImageStats_exact[OF r] unfolding px ok(4) by (auto simp: Let_def list_mean_def sq_dev_def power2_eq_square)
  have t: "px_thresh 0 100 st = 6" if "GetImageStats example_hot (rect_of_size (Size example_hot)) = Some st" for st
  proof -
    have a: "AggrToSigma 100 * 50 = 25 / 4" by (simp add: AggrToSigma_def powr_minus)
    have f: "c_trunc (25 / 4) = 6" by (simp add: c_trunc_def floor_eq_iff)
    show ?thesis unfolding px_thresh_def sd[OF that] option.case c_int_def a f by simp
  qed
  have "filter (\<lambda>p. 6 < deviation example_hot example_flat p) (frame_px example_hot) = [(0, 0), (2, 0)]"
    using dev unfolding fr by simp
  then have c: "candidates (deviation example_hot example_flat) 6 (frame_px example_hot) = [(0, 0)]"
    using dev[of "(0, 0)"] dev[of "(2, 0)"] fr by (simp add: candidates_def)
  have "deviation example_hot example_flat (0, 0) = 100" using dev[of "(0, 0)"] fr by simp
  then have "selected (deviation example_hot example_flat) 6 6 example_hot = {(0, 0)}" by (auto simp: selected_def c)
  then show ?thesis
    using defect_map_selects_first_deviants[OF ok(1-3), of 0 DefectMapBuilder_new 100 100] t ok(4) by (fastforce simp: clamp_aggr_def)
qed

section \<open>What the correction does\<close>

text \<open>The pixels around a pixel, as far as they are in the frame.\<close>

definition around :: "int \<times> int \<Rightarrow> int \<times> int \<Rightarrow> (int \<times> int) list" where
  "around sz p = filter (\<lambda>q. q \<noteq> p) (neighbours (rect_of_size sz) p)"

lemma neighbours_region: "neighbours r p = region (max 0 (fst p - 1)) (min (rw r - 1) (fst p + 1)) (max 0 (snd p - 1)) (min (rh r - 1) (snd p + 1))"
  by (simp add: neighbours_def near_def region_def)

lemma in_around: "(i, j) \<in> set (around (W, H) (x, y)) \<longleftrightarrow>
    (i \<noteq> x \<or> j \<noteq> y) \<and> x - 1 \<le> i \<and> i \<le> x + 1 \<and> y - 1 \<le> j \<and> j \<le> y + 1 \<and> 0 \<le> i \<and> i < W \<and> 0 \<le> j \<and> j < H"
  by (auto simp: around_def neighbours_region in_region rect_of_size_def)

lemma distinct_around: "distinct (around sz p)"
  by (simp add: around_def neighbours_region distinct_region)

lemma bordering_set:
  assumes "2 \<le> W" "2 \<le> H" and "0 \<le> x" "x < W" "0 \<le> y" "y < H"
  shows "\<exists>ps. bordering W H x y = Some ps \<and> distinct ps \<and> length ps \<in> {8, 5, 3} \<and>
    (\<forall>i j. (i, j) \<in> set ps \<longleftrightarrow> (i, j) \<in> set (around (W, H) (x, y)))"
proof -
  consider "x = 0" | "x = W - 1" "x \<noteq> 0" | "x \<noteq> 0" "x \<noteq> W - 1" "0 < x" "x < W - 1" using assms by linarith
  then show ?thesis
  proof cases
    case 1
    consider "y = 0" | "y = H - 1" "y \<noteq> 0" | "y \<noteq> 0" "y \<noteq> H - 1" "0 < y" "y < H - 1" using assms by linarith
    then show ?thesis by cases (use 1 assms in \<open>simp add: bordering_def in_around; presburger\<close>)+
  next
    case 2
    consider "y = 0" | "y = H - 1" "y \<noteq> 0" | "y \<noteq> 0" "y \<noteq> H - 1" "0 < y" "y < H - 1" using assms by linarith
    then show ?thesis by cases (use 2 assms in \<open>simp add: bordering_def in_around; presburger\<close>)+
  next
    case 3
    consider "y = 0" | "y = H - 1" "y \<noteq> 0" | "y \<noteq> 0" "y \<noteq> H - 1" "0 < y" "y < H - 1" using assms by linarith
    then show ?thesis by cases (use 3 assms in \<open>simp add: bordering_def in_around; presburger\<close>)+
  qed
qed

lemma bordering_around:
  assumes "2 \<le> W" "2 \<le> H" and "0 \<le> x" "x < W" "0 \<le> y" "y < H"
  shows "\<exists>ps. bordering W H x y = Some ps \<and> mset ps = mset (around (W, H) (x, y)) \<and> length ps \<in> {8, 5, 3}"
proof -
  obtain ps where ps: "bordering W H x y = Some ps" "distinct ps" "length ps \<in> {8, 5, 3}"
    "\<forall>i j. (i, j) \<in> set ps \<longleftrightarrow> (i, j) \<in> set (around (W, H) (x, y))" using bordering_set[OF assms] by blast
  have "set ps = set (around (W, H) (x, y))" using ps(4) by auto
  then have "mset ps = mset (around (W, H) (x, y))" by (rule mset_same_set[OF ps(2) distinct_around])
  then show ?thesis using ps(1,3) by blast
qed

lemma median_ref_mset: "mset vs = mset ws \<Longrightarrow> median_ref vs = median_ref ws"
proof -
  assume m: "mset vs = mset ws"
  then have "sort vs = sort ws" by (intro properties_for_sort) simp_all
  moreover have "length vs = length ws" using m by (rule mset_eq_length)
  ultimately show ?thesis by (simp add: median_ref_def kth_def Let_def)
qed

text \<open>A pixel of the frame and the median of the pixels around it.\<close>

definition at_px :: "16 word list \<Rightarrow> int \<Rightarrow> int \<times> int \<Rightarrow> 16 word" where
  "at_px d W p = d ! nat (snd p * W + fst p)"

definition around_median :: "16 word list \<Rightarrow> int \<times> int \<Rightarrow> int \<times> int \<Rightarrow> 16 word" where
  "around_median d sz p = median_ref (map (at_px d (fst sz)) (around sz p))"

definition in_frame :: "int \<times> int \<Rightarrow> int \<times> int \<Rightarrow> bool" where
  "in_frame sz p \<longleftrightarrow> 0 \<le> fst p \<and> fst p < fst sz \<and> 0 \<le> snd p \<and> snd p < snd sz"

lemma px_index_inj:
  assumes "in_frame sz p" "in_frame sz q" and "snd p * fst sz + fst p = snd q * fst sz + fst q"
  shows "p = q"
  using IX_inj[of "rect_of_size sz" sz p q] assms by (simp add: rect_in_def rect_of_size_def in_rect_def in_frame_def IX_def)

lemma MedianBorderingPixels_median:
  assumes "2 \<le> fst sz" "2 \<le> snd sz" and "in_frame sz p" and "int (length d) = fst sz * snd sz"
  shows "MedianBorderingPixels d sz (fst p) (snd p) = Some (around_median d sz p)"
proof -
  obtain W H where sz: "sz = (W, H)" by (cases sz)
  obtain x y where p: "p = (x, y)" by (cases p)
  have b: "2 \<le> W" "2 \<le> H" "0 \<le> x" "x < W" "0 \<le> y" "y < H" using assms(1-3) by (simp_all add: sz p in_frame_def)
  obtain ps where ps: "bordering W H x y = Some ps" "mset ps = mset (around (W, H) (x, y))" "length ps \<in> {8, 5, 3}"
    using bordering_around[OF b] by blast
  have ins: "\<forall>q\<in>set ps. 0 \<le> fst q \<and> fst q < W \<and> 0 \<le> snd q \<and> snd q < H"
  proof
    fix q assume "q \<in> set ps"
    then have "(fst q, snd q) \<in> set (around (W, H) (x, y))" using mset_eq_setD[OF ps(2)] by simp
    then show "0 \<le> fst q \<and> fst q < W \<and> 0 \<le> snd q \<and> snd q < H" unfolding in_around by blast
  qed
  have "\<forall>i\<in>set (map (\<lambda>q. fst q + snd q * W) ps). in_list d i"
    using ins px_in_frame[of d W H] assms(4) by (auto simp: sz add.commute)
  from rds_total[OF this] have r: "rds d (map (\<lambda>q. fst q + snd q * W) ps) = Some (map (at_px d W) ps)"
    by (simp add: at_px_def[abs_def] comp_def add.commute)
  have ml: "(if length vs = 8 then median8 vs else if length vs = 5 then median5 vs else median3 vs) = median_ref vs" if "length vs \<in> {8, 5, 3}" for vs
    using that median_even_kth[of 5 vs] median_odd_kth[of 3 vs] median_odd_kth[of 2 vs]
    by (auto simp: median_ref_def median8_def median5_def median3_def)
  have "MedianBorderingPixels d sz x y = Some (median_ref (map (at_px d W) ps))"
    unfolding MedianBorderingPixels_def sz fst_conv snd_conv ps(1) option.case r option.map
    using ml[of "map (at_px d W) ps"] ps(3) by simp
  moreover have "median_ref (map (at_px d W) ps) = around_median d sz p"
    unfolding around_median_def sz p fst_conv by (rule median_ref_mset) (simp add: ps(2))
  ultimately show ?thesis by (simp add: p)
qed

text \<open>Where a defect of the map lies in the frame, and the defects that are corrected.\<close>

definition in_light :: "usImage \<Rightarrow> int \<times> int \<Rightarrow> int \<times> int" where
  "in_light light it = (fst it - rx (LimitFrame light), snd it - ry (LimitFrame light))"

definition corrected :: "usImage \<Rightarrow> (int \<times> int) list \<Rightarrow> (int \<times> int) set" where
  "corrected light dm = {p \<in> in_light light ` set dm. rect_contains (active light) p}"

lemma remove_px_step:
  assumes "us_ok light" and "2 \<le> fst (Size light)" "2 \<le> snd (Size light)" and "int (length d) = fst (Size light) * snd (Size light)"
  shows "remove_px light it d = Some (if rect_contains (active light) (in_light light it)
    then d[nat (snd (in_light light it) * fst (Size light) + fst (in_light light it)) := around_median d (Size light) (in_light light it)] else d)"
proof -
  let ?p = "in_light light it"
  have c: "(if rect_empty (Subframe light) then fst ?p \<ge> 0 \<and> fst ?p < fst (Size light) \<and> snd ?p \<ge> 0 \<and> snd ?p < snd (Size light)
      else rect_contains (Subframe light) (fst ?p, snd ?p)) = rect_contains (active light) ?p"
    by (auto simp: active_def rect_contains_def rect_of_size_def)
  have e: "fst it - rx (LimitFrame light) = fst ?p" "snd it - ry (LimitFrame light) = snd ?p" by (simp_all add: in_light_def)
  show ?thesis
  proof (cases "rect_contains (active light) ?p")
    case True
    then have f: "in_frame (Size light) ?p" using active_in[OF assms(1)] by (auto simp: rect_contains_def rect_in_def in_frame_def)
    then have "in_list d (snd ?p * fst (Size light) + fst ?p)" using px_in_frame[OF assms(4)] by (simp add: in_frame_def)
    then show ?thesis unfolding remove_px_def Let_def e c using True MedianBorderingPixels_median[OF assms(2,3) f assms(4)]
      by (simp add: wr_def in_list_def)
  next
    case False
    then show ?thesis unfolding remove_px_def Let_def e c by simp
  qed
qed

text \<open>What holds of the pixels while the defects of a part of the map have been corrected.\<close>

definition correcting :: "usImage \<Rightarrow> (int \<times> int) set \<Rightarrow> (int \<times> int) list \<Rightarrow> 16 word list \<Rightarrow> bool" where
  "correcting light all dm d \<longleftrightarrow> length d = length (ImageData light) \<and>
     (\<forall>p. in_frame (Size light) p \<longrightarrow> p \<notin> corrected light dm \<longrightarrow> at_px d (fst (Size light)) p = at_px (ImageData light) (fst (Size light)) p) \<and>
     (\<forall>p\<in>corrected light dm. set (around (Size light) p) \<inter> all = {} \<longrightarrow>
        at_px d (fst (Size light)) p = around_median (ImageData light) (Size light) p)"

lemma correcting_step:
  assumes ok: "us_ok light" "2 \<le> fst (Size light)" "2 \<le> snd (Size light)"
    and c: "correcting light all dm d" and sub: "corrected light (dm @ [it]) \<subseteq> all"
  shows "\<exists>d'. remove_px light it d = Some d' \<and> correcting light all (dm @ [it]) d'"
proof -
  let ?W = "fst (Size light)" and ?p = "in_light light it" and ?D = "ImageData light"
  have D: "int (length ?D) = ?W * snd (Size light)" using ok(1) by (simp add: us_ok_def)
  have d: "length d = length ?D" "int (length d) = ?W * snd (Size light)" using c D by (simp_all add: correcting_def)
  have cu: "at_px d ?W p = at_px ?D ?W p" if "in_frame (Size light) p" "p \<notin> corrected light dm" for p using c that unfolding correcting_def by blast
  have cc: "at_px d ?W p = around_median ?D (Size light) p" if "p \<in> corrected light dm" "set (around (Size light) p) \<inter> all = {}" for p
    using c that unfolding correcting_def by blast
  show ?thesis
  proof (cases "rect_contains (active light) ?p")
    case False
    then have "corrected light (dm @ [it]) = corrected light dm" by (auto simp: corrected_def)
    then have "correcting light all (dm @ [it]) d" using c by (simp add: correcting_def)
    then show ?thesis using remove_px_step[OF ok d(2)] False by simp
  next
    case True
    let ?d' = "d[nat (snd ?p * ?W + fst ?p) := around_median d (Size light) ?p]"
    have f: "in_frame (Size light) ?p" using True active_in[OF ok(1)] by (auto simp: rect_contains_def rect_in_def in_frame_def)
    have ix: "0 \<le> snd p * ?W + fst p" "snd p * ?W + fst p < int (length d)" if "in_frame (Size light) p" for p
      using px_in_frame[OF d(2), of "fst p" "snd p"] that by (auto simp: in_frame_def in_list_def)
    have cor: "corrected light (dm @ [it]) = insert ?p (corrected light dm)" using True by (auto simp: corrected_def)
    have other: "at_px ?d' ?W p = at_px d ?W p" if "in_frame (Size light) p" "p \<noteq> ?p" for p
    proof -
      have "snd p * ?W + fst p \<noteq> snd ?p * ?W + fst ?p" using px_index_inj[OF that(1) f] that(2) by blast
      then have "nat (snd ?p * ?W + fst ?p) \<noteq> nat (snd p * ?W + fst p)" using ix(1)[OF that(1)] ix(1)[OF f] by (simp add: eq_nat_nat_iff)
      then show ?thesis by (simp add: at_px_def)
    qed
    have own: "at_px ?d' ?W ?p = around_median d (Size light) ?p" using ix[OF f] by (simp add: at_px_def)
    have clean: "around_median d (Size light) ?p = around_median ?D (Size light) ?p" if "set (around (Size light) ?p) \<inter> all = {}"
    proof -
      have "at_px d ?W q = at_px ?D ?W q" if "q \<in> set (around (Size light) ?p)" for q
      proof -
        obtain i j where "q = (i, j)" by (cases q)
        then have "in_frame (Size light) q" using that in_around[of i j ?W "snd (Size light)" "fst ?p" "snd ?p"] by (simp add: in_frame_def)
        moreover have "q \<notin> corrected light dm" using \<open>set (around (Size light) ?p) \<inter> all = {}\<close> that sub cor by blast
        ultimately show ?thesis by (rule cu)
      qed
      then have "map (at_px d ?W) (around (Size light) ?p) = map (at_px ?D ?W) (around (Size light) ?p)" by (rule map_cong[OF refl])
      then show ?thesis unfolding around_median_def by (rule arg_cong)
    qed
    have inf: "in_frame (Size light) p" if "p \<in> corrected light dm" for p
      using that active_in[OF ok(1)] by (auto simp: corrected_def rect_contains_def rect_in_def in_frame_def)
    have "correcting light all (dm @ [it]) ?d'"
      unfolding correcting_def cor
    proof (intro conjI allI impI ballI)
      show "length ?d' = length ?D" using d(1) by simp
      show "at_px ?d' ?W p = at_px ?D ?W p" if "in_frame (Size light) p" "p \<notin> insert ?p (corrected light dm)" for p
        using other[OF that(1)] cu[OF that(1)] that(2) by simp
      show "at_px ?d' ?W p = around_median ?D (Size light) p" if "p \<in> insert ?p (corrected light dm)" "set (around (Size light) p) \<inter> all = {}" for p
      proof (cases "p = ?p")
        case True
        then show ?thesis using own clean that(2) by simp
      next
        case False
        then have "p \<in> corrected light dm" using that(1) by simp
        then show ?thesis using other[OF inf False] cc that(2) by simp
      qed
    qed
    then show ?thesis using remove_px_step[OF ok d(2), of it] True by simp
  qed
qed

lemma corrected_mono: "set dm \<subseteq> set dm' \<Longrightarrow> corrected light dm \<subseteq> corrected light dm'"
  by (auto simp: corrected_def)

lemma RemoveDefects_correct:
  assumes "us_ok light" "2 \<le> fst (Size light)" "2 \<le> snd (Size light)"
  shows "\<exists>d. RemoveDefects light dm = Some (False, light\<lparr>ImageData := d\<rparr>) \<and> correcting light (corrected light dm) dm d"
proof -
  have "\<exists>d. fold_opt (remove_px light) ps (ImageData light) = Some d \<and> correcting light (corrected light dm) ps d" if "set ps \<subseteq> set dm" for ps
    using that
  proof (induction ps rule: rev_induct)
    case Nil
    then show ?case by (simp add: correcting_def corrected_def)
  next
    case (snoc it ps)
    then obtain d where d: "fold_opt (remove_px light) ps (ImageData light) = Some d" "correcting light (corrected light dm) ps d" by auto
    obtain d' where d': "remove_px light it d = Some d'" "correcting light (corrected light dm) (ps @ [it]) d'"
      using correcting_step[OF assms d(2) corrected_mono[OF snoc.prems]] by blast
    have app: "fold_opt f (xs @ [x]) t = fold_opt f xs t \<bind> f x" for f :: "int \<times> int \<Rightarrow> 'b \<Rightarrow> 'b option" and xs x t
      by (induction xs arbitrary: t) (auto split: bind_splits)
    show ?case using d(1) d' by (simp add: app)
  qed
  then obtain d where d: "fold_opt (remove_px light) dm (ImageData light) = Some d" "correcting light (corrected light dm) dm d" by blast
  have "4 \<le> fst (Size light) * snd (Size light)" using mult_mono[of 2 "fst (Size light)" 2 "snd (Size light)"] assms by simp
  then have "0 < int (length (ImageData light))" using assms(1) by (simp add: us_ok_def)
  then have "ImageData light \<noteq> []" by auto
  then have "RemoveDefects light dm = Some (False, light\<lparr>ImageData := d\<rparr>)" using d(1) by (simp add: RemoveDefects_def)
  then show ?thesis using d(2) by blast
qed

text \<open>C26: defects_replaced_by_neighbours. On every frame of at least two by two pixels the correction reads and writes only
  inside of the frame: a pixel in the map (moved by the limit frame, within the valid part) that has no
  other corrected pixel next to it becomes the median of the pixels around it, also on the edges and in
  the corners, and every pixel not in the map stays.\<close>

theorem defects_replaced_by_neighbours:
  assumes "us_ok light" "2 \<le> fst (Size light)" "2 \<le> snd (Size light)"
  shows "\<exists>d. RemoveDefects light dm = Some (False, light\<lparr>ImageData := d\<rparr>) \<and> length d = length (ImageData light) \<and>
     (\<forall>p. in_frame (Size light) p \<and> p \<notin> corrected light dm \<longrightarrow> at_px d (fst (Size light)) p = at_px (ImageData light) (fst (Size light)) p) \<and>
     (\<forall>p\<in>corrected light dm. set (around (Size light) p) \<inter> corrected light dm = {} \<longrightarrow>
        at_px d (fst (Size light)) p = around_median (ImageData light) (Size light) p)"
  using RemoveDefects_correct[OF assms, of dm] unfolding correcting_def by blast

theorem defects_replaced_by_neighbours_witness:
  "\<exists>d. RemoveDefects example_frame_image [(1, 1)] = Some (False, example_frame_image\<lparr>ImageData := d\<rparr>) \<and> uint (d ! 4) = 4 \<and> uint (d ! 0) = 9"
proof -
  have ok: "us_ok example_frame_image" "2 \<le> fst (Size example_frame_image)" "2 \<le> snd (Size example_frame_image)" "Size example_frame_image = (3, 3)"
    by (simp_all add: us_ok_def example_frame_image_def rect_empty_def)
  have c: "corrected example_frame_image [(1, 1)] = {(1, 1)}"
    by (auto simp: corrected_def in_light_def rect_contains_def active_def rect_of_size_def rect_empty_def example_frame_image_def)
  have a: "around (3, 3) (1, 1) = [(0,0),(1,0),(2,0),(0,1),(2,1),(0,2),(1,2),(2,2)]"
    by (simp add: around_def neighbours_def near_def rect_of_size_def upto_rec1)
  have m: "around_median (ImageData example_frame_image) (3, 3) (1, 1) = 4"
    unfolding around_median_def a by (simp add: at_px_def example_frame_image_def median_ref_def Let_def kth_def average_def word_le_nat_alt)
  obtain d where d: "RemoveDefects example_frame_image [(1, 1)] = Some (False, example_frame_image\<lparr>ImageData := d\<rparr>)"
    "\<forall>p. in_frame (3, 3) p \<and> p \<noteq> (1, 1) \<longrightarrow> at_px d 3 p = at_px (ImageData example_frame_image) 3 p"
    "set (around (3, 3) (1, 1)) \<inter> {(1, 1)} = {} \<longrightarrow> at_px d 3 (1, 1) = 4"
    using defects_replaced_by_neighbours[OF ok(1-3), of "[(1, 1)]"] unfolding c ok(4) by (auto simp: m)
  have "at_px d 3 (1, 1) = 4" using d(3) by (simp add: a)
  moreover have "at_px d 3 (0, 0) = 9" using d(2)[rule_format, of "(0, 0)"] by (simp add: in_frame_def at_px_def example_frame_image_def)
  ultimately show ?thesis using d(1) by (intro exI[of _ d]) (simp add: at_px_def)
qed

end
