(* ===== verification/Star_Peaks.thy ===== *)
theory Star_Peaks
  imports Image_Stats Guiding_Stats Ordered_Set "HOL-Library.Sublist"
begin

text \<open>
  The first half of \<open>GuideStar::AutoFind\<close> of \<open>src/star.cpp\<close>: from a frame to the list of peaks that may be
  stars.  The frame is smoothed, downsampled and convolved with a model of a star; each local maximum
  that stands out is kept in a \<open>std::set\<close> ordered by intensity, at most a hundred; then peaks very close
  to a brighter one are merged, pairs within one search region are dropped, and so are those near the
  edge.  Floats are reals; a quotient by zero (a convolved frame without any variation) is \<^term>\<open>None\<close>.
  Reading outside of a frame is \<^term>\<open>None\<close> too.
\<close>

section \<open>Floating point frames\<close>

record FloatImg =
  fpx :: "real list"
  fsize :: "int \<times> int"

definition FloatImg_of :: "usImage \<Rightarrow> FloatImg" where
  "FloatImg_of img = \<lparr>fpx = map (\<lambda>v. real_of_int (uint v)) (ImageData img), fsize = Size img\<rparr>"

definition frd :: "FloatImg \<Rightarrow> int \<Rightarrow> real option" where
  "frd img i = (if 0 \<le> i \<and> i < int (length (fpx img)) then Some (fpx img ! nat i) else None)"

text \<open>Mean and standard deviation in a window: the sums of the loop, then the results.\<close>

definition fstat_px :: "FloatImg \<Rightarrow> Rect \<Rightarrow> int \<times> int \<Rightarrow> real \<times> real \<times> real \<times> real \<times> real \<Rightarrow> (real \<times> real \<times> real \<times> real \<times> real) option" where
  "fstat_px img win p s =
     (let (sum, a, q, k, km1) = s
      in do { x \<leftarrow> frd img ((ry win + snd p) * fst (fsize img) + rx win + fst p);
              let a1 = a + (x - a) / k in Some (sum + x, a1, q + (x - a) * (x - a1), k + 1, k) })"

definition FloatImg_GetStats :: "FloatImg \<Rightarrow> Rect \<Rightarrow> (real option \<times> real option) option" where
  "FloatImg_GetStats img win =
     do { (sum, a, q, k, km1) \<leftarrow> fold_opt (fstat_px img win) (region 0 (rw win - 1) 0 (rh win - 1)) (0, 0, 0, 1, 0);
          Some (qdiv sum km1, map_option sqrt (qdiv q km1)) }"

section \<open>Convolution with the model of a star\<close>

text \<open>The groups of pixels of the comment in the code, as offsets, and their weights.\<close>

definition offs_B1 :: "(int \<times> int) list" where "offs_B1 = [(0, -1), (0, 1), (1, 0), (-1, 0)]"
definition offs_B2 :: "(int \<times> int) list" where "offs_B2 = [(-1, -1), (1, -1), (-1, 1), (1, 1)]"
definition offs_C1 :: "(int \<times> int) list" where "offs_C1 = [(0, -2), (-2, 0), (2, 0), (0, 2)]"
definition offs_C2 :: "(int \<times> int) list" where
  "offs_C2 = [(-1, -2), (1, -2), (-2, -1), (2, -1), (-2, 1), (2, 1), (-1, 2), (1, 2)]"
definition offs_C3 :: "(int \<times> int) list" where "offs_C3 = [(-2, -2), (2, -2), (-2, 2), (2, 2)]"
definition offs_D1 :: "(int \<times> int) list" where "offs_D1 = [(0, -3), (-3, 0), (3, 0), (0, 3)]"
definition offs_D2 :: "(int \<times> int) list" where
  "offs_D2 = [(-1, -3), (1, -3), (-3, -1), (3, -1), (-3, 1), (3, 1), (-1, 3), (1, 3)]"
definition offs_D3 :: "(int \<times> int) list" where
  "offs_D3 = [(-4, -2), (-3, -2), (3, -2), (4, -2), (-4, -1), (4, -1), (-4, 0), (4, 0), (-4, 1), (4, 1), (-4, 2), (-3, 2), (3, 2), (4, 2)]
     @ map (\<lambda>i. (i, -4)) [-4..4] @ map (\<lambda>i. (i, -3)) ([-4..-2] @ [2..4]) @ map (\<lambda>i. (i, 3)) ([-4..-2] @ [2..4]) @ map (\<lambda>i. (i, 4)) [-4..4]"

definition PSF :: "(real \<times> (int \<times> int) list) list" where
  "PSF = [(0.906, [(0, 0)]), (0.584, offs_B1), (0.365, offs_B2), (0.117, offs_C1), (0.049, offs_C2), (-0.05, offs_C3),
     (-0.064, offs_D1), (-0.074, offs_D2), (-0.094, offs_D3)]"

text \<open>The sum of a group around a pixel.\<close>

definition psf_group :: "FloatImg \<Rightarrow> int \<times> int \<Rightarrow> (int \<times> int) list \<Rightarrow> real option" where
  "psf_group src p offs =
     fold_opt (\<lambda>d s. map_option (\<lambda>v. s + v) (frd src (fst (fsize src) * (snd p + snd d) + fst p + fst d))) offs 0"

definition psf_fit :: "FloatImg \<Rightarrow> int \<times> int \<Rightarrow> real option" where
  "psf_fit src p =
     do { gs \<leftarrow> opt_map (psf_group src p) (map snd PSF);
          let mean = sum_list gs / 81
          in Some (sum_list (map2 (\<lambda>w g. fst w * (g - real (length (snd w)) * mean)) PSF gs)) }"

definition psf_size :: int where "psf_size = 4"

definition psf_conv :: "FloatImg \<Rightarrow> FloatImg option" where
  "psf_conv src =
     (let w = fst (fsize src); h = snd (fsize src)
      in do { px \<leftarrow> opt_map (\<lambda>p. if psf_size \<le> fst p \<and> fst p < w - psf_size \<and> psf_size \<le> snd p \<and> snd p < h - psf_size
                               then psf_fit src p else Some 0) (region 0 (w - 1) 0 (h - 1));
              Some \<lparr>fpx = px, fsize = fsize src\<rparr> })"

definition down_px :: "FloatImg \<Rightarrow> int \<Rightarrow> int \<times> int \<Rightarrow> real option" where
  "down_px src d p =
     map_option (\<lambda>s. s / real_of_int (d * d))
       (fold_opt (\<lambda>q s. map_option (\<lambda>v. s + v) (frd src ((snd p * d + snd q) * fst (fsize src) + fst p * d + fst q)))
          (region 0 (d - 1) 0 (d - 1)) 0)"

definition Downsample :: "FloatImg \<Rightarrow> int \<Rightarrow> FloatImg option" where
  "Downsample src d =
     (let dw = c_quot (fst (fsize src)) d; dh = c_quot (snd (fsize src)) d
      in do { px \<leftarrow> opt_map (down_px src d) (region 0 (dw - 1) 0 (dh - 1)); Some \<lparr>fpx = px, fsize = (dw, dh)\<rparr> })"

section \<open>Peaks\<close>

record Peak =
  peak_x :: int
  peak_y :: int
  peak_val :: "real option"

definition peak_less :: "Peak \<Rightarrow> Peak \<Rightarrow> bool" where
  "peak_less a b = (case (peak_val a, peak_val b) of (Some x, Some y) \<Rightarrow> x < y | _ \<Rightarrow> False)"

interpretation peak_set: ordset peak_less peak_val
  by unfold_locales (auto simp: peak_less_def split: option.splits)

definition srch :: int where "srch = 4"
definition CONV_RADIUS :: int where "CONV_RADIUS = 4"
definition TOP_N :: nat where "TOP_N = 100"

text \<open>The region of the convolved frame with valid data.\<close>

definition conv_rect :: "FloatImg \<Rightarrow> Rect" where
  "conv_rect conv = \<lparr>rx = CONV_RADIUS, ry = CONV_RADIUS, rw = fst (fsize conv) - 2 * CONV_RADIUS, rh = snd (fsize conv) - 2 * CONV_RADIUS\<rparr>"

definition is_local_max :: "FloatImg \<Rightarrow> int \<times> int \<Rightarrow> real \<Rightarrow> bool option" where
  "is_local_max conv p val =
     (if val > 0
      then map_option (\<lambda>vs. \<forall>v\<in>set vs. \<not> v > val)
             (opt_map (\<lambda>d. frd conv (fst (fsize conv) * (snd p + snd d) + (fst p + fst d)))
                (filter (\<lambda>d. d \<noteq> (0, 0)) (region (- srch) srch (- srch) srch)))
      else Some False)"

text \<open>
  One pixel: a local maximum that rises above the mean of its surroundings by a tenth of the global
  deviation is inserted; of more than a hundred the dimmest leaves.  A comparison with a NaN is false.
\<close>

definition insert_peak :: "Peak \<Rightarrow> Peak list \<Rightarrow> Peak list" where
  "insert_peak pk stars = (let s = ordset_insert peak_less pk stars in if length s > TOP_N then tl s else s)"

definition peak_px :: "(Rect \<Rightarrow> Rect \<Rightarrow> Rect) \<Rightarrow> FloatImg \<Rightarrow> int \<Rightarrow> real option \<Rightarrow> int \<times> int \<Rightarrow> Peak list \<Rightarrow> Peak list option" where
  "peak_px isect conv downsample global_stdev p stars =
     do { val \<leftarrow> frd conv (fst (fsize conv) * snd p + fst p);
          ismax \<leftarrow> is_local_max conv p val;
          if \<not> ismax then Some stars
          else do { (local_mean, local_stdev) \<leftarrow> FloatImg_GetStats conv (isect \<lparr>rx = fst p - 7, ry = snd p - 7, rw = 15, rh = 15\<rparr> (conv_rect conv));
                    let h = (case (local_mean, global_stdev) of (Some m, Some sd) \<Rightarrow> qdiv (val - m) sd | _ \<Rightarrow> None)
                    in Some (if (case h of Some v \<Rightarrow> v < 0.1 | None \<Rightarrow> False) then stars
                             else insert_peak \<lparr>peak_x = fst p * downsample + downsample div 2,
                                               peak_y = snd p * downsample + downsample div 2, peak_val = h\<rparr> stars) } }"

definition local_maxima :: "(Rect \<Rightarrow> Rect \<Rightarrow> Rect) \<Rightarrow> FloatImg \<Rightarrow> int \<Rightarrow> Peak list option" where
  "local_maxima isect conv downsample =
     (let r = conv_rect conv
      in do { (m, sd) \<leftarrow> FloatImg_GetStats conv r;
              fold_opt (peak_px isect conv downsample sd)
                (region (rx r + srch) (rx r + rw r - 1 - srch) (ry r + srch) (ry r + rh r - 1 - srch)) [] })"

section \<open>Merging and excluding\<close>

definition very_close :: "Peak \<Rightarrow> Peak \<Rightarrow> bool" where
  "very_close a b = (let dx = peak_x a - peak_x b; dy = peak_y a - peak_y b in dx * dx + dy * dy < 25)"

text \<open>One turn: the first peak with a brighter one very close to it is erased, then all starts again.\<close>

fun drop_close :: "Peak list \<Rightarrow> Peak list option" where
  "drop_close [] = None"
| "drop_close (a # bs) = (if \<exists>b\<in>set bs. very_close a b then Some bs else map_option (\<lambda>cs. a # cs) (drop_close bs))"

lemma drop_close_shorter: "drop_close ps = Some qs \<Longrightarrow> length qs < length ps"
  by (induction ps arbitrary: qs) (auto split: if_splits)

function merge_close :: "Peak list \<Rightarrow> Peak list" where
  "merge_close ps = (case drop_close ps of None \<Rightarrow> ps | Some qs \<Rightarrow> merge_close qs)"
  by pat_completeness auto

termination by (relation "measure length") (auto simp: drop_close_shorter)

declare merge_close.simps [simp del]

text \<open>A pair in one search region, unless the second is at least five times as bright.\<close>

definition too_close :: "int \<Rightarrow> Peak \<Rightarrow> Peak \<Rightarrow> bool" where
  "too_close searchRegion a b =
     (let fullw = searchRegion + 5
      in \<bar>peak_x a - peak_x b\<bar> \<le> fullw \<and> \<bar>peak_y a - peak_y b\<bar> \<le> fullw \<and>
         \<not> (case (peak_val b, peak_val a) of (Some y, Some x) \<Rightarrow> (case qdiv y x of Some r \<Rightarrow> r \<ge> 5 | None \<Rightarrow> y > 0) | _ \<Rightarrow> False))"

text \<open>The positions of the peaks to be erased, and the erasure by counting.\<close>

definition to_erase :: "int \<Rightarrow> Peak list \<Rightarrow> nat set" where
  "to_erase searchRegion ps =
     (let is = [0..<length ps]; pairs = filter (\<lambda>ij. fst ij < snd ij \<and> too_close searchRegion (ps ! fst ij) (ps ! snd ij)) (List.product is is)
      in fst ` set pairs \<union> snd ` set pairs)"

definition RemoveItems :: "Peak list \<Rightarrow> nat set \<Rightarrow> Peak list" where
  "RemoveItems ps es = map snd (filter (\<lambda>np. fst np \<notin> es) (enumerate 0 ps))"

definition exclude_close :: "int \<Rightarrow> Peak list \<Rightarrow> Peak list" where
  "exclude_close searchRegion ps = RemoveItems ps (to_erase searchRegion ps)"

definition near_edge :: "int \<Rightarrow> int \<times> int \<Rightarrow> Peak \<Rightarrow> bool" where
  "near_edge edgeDist sz p \<longleftrightarrow> peak_x p \<le> edgeDist \<or> peak_x p \<ge> fst sz - edgeDist \<or> peak_y p \<le> edgeDist \<or> peak_y p \<ge> snd sz - edgeDist"

definition exclude_edge :: "int \<Rightarrow> int \<times> int \<Rightarrow> Peak list \<Rightarrow> Peak list" where
  "exclude_edge edgeDist sz ps = filter (\<lambda>p. \<not> near_edge edgeDist sz p) ps"

section \<open>All stages\<close>

text \<open>
  \<open>downsample0\<close> is the setting (0: automatic by the pixel scale).  \<^term>\<open>Some None\<close>: the call ends without a
  star because the frame is a subframe or the region of interest is too small.
\<close>

definition auto_downsample :: "int \<Rightarrow> real \<Rightarrow> int" where
  "auto_downsample downsample0 scale = (if downsample0 = 0 then (if scale > 0.6 then 1 else 2) else downsample0)"

definition smooth :: "(Rect \<Rightarrow> Rect \<Rightarrow> Rect) \<Rightarrow> 16 word list \<Rightarrow> usImage \<Rightarrow> int \<Rightarrow> Rect \<Rightarrow> usImage option option" where
  "smooth isect junk im searchRegion roi =
     (let s0 = (us_Init [] (Size im) (im\<lparr>ImageData := []\<rparr>))\<lparr>ImageData := ImageData im\<rparr>;
          s1 = (if rect_empty roi then s0 else s0\<lparr>Subframe := isect roi (rect_of_size (Size s0))\<rparr>)
      in if \<not> rect_empty roi \<and> (rw (Subframe s1) < searchRegion \<or> rh (Subframe s1) < searchRegion) then Some None
         else map_option Some (Median3 junk s1))"

definition find_peaks :: "(Rect \<Rightarrow> Rect \<Rightarrow> Rect) \<Rightarrow> 16 word list \<Rightarrow> int \<Rightarrow> real \<Rightarrow> usImage \<Rightarrow> int \<Rightarrow> int \<Rightarrow> Rect \<Rightarrow> Peak list option option" where
  "find_peaks isect junk downsample0 scale im extraEdgeAllowance searchRegion roi =
     (if \<not> rect_empty (Subframe im) then Some None
      else do { sm \<leftarrow> smooth isect junk im searchRegion roi;
                case sm of None \<Rightarrow> Some None
                | Some smo \<Rightarrow>
                    let downsample = auto_downsample downsample0 scale
                    in do { conv0 \<leftarrow> (if downsample > 1 then Downsample (FloatImg_of smo) downsample else Some (FloatImg_of smo));
                            conv \<leftarrow> psf_conv conv0;
                            stars \<leftarrow> local_maxima isect conv downsample;
                            Some (Some (exclude_edge (searchRegion + extraEdgeAllowance) (Size im)
                                   (exclude_close searchRegion (merge_close stars)))) } })"

section \<open>Every stage completes\<close>

definition fimg_ok :: "FloatImg \<Rightarrow> bool" where
  "fimg_ok f \<longleftrightarrow> 0 \<le> fst (fsize f) \<and> 0 \<le> snd (fsize f) \<and> int (length (fpx f)) = fst (fsize f) * snd (fsize f)"

lemma frd_some:
  assumes "fimg_ok f" and "0 \<le> x" "x < fst (fsize f)" "0 \<le> y" "y < snd (fsize f)" and "i = y * fst (fsize f) + x"
  shows "frd f i = Some (fpx f ! nat i)"
proof -
  have "y * fst (fsize f) \<le> (snd (fsize f) - 1) * fst (fsize f)" using assms by (intro mult_right_mono) auto
  then have "i < snd (fsize f) * fst (fsize f)" using assms(3,6) by (simp add: algebra_simps)
  moreover have "0 \<le> i" using assms by (simp add: mult_nonneg_nonneg)
  ultimately show ?thesis using assms(1) by (simp add: frd_def fimg_ok_def mult.commute)
qed

lemma opt_map_some: "(\<And>x. x \<in> set xs \<Longrightarrow> \<exists>y. f x = Some y) \<Longrightarrow> \<exists>ys. opt_map f xs = Some ys \<and> length ys = length xs"
  by (induction xs) fastforce+

lemma fold_opt_some:
  assumes "\<And>p s. p \<in> set ps \<Longrightarrow> \<exists>s'. f p s = Some s'"
  shows "\<exists>s'. fold_opt f ps s = Some s'"
  using fold_opt_inv[of ps "\<lambda>_. True" f s] assms by auto

lemma FloatImg_total:
  assumes "fimg_ok f" and "rect_in win (fsize f)"
  shows "\<exists>m sd. FloatImg_GetStats f win = Some (m, sd)"
proof -
  have "\<exists>s'. fstat_px f win p s = Some s'" if "p \<in> set (region 0 (rw win - 1) 0 (rh win - 1))" for p s
  proof -
    have "frd f ((ry win + snd p) * fst (fsize f) + rx win + fst p) = Some (fpx f ! nat ((ry win + snd p) * fst (fsize f) + rx win + fst p))"
      using that assms(2) by (intro frd_some[OF assms(1), of "rx win + fst p" "ry win + snd p"]) (auto simp: in_region rect_in_def)
    then show ?thesis by (cases s) (simp add: fstat_px_def Let_def)
  qed
  then obtain s where "fold_opt (fstat_px f win) (region 0 (rw win - 1) 0 (rh win - 1)) (0, 0, 0, 1, 0) = Some s" using fold_opt_some by meson
  then show ?thesis by (cases s) (simp add: FloatImg_GetStats_def)
qed

text \<open>The groups cover the block of nine by nine pixels, each once.\<close>

lemma psf_groups_distinct: "distinct (concat (map snd PSF))" "length (concat (map snd PSF)) = 81"
  by (simp_all add: PSF_def offs_B1_def offs_B2_def offs_C1_def offs_C2_def offs_C3_def offs_D1_def offs_D2_def offs_D3_def upto_rec1)

lemma psf_groups_within: "list_all (\<lambda>d. - 4 \<le> fst d \<and> fst d \<le> 4 \<and> - 4 \<le> snd d \<and> snd d \<le> 4) (concat (map snd PSF))"
  by (simp add: PSF_def offs_B1_def offs_B2_def offs_C1_def offs_C2_def offs_C3_def offs_D1_def offs_D2_def offs_D3_def upto_rec1)

lemma psf_groups_cover: "mset (concat (map snd PSF)) = mset (region (- 4) 4 (- 4) 4)"
proof (rule mset_same_set[OF psf_groups_distinct(1) distinct_region])
  show "set (concat (map snd PSF)) = set (region (- 4) 4 (- 4) 4)"
  proof (rule card_subset_eq)
    show "set (concat (map snd PSF)) \<subseteq> set (region (- 4) 4 (- 4) 4)"
    proof
      fix d assume "d \<in> set (concat (map snd PSF))"
      then show "d \<in> set (region (- 4) 4 (- 4) 4)" using psf_groups_within unfolding list_all_iff in_region by blast
    qed
    have "length (region (- 4) 4 (- 4) 4) = 81" by (simp add: region_def upto_rec1)
    then show "card (set (concat (map snd PSF))) = card (set (region (- 4) 4 (- 4) 4))"
      using distinct_card[OF psf_groups_distinct(1)] distinct_card[OF distinct_region[of "- 4" 4 "- 4" 4]] psf_groups_distinct(2) by simp
  qed simp
qed

lemma psf_offsets: "set (concat (map snd PSF)) = set (region (- 4) 4 (- 4) 4)"
  by (rule mset_eq_setD[OF psf_groups_cover])

lemma psf_group_sum:
  assumes "\<And>d. d \<in> set offs \<Longrightarrow> frd src (fst (fsize src) * (snd p + snd d) + fst p + fst d) = Some (g d)"
  shows "psf_group src p offs = Some (\<Sum>d\<leftarrow>offs. g d)"
proof -
  have "fold_opt (\<lambda>d s. map_option (\<lambda>v. s + v) (frd src (fst (fsize src) * (snd p + snd d) + fst p + fst d))) offs s = Some (s + (\<Sum>d\<leftarrow>offs. g d))" for s
    using assms by (induction offs arbitrary: s) (simp_all add: add.assoc)
  then show ?thesis by (simp add: psf_group_def)
qed

lemma psf_fit_value:
  assumes "fimg_ok src" and "4 \<le> fst p" "fst p < fst (fsize src) - 4" "4 \<le> snd p" "snd p < snd (fsize src) - 4"
  defines "g \<equiv> \<lambda>d. fpx src ! nat ((snd p + snd d) * fst (fsize src) + (fst p + fst d))"
  shows "psf_fit src p = Some (let mean = (\<Sum>d\<leftarrow>concat (map snd PSF). g d) / 81
    in \<Sum>w\<leftarrow>PSF. fst w * ((\<Sum>d\<leftarrow>snd w. g d) - real (length (snd w)) * mean))"
proof -
  have rd: "frd src (fst (fsize src) * (snd p + snd d) + fst p + fst d) = Some (g d)" if "w \<in> set PSF" "d \<in> set (snd w)" for w d
  proof -
    have "d \<in> set (concat (map snd PSF))" using that by auto
    then have "d \<in> set (region (- 4) 4 (- 4) 4)" unfolding psf_offsets .
    then have "-4 \<le> fst d" "fst d \<le> 4" "-4 \<le> snd d" "snd d \<le> 4" by (simp_all add: in_region)
    then have "frd src ((snd p + snd d) * fst (fsize src) + (fst p + fst d)) = Some (g d)"
      unfolding g_def using assms(2-5) by (intro frd_some[OF assms(1)]) simp_all
    then show ?thesis by (simp add: mult.commute add.assoc)
  qed
  have 1: "opt_map (psf_group src p) (map snd PSF) = Some (map (\<lambda>offs. \<Sum>d\<leftarrow>offs. g d) (map snd PSF))"
    using rd by (intro opt_map_total ballI psf_group_sum) force
  have 2: "sum_list (map (\<lambda>offs. \<Sum>d\<leftarrow>offs. g d) oss) = (\<Sum>d\<leftarrow>concat oss. g d)" for oss
    by (induction oss) simp_all
  have 3: "map2 (\<lambda>w v. fst w * (v - real (length (snd w)) * m)) PSF (map (\<lambda>offs. \<Sum>d\<leftarrow>offs. g d) (map snd PSF)) =
      map (\<lambda>w. fst w * ((\<Sum>d\<leftarrow>snd w. g d) - real (length (snd w)) * m)) PSF" for m
    by (simp add: zip_map2 zip_same_conv_map comp_def)
  show ?thesis unfolding psf_fit_def 1 bind.bind_lunit Let_def 2 3 ..
qed

text \<open>Where the frame is flat the fit is zero.\<close>

lemma psf_fit_flat:
  assumes "fimg_ok src" and "4 \<le> fst p" "fst p < fst (fsize src) - 4" "4 \<le> snd p" "snd p < snd (fsize src) - 4"
    and "\<And>d. d \<in> set (region (- 4) 4 (- 4) 4) \<Longrightarrow> fpx src ! nat ((snd p + snd d) * fst (fsize src) + (fst p + fst d)) = c"
  shows "psf_fit src p = Some 0"
proof -
  let ?g = "\<lambda>d. fpx src ! nat ((snd p + snd d) * fst (fsize src) + (fst p + fst d))"
  have g: "?g d = c" if "d \<in> set (concat (map snd PSF))" for d using assms(6) that unfolding psf_offsets by blast
  have c: "(\<Sum>d\<leftarrow>ds. ?g d) = real (length ds) * c" if "set ds \<subseteq> set (concat (map snd PSF))" for ds
    using that g by (induction ds) (simp_all add: algebra_simps)
  have m: "(\<Sum>d\<leftarrow>concat (map snd PSF). ?g d) / 81 = c" using c[of "concat (map snd PSF)"] unfolding psf_groups_distinct(2) by simp
  have "(\<Sum>w\<leftarrow>PSF. fst w * ((\<Sum>d\<leftarrow>snd w. ?g d) - real (length (snd w)) * c)) = (\<Sum>w\<leftarrow>PSF. 0)"
    by (intro arg_cong[of _ _ sum_list] map_cong refl) (subst c, auto)
  then show ?thesis unfolding psf_fit_value[OF assms(1-5)] Let_def m by simp
qed

lemma region_nat_length: "0 \<le> w \<Longrightarrow> 0 \<le> h \<Longrightarrow> length ys = length (region 0 (w - 1) 0 (h - 1)) \<Longrightarrow> int (length ys) = w * h"
  using region_length[of w h] by simp

lemma psf_conv_total:
  assumes "fimg_ok src"
  shows "\<exists>conv. psf_conv src = Some conv \<and> fimg_ok conv \<and> fsize conv = fsize src"
proof -
  let ?R = "region 0 (fst (fsize src) - 1) 0 (snd (fsize src) - 1)"
  let ?f = "\<lambda>p. if psf_size \<le> fst p \<and> fst p < fst (fsize src) - psf_size \<and> psf_size \<le> snd p \<and> snd p < snd (fsize src) - psf_size
    then psf_fit src p else Some 0"
  have "\<exists>y. ?f p = Some y" for p using psf_fit_value[OF assms, of p] by (simp add: psf_size_def)
  from opt_map_some[OF this, of "\<lambda>p. p" ?R] obtain px where px: "opt_map ?f ?R = Some px" "length px = length ?R" by auto
  have "int (length px) = fst (fsize src) * snd (fsize src)" using px(2) assms by (intro region_nat_length) (simp_all add: fimg_ok_def)
  then show ?thesis using px(1) assms by (simp add: psf_conv_def Let_def fimg_ok_def)
qed

lemma c_quot_nonneg: "0 \<le> a \<Longrightarrow> 0 < b \<Longrightarrow> c_quot a b = a div b"
  by (cases "a = 0") (simp_all add: c_quot_def)

lemma Downsample_total:
  assumes "fimg_ok src" and "1 \<le> d"
  shows "\<exists>img. Downsample src d = Some img \<and> fimg_ok img \<and> fsize img = (fst (fsize src) div d, snd (fsize src) div d)"
proof -
  let ?W = "fst (fsize src)" and ?H = "snd (fsize src)"
  let ?dw = "?W div d" and ?dh = "?H div d"
  have sz: "0 \<le> ?W" "0 \<le> ?H" using assms(1) by (simp_all add: fimg_ok_def)
  have q: "c_quot ?W d = ?dw" "c_quot ?H d = ?dh" "0 \<le> ?dw" "0 \<le> ?dh" using sz assms(2) by (simp_all add: c_quot_nonneg pos_imp_zdiv_nonneg_iff)
  have "\<exists>v. down_px src d p = Some v" if p: "p \<in> set (region 0 (?dw - 1) 0 (?dh - 1))" for p
  proof -
    have "\<exists>s'. map_option (\<lambda>v. s + v) (frd src ((snd p * d + snd r) * ?W + fst p * d + fst r)) = Some s'"
      if r: "r \<in> set (region 0 (d - 1) 0 (d - 1))" for r s
    proof -
      have b: "0 \<le> fst p" "fst p + 1 \<le> ?dw" "0 \<le> snd p" "snd p + 1 \<le> ?dh" "0 \<le> fst r" "fst r < d" "0 \<le> snd r" "snd r < d"
        using p r by (simp_all add: in_region)
      have "(fst p + 1) * d \<le> ?dw * d" "(snd p + 1) * d \<le> ?dh * d" using b assms(2) by (intro mult_right_mono; simp)+
      moreover have "?dw * d \<le> ?W" "?dh * d \<le> ?H"
        using assms(2) div_mult_mod_eq[of ?W d] div_mult_mod_eq[of ?H d] pos_mod_sign[of d ?W] pos_mod_sign[of d ?H] by linarith+
      ultimately have "fst p * d + fst r < ?W" "snd p * d + snd r < ?H" using b by (simp_all add: algebra_simps)
      then have "frd src ((snd p * d + snd r) * ?W + (fst p * d + fst r)) = Some (fpx src ! nat ((snd p * d + snd r) * ?W + (fst p * d + fst r)))"
        using b assms(2) by (intro frd_some[OF assms(1)]) simp_all
      then show ?thesis by (simp add: add.assoc)
    qed
    then obtain s where "fold_opt (\<lambda>q s. map_option (\<lambda>v. s + v) (frd src ((snd p * d + snd q) * ?W + fst p * d + fst q))) (region 0 (d - 1) 0 (d - 1)) 0 = Some s"
      using fold_opt_some by meson
    then show ?thesis by (simp add: down_px_def)
  qed
  then have "\<exists>px. opt_map (down_px src d) (region 0 (?dw - 1) 0 (?dh - 1)) = Some px \<and> length px = length (region 0 (?dw - 1) 0 (?dh - 1))"
    by (rule opt_map_some)
  then obtain px where px: "opt_map (down_px src d) (region 0 (?dw - 1) 0 (?dh - 1)) = Some px"
    "length px = length (region 0 (?dw - 1) 0 (?dh - 1))" by blast
  have "int (length px) = ?dw * ?dh" using px(2) q(3,4) by (intro region_nat_length) simp_all
  then show ?thesis using px(1) q by (simp add: Downsample_def Let_def fimg_ok_def)
qed

section \<open>The set of peaks\<close>

text \<open>Every peak lies at a pixel of the search area, scaled to the frame; the set is ordered and bounded.\<close>

definition peak_at :: "FloatImg \<Rightarrow> int \<Rightarrow> Peak \<Rightarrow> bool" where
  "peak_at conv d pk \<longleftrightarrow> (\<exists>x y. 8 \<le> x \<and> x < fst (fsize conv) - 8 \<and> 8 \<le> y \<and> y < snd (fsize conv) - 8 \<and>
     peak_x pk = x * d + d div 2 \<and> peak_y pk = y * d + d div 2)"

definition peaks_ok :: "FloatImg \<Rightarrow> int \<Rightarrow> Peak list \<Rightarrow> bool" where
  "peaks_ok conv d ps \<longleftrightarrow> sorted_wrt peak_less ps \<and> length ps \<le> TOP_N \<and> (\<forall>pk\<in>set ps. peak_at conv d pk)"

lemma insert_peak_ok: "peaks_ok conv d ps \<Longrightarrow> peak_at conv d pk \<Longrightarrow> peaks_ok conv d (insert_peak pk ps)"
proof -
  assume ok: "peaks_ok conv d ps" and pk: "peak_at conv d pk"
  let ?s = "ordset_insert peak_less pk ps"
  have s: "sorted_wrt peak_less ?s" "length ?s \<le> Suc TOP_N" "\<forall>q\<in>set ?s. peak_at conv d q"
    using ok pk peak_set.insert_sorted[of ps pk] peak_set.insert_length[of pk ps] peak_set.insert_subset(1)[of pk ps] by (auto simp: peaks_ok_def)
  have "sorted_wrt peak_less (tl ?s)" "set (tl ?s) \<subseteq> set ?s" using s(1) by (cases ?s; auto)+
  then show ?thesis using s by (auto simp: peaks_ok_def insert_peak_def Let_def)
qed

lemma is_local_max_total:
  assumes "fimg_ok conv" and "4 \<le> fst p" "fst p < fst (fsize conv) - 4" "4 \<le> snd p" "snd p < snd (fsize conv) - 4"
  shows "\<exists>b. is_local_max conv p v = Some b"
proof -
  have "\<exists>y. frd conv (fst (fsize conv) * (snd p + snd d) + (fst p + fst d)) = Some y" if "d \<in> set (filter (\<lambda>d. d \<noteq> (0, 0)) (region (- srch) srch (- srch) srch))" for d
  proof -
    have "-4 \<le> fst d" "fst d \<le> 4" "-4 \<le> snd d" "snd d \<le> 4" using that by (auto simp: in_region srch_def)
    then show ?thesis using assms(2-5) frd_some[OF assms(1), of "fst p + fst d" "snd p + snd d"] by (simp add: mult.commute)
  qed
  then have "\<exists>ys. opt_map (\<lambda>d. frd conv (fst (fsize conv) * (snd p + snd d) + (fst p + fst d)))
      (filter (\<lambda>d. d \<noteq> (0, 0)) (region (- srch) srch (- srch) srch)) = Some ys \<and> length ys = length (filter (\<lambda>d. d \<noteq> (0, 0)) (region (- srch) srch (- srch) srch))"
    by (rule opt_map_some)
  then show ?thesis by (auto simp: is_local_max_def)
qed

lemma local_rect_inside:
  assumes "isect_law isect" and "8 \<le> fst p" "fst p < fst (fsize conv) - 8" "8 \<le> snd p" "snd p < snd (fsize conv) - 8"
  shows "rect_in (isect \<lparr>rx = fst p - 7, ry = snd p - 7, rw = 15, rh = 15\<rparr> (conv_rect conv)) (fsize conv)"
proof -
  let ?l = "\<lparr>rx = fst p - 7, ry = snd p - 7, rw = 15, rh = 15\<rparr>"
  have "\<not> rect_empty (rect_overlap ?l (conv_rect conv))"
    using assms(2-5) by (auto simp: rect_empty_def rect_overlap_def conv_rect_def CONV_RADIUS_def Let_def)
  then have e: "isect ?l (conv_rect conv) = rect_overlap ?l (conv_rect conv)" using assms(1) unfolding isect_law_def by presburger
  show ?thesis unfolding e using assms(2-5) by (auto simp: rect_in_def rect_overlap_def conv_rect_def CONV_RADIUS_def Let_def)
qed

lemma peak_px_total:
  assumes "isect_law isect" "fimg_ok conv" and "8 \<le> fst p" "fst p < fst (fsize conv) - 8" "8 \<le> snd p" "snd p < snd (fsize conv) - 8"
    and "peaks_ok conv d stars"
  shows "\<exists>s'. peak_px isect conv d sd p stars = Some s' \<and> peaks_ok conv d s'"
proof -
  have v: "frd conv (fst (fsize conv) * snd p + fst p) = Some (fpx conv ! nat (snd p * fst (fsize conv) + fst p))"
    using frd_some[OF assms(2), of "fst p" "snd p"] assms(3-6) by (simp add: mult.commute)
  obtain b where b: "is_local_max conv p (fpx conv ! nat (snd p * fst (fsize conv) + fst p)) = Some b"
    using is_local_max_total[OF assms(2), of p] assms(3-6) by auto
  obtain m ld where g: "FloatImg_GetStats conv (isect \<lparr>rx = fst p - 7, ry = snd p - 7, rw = 15, rh = 15\<rparr> (conv_rect conv)) = Some (m, ld)"
    using FloatImg_total[OF assms(2) local_rect_inside[OF assms(1,3-6)]] by blast
  have "peak_at conv d \<lparr>peak_x = fst p * d + d div 2, peak_y = snd p * d + d div 2, peak_val = h\<rparr>" for h
    unfolding peak_at_def using assms(3-6) by (intro exI[of _ "fst p"] exI[of _ "snd p"]) simp
  then show ?thesis using v b g assms(7) insert_peak_ok[OF assms(7)] by (simp add: peak_px_def Let_def)
qed

lemma local_maxima_total:
  assumes "isect_law isect" "fimg_ok conv"
  shows "\<exists>ps. local_maxima isect conv d = Some ps \<and> peaks_ok conv d ps"
proof -
  have "rect_in (conv_rect conv) (fsize conv)" by (simp add: rect_in_def conv_rect_def CONV_RADIUS_def)
  then obtain m sd where g: "FloatImg_GetStats conv (conv_rect conv) = Some (m, sd)" using FloatImg_total[OF assms(2)] by blast
  let ?r = "conv_rect conv"
  have "\<exists>ps. fold_opt (peak_px isect conv d sd) (region (rx ?r + srch) (rx ?r + rw ?r - 1 - srch) (ry ?r + srch) (ry ?r + rh ?r - 1 - srch)) [] = Some ps \<and>
      peaks_ok conv d ps"
  proof (rule fold_opt_inv)
    show "peaks_ok conv d []" by (simp add: peaks_ok_def)
    show "\<exists>s'. peak_px isect conv d sd p s = Some s' \<and> peaks_ok conv d s'"
      if "p \<in> set (region (rx ?r + srch) (rx ?r + rw ?r - 1 - srch) (ry ?r + srch) (ry ?r + rh ?r - 1 - srch))" "peaks_ok conv d s" for p s
      using that by (intro peak_px_total[OF assms]) (auto simp: in_region conv_rect_def CONV_RADIUS_def srch_def)
  qed
  then show ?thesis using g by (simp add: local_maxima_def Let_def)
qed

section \<open>What is left of the peaks\<close>

lemma sorted_wrt_both: "sorted_wrt P xs \<Longrightarrow> sorted_wrt Q xs \<Longrightarrow> sorted_wrt (\<lambda>a b. P a b \<and> Q a b) xs"
  by (induction xs) auto

lemma drop_close_subseq: "drop_close ps = Some qs \<Longrightarrow> subseq qs ps \<and> qs \<noteq> [] \<and> last qs = last ps"
proof (induction ps arbitrary: qs)
  case (Cons a bs)
  show ?case
  proof (cases "\<exists>b\<in>set bs. very_close a b")
    case True
    then have "qs = bs" "bs \<noteq> []" using Cons.prems by auto
    then show ?thesis by auto
  next
    case False
    then obtain cs where cs: "drop_close bs = Some cs" "qs = a # cs" using Cons.prems by auto
    then have "bs \<noteq> []" by auto
    then show ?thesis using Cons.IH[OF cs(1)] cs(2) by simp
  qed
qed simp

lemma drop_close_none: "drop_close ps = None \<Longrightarrow> sorted_wrt (\<lambda>a b. \<not> very_close a b) ps"
  by (induction ps) (auto split: if_splits)

text \<open>After merging no two peaks are very close, and the brightest is still there.\<close>

lemma merge_close_result:
  "subseq (merge_close ps) ps \<and> sorted_wrt (\<lambda>a b. \<not> very_close a b) (merge_close ps) \<and> last (merge_close ps) = last ps"
proof (induction ps rule: merge_close.induct)
  case (1 ps)
  show ?case
  proof (cases "drop_close ps")
    case None
    then show ?thesis using drop_close_none by (simp add: merge_close.simps[of ps])
  next
    case (Some qs)
    then have "merge_close ps = merge_close qs" by (simp add: merge_close.simps[of ps])
    then show ?thesis using 1[OF Some] drop_close_subseq[OF Some] by (auto intro: subseq_order.order_trans)
  qed
qed

lemma RemoveItems_subseq: "subseq (RemoveItems ps es) ps"
proof -
  have "map snd (enumerate 0 ps) = ps" by simp
  then show ?thesis unfolding RemoveItems_def by (metis subseq_filter_left subseq_map)
qed

lemma RemoveItems_pairs:
  assumes "\<And>i j. i < j \<Longrightarrow> j < length ps \<Longrightarrow> i \<notin> es \<Longrightarrow> j \<notin> es \<Longrightarrow> P (ps ! i) (ps ! j)"
  shows "sorted_wrt P (RemoveItems ps es)"
proof -
  let ?E = "enumerate 0 ps"
  have "sorted_wrt (\<lambda>x y. fst x < fst y) ?E" by (simp add: sorted_wrt_iff_nth_less nth_enumerate_eq)
  then have "sorted_wrt (\<lambda>x y. fst x < fst y) (filter (\<lambda>np. fst np \<notin> es) ?E)" by (rule sorted_wrt_filter)
  moreover have "P (snd x) (snd y)" if "x \<in> set (filter (\<lambda>np. fst np \<notin> es) ?E)" "y \<in> set (filter (\<lambda>np. fst np \<notin> es) ?E)" "fst x < fst y" for x y
    using that assms[of "fst x" "fst y"] by (auto simp: in_set_enumerate_eq)
  ultimately have "sorted_wrt (\<lambda>x y. P (snd x) (snd y)) (filter (\<lambda>np. fst np \<notin> es) ?E)" by (rule sorted_wrt_mono_rel[rotated])
  then show ?thesis by (simp add: RemoveItems_def sorted_wrt_map)
qed

lemma in_to_erase:
  assumes "i < j" "j < length ps" "too_close sr (ps ! i) (ps ! j)"
  shows "i \<in> to_erase sr ps"
proof -
  have "(i, j) \<in> set (filter (\<lambda>ij. fst ij < snd ij \<and> too_close sr (ps ! fst ij) (ps ! snd ij)) (List.product [0..<length ps] [0..<length ps]))"
    using assms by simp
  then show ?thesis unfolding to_erase_def Let_def by (metis (no_types, lifting) UnI1 fst_conv imageI)
qed

lemma exclude_close_result: "subseq (exclude_close sr ps) ps \<and> sorted_wrt (\<lambda>a b. \<not> too_close sr a b) (exclude_close sr ps)"
  unfolding exclude_close_def using RemoveItems_subseq RemoveItems_pairs in_to_erase by (metis (no_types, lifting))

lemma subseq_sorted_wrt: "subseq xs ys \<Longrightarrow> sorted_wrt P ys \<Longrightarrow> sorted_wrt P xs"
proof (induction xs ys rule: list_emb.induct)
  case (list_emb_Cons2 x y xs ys)
  then have "set xs \<subseteq> set ys" using list_emb_set[of "(=)" xs ys] by blast
  then show ?case using list_emb_Cons2 by auto
qed auto

text \<open>What all stages give.\<close>

definition kept_peaks :: "int \<Rightarrow> int \<Rightarrow> int \<times> int \<Rightarrow> Peak list \<Rightarrow> bool" where
  "kept_peaks sr edge sz ps \<longleftrightarrow> length ps \<le> TOP_N \<and>
     sorted_wrt (\<lambda>a b. peak_less a b \<and> \<not> very_close a b \<and> \<not> too_close sr a b) ps \<and>
     (\<forall>p\<in>set ps. edge < peak_x p \<and> peak_x p < fst sz - edge \<and> edge < peak_y p \<and> peak_y p < snd sz - edge)"

lemma kept_peaks_result:
  assumes "sorted_wrt peak_less ps" and "length ps \<le> TOP_N"
  shows "kept_peaks sr edge sz (exclude_edge edge sz (exclude_close sr (merge_close ps)))"
proof -
  let ?m = "merge_close ps" and ?c = "exclude_close sr (merge_close ps)" and ?r = "exclude_edge edge sz (exclude_close sr (merge_close ps))"
  have s: "subseq ?r ?c" "subseq ?c ?m" "subseq ?m ps"
    using exclude_close_result merge_close_result by (auto simp: exclude_edge_def)
  have "subseq ?r ps" using s by (meson subseq_order.order_trans)
  then have "sorted_wrt peak_less ?r" "length ?r \<le> TOP_N" using assms subseq_sorted_wrt list_emb_length by (blast, fastforce)
  moreover have "sorted_wrt (\<lambda>a b. \<not> very_close a b) ?r"
    using merge_close_result[of ps] s by (meson subseq_order.order_trans subseq_sorted_wrt)
  moreover have "sorted_wrt (\<lambda>a b. \<not> too_close sr a b) ?r"
    using exclude_close_result[of sr ?m] s(1) subseq_sorted_wrt by blast
  ultimately show ?thesis unfolding kept_peaks_def
    by (intro conjI sorted_wrt_both) (auto simp: exclude_edge_def near_edge_def)
qed

lemma smooth_total:
  assumes "us_ok im" "isect_law isect" and "2 \<le> fst (Size im)" "2 \<le> snd (Size im)" "2 \<le> sr"
  shows "\<exists>r. smooth isect junk im sr roi = Some r \<and> (rect_empty roi \<longrightarrow> r \<noteq> None) \<and>
    (\<forall>smo. r = Some smo \<longrightarrow> Size smo = Size im \<and> length (ImageData smo) = length (ImageData im))"
proof -
  define s0 where "s0 = (us_Init [] (Size im) (im\<lparr>ImageData := []\<rparr>))\<lparr>ImageData := ImageData im\<rparr>"
  define s1 where "s1 = (if rect_empty roi then s0 else s0\<lparr>Subframe := isect roi (rect_of_size (Size s0))\<rparr>)"
  have f: "Size s1 = Size im" "ImageData s1 = ImageData im" "Size s0 = Size im" "rect_empty roi \<Longrightarrow> rect_empty (Subframe s1)"
    by (simp_all add: s1_def s0_def us_Init_def Let_def rect_empty_def)
  have sm: "smooth isect junk im sr roi = (if \<not> rect_empty roi \<and> (rw (Subframe s1) < sr \<or> rh (Subframe s1) < sr) then Some None else map_option Some (Median3 junk s1))"
    by (simp add: smooth_def s0_def s1_def Let_def)
  show ?thesis
  proof (cases "\<not> rect_empty roi \<and> (rw (Subframe s1) < sr \<or> rh (Subframe s1) < sr)")
    case True
    then show ?thesis by (simp add: sm)
  next
    case False
    have "us_ok s1 \<and> 2 \<le> rw (active s1) \<and> 2 \<le> rh (active s1)"
    proof (cases "rect_empty roi")
      case True
      then show ?thesis using f assms(1,3,4) by (simp add: us_ok_def active_def rect_of_size_def)
    next
      case roi: False
      let ?i = "isect roi (rect_of_size (Size s0))"
      have sub: "Subframe s1 = ?i" by (simp add: s1_def roi)
      have ne: "sr \<le> rw ?i" "sr \<le> rh ?i" using False roi by (simp_all add: sub)
      then have "\<not> rect_empty ?i" using assms(5) by (simp add: rect_empty_def)
      then have "?i = rect_overlap roi (rect_of_size (Size s0))" using assms(2) unfolding isect_law_def by metis
      then have "rect_in ?i (Size s1)" by (auto simp: rect_in_def rect_overlap_def rect_of_size_def Let_def f)
      then show ?thesis using \<open>\<not> rect_empty ?i\<close> ne assms(1,5) by (simp add: us_ok_def active_def sub f)
    qed
    then obtain d where "Median3 junk s1 = Some (s1\<lparr>ImageData := d\<rparr>)" "length d = length (ImageData s1)"
      using median_filter_correct[of s1 junk] by blast
    then show ?thesis using False by (auto simp: sm f)
  qed
qed

lemma find_peaks_total:
  assumes "us_ok im" "isect_law isect" and "2 \<le> fst (Size im)" "2 \<le> snd (Size im)" "2 \<le> sr" "0 \<le> downsample0"
  shows "\<exists>r. find_peaks isect junk downsample0 scale im extra sr roi = Some r \<and>
    (r = None \<longrightarrow> \<not> rect_empty (Subframe im) \<or> \<not> rect_empty roi) \<and> (\<forall>ps. r = Some ps \<longrightarrow> kept_peaks sr (sr + extra) (Size im) ps)"
proof (cases "rect_empty (Subframe im)")
  case True
  obtain sm where sm: "smooth isect junk im sr roi = Some sm" "rect_empty roi \<longrightarrow> sm \<noteq> None"
    "\<forall>smo. sm = Some smo \<longrightarrow> Size smo = Size im \<and> length (ImageData smo) = length (ImageData im)"
    using smooth_total[OF assms(1-5), of junk roi] by blast
  show ?thesis
  proof (cases sm)
    case None
    then show ?thesis using sm(1,2) True by (simp add: find_peaks_def)
  next
    case (Some smo)
    let ?d = "auto_downsample downsample0 scale" and ?f = "FloatImg_of smo"
    have f: "fimg_ok ?f" using sm(3) Some assms(1) by (simp add: fimg_ok_def FloatImg_of_def us_ok_def)
    have "\<exists>c. (if ?d > 1 then Downsample ?f ?d else Some ?f) = Some c \<and> fimg_ok c"
      using Downsample_total[OF f, of ?d] f by (cases "?d > 1") auto
    then obtain c where c: "(if ?d > 1 then Downsample ?f ?d else Some ?f) = Some c" "fimg_ok c" by blast
    obtain conv where conv: "psf_conv c = Some conv" "fimg_ok conv" using psf_conv_total[OF c(2)] by blast
    obtain ps where ps: "local_maxima isect conv ?d = Some ps" "peaks_ok conv ?d ps" using local_maxima_total[OF assms(2) conv(2)] by blast
    let ?r = "exclude_edge (sr + extra) (Size im) (exclude_close sr (merge_close ps))"
    have "find_peaks isect junk downsample0 scale im extra sr roi = Some (Some ?r)"
      using True sm(1) Some c(1) conv(1) ps(1) by (simp add: find_peaks_def Let_def)
    moreover have "kept_peaks sr (sr + extra) (Size im) ?r" using ps(2) by (intro kept_peaks_result) (simp_all add: peaks_ok_def)
    ultimately show ?thesis by blast
  qed
qed (simp add: find_peaks_def)

text \<open>C12: star_peaks_separated. On every frame of at least two by two pixels and for every region of interest the search for
  peaks completes without reading outside of any of its frames.  Unless it is refused (a subframe, or a
  region that is too small), it gives at most a hundred peaks of strictly rising intensity, all farther
  from the edge than the search region and the extra allowance, no two of them within five pixels, and
  no two in one search region unless the second is at least five times as bright.\<close>

theorem star_peaks_separated:
  assumes "us_ok im" "isect_law isect" and "2 \<le> fst (Size im)" "2 \<le> snd (Size im)" "2 \<le> sr" "0 \<le> downsample0"
  shows "\<exists>r. find_peaks isect junk downsample0 scale im extra sr roi = Some r \<and>
    (r = None \<longrightarrow> \<not> rect_empty (Subframe im) \<or> \<not> rect_empty roi) \<and> (\<forall>ps. r = Some ps \<longrightarrow> kept_peaks sr (sr + extra) (Size im) ps)"
  by (rule find_peaks_total[OF assms])

theorem star_peaks_separated_witness:
  "\<exists>ps. find_peaks rect_overlap [] 0 1 example_frame_image 0 7 \<lparr>rx = 0, ry = 0, rw = 0, rh = 0\<rparr> = Some (Some ps) \<and> kept_peaks 7 7 (3, 3) ps"
proof -
  have im: "us_ok example_frame_image" "Size example_frame_image = (3, 3)" "rect_empty (Subframe example_frame_image)"
    "rect_empty \<lparr>rx = 0, ry = 0, rw = 0, rh = 0\<rparr>"
    by (simp_all add: us_ok_def example_frame_image_def rect_empty_def)
  from star_peaks_separated[OF im(1) overlap_law, of 7 0 "[]" 1 0 "\<lparr>rx = 0, ry = 0, rw = 0, rh = 0\<rparr>"] im obtain r where
    "find_peaks rect_overlap [] 0 1 example_frame_image 0 7 \<lparr>rx = 0, ry = 0, rw = 0, rh = 0\<rparr> = Some r" "r \<noteq> None"
    "\<forall>ps. r = Some ps \<longrightarrow> kept_peaks 7 7 (3, 3) ps" by auto
  then show ?thesis by auto
qed

end
