(* ===== verification/Star_Example.thy ===== *)
theory Star_Example
  imports Star_Peaks
begin

text \<open>
  A frame of seventeen by seventeen pixels with one star in the middle, for the examples: the search for
  peaks of \<open>Star_Peaks\<close> finds it, and so does \<open>FindStar\<close>.
\<close>

section \<open>The frame\<close>

definition star_px :: "int \<times> int \<Rightarrow> int" where
  "star_px p =
     (let dx = \<bar>fst p - 8\<bar>; dy = \<bar>snd p - 8\<bar>
      in if dx > 1 \<or> dy > 1 then 0 else if dx + dy = 0 then 1000 else if dx + dy = 1 then 500 else 250)"

abbreviation star_rect :: Rect where
  "star_rect \<equiv> rect_of_size (17, 17)"

definition star_frame :: usImage where
  "star_frame = \<lparr>ImageData = map (\<lambda>p. word_of_int (star_px p)) (region 0 16 0 16), Size = (17, 17), Subframe = \<lparr>rx = 0, ry = 0, rw = 0, rh = 0\<rparr>,
     LimitFrame = \<lparr>rx = 0, ry = 0, rw = 0, rh = 0\<rparr>, MinADU = 0, MaxADU = 0, MedianADU = 0, FiltMin = 0, FiltMax = 0,
     BitsPerPixel = 16, Pedestal = 0\<rparr>"

lemma star_region_length: "int (length (region 0 16 0 16)) = 289"
  using region_length[of 17 17] by simp

lemma star_frame_ok: "us_ok star_frame" "active star_frame = star_rect"
  using star_region_length by (simp_all add: us_ok_def star_frame_def rect_empty_def active_def)

lemma by_region:
  assumes "in_rect star_rect p"
  shows "map f (region 0 16 0 16) ! nat (snd p * 17 + fst p) = f p"
  using copied_pixel[of star_rect p "map f (region 0 16 0 16)" f] assms
  by (simp add: rect_of_size_def IX_def)

lemma star_frame_px: "in_rect star_rect p \<Longrightarrow> pixel star_frame star_rect p = word_of_int (star_px p)"
  using by_region[of p "\<lambda>p. word_of_int (star_px p)"] by (simp add: pixel_def IX_def star_frame_def rect_of_size_def)

section \<open>The smoothed frame\<close>

definition med_px :: "int \<times> int \<Rightarrow> int" where
  "med_px p = (let d = \<bar>fst p - 8\<bar> + \<bar>snd p - 8\<bar> in if d = 0 then 500 else if d = 1 then 250 else 0)"

lemma median_zeros: "\<forall>v\<in>set vs. v = 0 \<Longrightarrow> vs \<noteq> [] \<Longrightarrow> median_ref vs = 0"
proof -
  assume a: "\<forall>v\<in>set vs. v = 0" "vs \<noteq> []"
  have k: "kth i vs = 0" if "i < length vs" for i
    using a(1) that nth_mem[of i "sort vs"] by (simp add: kth_def)
  have "length vs div 2 < length vs" using a(2) by (cases vs) auto
  then show ?thesis using k[of "length vs div 2"] k[of "length vs div 2 - 1"] by (auto simp: median_ref_def average_def Let_def)
qed

lemma star_neighbours:
  "list_all (\<lambda>p. median_ref (map (\<lambda>q. word_of_int (star_px q)) (neighbours star_rect p)) = word_of_int (med_px p)) (region 6 10 6 10)"
  by code_simp

lemma star_median:
  assumes "in_rect star_rect p"
  shows "median_ref (map (pixel star_frame star_rect) (neighbours star_rect p)) = word_of_int (med_px p)"
proof -
  have nb: "q \<in> set (neighbours star_rect p) \<Longrightarrow> in_rect star_rect q \<and> \<bar>fst q - fst p\<bar> \<le> 1 \<and> \<bar>snd q - snd p\<bar> \<le> 1" for q
    using assms by (auto simp: neighbours_def near_def in_rect_def)
  have eq: "map (pixel star_frame star_rect) (neighbours star_rect p) = map (\<lambda>q. word_of_int (star_px q)) (neighbours star_rect p)"
    using nb star_frame_px by (intro map_cong refl) blast
  show ?thesis
  proof (cases "p \<in> set (region 6 10 6 10)")
    case True
    with star_neighbours show ?thesis unfolding eq list_all_iff by blast
  next
    case False
    then have far: "\<bar>fst p - 8\<bar> > 2 \<or> \<bar>snd p - 8\<bar> > 2" by (auto simp: in_region)
    have "star_px q = 0" if "q \<in> set (neighbours star_rect p)" for q
      using nb[OF that] far by (auto simp: star_px_def Let_def)
    moreover have "neighbours star_rect p \<noteq> []" using assms neighbours_length[of star_rect p] by (auto simp: rect_of_size_def)
    moreover have "med_px p = 0" using far by (auto simp: med_px_def Let_def)
    ultimately show ?thesis unfolding eq by (subst median_zeros) auto
  qed
qed

definition smooth_star :: FloatImg where
  "smooth_star = \<lparr>fpx = map (\<lambda>p. real_of_int (med_px p)) (region 0 16 0 16), fsize = (17, 17)\<rparr>"

lemma smooth_star_ok: "fimg_ok smooth_star" "fsize smooth_star = (17, 17)"
  using star_region_length by (simp_all add: fimg_ok_def smooth_star_def)

lemma star_smoothed: "\<exists>d. Median3 junk star_frame = Some (star_frame\<lparr>ImageData := d\<rparr>) \<and> FloatImg_of (star_frame\<lparr>ImageData := d\<rparr>) = smooth_star"
proof -
  obtain d where d: "Median3 junk star_frame = Some (star_frame\<lparr>ImageData := d\<rparr>)" "length d = length (ImageData star_frame)"
    "\<forall>p. in_rect star_rect p \<longrightarrow> d ! nat (IX 17 star_rect p) = median_ref (map (pixel star_frame star_rect) (neighbours star_rect p))"
    using median_filter_correct[OF star_frame_ok(1), of junk] star_frame_ok(2) by (auto simp: rect_of_size_def star_frame_def)
  have l: "int (length d) = 17 * 17" using d(2) star_region_length by (simp add: star_frame_def)
  have "d = map (\<lambda>p. d ! nat (snd p * 17 + fst p)) (region 0 16 0 16)" using list_by_region[OF l] by simp
  also have "\<dots> = map (\<lambda>p. word_of_int (med_px p)) (region 0 16 0 16)"
    using d(3) star_median by (intro map_cong refl) (auto simp: in_region in_rect_def rect_of_size_def IX_def)
  finally have "d = map (\<lambda>p. word_of_int (med_px p)) (region 0 16 0 16)" .
  moreover have "uint (word_of_int (med_px p) :: 16 word) = med_px p" for p
    by (simp add: med_px_def Let_def)
  then have "real_of_int (uint (word_of_int (med_px p) :: 16 word)) = real_of_int (med_px p)" for p by simp
  ultimately have "map (\<lambda>v. real_of_int (uint v)) d = map (\<lambda>p. real_of_int (med_px p)) (region 0 16 0 16)" by (simp only: map_map comp_def)
  then show ?thesis using d(1) by (simp add: FloatImg_of_def smooth_star_def star_frame_def)
qed

section \<open>The convolved frame\<close>

text \<open>The fit in integers: the weights times a thousand, the mean times 81.\<close>

definition int_psf :: "(int \<times> (int \<times> int) list) list" where
  "int_psf = [(906, [(0, 0)]),
    (584, [(0, - 1), (0, 1), (1, 0), (- 1, 0)]),
    (365, [(- 1, - 1), (1, - 1), (- 1, 1), (1, 1)]),
    (117, [(0, - 2), (- 2, 0), (2, 0), (0, 2)]),
    (49, [(- 1, - 2), (1, - 2), (- 2, - 1), (2, - 1), (- 2, 1), (2, 1), (- 1, 2), (1, 2)]),
    (- 50, [(- 2, - 2), (2, - 2), (- 2, 2), (2, 2)]),
    (- 64, [(0, - 3), (- 3, 0), (3, 0), (0, 3)]),
    (- 74, [(- 1, - 3), (1, - 3), (- 3, - 1), (3, - 1), (- 3, 1), (3, 1), (- 1, 3), (1, 3)]),
    (- 94, [(- 4, - 2), (- 3, - 2), (3, - 2), (4, - 2), (- 4, - 1), (4, - 1), (- 4, 0), (4, 0), (- 4, 1), (4, 1), (- 4, 2), (- 3, 2), (3, 2), (4, 2), (- 4, - 4), (- 3, - 4), (- 2, - 4), (- 1, - 4), (0, - 4), (1, - 4), (2, - 4), (3, - 4), (4, - 4), (- 4, - 3), (- 3, - 3), (- 2, - 3), (2, - 3), (3, - 3), (4, - 3), (- 4, 3), (- 3, 3), (- 2, 3), (2, 3), (3, 3), (4, 3), (- 4, 4), (- 3, 4), (- 2, 4), (- 1, 4), (0, 4), (1, 4), (2, 4), (3, 4), (4, 4)])]"

lemma PSF_int: "PSF = map (\<lambda>w. (real_of_int (fst w) / 1000, snd w)) int_psf"
  by (simp add: PSF_def int_psf_def offs_B1_def offs_B2_def offs_C1_def offs_C2_def offs_C3_def offs_D1_def offs_D2_def offs_D3_def upto_rec1)

text \<open>The weight of an offset, and what it contributes to the fit once the mean is taken off.\<close>

definition weight_at :: "int \<Rightarrow> int \<Rightarrow> int" where
  "weight_at a b =
     (if a + b = 0 then 906 else if a + b = 1 then 584 else if a = 1 \<and> b = 1 then 365 else if a + b = 2 then 117
      else if max a b = 2 \<and> a + b = 3 then 49 else if max a b = 2 then - 50 else if a + b = 3 then - 64
      else if max a b = 3 \<and> a + b = 4 then - 74 else - 94)"

definition int_fit :: "int \<times> int \<Rightarrow> int" where
  "int_fit p = (\<Sum>q\<leftarrow>[(8, 8), (7, 8), (9, 8), (8, 7), (8, 9)].
     let a = \<bar>fst q - fst p\<bar>; b = \<bar>snd q - snd p\<bar>
     in if a \<le> 4 \<and> b \<le> 4 then med_px q * (81 * weight_at a b - 378) else 0)"

lemma weights_agree: "list_all (\<lambda>w. list_all (\<lambda>d. weight_at \<bar>fst d\<bar> \<bar>snd d\<bar> = fst w) (snd w)) int_psf"
  by code_simp

lemma weights_total: "(\<Sum>w\<leftarrow>int_psf. fst w * int (length (snd w))) = 378"
  by code_simp

lemma int_fit_values:
  "list_all (\<lambda>v. \<bar>v\<bar> \<le> int_fit (8, 8)) (map int_fit (region 4 12 4 12))" "0 < int_fit (8, 8)"
  "10 * sum_list (map int_fit (region 4 12 4 12)) \<le> 9 * 81 * int_fit (8, 8)"
  by code_simp+

lemma block_sum:
  "(\<Sum>d\<in>set (region (- 4) 4 (- 4) 4). med_px (fst p + fst d, snd p + snd d) * (81 * weight_at \<bar>fst d\<bar> \<bar>snd d\<bar> - 378)) = int_fit p"
proof -
  let ?S = "set (region (- 4) 4 (- 4) 4)" and ?Q = "set [(8, 8), (7, 8), (9, 8), (8, 7), (8, 9)] :: (int \<times> int) set"
  let ?f = "\<lambda>d. (fst p + fst d, snd p + snd d)"
  let ?h = "\<lambda>q. med_px q * (81 * weight_at \<bar>fst q - fst p\<bar> \<bar>snd q - snd p\<bar> - 378)"
  have im: "q \<in> ?f ` ?S \<longleftrightarrow> \<bar>fst q - fst p\<bar> \<le> 4 \<and> \<bar>snd q - snd p\<bar> \<le> 4" for q
  proof
    assume "\<bar>fst q - fst p\<bar> \<le> 4 \<and> \<bar>snd q - snd p\<bar> \<le> 4"
    then show "q \<in> ?f ` ?S" by (intro image_eqI[of _ _ "(fst q - fst p, snd q - snd p)"]) (auto simp: in_region)
  qed (auto simp: in_region)
  have "inj_on ?f ?S" by (auto simp: inj_on_def prod_eq_iff)
  then have "(\<Sum>q\<in>?f ` ?S. ?h q) = (\<Sum>d\<in>?S. med_px (?f d) * (81 * weight_at \<bar>fst d\<bar> \<bar>snd d\<bar> - 378))"
    by (simp add: sum.reindex)
  moreover have "med_px q = 0" if "q \<notin> ?Q" for q
  proof (rule ccontr)
    assume "med_px q \<noteq> 0"
    then have "\<bar>fst q - 8\<bar> + \<bar>snd q - 8\<bar> \<le> 1" by (auto simp: med_px_def Let_def split: if_splits)
    then have "fst q = 8 \<and> snd q = 8 \<or> fst q = 7 \<and> snd q = 8 \<or> fst q = 9 \<and> snd q = 8 \<or> fst q = 8 \<and> snd q = 7 \<or> fst q = 8 \<and> snd q = 9" by presburger
    then show False using that by (cases q) auto
  qed
  then have "(\<Sum>q\<in>?f ` ?S. ?h q) = (\<Sum>q\<in>?f ` ?S \<inter> ?Q. ?h q)"
    by (intro sum.mono_neutral_right finite_imageI finite_set Int_lower1) (auto simp del: list.set)
  moreover have "(\<Sum>q\<in>?f ` ?S \<inter> ?Q. ?h q) = (\<Sum>q\<in>?Q. if q \<in> ?f ` ?S then ?h q else 0)"
    by (subst Int_commute, rule sum.inter_restrict) simp
  moreover have "(\<Sum>q\<in>?Q. if q \<in> ?f ` ?S then ?h q else 0) = int_fit p"
    unfolding im int_fit_def Let_def by (rule sum_list_distinct_conv_sum_set[symmetric]) simp
  ultimately show ?thesis by simp
qed

lemma sum_list_fraction: "(\<Sum>x\<leftarrow>xs. real_of_int (f x) / c) = real_of_int (\<Sum>x\<leftarrow>xs. f x) / c"
  by (induction xs) (simp_all add: add_divide_distrib)

lemma star_fit:
  assumes "4 \<le> fst p" "fst p \<le> 12" "4 \<le> snd p" "snd p \<le> 12"
  shows "psf_fit smooth_star p = Some (real_of_int (int_fit p) / 81000)"
proof -
  let ?m = "\<lambda>d. med_px (fst p + fst d, snd p + snd d)" and ?D = "concat (map snd PSF)"
  let ?F = "\<lambda>d. ?m d * (81 * weight_at \<bar>fst d\<bar> \<bar>snd d\<bar> - 378)"
  define g where "g = (\<lambda>d. fpx smooth_star ! nat ((snd p + snd d) * fst (fsize smooth_star) + (fst p + fst d)))"
  define T where "T = (\<Sum>d\<leftarrow>?D. ?m d)"
  have px: "g d = real_of_int (?m d)" if "d \<in> set ?D" for d
  proof -
    have "in_rect star_rect (fst p + fst d, snd p + snd d)"
      using that assms unfolding psf_offsets in_region in_rect_def rect_of_size_def by auto
    from by_region[OF this, of "\<lambda>p. real_of_int (med_px p)"] show ?thesis by (simp add: smooth_star_def g_def)
  qed
  have sums: "(\<Sum>d\<leftarrow>ds. g d) = real_of_int (\<Sum>d\<leftarrow>ds. ?m d)" if "set ds \<subseteq> set ?D" for ds
    using that px by (induction ds) simp_all
  have w: "set (snd w) \<subseteq> set ?D" if "w \<in> set int_psf" for w
    using that unfolding PSF_int by auto
  let ?G = "\<lambda>w. fst w * (81 * (\<Sum>d\<leftarrow>snd w. ?m d) - int (length (snd w)) * T)"
  have 1: "real_of_int (fst w) / 1000 * ((\<Sum>d\<leftarrow>snd w. g d) - real (length (snd w)) * (real_of_int T / 81)) = real_of_int (?G w) / 81000"
    if "w \<in> set int_psf" for w
    unfolding sums[OF w[OF that]] by (simp add: field_simps)
  have "(\<Sum>v\<leftarrow>PSF. fst v * ((\<Sum>d\<leftarrow>snd v. g d) - real (length (snd v)) * (real_of_int T / 81)))
      = (\<Sum>w\<leftarrow>int_psf. real_of_int (?G w) / 81000)"
    unfolding PSF_int map_map comp_def fst_conv snd_conv by (intro arg_cong[of _ _ sum_list] map_cong refl 1)
  also have "\<dots> = real_of_int (\<Sum>w\<leftarrow>int_psf. ?G w) / 81000"
    by (rule sum_list_fraction)
  also have "(\<Sum>w\<leftarrow>int_psf. ?G w) = (\<Sum>d\<leftarrow>?D. ?F d)"
  proof -
    have G: "?G w = (\<Sum>d\<leftarrow>snd w. 81 * weight_at \<bar>fst d\<bar> \<bar>snd d\<bar> * ?m d) - T * (fst w * int (length (snd w)))" if "w \<in> set int_psf" for w
    proof -
      have "(\<Sum>d\<leftarrow>ds. 81 * weight_at \<bar>fst d\<bar> \<bar>snd d\<bar> * ?m d) = 81 * fst w * (\<Sum>d\<leftarrow>ds. ?m d)" if "set ds \<subseteq> set (snd w)" for ds
        using that weights_agree \<open>w \<in> set int_psf\<close> by (induction ds) (auto simp: list_all_iff algebra_simps)
      from this[of "snd w"] show ?thesis by (simp add: algebra_simps)
    qed
    have "(\<Sum>w\<leftarrow>int_psf. ?G w) = (\<Sum>w\<leftarrow>int_psf. (\<Sum>d\<leftarrow>snd w. 81 * weight_at \<bar>fst d\<bar> \<bar>snd d\<bar> * ?m d) - T * (fst w * int (length (snd w))))"
      by (intro arg_cong[of _ _ sum_list] map_cong refl G)
    also have "\<dots> = (\<Sum>d\<leftarrow>?D. 81 * weight_at \<bar>fst d\<bar> \<bar>snd d\<bar> * ?m d) - T * 378"
    proof -
      have "(\<Sum>w\<leftarrow>ws. (\<Sum>d\<leftarrow>snd w. h d) - T * (fst w * int (length (snd w)))) =
          (\<Sum>d\<leftarrow>concat (map snd ws). h d) - T * (\<Sum>w\<leftarrow>ws. fst w * int (length (snd w)))" for h and ws :: "(int \<times> (int \<times> int) list) list"
        by (induction ws) (simp_all add: algebra_simps)
      moreover have "?D = concat (map snd int_psf)" by (simp add: PSF_int comp_def)
      ultimately show ?thesis using weights_total by simp
    qed
    also have "\<dots> = (\<Sum>d\<leftarrow>?D. ?F d)"
    proof -
      have "(\<Sum>d\<leftarrow>ds. k d * ?m d) - (\<Sum>d\<leftarrow>ds. ?m d) * 378 = (\<Sum>d\<leftarrow>ds. ?m d * (k d - 378))" for k ds
        by (induction ds) (simp_all add: algebra_simps)
      from this[of "\<lambda>d. 81 * weight_at \<bar>fst d\<bar> \<bar>snd d\<bar>" ?D] show ?thesis unfolding T_def .
    qed
    finally show ?thesis .
  qed
  also have "(\<Sum>d\<leftarrow>?D. ?F d) = int_fit p"
    unfolding block_sum[of p, symmetric] psf_offsets[symmetric] by (rule sum_list_distinct_conv_sum_set[OF psf_groups_distinct(1)])
  finally have "(\<Sum>v\<leftarrow>PSF. fst v * ((\<Sum>d\<leftarrow>snd v. g d) - real (length (snd v)) * (real_of_int T / 81))) = real_of_int (int_fit p) / 81000" .
  then show ?thesis
    using psf_fit_value[OF smooth_star_ok(1), of p] assms smooth_star_ok(2) sums[OF subset_refl] by (simp add: Let_def g_def T_def)
qed

definition star_conv :: FloatImg where
  "star_conv = \<lparr>fpx = map (\<lambda>p. if 4 \<le> fst p \<and> fst p < 13 \<and> 4 \<le> snd p \<and> snd p < 13 then real_of_int (int_fit p) / 81000 else 0)
     (region 0 16 0 16), fsize = (17, 17)\<rparr>"

lemma star_conv_eq: "psf_conv smooth_star = Some star_conv"
proof -
  let ?g = "\<lambda>p. if 4 \<le> fst p \<and> fst p < 13 \<and> 4 \<le> snd p \<and> snd p < 13 then real_of_int (int_fit p) / 81000 else 0"
  have "opt_map (\<lambda>p. if psf_size \<le> fst p \<and> fst p < 17 - psf_size \<and> psf_size \<le> snd p \<and> snd p < 17 - psf_size
      then psf_fit smooth_star p else Some 0) (region 0 16 0 16) = Some (map ?g (region 0 16 0 16))"
    by (intro opt_map_total ballI) (simp add: psf_size_def star_fit)
  then show ?thesis by (simp add: psf_conv_def smooth_star_ok(2) star_conv_def)
qed

lemma star_conv_px:
  assumes "4 \<le> x" "x \<le> 12" "4 \<le> y" "y \<le> 12" and "i = 17 * y + x"
  shows "frd star_conv i = Some (real_of_int (int_fit (x, y)) / 81000)"
proof -
  have "fimg_ok star_conv" using star_region_length by (simp add: fimg_ok_def star_conv_def)
  then have "frd star_conv i = Some (fpx star_conv ! nat i)"
    using assms by (intro frd_some[of _ x y]) (simp_all add: star_conv_def)
  moreover have "in_rect star_rect (x, y)" using assms by (simp add: in_rect_def rect_of_size_def)
  from by_region[OF this, of "\<lambda>p. if 4 \<le> fst p \<and> fst p < 13 \<and> 4 \<le> snd p \<and> snd p < 13 then real_of_int (int_fit p) / 81000 else 0"]
  have "fpx star_conv ! nat i = real_of_int (int_fit (x, y)) / 81000" using assms by (simp add: star_conv_def mult.commute)
  ultimately show ?thesis by simp
qed

section \<open>The statistics of a window\<close>

text \<open>The running sums of \<open>GetStats\<close>: the mean, and sums of squares that are not negative.\<close>

lemma fstat_run:
  assumes "\<forall>p\<in>set ps. frd img ((ry win + snd p) * fst (fsize img) + rx win + fst p) = Some (g p)"
    and "0 \<le> n" "a * n = s" "0 \<le> q" "q + n * a\<^sup>2 = t"
  shows "\<exists>a1 q1. fold_opt (fstat_px img win) ps (s, a, q, n + 1, n) =
      Some (s + (\<Sum>p\<leftarrow>ps. g p), a1, q1, n + real (length ps) + 1, n + real (length ps)) \<and>
    0 \<le> q1 \<and> q1 \<le> t + (\<Sum>p\<leftarrow>ps. (g p)\<^sup>2)"
  using assms
proof (induction ps arbitrary: s a q n t)
  case Nil
  have "q \<le> t" using Nil(2,5) by (simp flip: Nil(5))
  then show ?case using Nil by simp
next
  case (Cons p ps)
  define x where "x = g p"
  define b where "b = a + (x - a) / (n + 1)"
  have n: "0 < n + 1" using Cons.prems(2) by simp
  have b: "b * (n + 1) = s + x" using n Cons.prems(3) by (simp add: b_def field_simps)
  have xb: "x - b = (x - a) * (n / (n + 1))" using n by (simp add: b_def field_simps)
  then have "(x - a) * (x - b) = (x - a)\<^sup>2 * (n / (n + 1))" by (simp add: power2_eq_square)
  then have q: "0 \<le> q + (x - a) * (x - b)" using Cons.prems(2,4) by simp
  have "a = b + (x - a) * (- 1 / (n + 1))" by (simp add: b_def)
  have t: "q + (x - a) * (x - b) + (n + 1) * b\<^sup>2 = t + x\<^sup>2"
  proof -
    have "n * a = b * (n + 1) - x" using b Cons.prems(3) by (simp add: mult.commute)
    then have "a * (n * a) = a * (b * (n + 1) - x)" by simp
    then have "n * a\<^sup>2 = a * b * (n + 1) - a * x" by (simp add: power2_eq_square algebra_simps)
    moreover have "(n + 1) * b\<^sup>2 = b * (n * a + x)" using b Cons.prems(3) by (simp add: power2_eq_square algebra_simps)
    moreover have "b * (n * a + x) = a * (b * (n + 1)) - a * b + b * x" by (simp add: algebra_simps)
    ultimately show ?thesis using Cons.prems(5) by (simp add: power2_eq_square algebra_simps)
  qed
  have step: "fstat_px img win p (s, a, q, n + 1, n) = Some (s + x, b, q + (x - a) * (x - b), (n + 1) + 1, n + 1)"
    using Cons.prems(1) by (simp add: fstat_px_def x_def b_def Let_def)
  have "\<forall>p\<in>set ps. frd img ((ry win + snd p) * fst (fsize img) + rx win + fst p) = Some (g p)" "0 \<le> n + 1" using Cons.prems by simp_all
  from Cons.IH[OF this b q t] show ?case using step by (auto simp: x_def algebra_simps)
qed

lemma fstat_window:
  assumes "\<forall>p\<in>set ps. frd img ((ry win + snd p) * fst (fsize img) + rx win + fst p) = Some (g p)"
    and "\<forall>p\<in>set ps. \<bar>g p\<bar> \<le> v" and "ps = region 0 (rw win - 1) 0 (rh win - 1)" "ps \<noteq> []"
  shows "\<exists>sd. FloatImg_GetStats img win = Some (Some ((\<Sum>p\<leftarrow>ps. g p) / real (length ps)), Some sd) \<and> 0 \<le> sd \<and> sd \<le> v"
proof -
  obtain a q where q: "fold_opt (fstat_px img win) ps (0, 0, 0, 1, 0) = Some ((\<Sum>p\<leftarrow>ps. g p), a, q, real (length ps) + 1, real (length ps))"
    "0 \<le> q" "q \<le> (\<Sum>p\<leftarrow>ps. (g p)\<^sup>2)" using fstat_run[OF assms(1), of 0 0 0 0 0] by auto
  have n: "real (length ps) > 0" using assms(4) by simp
  have "(\<Sum>p\<leftarrow>ps. (g p)\<^sup>2) \<le> real (length ps) * v\<^sup>2"
    using assms(2)
  proof (induction ps)
    case (Cons p ps)
    then have "\<bar>g p\<bar> \<le> \<bar>v\<bar>" by auto
    then have "(g p)\<^sup>2 \<le> v\<^sup>2" by (simp add: abs_le_square_iff)
    then show ?case using Cons by (simp add: algebra_simps)
  qed simp
  then have "q / real (length ps) \<le> v\<^sup>2" using q(3) n by (simp add: divide_le_eq mult.commute)
  moreover have "0 \<le> v" using assms(2,4) by (cases ps) auto
  ultimately have "sqrt (q / real (length ps)) \<le> v" by (simp add: real_le_lsqrt)
  then show ?thesis using q n assms(3) by (simp add: FloatImg_GetStats_def qdiv_def)
qed

section \<open>The peak\<close>

lemma overlap_windows:
  "conv_rect star_conv = \<lparr>rx = 4, ry = 4, rw = 9, rh = 9\<rparr>"
  "rect_overlap \<lparr>rx = 1, ry = 1, rw = 15, rh = 15\<rparr> \<lparr>rx = 4, ry = 4, rw = 9, rh = 9\<rparr> = \<lparr>rx = 4, ry = 4, rw = 9, rh = 9\<rparr>"
  by (simp_all add: conv_rect_def star_conv_def CONV_RADIUS_def rect_overlap_def Let_def)

lemma shifted_region: "map (\<lambda>d. (4 + fst d, 4 + snd d)) (region 0 8 0 8) = region 4 12 4 (12 :: int)"
  by code_simp

lemma star_window:
  obtains m sd where "FloatImg_GetStats star_conv \<lparr>rx = 4, ry = 4, rw = 9, rh = 9\<rparr> = Some (Some m, Some sd)"
    "0 \<le> sd" "sd \<le> real_of_int (int_fit (8, 8)) / 81000" "m \<le> 9 / 10 * (real_of_int (int_fit (8, 8)) / 81000)"
proof -
  let ?ps = "region 0 8 0 8" and ?v = "real_of_int (int_fit (8, 8)) / 81000"
  define g where "g d = real_of_int (int_fit (4 + fst d, 4 + snd d)) / 81000" for d
  have in_ps: "d \<in> set ?ps \<Longrightarrow> (4 + fst d, 4 + snd d) \<in> set (region 4 12 4 12)" for d by (simp add: in_region)
  have fr: "\<forall>d\<in>set ?ps. frd star_conv ((4 + snd d) * fst (fsize star_conv) + 4 + fst d) = Some (g d)"
  proof
    fix d assume "d \<in> set ?ps"
    then show "frd star_conv ((4 + snd d) * fst (fsize star_conv) + 4 + fst d) = Some (g d)"
      unfolding g_def by (intro star_conv_px) (auto simp: in_region star_conv_def)
  qed
  have "\<bar>g d\<bar> \<le> ?v" if "d \<in> set ?ps" for d
  proof -
    have "\<bar>int_fit (4 + fst d, 4 + snd d)\<bar> \<le> int_fit (8, 8)" using int_fit_values(1) in_ps[OF that] by (simp add: list_all_iff)
    then show ?thesis unfolding g_def by linarith
  qed
  moreover have l: "length ?ps = 81" using region_length[of 9 9] by simp
  moreover have "?ps \<noteq> []" using l by auto
  ultimately obtain sd where sd: "FloatImg_GetStats star_conv \<lparr>rx = 4, ry = 4, rw = 9, rh = 9\<rparr> =
      Some (Some ((\<Sum>d\<leftarrow>?ps. g d) / 81), Some sd)" "0 \<le> sd" "sd \<le> ?v"
    using fstat_window[of ?ps star_conv "\<lparr>rx = 4, ry = 4, rw = 9, rh = 9\<rparr>" g ?v] fr by fastforce
  have "(\<Sum>d\<leftarrow>?ps. g d) = real_of_int (sum_list (map int_fit (map (\<lambda>d. (4 + fst d, 4 + snd d)) ?ps))) / 81000"
    unfolding g_def sum_list_fraction by (simp add: comp_def)
  also have "\<dots> = real_of_int (sum_list (map int_fit (region 4 12 4 12))) / 81000" unfolding shifted_region ..
  finally have "(\<Sum>d\<leftarrow>?ps. g d) / 81 \<le> 9 / 10 * ?v" using int_fit_values(3) by linarith
  then show thesis using that sd by blast
qed

lemma star_local_max: "is_local_max star_conv (8, 8) (real_of_int (int_fit (8, 8)) / 81000) = Some True"
proof -
  let ?v = "real_of_int (int_fit (8, 8)) / 81000" and ?ds = "filter (\<lambda>d. d \<noteq> (0, 0)) (region (- srch) srch (- srch) srch)"
  let ?g = "\<lambda>d. real_of_int (int_fit (8 + fst d, 8 + snd d)) / 81000"
  have d: "- 4 \<le> fst d \<and> fst d \<le> 4 \<and> - 4 \<le> snd d \<and> snd d \<le> 4" if "d \<in> set ?ds" for d
    using that by (simp add: in_region srch_def)
  have "opt_map (\<lambda>d. frd star_conv (17 * (8 + snd d) + (8 + fst d))) ?ds = Some (map ?g ?ds)"
  proof (intro opt_map_total ballI)
    fix e assume "e \<in> set ?ds"
    from d[OF this] show "frd star_conv (17 * (8 + snd e) + (8 + fst e)) = Some (?g e)"
      by (intro star_conv_px) linarith+
  qed
  moreover have "\<not> ?g d > ?v" if "d \<in> set ?ds" for d
  proof -
    have "(8 + fst d, 8 + snd d) \<in> set (region 4 12 4 12)" using d[OF that] by (simp add: in_region)
    then have "\<bar>int_fit (8 + fst d, 8 + snd d)\<bar> \<le> int_fit (8, 8)" using int_fit_values(1) by (simp add: list_all_iff)
    then show ?thesis by linarith
  qed
  ultimately show ?thesis using int_fit_values(2) by (simp add: is_local_max_def star_conv_def)
qed

lemma star_maxima: "\<exists>h. local_maxima rect_overlap star_conv 1 = Some [\<lparr>peak_x = 8, peak_y = 8, peak_val = h\<rparr>]"
proof -
  let ?v = "real_of_int (int_fit (8, 8)) / 81000"
  obtain m sd where st: "FloatImg_GetStats star_conv \<lparr>rx = 4, ry = 4, rw = 9, rh = 9\<rparr> = Some (Some m, Some sd)"
    "0 \<le> sd" "sd \<le> ?v" "m \<le> 9 / 10 * ?v" by (rule star_window)
  have h: "\<not> (case qdiv (?v - m) sd of Some v \<Rightarrow> v < 0.1 | None \<Rightarrow> False)"
  proof (cases "sd = 0")
    case False
    then have "0 < sd" using st(2) by simp
    moreover have "0.1 * sd \<le> ?v - m" using st(3,4) by simp
    ultimately have "0.1 \<le> (?v - m) / sd" by (simp add: pos_le_divide_eq)
    then show ?thesis by (simp add: qdiv_def)
  qed (simp add: qdiv_def)
  have r: "region 8 8 8 8 = [(8, 8)]" by (simp add: region_def)
  have px: "frd star_conv (fst (fsize star_conv) * 8 + 8) = Some ?v" by (rule star_conv_px) (simp_all add: star_conv_def)
  have "peak_px rect_overlap star_conv 1 (Some sd) (8, 8) [] = Some [\<lparr>peak_x = 8, peak_y = 8, peak_val = qdiv (?v - m) sd\<rparr>]"
    using h by (simp add: peak_px_def px star_local_max overlap_windows st(1) insert_peak_def TOP_N_def Let_def)
  then show ?thesis by (simp add: local_maxima_def overlap_windows st(1) srch_def r Let_def)
qed

text \<open>The search finds exactly the star, wherever the search region leaves room for it.\<close>

lemma star_peaks:
  assumes "sr + extra < 8"
  shows "\<exists>h. find_peaks rect_overlap junk 0 1 star_frame extra sr \<lparr>rx = 0, ry = 0, rw = 0, rh = 0\<rparr> =
    Some (Some [\<lparr>peak_x = 8, peak_y = 8, peak_val = h\<rparr>])"
proof -
  obtain d where d: "Median3 junk star_frame = Some (star_frame\<lparr>ImageData := d\<rparr>)" "FloatImg_of (star_frame\<lparr>ImageData := d\<rparr>) = smooth_star"
    using star_smoothed by blast
  obtain h where h: "local_maxima rect_overlap star_conv 1 = Some [\<lparr>peak_x = 8, peak_y = 8, peak_val = h\<rparr>]" using star_maxima by blast
  have "(us_Init [] (Size star_frame) (star_frame\<lparr>ImageData := []\<rparr>))\<lparr>ImageData := ImageData star_frame\<rparr> = star_frame"
    by (simp add: us_Init_def star_frame_def)
  then have "smooth rect_overlap junk star_frame sr \<lparr>rx = 0, ry = 0, rw = 0, rh = 0\<rparr> = Some (Some (star_frame\<lparr>ImageData := d\<rparr>))"
    using d(1) by (simp add: smooth_def rect_empty_def)
  moreover have "merge_close [pk] = [pk]" for pk by (simp add: merge_close.simps)
  moreover have "exclude_close sr [pk] = [pk]" for pk
    by (simp add: exclude_close_def RemoveItems_def to_erase_def Let_def image_iff)
  ultimately show ?thesis using assms d(2) h
    by (simp add: find_peaks_def star_conv_eq auto_downsample_def exclude_edge_def near_edge_def)
       (simp add: star_frame_def rect_empty_def)
qed

section \<open>Finding the star\<close>

definition star_view :: StarImage where
  "star_view = \<lparr>si_data = ImageData star_frame, si_width = 17, si_height = 17, subframeEmpty = True, subLeft = 0, subTop = 0,
     subRight = 0, subBottom = 0, si_pedestal = 0, si_bitsPerPixel = 16\<rparr>"

lemma star_view_px: "0 \<le> x \<Longrightarrow> x \<le> 16 \<Longrightarrow> 0 \<le> y \<Longrightarrow> y \<le> 16 \<Longrightarrow> px star_view x y = Some (star_px (x, y))"
proof -
  assume xy: "0 \<le> x" "x \<le> 16" "0 \<le> y" "y \<le> 16"
  then have "in_rect star_rect (x, y)" by (simp add: in_rect_def rect_of_size_def)
  from by_region[OF this, of "\<lambda>p. word_of_int (star_px p)"]
  have "ImageData star_frame ! nat (y * 17 + x) = word_of_int (star_px (x, y))" by (simp add: star_frame_def)
  moreover have "uint (word_of_int (star_px (x, y)) :: 16 word) = star_px (x, y)" by (simp add: star_px_def Let_def)
  moreover have "y * 17 + x < 289" "0 \<le> y * 17 + x" using xy by linarith+
  moreover have "int (length (ImageData star_frame)) = 289" using star_region_length by (simp add: star_frame_def)
  ultimately show ?thesis by (simp add: px_def star_view_def Let_def)
qed

text \<open>The peak: the fold over integers is evaluated.\<close>

definition smooth_px :: "int \<times> int \<Rightarrow> int" where
  "smooth_px p = (case p of (x, y) \<Rightarrow> 4 * star_px (x, y) + star_px (x - 1, y - 1) + star_px (x + 1, y - 1) + star_px (x - 1, y + 1)
     + star_px (x + 1, y + 1) + 2 * star_px (x, y - 1) + 2 * star_px (x - 1, y) + 2 * star_px (x + 1, y) + 2 * star_px (x, y + 1))"

definition peak_step :: "int \<times> int \<Rightarrow> PeakState \<Rightarrow> PeakState" where
  "peak_step p s =
     (let v = smooth_px p; s1 = (if v > pk_val s then s\<lparr>pk_val := v, pk_x := fst p, pk_y := snd p\<rparr> else s)
      in s1\<lparr>max3 := push_max3 (star_px p) (max3 s1)\<rparr>)"

lemma peak_steps:
  assumes "\<forall>p\<in>set ps. 1 \<le> fst p \<and> fst p \<le> 15 \<and> 1 \<le> snd p \<and> snd p \<le> 15"
  shows "fold_opt (peak_smooth star_view) ps s = Some (fold peak_step ps s)"
  using assms
proof (induction ps arbitrary: s)
  case (Cons p ps)
  obtain x y where p: "p = (x, y)" by (cases p)
  have b: "1 \<le> x" "x \<le> 15" "1 \<le> y" "y \<le> 15" using Cons.prems by (simp_all add: p)
  have "smoothed star_view x y = Some (smooth_px p)" using b by (simp add: smoothed_def smooth_px_def p star_view_px)
  then have "peak_smooth star_view p s = Some (peak_step p s)"
    using b by (simp add: peak_smooth_def p star_view_px peak_step_def Let_def)
  then show ?case using Cons by simp
qed simp

lemma star_peak: "find_peak star_view FIND_CENTROID 1 15 1 15 = Some (\<lparr>pk_val = 562, pk_x = 8, pk_y = 8, max3 = (1000, 500, 500)\<rparr>, 1000)"
proof -
  have "fold peak_step (region 2 14 2 14) peak_start = \<lparr>pk_val = 9000, pk_x = 8, pk_y = 8, max3 = (1000, 500, 500)\<rparr>" by code_simp
  moreover have "fold_opt (peak_smooth star_view) (region 2 14 2 14) peak_start = Some (fold peak_step (region 2 14 2 14) peak_start)"
    by (rule peak_steps) (auto simp: in_region)
  ultimately show ?thesis by (simp add: find_peak_def)
qed

text \<open>The background is black.\<close>

definition in_annulus :: "int \<times> int \<Rightarrow> bool" where
  "in_annulus p = (let r = (fst p - 8) * (fst p - 8) + (snd p - 8) * (snd p - 8) in 49 < r \<and> r \<le> 144)"

lemma black_pixels:
  assumes "\<forall>p\<in>set ps. 0 \<le> fst p \<and> fst p \<le> 16 \<and> 0 \<le> snd p \<and> snd p \<le> 16" and "mean_bg bg = 0" "sigma_bg bg = 0"
  shows "fold_opt (bg_pixel star_view 8 8 clip bg) ps \<lparr>bs_sum = 0, bs_a = 0, bs_q = 0, bs_n = n\<rparr> =
    Some \<lparr>bs_sum = 0, bs_a = 0, bs_q = 0, bs_n = n + int (length (filter in_annulus ps))\<rparr>"
  using assms(1)
proof (induction ps arbitrary: n)
  case (Cons p ps)
  obtain x y where p: "p = (x, y)" by (cases p)
  let ?s = "\<lambda>n. \<lparr>bs_sum = 0, bs_a = 0, bs_q = 0, bs_n = n\<rparr>"
  have "bg_pixel star_view 8 8 clip bg p (?s n) = Some (?s (if in_annulus p then n + 1 else n))"
  proof (cases "in_annulus p")
    case True
    have "\<bar>x - 8\<bar> > 1 \<or> \<bar>y - 8\<bar> > 1"
    proof (rule ccontr)
      assume "\<not> ?thesis"
      then have "x \<in> {7, 8, 9}" "y \<in> {7, 8, 9}" by auto
      then show False using True by (auto simp: in_annulus_def p)
    qed
    then have "px star_view x y = Some 0" using Cons.prems by (auto simp: p star_view_px star_px_def Let_def)
    then show ?thesis using True assms(2,3) by (simp add: bg_pixel_def p in_annulus_def radA_def radB_def Let_def)
  next
    case False
    then show ?thesis by (auto simp: bg_pixel_def p in_annulus_def radA_def radB_def Let_def)
  qed
  then show ?case using Cons by simp
qed simp

lemma star_background: "background star_view 8 8 = Some \<lparr>mean_bg = 0, sigma2_bg = 0, sigma_bg = 0, nbg = 140\<rparr>"
proof -
  let ?R = "region 0 16 0 16"
  have w: "window star_view 8 8 radB = ?R" by (simp add: window_def bounds_def star_view_def radB_def)
  have n: "int (length (filter in_annulus ?R)) = 140" by code_simp
  have f: "fold_opt (bg_pixel star_view 8 8 clip bg) ?R \<lparr>bs_sum = 0, bs_a = 0, bs_q = 0, bs_n = 0\<rparr> =
      Some \<lparr>bs_sum = 0, bs_a = 0, bs_q = 0, bs_n = 140\<rparr>" if "mean_bg bg = 0" "sigma_bg bg = 0" for clip bg
    using black_pixels[of ?R bg clip 0] that n by (simp add: in_region)
  have nine: "(9 :: nat) = Suc (Suc 7)" by simp
  show ?thesis unfolding background_def w nine bg_iterate.simps by (simp add: f)
qed

text \<open>The mass, and the pixels it is made of.\<close>

definition in_disc :: "int \<times> int \<Rightarrow> bool" where
  "in_disc p \<longleftrightarrow> (fst p - 8) * (fst p - 8) + (snd p - 8) * (snd p - 8) \<le> 49"

definition star_vec :: "(int \<times> int) list \<Rightarrow> R2M list" where
  "star_vec ps = map (\<lambda>p. R2M_new (fst p) (snd p) (real_of_int (star_px p))) (filter in_disc ps)"

lemma star_masses:
  assumes "\<forall>p\<in>set ps. 0 \<le> fst p \<and> fst p \<le> 16 \<and> 0 \<le> snd p \<and> snd p \<le> 16"
  shows "fold_opt (mass_pixel star_view 8 8 0 0) ps s =
    Some \<lparr>ms_cx = ms_cx s + real_of_int (\<Sum>p\<leftarrow>filter in_disc ps. (fst p - 8) * star_px p),
      ms_cy = ms_cy s + real_of_int (\<Sum>p\<leftarrow>filter in_disc ps. (snd p - 8) * star_px p),
      ms_mass = ms_mass s + real_of_int (\<Sum>p\<leftarrow>filter in_disc ps. star_px p),
      ms_n = ms_n s + int (length (filter in_disc ps)), ms_vec = ms_vec s @ star_vec ps\<rparr>"
  using assms
proof (induction ps arbitrary: s)
  case (Cons p ps)
  obtain x y where p: "p = (x, y)" by (cases p)
  have nn: "0 \<le> star_px p" for p by (simp add: star_px_def Let_def)
  show ?case
  proof (cases "in_disc p")
    case True
    have "px star_view x y = Some (star_px (x, y))" using Cons.prems by (simp add: p star_view_px)
    then show ?thesis using True Cons nn[of p] by (simp add: mass_pixel_def p in_disc_def radA_def star_vec_def not_less Let_def)
  next
    case False
    then show ?thesis using Cons by (simp add: mass_pixel_def p in_disc_def radA_def star_vec_def Let_def)
  qed
qed (simp add: star_vec_def)

lemma star_sums:
  "(\<Sum>p\<leftarrow>filter in_disc (region 1 15 1 15). (fst p - 8) * star_px p) = 0"
  "(\<Sum>p\<leftarrow>filter in_disc (region 1 15 1 15). (snd p - 8) * star_px p) = 0"
  "(\<Sum>p\<leftarrow>filter in_disc (region 1 15 1 15). star_px p) = 4000"
  "length (filter in_disc (region 1 15 1 15)) = 149"
  by code_simp+

lemma star_measure:
  "measure_mass bad star_view FIND_CENTROID \<lparr>pk_val = 562, pk_x = 8, pk_y = 8, max3 = m3\<rparr>
     \<lparr>mean_bg = 0, sigma2_bg = 0, sigma_bg = 0, nbg = 140\<rparr> =
   Some (0, \<lparr>ms_cx = 0, ms_cy = 0, ms_mass = 4000, ms_n = 149, ms_vec = star_vec (region 1 15 1 15)\<rparr>)"
proof -
  have w: "window star_view 8 8 radA = region 1 15 1 15" by (simp add: window_def bounds_def star_view_def radA_def)
  have "c_ushort bad (1 / 2) = 0" by (simp add: c_ushort_def c_trunc_def)
  then show ?thesis
    using star_masses[of "region 1 15 1 15" "\<lparr>ms_cx = 0, ms_cy = 0, ms_mass = 0, ms_n = 0, ms_vec = []\<rparr>"]
    by (simp add: measure_mass_def w in_region star_sums)
qed

text \<open>The half flux radius: the median of the mass lies in the ring of the four neighbours or that of the corners.\<close>

definition ring_mass :: "(int \<Rightarrow> bool) \<Rightarrow> int" where
  "ring_mass P = (\<Sum>p\<leftarrow>filter (\<lambda>p. P ((fst p - 8) * (fst p - 8) + (snd p - 8) * (snd p - 8))) (filter in_disc (region 1 15 1 15)). star_px p)"

lemma inner_mass: "ring_mass (\<lambda>r. r < 1) = 1000"
  by code_simp

lemma ring_values: "list_all (\<lambda>p. let r = (fst p - 8) * (fst p - 8) + (snd p - 8) * (snd p - 8) in
    (r < 1 \<or> star_px p \<le> 500) \<and> (r \<le> 2 \<or> star_px p = 0)) (filter in_disc (region 1 15 1 15))"
  by code_simp

definition ring_list :: "R2M list" where
  "ring_list = map (with_radius 8 8) (star_vec (region 1 15 1 15))"

lemma ring_elements:
  assumes "v \<in> set ring_list"
  shows "0 \<le> rm v" "rm v \<le> 1000" "r2 v < 1 \<or> rm v \<le> 500" "r2 v \<le> 2 \<or> rm v = 0"
proof -
  obtain p where p: "p \<in> set (filter in_disc (region 1 15 1 15))"
    "v = with_radius 8 8 (R2M_new (fst p) (snd p) (real_of_int (star_px p)))"
    using assms by (auto simp: ring_list_def star_vec_def)
  let ?r = "(fst p - 8) * (fst p - 8) + (snd p - 8) * (snd p - 8)"
  have v: "r2 v = real_of_int ?r" "rm v = real_of_int (star_px p)" by (simp_all add: p(2) with_radius_def R2M_new_def Let_def)
  have "(?r < 1 \<or> star_px p \<le> 500) \<and> (?r \<le> 2 \<or> star_px p = 0)"
    using ring_values p(1) unfolding list_all_iff Let_def by blast
  moreover have "0 \<le> star_px p \<and> star_px p \<le> 1000" by (simp add: star_px_def Let_def)
  ultimately show "0 \<le> rm v" "rm v \<le> 1000" "r2 v < 1 \<or> rm v \<le> 500" "r2 v \<le> 2 \<or> rm v = 0" unfolding v by linarith+
qed

lemma ring_masses: "sum_list (map rm ring_list) = 4000" "sum_list (map rm (filter (\<lambda>v. r2 v < 1) ring_list)) = 1000"
proof -
  let ?L = "filter in_disc (region 1 15 1 15)"
  have "map rm ring_list = map (\<lambda>p. real_of_int (star_px p) / 1) ?L"
    by (simp add: ring_list_def star_vec_def R2M_new_def)
  then show "sum_list (map rm ring_list) = 4000" using sum_list_fraction[of star_px 1 ?L] star_sums(3) by simp
  have "r2 (with_radius 8 8 (R2M_new x y m)) < 1 \<longleftrightarrow> (x - 8) * (x - 8) + (y - 8) * (y - 8) < 1" for x y m
  proof -
    have "r2 (with_radius 8 8 (R2M_new x y m)) = real_of_int ((x - 8) * (x - 8) + (y - 8) * (y - 8))"
      by (simp add: with_radius_def R2M_new_def Let_def)
    then show ?thesis by linarith
  qed
  then have "map rm (filter (\<lambda>v. r2 v < 1) ring_list) =
      map (\<lambda>p. real_of_int (star_px p) / 1) (filter (\<lambda>p. (fst p - 8) * (fst p - 8) + (snd p - 8) * (snd p - 8) < 1) ?L)"
    by (simp add: ring_list_def star_vec_def filter_map comp_def R2M_new_def del: filter_filter)
  then show "sum_list (map rm (filter (\<lambda>v. r2 v < 1) ring_list)) = 1000"
    using sum_list_fraction[of star_px 1] inner_mass by (simp only: ring_mass_def)
qed

context std_sort begin

lemma star_hfr: "1 \<le> hfr srt (star_vec (region 1 15 1 15)) 8 8 4000 \<and> hfr srt (star_vec (region 1 15 1 15)) 8 8 4000 \<le> 2"
proof -
  let ?m = "\<lambda>us. sum_list (map rm us)" and ?R = "hfr srt (star_vec (region 1 15 1 15)) 8 8 4000"
  have "?m (srt ring_list) = 4000" by (simp add: srt_mass ring_masses)
  then obtain us w zs where sp: "srt ring_list = us @ w # zs" "?m us \<le> 2000" "2000 < ?m us + rm w"
    "half_mass 2000 (0, 0, 0, 0) (srt ring_list) = (last (0 # map r2 us), r2 w, ?m us, ?m us + rm w)"
    using half_mass_split[of 0 2000 "srt ring_list" 0 0 0] by force
  note ord = srt_split[OF sp(1)]
  have el: "v \<in> set ring_list" if "v \<in> set us \<union> {w}" for v using srt_set[of ring_list] sp(1) that by auto
  have zs: "0 \<le> rm v" if "v \<in> set zs" for v using ring_elements(1)[of v] srt_set[of ring_list] sp(1) that by auto
  define l where "l = last (0 # map r2 us)"
  have "length (star_vec (region 1 15 1 15)) = 149" using star_sums(4) by (simp add: star_vec_def)
  then have R: "?R = sqrt l + (sqrt (r2 w) - sqrt l) / (?m us + rm w - ?m us) * (2000 - ?m us)"
    using sp(2-4) by (simp add: hfr_def Let_def l_def ring_list_def)
  have w2: "r2 w \<le> 2" using ring_elements(4)[of w] el sp(2,3) by fastforce
  have few: "?m us \<le> 1000" if "\<forall>u\<in>set us. r2 u < 1"
  proof -
    have "?m us = ?m (filter (\<lambda>v. r2 v < 1) us)" using that by (simp add: filter_True)
    also have "\<dots> \<le> ?m (filter (\<lambda>v. r2 v < 1) (srt ring_list))"
      using zs ring_elements(1)[OF el, of w] by (auto simp: sp(1) intro!: add_nonneg_nonneg sum_list_nonneg)
    finally show ?thesis by (simp add: srt_filter_mass ring_masses)
  qed
  have l1: "1 \<le> l"
  proof (rule ccontr)
    assume "\<not> 1 \<le> l"
    then have us: "\<forall>u\<in>set us. r2 u < 1" using ord(2) unfolding l_def by fastforce
    show False
    proof (cases "r2 w < 1")
      case True
      have "?m us + rm w = ?m (filter (\<lambda>v. r2 v < 1) (us @ [w]))" using us True by (simp add: filter_True)
      also have "\<dots> \<le> ?m (filter (\<lambda>v. r2 v < 1) (srt ring_list))"
        using zs True by (auto simp: sp(1) intro!: sum_list_nonneg)
      finally show False using sp(3) by (simp add: srt_filter_mass ring_masses)
    next
      case False
      then have "rm w \<le> 500" using ring_elements(3)[of w] el by auto
      then show False using few[OF us] sp(3) by linarith
    qed
  qed
  have "us \<noteq> []" using l1 by (auto simp: l_def)
  then have "l \<le> r2 w" using ord(1)[OF last_in_set] by (simp add: l_def last_map)
  then have "sqrt l \<le> ?R" "?R \<le> sqrt (r2 w)"
    unfolding R using interpolate_between[of "sqrt l" "sqrt (r2 w)" "?m us" 2000 "?m us + rm w"] sp(2,3) by simp_all
  moreover have "1 \<le> sqrt l" using l1 by simp
  moreover have "sqrt (r2 w) \<le> sqrt (2 * 2)" using w2 by (intro real_sqrt_le_mono) simp
  then have "sqrt (r2 w) \<le> 2" by simp
  ultimately show ?thesis by linarith
qed

text \<open>\<open>FindStar\<close> from the middle of the frame finds the star.\<close>

lemma star_view_found: "\<exists>w. FindStar srt bad star_view 8 8 7 FIND_CENTROID 1 10 maxADU = Some w \<and> fo_found w \<and>
    fo_x w = 8 \<and> fo_y w = 8 \<and> fo_result w \<in> {RC_Ok, RC_Saturated} \<and> fo_snr w = Some (4000 / sqrt 8000)"
proof -
  have b: "bounds star_view = (0, 0, 16, 16)" by (simp add: bounds_def star_view_def)
  have "sqrt 8000 \<le> sqrt (100\<^sup>2)" by (rule real_sqrt_le_mono) simp
  then have "sqrt 8000 * 3 \<le> 4000" by simp
  then have "3 \<le> 4000 / sqrt 8000" by (simp add: le_divide_eq mult.commute)
  then show ?thesis using star_hfr
    by (simp add: FindStar_def b star_peak star_background star_measure judge_def snr_of_def snr_lt_def snr_ge_def LOW_SNR_def Let_def)
qed

end

end
