(* ===== verification/Auto_Find.thy ===== *)
theory Auto_Find
  imports Star_Example Multi_Star
begin

text \<open>
  The second half of \<open>GuideStar::AutoFind\<close> of \<open>src/star.cpp\<close>, which chooses the star to guide on and the
  secondary stars among the peaks, and its callers in \<open>src/guider_multistar.cpp\<close>: \<open>AutoSelect\<close>,
  \<open>SetMultiStarMode\<close> and the subframe of \<open>GetBoundingBox\<close>.  The stars are measured by \<open>Star::Find\<close> of
  Star_Find.  The settings and the parameters of the model are in one record.
\<close>

section \<open>Settings\<close>

record CamSat =
  m_saturationByADU :: bool
  m_saturationADU :: nat

definition SetSaturationByADU :: "bool \<Rightarrow> nat \<Rightarrow> CamSat \<Rightarrow> CamSat" where
  "SetSaturationByADU byADU adu c =
     (let c1 = c\<lparr>m_saturationByADU := byADU\<rparr> in if byADU then c1\<lparr>m_saturationADU := adu\<rparr> else c1)"

record AutoFindEnv =
  af_isect :: "Rect \<Rightarrow> Rect \<Rightarrow> Rect"
  af_junk :: "16 word list"
  af_downsample :: int
  af_scale :: real
  af_sort :: "R2M list \<Rightarrow> R2M list"
  af_bad :: int
  af_undef :: int
  af_minHFD :: real
  af_maxHFD :: real
  af_minSNR :: real

text \<open>The view of a frame that \<open>Star::Find\<close> passes to the search.\<close>

definition star_image :: "usImage \<Rightarrow> StarImage" where
  "star_image im =
     (let r = Subframe im; e = rect_empty r
      in \<lparr>si_data = ImageData im, si_width = fst (Size im), si_height = snd (Size im), subframeEmpty = e,
          subLeft = (if e then 0 else rx r), subTop = (if e then 0 else ry r),
          subRight = (if e then 0 else rx r + rw r - 1), subBottom = (if e then 0 else ry r + rh r - 1),
          si_pedestal = Pedestal im, si_bitsPerPixel = int (BitsPerPixel im)\<rparr>)"

definition find_env :: "AutoFindEnv \<Rightarrow> usImage \<Rightarrow> int \<Rightarrow> CamSat \<Rightarrow> FindEnv" where
  "find_env a im searchRegion cam =
     \<lparr>fe_sort = af_sort a, fe_bad = af_bad a, fe_image = star_image im, fe_searchRegion = searchRegion, fe_mode = FIND_CENTROID,
      fe_minHFD = af_minHFD a, fe_maxHFD = af_maxHFD a, fe_maxADU = int (m_saturationADU cam)\<rparr>"

definition GuideStar_new :: "int \<Rightarrow> GuideStar" where
  "GuideStar_new undef = \<lparr>gs_star = Star_new undef, referencePoint = PHD_Point_new 0 0, missCount = 0, zeroCount = 0,
     offsetFromPrimary = PHD_Point_new 0 0, wasLost = False\<rparr>"

definition find_peak_star :: "FindEnv \<Rightarrow> int \<Rightarrow> Peak \<Rightarrow> GuideStar option" where
  "find_peak_star e undef pk =
     map_option (\<lambda>r. (GuideStar_new undef)\<lparr>gs_star := snd r\<rparr>) (Star_FindAt e (peak_x pk) (peak_y pk) (gs_star (GuideStar_new undef)))"

section \<open>The saturation level\<close>

text \<open>From here on the peaks come brightest first.  A flat top close to the largest value saturates.\<close>

fun found_saturated :: "FindEnv \<Rightarrow> int \<Rightarrow> int \<Rightarrow> Peak list \<Rightarrow> bool option" where
  "found_saturated e undef maxVal [] = Some False"
| "found_saturated e undef maxVal (pk # pks) =
     do { gs \<leftarrow> find_peak_star e undef pk;
          let st = gs_star gs
          in if WasFound st \<and> m_lastFindResult st = STAR_SATURATED \<and>
                \<not> ((maxVal - PeakVal st) mod 2 ^ 32 * 255) mod 2 ^ 32 > maxVal
             then Some True else found_saturated e undef maxVal pks }"

definition max_pixel :: "usImage \<Rightarrow> int" where
  "max_pixel im = foldl (\<lambda>m v. if uint v > m then uint v else m) 0 (ImageData im)"

text \<open>A shift by 32 or more is undefined.\<close>

definition bpp_max :: "usImage \<Rightarrow> int option" where
  "bpp_max im = (if BitsPerPixel im < 32 then Some (2 ^ BitsPerPixel im - 1) else None)"

definition sat_level :: "AutoFindEnv \<Rightarrow> usImage \<Rightarrow> int \<Rightarrow> Peak list \<Rightarrow> CamSat \<Rightarrow> (int \<times> CamSat) option" where
  "sat_level a im searchRegion pks cam =
     (if m_saturationByADU cam
      then if m_saturationADU cam = 0
           then do { b \<leftarrow> bpp_max im;
                     let adu = b mod 65536
                     in Some (adu + Pedestal im, SetSaturationByADU True (nat adu) cam) }
           else Some (int (m_saturationADU cam) + Pedestal im, cam)
      else do { sat \<leftarrow> found_saturated (find_env a im searchRegion cam) (af_undef a) (max_pixel im) pks;
                if sat then Some (max_pixel im, cam)
                else do { b \<leftarrow> bpp_max im; Some ((b + Pedestal im) mod 2 ^ 32, cam) } })"

definition sat_thresh :: "usImage \<Rightarrow> int \<Rightarrow> int" where
  "sat_thresh im level =
     (let range = (if level > Pedestal im then level - Pedestal im else 0)
      in min 65535 ((Pedestal im + (9 * range) mod 2 ^ 32 div 10) mod 2 ^ 32))"

section \<open>Candidates\<close>

definition CloseToReference :: "GuideStar \<Rightarrow> GuideStar \<Rightarrow> bool option" where
  "CloseToReference ref other =
     map_option (\<lambda>d. d < 25) (p_DistanceTo (star_pos (gs_star other)) (star_pos (gs_star ref)))"

definition set_reference :: "GuideStar \<Rightarrow> GuideStar" where
  "set_reference gs =
     gs\<lparr>referencePoint := (referencePoint gs)\<lparr>pX := pX (star_pos (gs_star gs)), pY := pY (star_pos (gs_star gs))\<rparr>\<rparr>"

definition add_candidate :: "FindEnv \<Rightarrow> int \<Rightarrow> real \<Rightarrow> Peak \<Rightarrow> GuideStar list \<Rightarrow> GuideStar list option" where
  "add_candidate e undef minSNR pk found =
     do { gs \<leftarrow> find_peak_star e undef pk;
          if WasFound (gs_star gs) \<and> snr_ge (SNR (gs_star gs)) minSNR
          then do { close \<leftarrow> opt_map (CloseToReference gs) found;
                    Some (if True \<in> set close then found else found @ [set_reference gs]) }
          else Some found }"

section \<open>The choice of the star\<close>

definition accepts :: "nat \<Rightarrow> int \<Rightarrow> real \<Rightarrow> GuideStar \<Rightarrow> bool" where
  "accepts pass thresh minSNR gs =
     (let st = gs_star gs; poor = (m_lastFindResult st = STAR_SATURATED \<or> snr_lt (SNR st) minSNR)
      in if pass = 1 then \<not> PeakVal st > thresh \<and> \<not> poor
         else if pass = 2 then \<not> poor else True)"

fun brightest :: "FindEnv \<Rightarrow> int \<Rightarrow> (GuideStar \<Rightarrow> bool) \<Rightarrow> Peak list \<Rightarrow> (Peak \<times> GuideStar) option option" where
  "brightest e undef acc [] = Some None"
| "brightest e undef acc (pk # pks) =
     do { gs \<leftarrow> find_peak_star e undef pk;
          if WasFound (gs_star gs) \<and> acc gs then Some (Some (pk, gs)) else brightest e undef acc pks }"

fun pick_star :: "FindEnv \<Rightarrow> int \<Rightarrow> int \<Rightarrow> real \<Rightarrow> Peak list \<Rightarrow> nat list \<Rightarrow> (Peak \<times> GuideStar) option option" where
  "pick_star e undef thresh minSNR pks [] = Some None"
| "pick_star e undef thresh minSNR pks (pass # passes) =
     do { r \<leftarrow> brightest e undef (accepts pass thresh minSNR) pks;
          case r of Some x \<Rightarrow> Some (Some x) | None \<Rightarrow> pick_star e undef thresh minSNR pks passes }"

definition same_place :: "GuideStar \<Rightarrow> GuideStar \<Rightarrow> bool" where
  "same_place a b \<longleftrightarrow> pX (star_pos (gs_star a)) = pX (star_pos (gs_star b)) \<and> pY (star_pos (gs_star a)) = pY (star_pos (gs_star b))"

text \<open>
  The list of stars behind the chosen one: it becomes the head, or replaces a list in which it is not.
  The offsets are relative to the peak, not to the position measured for the star.
\<close>

definition with_offset :: "Peak \<Rightarrow> GuideStar \<Rightarrow> GuideStar \<Rightarrow> GuideStar option" where
  "with_offset pk tmp gs =
     (if same_place gs tmp then Some gs
      else map_option (\<lambda>d. gs\<lparr>offsetFromPrimary := d\<rparr>)
             (p_sub (referencePoint gs) (PHD_Point_new (real_of_int (peak_x pk)) (real_of_int (peak_y pk)))))"

definition place_primary :: "Peak \<Rightarrow> GuideStar \<Rightarrow> int \<Rightarrow> GuideStar list \<Rightarrow> GuideStar list option" where
  "place_primary pk tmp maxStars found =
     (if maxStars > 1
      then do { found1 \<leftarrow> opt_map (with_offset pk tmp) found;
                let locs = filter (\<lambda>i. same_place (found ! i) tmp) [0..<length found]
                in Some (if locs \<noteq> [] then take (nat maxStars) (drop (last locs) found1) else [set_reference tmp]) }
      else Some (found @ [set_reference tmp]))"

text \<open>The result, the star itself, the list of stars and the saturation settings of the camera.\<close>

definition AutoFind :: "AutoFindEnv \<Rightarrow> usImage \<Rightarrow> int \<Rightarrow> int \<Rightarrow> Rect \<Rightarrow> int \<Rightarrow> GuideStar list \<Rightarrow> CamSat \<Rightarrow> GuideStar \<Rightarrow>
    (bool \<times> GuideStar \<times> GuideStar list \<times> CamSat) option" where
  "AutoFind a im extraEdgeAllowance searchRegion roi maxStars foundStars cam self =
     do { peaks \<leftarrow> find_peaks (af_isect a) (af_junk a) (af_downsample a) (af_scale a) im extraEdgeAllowance searchRegion roi;
          case peaks of
            None \<Rightarrow> Some (False, self, foundStars, cam)
          | Some ps \<Rightarrow>
              let pks = rev ps
              in do { (level, cam1) \<leftarrow> sat_level a im searchRegion pks cam;
                      let e = find_env a im searchRegion cam1
                      in do { found \<leftarrow> (if maxStars > 1 then fold_opt (add_candidate e (af_undef a) (af_minSNR a)) pks [] else Some []);
                              choice \<leftarrow> pick_star e (af_undef a) (sat_thresh im level) (af_minSNR a) pks [1, 2, 3];
                              case choice of
                                None \<Rightarrow> Some (False, self, found, cam1)
                              | Some (pk, tmp) \<Rightarrow>
                                  map_option (\<lambda>fs. (True, self\<lparr>gs_star := (gs_star self)\<lparr>star_pos :=
                                                      p_SetXY (star_pos (gs_star self)) (real_of_int (peak_x pk)) (real_of_int (peak_y pk))\<rparr>\<rparr>, fs, cam1))
                                    (place_primary pk tmp maxStars found) } } }"

section \<open>The selection of a star by the guider\<close>

definition MAX_LIST_SIZE :: int where "MAX_LIST_SIZE = 12"

text \<open>A mount that is not calibrated yet needs room to move; \<open>totDist\<close> is its \<open>CalibrationTotDistance\<close>.\<close>

definition edge_allowance :: "'m MountOps \<Rightarrow> ('m \<Rightarrow> int) \<Rightarrow> 'm Guider \<Rightarrow> int" where
  "edge_allowance ops totDist g =
     (let upd = (\<lambda>m d. case m of None \<Rightarrow> d
                   | Some m \<Rightarrow> if mo_IsConnected ops m \<and> \<not> mo_IsCalibrated ops m then max d (totDist m) else d)
      in upd (pSecondaryMount g) (upd (pMount g) 0))"

text \<open>The position of the guider is that of the primary star.\<close>

definition sync_star :: "Star \<Rightarrow> 'm Guider \<Rightarrow> 'm Guider" where
  "sync_star st g = g\<lparr>currentPosition := star_pos st, starWasFound := WasFound st\<rparr>"

text \<open>\<open>AutoSelect\<close> up to the lock position, each exception being an error with the state reached.\<close>

definition select_star :: "'m MountOps \<Rightarrow> ('m \<Rightarrow> int) \<Rightarrow> AutoFindEnv \<Rightarrow> usImage \<Rightarrow> bool \<Rightarrow> Rect \<Rightarrow> CamSat \<times> MultiStar \<times> 'm Guider \<Rightarrow>
    (bool \<times> CamSat \<times> MultiStar \<times> 'm Guider) option" where
  "select_star ops totDist a im useSubframes roi = (\<lambda>(cam, s, g).
     if ImageData im = [] then Some (True, cam, s, g)
     else do { (ok, newStar, stars, cam1) \<leftarrow>
                 AutoFind a im (edge_allowance ops totDist g) (m_searchRegion g) roi
                   (if useSubframes \<or> \<not> m_multiStarMode s then 1 else MAX_LIST_SIZE) (m_guideStars s) cam (GuideStar_new (af_undef a));
               let s1 = s\<lparr>m_guideStars := stars\<rparr>;
               if \<not> ok then Some (True, cam1, s1, g)
               else do { (found, p) \<leftarrow> Star_FindNear (find_env a im (m_searchRegion g) cam1)
                                        (pX (star_pos (gs_star newStar))) (pY (star_pos (gs_star newStar))) (m_primaryStar s1);
                         let s2 = s1\<lparr>m_massChecker := mc_Reset (m_massChecker s1), m_primaryStar := p\<rparr>;
                         if \<not> found then Some (True, cam1, s2, sync_star p g)
                         else do { (err, s3, g2) \<leftarrow> ms_SetLockPosition (star_pos p) (s2\<lparr>m_primaryDistStats := ds_ClearAll\<rparr>, sync_star p g);
                                   Some (err, cam1, s3, g2) } } })"

text \<open>While a star is being selected the state machine is advanced at once, without a new image.\<close>

definition AutoSelect :: "'m MountOps \<Rightarrow> ('m \<Rightarrow> int) \<Rightarrow> AutoFindEnv \<Rightarrow> usImage \<Rightarrow> bool \<Rightarrow> UpdEnv \<Rightarrow> FrameInput \<Rightarrow> Rect \<Rightarrow>
    CamSat \<times> MultiStar \<times> 'm Guider \<Rightarrow> (bool \<times> CamSat \<times> MultiStar \<times> 'm Guider) option" where
  "AutoSelect ops totDist a im useSubframes e fi roi st =
     do { (err, cam1, s1, g1) \<leftarrow> select_star ops totDist a im useSubframes roi st;
          if err \<or> m_state g1 \<noteq> STATE_SELECTING then Some (err, cam1, s1, g1)
          else do { (s2, g2) \<leftarrow> multistar_frame ops
                      (e\<lparr>ue_find := (find_env a im (m_searchRegion g1) cam1)\<lparr>fe_mode := fe_mode (ue_find e)\<rparr>\<rparr>)
                      (fi\<lparr>fi_newImage := None, fi_stopping := False\<rparr>) (s1, g1);
                    Some (False, cam1, s2, g2) } }"

text \<open>Turning the multi-star mode on with a star selected forces a new selection.\<close>

definition SetMultiStarMode :: "'m MountOps \<Rightarrow> ('m \<Rightarrow> int) \<Rightarrow> AutoFindEnv \<Rightarrow> usImage \<Rightarrow> bool \<Rightarrow> UpdEnv \<Rightarrow> FrameInput \<Rightarrow> bool \<Rightarrow>
    CamSat \<times> MultiStar \<times> 'm Guider \<Rightarrow> (CamSat \<times> MultiStar \<times> 'm Guider) option" where
  "SetMultiStarMode ops totDist a im useSubframes e fi val = (\<lambda>(cam, s, g).
     let s1 = s\<lparr>m_multiStarMode := val\<rparr>;
         unstable = (\<lambda>s. if val then s else s\<lparr>m_stabilizing := False\<rparr>)
     in if val \<and> \<not> m_multiStarMode s
        then let s2 = s1\<lparr>m_primaryDistStats := ds_ClearAll\<rparr>
             in if m_state g \<ge> STATE_SELECTED
                then do { g1 \<leftarrow> StopGuiding ops g;
                          (err, cam1, s3, g2) \<leftarrow> AutoSelect ops totDist a im useSubframes e fi \<lparr>rx = 0, ry = 0, rw = 0, rh = 0\<rparr>
                            (cam, ms_InvalidateCurrentPosition True (ms_callbacks g g1 s2), InvalidateCurrentPosition True g1);
                          if \<not> err \<and> IsCalibratingOrGuiding g
                          then do { g3 \<leftarrow> StartGuiding ops g2; Some (cam1, unstable (ms_callbacks g2 g3 s3), g3) }
                          else Some (cam1, unstable s3, g2) }
                else Some (cam, unstable s2, g)
        else Some (cam, unstable s1, g))"

section \<open>The subframe of the next exposure\<close>

definition SubframeRect :: "PHD_Point \<Rightarrow> int \<Rightarrow> Rect" where
  "SubframeRect pos halfwidth =
     \<lparr>rx = ROUND (pX pos) - halfwidth, ry = ROUND (pY pos) - halfwidth, rw = 2 * halfwidth + 1, rh = 2 * halfwidth + 1\<rparr>"

text \<open>While guiding it stays at the lock position as long as the star is close to that.\<close>

definition GetBoundingBox :: "(Rect \<Rightarrow> Rect \<Rightarrow> Rect) \<Rightarrow> MultiStar \<times> 'm Guider \<Rightarrow> Rect option" where
  "GetBoundingBox isect = (\<lambda>(s, g).
     let cur = star_pos (m_primaryStar s); lock = sp_pos (m_lockPosition g);
         box = (\<lambda>pos. if WasFound (m_primaryStar s) \<and> \<not> m_forceFullFrame g
                      then isect (SubframeRect pos (m_searchRegion g)) (rect_of_size (imageSize g))
                      else \<lparr>rx = 0, ry = 0, rw = 0, rh = 0\<rparr>)
     in if m_state g \<in> {STATE_SELECTED, STATE_CALIBRATING_PRIMARY, STATE_CALIBRATING_SECONDARY} then Some (box cur)
        else if m_state g = STATE_GUIDING
        then map_option (\<lambda>dist. box (if c_trunc dist > c_quot (m_searchRegion g) 3 then cur else lock)) (p_DistanceTo cur lock)
        else Some \<lparr>rx = 0, ry = 0, rw = 0, rh = 0\<rparr>)"

section \<open>What a search for stars gives\<close>

lemma find_env_ok: "us_ok im \<Longrightarrow> 0 \<le> af_bad a \<Longrightarrow> env_ok (find_env a im sr cam)"
  by (auto simp: env_ok_def find_env_def img_ok_def star_image_def us_ok_def rect_in_def Let_def)

text \<open>Where a star is found does not depend on the star object.\<close>

lemma FindAt_place:
  assumes "Star_FindAt e x y s = Some (found, st)"
  shows "\<exists>st1. Star_FindAt e x y s1 = Some (found, st1) \<and> star_pos st1 = star_pos st"
proof -
  obtain w where w: "FindStar (fe_sort e) (fe_bad e) (fe_image e) x y (fe_searchRegion e) (fe_mode e) (fe_minHFD e) (fe_maxHFD e) (fe_maxADU e) = Some w"
    using assms by (auto simp: Star_FindAt_def bind_eq_Some_conv)
  have p: "p_SetXY (star_pos q) (fo_x w) (fo_y w) = PHD_Point_new (fo_x w) (fo_y w)" for q by (simp add: p_SetXY_def PHD_Point_new_def)
  have "found = WasFound_result (find_result (fo_result w)) \<and> star_pos st = PHD_Point_new (fo_x w) (fo_y w)"
    using assms by (auto simp: Star_FindAt_def w p Let_def)
  then show ?thesis by (simp add: Star_FindAt_def w p Let_def)
qed

lemma find_peak_star_total:
  assumes "env_ok e"
  obtains st where "find_peak_star e undef pk = Some ((GuideStar_new undef)\<lparr>gs_star := st\<rparr>)" "p_valid (star_pos st)"
    "Star_FindAt e (peak_x pk) (peak_y pk) (Star_new undef) = Some (WasFound st, st)"
proof -
  obtain found st where "Star_FindAt e (peak_x pk) (peak_y pk) (Star_new undef) = Some (found, st)" "p_valid (star_pos st)" "found = WasFound st"
    by (rule Star_FindAt_cases[OF assms])
  then show ?thesis using that by (simp add: find_peak_star_def GuideStar_new_def)
qed

lemma found_saturated_total: "env_ok e \<Longrightarrow> \<exists>b. found_saturated e undef m pks = Some b"
proof (induction pks)
  case (Cons pk pks)
  obtain st where "find_peak_star e undef pk = Some ((GuideStar_new undef)\<lparr>gs_star := st\<rparr>)" by (rule find_peak_star_total[OF Cons.prems])
  then show ?case using Cons by (auto simp: Let_def)
qed auto

lemma sat_level_total:
  assumes "us_ok im" "0 \<le> af_bad a" "BitsPerPixel im < 32"
  shows "\<exists>l cam1. sat_level a im sr pks cam = Some (l, cam1)"
  using found_saturated_total[OF find_env_ok[OF assms(1,2)], of sr cam "af_undef a" "max_pixel im" pks] assms(3)
  by (auto simp: sat_level_def bpp_max_def Let_def)

text \<open>A star of the list, and the list: apart from each other, all but the first bright enough.\<close>

definition listed :: "GuideStar \<Rightarrow> bool" where
  "listed gs \<longleftrightarrow> WasFound (gs_star gs) \<and> gs_ok gs \<and> referencePoint gs = star_pos (gs_star gs)"

definition guide_list :: "real \<Rightarrow> GuideStar list \<Rightarrow> bool" where
  "guide_list minSNR gss \<longleftrightarrow> gss \<noteq> [] \<and> sorted_wrt (\<lambda>a b. CloseToReference b a = Some False) gss \<and>
     (\<forall>gs\<in>set gss. listed gs) \<and> (\<forall>gs\<in>set (tl gss). snr_ge (SNR (gs_star gs)) minSNR)"

lemma close_cases: "p_valid (star_pos (gs_star a)) \<Longrightarrow> p_valid (star_pos (gs_star b)) \<Longrightarrow>
    CloseToReference a b = Some (hypot (pX (star_pos (gs_star b)) - pX (star_pos (gs_star a))) (pY (star_pos (gs_star b)) - pY (star_pos (gs_star a))) < 25)"
  by (simp add: CloseToReference_def p_DistanceTo_def p_dX_def p_dY_def)

lemma new_listed: "WasFound st \<Longrightarrow> listed (set_reference ((GuideStar_new undef)\<lparr>gs_star := st\<rparr>))"
  by (simp add: listed_def set_reference_def GuideStar_new_def gs_ok_def PHD_Point_new_def WasFound_def)

lemma set_reference_star [simp]: "gs_star (set_reference gs) = gs_star gs"
  by (simp add: set_reference_def)

definition star_cands :: "real \<Rightarrow> GuideStar list \<Rightarrow> bool" where
  "star_cands minSNR gss \<longleftrightarrow> sorted_wrt (\<lambda>a b. CloseToReference b a = Some False) gss \<and>
     (\<forall>gs\<in>set gss. listed gs \<and> snr_ge (SNR (gs_star gs)) minSNR)"

lemma add_candidate_total:
  assumes "env_ok e" "star_cands minSNR found"
  shows "\<exists>found1. add_candidate e undef minSNR pk found = Some found1 \<and> star_cands minSNR found1"
proof -
  obtain st where st: "find_peak_star e undef pk = Some ((GuideStar_new undef)\<lparr>gs_star := st\<rparr>)" "p_valid (star_pos st)"
    by (rule find_peak_star_total[OF assms(1)])
  let ?gs = "(GuideStar_new undef)\<lparr>gs_star := st\<rparr>"
  let ?near = "\<lambda>q. hypot (pX (star_pos (gs_star q)) - pX (star_pos st)) (pY (star_pos (gs_star q)) - pY (star_pos st)) < 25"
  have v: "\<forall>q\<in>set found. CloseToReference ?gs q = Some (?near q)" "\<forall>q\<in>set found. CloseToReference (set_reference ?gs) q = Some (?near q)"
    using assms(2) st(2) close_cases[of ?gs] close_cases[of "set_reference ?gs"] by (auto simp: star_cands_def listed_def WasFound_def)
  have m: "opt_map (CloseToReference ?gs) found = Some (map ?near found)" by (rule opt_map_total[OF v(1)])
  show ?thesis
  proof (cases "WasFound st \<and> snr_ge (SNR st) minSNR \<and> True \<notin> set (map ?near found)")
    case True
    then have "add_candidate e undef minSNR pk found = Some (found @ [set_reference ?gs])" by (simp add: add_candidate_def st(1) m)
    moreover have "star_cands minSNR (found @ [set_reference ?gs])"
      using assms(2) True v(2) new_listed[of st undef] by (auto simp: star_cands_def sorted_wrt_append)
    ultimately show ?thesis by blast
  next
    case False
    then show ?thesis using assms(2) by (auto simp: add_candidate_def st(1) m)
  qed
qed

lemma brightest_total:
  assumes "env_ok e"
  shows "\<exists>r. brightest e undef acc pks = Some r \<and> (\<forall>pk tmp. r = Some (pk, tmp) \<longrightarrow>
    pk \<in> set pks \<and> find_peak_star e undef pk = Some tmp \<and> WasFound (gs_star tmp) \<and> acc tmp)"
proof (induction pks)
  case (Cons pk pks)
  obtain st where "find_peak_star e undef pk = Some ((GuideStar_new undef)\<lparr>gs_star := st\<rparr>)" by (rule find_peak_star_total[OF assms])
  then show ?case using Cons by auto
qed simp

lemma pick_star_total:
  assumes "env_ok e"
  shows "\<exists>r. pick_star e undef th minSNR pks passes = Some r \<and> (\<forall>pk tmp. r = Some (pk, tmp) \<longrightarrow>
    pk \<in> set pks \<and> find_peak_star e undef pk = Some tmp \<and> WasFound (gs_star tmp))"
proof (induction passes)
  case (Cons p passes)
  obtain r where r: "brightest e undef (accepts p th minSNR) pks = Some r"
    "\<forall>pk tmp. r = Some (pk, tmp) \<longrightarrow> pk \<in> set pks \<and> find_peak_star e undef pk = Some tmp \<and> WasFound (gs_star tmp) \<and> accepts p th minSNR tmp"
    using brightest_total[OF assms] by blast
  show ?case
  proof (cases r)
    case None
    then show ?thesis using Cons r(1) by simp
  next
    case (Some x)
    then show ?thesis using r by simp
  qed
qed simp

declare pick_star.simps(2) [simp del]

lemma opt_map_rel: "(\<And>x. x \<in> set xs \<Longrightarrow> \<exists>y. f x = Some y \<and> R x y) \<Longrightarrow> \<exists>ys. opt_map f xs = Some ys \<and> list_all2 R xs ys"
  by (induction xs) fastforce+

lemma with_offset_total:
  assumes "listed gs"
  shows "\<exists>gs1. with_offset pk tmp gs = Some gs1 \<and> gs_star gs1 = gs_star gs \<and> (listed gs1)"
proof -
  have "p_valid (referencePoint gs)" using assms by (simp add: listed_def WasFound_def)
  then show ?thesis using assms by (simp add: with_offset_def p_sub_def PHD_Point_new_def listed_def gs_ok_def)
qed

lemma offsets_total:
  assumes "star_cands minSNR found"
  shows "\<exists>found1. opt_map (with_offset pk tmp) found = Some found1 \<and> star_cands minSNR found1 \<and> map gs_star found1 = map gs_star found"
proof -
  let ?R = "\<lambda>gs gs1. gs_star gs1 = gs_star gs \<and> (listed gs1)"
  have "\<exists>gs1. with_offset pk tmp gs = Some gs1 \<and> ?R gs gs1" if "gs \<in> set found" for gs
    using that assms with_offset_total by (simp add: star_cands_def)
  from opt_map_rel[of found _ ?R, OF this] obtain found1 where
    f: "opt_map (with_offset pk tmp) found = Some found1" "list_all2 ?R found found1" by blast
  have l: "length found1 = length found" "\<And>i. i < length found \<Longrightarrow> gs_star (found1 ! i) = gs_star (found ! i) \<and> listed (found1 ! i)"
    using f(2) by (auto simp: list_all2_conv_all_nth)
  have c: "CloseToReference (found1 ! j) (found1 ! i) = CloseToReference (found ! j) (found ! i)" if "i < length found" "j < length found" for i j
    using l(2)[OF that(1)] l(2)[OF that(2)] by (simp add: CloseToReference_def)
  have "sorted_wrt (\<lambda>a b. CloseToReference b a = Some False) found1"
    unfolding sorted_wrt_iff_nth_less l(1)
  proof (intro allI impI)
    fix i j assume ij: "i < j" "j < length found"
    then have "CloseToReference (found ! j) (found ! i) = Some False"
      using assms by (simp add: star_cands_def sorted_wrt_iff_nth_less)
    then show "CloseToReference (found1 ! j) (found1 ! i) = Some False" using c[of i j] ij by simp
  qed
  moreover have "\<forall>gs\<in>set found1. listed gs \<and> snr_ge (SNR (gs_star gs)) minSNR"
  proof
    fix gs assume "gs \<in> set found1"
    then obtain i where "gs = found1 ! i" "i < length found" using l(1) by (metis in_set_conv_nth)
    then show "listed gs \<and> snr_ge (SNR (gs_star gs)) minSNR" using l(2)[of i] assms by (simp add: star_cands_def)
  qed
  ultimately show ?thesis using f(1) l by (auto simp: star_cands_def intro: nth_equalityI)
qed

lemma candidates_part:
  assumes "star_cands minSNR gss" "k < length gss" "1 \<le> n"
  shows "guide_list minSNR (take n (drop k gss))" "hd (take n (drop k gss)) = gss ! k"
proof -
  have "set (take n (drop k gss)) \<subseteq> set gss" by (meson set_drop_subset set_take_subset subset_trans)
  moreover have "set (tl (take n (drop k gss))) \<subseteq> set (take n (drop k gss))" by (cases "take n (drop k gss)") auto
  ultimately show "guide_list minSNR (take n (drop k gss))"
    using assms by (auto simp: guide_list_def star_cands_def sorted_wrt_take sorted_wrt_drop)
  show "hd (take n (drop k gss)) = gss ! k" using assms(2,3) by (cases n) (simp_all add: hd_drop_conv_nth Cons_nth_drop_Suc[symmetric])
qed

lemma place_primary_total:
  assumes "star_cands minSNR found" and "WasFound st" and "1 \<le> maxStars" and "maxStars > 1 \<or> found = []"
  shows "\<exists>gss. place_primary pk ((GuideStar_new undef)\<lparr>gs_star := st\<rparr>) maxStars found = Some gss \<and> guide_list minSNR gss \<and>
    int (length gss) \<le> maxStars \<and> star_pos (gs_star (hd gss)) = star_pos st"
proof -
  let ?tmp = "(GuideStar_new undef)\<lparr>gs_star := st\<rparr>"
  let ?locs = "filter (\<lambda>i. same_place (found ! i) ?tmp) [0..<length found]"
  have single: "guide_list minSNR [set_reference ?tmp]" using new_listed[OF assms(2), of undef] by (simp add: guide_list_def)
  obtain found1 where f: "opt_map (with_offset pk ?tmp) found = Some found1" "star_cands minSNR found1" "map gs_star found1 = map gs_star found"
    using offsets_total[OF assms(1)] by blast
  show ?thesis
  proof (cases "maxStars > 1 \<and> ?locs \<noteq> []")
    case True
    let ?k = "last ?locs"
    have "?k \<in> set ?locs" using True last_in_set by blast
    then have k: "?k < length found" "same_place (found ! ?k) ?tmp" by auto
    then have k1: "?k < length found1" "gs_star (found1 ! ?k) = gs_star (found ! ?k)" using f(3) by (metis length_map, metis length_map nth_map)
    have "listed (found ! ?k)" using assms(1) k(1) by (simp add: star_cands_def)
    then have pos: "star_pos (gs_star (found ! ?k)) = star_pos st"
      using k(2) assms(2) by (simp add: listed_def WasFound_def same_place_def)
    have r: "place_primary pk ?tmp maxStars found = Some (take (nat maxStars) (drop ?k found1))" using True f(1) by (simp add: place_primary_def)
    have n: "1 \<le> nat maxStars" using assms(3) by linarith
    show ?thesis using r candidates_part[OF f(2) k1(1) n] k1(2) pos True by (auto simp: min_def)
  next
    case False
    then have "place_primary pk ?tmp maxStars found = Some [set_reference ?tmp]"
      using assms(4) f(1) by (auto simp: place_primary_def)
    then show ?thesis using single assms(3) by simp
  qed
qed

lemma candidates_total:
  assumes "env_ok e"
  shows "\<exists>found. (if maxStars > (1 :: int) then fold_opt (add_candidate e undef minSNR) pks [] else Some []) = Some found \<and>
    star_cands minSNR found \<and> (maxStars > 1 \<or> found = [])"
proof -
  have "\<exists>found. fold_opt (add_candidate e undef minSNR) pks [] = Some found \<and> star_cands minSNR found"
    by (rule fold_opt_inv) (use add_candidate_total[OF assms] in \<open>simp_all add: star_cands_def\<close>)
  then show ?thesis by (auto simp: star_cands_def)
qed

lemma auto_find_result:
  assumes "us_ok im" "isect_law (af_isect a)" and "2 \<le> fst (Size im)" "2 \<le> snd (Size im)" "2 \<le> sr" "0 \<le> af_downsample a"
    and "0 \<le> af_bad a" "BitsPerPixel im < 32" "1 \<le> maxStars" and "\<forall>gs\<in>set stars0. gs_ok gs"
  shows "\<exists>ok st stars cam1. AutoFind a im extra sr roi maxStars stars0 cam self = Some (ok, st, stars, cam1) \<and>
    (\<forall>gs\<in>set stars. gs_ok gs) \<and>
    (ok \<longrightarrow> guide_list (af_minSNR a) stars \<and> int (length stars) \<le> maxStars \<and>
       (\<exists>x y s1. star_pos (gs_star st) = PHD_Point_new (real_of_int x) (real_of_int y) \<and>
          sr + extra < x \<and> x < fst (Size im) - (sr + extra) \<and> sr + extra < y \<and> y < snd (Size im) - (sr + extra) \<and>
          Star_FindAt (find_env a im sr cam1) x y (Star_new (af_undef a)) = Some (True, s1) \<and> star_pos (gs_star (hd stars)) = star_pos s1))"
proof -
  obtain r where r: "find_peaks (af_isect a) (af_junk a) (af_downsample a) (af_scale a) im extra sr roi = Some r"
    "\<forall>ps. r = Some ps \<longrightarrow> kept_peaks sr (sr + extra) (Size im) ps" using find_peaks_total[OF assms(1-6)] by blast
  show ?thesis
  proof (cases r)
    case None
    then show ?thesis using r(1) assms(10) by (intro exI[of _ False]) (simp add: AutoFind_def)
  next
    case (Some ps)
    obtain level cam1 where lv: "sat_level a im sr (rev ps) cam = Some (level, cam1)" using sat_level_total[OF assms(1,7,8)] by blast
    let ?e = "find_env a im sr cam1"
    have e: "env_ok ?e" by (rule find_env_ok[OF assms(1,7)])
    obtain found where fd: "(if maxStars > 1 then fold_opt (add_candidate ?e (af_undef a) (af_minSNR a)) (rev ps) [] else Some []) = Some found"
      "star_cands (af_minSNR a) found" "maxStars > 1 \<or> found = []" using candidates_total[OF e] by blast
    obtain ch where ch: "pick_star ?e (af_undef a) (sat_thresh im level) (af_minSNR a) (rev ps) [1, 2, 3] = Some ch"
      "\<forall>pk tmp. ch = Some (pk, tmp) \<longrightarrow> pk \<in> set (rev ps) \<and> find_peak_star ?e (af_undef a) pk = Some tmp \<and> WasFound (gs_star tmp)"
      using pick_star_total[OF e] by blast
    show ?thesis
    proof (cases ch)
      case None
      have "\<forall>gs\<in>set found. gs_ok gs" using fd(2) by (simp add: star_cands_def listed_def)
      then show ?thesis using r(1) Some lv fd(1) ch(1) None by (intro exI[of _ False]) (simp add: AutoFind_def Let_def)
    next
      case (Some pt)
      obtain pk tmp where pt: "pt = (pk, tmp)" by (cases pt)
      have pk: "pk \<in> set ps" "find_peak_star ?e (af_undef a) pk = Some tmp" "WasFound (gs_star tmp)" using ch(2) Some pt by auto
      obtain st where st: "tmp = (GuideStar_new (af_undef a))\<lparr>gs_star := st\<rparr>"
        "Star_FindAt ?e (peak_x pk) (peak_y pk) (Star_new (af_undef a)) = Some (WasFound st, st)"
        using find_peak_star_total[OF e, of "af_undef a" pk] pk(2) by auto
      have w: "WasFound st" using pk(3) st(1) by simp
      obtain gss where g: "place_primary pk tmp maxStars found = Some gss" "guide_list (af_minSNR a) gss" "int (length gss) \<le> maxStars"
        "star_pos (gs_star (hd gss)) = star_pos st" using place_primary_total[OF fd(2) w assms(9) fd(3)] unfolding st(1) by blast
      let ?self = "self\<lparr>gs_star := (gs_star self)\<lparr>star_pos := p_SetXY (star_pos (gs_star self)) (real_of_int (peak_x pk)) (real_of_int (peak_y pk))\<rparr>\<rparr>"
      have res: "AutoFind a im extra sr roi maxStars stars0 cam self = Some (True, ?self, gss, cam1)"
        using r(1) \<open>r = Some ps\<close> lv fd(1) ch(1) Some pt g(1) by (simp add: AutoFind_def Let_def)
      have k: "sr + extra < peak_x pk" "peak_x pk < fst (Size im) - (sr + extra)" "sr + extra < peak_y pk" "peak_y pk < snd (Size im) - (sr + extra)"
        using r(2) \<open>r = Some ps\<close> pk(1) by (auto simp: kept_peaks_def)
      have "\<forall>gs\<in>set gss. gs_ok gs" using g(2) by (simp add: guide_list_def listed_def)
      moreover have "star_pos (gs_star ?self) = PHD_Point_new (real_of_int (peak_x pk)) (real_of_int (peak_y pk))" by (simp add: p_SetXY_def PHD_Point_new_def)
      ultimately show ?thesis using res g(2-4) k st(2) w by (intro exI[of _ True] exI[of _ ?self] exI[of _ gss] exI[of _ cam1]) auto
    qed
  qed
qed

section \<open>The selection of a star\<close>

definition select_ok :: "AutoFindEnv \<Rightarrow> usImage \<Rightarrow> int \<Rightarrow> bool" where
  "select_ok a im sr \<longleftrightarrow> us_ok im \<and> isect_law (af_isect a) \<and> 2 \<le> fst (Size im) \<and> 2 \<le> snd (Size im) \<and> 2 \<le> sr \<and>
     0 \<le> af_downsample a \<and> 0 \<le> af_bad a \<and> BitsPerPixel im < 32"

lemma SetLockPosition_result:
  assumes "pMount g \<noteq> None"
  shows "\<exists>err g1. SetLockPosition p g = Some (err, g1) \<and> m_state g1 = m_state g \<and> currentPosition g1 = currentPosition g \<and>
    (\<not> err \<longrightarrow> sp_pos (m_lockPosition g1) = p)"
  using assms by (auto simp: SetLockPosition_def Let_def notify_def sp_SetXY_def BeginShift_def p_SetXY_def)

lemma select_star_result:
  assumes "select_ok a im (m_searchRegion g)" and "ms_ok s" and "pMount g \<noteq> None"
  shows "\<exists>err cam1 s1 g1. select_star ops totDist a im useSub roi (cam, s, g) = Some (err, cam1, s1, g1) \<and> ms_ok s1 \<and> m_state g1 = m_state g \<and>
    (\<not> err \<longrightarrow> WasFound (m_primaryStar s1) \<and> sp_pos (m_lockPosition g1) = star_pos (m_primaryStar s1) \<and>
       currentPosition g1 = star_pos (m_primaryStar s1) \<and> guide_list (af_minSNR a) (m_guideStars s1) \<and>
       star_pos (gs_star (hd (m_guideStars s1))) = star_pos (m_primaryStar s1) \<and>
       int (length (m_guideStars s1)) \<le> (if useSub \<or> \<not> m_multiStarMode s then 1 else MAX_LIST_SIZE))"
proof (cases "ImageData im = []")
  case True
  then show ?thesis using assms(2) by (intro exI[of _ True]) (simp add: select_star_def)
next
  case False
  let ?n = "if useSub \<or> \<not> m_multiStarMode s then 1 else MAX_LIST_SIZE" and ?sr = "m_searchRegion g"
  have n: "1 \<le> ?n" by (simp add: MAX_LIST_SIZE_def)
  have gs0: "\<forall>gs\<in>set (m_guideStars s). gs_ok gs" and mc: "mc_ok (m_massChecker s)" using assms(2) by (simp_all add: ms_ok_def)
  have ok: "us_ok im" "isect_law (af_isect a)" "2 \<le> fst (Size im)" "2 \<le> snd (Size im)" "2 \<le> ?sr" "0 \<le> af_downsample a" "0 \<le> af_bad a" "BitsPerPixel im < 32"
    using assms(1) by (simp_all add: select_ok_def)
  obtain found st stars cam1 where af: "AutoFind a im (edge_allowance ops totDist g) ?sr roi ?n (m_guideStars s) cam (GuideStar_new (af_undef a)) = Some (found, st, stars, cam1)"
    "\<forall>gs\<in>set stars. gs_ok gs"
    "found \<longrightarrow> guide_list (af_minSNR a) stars \<and> int (length stars) \<le> ?n \<and>
       (\<exists>x y s1. star_pos (gs_star st) = PHD_Point_new (real_of_int x) (real_of_int y) \<and>
          Star_FindAt (find_env a im ?sr cam1) x y (Star_new (af_undef a)) = Some (True, s1) \<and> star_pos (gs_star (hd stars)) = star_pos s1)"
    using auto_find_result[OF ok n gs0, of "edge_allowance ops totDist g" roi cam "GuideStar_new (af_undef a)"] by blast
  show ?thesis
  proof (cases found)
    case False
    then show ?thesis using \<open>ImageData im \<noteq> []\<close> af(1,2) mc by (intro exI[of _ True]) (simp add: select_star_def ms_ok_def)
  next
    case True
    then obtain x y p0 where xy: "star_pos (gs_star st) = PHD_Point_new (real_of_int x) (real_of_int y)"
      "Star_FindAt (find_env a im ?sr cam1) x y (Star_new (af_undef a)) = Some (True, p0)" "star_pos (gs_star (hd stars)) = star_pos p0" using af(3) by blast
    obtain p where p: "Star_FindAt (find_env a im ?sr cam1) x y (m_primaryStar s) = Some (True, p)" "star_pos p = star_pos p0"
      using FindAt_place[OF xy(2)] by blast
    have w: "WasFound p"
      using p(1) by (rule_tac Star_FindAt_cases[OF find_env_ok[OF ok(1,7), of ?sr cam1], of x y "m_primaryStar s"]) auto
    have near: "Star_FindNear (find_env a im ?sr cam1) (pX (star_pos (gs_star st))) (pY (star_pos (gs_star st))) (m_primaryStar s) = Some (True, p)"
      using p(1) by (simp add: Star_FindNear_def xy(1) PHD_Point_new_def c_trunc_def)
    define s2 where "s2 = s\<lparr>m_guideStars := stars, m_massChecker := mc_Reset (m_massChecker s), m_primaryStar := p, m_primaryDistStats := ds_ClearAll\<rparr>"
    obtain err g2 where l: "SetLockPosition (star_pos p) (sync_star p g) = Some (err, g2)" "m_state g2 = m_state g" "currentPosition g2 = star_pos p"
      "\<not> err \<longrightarrow> sp_pos (m_lockPosition g2) = star_pos p"
      using SetLockPosition_result[of "sync_star p g" "star_pos p"] assms(3) by (auto simp: sync_star_def)
    define s3 where "s3 = (if \<not> err \<and> m_multiStarMode s2 then s2\<lparr>m_lockPositionMoved := True, m_stabilizing := True\<rparr> else s2)"
    have r: "select_star ops totDist a im useSub roi (cam, s, g) = Some (err, cam1, s3, g2)"
      using \<open>ImageData im \<noteq> []\<close> af(1) True near l(1) by (simp add: select_star_def Let_def ms_SetLockPosition_def s2_def s3_def)
    have s3: "m_guideStars s3 = stars" "m_primaryStar s3 = p" "m_massChecker s3 = mc_Reset (m_massChecker s)" by (simp_all add: s2_def s3_def)
    have "ms_ok s3" unfolding ms_ok_def s3 using af(2) mc by (simp add: mc_Reset_def mc_ok_def)
    then have "ms_ok s3 \<and> m_state g2 = m_state g \<and> (\<not> err \<longrightarrow> WasFound p \<and> sp_pos (m_lockPosition g2) = star_pos p \<and> currentPosition g2 = star_pos p \<and>
        guide_list (af_minSNR a) stars \<and> star_pos (gs_star (hd stars)) = star_pos p \<and> int (length stars) \<le> ?n)"
      using l(2-4) w af(3) True p(2) xy(3) by simp
    then show ?thesis using r unfolding s3[symmetric] by blast
  qed
qed

text \<open>C5: auto_select_contract. On every frame the automatic selection of a star completes, without reading outside of the
  frame, keeps the well-formedness of the tracking and does not change the state of the guider by itself.
  When it reports success the primary star has been found, the lock position and the current position
  are that star, and the list of guide stars is headed by it: every star of the list was found, any two
  are at least 25 pixels apart, each but the first reaches the least signal-to-noise ratio, and there
  are at most twelve, one when subframes are in use or the multi-star mode is off.\<close>

theorem auto_select_contract:
  assumes "select_ok a im (m_searchRegion g)" and "ms_ok s" and "pMount g \<noteq> None"
  shows "\<exists>err cam1 s1 g1. select_star ops totDist a im useSub roi (cam, s, g) = Some (err, cam1, s1, g1) \<and> ms_ok s1 \<and> m_state g1 = m_state g \<and>
    (\<not> err \<longrightarrow> WasFound (m_primaryStar s1) \<and> sp_pos (m_lockPosition g1) = star_pos (m_primaryStar s1) \<and>
       currentPosition g1 = star_pos (m_primaryStar s1) \<and> guide_list (af_minSNR a) (m_guideStars s1) \<and>
       star_pos (gs_star (hd (m_guideStars s1))) = star_pos (m_primaryStar s1) \<and>
       int (length (m_guideStars s1)) \<le> (if useSub \<or> \<not> m_multiStarMode s then 1 else MAX_LIST_SIZE))"
  by (rule select_star_result[OF assms])

definition example_search :: AutoFindEnv where
  "example_search = \<lparr>af_isect = rect_overlap, af_junk = [], af_downsample = 0, af_scale = 1, af_sort = sort_key r2, af_bad = 0, af_undef = 0,
     af_minHFD = 1, af_maxHFD = 10, af_minSNR = 6\<rparr>"

text \<open>A guider that selects the star in the frame of \<open>Star_Example\<close>.\<close>

definition example_selector :: "(bool \<times> bool) Guider" where
  "example_selector = (example_guider STATE_SELECTING (Some (True, True)) None)\<lparr>imageSize := (17, 17), m_searchRegion := 7\<rparr>"

lemma star_found_at:
  "\<exists>st. Star_FindAt (find_env example_search star_frame 7 cam) 8 8 s = Some (True, st) \<and> star_pos st = PHD_Point_new 8 8 \<and>
     WasFound st \<and> SNR st = Some (4000 / sqrt 8000)"
proof -
  have "star_image star_frame = star_view"
    by (simp add: star_image_def star_view_def star_frame_def rect_empty_def)
  moreover obtain w where "FindStar (sort_key r2) 0 star_view 8 8 7 FIND_CENTROID 1 10 (int (m_saturationADU cam)) = Some w"
    "fo_x w = 8" "fo_y w = 8" "fo_result w \<in> {RC_Ok, RC_Saturated}" "fo_snr w = Some (4000 / sqrt 8000)"
    using radius_sort.star_view_found by blast
  ultimately show ?thesis
    by (auto simp: Star_FindAt_def find_env_def example_search_def find_result_def WasFound_result_def WasFound_def p_SetXY_def PHD_Point_new_def)
qed

lemma star_selected:
  assumes "AutoFind example_search star_frame 0 7 \<lparr>rx = 0, ry = 0, rw = 0, rh = 0\<rparr> maxStars stars0 cam self = Some (ok, st, stars, cam1)"
  shows "ok \<and> star_pos (gs_star st) = PHD_Point_new 8 8"
proof -
  obtain h where h: "find_peaks rect_overlap [] 0 1 star_frame 0 7 \<lparr>rx = 0, ry = 0, rw = 0, rh = 0\<rparr> =
      Some (Some [\<lparr>peak_x = 8, peak_y = 8, peak_val = h\<rparr>])" using star_peaks[of 7 0 "[]"] by auto
  let ?pk = "\<lparr>peak_x = 8, peak_y = 8, peak_val = h\<rparr>"
  have p: "\<exists>gs. pick_star (find_env example_search star_frame 7 cam1) u th m [?pk] [1, 2, 3] = Some (Some (?pk, gs))" for cam1 u th m
  proof -
    obtain s1 where "Star_FindAt (find_env example_search star_frame 7 cam1) 8 8 (gs_star (GuideStar_new u)) = Some (True, s1)" "WasFound s1"
      using star_found_at by blast
    moreover define gs where "gs = (GuideStar_new u)\<lparr>gs_star := s1\<rparr>"
    moreover have "accepts 3 th m gs" by (simp add: accepts_def Let_def)
    ultimately show ?thesis
      by (cases "accepts 1 th m gs"; cases "accepts 2 th m gs") (simp_all add: find_peak_star_def pick_star.simps brightest.simps)
  qed
  have f: "af_isect example_search = rect_overlap" "af_junk example_search = []" "af_downsample example_search = 0" "af_scale example_search = 1"
    by (simp_all add: example_search_def)
  obtain G where G: "pick_star (find_env example_search star_frame 7 cam1) u th m [?pk] [1, 2, 3] = Some (Some (?pk, G cam1 u th m))" for cam1 u th m
    using p by metis
  have "ok \<and> st = self\<lparr>gs_star := (gs_star self)\<lparr>star_pos := p_SetXY (star_pos (gs_star self)) 8 8\<rparr>\<rparr>"
    using assms by (auto simp: AutoFind_def f h G[unfolded One_nat_def] bind_eq_Some_conv Let_def)
  then show ?thesis by (simp add: p_SetXY_def PHD_Point_new_def)
qed

theorem auto_select_contract_witness:
  "\<exists>cam1 s1 g1. select_star flag_mount (\<lambda>m. 25) example_search star_frame False \<lparr>rx = 0, ry = 0, rw = 0, rh = 0\<rparr>
      (\<lparr>m_saturationByADU = False, m_saturationADU = 0\<rparr>, example_multistar, example_selector) = Some (False, cam1, s1, g1) \<and>
    ms_ok s1 \<and> m_state g1 = STATE_SELECTING \<and> WasFound (m_primaryStar s1) \<and> sp_pos (m_lockPosition g1) = star_pos (m_primaryStar s1) \<and>
    guide_list 6 (m_guideStars s1) \<and> length (m_guideStars s1) \<le> 12"
proof -
  let ?roi = "\<lparr>rx = 0, ry = 0, rw = 0, rh = 0\<rparr>" and ?cam = "\<lparr>m_saturationByADU = False, m_saturationADU = 0\<rparr>"
  have a: "select_ok example_search star_frame (m_searchRegion example_selector)"
    using star_frame_ok(1) by (simp add: select_ok_def overlap_law example_selector_def example_search_def star_frame_def)
  have g: "pMount example_selector \<noteq> None" "m_state example_selector = STATE_SELECTING" "edge_allowance flag_mount (\<lambda>m. 25) example_selector = 0"
    by (simp_all add: example_selector_def example_guider_def edge_allowance_def flag_mount_def Let_def)
  obtain err cam1 s1 g1 where r: "select_star flag_mount (\<lambda>m. 25) example_search star_frame False ?roi (?cam, example_multistar, example_selector) =
      Some (err, cam1, s1, g1)" "ms_ok s1" "m_state g1 = STATE_SELECTING"
    "\<not> err \<longrightarrow> WasFound (m_primaryStar s1) \<and> sp_pos (m_lockPosition g1) = star_pos (m_primaryStar s1) \<and> guide_list 6 (m_guideStars s1) \<and>
      int (length (m_guideStars s1)) \<le> 12"
    using auto_select_contract[OF a example_multistar_ok(2) g(1), of flag_mount "\<lambda>m. 25" False ?roi ?cam]
    unfolding g(2) by (fastforce simp: example_search_def MAX_LIST_SIZE_def split: if_splits)
  have "\<not> err"
  proof -
    have d: "ImageData star_frame \<noteq> []" using star_region_length by (auto simp: star_frame_def)
    have s: "m_searchRegion example_selector = 7" "imageSize example_selector = (17, 17)" by (simp_all add: example_selector_def)
    from r(1) d obtain ok st stars c where af: "AutoFind example_search star_frame 0 7 ?roi 12 (m_guideStars example_multistar) ?cam
        (GuideStar_new (af_undef example_search)) = Some (ok, st, stars, c)"
      by (auto simp: select_star_def g(3) s bind_eq_Some_conv example_multistar_def MAX_LIST_SIZE_def Let_def)
    note ok = star_selected[OF af]
    obtain p where p: "Star_FindAt (find_env example_search star_frame 7 c) 8 8 (m_primaryStar example_multistar) = Some (True, p)"
      "star_pos p = PHD_Point_new 8 8" using star_found_at by blast
    obtain g2 where "SetLockPosition (PHD_Point_new 8 8) (sync_star p example_selector) = Some (False, g2)"
      by (simp add: SetLockPosition_def sync_star_def s g(1,2) PHD_Point_new_def Let_def)
    then show ?thesis using r(1) d af ok p
      by (auto simp: select_star_def g(3) s example_multistar_def MAX_LIST_SIZE_def Star_FindNear_def c_trunc_def ms_SetLockPosition_def Let_def)
  qed
  then show ?thesis using r by auto
qed

section \<open>The next subframe contains the star\<close>

definition inside_frame :: "int \<times> int \<Rightarrow> int \<times> int \<Rightarrow> bool" where
  "inside_frame sz p \<longleftrightarrow> 0 \<le> fst p \<and> fst p < fst sz \<and> 0 \<le> snd p \<and> snd p < snd sz"

definition covers :: "Rect \<Rightarrow> int \<times> int \<Rightarrow> bool" where
  "covers r p \<longleftrightarrow> rx r \<le> fst p \<and> fst p < rx r + rw r \<and> ry r \<le> snd p \<and> snd p < ry r + rh r"

definition px_of :: "PHD_Point \<Rightarrow> int \<times> int" where
  "px_of p = (ROUND (pX p), ROUND (pY p))"

lemma clipped_box:
  assumes "isect_law isect" and "covers b p" "inside_frame sz p"
  shows "covers (isect b (rect_of_size sz)) p \<and> rect_in (isect b (rect_of_size sz)) sz"
proof -
  have "\<not> rect_empty (rect_overlap b (rect_of_size sz))"
    using assms(2,3) by (auto simp: rect_empty_def rect_overlap_def rect_of_size_def covers_def inside_frame_def Let_def)
  then have e: "isect b (rect_of_size sz) = rect_overlap b (rect_of_size sz)" using assms(1) unfolding isect_law_def by presburger
  show ?thesis unfolding e using assms(2,3)
    by (auto simp: rect_overlap_def rect_of_size_def rect_in_def covers_def inside_frame_def Let_def)
qed

lemma round_near: "\<bar>x - y\<bar> < real_of_int n + 1 \<Longrightarrow> \<bar>ROUND x - ROUND y\<bar> \<le> n + 1"
  unfolding ROUND_def by linarith

lemma subframe_covers: "\<bar>ROUND (pX p) - ROUND (pX q)\<bar> \<le> w \<Longrightarrow> \<bar>ROUND (pY p) - ROUND (pY q)\<bar> \<le> w \<Longrightarrow> covers (SubframeRect q w) (px_of p)"
  by (auto simp: covers_def SubframeRect_def px_of_def)

lemma lock_box_covers:
  assumes "1 \<le> sr" and "c_trunc (hypot (pX p - pX q) (pY p - pY q)) \<le> c_quot sr 3"
  shows "covers (SubframeRect q sr) (px_of p)"
proof -
  let ?d = "hypot (pX p - pX q) (pY p - pY q)"
  have "0 \<le> ?d" by simp
  then have "\<lfloor>?d\<rfloor> \<le> sr div 3" using assms by (simp add: c_trunc_def c_quot_nonneg)
  then have "?d < real_of_int (sr div 3) + 1" by linarith
  moreover have "\<bar>pX p - pX q\<bar> \<le> ?d" "\<bar>pY p - pY q\<bar> \<le> ?d" 
    using real_sqrt_ge_abs1[of "pX p - pX q" "pY p - pY q"] real_sqrt_ge_abs2[of "pY p - pY q" "pX p - pX q"] by (simp_all add: hypot_def power2_eq_square)
  ultimately have "\<bar>ROUND (pX p) - ROUND (pX q)\<bar> \<le> sr div 3 + 1" "\<bar>ROUND (pY p) - ROUND (pY q)\<bar> \<le> sr div 3 + 1"
    by (auto intro!: round_near)
  moreover have "sr div 3 + 1 \<le> sr" using assms(1) by presburger
  ultimately show ?thesis by (intro subframe_covers) linarith+
qed

text \<open>C28: subframe_contains_star. The subframe asked of the camera for the next exposure lies in the frame and contains the
  pixel of the primary star, wherever in the frame that is: around the star before guiding, and while
  guiding around the lock position as long as the star is close to it.  Without a star, with a full frame
  forced, or in any other state, there is no subframe.\<close>

theorem subframe_contains_star:
  assumes "isect_law isect" and "GetBoundingBox isect (s, g) = Some r" and "1 \<le> m_searchRegion g"
    and "inside_frame (imageSize g) (px_of (star_pos (m_primaryStar s)))"
  shows "if m_state g \<in> {STATE_SELECTED, STATE_CALIBRATING_PRIMARY, STATE_CALIBRATING_SECONDARY, STATE_GUIDING} \<and>
      WasFound (m_primaryStar s) \<and> \<not> m_forceFullFrame g
    then rect_in r (imageSize g) \<and> covers r (px_of (star_pos (m_primaryStar s)))
    else r = \<lparr>rx = 0, ry = 0, rw = 0, rh = 0\<rparr>"
proof -
  let ?p = "star_pos (m_primaryStar s)" and ?l = "sp_pos (m_lockPosition g)" and ?sr = "m_searchRegion g"
  have self: "covers (SubframeRect ?p ?sr) (px_of ?p)" using assms(3) by (intro subframe_covers) simp_all
  have lock: "covers (SubframeRect ?l ?sr) (px_of ?p)" if "p_DistanceTo ?p ?l = Some d" "\<not> c_trunc d > c_quot ?sr 3" for d
    using that assms(3) by (intro lock_box_covers) (auto simp: p_DistanceTo_def p_dX_def p_dY_def split: if_splits)
  show ?thesis
    using assms(2) clipped_box[OF assms(1) self assms(4)] clipped_box[OF assms(1) lock assms(4)]
    by (auto simp: GetBoundingBox_def Let_def split: if_splits)
qed

theorem subframe_contains_star_witness:
  "\<exists>r. GetBoundingBox rect_overlap (example_multistar\<lparr>m_primaryStar := example_star 51 50\<rparr>, example_guider STATE_GUIDING (Some (True, True)) None) = Some r \<and>
     rect_in r (100, 100) \<and> covers r (51, 50)"
proof -
  let ?s = "example_multistar\<lparr>m_primaryStar := example_star 51 50\<rparr>" and ?g = "example_guider STATE_GUIDING (Some (True, True)) None"
  have p: "px_of (star_pos (m_primaryStar ?s)) = (51, 50)" using ROUND_of_int[of 51] ROUND_of_int[of 50] by (simp add: px_of_def example_star_def PHD_Point_new_def)
  have g: "imageSize ?g = (100, 100)" "m_searchRegion ?g = 15" "m_state ?g = STATE_GUIDING" "\<not> m_forceFullFrame ?g" "WasFound (m_primaryStar ?s)"
    by (simp_all add: example_guider_def WasFound_def WasFound_result_def example_star_def PHD_Point_new_def)
  obtain r where r: "GetBoundingBox rect_overlap (?s, ?g) = Some r"
    by (simp add: GetBoundingBox_def example_guider_def example_star_def p_DistanceTo_def p_dX_def p_dY_def PHD_Point_new_def Let_def)
  show ?thesis using subframe_contains_star[OF overlap_law r] r unfolding p g(1) using g by (simp add: inside_frame_def)
qed

end
