(* ===== verification/Step_Guider.thy ===== *)
theory Step_Guider
  imports Mount_Moves
begin

text \<open>
  The adaptive optics device of \<open>src/stepguider.cpp\<close>: it moves the image by whole steps within its range of
  travel, is calibrated by walking from one corner of that range along its sides, and bumps the secondary
  mount when it gets far from its centre.  The driver (\<open>Step\<close>, \<open>Center\<close>, \<open>MaxPosition\<close>, pure virtual
  functions) is a record of functions.  An assertion that fails and a rate that is not a finite number
  are \<^term>\<open>None\<close>; a bump that is not a number is a missing vector.
\<close>

section \<open>State\<close>

datatype AO_STATE =
  AO_CLEARED | AO_GOTO_LOWER_RIGHT_CORNER | AO_AVERAGE_STARTING_LOCATION | AO_GO_LEFT | AO_AVERAGE_CENTER_LOCATION
| AO_GO_UP | AO_AVERAGE_ENDING_LOCATION | AO_RECENTER | AO_COMPLETE

datatype STEP_RESULT = STEP_OK | STEP_LIMIT_REACHED | STEP_ERROR

record AoDriver =
  ad_Step :: "GUIDE_DIRECTION \<Rightarrow> int \<Rightarrow> STEP_RESULT"
  ad_Center :: "int \<times> int \<Rightarrow> bool \<times> int \<times> int"
  ad_MaxPosition :: "GUIDE_DIRECTION \<Rightarrow> int"

record StepGuider =
  sg_mount :: Mount
  m_samplesToAverage :: int
  m_bumpPercentage :: int
  m_bumpMaxStepsPerCycle :: real
  m_bumpOnDither :: bool
  m_xBumpPos1 :: int
  m_xBumpPos2 :: int
  m_yBumpPos1 :: int
  m_yBumpPos2 :: int
  m_bumpCenterTolerance :: int
  m_xOffset :: int
  m_yOffset :: int
  m_avgOffset :: PHD_Point
  m_forceStartBump :: bool
  m_bumpInProgress :: bool
  m_bumpTimeoutAlertSent :: bool
  m_bumpStartTime :: int
  m_bumpStepWeight :: real
  m_failedStep :: "int \<times> int \<times> int \<times> int"
  m_calibrationStepsPerIteration :: int
  m_calibrationIterations :: int
  sg_startingLocation :: PHD_Point
  m_calibrationAverageSamples :: int
  m_calibrationAveragedLocation :: PHD_Point
  sg_calibration :: Calibration
  sg_details :: CalibrationDetails
  sg_raSteps :: "(real \<times> real) list"
  sg_decSteps :: "(real \<times> real) list"
  sg_detProfile :: "CalibrationDetails option"
  sg_state :: AO_STATE
  sg_moves :: "(GUIDE_DIRECTION \<times> int) list"
  sg_bumps :: "(real \<times> real) option list"

section \<open>Settings\<close>

definition ao_SetSamplesToAverage :: "int \<Rightarrow> StepGuider \<Rightarrow> bool \<times> StepGuider" where
  "ao_SetSamplesToAverage n s =
     (if n \<le> 0 then (True, s\<lparr>m_samplesToAverage := 3\<rparr>) else (False, s\<lparr>m_samplesToAverage := n\<rparr>))"

definition IntegerPercent :: "int \<Rightarrow> int \<Rightarrow> int" where
  "IntegerPercent percentage number = c_quot (percentage * number) 100"

definition InitBumpPositions :: "(GUIDE_DIRECTION \<Rightarrow> int) \<Rightarrow> StepGuider \<Rightarrow> StepGuider" where
  "InitBumpPositions mx s =
     (let limit2Pct = c_quot (100 + m_bumpPercentage s) 2
      in s\<lparr>m_xBumpPos1 := IntegerPercent (m_bumpPercentage s) (mx LEFT), m_xBumpPos2 := IntegerPercent limit2Pct (mx LEFT),
           m_yBumpPos1 := IntegerPercent (m_bumpPercentage s) (mx UP), m_yBumpPos2 := IntegerPercent limit2Pct (mx UP),
           m_bumpCenterTolerance := IntegerPercent 10 (2 * mx UP)\<rparr>)"

definition SetBumpPercentage :: "(GUIDE_DIRECTION \<Rightarrow> int) \<Rightarrow> int \<Rightarrow> bool \<Rightarrow> StepGuider \<Rightarrow> bool \<times> StepGuider" where
  "SetBumpPercentage mx pct updateGraph s =
     (let (err, s1) = (if pct \<le> 0 then (True, s\<lparr>m_bumpPercentage := 80\<rparr>) else (False, s\<lparr>m_bumpPercentage := pct\<rparr>))
      in (err, if updateGraph then InitBumpPositions mx s1 else s1))"

definition SetBumpMaxStepsPerCycle :: "real \<Rightarrow> StepGuider \<Rightarrow> bool \<times> StepGuider" where
  "SetBumpMaxStepsPerCycle v s =
     (if v \<le> 0 then (True, s\<lparr>m_bumpMaxStepsPerCycle := 1\<rparr>) else (False, s\<lparr>m_bumpMaxStepsPerCycle := v\<rparr>))"

definition SetCalibrationStepsPerIteration :: "int \<Rightarrow> StepGuider \<Rightarrow> bool \<times> StepGuider" where
  "SetCalibrationStepsPerIteration n s =
     (if n \<le> 0 then (True, s\<lparr>m_calibrationStepsPerIteration := 4\<rparr>) else (False, s\<lparr>m_calibrationStepsPerIteration := n\<rparr>))"

definition ForceStartBump :: "StepGuider \<Rightarrow> StepGuider" where
  "ForceStartBump s = s\<lparr>m_forceStartBump := True\<rparr>"

definition ao_Connect :: "(GUIDE_DIRECTION \<Rightarrow> int) \<Rightarrow> StepGuider \<Rightarrow> bool \<times> StepGuider" where
  "ao_Connect mx s = (let (err, m) = Mount_Connect (sg_mount s); s1 = s\<lparr>sg_mount := m\<rparr>
     in if err then (True, s1) else (False, InitBumpPositions mx s1))"

definition ao_Disconnect :: "StepGuider \<Rightarrow> bool \<times> StepGuider" where
  "ao_Disconnect s = (let (err, m) = Mount_Disconnect (sg_mount s) in (err, s\<lparr>sg_mount := m\<rparr>))"

definition SetBumpOnDither :: "bool \<Rightarrow> StepGuider \<Rightarrow> StepGuider" where
  "SetBumpOnDither v s = s\<lparr>m_bumpOnDither := v\<rparr>"

text \<open>The constructor, from the stored settings; what it leaves as it is comes from \<open>junk\<close>.\<close>

definition StepGuider_new :: "StepGuider \<Rightarrow> int \<Rightarrow> int \<Rightarrow> real \<Rightarrow> int \<Rightarrow> bool \<Rightarrow> StepGuider" where
  "StepGuider_new junk samples pct maxSteps perIteration onDither =
     (let s0 = junk\<lparr>sg_mount := Mount_new, m_xOffset := 0, m_yOffset := 0, m_avgOffset := PHD_Point_invalid, m_forceStartBump := False,
               m_bumpInProgress := False, m_bumpTimeoutAlertSent := False, m_bumpStepWeight := 1, sg_startingLocation := PHD_Point_invalid,
               m_calibrationAveragedLocation := PHD_Point_invalid, sg_calibration := Calibration_default, sg_raSteps := [], sg_decSteps := [],
               sg_moves := [], sg_bumps := []\<rparr>;
          s1 = snd (ao_SetSamplesToAverage samples s0);
          s2 = s1\<lparr>m_bumpPercentage := (if pct \<le> 0 then 80 else pct)\<rparr>;
          s3 = snd (SetBumpMaxStepsPerCycle maxSteps s2)
      in (snd (SetCalibrationStepsPerIteration perIteration s3))\<lparr>m_bumpOnDither := onDither\<rparr>)"

section \<open>Position and moves\<close>

definition ZeroCurrentPosition :: "StepGuider \<Rightarrow> StepGuider" where
  "ZeroCurrentPosition s = s\<lparr>m_xOffset := 0, m_yOffset := 0\<rparr>"

fun ao_CurrentPosition :: "GUIDE_DIRECTION \<Rightarrow> StepGuider \<Rightarrow> int" where
  "ao_CurrentPosition NORTH s = m_yOffset s"
| "ao_CurrentPosition SOUTH s = - m_yOffset s"
| "ao_CurrentPosition EAST s = m_xOffset s"
| "ao_CurrentPosition WEST s = - m_xOffset s"
| "ao_CurrentPosition NONE s = 0"

definition IsAtLimit :: "(GUIDE_DIRECTION \<Rightarrow> int) \<Rightarrow> GUIDE_DIRECTION \<Rightarrow> StepGuider \<Rightarrow> bool" where
  "IsAtLimit mx d s \<longleftrightarrow> ao_CurrentPosition d s = mx d - 1"

definition WouldHitLimit :: "(GUIDE_DIRECTION \<Rightarrow> int) \<Rightarrow> GUIDE_DIRECTION \<Rightarrow> int \<Rightarrow> StepGuider \<Rightarrow> bool" where
  "WouldHitLimit mx d steps s \<longleftrightarrow> ao_CurrentPosition d s + steps \<ge> mx d"

fun step_vector :: "GUIDE_DIRECTION \<Rightarrow> (int \<times> int) option" where
  "step_vector NORTH = Some (0, 1)"
| "step_vector SOUTH = Some (0, -1)"
| "step_vector EAST = Some (1, 0)"
| "step_vector WEST = Some (-1, 0)"
| "step_vector NONE = None"

text \<open>A move that would leave the range is cut; when the device reports its limit it is recentred.\<close>

definition ao_step :: "AoDriver \<Rightarrow> GUIDE_DIRECTION \<Rightarrow> int \<times> int \<Rightarrow> int \<Rightarrow> StepGuider \<Rightarrow> MOVE_RESULT \<times> int \<times> StepGuider" where
  "ao_step drv d dir n s =
     (case ad_Step drv d n of
        STEP_OK \<Rightarrow> (MOVE_OK, n, s\<lparr>m_xOffset := m_xOffset s + fst dir * n, m_yOffset := m_yOffset s + snd dir * n\<rparr>)
      | STEP_LIMIT_REACHED \<Rightarrow>
          (let s1 = s\<lparr>m_failedStep := (m_xOffset s, m_yOffset s, fst dir * n, snd dir * n)\<rparr>;
               (err, x, y) = ad_Center drv (m_xOffset s1, m_yOffset s1)
           in (MOVE_ERROR_AO_LIMIT_REACHED, 0, s1\<lparr>m_xOffset := x, m_yOffset := y\<rparr>))
      | STEP_ERROR \<Rightarrow> (MOVE_ERROR, 0, s))"

definition ao_MoveAxis_info :: "AoDriver \<Rightarrow> GUIDE_DIRECTION \<Rightarrow> int \<Rightarrow> 32 word \<Rightarrow> StepGuider \<Rightarrow>
    (MOVE_RESULT \<times> MoveResultInfo \<times> StepGuider) option" where
  "ao_MoveAxis_info drv d steps opts s =
     (if \<not> m_guidingEnabled (sg_mount s) \<and> \<not> opt_set opts MOVEOPT_MANUAL then Some (MOVE_ERROR, \<lparr>amountMoved = 0, limited = False\<rparr>, s)
      else if steps < 0 then None
      else if steps = 0 then Some (MOVE_OK, \<lparr>amountMoved = 0, limited = False\<rparr>, s)
      else case step_vector d of
             None \<Rightarrow> Some (MOVE_ERROR, \<lparr>amountMoved = 0, limited = False\<rparr>, s)
           | Some dir \<Rightarrow>
               (let hit = WouldHitLimit (ad_MaxPosition drv) d steps s;
                    n = (if hit then ad_MaxPosition drv d - 1 - ao_CurrentPosition d s else steps)
                in if n > 0 then (let (r, moved, s1) = ao_step drv d dir n s in Some (r, \<lparr>amountMoved = moved, limited = hit\<rparr>, s1))
                   else Some (MOVE_OK, \<lparr>amountMoved = n, limited = hit\<rparr>, s)))"

definition ao_MoveAxis :: "AoDriver \<Rightarrow> GUIDE_DIRECTION \<Rightarrow> int \<Rightarrow> 32 word \<Rightarrow> StepGuider \<Rightarrow> (MOVE_RESULT \<times> StepGuider) option" where
  "ao_MoveAxis drv d steps opts s =
     do { (r, info, s1) \<leftarrow> ao_MoveAxis_info drv d steps opts s;
          Some (if amountMoved info \<noteq> steps \<and> r = MOVE_OK then MOVE_ERROR else r, s1) }"

definition MOVEOPTS_CALIBRATION_MOVE :: "32 word" where "MOVEOPTS_CALIBRATION_MOVE = 0"

text \<open>The error flag and the device; one axis, then the other.\<close>

definition center_axis :: "AoDriver \<Rightarrow> GUIDE_DIRECTION \<Rightarrow> GUIDE_DIRECTION \<Rightarrow> StepGuider \<Rightarrow> (bool \<times> StepGuider) option" where
  "center_axis drv pos neg s =
     (let p = ao_CurrentPosition pos s
      in if p = 0 then Some (False, s)
         else do { (r, info, s1) \<leftarrow> ao_MoveAxis_info drv (if p > 0 then neg else pos) \<bar>p\<bar> MOVEOPTS_CALIBRATION_MOVE s;
                   Some (amountMoved info \<noteq> \<bar>p\<bar>, s1) })"

definition MoveToCenter :: "AoDriver \<Rightarrow> StepGuider \<Rightarrow> (bool \<times> StepGuider) option" where
  "MoveToCenter drv s =
     do { (err, s1) \<leftarrow> center_axis drv UP DOWN s;
          if err then Some (True, s1)
          else do { (err2, s2) \<leftarrow> center_axis drv LEFT RIGHT s1;
                    if err2 then Some (True, s2)
                    else if m_xOffset s2 = 0 \<and> m_yOffset s2 = 0 then Some (False, s2) else None } }"

definition ao_NotifyGuidingStopped :: "AoDriver \<Rightarrow> StepGuider \<Rightarrow> StepGuider option" where
  "ao_NotifyGuidingStopped drv s =
     map_option snd (MoveToCenter drv
       (s\<lparr>m_avgOffset := p_Invalidate (m_avgOffset s), m_forceStartBump := False, m_bumpInProgress := False,
          m_bumpStepWeight := 1, m_bumpTimeoutAlertSent := False\<rparr>))"

section \<open>Calibration\<close>

definition ao_ClearCalibration :: "StepGuider \<Rightarrow> StepGuider" where
  "ao_ClearCalibration s = s\<lparr>sg_mount := Mount_ClearCalibration (sg_mount s), sg_state := AO_CLEARED\<rparr>"

definition ao_BeginCalibration :: "PHD_Point \<Rightarrow> StepGuider \<Rightarrow> bool \<times> StepGuider" where
  "ao_BeginCalibration loc s =
     (if \<not> Mount_IsConnected (sg_mount s) then (True, s)
      else if \<not> p_valid loc then (True, s)
      else let s1 = ao_ClearCalibration s
           in (False, s1\<lparr>sg_state := AO_GOTO_LOWER_RIGHT_CORNER, sg_startingLocation := p_Invalidate (sg_startingLocation s1),
                         sg_raSteps := [], sg_decSteps := [], sg_details := (sg_details s1)\<lparr>lastIssue := CI_None\<rparr>\<rparr>))"

definition ao_SetCalibration :: "Calibration \<Rightarrow> StepGuider \<Rightarrow> StepGuider" where
  "ao_SetCalibration cal s = s\<lparr>sg_calibration := cal, sg_mount := Mount_SetCalibration cal (sg_mount s)\<rparr>"

text \<open>What the calibration asks of the frame, the rotator and the camera.\<close>

record AoEnv =
  ae_focalLength :: int
  ae_imageScale :: real
  ae_rotatorAngle :: real
  ae_binning :: int

text \<open>With both guide speeds unknown the details are stored as they are.\<close>

definition ao_SetCalibrationDetails :: "AoEnv \<Rightarrow> real \<Rightarrow> real \<Rightarrow> int \<Rightarrow> StepGuider \<Rightarrow> StepGuider" where
  "ao_SetCalibrationDetails e xa ya bin s =
     (let d = (sg_details s)\<lparr>raGuideSpeed := - 1, decGuideSpeed := - 1, cd_focalLength := ae_focalLength e, imageScale := ae_imageScale e,
               orthoError := degrees \<bar>\<bar>norm_angle (xa - ya)\<bar> - pi / 2\<bar>, raStepCount := int (length (sg_raSteps s)),
               decStepCount := int (length (sg_decSteps s)), origBinning := bin\<rparr>
      in s\<lparr>sg_details := d, sg_detProfile := Some d\<rparr>)"

definition ao_complete :: "AoEnv \<Rightarrow> StepGuider \<Rightarrow> StepGuider" where
  "ao_complete e s =
     (let cal = (sg_calibration s)\<lparr>declination := UNKNOWN_DECLINATION, pierSide := PIER_SIDE_UNKNOWN, raGuideParity := GUIDE_PARITY_UNKNOWN,
                 decGuideParity := GUIDE_PARITY_UNKNOWN, rotatorAngle := ae_rotatorAngle e, binning := ae_binning e\<rparr>
      in ao_SetCalibrationDetails e (xAngle cal) (yAngle cal) (binning cal) (ao_SetCalibration cal s))"

text \<open>The steps that remain in a direction; they do not change during an update.\<close>

definition remaining :: "(GUIDE_DIRECTION \<Rightarrow> int) \<Rightarrow> GUIDE_DIRECTION \<Rightarrow> StepGuider \<Rightarrow> int" where
  "remaining mx d s = mx d - 1 - ao_CurrentPosition d s"

definition iterations :: "(GUIDE_DIRECTION \<Rightarrow> int) \<Rightarrow> GUIDE_DIRECTION \<Rightarrow> StepGuider \<Rightarrow> int" where
  "iterations mx d s = DIV_ROUND_UP (remaining mx d s) (m_calibrationStepsPerIteration s)"

text \<open>
  The cases of the switch, the last first: each gives the device and the directions to move in, and falls
  through to the one after it.
\<close>

definition ao_recenter :: "AoEnv \<Rightarrow> StepGuider \<Rightarrow> StepGuider \<times> GUIDE_DIRECTION list" where
  "ao_recenter e s0 =
     (let s = s0\<lparr>sg_state := AO_RECENTER\<rparr>;
          moveRight = (ao_CurrentPosition LEFT s \<ge> m_calibrationStepsPerIteration s);
          moveDown = (ao_CurrentPosition UP s \<ge> m_calibrationStepsPerIteration s)
      in if moveRight \<or> moveDown then (s, (if moveDown then [DOWN] else []) @ (if moveRight then [RIGHT] else []))
         else (ao_complete e (s\<lparr>sg_state := AO_COMPLETE\<rparr>), []))"

text \<open>One more sample; whether that was the last, and then the average.\<close>

definition ao_average :: "PHD_Point \<Rightarrow> StepGuider \<Rightarrow> (bool \<times> StepGuider) option" where
  "ao_average loc s =
     do { a \<leftarrow> p_add (m_calibrationAveragedLocation s) loc;
          let n = m_calibrationAverageSamples s + 1;
          let s1 = s\<lparr>m_calibrationAverageSamples := n, m_calibrationAveragedLocation := a\<rparr>;
          if n < m_samplesToAverage s then Some (False, s1)
          else do { b \<leftarrow> p_scale a (1 / real_of_int n); Some (True, s1\<lparr>m_calibrationAveragedLocation := b\<rparr>) } }"

definition start_average :: "AO_STATE \<Rightarrow> StepGuider \<Rightarrow> StepGuider" where
  "start_average st s =
     s\<lparr>m_calibrationAverageSamples := 0, m_calibrationAveragedLocation := p_SetXY (m_calibrationAveragedLocation s) 0 0, sg_state := st\<rparr>"

definition ao_rate :: "int \<Rightarrow> StepGuider \<Rightarrow> real option" where
  "ao_rate travel s =
     do { d \<leftarrow> p_DistanceTo (sg_startingLocation s) (m_calibrationAveragedLocation s);
          if travel = 0 then None else Some (d / real_of_int travel) }"

definition ao_average_ending :: "AoEnv \<Rightarrow> (GUIDE_DIRECTION \<Rightarrow> int) \<Rightarrow> PHD_Point \<Rightarrow> StepGuider \<Rightarrow> (StepGuider \<times> GUIDE_DIRECTION list) option" where
  "ao_average_ending e mx loc s =
     do { (done, s1) \<leftarrow> ao_average loc s;
          if \<not> done then Some (s1, [])
          else do { a \<leftarrow> p_AngleTo (m_calibrationAveragedLocation s1) (sg_startingLocation s1);
                    r \<leftarrow> ao_rate (mx UP - 1 + (mx DOWN - 1)) s1;
                    Some (ao_recenter e (s1\<lparr>sg_calibration := (sg_calibration s1)\<lparr>yAngle := a, yRate := r\<rparr>,
                                            sg_startingLocation := m_calibrationAveragedLocation s1\<rparr>)) } }"

definition step_away :: "PHD_Point \<Rightarrow> StepGuider \<Rightarrow> (real \<times> real) option" where
  "step_away loc s = do { x \<leftarrow> p_dX (sg_startingLocation s) loc; y \<leftarrow> p_dY (sg_startingLocation s) loc; Some (x, y) }"

definition ao_go_up :: "AoEnv \<Rightarrow> (GUIDE_DIRECTION \<Rightarrow> int) \<Rightarrow> PHD_Point \<Rightarrow> StepGuider \<Rightarrow> (StepGuider \<times> GUIDE_DIRECTION list) option" where
  "ao_go_up e mx loc s0 =
     (let s = s0\<lparr>sg_state := AO_GO_UP\<rparr>
      in if remaining mx UP s > 0
         then map_option (\<lambda>d. (s\<lparr>m_calibrationIterations := m_calibrationIterations s + 1, sg_decSteps := sg_decSteps s @ [d]\<rparr>, [UP])) (step_away loc s)
         else ao_average_ending e mx loc (start_average AO_AVERAGE_ENDING_LOCATION s))"

definition ao_average_center :: "AoEnv \<Rightarrow> (GUIDE_DIRECTION \<Rightarrow> int) \<Rightarrow> PHD_Point \<Rightarrow> StepGuider \<Rightarrow> (StepGuider \<times> GUIDE_DIRECTION list) option" where
  "ao_average_center e mx loc s =
     do { (done, s1) \<leftarrow> ao_average loc s;
          if \<not> done then Some (s1, [])
          else do { a \<leftarrow> p_AngleTo (sg_startingLocation s1) (m_calibrationAveragedLocation s1);
                    r \<leftarrow> ao_rate (mx LEFT - 1 + (mx RIGHT - 1)) s1;
                    ao_go_up e mx loc (s1\<lparr>sg_calibration := (sg_calibration s1)\<lparr>xAngle := a, xRate := r\<rparr>,
                                          sg_startingLocation := m_calibrationAveragedLocation s1, m_calibrationIterations := 0\<rparr>) } }"

definition ao_go_left :: "AoEnv \<Rightarrow> (GUIDE_DIRECTION \<Rightarrow> int) \<Rightarrow> PHD_Point \<Rightarrow> StepGuider \<Rightarrow> (StepGuider \<times> GUIDE_DIRECTION list) option" where
  "ao_go_left e mx loc s0 =
     (let s = s0\<lparr>sg_state := AO_GO_LEFT\<rparr>
      in if remaining mx LEFT s > 0
         then map_option (\<lambda>d. (s\<lparr>m_calibrationIterations := m_calibrationIterations s + 1, sg_raSteps := sg_raSteps s @ [d]\<rparr>, [LEFT])) (step_away loc s)
         else ao_average_center e mx loc (start_average AO_AVERAGE_CENTER_LOCATION s))"

definition ao_average_starting :: "AoEnv \<Rightarrow> (GUIDE_DIRECTION \<Rightarrow> int) \<Rightarrow> PHD_Point \<Rightarrow> StepGuider \<Rightarrow> (StepGuider \<times> GUIDE_DIRECTION list) option" where
  "ao_average_starting e mx loc s =
     do { (done, s1) \<leftarrow> ao_average loc s;
          if \<not> done then Some (s1, [])
          else ao_go_left e mx loc (s1\<lparr>sg_startingLocation := m_calibrationAveragedLocation s1, m_calibrationIterations := 0\<rparr>) }"

definition ao_goto_corner :: "AoEnv \<Rightarrow> (GUIDE_DIRECTION \<Rightarrow> int) \<Rightarrow> PHD_Point \<Rightarrow> StepGuider \<Rightarrow> (StepGuider \<times> GUIDE_DIRECTION list) option" where
  "ao_goto_corner e mx loc s =
     (if max (iterations mx DOWN s) (iterations mx RIGHT s) > 0
      then Some (s, (if remaining mx DOWN s > 0 then [DOWN] else []) @ (if remaining mx RIGHT s > 0 then [RIGHT] else []))
      else ao_average_starting e mx loc (start_average AO_AVERAGE_STARTING_LOCATION s))"

definition ao_switch :: "AoEnv \<Rightarrow> (GUIDE_DIRECTION \<Rightarrow> int) \<Rightarrow> PHD_Point \<Rightarrow> StepGuider \<Rightarrow> (StepGuider \<times> GUIDE_DIRECTION list) option" where
  "ao_switch e mx loc s = (case sg_state s of
     AO_GOTO_LOWER_RIGHT_CORNER \<Rightarrow> ao_goto_corner e mx loc s
   | AO_AVERAGE_STARTING_LOCATION \<Rightarrow> ao_average_starting e mx loc s
   | AO_GO_LEFT \<Rightarrow> ao_go_left e mx loc s
   | AO_AVERAGE_CENTER_LOCATION \<Rightarrow> ao_average_center e mx loc s
   | AO_GO_UP \<Rightarrow> ao_go_up e mx loc s
   | AO_AVERAGE_ENDING_LOCATION \<Rightarrow> ao_average_ending e mx loc s
   | AO_RECENTER \<Rightarrow> Some (ao_recenter e s)
   | AO_COMPLETE \<Rightarrow> Some (ao_complete e s, [])
   | AO_CLEARED \<Rightarrow> None)"

definition MAX_CALIBRATION_MOVE_ERRORS :: int where "MAX_CALIBRATION_MOVE_ERRORS = 12"

definition ao_UpdateCalibrationState :: "AoEnv \<Rightarrow> (GUIDE_DIRECTION \<Rightarrow> int) \<Rightarrow> PHD_Point \<Rightarrow> StepGuider \<Rightarrow> (bool \<times> StepGuider) option" where
  "ao_UpdateCalibrationState e mx loc s =
     (if m_errorCount (sg_mount s) > MAX_CALIBRATION_MOVE_ERRORS then Some (True, ao_ClearCalibration s)
      else let s1 = (if p_valid (sg_startingLocation s) then s else s\<lparr>sg_startingLocation := loc\<rparr>)
           in if m_calibrationStepsPerIteration s1 = 0 \<or>
                 \<not> (0 \<le> remaining mx UP s1 \<and> 0 \<le> remaining mx DOWN s1 \<and> 0 \<le> remaining mx RIGHT s1 \<and> 0 \<le> remaining mx LEFT s1) then None
              else do { (s2, dirs) \<leftarrow> ao_switch e mx loc s1;
                        status \<leftarrow> (if sg_state s2 \<noteq> AO_COMPLETE then p_DistanceTo (sg_startingLocation s2) loc else Some 0);
                        Some (False, s2\<lparr>sg_moves := sg_moves s2 @
                          map (\<lambda>d. (d, min (remaining mx d s1) (m_calibrationStepsPerIteration s1))) dirs\<rparr>) })"

text \<open>Binning changes the rates; nothing else changes the calibration of this device.\<close>

definition ao_AdjustCalibrationForScopePointing :: "int \<Rightarrow> StepGuider \<Rightarrow> StepGuider" where
  "ao_AdjustCalibrationForScopePointing bin s =
     (if bin = binning (sg_calibration s) then s
      else let adj = real_of_int (binning (sg_calibration s)) / real_of_int bin; cal = sg_calibration s
           in ao_SetCalibration (cal\<lparr>xRate := xRate cal * adj, yRate := yRate cal * adj, binning := bin\<rparr>) s)"

section \<open>A frame of the calibration\<close>

text \<open>
  The worker thread performs the moves that a frame scheduled, and \<open>OnMoveComplete\<close> counts those that failed;
  when the device has reached its limit the calibration is given up.
\<close>

datatype AoProgress = AO_Going | AO_Done | AO_Failed

definition ao_move_complete :: "MOVE_RESULT \<Rightarrow> StepGuider \<Rightarrow> StepGuider" where
  "ao_move_complete r s = (if r \<noteq> MOVE_OK then s\<lparr>sg_mount := IncrementErrorCount (sg_mount s)\<rparr> else s)"

fun ao_run_moves :: "AoDriver \<Rightarrow> (GUIDE_DIRECTION \<times> int) list \<Rightarrow> StepGuider \<Rightarrow> (bool \<times> StepGuider) option" where
  "ao_run_moves drv [] s = Some (False, s)"
| "ao_run_moves drv ((d, n) # ms) s =
     do { (r, s1) \<leftarrow> ao_MoveAxis drv d n MOVEOPTS_CALIBRATION_MOVE s;
          (lim, s2) \<leftarrow> ao_run_moves drv ms (ao_move_complete r s1);
          Some (r = MOVE_ERROR_AO_LIMIT_REACHED \<or> lim, s2) }"

definition ao_cal_frame :: "AoEnv \<Rightarrow> PHD_Point \<times> AoDriver \<Rightarrow> StepGuider \<Rightarrow> (AoProgress \<times> StepGuider) option" where
  "ao_cal_frame e ld s =
     do { (err, s1) \<leftarrow> ao_UpdateCalibrationState e (ad_MaxPosition (snd ld)) (fst ld) s;
          if err then Some (AO_Failed, s1)
          else if Mount_IsCalibrated (sg_mount s1) then Some (AO_Done, s1)
          else do { (lim, s2) \<leftarrow> ao_run_moves (snd ld) (sg_moves s1) (s1\<lparr>sg_moves := []\<rparr>);
                    Some (if lim then AO_Failed else AO_Going, s2) } }"

fun ao_cal_run :: "AoEnv \<Rightarrow> (PHD_Point \<times> AoDriver) list \<Rightarrow> StepGuider \<Rightarrow> (AoProgress \<times> StepGuider) option" where
  "ao_cal_run e [] s = Some (AO_Going, s)"
| "ao_cal_run e (f # fs) s =
     do { (p, s1) \<leftarrow> ao_cal_frame e f s; if p = AO_Going then ao_cal_run e fs s1 else Some (p, s1) }"

section \<open>Guide steps and bumps\<close>

text \<open>\<open>Mount::MoveOffset\<close> with the virtual functions of this device; it has no backlash compensation.\<close>

record ('x, 'y) AoMount =
  am_ao :: StepGuider
  am_x :: "'x option"
  am_y :: "'y option"
  am_lastStep :: GuideStepInfo

definition ao_move_axes :: "AoDriver \<Rightarrow> MoveInput \<Rightarrow> GuiderOffset \<Rightarrow> 32 word \<Rightarrow> real \<Rightarrow> real \<Rightarrow> ('x, 'y) AoMount \<Rightarrow>
    (MOVE_RESULT \<times> ('x, 'y) AoMount) option" where
  "ao_move_axes drv mi ofs opts xd yd g =
     do { (rx, xinfo, s1) \<leftarrow> ao_MoveAxis_info drv (x_direction xd) (requested_amount (mi_bad mi) xd (m_xRate (sg_mount (am_ao g)))) opts (am_ao g);
          (r, yinfo, s2) \<leftarrow> (if rx \<noteq> MOVE_ERROR_SLEWING \<and> rx \<noteq> MOVE_ERROR_AO_LIMIT_REACHED
             then ao_MoveAxis_info drv (y_direction yd) (requested_amount (mi_bad mi) yd (yRate (m_cal (sg_mount s1)))) opts s1
             else Some (rx, \<lparr>amountMoved = 0, limited = False\<rparr>, s1));
          Some (r, g\<lparr>am_ao := s2, am_lastStep :=
            \<lparr>si_moveOptions = opts, si_frameNumber = mi_frameCounter mi, si_time = mi_time mi,
             si_cameraOffset = cameraOfs ofs, si_mountOffset = mountOfs ofs, guideDistanceRA = xd,
             guideDistanceDec = yd, durationRA = amountMoved xinfo, durationDec = amountMoved yinfo,
             directionRA = x_direction xd, directionDec = y_direction yd,
             raLimited = limited xinfo, decLimited = limited yinfo\<rparr>\<rparr>) }"

definition ao_Mount_MoveOffset :: "'x AlgoOps \<Rightarrow> 'y AlgoOps \<Rightarrow> AoDriver \<Rightarrow> MoveInput \<Rightarrow> GuiderOffset \<Rightarrow> 32 word \<Rightarrow> ('x, 'y) AoMount \<Rightarrow>
    (MOVE_RESULT \<times> GuiderOffset \<times> ('x, 'y) AoMount) option" where
  "ao_Mount_MoveOffset xo yo drv mi ofs opts g =
     (if opt_set opts MOVEOPT_ALGO_DEDUCE
      then let (xd, xa) = algo_deduce xo (am_x g); (yd, ya) = algo_deduce yo (am_y g); g1 = g\<lparr>am_x := xa, am_y := ya\<rparr>
           in if xd = 0 \<and> yd = 0 then Some (MOVE_OK, ofs, g1)
              else let ofs1 = ofs\<lparr>mountOfs := p_SetXY (mountOfs ofs) xd yd\<rparr>
                   in do { (r, g2) \<leftarrow> ao_move_axes drv mi ofs1 opts xd yd g1; Some (r, ofs1, g2) }
      else let (err, mofs) = (if \<not> p_valid (mountOfs ofs)
                              then TransformCameraCoordinatesToMountCoordinates (sg_mount (am_ao g)) (cameraOfs ofs) (mountOfs ofs)
                              else (False, mountOfs ofs));
               ofs1 = ofs\<lparr>mountOfs := mofs\<rparr>
           in if err then Some (MOVE_ERROR, ofs1, g)
              else let (xd, xa) = (if opt_set opts MOVEOPT_ALGO_RESULT then algo_result xo (am_x g) (pX mofs) else (pX mofs, am_x g));
                       (yd, ya) = (if opt_set opts MOVEOPT_ALGO_RESULT then algo_result yo (am_y g) (pY mofs) else (pY mofs, am_y g))
                   in do { (r, g2) \<leftarrow> ao_move_axes drv mi ofs1 opts xd yd (g\<lparr>am_x := xa, am_y := ya\<rparr>); Some (r, ofs1, g2) })"

text \<open>The notifications, which go to both algorithms when guiding is resumed or dithered.\<close>

definition ao_notify_algos :: "'x AlgoOps \<Rightarrow> 'y AlgoOps \<Rightarrow> GuideNotification \<Rightarrow> GuideNotification \<Rightarrow> ('x, 'y) AoMount \<Rightarrow> ('x, 'y) AoMount" where
  "ao_notify_algos xo yo nx ny g =
     g\<lparr>am_x := map_option (ao_notify xo nx) (am_x g), am_y := map_option (ao_notify yo ny) (am_y g),
       am_ao := (am_ao g)\<lparr>m_avgOffset := p_Invalidate (m_avgOffset (am_ao g))\<rparr>\<rparr>"

definition ao_NotifyGuidingResumed :: "'x AlgoOps \<Rightarrow> 'y AlgoOps \<Rightarrow> ('x, 'y) AoMount \<Rightarrow> ('x, 'y) AoMount" where
  "ao_NotifyGuidingResumed xo yo g = ao_notify_algos xo yo GuidingResumed GuidingResumed g"

definition ao_NotifyGuidingDithered :: "'x AlgoOps \<Rightarrow> 'y AlgoOps \<Rightarrow> real \<Rightarrow> real \<Rightarrow> bool \<Rightarrow> ('x, 'y) AoMount \<Rightarrow> ('x, 'y) AoMount" where
  "ao_NotifyGuidingDithered xo yo dx dy mountCoords g =
     (let (err, mnt) = TransformCameraCoordinatesToMountCoordinates (sg_mount (am_ao g)) (PHD_Point_new dx dy) PHD_Point_invalid;
          (ex, ey) = (if \<not> mountCoords \<and> \<not> err then (pX mnt, pY mnt) else (dx, dy))
      in ao_notify_algos xo yo (GuidingDithered ex) (GuidingDithered ey) g)"

text \<open>What a bump asks of the secondary mount (busy, connected), the clock, the guider and the controller.\<close>

record BumpEnv =
  be_secondary :: "(bool \<times> bool) option"
  be_now :: int
  be_maxMovePixels :: int
  be_settling :: bool
  be_boost :: real

definition BumpWarnTime :: int where "BumpWarnTime = 240"

text \<open>The moving average of the position of the device.\<close>

definition track_offset :: "StepGuider \<Rightarrow> StepGuider" where
  "track_offset s =
     (let x = real_of_int (m_xOffset s); y = real_of_int (m_yOffset s); a = m_avgOffset s
      in s\<lparr>m_avgOffset := (if p_valid a then a\<lparr>pX := pX a + 0.33 * (x - pX a), pY := pY a + 0.33 * (y - pY a)\<rparr> else p_SetXY a x y)\<rparr>)"

definition bump_outside :: "StepGuider \<Rightarrow> bool" where
  "bump_outside s \<longleftrightarrow> \<bar>ao_CurrentPosition RIGHT s\<bar> > m_xBumpPos1 s \<or> \<bar>ao_CurrentPosition UP s\<bar> > m_yBumpPos1 s"

definition grow_weight :: "BumpEnv \<Rightarrow> StepGuider \<Rightarrow> StepGuider" where
  "grow_weight be s =
     (let far = (\<bar>ao_CurrentPosition RIGHT s\<bar> > m_xBumpPos2 s \<or> \<bar>ao_CurrentPosition UP s\<bar> > m_yBumpPos2 s);
          w = m_bumpStepWeight s + (if far then 1 else 1 / 6);
          movePx = max (xRate (sg_calibration s)) (yRate (sg_calibration s)) * m_bumpMaxStepsPerCycle s;
          maxMovePx = real_of_int (be_maxMovePixels be) * 0.5
      in s\<lparr>m_bumpStepWeight := (if movePx \<noteq> 0 \<and> w > maxMovePx / movePx then maxMovePx / movePx else w)\<rparr>)"

definition shrink_weight :: "StepGuider \<Rightarrow> StepGuider" where
  "shrink_weight s = s\<lparr>m_bumpStepWeight := max 1 (m_bumpStepWeight s * 0.5)\<rparr>"

text \<open>A guide step with a connected secondary mount starts or stops a bump.\<close>

definition consider_bump :: "BumpEnv \<Rightarrow> bool \<Rightarrow> StepGuider \<Rightarrow> StepGuider" where
  "consider_bump be busy s0 =
     (let outside = bump_outside s0; force = m_forceStartBump s0;
          s1 = s0\<lparr>m_forceStartBump := False\<rparr>;
          s2 = (if outside \<and> m_bumpInProgress s1 \<and> \<not> busy then grow_weight be s1 else s1);
          s3 = (if \<not> outside \<and> m_bumpStepWeight s2 > 1 then shrink_weight s2 else s2);
          s4 = (if m_bumpInProgress s3 \<and> \<not> m_bumpTimeoutAlertSent s3 \<and> be_now be - m_bumpStartTime s3 > BumpWarnTime
                then s3\<lparr>m_bumpTimeoutAlertSent := True\<rparr> else s3);
          s5 = (if (outside \<or> force) \<and> \<not> m_bumpInProgress s4
                then s4\<lparr>m_bumpInProgress := True, m_bumpStartTime := be_now be, m_bumpTimeoutAlertSent := False\<rparr> else s4);
          a = m_avgOffset s5
      in if (\<not> outside \<or> force) \<and> m_bumpInProgress s5 \<and>
            pX a * pX a + pY a * pY a \<le> real_of_int (m_bumpCenterTolerance s5 * m_bumpCenterTolerance s5)
         then s5\<lparr>m_bumpInProgress := False\<rparr> else s5)"

text \<open>After an exceeded range: a plain correction of 70 percent, at most half of the largest move.\<close>

definition large_bump :: "BumpEnv \<Rightarrow> GuiderOffset \<Rightarrow> (real \<times> real) option" where
  "large_bump be ofs =
     do { p \<leftarrow> p_scale (cameraOfs ofs) 0.7;
          let maxDist = real_of_int (be_maxMovePixels be) * 0.5; d2 = pX p * pX p + pY p * pY p
          in if d2 > maxDist * maxDist then Some (pX p * (maxDist / sqrt d2), pY p * (maxDist / sqrt d2)) else Some (pX p, pY p) }"

text \<open>The gentle bump towards the centre; without a direction it is not a number.\<close>

definition bump_weight :: "BumpEnv \<Rightarrow> StepGuider \<Rightarrow> real" where
  "bump_weight be s = (if be_settling be \<and> m_bumpStepWeight s < be_boost be then be_boost be else m_bumpStepWeight s)"

definition bump_vector :: "StepGuider \<Rightarrow> PHD_Point" where
  "bump_vector s = snd (TransformMountCoordinatesToCameraCoordinates (sg_mount s)
     (PHD_Point_new (m_xRate (sg_mount s) * - pX (m_avgOffset s)) (yRate (m_cal (sg_mount s)) * - pY (m_avgOffset s))) PHD_Point_invalid)"

definition gentle_bump :: "BumpEnv \<Rightarrow> GuiderOffset \<Rightarrow> StepGuider \<Rightarrow> (real \<times> real) option" where
  "gentle_bump be ofs s =
     (let v = bump_vector s; w = bump_weight be s;
          maxX = xRate (sg_calibration s) * m_bumpMaxStepsPerCycle s * w; maxY = yRate (sg_calibration s) * m_bumpMaxStepsPerCycle s * w;
          len = p_Distance v
      in if len = 0 then None
         else let x = pX v * maxX / len; y = pY v * maxY / len; pixels2 = x * x + y * y;
                  maxDist2 = pX (cameraOfs ofs) * pX (cameraOfs ofs) + pY (cameraOfs ofs) * pY (cameraOfs ofs)
              in if pixels2 > maxDist2 then Some (x * sqrt (maxDist2 / pixels2), y * sqrt (maxDist2 / pixels2)) else Some (x, y))"

definition ao_bump :: "BumpEnv \<Rightarrow> GuiderOffset \<Rightarrow> ('x, 'y) AoMount \<Rightarrow> ('x, 'y) AoMount option" where
  "ao_bump be ofs g =
     do { b \<leftarrow> (if decLimited (am_lastStep g) \<or> raLimited (am_lastStep g) then map_option Some (large_bump be ofs)
                else Some (gentle_bump be ofs (am_ao g)));
          Some (g\<lparr>am_ao := (am_ao g)\<lparr>sg_bumps := sg_bumps (am_ao g) @ [b]\<rparr>\<rparr>) }"

definition ao_MoveOffset :: "'x AlgoOps \<Rightarrow> 'y AlgoOps \<Rightarrow> AoDriver \<Rightarrow> MoveInput \<Rightarrow> BumpEnv \<Rightarrow> GuiderOffset \<Rightarrow> 32 word \<Rightarrow> ('x, 'y) AoMount \<Rightarrow>
    (MOVE_RESULT \<times> GuiderOffset \<times> ('x, 'y) AoMount) option" where
  "ao_MoveOffset xo yo drv mi be ofs opts g =
     do { (r, ofs1, g1) \<leftarrow> ao_Mount_MoveOffset xo yo drv mi ofs opts g;
          if \<not> m_guidingEnabled (sg_mount (am_ao g1)) then Some (if r = MOVE_OK then MOVE_ERROR else r, ofs1, g1)
          else if opt_set opts MOVEOPT_ALGO_DEDUCE then Some (r, ofs1, g1)
          else let s1 = track_offset (am_ao g1);
                   busy = (case be_secondary be of None \<Rightarrow> False | Some (b, c) \<Rightarrow> b);
                   connected = (case be_secondary be of None \<Rightarrow> False | Some (b, c) \<Rightarrow> c);
                   s2 = (if opt_set opts MOVEOPT_ALGO_RESULT \<and> connected then consider_bump be busy s1 else s1);
                   g2 = g1\<lparr>am_ao := s2\<rparr>
               in if m_bumpInProgress s2 \<and> \<not> busy
                  then do { sec \<leftarrow> be_secondary be; g3 \<leftarrow> ao_bump be ofs1 g2; Some (r, ofs1, g3) }
                  else Some (r, ofs1, g2) }"

section \<open>The device stays within its travel\<close>

definition in_travel :: "(GUIDE_DIRECTION \<Rightarrow> int) \<Rightarrow> int \<times> int \<Rightarrow> bool" where
  "in_travel mx p \<longleftrightarrow> - (mx LEFT - 1) \<le> fst p \<and> fst p \<le> mx RIGHT - 1 \<and> - (mx DOWN - 1) \<le> snd p \<and> snd p \<le> mx UP - 1"

definition ao_pos :: "StepGuider \<Rightarrow> int \<times> int" where "ao_pos s = (m_xOffset s, m_yOffset s)"

text \<open>Only the position and the note of a failed step differ, and the position is within the travel.\<close>

definition ao_moved :: "(GUIDE_DIRECTION \<Rightarrow> int) \<Rightarrow> StepGuider \<Rightarrow> StepGuider \<Rightarrow> bool" where
  "ao_moved mx s s' \<longleftrightarrow> (\<exists>f p. s' = s\<lparr>m_failedStep := f, m_xOffset := fst p, m_yOffset := snd p\<rparr> \<and> in_travel mx p)"

lemma ao_moved_refl: "in_travel mx (ao_pos s) \<Longrightarrow> ao_moved mx s s"
  unfolding ao_moved_def by (intro exI[of _ "m_failedStep s"] exI[of _ "ao_pos s"]) (simp add: ao_pos_def)

lemma ao_moved_step: "in_travel mx (x, y) \<Longrightarrow> ao_moved mx s (s\<lparr>m_xOffset := x, m_yOffset := y\<rparr>)"
  unfolding ao_moved_def by (intro exI[of _ "m_failedStep s"] exI[of _ "(x, y)"]) simp

lemma ao_moved_fail: "in_travel mx (x, y) \<Longrightarrow> ao_moved mx s (s\<lparr>m_failedStep := f, m_xOffset := x, m_yOffset := y\<rparr>)"
  unfolding ao_moved_def by (intro exI[of _ f] exI[of _ "(x, y)"]) simp

lemma ao_moved_travel: "ao_moved mx s s' \<Longrightarrow> in_travel mx (ao_pos s')"
  by (auto simp: ao_moved_def ao_pos_def)

lemma ao_moved_trans: "ao_moved mx s s1 \<Longrightarrow> ao_moved mx s1 s2 \<Longrightarrow> ao_moved mx s s2"
proof -
  assume "ao_moved mx s s1" "ao_moved mx s1 s2"
  then obtain f p g q where "s1 = s\<lparr>m_failedStep := f, m_xOffset := fst p, m_yOffset := snd p\<rparr>"
    "s2 = s1\<lparr>m_failedStep := g, m_xOffset := fst q, m_yOffset := snd q\<rparr>" "in_travel mx q" unfolding ao_moved_def by blast
  then show ?thesis unfolding ao_moved_def by (intro exI[of _ g] exI[of _ q]) simp
qed

definition shift :: "GUIDE_DIRECTION \<Rightarrow> int \<Rightarrow> StepGuider \<Rightarrow> StepGuider" where
  "shift d n s = (case step_vector d of None \<Rightarrow> s
     | Some dir \<Rightarrow> s\<lparr>m_xOffset := m_xOffset s + fst dir * n, m_yOffset := m_yOffset s + snd dir * n\<rparr>)"

text \<open>The contract of a driver: room on every side, and recentring ends within the travel.\<close>

locale ao_driver =
  fixes drv :: AoDriver
  assumes room: "1 \<le> ad_MaxPosition drv d"
    and center: "in_travel (ad_MaxPosition drv) p \<Longrightarrow> in_travel (ad_MaxPosition drv) (snd (ad_Center drv p))"
begin

abbreviation "mx \<equiv> ad_MaxPosition drv"

lemma ao_step_travel:
  assumes "in_travel mx (ao_pos s)" "step_vector d = Some dir" "0 < n" "n \<le> remaining mx d s"
  shows "ao_moved mx s (snd (snd (ao_step drv d dir n s)))"
proof (cases "ad_Step drv d n")
  case STEP_OK
  have "in_travel mx (m_xOffset s + fst dir * n, m_yOffset s + snd dir * n)"
    using assms by (cases d) (auto simp: in_travel_def ao_pos_def remaining_def)
  then show ?thesis using STEP_OK by (simp add: ao_step_def ao_moved_step)
next
  case STEP_LIMIT_REACHED
  then show ?thesis using center[OF assms(1)]
    by (cases "ad_Center drv (m_xOffset s, m_yOffset s)") (simp add: ao_step_def ao_pos_def Let_def ao_moved_fail)
next
  case STEP_ERROR
  then show ?thesis using assms(1) by (simp add: ao_step_def ao_moved_refl)
qed

text \<open>A move of a whole number of steps always returns, and only the position changes.\<close>

lemma MoveAxis_info_travel:
  assumes "in_travel mx (ao_pos s)" "0 \<le> n"
  shows "\<exists>r info s1. ao_MoveAxis_info drv d n opts s = Some (r, info, s1) \<and> ao_moved mx s s1"
proof (cases "(\<not> m_guidingEnabled (sg_mount s) \<and> \<not> opt_set opts MOVEOPT_MANUAL) \<or> n = 0 \<or> step_vector d = None")
  case True
  then have "\<exists>r info. ao_MoveAxis_info drv d n opts s = Some (r, info, s)" using assms(2) by (auto simp: ao_MoveAxis_info_def)
  then show ?thesis using ao_moved_refl[OF assms(1)] by blast
next
  case False
  then obtain dir where dir: "step_vector d = Some dir" by auto
  define k where "k = (if WouldHitLimit mx d n s then mx d - 1 - ao_CurrentPosition d s else n)"
  have k: "k \<le> remaining mx d s" by (auto simp: k_def WouldHitLimit_def remaining_def)
  show ?thesis
  proof (cases "k > 0")
    case True
    obtain r m s1 where s1: "ao_step drv d dir k s = (r, m, s1)" by (cases "ao_step drv d dir k s") auto
    then have "ao_moved mx s s1" using ao_step_travel[OF assms(1) dir True k] by simp
    then show ?thesis using s1 False dir True assms(2) unfolding ao_MoveAxis_info_def k_def Let_def by auto
  next
    case nk: False
    then have "\<exists>r info. ao_MoveAxis_info drv d n opts s = Some (r, info, s)"
      using False dir assms(2) unfolding ao_MoveAxis_info_def k_def Let_def by auto
    then show ?thesis using ao_moved_refl[OF assms(1)] by blast
  qed
qed

lemma MoveAxis_travel:
  assumes "in_travel mx (ao_pos s)" "0 \<le> n"
  shows "\<exists>r s1. ao_MoveAxis drv d n opts s = Some (r, s1) \<and> ao_moved mx s s1"
  using MoveAxis_info_travel[OF assms, of d opts] by (auto simp: ao_MoveAxis_def)

lemma center_axis_travel:
  assumes "in_travel mx (ao_pos s)"
  shows "\<exists>err s1. center_axis drv p n s = Some (err, s1) \<and> ao_moved mx s s1"
proof (cases "ao_CurrentPosition p s = 0")
  case True
  then show ?thesis using ao_moved_refl[OF assms] by (intro exI[of _ False]) (simp add: center_axis_def)
next
  case False
  let ?d = "if ao_CurrentPosition p s > 0 then n else p"
  obtain r info s1 where "ao_MoveAxis_info drv ?d \<bar>ao_CurrentPosition p s\<bar> MOVEOPTS_CALIBRATION_MOVE s = Some (r, info, s1)" "ao_moved mx s s1"
    using MoveAxis_info_travel[OF assms abs_ge_zero] by blast
  then show ?thesis using False by (simp add: center_axis_def Let_def)
qed

lemma MoveAxis_info_moved_travel:
  assumes "in_travel mx (ao_pos s)" "ao_MoveAxis_info drv d n opts s = Some (r, info, s1)"
  shows "in_travel mx (ao_pos s1)"
proof (cases "0 \<le> n")
  case True
  then show ?thesis using MoveAxis_info_travel[OF assms(1), of n d opts] assms(2) ao_moved_travel by auto
next
  case False
  then show ?thesis using assms by (auto simp: ao_MoveAxis_info_def split: if_splits)
qed

text \<open>Centring one axis: without an error it is at zero, and the other axis stays.\<close>

lemma center_axis_zero:
  assumes "in_travel mx (ao_pos s)" "center_axis drv p n s = Some (False, s1)" "(p, n) \<in> {(UP, DOWN), (LEFT, RIGHT)}"
  shows "ao_CurrentPosition p s1 = 0 \<and> (\<forall>q. q \<noteq> p \<and> q \<noteq> n \<longrightarrow> ao_CurrentPosition q s1 = ao_CurrentPosition q s)"
proof (cases "ao_CurrentPosition p s = 0")
  case True
  then show ?thesis using assms(2) by (simp add: center_axis_def)
next
  case False
  let ?d = "if ao_CurrentPosition p s > 0 then n else p" and ?k = "\<bar>ao_CurrentPosition p s\<bar>"
  have nz: "0 < ?k" using False by simp
  obtain dir where dir: "step_vector ?d = Some dir" using assms(3) by (cases "ao_CurrentPosition p s > 0") auto
  have hit: "\<not> WouldHitLimit mx ?d ?k s" using assms(3) room[of UP] room[of DOWN] room[of LEFT] room[of RIGHT] by (auto simp: WouldHitLimit_def)
  obtain r info where m: "ao_MoveAxis_info drv ?d ?k MOVEOPTS_CALIBRATION_MOVE s = Some (r, info, s1)" "amountMoved info = ?k"
    using assms(2) False by (auto simp: center_axis_def Let_def split: option.splits Option.bind_splits)
  then have "ao_step drv ?d dir ?k s = (r, ?k, s1)"
    using nz dir hit unfolding ao_MoveAxis_info_def Let_def by (auto split: if_splits prod.splits)
  then have "s1 = s\<lparr>m_xOffset := m_xOffset s + fst dir * ?k, m_yOffset := m_yOffset s + snd dir * ?k\<rparr>"
    using nz by (auto simp: ao_step_def Let_def split: STEP_RESULT.splits prod.splits)
  moreover have "ao_CurrentPosition q s1 = ao_CurrentPosition q s" if "q \<noteq> p" "q \<noteq> n" for q
    using calculation assms(3) dir that by (cases "ao_CurrentPosition p s > 0"; cases q) auto
  ultimately show ?thesis using assms(3) dir False by (cases "ao_CurrentPosition p s > 0") auto
qed

text \<open>A calibration move of a possible number of steps is carried out in full, fails in place, or reaches the limit.\<close>

lemma MoveAxis_cases:
  assumes "in_travel mx (ao_pos s)" "d \<noteq> NONE" "0 < n" "n \<le> remaining mx d s"
  obtains "ao_MoveAxis drv d n opts s = Some (MOVE_OK, shift d n s)"
  | "ao_MoveAxis drv d n opts s = Some (MOVE_ERROR, s)"
  | s1 where "ao_MoveAxis drv d n opts s = Some (MOVE_ERROR_AO_LIMIT_REACHED, s1)" "ao_moved mx s s1"
proof -
  obtain dir where dir: "step_vector d = Some dir" using assms(2) by (cases d) auto
  have hit: "\<not> WouldHitLimit mx d n s" using assms(4) by (simp add: WouldHitLimit_def remaining_def)
  show ?thesis
  proof (cases "\<not> m_guidingEnabled (sg_mount s) \<and> \<not> opt_set opts MOVEOPT_MANUAL")
    case True
    then show ?thesis using that(2) assms(3) by (simp add: ao_MoveAxis_def ao_MoveAxis_info_def)
  next
    case False
    have m: "ao_MoveAxis_info drv d n opts s = (let (r, moved, s1) = ao_step drv d dir n s in Some (r, \<lparr>amountMoved = moved, limited = False\<rparr>, s1))"
      using False assms(3) dir hit unfolding ao_MoveAxis_info_def by auto
    have t: "ao_moved mx s (snd (snd (ao_step drv d dir n s)))" by (rule ao_step_travel[OF assms(1) dir assms(3,4)])
    show ?thesis
    proof (cases "ad_Step drv d n")
      case STEP_OK
      then show ?thesis using that(1) dir unfolding ao_MoveAxis_def m by (simp add: ao_step_def shift_def)
    next
      case STEP_ERROR
      then show ?thesis using that(2) assms(3) unfolding ao_MoveAxis_def m by (simp add: ao_step_def)
    next
      case STEP_LIMIT_REACHED
      obtain s1 where "ao_step drv d dir n s = (MOVE_ERROR_AO_LIMIT_REACHED, 0, s1)"
        using STEP_LIMIT_REACHED by (cases "ad_Center drv (m_xOffset s, m_yOffset s)") (simp add: ao_step_def Let_def)
      then show ?thesis using that(3) t unfolding ao_MoveAxis_def m by simp
    qed
  qed
qed

lemma ao_moves_travel:
  assumes "in_travel mx (ao_pos s)" "\<And>d n. (d, n) \<in> set ms \<Longrightarrow> 0 \<le> n"
  shows "\<exists>lim s1. ao_run_moves drv ms s = Some (lim, s1) \<and> in_travel mx (ao_pos s1)"
  using assms
proof (induction ms arbitrary: s)
  case (Cons m ms)
  obtain d n where m: "m = (d, n)" by (cases m)
  obtain r s1 where s1: "ao_MoveAxis drv d n MOVEOPTS_CALIBRATION_MOVE s = Some (r, s1)" "ao_moved mx s s1"
    using MoveAxis_travel[OF Cons.prems(1)] Cons.prems(2)[of d n] m list.set_intros(1) by metis
  have "in_travel mx (ao_pos (ao_move_complete r s1))" using ao_moved_travel[OF s1(2)] by (simp add: ao_move_complete_def ao_pos_def)
  then obtain lim s2 where "ao_run_moves drv ms (ao_move_complete r s1) = Some (lim, s2)" "in_travel mx (ao_pos s2)"
    using Cons.IH[of "ao_move_complete r s1"] Cons.prems(2) by auto
  then show ?case using s1(1) m by simp
qed auto

end

section \<open>The stages of the calibration\<close>

text \<open>
  The potential bounds the frames that the calibration still takes: the steps and samples left in its stage and
  in those after it.
\<close>

definition travel_x :: "(GUIDE_DIRECTION \<Rightarrow> int) \<Rightarrow> int" where "travel_x mx = mx LEFT - 1 + (mx RIGHT - 1)"
definition travel_y :: "(GUIDE_DIRECTION \<Rightarrow> int) \<Rightarrow> int" where "travel_y mx = mx UP - 1 + (mx DOWN - 1)"

definition samples_left :: "StepGuider \<Rightarrow> int" where
  "samples_left s = m_samplesToAverage s - m_calibrationAverageSamples s"

definition potential :: "(GUIDE_DIRECTION \<Rightarrow> int) \<Rightarrow> StepGuider \<Rightarrow> int" where
  "potential mx s = (let w = travel_x mx; h = travel_y mx; n = m_samplesToAverage s in case sg_state s of
     AO_GOTO_LOWER_RIGHT_CORNER \<Rightarrow> remaining mx DOWN s + remaining mx RIGHT s + 2 * w + 2 * h + 3 * n
   | AO_AVERAGE_STARTING_LOCATION \<Rightarrow> samples_left s + 2 * w + 2 * h + 2 * n
   | AO_GO_LEFT \<Rightarrow> remaining mx LEFT s + w + 2 * h + 2 * n
   | AO_AVERAGE_CENTER_LOCATION \<Rightarrow> samples_left s + w + 2 * h + n
   | AO_GO_UP \<Rightarrow> remaining mx UP s + w + h + n
   | AO_AVERAGE_ENDING_LOCATION \<Rightarrow> samples_left s + w + h
   | AO_RECENTER \<Rightarrow> max 0 (ao_CurrentPosition LEFT s) + max 0 (ao_CurrentPosition UP s)
   | AO_COMPLETE \<Rightarrow> 0 | AO_CLEARED \<Rightarrow> 0)"

definition averaging :: "StepGuider \<Rightarrow> bool" where
  "averaging s \<longleftrightarrow> p_valid (m_calibrationAveragedLocation s) \<and> 0 \<le> m_calibrationAverageSamples s \<and> 0 < samples_left s"

definition ao_settings :: "(GUIDE_DIRECTION \<Rightarrow> int) \<Rightarrow> StepGuider \<Rightarrow> bool" where
  "ao_settings mx s \<longleftrightarrow> 1 \<le> m_samplesToAverage s \<and> 1 \<le> m_calibrationStepsPerIteration s \<and> in_travel mx (ao_pos s)"

definition calibrating :: "StepGuider \<Rightarrow> bool" where
  "calibrating s \<longleftrightarrow> \<not> m_calibrated (sg_mount s) \<and> sg_state s \<notin> {AO_CLEARED, AO_COMPLETE} \<and>
     (sg_state s \<in> {AO_AVERAGE_STARTING_LOCATION, AO_AVERAGE_CENTER_LOCATION, AO_AVERAGE_ENDING_LOCATION} \<longrightarrow> averaging s)"

text \<open>A move that brings the calibration on.\<close>

definition forward :: "(GUIDE_DIRECTION \<Rightarrow> int) \<Rightarrow> StepGuider \<Rightarrow> GUIDE_DIRECTION \<Rightarrow> bool" where
  "forward mx s d \<longleftrightarrow> d \<noteq> NONE \<and> remaining mx d s > 0 \<and> (case sg_state s of
     AO_GOTO_LOWER_RIGHT_CORNER \<Rightarrow> d \<in> {DOWN, RIGHT}
   | AO_GO_LEFT \<Rightarrow> d = LEFT
   | AO_GO_UP \<Rightarrow> d = UP
   | AO_RECENTER \<Rightarrow> d = RIGHT \<and> ao_CurrentPosition LEFT s \<ge> m_calibrationStepsPerIteration s \<or>
                    d = DOWN \<and> ao_CurrentPosition UP s \<ge> m_calibrationStepsPerIteration s
   | _ \<Rightarrow> False)"

definition kept :: "StepGuider \<Rightarrow> StepGuider \<Rightarrow> bool" where
  "kept s s1 \<longleftrightarrow> ao_pos s1 = ao_pos s \<and> m_samplesToAverage s1 = m_samplesToAverage s \<and>
     m_calibrationStepsPerIteration s1 = m_calibrationStepsPerIteration s \<and> sg_moves s1 = sg_moves s \<and>
     m_connected (sg_mount s1) = m_connected (sg_mount s)"

text \<open>The result of a stage: the calibration is complete, or goes on within the bound.\<close>

definition stage_ok :: "(GUIDE_DIRECTION \<Rightarrow> int) \<Rightarrow> StepGuider \<Rightarrow> int \<Rightarrow> StepGuider \<times> GUIDE_DIRECTION list \<Rightarrow> bool" where
  "stage_ok mx s b r \<longleftrightarrow> (case r of (s1, dirs) \<Rightarrow> kept s s1 \<and>
     (m_calibrated (sg_mount s1) \<and> sg_state s1 = AO_COMPLETE \<and> dirs = [] \<or>
      calibrating s1 \<and> sg_mount s1 = sg_mount s \<and> p_valid (sg_startingLocation s1) \<and> potential mx s1 \<le> b \<and>
      (dirs = [] \<longrightarrow> potential mx s1 < b) \<and> dirs \<in> {[], [DOWN], [RIGHT], [DOWN, RIGHT], [LEFT], [UP]} \<and> (\<forall>d\<in>set dirs. forward mx s1 d)))"

lemma stage_ok_mono: "stage_ok mx s1 b1 r \<Longrightarrow> b1 \<le> b \<Longrightarrow> kept s s1 \<Longrightarrow> sg_mount s1 = sg_mount s \<Longrightarrow> stage_ok mx s b r"
  by (auto simp: stage_ok_def kept_def split: prod.splits)

lemma recenter_stage:
  assumes "ao_settings mx s" "\<not> m_calibrated (sg_mount s)" "p_valid (sg_startingLocation s)" "\<And>d. 1 \<le> mx d"
    and "max 0 (ao_CurrentPosition LEFT s) + max 0 (ao_CurrentPosition UP s) \<le> b"
  shows "stage_ok mx s b (ao_recenter e s)"
proof -
  let ?r = "ao_CurrentPosition LEFT s \<ge> m_calibrationStepsPerIteration s" and ?d = "ao_CurrentPosition UP s \<ge> m_calibrationStepsPerIteration s"
  show ?thesis
  proof (cases "?r \<or> ?d")
    case True
    let ?s = "s\<lparr>sg_state := AO_RECENTER\<rparr>"
    have res: "ao_recenter e s = (?s, (if ?d then [DOWN] else []) @ (if ?r then [RIGHT] else []))" using True by (simp add: ao_recenter_def)
    have k: "kept s ?s" by (simp add: kept_def ao_pos_def)
    have c: "calibrating ?s" using assms(2) by (simp add: calibrating_def)
    have p: "potential mx ?s \<le> b" using assms(5) by (simp add: potential_def)
    have f: "?r \<Longrightarrow> forward mx ?s RIGHT" "?d \<Longrightarrow> forward mx ?s DOWN"
      using assms(1) assms(4)[of RIGHT] assms(4)[of DOWN] by (auto simp: forward_def remaining_def ao_settings_def)
    show ?thesis unfolding res using k c p f True assms(3) by (auto simp: stage_ok_def)
  next
    case False
    then have "ao_recenter e s = (ao_complete e (s\<lparr>sg_state := AO_COMPLETE\<rparr>), [])" by (simp add: ao_recenter_def Let_def)
    then show ?thesis
      by (simp add: stage_ok_def kept_def ao_pos_def ao_complete_def ao_SetCalibrationDetails_def ao_SetCalibration_def Mount_SetCalibration_def Let_def)
  qed
qed

lemma average_total:
  assumes "averaging s" "p_valid loc"
  shows "\<exists>fin s1. ao_average loc s = Some (fin, s1) \<and> kept s s1 \<and> sg_mount s1 = sg_mount s \<and> sg_state s1 = sg_state s \<and>
    sg_startingLocation s1 = sg_startingLocation s \<and> p_valid (m_calibrationAveragedLocation s1) \<and>
    (\<not> fin \<longrightarrow> averaging s1 \<and> samples_left s1 = samples_left s - 1)"
proof -
  have "p_add (m_calibrationAveragedLocation s) loc = Some (PHD_Point_new (pX (m_calibrationAveragedLocation s) + pX loc) (pY (m_calibrationAveragedLocation s) + pY loc))"
    using assms by (simp add: p_add_def averaging_def)
  then show ?thesis using assms(1)
    by (auto simp: ao_average_def Let_def p_scale_def PHD_Point_new_def kept_def ao_pos_def averaging_def samples_left_def)
qed

lemma start_average_facts:
  "kept s (start_average st s)" "sg_mount (start_average st s) = sg_mount s" "sg_state (start_average st s) = st"
  "sg_startingLocation (start_average st s) = sg_startingLocation s" "samples_left (start_average st s) = m_samplesToAverage s"
  "1 \<le> m_samplesToAverage s \<Longrightarrow> averaging (start_average st s)"
  by (simp_all add: start_average_def kept_def ao_pos_def samples_left_def averaging_def p_SetXY_def)

lemma kept_trans: "kept s s1 \<Longrightarrow> kept s1 s2 \<Longrightarrow> kept s s2"
  by (simp add: kept_def)

lemma kept_refl [simp]: "kept s s"
  by (simp add: kept_def)

lemma kept_settings: "kept s s1 \<Longrightarrow> ao_settings mx s1 = ao_settings mx s"
  by (simp add: kept_def ao_settings_def)

lemma kept_position: "kept s s1 \<Longrightarrow> ao_CurrentPosition d s1 = ao_CurrentPosition d s"
  by (cases d) (simp_all add: kept_def ao_pos_def)

lemma kept_remaining: "kept s s1 \<Longrightarrow> remaining mx d s1 = remaining mx d s"
  by (simp add: remaining_def kept_position)

lemma rate_total: "p_valid (sg_startingLocation s) \<Longrightarrow> p_valid (m_calibrationAveragedLocation s) \<Longrightarrow> travel \<noteq> 0 \<Longrightarrow> \<exists>r. ao_rate travel s = Some r"
  by (simp add: ao_rate_def p_DistanceTo_def p_dX_def p_dY_def)

lemma ao_angle_total: "p_valid a \<Longrightarrow> p_valid b \<Longrightarrow> \<exists>r. p_AngleTo a b = Some r"
  by (simp add: p_AngleTo_def p_dX_def p_dY_def)

text \<open>A sample that is not the last one leaves the stage and shortens it.\<close>

lemma sample_stage:
  assumes "kept s s1" "sg_mount s1 = sg_mount s" "sg_state s1 = sg_state s" "sg_startingLocation s1 = sg_startingLocation s"
    and "averaging s1" "samples_left s1 = samples_left s - 1" "p_valid (sg_startingLocation s)" "\<not> m_calibrated (sg_mount s)"
    and "sg_state s \<in> {AO_AVERAGE_STARTING_LOCATION, AO_AVERAGE_CENTER_LOCATION, AO_AVERAGE_ENDING_LOCATION}"
  shows "stage_ok mx s (potential mx s) (s1, [])"
proof -
  have "m_samplesToAverage s1 = m_samplesToAverage s" using assms(1) by (simp add: kept_def)
  then have "potential mx s1 = potential mx s - 1" using assms(3,6,9) by (auto simp: potential_def Let_def)
  then show ?thesis using assms by (auto simp: stage_ok_def calibrating_def)
qed

text \<open>The three averaging stages: one more sample, and the continuation after the last one.\<close>

lemma averaging_stage:
  assumes "averaging s" "p_valid loc" "p_valid (sg_startingLocation s)" "\<not> m_calibrated (sg_mount s)"
    and "sg_state s \<in> {AO_AVERAGE_STARTING_LOCATION, AO_AVERAGE_CENTER_LOCATION, AO_AVERAGE_ENDING_LOCATION}"
    and "\<And>s1. kept s s1 \<Longrightarrow> sg_mount s1 = sg_mount s \<Longrightarrow> p_valid (sg_startingLocation s1) \<Longrightarrow> p_valid (m_calibrationAveragedLocation s1) \<Longrightarrow>
      \<exists>r. f s1 = Some r \<and> stage_ok mx s (potential mx s) r"
  shows "\<exists>r. do { (fin, s1) \<leftarrow> ao_average loc s; if \<not> fin then Some (s1, []) else f s1 } = Some r \<and> stage_ok mx s (potential mx s) r"
proof -
  obtain fin s1 where av: "ao_average loc s = Some (fin, s1)" "kept s s1" "sg_mount s1 = sg_mount s" "sg_state s1 = sg_state s"
    "sg_startingLocation s1 = sg_startingLocation s" "p_valid (m_calibrationAveragedLocation s1)"
    "\<not> fin \<longrightarrow> averaging s1 \<and> samples_left s1 = samples_left s - 1" using average_total[OF assms(1,2)] by blast
  show ?thesis
  proof (cases fin)
    case False
    then show ?thesis using av sample_stage[OF av(2-5) _ _ assms(3,4,5)] by simp
  next
    case True
    then show ?thesis using assms(6)[OF av(2,3) _ av(6)] av(1,5) assms(3) by simp
  qed
qed

lemma ending_stage:
  assumes "ao_settings mx s" "\<not> m_calibrated (sg_mount s)" "p_valid (sg_startingLocation s)" "\<And>d. 1 \<le> mx d" "travel_y mx > 0"
    and "averaging s" "p_valid loc" "sg_state s = AO_AVERAGE_ENDING_LOCATION"
  shows "\<exists>r. ao_average_ending e mx loc s = Some r \<and> stage_ok mx s (potential mx s) r"
  unfolding ao_average_ending_def
proof (rule averaging_stage[OF assms(6,7,3,2)])
  fix s1 assume s1: "kept s s1" "sg_mount s1 = sg_mount s" "p_valid (sg_startingLocation s1)" "p_valid (m_calibrationAveragedLocation s1)"
  obtain a r where a: "p_AngleTo (m_calibrationAveragedLocation s1) (sg_startingLocation s1) = Some a" "ao_rate (mx UP - 1 + (mx DOWN - 1)) s1 = Some r"
    using ao_angle_total[OF s1(4,3)] rate_total[OF s1(3,4), of "mx UP - 1 + (mx DOWN - 1)"] assms(5) unfolding travel_y_def by auto
  let ?s = "s1\<lparr>sg_calibration := (sg_calibration s1)\<lparr>yAngle := a, yRate := r\<rparr>, sg_startingLocation := m_calibrationAveragedLocation s1\<rparr>"
  have k: "kept s ?s" "sg_mount ?s = sg_mount s" using s1(1,2) by (simp_all add: kept_def ao_pos_def)
  have t: "ao_settings mx ?s" using kept_settings[OF k(1)] assms(1) by simp
  have b: "max 0 (ao_CurrentPosition LEFT ?s) + max 0 (ao_CurrentPosition UP ?s) \<le> potential mx s"
    using assms(1,6,8) assms(4)[of RIGHT] assms(4)[of DOWN] assms(4)[of LEFT] assms(4)[of UP] unfolding kept_position[OF k(1)]
    by (auto simp: potential_def Let_def averaging_def travel_x_def travel_y_def ao_settings_def in_travel_def ao_pos_def)
  have "stage_ok mx ?s (potential mx s) (ao_recenter e ?s)" using assms(2) k(2) s1(4) by (intro recenter_stage[OF t _ _ assms(4) b]) simp_all
  then have "stage_ok mx s (potential mx s) (ao_recenter e ?s)" using stage_ok_mono[OF _ order_refl k] by blast
  then show "\<exists>r. do { a \<leftarrow> p_AngleTo (m_calibrationAveragedLocation s1) (sg_startingLocation s1);
      r \<leftarrow> ao_rate (mx UP - 1 + (mx DOWN - 1)) s1;
      Some (ao_recenter e (s1\<lparr>sg_calibration := (sg_calibration s1)\<lparr>yAngle := a, yRate := r\<rparr>,
        sg_startingLocation := m_calibrationAveragedLocation s1\<rparr>)) } = Some r \<and> stage_ok mx s (potential mx s) r" using a by simp
qed (use assms(8) in simp)

lemma up_stage:
  assumes "ao_settings mx s" "\<not> m_calibrated (sg_mount s)" "p_valid (sg_startingLocation s)" "\<And>d. 1 \<le> mx d" "travel_y mx > 0"
    and "p_valid loc" "remaining mx UP s + travel_x mx + travel_y mx + m_samplesToAverage s \<le> b"
  shows "\<exists>r. ao_go_up e mx loc s = Some r \<and> stage_ok mx s b r"
proof -
  let ?s = "s\<lparr>sg_state := AO_GO_UP\<rparr>"
  have k: "kept s ?s" by (simp add: kept_def ao_pos_def)
  show ?thesis
  proof (cases "remaining mx UP ?s > 0")
    case True
    obtain d where d: "step_away loc ?s = Some d" using assms(3,6) by (simp add: step_away_def p_dX_def p_dY_def)
    let ?t = "?s\<lparr>m_calibrationIterations := m_calibrationIterations ?s + 1, sg_decSteps := sg_decSteps ?s @ [d]\<rparr>"
    have kt: "kept s ?t" "sg_state ?t = AO_GO_UP" "m_samplesToAverage ?t = m_samplesToAverage s" by (simp_all add: kept_def ao_pos_def)
    have "potential mx ?t \<le> b" using assms(7) kt(2,3) kept_remaining[OF kt(1)] unfolding potential_def by (simp add: Let_def)
    moreover have "calibrating ?t" "forward mx ?t UP" using assms(2) True kept_remaining[OF kt(1)] kept_remaining[OF k]
      by (simp_all add: calibrating_def forward_def)
    ultimately have "stage_ok mx s b (?t, [UP])" using kt(1) assms(3) by (simp add: stage_ok_def)
    then show ?thesis using True d by (simp add: ao_go_up_def Let_def)
  next
    case False
    let ?t = "start_average AO_AVERAGE_ENDING_LOCATION ?s"
    note f = start_average_facts[where s = ?s and st = AO_AVERAGE_ENDING_LOCATION]
    have kt: "kept s ?t" using k f(1) kept_trans by blast
    have t: "ao_settings mx ?t" using kept_settings[OF kt] assms(1) by simp
    have av: "averaging ?t" using f(6) assms(1) by (simp add: ao_settings_def)
    have m: "sg_mount ?t = sg_mount s" "p_valid (sg_startingLocation ?t)" "\<not> m_calibrated (sg_mount ?t)" using f(2,4) assms(2,3) by simp_all
    obtain r where r: "ao_average_ending e mx loc ?t = Some r" "stage_ok mx ?t (potential mx ?t) r"
      using ending_stage[OF t m(3,2) assms(4,5) av assms(6) f(3)] by blast
    have "0 \<le> remaining mx UP s" using assms(1) by (simp add: ao_settings_def in_travel_def ao_pos_def remaining_def)
    then have "potential mx ?t \<le> b" using assms(7) f(3,5) by (simp add: potential_def Let_def)
    then have "stage_ok mx s b r" using stage_ok_mono[OF r(2) _ kt m(1)] by blast
    then show ?thesis using False r(1) by (simp add: ao_go_up_def Let_def)
  qed
qed

lemma settings_remaining: "ao_settings mx s \<Longrightarrow> d \<noteq> NONE \<Longrightarrow> 0 \<le> remaining mx d s"
  by (cases d) (simp_all add: ao_settings_def in_travel_def ao_pos_def remaining_def)

lemma remaining_travel: "ao_settings mx s \<Longrightarrow> remaining mx UP s \<le> travel_y mx \<and> remaining mx LEFT s \<le> travel_x mx"
  by (simp add: ao_settings_def in_travel_def ao_pos_def remaining_def travel_x_def travel_y_def)

lemma center_stage:
  assumes "ao_settings mx s" "\<not> m_calibrated (sg_mount s)" "p_valid (sg_startingLocation s)" "\<And>d. 1 \<le> mx d" "travel_x mx > 0" "travel_y mx > 0"
    and "averaging s" "p_valid loc" "sg_state s = AO_AVERAGE_CENTER_LOCATION"
  shows "\<exists>r. ao_average_center e mx loc s = Some r \<and> stage_ok mx s (potential mx s) r"
  unfolding ao_average_center_def
proof (rule averaging_stage[OF assms(7,8,3,2)])
  fix s1 assume s1: "kept s s1" "sg_mount s1 = sg_mount s" "p_valid (sg_startingLocation s1)" "p_valid (m_calibrationAveragedLocation s1)"
  obtain a r where a: "p_AngleTo (sg_startingLocation s1) (m_calibrationAveragedLocation s1) = Some a" "ao_rate (mx LEFT - 1 + (mx RIGHT - 1)) s1 = Some r"
    using ao_angle_total[OF s1(3,4)] rate_total[OF s1(3,4), of "mx LEFT - 1 + (mx RIGHT - 1)"] assms(5) unfolding travel_x_def by auto
  let ?s = "s1\<lparr>sg_calibration := (sg_calibration s1)\<lparr>xAngle := a, xRate := r\<rparr>, sg_startingLocation := m_calibrationAveragedLocation s1,
    m_calibrationIterations := 0\<rparr>"
  have k: "kept s ?s" "sg_mount ?s = sg_mount s" "p_valid (sg_startingLocation ?s)" using s1 by (simp_all add: kept_def ao_pos_def)
  have t: "ao_settings mx ?s" using kept_settings[OF k(1)] assms(1) by simp
  have c: "\<not> m_calibrated (sg_mount ?s)" using assms(2) k(2) by simp
  have "m_samplesToAverage ?s = m_samplesToAverage s" using k(1) by (simp add: kept_def)
  then have b: "remaining mx UP ?s + travel_x mx + travel_y mx + m_samplesToAverage ?s \<le> potential mx s"
    using remaining_travel[OF assms(1)] assms(7,9) unfolding kept_remaining[OF k(1)] by (simp add: potential_def Let_def averaging_def)
  obtain q where q: "ao_go_up e mx loc ?s = Some q" "stage_ok mx ?s (potential mx s) q"
    using up_stage[OF t c k(3) assms(4,6,8) b] by blast
  then have "stage_ok mx s (potential mx s) q" using stage_ok_mono[OF _ order_refl k(1,2)] by blast
  then show "\<exists>r. do { a \<leftarrow> p_AngleTo (sg_startingLocation s1) (m_calibrationAveragedLocation s1);
      r \<leftarrow> ao_rate (mx LEFT - 1 + (mx RIGHT - 1)) s1;
      ao_go_up e mx loc (s1\<lparr>sg_calibration := (sg_calibration s1)\<lparr>xAngle := a, xRate := r\<rparr>,
        sg_startingLocation := m_calibrationAveragedLocation s1, m_calibrationIterations := 0\<rparr>) } = Some r \<and> stage_ok mx s (potential mx s) r"
    using a q(1) by simp
qed (use assms(9) in simp)

lemma left_stage:
  assumes "ao_settings mx s" "\<not> m_calibrated (sg_mount s)" "p_valid (sg_startingLocation s)" "\<And>d. 1 \<le> mx d" "travel_x mx > 0" "travel_y mx > 0"
    and "p_valid loc" "remaining mx LEFT s + travel_x mx + 2 * travel_y mx + 2 * m_samplesToAverage s \<le> b"
  shows "\<exists>r. ao_go_left e mx loc s = Some r \<and> stage_ok mx s b r"
proof -
  let ?s = "s\<lparr>sg_state := AO_GO_LEFT\<rparr>"
  have k: "kept s ?s" by (simp add: kept_def ao_pos_def)
  show ?thesis
  proof (cases "remaining mx LEFT ?s > 0")
    case True
    obtain d where d: "step_away loc ?s = Some d" using assms(3,7) by (simp add: step_away_def p_dX_def p_dY_def)
    let ?t = "?s\<lparr>m_calibrationIterations := m_calibrationIterations ?s + 1, sg_raSteps := sg_raSteps ?s @ [d]\<rparr>"
    have kt: "kept s ?t" "sg_state ?t = AO_GO_LEFT" "m_samplesToAverage ?t = m_samplesToAverage s" by (simp_all add: kept_def ao_pos_def)
    have "potential mx ?t \<le> b" using assms(8) kt(2,3) kept_remaining[OF kt(1)] unfolding potential_def by (simp add: Let_def)
    moreover have "calibrating ?t" "forward mx ?t LEFT" using assms(2) True kept_remaining[OF kt(1)] kept_remaining[OF k]
      by (simp_all add: calibrating_def forward_def)
    ultimately have "stage_ok mx s b (?t, [LEFT])" using kt(1) assms(3) by (simp add: stage_ok_def)
    then show ?thesis using True d by (simp add: ao_go_left_def Let_def)
  next
    case False
    let ?t = "start_average AO_AVERAGE_CENTER_LOCATION ?s"
    note f = start_average_facts[where s = ?s and st = AO_AVERAGE_CENTER_LOCATION]
    have kt: "kept s ?t" using k f(1) kept_trans by blast
    have t: "ao_settings mx ?t" using kept_settings[OF kt] assms(1) by simp
    have av: "averaging ?t" using f(6) assms(1) by (simp add: ao_settings_def)
    have m: "sg_mount ?t = sg_mount s" "p_valid (sg_startingLocation ?t)" "\<not> m_calibrated (sg_mount ?t)" using f(2,4) assms(2,3) by simp_all
    obtain r where r: "ao_average_center e mx loc ?t = Some r" "stage_ok mx ?t (potential mx ?t) r"
      using center_stage[OF t m(3,2) assms(4,5,6) av assms(7) f(3)] by blast
    have "m_samplesToAverage ?t = m_samplesToAverage s" using kt by (simp add: kept_def)
    then have "potential mx ?t \<le> b" using assms(8) f(3,5) settings_remaining[OF assms(1), of LEFT] by (simp add: potential_def Let_def)
    then have "stage_ok mx s b r" using stage_ok_mono[OF r(2) _ kt m(1)] by blast
    then show ?thesis using False r(1) by (simp add: ao_go_left_def Let_def)
  qed
qed

lemma starting_stage:
  assumes "ao_settings mx s" "\<not> m_calibrated (sg_mount s)" "p_valid (sg_startingLocation s)" "\<And>d. 1 \<le> mx d" "travel_x mx > 0" "travel_y mx > 0"
    and "averaging s" "p_valid loc" "sg_state s = AO_AVERAGE_STARTING_LOCATION"
  shows "\<exists>r. ao_average_starting e mx loc s = Some r \<and> stage_ok mx s (potential mx s) r"
  unfolding ao_average_starting_def
proof (rule averaging_stage[OF assms(7,8,3,2)])
  fix s1 assume s1: "kept s s1" "sg_mount s1 = sg_mount s" "p_valid (sg_startingLocation s1)" "p_valid (m_calibrationAveragedLocation s1)"
  let ?s = "s1\<lparr>sg_startingLocation := m_calibrationAveragedLocation s1, m_calibrationIterations := 0\<rparr>"
  have k: "kept s ?s" "sg_mount ?s = sg_mount s" "p_valid (sg_startingLocation ?s)" using s1 by (simp_all add: kept_def ao_pos_def)
  have t: "ao_settings mx ?s" using kept_settings[OF k(1)] assms(1) by simp
  have c: "\<not> m_calibrated (sg_mount ?s)" using assms(2) k(2) by simp
  have "m_samplesToAverage ?s = m_samplesToAverage s" using k(1) by (simp add: kept_def)
  then have b: "remaining mx LEFT ?s + travel_x mx + 2 * travel_y mx + 2 * m_samplesToAverage ?s \<le> potential mx s"
    using remaining_travel[OF assms(1)] assms(7,9) unfolding kept_remaining[OF k(1)] by (simp add: potential_def Let_def averaging_def)
  obtain q where q: "ao_go_left e mx loc ?s = Some q" "stage_ok mx ?s (potential mx s) q"
    using left_stage[OF t c k(3) assms(4,5,6,8) b] by blast
  then show "\<exists>r. ao_go_left e mx loc ?s = Some r \<and> stage_ok mx s (potential mx s) r"
    using stage_ok_mono[OF _ order_refl k(1,2)] by blast
qed (use assms(9) in simp)

lemma div_round_up_pos: "0 \<le> r \<Longrightarrow> 1 \<le> k \<Longrightarrow> DIV_ROUND_UP r k > 0 \<longleftrightarrow> r > 0"
proof -
  assume a: "0 \<le> r" "1 \<le> k"
  have "DIV_ROUND_UP r k = (r + k - 1) div k" using a by (simp add: DIV_ROUND_UP_def c_quot_def sgn_if)
  moreover have "(r + k - 1) div k > 0 \<longleftrightarrow> k \<le> r + k - 1" using a by (simp add: pos_imp_zdiv_pos_iff)
  ultimately show ?thesis by simp
qed

lemma corner_stage:
  assumes "ao_settings mx s" "calibrating s" "p_valid (sg_startingLocation s)" "\<And>d. 1 \<le> mx d" "travel_x mx > 0" "travel_y mx > 0"
    and "p_valid loc" "sg_state s = AO_GOTO_LOWER_RIGHT_CORNER"
  shows "\<exists>r. ao_goto_corner e mx loc s = Some r \<and> stage_ok mx s (potential mx s) r"
proof -
  let ?d = "remaining mx DOWN s" and ?r = "remaining mx RIGHT s"
  have nn: "0 \<le> ?d" "0 \<le> ?r" using settings_remaining[OF assms(1)] by simp_all
  have it: "max (iterations mx DOWN s) (iterations mx RIGHT s) > 0 \<longleftrightarrow> ?d > 0 \<or> ?r > 0"
    using div_round_up_pos nn assms(1) by (simp add: iterations_def ao_settings_def less_max_iff_disj)
  show ?thesis
  proof (cases "?d > 0 \<or> ?r > 0")
    case True
    have f: "?d > 0 \<Longrightarrow> forward mx s DOWN" "?r > 0 \<Longrightarrow> forward mx s RIGHT" using assms(8) by (simp_all add: forward_def)
    have "stage_ok mx s (potential mx s) (s, (if ?d > 0 then [DOWN] else []) @ (if ?r > 0 then [RIGHT] else []))"
      using True f assms(2,3) by (auto simp: stage_ok_def)
    then show ?thesis using True it by (simp add: ao_goto_corner_def)
  next
    case False
    let ?t = "start_average AO_AVERAGE_STARTING_LOCATION s"
    note f = start_average_facts[where s = s and st = AO_AVERAGE_STARTING_LOCATION]
    have t: "ao_settings mx ?t" using kept_settings[OF f(1)] assms(1) by simp
    have av: "averaging ?t" using f(6) assms(1) by (simp add: ao_settings_def)
    have m: "p_valid (sg_startingLocation ?t)" "\<not> m_calibrated (sg_mount ?t)" using f(2,4) assms(2,3) by (simp_all add: calibrating_def)
    obtain r where r: "ao_average_starting e mx loc ?t = Some r" "stage_ok mx ?t (potential mx ?t) r"
      using starting_stage[OF t m(2,1) assms(4,5,6) av assms(7) f(3)] by blast
    have "m_samplesToAverage ?t = m_samplesToAverage s" using f(1) by (simp add: kept_def)
    then have "potential mx ?t \<le> potential mx s" using assms(8) nn f(3,5) by (simp add: potential_def Let_def)
    then have "stage_ok mx s (potential mx s) r" using stage_ok_mono[OF r(2) _ f(1,2)] by blast
    then show ?thesis using False it r(1) by (simp add: ao_goto_corner_def)
  qed
qed

text \<open>Every stage completes, and the calibration comes to its end or goes on.\<close>

lemma switch_stage:
  assumes "ao_settings mx s" "calibrating s" "p_valid (sg_startingLocation s)" "\<And>d. 1 \<le> mx d" "travel_x mx > 0" "travel_y mx > 0" "p_valid loc"
  shows "\<exists>r. ao_switch e mx loc s = Some r \<and> stage_ok mx s (potential mx s) r"
proof -
  have c: "\<not> m_calibrated (sg_mount s)" using assms(2) by (simp add: calibrating_def)
  note base = assms(1) c assms(3,4)
  show ?thesis
  proof (cases "sg_state s")
    case AO_GOTO_LOWER_RIGHT_CORNER
    then show ?thesis using corner_stage[OF assms(1-7)] by (simp add: ao_switch_def)
  next
    case AO_AVERAGE_STARTING_LOCATION
    then show ?thesis using starting_stage[OF base assms(5,6) _ assms(7)] assms(2) by (simp add: ao_switch_def calibrating_def)
  next
    case AO_GO_LEFT
    then show ?thesis using left_stage[OF base assms(5-7), of "potential mx s"] by (simp add: ao_switch_def potential_def Let_def)
  next
    case AO_AVERAGE_CENTER_LOCATION
    then show ?thesis using center_stage[OF base assms(5,6) _ assms(7)] assms(2) by (simp add: ao_switch_def calibrating_def)
  next
    case AO_GO_UP
    then show ?thesis using up_stage[OF base assms(6,7), of "potential mx s"] by (simp add: ao_switch_def potential_def Let_def)
  next
    case AO_AVERAGE_ENDING_LOCATION
    then show ?thesis using ending_stage[OF base assms(6) _ assms(7)] assms(2) by (simp add: ao_switch_def calibrating_def)
  next
    case AO_RECENTER
    then show ?thesis using recenter_stage[OF base, of "potential mx s"] by (simp add: ao_switch_def potential_def Let_def)
  qed (use assms(2) in \<open>simp_all add: calibrating_def\<close>)
qed

section \<open>The calibration ends\<close>

definition errors_left :: "StepGuider \<Rightarrow> int" where
  "errors_left s = MAX_CALIBRATION_MOVE_ERRORS + 2 - m_errorCount (sg_mount s)"

definition in_progress :: "(GUIDE_DIRECTION \<Rightarrow> int) \<Rightarrow> StepGuider \<Rightarrow> bool" where
  "in_progress mx s \<longleftrightarrow> ao_settings mx s \<and> calibrating s \<and> m_connected (sg_mount s) \<and> sg_moves s = []"

definition ok_move :: "(GUIDE_DIRECTION \<Rightarrow> int) \<Rightarrow> StepGuider \<Rightarrow> GUIDE_DIRECTION \<times> int \<Rightarrow> bool" where
  "ok_move mx s m \<longleftrightarrow> forward mx s (fst m) \<and> 0 < snd m \<and> snd m \<le> remaining mx (fst m) s \<and> snd m \<le> m_calibrationStepsPerIteration s"

definition across :: "GUIDE_DIRECTION \<times> int \<Rightarrow> GUIDE_DIRECTION \<times> int \<Rightarrow> bool" where
  "across a b \<longleftrightarrow> (fst a \<in> {UP, DOWN}) \<noteq> (fst b \<in> {UP, DOWN})"

lemma shift_fields [simp]:
  "sg_mount (shift d n s) = sg_mount s" "sg_state (shift d n s) = sg_state s" "sg_moves (shift d n s) = sg_moves s"
  "m_samplesToAverage (shift d n s) = m_samplesToAverage s" "m_calibrationStepsPerIteration (shift d n s) = m_calibrationStepsPerIteration s"
  "calibrating (shift d n s) = calibrating s" "samples_left (shift d n s) = samples_left s" "errors_left (shift d n s) = errors_left s"
  by (cases d; simp add: shift_def calibrating_def samples_left_def averaging_def errors_left_def)+

text \<open>A move forward shortens the calibration, stays in the travel, and leaves the other axis alone.\<close>

lemma shift_progress:
  assumes "in_progress mx s" "ok_move mx s (d, n)"
  shows "in_progress mx (shift d n s)" "potential mx (shift d n s) < potential mx s"
proof -
  have "in_travel mx (ao_pos (shift d n s))" using assms
    by (cases d) (auto simp: in_progress_def ao_settings_def in_travel_def ao_pos_def shift_def ok_move_def remaining_def)
  then show "in_progress mx (shift d n s)" using assms(1) by (simp add: in_progress_def ao_settings_def)
  show "potential mx (shift d n s) < potential mx s"
    using assms(2) unfolding potential_def Let_def shift_fields
    by (cases "sg_state s") (auto simp: ok_move_def forward_def shift_def remaining_def)
qed

lemma shift_across: "ok_move mx s (d, n) \<Longrightarrow> across (d, n) m \<Longrightarrow> ok_move mx s m \<Longrightarrow> ok_move mx (shift d n s) m"
  by (cases m; cases d; cases "fst m"; cases "sg_state s") (auto simp: ok_move_def across_def forward_def shift_def remaining_def)

lemma ao_CurrentPosition_mount [simp]: "ao_CurrentPosition d (s\<lparr>sg_mount := m\<rparr>) = ao_CurrentPosition d s"
  by (cases d) simp_all

lemma error_fields [simp]:
  "in_progress mx (s\<lparr>sg_mount := IncrementErrorCount (sg_mount s)\<rparr>) = in_progress mx s"
  "potential mx (s\<lparr>sg_mount := IncrementErrorCount (sg_mount s)\<rparr>) = potential mx s"
  "errors_left (s\<lparr>sg_mount := IncrementErrorCount (sg_mount s)\<rparr>) = errors_left s - 1"
  "ok_move mx (s\<lparr>sg_mount := IncrementErrorCount (sg_mount s)\<rparr>) m = ok_move mx s m"
  by (simp_all add: in_progress_def ao_settings_def ao_pos_def calibrating_def averaging_def samples_left_def IncrementErrorCount_def potential_def
      errors_left_def ok_move_def forward_def remaining_def Let_def split: AO_STATE.splits)

context ao_driver begin

lemma run_moves_progress:
  assumes "in_progress mx s" "\<forall>m\<in>set ms. ok_move mx s m" "sorted_wrt across ms"
  shows "\<exists>lim s1. ao_run_moves drv ms s = Some (lim, s1) \<and> in_travel mx (ao_pos s1) \<and>
    (\<not> lim \<longrightarrow> in_progress mx s1 \<and> potential mx s1 + errors_left s1 + int (length ms) \<le> potential mx s + errors_left s \<and>
       errors_left s - int (length ms) \<le> errors_left s1)"
  using assms
proof (induction ms arbitrary: s)
  case Nil
  then show ?case by (intro exI[of _ False] exI[of _ s]) (simp add: in_progress_def ao_settings_def)
next
  case (Cons m ms)
  obtain d n where m: "m = (d, n)" by (cases m)
  have ok: "ok_move mx s (d, n)" using Cons.prems(2) m by simp
  have tr: "in_travel mx (ao_pos s)" using Cons.prems(1) by (simp add: in_progress_def ao_settings_def)
  have d: "d \<noteq> NONE" "0 < n" "n \<le> remaining mx d s" using ok by (simp_all add: ok_move_def forward_def)
  have nn: "0 \<le> k" if "(c, k) \<in> set ms" for c k using Cons.prems(2) that by (force simp: ok_move_def)
  show ?case
  proof (rule MoveAxis_cases[OF tr d, of MOVEOPTS_CALIBRATION_MOVE])
    assume r: "ao_MoveAxis drv d n MOVEOPTS_CALIBRATION_MOVE s = Some (MOVE_OK, shift d n s)"
    have "\<forall>q\<in>set ms. ok_move mx (shift d n s) q" using Cons.prems(2,3) shift_across[OF ok] m by auto
    then obtain lim s1 where "ao_run_moves drv ms (shift d n s) = Some (lim, s1)" "in_travel mx (ao_pos s1)"
      "\<not> lim \<longrightarrow> in_progress mx s1 \<and> potential mx s1 + errors_left s1 + int (length ms) \<le> potential mx (shift d n s) + errors_left s \<and>
         errors_left s - int (length ms) \<le> errors_left s1"
      using Cons.IH[OF shift_progress(1)[OF Cons.prems(1) ok]] Cons.prems(3) by auto
    then show ?thesis using r m shift_progress(2)[OF Cons.prems(1) ok] by (auto simp: ao_move_complete_def)
  next
    assume r: "ao_MoveAxis drv d n MOVEOPTS_CALIBRATION_MOVE s = Some (MOVE_ERROR, s)"
    let ?s = "s\<lparr>sg_mount := IncrementErrorCount (sg_mount s)\<rparr>"
    obtain lim s1 where "ao_run_moves drv ms ?s = Some (lim, s1)" "in_travel mx (ao_pos s1)"
      "\<not> lim \<longrightarrow> in_progress mx s1 \<and> potential mx s1 + errors_left s1 + int (length ms) \<le> potential mx s + (errors_left s - 1) \<and>
         errors_left s - 1 - int (length ms) \<le> errors_left s1"
      using Cons.IH[of ?s] Cons.prems by auto
    then show ?thesis using r m by (auto simp: ao_move_complete_def)
  next
    fix s1 assume r: "ao_MoveAxis drv d n MOVEOPTS_CALIBRATION_MOVE s = Some (MOVE_ERROR_AO_LIMIT_REACHED, s1)" "ao_moved mx s s1"
    let ?s = "ao_move_complete MOVE_ERROR_AO_LIMIT_REACHED s1"
    have "in_travel mx (ao_pos ?s)" using ao_moved_travel[OF r(2)] by (simp add: ao_move_complete_def ao_pos_def)
    then obtain lim s2 where "ao_run_moves drv ms ?s = Some (lim, s2)" "in_travel mx (ao_pos s2)" using ao_moves_travel[of ?s ms] nn by blast
    then show ?thesis using r(1) m by (intro exI[of _ True] exI[of _ s2]) simp
  qed
qed

text \<open>The moves that a frame schedules, when the errors do not end the calibration.\<close>

lemma frame_moves:
  assumes "in_progress mx s" "p_valid loc" "0 < travel_x mx" "0 < travel_y mx" "m_errorCount (sg_mount s) \<le> MAX_CALIBRATION_MOVE_ERRORS"
  shows "\<exists>s2 ms. ao_UpdateCalibrationState e mx loc s = Some (False, s2\<lparr>sg_moves := ms\<rparr>) \<and> in_travel mx (ao_pos s2) \<and>
    sg_moves s2 = [] \<and> m_connected (sg_mount s2) \<and>
    (m_calibrated (sg_mount s2) \<or>
     in_progress mx s2 \<and> \<not> m_calibrated (sg_mount s2) \<and> sg_mount s2 = sg_mount s \<and> potential mx s2 + (if ms = [] then 1 else 0) \<le> potential mx s \<and>
     (\<forall>m\<in>set ms. ok_move mx s2 m) \<and> sorted_wrt across ms \<and> length ms \<le> 2)"
proof -
  define s0 where "s0 = (if p_valid (sg_startingLocation s) then s else s\<lparr>sg_startingLocation := loc\<rparr>)"
  have k0: "kept s s0" "sg_mount s0 = sg_mount s" "sg_state s0 = sg_state s" "samples_left s0 = samples_left s" "sg_moves s0 = []"
    "averaging s0 = averaging s" "p_valid (sg_startingLocation s0)"
    using assms(1,2) by (simp_all add: s0_def kept_def ao_pos_def samples_left_def averaging_def in_progress_def)
  have st: "ao_settings mx s0" "calibrating s0"
    using assms(1) k0 kept_settings[OF k0(1)] by (simp_all add: in_progress_def calibrating_def)
  have pot: "potential mx s0 = potential mx s"
    using k0(3,4) kept_remaining[OF k0(1)] kept_position[OF k0(1)] k0(1) by (simp add: potential_def kept_def Let_def split: AO_STATE.splits)
  have rem: "0 \<le> remaining mx d s0" if "d \<noteq> NONE" for d using settings_remaining[OF st(1) that] .
  obtain s2 dirs where r: "ao_switch e mx loc s0 = Some (s2, dirs)" "stage_ok mx s0 (potential mx s0) (s2, dirs)"
    using switch_stage[OF st k0(7) room assms(3,4,2), of e] by auto
  let ?ms = "map (\<lambda>d. (d, min (remaining mx d s0) (m_calibrationStepsPerIteration s0))) dirs"
  have k2: "kept s0 s2" "kept s s2" using r(2) k0(1) kept_trans by (auto simp: stage_ok_def)
  have mv: "sg_moves s2 = []" "m_connected (sg_mount s2)" using k2 k0(5) assms(1) k0(2) by (simp_all add: kept_def in_progress_def)
  have "sg_state s2 \<noteq> AO_COMPLETE \<Longrightarrow> \<exists>v. p_DistanceTo (sg_startingLocation s2) loc = Some v"
    using r(2) assms(2) by (auto simp: stage_ok_def p_DistanceTo_def p_dX_def p_dY_def)
  moreover have "m_calibrationStepsPerIteration s0 \<noteq> 0" using st(1) by (simp add: ao_settings_def)
  ultimately have up: "ao_UpdateCalibrationState e mx loc s = Some (False, s2\<lparr>sg_moves := ?ms\<rparr>)"
    using assms(5) rem r(1) mv(1) unfolding ao_UpdateCalibrationState_def s0_def[symmetric] Let_def by auto
  have tr: "in_travel mx (ao_pos s2)" using k2(1) st(1) by (simp add: kept_def ao_settings_def)
  have "in_progress mx s2 \<and> \<not> m_calibrated (sg_mount s2) \<and> sg_mount s2 = sg_mount s \<and> potential mx s2 + (if ?ms = [] then 1 else 0) \<le> potential mx s \<and>
     (\<forall>m\<in>set ?ms. ok_move mx s2 m) \<and> sorted_wrt across ?ms \<and> length ?ms \<le> 2" if nc: "\<not> m_calibrated (sg_mount s2)"
  proof -
    have sk: "calibrating s2" "sg_mount s2 = sg_mount s0" "potential mx s2 \<le> potential mx s0" "dirs = [] \<longrightarrow> potential mx s2 < potential mx s0"
      "dirs \<in> {[], [DOWN], [RIGHT], [DOWN, RIGHT], [LEFT], [UP]}" "\<forall>d\<in>set dirs. forward mx s2 d" using r(2) nc by (auto simp: stage_ok_def)
    have ip: "in_progress mx s2" using sk(1) mv kept_settings[OF k2(1)] st(1) by (simp add: in_progress_def)
    have spi: "m_calibrationStepsPerIteration s2 = m_calibrationStepsPerIteration s0" "1 \<le> m_calibrationStepsPerIteration s0"
      using k2(1) st(1) by (simp_all add: kept_def ao_settings_def)
    have ok: "\<forall>m\<in>set ?ms. ok_move mx s2 m"
      using sk(6) spi kept_remaining[OF k2(1)] by (auto simp: ok_move_def forward_def)
    have ac: "sorted_wrt across ?ms" "length ?ms \<le> 2" using sk(5) by (auto simp: across_def)
    have m: "sg_mount s2 = sg_mount s" using sk(2) k0(2) by simp
    have "potential mx s2 + (if ?ms = [] then 1 else 0) \<le> potential mx s" using sk(3,4) pot by auto
    then show ?thesis using ip nc m ok ac by simp
  qed
  then show ?thesis using up tr mv by blast
qed

text \<open>One frame: the device stays in its travel, and as long as the calibration goes on the potential falls.\<close>

lemma frame_progress:
  assumes "in_progress mx s" "p_valid loc" "0 < travel_x mx" "0 < travel_y mx" "0 \<le> errors_left s"
  shows "\<exists>p s1. ao_cal_frame e (loc, drv) s = Some (p, s1) \<and> in_travel mx (ao_pos s1) \<and> (p = AO_Done \<longrightarrow> Mount_IsCalibrated (sg_mount s1)) \<and>
    (p = AO_Going \<longrightarrow> in_progress mx s1 \<and> 0 \<le> errors_left s1 \<and> potential mx s1 + errors_left s1 < potential mx s + errors_left s)"
proof (cases "m_errorCount (sg_mount s) > MAX_CALIBRATION_MOVE_ERRORS")
  case True
  then have "ao_cal_frame e (loc, drv) s = Some (AO_Failed, ao_ClearCalibration s)"
    by (simp add: ao_cal_frame_def ao_UpdateCalibrationState_def)
  then show ?thesis using assms(1) by (simp add: in_progress_def ao_settings_def ao_ClearCalibration_def ao_pos_def)
next
  case False
  obtain s2 ms where u: "ao_UpdateCalibrationState e mx loc s = Some (False, s2\<lparr>sg_moves := ms\<rparr>)" "in_travel mx (ao_pos s2)"
      "sg_moves s2 = []" "m_connected (sg_mount s2)"
      "m_calibrated (sg_mount s2) \<or>
       in_progress mx s2 \<and> \<not> m_calibrated (sg_mount s2) \<and> sg_mount s2 = sg_mount s \<and> potential mx s2 + (if ms = [] then 1 else 0) \<le> potential mx s \<and>
       (\<forall>m\<in>set ms. ok_move mx s2 m) \<and> sorted_wrt across ms \<and> length ms \<le> 2"
    using frame_moves[OF assms(1-4)] False by (metis not_less)
  show ?thesis
  proof (cases "m_calibrated (sg_mount s2)")
    case True
    then have "ao_cal_frame e (loc, drv) s = Some (AO_Done, s2\<lparr>sg_moves := ms\<rparr>)"
      using u(1,4) by (simp add: ao_cal_frame_def Mount_IsCalibrated_def Mount_IsConnected_def)
    then show ?thesis using True u(2,4) by (simp add: ao_pos_def Mount_IsCalibrated_def Mount_IsConnected_def)
  next
    case nc: False
    then have ip: "in_progress mx s2" "\<forall>m\<in>set ms. ok_move mx s2 m" "sorted_wrt across ms" "length ms \<le> 2"
      "potential mx s2 + (if ms = [] then 1 else 0) \<le> potential mx s" "errors_left s2 = errors_left s" using u(5) by (simp_all add: errors_left_def)
    obtain lim s3 where m: "ao_run_moves drv ms s2 = Some (lim, s3)" "in_travel mx (ao_pos s3)"
      "\<not> lim \<longrightarrow> in_progress mx s3 \<and> potential mx s3 + errors_left s3 + int (length ms) \<le> potential mx s2 + errors_left s2 \<and>
         errors_left s2 - int (length ms) \<le> errors_left s3" using run_moves_progress[OF ip(1-3)] by blast
    have e: "2 \<le> errors_left s" using False by (simp add: errors_left_def)
    have "s2\<lparr>sg_moves := []\<rparr> = s2" using u(3) by simp
    then have f: "ao_cal_frame e (loc, drv) s = Some (if lim then AO_Failed else AO_Going, s3)"
      using u(1) nc m(1) by (simp add: ao_cal_frame_def Mount_IsCalibrated_def)
    show ?thesis
    proof (cases lim)
      case True
      then show ?thesis using f m(2) by simp
    next
      case False
      moreover have "1 \<le> int (length ms) + (if ms = [] then 1 else 0)" by (cases ms) simp_all
      ultimately have "potential mx s3 + errors_left s3 < potential mx s + errors_left s" "0 \<le> errors_left s3" "in_progress mx s3"
        using m(3) ip(4-6) e by auto
      then show ?thesis using f False m(2) by simp
    qed
  qed
qed

text \<open>A device that carries out every step never makes the calibration fail.\<close>

lemma run_moves_steady:
  assumes "in_progress mx s" "\<forall>m\<in>set ms. ok_move mx s m" "sorted_wrt across ms" "\<And>d n. ad_Step drv d n = STEP_OK" "m_guidingEnabled (sg_mount s)"
  shows "\<exists>s1. ao_run_moves drv ms s = Some (False, s1) \<and> sg_mount s1 = sg_mount s"
  using assms(1-3,5)
proof (induction ms arbitrary: s)
  case (Cons m ms)
  obtain d n where m: "m = (d, n)" by (cases m)
  have ok: "ok_move mx s (d, n)" using Cons.prems(2) m by simp
  obtain dir where dir: "step_vector d = Some dir" using ok by (cases d) (auto simp: ok_move_def forward_def)
  have "\<not> WouldHitLimit mx d n s" "0 < n" using ok by (simp_all add: ok_move_def WouldHitLimit_def remaining_def)
  then have r: "ao_MoveAxis drv d n MOVEOPTS_CALIBRATION_MOVE s = Some (MOVE_OK, shift d n s)"
    using dir Cons.prems(4) assms(4) by (simp add: ao_MoveAxis_def ao_MoveAxis_info_def ao_step_def shift_def Let_def)
  have "\<forall>q\<in>set ms. ok_move mx (shift d n s) q" using Cons.prems(2,3) shift_across[OF ok] m by auto
  then show ?case using r m Cons.IH[OF shift_progress(1)[OF Cons.prems(1) ok]] Cons.prems(3,4) by (auto simp: ao_move_complete_def)
qed simp

lemma frame_steady:
  assumes "in_progress mx s" "p_valid loc" "0 < travel_x mx" "0 < travel_y mx" "m_errorCount (sg_mount s) \<le> MAX_CALIBRATION_MOVE_ERRORS"
    and "\<And>d n. ad_Step drv d n = STEP_OK" "m_guidingEnabled (sg_mount s)" "ao_cal_frame e (loc, drv) s = Some (p, s1)"
  shows "p \<noteq> AO_Failed \<and> (p = AO_Going \<longrightarrow> sg_mount s1 = sg_mount s)"
proof -
  obtain s2 ms where u: "ao_UpdateCalibrationState e mx loc s = Some (False, s2\<lparr>sg_moves := ms\<rparr>)" "in_travel mx (ao_pos s2)"
      "sg_moves s2 = []" "m_connected (sg_mount s2)"
      "m_calibrated (sg_mount s2) \<or>
       in_progress mx s2 \<and> \<not> m_calibrated (sg_mount s2) \<and> sg_mount s2 = sg_mount s \<and> potential mx s2 + (if ms = [] then 1 else 0) \<le> potential mx s \<and>
       (\<forall>m\<in>set ms. ok_move mx s2 m) \<and> sorted_wrt across ms \<and> length ms \<le> 2"
    using frame_moves[OF assms(1-5)] by blast
  show ?thesis
  proof (cases "m_calibrated (sg_mount s2)")
    case True
    then show ?thesis using assms(8) u(1,4) by (auto simp: ao_cal_frame_def Mount_IsCalibrated_def Mount_IsConnected_def)
  next
    case False
    then have m: "in_progress mx s2" "\<forall>m\<in>set ms. ok_move mx s2 m" "sorted_wrt across ms" "sg_mount s2 = sg_mount s" using u(5) by simp_all
    then obtain s3 where "ao_run_moves drv ms s2 = Some (False, s3)" "sg_mount s3 = sg_mount s"
      using run_moves_steady[OF m(1-3) assms(6)] assms(7) by auto
    moreover have "s2\<lparr>sg_moves := []\<rparr> = s2" using u(3) by simp
    ultimately have "ao_cal_frame e (loc, drv) s = Some (AO_Going, s3)" "sg_mount s3 = sg_mount s"
      using u(1) False by (simp_all add: ao_cal_frame_def Mount_IsCalibrated_def)
    then show ?thesis using assms(8) by simp
  qed
qed

end

lemma potential_nonneg:
  assumes "in_progress mx s" "\<And>d. 1 \<le> mx d"
  shows "0 \<le> potential mx s"
proof -
  have "0 \<le> remaining mx d s" if "d \<noteq> NONE" for d using settings_remaining[OF _ that] assms(1) by (simp add: in_progress_def)
  moreover have "0 \<le> travel_x mx" "0 \<le> travel_y mx" using assms(2)[of LEFT] assms(2)[of RIGHT] assms(2)[of UP] assms(2)[of DOWN]
    by (simp_all add: travel_x_def travel_y_def)
  ultimately show ?thesis using assms(1)
    by (cases "sg_state s") (auto simp: potential_def Let_def in_progress_def ao_settings_def calibrating_def averaging_def)
qed

text \<open>A frame of a calibration: the position of the star, and a driver with the contract and the ranges of the device.\<close>

definition ao_frames_ok :: "(GUIDE_DIRECTION \<Rightarrow> int) \<Rightarrow> (PHD_Point \<times> AoDriver) list \<Rightarrow> bool" where
  "ao_frames_ok mx fs \<longleftrightarrow> (\<forall>(loc, drv)\<in>set fs. p_valid loc \<and> ad_MaxPosition drv = mx \<and> ao_driver drv)"

lemma run_progress:
  assumes "in_progress mx s" "0 \<le> errors_left s" "0 < travel_x mx" "0 < travel_y mx" "ao_frames_ok mx fs"
  shows "\<exists>p s1. ao_cal_run e fs s = Some (p, s1) \<and> in_travel mx (ao_pos s1) \<and> (p = AO_Done \<longrightarrow> Mount_IsCalibrated (sg_mount s1)) \<and>
    (p = AO_Going \<longrightarrow> in_progress mx s1 \<and> 0 \<le> errors_left s1 \<and> potential mx s1 + errors_left s1 + int (length fs) \<le> potential mx s + errors_left s)"
  using assms(1,2,5)
proof (induction fs arbitrary: s)
  case Nil
  then show ?case by (simp add: in_progress_def ao_settings_def)
next
  case (Cons f fs)
  obtain loc drv where f: "f = (loc, drv)" by (cases f)
  have d: "ao_driver drv" "p_valid loc" and mx: "ad_MaxPosition drv = mx" and fs: "ao_frames_ok mx fs"
    using Cons.prems(3) f by (auto simp: ao_frames_ok_def)
  obtain p s1 where p: "ao_cal_frame e (loc, drv) s = Some (p, s1)" "in_travel mx (ao_pos s1)" "p = AO_Done \<longrightarrow> Mount_IsCalibrated (sg_mount s1)"
    "p = AO_Going \<longrightarrow> in_progress mx s1 \<and> 0 \<le> errors_left s1 \<and> potential mx s1 + errors_left s1 < potential mx s + errors_left s"
    using ao_driver.frame_progress[OF d(1), unfolded mx, OF Cons.prems(1) d(2) assms(3,4) Cons.prems(2)] by blast
  show ?case
  proof (cases "p = AO_Going")
    case True
    then have g: "in_progress mx s1" "0 \<le> errors_left s1" "potential mx s1 + errors_left s1 < potential mx s + errors_left s" using p(4) by simp_all
    obtain q s2 where "ao_cal_run e fs s1 = Some (q, s2)" "in_travel mx (ao_pos s2)" "q = AO_Done \<longrightarrow> Mount_IsCalibrated (sg_mount s2)"
      "q = AO_Going \<longrightarrow> in_progress mx s2 \<and> 0 \<le> errors_left s2 \<and> potential mx s2 + errors_left s2 + int (length fs) \<le> potential mx s1 + errors_left s1"
      using Cons.IH[OF g(1,2) fs] by blast
    then show ?thesis using p(1) True f g(3) by auto
  next
    case False
    then show ?thesis using p(1-3) f by simp
  qed
qed

text \<open>With drivers that carry out every step it does not fail.\<close>

definition steady_frames :: "(PHD_Point \<times> AoDriver) list \<Rightarrow> bool" where
  "steady_frames fs \<longleftrightarrow> (\<forall>f\<in>set fs. \<forall>d n. ad_Step (snd f) d n = STEP_OK)"

lemma run_steady:
  assumes "in_progress mx s" "m_errorCount (sg_mount s) \<le> MAX_CALIBRATION_MOVE_ERRORS" "0 < travel_x mx" "0 < travel_y mx" "ao_frames_ok mx fs"
    and "steady_frames fs" "m_guidingEnabled (sg_mount s)" "ao_cal_run e fs s = Some (p, s1)"
  shows "p \<noteq> AO_Failed"
  using assms(1,2,5-8)
proof (induction fs arbitrary: s)
  case (Cons f fs)
  obtain loc drv where f: "f = (loc, drv)" by (cases f)
  have d: "ao_driver drv" "p_valid loc" and mx: "ad_MaxPosition drv = mx" and fs: "ao_frames_ok mx fs"
    using Cons.prems(3) f by (auto simp: ao_frames_ok_def)
  have st: "ad_Step drv c n = STEP_OK" "steady_frames fs" for c n using Cons.prems(4) f by (simp_all add: steady_frames_def)
  have "0 \<le> errors_left s" using Cons.prems(2) by (simp add: errors_left_def)
  then obtain q s2 where q: "ao_cal_frame e (loc, drv) s = Some (q, s2)" "q = AO_Going \<longrightarrow> in_progress mx s2"
    using ao_driver.frame_progress[OF d(1), unfolded mx, OF Cons.prems(1) d(2) assms(3,4)] by blast
  have s: "q \<noteq> AO_Failed" "q = AO_Going \<longrightarrow> sg_mount s2 = sg_mount s"
    using ao_driver.frame_steady[OF d(1), unfolded mx, OF Cons.prems(1) d(2) assms(3,4) Cons.prems(2) st(1) Cons.prems(5) q(1)] by blast+
  show ?case
  proof (cases "q = AO_Going")
    case True
    then show ?thesis using Cons.IH[of s2] Cons.prems(2,5,6) q fs st(2) s(2) f by simp
  next
    case False
    then show ?thesis using Cons.prems(6) q(1) s(1) f by simp
  qed
qed simp

section \<open>The simulator of the device\<close>

definition sim_driver :: "int \<Rightarrow> AoDriver" where
  "sim_driver max_position = \<lparr>ad_Step = (\<lambda>d n. STEP_OK), ad_Center = (\<lambda>p. (False, 0, 0)), ad_MaxPosition = (\<lambda>d. max_position)\<rparr>"

lemma sim_driver_contract: "1 \<le> n \<Longrightarrow> ao_driver (sim_driver n)"
  by unfold_locales (simp_all add: sim_driver_def in_travel_def)

interpretation sim_ao: ao_driver "sim_driver 45"
  by (rule sim_driver_contract) simp

section \<open>What a move changes\<close>

definition moved_only :: "StepGuider \<Rightarrow> StepGuider \<Rightarrow> bool" where
  "moved_only s s1 \<longleftrightarrow> (\<exists>f x y. s1 = s\<lparr>m_failedStep := f, m_xOffset := x, m_yOffset := y\<rparr>)"

lemma moved_only_refl [simp]: "moved_only s s"
  unfolding moved_only_def by (intro exI[of _ "m_failedStep s"] exI[of _ "m_xOffset s"] exI[of _ "m_yOffset s"]) simp

lemma moved_only_trans: "moved_only s s1 \<Longrightarrow> moved_only s1 s2 \<Longrightarrow> moved_only s s2"
proof -
  assume "moved_only s s1" "moved_only s1 s2"
  then obtain f x y g u v where "s1 = s\<lparr>m_failedStep := f, m_xOffset := x, m_yOffset := y\<rparr>"
    "s2 = s1\<lparr>m_failedStep := g, m_xOffset := u, m_yOffset := v\<rparr>" unfolding moved_only_def by blast
  then show ?thesis unfolding moved_only_def by (intro exI[of _ g] exI[of _ u] exI[of _ v]) simp
qed

lemma moved_only_fields: "moved_only s s1 \<Longrightarrow> sg_bumps s1 = sg_bumps s \<and> sg_mount s1 = sg_mount s"
  by (auto simp: moved_only_def)

lemma ao_step_moved: "moved_only s (snd (snd (ao_step drv d dir n s)))"
proof (cases "ad_Step drv d n")
  case STEP_OK
  then show ?thesis unfolding moved_only_def
    by (intro exI[of _ "m_failedStep s"] exI[of _ "m_xOffset s + fst dir * n"] exI[of _ "m_yOffset s + snd dir * n"]) (simp add: ao_step_def)
next
  case STEP_LIMIT_REACHED
  obtain err x y where "ad_Center drv (m_xOffset s, m_yOffset s) = (err, x, y)" by (metis prod_cases3)
  then show ?thesis using STEP_LIMIT_REACHED unfolding moved_only_def
    by (intro exI[of _ "(m_xOffset s, m_yOffset s, fst dir * n, snd dir * n)"] exI[of _ x] exI[of _ y]) (simp add: ao_step_def)
qed (simp add: ao_step_def)

lemma MoveAxis_info_moved: "ao_MoveAxis_info drv d n opts s = Some (r, info, s1) \<Longrightarrow> moved_only s s1"
  using ao_step_moved[of s drv d] unfolding ao_MoveAxis_info_def Let_def
  by (auto split: if_splits option.splits prod.splits) (metis snd_conv)+

lemma move_axes_moved:
  assumes "ao_move_axes drv mi ofs opts xd yd g = Some (r, g1)"
  shows "moved_only (am_ao g) (am_ao g1)"
proof -
  obtain rx xi s1 r2 yi s2 where x: "ao_MoveAxis_info drv (x_direction xd) (requested_amount (mi_bad mi) xd (m_xRate (sg_mount (am_ao g)))) opts (am_ao g) = Some (rx, xi, s1)"
    and y: "(if rx \<noteq> MOVE_ERROR_SLEWING \<and> rx \<noteq> MOVE_ERROR_AO_LIMIT_REACHED
             then ao_MoveAxis_info drv (y_direction yd) (requested_amount (mi_bad mi) yd (yRate (m_cal (sg_mount s1)))) opts s1
             else Some (rx, \<lparr>amountMoved = 0, limited = False\<rparr>, s1)) = Some (r2, yi, s2)" and "am_ao g1 = s2"
    using assms unfolding ao_move_axes_def by (auto split: Option.bind_splits)
  moreover have "moved_only s1 s2" using y MoveAxis_info_moved by (auto split: if_splits)
  ultimately show ?thesis using moved_only_trans[OF MoveAxis_info_moved[OF x]] by simp
qed

text \<open>\<open>Mount::MoveOffset\<close> stops before the moves, or makes them; the offset in camera coordinates stays.\<close>

lemma Mount_MoveOffset_cases:
  assumes "ao_Mount_MoveOffset xo yo drv mi ofs opts g = Some (r, ofs1, g1)"
  shows "cameraOfs ofs1 = cameraOfs ofs"
    and "am_ao g1 = am_ao g \<or> (\<exists>o2 xd yd g0. am_ao g0 = am_ao g \<and> ao_move_axes drv mi o2 opts xd yd g0 = Some (r, g1))"
  using assms unfolding ao_Mount_MoveOffset_def Let_def
  by (auto split: if_splits prod.splits Option.bind_splits intro: exI[of _ "g\<lparr>am_x := a, am_y := b\<rparr>" for a b])

lemma Mount_MoveOffset_moved:
  "ao_Mount_MoveOffset xo yo drv mi ofs opts g = Some (r, ofs1, g1) \<Longrightarrow> moved_only (am_ao g) (am_ao g1)"
  using Mount_MoveOffset_cases(2)[of xo yo drv mi ofs opts g r ofs1 g1] move_axes_moved moved_only_refl by metis

lemma consider_bump_moves [simp]: "ao_pos (consider_bump be busy s) = ao_pos s" "sg_bumps (consider_bump be busy s) = sg_bumps s"
  by (simp_all add: consider_bump_def Let_def grow_weight_def shrink_weight_def ao_pos_def)

lemma track_offset_moves [simp]: "ao_pos (track_offset s) = ao_pos s" "sg_bumps (track_offset s) = sg_bumps s"
  by (simp_all add: track_offset_def Let_def ao_pos_def)

text \<open>After the base class only the state of the bumps changes, and at most one bump is scheduled.\<close>

lemma ao_MoveOffset_cases:
  assumes "ao_MoveOffset xo yo drv mi be ofs opts g = Some (r, ofs1, g1)"
  obtains r0 g0 where "ao_Mount_MoveOffset xo yo drv mi ofs opts g = Some (r0, ofs1, g0)" "ao_pos (am_ao g1) = ao_pos (am_ao g0)"
    "sg_bumps (am_ao g1) = sg_bumps (am_ao g0) \<or>
     (\<exists>g2. ao_bump be ofs1 g2 = Some g1 \<and> sg_bumps (am_ao g2) = sg_bumps (am_ao g0) \<and> m_bumpInProgress (am_ao g2) \<and>
       (\<exists>c. be_secondary be = Some (False, c)))"
proof -
  obtain r0 g0 where m: "ao_Mount_MoveOffset xo yo drv mi ofs opts g = Some (r0, ofs1, g0)"
    using assms unfolding ao_MoveOffset_def Let_def by (auto split: Option.bind_splits if_splits)
  let ?s1 = "track_offset (am_ao g0)"
  let ?busy = "case be_secondary be of None \<Rightarrow> False | Some (b, c) \<Rightarrow> b" and ?con = "case be_secondary be of None \<Rightarrow> False | Some (b, c) \<Rightarrow> c"
  let ?s2 = "if opt_set opts MOVEOPT_ALGO_RESULT \<and> ?con then consider_bump be ?busy ?s1 else ?s1"
  let ?g2 = "g0\<lparr>am_ao := ?s2\<rparr>"
  have kept: "ao_pos ?s2 = ao_pos (am_ao g0)" "sg_bumps ?s2 = sg_bumps (am_ao g0)" by simp_all
  consider "g1 = g0" | "g1 = ?g2" | b where "be_secondary be = Some b" "\<not> ?busy" "m_bumpInProgress ?s2" "ao_bump be ofs1 ?g2 = Some g1"
    using assms m unfolding ao_MoveOffset_def Let_def by (auto split: Option.bind_splits if_splits)
  then show ?thesis
  proof cases
    case (3 b)
    have "ao_pos (am_ao g1) = ao_pos (am_ao ?g2)" using 3(4) unfolding ao_bump_def by (auto simp: ao_pos_def split: Option.bind_splits)
    moreover have "\<exists>c. be_secondary be = Some (False, c)" using 3(1,2) by (cases b) auto
    moreover have "am_ao ?g2 = ?s2" by simp
    moreover have "sg_bumps (am_ao ?g2) = sg_bumps (am_ao g0)" "m_bumpInProgress (am_ao ?g2)" "ao_pos (am_ao ?g2) = ao_pos (am_ao g0)"
      using kept 3(3) by (simp_all only: calculation(3))
    ultimately show ?thesis using that[OF m] 3(4) by metis
  qed (use that[OF m] kept in auto)
qed

section \<open>Everything that moves the device\<close>

text \<open>The requests of the worker thread, the guider and the driver.\<close>

datatype AoEvent =
  AE_MoveAxis GUIDE_DIRECTION int "32 word" | AE_MoveOffset MoveInput BumpEnv GuiderOffset "32 word" | AE_GuidingStopped | AE_GuidingResumed
| AE_GuidingDithered real real bool | AE_Center | AE_ForceStartBump | AE_BeginCalibration PHD_Point | AE_CalibrationFrame AoEnv PHD_Point

definition ao_event :: "'x AlgoOps \<Rightarrow> 'y AlgoOps \<Rightarrow> AoDriver \<Rightarrow> AoEvent \<Rightarrow> ('x, 'y) AoMount \<Rightarrow> ('x, 'y) AoMount option" where
  "ao_event xo yo drv ev g = (case ev of
     AE_MoveAxis d n opts \<Rightarrow> map_option (\<lambda>(r, s). g\<lparr>am_ao := s\<rparr>) (ao_MoveAxis drv d n opts (am_ao g))
   | AE_MoveOffset mi be ofs opts \<Rightarrow> map_option (\<lambda>(r, o1, g1). g1) (ao_MoveOffset xo yo drv mi be ofs opts g)
   | AE_GuidingStopped \<Rightarrow> map_option (\<lambda>s. g\<lparr>am_ao := s\<rparr>) (ao_NotifyGuidingStopped drv (am_ao g))
   | AE_GuidingResumed \<Rightarrow> Some (ao_NotifyGuidingResumed xo yo g)
   | AE_GuidingDithered dx dy mc \<Rightarrow> Some (ao_NotifyGuidingDithered xo yo dx dy mc g)
   | AE_Center \<Rightarrow> (let (err, x, y) = ad_Center drv (ao_pos (am_ao g)) in Some (g\<lparr>am_ao := (am_ao g)\<lparr>m_xOffset := x, m_yOffset := y\<rparr>\<rparr>))
   | AE_ForceStartBump \<Rightarrow> Some (g\<lparr>am_ao := ForceStartBump (am_ao g)\<rparr>)
   | AE_BeginCalibration loc \<Rightarrow> Some (g\<lparr>am_ao := snd (ao_BeginCalibration loc (am_ao g))\<rparr>)
   | AE_CalibrationFrame e loc \<Rightarrow> map_option (\<lambda>(err, s). g\<lparr>am_ao := s\<rparr>) (ao_UpdateCalibrationState e (ad_MaxPosition drv) loc (am_ao g)))"

inductive ao_reach :: "'x AlgoOps \<Rightarrow> 'y AlgoOps \<Rightarrow> AoDriver \<Rightarrow> ('x, 'y) AoMount \<Rightarrow> ('x, 'y) AoMount \<Rightarrow> bool"
  for xo yo drv g where
  start: "ao_reach xo yo drv g g"
| event: "ao_reach xo yo drv g g1 \<Longrightarrow> ao_event xo yo drv ev g1 = Some g2 \<Longrightarrow> ao_reach xo yo drv g g2"

text \<open>The calibration schedules moves and does not move the device itself.\<close>

lemma ao_average_pos: "ao_average loc s = Some (fin, s1) \<Longrightarrow> ao_pos s1 = ao_pos s"
  by (auto simp: ao_average_def Let_def ao_pos_def split: Option.bind_splits if_splits)

lemma start_average_pos [simp]: "ao_pos (start_average st s) = ao_pos s"
  by (simp add: start_average_def ao_pos_def)

lemma ao_recenter_pos: "ao_recenter e s = (s1, ds) \<Longrightarrow> ao_pos s1 = ao_pos s"
  by (auto simp: ao_recenter_def Let_def ao_complete_def ao_SetCalibrationDetails_def ao_SetCalibration_def ao_pos_def split: if_splits)

lemma ao_average_ending_pos: "ao_average_ending e mx loc s = Some (s1, ds) \<Longrightarrow> ao_pos s1 = ao_pos s"
  unfolding ao_average_ending_def
  by (auto simp: ao_pos_def dest!: ao_average_pos ao_recenter_pos split: Option.bind_splits if_splits)

lemma ao_go_up_pos: "ao_go_up e mx loc s = Some (s1, ds) \<Longrightarrow> ao_pos s1 = ao_pos s"
  unfolding ao_go_up_def Let_def
  by (auto dest!: ao_average_ending_pos split: if_splits) (simp_all add: ao_pos_def)

lemma ao_average_center_pos: "ao_average_center e mx loc s = Some (s1, ds) \<Longrightarrow> ao_pos s1 = ao_pos s"
  unfolding ao_average_center_def
  by (auto dest!: ao_average_pos ao_go_up_pos split: Option.bind_splits if_splits) (simp_all add: ao_pos_def)

lemma ao_go_left_pos: "ao_go_left e mx loc s = Some (s1, ds) \<Longrightarrow> ao_pos s1 = ao_pos s"
  unfolding ao_go_left_def Let_def
  by (auto dest!: ao_average_center_pos split: if_splits) (simp_all add: ao_pos_def)

lemma ao_average_starting_pos: "ao_average_starting e mx loc s = Some (s1, ds) \<Longrightarrow> ao_pos s1 = ao_pos s"
  unfolding ao_average_starting_def
  by (auto dest!: ao_average_pos ao_go_left_pos split: Option.bind_splits if_splits) (simp_all add: ao_pos_def)

lemma ao_switch_pos: "ao_switch e mx loc s = Some (s1, ds) \<Longrightarrow> ao_pos s1 = ao_pos s"
  unfolding ao_switch_def
  by (auto simp: ao_goto_corner_def ao_complete_def ao_SetCalibrationDetails_def ao_SetCalibration_def Let_def
      dest: ao_average_starting_pos ao_go_left_pos ao_average_center_pos ao_go_up_pos ao_average_ending_pos ao_recenter_pos
      split: AO_STATE.splits if_splits) (auto simp: ao_pos_def dest: ao_average_starting_pos)

lemma UpdateCalibrationState_pos: "ao_UpdateCalibrationState e mx loc s = Some (err, s1) \<Longrightarrow> ao_pos s1 = ao_pos s"
  unfolding ao_UpdateCalibrationState_def Let_def
  by (auto dest!: ao_switch_pos split: if_splits Option.bind_splits) (simp_all add: ao_pos_def ao_ClearCalibration_def)

context ao_driver begin

lemma MoveToCenter_total:
  assumes "in_travel mx (ao_pos s)"
  shows "\<exists>err s1. MoveToCenter drv s = Some (err, s1) \<and> in_travel mx (ao_pos s1) \<and> (\<not> err \<longrightarrow> ao_pos s1 = (0, 0))"
proof -
  obtain e1 s1 where c1: "center_axis drv UP DOWN s = Some (e1, s1)" "ao_moved mx s s1" using center_axis_travel[OF assms] by blast
  have t1: "in_travel mx (ao_pos s1)" by (rule ao_moved_travel[OF c1(2)])
  obtain e2 s2 where c2: "center_axis drv LEFT RIGHT s1 = Some (e2, s2)" "ao_moved mx s1 s2" using center_axis_travel[OF t1] by blast
  have t2: "in_travel mx (ao_pos s2)" by (rule ao_moved_travel[OF c2(2)])
  show ?thesis
  proof (cases "e1 \<or> e2")
    case True
    then show ?thesis using c1(1) c2(1) t1 t2 by (intro exI[of _ True]) (cases e1; simp add: MoveToCenter_def)
  next
    case False
    have "m_yOffset s1 = 0" using center_axis_zero[OF assms, of UP DOWN s1] c1(1) False by simp
    moreover have "ao_CurrentPosition LEFT s2 = 0" "\<forall>q. q \<noteq> LEFT \<and> q \<noteq> RIGHT \<longrightarrow> ao_CurrentPosition q s2 = ao_CurrentPosition q s1"
      using center_axis_zero[OF t1, of LEFT RIGHT s2] c2(1) False by simp_all
    ultimately have "m_xOffset s2 = 0" "m_yOffset s2 = 0" by (auto dest: spec[of _ UP])
    then show ?thesis using False c1(1) c2(1) t2 by (intro exI[of _ False]) (simp add: MoveToCenter_def ao_pos_def)
  qed
qed

lemma move_axes_travel:
  assumes "in_travel mx (ao_pos (am_ao g))" "ao_move_axes drv mi ofs opts xd yd g = Some (r, g1)"
  shows "in_travel mx (ao_pos (am_ao g1))"
proof -
  obtain rx xi s1 r2 yi s2 where x: "ao_MoveAxis_info drv (x_direction xd) (requested_amount (mi_bad mi) xd (m_xRate (sg_mount (am_ao g)))) opts (am_ao g) = Some (rx, xi, s1)"
    and y: "(if rx \<noteq> MOVE_ERROR_SLEWING \<and> rx \<noteq> MOVE_ERROR_AO_LIMIT_REACHED
             then ao_MoveAxis_info drv (y_direction yd) (requested_amount (mi_bad mi) yd (yRate (m_cal (sg_mount s1)))) opts s1
             else Some (rx, \<lparr>amountMoved = 0, limited = False\<rparr>, s1)) = Some (r2, yi, s2)" and "am_ao g1 = s2"
    using assms(2) unfolding ao_move_axes_def by (auto split: Option.bind_splits)
  moreover have "in_travel mx (ao_pos s1)" by (rule MoveAxis_info_moved_travel[OF assms(1) x])
  ultimately show ?thesis using MoveAxis_info_moved_travel by (auto split: if_splits)
qed

lemma MoveOffset_travel:
  assumes "in_travel mx (ao_pos (am_ao g))" "ao_MoveOffset xo yo drv mi be ofs opts g = Some (r, ofs1, g1)"
  shows "in_travel mx (ao_pos (am_ao g1))"
proof -
  obtain r0 g0 where m: "ao_Mount_MoveOffset xo yo drv mi ofs opts g = Some (r0, ofs1, g0)" "ao_pos (am_ao g1) = ao_pos (am_ao g0)"
    using ao_MoveOffset_cases[OF assms(2)] by blast
  from Mount_MoveOffset_cases(2)[OF m(1)] show ?thesis
  proof
    assume "am_ao g0 = am_ao g"
    then show ?thesis using assms(1) m(2) by simp
  next
    assume "\<exists>o2 xd yd g2. am_ao g2 = am_ao g \<and> ao_move_axes drv mi o2 opts xd yd g2 = Some (r0, g0)"
    then show ?thesis using move_axes_travel assms(1) m(2) by metis
  qed
qed

lemma event_travel:
  assumes "in_travel mx (ao_pos (am_ao g))" "ao_event xo yo drv ev g = Some g1"
  shows "in_travel mx (ao_pos (am_ao g1))"
proof (cases ev)
  case (AE_MoveAxis d n opts)
  then obtain r s where m: "ao_MoveAxis drv d n opts (am_ao g) = Some (r, s)" "am_ao g1 = s" using assms(2) by (auto simp: ao_event_def)
  then obtain r0 i where "ao_MoveAxis_info drv d n opts (am_ao g) = Some (r0, i, s)"
    unfolding ao_MoveAxis_def by (auto split: Option.bind_splits)
  then show ?thesis using MoveAxis_info_moved_travel[OF assms(1)] m(2) by blast
next
  case (AE_MoveOffset mi be ofs opts)
  then obtain r o1 where "ao_MoveOffset xo yo drv mi be ofs opts g = Some (r, o1, g1)" using assms(2) by (auto simp: ao_event_def)
  then show ?thesis by (rule MoveOffset_travel[OF assms(1)])
next
  case AE_GuidingStopped
  let ?s = "(am_ao g)\<lparr>m_avgOffset := p_Invalidate (m_avgOffset (am_ao g)), m_forceStartBump := False, m_bumpInProgress := False,
          m_bumpStepWeight := 1, m_bumpTimeoutAlertSent := False\<rparr>"
  have "in_travel mx (ao_pos ?s)" using assms(1) by (simp add: ao_pos_def)
  then show ?thesis using MoveToCenter_total[of ?s] assms(2) AE_GuidingStopped by (auto simp: ao_event_def ao_NotifyGuidingStopped_def)
next
  case AE_Center
  then show ?thesis using assms center[OF assms(1)] by (auto simp: ao_event_def ao_pos_def split: prod.splits)
next
  case (AE_CalibrationFrame e loc)
  then obtain err s where "ao_UpdateCalibrationState e mx loc (am_ao g) = Some (err, s)" "am_ao g1 = s" using assms(2) by (auto simp: ao_event_def)
  then show ?thesis using UpdateCalibrationState_pos assms(1) by simp
qed (use assms in \<open>auto simp: ao_event_def ao_notify_algos_def ao_NotifyGuidingResumed_def ao_NotifyGuidingDithered_def ForceStartBump_def
       ao_BeginCalibration_def ao_ClearCalibration_def Let_def ao_pos_def split: prod.splits if_splits\<close>)

lemma reach_travel: "ao_reach xo yo drv g g1 \<Longrightarrow> in_travel mx (ao_pos (am_ao g)) \<Longrightarrow> in_travel mx (ao_pos (am_ao g1))"
  by (induction rule: ao_reach.induct) (auto intro: event_travel)

end

section \<open>Properties\<close>

text \<open>The most frames that a calibration takes: three times round the travel, three averages, and the errors.\<close>

definition ao_frame_bound :: "(GUIDE_DIRECTION \<Rightarrow> int) \<Rightarrow> StepGuider \<Rightarrow> int" where
  "ao_frame_bound mx s = 3 * (travel_x mx + travel_y mx) + 3 * m_samplesToAverage s + MAX_CALIBRATION_MOVE_ERRORS + 2"

lemma begin_in_progress:
  assumes "ao_BeginCalibration loc s = (False, s1)" "ao_settings mx s" "sg_moves s = []" "0 \<le> m_errorCount (sg_mount s)"
  shows "in_progress mx s1" "potential mx s1 + errors_left s1 \<le> ao_frame_bound mx s" "m_errorCount (sg_mount s1) = m_errorCount (sg_mount s)"
    "m_guidingEnabled (sg_mount s1) = m_guidingEnabled (sg_mount s)"
proof -
  have s1: "s1 = (ao_ClearCalibration s)\<lparr>sg_state := AO_GOTO_LOWER_RIGHT_CORNER, sg_startingLocation := p_Invalidate (sg_startingLocation s),
       sg_raSteps := [], sg_decSteps := [], sg_details := (sg_details s)\<lparr>lastIssue := CI_None\<rparr>\<rparr>" and c: "m_connected (sg_mount s)"
    using assms(1) by (auto simp: ao_BeginCalibration_def ao_ClearCalibration_def Mount_IsConnected_def Let_def split: if_splits)
  show "m_errorCount (sg_mount s1) = m_errorCount (sg_mount s)" "m_guidingEnabled (sg_mount s1) = m_guidingEnabled (sg_mount s)"
    by (simp_all add: s1 ao_ClearCalibration_def Mount_ClearCalibration_def)
  show "in_progress mx s1" using assms(2,3) c
    by (simp add: s1 in_progress_def ao_settings_def calibrating_def ao_ClearCalibration_def Mount_ClearCalibration_def ao_pos_def)
  show "potential mx s1 + errors_left s1 \<le> ao_frame_bound mx s" using assms(2,4)
    by (simp add: s1 potential_def errors_left_def ao_frame_bound_def ao_ClearCalibration_def Mount_ClearCalibration_def Let_def remaining_def
        ao_settings_def in_travel_def ao_pos_def travel_x_def travel_y_def)
qed

text \<open>C7: ao_calibration_ends.  A calibration of an adaptive optics device that is within its travel ends within a
number of frames given by the travel and the samples to average, whatever the star does and however the
device fails its steps: it is calibrated or has failed, no assertion is hit on the way, and the device is
still within its travel.  With a device that carries out its steps, and guiding enabled, it is calibrated.\<close>

theorem ao_calibration_ends:
  assumes "ao_BeginCalibration loc s = (False, s1)" "ao_settings mx s" "sg_moves s = []"
    and "0 \<le> m_errorCount (sg_mount s)" "m_errorCount (sg_mount s) \<le> MAX_CALIBRATION_MOVE_ERRORS"
    and "0 < travel_x mx" "0 < travel_y mx" "ao_frames_ok mx fs" "fs \<noteq> []" "ao_frame_bound mx s < int (length fs)"
  shows "\<exists>p s2. ao_cal_run e fs s1 = Some (p, s2) \<and> in_travel mx (ao_pos s2) \<and>
    (p = AO_Done \<and> Mount_IsCalibrated (sg_mount s2) \<or> p = AO_Failed \<and> \<not> (steady_frames fs \<and> m_guidingEnabled (sg_mount s)))"
proof -
  note b = begin_in_progress[OF assms(1-4)]
  have e: "0 \<le> errors_left s1" using assms(5) b(3) by (simp add: errors_left_def)
  obtain p s2 where r: "ao_cal_run e fs s1 = Some (p, s2)" "in_travel mx (ao_pos s2)" "p = AO_Done \<longrightarrow> Mount_IsCalibrated (sg_mount s2)"
    "p = AO_Going \<longrightarrow> in_progress mx s2 \<and> 0 \<le> errors_left s2 \<and> potential mx s2 + errors_left s2 + int (length fs) \<le> potential mx s1 + errors_left s1"
    using run_progress[OF b(1) e assms(6-8)] by blast
  obtain f where "f \<in> set fs" using assms(9) by (cases fs) auto
  then have "1 \<le> mx d" for d using assms(8) ao_driver.room[of "snd f" d] by (auto simp: ao_frames_ok_def)
  then have "p \<noteq> AO_Going" using r(4) potential_nonneg[of mx s2] b(2) assms(10) by auto
  moreover have "p = AO_Failed \<Longrightarrow> \<not> (steady_frames fs \<and> m_guidingEnabled (sg_mount s))"
    using run_steady[OF b(1) _ assms(6-8) _ _ r(1)] b(3,4) assms(5) by auto
  ultimately show ?thesis using r(1-3) by (cases p) auto
qed

definition example_ao :: StepGuider where
  "example_ao = (StepGuider_new
     \<lparr>sg_mount = Mount_new, m_samplesToAverage = 0, m_bumpPercentage = 0, m_bumpMaxStepsPerCycle = 0, m_bumpOnDither = False, m_xBumpPos1 = 0, m_xBumpPos2 = 0,
      m_yBumpPos1 = 0, m_yBumpPos2 = 0, m_bumpCenterTolerance = 0, m_xOffset = 0, m_yOffset = 0, m_avgOffset = PHD_Point_invalid,
      m_forceStartBump = False, m_bumpInProgress = False, m_bumpTimeoutAlertSent = False, m_bumpStartTime = 0, m_bumpStepWeight = 1,
      m_failedStep = (0, 0, 0, 0), m_calibrationStepsPerIteration = 0, m_calibrationIterations = 0, sg_startingLocation = PHD_Point_invalid,
      m_calibrationAverageSamples = 0, m_calibrationAveragedLocation = PHD_Point_invalid, sg_calibration = Calibration_default,
      sg_details = CalibrationDetails_default, sg_raSteps = [], sg_decSteps = [], sg_detProfile = None, sg_state = AO_CLEARED,
      sg_moves = [], sg_bumps = []\<rparr> 3 80 1 4 True)\<lparr>sg_mount := Mount_new\<lparr>m_connected := True\<rparr>\<rparr>"

lemma example_ao_fields [simp]:
  "sg_mount example_ao = Mount_new\<lparr>m_connected := True\<rparr>" "m_samplesToAverage example_ao = 3" "m_calibrationStepsPerIteration example_ao = 4"
  "ao_pos example_ao = (0, 0)" "sg_moves example_ao = []" "sg_bumps example_ao = []"
  by (simp_all add: example_ao_def StepGuider_new_def ao_SetSamplesToAverage_def SetBumpMaxStepsPerCycle_def
      SetCalibrationStepsPerIteration_def ao_pos_def Let_def)

theorem ao_calibration_ends_witness:
  "\<exists>s2. ao_cal_run \<lparr>ae_focalLength = 500, ae_imageScale = 1, ae_rotatorAngle = 0, ae_binning = 1\<rparr>
      (replicate 600 (PHD_Point_new 5 6, sim_driver 45)) (snd (ao_BeginCalibration (PHD_Point_new 5 6) example_ao)) = Some (AO_Done, s2) \<and>
    Mount_IsCalibrated (sg_mount s2)"
proof -
  let ?e = "\<lparr>ae_focalLength = 500, ae_imageScale = 1, ae_rotatorAngle = 0, ae_binning = 1\<rparr>"
  let ?fs = "replicate 600 (PHD_Point_new 5 6, sim_driver 45)" and ?mx = "\<lambda>d::GUIDE_DIRECTION. 45::int"
  let ?s = "snd (ao_BeginCalibration (PHD_Point_new 5 6) example_ao)"
  have "ao_BeginCalibration (PHD_Point_new 5 6) example_ao = (False, ?s)"
    by (simp add: ao_BeginCalibration_def Mount_IsConnected_def Let_def)
  moreover have "ao_settings ?mx example_ao" by (simp add: ao_settings_def in_travel_def)
  moreover have "ao_frames_ok ?mx ?fs" using sim_ao.ao_driver_axioms by (simp add: ao_frames_ok_def sim_driver_def)
  moreover have "steady_frames ?fs" by (simp add: steady_frames_def sim_driver_def)
  ultimately show ?thesis
    using ao_calibration_ends[of "PHD_Point_new 5 6" example_ao ?s ?mx ?fs ?e]
    by (auto simp: Mount_new_def MAX_CALIBRATION_MOVE_ERRORS_def travel_x_def travel_y_def ao_frame_bound_def)
qed

text \<open>C8: ao_stays_in_travel.  Whatever is asked of the device, its position stays within its travel, and it
can be sent to its centre at any time: the moves hit no assertion, and without an error it is there.\<close>

theorem ao_stays_in_travel:
  assumes "ao_driver drv" "in_travel (ad_MaxPosition drv) (ao_pos (am_ao g))" "ao_reach xo yo drv g g1"
  shows "in_travel (ad_MaxPosition drv) (ao_pos (am_ao g1)) \<and>
    (\<exists>err s. MoveToCenter drv (am_ao g1) = Some (err, s) \<and> in_travel (ad_MaxPosition drv) (ao_pos s) \<and> (\<not> err \<longrightarrow> ao_pos s = (0, 0)))"
  using ao_driver.reach_travel[OF assms(1,3,2)] ao_driver.MoveToCenter_total[OF assms(1)] by blast

definition example_am :: "(unit, unit) AoMount" where
  "example_am = \<lparr>am_ao = example_ao, am_x = None, am_y = None, am_lastStep = m_lastStep (example_gm () ())\<rparr>"

theorem ao_stays_in_travel_witness:
  "\<exists>g1. ao_event identity_ops identity_ops (sim_driver 45) (AE_MoveAxis UP 60 MOVEOPT_MANUAL) example_am = Some g1 \<and>
    ao_pos (am_ao g1) = (0, 44) \<and> in_travel (\<lambda>d. 45) (ao_pos (am_ao g1))"
proof -
  obtain g1 where g1: "ao_event identity_ops identity_ops (sim_driver 45) (AE_MoveAxis UP 60 MOVEOPT_MANUAL) example_am = Some g1"
      "ao_pos (am_ao g1) = (0, 44)"
    using example_ao_fields(4) by (simp add: ao_event_def ao_MoveAxis_def ao_MoveAxis_info_def ao_step_def sim_driver_def WouldHitLimit_def
        example_am_def opt_set_def MOVEOPT_MANUAL_def ao_pos_def Mount_new_def)
  have "ao_reach identity_ops identity_ops (sim_driver 45) example_am g1" using ao_reach.event[OF ao_reach.start g1(1)] .
  moreover have "in_travel (ad_MaxPosition (sim_driver 45)) (ao_pos (am_ao example_am))" by (simp add: example_am_def in_travel_def sim_driver_def)
  ultimately have "in_travel (ad_MaxPosition (sim_driver 45)) (ao_pos (am_ao g1))"
    using ao_stays_in_travel[OF sim_ao.ao_driver_axioms] by blast
  then show ?thesis using g1 by (simp add: sim_driver_def)
qed

definition norm2 :: "real \<Rightarrow> real \<Rightarrow> real" where "norm2 x y = x * x + y * y"

lemma norm2_scale: "norm2 (x * k) (y * k) = norm2 x y * k\<^sup>2"
  by (simp add: norm2_def power2_eq_square algebra_simps)

lemma norm2_nonneg [simp]: "0 \<le> norm2 x y"
  by (simp add: norm2_def)

lemma norm2_clip: "0 < norm2 u v \<Longrightarrow> norm2 (u * (m / sqrt (norm2 u v))) (v * (m / sqrt (norm2 u v))) = m\<^sup>2"
  by (simp only: norm2_scale power_divide real_sqrt_pow2 norm2_nonneg) simp

lemma large_bump_bound:
  assumes "large_bump be ofs = Some (x, y)"
  shows "norm2 x y \<le> norm2 (pX (cameraOfs ofs)) (pY (cameraOfs ofs))" "norm2 x y \<le> (real_of_int (be_maxMovePixels be) * 0.5)\<^sup>2"
proof -
  let ?m = "real_of_int (be_maxMovePixels be) * 0.5" and ?x = "pX (cameraOfs ofs) * 0.7" and ?y = "pY (cameraOfs ofs) * 0.7"
  have small: "norm2 ?x ?y \<le> norm2 (pX (cameraOfs ofs)) (pY (cameraOfs ofs))"
    unfolding norm2_scale by (simp add: mult_left_le power2_eq_square)
  have r: "(x, y) = (if norm2 ?x ?y > ?m * ?m then (?x * (?m / sqrt (norm2 ?x ?y)), ?y * (?m / sqrt (norm2 ?x ?y))) else (?x, ?y))"
    using assms by (auto simp: large_bump_def p_scale_def norm2_def Let_def split: if_splits)
  have "norm2 x y \<le> norm2 ?x ?y \<and> norm2 x y \<le> ?m\<^sup>2"
  proof (cases "norm2 ?x ?y > ?m * ?m")
    case True
    moreover have "0 < norm2 ?x ?y" using True by (metis norm2_nonneg not_less order_le_less zero_le_square)
    ultimately have "norm2 x y = ?m\<^sup>2" using r norm2_clip[of ?x ?y ?m] by (simp only: if_True prod.inject)
    then show ?thesis using True by (simp only: power2_eq_square) simp
  next
    case False
    then have "x = ?x" "y = ?y" using r by (simp_all only: if_False prod.inject)
    then show ?thesis using False by (simp only: power2_eq_square not_less order_refl simp_thms)
  qed
  then show "norm2 x y \<le> norm2 (pX (cameraOfs ofs)) (pY (cameraOfs ofs))" "norm2 x y \<le> ?m\<^sup>2" using small by simp_all
qed

lemma gentle_bump_bound:
  assumes "gentle_bump be ofs s = Some (x, y)"
  shows "norm2 x y \<le> norm2 (pX (cameraOfs ofs)) (pY (cameraOfs ofs))"
proof -
  let ?m = "norm2 (pX (cameraOfs ofs)) (pY (cameraOfs ofs))"
  let ?len = "p_Distance (bump_vector s)"
  define u where "u = pX (bump_vector s) * (xRate (sg_calibration s) * m_bumpMaxStepsPerCycle s * bump_weight be s) / ?len"
  define v where "v = pY (bump_vector s) * (yRate (sg_calibration s) * m_bumpMaxStepsPerCycle s * bump_weight be s) / ?len"
  have "gentle_bump be ofs s = (if ?len = 0 then None
      else if norm2 u v > ?m then Some (u * sqrt (?m / norm2 u v), v * sqrt (?m / norm2 u v)) else Some (u, v))"
    by (simp only: gentle_bump_def Let_def u_def v_def norm2_def)
  then have r: "(x, y) = (if norm2 u v > ?m then (u * sqrt (?m / norm2 u v), v * sqrt (?m / norm2 u v)) else (u, v))"
    using assms by (auto split: if_splits)
  show ?thesis
  proof (cases "norm2 u v > ?m")
    case True
    then have "0 < norm2 u v" using norm2_nonneg order_le_less_trans by blast
    then show ?thesis using True r by (simp add: norm2_scale)
  qed (use r in simp)
qed

text \<open>C29: bumps_are_gentle.  A guide step of the adaptive optics device schedules at most one bump, only while a
bump is in progress and the secondary mount is idle; it is never larger than the offset of the star, and
after an exceeded travel not larger than half of the largest move either.\<close>

theorem bumps_are_gentle:
  assumes "ao_MoveOffset xo yo drv mi be ofs opts g = Some (r, ofs1, g1)" "sg_bumps (am_ao g1) \<noteq> sg_bumps (am_ao g)"
  shows "\<exists>b. sg_bumps (am_ao g1) = sg_bumps (am_ao g) @ [b] \<and> (\<exists>c. be_secondary be = Some (False, c)) \<and> m_bumpInProgress (am_ao g1) \<and>
    (case b of None \<Rightarrow> \<not> raLimited (am_lastStep g1) \<and> \<not> decLimited (am_lastStep g1) | Some (x, y) \<Rightarrow>
       norm2 x y \<le> norm2 (pX (cameraOfs ofs)) (pY (cameraOfs ofs)) \<and>
       (raLimited (am_lastStep g1) \<or> decLimited (am_lastStep g1) \<longrightarrow> norm2 x y \<le> (real_of_int (be_maxMovePixels be) * 0.5)\<^sup>2))"
proof -
  obtain r0 g0 where m: "ao_Mount_MoveOffset xo yo drv mi ofs opts g = Some (r0, ofs1, g0)"
    and c: "sg_bumps (am_ao g1) = sg_bumps (am_ao g0) \<or>
     (\<exists>g2. ao_bump be ofs1 g2 = Some g1 \<and> sg_bumps (am_ao g2) = sg_bumps (am_ao g0) \<and> m_bumpInProgress (am_ao g2) \<and>
       (\<exists>c. be_secondary be = Some (False, c)))" by (rule ao_MoveOffset_cases[OF assms(1)]) (rule that)
  have k: "sg_bumps (am_ao g0) = sg_bumps (am_ao g)" "cameraOfs ofs1 = cameraOfs ofs"
    using moved_only_fields[OF Mount_MoveOffset_moved[OF m]] Mount_MoveOffset_cases(1)[OF m] by simp_all
  obtain g2 where g2: "ao_bump be ofs1 g2 = Some g1" "sg_bumps (am_ao g2) = sg_bumps (am_ao g)" "m_bumpInProgress (am_ao g2)"
    "\<exists>c. be_secondary be = Some (False, c)" using c assms(2) k(1) by auto
  let ?lim = "decLimited (am_lastStep g2) \<or> raLimited (am_lastStep g2)"
  obtain b where b: "(if ?lim then map_option Some (large_bump be ofs1) else Some (gentle_bump be ofs1 (am_ao g2))) = Some b"
    and g1: "Some (g2\<lparr>am_ao := (am_ao g2)\<lparr>sg_bumps := sg_bumps (am_ao g2) @ [b]\<rparr>\<rparr>) = Some g1"
    using g2(1)[unfolded ao_bump_def bind_eq_Some_conv] by (elim exE conjE)
  have "case b of None \<Rightarrow> \<not> ?lim | Some (x, y) \<Rightarrow> norm2 x y \<le> norm2 (pX (cameraOfs ofs)) (pY (cameraOfs ofs)) \<and>
       (?lim \<longrightarrow> norm2 x y \<le> (real_of_int (be_maxMovePixels be) * 0.5)\<^sup>2)"
  proof (cases ?lim)
    case True
    then obtain x y where "large_bump be ofs1 = Some (x, y)" "b = Some (x, y)" using b by auto
    then show ?thesis using large_bump_bound[of be ofs1 x y] k(2) by simp
  next
    case False
    then show ?thesis using b gentle_bump_bound[of be ofs1 "am_ao g2"] k(2) by (auto split: option.splits)
  qed
  moreover have "sg_bumps (am_ao g1) = sg_bumps (am_ao g) @ [b]" "m_bumpInProgress (am_ao g1)" "am_lastStep g1 = am_lastStep g2"
    using g2(2,3) by (simp_all only: g1[THEN option.inject[THEN iffD1], symmetric]) simp_all
  ultimately show ?thesis using g2(4) by (intro exI[of _ b]) (auto split: option.splits)
qed

text \<open>A device near the end of its travel, and a step that exceeds it.\<close>

definition example_far :: "(unit, unit) AoMount" where
  "example_far = \<lparr>am_ao = example_ao\<lparr>sg_mount := Mount_new\<lparr>m_connected := True, m_xRate := 1, m_cal := Calibration_default\<lparr>yRate := 1\<rparr>\<rparr>,
      m_xOffset := 40, m_yOffset := 0, m_xBumpPos1 := 36, m_xBumpPos2 := 40, m_yBumpPos1 := 36, m_yBumpPos2 := 40,
      m_bumpCenterTolerance := 9, m_forceStartBump := False, m_bumpInProgress := False, m_bumpTimeoutAlertSent := False,
      m_bumpStepWeight := 1\<rparr>, am_x = None, am_y = None, am_lastStep = m_lastStep (example_gm () ())\<rparr>"

definition example_bump :: BumpEnv where
  "example_bump = \<lparr>be_secondary = Some (False, True), be_now = 0, be_maxMovePixels = 15, be_settling = False, be_boost = 3\<rparr>"

lemma example_amounts: "requested_amount 0 (- 10) 1 = 10" "requested_amount 0 0 1 = 0"
proof -
  have "ROUND 10 = 10" "ROUND 0 = 0" by (simp_all add: ROUND_def)
  then show "requested_amount 0 (- 10) 1 = 10" "requested_amount 0 0 1 = 0" by (simp_all add: requested_amount_def c_int_def c_trunc_def)
qed

lemma example_limited_step:
  assumes "m_guidingEnabled (sg_mount s)" "m_xOffset s = 40"
  shows "ao_MoveAxis_info (sim_driver 45) RIGHT 10 opts s =
    Some (MOVE_OK, \<lparr>amountMoved = 4, limited = True\<rparr>, s\<lparr>m_xOffset := 44, m_yOffset := m_yOffset s\<rparr>)"
  using assms by (simp add: ao_MoveAxis_info_def ao_step_def sim_driver_def WouldHitLimit_def Let_def)

lemma zero_step: "m_guidingEnabled (sg_mount s) \<Longrightarrow> ao_MoveAxis_info drv d 0 opts s = Some (MOVE_OK, \<lparr>amountMoved = 0, limited = False\<rparr>, s)"
  by (simp add: ao_MoveAxis_info_def)

lemma example_far_fields [simp]:
  "sg_mount (am_ao example_far) = Mount_new\<lparr>m_connected := True, m_xRate := 1, m_cal := Calibration_default\<lparr>yRate := 1\<rparr>\<rparr>"
  "m_xOffset (am_ao example_far) = 40" "m_xBumpPos1 (am_ao example_far) = 36" "m_bumpInProgress (am_ao example_far) = False"
  "am_x example_far = None" "am_y example_far = None" "sg_bumps (am_ao example_far) = []" "m_avgOffset (am_ao example_far) = PHD_Point_invalid"
  "m_bumpCenterTolerance (am_ao example_far) = 9" "m_forceStartBump (am_ao example_far) = False" "m_yOffset (am_ao example_far) = 0"
  "m_bumpStepWeight (am_ao example_far) = 1"
  by (simp_all add: example_far_def example_ao_def StepGuider_new_def ao_SetSamplesToAverage_def SetBumpMaxStepsPerCycle_def
      SetCalibrationStepsPerIteration_def Let_def)

lemma example_bump_axes:
  "\<exists>g1. ao_move_axes (sim_driver 45) example_move o1 opts (- 10) 0 example_far = Some (MOVE_OK, g1) \<and>
    am_ao g1 = (am_ao example_far)\<lparr>m_xOffset := 44, m_yOffset := 0\<rparr> \<and> raLimited (am_lastStep g1)"
  using example_limited_step[of "am_ao example_far" opts] example_amounts
  by (simp add: ao_move_axes_def x_direction_def y_direction_def example_move_def Mount_new_def zero_step)

lemma example_bump_step:
  "\<exists>g1. ao_MoveOffset identity_ops identity_ops (sim_driver 45) example_move example_bump
      \<lparr>cameraOfs = PHD_Point_new 3 4, mountOfs = PHD_Point_new (- 10) 0\<rparr> (option_bits MOVEOPTS_GUIDE_STEP) example_far =
    Some (MOVE_OK, \<lparr>cameraOfs = PHD_Point_new 3 4, mountOfs = PHD_Point_new (- 10) 0\<rparr>, g1) \<and> sg_bumps (am_ao g1) \<noteq> sg_bumps (am_ao example_far)"
proof -
  let ?o = "\<lparr>cameraOfs = PHD_Point_new 3 4, mountOfs = PHD_Point_new (- 10) 0\<rparr>" and ?opts = "option_bits MOVEOPTS_GUIDE_STEP"
  obtain g1 where g1: "ao_move_axes (sim_driver 45) example_move ?o ?opts (- 10) 0 example_far = Some (MOVE_OK, g1)"
    "am_ao g1 = (am_ao example_far)\<lparr>m_xOffset := 44, m_yOffset := 0\<rparr>" "raLimited (am_lastStep g1)" using example_bump_axes by blast
  have "example_far\<lparr>am_x := None, am_y := None\<rparr> = example_far" by (simp add: example_far_def)
  then have e: "ao_move_axes (sim_driver 45) example_move ?o ?opts (- 10) 0 (example_far\<lparr>am_x := None, am_y := None\<rparr>) = Some (MOVE_OK, g1)"
    using g1(1) by (simp only:)
  have m: "ao_Mount_MoveOffset identity_ops identity_ops (sim_driver 45) example_move ?o ?opts example_far = Some (MOVE_OK, ?o, g1)"
    using e by (simp add: ao_Mount_MoveOffset_def algo_result_def Let_def)
  let ?s = "consider_bump example_bump False (track_offset (am_ao g1))"
  have "m_bumpInProgress ?s" using g1(2)
    by (simp add: consider_bump_def track_offset_def bump_outside_def Let_def example_bump_def PHD_Point_invalid_def p_SetXY_def)
  moreover have "ao_bump example_bump ?o (g1\<lparr>am_ao := ?s\<rparr>) = Some (g1\<lparr>am_ao := ?s\<lparr>sg_bumps := sg_bumps ?s @ [Some (2.1, 2.8)]\<rparr>\<rparr>)"
    using g1(3) by (simp add: ao_bump_def large_bump_def p_scale_def example_bump_def Let_def)
  moreover have "m_guidingEnabled (sg_mount (am_ao g1))" "be_secondary example_bump = Some (False, True)" "sg_bumps ?s = []"
    using g1(2) by (simp_all add: Mount_new_def example_bump_def)
  ultimately show ?thesis using m by (auto simp: ao_MoveOffset_def Let_def)
qed

theorem bumps_are_gentle_witness:
  "\<exists>r o1 g1 b. ao_MoveOffset identity_ops identity_ops (sim_driver 45) example_move example_bump
      \<lparr>cameraOfs = PHD_Point_new 3 4, mountOfs = PHD_Point_new (- 10) 0\<rparr> (option_bits MOVEOPTS_GUIDE_STEP) example_far = Some (r, o1, g1) \<and>
    sg_bumps (am_ao g1) = [b] \<and> m_bumpInProgress (am_ao g1)"
proof -
  let ?o = "\<lparr>cameraOfs = PHD_Point_new 3 4, mountOfs = PHD_Point_new (- 10) 0\<rparr>" and ?opts = "option_bits MOVEOPTS_GUIDE_STEP"
  obtain g1 where g1: "ao_MoveOffset identity_ops identity_ops (sim_driver 45) example_move example_bump ?o ?opts example_far = Some (MOVE_OK, ?o, g1)"
    "sg_bumps (am_ao g1) \<noteq> sg_bumps (am_ao example_far)" using example_bump_step by blast
  then show ?thesis using bumps_are_gentle[OF g1] by auto
qed

end
