(* ===== verification/Spec2Isabelle.thy ===== *)
theory Spec2Isabelle
  imports Static_Polar Assistant_Math Backlash_Tool Guider_Prelude Circ_Buf Guiding_Stats Guide_Algorithms Lowpass_Algorithms Phd_Point
    Guider_State Phd_Controller Mount_Calibration Backlash_Comp Scope_Calibration Scope_Mount Mount_Moves Guide_Session
    Block_Allocator Json_Parser Json_Document Json_Format Star_Find Multi_Star
    Image_Medians Image_Filters Image_Resample Image_Stats Median_Window Defect_Map Star_Peaks Auto_Find
    Step_Guider
begin

text \<open>
  \<^bold>\<open>OpenAstro Guider: a verification development.\<close>

  The program (\<open>src/src/\<close>, a fork of PHD2) keeps a telescope pointed at a star.  A camera takes frames; the guider
  finds its star in each of them, the offset of the star from a lock position is turned into the coordinates of the
  mount, the guide algorithms decide how much of it to correct, and the mount is moved by pulses.  Around this
  loop lie the calibration of the mount (pulses in known directions, from which angles and rates are measured),
  the controller that executes requests to guide and to dither, the preparation of frames (darks, defects, filters),
  and an event server that talks JSON to clients.

  \<^bold>\<open>Frames and stars.\<close>
  \<^item> \<open>Image_Medians\<close>, \<open>Image_Stats\<close>, \<open>Image_Filters\<close>, \<open>Image_Resample\<close>, \<open>Median_Window\<close>: \<open>image_math.cpp\<close>,
    \<open>image_math.h\<close>, \<open>usImage.cpp\<close> and the capture of \<open>camera.cpp\<close>.  The swap chains, the histograms and the sliding window are
    equal to order statistics; the statistics of a frame, the subtraction of a dark frame and the median filter
    are given pixel by pixel; binning and squaring of pixels do not leave their buffers.
  \<^item> \<open>Ordered_Set\<close>, \<open>Defect_Map\<close>: the map of defective pixels of \<open>image_math.cpp\<close>; the builder takes the pixels of largest
    deviation, and a defective pixel is replaced by the median of good neighbours.
  \<^item> \<open>Star_Find\<close>: \<open>star_find_core.cpp\<close> and the class \<open>Star\<close>; no pixel outside of the frame is read, a result is always
    given, and a star that is reported has passed its limits and lies near a peak.
  \<^item> \<open>Star_Peaks\<close>, \<open>Auto_Find\<close>: \<open>GuideStar::AutoFind\<close> of \<open>star.cpp\<close>, the saturation level of \<open>camera.cpp\<close> and the automatic
    selection of \<open>guider_multistar.cpp\<close>.  \<open>Star_Example\<close> evaluates the search on a frame with a star, for the examples.
  \<^item> \<open>Multi_Star\<close>: \<open>guider_multistar.cpp\<close>; the mass and distance checks, the refinement of the offset by secondary stars
    (which never enlarges it) and the position update.

  \<^bold>\<open>Guiding.\<close>
  \<^item> \<open>Phd_Point\<close>: \<open>point.h\<close>.  \<open>Guider_State\<close>: the state machine, the lock position and the handling of a frame in
    \<open>guider.cpp\<close>; the mounts are a record of functions with the contract of the locale \<open>calibratable_mount\<close>, the virtual
    functions of the tracking are another one.  The log of a guider holds the guide corrections that it passes to the primary mount
    (\<open>SchedulePrimaryMove\<close>); the axis moves of a calibration and of the measurement of backlash belong to those.
  \<^item> \<open>Phd_Controller\<close>: \<open>phdcontrol.cpp\<close>; each request is answered by exactly one notification within the frames its settings
    give.  The mount of the controller is the locale \<open>dec_mode_mount\<close>.
  \<^item> \<open>Guide_Algorithms\<close>, \<open>Lowpass_Algorithms\<close>: \<open>guide_algorithm*.cpp\<close> with a common contract, the locales \<open>guide_algorithm\<close>
    and \<open>bounded_guide_algorithm\<close>, interpreted on each of them.  \<open>Circ_Buf\<close>, \<open>Guiding_Stats\<close>: \<open>circbuf.h\<close> (a refinement of lists)
    and \<open>guiding_stats.cpp\<close> (running statistics equal those of the data held, the fit is the least-squares line).

  \<^bold>\<open>Mounts.\<close>
  \<^item> \<open>Mount_Calibration\<close>: \<open>mount.cpp\<close> and \<open>calibration_transform.cpp\<close>, the round trip between camera and mount axes.
    \<open>Scope_Calibration\<close>: \<open>scope.cpp\<close>, settings, pulses and the calibration state machine, which ends for every motion of the
    star.  \<open>Backlash_Comp\<close>: \<open>backlash_comp.cpp\<close>.  \<open>Scope_Mount\<close>, \<open>Mount_Moves\<close>: the calibration that follows the telescope, and a
    guide step from the offset to the pulses.
  \<^item> \<open>Step_Guider\<close>: \<open>stepguider.cpp\<close>, the adaptive optics device.  Its driver has the contract of the locale \<open>ao_driver\<close>, which the
    simulator of \<open>gear_simulator.cpp\<close> satisfies; the calibration ends for every driver with that contract.
  \<^item> \<open>Guide_Session\<close> plugs the telescope into the guider and the controller: the interpretations of their locales, and
    the properties of a whole session.

  \<^bold>\<open>The event server.\<close>
  \<^item> \<open>Block_Allocator\<close>, \<open>Json_Parser\<close>, \<open>Json_Document\<close>: \<open>json_parser.cpp\<close> as it is, in place on a buffer and a store of linked nodes; what
    it promises is a tree.  \<open>Json_Format\<close>: the escaping and formatting of \<open>event_server.cpp\<close>, and the round trip.

  \<^bold>\<open>Tools.\<close>
  \<^item> \<open>Assistant_Math\<close>: \<open>guiding_assistant_math.cpp\<close>, what the guiding assistant measures and recommends, and the plan that applies it.  The
    recommendation of minimal moves is found when the samples are dense, and never when a gap of two minutes is among them.
  \<^item> \<open>Static_Polar\<close>: \<open>staticpa_geometry.cpp\<close>, the circle of rotation, the corrections and precession, and the state machine of
    \<open>staticpa_toolwin.cpp\<close> that turns the mount: never more than 90 degrees, never to the east.
  \<^item> \<open>Backlash_Tool\<close>: the tool of \<open>backlash_comp.cpp\<close> that measures the backlash in declination, in the measurement mode of the
    guider; a measurement ends within the frames that its pulses give, and for an ideal mount the result is bounded on both sides.

  \<open>Guider_Prelude\<close> holds the macros of \<open>phd.h\<close>, the conversions of C and the locales \<open>event_machine\<close> and \<open>partial_machine\<close>:
  an invariant of a state and its operations, from which every theory with operations gets the induction
  over their sequences.

  \<^bold>\<open>Conventions.\<close>  A class is a record, an enumeration a datatype, a virtual function a field of a record of functions.
  Devices, clocks, random numbers, the configuration and the user are inputs of an operation.  A failed assertion, a null
  dereference, an access outside of an array and undefined behaviour are \<^term>\<open>None\<close>, so that a theorem that gives \<^term>\<open>Some\<close>
  states their absence; an exception caught in the function is the branch it leads to.  A conversion that C leaves
  undetermined is an argument (\<open>bad\<close>, \<open>junk\<close>) that the theorems quantify over.  Floating-point numbers are reals, and a
  possible NaN is an option.  Pixels are 16-bit words, read as integers where the code computes
  with them; options of moves are 32-bit words.

  \<^bold>\<open>Termination.\<close>  Every loop is structural recursion or has a measure, except the scan of windows of \<open>Assistant_Math\<close>, which
  does not end for every input and is a \<open>partial_function\<close>; there is no fuel.  State machines that the camera
  drives are run over a list of frames, and their theorems give the length that is enough: 249 frames and the clearing pulses
  (eight, or as many as fit into sixty seconds) for the calibration of a telescope, three times the travel and three averages for that of an adaptive
  optics device, the frames of its settings for a request to the controller.

  \<^bold>\<open>Not modelled.\<close>  Windows, dialogs, graphs, logs, files, sockets, threads and the drivers of devices: input and output, or glue of
  wxWidgets.  The predictive algorithm with Gaussian processes rests on the matrices of Eigen.  The handlers of the
  event server read and write the settings of the other components.  Logging, display and persistence inside of modelled functions are left out.
  Rounding of floating-point numbers is not modelled.  Saving and loading of defect maps are left out.
\<close>

end
